(* ===== verification/Prelude.thy ===== *)
theory Prelude
  imports Main "HOL-Library.Word" "HOL-Library.Monad_Syntax"
begin

text \<open>
  Shared vocabulary of the development: machine integers, \<open>absl::Status\<close> values,
  \<open>absl::Duration\<close> values, the fatal \<open>CHECK\<close> macros, the ordered containers
  \<open>absl::btree_map\<close> and \<open>absl::btree_set\<close> as strictly sorted lists, and the collections of
  rewrite rules the component proofs use.

  Conventions. A C++ function that may stop the simulator (\<open>CHECK\<close>, \<open>CHECK_OK\<close>,
  \<open>LOG(FATAL)\<close>) has result type \<open>_ option\<close> and \<open>None\<close> means the process aborted. A C++ function
  that returns an \<open>absl::Status\<close> returns a value of type \<open>status\<close>; an
  \<open>absl::StatusOr<T>\<close> is a value of \<open>status + 'a\<close>. \<open>uint32_t\<close>, \<open>uint16_t\<close>,
  \<open>uint8_t\<close> and \<open>uint64_t\<close> are words of their width and wrap. Signed \<open>int\<close> and \<open>int32_t\<close> are
  HOL integers: signed overflow is undefined in C++, so the model agrees with every
  defined execution.
\<close>

section \<open>Machine integers\<close>

type_synonym u8 = "8 word"
type_synonym u16 = "16 word"
type_synonym u32 = "32 word"
type_synonym u64 = "64 word"

section \<open>Rule collections\<close>

named_theorems check_simps \<open>unfolding of the fatal checks\<close>
named_theorems ordered_simps \<open>facts on the ordered containers\<close>

section \<open>Status values and fatal checks\<close>

datatype status =
    OkStatus
  | AlreadyExistsError
  | NotFoundError
  | FailedPreconditionError
  | OutOfRangeError
  | ResourceExhaustedError
  | UnavailableError
  | InvalidArgumentError
  | InternalError
  | UnknownError
  | UnimplementedError

definition check :: "bool \<Rightarrow> unit option" where
  "check b = (if b then Some () else None)"

definition check_ok :: "status \<Rightarrow> unit option" where
  "check_ok s = check (s = OkStatus)"

definition check_ok_then_assign :: "status + 'a \<Rightarrow> 'a option" where
  "check_ok_then_assign r = (case r of Inl _ \<Rightarrow> None | Inr x \<Rightarrow> Some x)"

lemma check_simp [simp, check_simps]: "check True = Some ()" "check False = None"
  by (simp_all add: check_def)

lemma check_bind [simp, check_simps]:
  "Option.bind (check b) f = (if b then f () else None)"
  by (simp add: check_def)

lemma check_ok_simp [simp, check_simps]: "check_ok s = check (s = OkStatus)"
  by (simp add: check_ok_def)

lemma check_ok_then_assign_simps [simp, check_simps]:
  "check_ok_then_assign (Inl e) = None" "check_ok_then_assign (Inr x) = Some x"
  by (simp_all add: check_ok_then_assign_def)

lemma check_eq_Some [simp, check_simps]: "check b = Some u \<longleftrightarrow> b"
  by (simp add: check_def)

section \<open>Durations\<close>

text \<open>
  \<open>absl::Duration\<close>: finite values in ticks, and the two infinities. Finite values are unbounded
  integers (the simulated times stay far below the saturation bound of \<open>absl\<close>); the
  infinities absorb as documented by \<open>absl\<close>.
\<close>

datatype duration = NegInfiniteDuration | Ticks int | InfiniteDuration

abbreviation ZeroDuration :: duration where
  "ZeroDuration \<equiv> Ticks 0"

fun duration_rank :: "duration \<Rightarrow> int \<times> int" where
  "duration_rank NegInfiniteDuration = (-1, 0)"
| "duration_rank (Ticks n) = (0, n)"
| "duration_rank InfiniteDuration = (1, 0)"

instantiation duration :: linorder
begin

fun less_eq_duration :: "duration \<Rightarrow> duration \<Rightarrow> bool" where
  "less_eq_duration NegInfiniteDuration _ = True"
| "less_eq_duration (Ticks _) NegInfiniteDuration = False"
| "less_eq_duration (Ticks a) (Ticks b) = (a \<le> b)"
| "less_eq_duration (Ticks _) InfiniteDuration = True"
| "less_eq_duration InfiniteDuration InfiniteDuration = True"
| "less_eq_duration InfiniteDuration _ = False"

definition less_duration :: "duration \<Rightarrow> duration \<Rightarrow> bool" where
  "less_duration a b \<longleftrightarrow> a \<le> b \<and> \<not> b \<le> a"

instance
proof
  fix a b c :: duration
  show "(a < b) = (a \<le> b \<and> \<not> b \<le> a)" by (simp add: less_duration_def)
  show "a \<le> a" by (cases a) auto
  show "a \<le> b \<Longrightarrow> b \<le> c \<Longrightarrow> a \<le> c" by (cases a; cases b; cases c) auto
  show "a \<le> b \<Longrightarrow> b \<le> a \<Longrightarrow> a = b" by (cases a; cases b) auto
  show "a \<le> b \<or> b \<le> a" by (cases a; cases b) auto
qed

end

instantiation duration :: plus
begin

fun plus_duration :: "duration \<Rightarrow> duration \<Rightarrow> duration" where
  "plus_duration InfiniteDuration _ = InfiniteDuration"
| "plus_duration NegInfiniteDuration _ = NegInfiniteDuration"
| "plus_duration (Ticks _) InfiniteDuration = InfiniteDuration"
| "plus_duration (Ticks _) NegInfiniteDuration = NegInfiniteDuration"
| "plus_duration (Ticks a) (Ticks b) = Ticks (a + b)"

instance ..

end

instantiation duration :: minus
begin

fun minus_duration :: "duration \<Rightarrow> duration \<Rightarrow> duration" where
  "minus_duration InfiniteDuration _ = InfiniteDuration"
| "minus_duration NegInfiniteDuration _ = NegInfiniteDuration"
| "minus_duration (Ticks _) InfiniteDuration = NegInfiniteDuration"
| "minus_duration (Ticks _) NegInfiniteDuration = InfiniteDuration"
| "minus_duration (Ticks a) (Ticks b) = Ticks (a - b)"

instance ..

end

lemma less_duration_simps [simp]:
  "Ticks a < Ticks b \<longleftrightarrow> a < b"
  "Ticks a < InfiniteDuration"
  "\<not> InfiniteDuration < d"
  "NegInfiniteDuration < Ticks a"
  by (auto simp: less_duration_def) (cases d; auto)+

lemma le_Infinite [simp]: "d \<le> InfiniteDuration"
  by (cases d) auto

lemma Infinite_le_iff [simp]: "InfiniteDuration \<le> d \<longleftrightarrow> d = InfiniteDuration"
  by (cases d) auto

section \<open>Ordered maps\<close>

text \<open>
  An \<open>absl::btree_map\<close> is a list of key-value pairs with strictly increasing keys, so
  that \<open>begin()\<close> is the head of the list and iteration is the list order.
\<close>

definition bt_wf :: "('k::linorder \<times> 'v) list \<Rightarrow> bool" where
  "bt_wf m \<longleftrightarrow> sorted_wrt (<) (map fst m)"

abbreviation bt_find :: "('k::linorder \<times> 'v) list \<Rightarrow> 'k \<Rightarrow> 'v option" where
  "bt_find m k \<equiv> map_of m k"

fun bt_set :: "'k::linorder \<Rightarrow> 'v \<Rightarrow> ('k \<times> 'v) list \<Rightarrow> ('k \<times> 'v) list" where
  "bt_set k v [] = [(k, v)]"
| "bt_set k v ((k', v') # m) =
     (if k < k' then (k, v) # (k', v') # m
      else if k = k' then (k, v) # m
      else (k', v') # bt_set k v m)"

definition bt_erase :: "'k::linorder \<Rightarrow> ('k \<times> 'v) list \<Rightarrow> ('k \<times> 'v) list" where
  "bt_erase k m = filter (\<lambda>(k', _). k' \<noteq> k) m"

lemma bt_wf_Nil [simp, ordered_simps]: "bt_wf []"
  by (simp add: bt_wf_def)

lemma bt_wf_Cons [simp, ordered_simps]:
  "bt_wf ((k, v) # m) \<longleftrightarrow> (\<forall>x \<in> set m. k < fst x) \<and> bt_wf m"
  by (simp add: bt_wf_def)

lemma set_bt_set_fst: "fst ` set (bt_set k v m) = insert k (fst ` set m)"
proof (induction m)
  case (Cons x m)
  then show ?case by (cases x) (simp add: insert_commute)
qed simp

lemma set_bt_set_subset: "set (bt_set k v m) \<subseteq> insert (k, v) (set m)"
  by (induction m) (auto split: if_splits)

lemma bt_wf_set [simp, ordered_simps]: "bt_wf m \<Longrightarrow> bt_wf (bt_set k v m)"
proof (induction m)
  case (Cons x m)
  then show ?case
    using set_bt_set_subset [of k v m] by (cases x) force
qed simp

lemma bt_wf_erase [simp, ordered_simps]: "bt_wf m \<Longrightarrow> bt_wf (bt_erase k m)"
  by (induction m) (auto simp: bt_erase_def)

lemma map_of_less_None:
  "\<forall>x \<in> set m. k < fst x \<Longrightarrow> map_of m (k :: 'k::linorder) = None"
  by (induction m) auto

lemma bt_find_set [simp, ordered_simps]:
  "bt_wf m \<Longrightarrow> bt_find (bt_set k v m) = (bt_find m)(k \<mapsto> v)"
proof (induction m)
  case (Cons x m)
  then show ?case
    by (cases x) (auto simp: fun_eq_iff)
qed auto

lemma bt_find_erase [simp, ordered_simps]:
  "bt_find (bt_erase k m) = (bt_find m)(k := None)"
  by (induction m) (auto simp: bt_erase_def fun_eq_iff)

lemma bt_wf_distinct: "bt_wf m \<Longrightarrow> distinct (map fst m)"
  by (simp add: bt_wf_def strict_sorted_iff)

lemma bt_erase_head [simp, ordered_simps]:
  "bt_wf ((k, v) # m) \<Longrightarrow> bt_erase k ((k, v) # m) = m"
  by (auto simp: bt_erase_def intro!: filter_True)

lemma bt_find_head_min:
  "bt_wf ((k, v) # m) \<Longrightarrow> bt_find ((k, v) # m) k' = Some w \<Longrightarrow> k \<le> k'"
  by (force dest: map_of_SomeD split: if_splits)

section \<open>Ordered sets\<close>

text \<open>
  An \<open>absl::btree_set\<close> over a comparator \<open>lt\<close>: elements that compare neither way are equal
  for the set. Insertion reports whether the element was new.
\<close>

fun bs_insert :: "('a \<Rightarrow> 'a \<Rightarrow> bool) \<Rightarrow> 'a \<Rightarrow> 'a list \<Rightarrow> bool \<times> 'a list" where
  "bs_insert lt x [] = (True, [x])"
| "bs_insert lt x (y # ys) =
     (if lt x y then (True, x # y # ys)
      else if lt y x then (case bs_insert lt x ys of (b, zs) \<Rightarrow> (b, y # zs))
      else (False, y # ys))"

fun bs_erase :: "('a \<Rightarrow> 'a \<Rightarrow> bool) \<Rightarrow> 'a \<Rightarrow> 'a list \<Rightarrow> bool \<times> 'a list" where
  "bs_erase lt x [] = (False, [])"
| "bs_erase lt x (y # ys) =
     (if \<not> lt x y \<and> \<not> lt y x then (True, ys)
      else (case bs_erase lt x ys of (b, zs) \<Rightarrow> (b, y # zs)))"

lemma set_bs_insert:
  "set (snd (bs_insert lt x ys)) = (if fst (bs_insert lt x ys) then insert x (set ys) else set ys)"
  by (induction ys) (auto split: prod.splits)

lemma bs_erase_subset: "set (snd (bs_erase lt x ys)) \<subseteq> set ys"
  by (induction ys) (auto split: prod.splits)

lemma bs_insert_length:
  "length (snd (bs_insert lt x ys)) = length ys + of_bool (fst (bs_insert lt x ys))"
  by (induction ys) (auto split: prod.splits)

lemma bs_erase_length:
  "length (snd (bs_erase lt x ys)) + of_bool (fst (bs_erase lt x ys)) = length ys"
  by (induction ys) (auto split: prod.splits)

section \<open>Word facts\<close>

lemma unat_plus_1 [simp]: "w \<noteq> - 1 \<Longrightarrow> unat (w + 1) = Suc (unat w)" for w :: "'a::len word"
proof -
  assume "w \<noteq> - 1"
  then have "1 + w \<noteq> 0"
    by (metis add.inverse_inverse add_eq_0_iff)
  then show ?thesis
    using unatSuc [of w] by (simp add: add.commute)
qed

end
