(* ===== verification/Falcon_Types.thy ===== *)
theory Falcon_Types
  imports Prelude "HOL-Library.Signed_Division"
begin

text \<open>
  The enumerations of \<open>host/falcon/falcon.h\<close>, \<open>host/falcon/falcon_types.h\<close> and
  \<open>common/packet.h\<close>, the packet record, the sequence-number comparators of
  \<open>falcon_protocol_connection_scheduler_types.h\<close> and the helpers of \<open>falcon_utils.cc\<close>.
  Enumerators keep the names of the source; where two enumerations share an enumerator name
  one of them carries a prefix (\<open>Syn_\<close> for ULP syndromes, \<open>Op_\<close> for RDMA opcodes,
  \<open>Q_\<close> for scheduler queues, \<open>W_\<close> for the retransmission queues).
\<close>

section \<open>Enumerations\<close>

datatype PacketType =
    kInvalid | kPullRequest | kPushRequest | kPushGrant | kPullData | kPushSolicitedData
  | kPushUnsolicitedData | kResync | kAck | kNack | kBack | kEack

datatype ResyncCode =
    kTargetUlpCompletionInError | kLocalXlrFlow | kTransactionTimedOut | kRemoteXlrFlow
  | kTargetUlpNonRecoverableError | kTargetUlpInvalidCidError

datatype NackCode =
    kNotANack | kRxResourceExhaustion | kUlpReceiverNotReady | kXlrDrop | kRxWindowError
  | kUlpCompletionInError | kUlpNonRecoverableError | kInvalidCidError

datatype TransactionType = kPull | kPushSolicited | kPushUnsolicited

datatype TransactionLocation = kInitiator | kTarget

datatype TransactionStage =
    UlpRx | UlpTx | UlpAckRx | UlpRnrRx | UlpCompletionTx | NtwkRx | NtwkTx | NtwkAckRx

datatype TransactionState =
    kInvalidState
  | kPullReqUlpRx | kPullDataUlpRx | kPushSolicitedReqUlpRx | kPushUnsolicitedReqUlpRx
  | kPullReqUlpTx | kPullDataUlpTx | kPushSolicitedDataUlpTx | kPushUnsolicitedDataUlpTx
  | kPushCompletionUlpTx
  | kPullReqAckUlpRx | kPushSolicitedDataAckUlpRx | kPushUnsolicitedDataAckUlpRx
  | kPullReqRnrUlpRx | kPushSolicitedDataRnrUlpRx | kPushUnsolicitedDataRnrUlpRx
  | kPullReqNtwkRx | kPullDataNtwkRx | kPushReqNtwkRx | kPushGrantNtwkRx
  | kPushSolicitedDataNtwkRx | kPushUnsolicitedDataNtwkRx | kResyncNtwkRx
  | kPullReqNtwkTx | kPullDataNtwkTx | kPushReqNtwkTx | kPushGrantNtwkTx
  | kPushSolicitedDataNtwkTx | kPushUnsolicitedDataNtwkTx
  | kPullDataAckNtwkRx | kPushSolicitedDataAckNtwkRx | kPushUnsolicitedDataAckNtwkRx

datatype PacketDirection = kOutgoing | kIncoming

datatype RetransmitReason =
  kTimeout | kEarlyOooDis | kEarlyRack | kEarlyTlp | kEarlyNack | kUlpRto

datatype Syndrome =
    Syn_kAck | kRnrNak | kPsnSeqErrNak | kInvReqNak | kRemoteAccessErrNak
  | kRemoteOperationalErrNak | kInvRDReqNak

datatype RdmaOpcode =
  Op_kInvalid | kSendOnly | kWriteOnly | kReadRequest | kReadResponseOnly | Op_kAck

datatype OrderingMode = kOrdered | kUnordered

datatype WindowType = kRequest | kData

datatype PacketBufferLocation = kSram | kDram

datatype PacketTypeQueue =
    kPullAndOrderedPushRequest | kUnorderedPushRequest | kPushData | Q_kPushGrant | Q_kPullData

datatype WindowTypeQueue = W_kRequest | W_kData

record TransactionKey =
  key_rsn :: u32
  key_location :: TransactionLocation

record UlpNackMetadata =
  ulp_nack_code :: Syndrome
  rnr_timeout :: duration

record UlpTransactionInfo =
  uti_rsn :: u32
  uti_type :: PacketType

record WorkId =
  work_rsn :: u32
  work_type :: PacketType

record RetransmissionWorkId =
  rwd_rsn :: u32
  rwd_psn :: u32
  rwd_type :: PacketType

section \<open>Packets\<close>

text \<open>
  The fields of \<open>struct Packet\<close> the modelled components read or write (the RoCE header, the
  time stamps of the packet builder and the static routes are not used by them).
\<close>

record Packet =
  packet_type :: PacketType
  metadata_scid :: u32
  metadata_sgl_length :: u32
  metadata_rdma_src_qp_id :: u32
  falcon_ack_req :: bool
  falcon_dest_cid :: u32
  falcon_rrbpsn :: u32
  falcon_rdbpsn :: u32
  falcon_psn :: u32
  falcon_rsn :: u32
  falcon_ssn :: u32
  falcon_request_length :: u16
  falcon_payload_length :: u16
  rdma_opcode :: RdmaOpcode
  rdma_rsn :: u32
  rdma_dest_qp_id :: u32
  rdma_data_length :: u32
  rdma_request_length :: u32

definition new_Packet :: Packet where
  "new_Packet = \<lparr>packet_type = kInvalid, metadata_scid = 0, metadata_sgl_length = 0,
     metadata_rdma_src_qp_id = 0,
     falcon_ack_req = False, falcon_dest_cid = 0, falcon_rrbpsn = 0, falcon_rdbpsn = 0,
     falcon_psn = 0, falcon_rsn = 0, falcon_ssn = 0, falcon_request_length = 0,
     falcon_payload_length = 0, rdma_opcode = Op_kInvalid, rdma_rsn = 0, rdma_dest_qp_id = 0,
     rdma_data_length = 0, rdma_request_length = 0\<rparr>"

section \<open>Sequence-number comparison\<close>

text \<open>The signed 32-bit distance decides, so that the comparison survives the wrap-around.\<close>

definition SeqLT :: "u32 \<Rightarrow> u32 \<Rightarrow> bool" where
  "SeqLT a b \<longleftrightarrow> sint (a - b) < 0"

definition SeqLEQ :: "u32 \<Rightarrow> u32 \<Rightarrow> bool" where
  "SeqLEQ a b \<longleftrightarrow> sint (a - b) \<le> 0"

definition SeqGT :: "u32 \<Rightarrow> u32 \<Rightarrow> bool" where
  "SeqGT a b \<longleftrightarrow> sint (a - b) > 0"

definition SeqGEQ :: "u32 \<Rightarrow> u32 \<Rightarrow> bool" where
  "SeqGEQ a b \<longleftrightarrow> sint (a - b) \<ge> 0"

definition work_less :: "RetransmissionWorkId \<Rightarrow> RetransmissionWorkId \<Rightarrow> bool" where
  "work_less a b = SeqLT (rwd_psn a) (rwd_psn b)"

section \<open>Packet classification\<close>

fun RdmaOpcodeToPacketType :: "Packet \<Rightarrow> u32 \<Rightarrow> PacketType option" where
  "RdmaOpcodeToPacketType packet solicited_write_threshold =
     (case rdma_opcode packet of
        kReadRequest \<Rightarrow> Some kPullRequest
      | kReadResponseOnly \<Rightarrow> Some kPullData
      | kWriteOnly \<Rightarrow>
          (if rdma_request_length packet \<ge> solicited_write_threshold then Some kPushRequest
           else Some kPushUnsolicitedData)
      | kSendOnly \<Rightarrow>
          (if rdma_request_length packet \<ge> solicited_write_threshold then Some kPushRequest
           else Some kPushUnsolicitedData)
      | Op_kAck \<Rightarrow> None
      | Op_kInvalid \<Rightarrow> None)"

definition BelongsToRequestWindow :: "PacketType \<Rightarrow> bool" where
  "BelongsToRequestWindow type \<longleftrightarrow> type = kPullRequest \<or> type = kPushRequest"

fun AckSyndromeToNackCode :: "Syndrome \<Rightarrow> NackCode" where
  "AckSyndromeToNackCode kRnrNak = kUlpReceiverNotReady"
| "AckSyndromeToNackCode _ = kNotANack"

fun IsFalconTransaction :: "PacketType \<Rightarrow> bool option" where
  "IsFalconTransaction kPullRequest = Some True"
| "IsFalconTransaction kPushRequest = Some True"
| "IsFalconTransaction kPushGrant = Some True"
| "IsFalconTransaction kPullData = Some True"
| "IsFalconTransaction kPushSolicitedData = Some True"
| "IsFalconTransaction kPushUnsolicitedData = Some True"
| "IsFalconTransaction kResync = Some True"
| "IsFalconTransaction kNack = Some False"
| "IsFalconTransaction kAck = Some False"
| "IsFalconTransaction kEack = Some False"
| "IsFalconTransaction kBack = Some False"
| "IsFalconTransaction kInvalid = None"

definition GetNextFalconPacket :: "PacketType \<Rightarrow> PacketType option" where
  "GetNextFalconPacket type =
     (if type = kPushRequest then Some kPushGrant
      else if type = kPushGrant then Some kPushSolicitedData
      else None)"

fun GetTransactionLocation :: "PacketType \<Rightarrow> bool \<Rightarrow> TransactionLocation option" where
  "GetTransactionLocation kPullRequest incoming = Some (if incoming then kTarget else kInitiator)"
| "GetTransactionLocation kPushRequest incoming = Some (if incoming then kTarget else kInitiator)"
| "GetTransactionLocation kPushSolicitedData incoming =
     Some (if incoming then kTarget else kInitiator)"
| "GetTransactionLocation kPushUnsolicitedData incoming =
     Some (if incoming then kTarget else kInitiator)"
| "GetTransactionLocation kPullData incoming = Some (if incoming then kInitiator else kTarget)"
| "GetTransactionLocation kPushGrant incoming = Some (if incoming then kInitiator else kTarget)"
| "GetTransactionLocation _ incoming = None"

section \<open>Buffer credit arithmetic\<close>

definition kFixedTxContextSize :: int where "kFixedTxContextSize = 64"
definition kFixedTxMetadataSize :: int where "kFixedTxMetadataSize = 8"
definition kFixedRxContextSize :: int where "kFixedRxContextSize = 0"
definition kFixedRxMetadataSize :: int where "kFixedRxMetadataSize = 0"

definition Subtract :: "int \<Rightarrow> int \<Rightarrow> int" where
  "Subtract x y = (if x \<ge> y then x - y else 0)"

text \<open>The division of \<open>CeilDiv\<close> truncates, as in C++; a zero unit is undefined there.\<close>

definition CeilDiv :: "int \<Rightarrow> int \<Rightarrow> int" where
  "CeilDiv n q = (n + q - 1) sdiv q"

definition CalculateFalconTxBufferCredits :: "u32 \<Rightarrow> u32 \<Rightarrow> u32 \<Rightarrow> u32" where
  "CalculateFalconTxBufferCredits txPktDataLen txPmdSglLen minimum_buffer_allocation_unit =
     word_of_int
       (CeilDiv (Subtract (sint txPktDataLen) kFixedTxContextSize)
          (sint minimum_buffer_allocation_unit) +
        CeilDiv (Subtract (sint txPmdSglLen) kFixedTxMetadataSize)
          (sint minimum_buffer_allocation_unit))"

definition CalculateFalconRxBufferCredits :: "u32 \<Rightarrow> u32 \<Rightarrow> u32" where
  "CalculateFalconRxBufferCredits len minimum_buffer_allocation_unit =
     word_of_int
       (CeilDiv (Subtract (sint len) kFixedRxContextSize) (sint minimum_buffer_allocation_unit)
        + kFixedRxMetadataSize)"

end
