(* ===== verification/Bitmap.thy ===== *)
theory Bitmap
  imports Falcon_Types
begin

text \<open>
  \<open>host/falcon/falcon_bitmap.{h,cc}\<close>: the fixed-width bit vector behind the receive and transmit
  windows. \<open>bm_bits\<close> (\<open>bitmap_\<close>) is the \<open>std::bitset<N>\<close>, a list of \<open>N\<close> bits from the least significant one;
  \<open>bm_size\<close> (\<open>size_\<close>) is the constant given to the constructor. The template parameter \<open>N\<close> is the length of
  the list.

  The section on the interface states what \<open>FalconBitmapInterface\<close> promises its clients (the
  locale \<open>bitmap_interface\<close>) and proves what a sliding window needs from it; \<open>FalconBitmap\<close> is
  its interpretation.
\<close>

section \<open>The class\<close>

record FalconBitmap =
  bm_size :: int
  bm_bits :: "bool list"

text \<open>The constructor, for the width \<open>N\<close>.\<close>

definition FalconBitmap_new :: "nat \<Rightarrow> int \<Rightarrow> FalconBitmap" where
  "FalconBitmap_new N sz = \<lparr>bm_size = sz, bm_bits = replicate N False\<rparr>"

definition Size :: "FalconBitmap \<Rightarrow> int" where
  "Size b = bm_size b"

definition Get :: "FalconBitmap \<Rightarrow> int \<Rightarrow> bool option" where
  "Get b index = do {
     check (index \<ge> 0 \<and> index < Size b);
     Some (bm_bits b ! nat index)
   }"

definition Set :: "FalconBitmap \<Rightarrow> int \<Rightarrow> bool \<Rightarrow> FalconBitmap option" where
  "Set b index value = do {
     check (index \<ge> 0 \<and> index < Size b);
     Some (b\<lparr>bm_bits := (bm_bits b)[nat index := value]\<rparr>)
   }"

text \<open>
  \<open>std::bitset::operator>>=\<close> takes a \<open>size_t\<close>: a negative \<open>int\<close> becomes a number far above
  the width, and a shift by the width or more clears the vector.
\<close>

definition bitset_shr :: "bool list \<Rightarrow> int \<Rightarrow> bool list" where
  "bitset_shr bs n =
     (if 0 \<le> n \<and> n < int (length bs) then drop (nat n) bs @ replicate (nat n) False
      else replicate (length bs) False)"

definition RightShift :: "FalconBitmap \<Rightarrow> int \<Rightarrow> FalconBitmap" where
  "RightShift b shift_amount = b\<lparr>bm_bits := bitset_shr (bm_bits b) shift_amount\<rparr>"

definition Or :: "FalconBitmap \<Rightarrow> FalconBitmap \<Rightarrow> FalconBitmap" where
  "Or b another_bitmap = b\<lparr>bm_bits := map2 (\<or>) (bm_bits b) (bm_bits another_bitmap)\<rparr>"

text \<open>The assignment from a bitmap of the same width copies the bits and keeps \<open>bm_size\<close>.\<close>

definition assign_same :: "FalconBitmap \<Rightarrow> FalconBitmap \<Rightarrow> FalconBitmap" where
  "assign_same b another_bitmap = b\<lparr>bm_bits := bm_bits another_bitmap\<rparr>"

text \<open>The assignment from another width copies the first \<open>bm_size\<close> bits, one at a time.\<close>

fun assign_loop :: "nat \<Rightarrow> nat \<Rightarrow> FalconBitmap \<Rightarrow> FalconBitmap \<Rightarrow> FalconBitmap option" where
  "assign_loop 0 i b another = Some b"
| "assign_loop (Suc k) i b another = do {
     v \<leftarrow> Get another (int i);
     assign_loop k (Suc i) (b\<lparr>bm_bits := (bm_bits b)[i := v]\<rparr>) another
   }"

definition assign_from :: "FalconBitmap \<Rightarrow> FalconBitmap \<Rightarrow> FalconBitmap option" where
  "assign_from b another_bitmap =
     (if Size another_bitmap < bm_size b then None
      else assign_loop (nat (bm_size b)) 0 b another_bitmap)"

text \<open>The scan for the first hole looks at as many positions as there are set bits.\<close>

fun hole_scan :: "bool list \<Rightarrow> nat \<Rightarrow> nat \<Rightarrow> nat" where
  "hole_scan bs 0 index = index"
| "hole_scan bs (Suc k) index = (if \<not> bs ! index then index else hole_scan bs k (Suc index))"

definition bitset_count :: "bool list \<Rightarrow> nat" where
  "bitset_count bs = length (filter id bs)"

definition FirstHoleIndex :: "FalconBitmap \<Rightarrow> int" where
  "FirstHoleIndex b =
     (let n = bitset_count (bm_bits b); index = hole_scan (bm_bits b) n 0
      in if index = n then -1 else int index)"

definition Empty :: "FalconBitmap \<Rightarrow> bool" where
  "Empty b = (\<not> list_ex id (bm_bits b))"

definition ToString :: "FalconBitmap \<Rightarrow> string" where
  "ToString b = map (\<lambda>v. if v then CHR ''1'' else CHR ''0'') (bm_bits b)"

section \<open>Well-formed bitmaps\<close>

definition bitmap_wf :: "FalconBitmap \<Rightarrow> bool" where
  "bitmap_wf b \<longleftrightarrow> 0 \<le> bm_size b \<and> bm_size b \<le> int (length (bm_bits b))"

text \<open>
  The abstract view: the total function from positions to bits, clear outside the vector.
\<close>

definition bit_at :: "FalconBitmap \<Rightarrow> int \<Rightarrow> bool" where
  "bit_at b i \<longleftrightarrow> 0 \<le> i \<and> i < int (length (bm_bits b)) \<and> bm_bits b ! nat i"

lemma length_bitset_shr [simp]: "length (bitset_shr bs n) = length bs"
  by (auto simp: bitset_shr_def)

lemma bitmap_wf_new [simp]: "bitmap_wf (FalconBitmap_new N sz) \<longleftrightarrow> 0 \<le> sz \<and> sz \<le> int N"
  by (simp add: bitmap_wf_def FalconBitmap_new_def)

lemma bit_at_new [simp]: "\<not> bit_at (FalconBitmap_new N sz) i"
  by (auto simp: bit_at_def FalconBitmap_new_def)

lemma Size_new [simp]: "Size (FalconBitmap_new N sz) = sz"
  by (simp add: Size_def FalconBitmap_new_def)

lemma bitmap_wf_Set: "Set b i v = Some b' \<Longrightarrow> bitmap_wf b \<Longrightarrow> bitmap_wf b'"
  by (auto simp: Set_def bitmap_wf_def split: if_splits)

lemma bitmap_wf_RightShift [simp]: "bitmap_wf (RightShift b n) = bitmap_wf b"
  by (simp add: RightShift_def bitmap_wf_def)

lemma Size_Set: "Set b i v = Some b' \<Longrightarrow> Size b' = Size b"
  by (auto simp: Set_def Size_def split: if_splits)

lemma Size_RightShift [simp]: "Size (RightShift b n) = Size b"
  by (simp add: RightShift_def Size_def)

lemma Get_eq: "bitmap_wf b \<Longrightarrow> Get b i = (if 0 \<le> i \<and> i < Size b then Some (bit_at b i) else None)"
  by (auto simp: Get_def Size_def bit_at_def bitmap_wf_def)

lemma Set_total: "0 \<le> i \<Longrightarrow> i < Size b \<Longrightarrow> \<exists>b'. Set b i v = Some b'"
  by (simp add: Set_def)

lemma Set_aborts: "\<not> (0 \<le> i \<and> i < Size b) \<Longrightarrow> Set b i v = None"
  by (simp add: Set_def)

lemma bit_at_Set:
  "bitmap_wf b \<Longrightarrow> Set b i v = Some b' \<Longrightarrow> bit_at b' = (bit_at b)(i := v)"
  by (auto simp: Set_def bit_at_def bitmap_wf_def Size_def fun_eq_iff nth_list_update split: if_splits)

lemma bit_at_RightShift:
  "0 \<le> n \<Longrightarrow> bit_at (RightShift b n) i \<longleftrightarrow> 0 \<le> i \<and> bit_at b (i + n)"
proof (cases "n < int (length (bm_bits b))")
  case True
  assume n: "0 \<le> n"
  have "(drop (nat n) (bm_bits b) @ replicate (nat n) False) ! nat i \<longleftrightarrow> bm_bits b ! nat (i + n)"
    if "0 \<le> i" "i + n < int (length (bm_bits b))"
  proof -
    have "nat i < length (bm_bits b) - nat n" using that n by linarith
    then show ?thesis using that n by (simp add: nth_append nat_add_distrib add.commute)
  qed
  moreover have "\<not> (drop (nat n) (bm_bits b) @ replicate (nat n) False) ! nat i"
    if "0 \<le> i" "i < int (length (bm_bits b))" "\<not> i + n < int (length (bm_bits b))"
    using that n True by (auto simp: nth_append)
  ultimately show ?thesis
    using n True by (auto simp: bit_at_def RightShift_def bitset_shr_def)
next
  case False
  assume "0 \<le> n"
  with False show ?thesis
    by (auto simp: bit_at_def RightShift_def bitset_shr_def)
qed

lemma bit_at_RightShift_neg: "n < 0 \<Longrightarrow> \<not> bit_at (RightShift b n) i"
  by (auto simp: bit_at_def RightShift_def bitset_shr_def)

lemma bit_at_Or:
  "length (bm_bits b) = length (bm_bits c) \<Longrightarrow> bit_at (Or b c) i \<longleftrightarrow> bit_at b i \<or> bit_at c i"
  by (auto simp: bit_at_def Or_def)

lemma Empty_iff: "Empty b \<longleftrightarrow> (\<forall>i. \<not> bit_at b i)"
proof
  assume r: "\<forall>i. \<not> bit_at b i"
  have "\<not> bm_bits b ! k" if "k < length (bm_bits b)" for k
    using r [rule_format, of "int k"] that by (simp add: bit_at_def)
  then show "Empty b" by (auto simp: Empty_def list_ex_iff in_set_conv_nth)
qed (auto simp: Empty_def bit_at_def list_ex_iff in_set_conv_nth)

section \<open>The copy between widths\<close>

lemma assign_loop_eq:
  assumes "bitmap_wf a" "int (i + k) \<le> Size a" "i + k \<le> length (bm_bits b)"
  shows "assign_loop k i b a =
    Some (b\<lparr>bm_bits := take i (bm_bits b) @ take k (drop i (bm_bits a)) @ drop (i + k) (bm_bits b)\<rparr>)"
  using assms
proof (induction k arbitrary: i b)
  case 0
  then show ?case by simp
next
  case (Suc k)
  have len: "i < length (bm_bits a)"
    using Suc.prems by (simp add: bitmap_wf_def Size_def)
  have get: "Get a (int i) = Some (bm_bits a ! i)"
    using Suc.prems by (simp add: Get_def)
  let ?b = "b\<lparr>bm_bits := (bm_bits b)[i := bm_bits a ! i]\<rparr>"
  have step: "assign_loop k (Suc i) ?b a = Some (?b\<lparr>bm_bits := take (Suc i) (bm_bits ?b) @
      take k (drop (Suc i) (bm_bits a)) @ drop (Suc i + k) (bm_bits ?b)\<rparr>)"
    using Suc.prems by (intro Suc.IH) auto
  have "take (Suc i) ((bm_bits b)[i := bm_bits a ! i]) = take i (bm_bits b) @ [bm_bits a ! i]"
    using Suc.prems by (simp add: take_Suc_conv_app_nth)
  moreover have "take (Suc k) (drop i (bm_bits a)) = bm_bits a ! i # take k (drop (Suc i) (bm_bits a))"
    using len by (simp flip: Cons_nth_drop_Suc)
  ultimately show ?case
    using get step by simp
qed

lemma assign_from_eq:
  assumes "bitmap_wf a" "bitmap_wf b"
  shows "assign_from b a =
    (if Size a < Size b then None
     else Some (b\<lparr>bm_bits := take (nat (Size b)) (bm_bits a) @ drop (nat (Size b)) (bm_bits b)\<rparr>))"
  using assms by (auto simp: assign_from_def assign_loop_eq Size_def bitmap_wf_def)

lemma assign_from_bits:
  assumes "bitmap_wf a" "bitmap_wf b" "assign_from b a = Some c"
  shows "bit_at c i = (if i < Size b then bit_at a i else bit_at b i)"
proof -
  have len: "Size b \<le> int (length (bm_bits a))" "Size b \<le> int (length (bm_bits b))" "0 \<le> Size b"
    using assms by (auto simp: assign_from_def bitmap_wf_def Size_def split: if_splits)
  then have bc: "bm_bits c = take (nat (Size b)) (bm_bits a) @ drop (nat (Size b)) (bm_bits b)"
    using assms by (auto simp: assign_from_eq split: if_splits)
  show ?thesis
  proof (cases "0 \<le> i \<and> i < Size b")
    case True
    then show ?thesis using len by (simp add: bit_at_def bc nth_append)
  next
    case False
    then show ?thesis using len by (auto simp: bit_at_def bc nth_append)
  qed
qed

section \<open>The first hole\<close>

lemma hole_scan_range: "index \<le> hole_scan bs k index \<and> hole_scan bs k index \<le> index + k"
  by (induction bs k index rule: hole_scan.induct) auto

lemma hole_scan_prefix: "index \<le> j \<Longrightarrow> j < hole_scan bs k index \<Longrightarrow> bs ! j"
proof (induction bs k index rule: hole_scan.induct)
  case (2 bs k index)
  then show ?case by (cases "j = index") (auto split: if_splits)
qed simp

lemma hole_scan_stop: "hole_scan bs k index < index + k \<Longrightarrow> \<not> bs ! hole_scan bs k index"
  by (induction bs k index rule: hole_scan.induct) auto

lemma bitset_count_le: "bitset_count bs \<le> length bs"
  by (simp add: bitset_count_def)

lemma bitset_count_split:
  "n \<le> length bs \<Longrightarrow> bitset_count bs = bitset_count (take n bs) + bitset_count (drop n bs)"
  unfolding bitset_count_def by (metis append_take_drop_id filter_append length_append)

lemma bitset_count_full: "\<forall>j<n. bs ! j \<Longrightarrow> n \<le> length bs \<Longrightarrow> bitset_count (take n bs) = n"
proof -
  assume "\<forall>j<n. bs ! j" "n \<le> length bs"
  then have "filter id (take n bs) = take n bs"
    by (intro filter_True) (auto simp: in_set_conv_nth)
  with \<open>n \<le> length bs\<close> show ?thesis by (simp add: bitset_count_def)
qed

lemma bitset_count_0: "bitset_count bs = 0 \<longleftrightarrow> (\<forall>j<length bs. \<not> bs ! j)"
  by (auto simp: bitset_count_def filter_empty_conv in_set_conv_nth)

lemma FirstHoleIndex_none:
  "FirstHoleIndex b = -1 \<longleftrightarrow> (\<forall>i j. bit_at b j \<longrightarrow> 0 \<le> i \<longrightarrow> i \<le> j \<longrightarrow> bit_at b i)"
  (is "?L \<longleftrightarrow> ?R")
proof -
  define bs n where "bs = bm_bits b" and "n = bitset_count bs"
  have le: "n \<le> length bs" by (simp add: n_def bitset_count_le)
  have L: "?L \<longleftrightarrow> hole_scan bs n 0 = n"
    by (simp add: FirstHoleIndex_def bs_def n_def Let_def)
  have "bit_at b i" if "hole_scan bs n 0 = n" "bit_at b j" "0 \<le> i" "i \<le> j" for i j
  proof -
    have full: "\<forall>k<n. bs ! k" using hole_scan_prefix [of 0 _ bs n] that by auto
    then have "bitset_count (drop n bs) = 0"
      using bitset_count_split [OF le] bitset_count_full [OF full le] n_def by linarith
    then have clear: "\<not> bs ! k" if "n \<le> k" "k < length bs" for k
      using that by (auto simp: bitset_count_0 dest: spec [of _ "k - n"])
    have "nat j < length bs" "bs ! nat j" using that by (auto simp: bit_at_def bs_def)
    then have "nat j < n" using clear [of "nat j"] by linarith
    then show ?thesis using full that le by (auto simp: bit_at_def bs_def)
  qed
  moreover have "hole_scan bs n 0 = n" if R: ?R
  proof (rule ccontr)
    assume "hole_scan bs n 0 \<noteq> n"
    define h where "h = hole_scan bs n 0"
    have h: "h < n" using hole_scan_range [of 0 bs n] \<open>hole_scan bs n 0 \<noteq> n\<close> by (simp add: h_def)
    have nh: "\<not> bs ! h" using hole_scan_stop [of bs n 0] h by (simp add: h_def)
    have "\<not> bs ! k" if "h \<le> k" "k < length bs" for k
      using R [rule_format, of "int k" "int h"] nh that by (auto simp: bit_at_def bs_def)
    then have "bitset_count (drop h bs) = 0"
      unfolding bitset_count_0 by auto
    then have "n = bitset_count (take h bs)"
      using bitset_count_split [of h bs] h le n_def by linarith
    also have "\<dots> \<le> h" using bitset_count_le [of "take h bs"] by simp
    finally show False using h by simp
  qed
  ultimately show ?thesis using L by blast
qed

lemma FirstHoleIndex_some:
  assumes "FirstHoleIndex b \<noteq> -1"
  shows "0 \<le> FirstHoleIndex b" "\<not> bit_at b (FirstHoleIndex b)"
    "0 \<le> i \<Longrightarrow> i < FirstHoleIndex b \<Longrightarrow> bit_at b i"
    "\<exists>j > FirstHoleIndex b. bit_at b j"
proof -
  define bs n where "bs = bm_bits b" and "n = bitset_count bs"
  define h where "h = hole_scan bs n 0"
  have le: "n \<le> length bs" by (simp add: n_def bitset_count_le)
  have ne: "h \<noteq> n" and eq: "FirstHoleIndex b = int h"
    using assms by (auto simp: FirstHoleIndex_def bs_def n_def h_def Let_def)
  have h: "h < n" using hole_scan_range [of 0 bs n] ne by (simp add: h_def)
  have nh: "\<not> bs ! h" using hole_scan_stop [of bs n 0] h by (simp add: h_def)
  show "0 \<le> FirstHoleIndex b" by (simp add: eq)
  show hole: "\<not> bit_at b (FirstHoleIndex b)" using nh by (simp add: eq bit_at_def bs_def)
  have pre: "bit_at b i" if "0 \<le> i" "i < FirstHoleIndex b" for i
  proof -
    have "bs ! nat i" using hole_scan_prefix [of 0 "nat i" bs n] that by (simp add: eq h_def)
    moreover have "nat i < length bs" using that h le by (simp add: eq)
    ultimately show ?thesis using that by (simp add: bit_at_def bs_def)
  qed
  then show "0 \<le> i \<Longrightarrow> i < FirstHoleIndex b \<Longrightarrow> bit_at b i" .
  show "\<exists>j > FirstHoleIndex b. bit_at b j"
  proof (rule ccontr)
    assume no: "\<not> (\<exists>j > FirstHoleIndex b. bit_at b j)"
    have "bit_at b i" if "bit_at b j" "0 \<le> i" "i \<le> j" for i j
    proof (rule pre)
      have "\<not> j > FirstHoleIndex b" using no \<open>bit_at b j\<close> by blast
      moreover have "j \<noteq> FirstHoleIndex b" using hole \<open>bit_at b j\<close> by metis
      ultimately show "i < FirstHoleIndex b" using that by linarith
    qed (rule that)
    then have "FirstHoleIndex b = -1" unfolding FirstHoleIndex_none by blast
    then show False using assms by contradiction
  qed
qed

section \<open>What the interface promises its clients\<close>

text \<open>
  \<open>scan_run get b k i d\<close> is the loop of \<open>UpdateReceiveAckBitmap\<close> over \<open>FalconBitmapInterface\<close>:
  from position \<open>i\<close>, at most \<open>k\<close> more positions, \<open>d\<close> the shift found so far.
\<close>

fun scan_run :: "('b \<Rightarrow> int \<Rightarrow> bool option) \<Rightarrow> 'b \<Rightarrow> nat \<Rightarrow> int \<Rightarrow> int \<Rightarrow> int option" where
  "scan_run get b 0 i d = Some d"
| "scan_run get b (Suc k) i d = do {
     v \<leftarrow> get b i;
     if \<not> v then Some d else scan_run get b k (i + 1) (i + 1)
   }"

locale bitmap_interface =
  fixes sz :: "'b \<Rightarrow> int"
    and get :: "'b \<Rightarrow> int \<Rightarrow> bool option"
    and put :: "'b \<Rightarrow> int \<Rightarrow> bool \<Rightarrow> 'b option"
    and shr :: "'b \<Rightarrow> int \<Rightarrow> 'b"
    and wf :: "'b \<Rightarrow> bool"
    and view :: "'b \<Rightarrow> int \<Rightarrow> bool"
  assumes sz_nonneg: "wf b \<Longrightarrow> 0 \<le> sz b"
    and get_view: "wf b \<Longrightarrow> get b i = (if 0 \<le> i \<and> i < sz b then Some (view b i) else None)"
    and put_ok: "wf b \<Longrightarrow> 0 \<le> i \<Longrightarrow> i < sz b \<Longrightarrow>
      \<exists>b'. put b i v = Some b' \<and> wf b' \<and> sz b' = sz b \<and> view b' = (view b)(i := v)"
    and put_abort: "wf b \<Longrightarrow> \<not> (0 \<le> i \<and> i < sz b) \<Longrightarrow> put b i v = None"
    and shr_wf: "wf b \<Longrightarrow> wf (shr b n)"
    and shr_sz: "sz (shr b n) = sz b"
    and shr_view: "0 \<le> n \<Longrightarrow> view (shr b n) i \<longleftrightarrow> 0 \<le> i \<and> view b (i + n)"
begin

lemma put_some:
  assumes "wf b" "put b i v = Some b'"
  shows "wf b' \<and> sz b' = sz b \<and> view b' = (view b)(i := v) \<and> 0 \<le> i \<and> i < sz b"
  using assms put_ok [of b i v] put_abort [of b i v] by fastforce

lemma shr_shr_view:
  "0 \<le> m \<Longrightarrow> 0 \<le> n \<Longrightarrow> view (shr (shr b m) n) i \<longleftrightarrow> view (shr b (m + n)) i"
  by (auto simp: shr_view add.commute add.left_commute)

lemma scan_run_total:
  assumes "wf b" "0 \<le> i" "i + int k \<le> sz b"
  shows "\<exists>d'. scan_run get b k i d = Some d'"
  using assms(2,3)
proof (induction k arbitrary: i d)
  case (Suc k)
  then show ?case using Suc.IH [of "i + 1" "i + 1"] assms(1) by (simp add: get_view)
qed simp

lemma scan_run_spec:
  assumes "wf b" "0 \<le> i" "i + int k \<le> sz b" "scan_run get b k i i = Some d'"
  shows "i \<le> d' \<and> d' \<le> i + int k \<and> (\<forall>j. i \<le> j \<longrightarrow> j < d' \<longrightarrow> view b j)
    \<and> (d' < i + int k \<longrightarrow> \<not> view b d')"
  using assms(2,3,4)
proof (induction k arbitrary: i)
  case (Suc k)
  show ?case
  proof (cases "view b i")
    case True
    then have run: "scan_run get b k (i + 1) (i + 1) = Some d'"
      using Suc.prems assms(1) by (simp add: get_view)
    note IH = Suc.IH [OF _ _ run]
    have "view b j" if "i \<le> j" "j < d'" for j
      using IH Suc.prems True that by (cases "j = i") auto
    then show ?thesis using IH Suc.prems by auto
  next
    case False
    then show ?thesis using Suc.prems assms(1) by (auto simp: get_view split: if_splits)
  qed
qed simp

end

interpretation bm: bitmap_interface Size Get Set RightShift bitmap_wf bit_at
proof
  fix b i v n
  show "bitmap_wf b \<Longrightarrow> 0 \<le> Size b" by (simp add: bitmap_wf_def Size_def)
  show "bitmap_wf b \<Longrightarrow> Get b i = (if 0 \<le> i \<and> i < Size b then Some (bit_at b i) else None)"
    by (rule Get_eq)
  show "\<exists>b'. Set b i v = Some b' \<and> bitmap_wf b' \<and> Size b' = Size b \<and> bit_at b' = (bit_at b)(i := v)"
    if "bitmap_wf b" "0 \<le> i" "i < Size b"
    using Set_total [OF that(2,3), of v] bitmap_wf_Set Size_Set bit_at_Set that(1) by blast
  show "bitmap_wf b \<Longrightarrow> \<not> (0 \<le> i \<and> i < Size b) \<Longrightarrow> Set b i v = None" by (rule Set_aborts)
  show "bitmap_wf b \<Longrightarrow> bitmap_wf (RightShift b n)" by simp
  show "Size (RightShift b n) = Size b" by simp
  show "0 \<le> n \<Longrightarrow> bit_at (RightShift b n) i \<longleftrightarrow> 0 \<le> i \<and> bit_at b (i + n)"
    by (rule bit_at_RightShift)
qed

section \<open>Properties\<close>

text \<open>
  The first hole. \<open>FirstHoleIndex\<close> returns -1 exactly when the set bits form a prefix of the
  bitmap (the empty bitmap included); otherwise it returns the position of the lowest clear bit,
  and some higher bit is set.
\<close>

theorem FirstHoleIndex_lowest_hole:
  "if (\<forall>i j. 0 \<le> i \<and> i \<le> j \<and> bit_at b j \<longrightarrow> bit_at b i) then FirstHoleIndex b = -1
   else 0 \<le> FirstHoleIndex b \<and> \<not> bit_at b (FirstHoleIndex b)
     \<and> (\<forall>i. 0 \<le> i \<and> i < FirstHoleIndex b \<longrightarrow> bit_at b i)
     \<and> (\<exists>j > FirstHoleIndex b. bit_at b j)"
proof (cases "FirstHoleIndex b = -1")
  case True
  then show ?thesis using FirstHoleIndex_none [of b] by auto
next
  case False
  then have "\<not> (\<forall>i j. 0 \<le> i \<and> i \<le> j \<and> bit_at b j \<longrightarrow> bit_at b i)"
    using FirstHoleIndex_none [of b] by blast
  then show ?thesis using FirstHoleIndex_some [OF False] by (simp only: if_False) blast
qed

lemma FirstHoleIndex_lowest_hole_witness:
  "FirstHoleIndex \<lparr>bm_size = 4, bm_bits = [True, False, True, False]\<rparr> = 1"
proof -
  let ?b = "\<lparr>bm_size = 4, bm_bits = [True, False, True, False]\<rparr>"
  have no: "\<not> (\<forall>i j. 0 \<le> i \<and> i \<le> j \<and> bit_at ?b j \<longrightarrow> bit_at ?b i)"
  proof
    assume "\<forall>i j. 0 \<le> i \<and> i \<le> j \<and> bit_at ?b j \<longrightarrow> bit_at ?b i"
    from this [rule_format, of 1 2] show False by (simp add: bit_at_def)
  qed
  note h = FirstHoleIndex_lowest_hole [of ?b, unfolded if_not_P [OF no]]
  have b0: "bit_at ?b 0" and b1: "\<not> bit_at ?b 1" by (simp_all add: bit_at_def)
  have "FirstHoleIndex ?b \<noteq> 0" using h b0 by metis
  moreover have "\<not> 1 < FirstHoleIndex ?b" using h b1 zero_le_one by blast
  ultimately show ?thesis using h by linarith
qed

text \<open>
  The copy between widths. Assigning a bitmap of another width aborts exactly when the source is
  declared smaller than the target; otherwise the target's first \<open>size_\<close> bits become the source's
  and its remaining bits stay, so the acknowledgement bitmap carried by a packet is the prefix of the
  receive bitmap.
\<close>

theorem assign_from_prefix:
  assumes "bitmap_wf a" "bitmap_wf b"
  shows "case assign_from b a of
      None \<Rightarrow> Size a < Size b
    | Some c \<Rightarrow> Size b \<le> Size a \<and> bitmap_wf c \<and> Size c = Size b \<and>
        (\<forall>i. bit_at c i = (if i < Size b then bit_at a i else bit_at b i))"
proof (cases "assign_from b a")
  case None
  then show ?thesis using assms by (simp add: assign_from_eq split: if_splits)
next
  case (Some c)
  then have "bitmap_wf c \<and> Size c = Size b \<and> Size b \<le> Size a"
    using assms by (auto simp: assign_from_eq bitmap_wf_def Size_def split: if_splits)
  then show ?thesis using assign_from_bits [OF assms Some] Some by simp
qed

lemma assign_from_prefix_witness:
  "\<exists>c. assign_from (FalconBitmap_new 2 2) \<lparr>bm_size = 3, bm_bits = [True, False, True]\<rparr> = Some c
     \<and> bit_at c 0 \<and> \<not> bit_at c 1 \<and> Size c = 2"
proof -
  let ?a = "\<lparr>bm_size = 3, bm_bits = [True, False, True]\<rparr>" and ?b = "FalconBitmap_new 2 2"
  have wf: "bitmap_wf ?a" "bitmap_wf ?b" by (simp_all add: bitmap_wf_def FalconBitmap_new_def)
  have size: "Size ?a = 3" "Size ?b = 2" by (simp_all add: Size_def FalconBitmap_new_def)
  note prefix = assign_from_prefix [OF wf, unfolded size]
  obtain c where c: "assign_from ?b ?a = Some c" using prefix by (cases "assign_from ?b ?a") simp_all
  then have c2: "Size c = 2" "\<And>i. bit_at c i = (if i < 2 then bit_at ?a i else bit_at ?b i)"
    using prefix by simp_all
  have "bit_at c 0" "\<not> bit_at c 1" unfolding c2 by (simp_all add: bit_at_def)
  then show ?thesis using c c2(1) by blast
qed

end
