(* ===== verification/Credits.thy ===== *)
theory Credits
  imports Falcon_Types
begin

text \<open>
  \<open>host/falcon/falcon_resource_credits.{h,cc}\<close>: the vector of transmit and receive credits the
  resource manager hands out. The \<open>int32_t\<close> fields are integers. \<open>operator<=\<close>, \<open>==\<close>,
  \<open>+=\<close> and \<open>-=\<close> are \<open>credits_le\<close>, \<open>credits_eq\<close>, \<open>credits_add\<close>, \<open>credits_sub\<close>.

  The lemmas show when credits stay non-negative, that the totals of each pool are conserved,
  and when releasing a reservation restores the state before it.
\<close>

section \<open>The credit vector\<close>

record TxCredits =
  tx_ulp_requests :: int
  tx_ulp_data :: int
  tx_network_requests :: int
  max_ulp_requests :: int

record RxCredits =
  rx_ulp_requests :: int
  rx_network_requests :: int

record FalconResourceCredits =
  tx_packet_credits :: TxCredits
  tx_buffer_credits :: TxCredits
  rx_packet_credits :: RxCredits
  rx_buffer_credits :: RxCredits
  enable_ulp_pool_oversubscription :: bool

text \<open>The default-initialised structure.\<close>

definition zero_tx :: TxCredits where
  "zero_tx = \<lparr>tx_ulp_requests = 0, tx_ulp_data = 0, tx_network_requests = 0, max_ulp_requests = 0\<rparr>"

definition zero_rx :: RxCredits where
  "zero_rx = \<lparr>rx_ulp_requests = 0, rx_network_requests = 0\<rparr>"

definition zero_credits :: FalconResourceCredits where
  "zero_credits = \<lparr>tx_packet_credits = zero_tx, tx_buffer_credits = zero_tx,
     rx_packet_credits = zero_rx, rx_buffer_credits = zero_rx,
     enable_ulp_pool_oversubscription = False\<rparr>"

text \<open>
  The configuration message \<open>FalconConfig::ResourceCredits\<close>: the same pools without the
  maxima, and an optional flag.
\<close>

record ResourceCreditsConfig =
  cfg_tx_packet :: "int \<times> int \<times> int"
  cfg_tx_buffer :: "int \<times> int \<times> int"
  cfg_rx_packet :: "int \<times> int"
  cfg_rx_buffer :: "int \<times> int"
  cfg_enable_ulp_pool_oversubscription :: "bool option"

definition Create :: "ResourceCreditsConfig \<Rightarrow> FalconResourceCredits" where
  "Create config =
     \<lparr>tx_packet_credits =
        (case cfg_tx_packet config of (ur, ud, nr) \<Rightarrow>
           \<lparr>tx_ulp_requests = ur, tx_ulp_data = ud, tx_network_requests = nr,
            max_ulp_requests = ur\<rparr>),
      tx_buffer_credits =
        (case cfg_tx_buffer config of (ur, ud, nr) \<Rightarrow>
           \<lparr>tx_ulp_requests = ur, tx_ulp_data = ud, tx_network_requests = nr,
            max_ulp_requests = ur\<rparr>),
      rx_packet_credits =
        (case cfg_rx_packet config of (ur, nr) \<Rightarrow>
           \<lparr>rx_ulp_requests = ur, rx_network_requests = nr\<rparr>),
      rx_buffer_credits =
        (case cfg_rx_buffer config of (ur, nr) \<Rightarrow>
           \<lparr>rx_ulp_requests = ur, rx_network_requests = nr\<rparr>),
      enable_ulp_pool_oversubscription =
        (case cfg_enable_ulp_pool_oversubscription config of Some b \<Rightarrow> b | None \<Rightarrow> False)\<rparr>"

definition tx_initialized :: "TxCredits \<Rightarrow> bool" where
  "tx_initialized t \<longleftrightarrow>
     tx_ulp_requests t \<noteq> 0 \<or> tx_ulp_data t \<noteq> 0 \<or> tx_network_requests t \<noteq> 0"

definition IsInitialized :: "FalconResourceCredits \<Rightarrow> bool" where
  "IsInitialized c \<longleftrightarrow>
     tx_initialized (tx_packet_credits c) \<or> tx_initialized (tx_buffer_credits c) \<or>
     rx_ulp_requests (rx_packet_credits c) \<noteq> 0 \<or> rx_network_requests (rx_packet_credits c) \<noteq> 0 \<or>
     rx_ulp_requests (rx_buffer_credits c) \<noteq> 0 \<or> rx_network_requests (rx_buffer_credits c) \<noteq> 0"

section \<open>Comparison\<close>

definition tx_le_plain :: "TxCredits \<Rightarrow> TxCredits \<Rightarrow> bool" where
  "tx_le_plain a b \<longleftrightarrow>
     tx_ulp_requests a \<le> tx_ulp_requests b \<and> tx_network_requests a \<le> tx_network_requests b"

definition rx_le :: "RxCredits \<Rightarrow> RxCredits \<Rightarrow> bool" where
  "rx_le a b \<longleftrightarrow>
     rx_ulp_requests a \<le> rx_ulp_requests b \<and> rx_network_requests a \<le> rx_network_requests b"

definition tx_data_le :: "bool \<Rightarrow> TxCredits \<Rightarrow> TxCredits \<Rightarrow> bool" where
  "tx_data_le over a b \<longleftrightarrow>
     (if over then tx_ulp_data a + tx_ulp_requests a \<le> tx_ulp_data b + tx_ulp_requests b
      else tx_ulp_data a \<le> tx_ulp_data b)"

definition credits_le :: "FalconResourceCredits \<Rightarrow> FalconResourceCredits \<Rightarrow> bool" where
  "credits_le a b \<longleftrightarrow>
     (let over = enable_ulp_pool_oversubscription a \<or> enable_ulp_pool_oversubscription b
      in tx_le_plain (tx_packet_credits a) (tx_packet_credits b) \<and>
         tx_le_plain (tx_buffer_credits a) (tx_buffer_credits b) \<and>
         rx_le (rx_packet_credits a) (rx_packet_credits b) \<and>
         rx_le (rx_buffer_credits a) (rx_buffer_credits b) \<and>
         tx_data_le over (tx_packet_credits a) (tx_packet_credits b) \<and>
         tx_data_le over (tx_buffer_credits a) (tx_buffer_credits b))"

definition tx_eq :: "TxCredits \<Rightarrow> TxCredits \<Rightarrow> bool" where
  "tx_eq a b \<longleftrightarrow>
     tx_ulp_requests a = tx_ulp_requests b \<and> tx_ulp_data a = tx_ulp_data b \<and>
     tx_network_requests a = tx_network_requests b"

definition credits_eq :: "FalconResourceCredits \<Rightarrow> FalconResourceCredits \<Rightarrow> bool" where
  "credits_eq a b \<longleftrightarrow>
     tx_eq (tx_packet_credits a) (tx_packet_credits b) \<and>
     tx_eq (tx_buffer_credits a) (tx_buffer_credits b) \<and>
     rx_packet_credits a = rx_packet_credits b \<and> rx_buffer_credits a = rx_buffer_credits b"

section \<open>Release and reservation\<close>

text \<open>Release into one transmit pool; the second step replenishes the borrowed request credits.\<close>

definition tx_add :: "bool \<Rightarrow> TxCredits \<Rightarrow> TxCredits \<Rightarrow> TxCredits" where
  "tx_add over a b =
     (let a1 = a\<lparr>tx_ulp_requests := tx_ulp_requests a + tx_ulp_requests b,
                 tx_network_requests := tx_network_requests a + tx_network_requests b\<rparr>
      in if over then
           (if tx_ulp_data a1 = 0 then
              (let consumed_from_requests =
                     min (tx_ulp_data b) (max_ulp_requests a1 - tx_ulp_requests a1)
               in a1\<lparr>tx_ulp_requests := tx_ulp_requests a1 + consumed_from_requests,
                     tx_ulp_data := tx_ulp_data a1 + (tx_ulp_data b - consumed_from_requests)\<rparr>)
            else a1\<lparr>tx_ulp_data := tx_ulp_data a1 + tx_ulp_data b\<rparr>)
         else a1\<lparr>tx_ulp_data := tx_ulp_data a1 + tx_ulp_data b\<rparr>)"

definition rx_add :: "RxCredits \<Rightarrow> RxCredits \<Rightarrow> RxCredits" where
  "rx_add a b = \<lparr>rx_ulp_requests = rx_ulp_requests a + rx_ulp_requests b,
     rx_network_requests = rx_network_requests a + rx_network_requests b\<rparr>"

definition credits_add ::
    "FalconResourceCredits \<Rightarrow> FalconResourceCredits \<Rightarrow> FalconResourceCredits" where
  "credits_add a b =
     a\<lparr>tx_packet_credits := tx_add (enable_ulp_pool_oversubscription a)
         (tx_packet_credits a) (tx_packet_credits b),
       tx_buffer_credits := tx_add (enable_ulp_pool_oversubscription a)
         (tx_buffer_credits a) (tx_buffer_credits b),
       rx_packet_credits := rx_add (rx_packet_credits a) (rx_packet_credits b),
       rx_buffer_credits := rx_add (rx_buffer_credits a) (rx_buffer_credits b)\<rparr>"

definition tx_sub :: "bool \<Rightarrow> TxCredits \<Rightarrow> TxCredits \<Rightarrow> TxCredits" where
  "tx_sub over a b =
     (let a1 = a\<lparr>tx_ulp_requests := tx_ulp_requests a - tx_ulp_requests b,
                 tx_network_requests := tx_network_requests a - tx_network_requests b\<rparr>
      in if over then
           (let consume_from_data = min (tx_ulp_data a1) (tx_ulp_data b);
                consume_from_requests = tx_ulp_data b - consume_from_data
            in a1\<lparr>tx_ulp_requests := tx_ulp_requests a1 - consume_from_requests,
                  tx_ulp_data := tx_ulp_data a1 - consume_from_data\<rparr>)
         else a1\<lparr>tx_ulp_data := tx_ulp_data a1 - tx_ulp_data b\<rparr>)"

definition rx_sub :: "RxCredits \<Rightarrow> RxCredits \<Rightarrow> RxCredits" where
  "rx_sub a b = \<lparr>rx_ulp_requests = rx_ulp_requests a - rx_ulp_requests b,
     rx_network_requests = rx_network_requests a - rx_network_requests b\<rparr>"

definition credits_sub ::
    "FalconResourceCredits \<Rightarrow> FalconResourceCredits \<Rightarrow> FalconResourceCredits" where
  "credits_sub a b =
     a\<lparr>tx_packet_credits := tx_sub (enable_ulp_pool_oversubscription a)
         (tx_packet_credits a) (tx_packet_credits b),
       tx_buffer_credits := tx_sub (enable_ulp_pool_oversubscription a)
         (tx_buffer_credits a) (tx_buffer_credits b),
       rx_packet_credits := rx_sub (rx_packet_credits a) (rx_packet_credits b),
       rx_buffer_credits := rx_sub (rx_buffer_credits a) (rx_buffer_credits b)\<rparr>"

section \<open>Invariants\<close>

definition tx_nonneg :: "TxCredits \<Rightarrow> bool" where
  "tx_nonneg t \<longleftrightarrow> 0 \<le> tx_ulp_requests t \<and> 0 \<le> tx_ulp_data t \<and> 0 \<le> tx_network_requests t"

definition rx_nonneg :: "RxCredits \<Rightarrow> bool" where
  "rx_nonneg r \<longleftrightarrow> 0 \<le> rx_ulp_requests r \<and> 0 \<le> rx_network_requests r"

definition credits_nonneg :: "FalconResourceCredits \<Rightarrow> bool" where
  "credits_nonneg c \<longleftrightarrow>
     tx_nonneg (tx_packet_credits c) \<and> tx_nonneg (tx_buffer_credits c) \<and>
     rx_nonneg (rx_packet_credits c) \<and> rx_nonneg (rx_buffer_credits c)"

text \<open>
  The totals that oversubscription cannot change: requests and data of a transmit pool together.
\<close>

definition tx_total :: "TxCredits \<Rightarrow> int \<times> int" where
  "tx_total t = (tx_ulp_requests t + tx_ulp_data t, tx_network_requests t)"

definition credits_total :: "FalconResourceCredits \<Rightarrow> int list" where
  "credits_total c =
     [fst (tx_total (tx_packet_credits c)), snd (tx_total (tx_packet_credits c)),
      fst (tx_total (tx_buffer_credits c)), snd (tx_total (tx_buffer_credits c)),
      rx_ulp_requests (rx_packet_credits c), rx_network_requests (rx_packet_credits c),
      rx_ulp_requests (rx_buffer_credits c), rx_network_requests (rx_buffer_credits c)]"

text \<open>
  Under oversubscription a pool borrows request credits only when no data credit is left; the
  pool is \<open>settled\<close> when at most one of the two sides is below its maximum in that sense.
\<close>

definition tx_settled :: "TxCredits \<Rightarrow> bool" where
  "tx_settled t \<longleftrightarrow> tx_ulp_requests t \<le> max_ulp_requests t \<and>
     (tx_ulp_requests t < max_ulp_requests t \<longrightarrow> tx_ulp_data t = 0)"

named_theorems credit_defs \<open>definitions of the credit operations\<close>

lemmas [credit_defs] =
  tx_add_def tx_sub_def rx_add_def rx_sub_def tx_le_plain_def rx_le_def tx_data_le_def
  tx_nonneg_def rx_nonneg_def tx_total_def tx_eq_def tx_settled_def

lemma tx_total_sub [simp]:
  "tx_total (tx_sub over a b) =
     (fst (tx_total a) - fst (tx_total b), snd (tx_total a) - snd (tx_total b))"
  by (simp add: credit_defs Let_def)

lemma tx_total_add [simp]:
  "tx_total (tx_add over a b) =
     (fst (tx_total a) + fst (tx_total b), snd (tx_total a) + snd (tx_total b))"
  by (simp add: credit_defs Let_def)

lemma tx_sub_nonneg:
  assumes "tx_nonneg a" "tx_nonneg b" "tx_le_plain b a" "tx_data_le over b a"
  shows "tx_nonneg (tx_sub over a b)"
  using assms by (auto simp: credit_defs Let_def min_def split: if_splits)

lemma tx_sub_nonneg_needs:
  assumes "tx_nonneg b" "tx_nonneg (tx_sub over a b)"
  shows "tx_le_plain b a \<and> tx_data_le over b a"
  using assms by (auto simp: credit_defs Let_def min_def split: if_splits)

lemma rx_sub_nonneg_iff: "rx_nonneg (rx_sub a b) \<longleftrightarrow> rx_le b a"
  by (simp add: credit_defs)

lemma tx_add_nonneg:
  assumes "tx_nonneg a" "tx_nonneg b" "tx_ulp_requests a + tx_ulp_requests b \<le> max_ulp_requests a"
  shows "tx_nonneg (tx_add over a b)"
  using assms by (auto simp: credit_defs Let_def min_def)

lemma rx_add_nonneg: "rx_nonneg a \<Longrightarrow> rx_nonneg b \<Longrightarrow> rx_nonneg (rx_add a b)"
  by (simp add: credit_defs)

lemma tx_add_sub_plain: "tx_add False (tx_sub False a b) b = a"
  by (simp add: credit_defs)

lemma tx_add_sub_over:
  assumes "tx_nonneg b" "tx_nonneg a" "tx_settled a"
  shows "tx_add True (tx_sub True a b) b = a"
  using assms by (cases a) (auto simp: credit_defs Let_def min_def split: if_splits)

lemma rx_add_sub: "rx_add (rx_sub a b) b = a"
  by (simp add: credit_defs)

definition credits_settled :: "FalconResourceCredits \<Rightarrow> bool" where
  "credits_settled c \<longleftrightarrow> enable_ulp_pool_oversubscription c \<longrightarrow>
     tx_settled (tx_packet_credits c) \<and> tx_settled (tx_buffer_credits c)"

lemma credits_nonneg_add:
  assumes "credits_nonneg c" "credits_nonneg r"
    and "tx_ulp_requests (tx_packet_credits c) + tx_ulp_requests (tx_packet_credits r)
      \<le> max_ulp_requests (tx_packet_credits c)"
    and "tx_ulp_requests (tx_buffer_credits c) + tx_ulp_requests (tx_buffer_credits r)
      \<le> max_ulp_requests (tx_buffer_credits c)"
  shows "credits_nonneg (credits_add c r)"
  using assms by (simp add: credits_nonneg_def credits_add_def tx_add_nonneg rx_add_nonneg)

lemma Create_settled: "credits_settled (Create cfg)"
  by (simp add: credits_settled_def Create_def tx_settled_def split: prod.splits)

section \<open>Properties\<close>

text \<open>
  C5 The admission test is exact. From a non-negative credit state, a non-negative reservation
  leaves every pool non-negative if and only if \<open>operator<=\<close> accepted it, oversubscription (the
  sum test over requests and data) included.
\<close>

theorem credits_le_exact:
  assumes "credits_nonneg c" "credits_nonneg r"
    and "enable_ulp_pool_oversubscription r \<longrightarrow> enable_ulp_pool_oversubscription c"
  shows "credits_nonneg (credits_sub c r) \<longleftrightarrow> credits_le r c"
proof -
  have over: "(enable_ulp_pool_oversubscription r \<or> enable_ulp_pool_oversubscription c)
      = enable_ulp_pool_oversubscription c"
    using assms(3) by blast
  show ?thesis
    using assms(1,2) tx_sub_nonneg tx_sub_nonneg_needs
    unfolding credits_nonneg_def credits_sub_def credits_le_def Let_def over
    by (simp add: rx_sub_nonneg_iff) blast
qed

lemma credits_le_exact_witness:
  "let c = Create \<lparr>cfg_tx_packet = (5, 5, 5), cfg_tx_buffer = (5, 5, 5), cfg_rx_packet = (5, 5),
         cfg_rx_buffer = (5, 5), cfg_enable_ulp_pool_oversubscription = Some True\<rparr>;
       r = zero_credits\<lparr>tx_packet_credits := zero_tx\<lparr>tx_ulp_data := 7\<rparr>\<rparr>
   in credits_nonneg (credits_sub c r) \<and> credits_le r c"
proof -
  let ?c = "Create \<lparr>cfg_tx_packet = (5, 5, 5), cfg_tx_buffer = (5, 5, 5), cfg_rx_packet = (5, 5),
         cfg_rx_buffer = (5, 5), cfg_enable_ulp_pool_oversubscription = Some True\<rparr>"
  let ?r = "zero_credits\<lparr>tx_packet_credits := zero_tx\<lparr>tx_ulp_data := 7\<rparr>\<rparr>"
  have "credits_le ?r ?c"
    by (simp add: credits_le_def credit_defs Create_def zero_credits_def zero_tx_def zero_rx_def)
  moreover have "credits_nonneg (credits_sub ?c ?r) \<longleftrightarrow> credits_le ?r ?c"
    by (rule credits_le_exact)
      (simp_all add: credits_nonneg_def credit_defs Create_def zero_credits_def zero_tx_def
        zero_rx_def)
  ultimately show ?thesis by (simp add: Let_def)
qed

text \<open>
  C15 Release undoes reservation. From a settled non-negative state (every freshly created one, and
  with oversubscription every one whose borrowed request credits are borrowed only because no
  data credit is left), reserving any non-negative amount and then releasing it gives back
  exactly the credits before, with or without oversubscription.
\<close>

theorem credits_release_undoes_reserve:
  assumes "credits_nonneg c" "credits_nonneg r" "credits_settled c"
  shows "credits_add (credits_sub c r) r = c"
proof (cases "enable_ulp_pool_oversubscription c")
  case True
  then show ?thesis
    using assms by (simp add: credits_add_def credits_sub_def credits_nonneg_def
        credits_settled_def tx_add_sub_over rx_add_sub)
next
  case False
  then show ?thesis
    by (simp add: credits_add_def credits_sub_def tx_add_sub_plain rx_add_sub)
qed

lemma credits_release_undoes_reserve_witness:
  "let c = Create \<lparr>cfg_tx_packet = (5, 5, 5), cfg_tx_buffer = (5, 5, 5), cfg_rx_packet = (5, 5),
         cfg_rx_buffer = (5, 5), cfg_enable_ulp_pool_oversubscription = Some True\<rparr>;
       r = zero_credits\<lparr>tx_packet_credits := zero_tx\<lparr>tx_ulp_data := 7\<rparr>\<rparr>
   in credits_add (credits_sub c r) r = c"
  unfolding Let_def
  by (rule credits_release_undoes_reserve)
    (simp_all add: credits_nonneg_def credit_defs zero_credits_def zero_tx_def zero_rx_def
      Create_settled, simp add: Create_def)

text \<open>
  Conservation and drift. A reservation and a release move every pool total by exactly the
  amount asked, whatever the oversubscription moved inside a pool. But the split inside a pool
  is not conserved: a request and a data reservation that overlap can be released so that the
  requests end above \<open>max_ulp_requests\<close>, the bound the comment of \<open>operator+=\<close> promises.
\<close>

theorem credits_total_conserved:
  "credits_total (credits_sub c r) = map2 (-) (credits_total c) (credits_total r)
   \<and> credits_total (credits_add c r) = map2 (+) (credits_total c) (credits_total r)
   \<and> (\<exists>c0 r1 r2 c4. c0 = Create \<lparr>cfg_tx_packet = (5, 5, 5), cfg_tx_buffer = (5, 5, 5),
          cfg_rx_packet = (5, 5), cfg_rx_buffer = (5, 5),
          cfg_enable_ulp_pool_oversubscription = Some True\<rparr>
        \<and> credits_le r1 c0 \<and> credits_le r2 (credits_sub c0 r1)
        \<and> c4 = credits_add (credits_add (credits_sub (credits_sub c0 r1) r2) r2) r1
        \<and> tx_ulp_requests (tx_packet_credits c4) > max_ulp_requests (tx_packet_credits c4)
        \<and> \<not> credits_eq c4 c0)"
proof (intro conjI)
  show "credits_total (credits_sub c r) = map2 (-) (credits_total c) (credits_total r)"
    by (simp add: credits_total_def credits_sub_def rx_sub_def)
  show "credits_total (credits_add c r) = map2 (+) (credits_total c) (credits_total r)"
    by (simp add: credits_total_def credits_add_def rx_add_def)
  show "\<exists>c0 r1 r2 c4. c0 = Create \<lparr>cfg_tx_packet = (5, 5, 5), cfg_tx_buffer = (5, 5, 5),
          cfg_rx_packet = (5, 5), cfg_rx_buffer = (5, 5),
          cfg_enable_ulp_pool_oversubscription = Some True\<rparr>
        \<and> credits_le r1 c0 \<and> credits_le r2 (credits_sub c0 r1)
        \<and> c4 = credits_add (credits_add (credits_sub (credits_sub c0 r1) r2) r2) r1
        \<and> tx_ulp_requests (tx_packet_credits c4) > max_ulp_requests (tx_packet_credits c4)
        \<and> \<not> credits_eq c4 c0"
    by (rule exI, rule exI [of _ "zero_credits\<lparr>tx_packet_credits := zero_tx\<lparr>tx_ulp_requests := 2\<rparr>\<rparr>"],
        rule exI [of _ "zero_credits\<lparr>tx_packet_credits := zero_tx\<lparr>tx_ulp_data := 6\<rparr>\<rparr>"], rule exI,
        intro conjI, rule refl, simp_all only: refl)
      (simp_all add: credits_le_def credits_add_def credits_sub_def credits_eq_def credit_defs
        Create_def zero_credits_def zero_tx_def zero_rx_def Let_def)
qed

end
