(* ===== verification/Transactions.thy ===== *)
theory Transactions
  imports Falcon_Types
begin

text \<open>
  \<open>host/falcon/falcon_connection_state.{h,cc}\<close>: the transactions of a connection, their packets
  and the transaction state machine. \<open>UpdateState\<close> is one definition per packet type, as its
  outer \<open>switch\<close> has it, and returns the new metadata with the latency samples it gives to the
  histogram collector. A field the constructors leave uninitialised (the request length of a
  transaction that starts with unsolicited data, the PSN of a packet that was never sent) is an
  option that starts as \<open>None\<close>. The queueing-delay snapshots of a packet, which only the
  statistics read, are left out.

  The lemmas characterise the life of a transaction: the order of its states, what may follow
  what, and which samples are taken; and what creating a transaction from the upper layer or
  from the network changes and leaves alone.
\<close>

section \<open>Latency samples\<close>

datatype PullLatencyTypes =
    PL_kRxUlpRequestToTxNetworkRequest | PL_kTxNetworkRequestToRxNetworkData
  | PL_kRxNetworkDataToTxUlpData | PL_kTxNetworkRequestToTxUlpData
  | PL_kRxNetworkRequestToTxUlpRequest | PL_kTxUlpRequestToRxUlpRequestAck
  | PL_kRxUlpRequestAckToRxUlpData | PL_kRxUlpDataToTxNetworkData
  | PL_kTxNetworkDataToRxNetworkAck | PL_kTotalLatency

datatype PushSolicitedLatencyTypes =
    PS_kRxUlpDataToTxNetworkRequest | PS_kTxNetworkRequestToRxNetworkGrant
  | PS_kRxNetworkGrantToTxNetworkData | PS_kTxNetworkDataToRxNetworkAck
  | PS_kRxNetworkAckToTxUlpCompletion | PS_kRxNetworkRequestToTxNetworkGrant
  | PS_kTxNetworkGrantToRxNetworkData | PS_kRxNetworkDataToTxUlpData
  | PS_kTxUlpDataToRxUlpAck | PS_kTxNetworkGrantToTxUlpData | PS_kTotalLatency

datatype PushUnsolicitedLatencyTypes =
    PU_kRxUlpDataToTxNetworkData | PU_kTxNetworkDataToRxNetworkAck
  | PU_kRxNetworkAckToTxUlpCompletion | PU_kRxNetworkDataToTxUlpData
  | PU_kTxUlpDataToRxUlpAck | PU_kTotalLatency

datatype sample =
    PullSample PullLatencyTypes duration
  | PushSolicitedSample PushSolicitedLatencyTypes duration
  | PushUnsolicitedSample PushUnsolicitedLatencyTypes duration

section \<open>Packets and transactions\<close>

record PacketMetadata =
  pm_psn :: "u32 option"
  pm_type :: PacketType
  direction :: PacketDirection
  pm_resources_reserved :: status
  transmit_attempts :: u32
  timeout_retransmission_attempts :: u32
  early_retx_attempts :: u32
  retransmission_reason :: RetransmitReason
  data_length :: u32
  sgl_length :: u32
  payload_length :: u32
  transmission_time :: duration
  retransmission_packet_copy :: Packet
  active_packet :: "Packet option"
  schedule_status :: status
  is_transmission_eligible :: bool
  received :: bool
  nack_code :: NackCode
  pm_ulp_nack_code :: "Syndrome option"
  pm_rnr_timeout :: duration
  bypass_recency_check :: bool
  bypass_scanning_exit_criteria :: bool

definition new_PacketMetadata ::
    "PacketType \<Rightarrow> PacketDirection \<Rightarrow> Packet option \<Rightarrow> bool \<Rightarrow> PacketMetadata" where
  "new_PacketMetadata type dir pkt eligible =
     \<lparr>pm_psn = None, pm_type = type, direction = dir, pm_resources_reserved = OkStatus,
      transmit_attempts = 0, timeout_retransmission_attempts = 0, early_retx_attempts = 0,
      retransmission_reason = kTimeout, data_length = 0, sgl_length = 0, payload_length = 0,
      transmission_time = ZeroDuration, retransmission_packet_copy = new_Packet,
      active_packet = pkt, schedule_status = UnknownError, is_transmission_eligible = eligible,
      received = False, nack_code = kNotANack,
      pm_ulp_nack_code = None, pm_rnr_timeout = ZeroDuration, bypass_recency_check = True,
      bypass_scanning_exit_criteria = False\<rparr>"

record TransactionMetadata =
  tm_rsn :: u32
  request_length :: "u32 option"
  tm_type :: TransactionType
  tm_location :: TransactionLocation
  tm_state :: TransactionState
  decrement_orrc_on_pull_response :: bool
  tm_resources_reserved :: status
  solicitation_window_reservation_timestamp :: duration
  packets :: "PacketType \<rightharpoonup> PacketMetadata"
  transaction_start_timestamp :: duration
  last_state_update_timestamp :: duration

definition new_TransactionMetadata ::
    "u32 \<Rightarrow> TransactionType \<Rightarrow> TransactionLocation \<Rightarrow> TransactionMetadata" where
  "new_TransactionMetadata rsn ctype loc =
     \<lparr>tm_rsn = rsn, request_length = None, tm_type = ctype, tm_location = loc,
      tm_state = kInvalidState, decrement_orrc_on_pull_response = True,
      tm_resources_reserved = OkStatus,
      solicitation_window_reservation_timestamp = ZeroDuration, packets = Map.empty,
      transaction_start_timestamp = ZeroDuration, last_state_update_timestamp = ZeroDuration\<rparr>"

text \<open>The three overloads of \<open>CreatePacket\<close>.\<close>

definition CreatePacket ::
    "PacketType \<Rightarrow> PacketDirection \<Rightarrow> Packet option \<Rightarrow> bool \<Rightarrow>
     TransactionMetadata \<Rightarrow> TransactionMetadata" where
  "CreatePacket type dir pkt eligible md =
     md\<lparr>packets := (packets md)(type \<mapsto> new_PacketMetadata type dir pkt eligible)\<rparr>"

definition CreatePacket_ulp ::
    "PacketType \<Rightarrow> PacketDirection \<Rightarrow> u32 \<Rightarrow> u32 \<Rightarrow> Packet option \<Rightarrow> bool \<Rightarrow>
     TransactionMetadata \<Rightarrow> TransactionMetadata" where
  "CreatePacket_ulp type dir dlen slen pkt eligible md =
     md\<lparr>packets := (packets md)(type \<mapsto>
          (new_PacketMetadata type dir pkt eligible)\<lparr>data_length := dlen, sgl_length := slen\<rparr>)\<rparr>"

definition CreatePacket_network ::
    "PacketType \<Rightarrow> PacketDirection \<Rightarrow> u32 \<Rightarrow> Packet option \<Rightarrow> bool \<Rightarrow>
     TransactionMetadata \<Rightarrow> TransactionMetadata" where
  "CreatePacket_network type dir plen pkt eligible md =
     md\<lparr>packets := (packets md)(type \<mapsto>
          (new_PacketMetadata type dir pkt eligible)\<lparr>payload_length := plen\<rparr>)\<rparr>"

definition GetPacketMetadata ::
    "TransactionMetadata \<Rightarrow> PacketType \<Rightarrow> status + PacketMetadata" where
  "GetPacketMetadata md type =
     (case packets md type of Some p \<Rightarrow> Inr p | None \<Rightarrow> Inl NotFoundError)"

section \<open>The state machine\<close>

text \<open>
  A case of the inner \<open>switch\<close> returns whether the time stamp is updated, the new metadata and
  the samples; \<open>None\<close> is a failed \<open>CHECK\<close> or a \<open>LOG(FATAL)\<close>. \<open>goto\<close> is the common shape
  "check the state, set the state, add one sample".
\<close>

type_synonym state_update = "(bool \<times> TransactionMetadata \<times> sample list) option"

definition goto ::
    "TransactionState list \<Rightarrow> TransactionState \<Rightarrow> sample list \<Rightarrow> TransactionMetadata \<Rightarrow> state_update"
  where
  "goto allowed s' samples md = do {
     check (tm_state md \<in> set allowed);
     Some (True, md\<lparr>tm_state := s'\<rparr>, samples)
   }"

definition begin_as :: "TransactionState \<Rightarrow> TransactionMetadata \<Rightarrow> state_update" where
  "begin_as s' md = Some (True, md\<lparr>tm_state := s'\<rparr>, [])"

definition begin_at ::
    "TransactionState \<Rightarrow> duration \<Rightarrow> TransactionMetadata \<Rightarrow> state_update" where
  "begin_at s' now md =
     Some (True, md\<lparr>transaction_start_timestamp := now, tm_state := s'\<rparr>, [])"

definition ack_only :: "TransactionMetadata \<Rightarrow> state_update" where
  "ack_only md = Some (False, md, [])"

fun update_PullRequest ::
    "TransactionStage \<Rightarrow> duration \<Rightarrow> duration \<Rightarrow> TransactionMetadata \<Rightarrow> state_update" where
  "update_PullRequest UlpRx now latency md = begin_at kPullReqUlpRx now md"
| "update_PullRequest UlpTx now latency md =
     goto [kPullReqNtwkRx, kPullReqRnrUlpRx] kPullReqUlpTx
       [PullSample PL_kRxNetworkRequestToTxUlpRequest latency] md"
| "update_PullRequest UlpAckRx now latency md =
     goto [kPullReqUlpTx] kPullReqAckUlpRx
       [PullSample PL_kTxUlpRequestToRxUlpRequestAck latency] md"
| "update_PullRequest UlpCompletionTx now latency md = None"
| "update_PullRequest NtwkRx now latency md = begin_as kPullReqNtwkRx md"
| "update_PullRequest NtwkTx now latency md =
     goto [kPullReqUlpRx] kPullReqNtwkTx
       [PullSample PL_kRxUlpRequestToTxNetworkRequest latency] md"
| "update_PullRequest NtwkAckRx now latency md = ack_only md"
| "update_PullRequest UlpRnrRx now latency md =
     goto [kPullReqUlpTx, kPullReqNtwkRx] kPullReqRnrUlpRx [] md"

fun update_PullData ::
    "TransactionStage \<Rightarrow> duration \<Rightarrow> duration \<Rightarrow> TransactionMetadata \<Rightarrow> state_update" where
  "update_PullData UlpRx now latency md =
     goto [kPullReqAckUlpRx] kPullDataUlpRx
       [PullSample PL_kRxUlpRequestAckToRxUlpData latency] md"
| "update_PullData UlpTx now latency md =
     goto [kPullDataNtwkRx] kPullDataUlpTx
       [PullSample PL_kRxNetworkDataToTxUlpData latency,
        PullSample PL_kTotalLatency (now - transaction_start_timestamp md)] md"
| "update_PullData UlpAckRx now latency md = None"
| "update_PullData UlpCompletionTx now latency md = None"
| "update_PullData NtwkRx now latency md =
     goto [kPullReqNtwkTx] kPullDataNtwkRx
       [PullSample PL_kTxNetworkRequestToRxNetworkData latency] md"
| "update_PullData NtwkTx now latency md =
     goto [kPullDataUlpRx] kPullDataNtwkTx
       [PullSample PL_kRxUlpDataToTxNetworkData latency] md"
| "update_PullData NtwkAckRx now latency md =
     goto [kPullDataNtwkTx] kPullDataAckNtwkRx
       [PullSample PL_kTxNetworkDataToRxNetworkAck latency] md"
| "update_PullData UlpRnrRx now latency md = None"

fun update_PushRequest ::
    "TransactionStage \<Rightarrow> duration \<Rightarrow> duration \<Rightarrow> TransactionMetadata \<Rightarrow> state_update" where
  "update_PushRequest UlpRx now latency md = begin_at kPushSolicitedReqUlpRx now md"
| "update_PushRequest NtwkRx now latency md = begin_as kPushReqNtwkRx md"
| "update_PushRequest NtwkTx now latency md =
     goto [kPushSolicitedReqUlpRx] kPushReqNtwkTx
       [PushSolicitedSample PS_kRxUlpDataToTxNetworkRequest latency] md"
| "update_PushRequest NtwkAckRx now latency md = ack_only md"
| "update_PushRequest _ now latency md = None"

fun update_PushGrant ::
    "TransactionStage \<Rightarrow> duration \<Rightarrow> duration \<Rightarrow> TransactionMetadata \<Rightarrow> state_update" where
  "update_PushGrant NtwkRx now latency md =
     goto [kPushReqNtwkTx] kPushGrantNtwkRx
       [PushSolicitedSample PS_kTxNetworkRequestToRxNetworkGrant latency] md"
| "update_PushGrant NtwkTx now latency md =
     goto [kPushReqNtwkRx] kPushGrantNtwkTx
       [PushSolicitedSample PS_kRxNetworkRequestToTxNetworkGrant latency] md"
| "update_PushGrant NtwkAckRx now latency md = ack_only md"
| "update_PushGrant _ now latency md = None"

fun update_PushSolicitedData ::
    "TransactionStage \<Rightarrow> duration \<Rightarrow> duration \<Rightarrow> TransactionMetadata \<Rightarrow> state_update" where
  "update_PushSolicitedData UlpRx now latency md = None"
| "update_PushSolicitedData UlpTx now latency md =
     goto [kPushSolicitedDataNtwkRx, kPushSolicitedDataRnrUlpRx] kPushSolicitedDataUlpTx
       [PushSolicitedSample PS_kRxNetworkDataToTxUlpData latency] md"
| "update_PushSolicitedData UlpAckRx now latency md =
     goto [kPushSolicitedDataUlpTx] kPushSolicitedDataAckUlpRx
       [PushSolicitedSample PS_kTxUlpDataToRxUlpAck latency] md"
| "update_PushSolicitedData UlpCompletionTx now latency md =
     goto [kPushSolicitedDataAckNtwkRx] kPushCompletionUlpTx
       [PushSolicitedSample PS_kRxNetworkAckToTxUlpCompletion latency,
        PushSolicitedSample PS_kTotalLatency (now - transaction_start_timestamp md)] md"
| "update_PushSolicitedData NtwkRx now latency md =
     goto [kPushGrantNtwkTx] kPushSolicitedDataNtwkRx
       [PushSolicitedSample PS_kTxNetworkGrantToRxNetworkData latency] md"
| "update_PushSolicitedData NtwkTx now latency md =
     goto [kPushGrantNtwkRx] kPushSolicitedDataNtwkTx
       [PushSolicitedSample PS_kRxNetworkGrantToTxNetworkData latency] md"
| "update_PushSolicitedData NtwkAckRx now latency md =
     goto [kPushSolicitedDataNtwkTx] kPushSolicitedDataAckNtwkRx
       [PushSolicitedSample PS_kTxNetworkDataToRxNetworkAck latency] md"
| "update_PushSolicitedData UlpRnrRx now latency md =
     goto [kPushSolicitedDataUlpTx, kPushSolicitedDataNtwkRx] kPushSolicitedDataRnrUlpRx [] md"

fun update_PushUnsolicitedData ::
    "TransactionStage \<Rightarrow> duration \<Rightarrow> duration \<Rightarrow> TransactionMetadata \<Rightarrow> state_update" where
  "update_PushUnsolicitedData UlpRx now latency md = begin_at kPushUnsolicitedReqUlpRx now md"
| "update_PushUnsolicitedData UlpTx now latency md =
     goto [kPushUnsolicitedDataNtwkRx, kPushUnsolicitedDataRnrUlpRx] kPushUnsolicitedDataUlpTx
       [PushUnsolicitedSample PU_kRxNetworkDataToTxUlpData latency] md"
| "update_PushUnsolicitedData UlpAckRx now latency md =
     goto [kPushUnsolicitedDataUlpTx] kPushUnsolicitedDataAckUlpRx
       [PushUnsolicitedSample PU_kTxUlpDataToRxUlpAck latency] md"
| "update_PushUnsolicitedData UlpCompletionTx now latency md =
     goto [kPushUnsolicitedDataAckNtwkRx] kPushCompletionUlpTx
       [PushUnsolicitedSample PU_kRxNetworkAckToTxUlpCompletion latency,
        PushUnsolicitedSample PU_kTotalLatency (now - transaction_start_timestamp md)] md"
| "update_PushUnsolicitedData NtwkRx now latency md = begin_as kPushUnsolicitedDataNtwkRx md"
| "update_PushUnsolicitedData NtwkTx now latency md =
     goto [kPushUnsolicitedReqUlpRx] kPushUnsolicitedDataNtwkTx
       [PushUnsolicitedSample PU_kRxUlpDataToTxNetworkData latency] md"
| "update_PushUnsolicitedData NtwkAckRx now latency md =
     goto [kPushUnsolicitedDataNtwkTx] kPushUnsolicitedDataAckNtwkRx
       [PushUnsolicitedSample PU_kTxNetworkDataToRxNetworkAck latency] md"
| "update_PushUnsolicitedData UlpRnrRx now latency md =
     goto [kPushUnsolicitedDataUlpTx, kPushUnsolicitedDataNtwkRx] kPushUnsolicitedDataRnrUlpRx
       [] md"

fun update_Resync :: "TransactionStage \<Rightarrow> TransactionMetadata \<Rightarrow> state_update" where
  "update_Resync NtwkRx md = begin_as kResyncNtwkRx md"
| "update_Resync _ md = None"

fun update_by_type ::
    "PacketType \<Rightarrow> TransactionStage \<Rightarrow> duration \<Rightarrow> duration \<Rightarrow> TransactionMetadata \<Rightarrow> state_update"
  where
  "update_by_type kPullRequest stage now latency md = update_PullRequest stage now latency md"
| "update_by_type kPullData stage now latency md = update_PullData stage now latency md"
| "update_by_type kPushRequest stage now latency md = update_PushRequest stage now latency md"
| "update_by_type kPushGrant stage now latency md = update_PushGrant stage now latency md"
| "update_by_type kPushSolicitedData stage now latency md =
     update_PushSolicitedData stage now latency md"
| "update_by_type kPushUnsolicitedData stage now latency md =
     update_PushUnsolicitedData stage now latency md"
| "update_by_type kResync stage now latency md = update_Resync stage md"
| "update_by_type _ stage now latency md = None"

definition UpdateState ::
    "PacketType \<Rightarrow> TransactionStage \<Rightarrow> duration \<Rightarrow> TransactionMetadata \<Rightarrow>
     (TransactionMetadata \<times> sample list) option" where
  "UpdateState type stage now md = do {
     let latency = now - last_state_update_timestamp md;
     (is_timestamp_update_eligible, md1, samples) \<leftarrow> update_by_type type stage now latency md;
     Some (if is_timestamp_update_eligible then md1\<lparr>last_state_update_timestamp := now\<rparr> else md1,
           samples)
   }"

section \<open>The transactions of a connection\<close>

record TransmitterTransactionMetadata =
  base_request_sequence_number :: u32
  next_request_sequence_number :: u32
  current_solicitation_sequence_number :: u32

record ConnectionTransactions =
  cs_scid :: u32
  tx_transaction_metadata :: TransmitterTransactionMetadata
  transactions :: "TransactionKey \<rightharpoonup> TransactionMetadata"

definition GetTransaction ::
    "'a ConnectionTransactions_scheme \<Rightarrow> TransactionKey \<Rightarrow> status + TransactionMetadata" where
  "GetTransaction cs key =
     (case transactions cs key of Some t \<Rightarrow> Inr t | None \<Rightarrow> Inl NotFoundError)"

definition mk_key :: "u32 \<Rightarrow> TransactionLocation \<Rightarrow> TransactionKey" where
  "mk_key rsn loc = \<lparr>key_rsn = rsn, key_location = loc\<rparr>"

definition next_rsn :: "'a ConnectionTransactions_scheme \<Rightarrow> u32" where
  "next_rsn cs = next_request_sequence_number (tx_transaction_metadata cs)"

definition bump_rsn ::
    "'a ConnectionTransactions_scheme \<Rightarrow> 'a ConnectionTransactions_scheme" where
  "bump_rsn cs = cs\<lparr>tx_transaction_metadata :=
     (tx_transaction_metadata cs)\<lparr>next_request_sequence_number := next_rsn cs + 1\<rparr>\<rparr>"

text \<open>A write through \<open>transactions[key]->\<close>; a missing entry is a null pointer in the source.\<close>

definition on_transaction ::
    "TransactionKey \<Rightarrow> (TransactionMetadata \<Rightarrow> TransactionMetadata) \<Rightarrow>
     'a ConnectionTransactions_scheme \<Rightarrow> 'a ConnectionTransactions_scheme option" where
  "on_transaction key f cs =
     (case transactions cs key of
        Some t \<Rightarrow> Some (cs\<lparr>transactions := (transactions cs)(key \<mapsto> f t)\<rparr>)
      | None \<Rightarrow> None)"

definition UpdateState_at ::
    "TransactionKey \<Rightarrow> PacketType \<Rightarrow> TransactionStage \<Rightarrow> duration \<Rightarrow>
     'a ConnectionTransactions_scheme \<Rightarrow> ('a ConnectionTransactions_scheme \<times> sample list) option"
  where
  "UpdateState_at key type stage now cs = do {
     t \<leftarrow> transactions cs key;
     (t', samples) \<leftarrow> UpdateState type stage now t;
     Some (cs\<lparr>transactions := (transactions cs)(key \<mapsto> t')\<rparr>, samples)
   }"

section \<open>Operations from the upper layer\<close>

text \<open>
  The first \<open>switch\<close>: packet type, RSN, transaction type, location, and the connection with the
  RSN counter advanced where the operation is a new request.
\<close>

definition ulp_classify ::
    "Packet \<Rightarrow> u32 \<Rightarrow> 'a ConnectionTransactions_scheme \<Rightarrow>
     (PacketType \<times> u32 \<times> TransactionType \<times> TransactionLocation
       \<times> 'a ConnectionTransactions_scheme) option" where
  "ulp_classify packet solicited_write_threshold cs =
     (case rdma_opcode packet of
        kReadRequest \<Rightarrow> Some (kPullRequest, next_rsn cs, kPull, kInitiator, bump_rsn cs)
      | kReadResponseOnly \<Rightarrow> Some (kPullData, rdma_rsn packet, kPull, kTarget, cs)
      | kWriteOnly \<Rightarrow>
          (if rdma_request_length packet \<ge> solicited_write_threshold
           then Some (kPushSolicitedData, next_rsn cs, kPushSolicited, kInitiator, bump_rsn cs)
           else Some (kPushUnsolicitedData, next_rsn cs, kPushUnsolicited, kInitiator, bump_rsn cs))
      | kSendOnly \<Rightarrow>
          (if rdma_request_length packet \<ge> solicited_write_threshold
           then Some (kPushSolicitedData, next_rsn cs, kPushSolicited, kInitiator, bump_rsn cs)
           else Some (kPushUnsolicitedData, next_rsn cs, kPushUnsolicited, kInitiator, bump_rsn cs))
      | Op_kAck \<Rightarrow> None
      | Op_kInvalid \<Rightarrow> None)"

text \<open>The initiator's fresh transaction replaces whatever the key held.\<close>

definition ulp_new_transaction ::
    "u32 \<Rightarrow> TransactionType \<Rightarrow> TransactionLocation \<Rightarrow> Packet \<Rightarrow>
     'a ConnectionTransactions_scheme \<Rightarrow> 'a ConnectionTransactions_scheme" where
  "ulp_new_transaction rsn ttype loc packet cs =
     (if loc = kInitiator then
        cs\<lparr>transactions := (transactions cs)(mk_key rsn loc \<mapsto>
             (new_TransactionMetadata rsn ttype loc)\<lparr>request_length := Some (rdma_request_length packet)\<rparr>)\<rparr>
      else cs)"

text \<open>
  Unsolicited data of an ordered connection gets a phantom request, of packet type
  \<open>kInvalid\<close>, and waits for it; the result says whether the packet may be transmitted at once.
\<close>

definition ulp_phantom ::
    "TransactionKey \<Rightarrow> TransactionType \<Rightarrow> OrderingMode \<Rightarrow> 'a ConnectionTransactions_scheme \<Rightarrow>
     ('a ConnectionTransactions_scheme \<times> bool) option" where
  "ulp_phantom key ttype ordering_mode cs =
     (if ttype = kPushUnsolicited \<and> ordering_mode = kOrdered then do {
        cs1 \<leftarrow> on_transaction key (CreatePacket_ulp kInvalid kOutgoing 0 0 None True) cs;
        Some (cs1, False)
      } else Some (cs, True))"

text \<open>
  A solicited push keeps the data packet as a packet of its own and continues with a fresh push
  request packet.
\<close>

definition ulp_solicited ::
    "TransactionKey \<Rightarrow> TransactionType \<Rightarrow> OrderingMode \<Rightarrow> Packet \<Rightarrow> PacketType \<Rightarrow>
     'a ConnectionTransactions_scheme \<Rightarrow>
     ('a ConnectionTransactions_scheme \<times> Packet \<times> PacketType) option" where
  "ulp_solicited key ttype ordering_mode packet type cs =
     (if ttype = kPushSolicited then do {
        let data_packet = packet\<lparr>falcon_rsn := key_rsn key, packet_type := kPushSolicitedData\<rparr>;
        cs1 \<leftarrow> on_transaction key
          (CreatePacket_ulp kPushSolicitedData kOutgoing (rdma_data_length packet)
             (metadata_sgl_length packet) (Some data_packet) (ordering_mode \<noteq> kOrdered)) cs;
        Some (cs1, new_Packet\<lparr>metadata_scid := cs_scid cs\<rparr>, kPushRequest)
      } else Some (cs, packet, type))"

definition CreateOrUpdateTransactionFromUlp ::
    "Packet \<Rightarrow> u32 \<Rightarrow> OrderingMode \<Rightarrow> duration \<Rightarrow> 'a ConnectionTransactions_scheme \<Rightarrow>
     ('a ConnectionTransactions_scheme \<times> UlpTransactionInfo \<times> sample list) option" where
  "CreateOrUpdateTransactionFromUlp packet solicited_write_threshold ordering_mode now cs = do {
     (type, rsn, ttype, loc, cs1) \<leftarrow> ulp_classify packet solicited_write_threshold cs;
     let key = mk_key rsn loc;
     let cs2 = ulp_new_transaction rsn ttype loc packet cs1;
     (cs3, eligible) \<leftarrow> ulp_phantom key ttype ordering_mode cs2;
     (cs4, packet', type') \<leftarrow> ulp_solicited key ttype ordering_mode packet type cs3;
     cs5 \<leftarrow> on_transaction key
       (CreatePacket_ulp type' kOutgoing (rdma_data_length packet) (metadata_sgl_length packet)
          (Some packet') eligible) cs4;
     (cs6, samples) \<leftarrow> UpdateState_at key type' UlpRx now cs5;
     Some (cs6, \<lparr>uti_rsn = rsn, uti_type = type'\<rparr>, samples)
   }"

section \<open>Packets from the network\<close>

text \<open>\<open>try_emplace\<close>: the connection and whether a transaction was inserted.\<close>

definition try_emplace ::
    "TransactionKey \<Rightarrow> TransactionMetadata \<Rightarrow> 'a ConnectionTransactions_scheme \<Rightarrow>
     'a ConnectionTransactions_scheme \<times> bool" where
  "try_emplace key t cs =
     (case transactions cs key of
        Some _ \<Rightarrow> (cs, False)
      | None \<Rightarrow> (cs\<lparr>transactions := (transactions cs)(key \<mapsto> t)\<rparr>, True))"

definition emplace_pull_request ::
    "TransactionKey \<Rightarrow> Packet \<Rightarrow> 'a ConnectionTransactions_scheme \<Rightarrow>
     'a ConnectionTransactions_scheme option" where
  "emplace_pull_request key packet cs =
     (case try_emplace key (new_TransactionMetadata (key_rsn key) kPull (key_location key)) cs of
        (cs1, is_inserted) \<Rightarrow>
          if is_inserted then
            on_transaction key
              (\<lambda>t. t\<lparr>request_length := Some (ucast (falcon_request_length packet))\<rparr>) cs1
          else Some cs1)"

definition emplace_push_request ::
    "TransactionKey \<Rightarrow> Packet \<Rightarrow> 'a ConnectionTransactions_scheme \<Rightarrow>
     'a ConnectionTransactions_scheme option" where
  "emplace_push_request key packet cs =
     (case try_emplace key
             (new_TransactionMetadata (key_rsn key) kPushSolicited (key_location key)) cs of
        (cs1, is_inserted) \<Rightarrow>
          if is_inserted then do {
            cs2 \<leftarrow> on_transaction key
              (\<lambda>t. t\<lparr>request_length := Some (ucast (falcon_request_length packet))\<rparr>) cs1;
            let grant_packet = new_Packet\<lparr>metadata_scid := cs_scid cs, packet_type := kPushGrant,
              falcon_rsn := key_rsn key, falcon_ssn := falcon_ssn packet\<rparr>;
            on_transaction key (CreatePacket kPushGrant kOutgoing (Some grant_packet) True) cs2
          } else Some cs1)"

text \<open>
  The \<open>switch\<close> over the packet type: the key, the actual length, and the connection. The key of
  a resync packet is never assigned before it is read, which is undefined behaviour.
\<close>

definition network_classify ::
    "Packet \<Rightarrow> 'a ConnectionTransactions_scheme \<Rightarrow>
     (TransactionKey \<times> u16 \<times> 'a ConnectionTransactions_scheme) option" where
  "network_classify packet cs =
     (let rsn = falcon_rsn packet in
      case packet_type packet of
        kPullRequest \<Rightarrow> do {
          loc \<leftarrow> GetTransactionLocation kPullRequest True;
          cs1 \<leftarrow> emplace_pull_request (mk_key rsn loc) packet cs;
          Some (mk_key rsn loc, 0, cs1)
        }
      | kPushRequest \<Rightarrow> do {
          loc \<leftarrow> GetTransactionLocation kPushRequest True;
          cs1 \<leftarrow> emplace_push_request (mk_key rsn loc) packet cs;
          Some (mk_key rsn loc, 0, cs1)
        }
      | kPushUnsolicitedData \<Rightarrow> do {
          loc \<leftarrow> GetTransactionLocation kPushUnsolicitedData True;
          Some (mk_key rsn loc, 0,
            fst (try_emplace (mk_key rsn loc)
              (new_TransactionMetadata rsn kPushUnsolicited loc) cs))
        }
      | kPullData \<Rightarrow> do {
          loc \<leftarrow> GetTransactionLocation kPullData True;
          Some (mk_key rsn loc, falcon_payload_length packet, cs)
        }
      | kPushGrant \<Rightarrow> do {
          loc \<leftarrow> GetTransactionLocation kPushGrant True;
          Some (mk_key rsn loc, falcon_request_length packet, cs)
        }
      | kPushSolicitedData \<Rightarrow> do {
          loc \<leftarrow> GetTransactionLocation kPushSolicitedData True;
          Some (mk_key rsn loc, falcon_payload_length packet, cs)
        }
      | _ \<Rightarrow> None)"

text \<open>
  The expected length is the low half of the request length, and indeterminate (\<open>None\<close>) when
  the transaction has none.
\<close>

definition CreateOrUpdateTransactionFromNetwork ::
    "Packet \<Rightarrow> duration \<Rightarrow> 'a ConnectionTransactions_scheme \<Rightarrow>
     ('a ConnectionTransactions_scheme \<times> (u16 option \<times> u16) \<times> sample list) option" where
  "CreateOrUpdateTransactionFromNetwork packet now cs = do {
     (key, actual_length, cs1) \<leftarrow> network_classify packet cs;
     check (transactions cs1 key \<noteq> None);
     cs2 \<leftarrow> on_transaction key
       (CreatePacket_network (packet_type packet) kIncoming (ucast (falcon_payload_length packet))
          (Some packet) True) cs1;
     (cs3, samples) \<leftarrow> UpdateState_at key (packet_type packet) NtwkRx now cs2;
     t \<leftarrow> transactions cs3 key;
     Some (cs3, (map_option ucast (request_length t), actual_length), samples)
   }"

section \<open>The life of a transaction\<close>

text \<open>
  The states a transaction goes through, by transaction type and by the side of the connection.
  The two RNR states are visited only when the upper layer (or the ordering) refuses the request.
\<close>

fun lifecycle :: "TransactionType \<Rightarrow> TransactionLocation \<Rightarrow> TransactionState list" where
  "lifecycle kPull kInitiator =
     [kPullReqUlpRx, kPullReqNtwkTx, kPullDataNtwkRx, kPullDataUlpTx]"
| "lifecycle kPull kTarget =
     [kPullReqNtwkRx, kPullReqRnrUlpRx, kPullReqUlpTx, kPullReqAckUlpRx, kPullDataUlpRx,
      kPullDataNtwkTx, kPullDataAckNtwkRx]"
| "lifecycle kPushSolicited kInitiator =
     [kPushSolicitedReqUlpRx, kPushReqNtwkTx, kPushGrantNtwkRx, kPushSolicitedDataNtwkTx,
      kPushSolicitedDataAckNtwkRx, kPushCompletionUlpTx]"
| "lifecycle kPushSolicited kTarget =
     [kPushReqNtwkRx, kPushGrantNtwkTx, kPushSolicitedDataNtwkRx, kPushSolicitedDataRnrUlpRx,
      kPushSolicitedDataUlpTx, kPushSolicitedDataAckUlpRx]"
| "lifecycle kPushUnsolicited kInitiator =
     [kPushUnsolicitedReqUlpRx, kPushUnsolicitedDataNtwkTx, kPushUnsolicitedDataAckNtwkRx,
      kPushCompletionUlpTx]"
| "lifecycle kPushUnsolicited kTarget =
     [kPushUnsolicitedDataNtwkRx, kPushUnsolicitedDataRnrUlpRx, kPushUnsolicitedDataUlpTx,
      kPushUnsolicitedDataAckUlpRx]"

definition begins :: "PacketType \<Rightarrow> TransactionStage \<Rightarrow> bool" where
  "begins type stage \<longleftrightarrow>
     type \<in> {kPullRequest, kPushRequest, kPushUnsolicitedData} \<and> stage \<in> {UlpRx, NtwkRx}
     \<or> type = kResync \<and> stage = NtwkRx"

fun position :: "'a \<Rightarrow> 'a list \<Rightarrow> nat" where
  "position x [] = 0"
| "position x (y # ys) = (if x = y then 0 else Suc (position x ys))"

definition rnr_state :: "TransactionState \<Rightarrow> bool" where
  "rnr_state s \<longleftrightarrow>
     s \<in> {kPullReqRnrUlpRx, kPushSolicitedDataRnrUlpRx, kPushUnsolicitedDataRnrUlpRx}"

lemmas update_state_defs = UpdateState_def goto_def begin_as_def begin_at_def ack_only_def begins_def

fun total_sample :: "TransactionType \<Rightarrow> duration \<Rightarrow> sample" where
  "total_sample kPull d = PullSample PL_kTotalLatency d"
| "total_sample kPushSolicited d = PushSolicitedSample PS_kTotalLatency d"
| "total_sample kPushUnsolicited d = PushUnsolicitedSample PU_kTotalLatency d"

fun is_total :: "sample \<Rightarrow> bool" where
  "is_total (PullSample m d) = (m = PL_kTotalLatency)"
| "is_total (PushSolicitedSample m d) = (m = PS_kTotalLatency)"
| "is_total (PushUnsolicitedSample m d) = (m = PU_kTotalLatency)"

fun sample_value :: "sample \<Rightarrow> duration" where
  "sample_value (PullSample m d) = d"
| "sample_value (PushSolicitedSample m d) = d"
| "sample_value (PushUnsolicitedSample m d) = d"

definition advance :: "TransactionState \<Rightarrow> duration \<Rightarrow> TransactionMetadata \<Rightarrow> TransactionMetadata" where
  "advance s' now md = md\<lparr>tm_state := s', last_state_update_timestamp := now\<rparr>"


text \<open>
  A step that is not a beginning either leaves an initiator's transaction alone (the
  acknowledgement of a request) or moves it to the next state of its life cycle.
\<close>

definition next_state :: "TransactionType \<Rightarrow> TransactionState \<Rightarrow> TransactionState" where
  "next_state ty s = lifecycle ty kInitiator ! Suc (position s (lifecycle ty kInitiator))"

definition final_state :: "TransactionType \<Rightarrow> TransactionState" where
  "final_state ty = last (lifecycle ty kInitiator)"

lemma goto_Some:
  "goto allowed s' smps md = Some r \<longleftrightarrow>
     tm_state md \<in> set allowed \<and> r = (True, md\<lparr>tm_state := s'\<rparr>, smps)"
  by (auto simp: goto_def)

lemma UpdateState_Some:
  "UpdateState type stage now md = Some (md', samples) \<longleftrightarrow>
     (\<exists>md1. update_by_type type stage now (now - last_state_update_timestamp md) md
                = Some (True, md1, samples) \<and> md' = md1\<lparr>last_state_update_timestamp := now\<rparr>) \<or>
     update_by_type type stage now (now - last_state_update_timestamp md) md
       = Some (False, md', samples)"
  by (auto simp: UpdateState_def split: bind_splits)


lemma UpdateState_initiator_state:
  "UpdateState type stage now md = Some (md', samples) \<Longrightarrow>
   tm_state md \<in> set (lifecycle ty kInitiator) \<Longrightarrow> \<not> begins type stage \<Longrightarrow>
  md' = md \<and> samples = [] \<and> stage = NtwkAckRx \<or>
    tm_state md \<noteq> final_state ty \<and> md' = advance (next_state ty (tm_state md)) now md \<and>
      (\<exists>smp. \<not> is_total smp \<and> sample_value smp = now - last_state_update_timestamp md \<and>
      samples = smp # (if next_state ty (tm_state md) = final_state ty
        then [total_sample ty (now - transaction_start_timestamp md)] else []))"
  apply (cases type; cases stage)
  apply (simp_all add: begins_def UpdateState_Some goto_Some begin_as_def ack_only_def)
  apply ((elim exE conjE disjE; cases ty; simp add: advance_def next_state_def final_state_def; fail) | (cases ty; simp add: advance_def next_state_def final_state_def; fail))+
  done
lemma UpdateState_target_state:
  "UpdateState type stage now md = Some (md', samples) \<Longrightarrow>
   tm_state md \<in> set (lifecycle ty kTarget) \<Longrightarrow> \<not> begins type stage \<Longrightarrow>
   md' = md \<and> samples = [] \<and> stage = NtwkAckRx \<or>
    md' = advance (tm_state md') now md \<and> tm_state md' \<in> set (lifecycle ty kTarget) \<and>
    (position (tm_state md) (lifecycle ty kTarget) < position (tm_state md') (lifecycle ty kTarget)
      \<or> stage = UlpRnrRx \<and> rnr_state (tm_state md'))"
  apply (cases type; cases stage)
  apply (simp_all add: begins_def UpdateState_Some goto_Some begin_as_def ack_only_def)
  apply ((elim exE conjE disjE; cases ty; simp add: advance_def rnr_state_def; fail) | (cases ty; simp add: advance_def rnr_state_def; fail))+
  done

lemma UpdateState_begin:
  "UpdateState type UlpRx now md = Some (md', samples) \<Longrightarrow> begins type UlpRx \<Longrightarrow>
   samples = [] \<and> last_state_update_timestamp md' = now \<and> transaction_start_timestamp md' = now
   \<and> tm_type md' = tm_type md"
  by (cases type) (auto simp: begins_def UpdateState_Some begin_at_def)

section \<open>Runs of an initiator's transaction\<close>

text \<open>
  \<open>initiator_run md evs states samples md'\<close>: from \<open>md\<close>, the upper layer starts the transaction
  and the updates \<open>evs\<close> follow; \<open>states\<close> are the states visited, \<open>samples\<close> the latency samples
  taken.
\<close>

type_synonym update_event = "PacketType \<times> TransactionStage \<times> duration"

inductive initiator_run ::
    "TransactionMetadata \<Rightarrow> update_event list \<Rightarrow> TransactionState list \<Rightarrow> sample list \<Rightarrow>
     TransactionMetadata \<Rightarrow> bool" where
  run_start:
    "begins type UlpRx \<Longrightarrow> UpdateState type UlpRx now md = Some (md', samples) \<Longrightarrow>
     tm_state md' = hd (lifecycle (tm_type md) kInitiator) \<Longrightarrow>
     initiator_run md [(type, UlpRx, now)] [tm_state md'] samples md'"
| run_step:
    "initiator_run md evs states samples md1 \<Longrightarrow> \<not> begins type stage \<Longrightarrow>
     UpdateState type stage now md1 = Some (md2, new_samples) \<Longrightarrow>
     initiator_run md (evs @ [(type, stage, now)])
       (if tm_state md2 = tm_state md1 then states else states @ [tm_state md2])
       (samples @ new_samples) md2"

inductive_cases initiator_runE: "initiator_run md evs states samples md'"

lemma distinct_lifecycle: "distinct (lifecycle ty loc)"
  by (cases ty; cases loc) simp_all

lemma position_nth: "distinct xs \<Longrightarrow> k < length xs \<Longrightarrow> position (xs ! k) xs = k"
  by (induction xs arbitrary: k) (auto simp: nth_Cons split: nat.splits)

lemma initiator_run_order:
  "initiator_run md evs states samples md' \<Longrightarrow>
     \<exists>k. 0 < k \<and> k \<le> length (lifecycle (tm_type md) kInitiator) \<and>
       states = take k (lifecycle (tm_type md) kInitiator) \<and>
       tm_state md' = lifecycle (tm_type md) kInitiator ! (k - 1) \<and> tm_type md' = tm_type md"
proof (induction rule: initiator_run.induct)
  case (run_start type now md md' samples)
  have "lifecycle (tm_type md) kInitiator \<noteq> []" by (cases "tm_type md") simp_all
  then show ?case
    using run_start UpdateState_begin [OF run_start(2,1)]
    by (intro exI [of _ 1]) (auto simp: hd_conv_nth take_Suc Suc_le_eq)
next
  case (run_step md evs states samples md1 type stage now md2 new_samples)
  let ?L = "lifecycle (tm_type md) kInitiator"
  obtain k where k: "0 < k" "k \<le> length ?L" "states = take k ?L" "tm_state md1 = ?L ! (k - 1)"
    and ty: "tm_type md1 = tm_type md"
    using run_step.IH by blast
  have mem: "tm_state md1 \<in> set ?L" using k by auto
  have ne: "?L \<noteq> []" by (cases "tm_type md") simp_all
  from UpdateState_initiator_state [OF run_step.hyps(3) mem run_step.hyps(2)]
  consider "md2 = md1" | "tm_state md1 \<noteq> final_state (tm_type md)"
    "md2 = advance (next_state (tm_type md) (tm_state md1)) now md1" by blast
  then show ?case
  proof cases
    case 1
    then show ?thesis using k ty by auto
  next
    case 2
    have "k \<noteq> length ?L" using 2(1) k ne by (auto simp: final_state_def last_conv_nth)
    then have lt: "k < length ?L" using k by simp
    have "position (tm_state md1) ?L = k - 1"
      using k by (simp add: position_nth distinct_lifecycle)
    then have st: "tm_state md2 = ?L ! k" using 2(2) k by (simp add: advance_def next_state_def)
    moreover have "?L ! k \<noteq> ?L ! (k - 1)"
      using lt k distinct_lifecycle by (simp add: nth_eq_iff_index_eq)
    ultimately show ?thesis
      using k lt ty 2(2)
      by (intro exI [of _ "Suc k"]) (simp add: take_Suc_conv_app_nth advance_def)
  qed
qed

fun ticks :: "duration \<Rightarrow> int" where
  "ticks (Ticks n) = n"
| "ticks _ = 0"

definition stage_sum :: "sample list \<Rightarrow> int" where
  "stage_sum samples = sum_list (map (ticks \<circ> sample_value) (filter (\<lambda>s. \<not> is_total s) samples))"

lemma stage_sum_simps [simp]:
  "stage_sum [] = 0" "stage_sum (xs @ ys) = stage_sum xs + stage_sum ys"
  "stage_sum (s # xs) = (if is_total s then stage_sum xs else ticks (sample_value s) + stage_sum xs)"
  by (simp_all add: stage_sum_def)

lemma total_sample_simps [simp]: "is_total (total_sample ty d)" "sample_value (total_sample ty d) = d"
  by (cases ty; simp)+

lemma initiator_run_times:
  "initiator_run md evs states samples md' \<Longrightarrow> (\<forall>ev \<in> set evs. \<exists>n. snd (snd ev) = Ticks n) \<Longrightarrow>
     \<exists>a b. transaction_start_timestamp md' = Ticks a \<and> last_state_update_timestamp md' = Ticks b \<and>
       stage_sum samples = b - a \<and>
       (\<forall>s \<in> set samples. is_total s \<longrightarrow>
          sample_value s = Ticks (b - a) \<and> tm_state md' = final_state (tm_type md))"
proof (induction rule: initiator_run.induct)
  case (run_start type now md md' samples)
  then show ?case using UpdateState_begin [OF run_start(2,1)] by auto
next
  case (run_step md evs states samples md1 type stage now md2 new_samples)
  obtain a b where ab: "transaction_start_timestamp md1 = Ticks a"
    "last_state_update_timestamp md1 = Ticks b" "stage_sum samples = b - a"
    "\<forall>s \<in> set samples. is_total s \<longrightarrow>
       sample_value s = Ticks (b - a) \<and> tm_state md1 = final_state (tm_type md)"
    using run_step by auto
  obtain n where n: "now = Ticks n" using run_step.prems by auto
  have mem: "tm_state md1 \<in> set (lifecycle (tm_type md) kInitiator)"
    using initiator_run_order [OF run_step.hyps(1)] by auto
  from UpdateState_initiator_state [OF run_step.hyps(3) mem run_step.hyps(2)]
  show ?case
  proof (elim disjE conjE exE)
    assume "md2 = md1" "new_samples = []"
    then show ?thesis using ab by auto
  next
    fix smp
    assume nf: "tm_state md1 \<noteq> final_state (tm_type md)"
      and md2: "md2 = advance (next_state (tm_type md) (tm_state md1)) now md1"
      and smp: "\<not> is_total smp" "sample_value smp = now - last_state_update_timestamp md1"
      and new: "new_samples = smp # (if next_state (tm_type md) (tm_state md1) = final_state (tm_type md)
        then [total_sample (tm_type md) (now - transaction_start_timestamp md1)] else [])"
    have "\<forall>s \<in> set samples. \<not> is_total s" using ab(4) nf by blast
    then show ?thesis using ab smp n new md2 by (auto simp: advance_def)
  qed
qed

section \<open>Creation of transactions\<close>

lemma mk_key_sel [simp]: "key_rsn (mk_key r l) = r" "key_location (mk_key r l) = l"
  by (simp_all add: mk_key_def)

lemma transactions_bump [simp]: "transactions (bump_rsn cs) = transactions cs"
  by (simp add: bump_rsn_def)

lemma next_rsn_bump [simp]: "next_rsn (bump_rsn cs) = next_rsn cs + 1"
  by (simp add: bump_rsn_def next_rsn_def)

lemma next_rsn_transactions [simp]: "next_rsn (cs\<lparr>transactions := m\<rparr>) = next_rsn cs"
  by (simp add: next_rsn_def)

lemmas from_ulp_defs = CreateOrUpdateTransactionFromUlp_def ulp_classify_def
  ulp_new_transaction_def ulp_phantom_def ulp_solicited_def on_transaction_def UpdateState_at_def
  CreatePacket_ulp_def new_TransactionMetadata_def UpdateState_def begin_at_def begin_as_def goto_def

definition is_ulp_request :: "Packet \<Rightarrow> bool" where
  "is_ulp_request packet \<longleftrightarrow> rdma_opcode packet \<in> {kReadRequest, kWriteOnly, kSendOnly}"

text \<open>What the code is meant to create for an operation: the request and the packets of its kind.\<close>

definition requested_type :: "Packet \<Rightarrow> u32 \<Rightarrow> TransactionType" where
  "requested_type packet threshold =
     (if rdma_opcode packet = kReadRequest then kPull
      else if rdma_request_length packet \<ge> threshold then kPushSolicited else kPushUnsolicited)"

fun expected_packets :: "TransactionType \<Rightarrow> OrderingMode \<Rightarrow> (PacketType \<times> bool) set" where
  "expected_packets kPull mode = {(kPullRequest, True)}"
| "expected_packets kPushSolicited mode =
     {(kPushRequest, True), (kPushSolicitedData, mode = kUnordered)}"
| "expected_packets kPushUnsolicited kOrdered =
     {(kInvalid, True), (kPushUnsolicitedData, False)}"
| "expected_packets kPushUnsolicited kUnordered = {(kPushUnsolicitedData, True)}"

definition eligibility_of :: "(PacketType \<rightharpoonup> PacketMetadata) \<Rightarrow> (PacketType \<times> bool) set" where
  "eligibility_of m = {(type, is_transmission_eligible pm) | type pm. m type = Some pm}"

definition packet_eligibility :: "TransactionMetadata \<Rightarrow> (PacketType \<times> bool) set" where
  "packet_eligibility t = eligibility_of (packets t)"

lemma eligibility_of_simps:
  "eligibility_of [k \<mapsto> p] = {(k, is_transmission_eligible p)}"
  "k \<noteq> k' \<Longrightarrow> eligibility_of [k \<mapsto> p, k' \<mapsto> p']
     = {(k, is_transmission_eligible p), (k', is_transmission_eligible p')}"
  by (auto simp: eligibility_of_def split: if_splits)

lemma from_ulp_request:
  assumes "is_ulp_request packet"
  shows "\<exists>cs' t ptype. CreateOrUpdateTransactionFromUlp packet threshold mode now cs
      = Some (cs', \<lparr>uti_rsn = next_rsn cs, uti_type = ptype\<rparr>, []) \<and>
    next_rsn cs' = next_rsn cs + 1 \<and>
    transactions cs' (mk_key (next_rsn cs) kInitiator) = Some t \<and>
    (\<forall>key. key \<noteq> mk_key (next_rsn cs) kInitiator \<longrightarrow> transactions cs' key = transactions cs key) \<and>
    tm_rsn t = next_rsn cs \<and> tm_location t = kInitiator \<and>
    tm_type t = requested_type packet threshold \<and>
    tm_state t = hd (lifecycle (tm_type t) kInitiator) \<and>
    request_length t = Some (rdma_request_length packet) \<and>
    transaction_start_timestamp t = now \<and>
    packet_eligibility t = expected_packets (tm_type t) mode"
proof -
  consider "rdma_opcode packet = kReadRequest" | "rdma_opcode packet = kWriteOnly"
    | "rdma_opcode packet = kSendOnly"
    using assms by (auto simp: is_ulp_request_def)
  then show ?thesis
    by cases
      (cases mode; cases "rdma_request_length packet \<ge> threshold";
        simp add: from_ulp_defs requested_type_def packet_eligibility_def
          eligibility_of_simps insert_commute new_PacketMetadata_def; fail)+
qed

text \<open>
  The request a response, grant or solicited data packet answers: the side that waits for it and
  the state it waits in. \<open>None\<close> for packets that may start a transaction.
\<close>

fun awaited_in :: "PacketType \<Rightarrow> (TransactionLocation \<times> TransactionState) option" where
  "awaited_in kPullData = Some (kInitiator, kPullReqNtwkTx)"
| "awaited_in kPushGrant = Some (kInitiator, kPushReqNtwkTx)"
| "awaited_in kPushSolicitedData = Some (kTarget, kPushGrantNtwkTx)"
| "awaited_in _ = None"

definition starts_transaction :: "PacketType \<Rightarrow> bool" where
  "starts_transaction type \<longleftrightarrow> type \<in> {kPullRequest, kPushRequest, kPushUnsolicitedData}"

lemmas from_network_defs = CreateOrUpdateTransactionFromNetwork_def network_classify_def
  emplace_pull_request_def emplace_push_request_def try_emplace_def on_transaction_def
  UpdateState_at_def CreatePacket_network_def CreatePacket_def new_TransactionMetadata_def
  UpdateState_def begin_as_def goto_def Let_def

lemma from_network_response:
  assumes "awaited_in (packet_type packet) = Some (loc, st)"
  shows "CreateOrUpdateTransactionFromNetwork packet now cs \<noteq> None \<longleftrightarrow>
    (\<exists>t. transactions cs (mk_key (falcon_rsn packet) loc) = Some t \<and> tm_state t = st)"
  using assms
  by (cases "packet_type packet")
    (auto simp: from_network_defs split: option.splits)

lemma from_network_request:
  assumes "starts_transaction (packet_type packet)"
  shows "\<exists>cs' t len ss. CreateOrUpdateTransactionFromNetwork packet now cs = Some (cs', (len, 0), ss) \<and>
    transactions cs' (mk_key (falcon_rsn packet) kTarget) = Some t \<and>
    (\<forall>key. key \<noteq> mk_key (falcon_rsn packet) kTarget \<longrightarrow> transactions cs' key = transactions cs key) \<and>
    packet_type packet \<in> dom (packets t) \<and> len = map_option ucast (request_length t) \<and>
    (case transactions cs (mk_key (falcon_rsn packet) kTarget) of
       Some t0 \<Rightarrow> request_length t = request_length t0 \<and> tm_type t = tm_type t0 \<and>
         (\<forall>type. type \<noteq> packet_type packet \<longrightarrow> packets t type = packets t0 type)
     | None \<Rightarrow> tm_state t = hd (lifecycle (tm_type t) kTarget) \<and>
         (packet_type packet = kPushUnsolicitedData \<longleftrightarrow> request_length t = None) \<and>
         (packet_type packet = kPushRequest \<longleftrightarrow> kPushGrant \<in> dom (packets t)))"
proof -
  consider "packet_type packet = kPullRequest" | "packet_type packet = kPushRequest"
    | "packet_type packet = kPushUnsolicitedData"
    using assms by (auto simp: starts_transaction_def)
  then show ?thesis
    by cases
      (cases "transactions cs (mk_key (falcon_rsn packet) kTarget)";
        simp add: from_network_defs mk_key_sel; fail)+
qed

section \<open>Properties\<close>

text \<open>
  An initiator's transaction goes through its states in order. In every run of \<open>UpdateState\<close>
  that starts with the operation's arrival from the upper layer, the states visited are the first
  \<open>k\<close> states of the life cycle of its type: no state is skipped, repeated or taken from another
  type, whatever packet types and stages the calls carry, so the completion to the upper layer
  comes only after the acknowledgement of the data from the network.
\<close>

theorem initiator_states_in_order:
  assumes "initiator_run md evs states samples md'"
  shows "states = take (length states) (lifecycle (tm_type md) kInitiator) \<and>
    tm_state md' = last states \<and> states \<noteq> [] \<and>
    (tm_state md' = kPushCompletionUlpTx \<longrightarrow>
       kPushSolicitedDataAckNtwkRx \<in> set states \<or> kPushUnsolicitedDataAckNtwkRx \<in> set states)"
proof -
  let ?L = "lifecycle (tm_type md) kInitiator"
  obtain k where k: "0 < k" "k \<le> length ?L" "states = take k ?L" "tm_state md' = ?L ! (k - 1)"
    using initiator_run_order [OF assms] by blast
  have "states \<noteq> []" using k by auto
  moreover have "tm_state md' = last states"
    using k \<open>states \<noteq> []\<close> by (simp add: last_conv_nth min.absorb2)
  moreover have "kPushSolicitedDataAckNtwkRx \<in> set states \<or> kPushUnsolicitedDataAckNtwkRx \<in> set states"
    if "tm_state md' = kPushCompletionUlpTx"
    using k that by (cases "tm_type md") (auto simp: less_Suc_eq numeral_eq_Suc nth_Cons' split: if_splits)
  ultimately show ?thesis using k by simp
qed

definition pull_example :: TransactionMetadata where
  "pull_example = new_TransactionMetadata 7 kPull kInitiator"

lemma pull_example_run:
  "\<exists>md'. initiator_run pull_example
     [(kPullRequest, UlpRx, Ticks 10), (kPullRequest, NtwkTx, Ticks 13),
      (kPullData, NtwkRx, Ticks 40), (kPullData, UlpTx, Ticks 41)]
     (lifecycle kPull kInitiator)
     [PullSample PL_kRxUlpRequestToTxNetworkRequest (Ticks 3),
      PullSample PL_kTxNetworkRequestToRxNetworkData (Ticks 27),
      PullSample PL_kRxNetworkDataToTxUlpData (Ticks 1), PullSample PL_kTotalLatency (Ticks 31)] md'"
proof -
  have "initiator_run pull_example [(kPullRequest, UlpRx, Ticks 10)] [kPullReqUlpRx] []
      (pull_example\<lparr>transaction_start_timestamp := Ticks 10, tm_state := kPullReqUlpRx,
         last_state_update_timestamp := Ticks 10\<rparr>)"
    using run_start [of kPullRequest "Ticks 10" pull_example]
    by (simp add: begins_def update_state_defs pull_example_def new_TransactionMetadata_def)
  from run_step [OF this, of kPullRequest NtwkTx "Ticks 13"]
  have "initiator_run pull_example [(kPullRequest, UlpRx, Ticks 10), (kPullRequest, NtwkTx, Ticks 13)]
      [kPullReqUlpRx, kPullReqNtwkTx] [PullSample PL_kRxUlpRequestToTxNetworkRequest (Ticks 3)]
      (pull_example\<lparr>transaction_start_timestamp := Ticks 10, tm_state := kPullReqNtwkTx,
         last_state_update_timestamp := Ticks 13\<rparr>)"
    by (simp add: begins_def update_state_defs)
  from run_step [OF this, of kPullData NtwkRx "Ticks 40"]
  have "initiator_run pull_example [(kPullRequest, UlpRx, Ticks 10), (kPullRequest, NtwkTx, Ticks 13),
        (kPullData, NtwkRx, Ticks 40)]
      [kPullReqUlpRx, kPullReqNtwkTx, kPullDataNtwkRx]
      [PullSample PL_kRxUlpRequestToTxNetworkRequest (Ticks 3),
       PullSample PL_kTxNetworkRequestToRxNetworkData (Ticks 27)]
      (pull_example\<lparr>transaction_start_timestamp := Ticks 10, tm_state := kPullDataNtwkRx,
         last_state_update_timestamp := Ticks 40\<rparr>)"
    by (simp add: begins_def update_state_defs)
  from run_step [OF this, of kPullData UlpTx "Ticks 41"]
  show ?thesis by (auto simp add: begins_def update_state_defs)
qed

lemma initiator_states_in_order_witness:
  "\<exists>md' evs samples. initiator_run pull_example evs (lifecycle kPull kInitiator) samples md'
     \<and> tm_state md' = kPullDataUlpTx"
  using pull_example_run initiator_states_in_order by fastforce

text \<open>
  The latency samples add up. In every run of an initiator's transaction with finite clock
  readings, a total-latency sample is taken only at the end of the life cycle and equals the sum
  of the stage latencies sampled in that run.
\<close>

theorem total_latency_is_stage_sum:
  assumes "initiator_run md evs states samples md'"
    and "\<forall>ev \<in> set evs. \<exists>n. snd (snd ev) = Ticks n"
    and "s \<in> set samples" "is_total s"
  shows "sample_value s = Ticks (stage_sum samples) \<and> tm_state md' = final_state (tm_type md)"
  using initiator_run_times [OF assms(1,2)] assms(3,4) by auto

lemma total_latency_is_stage_sum_witness:
  "stage_sum [PullSample PL_kRxUlpRequestToTxNetworkRequest (Ticks 3),
      PullSample PL_kTxNetworkRequestToRxNetworkData (Ticks 27),
      PullSample PL_kRxNetworkDataToTxUlpData (Ticks 1), PullSample PL_kTotalLatency (Ticks 31)] = 31"
proof -
  obtain md' where run: "initiator_run pull_example
     [(kPullRequest, UlpRx, Ticks 10), (kPullRequest, NtwkTx, Ticks 13),
      (kPullData, NtwkRx, Ticks 40), (kPullData, UlpTx, Ticks 41)]
     (lifecycle kPull kInitiator)
     [PullSample PL_kRxUlpRequestToTxNetworkRequest (Ticks 3),
      PullSample PL_kTxNetworkRequestToRxNetworkData (Ticks 27),
      PullSample PL_kRxNetworkDataToTxUlpData (Ticks 1), PullSample PL_kTotalLatency (Ticks 31)] md'"
    using pull_example_run by blast
  show ?thesis
    using total_latency_is_stage_sum [OF run, of "PullSample PL_kTotalLatency (Ticks 31)"] by simp
qed

text \<open>
  C7 An operation of the upper layer creates exactly its transaction. A read, write or send
  never aborts; it takes the next RSN (modulo \<open>2^32\<close>), creates one transaction under it in the first
  state of its life cycle, leaves every other transaction alone, and the new transaction
  holds exactly the packets of its kind: solicited data of an ordered connection, and
  unsolicited data behind its phantom request, may not be transmitted yet.
\<close>

theorem ulp_request_creates_transaction:
  assumes "is_ulp_request packet"
  shows "\<exists>cs' t ptype. CreateOrUpdateTransactionFromUlp packet threshold mode now cs
      = Some (cs', \<lparr>uti_rsn = next_rsn cs, uti_type = ptype\<rparr>, []) \<and>
    next_rsn cs' = next_rsn cs + 1 \<and>
    transactions cs' (mk_key (next_rsn cs) kInitiator) = Some t \<and>
    (\<forall>key. key \<noteq> mk_key (next_rsn cs) kInitiator \<longrightarrow> transactions cs' key = transactions cs key) \<and>
    tm_type t = requested_type packet threshold \<and>
    tm_state t = hd (lifecycle (tm_type t) kInitiator) \<and>
    request_length t = Some (rdma_request_length packet) \<and>
    packet_eligibility t = expected_packets (tm_type t) mode"
  using from_ulp_request [OF assms, of threshold mode now cs] by blast

definition empty_connection :: ConnectionTransactions where
  "empty_connection = \<lparr>cs_scid = 1, tx_transaction_metadata =
     \<lparr>base_request_sequence_number = 0, next_request_sequence_number = -1,
      current_solicitation_sequence_number = 0\<rparr>, transactions = Map.empty\<rparr>"

lemma ulp_request_creates_transaction_witness:
  "\<exists>cs' info. CreateOrUpdateTransactionFromUlp
       (new_Packet\<lparr>rdma_opcode := kWriteOnly, rdma_request_length := 9000\<rparr>) 4096 kOrdered (Ticks 0)
       empty_connection = Some (cs', info, []) \<and> next_rsn cs' = 0"
  using ulp_request_creates_transaction
    [of "new_Packet\<lparr>rdma_opcode := kWriteOnly, rdma_request_length := 9000\<rparr>" 4096 kOrdered
      "Ticks 0" empty_connection]
  by (auto simp: is_ulp_request_def empty_connection_def next_rsn_def)

text \<open>
  Responses are accepted exactly when they are awaited. Pull data, a push grant or solicited
  push data is processed if and only if the transaction it answers exists on the side that waits
  for it, in the state that waits for it; in every other case the process aborts.
\<close>

theorem network_response_iff_awaited:
  assumes "awaited_in (packet_type packet) = Some (loc, st)"
  shows "CreateOrUpdateTransactionFromNetwork packet now cs \<noteq> None \<longleftrightarrow>
    (\<exists>t. transactions cs (mk_key (falcon_rsn packet) loc) = Some t \<and> tm_state t = st)"
  by (rule from_network_response [OF assms])

lemma network_response_iff_awaited_witness:
  "CreateOrUpdateTransactionFromNetwork (new_Packet\<lparr>packet_type := kPushGrant\<rparr>) (Ticks 0)
     empty_connection = None"
  using network_response_iff_awaited [of "new_Packet\<lparr>packet_type := kPushGrant\<rparr>" kInitiator
      kPushReqNtwkTx "Ticks 0" empty_connection]
  by (simp add: empty_connection_def del: not_None_eq)

text \<open>
  Requests from the network are idempotent. A pull request, push request or unsolicited data
  never aborts: the first one creates the target's transaction in the first state of its life
  cycle (a push request also its grant), a retransmission keeps the request length and every
  other packet, and no other transaction is touched. Unsolicited data leaves the request
  length of its transaction uninitialised, and the function returns that as the expected length.
\<close>

theorem network_request_idempotent:
  assumes "starts_transaction (packet_type packet)"
  shows "\<exists>cs' t len ss. CreateOrUpdateTransactionFromNetwork packet now cs = Some (cs', (len, 0), ss) \<and>
    transactions cs' (mk_key (falcon_rsn packet) kTarget) = Some t \<and>
    (\<forall>key. key \<noteq> mk_key (falcon_rsn packet) kTarget \<longrightarrow> transactions cs' key = transactions cs key) \<and>
    packet_type packet \<in> dom (packets t) \<and> len = map_option ucast (request_length t) \<and>
    (case transactions cs (mk_key (falcon_rsn packet) kTarget) of
       Some t0 \<Rightarrow> request_length t = request_length t0 \<and> tm_type t = tm_type t0 \<and>
         (\<forall>type. type \<noteq> packet_type packet \<longrightarrow> packets t type = packets t0 type)
     | None \<Rightarrow> tm_state t = hd (lifecycle (tm_type t) kTarget) \<and>
         (packet_type packet = kPushUnsolicitedData \<longleftrightarrow> request_length t = None) \<and>
         (packet_type packet = kPushRequest \<longleftrightarrow> kPushGrant \<in> dom (packets t)))"
  by (rule from_network_request [OF assms])

lemma network_request_idempotent_witness:
  "\<exists>cs' ss. CreateOrUpdateTransactionFromNetwork (new_Packet\<lparr>packet_type := kPushUnsolicitedData\<rparr>)
     (Ticks 0) empty_connection = Some (cs', (None, 0), ss)"
  using network_request_idempotent [of "new_Packet\<lparr>packet_type := kPushUnsolicitedData\<rparr>"
      "Ticks 0" empty_connection]
  by (auto simp: empty_connection_def starts_transaction_def)

end
