(* ===== verification/Round_Robin.thy ===== *)
theory Round_Robin
  imports Falcon_Types
begin

text \<open>
  The round-robin policies: \<open>falcon_protocol_intra_connection_round_robin_policy.{h,cc}\<close>,
  \<open>falcon_protocol_inter_connection_round_robin_policy.{h,cc}\<close>,
  \<open>falcon_protocol_intra_packet_type_round_robin_policy.{h,cc}\<close>,
  \<open>falcon_protocol_inter_packet_type_round_robin_policy.{h,cc}\<close> and
  \<open>falcon_inter_host_rx_round_robin_policy.{h,cc}\<close>. Each keeps a list of active and a list of
  inactive entities in service order; a stored list iterator stands for the position of its
  entity, so erasing it removes the entity from the list.

  The locale \<open>round_robin\<close> is what the schedulers rely on: selection serves the head and moves
  it to the tail. Its lemmas give the service order and the shares; \<open>round_robin_marks\<close> adds the
  marking operations and bounds the wait of an entity that becomes active. Every policy is an
  interpretation.
\<close>

section \<open>What a round-robin policy promises\<close>

text \<open>\<open>serve select n s\<close>: \<open>n\<close> selections in a row, \<open>None\<close> when one of them finds no work.\<close>

fun serve :: "('s \<Rightarrow> ('s \<times> (status + 'e)) option) \<Rightarrow> nat \<Rightarrow> 's \<Rightarrow> ('s \<times> 'e list) option" where
  "serve select 0 s = Some (s, [])"
| "serve select (Suc n) s = do {
     (s1, r) \<leftarrow> select s;
     e \<leftarrow> check_ok_then_assign r;
     (s2, es) \<leftarrow> serve select n s1;
     Some (s2, e # es)
   }"

lemma rotate1_nth_shift:
  "xs \<noteq> [] \<Longrightarrow> rotate1 xs ! (k mod length xs) = xs ! (Suc k mod length xs)"
  by (simp add: nth_rotate1 mod_Suc)

lemma mod_map_shift:
  assumes "xs \<noteq> []"
  shows "xs ! 0 # map (\<lambda>k. rotate1 xs ! (k mod length xs)) [0..<n]
    = map (\<lambda>k. xs ! (k mod length xs)) [0..<Suc n]"
proof -
  have "map (\<lambda>k. rotate1 xs ! (k mod length xs)) [0..<n] = map (\<lambda>k. xs ! (Suc k mod length xs)) [0..<n]"
    using assms by (simp add: rotate1_nth_shift)
  then show ?thesis by (simp add: map_upt_Suc del: upt_Suc)
qed

lemma count_list_distinct: "distinct xs \<Longrightarrow> count_list xs e = (if e \<in> set xs then 1 else 0)"
  by (induction xs) auto

lemma count_cycles:
  "distinct xs \<Longrightarrow> xs \<noteq> [] \<Longrightarrow>
     count_list (map (\<lambda>k. xs ! (k mod length xs)) [0..<m * length xs]) e = (if e \<in> set xs then m else 0)"
proof (induction m)
  case (Suc m)
  let ?f = "\<lambda>k. xs ! (k mod length xs)"
  have "[0..<Suc m * length xs] = [0..<m * length xs] @ [m * length xs..<m * length xs + length xs]"
    by (metis add.commute mult_Suc upt_add_eq_append zero_le)
  moreover have "map ?f [m * length xs..<m * length xs + length xs] = xs"
    by (rule nth_equalityI) auto
  moreover have "count_list xs e = (if e \<in> set xs then 1 else 0)"
    using Suc.prems(1) by (rule count_list_distinct)
  ultimately show ?case using Suc by simp
qed simp

locale round_robin =
  fixes wf :: "'s \<Rightarrow> bool"
    and queue :: "'s \<Rightarrow> 'e list"
    and select :: "'s \<Rightarrow> ('s \<times> (status + 'e)) option"
  assumes select_empty: "wf s \<Longrightarrow> queue s = [] \<Longrightarrow> select s = Some (s, Inl UnavailableError)"
    and select_head: "wf s \<Longrightarrow> queue s = e # q \<Longrightarrow>
      \<exists>s'. select s = Some (s', Inr e) \<and> wf s' \<and> queue s' = q @ [e]"
    and queue_distinct: "wf s \<Longrightarrow> distinct (queue s)"
begin

lemma serve_cycle:
  "wf s \<Longrightarrow> queue s \<noteq> [] \<Longrightarrow>
    \<exists>s'. serve select n s = Some (s', map (\<lambda>k. queue s ! (k mod length (queue s))) [0..<n])
      \<and> wf s' \<and> queue s' = rotate n (queue s)"
proof (induction n arbitrary: s)
  case (Suc n)
  obtain e q where eq: "queue s = e # q" using Suc.prems by (cases "queue s") auto
  obtain s1 where s1: "select s = Some (s1, Inr e)" "wf s1" "queue s1 = rotate1 (queue s)"
    using select_head [OF Suc.prems(1) eq] eq by auto
  have "queue s1 \<noteq> []" using s1 Suc.prems by simp
  from Suc.IH [OF s1(2) this] obtain s2 where s2:
    "serve select n s1 = Some (s2, map (\<lambda>k. rotate1 (queue s) ! (k mod length (queue s))) [0..<n])"
    "wf s2" "queue s2 = rotate n (rotate1 (queue s))" using s1 by auto
  have "e = queue s ! 0" by (simp add: eq)
  then show ?case
    using s1 s2 mod_map_shift [OF Suc.prems(2), of n]
    by (simp add: rotate1_rotate_swap del: upt_Suc)
qed simp

lemma serve_shares:
  assumes "wf s" "queue s \<noteq> []"
  shows "\<exists>s' es. serve select (m * length (queue s)) s = Some (s', es) \<and> wf s' \<and>
    queue s' = queue s \<and> (\<forall>e. count_list es e = (if e \<in> set (queue s) then m else 0))"
proof -
  have "rotate (m * length (queue s)) (queue s) = queue s" by (simp add: rotate_id)
  then show ?thesis
    using serve_cycle [OF assms, of "m * length (queue s)"]
      count_cycles [OF queue_distinct [OF assms(1)] assms(2)] by auto
qed

end

locale round_robin_marks = round_robin +
  fixes known :: "'s \<Rightarrow> 'e \<Rightarrow> bool"
    and gate :: "'s \<Rightarrow> 'e \<Rightarrow> bool"
    and activate :: "'s \<Rightarrow> 'e \<Rightarrow> 's option"
    and deactivate :: "'s \<Rightarrow> 'e \<Rightarrow> 's option"
  assumes activate_queue: "wf s \<Longrightarrow> known s e \<Longrightarrow>
      \<exists>s'. activate s e = Some s' \<and> wf s' \<and>
        queue s' = (if e \<in> set (queue s) \<or> \<not> gate s e then queue s else queue s @ [e])"
    and deactivate_queue: "wf s \<Longrightarrow> known s e \<Longrightarrow>
      \<exists>s'. deactivate s e = Some s' \<and> wf s' \<and> queue s' = removeAll e (queue s)"
begin

text \<open>A newly active entity waits for the entities ahead of it, and for no one else.\<close>

lemma activation_wait:
  assumes "wf s" "known s e" "gate s e" "e \<notin> set (queue s)"
  shows "\<exists>s1 s2. activate s e = Some s1 \<and>
    serve select (Suc (length (queue s))) s1 = Some (s2, queue s @ [e])"
proof -
  obtain s1 where s1: "activate s e = Some s1" "wf s1" "queue s1 = queue s @ [e]"
    using activate_queue [OF assms(1,2)] assms(3,4) by auto
  then have ne: "queue s1 \<noteq> []" by simp
  have "map (\<lambda>k. queue s1 ! (k mod length (queue s1))) [0..<length (queue s1)] = queue s1"
    by (rule nth_equalityI) simp_all
  then show ?thesis
    using s1 serve_cycle [OF s1(2) ne, of "length (queue s1)"] by (auto simp del: upt_Suc)
qed

end

section \<open>One ring of entities\<close>

text \<open>
  The state the policies share: the activity flags and the two lists. \<open>ring_select\<close>,
  \<open>ring_activate\<close> and \<open>ring_deactivate\<close> are the bodies of the policies' operations once
  the per-connection or per-type state is found.
\<close>

record 'e Ring =
  is_active :: "'e \<rightharpoonup> bool"
  active_list :: "'e list"
  inactive_list :: "'e list"

definition empty_ring :: "'e Ring" where
  "empty_ring = \<lparr>is_active = Map.empty, active_list = [], inactive_list = []\<rparr>"

definition ring_add :: "'e \<Rightarrow> 'e Ring \<Rightarrow> 'e Ring" where
  "ring_add e r = r\<lparr>is_active := (is_active r)(e \<mapsto> False), inactive_list := inactive_list r @ [e]\<rparr>"

definition ring_select :: "'e Ring \<Rightarrow> 'e Ring \<times> (status + 'e)" where
  "ring_select r =
     (case active_list r of
        [] \<Rightarrow> (r, Inl UnavailableError)
      | e # q \<Rightarrow> (r\<lparr>active_list := q @ [e]\<rparr>, Inr e))"

definition ring_activate :: "'e \<Rightarrow> 'e Ring \<Rightarrow> 'e Ring option" where
  "ring_activate e r = do {
     a \<leftarrow> is_active r e;
     Some (if a then r
           else r\<lparr>is_active := (is_active r)(e \<mapsto> True),
                  inactive_list := removeAll e (inactive_list r),
                  active_list := active_list r @ [e]\<rparr>)
   }"

definition ring_deactivate :: "'e \<Rightarrow> 'e Ring \<Rightarrow> 'e Ring option" where
  "ring_deactivate e r = do {
     a \<leftarrow> is_active r e;
     Some (if \<not> a then r
           else r\<lparr>is_active := (is_active r)(e \<mapsto> False),
                  active_list := removeAll e (active_list r),
                  inactive_list := inactive_list r @ [e]\<rparr>)
   }"

definition ring_wf :: "'e Ring \<Rightarrow> bool" where
  "ring_wf r \<longleftrightarrow> distinct (active_list r @ inactive_list r) \<and>
     (\<forall>e. is_active r e = Some True \<longleftrightarrow> e \<in> set (active_list r)) \<and>
     (\<forall>e. is_active r e = Some False \<longleftrightarrow> e \<in> set (inactive_list r))"

lemma ring_wf_empty [simp]: "ring_wf empty_ring"
  by (simp add: ring_wf_def empty_ring_def)

lemma ring_wf_add: "ring_wf r \<Longrightarrow> is_active r e = None \<Longrightarrow> ring_wf (ring_add e r)"
proof -
  assume r: "ring_wf r" "is_active r e = None"
  then have "e \<notin> set (active_list r)" "e \<notin> set (inactive_list r)"
    by (auto simp: ring_wf_def dest: spec [of _ e])
  with r show ?thesis by (auto simp: ring_wf_def ring_add_def)
qed

lemma ring_wf_select: "ring_wf r \<Longrightarrow> ring_wf (fst (ring_select r))"
  by (auto simp: ring_wf_def ring_select_def split: list.splits)

lemma ring_wf_activate: "ring_wf r \<Longrightarrow> ring_activate e r = Some r' \<Longrightarrow> ring_wf r'"
  by (auto simp: ring_wf_def ring_activate_def distinct_removeAll split: bind_splits if_splits)

lemma ring_wf_deactivate: "ring_wf r \<Longrightarrow> ring_deactivate e r = Some r' \<Longrightarrow> ring_wf r'"
  by (auto simp: ring_wf_def ring_deactivate_def distinct_removeAll split: bind_splits if_splits)

lemma ring_activate_list:
  "ring_wf r \<Longrightarrow> is_active r e \<noteq> None \<Longrightarrow> \<exists>r'. ring_activate e r = Some r' \<and> ring_wf r' \<and>
     active_list r' = (if e \<in> set (active_list r) then active_list r else active_list r @ [e])"
  using ring_wf_activate [of r e]
  by (auto simp: ring_wf_def ring_activate_def split: if_splits)

lemma ring_deactivate_list:
  "ring_wf r \<Longrightarrow> is_active r e \<noteq> None \<Longrightarrow> \<exists>r'. ring_deactivate e r = Some r' \<and> ring_wf r' \<and>
     active_list r' = removeAll e (active_list r)"
proof -
  assume r: "ring_wf r" "is_active r e \<noteq> None"
  then obtain a where a: "is_active r e = Some a" by blast
  have "\<not> a \<Longrightarrow> e \<notin> set (active_list r)"
    using r(1) a by (auto simp: ring_wf_def dest: spec [of _ e])
  then show ?thesis
    using a r ring_wf_deactivate [of r e] by (auto simp: ring_deactivate_def removeAll_id)
qed

lemma ring_select_cases:
  "active_list r = [] \<Longrightarrow> ring_select r = (r, Inl UnavailableError)"
  "active_list r = e # q \<Longrightarrow> ring_select r = (r\<lparr>active_list := q @ [e]\<rparr>, Inr e)"
  by (simp_all add: ring_select_def)

interpretation ring: round_robin_marks ring_wf active_list "\<lambda>r. Some (ring_select r)"
  "\<lambda>r e. is_active r e \<noteq> None" "\<lambda>_ _. True" "\<lambda>r e. ring_activate e r" "\<lambda>r e. ring_deactivate e r"
proof
  fix s :: "'a Ring" and e q
  show "ring_wf s \<Longrightarrow> active_list s = [] \<Longrightarrow> Some (ring_select s) = Some (s, Inl UnavailableError)"
    by (simp add: ring_select_cases)
  show "ring_wf s \<Longrightarrow> active_list s = e # q \<Longrightarrow>
      \<exists>s'. Some (ring_select s) = Some (s', Inr e) \<and> ring_wf s' \<and> active_list s' = q @ [e]"
    using ring_wf_select [of s] by (simp add: ring_select_cases)
  show "ring_wf s \<Longrightarrow> distinct (active_list s)" by (simp add: ring_wf_def)
  show "ring_wf s \<Longrightarrow> is_active s e \<noteq> None \<Longrightarrow> \<exists>s'. ring_activate e s = Some s' \<and> ring_wf s' \<and>
      active_list s' = (if e \<in> set (active_list s) \<or> \<not> True then active_list s else active_list s @ [e])"
    using ring_activate_list [of s e] by simp
  show "ring_wf s \<Longrightarrow> is_active s e \<noteq> None \<Longrightarrow> \<exists>s'. ring_deactivate e s = Some s' \<and> ring_wf s' \<and>
      active_list s' = removeAll e (active_list s)"
    by (rule ring_deactivate_list)
qed

section \<open>Intra-connection policy\<close>

text \<open>One ring of queue types per connection; the template parameter is the type variable.\<close>

type_synonym 'q IntraConnection = "u32 \<rightharpoonup> 'q Ring"

definition packet_type_queues :: "PacketTypeQueue list" where
  "packet_type_queues =
     [kPullAndOrderedPushRequest, kUnorderedPushRequest, kPushData, Q_kPushGrant, Q_kPullData]"

definition window_type_queues :: "WindowTypeQueue list" where
  "window_type_queues = [W_kRequest, W_kData]"

definition intra_InitConnection_packet ::
    "u32 \<Rightarrow> PacketTypeQueue IntraConnection \<Rightarrow> PacketTypeQueue IntraConnection \<times> status" where
  "intra_InitConnection_packet scid p =
     (case p scid of
        Some _ \<Rightarrow> (p, AlreadyExistsError)
      | None \<Rightarrow> (p(scid \<mapsto> fold ring_add packet_type_queues empty_ring), OkStatus))"

definition intra_InitConnection_window ::
    "u32 \<Rightarrow> WindowTypeQueue IntraConnection \<Rightarrow> WindowTypeQueue IntraConnection \<times> status" where
  "intra_InitConnection_window scid p =
     (p(scid \<mapsto> fold ring_add window_type_queues empty_ring), OkStatus)"

definition intra_SelectQueue ::
    "u32 \<Rightarrow> 'q IntraConnection \<Rightarrow> ('q IntraConnection \<times> (status + 'q)) option" where
  "intra_SelectQueue scid p = do {
     state \<leftarrow> p scid;
     let (state', r) = ring_select state;
     Some (p(scid \<mapsto> state'), r)
   }"

definition intra_MarkQueueActive ::
    "u32 \<Rightarrow> 'q \<Rightarrow> 'q IntraConnection \<Rightarrow> 'q IntraConnection option" where
  "intra_MarkQueueActive scid queue_type p = do {
     state \<leftarrow> p scid;
     state' \<leftarrow> ring_activate queue_type state;
     Some (p(scid \<mapsto> state'))
   }"

definition intra_MarkQueueInactive ::
    "u32 \<Rightarrow> 'q \<Rightarrow> 'q IntraConnection \<Rightarrow> 'q IntraConnection option" where
  "intra_MarkQueueInactive scid queue_type p = do {
     state \<leftarrow> p scid;
     state' \<leftarrow> ring_deactivate queue_type state;
     Some (p(scid \<mapsto> state'))
   }"

definition intra_HasWork :: "u32 \<Rightarrow> 'q IntraConnection \<Rightarrow> bool option" where
  "intra_HasWork scid p = map_option (\<lambda>state. active_list state \<noteq> []) (p scid)"

section \<open>Inter-connection policy\<close>

definition inter_InitConnection :: "u32 \<Rightarrow> u32 Ring \<Rightarrow> u32 Ring \<times> status" where
  "inter_InitConnection scid r =
     (case is_active r scid of
        Some _ \<Rightarrow> (r, AlreadyExistsError)
      | None \<Rightarrow> (ring_add scid r, OkStatus))"

definition inter_SelectConnection :: "u32 Ring \<Rightarrow> u32 Ring \<times> (status + u32)" where
  "inter_SelectConnection r = ring_select r"

definition inter_MarkConnectionActive :: "u32 \<Rightarrow> u32 Ring \<Rightarrow> u32 Ring option" where
  "inter_MarkConnectionActive scid r = ring_activate scid r"

definition inter_MarkConnectionInactive :: "u32 \<Rightarrow> u32 Ring \<Rightarrow> u32 Ring option" where
  "inter_MarkConnectionInactive scid r = ring_deactivate scid r"

definition inter_HasWork :: "u32 Ring \<Rightarrow> bool" where
  "inter_HasWork r \<longleftrightarrow> active_list r \<noteq> []"

section \<open>Intra-packet-type policy\<close>

text \<open>
  One ring of connections per packet type queue. The constructor gives every queue type a state,
  so the map is total.
\<close>

type_synonym IntraPacketType = "PacketTypeQueue \<Rightarrow> u32 Ring"

definition new_IntraPacketType :: IntraPacketType where
  "new_IntraPacketType = (\<lambda>_. empty_ring)"

definition ipt_InitConnection :: "u32 \<Rightarrow> IntraPacketType \<Rightarrow> IntraPacketType option" where
  "ipt_InitConnection scid p =
     fold (\<lambda>q acc. do {
         p1 \<leftarrow> acc;
         check (is_active (p1 q) scid = None);
         Some (p1(q := ring_add scid (p1 q)))
       }) packet_type_queues (Some p)"

definition ipt_SelectConnection ::
    "PacketTypeQueue \<Rightarrow> IntraPacketType \<Rightarrow> IntraPacketType \<times> (status + u32)" where
  "ipt_SelectConnection q p = (case ring_select (p q) of (state, r) \<Rightarrow> (p(q := state), r))"

definition ipt_MarkConnectionActive ::
    "u32 \<Rightarrow> PacketTypeQueue \<Rightarrow> IntraPacketType \<Rightarrow> IntraPacketType option" where
  "ipt_MarkConnectionActive scid q p = map_option (\<lambda>r. p(q := r)) (ring_activate scid (p q))"

definition ipt_MarkConnectionInactive ::
    "u32 \<Rightarrow> PacketTypeQueue \<Rightarrow> IntraPacketType \<Rightarrow> IntraPacketType option" where
  "ipt_MarkConnectionInactive scid q p = map_option (\<lambda>r. p(q := r)) (ring_deactivate scid (p q))"

definition ipt_HasWork :: "PacketTypeQueue \<Rightarrow> IntraPacketType \<Rightarrow> bool" where
  "ipt_HasWork q p \<longleftrightarrow> active_list (p q) \<noteq> []"

section \<open>Inter-packet-type policy\<close>

text \<open>
  The flags are read with \<open>operator[]\<close>, which creates a missing one as \<open>false\<close>.
\<close>

definition new_InterPacketType :: "PacketTypeQueue Ring" where
  "new_InterPacketType = fold ring_add packet_type_queues empty_ring"

definition SelectPacketTypeBasedQueueType ::
    "PacketTypeQueue Ring \<Rightarrow> PacketTypeQueue Ring \<times> (status + PacketTypeQueue)" where
  "SelectPacketTypeBasedQueueType r = ring_select r"

definition touch_flag :: "'e \<Rightarrow> 'e Ring \<Rightarrow> 'e Ring" where
  "touch_flag e r =
     (case is_active r e of Some _ \<Rightarrow> r | None \<Rightarrow> r\<lparr>is_active := (is_active r)(e \<mapsto> False)\<rparr>)"

definition MarkPacketTypeBasedQueueTypeActive ::
    "PacketTypeQueue \<Rightarrow> PacketTypeQueue Ring \<Rightarrow> PacketTypeQueue Ring option" where
  "MarkPacketTypeBasedQueueTypeActive q r = ring_activate q (touch_flag q r)"

definition MarkPacketTypeBasedQueueTypeInactive ::
    "PacketTypeQueue \<Rightarrow> PacketTypeQueue Ring \<Rightarrow> PacketTypeQueue Ring option" where
  "MarkPacketTypeBasedQueueTypeInactive q r = ring_deactivate q (touch_flag q r)"

definition InterPacketType_HasWork :: "PacketTypeQueue Ring \<Rightarrow> bool" where
  "InterPacketType_HasWork r \<longleftrightarrow> active_list r \<noteq> []"

section \<open>Inter-host receive policy\<close>

record HostPolicyState =
  host_is_active :: bool
  host_is_xoff :: bool

record HostPolicy =
  host_state :: "u8 \<rightharpoonup> HostPolicyState"
  active_hosts :: "u8 list"
  inactive_hosts :: "u8 list"

definition new_HostPolicy :: HostPolicy where
  "new_HostPolicy = \<lparr>host_state = Map.empty, active_hosts = [], inactive_hosts = []\<rparr>"

definition InitHost :: "u8 \<Rightarrow> HostPolicy \<Rightarrow> (HostPolicy \<times> status) option" where
  "InitHost h p = do {
     check (host_state p h = None);
     Some (p\<lparr>inactive_hosts := inactive_hosts p @ [h],
             host_state := (host_state p)(h \<mapsto> \<lparr>host_is_active = False, host_is_xoff = False\<rparr>)\<rparr>,
           OkStatus)
   }"

definition SelectHost :: "HostPolicy \<Rightarrow> HostPolicy \<times> (status + u8)" where
  "SelectHost p =
     (case active_hosts p of
        [] \<Rightarrow> (p, Inl UnavailableError)
      | h # q \<Rightarrow> (p\<lparr>active_hosts := q @ [h]\<rparr>, Inr h))"

definition move_to_active :: "u8 \<Rightarrow> HostPolicy \<Rightarrow> HostPolicy" where
  "move_to_active h p = p\<lparr>inactive_hosts := removeAll h (inactive_hosts p),
     active_hosts := active_hosts p @ [h]\<rparr>"

definition move_to_inactive :: "u8 \<Rightarrow> HostPolicy \<Rightarrow> HostPolicy" where
  "move_to_inactive h p = p\<lparr>active_hosts := removeAll h (active_hosts p),
     inactive_hosts := inactive_hosts p @ [h]\<rparr>"

definition MarkHostActive :: "u8 \<Rightarrow> HostPolicy \<Rightarrow> HostPolicy option" where
  "MarkHostActive h p = do {
     state \<leftarrow> host_state p h;
     if host_is_active state then Some p
     else (let p1 = p\<lparr>host_state := (host_state p)(h \<mapsto> state\<lparr>host_is_active := True\<rparr>)\<rparr>
           in Some (if \<not> host_is_xoff state then move_to_active h p1 else p1))
   }"

definition MarkHostInactive :: "u8 \<Rightarrow> HostPolicy \<Rightarrow> HostPolicy option" where
  "MarkHostInactive h p = do {
     state \<leftarrow> host_state p h;
     if \<not> host_is_active state then Some p
     else (let p1 = p\<lparr>host_state := (host_state p)(h \<mapsto> state\<lparr>host_is_active := False\<rparr>)\<rparr>
           in Some (if \<not> host_is_xoff state then move_to_inactive h p1 else p1))
   }"

definition XoffHost :: "u8 \<Rightarrow> HostPolicy \<Rightarrow> HostPolicy option" where
  "XoffHost h p = do {
     state \<leftarrow> host_state p h;
     if host_is_xoff state then Some p
     else (let p1 = p\<lparr>host_state := (host_state p)(h \<mapsto> state\<lparr>host_is_xoff := True\<rparr>)\<rparr>
           in Some (if host_is_active state then move_to_inactive h p1 else p1))
   }"

definition XonHost :: "u8 \<Rightarrow> HostPolicy \<Rightarrow> HostPolicy option" where
  "XonHost h p = do {
     state \<leftarrow> host_state p h;
     if \<not> host_is_xoff state then Some p
     else (let p1 = p\<lparr>host_state := (host_state p)(h \<mapsto> state\<lparr>host_is_xoff := False\<rparr>)\<rparr>
           in Some (if host_is_active state then move_to_active h p1 else p1))
   }"

definition HostPolicy_HasWork :: "HostPolicy \<Rightarrow> bool" where
  "HostPolicy_HasWork p \<longleftrightarrow> active_hosts p \<noteq> []"

text \<open>A host is eligible when it has packets and its receive buffer is not paused.\<close>

definition host_eligible :: "HostPolicy \<Rightarrow> u8 \<Rightarrow> bool" where
  "host_eligible p h \<longleftrightarrow>
     (case host_state p h of Some st \<Rightarrow> host_is_active st \<and> \<not> host_is_xoff st | None \<Rightarrow> False)"

definition host_known :: "HostPolicy \<Rightarrow> u8 \<Rightarrow> bool" where
  "host_known p h \<longleftrightarrow> host_state p h \<noteq> None"

definition host_wf :: "HostPolicy \<Rightarrow> bool" where
  "host_wf p \<longleftrightarrow> distinct (active_hosts p @ inactive_hosts p) \<and>
     (\<forall>h. h \<in> set (active_hosts p) \<longleftrightarrow> host_eligible p h) \<and>
     (\<forall>h. h \<in> set (inactive_hosts p) \<longleftrightarrow> host_known p h \<and> \<not> host_eligible p h)"

section \<open>The policies keep the promise\<close>

definition host_paused :: "HostPolicy \<Rightarrow> u8 \<Rightarrow> bool" where
  "host_paused p h \<longleftrightarrow> (case host_state p h of Some st \<Rightarrow> host_is_xoff st | None \<Rightarrow> False)"

definition host_busy :: "HostPolicy \<Rightarrow> u8 \<Rightarrow> bool" where
  "host_busy p h \<longleftrightarrow> (case host_state p h of Some st \<Rightarrow> host_is_active st | None \<Rightarrow> False)"

lemmas host_defs = host_wf_def host_eligible_def host_known_def host_paused_def host_busy_def
  move_to_active_def move_to_inactive_def

lemma host_wf_new [simp]: "host_wf new_HostPolicy"
  by (simp add: host_defs new_HostPolicy_def)

lemma host_wf_served:
  "host_wf p \<Longrightarrow> h \<in> set (active_hosts p) \<longleftrightarrow> host_busy p h \<and> \<not> host_paused p h"
  by (auto simp: host_wf_def host_eligible_def host_busy_def host_paused_def split: option.splits)

lemma host_busy_known: "host_busy p h \<Longrightarrow> host_known p h"
  by (auto simp: host_busy_def host_known_def split: option.splits)

lemma InitHost_wf: "host_wf p \<Longrightarrow> InitHost h p = Some (p', st) \<Longrightarrow> host_wf p'"
proof -
  assume p: "host_wf p" "InitHost h p = Some (p', st)"
  then have none: "host_state p h = None" by (simp add: InitHost_def split: if_splits)
  then have new: "h \<notin> set (active_hosts p)" "h \<notin> set (inactive_hosts p)"
    using p(1) by (simp_all add: host_wf_def host_known_def host_eligible_def)
  have p': "p' = p\<lparr>inactive_hosts := inactive_hosts p @ [h], host_state :=
      (host_state p)(h \<mapsto> \<lparr>host_is_active = False, host_is_xoff = False\<rparr>)\<rparr>"
    using p(2) none by (simp add: InitHost_def)
  have "(x \<in> set (active_hosts p') \<longleftrightarrow> host_eligible p' x) \<and>
      (x \<in> set (inactive_hosts p') \<longleftrightarrow> host_known p' x \<and> \<not> host_eligible p' x)" for x
    using p(1) new unfolding p' host_wf_def
    by (cases "x = h") (simp_all add: host_known_def host_eligible_def)
  moreover have "distinct (active_hosts p' @ inactive_hosts p')"
    using p(1) new by (simp add: p' host_wf_def)
  ultimately show ?thesis unfolding host_wf_def by blast
qed

text \<open>
  Changing the state of one host: what its list membership must become for the policy to stay
  well-formed.
\<close>

lemma host_wf_activate:
  assumes "host_wf p" "host_state p h = Some st" "\<not> (host_is_active st \<and> \<not> host_is_xoff st)"
    and "host_is_active st'" "\<not> host_is_xoff st'"
  shows "host_wf (move_to_active h (p\<lparr>host_state := (host_state p)(h \<mapsto> st')\<rparr>))"
  using assms by (auto simp: host_defs distinct_removeAll split: option.splits)

lemma host_wf_deactivate:
  assumes "host_wf p" "host_state p h = Some st" "host_is_active st" "\<not> host_is_xoff st"
    and "\<not> (host_is_active st' \<and> \<not> host_is_xoff st')"
  shows "host_wf (move_to_inactive h (p\<lparr>host_state := (host_state p)(h \<mapsto> st')\<rparr>))"
  using assms by (auto simp: host_defs distinct_removeAll split: option.splits)

lemma host_wf_same:
  assumes "host_wf p" "host_state p h = Some st"
    and "(host_is_active st' \<and> \<not> host_is_xoff st') = (host_is_active st \<and> \<not> host_is_xoff st)"
  shows "host_wf (p\<lparr>host_state := (host_state p)(h \<mapsto> st')\<rparr>)"
  using assms by (auto simp: host_defs split: option.splits)

lemma host_wf_active_iff:
  "host_wf p \<Longrightarrow> host_state p h = Some st \<Longrightarrow>
     h \<in> set (active_hosts p) \<longleftrightarrow> host_is_active st \<and> \<not> host_is_xoff st"
  by (simp add: host_wf_def host_eligible_def)

lemma MarkHostActive_spec:
  assumes "host_wf p" "host_known p h"
  shows "\<exists>p'. MarkHostActive h p = Some p' \<and> host_wf p' \<and>
    active_hosts p' = (if h \<in> set (active_hosts p) \<or> \<not> \<not> host_paused p h then active_hosts p
      else active_hosts p @ [h])"
proof -
  obtain st where st: "host_state p h = Some st" using assms(2) by (auto simp: host_known_def)
  then show ?thesis
    using assms(1) host_wf_active_iff [OF assms(1) st]
      host_wf_activate [OF assms(1) st, of "st\<lparr>host_is_active := True\<rparr>"]
      host_wf_same [OF assms(1) st, of "st\<lparr>host_is_active := True\<rparr>"]
    by (simp add: MarkHostActive_def host_paused_def move_to_active_def)
qed

lemma MarkHostInactive_spec:
  assumes "host_wf p" "host_known p h"
  shows "\<exists>p'. MarkHostInactive h p = Some p' \<and> host_wf p' \<and>
    active_hosts p' = removeAll h (active_hosts p)"
proof -
  obtain st where st: "host_state p h = Some st" using assms(2) by (auto simp: host_known_def)
  then show ?thesis
    using assms(1) host_wf_active_iff [OF assms(1) st]
      host_wf_deactivate [OF assms(1) st, of "st\<lparr>host_is_active := False\<rparr>"]
      host_wf_same [OF assms(1) st, of "st\<lparr>host_is_active := False\<rparr>"]
    by (cases "host_is_active st"; cases "host_is_xoff st")
      (simp_all add: MarkHostInactive_def move_to_inactive_def removeAll_id)
qed

lemma XonHost_spec:
  assumes "host_wf p" "host_known p h"
  shows "\<exists>p'. XonHost h p = Some p' \<and> host_wf p' \<and>
    active_hosts p' = (if h \<in> set (active_hosts p) \<or> \<not> host_busy p h then active_hosts p
      else active_hosts p @ [h])"
proof -
  obtain st where st: "host_state p h = Some st" using assms(2) by (auto simp: host_known_def)
  then show ?thesis
    using assms(1) host_wf_active_iff [OF assms(1) st]
      host_wf_activate [OF assms(1) st, of "st\<lparr>host_is_xoff := False\<rparr>"]
      host_wf_same [OF assms(1) st, of "st\<lparr>host_is_xoff := False\<rparr>"]
    by (simp add: XonHost_def host_busy_def move_to_active_def)
qed

lemma XoffHost_spec:
  assumes "host_wf p" "host_known p h"
  shows "\<exists>p'. XoffHost h p = Some p' \<and> host_wf p' \<and>
    active_hosts p' = removeAll h (active_hosts p)"
proof -
  obtain st where st: "host_state p h = Some st" using assms(2) by (auto simp: host_known_def)
  then show ?thesis
    using assms(1) host_wf_active_iff [OF assms(1) st]
      host_wf_deactivate [OF assms(1) st, of "st\<lparr>host_is_xoff := True\<rparr>"]
      host_wf_same [OF assms(1) st, of "st\<lparr>host_is_xoff := True\<rparr>"]
    by (cases "host_is_active st"; cases "host_is_xoff st")
      (simp_all add: XoffHost_def move_to_inactive_def removeAll_id)
qed

lemma SelectHost_spec:
  "active_hosts p = [] \<Longrightarrow> SelectHost p = (p, Inl UnavailableError)"
  "host_wf p \<Longrightarrow> active_hosts p = h # q \<Longrightarrow>
     \<exists>p'. SelectHost p = (p', Inr h) \<and> host_wf p' \<and> active_hosts p' = q @ [h]"
  by (auto simp: SelectHost_def host_defs)

text \<open>The host policy, driven by its packets and by the pausing of its receive buffer.\<close>

interpretation host: round_robin_marks host_wf active_hosts "\<lambda>p. Some (SelectHost p)"
  host_known "\<lambda>p h. \<not> host_paused p h" "\<lambda>p h. MarkHostActive h p" "\<lambda>p h. MarkHostInactive h p"
proof
  fix p :: HostPolicy and h q
  show "host_wf p \<Longrightarrow> active_hosts p = [] \<Longrightarrow> Some (SelectHost p) = Some (p, Inl UnavailableError)"
    by (simp add: SelectHost_spec)
  show "host_wf p \<Longrightarrow> active_hosts p = h # q \<Longrightarrow>
      \<exists>s'. Some (SelectHost p) = Some (s', Inr h) \<and> host_wf s' \<and> active_hosts s' = q @ [h]"
    using SelectHost_spec(2) [of p h q] by simp
  show "host_wf p \<Longrightarrow> distinct (active_hosts p)" by (simp add: host_wf_def)
qed (rule MarkHostActive_spec MarkHostInactive_spec; assumption)+

interpretation host_xoff: round_robin_marks host_wf active_hosts "\<lambda>p. Some (SelectHost p)"
  host_known host_busy "\<lambda>p h. XonHost h p" "\<lambda>p h. XoffHost h p"
  by unfold_locales (rule XonHost_spec, assumption+, rule XoffHost_spec, assumption+)

text \<open>One connection's ring inside the intra-connection policy.\<close>

definition intra_wf :: "u32 \<Rightarrow> 'q IntraConnection \<Rightarrow> bool" where
  "intra_wf scid p \<longleftrightarrow> (case p scid of Some r \<Rightarrow> ring_wf r | None \<Rightarrow> False)"

definition intra_queue :: "u32 \<Rightarrow> 'q IntraConnection \<Rightarrow> 'q list" where
  "intra_queue scid p = (case p scid of Some r \<Rightarrow> active_list r | None \<Rightarrow> [])"

definition intra_known :: "u32 \<Rightarrow> 'q IntraConnection \<Rightarrow> 'q \<Rightarrow> bool" where
  "intra_known scid p q \<longleftrightarrow> (case p scid of Some r \<Rightarrow> is_active r q \<noteq> None | None \<Rightarrow> False)"

interpretation intra: round_robin_marks "intra_wf scid" "intra_queue scid" "intra_SelectQueue scid"
  "intra_known scid" "\<lambda>_ _. True" "\<lambda>p q. intra_MarkQueueActive scid q p"
  "\<lambda>p q. intra_MarkQueueInactive scid q p" for scid
proof
  fix s :: "'a IntraConnection" and e q
  note defs = intra_wf_def intra_queue_def intra_known_def intra_SelectQueue_def
    intra_MarkQueueActive_def intra_MarkQueueInactive_def
  show "intra_wf scid s \<Longrightarrow> intra_queue scid s = [] \<Longrightarrow>
      intra_SelectQueue scid s = Some (s, Inl UnavailableError)"
    by (auto simp: defs ring_select_cases fun_upd_idem split: option.splits)
  show "\<exists>s'. intra_SelectQueue scid s = Some (s', Inr e) \<and> intra_wf scid s' \<and>
      intra_queue scid s' = q @ [e]" if "intra_wf scid s" "intra_queue scid s = e # q"
  proof (cases "s scid")
    case (Some r)
    then show ?thesis using that ring_wf_select [of r] by (simp add: defs ring_select_cases)
  qed (use that in \<open>simp add: defs\<close>)
  show "intra_wf scid s \<Longrightarrow> distinct (intra_queue scid s)"
    by (auto simp: defs ring_wf_def split: option.splits)
  show "\<exists>s'. intra_MarkQueueActive scid e s = Some s' \<and> intra_wf scid s' \<and> intra_queue scid s' =
        (if e \<in> set (intra_queue scid s) \<or> \<not> True then intra_queue scid s else intra_queue scid s @ [e])"
    if "intra_wf scid s" "intra_known scid s e"
  proof (cases "s scid")
    case (Some r)
    then show ?thesis using that ring_activate_list [of r e] by (auto simp: defs)
  qed (use that in \<open>simp add: defs\<close>)
  show "\<exists>s'. intra_MarkQueueInactive scid e s = Some s' \<and> intra_wf scid s' \<and>
        intra_queue scid s' = removeAll e (intra_queue scid s)"
    if "intra_wf scid s" "intra_known scid s e"
  proof (cases "s scid")
    case (Some r)
    then show ?thesis using that ring_deactivate_list [of r e] by (auto simp: defs)
  qed (use that in \<open>simp add: defs\<close>)
qed

interpretation inter: round_robin_marks ring_wf active_list
  "\<lambda>r. Some (inter_SelectConnection r)" "\<lambda>r e. is_active r e \<noteq> None" "\<lambda>_ _. True"
  "\<lambda>r e. inter_MarkConnectionActive e r" "\<lambda>r e. inter_MarkConnectionInactive e r"
  unfolding inter_SelectConnection_def inter_MarkConnectionActive_def inter_MarkConnectionInactive_def
  by (rule ring.round_robin_marks_axioms)

interpretation ipt: round_robin_marks "\<lambda>p. ring_wf (p t)" "\<lambda>p. active_list (p t)"
  "\<lambda>p. Some (ipt_SelectConnection t p)" "\<lambda>p e. is_active (p t) e \<noteq> None" "\<lambda>_ _. True"
  "\<lambda>p e. ipt_MarkConnectionActive e t p" "\<lambda>p e. ipt_MarkConnectionInactive e t p" for t
proof
  fix s :: IntraPacketType and e q
  note defs = ipt_SelectConnection_def ipt_MarkConnectionActive_def ipt_MarkConnectionInactive_def
  show "ring_wf (s t) \<Longrightarrow> active_list (s t) = [] \<Longrightarrow>
      Some (ipt_SelectConnection t s) = Some (s, Inl UnavailableError)"
    by (simp add: defs ring_select_cases fun_upd_idem)
  show "ring_wf (s t) \<Longrightarrow> active_list (s t) = e # q \<Longrightarrow>
      \<exists>s'. Some (ipt_SelectConnection t s) = Some (s', Inr e) \<and> ring_wf (s' t) \<and> active_list (s' t) = q @ [e]"
    using ring_wf_select [of "s t"] by (simp add: defs ring_select_cases)
  show "ring_wf (s t) \<Longrightarrow> distinct (active_list (s t))" by (simp add: ring_wf_def)
  show "ring_wf (s t) \<Longrightarrow> is_active (s t) e \<noteq> None \<Longrightarrow>
      \<exists>s'. ipt_MarkConnectionActive e t s = Some s' \<and> ring_wf (s' t) \<and> active_list (s' t) =
        (if e \<in> set (active_list (s t)) \<or> \<not> True then active_list (s t) else active_list (s t) @ [e])"
    using ring_activate_list [of "s t" e] by (auto simp: defs)
  show "ring_wf (s t) \<Longrightarrow> is_active (s t) e \<noteq> None \<Longrightarrow>
      \<exists>s'. ipt_MarkConnectionInactive e t s = Some s' \<and> ring_wf (s' t) \<and>
        active_list (s' t) = removeAll e (active_list (s t))"
    using ring_deactivate_list [of "s t" e] by (auto simp: defs)
qed

lemma touch_flag_known: "is_active r e \<noteq> None \<Longrightarrow> touch_flag e r = r"
  by (auto simp: touch_flag_def)

interpretation inter_type: round_robin_marks ring_wf active_list
  "\<lambda>r. Some (SelectPacketTypeBasedQueueType r)" "\<lambda>r e. is_active r e \<noteq> None" "\<lambda>_ _. True"
  "\<lambda>r e. MarkPacketTypeBasedQueueTypeActive e r" "\<lambda>r e. MarkPacketTypeBasedQueueTypeInactive e r"
proof
  fix s :: "PacketTypeQueue Ring" and e q
  note defs = SelectPacketTypeBasedQueueType_def MarkPacketTypeBasedQueueTypeActive_def
    MarkPacketTypeBasedQueueTypeInactive_def
  show "ring_wf s \<Longrightarrow> active_list s = [] \<Longrightarrow>
      Some (SelectPacketTypeBasedQueueType s) = Some (s, Inl UnavailableError)"
    unfolding defs by (rule ring.select_empty)
  show "ring_wf s \<Longrightarrow> active_list s = e # q \<Longrightarrow>
      \<exists>s'. Some (SelectPacketTypeBasedQueueType s) = Some (s', Inr e) \<and> ring_wf s' \<and> active_list s' = q @ [e]"
    unfolding defs by (rule ring.select_head)
  show "ring_wf s \<Longrightarrow> distinct (active_list s)" by (rule ring.queue_distinct)
  show "ring_wf s \<Longrightarrow> is_active s e \<noteq> None \<Longrightarrow>
      \<exists>s'. MarkPacketTypeBasedQueueTypeActive e s = Some s' \<and> ring_wf s' \<and> active_list s' =
        (if e \<in> set (active_list s) \<or> \<not> True then active_list s else active_list s @ [e])"
    using ring_activate_list [of s e] by (simp add: defs touch_flag_known)
  show "ring_wf s \<Longrightarrow> is_active s e \<noteq> None \<Longrightarrow>
      \<exists>s'. MarkPacketTypeBasedQueueTypeInactive e s = Some s' \<and> ring_wf s' \<and>
        active_list s' = removeAll e (active_list s)"
    using ring_deactivate_list [of s e] by (simp add: defs touch_flag_known)
qed

section \<open>Properties\<close>

lemma ring_wf_init:
  "ring_wf (fold ring_add packet_type_queues empty_ring)"
  "ring_wf (fold ring_add window_type_queues empty_ring)"
  by (auto simp: packet_type_queues_def window_type_queues_def ring_wf_def ring_add_def empty_ring_def)

text \<open>
  C16 Equal shares. With nothing marked in between, \<open>m\<close> rounds of selections by the
  intra-connection policy serve every active queue of the connection exactly \<open>m\<close> times, no other
  queue, and leave the service order as it was.
\<close>

theorem intra_connection_equal_shares:
  assumes "p scid = Some r" "ring_wf r" "active_list r \<noteq> []"
  shows "\<exists>p' r' es. serve (intra_SelectQueue scid) (m * length (active_list r)) p = Some (p', es) \<and>
    p' scid = Some r' \<and> ring_wf r' \<and> active_list r' = active_list r \<and>
    (\<forall>q. count_list es q = (if q \<in> set (active_list r) then m else 0))"
proof -
  have "intra_wf scid p" "intra_queue scid p = active_list r"
    using assms by (simp_all add: intra_wf_def intra_queue_def)
  then show ?thesis
    using intra.serve_shares [of scid p m] assms(3)
    by (auto simp: intra_wf_def intra_queue_def split: option.splits)
qed

lemma intra_connection_equal_shares_witness:
  "\<exists>p r p' es. intra_MarkQueueActive 3 Q_kPullData (fst (intra_InitConnection_packet 3 Map.empty)) = Some p
     \<and> p 3 = Some r \<and> serve (intra_SelectQueue 3) (4 * length (active_list r)) p = Some (p', es)
     \<and> count_list es Q_kPullData = 4 \<and> count_list es kPushData = 0"
proof -
  let ?r0 = "fold ring_add packet_type_queues empty_ring"
  have known: "is_active ?r0 Q_kPullData \<noteq> None" and none: "active_list ?r0 = []"
    by (simp_all add: packet_type_queues_def ring_add_def empty_ring_def)
  obtain r where r: "ring_activate Q_kPullData ?r0 = Some r" "ring_wf r" "active_list r = [Q_kPullData]"
    using ring_activate_list [OF ring_wf_init(1) known] none by auto
  define p where "p = (fst (intra_InitConnection_packet 3 Map.empty))(3 \<mapsto> r)"
  have p: "intra_MarkQueueActive 3 Q_kPullData (fst (intra_InitConnection_packet 3 Map.empty)) = Some p"
    "p 3 = Some r"
    using r by (simp_all add: p_def intra_MarkQueueActive_def intra_InitConnection_packet_def)
  show ?thesis
    using intra_connection_equal_shares [of p 3 r 4, OF p(2) r(2)] p r(3) by auto
qed

text \<open>The operations of the host policy in any order.\<close>

datatype host_op =
  OpInit u8 | OpActive u8 | OpInactive u8 | OpXoff u8 | OpXon u8 | OpSelect

fun host_step :: "host_op \<Rightarrow> HostPolicy \<Rightarrow> HostPolicy option" where
  "host_step (OpInit h) p = map_option fst (InitHost h p)"
| "host_step (OpActive h) p = MarkHostActive h p"
| "host_step (OpInactive h) p = MarkHostInactive h p"
| "host_step (OpXoff h) p = XoffHost h p"
| "host_step (OpXon h) p = XonHost h p"
| "host_step OpSelect p = Some (fst (SelectHost p))"

fun host_run :: "host_op list \<Rightarrow> HostPolicy \<Rightarrow> HostPolicy option" where
  "host_run [] p = Some p"
| "host_run (x # xs) p = do { p1 \<leftarrow> host_step x p; host_run xs p1 }"

lemma host_op_known:
  "MarkHostActive h p = Some p' \<Longrightarrow> host_known p h" "MarkHostInactive h p = Some p' \<Longrightarrow> host_known p h"
  "XoffHost h p = Some p' \<Longrightarrow> host_known p h" "XonHost h p = Some p' \<Longrightarrow> host_known p h"
  by (auto simp: MarkHostActive_def MarkHostInactive_def XoffHost_def XonHost_def host_known_def
      split: bind_splits)

lemma host_ops_wf:
  assumes "host_wf p"
  shows "MarkHostActive h p = Some p' \<Longrightarrow> host_wf p'" "MarkHostInactive h p = Some p' \<Longrightarrow> host_wf p'"
    "XoffHost h p = Some p' \<Longrightarrow> host_wf p'" "XonHost h p = Some p' \<Longrightarrow> host_wf p'"
proof -
  show "MarkHostActive h p = Some p' \<Longrightarrow> host_wf p'"
    using MarkHostActive_spec [OF assms host_op_known(1)] by fastforce
  show "MarkHostInactive h p = Some p' \<Longrightarrow> host_wf p'"
    using MarkHostInactive_spec [OF assms host_op_known(2)] by fastforce
  show "XoffHost h p = Some p' \<Longrightarrow> host_wf p'"
    using XoffHost_spec [OF assms host_op_known(3)] by fastforce
  show "XonHost h p = Some p' \<Longrightarrow> host_wf p'"
    using XonHost_spec [OF assms host_op_known(4)] by fastforce
qed

lemma SelectHost_wf: "host_wf p \<Longrightarrow> host_wf (fst (SelectHost p))"
  using SelectHost_spec [of p] by (cases "active_hosts p") force+

lemma host_step_wf: "host_wf p \<Longrightarrow> host_step x p = Some p' \<Longrightarrow> host_wf p'"
  by (cases x) (auto intro: InitHost_wf host_ops_wf SelectHost_wf)

lemma host_run_wf: "host_wf p \<Longrightarrow> host_run xs p = Some p' \<Longrightarrow> host_wf p'"
  by (induction xs arbitrary: p) (auto dest: host_step_wf split: bind_splits)

text \<open>
  The inter-host policy serves exactly the hosts that have packets and are not paused. After any
  sequence of initialisations, activity marks, xoff, xon and selections, the service list
  holds each such host once and no other host, and the next selections serve every one of
  them once, in list order.
\<close>

theorem host_policy_serves_eligible:
  assumes "host_run ops new_HostPolicy = Some p"
  shows "distinct (active_hosts p) \<and>
    (\<forall>h. h \<in> set (active_hosts p) \<longleftrightarrow> host_busy p h \<and> \<not> host_paused p h) \<and>
    (\<exists>p'. serve (\<lambda>p. Some (SelectHost p)) (length (active_hosts p)) p = Some (p', active_hosts p))"
proof -
  have wf: "host_wf p" by (rule host_run_wf [OF host_wf_new assms])
  have "h \<in> set (active_hosts p) \<longleftrightarrow> host_busy p h \<and> \<not> host_paused p h" for h
    using wf by (rule host_wf_served)
  moreover have "\<exists>p'. serve (\<lambda>p. Some (SelectHost p)) (length (active_hosts p)) p
      = Some (p', active_hosts p)"
  proof (cases "active_hosts p = []")
    case False
    have "map (\<lambda>k. active_hosts p ! (k mod length (active_hosts p))) [0..<length (active_hosts p)]
        = active_hosts p"
      by (rule nth_equalityI) simp_all
    then show ?thesis using host.serve_cycle [OF wf False, of "length (active_hosts p)"] by auto
  qed simp
  ultimately show ?thesis using wf by (auto simp: host_wf_def)
qed

lemma host_policy_serves_eligible_witness:
  "\<exists>p. host_run [OpInit 0, OpInit 1, OpActive 0, OpXoff 0, OpActive 1, OpXon 0] new_HostPolicy = Some p
     \<and> host_busy p 0 \<and> 0 \<in> set (active_hosts p)"
proof -
  have "\<exists>p. host_run [OpInit 0, OpInit 1, OpActive 0, OpXoff 0, OpActive 1, OpXon 0] new_HostPolicy = Some p
     \<and> host_busy p 0 \<and> \<not> host_paused p 0"
    by (simp add: new_HostPolicy_def InitHost_def MarkHostActive_def XoffHost_def XonHost_def
        move_to_active_def move_to_inactive_def host_busy_def host_paused_def)
  then show ?thesis using host_policy_serves_eligible by blast
qed

end
