(* ===== verification/Host_Rx_Scheduler.thy ===== *)
theory Host_Rx_Scheduler
  imports Round_Robin
begin

text \<open>
  \<open>host/falcon/falcon_inter_host_rx_scheduler.cc\<close>: packets for the hosts of a bifurcated NIC
  wait as callbacks in per-host queues, and one pending event at a time runs the next callback.
  \<open>scheduled\<close> is the list of delays of the pending \<open>ScheduleWork\<close> events. \<open>run cb\<close> is what running a
  callback does to the scheduler: \<open>rx_callback\<close> for the two callbacks \<open>FalconModel::ReorderCallback\<close> enqueues,
  of which the one that delivers a data packet sets the gap to the next packet and the one that delivers a
  completion does nothing here. The RDMA model they call looks up its queue pair in an event of its own, so
  no pause or enqueue comes back before the callback returns. Statistics are left out.

  The lemmas show that work never waits without a pending event.
\<close>

record 'cb HostRx =
  policy :: HostPolicy
  hosts_queue :: "u8 \<Rightarrow> 'cb list"
  is_running :: bool
  last_scheduler_run_time :: duration
  inter_packet_gap :: duration
  scheduler_cycle_time :: duration
  scheduled :: "duration list"

definition new_HostRx :: "duration \<Rightarrow> 'cb HostRx" where
  "new_HostRx cycle_time =
     \<lparr>policy = new_HostPolicy, hosts_queue = (\<lambda>_. []), is_running = False,
      last_scheduler_run_time = ZeroDuration, inter_packet_gap = cycle_time,
      scheduler_cycle_time = cycle_time, scheduled = []\<rparr>"

definition InitInterHostSchedulerQueues :: "u8 \<Rightarrow> 'cb HostRx \<Rightarrow> ('cb HostRx \<times> status) option" where
  "InitInterHostSchedulerQueues h s =
     map_option (\<lambda>(p, st). (s\<lparr>policy := p\<rparr>, st)) (InitHost h (policy s))"

text \<open>The constructor initialises the hosts \<open>0, \<dots>, number_of_hosts - 1\<close>.\<close>

fun init_hosts :: "nat \<Rightarrow> u8 \<Rightarrow> 'cb HostRx \<Rightarrow> 'cb HostRx option" where
  "init_hosts 0 host_idx s = Some s"
| "init_hosts (Suc n) host_idx s = do {
     (s1, st) \<leftarrow> InitInterHostSchedulerQueues host_idx s;
     check_ok st;
     init_hosts n (host_idx + 1) s1
   }"

definition HostRx_HasWork :: "'cb HostRx \<Rightarrow> bool" where
  "HostRx_HasWork s = HostPolicy_HasWork (policy s)"

text \<open>The common tail of \<open>Enqueue\<close> and \<open>SetXoff\<close>: start the scheduler one gap after its last run.\<close>

definition start_scheduler :: "duration \<Rightarrow> 'cb HostRx \<Rightarrow> 'cb HostRx" where
  "start_scheduler current_time s =
     (let next_run_time = max (last_scheduler_run_time s + inter_packet_gap s) current_time
      in s\<lparr>is_running := True, scheduled := scheduled s @ [next_run_time - current_time]\<rparr>)"

definition HostRx_Enqueue :: "u8 \<Rightarrow> 'cb \<Rightarrow> duration \<Rightarrow> 'cb HostRx \<Rightarrow> 'cb HostRx option" where
  "HostRx_Enqueue h cb now s = do {
     let s1 = s\<lparr>hosts_queue := (hosts_queue s)(h := hosts_queue s h @ [cb])\<rparr>;
     p \<leftarrow> MarkHostActive h (policy s1);
     let s2 = s1\<lparr>policy := p\<rparr>;
     Some (if \<not> is_running s2 then start_scheduler now s2 else s2)
   }"

definition HostRx_ScheduleWork ::
    "('cb \<Rightarrow> 'cb HostRx \<Rightarrow> 'cb HostRx option) \<Rightarrow> duration \<Rightarrow> 'cb HostRx \<Rightarrow> 'cb HostRx option" where
  "HostRx_ScheduleWork run now s = do {
     let (p, r) = SelectHost (policy s);
     let s1 = s\<lparr>is_running := False, policy := p\<rparr>;
     case r of
       Inl _ \<Rightarrow> Some s1
     | Inr h \<Rightarrow>
         (case hosts_queue s1 h of
            [] \<Rightarrow> None
          | cb # _ \<Rightarrow> do {
              s2 \<leftarrow> run cb (s1\<lparr>last_scheduler_run_time := now\<rparr>);
              let s3 = s2\<lparr>hosts_queue := (hosts_queue s2)(h := tl (hosts_queue s2 h))\<rparr>;
              s4 \<leftarrow> (if hosts_queue s3 h = []
                     then map_option (\<lambda>p. s3\<lparr>policy := p\<rparr>) (MarkHostInactive h (policy s3))
                     else Some s3);
              Some (if HostRx_HasWork s4
                    then s4\<lparr>is_running := True, scheduled := scheduled s4 @ [inter_packet_gap s4]\<rparr>
                    else s4)
            })
   }"

definition HostRx_SetXoff :: "u8 \<Rightarrow> bool \<Rightarrow> duration \<Rightarrow> 'cb HostRx \<Rightarrow> 'cb HostRx option" where
  "HostRx_SetXoff h xoff now s =
     (if xoff then map_option (\<lambda>p. s\<lparr>policy := p\<rparr>) (XoffHost h (policy s))
      else do {
        p \<leftarrow> XonHost h (policy s);
        let s1 = s\<lparr>policy := p\<rparr>;
        Some (if HostRx_HasWork s1 \<and> \<not> is_running s1 then start_scheduler now s1 else s1)
      })"

text \<open>The serialisation delay of the packet is computed in floating point and is a parameter.\<close>

definition UpdateInterPacketGap :: "duration \<Rightarrow> 'cb HostRx \<Rightarrow> 'cb HostRx" where
  "UpdateInterPacketGap packet_serialization_delay s =
     s\<lparr>inter_packet_gap := max (scheduler_cycle_time s) packet_serialization_delay\<rparr>"

text \<open>
  The callbacks of \<open>ReorderCallback\<close>: \<open>gap cb\<close> is the serialisation delay of the payload of a data packet,
  and \<open>None\<close> for a completion.
\<close>

definition rx_callback :: "('cb \<Rightarrow> duration option) \<Rightarrow> 'cb \<Rightarrow> 'cb HostRx \<Rightarrow> 'cb HostRx option" where
  "rx_callback gap cb s = Some (case gap cb of None \<Rightarrow> s | Some d \<Rightarrow> UpdateInterPacketGap d s)"

lemma rx_callback_frame:
  "rx_callback gap cb s = Some (s\<lparr>inter_packet_gap := (case gap cb of
     None \<Rightarrow> inter_packet_gap s | Some d \<Rightarrow> max (scheduler_cycle_time s) d)\<rparr>)"
  by (cases "gap cb") (simp_all add: rx_callback_def UpdateInterPacketGap_def)

section \<open>No lost wake-ups\<close>

definition rx_inv :: "'cb HostRx \<Rightarrow> bool" where
  "rx_inv s \<longleftrightarrow> host_wf (policy s) \<and>
     (\<forall>h. host_busy (policy s) h \<longleftrightarrow> hosts_queue s h \<noteq> []) \<and>
     (HostRx_HasWork s \<longrightarrow> is_running s) \<and>
     length (scheduled s) = (if is_running s then 1 else 0)"

text \<open>The environment's events: the next pending event fires, or another component calls.\<close>

datatype 'cb rx_event =
    RxInit u8
  | RxEnqueue u8 'cb duration
  | RxSetXoff u8 bool duration
  | RxUpdateGap duration
  | RxFire duration

fun rx_step ::
    "('cb \<Rightarrow> 'cb HostRx \<Rightarrow> 'cb HostRx option) \<Rightarrow> 'cb rx_event \<Rightarrow> 'cb HostRx \<Rightarrow> 'cb HostRx option" where
  "rx_step run (RxInit h) s = map_option fst (InitInterHostSchedulerQueues h s)"
| "rx_step run (RxEnqueue h cb now) s = HostRx_Enqueue h cb now s"
| "rx_step run (RxSetXoff h xoff now) s = HostRx_SetXoff h xoff now s"
| "rx_step run (RxUpdateGap d) s = Some (UpdateInterPacketGap d s)"
| "rx_step run (RxFire now) s =
     (case scheduled s of
        [] \<Rightarrow> Some s
      | _ # rest \<Rightarrow> HostRx_ScheduleWork run now (s\<lparr>scheduled := rest\<rparr>))"

fun rx_run ::
    "('cb \<Rightarrow> 'cb HostRx \<Rightarrow> 'cb HostRx option) \<Rightarrow> 'cb rx_event list \<Rightarrow> 'cb HostRx \<Rightarrow> 'cb HostRx option"
  where
  "rx_run run [] s = Some s"
| "rx_run run (e # es) s = do { s1 \<leftarrow> rx_step run e s; rx_run run es s1 }"

lemma host_busy_InitHost: "InitHost h p = Some (p', st) \<Longrightarrow> host_busy p' x = host_busy p x"
  by (auto simp: InitHost_def host_busy_def split: if_splits option.splits)

lemma host_busy_active:
  "MarkHostActive h p = Some p' \<Longrightarrow> host_busy p' x \<longleftrightarrow> x = h \<or> host_busy p x"
  by (auto simp: MarkHostActive_def host_busy_def move_to_active_def Let_def
      split: bind_splits if_splits option.splits)

lemma host_busy_inactive:
  "MarkHostInactive h p = Some p' \<Longrightarrow> host_busy p' x \<longleftrightarrow> x \<noteq> h \<and> host_busy p x"
  by (auto simp: MarkHostInactive_def host_busy_def move_to_inactive_def Let_def
      split: bind_splits if_splits option.splits)

lemma host_busy_xoff: "XoffHost h p = Some p' \<Longrightarrow> host_busy p' x = host_busy p x"
  by (auto simp: XoffHost_def host_busy_def move_to_inactive_def Let_def
      split: bind_splits if_splits option.splits)

lemma host_busy_xon: "XonHost h p = Some p' \<Longrightarrow> host_busy p' x = host_busy p x"
  by (auto simp: XonHost_def host_busy_def move_to_active_def Let_def
      split: bind_splits if_splits option.splits)

lemma host_busy_select [simp]: "host_busy (fst (SelectHost p)) x = host_busy p x"
  by (auto simp: SelectHost_def host_busy_def split: list.splits)

lemma work_iff: "HostRx_HasWork s \<longleftrightarrow> active_hosts (policy s) \<noteq> []"
  by (simp add: HostRx_HasWork_def HostPolicy_HasWork_def)

lemma rx_inv_work:
  assumes "rx_inv s"
  shows "HostRx_HasWork s \<longleftrightarrow> (\<exists>x. hosts_queue s x \<noteq> [] \<and> \<not> host_paused (policy s) x)"
proof -
  have "x \<in> set (active_hosts (policy s)) \<longleftrightarrow> hosts_queue s x \<noteq> [] \<and> \<not> host_paused (policy s) x" for x
    using assms host_wf_served [of "policy s" x] by (simp add: rx_inv_def)
  then show ?thesis unfolding work_iff by (metis hd_in_set empty_iff list.set(1))
qed

lemma rx_inv_new [simp]: "rx_inv (new_HostRx d)"
proof -
  have "active_hosts new_HostPolicy = []" "\<not> host_busy new_HostPolicy h" for h
    by (simp_all add: new_HostPolicy_def host_busy_def)
  then show ?thesis by (simp add: rx_inv_def new_HostRx_def work_iff)
qed

lemma rx_inv_init:
  assumes "rx_inv s" "InitInterHostSchedulerQueues h s = Some (s', st)"
  shows "rx_inv s'"
proof -
  obtain p where p: "InitHost h (policy s) = Some (p, st)" "s' = s\<lparr>policy := p\<rparr>"
    using assms(2) by (auto simp: InitInterHostSchedulerQueues_def)
  moreover have "active_hosts p = active_hosts (policy s)"
    using p by (auto simp: InitHost_def split: if_splits)
  ultimately show ?thesis
    using assms(1) InitHost_wf [OF _ p(1)] host_busy_InitHost [OF p(1)]
    by (simp add: rx_inv_def work_iff)
qed

lemma rx_inv_enqueue:
  assumes "rx_inv s" "HostRx_Enqueue h cb now s = Some s'"
  shows "rx_inv s'"
proof -
  obtain p where p: "MarkHostActive h (policy s) = Some p"
    using assms(2) by (auto simp: HostRx_Enqueue_def split: bind_splits)
  have wf: "host_wf p" using host_ops_wf(1) [OF _ p] assms(1) by (simp add: rx_inv_def)
  show ?thesis
    using assms p wf host_busy_active [OF p]
    by (auto simp: rx_inv_def HostRx_Enqueue_def start_scheduler_def work_iff Let_def split: if_splits)
qed

lemma rx_inv_xoff:
  assumes "rx_inv s" "HostRx_SetXoff h xoff now s = Some s'"
  shows "rx_inv s'"
proof (cases xoff)
  case True
  then obtain p where p: "XoffHost h (policy s) = Some p" "s' = s\<lparr>policy := p\<rparr>"
    using assms(2) by (auto simp: HostRx_SetXoff_def)
  have wf: "host_wf (policy s)" using assms(1) by (simp add: rx_inv_def)
  have "active_hosts p = removeAll h (active_hosts (policy s))"
    using XoffHost_spec [OF wf host_op_known(3) [OF p(1)]] p(1) by simp
  then show ?thesis
    using assms(1) p wf host_ops_wf(3) [OF wf p(1)] host_busy_xoff [OF p(1)]
    by (auto simp: rx_inv_def work_iff)
next
  case False
  then obtain p where p: "XonHost h (policy s) = Some p"
    using assms(2) by (auto simp: HostRx_SetXoff_def split: bind_splits)
  have wf: "host_wf (policy s)" using assms(1) by (simp add: rx_inv_def)
  show ?thesis
    using assms p False host_ops_wf(4) [OF wf p] host_busy_xon [OF p]
    by (auto simp: rx_inv_def HostRx_SetXoff_def start_scheduler_def work_iff Let_def split: if_splits)
qed

text \<open>
  Firing the pending event: the callback at the head of the selected host's queue runs, and
  if work is left the next event is scheduled, one gap later, the gap being the one the callback set.
\<close>

lemma rx_fire:
  assumes inv: "rx_inv s" and pending: "scheduled s = d # rest"
  shows "\<exists>s'. HostRx_ScheduleWork (rx_callback gap) now (s\<lparr>scheduled := rest\<rparr>) = Some s' \<and> rx_inv s' \<and>
    (case active_hosts (policy s) of
       [] \<Rightarrow> hosts_queue s' = hosts_queue s
     | h # _ \<Rightarrow> hosts_queue s' = (hosts_queue s)(h := tl (hosts_queue s h)) \<and>
         inter_packet_gap s' = (case gap (hd (hosts_queue s h)) of
           None \<Rightarrow> inter_packet_gap s | Some d \<Rightarrow> max (scheduler_cycle_time s) d) \<and>
         scheduled s' = (if HostRx_HasWork s' then [inter_packet_gap s'] else []) \<and>
         last_scheduler_run_time s' = now)"
proof -
  have wf: "host_wf (policy s)" and busy: "\<And>h. host_busy (policy s) h \<longleftrightarrow> hosts_queue s h \<noteq> []"
    and rest: "rest = []"
    using inv pending by (auto simp: rx_inv_def split: if_splits)
  show ?thesis
  proof (cases "active_hosts (policy s)")
    case Nil
    then show ?thesis
      using inv rest SelectHost_spec(1) [of "policy s"]
      by (simp add: HostRx_ScheduleWork_def rx_inv_def work_iff)
  next
    case (Cons h q)
    obtain p where p: "SelectHost (policy s) = (p, Inr h)" "host_wf p" "active_hosts p = q @ [h]"
      using SelectHost_spec(2) [OF wf Cons] by blast
    have "host_busy p h" using host_wf_served [OF p(2), of h] p(3) by simp
    then have known: "host_known p h" and hq: "hosts_queue s h \<noteq> []"
      using busy host_busy_select [of "policy s" h] p(1) by (auto intro: host_busy_known)
    obtain cb cbs where q: "hosts_queue s h = cb # cbs" using hq by (cases "hosts_queue s h") auto
    have busy': "\<And>x. host_busy p x \<longleftrightarrow> hosts_queue s x \<noteq> []"
      using busy host_busy_select [of "policy s"] p(1) by simp
    show ?thesis
    proof (cases "cbs = []")
      case True
      obtain p2 where p2: "MarkHostInactive h p = Some p2" "host_wf p2"
        using MarkHostInactive_spec [OF p(2) known] by blast
      then show ?thesis
        using Cons p q True rest busy' host_busy_inactive [OF p2(1)]
        by (auto simp: HostRx_ScheduleWork_def rx_callback_frame rx_inv_def work_iff Let_def split: option.split)
    next
      case False
      then show ?thesis
        using Cons p q rest busy'
        by (auto simp: HostRx_ScheduleWork_def rx_callback_frame rx_inv_def work_iff Let_def split: option.split)
    qed
  qed
qed

lemma rx_inv_step:
  assumes "rx_inv s" "rx_step (rx_callback gap) e s = Some s'"
  shows "rx_inv s'"
proof (cases e)
  case (RxFire now)
  show ?thesis
  proof (cases "scheduled s")
    case Nil
    then show ?thesis using assms RxFire by simp
  next
    case (Cons d rest)
    then show ?thesis
      using assms(2) RxFire rx_fire [OF assms(1) Cons, of gap now] by auto
  qed
next
  case (RxUpdateGap d)
  then show ?thesis using assms by (auto simp: UpdateInterPacketGap_def rx_inv_def work_iff)
qed (use assms rx_inv_init rx_inv_enqueue rx_inv_xoff in \<open>fastforce\<close>)+

lemma rx_inv_run:
  "rx_inv s \<Longrightarrow> rx_run (rx_callback gap) es s = Some s' \<Longrightarrow> rx_inv s'"
proof (induction es arbitrary: s)
  case (Cons e es)
  from Cons.prems(2) obtain s1 where "rx_step (rx_callback gap) e s = Some s1" "rx_run (rx_callback gap) es s1 = Some s'"
    by (auto split: bind_splits)
  then show ?case using Cons.IH [of s1] rx_inv_step [OF Cons.prems(1)] by blast
qed simp

section \<open>Properties\<close>

text \<open>
  C8 No lost wake-up. In every execution from the constructor (initialisations, enqueues, xoff and
  xon, updates of the gap, fired events that run the callbacks of the Falcon model, in any order and at any
  times) the scheduler has at most one pending event, and exactly one whenever some host with packets is not
  paused; firing that event runs and removes exactly the first packet of the host whose turn it is, leaves the
  gap the packet asks for (never below the cycle time of the scheduler; a completion keeps the gap), and
  schedules the next event one such gap later exactly when an unpaused host still has packets.
\<close>

theorem host_rx_no_lost_wakeup:
  assumes "rx_run (rx_callback gap) es (new_HostRx d) = Some s"
  shows "length (scheduled s) \<le> 1 \<and>
    ((\<exists>h. hosts_queue s h \<noteq> [] \<and> \<not> host_paused (policy s) h) \<longrightarrow>
       length (scheduled s) = 1 \<and>
       (\<exists>h s'. h = hd (active_hosts (policy s)) \<and> hosts_queue s h \<noteq> [] \<and> \<not> host_paused (policy s) h \<and>
          rx_step (rx_callback gap) (RxFire now) s = Some s' \<and>
          hosts_queue s' = (hosts_queue s)(h := tl (hosts_queue s h)) \<and>
          inter_packet_gap s' = (case gap (hd (hosts_queue s h)) of
            None \<Rightarrow> inter_packet_gap s | Some g \<Rightarrow> max (scheduler_cycle_time s) g) \<and>
          scheduled s' = (if \<exists>x. hosts_queue s' x \<noteq> [] \<and> \<not> host_paused (policy s') x
            then [inter_packet_gap s'] else [])))"
proof -
  have inv: "rx_inv s" by (rule rx_inv_run [OF rx_inv_new assms])
  then have one: "length (scheduled s) \<le> 1" by (auto simp: rx_inv_def)
  have wf: "host_wf (policy s)" and busy: "\<And>h. host_busy (policy s) h \<longleftrightarrow> hosts_queue s h \<noteq> []"
    using inv by (auto simp: rx_inv_def)
  have "length (scheduled s) = 1 \<and>
      (\<exists>h s'. h = hd (active_hosts (policy s)) \<and> hosts_queue s h \<noteq> [] \<and> \<not> host_paused (policy s) h \<and>
        rx_step (rx_callback gap) (RxFire now) s = Some s' \<and>
        hosts_queue s' = (hosts_queue s)(h := tl (hosts_queue s h)) \<and>
        inter_packet_gap s' = (case gap (hd (hosts_queue s h)) of
          None \<Rightarrow> inter_packet_gap s | Some g \<Rightarrow> max (scheduler_cycle_time s) g) \<and>
        scheduled s' = (if \<exists>x. hosts_queue s' x \<noteq> [] \<and> \<not> host_paused (policy s') x
          then [inter_packet_gap s'] else []))"
    if x: "hosts_queue s x \<noteq> []" "\<not> host_paused (policy s) x" for x
  proof -
    have "x \<in> set (active_hosts (policy s))"
      using x busy by (simp add: host_wf_served [OF wf])
    then obtain h q where hq: "active_hosts (policy s) = h # q" by (cases "active_hosts (policy s)") auto
    then have "scheduled s \<noteq> []" using inv by (auto simp: rx_inv_def work_iff split: if_splits)
    then obtain e rest where sch: "scheduled s = e # rest" by (cases "scheduled s") auto
    have h: "hosts_queue s h \<noteq> []" "\<not> host_paused (policy s) h"
      using host_wf_served [OF wf, of h] hq busy by simp_all
    obtain s' where s': "HostRx_ScheduleWork (rx_callback gap) now (s\<lparr>scheduled := rest\<rparr>) = Some s'" "rx_inv s'"
      "hosts_queue s' = (hosts_queue s)(h := tl (hosts_queue s h))"
      "inter_packet_gap s' = (case gap (hd (hosts_queue s h)) of
          None \<Rightarrow> inter_packet_gap s | Some d \<Rightarrow> max (scheduler_cycle_time s) d)"
      "scheduled s' = (if HostRx_HasWork s' then [inter_packet_gap s'] else [])"
      using rx_fire [OF inv sch, of gap now] hq by auto
    have "HostRx_HasWork s' \<longleftrightarrow> (\<exists>x. hosts_queue s' x \<noteq> [] \<and> \<not> host_paused (policy s') x)"
      using rx_inv_work [OF s'(2)] .
    then show ?thesis using s' h hq sch one by (intro conjI exI [of _ h] exI [of _ s']) simp_all
  qed
  then show ?thesis using one by blast
qed

lemma host_rx_no_lost_wakeup_witness:
  "\<exists>s s'. rx_run (rx_callback Some) [RxInit 0, RxEnqueue 0 (Ticks 7) (Ticks 5), RxEnqueue 0 (Ticks 8) (Ticks 5),
       RxSetXoff 0 True (Ticks 6), RxFire (Ticks 7), RxSetXoff 0 False (Ticks 9)] (new_HostRx (Ticks 1)) = Some s
     \<and> rx_step (rx_callback Some) (RxFire (Ticks 9)) s = Some s' \<and> hosts_queue s' 0 = [Ticks 8] \<and>
     inter_packet_gap s' = Ticks 7"
proof -
  let ?es = "[RxInit 0, RxEnqueue 0 (Ticks 7) (Ticks 5), RxEnqueue 0 (Ticks 8) (Ticks 5),
       RxSetXoff 0 True (Ticks 6), RxFire (Ticks 7), RxSetXoff 0 False (Ticks 9)]"
  have "\<exists>s. rx_run (rx_callback Some) ?es (new_HostRx (Ticks 1)) = Some s \<and> hosts_queue s 0 = [Ticks 7, Ticks 8]
      \<and> \<not> host_paused (policy s) 0 \<and> hd (active_hosts (policy s)) = 0 \<and> scheduler_cycle_time s = Ticks 1"
    by (simp add: new_HostRx_def new_HostPolicy_def InitInterHostSchedulerQueues_def InitHost_def
        HostRx_Enqueue_def MarkHostActive_def move_to_active_def move_to_inactive_def
        start_scheduler_def HostRx_SetXoff_def XoffHost_def XonHost_def HostRx_ScheduleWork_def
        SelectHost_def HostRx_HasWork_def HostPolicy_HasWork_def host_paused_def Let_def)
  then obtain s where s: "rx_run (rx_callback Some) ?es (new_HostRx (Ticks 1)) = Some s"
    "hosts_queue s 0 = [Ticks 7, Ticks 8]" "\<not> host_paused (policy s) 0" "hd (active_hosts (policy s)) = 0"
    "scheduler_cycle_time s = Ticks 1"
    by blast
  have "\<exists>h. hosts_queue s h \<noteq> [] \<and> \<not> host_paused (policy s) h" using s(2,3) by (intro exI [of _ 0]) simp
  then obtain s' where "rx_step (rx_callback Some) (RxFire (Ticks 9)) s = Some s'"
    "hosts_queue s' = (hosts_queue s)(0 := tl (hosts_queue s 0))"
    "inter_packet_gap s' = max (scheduler_cycle_time s) (hd (hosts_queue s 0))"
    using host_rx_no_lost_wakeup [OF s(1), of "Ticks 9"] s(4) by auto
  then show ?thesis using s by (intro exI [of _ s] exI [of _ s']) (simp add: max_def)
qed

end
