(* ===== verification/Reorder.thy ===== *)
theory Reorder
  imports Falcon_Types
begin

text \<open>
  \<open>host/falcon/falcon_protocol_buffer_reorder_engine.{h,cc}\<close>: the engine that hands completions
  and requests to the upper layer in RSN order, and grants and push requests to FALCON in SSN
  order. \<open>ReorderCallback\<close> is a log of deliveries and \<open>ScheduleEvent\<close> a log of RNR timers; the
  callback is taken not to call back into the engine. The type of a target transaction is an
  option, because \<open>HandleRnrNackFromUlp\<close> can create an entry without one.

  The lemmas relate each buffer to the abstract contract "deliver the longest run of received
  numbers that starts at the first undelivered one", say what a single operation may hand to
  the upper layer, and exhibit the behaviour at the wrap-around of the sequence numbers.
\<close>

section \<open>State\<close>

record TargetTransaction =
  tt_packet_type :: "PacketType option"
  retry_time :: duration

definition new_TargetTransaction :: "PacketType \<Rightarrow> TargetTransaction" where
  "new_TargetTransaction type = \<lparr>tt_packet_type = Some type, retry_time = ZeroDuration\<rparr>"

record ConnectionReorderMetadata =
  next_initiator_rsn :: u32
  next_target_rsn :: u32
  next_target_network_rsn :: u32
  next_initiator_ssn :: u32
  next_target_ssn :: u32
  ordering_mode :: OrderingMode
  in_rnr :: bool
  info_rnr_timeout :: duration
  initiator_rsn_buffer :: "(u32 \<times> PacketType) list"
  target_rsn_buffer :: "(u32 \<times> TargetTransaction) list"
  initiator_ssn_buffer :: "(u32 \<times> u32) list"
  target_ssn_buffer :: "(u32 \<times> u32) list"

text \<open>A delivery names the RSN and the packet type given to \<open>ReorderCallback\<close>.\<close>

type_synonym delivery = "u32 \<times> PacketType"

record ReorderEngine =
  reorder_info :: "u32 \<rightharpoonup> ConnectionReorderMetadata"
  delivered :: "(u32 \<times> delivery) list"
  rnr_timers :: "(duration \<times> u32 \<times> u32) list"

definition new_ReorderEngine :: ReorderEngine where
  "new_ReorderEngine = \<lparr>reorder_info = Map.empty, delivered = [], rnr_timers = []\<rparr>"

definition new_info ::
    "u32 \<Rightarrow> u32 \<Rightarrow> u32 \<Rightarrow> u32 \<Rightarrow> OrderingMode \<Rightarrow> ConnectionReorderMetadata" where
  "new_info initiator_rsn target_rsn initiator_ssn target_ssn mode =
     \<lparr>next_initiator_rsn = initiator_rsn, next_target_rsn = target_rsn,
      next_target_network_rsn = target_rsn, next_initiator_ssn = initiator_ssn,
      next_target_ssn = target_ssn, ordering_mode = mode, in_rnr = False,
      info_rnr_timeout = ZeroDuration, initiator_rsn_buffer = [], target_rsn_buffer = [],
      initiator_ssn_buffer = [], target_ssn_buffer = []\<rparr>"

definition InitializeConnection ::
    "u32 \<Rightarrow> u32 \<Rightarrow> u32 \<Rightarrow> u32 \<Rightarrow> u32 \<Rightarrow> OrderingMode \<Rightarrow> ReorderEngine \<Rightarrow> ReorderEngine \<times> status" where
  "InitializeConnection cid initiator_rsn target_rsn initiator_ssn target_ssn mode s =
     (if reorder_info s cid \<noteq> None then (s, AlreadyExistsError)
      else (s\<lparr>reorder_info := (reorder_info s)(cid \<mapsto>
                new_info initiator_rsn target_rsn initiator_ssn target_ssn mode)\<rparr>, OkStatus))"

definition DeleteConnection :: "u32 \<Rightarrow> ReorderEngine \<Rightarrow> ReorderEngine \<times> status" where
  "DeleteConnection cid s =
     (if reorder_info s cid = None then (s, NotFoundError)
      else (s\<lparr>reorder_info := (reorder_info s)(cid := None)\<rparr>, OkStatus))"

section \<open>Draining a buffer\<close>

text \<open>
  The \<open>while\<close> loop of \<open>CheckInitiatorRsnBuffer\<close>, \<open>CheckInitiatorSsnBuffer\<close> and
  \<open>CheckTargetSsnBuffer\<close>: deliver the head of the ordered map while it is the expected one.
\<close>

fun drain :: "u32 \<Rightarrow> (u32 \<times> 'v) list \<Rightarrow> u32 \<times> (u32 \<times> 'v) list \<times> (u32 \<times> 'v) list" where
  "drain nxt [] = (nxt, [], [])"
| "drain nxt ((k, v) # m) =
     (if nxt = k then (case drain (nxt + 1) m of (n', m', d) \<Rightarrow> (n', m', (k, v) # d))
      else (nxt, (k, v) # m, []))"

text \<open>An arrival: deliver it and drain, or remember it.\<close>

definition accept ::
    "u32 \<Rightarrow> 'v \<Rightarrow> u32 \<Rightarrow> (u32 \<times> 'v) list \<Rightarrow> u32 \<times> (u32 \<times> 'v) list \<times> (u32 \<times> 'v) list" where
  "accept k v nxt buffer =
     (if k = nxt then (case drain (nxt + 1) buffer of (n', m', d) \<Rightarrow> (n', m', (k, v) # d))
      else (nxt, bt_set k v buffer, []))"

definition accept_initiator_rsn ::
    "u32 \<Rightarrow> PacketType \<Rightarrow> ConnectionReorderMetadata \<Rightarrow> ConnectionReorderMetadata \<times> delivery list" where
  "accept_initiator_rsn rsn type info =
     (case accept rsn type (next_initiator_rsn info) (initiator_rsn_buffer info) of (n, m, d) \<Rightarrow>
        (info\<lparr>next_initiator_rsn := n, initiator_rsn_buffer := m\<rparr>, d))"

definition accept_initiator_ssn ::
    "u32 \<Rightarrow> u32 \<Rightarrow> ConnectionReorderMetadata \<Rightarrow> ConnectionReorderMetadata \<times> delivery list" where
  "accept_initiator_ssn ssn rsn info =
     (case accept ssn rsn (next_initiator_ssn info) (initiator_ssn_buffer info) of (n, m, d) \<Rightarrow>
        (info\<lparr>next_initiator_ssn := n, initiator_ssn_buffer := m\<rparr>,
         map (\<lambda>(_, r). (r, kPushGrant)) d))"

definition accept_target_ssn ::
    "u32 \<Rightarrow> u32 \<Rightarrow> ConnectionReorderMetadata \<Rightarrow> ConnectionReorderMetadata \<times> delivery list" where
  "accept_target_ssn ssn rsn info =
     (case accept ssn rsn (next_target_ssn info) (target_ssn_buffer info) of (n, m, d) \<Rightarrow>
        (info\<lparr>next_target_ssn := n, target_ssn_buffer := m\<rparr>,
         map (\<lambda>(_, r). (r, kPushRequest)) d))"

section \<open>Requests to the upper layer at the target\<close>

definition IsInflightToUlpTarget :: "TargetTransaction \<Rightarrow> bool" where
  "IsInflightToUlpTarget t \<longleftrightarrow> retry_time t = InfiniteDuration"

text \<open>
  \<open>SendToUlpTarget\<close> through an iterator: the entry becomes in flight, and in an ordered
  connection the expected RSN advances. The delivery of an entry without a type is undefined.
\<close>

definition advance_target :: "OrderingMode \<Rightarrow> u32 \<Rightarrow> u32" where
  "advance_target mode nxt = (if mode = kOrdered then nxt + 1 else nxt)"

definition SendToUlpTarget ::
    "u32 \<Rightarrow> ConnectionReorderMetadata \<Rightarrow> (ConnectionReorderMetadata \<times> delivery list) option" where
  "SendToUlpTarget rsn info = do {
     t \<leftarrow> bt_find (target_rsn_buffer info) rsn;
     type \<leftarrow> tt_packet_type t;
     Some (info\<lparr>target_rsn_buffer :=
                  bt_set rsn (t\<lparr>retry_time := InfiniteDuration\<rparr>) (target_rsn_buffer info),
                next_target_rsn := advance_target (ordering_mode info) (next_target_rsn info)\<rparr>,
           [(rsn, type)])
   }"

text \<open>
  The loop of \<open>CheckTargetRsnBuffer\<close> from the expected RSN on: the entries keep their places, so
  the loop is a walk over the rest of the list.
\<close>

fun target_walk ::
    "OrderingMode \<Rightarrow> duration \<Rightarrow> u32 \<Rightarrow> (u32 \<times> TargetTransaction) list \<Rightarrow>
     (u32 \<times> (u32 \<times> TargetTransaction) list \<times> delivery list) option" where
  "target_walk mode now nxt [] = Some (nxt, [], [])"
| "target_walk mode now nxt ((k, t) # m) =
     (if nxt = k \<and> retry_time t \<le> now then do {
        type \<leftarrow> tt_packet_type t;
        (n', m', d) \<leftarrow> target_walk mode now (advance_target mode nxt) m;
        Some (n', (k, t\<lparr>retry_time := InfiniteDuration\<rparr>) # m', (k, type) # d)
      } else Some (nxt, (k, t) # m, []))"

definition CheckTargetRsnBuffer ::
    "duration \<Rightarrow> ConnectionReorderMetadata \<Rightarrow> (ConnectionReorderMetadata \<times> delivery list) option" where
  "CheckTargetRsnBuffer now info = do {
     let before = takeWhile (\<lambda>(k, _). k \<noteq> next_target_rsn info) (target_rsn_buffer info);
     let rest = dropWhile (\<lambda>(k, _). k \<noteq> next_target_rsn info) (target_rsn_buffer info);
     (n, m, d) \<leftarrow> target_walk (ordering_mode info) now (next_target_rsn info) rest;
     Some (info\<lparr>next_target_rsn := n, target_rsn_buffer := before @ m\<rparr>, d)
   }"

definition accept_target_rsn ::
    "u32 \<Rightarrow> PacketType \<Rightarrow> duration \<Rightarrow> ConnectionReorderMetadata \<Rightarrow>
     (ConnectionReorderMetadata \<times> delivery list \<times> status) option" where
  "accept_target_rsn rsn type now info = do {
     check (bt_find (target_rsn_buffer info) rsn = None);
     let info1 = info\<lparr>target_rsn_buffer :=
       bt_set rsn (new_TargetTransaction type) (target_rsn_buffer info)\<rparr>;
     if rsn = next_target_rsn info1 then do {
       (info2, d1) \<leftarrow> SendToUlpTarget rsn info1;
       (info3, d2) \<leftarrow> CheckTargetRsnBuffer now info2;
       Some (info3, d1 @ d2, OkStatus)
     }
     else if in_rnr info1 \<and> type \<noteq> kPullRequest then Some (info1, [], FailedPreconditionError)
     else Some (info1, [], OkStatus)
   }"

section \<open>Operations\<close>

text \<open>\<open>InsertPacket\<close> of an unordered connection.\<close>

definition insert_unordered ::
    "PacketType \<Rightarrow> u32 \<Rightarrow> ConnectionReorderMetadata \<Rightarrow>
     (ConnectionReorderMetadata \<times> delivery list \<times> status) option" where
  "insert_unordered type rsn info =
     (if type = kPullRequest \<or> type = kPushSolicitedData \<or> type = kPushUnsolicitedData then do {
        check (bt_find (target_rsn_buffer info) rsn = None);
        let info1 = info\<lparr>target_rsn_buffer :=
          bt_set rsn (new_TargetTransaction type) (target_rsn_buffer info)\<rparr>;
        (info2, d) \<leftarrow> SendToUlpTarget rsn info1;
        Some (info2, d, OkStatus)
      } else Some (info, [(rsn, type)], OkStatus))"

fun insert_ordered ::
    "PacketType \<Rightarrow> u32 \<Rightarrow> u32 \<Rightarrow> duration \<Rightarrow> ConnectionReorderMetadata \<Rightarrow>
     (ConnectionReorderMetadata \<times> delivery list \<times> status) option" where
  "insert_ordered kPullData rsn ssn now info =
     (case accept_initiator_rsn rsn kPullData info of (i, d) \<Rightarrow> Some (i, d, OkStatus))"
| "insert_ordered kAck rsn ssn now info =
     (case accept_initiator_rsn rsn kAck info of (i, d) \<Rightarrow> Some (i, d, OkStatus))"
| "insert_ordered kNack rsn ssn now info =
     (case accept_initiator_rsn rsn kNack info of (i, d) \<Rightarrow> Some (i, d, OkStatus))"
| "insert_ordered kPullRequest rsn ssn now info = accept_target_rsn rsn kPullRequest now info"
| "insert_ordered kPushSolicitedData rsn ssn now info =
     accept_target_rsn rsn kPushSolicitedData now info"
| "insert_ordered kPushUnsolicitedData rsn ssn now info =
     accept_target_rsn rsn kPushUnsolicitedData now info"
| "insert_ordered kPushGrant rsn ssn now info =
     (case accept_initiator_ssn ssn rsn info of (i, d) \<Rightarrow> Some (i, d, OkStatus))"
| "insert_ordered kPushRequest rsn ssn now info =
     (case accept_target_ssn ssn rsn info of (i, d) \<Rightarrow> Some (i, d, OkStatus))"
| "insert_ordered kBack rsn ssn now info = None"
| "insert_ordered kEack rsn ssn now info = None"
| "insert_ordered kResync rsn ssn now info = None"
| "insert_ordered kInvalid rsn ssn now info = None"

text \<open>
  \<open>reorder_info_[cid]\<close> of an unknown connection creates a zero-initialised entry.
\<close>

definition info_at :: "u32 \<Rightarrow> ReorderEngine \<Rightarrow> ConnectionReorderMetadata" where
  "info_at cid s =
     (case reorder_info s cid of Some info \<Rightarrow> info | None \<Rightarrow> new_info 0 0 0 0 kOrdered)"

definition insert_info ::
    "PacketType \<Rightarrow> u32 \<Rightarrow> u32 \<Rightarrow> duration \<Rightarrow> ConnectionReorderMetadata \<Rightarrow>
     (ConnectionReorderMetadata \<times> delivery list \<times> status) option" where
  "insert_info type rsn ssn now info =
     (if ordering_mode info = kUnordered then insert_unordered type rsn info
      else insert_ordered type rsn ssn now info)"

definition commit ::
    "u32 \<Rightarrow> ConnectionReorderMetadata \<Rightarrow> delivery list \<Rightarrow> ReorderEngine \<Rightarrow> ReorderEngine" where
  "commit cid info d s = s\<lparr>reorder_info := (reorder_info s)(cid \<mapsto> info),
     delivered := delivered s @ map (Pair cid) d\<rparr>"

definition InsertPacket ::
    "PacketType \<Rightarrow> u32 \<Rightarrow> u32 \<Rightarrow> u32 \<Rightarrow> duration \<Rightarrow> ReorderEngine \<Rightarrow> (ReorderEngine \<times> status) option" where
  "InsertPacket type cid rsn ssn now s =
     (case reorder_info s cid of
        None \<Rightarrow> Some (s, NotFoundError)
      | Some info \<Rightarrow> do {
          (info', d, st) \<leftarrow> insert_info type rsn ssn now info;
          Some (commit cid info' d s, st)
        })"

definition retry_info ::
    "u32 \<Rightarrow> duration \<Rightarrow> ConnectionReorderMetadata \<Rightarrow>
     (ConnectionReorderMetadata \<times> delivery list \<times> status) option" where
  "retry_info rsn now info = do {
     t \<leftarrow> bt_find (target_rsn_buffer info) rsn;
     type \<leftarrow> tt_packet_type t;
     check (type \<noteq> kPullRequest);
     if \<not> IsInflightToUlpTarget t then
       (if ordering_mode info = kUnordered then do {
          (info1, d) \<leftarrow> SendToUlpTarget rsn info;
          Some (info1, d, OkStatus)
        }
        else if rsn = next_target_rsn info then do {
          let info1 = info\<lparr>target_rsn_buffer :=
            bt_set rsn (t\<lparr>retry_time := now\<rparr>) (target_rsn_buffer info)\<rparr>;
          (info2, d) \<leftarrow> CheckTargetRsnBuffer now info1;
          Some (info2, d, OkStatus)
        }
        else if in_rnr info then Some (info, [], FailedPreconditionError)
        else Some (info, [], OkStatus))
     else Some (info, [], OkStatus)
   }"

definition RetryRnrNackedPacket ::
    "u32 \<Rightarrow> u32 \<Rightarrow> duration \<Rightarrow> ReorderEngine \<Rightarrow> (ReorderEngine \<times> status) option" where
  "RetryRnrNackedPacket cid rsn now s =
     (case reorder_info s cid of
        None \<Rightarrow> Some (s, NotFoundError)
      | Some info \<Rightarrow> do {
          (info', d, st) \<leftarrow> retry_info rsn now info;
          Some (commit cid info' d s, st)
        })"

text \<open>\<open>conn_mode\<close> is the ordering mode the connection state manager has for the connection.\<close>

definition IsHeadOfLineNetworkRequest ::
    "OrderingMode option \<Rightarrow> u32 \<Rightarrow> u32 \<Rightarrow> ReorderEngine \<Rightarrow> bool option" where
  "IsHeadOfLineNetworkRequest conn_mode cid rsn s = do {
     mode \<leftarrow> conn_mode;
     if mode = kUnordered then Some True
     else do {
       info \<leftarrow> reorder_info s cid;
       Some (rsn = next_target_network_rsn info)
     }
   }"

definition rnr_info ::
    "u32 \<Rightarrow> duration \<Rightarrow> duration \<Rightarrow> ConnectionReorderMetadata \<Rightarrow> ConnectionReorderMetadata" where
  "rnr_info rsn timeout now info =
     (let info1 = (if ordering_mode info = kOrdered then
                     info\<lparr>next_target_rsn :=
                            (if rsn < next_target_rsn info then rsn else next_target_rsn info),
                          in_rnr := True, info_rnr_timeout := timeout\<rparr>
                   else info);
          t = (case bt_find (target_rsn_buffer info1) rsn of
                 Some t \<Rightarrow> t
               | None \<Rightarrow> \<lparr>tt_packet_type = None, retry_time = ZeroDuration\<rparr>)
      in info1\<lparr>target_rsn_buffer :=
           bt_set rsn (t\<lparr>retry_time := now + timeout\<rparr>) (target_rsn_buffer info1)\<rparr>)"

definition HandleRnrNackFromUlp ::
    "u32 \<Rightarrow> u32 \<Rightarrow> duration \<Rightarrow> duration \<Rightarrow> ReorderEngine \<Rightarrow> ReorderEngine option" where
  "HandleRnrNackFromUlp cid rsn timeout now s = do {
     info \<leftarrow> reorder_info s cid;
     let s1 = commit cid (rnr_info rsn timeout now info) [] s;
     Some (s1\<lparr>rnr_timers := rnr_timers s1 @ [(timeout, cid, rsn)]\<rparr>)
   }"

definition ack_info :: "u32 \<Rightarrow> ConnectionReorderMetadata \<Rightarrow> ConnectionReorderMetadata" where
  "ack_info rsn info =
     (let info1 = info\<lparr>target_rsn_buffer := bt_erase rsn (target_rsn_buffer info)\<rparr>
      in if ordering_mode info1 = kOrdered then
           info1\<lparr>next_target_network_rsn := next_target_network_rsn info1 + 1, in_rnr := False\<rparr>
         else info1)"

definition HandleAckFromUlp :: "u32 \<Rightarrow> u32 \<Rightarrow> ReorderEngine \<Rightarrow> ReorderEngine" where
  "HandleAckFromUlp cid rsn s = commit cid (ack_info rsn (info_at cid s)) [] s"

definition timeout_info ::
    "u32 \<Rightarrow> duration \<Rightarrow> ConnectionReorderMetadata \<Rightarrow>
     (ConnectionReorderMetadata \<times> delivery list) option" where
  "timeout_info rsn now info =
     (case bt_find (target_rsn_buffer info) rsn of
        None \<Rightarrow> Some (info, [])
      | Some t \<Rightarrow>
          if retry_time t \<noteq> now then Some (info, [])
          else if ordering_mode info = kUnordered then SendToUlpTarget rsn info
          else if rsn \<noteq> next_target_rsn info then Some (info, [])
          else CheckTargetRsnBuffer now info)"

definition HandleRnrTimeout ::
    "u32 \<Rightarrow> u32 \<Rightarrow> duration \<Rightarrow> ReorderEngine \<Rightarrow> ReorderEngine option" where
  "HandleRnrTimeout cid rsn now s = do {
     (info', d) \<leftarrow> timeout_info rsn now (info_at cid s);
     Some (commit cid info' d s)
   }"

definition GetRnrTimeout :: "u32 \<Rightarrow> ReorderEngine \<Rightarrow> duration option" where
  "GetRnrTimeout cid s = map_option info_rnr_timeout (reorder_info s cid)"

section \<open>Consecutive numbers\<close>

definition run_from :: "u32 \<Rightarrow> nat \<Rightarrow> u32 list" where
  "run_from n len = map (\<lambda>i. n + of_nat i) [0..<len]"

lemma run_from_0 [simp]: "run_from n 0 = []"
  by (simp add: run_from_def)

lemma run_from_Suc: "run_from n (Suc len) = n # run_from (n + 1) len"
  by (simp add: run_from_def map_upt_Suc algebra_simps del: upt_Suc)

lemma run_from_append: "run_from n (a + b) = run_from n a @ run_from (n + of_nat a) b"
  by (induction a arbitrary: n) (simp_all add: run_from_Suc algebra_simps)

lemma length_run_from [simp]: "length (run_from n len) = len"
  by (simp add: run_from_def)

lemma u32_less_Suc_le: "a < b \<Longrightarrow> a + 1 \<le> b" "a < b \<Longrightarrow> a < a + 1" for a b :: u32
proof -
  assume "a < b"
  then have "a \<noteq> - 1" by auto
  then have "unat (a + 1) = Suc (unat a)" by (rule unat_plus_1)
  with \<open>a < b\<close> show "a + 1 \<le> b" "a < a + 1" by (simp_all add: word_le_nat_alt word_less_nat_alt)
qed

lemma u32_between: "a < b \<Longrightarrow> x < a + 1 \<longleftrightarrow> x \<le> a" for a b x :: u32
proof -
  assume "a < b"
  then have "a \<noteq> - 1" by auto
  then have "unat (a + 1) = Suc (unat a)" by (rule unat_plus_1)
  then show ?thesis by (auto simp: word_le_nat_alt word_less_nat_alt)
qed

lemma u32_ivl_insert:
  fixes a b :: u32
  assumes "a < - 1" "a < b"
  shows "insert a {a + 1..<b} = {a..<b}"
proof -
  have iff: "a + 1 \<le> x \<longleftrightarrow> a < x" for x
    using u32_between [OF assms(1), of x] by (metis not_le)
  show ?thesis
  proof (rule set_eqI)
    fix x
    show "x \<in> insert a {a + 1..<b} \<longleftrightarrow> x \<in> {a..<b}"
    proof (cases "x = a")
      case False
      then have "a \<le> x \<longleftrightarrow> a < x" by auto
      then show ?thesis using False iff [of x] by simp
    qed (use assms(2) in simp)
  qed
qed

section \<open>The drained buffers\<close>

lemma drain_split:
  "drain n m = (n', m', d) \<Longrightarrow>
     m = d @ m' \<and> map fst d = run_from n (length d) \<and> n' = n + of_nat (length d)"
  by (induction n m arbitrary: n' m' d rule: drain.induct)
    (auto simp: run_from_Suc algebra_simps split: if_splits prod.splits)

text \<open>
  The contract of the buffers, away from the wrap-around: what stays behind lies beyond the next
  expected number.
\<close>

lemma drain_run:
  assumes "drain n m = (n', m', d)" "bt_wf m" "\<forall>x \<in> set m. n \<le> fst x \<and> fst x < - 1"
  shows "bt_wf m' \<and> (\<forall>x \<in> set m'. n' < fst x) \<and> n \<le> n' \<and> fst ` set d = {n..<n'}"
  using assms
proof (induction n m arbitrary: n' m' d rule: drain.induct)
  case (2 nxt k v m)
  show ?case
  proof (cases "nxt = k")
    case True
    obtain d2 where d2: "drain (nxt + 1) m = (n', m', d2)" "d = (k, v) # d2"
      using 2(2) True by (auto split: prod.splits)
    have lt: "nxt < - 1" using 2(4) True by simp
    have "\<forall>x \<in> set m. nxt + 1 \<le> fst x \<and> fst x < - 1"
      using 2(3,4) True by (auto intro: u32_less_Suc_le)
    then have IH: "bt_wf m'" "\<forall>x \<in> set m'. n' < fst x" "nxt + 1 \<le> n'" "fst ` set d2 = {nxt + 1..<n'}"
      using 2(1) [OF True d2(1)] 2(3) by auto
    have "nxt < n'" using u32_less_Suc_le(2) [OF lt] IH(3) by (rule order_less_le_trans)
    moreover have "insert nxt {nxt + 1..<n'} = {nxt..<n'}"
      by (rule u32_ivl_insert [OF lt \<open>nxt < n'\<close>])
    ultimately show ?thesis using IH d2(2) True by auto
  next
    case False
    then have "nxt < k" using 2(4) by auto
    moreover have "\<forall>x \<in> set m. nxt < fst x"
    proof
      fix x assume "x \<in> set m"
      then have "k < fst x" using 2(3) by auto
      with \<open>nxt < k\<close> show "nxt < fst x" by (rule order_less_trans)
    qed
    ultimately show ?thesis using 2(2,3) False by auto
  qed
qed simp

fun accept_step ::
    "u32 \<times> 'v \<Rightarrow> u32 \<times> (u32 \<times> 'v) list \<times> (u32 \<times> 'v) list \<Rightarrow> u32 \<times> (u32 \<times> 'v) list \<times> (u32 \<times> 'v) list"
  where
  "accept_step (k, v) (nxt, buf, d) = (case accept k v nxt buf of (n, m, d') \<Rightarrow> (n, m, d @ d'))"

definition accept_all :: "(u32 \<times> 'v) list \<Rightarrow> u32 \<Rightarrow> u32 \<times> (u32 \<times> 'v) list \<times> (u32 \<times> 'v) list" where
  "accept_all xs n0 = fold accept_step xs (n0, [], [])"

lemma accept_all_snoc [simp]: "accept_all (xs @ [x]) n0 = accept_step x (accept_all xs n0)"
  by (simp add: accept_all_def)

lemma accept_all_Nil [simp]: "accept_all [] n0 = (n0, [], [])"
  by (simp add: accept_all_def)

text \<open>The deliveries are consecutive from the first expected number, whatever arrives.\<close>

lemma accept_all_consecutive:
  "accept_all xs n0 = (nxt, buf, d) \<Longrightarrow>
     map fst d = run_from n0 (length d) \<and> nxt = n0 + of_nat (length d)"
proof (induction xs arbitrary: nxt buf d rule: rev_induct)
  case (snoc x xs)
  obtain k v n1 b1 d1 where x: "x = (k, v)" and s1: "accept_all xs n0 = (n1, b1, d1)"
    by (metis prod_cases3 surj_pair)
  note IH = snoc.IH [OF s1]
  show ?case
  proof (cases "k = n1")
    case True
    obtain n2 m2 d2 where dr: "drain (n1 + 1) b1 = (n2, m2, d2)" by (metis prod_cases3)
    have "run_from n0 (length d1 + Suc (length d2)) = run_from n0 (length d1) @ n1 # run_from (n1 + 1) (length d2)"
      using IH by (simp add: run_from_append run_from_Suc del: add_Suc_right)
    then show ?thesis
      using snoc.prems x s1 True dr IH drain_split [OF dr] by (auto simp: accept_def algebra_simps)
  next
    case False
    then show ?thesis using snoc.prems x s1 IH by (auto simp: accept_def)
  qed
qed simp

lemma set_bt_set_new: "k \<notin> fst ` set m \<Longrightarrow> set (bt_set k v m) = insert (k, v) (set m)"
  by (induction m) (auto split: if_splits)

lemma accept_all_contract:
  assumes "distinct (map fst xs)" "\<forall>x \<in> set xs. n0 \<le> fst x \<and> fst x < - 1"
  shows "case accept_all xs n0 of (nxt, buf, d) \<Rightarrow>
    bt_wf buf \<and> (\<forall>x \<in> set buf. nxt < fst x) \<and> set d \<union> set buf = set xs \<and>
    n0 \<le> nxt \<and> fst ` set d = {n0..<nxt}"
  using assms
proof (induction xs rule: rev_induct)
  case (snoc x xs)
  obtain k v nxt buf d where x: "x = (k, v)" and s1: "accept_all xs n0 = (nxt, buf, d)"
    by (metis prod_cases3 surj_pair)
  have IH: "bt_wf buf" "\<forall>x \<in> set buf. nxt < fst x" "set d \<union> set buf = set xs" "n0 \<le> nxt"
    "fst ` set d = {n0..<nxt}"
    using snoc.IH snoc.prems s1 by auto
  have k: "n0 \<le> k" "k < - 1" "k \<notin> fst ` set xs" using snoc.prems x by auto
  have new: "k \<notin> fst ` set d" "k \<notin> fst ` set buf" using k(3) IH(3) by auto
  then have ge: "nxt \<le> k" using IH(5) k(1) by (auto simp: not_less)
  show ?case
  proof (cases "k = nxt")
    case True
    obtain n2 m2 d2 where dr: "drain (nxt + 1) buf = (n2, m2, d2)" by (metis prod_cases3)
    have lt: "nxt < - 1" using True k(2) by simp
    have "\<forall>x \<in> set buf. nxt + 1 \<le> fst x \<and> fst x < - 1"
      using IH(2,3) snoc.prems(2) by (auto intro: u32_less_Suc_le)
    then have run: "bt_wf m2" "\<forall>x \<in> set m2. n2 < fst x" "nxt + 1 \<le> n2" "fst ` set d2 = {nxt + 1..<n2}"
      using drain_run [OF dr IH(1)] by auto
    have "nxt < n2" using u32_less_Suc_le(2) [OF lt] run(3) by (rule order_less_le_trans)
    have "{n0..<nxt} \<union> insert nxt {nxt + 1..<n2} = {n0..<n2}"
    proof -
      have "insert nxt {nxt + 1..<n2} = {nxt..<n2}"
        by (rule u32_ivl_insert [OF lt \<open>nxt < n2\<close>])
      then show ?thesis using IH(4) \<open>nxt < n2\<close> by (simp add: ivl_disj_un_two)
    qed
    moreover have "buf = d2 @ m2" using drain_split [OF dr] by blast
    ultimately show ?thesis
      using x s1 True dr IH(3,4,5) run \<open>nxt < n2\<close> by (auto simp: accept_def image_Un)
  next
    case False
    then have "nxt < k" using ge by auto
    then show ?thesis
      using x s1 False IH new(2) by (auto simp: accept_def set_bt_set_new)
  qed
qed simp

section \<open>What one operation may hand to the upper layer\<close>

lemma target_walk_spec:
  "target_walk kOrdered now n m = Some (n', m', d) \<Longrightarrow>
     map fst d = run_from n (length d) \<and> n' = n + of_nat (length d) \<and>
     (\<forall>(r, ty) \<in> set d. \<exists>t. (r, t) \<in> set m \<and> retry_time t \<le> now \<and> tt_packet_type t = Some ty) \<and>
     map fst m' = map fst m"
proof (induction m arbitrary: n n' m' d)
  case (Cons x m)
  obtain k t where x: "x = (k, t)" by (cases x)
  show ?case
  proof (cases "n = k \<and> retry_time t \<le> now")
    case True
    then obtain type m2 d2 where "tt_packet_type t = Some type"
      "target_walk kOrdered now (n + 1) m = Some (n', m2, d2)"
      "m' = (k, t\<lparr>retry_time := InfiniteDuration\<rparr>) # m2" "d = (k, type) # d2"
      using Cons.prems x by (auto simp: advance_target_def split: bind_splits)
    then show ?thesis using Cons.IH [of "n + 1" n' m2 d2] True x
      by (auto simp: run_from_Suc algebra_simps)
  next
    case False
    then show ?thesis using Cons.prems x by auto
  qed
qed simp

lemma CheckTargetRsnBuffer_spec:
  assumes "CheckTargetRsnBuffer now info = Some (info', d)" "ordering_mode info = kOrdered"
    and "bt_wf (target_rsn_buffer info)"
  shows "map fst d = run_from (next_target_rsn info) (length d) \<and>
    next_target_rsn info' = next_target_rsn info + of_nat (length d) \<and>
    (\<forall>(r, ty) \<in> set d. \<exists>t. bt_find (target_rsn_buffer info) r = Some t \<and> retry_time t \<le> now) \<and>
    ordering_mode info' = kOrdered \<and> bt_wf (target_rsn_buffer info')"
proof -
  let ?P = "\<lambda>(k, _). k \<noteq> next_target_rsn info"
  obtain n m where w: "target_walk kOrdered now (next_target_rsn info)
      (dropWhile ?P (target_rsn_buffer info)) = Some (n, m, d)"
    and i: "info' = info\<lparr>next_target_rsn := n,
      target_rsn_buffer := takeWhile ?P (target_rsn_buffer info) @ m\<rparr>"
    using assms(1,2) by (auto simp: CheckTargetRsnBuffer_def split: bind_splits)
  note sp = target_walk_spec [OF w]
  have "bt_find (target_rsn_buffer info) r = Some t"
    if "(r, t) \<in> set (dropWhile ?P (target_rsn_buffer info))" for r t
    using that bt_wf_distinct [OF assms(3)] by (intro map_of_is_SomeI) (auto dest: set_dropWhileD)
  moreover have "map fst (target_rsn_buffer info') = map fst (target_rsn_buffer info)"
    using sp by (simp add: i) (metis map_append takeWhile_dropWhile_id)
  then have "bt_wf (target_rsn_buffer info')" using assms(3) by (simp add: bt_wf_def)
  ultimately show ?thesis using sp i assms(2) by (fastforce split: prod.splits)
qed

lemma accept_target_rsn_spec:
  assumes "accept_target_rsn rsn type now info = Some (info', d, st)" "ordering_mode info = kOrdered"
    and "bt_wf (target_rsn_buffer info)" "now \<noteq> InfiniteDuration"
  shows "map fst d = run_from (next_target_rsn info) (length d) \<and>
    next_target_rsn info' = next_target_rsn info + of_nat (length d) \<and>
    (\<forall>(r, ty) \<in> set d. r = rsn \<and> ty = type \<and> bt_find (target_rsn_buffer info) rsn = None \<or>
       (\<exists>t. bt_find (target_rsn_buffer info) r = Some t \<and> retry_time t \<le> now)) \<and>
    ordering_mode info' = kOrdered \<and> bt_wf (target_rsn_buffer info')"
proof -
  let ?info1 = "info\<lparr>target_rsn_buffer :=
    bt_set rsn (new_TargetTransaction type) (target_rsn_buffer info)\<rparr>"
  have fresh: "bt_find (target_rsn_buffer info) rsn = None"
    using assms(1) by (auto simp: accept_target_rsn_def split: if_splits)
  show ?thesis
  proof (cases "rsn = next_target_rsn info")
    case False
    then show ?thesis using assms fresh
      by (auto simp: accept_target_rsn_def Let_def split: if_splits)
  next
    case True
    obtain info2 d1 d2 where s: "SendToUlpTarget rsn ?info1 = Some (info2, d1)"
      and c: "CheckTargetRsnBuffer now info2 = Some (info', d2)" and d: "d = d1 @ d2"
      using assms(1) True fresh by (auto simp: accept_target_rsn_def Let_def split: bind_splits)
    have i2: "d1 = [(rsn, type)]" "next_target_rsn info2 = rsn + 1" "ordering_mode info2 = kOrdered"
      "target_rsn_buffer info2 = bt_set rsn ((new_TargetTransaction type)\<lparr>retry_time := InfiniteDuration\<rparr>)
         (bt_set rsn (new_TargetTransaction type) (target_rsn_buffer info))"
      using s True assms(2,3)
      by (auto simp: SendToUlpTarget_def advance_target_def new_TargetTransaction_def)
    note sp = CheckTargetRsnBuffer_spec [OF c i2(3)]
    have "\<forall>(r, ty) \<in> set d2. \<exists>t. bt_find (target_rsn_buffer info) r = Some t \<and> retry_time t \<le> now"
      using sp i2(4) assms(3,4) by (fastforce split: if_splits prod.splits)
    then show ?thesis
      using sp i2 d assms(3) True fresh by (auto simp: run_from_Suc)
  qed
qed

text \<open>The target side of an ordered connection: one event and the deliveries it causes.\<close>

datatype target_event =
    TInsert PacketType u32
  | TRetry u32
  | TRnr u32 duration
  | TAck u32
  | TTimeout u32

fun target_step ::
    "target_event \<Rightarrow> duration \<Rightarrow> ConnectionReorderMetadata \<Rightarrow>
     (ConnectionReorderMetadata \<times> delivery list) option" where
  "target_step (TInsert type rsn) now info =
     map_option (\<lambda>(i, d, _). (i, d)) (accept_target_rsn rsn type now info)"
| "target_step (TRetry rsn) now info = map_option (\<lambda>(i, d, _). (i, d)) (retry_info rsn now info)"
| "target_step (TRnr rsn timeout) now info = Some (rnr_info rsn timeout now info, [])"
| "target_step (TAck rsn) now info = Some (ack_info rsn info, [])"
| "target_step (TTimeout rsn) now info = timeout_info rsn now info"

definition target_wf :: "ConnectionReorderMetadata \<Rightarrow> bool" where
  "target_wf info \<longleftrightarrow> ordering_mode info = kOrdered \<and> bt_wf (target_rsn_buffer info)"

lemma retry_info_spec:
  assumes "retry_info rsn now info = Some (info', d, st)" "target_wf info" "now \<noteq> InfiniteDuration"
  shows "map fst d = run_from (next_target_rsn info) (length d) \<and>
    next_target_rsn info' = next_target_rsn info + of_nat (length d) \<and>
    (\<forall>(r, ty) \<in> set d. \<exists>t. bt_find (target_rsn_buffer info) r = Some t \<and> \<not> IsInflightToUlpTarget t) \<and>
    target_wf info'"
proof -
  obtain t where t: "bt_find (target_rsn_buffer info) rsn = Some t"
    using assms(1) by (auto simp: retry_info_def split: bind_splits)
  show ?thesis
  proof (cases "\<not> IsInflightToUlpTarget t \<and> rsn = next_target_rsn info")
    case True
    let ?info1 = "info\<lparr>target_rsn_buffer := bt_set rsn (t\<lparr>retry_time := now\<rparr>) (target_rsn_buffer info)\<rparr>"
    have c: "CheckTargetRsnBuffer now ?info1 = Some (info', d)"
      using assms(1,2) t True
      by (auto simp: retry_info_def target_wf_def split: bind_splits if_splits)
    note sp = CheckTargetRsnBuffer_spec [OF c]
    have "\<forall>(r, ty) \<in> set d. \<exists>t. bt_find (target_rsn_buffer info) r = Some t \<and> \<not> IsInflightToUlpTarget t"
      using sp assms(2,3) t True
      by (fastforce simp: target_wf_def IsInflightToUlpTarget_def split: if_splits prod.splits)
    then show ?thesis using sp assms(2) by (auto simp: target_wf_def)
  next
    case False
    then have "d = [] \<and> info' = info"
      using assms(1,2) t by (auto simp: retry_info_def target_wf_def split: bind_splits if_splits)
    then show ?thesis using assms(2) by simp
  qed
qed

lemma target_step_spec:
  assumes "target_step e now info = Some (info', d)" "target_wf info" "now \<noteq> InfiniteDuration"
  shows "map fst d = run_from (next_target_rsn info) (length d) \<and>
    next_target_rsn info' =
      (case e of TRnr rsn _ \<Rightarrow> min rsn (next_target_rsn info)
       | _ \<Rightarrow> next_target_rsn info + of_nat (length d)) \<and>
    (\<forall>(r, ty) \<in> set d. case bt_find (target_rsn_buffer info) r of
        Some t \<Rightarrow> \<not> IsInflightToUlpTarget t
      | None \<Rightarrow> e = TInsert ty r) \<and> target_wf info'"
proof (cases e)
  case (TInsert type rsn)
  then obtain st where a: "accept_target_rsn rsn type now info = Some (info', d, st)"
    using assms(1) by auto
  note sp = accept_target_rsn_spec [OF a _ _ assms(3)]
  have "case bt_find (target_rsn_buffer info) r of Some t \<Rightarrow> \<not> IsInflightToUlpTarget t
      | None \<Rightarrow> e = TInsert ty r" if "(r, ty) \<in> set d" for r ty
    using sp assms(2,3) that TInsert by (fastforce simp: target_wf_def IsInflightToUlpTarget_def)
  then show ?thesis using sp assms(2) TInsert by (auto simp: target_wf_def)
next
  case (TTimeout rsn)
  show ?thesis
  proof (cases "d = [] \<and> info' = info")
    case False
    then have c: "CheckTargetRsnBuffer now info = Some (info', d)"
      using assms(1,2) TTimeout
      by (auto simp: timeout_info_def target_wf_def split: option.splits if_splits)
    note sp = CheckTargetRsnBuffer_spec [OF c]
    have "case bt_find (target_rsn_buffer info) r of Some t \<Rightarrow> \<not> IsInflightToUlpTarget t
        | None \<Rightarrow> e = TInsert ty r" if "(r, ty) \<in> set d" for r ty
      using sp assms(2,3) that by (fastforce simp: target_wf_def IsInflightToUlpTarget_def)
    then show ?thesis using sp assms(2) TTimeout by (auto simp: target_wf_def)
  qed (use assms(2) TTimeout in auto)
next
  case (TRetry rsn)
  then obtain st where r: "retry_info rsn now info = Some (info', d, st)" using assms(1) by auto
  note sp = retry_info_spec [OF r assms(2,3)]
  have "case bt_find (target_rsn_buffer info) q of Some t \<Rightarrow> \<not> IsInflightToUlpTarget t
      | None \<Rightarrow> e = TInsert ty q" if "(q, ty) \<in> set d" for q ty
    using sp that by fastforce
  then show ?thesis using sp TRetry by auto
qed (use assms in \<open>auto simp: rnr_info_def ack_info_def target_wf_def Let_def min_def\<close>)

section \<open>Properties\<close>

text \<open>A sequence of completions arriving for one connection.\<close>

fun insert_completions ::
    "u32 \<Rightarrow> (u32 \<times> PacketType) list \<Rightarrow> duration \<Rightarrow> ReorderEngine \<Rightarrow> ReorderEngine option" where
  "insert_completions cid [] now s = Some s"
| "insert_completions cid ((rsn, type) # xs) now s = do {
     (s1, st) \<leftarrow> InsertPacket type cid rsn 0 now s;
     insert_completions cid xs now s1
   }"

definition is_completion :: "PacketType \<Rightarrow> bool" where
  "is_completion type \<longleftrightarrow> type \<in> {kPullData, kAck, kNack}"

lemma InsertPacket_completion:
  assumes "reorder_info s cid = Some info" "ordering_mode info = kOrdered" "is_completion type"
    and "accept rsn type (next_initiator_rsn info) (initiator_rsn_buffer info) = (n, m, d)"
  shows "InsertPacket type cid rsn ssn now s =
    Some (commit cid (info\<lparr>next_initiator_rsn := n, initiator_rsn_buffer := m\<rparr>) d s, OkStatus)"
  using assms
  by (auto simp: is_completion_def InsertPacket_def insert_info_def accept_initiator_rsn_def)

lemma insert_completions_fold:
  assumes "reorder_info s cid = Some info" "ordering_mode info = kOrdered"
    and "\<forall>x \<in> set xs. is_completion (snd x)"
    and "delivered s = base @ map (Pair cid) d0"
    and "fold accept_step xs (next_initiator_rsn info, initiator_rsn_buffer info, d0) = (n, m, d)"
  shows "\<exists>s' info'. insert_completions cid xs now s = Some s' \<and> reorder_info s' cid = Some info' \<and>
    next_initiator_rsn info' = n \<and> initiator_rsn_buffer info' = m \<and>
    delivered s' = base @ map (Pair cid) d"
  using assms
proof (induction xs arbitrary: s info d0)
  case (Cons x xs)
  obtain rsn type where x: "x = (rsn, type)" by (cases x)
  obtain n1 m1 d1 where a: "accept rsn type (next_initiator_rsn info) (initiator_rsn_buffer info) = (n1, m1, d1)"
    by (metis prod_cases3)
  let ?info = "info\<lparr>next_initiator_rsn := n1, initiator_rsn_buffer := m1\<rparr>"
  have i: "InsertPacket type cid rsn 0 now s = Some (commit cid ?info d1 s, OkStatus)"
    using InsertPacket_completion [OF Cons.prems(1,2) _ a] Cons.prems(3) x by simp
  have "\<exists>s' info'. insert_completions cid xs now (commit cid ?info d1 s) = Some s' \<and>
      reorder_info s' cid = Some info' \<and> next_initiator_rsn info' = n \<and>
      initiator_rsn_buffer info' = m \<and> delivered s' = base @ map (Pair cid) d"
    by (rule Cons.IH [of _ ?info "d0 @ d1"])
      (use Cons.prems x a in \<open>simp_all add: commit_def\<close>)
  then show ?case using i x by simp
qed auto

text \<open>
  C3 Completions reach the upper layer in order, exactly once and as early as possible. Whatever
  the order in which distinct completions of an ordered connection arrive, what is handed to
  the upper layer is, in RSN order without gap or repetition, the longest run of arrived
  completions that starts at the expected RSN; the next RSN after it has not arrived. (The
  RSNs stay below \<open>2^32 - 1\<close>: the next property shows what happens beyond.)
\<close>

theorem completions_in_order:
  assumes "reorder_info s cid = Some info" "ordering_mode info = kOrdered"
    and "initiator_rsn_buffer info = []"
    and "\<forall>x \<in> set xs. is_completion (snd x) \<and> next_initiator_rsn info \<le> fst x \<and> fst x < - 1"
    and "distinct (map fst xs)"
  shows "\<exists>s' d. insert_completions cid xs now s = Some s' \<and>
    delivered s' = delivered s @ map (Pair cid) d \<and>
    map fst d = run_from (next_initiator_rsn info) (length d) \<and> set d \<subseteq> set xs \<and>
    next_initiator_rsn info + of_nat (length d) \<notin> fst ` set xs"
proof -
  obtain n m d where a: "accept_all xs (next_initiator_rsn info) = (n, m, d)" by (metis prod_cases3)
  have c: "bt_wf m" "\<forall>x \<in> set m. n < fst x" "set d \<union> set m = set xs" "next_initiator_rsn info \<le> n"
    "fst ` set d = {next_initiator_rsn info..<n}"
    using accept_all_contract [OF assms(5), of "next_initiator_rsn info"] assms(4) a by auto
  note run = accept_all_consecutive [OF a]
  obtain s' where s': "insert_completions cid xs now s = Some s'"
    "delivered s' = delivered s @ map (Pair cid) d"
    using insert_completions_fold [OF assms(1,2), of xs "delivered s" "[]" n m d now] a assms(3,4)
    by (auto simp: accept_all_def)
  have "n \<notin> fst ` set d" using c(5) by simp
  moreover have "n \<notin> fst ` set m" using c(2) by auto
  ultimately have "n \<notin> fst ` set xs" using c(3) by (auto simp flip: c(3))
  then show ?thesis using s' run c(3) by (intro exI [of _ s'] exI [of _ d]) auto
qed

definition engine_at :: "u32 \<Rightarrow> ReorderEngine" where
  "engine_at n = fst (InitializeConnection 1 n 0 0 0 kOrdered new_ReorderEngine)"

lemma engine_at_info: "reorder_info (engine_at n) 1 = Some (new_info n 0 0 0 kOrdered)"
  "delivered (engine_at n) = []"
  by (simp_all add: engine_at_def InitializeConnection_def new_ReorderEngine_def)

lemma completions_in_order_witness:
  "\<exists>s' d. insert_completions 1 [(7, kAck), (5, kPullData), (6, kAck)] (Ticks 0) (engine_at 5) = Some s'
     \<and> delivered s' = map (Pair 1) d \<and> 5 + of_nat (length d) \<notin> {5, 6, 7 :: u32}"
  using completions_in_order [OF engine_at_info(1) [of 5], of "[(7, kAck), (5, kPullData), (6, kAck)]"
      "Ticks 0"]
  by (auto simp: new_info_def is_completion_def engine_at_info)

text \<open>An arrival that is not the expected one hands nothing over and forgets nothing.\<close>

lemma drain_following: "drain n (zip (run_from n (length ts)) ts) = (n + of_nat (length ts), [], zip (run_from n (length ts)) ts)"
  by (induction ts arbitrary: n) (simp_all add: run_from_Suc algebra_simps)

lemma drain_blocked: "low \<noteq> [] \<Longrightarrow> n \<notin> fst ` set low \<Longrightarrow> drain n (low @ high) = (n, low @ high, [])"
  by (cases low) auto

lemma fold_accept_blocked:
  "nxt \<notin> fst ` set ps \<Longrightarrow> bt_wf buf \<Longrightarrow>
     \<exists>buf'. fold accept_step ps (nxt, buf, d) = (nxt, buf', d) \<and> bt_wf buf' \<and> bt_find buf' nxt = bt_find buf nxt"
proof (induction ps arbitrary: buf)
  case (Cons p ps)
  obtain k v where p: "p = (k, v)" by (cases p)
  have "k \<noteq> nxt" using Cons.prems(1) p by auto
  then show ?case
    using Cons.IH [of "bt_set k v buf"] Cons.prems p by (simp add: accept_def)
qed simp

text \<open>
  C17 Completions are lost to the wrap-around of the RSN. The buffers are ordered by the plain
  unsigned value, so a completion with a wrapped RSN hides the ones before the wrap. Let completions with
  wrapped RSNs (\<open>low\<close>: smaller than the expected RSN \<open>n\<close>) and all completions of the RSNs from \<open>n + 1\<close> on
  (\<open>high\<close>, at least one) be buffered, and let the completion of \<open>n\<close> arrive. Without the wrapped ones
  the engine hands over \<open>n\<close> and all of \<open>high\<close>; with them it hands over \<open>n\<close> alone, and nothing that arrives later,
  however much it is, makes it hand over anything more: \<open>n + 1\<close> is the expected RSN, its completion stays in the
  buffer, and only a second copy of it could release it.
\<close>

theorem completions_stuck_at_wraparound:
  assumes "reorder_info s cid = Some info" "ordering_mode info = kOrdered" "next_initiator_rsn info = n"
    and "initiator_rsn_buffer info = low @ high" "bt_wf (low @ high)"
    and "low \<noteq> []" "\<forall>x \<in> set low. fst x < n"
    and "high = zip (run_from (n + 1) (length ts)) ts" "ts \<noteq> []" "unat n + length ts < 2 ^ 32"
    and "is_completion type"
  shows "(\<exists>s'. InsertPacket type cid n ssn now
        (s\<lparr>reorder_info := (reorder_info s)(cid \<mapsto> info\<lparr>initiator_rsn_buffer := high\<rparr>)\<rparr>) = Some (s', OkStatus) \<and>
      delivered s' = delivered s @ map (Pair cid) ((n, type) # high)) \<and>
    (\<exists>s1. InsertPacket type cid n ssn now s = Some (s1, OkStatus) \<and>
      delivered s1 = delivered s @ [(cid, n, type)] \<and>
      (\<forall>ps. (\<forall>p \<in> set ps. is_completion (snd p)) \<and> n + 1 \<notin> fst ` set ps \<longrightarrow>
        (\<exists>s2 info2. insert_completions cid ps later s1 = Some s2 \<and> delivered s2 = delivered s1 \<and>
          reorder_info s2 cid = Some info2 \<and> next_initiator_rsn info2 = n + 1 \<and>
          bt_find (initiator_rsn_buffer info2) (n + 1) = Some (hd ts))))"
proof -
  have n: "n < n + 1"
  proof -
    have "unat n + 1 < 2 ^ 32" using assms(9,10) by (cases ts) auto
    then show ?thesis by (simp add: word_less_nat_alt unat_word_ariths)
  qed
  have low: "n + 1 \<notin> fst ` set low" using assms(7) n by (auto dest: order_less_asym)
  have found: "bt_find (low @ high) (n + 1) = Some (hd ts)"
    using low assms(8,9) map_of_eq_None_iff [of low "n + 1"] by (cases ts) (auto simp: run_from_Suc map_add_def)
  have ok: "accept n type n high = (n + 1 + of_nat (length ts), [], (n, type) # high)"
    using assms(8) by (simp add: accept_def drain_following)
  have stuck: "accept n type n (low @ high) = (n + 1, low @ high, [(n, type)])"
    using drain_blocked [OF assms(6) low] by (simp add: accept_def)
  let ?s = "s\<lparr>reorder_info := (reorder_info s)(cid \<mapsto> info\<lparr>initiator_rsn_buffer := high\<rparr>)\<rparr>"
  let ?info1 = "info\<lparr>next_initiator_rsn := n + 1, initiator_rsn_buffer := low @ high\<rparr>"
  let ?s1 = "commit cid ?info1 [(n, type)] s"
  have "\<exists>s'. InsertPacket type cid n ssn now ?s = Some (s', OkStatus) \<and>
      delivered s' = delivered s @ map (Pair cid) ((n, type) # high)"
    using InsertPacket_completion [of ?s cid "info\<lparr>initiator_rsn_buffer := high\<rparr>" type n _ _ _ ssn now] ok assms(2,3,11)
    by (simp add: commit_def)
  moreover have "InsertPacket type cid n ssn now s = Some (?s1, OkStatus)"
    using InsertPacket_completion [OF assms(1,2,11)] stuck assms(3,4) by simp
  moreover have "\<exists>s2 info2. insert_completions cid ps later ?s1 = Some s2 \<and> delivered s2 = delivered ?s1 \<and>
      reorder_info s2 cid = Some info2 \<and> next_initiator_rsn info2 = n + 1 \<and>
      bt_find (initiator_rsn_buffer info2) (n + 1) = Some (hd ts)"
    if ps: "\<forall>p \<in> set ps. is_completion (snd p)" "n + 1 \<notin> fst ` set ps" for ps
  proof -
    obtain buf where buf: "fold accept_step ps (n + 1, low @ high, []) = (n + 1, buf, [])"
      "bt_find buf (n + 1) = Some (hd ts)"
      using fold_accept_blocked [OF ps(2) assms(5), of "[]"] found by auto
    show ?thesis
      using insert_completions_fold [of ?s1 cid ?info1 ps "delivered ?s1" "[]" "n + 1" buf "[]" later] assms(2) ps(1) buf
      by (simp add: commit_def) blast
  qed
  moreover have "delivered ?s1 = delivered s @ [(cid, n, type)]" by (simp add: commit_def)
  ultimately show ?thesis by blast
qed

lemma completions_stuck_at_wraparound_witness:
  "\<exists>s. insert_completions 1 [(0, kAck), (0xFFFFFFFF, kNack), (0xFFFFFFFE, kPullData)] (Ticks 0) (engine_at 0xFFFFFFFD) = Some s \<and>
     (\<exists>s1. InsertPacket kAck 1 0xFFFFFFFD 0 (Ticks 1) s = Some (s1, OkStatus) \<and> delivered s1 = [(1, 0xFFFFFFFD, kAck)] \<and>
       (\<exists>s2. insert_completions 1 [(1, kAck), (2, kAck)] (Ticks 2) s1 = Some s2 \<and> delivered s2 = [(1, 0xFFFFFFFD, kAck)]))"
proof -
  let ?info = "(new_info 0xFFFFFFFD 0 0 0 kOrdered)\<lparr>initiator_rsn_buffer := [(0, kAck)] @ [(0xFFFFFFFE, kPullData), (0xFFFFFFFF, kNack)]\<rparr>"
  obtain s where s: "insert_completions 1 [(0, kAck), (0xFFFFFFFF, kNack), (0xFFFFFFFE, kPullData)] (Ticks 0) (engine_at 0xFFFFFFFD) = Some s"
    "reorder_info s 1 = Some ?info" "delivered s = []"
    by (simp add: engine_at_def InitializeConnection_def new_ReorderEngine_def new_info_def
      InsertPacket_def insert_info_def accept_initiator_rsn_def accept_def commit_def)
  have h: "[(0xFFFFFFFE, kPullData), (0xFFFFFFFF, kNack)] =
      zip (run_from (0xFFFFFFFD + 1) (length [kPullData, kNack])) [kPullData, kNack]"
    by (simp add: run_from_Suc numeral_2_eq_2)
  have "\<exists>s1. InsertPacket kAck 1 0xFFFFFFFD 0 (Ticks 1) s = Some (s1, OkStatus) \<and>
    delivered s1 = delivered s @ [(1, 0xFFFFFFFD, kAck)] \<and>
    (\<forall>ps. (\<forall>p \<in> set ps. is_completion (snd p)) \<and> 0xFFFFFFFD + 1 \<notin> fst ` set ps \<longrightarrow>
        (\<exists>s2 info2. insert_completions 1 ps (Ticks 2) s1 = Some s2 \<and> delivered s2 = delivered s1 \<and>
          reorder_info s2 1 = Some info2 \<and> next_initiator_rsn info2 = 0xFFFFFFFD + 1 \<and>
          bt_find (initiator_rsn_buffer info2) (0xFFFFFFFD + 1) = Some (hd [kPullData, kNack])))"
    using completions_stuck_at_wraparound [OF s(2) _ _ _ _ _ _ h, where low = "[(0, kAck)]" and type = kAck and ssn = 0
        and now = "Ticks 1" and later = "Ticks 2"]
    by (simp add: new_info_def is_completion_def bt_wf_def)
  then obtain s1 where s1: "InsertPacket kAck 1 0xFFFFFFFD 0 (Ticks 1) s = Some (s1, OkStatus)"
    "delivered s1 = delivered s @ [(1, 0xFFFFFFFD, kAck)]"
    "\<And>ps. (\<forall>p \<in> set ps. is_completion (snd p)) \<and> 0xFFFFFFFD + 1 \<notin> fst ` set ps \<Longrightarrow>
       \<exists>s2. insert_completions 1 ps (Ticks 2) s1 = Some s2 \<and> delivered s2 = delivered s1" by blast
  then show ?thesis
    using s(1,3) s1(1,2) s1(3) [of "[(1, kAck), (2, kAck)]"] by (auto simp: is_completion_def)
qed

text \<open>The states of the target side that events can lead to.\<close>

inductive target_reachable :: "ConnectionReorderMetadata \<Rightarrow> bool" where
  reach_new: "target_reachable (new_info irsn trsn issn tssn kOrdered)"
| reach_step: "target_reachable info \<Longrightarrow> now \<noteq> InfiniteDuration \<Longrightarrow>
    target_step e now info = Some (info', d) \<Longrightarrow> target_reachable info'"

lemma target_reachable_wf: "target_reachable info \<Longrightarrow> target_wf info"
proof (induction rule: target_reachable.induct)
  case (reach_step info now e info' d)
  then show ?case using target_step_spec [of e now info info' d] by blast
qed (simp add: target_wf_def new_info_def)

text \<open>
  C14 Requests reach the upper layer in RSN order and only when due. In every reachable state of an
  ordered connection, one event (an arrival, a retry, an RNR NACK, an acknowledgement, an RNR
  timeout) hands to the upper layer a run of consecutive RSNs that starts at the expected one,
  and the expected RSN moves past exactly this run (an RNR NACK moves it back to the refused
  RSN); a request that is in flight to the upper layer is never handed over again, and nothing
  is handed over that has not arrived.
\<close>

theorem target_deliveries_in_order:
  assumes "target_reachable info" "target_step e now info = Some (info', d)" "now \<noteq> InfiniteDuration"
  shows "map fst d = run_from (next_target_rsn info) (length d) \<and>
    next_target_rsn info' =
      (case e of TRnr rsn _ \<Rightarrow> min rsn (next_target_rsn info)
       | _ \<Rightarrow> next_target_rsn info + of_nat (length d)) \<and>
    (\<forall>(r, ty) \<in> set d. case bt_find (target_rsn_buffer info) r of
        Some t \<Rightarrow> \<not> IsInflightToUlpTarget t
      | None \<Rightarrow> e = TInsert ty r)"
  using target_step_spec [OF assms(2) target_reachable_wf [OF assms(1)] assms(3)] by blast

lemma target_deliveries_in_order_witness:
  "\<exists>info' d. target_step (TInsert kPullRequest 4) (Ticks 1)
       (rnr_info 4 (Ticks 9) (Ticks 1) (new_info 0 4 0 0 kOrdered)) = None \<and>
     target_step (TInsert kPullRequest 4) (Ticks 1) (new_info 0 4 0 0 kOrdered) = Some (info', d) \<and>
     map fst d = run_from 4 (length d) \<and> next_target_rsn info' = 5"
proof -
  have "\<exists>info' d. target_step (TInsert kPullRequest 4) (Ticks 1) (new_info 0 4 0 0 kOrdered)
      = Some (info', d) \<and> length d = 1"
    by (simp add: new_info_def accept_target_rsn_def SendToUlpTarget_def CheckTargetRsnBuffer_def
        new_TargetTransaction_def advance_target_def Let_def)
  then obtain info' d where s: "target_step (TInsert kPullRequest 4) (Ticks 1)
      (new_info 0 4 0 0 kOrdered) = Some (info', d)" "length d = 1" by blast
  have "target_step (TInsert kPullRequest 4) (Ticks 1)
       (rnr_info 4 (Ticks 9) (Ticks 1) (new_info 0 4 0 0 kOrdered)) = None"
    by (simp add: new_info_def rnr_info_def accept_target_rsn_def)
  then show ?thesis
    using target_deliveries_in_order [OF reach_new s(1)] s by (auto simp: new_info_def)
qed

end
