(* ===== verification/Rx_Window.thy ===== *)
theory Rx_Window
  imports Bitmap Transactions
begin

text \<open>
  The receiver's sliding windows: \<open>ReceivedPacketContext\<close>,
  \<open>ReceiverReliabilityWindowMetadata\<close> and \<open>ReceiverReliabilityMetadata\<close> of
  \<open>falcon_connection_state.h\<close>, and the operations of the packet reliability manager that touch
  only them: the sliding-window verdict on an arriving PSN, \<open>UpdateReceiveAckBitmap\<close> and
  \<open>CreateOrUpdateReceiverPacketContext\<close>.

  Abstraction. A window is read as two sets of unbounded sequence numbers, those received and
  those acknowledged, relative to the unbounded number \<open>B\<close> of its base; the lemmas show that the
  bitmap operations are insertions into these sets.
\<close>

section \<open>State\<close>

text \<open>The type of a context created on transmission is not initialised until a packet arrives.\<close>

record ReceivedPacketContext =
  rpc_qp_id :: u32
  rpc_psn :: u32
  rpc_type :: "PacketType option"
  rpc_is_ack_requested :: bool
  rpc_location :: PacketBufferLocation

definition new_ReceivedPacketContext :: ReceivedPacketContext where
  "new_ReceivedPacketContext = \<lparr>rpc_qp_id = 0, rpc_psn = 0, rpc_type = None,
     rpc_is_ack_requested = False, rpc_location = kSram\<rparr>"

record RxWindow =
  rx_base :: u32
  rx_next :: u32
  has_oow_drop :: bool
  receive_window :: FalconBitmap
  ack_window :: FalconBitmap

definition kRxBitmapWidth :: nat where "kRxBitmapWidth = 128"
definition kRxRequestWindowSize :: int where "kRxRequestWindowSize = 64"
definition kRxDataWindowSize :: int where "kRxDataWindowSize = 128"
definition kGen2RxBitmapWidth :: nat where "kGen2RxBitmapWidth = 256"

text \<open>For a version below 1 both bitmap pointers stay null.\<close>

definition new_RxWindow :: "WindowType \<Rightarrow> int \<Rightarrow> RxWindow option" where
  "new_RxWindow type version =
     (let win = (\<lambda>bits sz. \<lparr>rx_base = 0, rx_next = 0, has_oow_drop = False,
                   receive_window = FalconBitmap_new bits sz,
                   ack_window = FalconBitmap_new bits sz\<rparr>)
      in if version = 1 then
           Some (win kRxBitmapWidth
                   (if type = kRequest then kRxRequestWindowSize else kRxDataWindowSize))
         else if version \<ge> 2 then Some (win kGen2RxBitmapWidth (int kGen2RxBitmapWidth))
         else None)"

record ReceiverReliabilityMetadata =
  rx_request_window :: RxWindow
  rx_data_window :: RxWindow
  implicitly_acked_counter :: u32
  received_packet_contexts :: "TransactionKey \<rightharpoonup> ReceivedPacketContext"

definition new_ReceiverReliabilityMetadata :: "int \<Rightarrow> ReceiverReliabilityMetadata option" where
  "new_ReceiverReliabilityMetadata version = do {
     r \<leftarrow> new_RxWindow kRequest version;
     d \<leftarrow> new_RxWindow kData version;
     Some \<lparr>rx_request_window = r, rx_data_window = d, implicitly_acked_counter = 0,
           received_packet_contexts = Map.empty\<rparr>
   }"

definition GetReceivedPacketContext ::
    "ReceiverReliabilityMetadata \<Rightarrow> TransactionKey \<Rightarrow> status + ReceivedPacketContext" where
  "GetReceivedPacketContext rx key =
     (case received_packet_contexts rx key of Some c \<Rightarrow> Inr c | None \<Rightarrow> Inl NotFoundError)"

text \<open>\<open>GetAppropriateRxWindow\<close> returns a pointer; the model has its read and its write.\<close>

definition GetAppropriateRxWindow :: "ReceiverReliabilityMetadata \<Rightarrow> PacketType \<Rightarrow> RxWindow" where
  "GetAppropriateRxWindow rx type =
     (if type = kPullRequest \<or> type = kPushRequest then rx_request_window rx
      else rx_data_window rx)"

definition put_rx_window ::
    "PacketType \<Rightarrow> RxWindow \<Rightarrow> ReceiverReliabilityMetadata \<Rightarrow> ReceiverReliabilityMetadata" where
  "put_rx_window type w rx =
     (if type = kPullRequest \<or> type = kPushRequest then rx\<lparr>rx_request_window := w\<rparr>
      else rx\<lparr>rx_data_window := w\<rparr>)"

section \<open>Operations\<close>

text \<open>
  The position of a PSN in a window. The remainder by a window of size 0 is undefined in C++;
  here it yields a position that every access rejects.
\<close>

definition window_index :: "FalconBitmap \<Rightarrow> u32 \<Rightarrow> u32 \<Rightarrow> int" where
  "window_index w psn base = uint (psn - base) mod Size w"

text \<open>The four cases of the sliding-window check of \<open>HandleIncomingPacketOrResync\<close>.\<close>

datatype verdict = BelowWindow | BeyondWindow | AlreadyReceived | Fresh int

definition classify_psn :: "RxWindow \<Rightarrow> u32 \<Rightarrow> verdict option" where
  "classify_psn w psn =
     (if SeqLT psn (rx_base w) then Some BelowWindow
      else if SeqGEQ psn (rx_base w + word_of_int (Size (receive_window w))) then Some BeyondWindow
      else do {
        let i = window_index (receive_window w) psn (rx_base w);
        v \<leftarrow> Get (receive_window w) i;
        Some (if v then AlreadyReceived else Fresh i)
      })"

definition mark_received :: "RxWindow \<Rightarrow> int \<Rightarrow> RxWindow option" where
  "mark_received w i = do {
     b \<leftarrow> Set (receive_window w) i True;
     Some (w\<lparr>receive_window := b\<rparr>)
   }"

text \<open>The window part of \<open>UpdateReceiveAckBitmap\<close>, with the distance the base moves.\<close>

definition ack_psn :: "RxWindow \<Rightarrow> u32 \<Rightarrow> (RxWindow \<times> int) option" where
  "ack_psn w psn = do {
     aw \<leftarrow> Set (ack_window w) (window_index (receive_window w) psn (rx_base w)) True;
     if psn = rx_base w then do {
       delta \<leftarrow> scan_run Get aw (nat (Size aw)) 0 0;
       Some (w\<lparr>ack_window := RightShift aw delta,
               receive_window := RightShift (receive_window w) delta,
               rx_base := rx_base w + word_of_int delta\<rparr>, delta)
     } else Some (w\<lparr>ack_window := aw\<rparr>, 0)
   }"

definition UpdateReceiveAckBitmap ::
    "PacketType \<Rightarrow> u32 \<Rightarrow> ReceiverReliabilityMetadata \<Rightarrow> ReceiverReliabilityMetadata option" where
  "UpdateReceiveAckBitmap type psn rx = do {
     (w, delta) \<leftarrow> ack_psn (GetAppropriateRxWindow rx type) psn;
     Some ((put_rx_window type w rx)\<lparr>implicitly_acked_counter :=
             implicitly_acked_counter rx + word_of_int delta\<rparr>)
   }"

text \<open>The packet types that carry an RDMA header.\<close>

definition carries_rdma :: "PacketType \<Rightarrow> bool" where
  "carries_rdma type \<longleftrightarrow> type \<in> {kPushSolicitedData, kPushUnsolicitedData, kPushRequest,
     kPullRequest, kPullData}"

definition CreateOrUpdateReceiverPacketContext ::
    "Packet \<Rightarrow> PacketDirection \<Rightarrow> ReceiverReliabilityMetadata \<Rightarrow>
     ReceiverReliabilityMetadata option" where
  "CreateOrUpdateReceiverPacketContext packet dir rx = do {
     loc \<leftarrow> GetTransactionLocation (packet_type packet) (dir = kIncoming);
     let key = mk_key (falcon_rsn packet) loc;
     let ctx = (case received_packet_contexts rx key of
                  Some c \<Rightarrow> c | None \<Rightarrow> new_ReceivedPacketContext);
     let ctx' =
       (if dir = kIncoming then
          (let c = ctx\<lparr>rpc_psn := falcon_psn packet, rpc_type := Some (packet_type packet),
                      rpc_is_ack_requested := falcon_ack_req packet\<rparr>
           in if carries_rdma (packet_type packet)
              then c\<lparr>rpc_qp_id := rdma_dest_qp_id packet\<rparr> else c)
        else if carries_rdma (packet_type packet) \<and> packet_type packet \<noteq> kPullData
        then ctx\<lparr>rpc_qp_id := metadata_rdma_src_qp_id packet\<rparr>
        else ctx);
     Some (rx\<lparr>received_packet_contexts := (received_packet_contexts rx)(key \<mapsto> ctx')\<rparr>)
   }"

section \<open>Well-formed windows and the abstract view\<close>

definition rx_wf :: "RxWindow \<Rightarrow> bool" where
  "rx_wf w \<longleftrightarrow> bitmap_wf (receive_window w) \<and> bitmap_wf (ack_window w)
     \<and> Size (ack_window w) = Size (receive_window w)
     \<and> 0 < Size (receive_window w) \<and> Size (receive_window w) < 2 ^ 31
     \<and> (\<forall>i. bit_at (ack_window w) i \<longrightarrow> bit_at (receive_window w) i)
     \<and> (\<forall>i. bit_at (receive_window w) i \<longrightarrow> i < Size (receive_window w))
     \<and> \<not> bit_at (ack_window w) 0"

text \<open>The unbounded sequence number of a PSN, when the window's base has number \<open>B\<close>.\<close>

definition absolute :: "int \<Rightarrow> RxWindow \<Rightarrow> u32 \<Rightarrow> int" where
  "absolute B w psn = B + sint (psn - rx_base w)"

definition received_from :: "int \<Rightarrow> RxWindow \<Rightarrow> int set" where
  "received_from B w = {n. n < B \<or> bit_at (receive_window w) (n - B)}"

definition acked_from :: "int \<Rightarrow> RxWindow \<Rightarrow> int set" where
  "acked_from B w = {n. n < B \<or> bit_at (ack_window w) (n - B)}"

lemma rx_wf_new: "new_RxWindow type version = Some w \<Longrightarrow> rx_wf w"
  by (auto simp: new_RxWindow_def rx_wf_def Let_def kRxBitmapWidth_def kRxRequestWindowSize_def
      kRxDataWindowSize_def kGen2RxBitmapWidth_def split: if_splits)

lemma bit_at_nonneg: "bit_at b i \<Longrightarrow> 0 \<le> i"
  by (simp add: bit_at_def)

lemma sint_nonneg_uint: "0 \<le> sint (x :: u32) \<Longrightarrow> uint x = sint x"
  using sint_lt [of x] by (simp add: uint_sint take_bit_int_eq_self)

lemma sint_of_small: "- (2 ^ 31) \<le> k \<Longrightarrow> k < 2 ^ 31 \<Longrightarrow> sint (word_of_int k :: u32) = k"
  by (simp add: signed_of_int signed_take_bit_int_eq_self)

lemma sint_range: "- (2 ^ 31) \<le> sint (x :: u32) \<and> sint x < 2 ^ 31"
  using sint_ge [of x] sint_lt [of x] by simp

lemma word_of_sint: "word_of_int (sint (x :: u32)) = x"
  by simp

lemma word_of_int_sint_diff: "(x :: u32) - y = word_of_int (sint (x - y))"
  by simp

lemma in_window_index:
  assumes "0 \<le> sint (psn - base)" "sint (psn - base) < Size b"
  shows "window_index b psn base = sint (psn - base)"
  using assms by (simp add: window_index_def sint_nonneg_uint)

lemma classify_psn_cases:
  assumes "rx_wf w"
  shows "classify_psn w psn = Some
    (let i = sint (psn - rx_base w) in
     if i < 0 then BelowWindow
     else if i \<ge> Size (receive_window w) then BeyondWindow
     else if bit_at (receive_window w) i then AlreadyReceived else Fresh i)"
proof -
  let ?i = "sint (psn - rx_base w)" and ?s = "Size (receive_window w)"
  have s: "0 < ?s" "?s < 2 ^ 31" "bitmap_wf (receive_window w)" using assms by (simp_all add: rx_wf_def)
  have lt: "SeqLT psn (rx_base w) \<longleftrightarrow> ?i < 0" by (simp add: SeqLT_def)
  have "psn - (rx_base w + word_of_int ?s) = word_of_int (?i - ?s)"
    by (simp add: diff_diff_eq)
  then have geq: "SeqGEQ psn (rx_base w + word_of_int ?s) \<longleftrightarrow> ?i \<ge> ?s" if "0 \<le> ?i"
    using sint_of_small [of "?i - ?s"] sint_range [of "psn - rx_base w"] s that
    by (simp add: SeqGEQ_def diff_diff_eq)
  show ?thesis
  proof (cases "0 \<le> ?i \<and> ?i < ?s")
    case True
    then have "window_index (receive_window w) psn (rx_base w) = ?i" by (simp add: in_window_index)
    then show ?thesis using True lt geq bm.get_view [OF s(3), of ?i] by (simp add: classify_psn_def Let_def)
  next
    case False
    then show ?thesis using lt geq by (auto simp: classify_psn_def Let_def)
  qed
qed

lemma mark_received_spec:
  assumes "rx_wf w" "classify_psn w psn = Some (Fresh i)"
  shows "\<exists>w'. mark_received w i = Some w' \<and> rx_wf w' \<and> rx_base w' = rx_base w
    \<and> ack_window w' = ack_window w \<and> i = sint (psn - rx_base w) \<and> bit_at (receive_window w') i
    \<and> absolute B w psn \<notin> received_from B w
    \<and> received_from B w' = insert (absolute B w psn) (received_from B w)"
proof -
  have i: "i = sint (psn - rx_base w)" "0 \<le> i" "i < Size (receive_window w)"
      "\<not> bit_at (receive_window w) i"
    using assms(2) by (auto simp: classify_psn_cases [OF assms(1)] Let_def split: if_splits)
  obtain b where b: "Set (receive_window w) i True = Some b" "bitmap_wf b"
      "Size b = Size (receive_window w)" "bit_at b = (bit_at (receive_window w))(i := True)"
    using bm.put_ok [of "receive_window w" i True] i assms(1) unfolding rx_wf_def by metis
  have "received_from B (w\<lparr>receive_window := b\<rparr>) = insert (absolute B w psn) (received_from B w)"
    using i b(4) by (auto simp: received_from_def absolute_def)
  then show ?thesis
    using i b assms(1) by (auto simp: mark_received_def rx_wf_def received_from_def absolute_def)
qed

text \<open>
  The slide. Acknowledging a received PSN inside the window inserts its number into the
  acknowledged set, leaves the received set alone, and moves the base over exactly the
  acknowledged prefix.
\<close>

lemma ack_psn_spec:
  assumes wf: "rx_wf w" and i: "sint (psn - rx_base w) = i" "0 \<le> i" "bit_at (receive_window w) i"
  shows "\<exists>w' d. ack_psn w psn = Some (w', d) \<and> rx_wf w' \<and> 0 \<le> d \<and> d \<le> Size (receive_window w)
    \<and> rx_base w' = rx_base w + word_of_int d \<and> has_oow_drop w' = has_oow_drop w
    \<and> Size (receive_window w') = Size (receive_window w)
    \<and> acked_from (B + d) w' = insert (B + i) (acked_from B w)
    \<and> received_from (B + d) w' = received_from B w"
proof -
  have szs: "i < Size (receive_window w)" "Size (ack_window w) = Size (receive_window w)"
      "bitmap_wf (ack_window w)" "bitmap_wf (receive_window w)"
    using wf i(3) by (auto simp: rx_wf_def)
  obtain aw where aw: "Set (ack_window w) i True = Some aw" "bitmap_wf aw"
      "Size aw = Size (receive_window w)" "bit_at aw = (bit_at (ack_window w))(i := True)"
    using bm.put_ok [of "ack_window w" i True] i(2) szs by auto
  have idx: "window_index (receive_window w) psn (rx_base w) = i"
    using i szs by (simp add: in_window_index)
  have sub: "bit_at (receive_window w) j" if "bit_at aw j" for j
    using that aw(4) wf i(3) by (auto simp: rx_wf_def split: if_splits)
  show ?thesis
  proof (cases "psn = rx_base w")
    case False
    then have "i \<noteq> 0" using i(1) by (metis eq_iff_diff_eq_0 signed_0 word_of_sint word_of_int_0)
    then have "rx_wf (w\<lparr>ack_window := aw\<rparr>)" using wf aw sub by (auto simp: rx_wf_def)
    moreover have "acked_from B (w\<lparr>ack_window := aw\<rparr>) = insert (B + i) (acked_from B w)"
      using aw(4) by (auto simp: acked_from_def)
    ultimately show ?thesis
      using False aw(1) idx by (auto simp: ack_psn_def received_from_def rx_wf_def)
  next
    case True
    let ?n = "nat (Size aw)"
    have n: "int ?n = Size aw" using aw(3) szs(1) i(2) by simp
    obtain d where d: "scan_run Get aw ?n 0 0 = Some d"
      using bm.scan_run_total [OF aw(2), of 0 ?n 0] n by auto
    note spec = bm.scan_run_spec [OF aw(2) _ _ d]
    have d1: "0 \<le> d" "d \<le> Size aw" "\<And>j. 0 \<le> j \<Longrightarrow> j < d \<Longrightarrow> bit_at aw j" "d < Size aw \<Longrightarrow> \<not> bit_at aw d"
      using spec n by auto
    have "\<not> bit_at aw d" using d1(4) sub aw(3) d1(2) wf unfolding rx_wf_def by force
    let ?w' = "w\<lparr>ack_window := RightShift aw d, receive_window := RightShift (receive_window w) d,
               rx_base := rx_base w + word_of_int d\<rparr>"
    have run: "ack_psn w psn = Some (?w', d)" using True aw(1) idx d by (simp add: ack_psn_def)
    have "rx_wf ?w'"
      unfolding rx_wf_def
    proof (intro conjI allI impI)
      fix j
      show "bit_at (ack_window ?w') j \<Longrightarrow> bit_at (receive_window ?w') j"
        using d1(1) sub by (simp add: bit_at_RightShift)
      show "bit_at (receive_window ?w') j \<Longrightarrow> j < Size (receive_window ?w')"
        using d1(1) wf by (force simp: bit_at_RightShift rx_wf_def)
      show "\<not> bit_at (ack_window ?w') 0"
        using \<open>\<not> bit_at aw d\<close> d1(1) by (simp add: bit_at_RightShift)
    qed (use wf aw szs in \<open>simp_all add: rx_wf_def\<close>)
    moreover have "acked_from (B + d) ?w' = insert (B + i) (acked_from B w)"
    proof (intro set_eqI)
      fix n
      have "n = B + i \<or> bit_at (ack_window w) (n - B)" if "B \<le> n" "n < B + d"
        using d1(3) [of "n - B"] that aw(4) by (auto split: if_splits)
      then show "n \<in> acked_from (B + d) ?w' \<longleftrightarrow> n \<in> insert (B + i) (acked_from B w)"
        using d1(1) bit_at_nonneg [of "ack_window w" "n - B"] aw(4) i(2) not_le [of B n]
        by (auto simp: acked_from_def bit_at_RightShift algebra_simps split: if_splits)
    qed
    moreover have "received_from (B + d) ?w' = received_from B w"
    proof (intro set_eqI)
      fix n
      show "n \<in> received_from (B + d) ?w' \<longleftrightarrow> n \<in> received_from B w"
        using d1(1) sub [OF d1(3), of "n - B"] bit_at_nonneg [of "receive_window w" "n - B"]
          not_le [of B n]
        by (auto simp: received_from_def bit_at_RightShift algebra_simps)
    qed
    ultimately show ?thesis using run d1 aw(3) by (intro exI [of _ ?w'] exI [of _ d]) simp
  qed
qed

end
