(* ===== verification/Reliability_State.thy ===== *)
theory Reliability_State
  imports Rx_Window
begin

text \<open>
  The state the packet reliability manager and the ACK coalescing engine read and write for one
  connection, the headers of ACK and NACK packets, the configuration, and the calls these two
  components make on the rest of the simulator.

  A call on another component is recorded in the field \<open>calls\<close>, oldest first; the
  environment's \<open>env_ok\<close> says whether it returns an OK status, so that a \<open>CHECK_OK\<close> around it
  aborts when it does not. Values another component computes without changing state (resource
  availability, the round-trip time in simulated time, the pseudo-random jitter, products with
  floating-point factors) are functions of the environment. The gating functions that a
  \<open>GatingVariable\<close> invokes only recompute scheduler eligibility and are left out.
\<close>

section \<open>Headers of ACK and NACK packets\<close>

datatype AckType = Ack_kAck | Ack_kEack

record AckHeader =
  ack_type :: AckType
  ack_dest_cid :: u32
  ack_rrbpsn :: u32
  ack_rdbpsn :: u32
  receiver_request_bitmap :: FalconBitmap
  receiver_data_bitmap :: FalconBitmap
  ack_timestamp_1 :: duration
  ack_timestamp_2 :: duration
  ack_forward_hops :: u8
  received_bitmap :: FalconBitmap
  ack_request_own :: bool
  ack_data_own :: bool

definition kAckPacketBitmapWidth :: nat where "kAckPacketBitmapWidth = 128"
definition kAckPacketRequestWindowSize :: int where "kAckPacketRequestWindowSize = 64"
definition kAckPacketDataWindowSize :: int where "kAckPacketDataWindowSize = 128"

definition new_AckHeader :: AckHeader where
  "new_AckHeader =
     \<lparr>ack_type = Ack_kAck, ack_dest_cid = 0, ack_rrbpsn = 0, ack_rdbpsn = 0,
      receiver_request_bitmap =
        FalconBitmap_new kAckPacketBitmapWidth kAckPacketRequestWindowSize,
      receiver_data_bitmap = FalconBitmap_new kAckPacketBitmapWidth kAckPacketDataWindowSize,
      ack_timestamp_1 = ZeroDuration, ack_timestamp_2 = ZeroDuration, ack_forward_hops = 0,
      received_bitmap = FalconBitmap_new kAckPacketBitmapWidth kRxDataWindowSize,
      ack_request_own = False, ack_data_own = False\<rparr>"

text \<open>The NACK code and the ULP NACK code have no initial value.\<close>

record NackHeader =
  nack_dest_cid :: u32
  nack_rrbpsn :: u32
  nack_rdbpsn :: u32
  nack_psn :: u32
  nack_request_window :: bool
  nack_hdr_code :: "NackCode option"
  nack_ulp_nack_code :: "Syndrome option"
  nack_rnr_timeout :: duration
  nack_timestamp_1 :: duration
  nack_timestamp_2 :: duration
  nack_forward_hops :: u8
  nack_request_own :: bool
  nack_data_own :: bool

definition new_NackHeader :: NackHeader where
  "new_NackHeader =
     \<lparr>nack_dest_cid = 0, nack_rrbpsn = 0, nack_rdbpsn = 0, nack_psn = 0,
      nack_request_window = False, nack_hdr_code = None, nack_ulp_nack_code = None,
      nack_rnr_timeout = ZeroDuration, nack_timestamp_1 = ZeroDuration,
      nack_timestamp_2 = ZeroDuration, nack_forward_hops = 0, nack_request_own = False,
      nack_data_own = False\<rparr>"

text \<open>A packet with the headers and the time stamps the reliability layer uses.\<close>

record NetPacket = Packet +
  ack_hdr :: AckHeader
  nack_hdr :: NackHeader
  md_forward_hops :: u8
  md_flow_label :: u32
  md_timing_wheel_timestamp :: duration
  sent_timestamp :: duration
  received_timestamp :: duration

definition new_NetPacket :: NetPacket where
  "new_NetPacket = Packet.extend new_Packet
     \<lparr>ack_hdr = new_AckHeader, nack_hdr = new_NackHeader, md_forward_hops = 0,
      md_flow_label = 0, md_timing_wheel_timestamp = ZeroDuration, sent_timestamp = ZeroDuration, received_timestamp = ZeroDuration\<rparr>"

section \<open>ACK coalescing entry\<close>

record CongestionControlMetadataToReflect =
  ccr_forward_hops :: u8
  ccr_timestamp_1 :: duration
  ccr_timestamp_2 :: duration
  ccr_flow_label :: u32

record AckCoalescingEntry =
  cc_metadata_to_reflect :: CongestionControlMetadataToReflect
  coalescing_counter_threshold :: u32
  coalescing_timeout_threshold :: duration
  coalescing_counter :: u32
  timer_trigger_time :: duration

definition new_AckCoalescingEntry :: AckCoalescingEntry where
  "new_AckCoalescingEntry =
     \<lparr>cc_metadata_to_reflect = \<lparr>ccr_forward_hops = 0, ccr_timestamp_1 = ZeroDuration,
        ccr_timestamp_2 = ZeroDuration, ccr_flow_label = 0\<rparr>,
      coalescing_counter_threshold = 0, coalescing_timeout_threshold = ZeroDuration,
      coalescing_counter = 0, timer_trigger_time = ZeroDuration\<rparr>"

section \<open>Transmitter windows\<close>

record OutstandingPacketContext =
  opc_rsn :: u32
  opc_type :: PacketType

record TxWindow =
  tx_type :: WindowType
  tx_base :: u32
  tx_next :: u32
  outstanding_requests_counter :: u32
  outstanding_retransmission_requests_counter :: u32
  oow_notification_received :: bool
  tx_bitmap :: FalconBitmap
  outstanding_packets :: "RetransmissionWorkId list"
  outstanding_packet_contexts :: "u32 \<rightharpoonup> OutstandingPacketContext"

definition kTxBitmapWidth :: nat where "kTxBitmapWidth = 1024"
definition kGen2TxBitmapWidth :: nat where "kGen2TxBitmapWidth = 1024"

definition new_TxWindow :: "WindowType \<Rightarrow> int \<Rightarrow> TxWindow option" where
  "new_TxWindow type version =
     (let win = (\<lambda>bits. \<lparr>tx_type = type, tx_base = 0, tx_next = 0,
                   outstanding_requests_counter = 0,
                   outstanding_retransmission_requests_counter = 0,
                   oow_notification_received = False,
                   tx_bitmap = FalconBitmap_new bits (int bits), outstanding_packets = [],
                   outstanding_packet_contexts = Map.empty\<rparr>)
      in if version = 1 then Some (win kTxBitmapWidth)
         else if version \<ge> 2 then Some (win kGen2TxBitmapWidth)
         else None)"

definition GetOutstandingPacketRSN :: "TxWindow \<Rightarrow> u32 \<Rightarrow> status + OutstandingPacketContext" where
  "GetOutstandingPacketRSN w psn =
     (case outstanding_packet_contexts w psn of Some c \<Rightarrow> Inr c | None \<Rightarrow> Inl NotFoundError)"

section \<open>Calls on other components\<close>

datatype call =
    EnqueueAckNack NetPacket
  | ReorderInsert PacketType u32 u32
  | RetryRnr u32
  | ReleaseResources TransactionKey PacketType
  | RetxEnqueue u32 PacketType
  | RetxDequeue u32 PacketType
  | RueExplicitAck bool bool
  | RueNack NetPacket
  | RueTimeoutRetransmitted PacketType u32
  | RueEarlyRetransmitted PacketType u32
  | ScheduleAckTimer duration
  | ScheduleRetransmitTimer duration
  | ScheduleTlpTimer duration
  | TransferTxPacket NetPacket
  | LatencySamples "sample list"

section \<open>Configuration and environment\<close>

datatype TlpType = TLP_LAST | TLP_FIRST_UNRECEIVED | TLP_FIRST_UNACKED

record rel_config =
  enable_ooo_count :: bool
  enable_ooo_distance :: bool
  ooo_count_threshold :: u32
  ooo_distance_threshold :: u32
  enable_eack_own :: bool
  enable_recency_check_bypass :: bool
  enable_scanning_exit_criteria_bypass :: bool
  enable_smaller_psn_recency_check_bypass :: bool
  enable_pause_initial_transmission_on_oow_drops :: bool
  request_window_slack :: u32
  data_window_slack :: u32
  enable_rack :: bool
  rack_use_t1 :: bool
  min_rack_time_window :: duration
  enable_tlp :: bool
  min_tlp_timeout :: duration
  tlp_type :: TlpType
  tlp_bypass_cc :: bool
  early_retx_threshold :: u32
  ignore_incoming_ar_bit :: bool
  eack_trigger_by_hole_in_rx_bitmap :: bool
  retx_jitter_base_range_ns :: u32
  retx_jitter_conn_factor_ns :: u32
  retx_jitter_pkt_factor_ns :: u32

record rel_env =
  cfg :: rel_config
  now :: duration
  env_ok :: "call \<Rightarrow> bool"
  env_resources :: "Packet \<Rightarrow> status"
  FromFalconTimeUnits :: "u32 \<Rightarrow> duration"
  rack_scaled :: "duration \<Rightarrow> duration"
  tlp_scaled :: "duration \<Rightarrow> duration"
  prng_draw :: "int \<Rightarrow> nat \<Rightarrow> int"

section \<open>State of a connection in the reliability layer\<close>

record ConnectionState = ConnectionTransactions +
  dcid :: u32
  max_retransmit_attempts :: u32
  early_retransmit_limit :: u32
  ack_coalescing_timeout :: duration
  flow_label :: u32
  fabric_congestion_window :: u32
  inter_packet_gap :: duration
  nic_congestion_window :: u32
  retransmit_timeout :: duration
  rtt_state :: u32
  num_acked :: u32
  tx_request_window :: TxWindow
  tx_data_window :: TxWindow
  rto_expiration_base_time :: duration
  rto_expiration_jitter :: duration
  rx :: ReceiverReliabilityMetadata
  rack_xmit_ts :: duration
  rack_rto :: duration
  tlp_pto :: duration
  ulp_rto :: duration
  ack_entry :: "AckCoalescingEntry option"
  outstanding_conn_counter :: u32
  outstanding_pkt_counter :: u32
  prng_draws :: nat
  calls :: "call list"

text \<open>
  A new connection: the members with an initialiser have its value, the congestion-control values
  (set by the rate update engine) start from a value-initialised struct.
\<close>

definition new_ConnectionState :: "u32 \<Rightarrow> u32 \<Rightarrow> int \<Rightarrow> ConnectionState option" where
  "new_ConnectionState scid dest version = do {
     txr \<leftarrow> new_TxWindow kRequest version;
     txd \<leftarrow> new_TxWindow kData version;
     r \<leftarrow> new_ReceiverReliabilityMetadata version;
     Some \<lparr>cs_scid = scid,
       tx_transaction_metadata = \<lparr>base_request_sequence_number = 0,
         next_request_sequence_number = 0, current_solicitation_sequence_number = 0\<rparr>,
       transactions = Map.empty, dcid = dest, max_retransmit_attempts = 2147483647,
       early_retransmit_limit = 64, ack_coalescing_timeout = Ticks 32000, flow_label = 0,
       fabric_congestion_window = 0, inter_packet_gap = ZeroDuration, nic_congestion_window = 0, retransmit_timeout = ZeroDuration,
       rtt_state = 0, num_acked = 0, tx_request_window = txr, tx_data_window = txd,
       rto_expiration_base_time = ZeroDuration, rto_expiration_jitter = ZeroDuration, rx = r,
       rack_xmit_ts = ZeroDuration, rack_rto = InfiniteDuration, tlp_pto = ZeroDuration,
       ulp_rto = Ticks 20000000, ack_entry = None, outstanding_conn_counter = 0,
       outstanding_pkt_counter = 0, prng_draws = 0, calls = []\<rparr>
   }"

definition default_config :: rel_config where
  "default_config =
     \<lparr>enable_ooo_count = False, enable_ooo_distance = True, ooo_count_threshold = 3,
      ooo_distance_threshold = 3, enable_eack_own = False, enable_recency_check_bypass = False,
      enable_scanning_exit_criteria_bypass = False,
      enable_smaller_psn_recency_check_bypass = False,
      enable_pause_initial_transmission_on_oow_drops = False, request_window_slack = 0,
      data_window_slack = 0, enable_rack = False, rack_use_t1 = True,
      min_rack_time_window = ZeroDuration, enable_tlp = False, min_tlp_timeout = Ticks 200000,
      tlp_type = TLP_FIRST_UNACKED, tlp_bypass_cc = False, early_retx_threshold = - 1,
      ignore_incoming_ar_bit = False, eack_trigger_by_hole_in_rx_bitmap = True,
      retx_jitter_base_range_ns = 0, retx_jitter_conn_factor_ns = 0,
      retx_jitter_pkt_factor_ns = 0\<rparr>"

text \<open>One tick is a quarter of a nanosecond, the resolution of \<open>absl::Duration\<close>.\<close>

definition ticks_per_ns :: int where "ticks_per_ns = 4"

text \<open>An environment for concrete runs: every call succeeds, no jitter, constant factors 1.\<close>

definition quiet_env :: "int \<Rightarrow> rel_env" where
  "quiet_env t = \<lparr>cfg = default_config, now = Ticks t, env_ok = (\<lambda>_. True),
     env_resources = (\<lambda>_. OkStatus), FromFalconTimeUnits = (\<lambda>n. Ticks (uint n)),
     rack_scaled = (\<lambda>d. d), tlp_scaled = (\<lambda>d. d), prng_draw = (\<lambda>_ _. 0)\<rparr>"

definition emit :: "call \<Rightarrow> ConnectionState \<Rightarrow> ConnectionState" where
  "emit c cs = cs\<lparr>calls := calls cs @ [c]\<rparr>"

definition emit_checked :: "rel_env \<Rightarrow> call \<Rightarrow> ConnectionState \<Rightarrow> ConnectionState option" where
  "emit_checked env c cs = (if env_ok env c then Some (emit c cs) else None)"

text \<open>The pointer to one of the two transmit windows: its read and its write.\<close>

definition tx_window :: "WindowType \<Rightarrow> ConnectionState \<Rightarrow> TxWindow" where
  "tx_window t cs = (if t = kRequest then tx_request_window cs else tx_data_window cs)"

definition put_tx_window :: "WindowType \<Rightarrow> TxWindow \<Rightarrow> ConnectionState \<Rightarrow> ConnectionState" where
  "put_tx_window t w cs =
     (if t = kRequest then cs\<lparr>tx_request_window := w\<rparr> else cs\<lparr>tx_data_window := w\<rparr>)"

definition map_tx_window ::
    "WindowType \<Rightarrow> (TxWindow \<Rightarrow> TxWindow) \<Rightarrow> ConnectionState \<Rightarrow> ConnectionState" where
  "map_tx_window t f cs = put_tx_window t (f (tx_window t cs)) cs"

text \<open>The two overloads of \<open>GetAppropriateTxWindow\<close>, as the window they select.\<close>

definition GetAppropriateTxWindow :: "PacketType \<Rightarrow> WindowType" where
  "GetAppropriateTxWindow type =
     (if type = kPullRequest \<or> type = kPushRequest then kRequest else kData)"

definition GetAppropriateTxWindow_nack :: "bool \<Rightarrow> WindowType" where
  "GetAppropriateTxWindow_nack request_window = (if request_window then kRequest else kData)"

named_theorems frame_simps \<open>which fields the helpers leave alone\<close>

lemma emit_sel [simp, frame_simps]:
  "transactions (emit c cs) = transactions cs" "rx (emit c cs) = rx cs"
  "tx_request_window (emit c cs) = tx_request_window cs"
  "tx_data_window (emit c cs) = tx_data_window cs"
  "calls (emit c cs) = calls cs @ [c]" "ack_entry (emit c cs) = ack_entry cs"
  "tx_window t (emit c cs) = tx_window t cs"
  by (simp_all add: emit_def tx_window_def)

lemma tx_window_put [simp, frame_simps]:
  "tx_window t (put_tx_window u w cs) = (if t = u then w else tx_window t cs)"
  by (cases t; cases u) (simp_all add: tx_window_def put_tx_window_def)

lemma put_tx_window_sel [simp, frame_simps]:
  "transactions (put_tx_window t w cs) = transactions cs" "rx (put_tx_window t w cs) = rx cs"
  "calls (put_tx_window t w cs) = calls cs" "ack_entry (put_tx_window t w cs) = ack_entry cs"
  by (simp_all add: put_tx_window_def)

end
