(* ===== verification/Ack_Coalescing.thy ===== *)
theory Ack_Coalescing
  imports Reliability_State
begin

text \<open>
  The ACK coalescing engine (\<open>falcon_protocol_ack_coalescing_engine.cc\<close>), Gen1 keys: the entry
  of a connection decides when explicit ACKs leave, and the engine builds the ACK, EACK and NACK
  packets. A missing entry is fatal. The flow label is the connection's; bifurcation ids, IP
  addresses, the statistics and the receive-buffer level carried in the headers are left out.

  \<open>ack_step\<close> is the engine in discrete time: the calls it receives, the timers it has scheduled
  and the passing of time. The invariant \<open>ack_timer_inv\<close> says that whenever packets wait for
  their acknowledgement a valid timer event is pending.
\<close>

section \<open>Operations\<close>

definition HasExperiencedOowDrops :: "ReceiverReliabilityMetadata \<Rightarrow> bool" where
  "HasExperiencedOowDrops r \<longleftrightarrow>
     has_oow_drop (rx_request_window r) \<or> has_oow_drop (rx_data_window r)"

definition CreateAckCoalescingEntry ::
    "u32 \<Rightarrow> duration \<Rightarrow> ConnectionState \<Rightarrow> ConnectionState option" where
  "CreateAckCoalescingEntry threshold timeout cs = do {
     check (ack_entry cs = None);
     Some (cs\<lparr>ack_entry := Some (new_AckCoalescingEntry
       \<lparr>coalescing_counter_threshold := threshold, coalescing_timeout_threshold := timeout\<rparr>)\<rparr>)
   }"

text \<open>\<open>GetAckCoalescingEntry\<close> followed by a write through the pointer.\<close>

definition GetAckCoalescingEntry :: "ConnectionState \<Rightarrow> AckCoalescingEntry option" where
  "GetAckCoalescingEntry cs = ack_entry cs"

definition put_entry :: "AckCoalescingEntry \<Rightarrow> ConnectionState \<Rightarrow> ConnectionState" where
  "put_entry e cs = cs\<lparr>ack_entry := Some e\<rparr>"

definition GetAckCoalescingThreshold :: "AckCoalescingEntry \<Rightarrow> u32" where
  "GetAckCoalescingThreshold e = coalescing_counter_threshold e * 2"

definition clear_oow :: "ReceiverReliabilityMetadata \<Rightarrow> ReceiverReliabilityMetadata" where
  "clear_oow r = r\<lparr>rx_request_window := (rx_request_window r)\<lparr>has_oow_drop := False\<rparr>,
                  rx_data_window := (rx_data_window r)\<lparr>has_oow_drop := False\<rparr>\<rparr>"

definition PopulateAckWithCongestionControlMetadataToReflect ::
    "AckCoalescingEntry \<Rightarrow> AckHeader \<Rightarrow> AckHeader" where
  "PopulateAckWithCongestionControlMetadataToReflect e a =
     a\<lparr>ack_timestamp_1 := ccr_timestamp_1 (cc_metadata_to_reflect e),
       ack_timestamp_2 := ccr_timestamp_2 (cc_metadata_to_reflect e),
       ack_forward_hops := ccr_forward_hops (cc_metadata_to_reflect e)\<rparr>"

definition FillInBaseAckFields ::
    "ConnectionState \<Rightarrow> AckCoalescingEntry \<Rightarrow> NetPacket \<Rightarrow> NetPacket" where
  "FillInBaseAckFields cs e p =
     p\<lparr>metadata_scid := cs_scid cs, packet_type := kAck, md_flow_label := flow_label cs,
       ack_hdr := PopulateAckWithCongestionControlMetadataToReflect e
         ((ack_hdr p)\<lparr>ack_dest_cid := dcid cs, ack_rrbpsn := rx_base (rx_request_window (rx cs)),
                      ack_rdbpsn := rx_base (rx_data_window (rx cs))\<rparr>)\<rparr>"

text \<open>
  The three \<open>dynamic_cast\<close>s to the Gen1 width throw for a bitmap of another width.
\<close>

definition FillInAckBitmaps ::
    "ReceiverReliabilityMetadata \<Rightarrow> NetPacket \<Rightarrow> NetPacket option" where
  "FillInAckBitmaps r p = do {
     let gen1 = (\<lambda>b. length (bm_bits b) = kRxBitmapWidth);
     check (gen1 (ack_window (rx_request_window r)) \<and> gen1 (ack_window (rx_data_window r))
            \<and> gen1 (receive_window (rx_data_window r)));
     let a = ack_hdr p;
     Some (p\<lparr>ack_hdr := a
       \<lparr>receiver_request_bitmap :=
          assign_same (receiver_request_bitmap a) (ack_window (rx_request_window r)),
        receiver_data_bitmap :=
          assign_same (receiver_data_bitmap a) (ack_window (rx_data_window r)),
        received_bitmap :=
          assign_same (received_bitmap a) (receive_window (rx_data_window r))\<rparr>\<rparr>)
   }"

definition CreateExplicitAckOrEack ::
    "rel_env \<Rightarrow> AckCoalescingEntry \<Rightarrow> ConnectionState \<Rightarrow> (NetPacket \<times> ConnectionState) option" where
  "CreateExplicitAckOrEack env e cs = do {
     let r = rx cs;
     let req_own = has_oow_drop (rx_request_window r);
     let data_own = has_oow_drop (rx_data_window r);
     let p = FillInBaseAckFields cs e new_NetPacket;
     let trigger = (if eack_trigger_by_hole_in_rx_bitmap (cfg env)
                    then FirstHoleIndex (receive_window (rx_data_window r)) \<ge> 0
                    else \<not> Empty (receive_window (rx_data_window r)));
     if \<not> Empty (ack_window (rx_request_window r)) \<or> \<not> Empty (ack_window (rx_data_window r))
        \<or> trigger \<or> req_own \<or> data_own
     then do {
       p \<leftarrow> FillInAckBitmaps r (p\<lparr>ack_hdr := (ack_hdr p)\<lparr>ack_type := Ack_kEack\<rparr>\<rparr>);
       Some (p\<lparr>ack_hdr := (ack_hdr p)\<lparr>ack_request_own := req_own, ack_data_own := data_own\<rparr>\<rparr>,
             cs\<lparr>rx := clear_oow r\<rparr>)
     }
     else Some (p\<lparr>ack_hdr := (ack_hdr p)\<lparr>ack_type := Ack_kAck\<rparr>\<rparr>, cs)
   }"

definition TransmitACK :: "rel_env \<Rightarrow> ConnectionState \<Rightarrow> ConnectionState option" where
  "TransmitACK env cs = do {
     e \<leftarrow> GetAckCoalescingEntry cs;
     let e = e\<lparr>coalescing_counter := 0, timer_trigger_time := ZeroDuration\<rparr>;
     let cs = (put_entry e cs)\<lparr>rx := (rx cs)\<lparr>implicitly_acked_counter := 0\<rparr>\<rparr>;
     (p, cs) \<leftarrow> CreateExplicitAckOrEack env e cs;
     emit_checked env (EnqueueAckNack p) cs
   }"

definition SetupAckCoalescingTimer ::
    "rel_env \<Rightarrow> ConnectionState \<Rightarrow> (status \<times> ConnectionState) option" where
  "SetupAckCoalescingTimer env cs = do {
     e \<leftarrow> GetAckCoalescingEntry cs;
     let c = ScheduleAckTimer (coalescing_timeout_threshold e);
     let cs = emit c (put_entry (e\<lparr>timer_trigger_time := now env\<rparr>) cs);
     Some (if env_ok env c then OkStatus else UnknownError, cs)
   }"

definition GenerateAckOrUpdateCoalescingState ::
    "rel_env \<Rightarrow> bool \<Rightarrow> int \<Rightarrow> ConnectionState \<Rightarrow> (status \<times> ConnectionState) option" where
  "GenerateAckOrUpdateCoalescingState env immediate_ack_req count_increment cs = do {
     e \<leftarrow> GetAckCoalescingEntry cs;
     let e = e\<lparr>coalescing_counter := coalescing_counter e + word_of_int count_increment\<rparr>;
     let cs = put_entry e cs;
     let immediate = (if immediate_ack_req \<and> ignore_incoming_ar_bit (cfg env)
                         \<and> HasExperiencedOowDrops (rx cs)
                      then False else immediate_ack_req);
     if immediate \<or> coalescing_counter e \<ge> GetAckCoalescingThreshold e
     then do { cs \<leftarrow> TransmitACK env cs; Some (OkStatus, cs) }
     else if timer_trigger_time e = ZeroDuration then SetupAckCoalescingTimer env cs
     else Some (OkStatus, cs)
   }"

text \<open>
  \<open>PiggybackAck\<close> writes the current bases into the NACK header of a NACK and into the Falcon
  header of every other packet.
\<close>

definition PiggybackAck ::
    "NetPacket \<Rightarrow> ConnectionState \<Rightarrow> (NetPacket \<times> ConnectionState) option" where
  "PiggybackAck p cs = do {
     e \<leftarrow> GetAckCoalescingEntry cs;
     let r = rx cs;
     let acked = implicitly_acked_counter r * 2;
     let (e, r) =
       (if \<not> HasExperiencedOowDrops r
        then (e\<lparr>coalescing_counter :=
                  (if coalescing_counter e \<ge> acked then coalescing_counter e - acked else 0)\<rparr>,
              r\<lparr>implicitly_acked_counter := 0\<rparr>)
        else (e, r));
     let rbase = rx_base (rx_request_window r);
     let dbase = rx_base (rx_data_window r);
     let p = (if packet_type p = kNack
              then p\<lparr>nack_hdr := (nack_hdr p)\<lparr>nack_rrbpsn := rbase, nack_rdbpsn := dbase\<rparr>\<rparr>
              else p\<lparr>falcon_rrbpsn := rbase, falcon_rdbpsn := dbase\<rparr>);
     let e = (if coalescing_counter e = 0 then e\<lparr>timer_trigger_time := ZeroDuration\<rparr> else e);
     Some (p, (put_entry e cs)\<lparr>rx := r\<rparr>)
   }"

text \<open>
  \<open>TransmitNACK\<close>; the ULP metadata is read through a pointer that is null for the two
  codes the sliding window produces itself.
\<close>

definition set_ulp_nack ::
    "NackCode \<Rightarrow> UlpNackMetadata option \<Rightarrow> NackHeader \<Rightarrow> NackHeader option" where
  "set_ulp_nack code ulp h =
     (if code \<noteq> kRxResourceExhaustion \<and> code \<noteq> kRxWindowError then do {
        u \<leftarrow> ulp;
        let h = h\<lparr>nack_ulp_nack_code := Some (ulp_nack_code u)\<rparr>;
        Some (if code = kUlpReceiverNotReady then h\<lparr>nack_rnr_timeout := rnr_timeout u\<rparr> else h)
      } else Some h)"

definition TransmitNACK ::
    "rel_env \<Rightarrow> u32 \<Rightarrow> bool \<Rightarrow> NackCode \<Rightarrow> UlpNackMetadata option \<Rightarrow> ConnectionState \<Rightarrow>
     (status \<times> ConnectionState) option" where
  "TransmitNACK env original_psn is_request_window code ulp cs = do {
     let p = new_NetPacket\<lparr>packet_type := kNack, metadata_scid := cs_scid cs,
               nack_hdr := new_NackHeader\<lparr>nack_dest_cid := dcid cs\<rparr>\<rparr>;
     (p, cs) \<leftarrow> PiggybackAck p cs;
     e \<leftarrow> GetAckCoalescingEntry cs;
     h \<leftarrow> set_ulp_nack code ulp
            ((nack_hdr p)\<lparr>nack_psn := original_psn, nack_request_window := is_request_window,
                          nack_hdr_code := Some code\<rparr>);
     let r = rx cs;
     let h = h\<lparr>nack_request_own := has_oow_drop (rx_request_window r),
               nack_data_own := has_oow_drop (rx_data_window r),
               nack_timestamp_1 := ccr_timestamp_1 (cc_metadata_to_reflect e),
               nack_timestamp_2 := ccr_timestamp_2 (cc_metadata_to_reflect e),
               nack_forward_hops := ccr_forward_hops (cc_metadata_to_reflect e)\<rparr>;
     let p = p\<lparr>nack_hdr := h, md_flow_label := flow_label cs\<rparr>;
     cs \<leftarrow> emit_checked env (EnqueueAckNack p) (cs\<lparr>rx := clear_oow r\<rparr>);
     Some (OkStatus, cs)
   }"

definition UpdateCongestionControlMetadataToReflect ::
    "NetPacket \<Rightarrow> ConnectionState \<Rightarrow> ConnectionState option" where
  "UpdateCongestionControlMetadataToReflect p cs = do {
     e \<leftarrow> GetAckCoalescingEntry cs;
     Some (put_entry (e\<lparr>cc_metadata_to_reflect :=
       \<lparr>ccr_forward_hops = md_forward_hops p, ccr_timestamp_1 = sent_timestamp p,
        ccr_timestamp_2 = received_timestamp p, ccr_flow_label = md_flow_label p\<rparr>\<rparr>) cs)
   }"

definition HandleAckCoalescingTimeout ::
    "rel_env \<Rightarrow> ConnectionState \<Rightarrow> ConnectionState option" where
  "HandleAckCoalescingTimeout env cs = do {
     e \<leftarrow> GetAckCoalescingEntry cs;
     if now env - timer_trigger_time e = coalescing_timeout_threshold e \<and> coalescing_counter e > 0
     then TransmitACK env cs
     else Some cs
   }"

section \<open>What the operations do to the entry\<close>

definition reset_entry :: "AckCoalescingEntry \<Rightarrow> AckCoalescingEntry" where
  "reset_entry e = e\<lparr>coalescing_counter := 0, timer_trigger_time := ZeroDuration\<rparr>"

lemma TransmitACK_entry:
  assumes "TransmitACK env cs = Some cs'" "ack_entry cs = Some e"
  shows "ack_entry cs' = Some (reset_entry e) \<and> (\<exists>p. calls cs' = calls cs @ [EnqueueAckNack p])"
  using assms
  by (auto simp: TransmitACK_def CreateExplicitAckOrEack_def Let_def GetAckCoalescingEntry_def
      put_entry_def emit_checked_def emit_def reset_entry_def bind_eq_Some_conv split: if_splits)

lemma PiggybackAck_entry:
  assumes "PiggybackAck p cs = Some (p', cs')" "ack_entry cs = Some e"
  shows "calls cs' = calls cs \<and> (\<exists>c. c \<le> coalescing_counter e \<and>
    ack_entry cs' = Some (e\<lparr>coalescing_counter := c,
      timer_trigger_time := (if c = 0 then ZeroDuration else timer_trigger_time e)\<rparr>))"
proof -
  let ?a = "implicitly_acked_counter (rx cs) * 2"
  let ?c = "if HasExperiencedOowDrops (rx cs) then coalescing_counter e
            else if coalescing_counter e \<ge> ?a then coalescing_counter e - ?a else 0"
  have "?c \<le> coalescing_counter e"
    by (simp add: word_sub_le)
  then show ?thesis
    using assms
    by (intro conjI exI [of _ ?c])
       (auto simp: PiggybackAck_def Let_def GetAckCoalescingEntry_def put_entry_def split: if_splits)
qed

lemma TransmitNACK_entry:
  assumes "TransmitNACK env psn rw code ulp cs = Some (st, cs')" "ack_entry cs = Some e"
  shows "\<exists>c p. c \<le> coalescing_counter e \<and> calls cs' = calls cs @ [EnqueueAckNack p] \<and>
    ack_entry cs' = Some (e\<lparr>coalescing_counter := c,
      timer_trigger_time := (if c = 0 then ZeroDuration else timer_trigger_time e)\<rparr>)"
proof -
  from assms(1) obtain p1 cs1 where pb: "PiggybackAck (new_NetPacket\<lparr>packet_type := kNack,
      metadata_scid := cs_scid cs, nack_hdr := new_NackHeader\<lparr>nack_dest_cid := dcid cs\<rparr>\<rparr>) cs
      = Some (p1, cs1)"
    and rest: "\<exists>p. calls cs' = calls cs1 @ [EnqueueAckNack p]" "ack_entry cs' = ack_entry cs1"
    by (auto simp: TransmitNACK_def emit_checked_def emit_def Let_def bind_eq_Some_conv
        split: if_splits)
  show ?thesis using PiggybackAck_entry [OF pb assms(2)] rest by auto
qed

lemma Generate_cases:
  assumes "GenerateAckOrUpdateCoalescingState env imm inc cs = Some (st, cs')" "ack_entry cs = Some e"
  obtains (sent) p where "ack_entry cs' = Some (reset_entry e)"
      "calls cs' = calls cs @ [EnqueueAckNack p]"
  | (timer) "timer_trigger_time e = ZeroDuration"
      "coalescing_counter e + word_of_int inc < GetAckCoalescingThreshold e"
      "ack_entry cs' = Some (e\<lparr>coalescing_counter := coalescing_counter e + word_of_int inc,
                              timer_trigger_time := now env\<rparr>)"
      "calls cs' = calls cs @ [ScheduleAckTimer (coalescing_timeout_threshold e)]"
  | (counted) "timer_trigger_time e \<noteq> ZeroDuration"
      "coalescing_counter e + word_of_int inc < GetAckCoalescingThreshold e"
      "ack_entry cs' = Some (e\<lparr>coalescing_counter := coalescing_counter e + word_of_int inc\<rparr>)"
      "calls cs' = calls cs"
proof -
  let ?e = "e\<lparr>coalescing_counter := coalescing_counter e + word_of_int inc\<rparr>"
  let ?now = "imm \<and> \<not> (ignore_incoming_ar_bit (cfg env) \<and> HasExperiencedOowDrops (rx (put_entry ?e cs)))"
  have entry: "ack_entry (put_entry ?e cs) = Some ?e" "calls (put_entry ?e cs) = calls cs"
    by (simp_all add: put_entry_def)
  consider (send) cs1 where "TransmitACK env (put_entry ?e cs) = Some cs1" "cs' = cs1"
    | (quiet) "coalescing_counter ?e < GetAckCoalescingThreshold ?e"
        "(if timer_trigger_time ?e = ZeroDuration then SetupAckCoalescingTimer env (put_entry ?e cs)
          else Some (OkStatus, put_entry ?e cs)) = Some (st, cs')"
  proof (cases "?now \<or> coalescing_counter ?e \<ge> GetAckCoalescingThreshold ?e")
    case True
    then have "TransmitACK env (put_entry ?e cs) = Some cs'"
      using assms by (auto simp: GenerateAckOrUpdateCoalescingState_def GetAckCoalescingEntry_def
          Let_def bind_eq_Some_conv split: if_splits)
    then show thesis using send by blast
  next
    case False
    then show thesis
      using assms quiet by (auto simp: GenerateAckOrUpdateCoalescingState_def
          GetAckCoalescingEntry_def Let_def not_le split: if_splits)
  qed
  then show thesis
  proof cases
    case send
    then show thesis using TransmitACK_entry [OF send(1) entry(1)] that(1) entry
      by (auto simp: reset_entry_def)
  next
    case quiet
    then show thesis
      using that(2,3) entry
      by (auto simp: SetupAckCoalescingTimer_def GetAckCoalescingEntry_def Let_def put_entry_def
          emit_def GetAckCoalescingThreshold_def split: if_splits)
  qed
qed

section \<open>The engine in time\<close>

text \<open>
  A state is the current time, the times at which scheduled ACK timers fire, and the connection.
  \<open>timers\<close> reads the timers an operation scheduled off the log. Time does not pass a pending
  timer, and \<open>other\<close> stands for everything the rest of the simulator does to the connection.
\<close>

fun fire_time :: "int \<Rightarrow> call \<Rightarrow> int list" where
  "fire_time t (ScheduleAckTimer (Ticks d)) = [t + d]"
| "fire_time t _ = []"

definition timers :: "int \<Rightarrow> ConnectionState \<Rightarrow> ConnectionState \<Rightarrow> int list" where
  "timers t cs cs' = concat (map (fire_time t) (drop (length (calls cs)) (calls cs')))"

type_synonym ack_state = "int \<times> int list \<times> ConnectionState"

inductive ack_step :: "ack_state \<Rightarrow> ack_state \<Rightarrow> bool" where
  arrive: "now env = Ticks t \<Longrightarrow> inc = 1 \<or> inc = 2 \<Longrightarrow>
    GenerateAckOrUpdateCoalescingState env imm inc cs = Some (OkStatus, cs') \<Longrightarrow>
    ack_step (t, ts, cs) (t, ts @ timers t cs cs', cs')"
| piggyback: "PiggybackAck p cs = Some (p', cs') \<Longrightarrow> ack_step (t, ts, cs) (t, ts, cs')"
| nack: "now env = Ticks t \<Longrightarrow> TransmitNACK env psn rw code ulp cs = Some (OkStatus, cs') \<Longrightarrow>
    ack_step (t, ts, cs) (t, ts, cs')"
| reflect: "UpdateCongestionControlMetadataToReflect p cs = Some cs' \<Longrightarrow>
    ack_step (t, ts, cs) (t, ts, cs')"
| fire: "now env = Ticks t \<Longrightarrow> HandleAckCoalescingTimeout env cs = Some cs' \<Longrightarrow>
    ack_step (t, ts1 @ t # ts2, cs) (t, ts1 @ ts2, cs')"
| other: "ack_entry cs' = ack_entry cs \<Longrightarrow> ack_step (t, ts, cs) (t, ts, cs')"
| tick: "t < t' \<Longrightarrow> \<forall>x \<in> set ts. t' \<le> x \<Longrightarrow> ack_step (t, ts, cs) (t', ts, cs)"

inductive_cases ack_stepE: "ack_step s s'"

text \<open>The entry at time \<open>t\<close> with pending timers \<open>ts\<close>.\<close>

definition entry_inv :: "int \<Rightarrow> int list \<Rightarrow> AckCoalescingEntry \<Rightarrow> bool" where
  "entry_inv t ts e \<longleftrightarrow>
     (\<exists>T. coalescing_timeout_threshold e = Ticks T \<and> 0 \<le> T \<and>
        (coalescing_counter e \<noteq> 0 \<longrightarrow>
           (\<exists>s. timer_trigger_time e = Ticks s \<and> 0 < s \<and> s \<le> t \<and> s + T \<in> set ts))) \<and>
     uint (GetAckCoalescingThreshold e) < 2 ^ 32 - 2 \<and>
     (coalescing_counter e = 0 \<or> coalescing_counter e < GetAckCoalescingThreshold e) \<and>
     (coalescing_counter e = 0 \<longrightarrow> timer_trigger_time e = ZeroDuration)"

fun ack_timer_inv :: "ack_state \<Rightarrow> bool" where
  "ack_timer_inv (t, ts, cs) =
     (0 < t \<and> (\<forall>x \<in> set ts. t \<le> x) \<and> (\<exists>e. ack_entry cs = Some e \<and> entry_inv t ts e))"

lemma timers_simps [simp]:
  "calls cs' = calls cs \<Longrightarrow> timers t cs cs' = []"
  "calls cs' = calls cs @ [EnqueueAckNack p] \<Longrightarrow> timers t cs cs' = []"
  "calls cs' = calls cs @ [ScheduleAckTimer (Ticks d)] \<Longrightarrow> timers t cs cs' = [t + d]"
  by (simp_all add: timers_def)

lemma threshold_reset [simp]:
  "GetAckCoalescingThreshold (reset_entry e) = GetAckCoalescingThreshold e"
  "GetAckCoalescingThreshold (e\<lparr>coalescing_counter := c, timer_trigger_time := d\<rparr>)
     = GetAckCoalescingThreshold e"
  "GetAckCoalescingThreshold (e\<lparr>coalescing_counter := c\<rparr>) = GetAckCoalescingThreshold e"
  "coalescing_timeout_threshold (reset_entry e) = coalescing_timeout_threshold e"
  "coalescing_counter (reset_entry e) = 0" "timer_trigger_time (reset_entry e) = ZeroDuration"
  by (simp_all add: GetAckCoalescingThreshold_def reset_entry_def)

lemma counter_step_nonzero:
  assumes "c = 0 \<or> c < thr" "uint thr < 2 ^ 32 - 2" "inc = 1 \<or> inc = 2"
  shows "(c :: u32) + word_of_int inc \<noteq> 0"
proof -
  have "uint c < 2 ^ 32 - 2" using assms(1,2) by (auto simp: word_less_def)
  then have "uint (c + word_of_int inc) = uint c + inc"
    using assms(3) by (auto simp: uint_word_ariths)
  moreover have "0 < uint c + inc" using assms(3) by (auto intro: add_nonneg_pos)
  ultimately show ?thesis by force
qed

lemma entry_inv_reset: "entry_inv t ts e \<Longrightarrow> entry_inv t ts (reset_entry e)"
  by (auto simp: entry_inv_def)

lemma entry_inv_reduce:
  assumes "entry_inv t ts e" "c \<le> coalescing_counter e"
  shows "entry_inv t ts (e\<lparr>coalescing_counter := c,
     timer_trigger_time := (if c = 0 then ZeroDuration else timer_trigger_time e)\<rparr>)"
proof (cases "c = 0")
  case False
  then have "coalescing_counter e \<noteq> 0" using assms(2) by auto
  then show ?thesis using assms False by (auto simp: entry_inv_def)
qed (use assms(1) in \<open>auto simp: entry_inv_def\<close>)

lemma entry_inv_counted:
  assumes "entry_inv t ts e" "timer_trigger_time e \<noteq> ZeroDuration" "c < GetAckCoalescingThreshold e"
    "c \<noteq> 0"
  shows "entry_inv t ts (e\<lparr>coalescing_counter := c\<rparr>)"
  using assms by (auto simp: entry_inv_def)

lemma entry_inv_timer:
  assumes "entry_inv t ts e" "c < GetAckCoalescingThreshold e" "c \<noteq> 0" "0 < t"
    "coalescing_timeout_threshold e = Ticks T"
  shows "entry_inv t (ts @ [t + T]) (e\<lparr>coalescing_counter := c, timer_trigger_time := Ticks t\<rparr>)"
  using assms by (auto simp: entry_inv_def)

lemma entry_inv_reflect [simp]:
  "entry_inv t ts (e\<lparr>cc_metadata_to_reflect := m\<rparr>) = entry_inv t ts e"
  by (simp add: entry_inv_def GetAckCoalescingThreshold_def)

lemma entry_inv_fire:
  assumes "entry_inv t (ts1 @ t # ts2) e"
    "\<not> (Ticks t - timer_trigger_time e = coalescing_timeout_threshold e \<and> coalescing_counter e > 0)"
  shows "entry_inv t (ts1 @ ts2) e"
  using assms by (fastforce simp: entry_inv_def word_gt_0)

lemma entry_inv_tick:
  assumes "entry_inv t ts e" "t < t'"
  shows "entry_inv t' ts e"
  using assms by (fastforce simp: entry_inv_def)

lemma ack_timer_inv_step:
  assumes "ack_step s s'" "ack_timer_inv s"
  shows "ack_timer_inv s'"
  using assms
proof (cases rule: ack_step.cases)
  case (arrive env t inc imm cs cs' ts)
  then obtain e where e: "0 < t" "\<forall>x\<in>set ts. t \<le> x" "ack_entry cs = Some e" "entry_inv t ts e"
    using assms(2) by auto
  obtain T where T: "coalescing_timeout_threshold e = Ticks T" "0 \<le> T"
    using e(4) by (auto simp: entry_inv_def)
  have nz: "coalescing_counter e + word_of_int inc \<noteq> 0"
    using counter_step_nonzero [of "coalescing_counter e" "GetAckCoalescingThreshold e" inc]
      e(4) arrive(4) by (auto simp: entry_inv_def)
  show ?thesis
    using arrive(5) e(3)
  proof (cases rule: Generate_cases)
    case (sent p)
    then show ?thesis using e(1,2) entry_inv_reset [OF e(4)] arrive(2) by simp
  next
    case timer
    then show ?thesis
      using e(1,2) entry_inv_timer [OF e(4) timer(2) nz e(1) T(1)] arrive(2,3) T by auto
  next
    case counted
    then show ?thesis using e(1,2) entry_inv_counted [OF e(4) counted(1,2) nz] arrive(2) by simp
  qed
next
  case (piggyback p cs p' cs' t ts)
  then obtain e where "0 < t" "\<forall>x\<in>set ts. t \<le> x" "ack_entry cs = Some e" "entry_inv t ts e"
    using assms(2) by auto
  then show ?thesis
    using PiggybackAck_entry [OF piggyback(3)] entry_inv_reduce piggyback(2) by fastforce
next
  case (nack env t psn rw code ulp cs cs' ts)
  then obtain e where "0 < t" "\<forall>x\<in>set ts. t \<le> x" "ack_entry cs = Some e" "entry_inv t ts e"
    using assms(2) by auto
  then show ?thesis
    using TransmitNACK_entry [OF nack(4)] entry_inv_reduce nack(2) by fastforce
next
  case (reflect p cs cs' t ts)
  then show ?thesis using assms(2)
    by (auto simp: UpdateCongestionControlMetadataToReflect_def GetAckCoalescingEntry_def
        put_entry_def)
next
  case (fire env t cs cs' ts1 ts2)
  then obtain e where e: "0 < t" "\<forall>x\<in>set (ts1 @ t # ts2). t \<le> x" "ack_entry cs = Some e"
      "entry_inv t (ts1 @ t # ts2) e"
    using assms(2) by auto
  show ?thesis
  proof (cases "now env - timer_trigger_time e = coalescing_timeout_threshold e
                \<and> coalescing_counter e > 0")
    case True
    then have "TransmitACK env cs = Some cs'"
      using fire(4) e(3) by (simp add: HandleAckCoalescingTimeout_def GetAckCoalescingEntry_def)
    then have "ack_entry cs' = Some (reset_entry e)" using TransmitACK_entry e(3) by blast
    moreover have "entry_inv t (ts1 @ ts2) (reset_entry e)"
      using e(4) by (auto simp: entry_inv_def)
    ultimately show ?thesis using e(1,2) fire(2) by simp
  next
    case False
    then have same: "cs' = cs"
      using fire(4) e(3)
      by (simp add: HandleAckCoalescingTimeout_def GetAckCoalescingEntry_def split: if_splits)
    have "entry_inv t (ts1 @ ts2) e" using entry_inv_fire [OF e(4)] False fire(3) by simp
    then show ?thesis using same e fire(2) by simp
  qed
next
  case (other cs' cs t ts)
  then show ?thesis using assms(2) by simp
next
  case (tick t t' ts cs)
  then show ?thesis using assms(2) entry_inv_tick [OF _ tick(3)] by auto
qed

lemma ack_timer_inv_reachable: "ack_step\<^sup>*\<^sup>* s s' \<Longrightarrow> ack_timer_inv s \<Longrightarrow> ack_timer_inv s'"
  by (induction rule: rtranclp_induct) (auto intro: ack_timer_inv_step)

text \<open>The bitmaps have the width of a Gen1 window.\<close>

definition gen1_windows :: "ReceiverReliabilityMetadata \<Rightarrow> bool" where
  "gen1_windows r \<longleftrightarrow> length (bm_bits (ack_window (rx_request_window r))) = kRxBitmapWidth
     \<and> length (bm_bits (ack_window (rx_data_window r))) = kRxBitmapWidth
     \<and> length (bm_bits (receive_window (rx_data_window r))) = kRxBitmapWidth"

lemma bit_at_assign_same [simp]: "bit_at (assign_same b a) i = bit_at a i"
  by (simp add: bit_at_def assign_same_def)

section \<open>Properties\<close>

text \<open>
  C4 No acknowledgement is forgotten. However arrivals, piggybacking, NACKs, timer events and
  anything else interleave, whenever the coalescing counter is not zero the timer runs: it started
  at some time \<open>s\<close>, its event is still pending at \<open>s + T\<close>, and that time has not passed. So packets
  are acknowledged at most the coalescing timeout \<open>T\<close> after the timer started.
\<close>

theorem ack_never_forgotten:
  assumes "ack_step\<^sup>*\<^sup>* (t0, [], cs0) (t, ts, cs)" "0 < t0"
    and "ack_entry cs0 = Some e0" "coalescing_counter e0 = 0" "timer_trigger_time e0 = ZeroDuration"
    and "coalescing_timeout_threshold e0 = Ticks T0" "0 \<le> T0"
    and "uint (GetAckCoalescingThreshold e0) < 2 ^ 32 - 2"
  shows "\<exists>e T. ack_entry cs = Some e \<and> coalescing_timeout_threshold e = Ticks T \<and>
    (coalescing_counter e \<noteq> 0 \<longrightarrow>
       (\<exists>s. timer_trigger_time e = Ticks s \<and> s \<le> t \<and> t \<le> s + T \<and> s + T \<in> set ts))"
proof -
  have "ack_timer_inv (t0, [], cs0)" using assms(2-) by (simp add: entry_inv_def)
  then have "ack_timer_inv (t, ts, cs)" using ack_timer_inv_reachable assms(1) by blast
  then show ?thesis by (fastforce simp: entry_inv_def)
qed

text \<open>
  An ACK tells the sender everything. \<open>TransmitACK\<close> sends one packet with both window bases;
  it is an EACK carrying the acknowledgement bitmaps, the receive bitmap and the out-of-window
  flags, bit for bit, and when it is a plain ACK there was nothing beyond the bases to report. The
  counters, the timer and the reported flags are reset.
\<close>

theorem ack_reports_receiver_state:
  assumes "ack_entry cs = Some e" "gen1_windows (rx cs)" "\<forall>p. env_ok env (EnqueueAckNack p)"
  shows "\<exists>p cs'. TransmitACK env cs = Some cs' \<and> calls cs' = calls cs @ [EnqueueAckNack p]
    \<and> packet_type p = kAck
    \<and> ack_rrbpsn (ack_hdr p) = rx_base (rx_request_window (rx cs))
    \<and> ack_rdbpsn (ack_hdr p) = rx_base (rx_data_window (rx cs))
    \<and> (if ack_type (ack_hdr p) = Ack_kEack then
         (\<forall>i. bit_at (receiver_request_bitmap (ack_hdr p)) i
                \<longleftrightarrow> bit_at (ack_window (rx_request_window (rx cs))) i)
         \<and> (\<forall>i. bit_at (receiver_data_bitmap (ack_hdr p)) i
                \<longleftrightarrow> bit_at (ack_window (rx_data_window (rx cs))) i)
         \<and> (\<forall>i. bit_at (received_bitmap (ack_hdr p)) i
                \<longleftrightarrow> bit_at (receive_window (rx_data_window (rx cs))) i)
         \<and> ack_request_own (ack_hdr p) = has_oow_drop (rx_request_window (rx cs))
         \<and> ack_data_own (ack_hdr p) = has_oow_drop (rx_data_window (rx cs))
       else (\<forall>i. \<not> bit_at (ack_window (rx_request_window (rx cs))) i)
         \<and> (\<forall>i. \<not> bit_at (ack_window (rx_data_window (rx cs))) i))
    \<and> \<not> HasExperiencedOowDrops (rx cs')
    \<and> ack_entry cs' = Some (reset_entry e) \<and> implicitly_acked_counter (rx cs') = 0"
proof -
  let ?r = "rx cs"
  let ?e = "reset_entry e"
  let ?cs = "(put_entry ?e cs)\<lparr>rx := ?r\<lparr>implicitly_acked_counter := 0\<rparr>\<rparr>"
  have tx: "TransmitACK env cs = (case CreateExplicitAckOrEack env ?e ?cs of
      None \<Rightarrow> None | Some (p, cs') \<Rightarrow> Some (emit (EnqueueAckNack p) cs'))"
    using assms(1,3) by (auto simp: TransmitACK_def GetAckCoalescingEntry_def Let_def reset_entry_def
        emit_checked_def split: option.splits)
  show ?thesis
    using assms(2)
    by (auto simp: tx CreateExplicitAckOrEack_def Let_def FillInAckBitmaps_def gen1_windows_def
        FillInBaseAckFields_def PopulateAckWithCongestionControlMetadataToReflect_def put_entry_def
        emit_def HasExperiencedOowDrops_def clear_oow_def Empty_iff)
qed

text \<open>A connection with the default coalescing parameters: 10 packets, 8 microseconds.\<close>

definition example_connection :: ConnectionState where
  "example_connection =
     the (do { cs \<leftarrow> new_ConnectionState 1 2 1; CreateAckCoalescingEntry 10 (Ticks 32000) cs })"

lemmas example_simps = example_connection_def new_ConnectionState_def new_TxWindow_def
  new_ReceiverReliabilityMetadata_def new_RxWindow_def CreateAckCoalescingEntry_def
  new_AckCoalescingEntry_def Let_def

lemma example_entry: "ack_entry example_connection = Some (new_AckCoalescingEntry
    \<lparr>coalescing_counter_threshold := 10, coalescing_timeout_threshold := Ticks 32000\<rparr>)"
  by (simp add: example_simps)

lemma ack_reports_receiver_state_witness:
  "\<exists>p cs'. TransmitACK (quiet_env 8) example_connection = Some cs'
     \<and> calls cs' = calls example_connection @ [EnqueueAckNack p] \<and> packet_type p = kAck"
proof -
  have "gen1_windows (rx example_connection)"
    by (simp add: example_simps gen1_windows_def kRxBitmapWidth_def FalconBitmap_new_def)
  from ack_reports_receiver_state [OF example_entry this, of "quiet_env 8"]
  show ?thesis by (simp add: quiet_env_def) blast
qed

lemma ack_never_forgotten_witness:
  "\<exists>cs'. ack_step\<^sup>*\<^sup>* (8, [], example_connection) (8, [32008], cs') \<and>
     (\<exists>e T. ack_entry cs' = Some e \<and> coalescing_timeout_threshold e = Ticks T \<and>
       (coalescing_counter e \<noteq> 0 \<longrightarrow>
         (\<exists>s. timer_trigger_time e = Ticks s \<and> s \<le> 8 \<and> 8 \<le> s + T \<and> s + T \<in> set [32008])))"
proof -
  obtain cs' where gen: "GenerateAckOrUpdateCoalescingState (quiet_env 8) False 2 example_connection
        = Some (OkStatus, cs')"
      "calls cs' = calls example_connection @ [ScheduleAckTimer (Ticks 32000)]"
    by (simp add: GenerateAckOrUpdateCoalescingState_def GetAckCoalescingEntry_def example_entry
        new_AckCoalescingEntry_def GetAckCoalescingThreshold_def SetupAckCoalescingTimer_def
        put_entry_def emit_def quiet_env_def Let_def)
  have "ack_step (8, [], example_connection) (8, [] @ timers 8 example_connection cs', cs')"
    by (rule ack_step.arrive [OF _ _ gen(1)]) (simp_all add: quiet_env_def)
  then have run: "ack_step\<^sup>*\<^sup>* (8, [], example_connection) (8, [32008], cs')"
    using gen(2) by simp
  show ?thesis
    using run ack_never_forgotten [OF run _ example_entry]
    by (auto simp: new_AckCoalescingEntry_def GetAckCoalescingThreshold_def)
qed

end
