(* ===== verification/Tx_Window.thy ===== *)
theory Tx_Window
  imports Ack_Coalescing
begin

text \<open>
  The sender's side of the packet reliability manager
  (\<open>falcon_protocol_packet_reliability_manager.cc\<close>): PSN assignment, the record of outstanding
  packets, the counters, the gating criteria, the retransmission and TLP timers, and the
  processing of acknowledgements (explicit, piggybacked, implicit) down to \<open>EnqueueAckToUlp\<close>.
  The two windows are addressed by their \<open>WindowType\<close> instead of by pointer.
\<close>

section \<open>Packet metadata\<close>

definition packet_key :: "u32 \<Rightarrow> PacketType \<Rightarrow> TransactionKey option" where
  "packet_key rsn type = do {
     loc \<leftarrow> GetTransactionLocation type False;
     Some (mk_key rsn loc)
   }"

text \<open>\<open>ProtocolPacketReliabilityManager::GetPacketMetadata\<close>: both lookups are fatal.\<close>

definition packet_of :: "ConnectionState \<Rightarrow> u32 \<Rightarrow> PacketType \<Rightarrow> PacketMetadata option" where
  "packet_of cs rsn type = do {
     key \<leftarrow> packet_key rsn type;
     t \<leftarrow> transactions cs key;
     packets t type
   }"

text \<open>A write through the pointer it returns.\<close>

definition update_packet ::
    "u32 \<Rightarrow> PacketType \<Rightarrow> (PacketMetadata \<Rightarrow> PacketMetadata) \<Rightarrow> ConnectionState \<Rightarrow>
     ConnectionState option" where
  "update_packet rsn type f cs = do {
     key \<leftarrow> packet_key rsn type;
     t \<leftarrow> transactions cs key;
     p \<leftarrow> packets t type;
     Some (cs\<lparr>transactions := (transactions cs)
             (key \<mapsto> t\<lparr>packets := (packets t)(type \<mapsto> f p)\<rparr>)\<rparr>)
   }"

definition GetPacketMetadataFromPsn ::
    "ConnectionState \<Rightarrow> WindowType \<Rightarrow> u32 \<Rightarrow> PacketMetadata option" where
  "GetPacketMetadataFromPsn cs t psn = do {
     ctx \<leftarrow> outstanding_packet_contexts (tx_window t cs) psn;
     packet_of cs (opc_rsn ctx) (opc_type ctx)
   }"

definition GetPacketMetadataFromWorkId ::
    "ConnectionState \<Rightarrow> RetransmissionWorkId \<Rightarrow> PacketMetadata option" where
  "GetPacketMetadataFromWorkId cs work = packet_of cs (rwd_rsn work) (rwd_type work)"

definition NeedToMaintainReceivedStateAtSender :: "rel_config \<Rightarrow> bool" where
  "NeedToMaintainReceivedStateAtSender c \<longleftrightarrow>
     enable_rack c \<or> (enable_tlp c \<and> tlp_type c \<noteq> TLP_FIRST_UNACKED)"

definition IsReceived :: "rel_config \<Rightarrow> PacketMetadata \<Rightarrow> bool" where
  "IsReceived c p \<longleftrightarrow> NeedToMaintainReceivedStateAtSender c \<and> received p"

definition EackBasedEarlyRetransmissionIsEnabled :: "rel_config \<Rightarrow> bool" where
  "EackBasedEarlyRetransmissionIsEnabled c \<longleftrightarrow> enable_ooo_distance c \<or> enable_ooo_count c"

section \<open>Counters\<close>

definition CountOutstandingPackets :: "ConnectionState \<Rightarrow> u32" where
  "CountOutstandingPackets cs =
     word_of_nat (length (outstanding_packets (tx_request_window cs)) +
                  length (outstanding_packets (tx_data_window cs)))"

definition UpdateOutstandingCounterAfterErase :: "ConnectionState \<Rightarrow> ConnectionState" where
  "UpdateOutstandingCounterAfterErase cs =
     (let cs = (if CountOutstandingPackets cs = 0
                then cs\<lparr>outstanding_conn_counter := outstanding_conn_counter cs - 1\<rparr> else cs)
      in cs\<lparr>outstanding_pkt_counter := outstanding_pkt_counter cs - 1\<rparr>)"

definition is_request_type :: "PacketType \<Rightarrow> bool" where
  "is_request_type type \<longleftrightarrow>
     type = kPullRequest \<or> type = kPushRequest \<or> type = kPushUnsolicitedData"

definition IncrementOutstandingRequestCount ::
    "PacketType \<Rightarrow> ConnectionState \<Rightarrow> ConnectionState" where
  "IncrementOutstandingRequestCount type cs =
     (if is_request_type type then
        map_tx_window (GetAppropriateTxWindow type)
          (\<lambda>w. w\<lparr>outstanding_requests_counter := outstanding_requests_counter w + 1\<rparr>) cs
      else cs)"

text \<open>Only unsolicited data was counted in the data window.\<close>

definition counted_window :: "PacketType \<Rightarrow> WindowType" where
  "counted_window type = (if type = kPushUnsolicitedData then kData else kRequest)"

definition DecrementOutstandingRequestCount ::
    "PacketType \<Rightarrow> ConnectionState \<Rightarrow> ConnectionState" where
  "DecrementOutstandingRequestCount type cs =
     (if type = kPullRequest \<or> type = kPushSolicitedData \<or> type = kPushUnsolicitedData then
        map_tx_window (counted_window type)
          (\<lambda>w. w\<lparr>outstanding_requests_counter := outstanding_requests_counter w - 1\<rparr>) cs
      else cs)"

definition IncrementOutstandingRetransmittedRequestCount ::
    "PacketType \<Rightarrow> ConnectionState \<Rightarrow> ConnectionState" where
  "IncrementOutstandingRetransmittedRequestCount type cs =
     (if is_request_type type then
        map_tx_window (GetAppropriateTxWindow type)
          (\<lambda>w. w\<lparr>outstanding_retransmission_requests_counter :=
                   outstanding_retransmission_requests_counter w + 1\<rparr>) cs
      else cs)"

definition DecrementOutstandingRetransmittedRequestCount ::
    "PacketType \<Rightarrow> bool \<Rightarrow> ConnectionState \<Rightarrow> ConnectionState" where
  "DecrementOutstandingRetransmittedRequestCount type is_acked cs =
     (if type = kPullRequest \<or> type = kPushUnsolicitedData \<or>
         (type = kPushSolicitedData \<and> is_acked) \<or> (type = kPushRequest \<and> \<not> is_acked) then
        map_tx_window (counted_window type)
          (\<lambda>w. w\<lparr>outstanding_retransmission_requests_counter :=
                   outstanding_retransmission_requests_counter w - 1\<rparr>) cs
      else cs)"

section \<open>Gating\<close>

definition kFractionalBits :: nat where "kFractionalBits = 10"

text \<open>
  \<open>FixedToFloat\<close> is exact on 32-bit values, so the comparison with 1 and the floor are integer
  operations: \<open>rounded_fcwnd\<close> rounds down above 1 and up to 1 below.
\<close>

definition rounded_fcwnd :: "u32 \<Rightarrow> u32" where
  "rounded_fcwnd fixed =
     (if uint fixed > 2 ^ kFractionalBits then drop_bit kFractionalBits fixed else 1)"

definition GetOpenFcwnd :: "PacketType \<Rightarrow> ConnectionState \<Rightarrow> u32 option" where
  "GetOpenFcwnd type cs = do {
     let w = tx_window (GetAppropriateTxWindow type) cs;
     let fcwnd = rounded_fcwnd (fabric_congestion_window cs);
     check (uint fcwnd \<le> Size (tx_bitmap w));
     let psn_bound = tx_base w + fcwnd;
     let future_psn = tx_next w;
     Some (if \<not> SeqLT future_psn psn_bound then 0 else psn_bound - future_psn)
   }"

definition MeetsInitialTransmissionCCTxGatingCriteria ::
    "PacketType \<Rightarrow> ConnectionState \<Rightarrow> bool option" where
  "MeetsInitialTransmissionCCTxGatingCriteria type cs = do {
     open_fcwnd \<leftarrow> GetOpenFcwnd type cs;
     Some (if open_fcwnd = 0 then False
           else if is_request_type type
           then outstanding_requests_counter (tx_window (GetAppropriateTxWindow type) cs)
                  < nic_congestion_window cs
           else True)
   }"

definition MeetsInitialTransmissionOowTxGatingCriteria ::
    "rel_config \<Rightarrow> PacketType \<Rightarrow> ConnectionState \<Rightarrow> bool" where
  "MeetsInitialTransmissionOowTxGatingCriteria c type cs =
     (if enable_pause_initial_transmission_on_oow_drops c
      then \<not> oow_notification_received (tx_window (GetAppropriateTxWindow type) cs) else True)"

definition MeetsRetransmissionCCTxGatingCriteria ::
    "rel_config \<Rightarrow> u32 \<Rightarrow> PacketType \<Rightarrow> ConnectionState \<Rightarrow> bool option" where
  "MeetsRetransmissionCCTxGatingCriteria c psn type cs = do {
     let t = GetAppropriateTxWindow type;
     let w = tx_window t cs;
     tlp \<leftarrow> (if enable_tlp c \<and> tlp_bypass_cc c then do {
               p \<leftarrow> GetPacketMetadataFromPsn cs t psn;
               Some (retransmission_reason p = kEarlyTlp)
             } else Some False);
     if tlp then Some True
     else do {
       let fcwnd = rounded_fcwnd (fabric_congestion_window cs);
       check (uint fcwnd \<le> Size (tx_bitmap w));
       let psn_bound = tx_base w + fcwnd;
       Some (if \<not> SeqLT psn psn_bound then False
             else if is_request_type type
             then outstanding_retransmission_requests_counter w < nic_congestion_window cs
             else True)
     }
   }"

section \<open>Timers\<close>

definition Nanoseconds :: "int \<Rightarrow> duration" where
  "Nanoseconds n = Ticks (n * ticks_per_ns)"

text \<open>\<open>absl::Nanoseconds(std::ceil(absl::ToDoubleNanoseconds(d)))\<close>\<close>

fun ceil_ns :: "duration \<Rightarrow> duration" where
  "ceil_ns (Ticks n) = Nanoseconds (- ((- n) div ticks_per_ns))"
| "ceil_ns d = d"

text \<open>The bound of the distribution is computed in \<open>uint32_t\<close> and converted to \<open>int\<close>.\<close>

definition GetJitter :: "rel_env \<Rightarrow> ConnectionState \<Rightarrow> duration \<times> ConnectionState" where
  "GetJitter env cs =
     (let bound = retx_jitter_base_range_ns (cfg env)
            + retx_jitter_conn_factor_ns (cfg env) * outstanding_conn_counter cs
            + retx_jitter_pkt_factor_ns (cfg env) * outstanding_pkt_counter cs
      in (Nanoseconds (prng_draw env (sint bound) (prng_draws cs)),
          cs\<lparr>prng_draws := prng_draws cs + 1\<rparr>))"

definition GetTimeoutOfPacket :: "rel_config \<Rightarrow> ConnectionState \<Rightarrow> PacketMetadata \<Rightarrow> duration" where
  "GetTimeoutOfPacket c cs p =
     (if nack_code p = kUlpReceiverNotReady then pm_rnr_timeout p
      else if IsReceived c p then ulp_rto cs
      else let rto = retransmit_timeout cs
           in if enable_rack c \<and> \<not> IsReceived c p \<and> transmission_time p \<le> rack_xmit_ts cs
                 \<and> early_retx_attempts p < early_retx_threshold c
              then (if rto < rack_rto cs then rto else rack_rto cs) else rto)"

definition GetRtoExpirationTime :: "ConnectionState \<Rightarrow> duration" where
  "GetRtoExpirationTime cs = rto_expiration_base_time cs + rto_expiration_jitter cs"

definition ClearRtoExpirationTime :: "ConnectionState \<Rightarrow> ConnectionState" where
  "ClearRtoExpirationTime cs =
     cs\<lparr>rto_expiration_base_time := ZeroDuration, rto_expiration_jitter := ZeroDuration\<rparr>"

text \<open>The expiry of the head of one list of outstanding packets, or infinity.\<close>

definition head_expiry ::
    "rel_config \<Rightarrow> ConnectionState \<Rightarrow> RetransmissionWorkId list \<Rightarrow> duration option" where
  "head_expiry c cs ws =
     (case ws of [] \<Rightarrow> Some InfiniteDuration
      | work # _ \<Rightarrow> do {
          p \<leftarrow> GetPacketMetadataFromWorkId cs work;
          Some (transmission_time p + GetTimeoutOfPacket c cs p)
        })"

definition earliest_expiry :: "rel_config \<Rightarrow> ConnectionState \<Rightarrow> duration option" where
  "earliest_expiry c cs = do {
     r \<leftarrow> head_expiry c cs (outstanding_packets (tx_request_window cs));
     let base_time = (if r < InfiniteDuration then r else InfiniteDuration);
     d \<leftarrow> head_expiry c cs (outstanding_packets (tx_data_window cs));
     Some (if d < base_time then d else base_time)
   }"

text \<open>Scheduling the event, unless none is needed or one for the same base time is set.\<close>

definition arm_retransmit_timer ::
    "rel_env \<Rightarrow> duration \<Rightarrow> duration \<Rightarrow> ConnectionState \<Rightarrow> status \<times> ConnectionState" where
  "arm_retransmit_timer env base_time jitter cs =
     (let expiry = ceil_ns base_time in
      if base_time = InfiniteDuration \<or> expiry = rto_expiration_base_time cs then (OkStatus, cs)
      else
        let (expiry, jitter) =
          (if expiry + jitter < now env then (now env, ZeroDuration) else (expiry, jitter));
          cs = cs\<lparr>rto_expiration_base_time := expiry, rto_expiration_jitter := jitter\<rparr>;
          c = ScheduleRetransmitTimer (expiry + jitter - now env)
        in (if env_ok env c then OkStatus else UnknownError, emit c cs))"

definition SetupRetransmitTimer ::
    "rel_env \<Rightarrow> ConnectionState \<Rightarrow> (status \<times> ConnectionState) option" where
  "SetupRetransmitTimer env cs = do {
     let (jitter, cs) = GetJitter env cs;
     base_time \<leftarrow> earliest_expiry (cfg env) cs;
     Some (arm_retransmit_timer env base_time jitter cs)
   }"

definition retransmit_timer :: "rel_env \<Rightarrow> ConnectionState \<Rightarrow> ConnectionState option" where
  "retransmit_timer env cs = do {
     (st, cs) \<leftarrow> SetupRetransmitTimer env cs;
     check_ok st;
     Some cs
   }"

definition HandleRtoReduction ::
    "rel_env \<Rightarrow> ConnectionState \<Rightarrow> (status \<times> ConnectionState) option" where
  "HandleRtoReduction env cs = do {
     cs \<leftarrow> retransmit_timer env (ClearRtoExpirationTime cs);
     Some (OkStatus, cs)
   }"

definition CalculateTlpTimeout :: "rel_env \<Rightarrow> ConnectionState \<Rightarrow> duration" where
  "CalculateTlpTimeout env cs =
     max (ceil_ns (tlp_scaled env (FromFalconTimeUnits env (rtt_state cs))
                   + ack_coalescing_timeout cs))
       (min_tlp_timeout (cfg env))"

definition SetupTlpTimer :: "rel_env \<Rightarrow> ConnectionState \<Rightarrow> ConnectionState option" where
  "SetupTlpTimer env cs =
     (if \<not> enable_tlp (cfg env) then Some cs
      else do {
        let expiration_time = now env + CalculateTlpTimeout env cs;
        cs \<leftarrow> (if expiration_time \<noteq> tlp_pto cs
              then emit_checked env (ScheduleTlpTimer (expiration_time - now env)) cs else Some cs);
        Some (cs\<lparr>tlp_pto := expiration_time\<rparr>)
      })"

definition CalculateRackWindow :: "rel_env \<Rightarrow> ConnectionState \<Rightarrow> duration" where
  "CalculateRackWindow env cs =
     (let w = ceil_ns (rack_scaled env (FromFalconTimeUnits env (rtt_state cs)))
      in if min_rack_time_window (cfg env) > w then min_rack_time_window (cfg env) else w)"

definition RackUpdate :: "rel_env \<Rightarrow> duration \<Rightarrow> ConnectionState \<Rightarrow> ConnectionState" where
  "RackUpdate env tx_time cs =
     (if \<not> enable_rack (cfg env) then cs
      else if \<not> rack_use_t1 (cfg env) \<and>
              now env - tx_time < FromFalconTimeUnits env (rtt_state cs) then cs
      else if tx_time > rack_xmit_ts cs
      then cs\<lparr>rack_xmit_ts := tx_time,
              rack_rto := now env - tx_time + CalculateRackWindow env cs\<rparr>
      else cs)"

section \<open>Acknowledging a packet\<close>

definition DequeuePacketFromRetxScheduler ::
    "rel_env \<Rightarrow> u32 \<Rightarrow> PacketType \<Rightarrow> ConnectionState \<Rightarrow> ConnectionState option" where
  "DequeuePacketFromRetxScheduler env rsn type cs = emit_checked env (RetxDequeue rsn type) cs"

definition AccumulateNumAcked :: "ConnectionState \<Rightarrow> ConnectionState" where
  "AccumulateNumAcked cs = cs\<lparr>num_acked := num_acked cs + 1\<rparr>"

text \<open>Removing the packet from the outstanding set, or from the retransmission scheduler.\<close>

definition stop_retransmission ::
    "rel_env \<Rightarrow> WindowType \<Rightarrow> u32 \<Rightarrow> u32 \<Rightarrow> PacketType \<Rightarrow> ConnectionState \<Rightarrow>
     ConnectionState option" where
  "stop_retransmission env t rsn psn type cs = do {
     let w = tx_window t cs;
     let (erased, ws) = bs_erase work_less \<lparr>rwd_rsn = rsn, rwd_psn = psn, rwd_type = type\<rparr>
                          (outstanding_packets w);
     let cs = put_tx_window t (w\<lparr>outstanding_packets := ws\<rparr>) cs;
     if \<not> erased then DequeuePacketFromRetxScheduler env rsn type cs
     else do {
       p \<leftarrow> packet_of cs rsn type;
       let cs = (if (type = kPullRequest \<or> type = kPushUnsolicitedData) \<and> transmit_attempts p > 1
                 then DecrementOutstandingRetransmittedRequestCount type True cs else cs);
       Some (UpdateOutstandingCounterAfterErase cs)
     }
   }"

text \<open>
  \<open>EnqueueAckToUlp\<close> in the order of the source: the request counters, the retransmission state,
  the count of acknowledged packets and the packet's context, RACK, and the component that
  releases the packet (the reorder engine for push data, the resource manager otherwise). The
  acknowledgement of pull data ends its transaction.
\<close>

definition ack_request_counters ::
    "TransactionKey \<Rightarrow> PacketType \<Rightarrow> ConnectionState \<Rightarrow> ConnectionState option" where
  "ack_request_counters key type cs = do {
     let cs = DecrementOutstandingRequestCount type cs;
     if type = kPushSolicitedData then do {
       tr \<leftarrow> transactions cs key;
       request \<leftarrow> packets tr kPushRequest;
       Some (if transmit_attempts request > 1
             then DecrementOutstandingRetransmittedRequestCount type True cs else cs)
     } else Some cs
   }"

definition drop_context :: "WindowType \<Rightarrow> u32 \<Rightarrow> ConnectionState \<Rightarrow> ConnectionState" where
  "drop_context t psn cs = map_tx_window t
     (\<lambda>w. w\<lparr>outstanding_packet_contexts := (outstanding_packet_contexts w)(psn := None)\<rparr>) cs"

definition rack_on_ack ::
    "rel_env \<Rightarrow> u32 \<Rightarrow> PacketType \<Rightarrow> ConnectionState \<Rightarrow> ConnectionState option" where
  "rack_on_ack env rsn type cs =
     (if enable_rack (cfg env) \<and> \<not> rack_use_t1 (cfg env) then do {
        p \<leftarrow> packet_of cs rsn type;
        Some (RackUpdate env (transmission_time p) cs)
      } else Some cs)"

definition release_acked ::
    "rel_env \<Rightarrow> TransactionKey \<Rightarrow> PacketType \<Rightarrow> ConnectionState \<Rightarrow> ConnectionState option" where
  "release_acked env key type cs = do {
     cs \<leftarrow> (if type = kPushSolicitedData \<or> type = kPushUnsolicitedData
           then emit_checked env (ReorderInsert kAck (key_rsn key) 0) cs
           else emit_checked env (ReleaseResources key type) cs);
     Some (if type = kPullData
           then cs\<lparr>transactions := (transactions cs)(key := None),
                   rx := (rx cs)\<lparr>received_packet_contexts :=
                           (received_packet_contexts (rx cs))(key := None)\<rparr>\<rparr>
           else cs)
   }"

definition EnqueueAckToUlp ::
    "rel_env \<Rightarrow> WindowType \<Rightarrow> u32 \<Rightarrow> ConnectionState \<Rightarrow> ConnectionState option" where
  "EnqueueAckToUlp env t psn cs = do {
     ctx \<leftarrow> outstanding_packet_contexts (tx_window t cs) psn;
     let rsn = opc_rsn ctx;
     let type = opc_type ctx;
     key \<leftarrow> packet_key rsn type;
     (cs, samples) \<leftarrow> UpdateState_at key type NtwkAckRx (now env) cs;
     cs \<leftarrow> ack_request_counters key type (emit (LatencySamples samples) cs);
     cs \<leftarrow> stop_retransmission env t rsn psn type cs;
     cs \<leftarrow> rack_on_ack env rsn type (drop_context t psn (AccumulateNumAcked cs));
     release_acked env key type cs
   }"

section \<open>Acknowledgement by base PSN\<close>

text \<open>The loop over the positions below the acknowledged base.\<close>

fun enqueue_below ::
    "rel_env \<Rightarrow> WindowType \<Rightarrow> nat \<Rightarrow> int \<Rightarrow> ConnectionState \<Rightarrow> ConnectionState option" where
  "enqueue_below env t 0 index cs = Some cs"
| "enqueue_below env t (Suc k) index cs = do {
     v \<leftarrow> Get (tx_bitmap (tx_window t cs)) index;
     cs \<leftarrow> (if \<not> v then EnqueueAckToUlp env t (tx_base (tx_window t cs) + word_of_int index) cs
           else Some cs);
     enqueue_below env t k (index + 1) cs
   }"

definition update_oow :: "u32 \<Rightarrow> u32 \<Rightarrow> bool \<Rightarrow> TxWindow \<Rightarrow> TxWindow" where
  "update_oow ack_bpsn slack own w =
     (if SeqGEQ (ack_bpsn + slack) (tx_next w) then w\<lparr>oow_notification_received := False\<rparr>
      else if own then w\<lparr>oow_notification_received := True\<rparr>
      else w)"

text \<open>The body both \<open>HandleACK\<close> and \<open>HandlePiggybackedACK\<close> run for one window.\<close>

definition advance_tx_window ::
    "rel_env \<Rightarrow> WindowType \<Rightarrow> u32 \<Rightarrow> u32 \<Rightarrow> bool \<Rightarrow> ConnectionState \<Rightarrow> ConnectionState option"
  where
  "advance_tx_window env t ack_bpsn slack own cs =
     (if SeqGT ack_bpsn (tx_base (tx_window t cs)) then do {
        let cs = map_tx_window t (update_oow ack_bpsn slack own) cs;
        let base_psn_delta = ack_bpsn - tx_base (tx_window t cs);
        cs \<leftarrow> enqueue_below env t (unat base_psn_delta) 0 cs;
        Some (map_tx_window t
          (\<lambda>w. w\<lparr>tx_bitmap := RightShift (tx_bitmap w) (sint base_psn_delta),
                 tx_base := ack_bpsn\<rparr>) cs)
      } else Some cs)"

definition stale_bases :: "u32 \<Rightarrow> u32 \<Rightarrow> ConnectionState \<Rightarrow> bool" where
  "stale_bases rrbpsn rdbpsn cs \<longleftrightarrow>
     SeqLT rrbpsn (tx_base (tx_request_window cs)) \<or> SeqLT rdbpsn (tx_base (tx_data_window cs))"

definition HandlePiggybackedACK ::
    "rel_env \<Rightarrow> NetPacket \<Rightarrow> ConnectionState \<Rightarrow> ConnectionState option" where
  "HandlePiggybackedACK env packet cs = do {
     let (rrbpsn, rdbpsn) =
       (if packet_type packet = kNack then (nack_rrbpsn (nack_hdr packet), nack_rdbpsn (nack_hdr packet))
        else (falcon_rrbpsn packet, falcon_rdbpsn packet));
     if stale_bases rrbpsn rdbpsn cs then Some cs
     else do {
       cs \<leftarrow> advance_tx_window env kRequest rrbpsn (request_window_slack (cfg env))
              (nack_request_own (nack_hdr packet)) cs;
       cs \<leftarrow> advance_tx_window env kData rdbpsn (data_window_slack (cfg env))
              (nack_data_own (nack_hdr packet)) cs;
       cs \<leftarrow> SetupTlpTimer env cs;
       retransmit_timer env cs
     }
   }"

section \<open>Implicit acknowledgement\<close>

text \<open>
  The request or grant that an arriving packet answers: its location, type and window.
\<close>

fun implicitly_acked :: "PacketType \<Rightarrow> (TransactionLocation \<times> PacketType \<times> WindowType) option" where
  "implicitly_acked kPullData = Some (kInitiator, kPullRequest, kRequest)"
| "implicitly_acked kPushSolicitedData = Some (kTarget, kPushGrant, kData)"
| "implicitly_acked kPushGrant = Some (kInitiator, kPushRequest, kRequest)"
| "implicitly_acked _ = None"

text \<open>
  The comparison with the base is the plain one on \<open>uint32_t\<close>; the position is converted to the
  \<open>int\<close> parameter of \<open>Get\<close>. A PSN that was never assigned is uninitialised memory.
\<close>

definition HandleImplicitAck ::
    "rel_env \<Rightarrow> NetPacket \<Rightarrow> ConnectionState \<Rightarrow> ConnectionState option" where
  "HandleImplicitAck env packet cs =
     (case implicitly_acked (packet_type packet) of
        None \<Rightarrow> Some cs
      | Some (loc, type, t) \<Rightarrow> do {
          tr \<leftarrow> transactions cs (mk_key (falcon_rsn packet) loc);
          p \<leftarrow> packets tr type;
          tx_psn \<leftarrow> pm_psn p;
          let w = tx_window t cs;
          if tx_psn < tx_base w then Some cs
          else do {
            let index = sint (tx_psn - tx_base w);
            v \<leftarrow> Get (tx_bitmap w) index;
            if v then Some cs
            else do {
              cs \<leftarrow> EnqueueAckToUlp env t tx_psn cs;
              let w = tx_window t cs;
              b \<leftarrow> Set (tx_bitmap w) index True;
              let w = w\<lparr>tx_bitmap := b\<rparr>;
              let w = (if tx_psn = tx_base w
                       then w\<lparr>tx_bitmap := RightShift (tx_bitmap w) 1, tx_base := tx_base w + 1\<rparr>
                       else w);
              cs \<leftarrow> SetupTlpTimer env (put_tx_window t w cs);
              retransmit_timer env cs
            }
          }
        })"

section \<open>Assigning sequence numbers and recording packets\<close>

definition AssignPsnAndSsn ::
    "u32 \<Rightarrow> PacketType \<Rightarrow> NetPacket \<Rightarrow> ConnectionState \<Rightarrow> (NetPacket \<times> ConnectionState) option" where
  "AssignPsnAndSsn rsn type packet cs = do {
     let t = GetAppropriateTxWindow type;
     let psn = tx_next (tx_window t cs);
     let packet = packet\<lparr>falcon_psn := psn\<rparr>;
     cs \<leftarrow> update_packet rsn type (\<lambda>p. p\<lparr>pm_psn := Some psn\<rparr>) cs;
     let cs = map_tx_window t (\<lambda>w. w\<lparr>tx_next := tx_next w + 1\<rparr>) cs;
     if type = kPushRequest then do {
       let m = tx_transaction_metadata cs;
       Some (packet\<lparr>falcon_ssn := current_solicitation_sequence_number m\<rparr>,
             cs\<lparr>tx_transaction_metadata := m\<lparr>current_solicitation_sequence_number :=
                  current_solicitation_sequence_number m + 1\<rparr>\<rparr>)
     } else Some (packet, cs)
   }"

definition AddToOutstandingPackets ::
    "u32 \<Rightarrow> u32 \<Rightarrow> PacketType \<Rightarrow> ConnectionState \<Rightarrow> ConnectionState" where
  "AddToOutstandingPackets rsn psn type cs =
     map_tx_window (GetAppropriateTxWindow type)
       (\<lambda>w. w\<lparr>outstanding_packets := snd (bs_insert work_less
                 \<lparr>rwd_rsn = rsn, rwd_psn = psn, rwd_type = type\<rparr> (outstanding_packets w)),
              outstanding_packet_contexts := (outstanding_packet_contexts w)
                 (psn \<mapsto> \<lparr>opc_rsn = rsn, opc_type = type\<rparr>)\<rparr>) cs"

section \<open>Frames\<close>

text \<open>
  \<open>ack_calls\<close> keeps of the log the calls that tell another component of an acknowledged packet;
  \<open>win_view\<close> is what the acknowledgement logic reads of a window. The counters, timers and RACK
  leave both alone.
\<close>

fun is_ack_call :: "call \<Rightarrow> bool" where
  "is_ack_call (ReorderInsert type rsn ssn) = True"
| "is_ack_call (ReleaseResources key type) = True"
| "is_ack_call _ = False"

definition ack_calls :: "ConnectionState \<Rightarrow> call list" where
  "ack_calls cs = filter is_ack_call (calls cs)"

definition win_view ::
    "TxWindow \<Rightarrow> u32 \<times> u32 \<times> FalconBitmap \<times> (u32 \<rightharpoonup> OutstandingPacketContext)" where
  "win_view w = (tx_base w, tx_next w, tx_bitmap w, outstanding_packet_contexts w)"

definition core where
  "core cs = (transactions cs, num_acked cs, ack_calls cs,
     win_view (tx_request_window cs), win_view (tx_data_window cs))"

lemma core_map_tx_window [simp, frame_simps]:
  "(\<And>w. win_view (f w) = win_view w) \<Longrightarrow> core (map_tx_window t f cs) = core cs"
  by (cases t) (simp_all add: core_def map_tx_window_def ack_calls_def put_tx_window_def
      tx_window_def)

lemma core_counters [simp, frame_simps]:
  "core (DecrementOutstandingRequestCount type cs) = core cs"
  "core (IncrementOutstandingRequestCount type cs) = core cs"
  "core (IncrementOutstandingRetransmittedRequestCount type cs) = core cs"
  "core (DecrementOutstandingRetransmittedRequestCount type b cs) = core cs"
  "core (UpdateOutstandingCounterAfterErase cs) = core cs"
  "core (RackUpdate env d cs) = core cs"
  "core (cs\<lparr>prng_draws := k\<rparr>) = core cs"
  by (simp_all add: DecrementOutstandingRequestCount_def IncrementOutstandingRequestCount_def
      IncrementOutstandingRetransmittedRequestCount_def UpdateOutstandingCounterAfterErase_def
      DecrementOutstandingRetransmittedRequestCount_def RackUpdate_def Let_def win_view_def)
     (simp_all add: core_def ack_calls_def)

lemma core_emit [simp, frame_simps]: "\<not> is_ack_call c \<Longrightarrow> core (emit c cs) = core cs"
  by (simp add: core_def ack_calls_def) (simp add: emit_def)

lemma core_sel:
  "core cs = core cs' \<Longrightarrow> transactions cs = transactions cs'"
  "core cs = core cs' \<Longrightarrow> num_acked cs = num_acked cs'"
  "core cs = core cs' \<Longrightarrow> ack_calls cs = ack_calls cs'"
  "core cs = core cs' \<Longrightarrow> win_view (tx_window t cs) = win_view (tx_window t cs')"
  by (simp_all add: core_def tx_window_def)

lemma win_view_sel:
  "win_view w = win_view w' \<Longrightarrow> tx_base w = tx_base w'"
  "win_view w = win_view w' \<Longrightarrow> tx_next w = tx_next w'"
  "win_view w = win_view w' \<Longrightarrow> tx_bitmap w = tx_bitmap w'"
  "win_view w = win_view w' \<Longrightarrow> outstanding_packet_contexts w = outstanding_packet_contexts w'"
  by (simp_all add: win_view_def)

lemma UpdateState_ack_packets:
  "UpdateState type NtwkAckRx d tr = Some (tr', s) \<Longrightarrow> packets tr' = packets tr"
  by (cases type) (auto simp: UpdateState_def goto_def ack_only_def Let_def split: if_splits)

lemma stop_retransmission_core:
  assumes "packet_of cs rsn type = Some p" "\<forall>c. env_ok env c"
  shows "\<exists>cs'. stop_retransmission env t rsn psn type cs = Some cs' \<and> core cs' = core cs"
proof -
  obtain erased ws where e: "bs_erase work_less \<lparr>rwd_rsn = rsn, rwd_psn = psn, rwd_type = type\<rparr>
      (outstanding_packets (tx_window t cs)) = (erased, ws)"
    by fastforce
  let ?cs = "put_tx_window t ((tx_window t cs)\<lparr>outstanding_packets := ws\<rparr>) cs"
  have c: "core ?cs = core cs"
    using core_map_tx_window [of "\<lambda>w. w\<lparr>outstanding_packets := ws\<rparr>" t cs]
    by (simp add: map_tx_window_def win_view_def)
  have p: "packet_of ?cs rsn type = Some p"
    using assms(1) by (simp add: packet_of_def)
  show ?thesis
    using assms(2) c p
    by (simp add: stop_retransmission_def e DequeuePacketFromRetxScheduler_def emit_checked_def Let_def)
qed

definition ack_call :: "TransactionKey \<Rightarrow> PacketType \<Rightarrow> call" where
  "ack_call key type = (if type = kPushSolicitedData \<or> type = kPushUnsolicitedData
     then ReorderInsert kAck (key_rsn key) 0 else ReleaseResources key type)"

text \<open>An outstanding packet whose acknowledgement the state machine accepts.\<close>

definition ackable :: "(TransactionKey \<rightharpoonup> TransactionMetadata) \<Rightarrow> OutstandingPacketContext \<Rightarrow> bool" where
  "ackable trs ctx \<longleftrightarrow> (\<exists>key tr. packet_key (opc_rsn ctx) (opc_type ctx) = Some key \<and>
     trs key = Some tr \<and> packets tr (opc_type ctx) \<noteq> None \<and>
     (opc_type ctx = kPushSolicitedData \<longrightarrow> packets tr kPushRequest \<noteq> None) \<and>
     (\<forall>d. UpdateState (opc_type ctx) NtwkAckRx d tr \<noteq> None))"

lemma packet_key_rsn: "packet_key rsn type = Some key \<Longrightarrow> key_rsn key = rsn"
  by (auto simp: packet_key_def mk_key_def bind_eq_Some_conv)

lemma ack_request_counters_core:
  assumes "transactions cs key = Some tr" "type = kPushSolicitedData \<longrightarrow> packets tr kPushRequest \<noteq> None"
  shows "\<exists>cs'. ack_request_counters key type cs = Some cs' \<and> core cs' = core cs"
proof -
  have "transactions (DecrementOutstandingRequestCount type cs) key = Some tr"
    using assms(1) core_sel(1) [OF core_counters(1)] by simp
  then show ?thesis
    using assms(2) by (cases "type = kPushSolicitedData") (auto simp: ack_request_counters_def Let_def)
qed

lemma rack_on_ack_core:
  "packet_of cs rsn type = Some p \<Longrightarrow> \<exists>cs'. rack_on_ack env rsn type cs = Some cs' \<and> core cs' = core cs"
  by (simp add: rack_on_ack_def)

lemma release_acked_spec:
  assumes "\<forall>c. env_ok env c"
  shows "\<exists>cs'. release_acked env key type cs = Some cs' \<and> (\<forall>u. tx_window u cs' = tx_window u cs)
    \<and> (\<forall>k. k \<noteq> key \<longrightarrow> transactions cs' k = transactions cs k) \<and> num_acked cs' = num_acked cs
    \<and> ack_calls cs' = ack_calls cs @ [ack_call key type]"
  using assms
  by (simp add: release_acked_def emit_checked_def ack_calls_def ack_call_def)
     (simp add: emit_def tx_window_def)

lemma EnqueueAckToUlp_spec:
  assumes ctx: "outstanding_packet_contexts (tx_window t cs) psn = Some ctx"
    and key: "packet_key (opc_rsn ctx) (opc_type ctx) = Some key"
    and ok: "ackable (transactions cs) ctx" "\<forall>c. env_ok env c"
  shows "\<exists>cs'. EnqueueAckToUlp env t psn cs = Some cs'
    \<and> win_view (tx_window t cs') = win_view ((tx_window t cs)
         \<lparr>outstanding_packet_contexts := (outstanding_packet_contexts (tx_window t cs))(psn := None)\<rparr>)
    \<and> (\<forall>u. u \<noteq> t \<longrightarrow> win_view (tx_window u cs') = win_view (tx_window u cs))
    \<and> (\<forall>k. k \<noteq> key \<longrightarrow> transactions cs' k = transactions cs k)
    \<and> num_acked cs' = num_acked cs + 1
    \<and> ack_calls cs' = ack_calls cs @ [ack_call key (opc_type ctx)]"
proof -
  let ?type = "opc_type ctx" and ?rsn = "opc_rsn ctx"
  obtain tr p where tr: "transactions cs key = Some tr" "packets tr ?type = Some p"
      "?type = kPushSolicitedData \<longrightarrow> packets tr kPushRequest \<noteq> None"
      "UpdateState ?type NtwkAckRx (now env) tr \<noteq> None"
    using ok(1) key by (auto simp: ackable_def)
  then obtain tr' samples where upd: "UpdateState ?type NtwkAckRx (now env) tr = Some (tr', samples)"
    by auto
  have pk: "packets tr' = packets tr" using UpdateState_ack_packets [OF upd] .
  let ?cs1 = "emit (LatencySamples samples) (cs\<lparr>transactions := (transactions cs)(key \<mapsto> tr')\<rparr>)"
  obtain cs2 where cs2: "ack_request_counters key ?type ?cs1 = Some cs2" "core cs2 = core ?cs1"
    using ack_request_counters_core [of ?cs1 key tr' ?type] tr(3) pk by auto
  have p2: "packet_of cs2 ?rsn ?type = Some p"
    using core_sel(1) [OF cs2(2)] tr(2) pk key by (simp add: packet_of_def)
  obtain cs3 where cs3: "stop_retransmission env t ?rsn psn ?type cs2 = Some cs3" "core cs3 = core cs2"
    using stop_retransmission_core [OF p2 ok(2)] by blast
  let ?cs4 = "drop_context t psn (AccumulateNumAcked cs3)"
  have t4: "transactions ?cs4 = transactions ?cs1"
    using core_sel(1) [OF cs3(2)] core_sel(1) [OF cs2(2)]
    by (simp add: drop_context_def map_tx_window_def AccumulateNumAcked_def)
  then have p4: "packet_of ?cs4 ?rsn ?type = Some p" using tr(2) pk key by (simp add: packet_of_def)
  obtain cs5 where cs5: "rack_on_ack env ?rsn ?type ?cs4 = Some cs5" "core cs5 = core ?cs4"
    using rack_on_ack_core [OF p4] by blast
  obtain cs6 where cs6: "release_acked env key ?type cs5 = Some cs6"
      "\<forall>u. tx_window u cs6 = tx_window u cs5" "\<forall>k. k \<noteq> key \<longrightarrow> transactions cs6 k = transactions cs5 k"
      "num_acked cs6 = num_acked cs5" "ack_calls cs6 = ack_calls cs5 @ [ack_call key ?type]"
    using release_acked_spec [OF ok(2)] by blast
  have run: "EnqueueAckToUlp env t psn cs = Some cs6"
    using ctx key tr(1) upd cs2(1) cs3(1) cs5(1) cs6(1)
    by (simp add: EnqueueAckToUlp_def UpdateState_at_def)
  have c3: "core cs3 = core ?cs1" using cs2(2) cs3(2) by simp
  have "win_view (tx_window u ?cs4) = (if u = t then win_view ((tx_window t cs)
         \<lparr>outstanding_packet_contexts := (outstanding_packet_contexts (tx_window t cs))(psn := None)\<rparr>)
       else win_view (tx_window u cs))" for u
    using core_sel(4) [OF c3, of t] core_sel(4) [OF c3, of u]
    by (auto simp: drop_context_def map_tx_window_def AccumulateNumAcked_def win_view_def)
       (auto simp: tx_window_def)
  moreover have "num_acked ?cs4 = num_acked cs + 1" "ack_calls ?cs4 = ack_calls cs"
    using core_sel(2,3) [OF c3] by (auto simp: drop_context_def map_tx_window_def ack_calls_def
        AccumulateNumAcked_def put_tx_window_def emit_def)
  ultimately show ?thesis
    using run core_sel [OF cs5(2)] t4 cs6(2-) by (auto simp: fun_eq_iff)
qed

section \<open>Well-formed transmit windows\<close>

text \<open>
  The PSNs from the base up to the next one are in flight, at most a window of them; a context
  exists for exactly those of them whose bit is clear, and no bit is set beyond.
\<close>

definition in_flight :: "TxWindow \<Rightarrow> int" where
  "in_flight w = uint (tx_next w - tx_base w)"

definition tx_inv :: "TxWindow \<Rightarrow> bool" where
  "tx_inv w \<longleftrightarrow> bitmap_wf (tx_bitmap w) \<and> Size (tx_bitmap w) < 2 ^ 31
     \<and> in_flight w \<le> Size (tx_bitmap w)
     \<and> (\<forall>psn. outstanding_packet_contexts w psn \<noteq> None \<longleftrightarrow>
          uint (psn - tx_base w) < in_flight w \<and> \<not> bit_at (tx_bitmap w) (uint (psn - tx_base w)))
     \<and> (\<forall>i. bit_at (tx_bitmap w) i \<longrightarrow> i < in_flight w)"

text \<open>Every outstanding packet of the window can be acknowledged, and each is its own transaction.\<close>

definition tx_ready :: "(TransactionKey \<rightharpoonup> TransactionMetadata) \<Rightarrow> TxWindow \<Rightarrow> bool" where
  "tx_ready trs w \<longleftrightarrow>
     (\<forall>psn ctx. outstanding_packet_contexts w psn = Some ctx \<longrightarrow> ackable trs ctx) \<and>
     (\<forall>psn psn' ctx ctx'. outstanding_packet_contexts w psn = Some ctx \<longrightarrow>
        outstanding_packet_contexts w psn' = Some ctx' \<longrightarrow>
        packet_key (opc_rsn ctx) (opc_type ctx) = packet_key (opc_rsn ctx') (opc_type ctx') \<longrightarrow>
        psn = psn')"

text \<open>The clear positions of a bitmap from \<open>i\<close> on, and what acknowledging their packets calls.\<close>

definition clear_positions :: "FalconBitmap \<Rightarrow> nat \<Rightarrow> int \<Rightarrow> int list" where
  "clear_positions m k i = filter (\<lambda>j. \<not> bit_at m j) [i..i + int k - 1]"

definition ack_call_of :: "OutstandingPacketContext option \<Rightarrow> call" where
  "ack_call_of c = (case c of
     Some ctx \<Rightarrow> ack_call (the (packet_key (opc_rsn ctx) (opc_type ctx))) (opc_type ctx))"

lemma clear_positions_Suc:
  "clear_positions m (Suc k) i =
     (if bit_at m i then clear_positions m k (i + 1) else i # clear_positions m k (i + 1))"
  by (simp add: clear_positions_def upto_rec1 add.commute add.left_commute)

lemma set_clear_positions:
  "set (clear_positions m k i) = {j. i \<le> j \<and> j < i + int k \<and> \<not> bit_at m j}"
  by (auto simp: clear_positions_def)

lemma ackable_other_key:
  assumes "ackable trs ctx" "packet_key (opc_rsn ctx) (opc_type ctx) \<noteq> Some key"
    "\<forall>k. k \<noteq> key \<longrightarrow> trs' k = trs k"
  shows "ackable trs' ctx"
  using assms by (fastforce simp: ackable_def)

lemma base_plus_inj:
  assumes "0 \<le> i" "i < 2 ^ 32" "0 \<le> j" "j < 2 ^ 32" "(b :: u32) + word_of_int i = b + word_of_int j"
  shows "i = j"
proof -
  have "word_of_int i = (word_of_int j :: u32)" using assms(5) by simp
  then have "i mod 2 ^ 32 = j mod 2 ^ 32" by (simp add: word_of_int_eq_iff take_bit_eq_mod)
  then show ?thesis using assms(1-4) by simp
qed

lemma tx_ready_drop:
  assumes "tx_ready trs w" "outstanding_packet_contexts w psn = Some ctx"
    "packet_key (opc_rsn ctx) (opc_type ctx) = Some key" "\<forall>k. k \<noteq> key \<longrightarrow> trs' k = trs k"
    "outstanding_packet_contexts w' = (outstanding_packet_contexts w)(psn := None)"
  shows "tx_ready trs' w'"
  unfolding tx_ready_def
proof (intro conjI allI impI)
  fix q c assume q: "outstanding_packet_contexts w' q = Some c"
  then have q': "outstanding_packet_contexts w q = Some c" "q \<noteq> psn"
    using assms(5) by (auto split: if_splits)
  then have "packet_key (opc_rsn c) (opc_type c) \<noteq> Some key"
    using assms(1-3) unfolding tx_ready_def by metis
  moreover have "ackable trs c" using assms(1) q'(1) unfolding tx_ready_def by blast
  ultimately show "ackable trs' c" using ackable_other_key assms(4) by blast
next
  fix q q' c c'
  assume "outstanding_packet_contexts w' q = Some c" "outstanding_packet_contexts w' q' = Some c'"
    "packet_key (opc_rsn c) (opc_type c) = packet_key (opc_rsn c') (opc_type c')"
  then show "q = q'" using assms(1,5) unfolding tx_ready_def by (metis fun_upd_apply option.distinct(1))
qed

abbreviation psn_at :: "u32 \<Rightarrow> int \<Rightarrow> u32" where
  "psn_at b j \<equiv> b + word_of_int j"

lemma enqueue_below_spec:
  assumes "bitmap_wf m" "\<forall>c. env_ok env c" "0 \<le> i" "i + int k \<le> Size m" "Size m < 2 ^ 31"
    and "win_view (tx_window t cs) = (b, nx, m, ctxs)"
    and "\<forall>j \<in> set (clear_positions m k i). ctxs (psn_at b j) \<noteq> None"
    and "tx_ready (transactions cs) (tx_window t cs)"
  shows "\<exists>cs'. enqueue_below env t k i cs = Some cs'
    \<and> win_view (tx_window t cs') = (b, nx, m,
         \<lambda>psn. if psn \<in> psn_at b ` set (clear_positions m k i) then None else ctxs psn)
    \<and> (\<forall>u. u \<noteq> t \<longrightarrow> win_view (tx_window u cs') = win_view (tx_window u cs))
    \<and> num_acked cs' = num_acked cs + word_of_nat (length (clear_positions m k i))
    \<and> ack_calls cs' = ack_calls cs
        @ map (\<lambda>j. ack_call_of (ctxs (psn_at b j))) (clear_positions m k i)
    \<and> tx_ready (transactions cs') (tx_window t cs')"
  using assms(3-)
proof (induction k arbitrary: i cs ctxs)
  case 0
  then show ?case by (auto simp: clear_positions_def fun_eq_iff)
next
  case (Suc k)
  note wv = Suc.prems(4) [unfolded win_view_def, simplified]
  have get: "Get (tx_bitmap (tx_window t cs)) i = Some (bit_at m i)"
    using bm.get_view [OF assms(1), of i] Suc.prems(1,2) wv by simp
  have bounds: "0 \<le> i + 1" "i + 1 + int k \<le> Size m" using Suc.prems(1,2) by simp_all
  show ?case
  proof (cases "bit_at m i")
    case True
    then show ?thesis
      using Suc.IH [OF bounds Suc.prems(3,4) _ Suc.prems(6)] Suc.prems(5) get
      by (simp add: clear_positions_Suc)
  next
    case False
    let ?psn = "psn_at b i" and ?w = "tx_window t cs" and ?cl = "clear_positions m k (i + 1)"
    obtain ctx where ctx: "ctxs ?psn = Some ctx" using Suc.prems(5) False by (auto simp: clear_positions_Suc)
    have ack: "ackable (transactions cs) ctx" using Suc.prems(6) ctx wv unfolding tx_ready_def by metis
    then obtain key where key: "packet_key (opc_rsn ctx) (opc_type ctx) = Some key"
      by (auto simp: ackable_def)
    have c: "outstanding_packet_contexts ?w ?psn = Some ctx" using ctx wv by simp
    from EnqueueAckToUlp_spec [OF c key ack assms(2)] obtain cs1 where
      cs1: "EnqueueAckToUlp env t ?psn cs = Some cs1"
        "win_view (tx_window t cs1) = win_view (?w\<lparr>outstanding_packet_contexts :=
           (outstanding_packet_contexts ?w)(?psn := None)\<rparr>)"
        "\<forall>u. u \<noteq> t \<longrightarrow> win_view (tx_window u cs1) = win_view (tx_window u cs)"
        "\<forall>k. k \<noteq> key \<longrightarrow> transactions cs1 k = transactions cs k"
        "num_acked cs1 = num_acked cs + 1"
        "ack_calls cs1 = ack_calls cs @ [ack_call key (opc_type ctx)]"
      by blast
    have view1: "win_view (tx_window t cs1) = (b, nx, m, ctxs(?psn := None))"
      using cs1(2) wv by (simp add: win_view_def)
    then have ready1: "tx_ready (transactions cs1) (tx_window t cs1)"
      using tx_ready_drop [OF Suc.prems(6) c key cs1(4), of "tx_window t cs1"] wv
      by (simp add: win_view_def)
    have other: "psn_at b j \<noteq> ?psn" if "j \<in> set ?cl" for j
      using base_plus_inj [of j i b] that Suc.prems(1-3) by (auto simp: set_clear_positions)
    have pre: "\<forall>j \<in> set ?cl. (ctxs(?psn := None)) (psn_at b j) \<noteq> None"
      using Suc.prems(5) other False by (auto simp: clear_positions_Suc)
    have calls: "map (\<lambda>j. ack_call_of ((ctxs(?psn := None)) (psn_at b j))) ?cl
        = map (\<lambda>j. ack_call_of (ctxs (psn_at b j))) ?cl"
      using other by simp
    have first: "ack_call_of (ctxs ?psn) = ack_call key (opc_type ctx)"
      by (simp add: ctx ack_call_of_def key)
    obtain cs2 where cs2: "enqueue_below env t k (i + 1) cs1 = Some cs2"
        "win_view (tx_window t cs2) = (b, nx, m, \<lambda>psn. if psn \<in> psn_at b ` set ?cl then None
           else (ctxs(?psn := None)) psn)"
        "\<forall>u. u \<noteq> t \<longrightarrow> win_view (tx_window u cs2) = win_view (tx_window u cs1)"
        "num_acked cs2 = num_acked cs1 + word_of_nat (length ?cl)"
        "ack_calls cs2 = ack_calls cs1 @ map (\<lambda>j. ack_call_of (ctxs (psn_at b j))) ?cl"
        "tx_ready (transactions cs2) (tx_window t cs2)"
      using Suc.IH [OF bounds Suc.prems(3) view1 pre ready1] unfolding calls by blast
    have "enqueue_below env t (Suc k) i cs = Some cs2"
      using get False cs1(1) cs2(1) wv by simp
    moreover have "(\<lambda>psn. if psn \<in> psn_at b ` set ?cl then None else (ctxs(?psn := None)) psn)
        = (\<lambda>psn. if psn \<in> psn_at b ` set (clear_positions m (Suc k) i) then None else ctxs psn)"
      using False by (auto simp: clear_positions_Suc fun_eq_iff)
    ultimately show ?thesis
      using cs2 cs1(3,5,6) False first by (simp add: clear_positions_Suc)
  qed
qed

lemma uint_sub_shift:
  assumes "0 \<le> d" "d < 2 ^ 32"
  shows "uint ((p :: u32) - (b + word_of_int d)) =
    (if d \<le> uint (p - b) then uint (p - b) - d else uint (p - b) - d + 2 ^ 32)"
proof -
  have "p - (b + word_of_int d) = word_of_int (uint (p - b) - d)" by (simp add: algebra_simps)
  then have "uint (p - (b + word_of_int d)) = (uint (p - b) - d) mod 2 ^ 32"
    by (simp only: uint_word_of_int) simp
  moreover have "(uint (p - b) - d) mod 2 ^ 32 = uint (p - b) - d" if "d \<le> uint (p - b)"
    using that assms uint_lt2p [of "p - b"] by (intro mod_pos_pos_trivial) auto
  moreover have "(uint (p - b) - d) mod 2 ^ 32 = uint (p - b) - d + 2 ^ 32" if "\<not> d \<le> uint (p - b)"
  proof -
    have "(uint (p - b) - d + 2 ^ 32) mod 2 ^ 32 = uint (p - b) - d + 2 ^ 32"
      using that assms uint_ge_0 [of "p - b"] by (intro mod_pos_pos_trivial) linarith+
    then show ?thesis by simp
  qed
  ultimately show ?thesis by auto
qed

lemma mem_psn_at_clear:
  assumes "0 \<le> d" "d < 2 ^ 32"
  shows "psn \<in> psn_at b ` set (clear_positions m (nat d) 0) \<longleftrightarrow>
    uint (psn - b) < d \<and> \<not> bit_at m (uint (psn - b))"
proof
  assume "psn \<in> psn_at b ` set (clear_positions m (nat d) 0)"
  then obtain j where j: "0 \<le> j" "j < d" "\<not> bit_at m j" "psn = psn_at b j"
    using assms by (auto simp: set_clear_positions)
  then have "uint (psn - b) = j" using assms by (simp add: uint_word_of_int)
  then show "uint (psn - b) < d \<and> \<not> bit_at m (uint (psn - b))" using j by simp
next
  assume "uint (psn - b) < d \<and> \<not> bit_at m (uint (psn - b))"
  then show "psn \<in> psn_at b ` set (clear_positions m (nat d) 0)"
    using assms by (intro image_eqI [of _ _ "uint (psn - b)"]) (auto simp: set_clear_positions)
qed

lemma tx_inv_shift:
  assumes inv: "tx_inv w" and d: "0 \<le> d" "d \<le> in_flight w"
    and w': "tx_base w' = tx_base w + word_of_int d" "tx_next w' = tx_next w"
      "tx_bitmap w' = RightShift (tx_bitmap w) d"
      "\<And>psn. outstanding_packet_contexts w' psn =
        (if uint (psn - tx_base w) < d then None else outstanding_packet_contexts w psn)"
  shows "tx_inv w'"
proof -
  have sz: "in_flight w \<le> Size (tx_bitmap w)" "Size (tx_bitmap w) < 2 ^ 31" "d < 2 ^ 32"
    using inv d by (auto simp: tx_inv_def)
  note sh = uint_sub_shift [OF d(1) sz(3)]
  have fl: "in_flight w' = in_flight w - d"
    using d(2) by (simp add: in_flight_def w' sh)
  have "outstanding_packet_contexts w' psn \<noteq> None \<longleftrightarrow>
          uint (psn - tx_base w') < in_flight w' \<and> \<not> bit_at (tx_bitmap w') (uint (psn - tx_base w'))"
    for psn
  proof (cases "d \<le> uint (psn - tx_base w)")
    case True
    then show ?thesis
      using inv d(1) fl by (simp add: w' sh tx_inv_def bit_at_RightShift)
  next
    case False
    then have "\<not> uint (psn - tx_base w') < in_flight w'"
      using fl sz by (simp add: w' sh) (use uint_ge_0 [of "psn - tx_base w"] in linarith)
    then show ?thesis using False by (simp add: w'(4))
  qed
  moreover have "i < in_flight w'" if "bit_at (tx_bitmap w') i" for i
    using that inv d(1) fl by (fastforce simp: w' tx_inv_def bit_at_RightShift)
  ultimately show ?thesis using inv fl d(1) sz unfolding tx_inv_def w' by simp
qed

lemma tx_inv_view: "win_view w = win_view w' \<Longrightarrow> tx_inv w = tx_inv w'"
  by (simp add: tx_inv_def win_view_def in_flight_def)

lemma tx_ready_view: "win_view w = win_view w' \<Longrightarrow> tx_ready trs w = tx_ready trs w'"
  by (simp add: tx_ready_def win_view_def)

lemma advance_tx_window_spec:
  assumes inv: "tx_inv (tx_window t cs)" and ready: "tx_ready (transactions cs) (tx_window t cs)"
    and ok: "\<forall>c. env_ok env c"
    and d: "uint (ack - tx_base (tx_window t cs)) \<le> in_flight (tx_window t cs)"
  shows "\<exists>cs'. advance_tx_window env t ack slack own cs = Some cs'
    \<and> tx_base (tx_window t cs') = ack \<and> tx_next (tx_window t cs') = tx_next (tx_window t cs)
    \<and> tx_inv (tx_window t cs') \<and> tx_ready (transactions cs') (tx_window t cs')
    \<and> (\<forall>u. u \<noteq> t \<longrightarrow> win_view (tx_window u cs') = win_view (tx_window u cs))
    \<and> (\<forall>psn. outstanding_packet_contexts (tx_window t cs') psn =
          (if uint (psn - tx_base (tx_window t cs)) < uint (ack - tx_base (tx_window t cs)) then None
           else outstanding_packet_contexts (tx_window t cs) psn))
    \<and> ack_calls cs' = ack_calls cs
        @ map (\<lambda>j. ack_call_of (outstanding_packet_contexts (tx_window t cs)
                                  (psn_at (tx_base (tx_window t cs)) j)))
            (clear_positions (tx_bitmap (tx_window t cs)) (unat (ack - tx_base (tx_window t cs))) 0)
    \<and> num_acked cs' = num_acked cs + word_of_nat (length
        (clear_positions (tx_bitmap (tx_window t cs)) (unat (ack - tx_base (tx_window t cs))) 0))"
proof (cases "SeqGT ack (tx_base (tx_window t cs))")
  case False
  let ?w = "tx_window t cs"
  have "uint (ack - tx_base ?w) < 2 ^ 31" using d inv by (auto simp: tx_inv_def)
  then have "sint (ack - tx_base ?w) = uint (ack - tx_base ?w)"
    using sint_of_small [OF order.trans [OF _ uint_ge_0], of "ack - tx_base ?w"] by simp
  then have "uint (ack - tx_base ?w) = 0" using False uint_ge_0 [of "ack - tx_base ?w"] by (simp add: SeqGT_def)
  then have eq: "ack = tx_base ?w" by (simp add: uint_0_iff)
  then show ?thesis using inv ready False
    by (auto simp: advance_tx_window_def clear_positions_def uint_ge_0 not_less)
next
  case True
  let ?w = "tx_window t cs"
  let ?b = "tx_base ?w" and ?m = "tx_bitmap ?w" and ?d = "uint (ack - tx_base ?w)"
  let ?cs1 = "map_tx_window t (update_oow ack slack own) cs"
  have wf: "bitmap_wf ?m" "Size ?m < 2 ^ 31" "?d \<le> Size ?m" "?d < 2 ^ 31"
    using inv d by (auto simp: tx_inv_def)
  have oow: "win_view (update_oow ack slack own w) = win_view w" for w
    by (simp add: update_oow_def win_view_def)
  then have core1: "core ?cs1 = core cs" by simp
  have view1: "win_view (tx_window t ?cs1) = (?b, tx_next ?w, ?m, outstanding_packet_contexts ?w)"
    using core_sel(4) [OF core1, of t] by (simp add: win_view_def)
  have sintd: "sint (ack - ?b) = ?d"
    using True sint_nonneg_uint [of "ack - ?b"] by (simp add: SeqGT_def)
  have un: "unat (ack - ?b) = nat ?d" by simp
  have pre: "\<forall>j \<in> set (clear_positions ?m (nat ?d) 0). outstanding_packet_contexts ?w (psn_at ?b j) \<noteq> None"
  proof
    fix j assume j: "j \<in> set (clear_positions ?m (nat ?d) 0)"
    then have "uint (psn_at ?b j - ?b) = j"
      using wf(4) by (auto simp: set_clear_positions uint_word_of_int)
    then show "outstanding_packet_contexts ?w (psn_at ?b j) \<noteq> None"
      using j d inv by (auto simp: set_clear_positions tx_inv_def)
  qed
  have ready1: "tx_ready (transactions ?cs1) (tx_window t ?cs1)"
    using ready core_sel(1) [OF core1] tx_ready_view [OF core_sel(4) [OF core1]] by simp
  have k: "0 + int (nat ?d) \<le> Size ?m" using wf(3) by simp
  obtain cs2 where cs2: "enqueue_below env t (nat ?d) 0 ?cs1 = Some cs2"
      "win_view (tx_window t cs2) = (?b, tx_next ?w, ?m,
         \<lambda>psn. if psn \<in> psn_at ?b ` set (clear_positions ?m (nat ?d) 0) then None
               else outstanding_packet_contexts ?w psn)"
      "\<forall>u. u \<noteq> t \<longrightarrow> win_view (tx_window u cs2) = win_view (tx_window u ?cs1)"
      "num_acked cs2 = num_acked ?cs1 + word_of_nat (length (clear_positions ?m (nat ?d) 0))"
      "ack_calls cs2 = ack_calls ?cs1
        @ map (\<lambda>j. ack_call_of (outstanding_packet_contexts ?w (psn_at ?b j)))
            (clear_positions ?m (nat ?d) 0)"
      "tx_ready (transactions cs2) (tx_window t cs2)"
    using enqueue_below_spec [OF wf(1) ok order.refl k wf(2) view1 pre ready1] by blast
  let ?f = "\<lambda>w. w\<lparr>tx_bitmap := RightShift (tx_bitmap w) ?d, tx_base := ack\<rparr>"
  have run: "advance_tx_window env t ack slack own cs = Some (map_tx_window t ?f cs2)"
    using True cs2(1) core_sel(4) [OF core1, of t]
    by (simp add: advance_tx_window_def win_view_def sintd)
  note v2 = cs2(2) [unfolded win_view_def, simplified]
  have ctx2: "outstanding_packet_contexts (tx_window t cs2) psn =
      (if uint (psn - ?b) < ?d then None else outstanding_packet_contexts ?w psn)" for psn
    using v2 inv wf(4) mem_psn_at_clear [of ?d psn ?b ?m] uint_ge_0 [of "ack - ?b"]
    by (auto simp: tx_inv_def)
  have "tx_inv (?f (tx_window t cs2))"
    by (rule tx_inv_shift [OF inv, of ?d]) (use d v2 ctx2 in simp_all)
  moreover have "tx_ready (transactions cs2) (?f (tx_window t cs2))"
    using cs2(6) by (simp add: tx_ready_def)
  moreover have put: "tx_window u (map_tx_window t ?f cs2) = (if t = u then ?f (tx_window t cs2)
      else tx_window u cs2)" "transactions (map_tx_window t ?f cs2) = transactions cs2"
      "ack_calls (map_tx_window t ?f cs2) = ack_calls cs2" "num_acked (map_tx_window t ?f cs2) = num_acked cs2" for u
    by (simp_all add: map_tx_window_def ack_calls_def) (simp_all add: put_tx_window_def)
  moreover note core_sel(2-4) [OF core1]
  ultimately show ?thesis
    using run cs2(3-5) v2 ctx2 unfolding un by simp
qed

lemma in_flight_next:
  assumes "in_flight w < 2 ^ 31"
  shows "uint (tx_next w + 1 - tx_base w) = in_flight w + 1"
proof -
  have "tx_next w + 1 - tx_base w = word_of_int (in_flight w + 1)"
    by (simp add: in_flight_def algebra_simps)
  then show ?thesis using assms uint_ge_0 [of "tx_next w - tx_base w"]
    by (simp only: uint_word_of_int) (simp add: in_flight_def)
qed

lemma tx_inv_send:
  assumes inv: "tx_inv w" and room: "in_flight w < Size (tx_bitmap w)"
    and w': "tx_base w' = tx_base w" "tx_next w' = tx_next w + 1" "tx_bitmap w' = tx_bitmap w"
      "outstanding_packet_contexts w' = (outstanding_packet_contexts w)(tx_next w \<mapsto> c)"
  shows "tx_inv w' \<and> in_flight w' = in_flight w + 1"
proof -
  have fl: "in_flight w' = in_flight w + 1"
    using in_flight_next [of w] inv room by (simp add: in_flight_def w' tx_inv_def)
  have "outstanding_packet_contexts w' psn \<noteq> None \<longleftrightarrow>
      uint (psn - tx_base w) < in_flight w + 1 \<and> \<not> bit_at (tx_bitmap w) (uint (psn - tx_base w))" for psn
  proof (cases "psn = tx_next w")
    case True
    then show ?thesis using inv by (auto simp: w' tx_inv_def in_flight_def)
  next
    case False
    then have "uint (psn - tx_base w) \<noteq> in_flight w"
      unfolding in_flight_def by (metis diff_add_cancel word_uint_eqI)
    then show ?thesis using inv False by (auto simp: w' tx_inv_def)
  qed
  then show ?thesis using inv room fl by (auto simp: tx_inv_def w')
qed

lemma rounded_fcwnd_pos: "0 < uint (rounded_fcwnd f)"
proof (cases "uint f > 2 ^ kFractionalBits")
  case True
  then have "uint f div 1024 \<ge> 1" by (simp add: kFractionalBits_def)
  then show ?thesis using True
    by (simp add: rounded_fcwnd_def kFractionalBits_def drop_bit_eq_div uint_div)
qed (simp add: rounded_fcwnd_def)

text \<open>The open congestion window is what is left of the window after the packets in flight.\<close>

lemma GetOpenFcwnd_room:
  assumes inv: "tx_inv (tx_window (GetAppropriateTxWindow type) cs)"
    and g: "GetOpenFcwnd type cs = Some n"
  shows "uint n = max 0 (uint (rounded_fcwnd (fabric_congestion_window cs))
           - in_flight (tx_window (GetAppropriateTxWindow type) cs))
    \<and> uint (rounded_fcwnd (fabric_congestion_window cs))
        \<le> Size (tx_bitmap (tx_window (GetAppropriateTxWindow type) cs))"
proof -
  let ?w = "tx_window (GetAppropriateTxWindow type) cs" and ?f = "rounded_fcwnd (fabric_congestion_window cs)"
  have sz: "uint ?f \<le> Size (tx_bitmap ?w)" "Size (tx_bitmap ?w) < 2 ^ 31"
      "in_flight ?w \<le> Size (tx_bitmap ?w)" "0 \<le> in_flight ?w"
    using g inv by (auto simp: GetOpenFcwnd_def Let_def tx_inv_def in_flight_def split: if_splits)
  have "tx_next ?w - (tx_base ?w + ?f) = word_of_int (in_flight ?w - uint ?f)"
    by (simp add: in_flight_def algebra_simps)
  moreover have "- (2 ^ 31) \<le> in_flight ?w - uint ?f" "in_flight ?w - uint ?f < 2 ^ 31"
    using sz uint_ge_0 [of ?f] by linarith+
  ultimately have "sint (tx_next ?w - (tx_base ?w + ?f)) = in_flight ?w - uint ?f"
    by (simp only: sint_of_small)
  then have lt: "SeqLT (tx_next ?w) (tx_base ?w + ?f) \<longleftrightarrow> in_flight ?w < uint ?f"
    by (simp add: SeqLT_def)
  have "tx_base ?w + ?f - tx_next ?w = word_of_int (uint ?f - in_flight ?w)"
    by (simp add: in_flight_def algebra_simps)
  then have "uint (tx_base ?w + ?f - tx_next ?w) = uint ?f - in_flight ?w" if "in_flight ?w < uint ?f"
    using that sz by (simp only: uint_word_of_int) simp
  then show ?thesis using g lt sz(1) by (auto simp: GetOpenFcwnd_def Let_def split: if_splits)
qed

lemma core_timer_fields [simp, frame_simps]:
  "core (cs\<lparr>tlp_pto := d\<rparr>) = core cs"
  "core (cs\<lparr>rto_expiration_base_time := d\<rparr>) = core cs"
  "core (cs\<lparr>rto_expiration_jitter := d\<rparr>) = core cs"
  by (simp_all add: core_def ack_calls_def)

lemma core_SetupTlpTimer: "SetupTlpTimer env cs = Some cs' \<Longrightarrow> core cs' = core cs"
  by (auto simp: SetupTlpTimer_def emit_checked_def Let_def split: if_splits)

lemma core_arm [simp, frame_simps]: "core (snd (arm_retransmit_timer env b d cs)) = core cs"
  by (simp add: arm_retransmit_timer_def Let_def)

lemma core_GetJitter [simp, frame_simps]: "core (snd (GetJitter env cs)) = core cs"
  by (simp add: GetJitter_def Let_def)

lemma core_SetupRetransmitTimer:
  assumes "SetupRetransmitTimer env cs = Some (st, cs')"
  shows "core cs' = core cs"
proof -
  obtain b where "arm_retransmit_timer env b (fst (GetJitter env cs)) (snd (GetJitter env cs)) = (st, cs')"
    using assms by (auto simp: SetupRetransmitTimer_def bind_eq_Some_conv split: prod.splits)
  then have "core cs' = core (snd (GetJitter env cs))" by (metis core_arm snd_conv)
  then show ?thesis by simp
qed

lemma core_retransmit_timer: "retransmit_timer env cs = Some cs' \<Longrightarrow> core cs' = core cs"
  using core_SetupRetransmitTimer
  by (auto simp: retransmit_timer_def bind_eq_Some_conv split: if_splits)

lemma tx_inv_mark:
  assumes inv: "tx_inv w" and i: "i = uint (psn - tx_base w)" "i < in_flight w"
    and w': "tx_base w' = tx_base w" "tx_next w' = tx_next w" "bitmap_wf (tx_bitmap w')"
      "Size (tx_bitmap w') = Size (tx_bitmap w)" "bit_at (tx_bitmap w') = (bit_at (tx_bitmap w))(i := True)"
      "outstanding_packet_contexts w' = (outstanding_packet_contexts w)(psn := None)"
  shows "tx_inv w'"
proof -
  have "uint (q - tx_base w) = i \<longleftrightarrow> q = psn" for q
    using i(1) by (metis diff_add_cancel word_uint_eqI)
  then show ?thesis using inv i(2) by (auto simp: tx_inv_def w' in_flight_def)
qed

section \<open>A concrete connection\<close>

text \<open>
  A connection with a window of four packets and one pull transaction, and the same after its
  request was sent with PSN 0.
\<close>

definition pull_transaction :: "u32 option \<Rightarrow> TransactionMetadata" where
  "pull_transaction psn = (new_TransactionMetadata 0 kPull kInitiator)
     \<lparr>packets := [kPullRequest \<mapsto> (new_PacketMetadata kPullRequest kOutgoing None True)\<lparr>pm_psn := psn\<rparr>]\<rparr>"

definition ready_example :: ConnectionState where
  "ready_example = example_connection\<lparr>fabric_congestion_window := 4096, nic_congestion_window := 4,
     transactions := [mk_key 0 kInitiator \<mapsto> pull_transaction None]\<rparr>"

definition sent_window :: TxWindow where
  "sent_window = (tx_request_window example_connection)\<lparr>tx_next := 1,
     outstanding_packets := [\<lparr>rwd_rsn = 0, rwd_psn = 0, rwd_type = kPullRequest\<rparr>],
     outstanding_packet_contexts := [0 \<mapsto> \<lparr>opc_rsn = 0, opc_type = kPullRequest\<rparr>]\<rparr>"

definition sent_example :: ConnectionState where
  "sent_example = ready_example\<lparr>tx_request_window := sent_window,
     transactions := [mk_key 0 kInitiator \<mapsto> pull_transaction (Some 0)]\<rparr>"

lemma example_request_window: "tx_request_window example_connection =
    \<lparr>tx_type = kRequest, tx_base = 0, tx_next = 0, outstanding_requests_counter = 0,
     outstanding_retransmission_requests_counter = 0, oow_notification_received = False,
     tx_bitmap = FalconBitmap_new 1024 1024, outstanding_packets = [],
     outstanding_packet_contexts = Map.empty\<rparr>"
  by (simp add: example_simps kTxBitmapWidth_def)

lemma tx_inv_ready: "tx_inv (tx_window kRequest ready_example)"
  by (simp add: ready_example_def tx_window_def example_request_window tx_inv_def in_flight_def)

lemma sent_example_sel:
  "tx_window kRequest sent_example = sent_window"
  "transactions sent_example = [mk_key 0 kInitiator \<mapsto> pull_transaction (Some 0)]"
  "calls sent_example = []"
  by (simp_all add: sent_example_def ready_example_def tx_window_def example_simps)

lemma sent_window_sel:
  "tx_base sent_window = 0" "tx_next sent_window = 1"
  "tx_bitmap sent_window = FalconBitmap_new 1024 1024"
  "outstanding_packet_contexts sent_window = [0 \<mapsto> \<lparr>opc_rsn = 0, opc_type = kPullRequest\<rparr>]"
  by (simp_all add: sent_window_def example_request_window)

lemma uint_lt_1: "uint (w :: u32) < 1 \<longleftrightarrow> w = 0"
proof -
  have "uint w < 1 \<longleftrightarrow> uint w = 0" using uint_ge_0 [of w] by linarith
  then show ?thesis by (simp add: uint_0_iff)
qed

lemma tx_inv_sent: "tx_inv sent_window"
  by (auto simp: tx_inv_def in_flight_def sent_window_sel uint_lt_1)

lemma tx_ready_sent: "tx_ready (transactions sent_example) sent_window"
  by (simp add: tx_ready_def sent_window_sel sent_example_sel ackable_def packet_key_def
      pull_transaction_def UpdateState_def ack_only_def Let_def)

section \<open>Properties\<close>

text \<open>
  C13 No more in flight than the window. When the gating criterion lets a packet out, giving it the
  next PSN and recording it as outstanding keeps the window well formed: at most the rounded
  fabric congestion window of packets is in flight, which is within the bitmap, and the new PSN is
  outstanding.
\<close>

theorem gated_send_stays_in_window:
  assumes "tx_inv (tx_window (GetAppropriateTxWindow type) cs)"
    and "MeetsInitialTransmissionCCTxGatingCriteria type cs = Some True"
    and "AssignPsnAndSsn rsn type packet cs = Some (packet', cs1)"
  shows "let t = GetAppropriateTxWindow type;
             w = tx_window t (AddToOutstandingPackets rsn (falcon_psn packet') type cs1)
         in tx_inv w \<and> in_flight w = in_flight (tx_window t cs) + 1
            \<and> in_flight w \<le> uint (rounded_fcwnd (fabric_congestion_window cs))
            \<and> falcon_psn packet' = tx_next (tx_window t cs)
            \<and> outstanding_packet_contexts w (falcon_psn packet') = Some \<lparr>opc_rsn = rsn, opc_type = type\<rparr>"
proof -
  let ?t = "GetAppropriateTxWindow type"
  let ?w = "tx_window ?t cs" and ?w' = "tx_window ?t (AddToOutstandingPackets rsn (falcon_psn packet') type cs1)"
  obtain n where n: "GetOpenFcwnd type cs = Some n" "n \<noteq> 0"
    using assms(2) by (auto simp: MeetsInitialTransmissionCCTxGatingCriteria_def bind_eq_Some_conv
        split: if_splits)
  have "0 < uint n" using n(2) uint_ge_0 [of n] by (simp add: uint_0_iff less_le)
  then have room: "in_flight ?w < uint (rounded_fcwnd (fabric_congestion_window cs))"
      "uint (rounded_fcwnd (fabric_congestion_window cs)) \<le> Size (tx_bitmap ?w)"
    using GetOpenFcwnd_room [OF assms(1) n(1)] by auto
  have a: "falcon_psn packet' = tx_next ?w" "tx_window ?t cs1 = ?w\<lparr>tx_next := tx_next ?w + 1\<rparr>"
    using assms(3) by (auto simp: AssignPsnAndSsn_def update_packet_def Let_def bind_eq_Some_conv
        map_tx_window_def tx_window_def put_tx_window_def split: if_splits)
  have w': "tx_base ?w' = tx_base ?w" "tx_next ?w' = tx_next ?w + 1" "tx_bitmap ?w' = tx_bitmap ?w"
      "outstanding_packet_contexts ?w' =
        (outstanding_packet_contexts ?w)(tx_next ?w \<mapsto> \<lparr>opc_rsn = rsn, opc_type = type\<rparr>)"
    by (simp_all add: AddToOutstandingPackets_def map_tx_window_def a)
  show ?thesis using tx_inv_send [OF assms(1) _ w'] room a(1) w'(4) by (simp add: Let_def)
qed

text \<open>
  C2 Cumulative acknowledgement. Moving the base of a well-formed window to a base the receiver
  reports inside the packets in flight never aborts; it acknowledges exactly the packets below the
  new base that were not acknowledged before, each once and in PSN order (the logged calls), drops
  exactly their contexts, counts them, keeps the window well formed and leaves the other window's
  packets alone.
\<close>

theorem cumulative_ack_exact:
  assumes "tx_inv (tx_window t cs)" "tx_ready (transactions cs) (tx_window t cs)"
    and "\<forall>c. env_ok env c"
    and "uint (ack - tx_base (tx_window t cs)) \<le> in_flight (tx_window t cs)"
  shows "\<exists>cs'. advance_tx_window env t ack slack own cs = Some cs'
    \<and> tx_base (tx_window t cs') = ack \<and> tx_inv (tx_window t cs')
    \<and> (\<forall>u. u \<noteq> t \<longrightarrow> win_view (tx_window u cs') = win_view (tx_window u cs))
    \<and> (\<forall>psn. outstanding_packet_contexts (tx_window t cs') psn =
          (if uint (psn - tx_base (tx_window t cs)) < uint (ack - tx_base (tx_window t cs)) then None
           else outstanding_packet_contexts (tx_window t cs) psn))
    \<and> ack_calls cs' = ack_calls cs
        @ map (\<lambda>j. ack_call_of (outstanding_packet_contexts (tx_window t cs)
                                  (psn_at (tx_base (tx_window t cs)) j)))
            (clear_positions (tx_bitmap (tx_window t cs)) (unat (ack - tx_base (tx_window t cs))) 0)
    \<and> num_acked cs' = num_acked cs + word_of_nat (length
        (clear_positions (tx_bitmap (tx_window t cs)) (unat (ack - tx_base (tx_window t cs))) 0))"
  using advance_tx_window_spec [OF assms] by blast

text \<open>
  An implicit acknowledgement settles one packet. When a response, grant or solicited data
  arrives for a request or grant that is outstanding, no numbers having wrapped since, only that
  packet is acknowledged; the window stays well formed and its base moves by one exactly when the
  packet was the oldest.
\<close>

theorem implicit_ack_settles_one:
  assumes "implicitly_acked (packet_type packet) = Some (loc, type, t)"
    and "transactions cs (mk_key (falcon_rsn packet) loc) = Some tr" "packets tr type = Some p"
    and "pm_psn p = Some psn" "tx_base (tx_window t cs) \<le> psn"
    and "outstanding_packet_contexts (tx_window t cs) psn = Some ctx"
    and "tx_inv (tx_window t cs)" "tx_ready (transactions cs) (tx_window t cs)" "\<forall>c. env_ok env c"
    and "HandleImplicitAck env packet cs = Some cs'"
  shows "tx_inv (tx_window t cs')
    \<and> outstanding_packet_contexts (tx_window t cs')
        = (outstanding_packet_contexts (tx_window t cs))(psn := None)
    \<and> tx_base (tx_window t cs') = tx_base (tx_window t cs) + of_bool (psn = tx_base (tx_window t cs))
    \<and> ack_calls cs' = ack_calls cs @ [ack_call_of (Some ctx)]"
proof -
  let ?w = "tx_window t cs"
  let ?i = "uint (psn - tx_base ?w)"
  have i0: "?i < in_flight ?w \<and> \<not> bit_at (tx_bitmap ?w) ?i"
    using assms(6,7) unfolding tx_inv_def by (metis option.distinct(1))
  then have i: "?i < in_flight ?w" "\<not> bit_at (tx_bitmap ?w) ?i" "?i < Size (tx_bitmap ?w)"
      "?i < 2 ^ 31" "bitmap_wf (tx_bitmap ?w)"
    using assms(7) unfolding tx_inv_def by linarith+
  have si: "sint (psn - tx_base ?w) = ?i"
    using sint_of_small [OF order.trans [OF _ uint_ge_0] i(4)] by simp
  have get: "Get (tx_bitmap ?w) ?i = Some False" using bm.get_view [OF i(5)] i by simp
  have ack: "ackable (transactions cs) ctx" using assms(6,8) unfolding tx_ready_def by blast
  then obtain key where key: "packet_key (opc_rsn ctx) (opc_type ctx) = Some key" by (auto simp: ackable_def)
  obtain cs1 where cs1: "EnqueueAckToUlp env t psn cs = Some cs1"
      "win_view (tx_window t cs1) = win_view (?w\<lparr>outstanding_packet_contexts :=
         (outstanding_packet_contexts ?w)(psn := None)\<rparr>)"
      "ack_calls cs1 = ack_calls cs @ [ack_call key (opc_type ctx)]"
    using EnqueueAckToUlp_spec [OF assms(6) key ack assms(9)] by blast
  note v1 = cs1(2) [unfolded win_view_def, simplified]
  obtain b where b: "Set (tx_bitmap ?w) ?i True = Some b" "bitmap_wf b"
      "Size b = Size (tx_bitmap ?w)" "bit_at b = (bit_at (tx_bitmap ?w))(?i := True)"
    using bm.put_ok [OF i(5), of ?i True] i(3) by auto
  let ?w1 = "(tx_window t cs1)\<lparr>tx_bitmap := b\<rparr>"
  let ?w2 = "if psn = tx_base ?w then ?w1\<lparr>tx_bitmap := RightShift b 1, tx_base := tx_base ?w + 1\<rparr> else ?w1"
  have nb: "\<not> psn < tx_base ?w" using assms(5) by simp
  obtain cs2 where cs2: "SetupTlpTimer env (put_tx_window t ?w2 cs1) = Some cs2"
      "retransmit_timer env cs2 = Some cs'"
    using assms(10) assms(1-5) cs1(1) b(1) v1 get
    by (auto simp: HandleImplicitAck_def Let_def si nb bind_eq_Some_conv cong: if_cong)
  have view: "win_view (tx_window t cs') = win_view ?w2"
    using core_sel(4) [OF core_retransmit_timer [OF cs2(2)], of t]
      core_sel(4) [OF core_SetupTlpTimer [OF cs2(1)], of t] by simp
  have inv1: "tx_inv ?w1"
    by (rule tx_inv_mark [OF assms(7) refl i(1)]) (use v1 b in simp_all)
  have "tx_inv ?w2"
  proof (cases "psn = tx_base ?w")
    case True
    have "outstanding_packet_contexts ?w1 q = None" if "uint (q - tx_base ?w) < 1" for q
    proof -
      have "uint (q - tx_base ?w) = 0" using that uint_ge_0 [of "q - tx_base ?w"] by linarith
      then have "q = psn" using True by (simp add: uint_0_iff)
      then show ?thesis using v1 by simp
    qed
    moreover have "1 \<le> in_flight ?w1" using i(1) v1 True by (simp add: in_flight_def)
    ultimately show ?thesis
      using True tx_inv_shift [OF inv1, of 1 ?w2] v1 by simp
  qed (use inv1 in simp)
  moreover have "ack_calls cs' = ack_calls cs1"
    using core_sel(3) [OF core_retransmit_timer [OF cs2(2)]] core_sel(3) [OF core_SetupTlpTimer [OF cs2(1)]]
    by (simp add: ack_calls_def)
  ultimately show ?thesis
    using view tx_inv_view [OF view] cs1(3) v1 key
    by (auto simp: win_view_def ack_call_of_def)
qed

text \<open>
  The implicit acknowledgement does not survive the wrap-around. If the request of an arriving
  response was acknowledged before (its PSN lies behind the base in sequence order) but its PSN is
  numerically not below the base, because the base has wrapped, the handler looks up a negative
  position of the window and the process aborts, instead of doing nothing.
\<close>

theorem implicit_ack_aborts_after_wraparound:
  assumes "implicitly_acked (packet_type packet) = Some (loc, type, t)"
    and "transactions cs (mk_key (falcon_rsn packet) loc) = Some tr" "packets tr type = Some p"
    and "pm_psn p = Some psn"
    and "SeqLT psn (tx_base (tx_window t cs))" "tx_base (tx_window t cs) \<le> psn"
  shows "HandleImplicitAck env packet cs = None"
proof -
  have "sint (psn - tx_base (tx_window t cs)) < 0" using assms(5) by (simp add: SeqLT_def)
  then have "Get (tx_bitmap (tx_window t cs)) (sint (psn - tx_base (tx_window t cs))) = None"
    by (simp add: Get_def)
  then show ?thesis using assms by (auto simp: HandleImplicitAck_def Let_def not_less)
qed

lemma gated_send_stays_in_window_witness:
  "\<exists>packet' cs1. AssignPsnAndSsn 0 kPullRequest new_NetPacket ready_example = Some (packet', cs1)
     \<and> tx_inv (tx_window kRequest (AddToOutstandingPackets 0 (falcon_psn packet') kPullRequest cs1))"
proof -
  have t: "GetAppropriateTxWindow kPullRequest = kRequest" by (simp add: GetAppropriateTxWindow_def)
  have gate: "MeetsInitialTransmissionCCTxGatingCriteria kPullRequest ready_example = Some True"
    by (simp add: MeetsInitialTransmissionCCTxGatingCriteria_def GetOpenFcwnd_def t tx_window_def
        ready_example_def example_request_window rounded_fcwnd_def kFractionalBits_def
        drop_bit_eq_div is_request_type_def SeqLT_def Let_def)
  obtain packet' cs1 where send: "AssignPsnAndSsn 0 kPullRequest new_NetPacket ready_example = Some (packet', cs1)"
    by (simp add: AssignPsnAndSsn_def update_packet_def packet_key_def ready_example_def
        pull_transaction_def Let_def)
  from gated_send_stays_in_window [OF _ gate send] tx_inv_ready
  have "tx_inv (tx_window kRequest (AddToOutstandingPackets 0 (falcon_psn packet') kPullRequest cs1))"
    unfolding t Let_def by blast
  then show ?thesis using send by blast
qed

lemma cumulative_ack_exact_witness:
  "\<exists>cs'. advance_tx_window (quiet_env 40) kRequest 1 0 False sent_example = Some cs'
     \<and> tx_base (tx_window kRequest cs') = 1
     \<and> ack_calls cs' = [ReleaseResources (mk_key 0 kInitiator) kPullRequest]"
proof -
  have clear: "clear_positions (FalconBitmap_new 1024 1024) (Suc 0) 0 = [0]"
    by (simp add: clear_positions_def)
  from cumulative_ack_exact [of kRequest sent_example "quiet_env 40" 1 0 False]
  show ?thesis
    by (simp add: sent_example_sel tx_inv_sent tx_ready_sent [unfolded sent_example_sel] quiet_env_def
        sent_window_sel in_flight_def ack_calls_def clear ack_call_of_def ack_call_def packet_key_def)
       blast
qed

text \<open>The pull data that answers the outstanding request, and one whose request wrapped.\<close>

definition pull_data_packet :: NetPacket where
  "pull_data_packet = new_NetPacket\<lparr>packet_type := kPullData\<rparr>"

lemma pull_transaction_packets: "packets (pull_transaction x) kPullRequest =
    Some ((new_PacketMetadata kPullRequest kOutgoing None True)\<lparr>pm_psn := x\<rparr>)"
  by (simp add: pull_transaction_def)

lemma pull_data_packet_sel: "packet_type pull_data_packet = kPullData" "falcon_rsn pull_data_packet = 0"
  by (simp_all add: pull_data_packet_def new_NetPacket_def new_Packet_def Packet.defs)

lemma sent_example_queues:
  "tx_request_window sent_example = sent_window"
  "outstanding_packets (tx_data_window sent_example) = []"
  "outstanding_packets sent_window = [\<lparr>rwd_rsn = 0, rwd_psn = 0, rwd_type = kPullRequest\<rparr>]"
  by (simp_all add: sent_example_def sent_window_def ready_example_def example_simps)

lemma ack_pull_request_counters:
  "ack_request_counters key kPullRequest cs = Some (map_tx_window kRequest
     (\<lambda>w. w\<lparr>outstanding_requests_counter := outstanding_requests_counter w - 1\<rparr>) cs)"
  by (simp add: ack_request_counters_def DecrementOutstandingRequestCount_def counted_window_def)

lemma ack_sent_example:
  "\<exists>cs1. EnqueueAckToUlp (quiet_env 40) kRequest 0 sent_example = Some cs1
     \<and> outstanding_packets (tx_request_window cs1) = []
     \<and> outstanding_packets (tx_data_window cs1) = []"
  by (simp add: EnqueueAckToUlp_def sent_example_sel sent_window_sel packet_key_def
        UpdateState_at_def UpdateState_def ack_only_def ack_pull_request_counters
        pull_transaction_def Let_def,
      simp add: stop_retransmission_def packet_of_def packet_key_def Let_def map_tx_window_def
        tx_window_def put_tx_window_def emit_def sent_example_queues,
      simp add: work_less_def SeqLT_def,
      simp add: rack_on_ack_def release_acked_def emit_checked_def quiet_env_def
        default_config_def UpdateOutstandingCounterAfterErase_def new_PacketMetadata_def,
      simp add: drop_context_def AccumulateNumAcked_def map_tx_window_def tx_window_def
        put_tx_window_def emit_def sent_example_queues)

lemma quiet_env_tlp: "\<not> enable_tlp (cfg (quiet_env n))"
  by (simp add: quiet_env_def default_config_def)

lemma retransmit_timer_idle:
  "outstanding_packets (tx_request_window cs) = [] \<Longrightarrow>
   outstanding_packets (tx_data_window cs) = [] \<Longrightarrow> \<exists>cs'. retransmit_timer env cs = Some cs'"
  by (simp add: retransmit_timer_def SetupRetransmitTimer_def GetJitter_def Let_def
      earliest_expiry_def head_expiry_def arm_retransmit_timer_def)

lemma implicit_ack_runs:
  "\<exists>cs'. HandleImplicitAck (quiet_env 40) pull_data_packet sent_example = Some cs'"
proof -
  obtain cs1 where cs1: "EnqueueAckToUlp (quiet_env 40) kRequest 0 sent_example = Some cs1"
      "outstanding_packets (tx_request_window cs1) = []"
      "outstanding_packets (tx_data_window cs1) = []"
    using ack_sent_example by blast
  have ctx: "outstanding_packet_contexts (tx_window kRequest sent_example) 0
      = Some \<lparr>opc_rsn = 0, opc_type = kPullRequest\<rparr>"
    by (simp add: sent_example_sel sent_window_sel)
  have ack: "ackable (transactions sent_example) \<lparr>opc_rsn = 0, opc_type = kPullRequest\<rparr>"
    using tx_ready_sent ctx unfolding tx_ready_def sent_example_sel(1) by blast
  have key: "packet_key (opc_rsn \<lparr>opc_rsn = 0, opc_type = kPullRequest\<rparr>)
      (opc_type \<lparr>opc_rsn = 0, opc_type = kPullRequest\<rparr>) = Some (mk_key 0 kInitiator)"
    by (simp add: packet_key_def)
  have ok: "\<forall>c. env_ok (quiet_env 40) c" by (simp add: quiet_env_def)
  obtain cs2 where cs2: "EnqueueAckToUlp (quiet_env 40) kRequest 0 sent_example = Some cs2"
      "win_view (tx_window kRequest cs2) = win_view (sent_window\<lparr>outstanding_packet_contexts :=
         (outstanding_packet_contexts sent_window)(0 := None)\<rparr>)"
    using EnqueueAckToUlp_spec [OF ctx key ack ok] unfolding sent_example_sel by blast
  have v: "tx_base (tx_window kRequest cs1) = 0"
      "tx_bitmap (tx_window kRequest cs1) = FalconBitmap_new 1024 1024"
    using cs1(1) cs2 by (simp_all add: win_view_def sent_window_sel)
  obtain b where b: "Set (FalconBitmap_new 1024 1024) 0 True = Some b"
    using bm.put_ok [of "FalconBitmap_new 1024 1024" 0 True] by auto
  have g: "Get (FalconBitmap_new 1024 1024) 0 = Some False" by (simp add: bm.get_view)
  let ?cs = "put_tx_window kRequest ((tx_window kRequest cs1)
               \<lparr>tx_bitmap := RightShift b 1, tx_base := 1\<rparr>) cs1"
  obtain cs' where timer: "retransmit_timer (quiet_env 40) ?cs = Some cs'"
    using retransmit_timer_idle [of ?cs] cs1(2,3) by (auto simp: put_tx_window_def tx_window_def)
  have tlp: "SetupTlpTimer (quiet_env 40) ?cs = Some ?cs" by (simp add: SetupTlpTimer_def quiet_env_tlp)
  have "HandleImplicitAck (quiet_env 40) pull_data_packet sent_example = Some cs'"
    using cs1(1) v b g timer tlp
    by (simp add: HandleImplicitAck_def pull_data_packet_sel sent_example_sel
        pull_transaction_packets sent_window_sel Let_def)
  then show ?thesis by blast
qed

lemma implicit_ack_settles_one_witness:
  "\<exists>cs'. HandleImplicitAck (quiet_env 40) pull_data_packet sent_example = Some cs'
     \<and> tx_base (tx_window kRequest cs') = 1
     \<and> ack_calls cs' = [ReleaseResources (mk_key 0 kInitiator) kPullRequest]"
proof -
  obtain cs' where run: "HandleImplicitAck (quiet_env 40) pull_data_packet sent_example = Some cs'"
    using implicit_ack_runs by blast
  let ?p = "(new_PacketMetadata kPullRequest kOutgoing None True)\<lparr>pm_psn := Some 0\<rparr>"
  have "tx_base (tx_window kRequest cs') = tx_base sent_window + of_bool (0 = tx_base sent_window)
    \<and> ack_calls cs' = ack_calls sent_example @ [ack_call_of (Some \<lparr>opc_rsn = 0, opc_type = kPullRequest\<rparr>)]"
    using implicit_ack_settles_one [OF _ _ _ _ _ _ _ _ _ run, where p = ?p and psn = 0 and loc = kInitiator
        and type = kPullRequest and t = kRequest and tr = "pull_transaction (Some 0)"]
    by (simp add: pull_data_packet_sel sent_example_sel tx_inv_sent tx_ready_sent [unfolded sent_example_sel]
        quiet_env_def sent_window_sel pull_transaction_packets)
  then show ?thesis using run
    by (simp add: sent_window_sel ack_calls_def sent_example_sel ack_call_of_def ack_call_def packet_key_def)
qed

lemma implicit_ack_aborts_after_wraparound_witness:
  "HandleImplicitAck (quiet_env 40) pull_data_packet
     (sent_example\<lparr>tx_request_window := sent_window\<lparr>tx_base := 5, tx_next := 5\<rparr>,
        transactions := [mk_key 0 kInitiator \<mapsto> pull_transaction (Some 4294967295)]\<rparr>) = None"
  by (rule implicit_ack_aborts_after_wraparound [where loc = kInitiator and type = kPullRequest
        and t = kRequest and psn = 4294967295 and tr = "pull_transaction (Some 4294967295)" and p =
        "(new_PacketMetadata kPullRequest kOutgoing None True)\<lparr>pm_psn := Some 4294967295\<rparr>"])
     (simp_all add: pull_data_packet_sel tx_window_def pull_transaction_def SeqLT_def)

end
