(* ===== verification/Loss_Recovery.thy ===== *)
theory Loss_Recovery
  imports Tx_Window
begin

text \<open>
  Transmission and loss recovery in the packet reliability manager: sending a packet, the
  retransmission timeout, explicit ACKs and EACKs with the out-of-order heuristics and RACK, NACKs,
  and tail-loss probes.

  The scans over a window's outstanding packets walk an iterator that only ever moves forward:
  every iteration leaves the loop, steps over the packet or erases it, and nothing inserts during
  the scan. The model recurses over the packets that were outstanding when the scan began and
  performs the erasures on the window.
\<close>

section \<open>Sending\<close>

text \<open>
  The header fields of the model's packet; \<open>rdma.request_length\<close> and \<open>rdma.response_length\<close> are
  one field, a union in the source. Whether the ACK-request bit is set (a pseudo-random
  choice, a threshold or a token bucket) is the argument \<open>ack_requested\<close>.
\<close>

definition SetOutgoingPacketHeader ::
    "rel_env \<Rightarrow> bool \<Rightarrow> u32 \<Rightarrow> PacketType \<Rightarrow> NetPacket \<Rightarrow> ConnectionState \<Rightarrow> NetPacket option" where
  "SetOutgoingPacketHeader env ack_requested rsn type p cs = do {
     let fcwnd = drop_bit kFractionalBits (fabric_congestion_window cs);
     let p = p\<lparr>packet_type := type, md_flow_label := flow_label cs,
               md_timing_wheel_timestamp :=
                 (if fcwnd < 1 then now env + inter_packet_gap cs else ZeroDuration),
               falcon_dest_cid := dcid cs, falcon_rsn := rsn,
               falcon_rrbpsn := rx_base (rx_request_window (rx cs)),
               falcon_rdbpsn := rx_base (rx_data_window (rx cs))\<rparr>;
     let p = (if ack_requested then p\<lparr>falcon_ack_req := True\<rparr> else p);
     if type = kPullRequest then
       Some (p\<lparr>falcon_request_length := ucast (rdma_request_length p),
               falcon_payload_length := ucast (rdma_data_length p)\<rparr>)
     else if type = kPushRequest \<or> type = kPushGrant then do {
       key \<leftarrow> packet_key rsn type;
       t \<leftarrow> transactions cs key;
       len \<leftarrow> request_length t;
       Some (p\<lparr>falcon_request_length := ucast len, falcon_payload_length := 0\<rparr>)
     }
     else if type = kPullData then
       Some (p\<lparr>falcon_payload_length := ucast (rdma_request_length p)\<rparr>)
     else if type = kPushSolicitedData \<or> type = kPushUnsolicitedData then
       Some (p\<lparr>falcon_payload_length := ucast (rdma_request_length p)\<rparr>)
     else Some p
   }"

definition count_retransmission :: "duration \<Rightarrow> PacketMetadata \<Rightarrow> PacketMetadata" where
  "count_retransmission t p =
     (let p = p\<lparr>transmission_time := t\<rparr> in
      if transmit_attempts p > 1 then
        (if retransmission_reason p = kTimeout \<or> retransmission_reason p = kUlpRto
         then p\<lparr>timeout_retransmission_attempts := timeout_retransmission_attempts p + 1\<rparr>
         else p\<lparr>early_retx_attempts := early_retx_attempts p + 1\<rparr>)
      else p)"

definition SetupRetransmission ::
    "rel_env \<Rightarrow> u32 \<Rightarrow> PacketType \<Rightarrow> ConnectionState \<Rightarrow> ConnectionState option" where
  "SetupRetransmission env rsn type cs = do {
     cs \<leftarrow> update_packet rsn type (count_retransmission (now env)) cs;
     let cs = (if CountOutstandingPackets cs = 0
               then cs\<lparr>outstanding_conn_counter := outstanding_conn_counter cs + 1\<rparr> else cs);
     let cs = cs\<lparr>outstanding_pkt_counter := outstanding_pkt_counter cs + 1\<rparr>;
     p \<leftarrow> packet_of cs rsn type;
     psn \<leftarrow> pm_psn p;
     let cs = AddToOutstandingPackets rsn psn type cs;
     cs \<leftarrow> retransmit_timer env cs;
     SetupTlpTimer env cs
   }"

text \<open>What the rate update engine hears of a retransmission.\<close>

definition report_retransmission :: "PacketMetadata \<Rightarrow> ConnectionState \<Rightarrow> ConnectionState" where
  "report_retransmission p cs =
     (if retransmission_reason p = kTimeout
      then emit (RueTimeoutRetransmitted (pm_type p) (timeout_retransmission_attempts p)) cs
      else if retransmission_reason p \<in> {kEarlyOooDis, kEarlyRack, kEarlyNack, kEarlyTlp}
      then emit (RueEarlyRetransmitted (pm_type p) (timeout_retransmission_attempts p)) cs
      else cs)"

definition TransmitPacket ::
    "rel_env \<Rightarrow> bool \<Rightarrow> u32 \<Rightarrow> PacketType \<Rightarrow> ConnectionState \<Rightarrow>
     (status \<times> ConnectionState) option" where
  "TransmitPacket env ack_requested rsn type cs = do {
     key \<leftarrow> packet_key rsn type;
     case transactions cs key of
       None \<Rightarrow> Some (NotFoundError, cs)
     | Some t \<Rightarrow>
         (case packets t type of
            None \<Rightarrow> Some (NotFoundError, cs)
          | Some p0 \<Rightarrow> do {
              cs \<leftarrow> update_packet rsn type
                     (\<lambda>p. p\<lparr>transmit_attempts := transmit_attempts p + 1\<rparr>) cs;
              pkt \<leftarrow> active_packet p0;
              let pkt = Packet.extend (Packet.truncate pkt) (NetPacket.fields new_AckHeader
                    new_NackHeader 0 0 ZeroDuration ZeroDuration ZeroDuration);
              let first = (transmit_attempts p0 + 1 = 1);
              (pkt, cs) \<leftarrow> (if first then AssignPsnAndSsn rsn type pkt cs
                            else Some (pkt, report_retransmission p0 cs));
              pkt \<leftarrow> SetOutgoingPacketHeader env ack_requested rsn type pkt cs;
              cs \<leftarrow> SetupRetransmission env rsn type cs;
              (pkt, cs) \<leftarrow> PiggybackAck pkt cs;
              r \<leftarrow> CreateOrUpdateReceiverPacketContext (Packet.truncate pkt) kOutgoing (rx cs);
              let cs = cs\<lparr>rx := r\<rparr>;
              (cs, samples) \<leftarrow>
                (if first then
                   UpdateState_at key type NtwkTx (now env)
                     (IncrementOutstandingRequestCount type cs)
                 else Some (IncrementOutstandingRetransmittedRequestCount type cs, []));
              let cs = emit (LatencySamples samples) cs;
              cs \<leftarrow> update_packet rsn type
                     (\<lambda>p. p\<lparr>retransmission_packet_copy := Packet.truncate pkt,
                            active_packet := Some (Packet.truncate pkt)\<rparr>) cs;
              Some (OkStatus, emit (TransferTxPacket pkt) cs)
            })
   }"

section \<open>Retransmission timeout\<close>

definition InitiateRetransmission ::
    "rel_env \<Rightarrow> u32 \<Rightarrow> PacketType \<Rightarrow> ConnectionState \<Rightarrow> ConnectionState option" where
  "InitiateRetransmission env rsn type cs = do {
     let cs = emit (RetxEnqueue rsn type) cs;
     p \<leftarrow> packet_of cs rsn type;
     Some (if transmit_attempts p > 1 \<and> env_ok env (RetxEnqueue rsn type)
           then DecrementOutstandingRetransmittedRequestCount type False cs else cs)
   }"

definition erase_outstanding ::
    "WindowType \<Rightarrow> RetransmissionWorkId \<Rightarrow> ConnectionState \<Rightarrow> ConnectionState" where
  "erase_outstanding t work cs = UpdateOutstandingCounterAfterErase
     (map_tx_window t
       (\<lambda>w. w\<lparr>outstanding_packets := snd (bs_erase work_less work (outstanding_packets w))\<rparr>) cs)"

text \<open>Handing a packet to the retransmission scheduler and dropping it from the window's set.\<close>

definition retransmit ::
    "rel_env \<Rightarrow> WindowType \<Rightarrow> RetransmissionWorkId \<Rightarrow> (PacketMetadata \<Rightarrow> PacketMetadata) \<Rightarrow>
     ConnectionState \<Rightarrow> ConnectionState option" where
  "retransmit env t work f cs = do {
     cs \<leftarrow> update_packet (rwd_rsn work) (rwd_type work) f cs;
     cs \<leftarrow> InitiateRetransmission env (rwd_rsn work) (rwd_type work) cs;
     Some (erase_outstanding t work cs)
   }"

text \<open>Why a packet whose time is up is retransmitted.\<close>

definition timeout_reason ::
    "rel_env \<Rightarrow> ConnectionState \<Rightarrow> PacketMetadata \<Rightarrow> PacketMetadata \<Rightarrow> PacketMetadata" where
  "timeout_reason env cs p0 p =
     (let elapsed = now env - transmission_time p0;
          timeout = GetTimeoutOfPacket (cfg env) cs p0
      in if timeout = rack_rto cs \<and> \<not> IsReceived (cfg env) p0 \<and> elapsed < retransmit_timeout cs
         then p\<lparr>retransmission_reason := kEarlyRack\<rparr>
         else if IsReceived (cfg env) p0 then p\<lparr>retransmission_reason := kUlpRto\<rparr>
         else p\<lparr>retransmission_reason := kTimeout, bypass_recency_check := True,
                bypass_scanning_exit_criteria := False\<rparr>)"

definition is_rack_timeout :: "rel_env \<Rightarrow> ConnectionState \<Rightarrow> PacketMetadata \<Rightarrow> bool" where
  "is_rack_timeout env cs p \<longleftrightarrow> GetTimeoutOfPacket (cfg env) cs p = rack_rto cs
     \<and> \<not> IsReceived (cfg env) p \<and> now env - transmission_time p < retransmit_timeout cs"

fun scan_timeouts ::
    "rel_env \<Rightarrow> WindowType \<Rightarrow> RetransmissionWorkId list \<Rightarrow> ConnectionState \<Rightarrow>
     ConnectionState option" where
  "scan_timeouts env t [] cs = Some cs"
| "scan_timeouts env t (work # works) cs = do {
     let w = tx_window t cs;
     acked \<leftarrow> Get (tx_bitmap w) (window_index (tx_bitmap w) (rwd_psn work) (tx_base w));
     if acked then scan_timeouts env t works (erase_outstanding t work cs)
     else do {
       p \<leftarrow> GetPacketMetadataFromWorkId cs work;
       if now env - transmission_time p < GetTimeoutOfPacket (cfg env) cs p then Some cs
       else do {
         check (is_rack_timeout env cs p
                \<or> timeout_retransmission_attempts p < max_retransmit_attempts cs);
         cs' \<leftarrow> retransmit env t work (timeout_reason env cs p) cs;
         scan_timeouts env t works cs'
       }
     }
   }"

definition HandleRetransmitTimeout :: "rel_env \<Rightarrow> ConnectionState \<Rightarrow> ConnectionState option" where
  "HandleRetransmitTimeout env cs =
     (if now env \<noteq> GetRtoExpirationTime cs then Some cs
      else do {
        let cs = ClearRtoExpirationTime cs;
        cs \<leftarrow> scan_timeouts env kRequest (outstanding_packets (tx_request_window cs)) cs;
        cs \<leftarrow> scan_timeouts env kData (outstanding_packets (tx_data_window cs)) cs;
        retransmit_timer env cs
      })"

section \<open>Explicit acknowledgement\<close>

record AckWindowMetadata =
  awm_base :: u32
  awm_own :: bool
  awm_window :: FalconBitmap

text \<open>OR-ing the acknowledgement bitmap of an EACK into the window, position by position.\<close>

fun eack_merge ::
    "rel_env \<Rightarrow> WindowType \<Rightarrow> FalconBitmap \<Rightarrow> nat \<Rightarrow> int \<Rightarrow> ConnectionState \<Rightarrow>
     ConnectionState option" where
  "eack_merge env t aw 0 index cs = Some cs"
| "eack_merge env t aw (Suc k) index cs = do {
     v \<leftarrow> Get (tx_bitmap (tx_window t cs)) index;
     a \<leftarrow> (if \<not> v then Get aw index else Some False);
     cs \<leftarrow> (if a then do {
              cs \<leftarrow> EnqueueAckToUlp env t (tx_base (tx_window t cs) + word_of_int index) cs;
              b \<leftarrow> Set (tx_bitmap (tx_window t cs)) index True;
              Some (map_tx_window t (\<lambda>w. w\<lparr>tx_bitmap := b\<rparr>) cs)
            } else Some cs);
     eack_merge env t aw k (index + 1) cs
   }"

text \<open>
  Recording at the sender which packets the receiver holds. Packets without a context or whose
  transaction is gone are skipped.
\<close>

definition mark_packet_received ::
    "rel_env \<Rightarrow> WindowType \<Rightarrow> AckWindowMetadata \<Rightarrow> int \<Rightarrow> ConnectionState \<Rightarrow>
     ConnectionState option" where
  "mark_packet_received env t m index cs =
     (case outstanding_packet_contexts (tx_window t cs) (word_of_int index + awm_base m) of
        None \<Rightarrow> Some cs
      | Some ctx \<Rightarrow> do {
          key \<leftarrow> packet_key (opc_rsn ctx) (opc_type ctx);
          case transactions cs key of
            None \<Rightarrow> Some cs
          | Some tr \<Rightarrow> do {
              p \<leftarrow> packets tr (opc_type ctx);
              v \<leftarrow> Get (awm_window m) index;
              if v \<and> \<not> received p then do {
                cs \<leftarrow> update_packet (opc_rsn ctx) (opc_type ctx) (\<lambda>p. p\<lparr>received := True\<rparr>) cs;
                Some (if enable_rack (cfg env) \<and> \<not> rack_use_t1 (cfg env)
                      then RackUpdate env (transmission_time p) cs else cs)
              } else Some cs
            }
        })"

fun mark_all_received ::
    "rel_env \<Rightarrow> WindowType \<Rightarrow> AckWindowMetadata \<Rightarrow> nat \<Rightarrow> int \<Rightarrow> ConnectionState \<Rightarrow>
     ConnectionState option" where
  "mark_all_received env t m 0 index cs = Some cs"
| "mark_all_received env t m (Suc k) index cs = do {
     cs \<leftarrow> mark_packet_received env t m index cs;
     mark_all_received env t m k (index + 1) cs
   }"

section \<open>Early-retransmission limits\<close>

text \<open>
  The OOO-count limit: from the top of the bitmap down, the first position that has
  \<open>threshold\<close> set bits above it.
\<close>

fun ooo_count_scan :: "FalconBitmap \<Rightarrow> u32 \<Rightarrow> nat \<Rightarrow> nat \<Rightarrow> int option" where
  "ooo_count_scan w threshold 0 count = Some (- 1)"
| "ooo_count_scan w threshold (Suc k) count =
     (if \<not> count < unat threshold then Some (int k)
      else do {
        v \<leftarrow> Get w (int k);
        ooo_count_scan w threshold k (count + of_bool v)
      })"

definition EarlyRetransmissionOooCount :: "rel_config \<Rightarrow> AckWindowMetadata \<Rightarrow> int option" where
  "EarlyRetransmissionOooCount c m =
     ooo_count_scan (awm_window m) (ooo_count_threshold c) (nat (Size (awm_window m))) 0"

fun highest_set :: "FalconBitmap \<Rightarrow> nat \<Rightarrow> int option" where
  "highest_set w 0 = Some (- 1)"
| "highest_set w (Suc k) = do {
     v \<leftarrow> Get w (int k);
     if v then Some (int k) else highest_set w k
   }"

text \<open>The subtraction mixes \<open>int\<close> and \<open>uint32_t\<close>: it is modulo \<open>2 ^ 32\<close> and read back as \<open>int\<close>.\<close>

definition EarlyRetransmissionOooDistance :: "rel_config \<Rightarrow> AckWindowMetadata \<Rightarrow> int option" where
  "EarlyRetransmissionOooDistance c m = do {
     limit \<leftarrow> highest_set (awm_window m) (nat (Size (awm_window m)));
     Some (sint (word_of_int limit - ooo_distance_threshold c))
   }"

definition EarlyRetransmissionMergeRetxLimit :: "int \<Rightarrow> int \<Rightarrow> int" where
  "EarlyRetransmissionMergeRetxLimit retx_limit new_limit =
     (if retx_limit < new_limit then new_limit else retx_limit)"

text \<open>The limit of one window, merged from the enabled algorithms and the OWN bit.\<close>

definition retx_limit_of ::
    "rel_config \<Rightarrow> AckWindowMetadata \<Rightarrow> u32 \<Rightarrow> int option" where
  "retx_limit_of c m next_psn = do {
     l \<leftarrow> (if enable_ooo_count c then do {
             n \<leftarrow> EarlyRetransmissionOooCount c m;
             Some (EarlyRetransmissionMergeRetxLimit (- 1) n)
           } else Some (- 1));
     l \<leftarrow> (if enable_ooo_distance c then do {
             n \<leftarrow> EarlyRetransmissionOooDistance c m;
             Some (EarlyRetransmissionMergeRetxLimit l n)
           } else Some l);
     Some (if enable_eack_own c \<and> awm_own m then sint (next_psn - 1) else l)
   }"

text \<open>Whether a position up to the limit is missing at the receiver.\<close>

fun any_missing :: "FalconBitmap \<Rightarrow> nat \<Rightarrow> int \<Rightarrow> bool option" where
  "any_missing w 0 i = Some False"
| "any_missing w (Suc k) i = do {
     v \<leftarrow> Get w i;
     if \<not> v then Some True else any_missing w k (i + 1)
   }"

definition window_drop :: "AckWindowMetadata \<Rightarrow> int \<Rightarrow> bool option" where
  "window_drop m limit = any_missing (awm_window m) (nat (min (Size (awm_window m) - 1) limit + 1)) 0"

section \<open>Early retransmission on an EACK\<close>

definition ShouldSkipRetransmission :: "int \<Rightarrow> AckWindowMetadata \<Rightarrow> bool option" where
  "ShouldSkipRetransmission bitmap_index m =
     (if bitmap_index < Size (awm_window m) then Get (awm_window m) bitmap_index else Some False)"

definition mark_early_retx :: "bool \<Rightarrow> PacketMetadata \<Rightarrow> PacketMetadata" where
  "mark_early_retx own p = p\<lparr>retransmission_reason := kEarlyOooDis, bypass_recency_check := False,
     bypass_scanning_exit_criteria := \<not> own\<rparr>"

text \<open>Whether the recency check passes or is bypassed.\<close>

definition recency_ok ::
    "rel_env \<Rightarrow> duration \<Rightarrow> bool \<Rightarrow> bool \<Rightarrow> PacketMetadata \<Rightarrow> bool" where
  "recency_ok env instant_rtt own force_bypass p \<longleftrightarrow>
     now env - transmission_time p \<ge> instant_rtt
     \<or> (enable_recency_check_bypass (cfg env) \<and> own \<and> bypass_recency_check p)
     \<or> (enable_smaller_psn_recency_check_bypass (cfg env) \<and> own \<and> force_bypass)"

fun eack_retransmit ::
    "rel_env \<Rightarrow> WindowType \<Rightarrow> AckWindowMetadata \<Rightarrow> int \<Rightarrow> duration \<Rightarrow> RetransmissionWorkId list \<Rightarrow>
     bool \<Rightarrow> ConnectionState \<Rightarrow> ConnectionState option" where
  "eack_retransmit env t m limit rtt [] force_bypass cs = Some cs"
| "eack_retransmit env t m limit rtt (work # works) force_bypass cs = do {
     let w = tx_window t cs;
     let index = window_index (tx_bitmap w) (rwd_psn work) (tx_base w);
     if index > limit then Some cs
     else do {
       skip \<leftarrow> ShouldSkipRetransmission index m;
       if skip then eack_retransmit env t m limit rtt works force_bypass cs
       else do {
         p \<leftarrow> GetPacketMetadataFromWorkId cs work;
         if nack_code p = kUlpReceiverNotReady then Some cs
         else if recency_ok env rtt (awm_own m) force_bypass p then do {
           check (early_retx_attempts p < early_retx_threshold (cfg env));
           cs \<leftarrow> retransmit env t work (mark_early_retx (awm_own m)) cs;
           eack_retransmit env t m limit rtt works (force_bypass \<or> awm_own m) cs
         }
         else if enable_scanning_exit_criteria_bypass (cfg env) \<and> awm_own m
                 \<and> bypass_scanning_exit_criteria p
         then eack_retransmit env t m limit rtt works force_bypass cs
         else Some cs
       }
     }
   }"

definition eack_early_retransmission ::
    "rel_env \<Rightarrow> AckWindowMetadata \<Rightarrow> AckWindowMetadata \<Rightarrow> duration \<Rightarrow> ConnectionState \<Rightarrow>
     (bool \<times> ConnectionState) option" where
  "eack_early_retransmission env mr md rtt cs = do {
     lr \<leftarrow> retx_limit_of (cfg env) mr (tx_next (tx_request_window cs));
     ld \<leftarrow> retx_limit_of (cfg env) md (tx_next (tx_data_window cs));
     drop_r \<leftarrow> window_drop mr lr;
     drop_detected \<leftarrow> (if drop_r then Some True else window_drop md ld);
     cs \<leftarrow> eack_retransmit env kRequest mr lr rtt
            (outstanding_packets (tx_request_window cs)) False cs;
     cs \<leftarrow> eack_retransmit env kData md ld rtt
            (outstanding_packets (tx_data_window cs)) False cs;
     Some (drop_detected, cs)
   }"

definition HandleEACK ::
    "rel_env \<Rightarrow> NetPacket \<Rightarrow> ConnectionState \<Rightarrow> (bool \<times> ConnectionState) option" where
  "HandleEACK env packet cs = do {
     let a = ack_hdr packet;
     check (ack_type a = Ack_kEack);
     cs \<leftarrow> eack_merge env kRequest (receiver_request_bitmap a)
            (nat (Size (receiver_request_bitmap a))) 0 cs;
     cs \<leftarrow> eack_merge env kData (receiver_data_bitmap a)
            (nat (Size (receiver_data_bitmap a))) 0 cs;
     let mr = \<lparr>awm_base = ack_rrbpsn a, awm_own = ack_request_own a,
               awm_window = receiver_request_bitmap a\<rparr>;
     let md = \<lparr>awm_base = ack_rdbpsn a, awm_own = ack_data_own a, awm_window = received_bitmap a\<rparr>;
     cs \<leftarrow> (if NeedToMaintainReceivedStateAtSender (cfg env) then do {
              cs \<leftarrow> mark_all_received env kRequest mr (nat (Size (awm_window mr))) 0 cs;
              mark_all_received env kData md (nat (Size (awm_window md))) 0 cs
            } else Some cs);
     if EackBasedEarlyRetransmissionIsEnabled (cfg env)
     then eack_early_retransmission env mr md (received_timestamp packet - ack_timestamp_1 a) cs
     else Some (False, cs)
   }"

definition HandleACK ::
    "rel_env \<Rightarrow> NetPacket \<Rightarrow> ConnectionState \<Rightarrow> (status \<times> ConnectionState) option" where
  "HandleACK env packet cs = do {
     let a = ack_hdr packet;
     let eack = (ack_type a = Ack_kEack);
     if stale_bases (ack_rrbpsn a) (ack_rdbpsn a) cs then Some (AlreadyExistsError, cs)
     else do {
       cs \<leftarrow> advance_tx_window env kRequest (ack_rrbpsn a) (request_window_slack (cfg env))
              (ack_request_own a) cs;
       cs \<leftarrow> advance_tx_window env kData (ack_rdbpsn a) (data_window_slack (cfg env))
              (ack_data_own a) cs;
       (drop_detected, cs) \<leftarrow> (if eack then HandleEACK env packet cs else Some (False, cs));
       let cs = emit (RueExplicitAck eack drop_detected) cs;
       let cs = (if enable_rack (cfg env) \<and> rack_use_t1 (cfg env)
                 then RackUpdate env (ack_timestamp_1 a) cs else cs);
       cs \<leftarrow> SetupTlpTimer env cs;
       cs \<leftarrow> retransmit_timer env cs;
       Some (OkStatus, cs)
     }
   }"

section \<open>Negative acknowledgement\<close>

text \<open>
  The scan of \<open>InitiateNackBasedEarlyRetransmission\<close> does not advance its iterator over a packet
  whose bit is set, so it may not return: \<open>None\<close> is an abort or a scan that runs forever.
\<close>

partial_function (option) nack_scan ::
    "rel_env \<Rightarrow> NetPacket \<Rightarrow> WindowType \<Rightarrow> ConnectionState \<Rightarrow> ConnectionState option" where
  "nack_scan env packet t cs =
     (case outstanding_packets (tx_window t cs) of
        [] \<Rightarrow> Some cs
      | work # works \<Rightarrow>
          Option.bind (Some (window_index (tx_bitmap (tx_window t cs)) (rwd_psn work)
                              (tx_base (tx_window t cs)))) (\<lambda>index.
          if index \<ge> uint (early_retransmit_limit cs) then Some cs
          else Option.bind (Get (tx_bitmap (tx_window t cs)) index) (\<lambda>acked.
            if acked then nack_scan env packet t cs
            else Option.bind (GetPacketMetadataFromWorkId cs work) (\<lambda>p.
              if transmission_time p + (received_timestamp packet - nack_timestamp_1 (nack_hdr packet))
                   \<ge> now env then Some cs
              else if early_retx_attempts p < early_retx_threshold (cfg env)
              then Option.bind
                     (retransmit env t work (\<lambda>p. p\<lparr>retransmission_reason := kEarlyNack\<rparr>) cs)
                     (\<lambda>cs. nack_scan env packet t cs)
              else Some cs))))"

definition InitiateNackBasedEarlyRetransmission ::
    "rel_env \<Rightarrow> NetPacket \<Rightarrow> ConnectionState \<Rightarrow> ConnectionState option" where
  "InitiateNackBasedEarlyRetransmission env packet cs =
     nack_scan env packet (GetAppropriateTxWindow_nack (nack_request_window (nack_hdr packet))) cs"

definition HandleRnrNack ::
    "rel_env \<Rightarrow> NetPacket \<Rightarrow> ConnectionState \<Rightarrow> ConnectionState option" where
  "HandleRnrNack env packet cs = do {
     let h = nack_hdr packet;
     let w = tx_window (GetAppropriateTxWindow_nack (nack_request_window h)) cs;
     ctx \<leftarrow> outstanding_packet_contexts w (nack_psn h);
     cs \<leftarrow> update_packet (opc_rsn ctx) (opc_type ctx)
            (\<lambda>p. p\<lparr>nack_code := kUlpReceiverNotReady, pm_rnr_timeout := nack_rnr_timeout h\<rparr>) cs;
     retransmit_timer env cs
   }"

definition CancelRetransmissionAndTriggerResync ::
    "rel_env \<Rightarrow> NetPacket \<Rightarrow> bool \<Rightarrow> ConnectionState \<Rightarrow> ConnectionState option" where
  "CancelRetransmissionAndTriggerResync env packet generate_completion cs = do {
     let h = nack_hdr packet;
     let t = GetAppropriateTxWindow_nack (nack_request_window h);
     let w = tx_window t cs;
     ctx \<leftarrow> outstanding_packet_contexts w (nack_psn h);
     let (erased, ws) = bs_erase work_less
           \<lparr>rwd_rsn = opc_rsn ctx, rwd_psn = nack_psn h, rwd_type = opc_type ctx\<rparr>
           (outstanding_packets w);
     let cs = put_tx_window t (w\<lparr>outstanding_packets := ws\<rparr>) cs;
     let cs = (if erased then UpdateOutstandingCounterAfterErase cs else cs);
     if generate_completion then emit_checked env (ReorderInsert kNack (opc_rsn ctx) 0) cs
     else Some cs
   }"

definition RackUpdateByNack ::
    "rel_env \<Rightarrow> NetPacket \<Rightarrow> ConnectionState \<Rightarrow> ConnectionState option" where
  "RackUpdateByNack env packet cs =
     (if enable_rack (cfg env) then
        (if rack_use_t1 (cfg env)
         then Some (RackUpdate env (nack_timestamp_1 (nack_hdr packet)) cs)
         else do {
           p \<leftarrow> GetPacketMetadataFromPsn cs
                  (GetAppropriateTxWindow_nack (nack_request_window (nack_hdr packet)))
                  (nack_psn (nack_hdr packet));
           Some (RackUpdate env (transmission_time p) cs)
         })
      else Some cs)"

text \<open>The handling by NACK code; an uninitialised code is no defined behaviour.\<close>

definition nack_action ::
    "rel_env \<Rightarrow> NetPacket \<Rightarrow> NackCode \<Rightarrow> ConnectionState \<Rightarrow> ConnectionState option" where
  "nack_action env packet code cs =
     (case code of
        kRxResourceExhaustion \<Rightarrow> Some cs
      | kUlpReceiverNotReady \<Rightarrow> HandleRnrNack env packet cs
      | kRxWindowError \<Rightarrow>
          (if \<not> EackBasedEarlyRetransmissionIsEnabled (cfg env)
           then InitiateNackBasedEarlyRetransmission env packet cs else Some cs)
      | kUlpCompletionInError \<Rightarrow> CancelRetransmissionAndTriggerResync env packet True cs
      | kUlpNonRecoverableError \<Rightarrow> CancelRetransmissionAndTriggerResync env packet True cs
      | kInvalidCidError \<Rightarrow> CancelRetransmissionAndTriggerResync env packet True cs
      | kXlrDrop \<Rightarrow> CancelRetransmissionAndTriggerResync env packet False cs
      | kNotANack \<Rightarrow> None)"

definition HandleNack ::
    "rel_env \<Rightarrow> NetPacket \<Rightarrow> ConnectionState \<Rightarrow> (status \<times> ConnectionState) option" where
  "HandleNack env packet cs = do {
     cs \<leftarrow> HandlePiggybackedACK env packet cs;
     code \<leftarrow> nack_hdr_code (nack_hdr packet);
     cs \<leftarrow> nack_action env packet code cs;
     cs \<leftarrow> RackUpdateByNack env packet (emit (RueNack packet) cs);
     cs \<leftarrow> SetupTlpTimer env cs;
     cs \<leftarrow> retransmit_timer env cs;
     Some (OkStatus, cs)
   }"

section \<open>Tail-loss probes\<close>

fun first_unreceived ::
    "rel_config \<Rightarrow> ConnectionState \<Rightarrow> RetransmissionWorkId list \<Rightarrow>
     RetransmissionWorkId option option" where
  "first_unreceived c cs [] = Some None"
| "first_unreceived c cs (work # works) = do {
     p \<leftarrow> GetPacketMetadataFromWorkId cs work;
     if \<not> IsReceived c p then Some (Some work) else first_unreceived c cs works
   }"

definition tlp_first ::
    "rel_config \<Rightarrow> ConnectionState \<Rightarrow> RetransmissionWorkId list \<Rightarrow>
     RetransmissionWorkId option option" where
  "tlp_first c cs works =
     (if tlp_type c = TLP_FIRST_UNRECEIVED then first_unreceived c cs works
      else Some (case works of [] \<Rightarrow> None | work # _ \<Rightarrow> Some work))"

definition TlpRetransmitFirst ::
    "rel_config \<Rightarrow> ConnectionState \<Rightarrow> (WindowType \<times> RetransmissionWorkId option) option" where
  "TlpRetransmitFirst c cs = do {
     fr \<leftarrow> tlp_first c cs (outstanding_packets (tx_request_window cs));
     fd \<leftarrow> tlp_first c cs (outstanding_packets (tx_data_window cs));
     Some (case (fr, fd) of
         (Some r, Some d) \<Rightarrow>
           (if rwd_type d = kPullData \<or> rwd_type d = kPushGrant \<or> rwd_rsn d < rwd_rsn r
            then (kData, Some d) else (kRequest, Some r))
       | (Some r, None) \<Rightarrow> (kRequest, Some r)
       | (None, Some d) \<Rightarrow> (kData, Some d)
       | (None, None) \<Rightarrow> (kRequest, None))
   }"

text \<open>The last unreceived packet of each window; the later transmission wins.\<close>

definition TlpRetransmitLast ::
    "rel_config \<Rightarrow> ConnectionState \<Rightarrow> (WindowType \<times> RetransmissionWorkId option) option" where
  "TlpRetransmitLast c cs = do {
     lr \<leftarrow> first_unreceived c cs (rev (outstanding_packets (tx_request_window cs)));
     ld \<leftarrow> first_unreceived c cs (rev (outstanding_packets (tx_data_window cs)));
     case (lr, ld) of
       (Some r, Some d) \<Rightarrow> do {
         pr \<leftarrow> GetPacketMetadataFromWorkId cs r;
         pd \<leftarrow> GetPacketMetadataFromWorkId cs d;
         Some (if transmission_time pd > transmission_time pr then (kData, Some d)
               else (kRequest, Some r))
       }
     | (Some r, None) \<Rightarrow> Some (kRequest, Some r)
     | (None, Some d) \<Rightarrow> Some (kData, Some d)
     | (None, None) \<Rightarrow> Some (kRequest, None)
   }"

definition HandleTlpTimeout :: "rel_env \<Rightarrow> ConnectionState \<Rightarrow> ConnectionState option" where
  "HandleTlpTimeout env cs =
     (if tlp_pto cs \<noteq> now env then Some cs
      else do {
        let cs = cs\<lparr>tlp_pto := ZeroDuration\<rparr>;
        (t, probe) \<leftarrow> (if tlp_type (cfg env) = TLP_LAST then TlpRetransmitLast (cfg env) cs
                      else TlpRetransmitFirst (cfg env) cs);
        case probe of
          None \<Rightarrow> Some cs
        | Some work \<Rightarrow> do {
            p \<leftarrow> GetPacketMetadataFromWorkId cs work;
            if early_retx_attempts p \<ge> early_retx_threshold (cfg env) then Some cs
            else retransmit env t work (\<lambda>p. p\<lparr>retransmission_reason := kEarlyTlp\<rparr>) cs
          }
      })"

end
