(* ===== verification/Loss_Recovery_Facts.thy ===== *)
theory Loss_Recovery_Facts
  imports Loss_Recovery
begin

text \<open>
  What the loss recovery of \<open>Loss_Recovery\<close> guarantees: the meaning of the early-retransmission
  limits of an EACK, the exact effect of a retransmission timeout on a window, and when the scan a
  NACK starts returns.
\<close>

section \<open>What the limits mean\<close>

text \<open>How many set positions lie in a range.\<close>

definition set_count :: "FalconBitmap \<Rightarrow> int \<Rightarrow> int \<Rightarrow> nat" where
  "set_count w lo hi = card {j. lo \<le> j \<and> j < hi \<and> bit_at w j}"

lemma set_count_empty [simp]: "hi \<le> lo \<Longrightarrow> set_count w lo hi = 0"
  unfolding set_count_def by (subst card_eq_0_iff) auto

lemma set_count_step:
  assumes "lo < hi"
  shows "set_count w lo hi = of_bool (bit_at w lo) + set_count w (lo + 1) hi"
proof -
  have "{j. lo \<le> j \<and> j < hi \<and> bit_at w j} =
      (if bit_at w lo then insert lo {j. lo + 1 \<le> j \<and> j < hi \<and> bit_at w j}
       else {j. lo + 1 \<le> j \<and> j < hi \<and> bit_at w j})"
    using assms by (auto simp: order.order_iff_strict)
  moreover have "finite {j. lo + 1 \<le> j \<and> j < hi \<and> bit_at w j}"
    by (rule finite_subset [of _ "{lo + 1..<hi}"]) auto
  ultimately show ?thesis by (simp add: set_count_def)
qed

lemma set_count_mono: "lo \<le> lo' \<Longrightarrow> set_count w lo' hi \<le> set_count w lo hi"
  unfolding set_count_def
  by (rule card_mono) (auto intro: finite_subset [of _ "{lo..<hi}"])

lemma ooo_count_scan_spec:
  assumes "bitmap_wf w" "int k \<le> Size w" "count = set_count w (int k) (Size w)"
    "\<And>i. int k \<le> i \<Longrightarrow> i < Size w \<Longrightarrow> set_count w (i + 1) (Size w) < unat threshold"
  shows "\<exists>l. ooo_count_scan w threshold k count = Some l \<and>
    (\<forall>i. 0 \<le> i \<and> i < Size w \<longrightarrow> (i \<le> l \<longleftrightarrow> unat threshold \<le> set_count w (i + 1) (Size w)))"
  using assms(2-)
proof (induction k arbitrary: count)
  case 0
  then show ?case by (auto simp: not_le dest: leD)
next
  case (Suc k)
  have get: "Get w (int k) = Some (bit_at w (int k))"
    using Suc.prems(1) bm.get_view [OF assms(1)] by simp
  have step: "set_count w (int k) (Size w) = of_bool (bit_at w (int k)) + set_count w (int (Suc k)) (Size w)"
    using set_count_step [of "int k" "Size w"] Suc.prems(1) by (simp add: add.commute)
  show ?case
  proof (cases "count < unat threshold")
    case True
    have "set_count w (i + 1) (Size w) < unat threshold" if "int k \<le> i" "i < Size w" for i
      using Suc.prems(2) Suc.prems(3) [of i] True that
      by (cases "i = int k") (simp_all add: add.commute)
    then show ?thesis
      using Suc.IH [of "count + of_bool (bit_at w (int k))"] Suc.prems(1,2) get step True
      by (simp add: add.commute)
  next
    case False
    then have "unat threshold \<le> set_count w (i + 1) (Size w)" if "i \<le> int k" for i
      using set_count_mono [of "i + 1" "int (Suc k)" w "Size w"] that Suc.prems(2) by simp
    moreover have "i \<le> int k" if "unat threshold \<le> set_count w (i + 1) (Size w)" "0 \<le> i" "i < Size w" for i
      using Suc.prems(3) [of i] that by force
    ultimately show ?thesis using False by auto
  qed
qed

lemma EarlyRetransmissionOooCount_spec:
  assumes "bitmap_wf (awm_window m)"
  shows "\<exists>l. EarlyRetransmissionOooCount c m = Some l \<and>
    (\<forall>i. 0 \<le> i \<and> i < Size (awm_window m) \<longrightarrow>
       (i \<le> l \<longleftrightarrow> unat (ooo_count_threshold c) \<le> set_count (awm_window m) (i + 1) (Size (awm_window m))))"
  using ooo_count_scan_spec [OF assms, of "nat (Size (awm_window m))" 0 "ooo_count_threshold c"]
    bm.sz_nonneg [OF assms]
  by (simp add: EarlyRetransmissionOooCount_def)

lemma highest_set_spec:
  assumes "bitmap_wf w" "int k \<le> Size w"
  shows "\<exists>l. highest_set w k = Some l \<and> - 1 \<le> l \<and> l < int k \<and>
    (\<forall>j. 0 \<le> j \<and> j < int k \<and> bit_at w j \<longrightarrow> j \<le> l) \<and> (0 \<le> l \<longrightarrow> bit_at w l)"
  using assms(2)
proof (induction k)
  case (Suc k)
  have get: "Get w (int k) = Some (bit_at w (int k))"
    using Suc.prems bm.get_view [OF assms(1)] by simp
  obtain l where l: "highest_set w k = Some l" "- 1 \<le> l" "l < int k"
      "\<And>j. 0 \<le> j \<Longrightarrow> j < int k \<Longrightarrow> bit_at w j \<Longrightarrow> j \<le> l" "0 \<le> l \<Longrightarrow> bit_at w l"
    using Suc.IH Suc.prems by auto
  show ?case
  proof (cases "bit_at w (int k)")
    case False
    have "j \<le> l" if "0 \<le> j" "j < int (Suc k)" "bit_at w j" for j
      using l(4) [of j] that False by (cases "j = int k") auto
    then show ?thesis using l False get by auto
  qed (simp add: get)
qed simp

lemma offset_range:
  "- 1 \<le> h \<Longrightarrow> h < s \<Longrightarrow> s < 2 ^ 30 \<Longrightarrow> 0 \<le> d \<Longrightarrow> d < 2 ^ 30 \<Longrightarrow>
   - (2 ^ 31) \<le> h - d \<and> h - d < 2 ^ 31" for h s d :: int
  by simp

lemma EarlyRetransmissionOooDistance_spec:
  assumes "bitmap_wf (awm_window m)" "Size (awm_window m) < 2 ^ 30"
    "uint (ooo_distance_threshold c) < 2 ^ 30"
  shows "\<exists>l. EarlyRetransmissionOooDistance c m = Some l \<and>
    (\<forall>i. 0 \<le> i \<and> i < Size (awm_window m) \<longrightarrow>
       (i \<le> l \<longleftrightarrow> (\<exists>j. i + uint (ooo_distance_threshold c) \<le> j \<and> j < Size (awm_window m)
                    \<and> bit_at (awm_window m) j)))"
proof -
  let ?w = "awm_window m" and ?d = "uint (ooo_distance_threshold c)"
  obtain h where h: "highest_set ?w (nat (Size ?w)) = Some h" "- 1 \<le> h" "h < Size ?w"
      "\<And>j. 0 \<le> j \<Longrightarrow> j < Size ?w \<Longrightarrow> bit_at ?w j \<Longrightarrow> j \<le> h" "0 \<le> h \<Longrightarrow> bit_at ?w h"
    using highest_set_spec [OF assms(1), of "nat (Size ?w)"] bm.sz_nonneg [OF assms(1)] by auto
  have d: "0 \<le> ?d" by simp
  note range = offset_range [OF h(2,3) assms(2) d assms(3)]
  have "word_of_int h - ooo_distance_threshold c = word_of_int (h - ?d)" by simp
  then have "sint (word_of_int h - ooo_distance_threshold c) = h - ?d"
    using sint_of_small [of "h - ?d"] range by simp
  moreover have "(i \<le> h - ?d) = (\<exists>j. i + ?d \<le> j \<and> j < Size ?w \<and> bit_at ?w j)" if "0 \<le> i" for i
  proof
    assume "i \<le> h - ?d"
    then show "\<exists>j. i + ?d \<le> j \<and> j < Size ?w \<and> bit_at ?w j"
      using h(3,5) that d by (intro exI [of _ h]) linarith
  next
    assume "\<exists>j. i + ?d \<le> j \<and> j < Size ?w \<and> bit_at ?w j"
    then obtain j where j: "i + ?d \<le> j" "j < Size ?w" "bit_at ?w j" by blast
    then have "0 \<le> j" using that d by linarith
    then show "i \<le> h - ?d" using h(4) [of j] j by linarith
  qed
  ultimately show ?thesis using h(1) by (simp add: EarlyRetransmissionOooDistance_def)
qed

text \<open>The rule the limit implements: enough later packets arrived, or one far enough ahead did.\<close>

definition overtaken :: "rel_config \<Rightarrow> FalconBitmap \<Rightarrow> int \<Rightarrow> bool" where
  "overtaken c w i \<longleftrightarrow>
     (enable_ooo_count c \<and> unat (ooo_count_threshold c) \<le> set_count w (i + 1) (Size w)) \<or>
     (enable_ooo_distance c \<and>
        (\<exists>j. i + uint (ooo_distance_threshold c) \<le> j \<and> j < Size w \<and> bit_at w j))"

section \<open>The timeout scan\<close>

text \<open>What the scan reads of the connection besides the packets, and the requests it makes.\<close>

definition scan_view where
  "scan_view t cs = (tx_base (tx_window t cs), tx_bitmap (tx_window t cs), retransmit_timeout cs,
     rack_rto cs, rack_xmit_ts cs, ulp_rto cs, max_retransmit_attempts cs)"

fun retx_request :: "call \<Rightarrow> (u32 \<times> PacketType) list" where
  "retx_request (RetxEnqueue rsn type) = [(rsn, type)]"
| "retx_request _ = []"

definition retx_requests :: "ConnectionState \<Rightarrow> (u32 \<times> PacketType) list" where
  "retx_requests cs = concat (map retx_request (calls cs))"

definition work_packet :: "RetransmissionWorkId \<Rightarrow> u32 \<times> PacketType" where
  "work_packet work = (rwd_rsn work, rwd_type work)"

definition scan_index :: "WindowType \<Rightarrow> ConnectionState \<Rightarrow> RetransmissionWorkId \<Rightarrow> int" where
  "scan_index t cs work =
     window_index (tx_bitmap (tx_window t cs)) (rwd_psn work) (tx_base (tx_window t cs))"

definition is_acked :: "WindowType \<Rightarrow> ConnectionState \<Rightarrow> RetransmissionWorkId \<Rightarrow> bool" where
  "is_acked t cs work \<longleftrightarrow> bit_at (tx_bitmap (tx_window t cs)) (scan_index t cs work)"

definition expired :: "rel_env \<Rightarrow> ConnectionState \<Rightarrow> RetransmissionWorkId \<Rightarrow> bool" where
  "expired env cs work \<longleftrightarrow> (\<exists>p. GetPacketMetadataFromWorkId cs work = Some p \<and>
     GetTimeoutOfPacket (cfg env) cs p \<le> now env - transmission_time p)"

lemma scan_view_sel:
  assumes "scan_view t cs' = scan_view t cs"
  shows "tx_base (tx_window t cs') = tx_base (tx_window t cs)"
    "tx_bitmap (tx_window t cs') = tx_bitmap (tx_window t cs)"
    "retransmit_timeout cs' = retransmit_timeout cs" "rack_rto cs' = rack_rto cs"
    "rack_xmit_ts cs' = rack_xmit_ts cs" "ulp_rto cs' = ulp_rto cs"
    "max_retransmit_attempts cs' = max_retransmit_attempts cs"
  using assms by (simp_all add: scan_view_def)

lemma scan_view_map [simp]:
  "(\<And>w. tx_base (f w) = tx_base w \<and> tx_bitmap (f w) = tx_bitmap w) \<Longrightarrow>
   scan_view t (map_tx_window u f cs) = scan_view t cs"
  by (cases t; cases u) (simp_all add: scan_view_def map_tx_window_def put_tx_window_def tx_window_def)

lemma map_tx_window_other [simp]:
  "transactions (map_tx_window u f cs) = transactions cs" "calls (map_tx_window u f cs) = calls cs"
  by (simp_all add: map_tx_window_def)

lemma scan_counters [simp]:
  "scan_view t (UpdateOutstandingCounterAfterErase cs) = scan_view t cs"
  "scan_view t (DecrementOutstandingRetransmittedRequestCount type b cs) = scan_view t cs"
  "scan_view t (emit c cs) = scan_view t cs"
  "transactions (UpdateOutstandingCounterAfterErase cs) = transactions cs"
  "transactions (DecrementOutstandingRetransmittedRequestCount type b cs) = transactions cs"
  "calls (UpdateOutstandingCounterAfterErase cs) = calls cs"
  "calls (DecrementOutstandingRetransmittedRequestCount type b cs) = calls cs"
  "tx_window t (UpdateOutstandingCounterAfterErase cs) = tx_window t cs"
  "outstanding_packets (tx_window t (DecrementOutstandingRetransmittedRequestCount type b cs))
     = outstanding_packets (tx_window t cs)"
  by (simp_all add: UpdateOutstandingCounterAfterErase_def Let_def scan_view_def tx_window_def emit_def
      DecrementOutstandingRetransmittedRequestCount_def map_tx_window_def put_tx_window_def)

lemma erase_head:
  "outstanding_packets (tx_window t cs) = work # works \<Longrightarrow>
   outstanding_packets (tx_window t (erase_outstanding t work cs)) = works"
  by (simp add: erase_outstanding_def map_tx_window_def work_less_def SeqLT_def)

lemma erase_outstanding_view [simp]:
  "scan_view t (erase_outstanding u work cs) = scan_view t cs"
  "transactions (erase_outstanding u work cs) = transactions cs"
  "calls (erase_outstanding u work cs) = calls cs"
  by (simp_all add: erase_outstanding_def)

lemma update_packet_spec:
  assumes "packet_of cs rsn type = Some p"
  shows "\<exists>trs. update_packet rsn type f cs = Some (cs\<lparr>transactions := trs\<rparr>)
    \<and> packet_of (cs\<lparr>transactions := trs\<rparr>) rsn type = Some (f p)
    \<and> (\<forall>rsn' type'. (rsn', type') \<noteq> (rsn, type) \<longrightarrow>
         packet_of (cs\<lparr>transactions := trs\<rparr>) rsn' type' = packet_of cs rsn' type')"
proof -
  obtain key tr where k: "packet_key rsn type = Some key" "transactions cs key = Some tr"
      "packets tr type = Some p"
    using assms by (auto simp: packet_of_def bind_eq_Some_conv)
  have other: "packet_of (cs\<lparr>transactions := (transactions cs)
        (key \<mapsto> tr\<lparr>packets := (packets tr)(type \<mapsto> f p)\<rparr>)\<rparr>) rsn' type' = packet_of cs rsn' type'"
    if "(rsn', type') \<noteq> (rsn, type)" for rsn' type'
  proof (cases "packet_key rsn' type'")
    case (Some key')
    then show ?thesis
      using that k packet_key_rsn [OF k(1)] packet_key_rsn [OF Some]
      by (auto simp: packet_of_def)
  qed (simp add: packet_of_def)
  have "update_packet rsn type f cs = Some (cs\<lparr>transactions := (transactions cs)
        (key \<mapsto> tr\<lparr>packets := (packets tr)(type \<mapsto> f p)\<rparr>)\<rparr>)"
    "packet_of (cs\<lparr>transactions := (transactions cs)
        (key \<mapsto> tr\<lparr>packets := (packets tr)(type \<mapsto> f p)\<rparr>)\<rparr>) rsn type = Some (f p)"
    using k by (simp_all add: update_packet_def packet_of_def)
  then show ?thesis using other by blast
qed

lemma packet_of_cong: "transactions cs' = transactions cs \<Longrightarrow> packet_of cs' rsn type = packet_of cs rsn type"
  by (simp add: packet_of_def)

lemma retransmit_spec:
  assumes p: "GetPacketMetadataFromWorkId cs work = Some p"
    and out: "outstanding_packets (tx_window t cs) = work # works"
  shows "\<exists>cs'. retransmit env t work f cs = Some cs' \<and> scan_view t cs' = scan_view t cs
    \<and> outstanding_packets (tx_window t cs') = works
    \<and> retx_requests cs' = retx_requests cs @ [work_packet work]
    \<and> (\<forall>w. work_packet w \<noteq> work_packet work \<longrightarrow>
         GetPacketMetadataFromWorkId cs' w = GetPacketMetadataFromWorkId cs w)"
proof -
  let ?rsn = "rwd_rsn work" and ?type = "rwd_type work"
  obtain trs where upd: "update_packet ?rsn ?type f cs = Some (cs\<lparr>transactions := trs\<rparr>)"
      "packet_of (cs\<lparr>transactions := trs\<rparr>) ?rsn ?type = Some (f p)"
      "\<And>rsn' type'. (rsn', type') \<noteq> (?rsn, ?type) \<Longrightarrow>
         packet_of (cs\<lparr>transactions := trs\<rparr>) rsn' type' = packet_of cs rsn' type'"
    using update_packet_spec [of cs ?rsn ?type p f] p by (auto simp: GetPacketMetadataFromWorkId_def)
  let ?cs1 = "emit (RetxEnqueue ?rsn ?type) (cs\<lparr>transactions := trs\<rparr>)"
  obtain cs2 where init: "InitiateRetransmission env ?rsn ?type (cs\<lparr>transactions := trs\<rparr>) = Some cs2"
      "cs2 = ?cs1 \<or> cs2 = DecrementOutstandingRetransmittedRequestCount ?type False ?cs1"
    using upd(2) packet_of_cong [of ?cs1 "cs\<lparr>transactions := trs\<rparr>"]
    by (auto simp: InitiateRetransmission_def Let_def)
  have view: "scan_view t cs2 = scan_view t cs" "transactions cs2 = trs"
      "retx_requests cs2 = retx_requests cs @ [work_packet work]"
      "outstanding_packets (tx_window t cs2) = work # works"
    using init(2) out
    by (auto simp: retx_requests_def work_packet_def) (auto simp: scan_view_def tx_window_def)
  have "retransmit env t work f cs = Some (erase_outstanding t work cs2)"
    using upd(1) init(1) by (simp add: retransmit_def)
  moreover have "GetPacketMetadataFromWorkId (erase_outstanding t work cs2) w
      = GetPacketMetadataFromWorkId cs w" if "work_packet w \<noteq> work_packet work" for w
    using upd(3) [of "rwd_rsn w" "rwd_type w"] that view(2)
      packet_of_cong [of "erase_outstanding t work cs2" "cs\<lparr>transactions := trs\<rparr>"]
    by (simp add: GetPacketMetadataFromWorkId_def work_packet_def)
  ultimately show ?thesis using view erase_head [OF view(4)] by (simp add: retx_requests_def)
qed

text \<open>Every listed packet has a position and metadata and retransmissions left.\<close>

definition scannable :: "WindowType \<Rightarrow> ConnectionState \<Rightarrow> RetransmissionWorkId list \<Rightarrow> bool" where
  "scannable t cs works \<longleftrightarrow> distinct (map work_packet works) \<and>
     (\<forall>work \<in> set works. 0 \<le> scan_index t cs work \<and> scan_index t cs work < Size (tx_bitmap (tx_window t cs)) \<and>
        (\<exists>p. GetPacketMetadataFromWorkId cs work = Some p
              \<and> timeout_retransmission_attempts p < max_retransmit_attempts cs))"

lemma scan_cong:
  assumes "scan_view t cs' = scan_view t cs"
  shows "scan_index t cs' w = scan_index t cs w" "is_acked t cs' w = is_acked t cs w"
    "GetTimeoutOfPacket c cs' p = GetTimeoutOfPacket c cs p"
  by (simp_all only: is_acked_def scan_index_def GetTimeoutOfPacket_def scan_view_sel [OF assms])

lemma scannable_cong:
  assumes "scan_view t cs' = scan_view t cs" "scannable t cs (work # works)"
    "\<And>w. work_packet w \<noteq> work_packet work \<Longrightarrow>
       GetPacketMetadataFromWorkId cs' w = GetPacketMetadataFromWorkId cs w"
  shows "scannable t cs' works"
    "\<And>w. w \<in> set works \<Longrightarrow> expired env cs' w = expired env cs w"
proof -
  have ne: "work_packet w \<noteq> work_packet work" if "w \<in> set works" for w
    using assms(2) that by (auto simp: scannable_def image_iff)
  show "\<And>w. w \<in> set works \<Longrightarrow> expired env cs' w = expired env cs w"
    using assms(3) [OF ne] by (simp add: expired_def scan_cong [OF assms(1)])
  show "scannable t cs' works"
    using assms(2) assms(3) [OF ne]
    by (simp add: scannable_def scan_cong [OF assms(1)] scan_view_sel [OF assms(1)])
qed

lemma scan_timeouts_spec:
  assumes "bitmap_wf (tx_bitmap (tx_window t cs))" "scannable t cs works"
    "outstanding_packets (tx_window t cs) = works"
  shows "\<exists>cs'. scan_timeouts env t works cs = Some cs' \<and> scan_view t cs' = scan_view t cs
    \<and> retx_requests cs' = retx_requests cs @ map work_packet (filter (\<lambda>w. \<not> is_acked t cs w)
         (takeWhile (\<lambda>w. is_acked t cs w \<or> expired env cs w) works))
    \<and> outstanding_packets (tx_window t cs')
         = dropWhile (\<lambda>w. is_acked t cs w \<or> expired env cs w) works"
  using assms
proof (induction works arbitrary: cs)
  case (Cons work works)
  obtain p where p: "GetPacketMetadataFromWorkId cs work = Some p"
      "timeout_retransmission_attempts p < max_retransmit_attempts cs"
    using Cons.prems(2) by (auto simp: scannable_def)
  have get: "Get (tx_bitmap (tx_window t cs)) (window_index (tx_bitmap (tx_window t cs)) (rwd_psn work)
      (tx_base (tx_window t cs))) = Some (is_acked t cs work)"
    using Cons.prems(2) bm.get_view [OF Cons.prems(1)]
    by (simp add: scannable_def is_acked_def scan_index_def)
  have continue: "\<exists>cs'. scan_timeouts env t works cs1 = Some cs' \<and> scan_view t cs' = scan_view t cs
      \<and> retx_requests cs' = retx_requests cs1 @ map work_packet (filter (\<lambda>w. \<not> is_acked t cs w)
           (takeWhile (\<lambda>w. is_acked t cs w \<or> expired env cs w) works))
      \<and> outstanding_packets (tx_window t cs')
           = dropWhile (\<lambda>w. is_acked t cs w \<or> expired env cs w) works"
    if v: "scan_view t cs1 = scan_view t cs" "outstanding_packets (tx_window t cs1) = works"
      "\<And>w. work_packet w \<noteq> work_packet work \<Longrightarrow>
         GetPacketMetadataFromWorkId cs1 w = GetPacketMetadataFromWorkId cs w" for cs1
  proof -
    note sc = scannable_cong [OF v(1) Cons.prems(2) v(3)]
    have "takeWhile (\<lambda>w. is_acked t cs1 w \<or> expired env cs1 w) works
          = takeWhile (\<lambda>w. is_acked t cs w \<or> expired env cs w) works"
        "dropWhile (\<lambda>w. is_acked t cs1 w \<or> expired env cs1 w) works
          = dropWhile (\<lambda>w. is_acked t cs w \<or> expired env cs w) works"
      using sc(2) by (auto simp: scan_cong [OF v(1)] intro!: takeWhile_cong dropWhile_cong)
    then show ?thesis
      using Cons.IH [of cs1] Cons.prems(1) sc(1) v
      by (simp add: scan_view_sel [OF v(1)] scan_cong [OF v(1)])
  qed
  show ?case
  proof (cases "is_acked t cs work")
    case True
    have "GetPacketMetadataFromWorkId (erase_outstanding t work cs) w = GetPacketMetadataFromWorkId cs w" for w
      by (simp add: GetPacketMetadataFromWorkId_def packet_of_def)
    then show ?thesis
      using continue [OF erase_outstanding_view(1) erase_head [OF Cons.prems(3)]] True get
      by (simp add: Let_def retx_requests_def)
  next
    case False
    show ?thesis
    proof (cases "expired env cs work")
      case True
      then have "\<not> now env - transmission_time p < GetTimeoutOfPacket (cfg env) cs p"
        using p by (simp add: expired_def)
      moreover obtain cs1 where cs1: "retransmit env t work (timeout_reason env cs p) cs = Some cs1"
          "scan_view t cs1 = scan_view t cs" "outstanding_packets (tx_window t cs1) = works"
          "retx_requests cs1 = retx_requests cs @ [work_packet work]"
          "\<And>w. work_packet w \<noteq> work_packet work \<Longrightarrow>
             GetPacketMetadataFromWorkId cs1 w = GetPacketMetadataFromWorkId cs w"
        using retransmit_spec [OF p(1) Cons.prems(3)] by blast
      ultimately show ?thesis using continue [OF cs1(2,3,5)] False True get p by (simp add: Let_def)
    next
      case no: False
      then have "now env - transmission_time p < GetTimeoutOfPacket (cfg env) cs p"
        using p by (simp add: expired_def)
      then show ?thesis using False no get p Cons.prems(3) by (simp add: Let_def)
    qed
  qed
qed simp

section \<open>Properties\<close>


text \<open>
  C12 Early-retransmission limit. Without an out-of-window notification, the limit an EACK yields
  covers exactly the positions of the window that the enabled rules call overtaken: at least
  \<open>ooo_count_threshold\<close> later packets have arrived, or one at least \<open>ooo_distance_threshold\<close>
  positions ahead.
\<close>

theorem retx_limit_is_overtaken:
  assumes "bitmap_wf (awm_window m)" "Size (awm_window m) < 2 ^ 30"
    "uint (ooo_distance_threshold c) < 2 ^ 30" "\<not> awm_own m \<or> \<not> enable_eack_own c"
  shows "\<exists>l. retx_limit_of c m next_psn = Some l \<and>
    (\<forall>i. 0 \<le> i \<and> i < Size (awm_window m) \<longrightarrow> (i \<le> l \<longleftrightarrow> overtaken c (awm_window m) i))"
proof -
  obtain a where a: "EarlyRetransmissionOooCount c m = Some a"
      "\<And>i. 0 \<le> i \<Longrightarrow> i < Size (awm_window m) \<Longrightarrow>
         i \<le> a \<longleftrightarrow> unat (ooo_count_threshold c) \<le> set_count (awm_window m) (i + 1) (Size (awm_window m))"
    using EarlyRetransmissionOooCount_spec [OF assms(1)] by blast
  obtain b where b: "EarlyRetransmissionOooDistance c m = Some b"
      "\<And>i. 0 \<le> i \<Longrightarrow> i < Size (awm_window m) \<Longrightarrow> i \<le> b \<longleftrightarrow>
         (\<exists>j. i + uint (ooo_distance_threshold c) \<le> j \<and> j < Size (awm_window m) \<and> bit_at (awm_window m) j)"
    using EarlyRetransmissionOooDistance_spec [OF assms(1-3)] by blast
  let ?l = "max (if enable_ooo_count c then a else - 1) (if enable_ooo_distance c then b else - 1)"
  have "retx_limit_of c m next_psn = Some (max (- 1) ?l)"
    using a(1) b(1) assms(4)
    by (auto simp: retx_limit_of_def EarlyRetransmissionMergeRetxLimit_def max_def)
  moreover have "i \<le> max (- 1) ?l \<longleftrightarrow> overtaken c (awm_window m) i"
    if "0 \<le> i" "i < Size (awm_window m)" for i
    using a(2) [OF that] b(2) [OF that] that(1) by (auto simp: overtaken_def le_max_iff_disj)
  ultimately show ?thesis by blast
qed

lemma retx_limit_is_overtaken_witness:
  "\<exists>l. retx_limit_of default_config \<lparr>awm_base = 0, awm_own = False,
         awm_window = FalconBitmap_new 128 128\<rparr> 0 = Some l
     \<and> (0 \<le> l \<longleftrightarrow> overtaken default_config (FalconBitmap_new 128 128) 0)"
  using retx_limit_is_overtaken [of "\<lparr>awm_base = 0, awm_own = False,
      awm_window = FalconBitmap_new 128 128\<rparr>" default_config 0]
  by (force simp: default_config_def)


text \<open>
  C6 A retransmission timeout. The scan of a window requests the retransmission of exactly the
  expired packets at the front of its outstanding list, once each and in order, skips those already
  acknowledged, and leaves the rest of the list, from the first unexpired packet on, outstanding.
\<close>

theorem timeout_retransmits_expired_prefix:
  assumes "bitmap_wf (tx_bitmap (tx_window t cs))"
    "scannable t cs (outstanding_packets (tx_window t cs))"
  shows "\<exists>cs'. scan_timeouts env t (outstanding_packets (tx_window t cs)) cs = Some cs'
    \<and> retx_requests cs' = retx_requests cs @ map work_packet (filter (\<lambda>w. \<not> is_acked t cs w)
         (takeWhile (\<lambda>w. is_acked t cs w \<or> expired env cs w) (outstanding_packets (tx_window t cs))))
    \<and> outstanding_packets (tx_window t cs')
         = dropWhile (\<lambda>w. is_acked t cs w \<or> expired env cs w) (outstanding_packets (tx_window t cs))"
  using scan_timeouts_spec [OF assms refl] by blast

lemma sent_packet: "GetPacketMetadataFromWorkId sent_example \<lparr>rwd_rsn = 0, rwd_psn = 0, rwd_type = kPullRequest\<rparr>
    = packets (pull_transaction (Some 0)) kPullRequest"
  by (simp add: GetPacketMetadataFromWorkId_def packet_of_def packet_key_def sent_example_sel)

lemma sent_outstanding: "outstanding_packets (tx_window kRequest sent_example)
    = [\<lparr>rwd_rsn = 0, rwd_psn = 0, rwd_type = kPullRequest\<rparr>]"
  by (simp add: sent_example_sel sent_window_def)

lemma sent_fields: "retransmit_timeout sent_example = ZeroDuration"
    "max_retransmit_attempts sent_example = 2147483647"
  by (simp_all add: sent_example_def ready_example_def example_simps)

lemma no_requests: "retx_requests sent_example = []"
  by (simp add: retx_requests_def sent_example_sel)

lemma pull_packet: "\<exists>p. packets (pull_transaction (Some 0)) kPullRequest = Some p \<and> transmission_time p = ZeroDuration
    \<and> timeout_retransmission_attempts p = 0 \<and> nack_code p = kNotANack \<and> \<not> received p"
  by (simp add: pull_transaction_def new_PacketMetadata_def)

lemma sent_scannable: "scannable kRequest sent_example (outstanding_packets (tx_window kRequest sent_example))"
proof -
  have "scan_index kRequest sent_example \<lparr>rwd_rsn = 0, rwd_psn = 0, rwd_type = kPullRequest\<rparr> = 0"
    by (simp add: scan_index_def sent_example_sel sent_window_sel window_index_def)
  moreover have "0 < Size (tx_bitmap (tx_window kRequest sent_example))"
    by (simp add: sent_example_sel sent_window_sel)
  ultimately show ?thesis
    unfolding sent_outstanding scannable_def using pull_packet by (auto simp: sent_packet sent_fields)
qed

lemma timeout_retransmits_expired_prefix_witness:
  "\<exists>cs'. scan_timeouts (quiet_env 8) kRequest (outstanding_packets (tx_window kRequest sent_example))
       sent_example = Some cs'
     \<and> retx_requests cs' = [(0, kPullRequest)] \<and> outstanding_packets (tx_window kRequest cs') = []"
proof -
  have wf: "bitmap_wf (tx_bitmap (tx_window kRequest sent_example))"
    by (simp add: sent_example_sel sent_window_sel)
  have "\<not> is_acked kRequest sent_example \<lparr>rwd_rsn = 0, rwd_psn = 0, rwd_type = kPullRequest\<rparr>"
    by (simp add: is_acked_def sent_example_sel sent_window_sel)
  moreover have "expired (quiet_env 8) sent_example \<lparr>rwd_rsn = 0, rwd_psn = 0, rwd_type = kPullRequest\<rparr>"
    using pull_packet
    by (auto simp: expired_def sent_packet GetTimeoutOfPacket_def quiet_env_def default_config_def
        IsReceived_def NeedToMaintainReceivedStateAtSender_def sent_fields)
  ultimately show ?thesis
    using timeout_retransmits_expired_prefix [OF wf sent_scannable, of "quiet_env 8"]
    by (simp add: sent_outstanding work_packet_def no_requests)
qed

text \<open>
  The NACK scan returns when no outstanding packet of the window has been acknowledged: it then
  retransmits or stops at every packet it looks at.
\<close>

theorem nack_scan_returns:
  assumes "bitmap_wf (tx_bitmap (tx_window t cs))"
    "scannable t cs (outstanding_packets (tx_window t cs))"
    "\<forall>work \<in> set (outstanding_packets (tx_window t cs)). \<not> is_acked t cs work"
  shows "\<exists>cs'. nack_scan env packet t cs = Some cs' \<and> scan_view t cs' = scan_view t cs"
  using assms
proof (induction "outstanding_packets (tx_window t cs)" arbitrary: cs)
  case Nil
  then show ?case using Nil.hyps [symmetric] by (subst nack_scan.simps) simp
next
  case (Cons work works)
  note out = Cons.hyps(2) [symmetric]
  obtain p where p: "GetPacketMetadataFromWorkId cs work = Some p"
    using Cons.prems(2) by (auto simp: scannable_def out)
  have get: "Get (tx_bitmap (tx_window t cs)) (window_index (tx_bitmap (tx_window t cs)) (rwd_psn work)
      (tx_base (tx_window t cs))) = Some False"
    using Cons.prems(2,3) bm.get_view [OF Cons.prems(1)]
    by (simp add: scannable_def is_acked_def scan_index_def out)
  obtain cs1 where cs1: "retransmit env t work (\<lambda>p. p\<lparr>retransmission_reason := kEarlyNack\<rparr>) cs = Some cs1"
      "scan_view t cs1 = scan_view t cs" "outstanding_packets (tx_window t cs1) = works"
      "\<And>w. work_packet w \<noteq> work_packet work \<Longrightarrow>
         GetPacketMetadataFromWorkId cs1 w = GetPacketMetadataFromWorkId cs w"
    using retransmit_spec [OF p out] by blast
  have "\<exists>cs'. nack_scan env packet t cs1 = Some cs' \<and> scan_view t cs' = scan_view t cs1"
    using Cons.hyps(1) [of cs1] Cons.prems scannable_cong(1) [OF cs1(2) Cons.prems(2) [unfolded out] cs1(4)]
    by (simp add: cs1(3) scan_view_sel [OF cs1(2)] scan_cong [OF cs1(2)] out)
  then show ?case using get p cs1(1,2) by (subst nack_scan.simps) (auto simp: out)
qed

lemma nack_scan_returns_witness:
  "\<exists>cs'. nack_scan (quiet_env 8) new_NetPacket kRequest sent_example = Some cs'"
  using nack_scan_returns [OF _ sent_scannable, of "quiet_env 8" new_NetPacket]
  by (auto simp: sent_outstanding is_acked_def sent_example_sel sent_window_sel)

text \<open>
  C18 The NACK scan does not return when the first outstanding packet below the limit has been
  acknowledged: the loop looks at it again and again, since only a retransmission advances it.
\<close>

theorem nack_scan_stuck_on_acked:
  assumes "bitmap_wf (tx_bitmap (tx_window t cs))"
    "outstanding_packets (tx_window t cs) = work # works" "is_acked t cs work"
    "scan_index t cs work < uint (early_retransmit_limit cs)"
  shows "nack_scan env packet t cs = None"
proof (rule ccontr)
  assume "nack_scan env packet t cs \<noteq> None"
  then obtain cs' where run: "nack_scan env packet t cs = Some cs'" by blast
  have "\<not> (bitmap_wf (tx_bitmap (tx_window t cs)) \<and>
      (\<exists>work works. outstanding_packets (tx_window t cs) = work # works \<and> is_acked t cs work
         \<and> scan_index t cs work < uint (early_retransmit_limit cs)))"
    apply (rule nack_scan.raw_induct [OF _ run, where P = "\<lambda>env packet t cs cs'.
        \<not> (bitmap_wf (tx_bitmap (tx_window t cs)) \<and>
      (\<exists>work works. outstanding_packets (tx_window t cs) = work # works \<and> is_acked t cs work
         \<and> scan_index t cs work < uint (early_retransmit_limit cs)))"])
    subgoal premises prems for scan env packet t cs cs'
      using prems(1) [of env packet t cs cs'] prems(2) bm.get_view [of "tx_bitmap (tx_window t cs)"]
      by (auto simp: is_acked_def scan_index_def split: if_splits)
    done
  then show False using assms by blast
qed

text \<open>The sent example with its packet marked acknowledged but still listed.\<close>

definition stale_example :: ConnectionState where
  "stale_example = sent_example\<lparr>tx_request_window :=
     sent_window\<lparr>tx_bitmap := the (Set (FalconBitmap_new 1024 1024) 0 True)\<rparr>\<rparr>"

lemma nack_scan_stuck_on_acked_witness:
  "nack_scan (quiet_env 8) new_NetPacket kRequest stale_example = None"
proof -
  obtain m where m: "Set (FalconBitmap_new 1024 1024) 0 True = Some m" "bitmap_wf m" "bit_at m 0" "Size m = 1024"
    using bm.put_ok [of "FalconBitmap_new 1024 1024" 0 True] by auto
  have w: "tx_bitmap (tx_window kRequest stale_example) = m" "tx_base (tx_window kRequest stale_example) = 0"
      "outstanding_packets (tx_window kRequest stale_example)
        = [\<lparr>rwd_rsn = 0, rwd_psn = 0, rwd_type = kPullRequest\<rparr>]"
    using m(1) sent_outstanding
    by (simp_all add: stale_example_def tx_window_def sent_window_sel) (simp add: sent_example_def sent_window_def)
  have "early_retransmit_limit stale_example = 64"
    by (simp add: stale_example_def sent_example_def ready_example_def example_simps)
  then show ?thesis
    using m w(1,2) nack_scan_stuck_on_acked [OF _ w(3)]
    by (simp add: is_acked_def scan_index_def window_index_def)
qed

end
