(* ===== verification/Receive.thy ===== *)
theory Receive
  imports Loss_Recovery
begin

text \<open>
  The receiving side of the packet reliability manager: \<open>HandleIncomingPacketOrResync\<close>, the
  acknowledgements and NACKs of the upper layer, and the dispatch of \<open>ReceivePacket\<close>. What these operations guarantee is shown in \<open>Exactly_Once\<close>.
\<close>

section \<open>Operations\<close>

definition is_push_data :: "PacketType \<Rightarrow> bool" where
  "is_push_data type \<longleftrightarrow> type = kPushSolicitedData \<or> type = kPushUnsolicitedData"

text \<open>A \<open>CHECK_OK\<close> around a call that returns a status.\<close>

definition checked :: "(status \<times> ConnectionState) option \<Rightarrow> ConnectionState option" where
  "checked r = do { (st, cs) \<leftarrow> r; check_ok st; Some cs }"

definition ulp_metadata :: "PacketMetadata \<Rightarrow> UlpNackMetadata option" where
  "ulp_metadata p = map_option (\<lambda>c. \<lparr>ulp_nack_code = c, rnr_timeout = pm_rnr_timeout p\<rparr>)
     (pm_ulp_nack_code p)"

text \<open>
  \<open>RetryRnrNackedPacket\<close> of the reorder engine is recorded as a call; its status is
  \<open>FailedPrecondition\<close> when \<open>env_ok\<close> is false.
\<close>

definition HandleDuplicateNackedPacket ::
    "rel_env \<Rightarrow> NetPacket \<Rightarrow> ConnectionState \<Rightarrow> (status \<times> ConnectionState) option" where
  "HandleDuplicateNackedPacket env packet cs =
     (if \<not> is_push_data (packet_type packet) then Some (OkStatus, cs)
      else
        case transactions cs (mk_key (falcon_rsn packet) kTarget) of
          None \<Rightarrow> Some (OkStatus, cs)
        | Some tr \<Rightarrow>
            (case packets tr (packet_type packet) of
               None \<Rightarrow> Some (NotFoundError, cs)
             | Some p \<Rightarrow> do {
                 let nack = (\<lambda>cs. checked (TransmitNACK env (falcon_psn packet)
                       (BelongsToRequestWindow (packet_type packet)) (nack_code p)
                       (ulp_metadata p) cs));
                 cs \<leftarrow> (case nack_code p of
                     kUlpReceiverNotReady \<Rightarrow>
                       (let c = RetryRnr (falcon_rsn packet); cs = emit c cs
                        in if \<not> env_ok env c then nack cs else Some cs)
                   | kUlpCompletionInError \<Rightarrow> nack cs
                   | kUlpNonRecoverableError \<Rightarrow> nack cs
                   | kInvalidCidError \<Rightarrow> nack cs
                   | _ \<Rightarrow> Some cs);
                 Some (OkStatus, cs)
               }))"

text \<open>Accepting a fresh packet for which there are resources.\<close>

definition AcceptPacket ::
    "rel_env \<Rightarrow> NetPacket \<Rightarrow> int \<Rightarrow> ConnectionState \<Rightarrow> (status \<times> ConnectionState) option" where
  "AcceptPacket env packet bitmap_index cs = do {
     let type = packet_type packet;
     cs \<leftarrow> HandleImplicitAck env packet cs;
     w \<leftarrow> mark_received (GetAppropriateRxWindow (rx cs) type) bitmap_index;
     let cs = cs\<lparr>rx := put_rx_window type w (rx cs)\<rparr>;
     (st, cs) \<leftarrow> (if \<not> is_push_data type then do {
                   r \<leftarrow> UpdateReceiveAckBitmap type (falcon_psn packet) (rx cs);
                   cs \<leftarrow> checked (GenerateAckOrUpdateCoalescingState env (falcon_ack_req packet) 2
                                    (cs\<lparr>rx := r\<rparr>));
                   Some (OkStatus, cs)
                 } else GenerateAckOrUpdateCoalescingState env False 1 cs);
     if st \<noteq> OkStatus then Some (st, cs)
     else do {
       r \<leftarrow> (if type \<noteq> kResync
            then CreateOrUpdateReceiverPacketContext (Packet.truncate packet) kIncoming (rx cs)
            else Some (rx cs));
       cs \<leftarrow> HandlePiggybackedACK env packet (cs\<lparr>rx := r\<rparr>);
       Some (OkStatus, cs)
     }
   }"

definition HandleIncomingPacketOrResync ::
    "rel_env \<Rightarrow> NetPacket \<Rightarrow> ConnectionState \<Rightarrow> (status \<times> ConnectionState) option" where
  "HandleIncomingPacketOrResync env packet cs = do {
     let type = packet_type packet;
     let psn = falcon_psn packet;
     cs \<leftarrow> UpdateCongestionControlMetadataToReflect packet cs;
     let w = GetAppropriateRxWindow (rx cs) type;
     v \<leftarrow> classify_psn w psn;
     case v of
       BelowWindow \<Rightarrow> do {
         cs \<leftarrow> checked (GenerateAckOrUpdateCoalescingState env (falcon_ack_req packet) 2 cs);
         Some (AlreadyExistsError, cs)
       }
     | BeyondWindow \<Rightarrow> do {
         cs \<leftarrow> (if \<not> EackBasedEarlyRetransmissionIsEnabled (cfg env)
               then checked (TransmitNACK env psn (BelongsToRequestWindow type) kRxWindowError None cs)
               else if enable_eack_own (cfg env)
               then checked (GenerateAckOrUpdateCoalescingState env (falcon_ack_req packet) 2
                      (cs\<lparr>rx := put_rx_window type (w\<lparr>has_oow_drop := True\<rparr>) (rx cs)\<rparr>))
               else Some cs);
         Some (OutOfRangeError, cs)
       }
     | AlreadyReceived \<Rightarrow> do {
         cs \<leftarrow> checked (GenerateAckOrUpdateCoalescingState env (falcon_ack_req packet) 2 cs);
         cs \<leftarrow> checked (HandleDuplicateNackedPacket env packet cs);
         Some (AlreadyExistsError, cs)
       }
     | Fresh bitmap_index \<Rightarrow>
         (let available = env_resources env (Packet.truncate packet) in
          if available = OkStatus then AcceptPacket env packet bitmap_index cs
          else do {
            cs \<leftarrow> HandlePiggybackedACK env packet cs;
            Some (available, cs)
          })
   }"

definition UlpAckReceived ::
    "rel_env \<Rightarrow> u32 \<Rightarrow> ConnectionState \<Rightarrow> (status \<times> ConnectionState) option" where
  "UlpAckReceived env rsn cs =
     (let key = mk_key rsn kTarget in
      case received_packet_contexts (rx cs) key of
        None \<Rightarrow> Some (NotFoundError, cs)
      | Some ctx \<Rightarrow> do {
          type \<leftarrow> rpc_type ctx;
          if type = kPullRequest then Some (OkStatus, cs)
          else do {
            let r = (rx cs)\<lparr>received_packet_contexts :=
                      (received_packet_contexts (rx cs))(key := None)\<rparr>;
            r \<leftarrow> UpdateReceiveAckBitmap type (rpc_psn ctx) r;
            GenerateAckOrUpdateCoalescingState env (rpc_is_ack_requested ctx) 1
              (cs\<lparr>rx := r, transactions := (transactions cs)(key := None)\<rparr>)
          }
        })"

definition HandleNackFromUlp ::
    "rel_env \<Rightarrow> TransactionKey \<Rightarrow> UlpNackMetadata \<Rightarrow> ConnectionState \<Rightarrow>
     (status \<times> ConnectionState) option" where
  "HandleNackFromUlp env key ulp cs =
     (case received_packet_contexts (rx cs) key of
        None \<Rightarrow> Some (NotFoundError, cs)
      | Some ctx \<Rightarrow> do {
          type \<leftarrow> rpc_type ctx;
          tr \<leftarrow> transactions cs key;
          p \<leftarrow> packets tr type;
          let code = AckSyndromeToNackCode (ulp_nack_code ulp);
          let p = p\<lparr>nack_code := code, pm_ulp_nack_code := Some (ulp_nack_code ulp),
                    pm_rnr_timeout := rnr_timeout ulp\<rparr>;
          let cs = cs\<lparr>transactions := (transactions cs)
                     (key \<mapsto> tr\<lparr>packets := (packets tr)(type \<mapsto> p)\<rparr>)\<rparr>;
          if ulp_nack_code ulp = kRnrNak \<and> type = kPullRequest then Some (OkStatus, cs)
          else TransmitNACK env (rpc_psn ctx) (BelongsToRequestWindow type) code (Some ulp) cs
        })"

definition ReceivePacket ::
    "rel_env \<Rightarrow> NetPacket \<Rightarrow> ConnectionState \<Rightarrow> (status \<times> ConnectionState) option" where
  "ReceivePacket env packet cs =
     (case packet_type packet of
        kAck \<Rightarrow> HandleACK env packet cs
      | kNack \<Rightarrow> HandleNack env packet cs
      | kBack \<Rightarrow> None
      | kEack \<Rightarrow> None
      | kInvalid \<Rightarrow> None
      | _ \<Rightarrow> HandleIncomingPacketOrResync env packet cs)"

end
