(* ===== verification/Exactly_Once.thy ===== *)
theory Exactly_Once
  imports Receive
begin

text \<open>
  The receiving connection as a state machine, and its main guarantee: every packet is delivered
  at most once, and a window base never passes push data the upper layer has not acknowledged.

  \<open>rx_quiet\<close> says that an operation leaves the receive windows alone (the out-of-window flag
  apart) and creates no push-data context; the frame lemmas \<open>kept_ops\<close> establish it for everything
  the manager does besides accepting a packet and acknowledging one. They are composed by
  \<open>kept_rules\<close>, one rule per shape of a bind in the option monad.
\<close>

section \<open>Operations that leave the receive windows alone\<close>

definition win_core :: "RxWindow \<Rightarrow> u32 \<times> FalconBitmap \<times> FalconBitmap" where
  "win_core w = (rx_base w, receive_window w, ack_window w)"

definition push_psn :: "ReceivedPacketContext \<Rightarrow> u32 option" where
  "push_psn c = (case rpc_type c of
     Some type \<Rightarrow> if is_push_data type then Some (rpc_psn c) else None | None \<Rightarrow> None)"

definition push_contexts :: "ReceiverReliabilityMetadata \<Rightarrow> TransactionKey \<rightharpoonup> u32" where
  "push_contexts r key = Option.bind (received_packet_contexts r key) push_psn"

definition rx_quiet :: "ReceiverReliabilityMetadata \<Rightarrow> ReceiverReliabilityMetadata \<Rightarrow> bool" where
  "rx_quiet r r' \<longleftrightarrow>
     win_core (rx_request_window r') = win_core (rx_request_window r) \<and>
     win_core (rx_data_window r') = win_core (rx_data_window r) \<and>
     push_contexts r' \<subseteq>\<^sub>m push_contexts r"

definition kept :: "ReceiverReliabilityMetadata \<Rightarrow> ConnectionState option \<Rightarrow> bool" where
  "kept r m \<longleftrightarrow> (\<forall>cs. m = Some cs \<longrightarrow> rx_quiet r (rx cs))"

definition kept2 :: "ReceiverReliabilityMetadata \<Rightarrow> ('a \<times> ConnectionState) option \<Rightarrow> bool" where
  "kept2 r m \<longleftrightarrow> (\<forall>x cs. m = Some (x, cs) \<longrightarrow> rx_quiet r (rx cs))"

definition kept1 :: "ReceiverReliabilityMetadata \<Rightarrow> (ConnectionState \<times> 'a) option \<Rightarrow> bool" where
  "kept1 r m \<longleftrightarrow> (\<forall>x cs. m = Some (cs, x) \<longrightarrow> rx_quiet r (rx cs))"

lemma rx_quiet_refl [simp, intro]: "rx_quiet r r"
  by (simp add: rx_quiet_def)

lemma rx_quiet_trans: "rx_quiet a b \<Longrightarrow> rx_quiet b c \<Longrightarrow> rx_quiet a c"
  by (auto simp: rx_quiet_def intro: map_le_trans)

lemma kept_bind_state:
  "kept r m \<Longrightarrow> (\<And>x. rx_quiet r (rx x) \<Longrightarrow> kept r (f x)) \<Longrightarrow> kept r (m \<bind> f)"
  "kept r m \<Longrightarrow> (\<And>x. rx_quiet r (rx x) \<Longrightarrow> kept2 r (g x)) \<Longrightarrow> kept2 r (m \<bind> g)"
  "kept r m \<Longrightarrow> (\<And>x. rx_quiet r (rx x) \<Longrightarrow> kept1 r (h x)) \<Longrightarrow> kept1 r (m \<bind> h)"
  by (auto simp: kept_def kept1_def kept2_def bind_eq_Some_conv)

lemma kept_bind_pair:
  "kept2 r m \<Longrightarrow> (\<And>a x. rx_quiet r (rx x) \<Longrightarrow> kept r (f (a, x))) \<Longrightarrow> kept r (m \<bind> f)"
  "kept2 r m \<Longrightarrow> (\<And>a x. rx_quiet r (rx x) \<Longrightarrow> kept2 r (g (a, x))) \<Longrightarrow> kept2 r (m \<bind> g)"
  "kept1 r n \<Longrightarrow> (\<And>a x. rx_quiet r (rx x) \<Longrightarrow> kept r (h (x, a))) \<Longrightarrow> kept r (n \<bind> h)"
  "kept1 r n \<Longrightarrow> (\<And>a x. rx_quiet r (rx x) \<Longrightarrow> kept2 r (k (x, a))) \<Longrightarrow> kept2 r (n \<bind> k)"
  by (auto simp: kept_def kept2_def kept1_def bind_eq_Some_conv)

lemma kept_bind_pure:
  "(\<And>x. m = Some x \<Longrightarrow> kept r (f x)) \<Longrightarrow> kept r (m \<bind> f)"
  "(\<And>x. m = Some x \<Longrightarrow> kept2 r (g x)) \<Longrightarrow> kept2 r (m \<bind> g)"
  "(\<And>x. m = Some x \<Longrightarrow> kept1 r (h x)) \<Longrightarrow> kept1 r (m \<bind> h)"
  by (auto simp: kept_def kept2_def kept1_def bind_eq_Some_conv)

lemmas kept_rules = kept_bind_state kept_bind_pair kept_bind_pure

lemma kept_simps [simp]:
  "kept r None" "kept2 r None" "kept1 r None"
  "kept r (Some cs) = rx_quiet r (rx cs)" "kept2 r (Some (a, cs)) = rx_quiet r (rx cs)"
  "kept1 r (Some (cs, a)) = rx_quiet r (rx cs)"
  by (simp_all add: kept_def kept2_def kept1_def)

lemma rx_quiet_flags [simp]:
  "rx_quiet r (clear_oow r') = rx_quiet r r'"
  "rx_quiet r (r'\<lparr>implicitly_acked_counter := k\<rparr>) = rx_quiet r r'"
  by (auto simp: rx_quiet_def clear_oow_def win_core_def push_contexts_def map_le_def)

lemma rx_put_entry [simp]: "rx (put_entry e cs) = rx cs"
  by (simp add: put_entry_def)

lemma rx_quiet_drop:
  "rx_quiet r r' \<Longrightarrow>
   rx_quiet r (r'\<lparr>received_packet_contexts := (received_packet_contexts r')(k := None)\<rparr>)"
  by (auto simp: rx_quiet_def win_core_def push_contexts_def map_le_def)

named_theorems kept_ops \<open>operations that leave the receive windows alone\<close>

lemma kept_emit_checked [kept_ops]: "rx_quiet r (rx cs) \<Longrightarrow> kept r (emit_checked env c cs)"
  by (simp add: emit_checked_def)

lemma kept_TransmitACK [kept_ops]: "rx_quiet r (rx cs) \<Longrightarrow> kept r (TransmitACK env cs)"
  unfolding TransmitACK_def CreateExplicitAckOrEack_def Let_def
  by (rule kept_rules kept_ops | simp | intro conjI impI)+

lemma kept_Generate [kept_ops]:
  "rx_quiet r (rx cs) \<Longrightarrow> kept2 r (GenerateAckOrUpdateCoalescingState env imm inc cs)"
  unfolding GenerateAckOrUpdateCoalescingState_def SetupAckCoalescingTimer_def Let_def
  by (rule kept_rules kept_ops | simp | intro conjI impI)+

lemma kept_PiggybackAck [kept_ops]: "rx_quiet r (rx cs) \<Longrightarrow> kept2 r (PiggybackAck p cs)"
  unfolding PiggybackAck_def Let_def
  by (rule kept_rules kept_ops | simp | intro conjI impI)+

lemma kept_TransmitNACK [kept_ops]:
  "rx_quiet r (rx cs) \<Longrightarrow> kept2 r (TransmitNACK env psn rw code ulp cs)"
  unfolding TransmitNACK_def Let_def
  by (rule kept_rules kept_ops | simp)+

lemma kept_reflect [kept_ops]:
  "rx_quiet r (rx cs) \<Longrightarrow> kept r (UpdateCongestionControlMetadataToReflect p cs)"
  unfolding UpdateCongestionControlMetadataToReflect_def
  by (rule kept_rules | simp)+

lemma kept_ack_timeout [kept_ops]:
  "rx_quiet r (rx cs) \<Longrightarrow> kept r (HandleAckCoalescingTimeout env cs)"
  unfolding HandleAckCoalescingTimeout_def
  by (rule kept_rules kept_ops | simp | intro conjI impI)+

lemma kept_checked [kept_ops]: "kept2 r m \<Longrightarrow> kept r (checked m)"
  by (auto simp: checked_def kept2_def kept_def bind_eq_Some_conv)

lemma kept_duplicate [kept_ops]:
  "rx_quiet r (rx cs) \<Longrightarrow> kept2 r (HandleDuplicateNackedPacket env packet cs)"
  unfolding HandleDuplicateNackedPacket_def Let_def
  by (rule kept_rules kept_ops | simp split: option.split NackCode.split | intro conjI impI allI)+

lemma rx_map_tx_window [simp]: "rx (map_tx_window t f cs) = rx cs"
  by (simp add: map_tx_window_def)

lemma rx_counters [simp]:
  "rx (DecrementOutstandingRequestCount type cs) = rx cs"
  "rx (IncrementOutstandingRequestCount type cs) = rx cs"
  "rx (IncrementOutstandingRetransmittedRequestCount type cs) = rx cs"
  "rx (DecrementOutstandingRetransmittedRequestCount type b cs) = rx cs"
  "rx (UpdateOutstandingCounterAfterErase cs) = rx cs"
  "rx (RackUpdate env d cs) = rx cs"
  "rx (drop_context t psn cs) = rx cs"
  "rx (AccumulateNumAcked cs) = rx cs"
  "rx (ClearRtoExpirationTime cs) = rx cs"
  "rx (erase_outstanding t work cs) = rx cs"
  by (simp_all add: DecrementOutstandingRequestCount_def IncrementOutstandingRequestCount_def
      IncrementOutstandingRetransmittedRequestCount_def UpdateOutstandingCounterAfterErase_def
      DecrementOutstandingRetransmittedRequestCount_def RackUpdate_def Let_def drop_context_def
      AccumulateNumAcked_def ClearRtoExpirationTime_def erase_outstanding_def)

lemma kept_UpdateState_at [kept_ops]:
  "rx_quiet r (rx cs) \<Longrightarrow> kept1 r (UpdateState_at key type stage t cs)"
  unfolding UpdateState_at_def
  by (rule kept_rules | simp split: prod.split | intro allI impI)+

lemma kept_release [kept_ops]: "rx_quiet r (rx cs) \<Longrightarrow> kept r (release_acked env key type cs)"
  unfolding release_acked_def
  by (rule kept_rules kept_ops | simp add: rx_quiet_drop | intro conjI impI)+

lemma kept_counters [kept_ops]:
  "rx_quiet r (rx cs) \<Longrightarrow> kept r (ack_request_counters key type cs)"
  "rx_quiet r (rx cs) \<Longrightarrow> kept r (rack_on_ack env rsn type cs)"
  unfolding ack_request_counters_def rack_on_ack_def Let_def
  by (rule kept_rules | simp | intro conjI impI)+

lemma kept_stop [kept_ops]:
  "rx_quiet r (rx cs) \<Longrightarrow> kept r (stop_retransmission env t rsn psn type cs)"
  unfolding stop_retransmission_def Let_def DequeuePacketFromRetxScheduler_def
  by (rule kept_rules kept_ops | simp split: prod.split | intro conjI impI allI)+

lemma kept_EnqueueAckToUlp [kept_ops]:
  "rx_quiet r (rx cs) \<Longrightarrow> kept r (EnqueueAckToUlp env t psn cs)"
  unfolding EnqueueAckToUlp_def Let_def
  by (rule kept_rules kept_ops | simp)+

lemma kept_timers [kept_ops]:
  "rx_quiet r (rx cs) \<Longrightarrow> kept2 r (SetupRetransmitTimer env cs)"
  "rx_quiet r (rx cs) \<Longrightarrow> kept r (SetupTlpTimer env cs)"
  unfolding SetupRetransmitTimer_def SetupTlpTimer_def GetJitter_def arm_retransmit_timer_def Let_def
  by (rule kept_rules kept_ops | simp split: prod.split if_split | intro conjI impI allI)+

lemma kept_retransmit_timer [kept_ops]:
  "rx_quiet r (rx cs) \<Longrightarrow> kept r (retransmit_timer env cs)"
  unfolding retransmit_timer_def
  by (rule kept_rules kept_ops | simp)+

lemma kept_enqueue_below [kept_ops]:
  "rx_quiet r (rx cs) \<Longrightarrow> kept r (enqueue_below env t k i cs)"
proof (induction k arbitrary: i cs)
  case (Suc k)
  show ?case unfolding enqueue_below.simps
    by (rule kept_rules kept_ops Suc | simp add: Suc.prems | intro conjI impI)+
qed simp

lemma kept_advance [kept_ops]:
  "rx_quiet r (rx cs) \<Longrightarrow> kept r (advance_tx_window env t b slack own cs)"
  unfolding advance_tx_window_def Let_def
  by (rule kept_rules kept_ops | simp | intro conjI impI)+

lemma kept_piggybacked [kept_ops]:
  "rx_quiet r (rx cs) \<Longrightarrow> kept r (HandlePiggybackedACK env p cs)"
  unfolding HandlePiggybackedACK_def Let_def
  by (rule kept_rules kept_ops | simp split: prod.split if_split | intro conjI impI allI)+

lemma kept_implicit [kept_ops]:
  "rx_quiet r (rx cs) \<Longrightarrow> kept r (HandleImplicitAck env p cs)"
  unfolding HandleImplicitAck_def Let_def
  by (rule kept_rules kept_ops | simp split: prod.split if_split option.split | intro conjI impI allI)+

lemma kept_update_packet [kept_ops]: "rx_quiet r (rx cs) \<Longrightarrow> kept r (update_packet rsn type f cs)"
  unfolding update_packet_def
  by (rule kept_rules | simp)+

lemma kept_retransmit [kept_ops]: "rx_quiet r (rx cs) \<Longrightarrow> kept r (retransmit env t work f cs)"
  unfolding retransmit_def InitiateRetransmission_def Let_def
  by (rule kept_rules kept_ops | simp)+

lemma kept_scan_timeouts [kept_ops]:
  "rx_quiet r (rx cs) \<Longrightarrow> kept r (scan_timeouts env t works cs)"
proof (induction works arbitrary: cs)
  case (Cons work works)
  show ?case unfolding scan_timeouts.simps Let_def
    by (rule kept_rules kept_ops Cons | simp add: Cons.prems | intro conjI impI)+
qed simp

lemma kept_HandleRetransmitTimeout [kept_ops]:
  "rx_quiet r (rx cs) \<Longrightarrow> kept r (HandleRetransmitTimeout env cs)"
  unfolding HandleRetransmitTimeout_def Let_def
  by (rule kept_rules kept_ops | simp | intro conjI impI)+

lemma kept_eack_merge [kept_ops]: "rx_quiet r (rx cs) \<Longrightarrow> kept r (eack_merge env t aw k i cs)"
proof (induction k arbitrary: i cs)
  case (Suc k)
  show ?case unfolding eack_merge.simps
    by (rule kept_rules kept_ops Suc | simp add: Suc.prems | intro conjI impI)+
qed simp

lemma kept_mark [kept_ops]: "rx_quiet r (rx cs) \<Longrightarrow> kept r (mark_packet_received env t m i cs)"
  unfolding mark_packet_received_def
  by (rule kept_rules kept_ops | simp split: option.split | intro conjI impI allI)+

lemma kept_mark_all [kept_ops]: "rx_quiet r (rx cs) \<Longrightarrow> kept r (mark_all_received env t m k i cs)"
proof (induction k arbitrary: i cs)
  case (Suc k)
  show ?case unfolding mark_all_received.simps by (rule kept_rules kept_ops Suc | simp add: Suc.prems)+
qed simp

lemma kept_eack_retransmit [kept_ops]:
  "rx_quiet r (rx cs) \<Longrightarrow> kept r (eack_retransmit env t m limit rtt works b cs)"
proof (induction works arbitrary: b cs)
  case (Cons work works)
  show ?case unfolding eack_retransmit.simps Let_def
    by (rule kept_rules kept_ops Cons | simp add: Cons.prems | intro conjI impI)+
qed simp

lemma kept_HandleEACK [kept_ops]:
  "rx_quiet r (rx cs) \<Longrightarrow> kept2 r (HandleEACK env packet cs)"
  unfolding HandleEACK_def eack_early_retransmission_def Let_def
  by (rule kept_rules kept_ops | simp | intro conjI impI)+

lemma kept_HandleACK [kept_ops]: "rx_quiet r (rx cs) \<Longrightarrow> kept2 r (HandleACK env packet cs)"
  unfolding HandleACK_def Let_def
  by (rule kept_rules kept_ops | simp | intro conjI impI)+

lemma kept_nack_scan [kept_ops]:
  assumes "rx_quiet r (rx cs)"
  shows "kept r (nack_scan env packet t cs)"
proof -
  have "rx_quiet r (rx cs) \<longrightarrow> rx_quiet r (rx cs')" if run: "nack_scan env packet t cs = Some cs'" for cs'
    apply (rule nack_scan.raw_induct [OF _ run,
        where P = "\<lambda>env packet t cs cs'. rx_quiet r (rx cs) \<longrightarrow> rx_quiet r (rx cs')"])
    subgoal premises prems for scan env packet t cs cs'
    proof
      assume q: "rx_quiet r (rx cs)"
      have IH: "rx_quiet r (rx cs) \<Longrightarrow> kept r (scan env packet t cs)" for env packet t cs
        using prems(1) by (auto simp: kept_def)
      have "kept r (Some cs')"
        unfolding prems(2) [symmetric]
        by (rule kept_rules kept_ops IH | simp add: q split: list.split | intro conjI impI allI)+
      then show "rx_quiet r (rx cs')" by simp
    qed
    done
  then show ?thesis using assms by (simp add: kept_def)
qed

lemma kept_nack_action [kept_ops]:
  "rx_quiet r (rx cs) \<Longrightarrow> kept r (nack_action env packet code cs)"
  unfolding nack_action_def HandleRnrNack_def CancelRetransmissionAndTriggerResync_def
    InitiateNackBasedEarlyRetransmission_def Let_def
  by (rule kept_rules kept_ops | simp split: NackCode.split prod.split | intro conjI impI allI)+

lemma kept_HandleNack [kept_ops]: "rx_quiet r (rx cs) \<Longrightarrow> kept2 r (HandleNack env packet cs)"
  unfolding HandleNack_def RackUpdateByNack_def Let_def
  by (rule kept_rules kept_ops | simp | intro conjI impI)+

lemma kept_HandleTlpTimeout [kept_ops]:
  "rx_quiet r (rx cs) \<Longrightarrow> kept r (HandleTlpTimeout env cs)"
  unfolding HandleTlpTimeout_def Let_def
  by (rule kept_rules kept_ops | simp split: prod.split option.split | intro conjI impI allI)+

lemma kept_HandleNackFromUlp [kept_ops]:
  "rx_quiet r (rx cs) \<Longrightarrow> kept2 r (HandleNackFromUlp env key ulp cs)"
  unfolding HandleNackFromUlp_def Let_def
  by (rule kept_rules kept_ops | simp split: option.split | intro conjI impI allI)+

text \<open>
  Transmission updates the receiver context of the packet's transaction, but neither its PSN nor
  its type.
\<close>

lemma push_psn_simps [simp]:
  "push_psn new_ReceivedPacketContext = None" "push_psn (c\<lparr>rpc_qp_id := q\<rparr>) = push_psn c"
  by (simp_all add: push_psn_def new_ReceivedPacketContext_def split: option.split)

lemma rx_quiet_put_context:
  assumes "push_psn c = Option.bind (received_packet_contexts r key) push_psn"
  shows "rx_quiet r (r\<lparr>received_packet_contexts := (received_packet_contexts r)(key \<mapsto> c)\<rparr>)"
  using assms by (simp add: rx_quiet_def win_core_def push_contexts_def map_le_def)

lemma rx_quiet_outgoing:
  assumes "CreateOrUpdateReceiverPacketContext p kOutgoing r = Some r'"
  shows "rx_quiet r r'"
proof -
  obtain key c where "r' = r\<lparr>received_packet_contexts := (received_packet_contexts r)(key \<mapsto> c)\<rparr>"
      "push_psn c = Option.bind (received_packet_contexts r key) push_psn"
    using assms
    by (cases "GetTransactionLocation (packet_type p) False")
       (auto simp: CreateOrUpdateReceiverPacketContext_def Let_def split: option.splits if_splits)
  then show ?thesis using rx_quiet_put_context by simp
qed

lemma kept_AssignPsnAndSsn [kept_ops]:
  "rx_quiet r (rx cs) \<Longrightarrow> kept2 r (AssignPsnAndSsn rsn type p cs)"
  unfolding AssignPsnAndSsn_def Let_def
  by (rule kept_rules kept_ops | simp | intro conjI impI)+

lemma kept_SetupRetransmission [kept_ops]:
  "rx_quiet r (rx cs) \<Longrightarrow> kept r (SetupRetransmission env rsn type cs)"
  unfolding SetupRetransmission_def Let_def
  by (rule kept_rules kept_ops | simp add: AddToOutstandingPackets_def)+

lemma rx_report [simp]: "rx (report_retransmission p cs) = rx cs"
  by (simp add: report_retransmission_def)

lemma kept_TransmitPacket [kept_ops]:
  "rx_quiet r (rx cs) \<Longrightarrow> kept2 r (TransmitPacket env a rsn type cs)"
  unfolding TransmitPacket_def Let_def
  by (rule kept_rules kept_ops
      | simp split: option.split
      | intro conjI impI allI
      | (drule rx_quiet_outgoing, drule (1) rx_quiet_trans))+

section \<open>The invariant\<close>

definition rx_win :: "WindowType \<Rightarrow> ReceiverReliabilityMetadata \<Rightarrow> RxWindow" where
  "rx_win t r = (if t = kRequest then rx_request_window r else rx_data_window r)"

text \<open>
  \<open>base t\<close> is the unbounded number of the base of window \<open>t\<close>, \<open>D\<close> the packets delivered so far
  (window, number and type) and \<open>U\<close> the numbers of the data window the upper layer has
  acknowledged.
\<close>

type_synonym rx_delivery = "WindowType \<times> int \<times> PacketType"

definition number :: "(WindowType \<Rightarrow> int) \<Rightarrow> ReceiverReliabilityMetadata \<Rightarrow> WindowType \<Rightarrow> u32 \<Rightarrow> int"
  where "number base r t psn = absolute (base t) (rx_win t r) psn"

definition rx_received :: "(WindowType \<Rightarrow> int) \<Rightarrow> ReceiverReliabilityMetadata \<Rightarrow> WindowType \<Rightarrow> int set"
  where "rx_received base r t = received_from (base t) (rx_win t r)"

definition rx_acked :: "(WindowType \<Rightarrow> int) \<Rightarrow> ReceiverReliabilityMetadata \<Rightarrow> WindowType \<Rightarrow> int set"
  where "rx_acked base r t = acked_from (base t) (rx_win t r)"

definition delivery_inv ::
    "(WindowType \<Rightarrow> int) \<Rightarrow> rx_delivery list \<Rightarrow> int set \<Rightarrow> ReceiverReliabilityMetadata \<Rightarrow> bool" where
  "delivery_inv base D U r \<longleftrightarrow>
     (\<forall>t. rx_wf (rx_win t r) \<and> rx_base (rx_win t r) = word_of_int (base t)) \<and>
     (\<forall>t n type. (t, n, type) \<in> set D \<longrightarrow> n \<in> rx_received base r t) \<and>
     distinct (map (\<lambda>(t, n, type). (t, n)) D) \<and>
     (\<forall>n type. (kData, n, type) \<in> set D \<longrightarrow> is_push_data type \<longrightarrow>
        n \<in> rx_acked base r kData \<longrightarrow> n \<in> U)"

text \<open>Push data with a context has been received and not acknowledged, each number once.\<close>

definition context_inv :: "(WindowType \<Rightarrow> int) \<Rightarrow> ReceiverReliabilityMetadata \<Rightarrow> bool" where
  "context_inv base r \<longleftrightarrow>
     (\<forall>key psn. push_contexts r key = Some psn \<longrightarrow>
        number base r kData psn \<in> rx_received base r kData - rx_acked base r kData) \<and>
     (\<forall>key key' psn. push_contexts r key = Some psn \<longrightarrow> push_contexts r key' = Some psn \<longrightarrow>
        key = key')"

definition conn_inv where
  "conn_inv base D U r \<longleftrightarrow> delivery_inv base D U r \<and> context_inv base r"

definition moved ::
    "(WindowType \<Rightarrow> int) \<Rightarrow> ReceiverReliabilityMetadata \<Rightarrow> ReceiverReliabilityMetadata \<Rightarrow>
     WindowType \<Rightarrow> int" where
  "moved base r r' t = base t + uint (rx_base (rx_win t r') - rx_base (rx_win t r))"

lemma rx_win_counter [simp]: "rx_win t (r\<lparr>implicitly_acked_counter := k\<rparr>) = rx_win t r"
  by (simp add: rx_win_def)

lemma rx_window_of_type: "GetAppropriateRxWindow r type = rx_win (GetAppropriateTxWindow type) r"
  by (simp add: GetAppropriateRxWindow_def GetAppropriateTxWindow_def rx_win_def)

lemma rx_win_put [simp]:
  "rx_win t (put_rx_window type w r) = (if t = GetAppropriateTxWindow type then w else rx_win t r)"
  by (cases t) (auto simp: put_rx_window_def GetAppropriateTxWindow_def rx_win_def)

lemma rx_win_quiet:
  assumes "rx_quiet r r'"
  shows "rx_base (rx_win t r') = rx_base (rx_win t r)"
    "receive_window (rx_win t r') = receive_window (rx_win t r)"
    "ack_window (rx_win t r') = ack_window (rx_win t r)"
  using assms by (auto simp: rx_quiet_def win_core_def rx_win_def)

lemma rx_view_quiet:
  assumes "rx_quiet r r'"
  shows "rx_wf (rx_win t r') = rx_wf (rx_win t r)" "rx_received base r' t = rx_received base r t"
    "rx_acked base r' t = rx_acked base r t" "number base r' t psn = number base r t psn"
  by (simp_all only: rx_win_quiet [OF assms] rx_wf_def rx_received_def rx_acked_def
      received_from_def acked_from_def number_def absolute_def)

lemma conn_inv_quiet:
  assumes "conn_inv base D U r" "rx_quiet r r'"
  shows "conn_inv base D U r'"
proof -
  have sub: "push_contexts r' key = Some psn \<Longrightarrow> push_contexts r key = Some psn" for key psn
    using assms(2) unfolding rx_quiet_def map_le_def by (metis domI)
  have "context_inv base r'"
    using assms(1) unfolding conn_inv_def context_inv_def rx_view_quiet [OF assms(2)]
    by (blast dest: sub)
  then show ?thesis
    using assms(1) by (simp add: conn_inv_def delivery_inv_def rx_view_quiet [OF assms(2)]
      rx_win_quiet [OF assms(2)])
qed

lemma moved_quiet:
  "rx_quiet r r' \<Longrightarrow> moved base r r' = base"
  "rx_quiet r r' \<Longrightarrow> moved base r' r'' = moved base r r''"
  "rx_quiet r r' \<Longrightarrow> moved base r'' r' = moved base r'' r"
  by (simp_all add: moved_def rx_win_quiet fun_eq_iff)

lemma number_inj: "number base r t psn = number base r t psn' \<Longrightarrow> psn = psn'"
  by (simp add: number_def absolute_def) (metis diff_add_cancel word_of_sint)

lemma acked_subset: "rx_wf (rx_win t r) \<Longrightarrow> rx_acked base r t \<subseteq> rx_received base r t"
  by (auto simp: rx_acked_def rx_received_def acked_from_def received_from_def rx_wf_def)

lemma conn_inv_mark:
  assumes inv: "conn_inv base D U r" and t: "t = GetAppropriateTxWindow type"
    and fresh: "classify_psn (rx_win t r) psn = Some (Fresh i)"
    and mark: "mark_received (rx_win t r) i = Some w"
  defines "r' \<equiv> put_rx_window type w r" and "n \<equiv> number base r t psn"
  shows "conn_inv base D U r'" "n \<notin> rx_received base r t" "n \<in> rx_received base r' t"
    "rx_received base r u \<subseteq> rx_received base r' u" "rx_acked base r' u = rx_acked base r u"
    "number base r' u p = number base r u p" "push_contexts r' = push_contexts r"
    "rx_base (rx_win u r') = rx_base (rx_win u r)"
    "bit_at (receive_window (rx_win t r')) (sint (psn - rx_base (rx_win t r')))"
proof -
  have wf: "rx_wf (rx_win t r)" using inv by (simp add: conn_inv_def delivery_inv_def)
  have w: "rx_wf w" "rx_base w = rx_base (rx_win t r)" "ack_window w = ack_window (rx_win t r)"
      "bit_at (receive_window w) (sint (psn - rx_base w))" "n \<notin> rx_received base r t"
      "received_from (base t) w = insert n (rx_received base r t)"
    using mark_received_spec [OF wf fresh, of "base t"] mark
    by (auto simp: n_def number_def rx_received_def)
  show new: "n \<notin> rx_received base r t" by (fact w(5))
  show "n \<in> rx_received base r' t" using w(6) t by (simp add: r'_def rx_received_def)
  show rcv: "rx_received base r u \<subseteq> rx_received base r' u" for u
    using w(6) t by (auto simp: r'_def rx_received_def)
  show ack: "rx_acked base r' u = rx_acked base r u" for u
    using w(3) t by (simp add: r'_def rx_acked_def acked_from_def)
  show num: "number base r' u p = number base r u p" for u p
    using w(2) t by (simp add: r'_def number_def absolute_def)
  show ctx: "push_contexts r' = push_contexts r"
    by (rule ext) (simp add: r'_def push_contexts_def put_rx_window_def)
  show "rx_base (rx_win u r') = rx_base (rx_win u r)" using w(2) t by (simp add: r'_def)
  show "bit_at (receive_window (rx_win t r')) (sint (psn - rx_base (rx_win t r')))"
    using w(4) t by (simp add: r'_def)
  have "rx_wf (rx_win u r')" "rx_base (rx_win u r') = word_of_int (base u)" for u
    using inv w(1,2) t by (simp_all add: r'_def conn_inv_def delivery_inv_def)
  then have "delivery_inv base D U r'"
    using inv subsetD [OF rcv] by (auto simp: conn_inv_def delivery_inv_def ack)
  moreover have "context_inv base r'"
    using inv subsetD [OF rcv] by (auto simp: conn_inv_def context_inv_def ack num ctx)
  ultimately show "conn_inv base D U r'" by (simp add: conn_inv_def)
qed

lemma absolute_shift:
  assumes "n = absolute B w psn" "rx_base w' = rx_base w + word_of_int d"
    "0 \<le> n - (B + d)" "n - (B + d) < 2 ^ 31"
  shows "absolute (B + d) w' psn = n"
proof -
  have "psn - rx_base w = word_of_int (n - B)" using assms(1) by (simp add: absolute_def)
  then have "psn - rx_base w' = word_of_int (n - (B + d))"
    using assms(2) by (simp add: diff_diff_eq [symmetric])
  then show ?thesis using sint_of_small [of "n - (B + d)"] assms(3,4) by (simp add: absolute_def)
qed

lemma conn_inv_ack:
  assumes inv: "conn_inv base D U r" and t: "t = GetAppropriateTxWindow type"
    and bit: "bit_at (receive_window (rx_win t r)) (sint (psn - rx_base (rx_win t r)))"
    and upd: "UpdateReceiveAckBitmap type psn r = Some r'"
    and noctx: "t = kData \<longrightarrow> (\<forall>key. push_contexts r key \<noteq> Some psn)"
    and U: "U \<subseteq> U'" "t = kData \<longrightarrow> number base r t psn \<in> U' \<or>
      (\<forall>ty. (t, number base r t psn, ty) \<in> set D \<longrightarrow> \<not> is_push_data ty)"
  shows "conn_inv (moved base r r') D U' r'"
    "rx_received (moved base r r') r' u = rx_received base r u"
proof -
  let ?w = "rx_win t r" and ?n = "number base r t psn" and ?B = "moved base r r'"
  have wf: "rx_wf (rx_win u r)" for u using inv by (simp add: conn_inv_def delivery_inv_def)
  obtain w' d where w': "ack_psn ?w psn = Some (w', d)" "rx_wf w'" "0 \<le> d"
      "d \<le> Size (receive_window ?w)" "rx_base w' = rx_base ?w + word_of_int d"
      "acked_from (base t + d) w' = insert ?n (acked_from (base t) ?w)"
      "received_from (base t + d) w' = received_from (base t) ?w"
    using ack_psn_spec [OF wf refl bit_at_nonneg [OF bit] bit, of "base t"]
    by (auto simp: number_def absolute_def)
  have r': "r' = (put_rx_window type w' r)\<lparr>implicitly_acked_counter :=
      implicitly_acked_counter r + word_of_int d\<rparr>"
    using upd w'(1) t by (simp add: UpdateReceiveAckBitmap_def rx_window_of_type)
  have win: "rx_win u r' = (if u = t then w' else rx_win u r)" for u
    using t by (simp add: r')
  have ctx: "push_contexts r' = push_contexts r"
    by (rule ext) (simp add: r' push_contexts_def put_rx_window_def)
  have "Size (receive_window ?w) < 2 ^ 31" using wf [of t] by (simp add: rx_wf_def)
  then have "uint (word_of_int d :: u32) = d"
    using w'(3,4) by (simp add: uint_word_of_int)
  then have B: "?B u = (if u = t then base t + d else base u)" for u
    using w'(5) by (simp add: moved_def win)
  show rcv: "rx_received ?B r' u = rx_received base r u" for u
    using w'(7) by (simp add: rx_received_def win B)
  have ack: "rx_acked ?B r' u = (if u = t then insert ?n (rx_acked base r u) else rx_acked base r u)"
    for u using w'(6) by (simp add: rx_acked_def win B)
  have wf': "rx_wf (rx_win u r')" "rx_base (rx_win u r') = word_of_int (?B u)" for u
    using inv wf w'(2,5) by (simp_all add: win B conn_inv_def delivery_inv_def)
  have "delivery_inv ?B D U' r'"
    using inv U wf' by (auto simp: conn_inv_def delivery_inv_def rcv ack split: if_splits)
  moreover have "context_inv ?B r'"
  proof -
    have "number ?B r' kData p \<in> rx_received base r kData - rx_acked ?B r' kData"
      if p: "push_contexts r key = Some p" for key p
    proof -
      let ?m = "number base r kData p"
      have m: "?m \<in> rx_received base r kData - rx_acked base r kData"
        using inv p by (auto simp: conn_inv_def context_inv_def)
      have "?m \<noteq> ?n" if "t = kData" using noctx p number_inj that by metis
      then have m': "?m \<in> rx_received ?B r' kData - rx_acked ?B r' kData"
        using m ack [of kData] rcv by auto
      then have "0 \<le> ?m - ?B kData" "?m - ?B kData < 2 ^ 31"
        using wf'(1) [of kData] by (auto simp: rx_received_def rx_acked_def received_from_def
            acked_from_def rx_wf_def)
      then have "number ?B r' kData p = ?m"
        using absolute_shift [of ?m "base kData" "rx_win kData r" p "rx_win kData r'"
            "?B kData - base kData"] w'(5)
        by (auto simp: number_def B win split: if_splits)
      then show ?thesis using m' rcv by simp
    qed
    then show ?thesis
      using inv unfolding conn_inv_def context_inv_def rcv ctx by blast
  qed
  ultimately show "conn_inv ?B D U' r'" by (simp add: conn_inv_def)
qed

lemma conn_inv_deliver:
  assumes "conn_inv base D U r" "n \<in> rx_received base r t" "\<And>ty. (t, n, ty) \<notin> set D"
    "t = kData \<Longrightarrow> is_push_data type \<Longrightarrow> n \<notin> rx_acked base r t"
  shows "conn_inv base (D @ [(t, n, type)]) U r"
  using assms by (auto simp: conn_inv_def delivery_inv_def)

lemma push_contexts_put:
  "push_contexts (r\<lparr>received_packet_contexts := (received_packet_contexts r)(key \<mapsto> c)\<rparr>)
     = (push_contexts r)(key := push_psn c)"
  by (rule ext) (simp add: push_contexts_def)

lemma conn_inv_context:
  assumes inv: "conn_inv base D U r"
    and upd: "CreateOrUpdateReceiverPacketContext p kIncoming r = Some r'"
    and new: "is_push_data (packet_type p) \<Longrightarrow>
        number base r kData (falcon_psn p) \<in> rx_received base r kData - rx_acked base r kData"
      "is_push_data (packet_type p) \<Longrightarrow> (\<And>key. push_contexts r key \<noteq> Some (falcon_psn p))"
  shows "conn_inv base D U r'" "rx_base (rx_win t r') = rx_base (rx_win t r)"
proof -
  obtain key c where r': "r' = r\<lparr>received_packet_contexts := (received_packet_contexts r)(key \<mapsto> c)\<rparr>"
      and c: "rpc_type c = Some (packet_type p)" "rpc_psn c = falcon_psn p"
    using upd
    by (cases "GetTransactionLocation (packet_type p) True")
       (auto simp: CreateOrUpdateReceiverPacketContext_def Let_def split: if_splits)
  have psn: "push_psn c = (if is_push_data (packet_type p) then Some (falcon_psn p) else None)"
    using c by (simp add: push_psn_def)
  have win: "rx_win u r' = rx_win u r" for u by (simp add: r' rx_win_def)
  then show "rx_base (rx_win t r') = rx_base (rx_win t r)" by simp
  have ctx: "push_contexts r' = (push_contexts r)(key := push_psn c)"
    by (simp add: r' push_contexts_put)
  have "context_inv base r'"
    using inv new unfolding conn_inv_def context_inv_def ctx psn
    by (auto simp: win number_def rx_received_def rx_acked_def)
  then show "conn_inv base D U r'"
    using inv by (simp add: conn_inv_def delivery_inv_def win rx_received_def rx_acked_def)
qed

lemma moved_cong:
  assumes "\<And>u. rx_base (rx_win u a) = rx_base (rx_win u a')"
    "\<And>u. rx_base (rx_win u b) = rx_base (rx_win u b')"
  shows "moved base a b = moved base a' b'"
  using assms by (simp add: moved_def fun_eq_iff)

lemma classify_quiet:
  "rx_quiet r r' \<Longrightarrow> classify_psn (rx_win t r') psn = classify_psn (rx_win t r) psn"
  by (simp add: classify_psn_def rx_win_quiet)

lemma quiet_context: "rx_quiet r r' \<Longrightarrow> push_contexts r' key = Some psn \<Longrightarrow> push_contexts r key = Some psn"
  unfolding rx_quiet_def map_le_def by (metis domI)

lemma keptD: "kept r (Some cs) \<Longrightarrow> rx_quiet r (rx cs)" "kept2 r (Some (x, cs)) \<Longrightarrow> rx_quiet r (rx cs)"
  by simp_all

lemma push_in_data: "is_push_data type \<Longrightarrow> GetAppropriateTxWindow type = kData"
  by (auto simp: is_push_data_def GetAppropriateTxWindow_def)

text \<open>The tail of \<open>AcceptPacket\<close>, once the windows are updated.\<close>

lemma conn_inv_accept_tail:
  assumes inv: "conn_inv base D U (rx cs)"
    and run: "do { r \<leftarrow> (if packet_type p \<noteq> kResync
                     then CreateOrUpdateReceiverPacketContext (Packet.truncate p) kIncoming (rx cs)
                     else Some (rx cs));
                   cs \<leftarrow> HandlePiggybackedACK env p (cs\<lparr>rx := r\<rparr>);
                   Some (OkStatus, cs) } = Some (st, cs')"
    and new: "is_push_data (packet_type p) \<Longrightarrow>
        number base (rx cs) kData (falcon_psn p) \<in> rx_received base (rx cs) kData - rx_acked base (rx cs) kData"
      "is_push_data (packet_type p) \<Longrightarrow> (\<And>key. push_contexts (rx cs) key \<noteq> Some (falcon_psn p))"
  shows "conn_inv base D U (rx cs')" "rx_base (rx_win t (rx cs')) = rx_base (rx_win t (rx cs))"
    "st = OkStatus"
proof -
  obtain r where r: "conn_inv base D U r" "rx_base (rx_win t r) = rx_base (rx_win t (rx cs))"
      and pb: "HandlePiggybackedACK env p (cs\<lparr>rx := r\<rparr>) = Some cs'" "st = OkStatus"
    using run inv conn_inv_context [OF inv, of "Packet.truncate p"] new
    by (auto simp: bind_eq_Some_conv Packet.truncate_def split: if_splits)
  have "rx_quiet r (rx cs')" using kept_piggybacked [of r "cs\<lparr>rx := r\<rparr>" env p] pb by simp
  then show "conn_inv base D U (rx cs')" "rx_base (rx_win t (rx cs')) = rx_base (rx_win t (rx cs))"
      "st = OkStatus"
    using conn_inv_quiet r rx_win_quiet(1) pb(2) by auto
qed

definition deliver ::
    "status \<Rightarrow> WindowType \<Rightarrow> int \<Rightarrow> PacketType \<Rightarrow> rx_delivery list \<Rightarrow> rx_delivery list" where
  "deliver st t n type D = (if st = OkStatus then D @ [(t, n, type)] else D)"

text \<open>The packet \<open>psn\<close> has just been marked as received and nothing else is known of it.\<close>

definition just_marked ::
    "(WindowType \<Rightarrow> int) \<Rightarrow> rx_delivery list \<Rightarrow> ReceiverReliabilityMetadata \<Rightarrow> WindowType \<Rightarrow> u32 \<Rightarrow> bool"
  where
  "just_marked base D r t psn \<longleftrightarrow>
     number base r t psn \<in> rx_received base r t - rx_acked base r t \<and>
     (\<forall>type. (t, number base r t psn, type) \<notin> set D) \<and>
     (t = kData \<longrightarrow> (\<forall>key. push_contexts r key \<noteq> Some psn)) \<and>
     bit_at (receive_window (rx_win t r)) (sint (psn - rx_base (rx_win t r)))"

lemma just_marked_mark:
  assumes inv: "conn_inv base D U r" and t: "t = GetAppropriateTxWindow type"
    and "classify_psn (rx_win t r) psn = Some (Fresh i)" "mark_received (rx_win t r) i = Some w"
  shows "just_marked base D (put_rx_window type w r) t psn"
proof -
  note mark = conn_inv_mark [OF assms]
  have "number base r t psn \<notin> rx_acked base r t"
    using acked_subset [of t r base] inv mark(2) by (auto simp: conn_inv_def delivery_inv_def)
  then show ?thesis
    using inv mark(2,3,9)
    by (auto simp: just_marked_def mark(5-7) conn_inv_def delivery_inv_def context_inv_def
        simp del: rx_win_put)
qed

lemma conn_inv_accept_at_once:
  assumes inv: "conn_inv base D U r" and new: "just_marked base D r t psn"
    and t: "t = GetAppropriateTxWindow (packet_type p)" "psn = falcon_psn p"
      "\<not> is_push_data (packet_type p)"
    and upd: "UpdateReceiveAckBitmap (packet_type p) psn r = Some r3"
    and gen: "checked (GenerateAckOrUpdateCoalescingState env ar 2 (cs\<lparr>rx := r3\<rparr>)) = Some cs4"
    and rest: "do { r \<leftarrow> (if packet_type p \<noteq> kResync
                     then CreateOrUpdateReceiverPacketContext (Packet.truncate p) kIncoming (rx cs4)
                     else Some (rx cs4));
                   cs \<leftarrow> HandlePiggybackedACK env p (cs4\<lparr>rx := r\<rparr>);
                   Some (OkStatus, cs) } = Some (st, cs')"
  shows "conn_inv (moved base r (rx cs')) (D @ [(t, number base r t psn, packet_type p)]) U (rx cs')"
    "st = OkStatus"
proof -
  let ?B = "moved base r r3"
  note m = new [unfolded just_marked_def]
  have ack: "conn_inv ?B D U r3" "\<And>u. rx_received ?B r3 u = rx_received base r u"
    using conn_inv_ack [OF inv t(1) _ upd _ subset_refl] m by auto
  have "kept r3 (checked (GenerateAckOrUpdateCoalescingState env ar 2 (cs\<lparr>rx := r3\<rparr>)))"
    by (intro kept_ops) simp
  then have q: "rx_quiet r3 (rx cs4)" using gen by simp
  have "conn_inv ?B (D @ [(t, number base r t psn, packet_type p)]) U (rx cs4)"
    by (rule conn_inv_deliver [OF conn_inv_quiet [OF ack(1) q]])
       (use m t in \<open>simp_all add: rx_view_quiet [OF q] ack(2)\<close>)
  note tail = conn_inv_accept_tail [OF this rest t(3) [THEN notE] t(3) [THEN notE]]
  have "moved base r (rx cs') = ?B"
    by (rule moved_cong) (simp_all only: tail(2) rx_win_quiet(1) [OF q])
  then show "conn_inv (moved base r (rx cs')) (D @ [(t, number base r t psn, packet_type p)]) U (rx cs')"
      "st = OkStatus"
    using tail(1,3) by simp_all
qed

lemma conn_inv_accept_push:
  assumes inv: "conn_inv base D U r" and new: "just_marked base D r kData (falcon_psn p)"
    and push: "is_push_data (packet_type p)"
    and gen: "GenerateAckOrUpdateCoalescingState env False 1 (cs\<lparr>rx := r\<rparr>) = Some (st4, cs4)"
    and rest: "if st4 \<noteq> OkStatus then Some (st4, cs4) = Some (st, cs')
          else do { r \<leftarrow> (if packet_type p \<noteq> kResync
                     then CreateOrUpdateReceiverPacketContext (Packet.truncate p) kIncoming (rx cs4)
                     else Some (rx cs4));
                   cs \<leftarrow> HandlePiggybackedACK env p (cs4\<lparr>rx := r\<rparr>);
                   Some (OkStatus, cs) } = Some (st, cs')"
  shows "conn_inv (moved base r (rx cs'))
    (deliver st kData (number base r kData (falcon_psn p)) (packet_type p) D) U (rx cs')"
proof -
  let ?psn = "falcon_psn p" and ?n = "number base r kData (falcon_psn p)"
  note m = new [unfolded just_marked_def]
  have "kept2 r (GenerateAckOrUpdateCoalescingState env False 1 (cs\<lparr>rx := r\<rparr>))"
    by (intro kept_ops) simp
  then have q: "rx_quiet r (rx cs4)" using gen by simp
  note inv4 = conn_inv_quiet [OF inv q]
  show ?thesis
  proof (cases "st4 = OkStatus")
    case False
    then show ?thesis using rest inv4 q by (auto simp: deliver_def moved_quiet(1))
  next
    case True
    have "conn_inv base (D @ [(kData, ?n, packet_type p)]) U (rx cs4)"
      by (rule conn_inv_deliver [OF inv4]) (use m in \<open>simp_all add: rx_view_quiet [OF q]\<close>)
    note tail = conn_inv_accept_tail [OF this]
    have "push_contexts (rx cs4) key \<noteq> Some ?psn" for key
      using quiet_context [OF q] m by blast
    then have "conn_inv base (D @ [(kData, ?n, packet_type p)]) U (rx cs')"
        "rx_base (rx_win u (rx cs')) = rx_base (rx_win u (rx cs4))" "st = OkStatus" for u
      using tail [of p env st cs'] rest True m by (auto simp: rx_view_quiet [OF q])
    then show ?thesis
      using moved_quiet(1) [OF q] moved_cong [of r r "rx cs'" "rx cs4"] by (simp add: deliver_def)
  qed
qed

lemma conn_inv_AcceptPacket:
  assumes inv: "conn_inv base D U (rx cs)" and t: "t = GetAppropriateTxWindow (packet_type p)"
    and fresh: "classify_psn (rx_win t (rx cs)) (falcon_psn p) = Some (Fresh i)"
    and run: "AcceptPacket env p i cs = Some (st, cs')"
  shows "conn_inv (moved base (rx cs) (rx cs'))
    (deliver st t (number base (rx cs) t (falcon_psn p)) (packet_type p) D) U (rx cs')"
proof -
  obtain cs1 w where cs1: "HandleImplicitAck env p cs = Some cs1"
      and w: "mark_received (rx_win t (rx cs1)) i = Some w"
    using run t by (auto simp: AcceptPacket_def Let_def rx_window_of_type bind_eq_Some_conv)
  have q: "rx_quiet (rx cs) (rx cs1)" using kept_implicit [of "rx cs" cs env p] cs1 by simp
  let ?r = "put_rx_window (packet_type p) w (rx cs1)"
  note args = conn_inv_quiet [OF inv q] t fresh [folded classify_quiet [OF q]] w
  note mark = conn_inv_mark [OF args] and new = just_marked_mark [OF args]
  have bases: "moved base (rx cs) (rx cs') = moved base ?r (rx cs')"
    by (rule moved_cong) (simp_all only: mark(8) rx_win_quiet(1) [OF q])
  have n: "number base (rx cs) t (falcon_psn p) = number base ?r t (falcon_psn p)"
    by (simp only: mark(6) rx_view_quiet(4) [OF q])
  show ?thesis
  proof (cases "is_push_data (packet_type p)")
    case False
    then show ?thesis
      unfolding bases n using run cs1 w t conn_inv_accept_at_once [OF mark(1) new t refl False, of _ env]
      by (auto simp: AcceptPacket_def Let_def rx_window_of_type bind_eq_Some_conv deliver_def)
  next
    case True
    have data: "t = kData" using push_in_data [OF True] t by simp
    obtain st4 cs4 where gen: "GenerateAckOrUpdateCoalescingState env False 1 (cs1\<lparr>rx := ?r\<rparr>)
            = Some (st4, cs4)"
        and rest: "if st4 \<noteq> OkStatus then Some (st4, cs4) = Some (st, cs')
          else do { r \<leftarrow> (if packet_type p \<noteq> kResync
                     then CreateOrUpdateReceiverPacketContext (Packet.truncate p) kIncoming (rx cs4)
                     else Some (rx cs4));
                   cs \<leftarrow> HandlePiggybackedACK env p (cs4\<lparr>rx := r\<rparr>);
                   Some (OkStatus, cs) } = Some (st, cs')"
      using run cs1 w t True
      by (auto simp: AcceptPacket_def Let_def rx_window_of_type bind_eq_Some_conv split: if_splits)
    show ?thesis
      unfolding bases n unfolding data
      by (rule conn_inv_accept_push [OF mark(1) new [unfolded data] True gen rest])
  qed
qed

lemma conn_inv_receive:
  assumes inv: "conn_inv base D U (rx cs)" and t: "t = GetAppropriateTxWindow (packet_type p)"
    and run: "HandleIncomingPacketOrResync env p cs = Some (st, cs')"
  shows "conn_inv (moved base (rx cs) (rx cs'))
    (deliver st t (number base (rx cs) t (falcon_psn p)) (packet_type p) D) U (rx cs')"
proof -
  obtain cs1 where cs1: "UpdateCongestionControlMetadataToReflect p cs = Some cs1"
    using run by (auto simp: HandleIncomingPacketOrResync_def Let_def bind_eq_Some_conv)
  have q1: "rx_quiet (rx cs) (rx cs1)" using kept_reflect [of "rx cs" cs p] cs1 by simp
  let ?w = "rx_win t (rx cs1)"
  have "rx_wf ?w" using conn_inv_quiet [OF inv q1] by (simp add: conn_inv_def delivery_inv_def)
  then obtain v where v: "classify_psn ?w (falcon_psn p) = Some v" by (simp add: classify_psn_cases)
  have dropped: ?thesis if "rx_quiet (rx cs1) (rx cs')" "st \<noteq> OkStatus"
    using conn_inv_quiet [OF inv] moved_quiet(1) rx_quiet_trans [OF q1 that(1)] that(2)
    by (simp add: deliver_def)
  show ?thesis
  proof (cases "\<exists>i. v = Fresh i \<and> env_resources env (Packet.truncate p) = OkStatus")
    case True
    then obtain i where "v = Fresh i" "AcceptPacket env p i cs1 = Some (st, cs')"
      using run cs1 v t by (auto simp: HandleIncomingPacketOrResync_def Let_def rx_window_of_type)
    then show ?thesis
      using conn_inv_AcceptPacket [OF conn_inv_quiet [OF inv q1] t, of i env st cs'] v
      by (simp add: moved_quiet [OF q1] rx_view_quiet [OF q1])
  next
    case False
    let ?oow = "cs1\<lparr>rx := put_rx_window (packet_type p) (?w\<lparr>has_oow_drop := True\<rparr>) (rx cs1)\<rparr>"
    have "rx_quiet (rx cs1) (rx ?oow)"
      using t by (simp add: rx_quiet_def put_rx_window_def win_core_def push_contexts_def map_le_def
          rx_win_def GetAppropriateTxWindow_def)
    then have gen: "kept (rx cs1) (checked (GenerateAckOrUpdateCoalescingState env b k ?oow))" for b k
      by (intro kept_ops)
    have "kept2 (rx cs1) (Some (st, cs')) \<and> st \<noteq> OkStatus"
    proof (cases v)
      case BelowWindow
      then show ?thesis using run cs1 v t
          kept_checked [OF kept_Generate [OF rx_quiet_refl, of cs1 env "falcon_ack_req p" 2]]
        by (auto simp: HandleIncomingPacketOrResync_def Let_def rx_window_of_type kept_def
            bind_eq_Some_conv)
    next
      case BeyondWindow
      then show ?thesis using run cs1 v t gen [of "falcon_ack_req p" 2]
          kept_checked [OF kept_TransmitNACK [OF rx_quiet_refl, of cs1]]
        by (auto simp: HandleIncomingPacketOrResync_def Let_def rx_window_of_type kept_def
            bind_eq_Some_conv split: if_splits)
    next
      case AlreadyReceived
      obtain cs2 where cs2: "checked (GenerateAckOrUpdateCoalescingState env (falcon_ack_req p) 2 cs1)
            = Some cs2" "checked (HandleDuplicateNackedPacket env p cs2) = Some cs'"
          "st = AlreadyExistsError"
        using run cs1 v t AlreadyReceived
        by (auto simp: HandleIncomingPacketOrResync_def Let_def rx_window_of_type bind_eq_Some_conv)
      then have "rx_quiet (rx cs1) (rx cs2)"
        using kept_checked [OF kept_Generate [OF rx_quiet_refl, of cs1 env "falcon_ack_req p" 2]] by simp
      then show ?thesis using kept_checked [OF kept_duplicate, of "rx cs1" cs2 env p] cs2 by simp
    next
      case (Fresh i)
      then show ?thesis using False run cs1 v t kept_piggybacked [OF rx_quiet_refl, of cs1 env p]
        by (auto simp: HandleIncomingPacketOrResync_def Let_def rx_window_of_type kept_def
            bind_eq_Some_conv)
    qed
    then show ?thesis using dropped by simp
  qed
qed

text \<open>The data-window number an acknowledgement of the upper layer settles.\<close>

definition settled_by_ulp ::
    "(WindowType \<Rightarrow> int) \<Rightarrow> ReceiverReliabilityMetadata \<Rightarrow> u32 \<Rightarrow> int set" where
  "settled_by_ulp base r rsn =
     (case push_contexts r (mk_key rsn kTarget) of
        Some psn \<Rightarrow> {number base r kData psn} | None \<Rightarrow> {})"

text \<open>
  The upper layer acknowledges what it was handed: the context of the transaction is that of a
  pull request or of push data.
\<close>

definition ulp_ackable :: "ReceiverReliabilityMetadata \<Rightarrow> u32 \<Rightarrow> bool" where
  "ulp_ackable r rsn =
     (case received_packet_contexts r (mk_key rsn kTarget) of
        None \<Rightarrow> True
      | Some ctx \<Rightarrow> (case rpc_type ctx of
          None \<Rightarrow> False | Some type \<Rightarrow> type = kPullRequest \<or> is_push_data type))"

lemma conn_inv_ulp_ack:
  assumes inv: "conn_inv base D U (rx cs)" and ok: "ulp_ackable (rx cs) rsn"
    and run: "UlpAckReceived env rsn cs = Some (st, cs')"
  shows "conn_inv (moved base (rx cs) (rx cs')) D (U \<union> settled_by_ulp base (rx cs) rsn) (rx cs')"
proof -
  let ?key = "mk_key rsn kTarget"
  have weaken: "conn_inv base D (U \<union> V) r" if "conn_inv base D U r" for V r
    using that by (auto simp: conn_inv_def delivery_inv_def)
  show ?thesis
  proof (cases "push_contexts (rx cs) ?key")
    case None
    then have "cs' = cs"
      using ok run by (auto simp: ulp_ackable_def UlpAckReceived_def push_contexts_def push_psn_def
          Let_def split: option.splits if_splits)
    then show ?thesis using weaken [OF inv] by (simp add: moved_quiet(1))
  next
    case (Some psn)
    then obtain ctx type where ctx: "received_packet_contexts (rx cs) ?key = Some ctx"
        "rpc_type ctx = Some type" "is_push_data type" "rpc_psn ctx = psn"
      by (auto simp: push_contexts_def push_psn_def bind_eq_Some_conv split: option.splits if_splits)
    let ?r1 = "(rx cs)\<lparr>received_packet_contexts := (received_packet_contexts (rx cs))(?key := None)\<rparr>"
    have q1: "rx_quiet (rx cs) ?r1" by (simp add: rx_quiet_drop)
    have pc: "push_contexts ?r1 = (push_contexts (rx cs))(?key := None)"
      by (rule ext) (simp add: push_contexts_def)
    obtain r2 where r2: "UpdateReceiveAckBitmap type psn ?r1 = Some r2"
        and gen: "GenerateAckOrUpdateCoalescingState env (rpc_is_ack_requested ctx) 1
          (cs\<lparr>rx := r2, transactions := (transactions cs)(?key := None)\<rparr>) = Some (st, cs')"
      using run ctx by (auto simp: UlpAckReceived_def Let_def is_push_data_def bind_eq_Some_conv)
    let ?n = "number base (rx cs) kData psn"
    have n: "?n \<in> rx_received base (rx cs) kData - rx_acked base (rx cs) kData"
      using inv Some by (auto simp: conn_inv_def context_inv_def)
    then have bit: "bit_at (receive_window (rx_win kData (rx cs))) (sint (psn - rx_base (rx_win kData (rx cs))))"
      by (auto simp: rx_received_def rx_acked_def received_from_def acked_from_def number_def absolute_def)
    have data: "kData = GetAppropriateTxWindow type" using push_in_data [OF ctx(3)] by simp
    have noctx: "push_contexts ?r1 key \<noteq> Some psn" for key
      using inv Some by (auto simp: pc conn_inv_def context_inv_def)
    have "conn_inv (moved base ?r1 r2) D (U \<union> {?n}) r2"
      using conn_inv_ack(1) [OF conn_inv_quiet [OF inv q1] data _ r2, of "U \<union> {?n}"] bit noctx
      by (simp add: rx_win_quiet [OF q1] rx_view_quiet [OF q1] subset_insertI)
    moreover have "kept2 r2 (GenerateAckOrUpdateCoalescingState env (rpc_is_ack_requested ctx) 1
          (cs\<lparr>rx := r2, transactions := (transactions cs)(?key := None)\<rparr>))"
      by (intro kept_ops) simp
    then have q3: "rx_quiet r2 (rx cs')" using gen by simp
    ultimately show ?thesis
      using conn_inv_quiet [OF _ q3] Some
      by (simp add: moved_quiet(2) [OF q1] moved_quiet(3) [OF q3] settled_by_ulp_def)
  qed
qed

section \<open>The connection in time\<close>

text \<open>
  Packets and acknowledgements arrive, the upper layer answers, timers fire, packets are sent, and
  the rest of the simulator (\<open>other\<close>) changes what it likes outside \<open>rx\<close>. Every call may have
  its own environment. The first three components are the ghost state of \<open>conn_inv\<close>.
\<close>

type_synonym rx_state = "(WindowType \<Rightarrow> int) \<times> rx_delivery list \<times> int set \<times> ConnectionState"

inductive conn_step :: "rx_state \<Rightarrow> rx_state \<Rightarrow> bool" where
  receive: "HandleIncomingPacketOrResync env p cs = Some (st, cs') \<Longrightarrow>
    t = GetAppropriateTxWindow (packet_type p) \<Longrightarrow>
    conn_step (base, D, U, cs)
      (moved base (rx cs) (rx cs'),
       deliver st t (number base (rx cs) t (falcon_psn p)) (packet_type p) D, U, cs')"
| ulp_ack: "ulp_ackable (rx cs) rsn \<Longrightarrow> UlpAckReceived env rsn cs = Some (st, cs') \<Longrightarrow>
    conn_step (base, D, U, cs)
      (moved base (rx cs) (rx cs'), D, U \<union> settled_by_ulp base (rx cs) rsn, cs')"
| ack: "HandleACK env p cs = Some (st, cs') \<Longrightarrow> conn_step (base, D, U, cs) (base, D, U, cs')"
| nack: "HandleNack env p cs = Some (st, cs') \<Longrightarrow> conn_step (base, D, U, cs) (base, D, U, cs')"
| ulp_nack: "HandleNackFromUlp env key ulp cs = Some (st, cs') \<Longrightarrow>
    conn_step (base, D, U, cs) (base, D, U, cs')"
| transmit: "TransmitPacket env ar rsn type cs = Some (st, cs') \<Longrightarrow>
    conn_step (base, D, U, cs) (base, D, U, cs')"
| retransmit_timeout: "HandleRetransmitTimeout env cs = Some cs' \<Longrightarrow>
    conn_step (base, D, U, cs) (base, D, U, cs')"
| tlp_timeout: "HandleTlpTimeout env cs = Some cs' \<Longrightarrow>
    conn_step (base, D, U, cs) (base, D, U, cs')"
| ack_timeout: "HandleAckCoalescingTimeout env cs = Some cs' \<Longrightarrow>
    conn_step (base, D, U, cs) (base, D, U, cs')"
| other: "rx cs' = rx cs \<Longrightarrow> conn_step (base, D, U, cs) (base, D, U, cs')"

fun conn_state_inv :: "rx_state \<Rightarrow> bool" where
  "conn_state_inv (base, D, U, cs) = conn_inv base D U (rx cs)"

lemma conn_state_inv_step:
  assumes "conn_step s s'" "conn_state_inv s"
  shows "conn_state_inv s'"
  using assms
proof (cases rule: conn_step.cases)
  case (receive env p cs st cs' t base D U)
  then show ?thesis using assms(2) conn_inv_receive [OF _ receive(4,3)] by simp
next
  case (ulp_ack cs rsn env st cs' base D U)
  then show ?thesis using assms(2) conn_inv_ulp_ack by simp
next
  case (ack env p cs st cs' base D U)
  then show ?thesis using assms(2) conn_inv_quiet kept_HandleACK [of "rx cs" cs env p] by auto
next
  case (nack env p cs st cs' base D U)
  then show ?thesis using assms(2) conn_inv_quiet kept_HandleNack [of "rx cs" cs env p] by auto
next
  case (ulp_nack env key ulp cs st cs' base D U)
  then show ?thesis
    using assms(2) conn_inv_quiet kept_HandleNackFromUlp [of "rx cs" cs env key ulp] by auto
next
  case (transmit env ar rsn type cs st cs' base D U)
  then show ?thesis
    using assms(2) conn_inv_quiet kept_TransmitPacket [of "rx cs" cs env ar rsn type] by auto
next
  case (retransmit_timeout env cs cs' base D U)
  then show ?thesis
    using assms(2) conn_inv_quiet kept_HandleRetransmitTimeout [of "rx cs" cs env] by auto
next
  case (tlp_timeout env cs cs' base D U)
  then show ?thesis using assms(2) conn_inv_quiet kept_HandleTlpTimeout [of "rx cs" cs env] by auto
next
  case (ack_timeout env cs cs' base D U)
  then show ?thesis using assms(2) conn_inv_quiet kept_ack_timeout [of "rx cs" cs env] by auto
qed simp_all

lemma conn_state_inv_reachable: "conn_step\<^sup>*\<^sup>* s s' \<Longrightarrow> conn_state_inv s \<Longrightarrow> conn_state_inv s'"
  by (induction rule: rtranclp_induct) (auto intro: conn_state_inv_step)

lemma rx_base_new: "new_RxWindow type version = Some w \<Longrightarrow> rx_base w = 0"
  by (auto simp: new_RxWindow_def Let_def split: if_splits)

lemma conn_inv_new:
  assumes "new_ReceiverReliabilityMetadata version = Some r"
  shows "conn_inv (\<lambda>_. 0) [] {} r"
  using assms rx_wf_new rx_base_new
  by (auto simp: new_ReceiverReliabilityMetadata_def conn_inv_def delivery_inv_def context_inv_def
      push_contexts_def rx_win_def bind_eq_Some_conv)

section \<open>Properties\<close>

text \<open>
  C1 Exactly-once delivery. Start from a new connection and let packets, duplicates, ACKs, NACKs,
  timers, transmissions and the upper layer interleave in any way. The base PSNs are the window's
  unbounded base numbers modulo \<open>2 ^ 32\<close>; no number of a window is ever delivered twice, however
  the PSNs wrap around; every delivered number stays recorded as received; and what the
  acknowledgements report is safe to forget: push data below the base of the data window, or marked
  in its acknowledgement bitmap, has been acknowledged by the upper layer.
\<close>

theorem delivered_exactly_once:
  assumes "conn_step\<^sup>*\<^sup>* (\<lambda>_. 0, [], {}, cs0) (base, D, U, cs)"
    and "new_ReceiverReliabilityMetadata version = Some (rx cs0)"
  shows "(\<forall>t. rx_base (rx_win t (rx cs)) = word_of_int (base t))
    \<and> distinct (map (\<lambda>(t, n, type). (t, n)) D)
    \<and> (\<forall>(t, n, type) \<in> set D. n \<in> rx_received base (rx cs) t)
    \<and> (\<forall>(t, n, type) \<in> set D. is_push_data type \<longrightarrow> t = kData \<longrightarrow>
          n \<in> rx_acked base (rx cs) kData \<longrightarrow> n \<in> U)"
proof -
  have "conn_inv base D U (rx cs)"
    using conn_state_inv_reachable [OF assms(1)] conn_inv_new [OF assms(2)] by simp
  then show ?thesis by (auto simp: conn_inv_def delivery_inv_def)
qed

text \<open>Two unsolicited data packets with PSN 0 and a request reach a new connection.\<close>

definition data_packet :: "u32 \<Rightarrow> NetPacket" where
  "data_packet psn = new_NetPacket\<lparr>packet_type := kPushUnsolicitedData, falcon_psn := psn,
     falcon_rsn := 7\<rparr>"

definition deliveries :: "NetPacket list \<Rightarrow> status list option" where
  "deliveries ps = map_option fst (fold (\<lambda>p acc. do {
       (sts, cs) \<leftarrow> acc;
       (st, cs) \<leftarrow> HandleIncomingPacketOrResync (quiet_env 8) p cs;
       Some (sts @ [st], cs) }) ps (Some ([], example_connection)))"

lemma deliveries_example:
  "deliveries [data_packet 0, data_packet 0, data_packet 200]
     = Some [OkStatus, AlreadyExistsError, OutOfRangeError]"
  by code_simp

lemma first_delivery:
  "map_option fst (HandleIncomingPacketOrResync (quiet_env 8) (data_packet 0) example_connection)
     = Some OkStatus"
  by code_simp

lemma delivered_exactly_once_witness:
  "\<exists>base U cs. conn_step\<^sup>*\<^sup>* (\<lambda>_. 0, [], {}, example_connection)
       (base, [(kData, 0, kPushUnsolicitedData)], U, cs)
     \<and> 0 \<in> rx_received base (rx cs) kData \<and> (0 \<in> rx_acked base (rx cs) kData \<longrightarrow> 0 \<in> U)"
proof -
  obtain cs' where run: "HandleIncomingPacketOrResync (quiet_env 8) (data_packet 0) example_connection
      = Some (OkStatus, cs')"
    using first_delivery by auto
  have new: "new_ReceiverReliabilityMetadata 1 = Some (rx example_connection)"
    by (simp add: example_simps)
  have "number (\<lambda>_. 0) (rx example_connection) kData 0 = 0"
    by (simp add: example_simps number_def absolute_def rx_win_def)
  then obtain base U where "conn_step (\<lambda>_. 0, [], {}, example_connection)
       (base, [(kData, 0, kPushUnsolicitedData)], U, cs')"
    using conn_step.receive [OF run refl, of "\<lambda>_. 0" "[]" "{}"]
    by (auto simp: data_packet_def new_NetPacket_def Packet.defs new_Packet_def deliver_def GetAppropriateTxWindow_def)
  then have run: "conn_step\<^sup>*\<^sup>* (\<lambda>_. 0, [], {}, example_connection)
       (base, [(kData, 0, kPushUnsolicitedData)], U, cs')" by blast
  then show ?thesis using delivered_exactly_once [OF run new] by (auto simp: is_push_data_def)
qed

end
