(* ===== verification/Resource_Manager.thy ===== *)
theory Resource_Manager
  imports Credits Transactions
begin

text \<open>
  \<open>host/falcon/falcon_protocol_resource_manager.{h,cc}\<close>: admission of packets against the global
  credits, the occupancy zones of the network-request pools and the per-connection profiles, the
  reservation and release of credits, and the XOFF signals to RDMA.

  The lemmas show that what a transaction reserves is what its releases give back, that the
  credits in the pools and the credits held add up to the configured credits over any history,
  that the XOFF flags follow the credits, and which network requests each zone admits.

  State: the global credits, the two XOFF flags, the averaged and the quantised occupancy, the
  per-connection counters (kept by the statistics manager and read back here) and the log of calls
  on the RDMA model. Parameters: whether the reorder engine holds a request to be head of line, and
  the floating-point step of the averages.

  There are two reservation modes. \<open>BYPASS_RESERVATION\<close> returns before anything else, so that every
  later test for \<open>FIRST_PHASE_RESERVATION\<close> succeeds.
\<close>

section \<open>Configuration and state\<close>

datatype ResourceReservationMode = FIRST_PHASE_RESERVATION | BYPASS_RESERVATION

datatype RxNetworkRequestZone = kGreen | kYellow | kRed

fun zone_rank :: "RxNetworkRequestZone \<Rightarrow> nat" where
  "zone_rank kGreen = 0" | "zone_rank kYellow = 1" | "zone_rank kRed = 2"

instantiation RxNetworkRequestZone :: linorder
begin

definition less_eq_RxNetworkRequestZone :: "RxNetworkRequestZone \<Rightarrow> RxNetworkRequestZone \<Rightarrow> bool" where
  "less_eq_RxNetworkRequestZone a b \<longleftrightarrow> zone_rank a \<le> zone_rank b"

definition less_RxNetworkRequestZone :: "RxNetworkRequestZone \<Rightarrow> RxNetworkRequestZone \<Rightarrow> bool" where
  "less_RxNetworkRequestZone a b \<longleftrightarrow> zone_rank a < zone_rank b"

instance
proof
  fix a b c :: RxNetworkRequestZone
  show "(a < b) = (a \<le> b \<and> \<not> b \<le> a)"
    by (auto simp: less_RxNetworkRequestZone_def less_eq_RxNetworkRequestZone_def)
  show "a \<le> a" by (simp add: less_eq_RxNetworkRequestZone_def)
  show "a \<le> b \<Longrightarrow> b \<le> c \<Longrightarrow> a \<le> c" by (simp add: less_eq_RxNetworkRequestZone_def)
  show "a \<le> b \<Longrightarrow> b \<le> a \<Longrightarrow> a = b"
    by (cases a; cases b) (simp_all add: less_eq_RxNetworkRequestZone_def)
  show "a \<le> b \<or> b \<le> a" by (auto simp: less_eq_RxNetworkRequestZone_def)
qed

end

record Thresholds =
  shared_total :: u32
  shared_hol :: u32
  guarantee_ulp :: u32
  guarantee_network :: u32

definition default_Thresholds :: Thresholds where
  "default_Thresholds = \<lparr>shared_total = - 1, shared_hol = - 1, guarantee_ulp = - 1,
     guarantee_network = - 1\<rparr>"

record ResourceProfile =
  prof_tx_packet :: Thresholds
  prof_tx_buffer :: Thresholds
  prof_rx_packet :: Thresholds
  prof_rx_buffer :: Thresholds

definition default_ResourceProfile :: ResourceProfile where
  "default_ResourceProfile = \<lparr>prof_tx_packet = default_Thresholds, prof_tx_buffer = default_Thresholds,
     prof_rx_packet = default_Thresholds, prof_rx_buffer = default_Thresholds\<rparr>"

text \<open>
  The part of \<open>FalconConfig\<close> the resource manager reads. A zone is the pair of \<open>green_zone_end\<close> and
  \<open>yellow_zone_end\<close>; a quantisation table lists its 31 thresholds.
\<close>

record rm_config =
  resource_reservation_mode :: ResourceReservationMode
  threshold_solicit :: u32
  resource_credits :: ResourceCreditsConfig
  tx_buffer_minimum_allocation_unit :: u32
  rx_buffer_minimum_allocation_unit :: u32
  xoff_tx_packet_request :: int
  xoff_tx_buffer_request :: int
  xoff_tx_packet_data :: int
  xoff_tx_buffer_data :: int
  xoff_rx_packet_request :: int
  xoff_rx_buffer_request :: int
  rx_buffer_zone :: "u32 \<times> u32"
  rx_packet_zone :: "u32 \<times> u32"
  tx_packet_zone :: "u32 \<times> u32"
  ema_rx_buffer :: u32
  ema_rx_context :: u32
  ema_tx_context :: u32
  table_rx_buffer :: "u32 list"
  table_rx_context :: "u32 list"
  table_tx_context :: "u32 list"
  enable_rx_buffer_occupancy_reflection :: bool
  connection_resource_profile_set :: "ResourceProfile list option"

record NetworkRegionEmaOccupancy =
  rx_buffer_pool_occupancy_ema :: u32
  rx_packet_pool_occupancy_ema :: u32
  tx_packet_pool_occupancy_ema :: u32

record ResourceCounters =
  tx_pkt_credits_ulp_requests :: u32
  tx_pkt_credits_ulp_data :: u32
  tx_pkt_credits_network_requests :: u32
  tx_buf_credits_ulp_requests :: u32
  tx_buf_credits_ulp_data :: u32
  tx_buf_credits_network_requests :: u32
  rx_pkt_credits_ulp_requests :: u32
  rx_pkt_credits_network_requests :: u32
  rx_buf_credits_ulp_requests :: u32
  rx_buf_credits_network_requests :: u32

definition zero_counters :: ResourceCounters where
  "zero_counters = \<lparr>tx_pkt_credits_ulp_requests = 0, tx_pkt_credits_ulp_data = 0,
     tx_pkt_credits_network_requests = 0, tx_buf_credits_ulp_requests = 0,
     tx_buf_credits_ulp_data = 0, tx_buf_credits_network_requests = 0,
     rx_pkt_credits_ulp_requests = 0, rx_pkt_credits_network_requests = 0,
     rx_buf_credits_ulp_requests = 0, rx_buf_credits_network_requests = 0\<rparr>"

text \<open>Calls on the RDMA model; the credits go back to the queue pair of the connection.\<close>

datatype rm_call =
    SetXoff bool bool
  | ReturnFalconCredit u32 FalconResourceCredits

record ResourceManager =
  global_credits :: FalconResourceCredits
  request_xoff :: bool
  global_xoff :: bool
  network_region_ema :: NetworkRegionEmaOccupancy
  network_region_occupancy :: u16
  connection_counters :: "u32 \<Rightarrow> ResourceCounters"
  connection_resource_profiles :: "ResourceProfile list"
  rm_calls :: "rm_call list"

definition new_ResourceManager :: "rm_config \<Rightarrow> ResourceManager" where
  "new_ResourceManager c =
     \<lparr>global_credits = Create (resource_credits c), request_xoff = False, global_xoff = False,
      network_region_ema = \<lparr>rx_buffer_pool_occupancy_ema = 0, rx_packet_pool_occupancy_ema = 0,
        tx_packet_pool_occupancy_ema = 0\<rparr>,
      network_region_occupancy = 0, connection_counters = (\<lambda>_. zero_counters),
      connection_resource_profiles = (case connection_resource_profile_set c of
        None \<Rightarrow> [default_ResourceProfile] | Some ps \<Rightarrow> ps),
      rm_calls = []\<rparr>"

text \<open>An index outside the vector is undefined in C++.\<close>

definition InitializeResourceProfile :: "ResourceManager \<Rightarrow> u32 \<Rightarrow> ResourceProfile option" where
  "InitializeResourceProfile s i =
     (if unat i < length (connection_resource_profiles s)
      then Some (connection_resource_profiles s ! unat i) else None)"

definition request_xoff_limit :: "rm_config \<Rightarrow> FalconResourceCredits" where
  "request_xoff_limit c = zero_credits
     \<lparr>tx_packet_credits := zero_tx\<lparr>tx_ulp_requests := xoff_tx_packet_request c\<rparr>,
      tx_buffer_credits := zero_tx\<lparr>tx_ulp_requests := xoff_tx_buffer_request c\<rparr>,
      rx_packet_credits := zero_rx\<lparr>rx_ulp_requests := xoff_rx_packet_request c\<rparr>,
      rx_buffer_credits := zero_rx\<lparr>rx_ulp_requests := xoff_rx_buffer_request c\<rparr>\<rparr>"

definition global_xoff_limit :: "rm_config \<Rightarrow> FalconResourceCredits" where
  "global_xoff_limit c = zero_credits
     \<lparr>tx_packet_credits := zero_tx\<lparr>tx_ulp_data := xoff_tx_packet_data c\<rparr>,
      tx_buffer_credits := zero_tx\<lparr>tx_ulp_data := xoff_tx_buffer_data c\<rparr>\<rparr>"

record rm_env =
  is_hol :: "u32 \<Rightarrow> u32 \<Rightarrow> bool"
  ema_step :: "u32 \<Rightarrow> int \<Rightarrow> u32 \<Rightarrow> u32"

section \<open>Credits of a transaction\<close>

text \<open>The \<open>uint32_t\<close> results are stored in \<open>int32_t\<close> fields.\<close>

definition tx_units :: "rm_config \<Rightarrow> u32 \<Rightarrow> u32 \<Rightarrow> int" where
  "tx_units c data_len sgl_len =
     sint (CalculateFalconTxBufferCredits data_len sgl_len (tx_buffer_minimum_allocation_unit c))"

definition rx_units :: "rm_config \<Rightarrow> u32 \<Rightarrow> int" where
  "rx_units c len = sint (CalculateFalconRxBufferCredits len (rx_buffer_minimum_allocation_unit c))"

definition ComputeOutgoingPullRequestResources :: "rm_config \<Rightarrow> u32 \<Rightarrow> u32 \<Rightarrow> FalconResourceCredits" where
  "ComputeOutgoingPullRequestResources c data_len sgl_len = zero_credits
     \<lparr>tx_packet_credits := zero_tx\<lparr>tx_ulp_requests := 1\<rparr>,
      tx_buffer_credits := zero_tx\<lparr>tx_ulp_requests := tx_units c data_len sgl_len\<rparr>\<rparr>"

definition ComputeIncomingPullRequestResources :: "rm_config \<Rightarrow> u32 \<Rightarrow> FalconResourceCredits" where
  "ComputeIncomingPullRequestResources c payload_len = zero_credits
     \<lparr>rx_packet_credits := zero_rx\<lparr>rx_network_requests := 1\<rparr>,
      rx_buffer_credits := zero_rx\<lparr>rx_network_requests := rx_units c payload_len\<rparr>\<rparr>"

definition ComputeOutgoingPullDataResources :: "rm_config \<Rightarrow> u32 \<Rightarrow> u32 \<Rightarrow> FalconResourceCredits" where
  "ComputeOutgoingPullDataResources c data_len sgl_len = zero_credits
     \<lparr>tx_packet_credits := zero_tx\<lparr>tx_ulp_data := 1\<rparr>,
      tx_buffer_credits := zero_tx\<lparr>tx_ulp_data := tx_units c data_len sgl_len\<rparr>\<rparr>"

definition ComputeIncomingPullDataResources :: "rm_config \<Rightarrow> u32 \<Rightarrow> FalconResourceCredits" where
  "ComputeIncomingPullDataResources c request_len = zero_credits
     \<lparr>rx_packet_credits := zero_rx\<lparr>rx_ulp_requests := 1\<rparr>,
      rx_buffer_credits := zero_rx\<lparr>rx_ulp_requests := rx_units c request_len\<rparr>\<rparr>"

definition ComputeOutgoingPushRequestResources :: "rm_config \<Rightarrow> u32 \<Rightarrow> u32 \<Rightarrow> FalconResourceCredits" where
  "ComputeOutgoingPushRequestResources c data_len sgl_len = zero_credits
     \<lparr>tx_packet_credits := zero_tx\<lparr>tx_ulp_requests := 1\<rparr>,
      tx_buffer_credits := zero_tx\<lparr>tx_ulp_requests := tx_units c data_len sgl_len\<rparr>\<rparr>"

definition ComputeIncomingPushRequestResources :: FalconResourceCredits where
  "ComputeIncomingPushRequestResources = zero_credits
     \<lparr>rx_packet_credits := zero_rx\<lparr>rx_network_requests := 1\<rparr>\<rparr>"

definition ComputeOutgoingPushGrantResources :: FalconResourceCredits where
  "ComputeOutgoingPushGrantResources = zero_credits
     \<lparr>tx_packet_credits := zero_tx\<lparr>tx_network_requests := 1\<rparr>\<rparr>"

definition ComputeIncomingPushGrantResources :: FalconResourceCredits where
  "ComputeIncomingPushGrantResources = zero_credits
     \<lparr>rx_packet_credits := zero_rx\<lparr>rx_ulp_requests := 1\<rparr>\<rparr>"

text \<open>Solicited data reuses what its push request holds.\<close>

definition ComputeOutgoingPushSolicitedDataResources ::
    "rm_config \<Rightarrow> u32 \<Rightarrow> u32 \<Rightarrow> FalconResourceCredits" where
  "ComputeOutgoingPushSolicitedDataResources c data_len sgl_len = credits_sub
     (zero_credits
        \<lparr>tx_packet_credits := zero_tx\<lparr>tx_ulp_requests := 1\<rparr>,
         tx_buffer_credits := zero_tx\<lparr>tx_ulp_requests := tx_units c data_len sgl_len\<rparr>\<rparr>)
     (ComputeOutgoingPushRequestResources c data_len sgl_len)"

definition ComputeIncomingPushUnsolicitedCompletionResources :: FalconResourceCredits where
  "ComputeIncomingPushUnsolicitedCompletionResources = zero_credits
     \<lparr>rx_packet_credits := zero_rx\<lparr>rx_ulp_requests := 1\<rparr>\<rparr>"

definition ComputeIncomingPushSolicitedDataResources :: "rm_config \<Rightarrow> u32 \<Rightarrow> FalconResourceCredits" where
  "ComputeIncomingPushSolicitedDataResources c request_len = credits_sub
     (zero_credits
        \<lparr>rx_packet_credits := zero_rx\<lparr>rx_network_requests := 1\<rparr>,
         rx_buffer_credits := zero_rx\<lparr>rx_network_requests := rx_units c request_len\<rparr>\<rparr>)
     ComputeIncomingPushRequestResources"

definition ComputeOutgoingPushUnsolicitedDataResources ::
    "rm_config \<Rightarrow> u32 \<Rightarrow> u32 \<Rightarrow> FalconResourceCredits" where
  "ComputeOutgoingPushUnsolicitedDataResources c data_len sgl_len = zero_credits
     \<lparr>tx_packet_credits := zero_tx\<lparr>tx_ulp_requests := 1\<rparr>,
      tx_buffer_credits := zero_tx\<lparr>tx_ulp_requests := tx_units c data_len sgl_len\<rparr>\<rparr>"

definition ComputeIncomingPushUnsolicitedDataResources :: "rm_config \<Rightarrow> u32 \<Rightarrow> FalconResourceCredits" where
  "ComputeIncomingPushUnsolicitedDataResources c request_len = zero_credits
     \<lparr>rx_packet_credits := zero_rx\<lparr>rx_network_requests := 1\<rparr>,
      rx_buffer_credits := zero_rx\<lparr>rx_network_requests := rx_units c request_len\<rparr>\<rparr>"

lemmas compute_defs = ComputeOutgoingPullRequestResources_def ComputeIncomingPullRequestResources_def
  ComputeOutgoingPullDataResources_def ComputeIncomingPullDataResources_def
  ComputeOutgoingPushRequestResources_def ComputeIncomingPushRequestResources_def
  ComputeOutgoingPushGrantResources_def ComputeIncomingPushGrantResources_def
  ComputeOutgoingPushSolicitedDataResources_def ComputeIncomingPushSolicitedDataResources_def
  ComputeIncomingPushUnsolicitedCompletionResources_def
  ComputeOutgoingPushUnsolicitedDataResources_def ComputeIncomingPushUnsolicitedDataResources_def


section \<open>Occupancy zones and admission\<close>

text \<open>The signed difference is compared with the unsigned thresholds.\<close>

definition pool_zone :: "int \<Rightarrow> int \<Rightarrow> u32 \<times> u32 \<Rightarrow> RxNetworkRequestZone" where
  "pool_zone configured available zone =
     (let occupancy = word_of_int (configured - available) :: u32
      in if occupancy < fst zone then kGreen
         else if occupancy < snd zone then kYellow
         else kRed)"

definition GetNetworkRequestRxBufferPoolOccupancyZone ::
    "rm_config \<Rightarrow> ResourceManager \<Rightarrow> RxNetworkRequestZone" where
  "GetNetworkRequestRxBufferPoolOccupancyZone c s =
     pool_zone (snd (cfg_rx_buffer (resource_credits c)))
       (rx_network_requests (rx_buffer_credits (global_credits s))) (rx_buffer_zone c)"

definition GetNetworkRequestRxPacketPoolOccupancyZone ::
    "rm_config \<Rightarrow> ResourceManager \<Rightarrow> RxNetworkRequestZone" where
  "GetNetworkRequestRxPacketPoolOccupancyZone c s =
     pool_zone (snd (cfg_rx_packet (resource_credits c)))
       (rx_network_requests (rx_packet_credits (global_credits s))) (rx_packet_zone c)"

definition GetNetworkRequestTxPacketPoolOccupancyZone ::
    "rm_config \<Rightarrow> ResourceManager \<Rightarrow> RxNetworkRequestZone" where
  "GetNetworkRequestTxPacketPoolOccupancyZone c s =
     pool_zone (snd (snd (cfg_tx_packet (resource_credits c))))
       (tx_network_requests (tx_packet_credits (global_credits s))) (tx_packet_zone c)"

definition occupancy_zone :: "rm_config \<Rightarrow> ResourceManager \<Rightarrow> RxNetworkRequestZone" where
  "occupancy_zone c s =
     max (GetNetworkRequestRxBufferPoolOccupancyZone c s)
       (max (GetNetworkRequestRxPacketPoolOccupancyZone c s)
         (GetNetworkRequestTxPacketPoolOccupancyZone c s))"

definition MeetsNetworkRequestAdmissionCriteria ::
    "rm_config \<Rightarrow> rm_env \<Rightarrow> ResourceManager \<Rightarrow> u32 \<Rightarrow> u32 \<Rightarrow> PacketType \<Rightarrow> bool" where
  "MeetsNetworkRequestAdmissionCriteria c env s cid rsn type =
     (case occupancy_zone c s of
        kGreen \<Rightarrow> True
      | kYellow \<Rightarrow> is_hol env cid rsn
      | kRed \<Rightarrow>
          if type = kPullRequest \<or> type = kPushUnsolicitedData then is_hol env cid rsn else False)"

section \<open>Averaged and quantised occupancy\<close>

definition kEmaOccupancyFractionalBits :: nat where
  "kEmaOccupancyFractionalBits = 15"

definition ema_update :: "rm_env \<Rightarrow> u32 \<Rightarrow> int \<Rightarrow> u32 \<Rightarrow> u32" where
  "ema_update env coefficient occupancy ema =
     (if ema = 0 then push_bit kEmaOccupancyFractionalBits (word_of_int occupancy)
      else ema_step env coefficient occupancy ema)"

fun quantise :: "u32 \<Rightarrow> u32 list \<Rightarrow> nat \<Rightarrow> nat" where
  "quantise occupancy [] level = level"
| "quantise occupancy (t # ts) level =
     (if occupancy < t then level else quantise occupancy ts (level + 1))"

definition integer_ema_occupancy :: "u32 \<Rightarrow> u16" where
  "integer_ema_occupancy ema = ucast (drop_bit kEmaOccupancyFractionalBits ema)"

definition UpdateQuantizedNetworkRegionOccupancy :: "rm_config \<Rightarrow> ResourceManager \<Rightarrow> ResourceManager"
  where
  "UpdateQuantizedNetworkRegionOccupancy c s =
     (let ema = network_region_ema s;
          q = (\<lambda>e table. quantise (ucast (integer_ema_occupancy e)) table 0)
      in s\<lparr>network_region_occupancy := of_nat
           (max (q (rx_buffer_pool_occupancy_ema ema) (table_rx_buffer c))
             (max (q (rx_packet_pool_occupancy_ema ema) (table_rx_context c))
               (q (tx_packet_pool_occupancy_ema ema) (table_tx_context c))))\<rparr>)"

definition UpdateNetworkRegionEmaOccupancy ::
    "rm_config \<Rightarrow> rm_env \<Rightarrow> ResourceManager \<Rightarrow> ResourceManager" where
  "UpdateNetworkRegionEmaOccupancy c env s =
     (let g = global_credits s; r = resource_credits c; ema = network_region_ema s
      in UpdateQuantizedNetworkRegionOccupancy c
           (s\<lparr>network_region_ema :=
              \<lparr>rx_buffer_pool_occupancy_ema = ema_update env (ema_rx_buffer c)
                 (snd (cfg_rx_buffer r) - rx_network_requests (rx_buffer_credits g))
                 (rx_buffer_pool_occupancy_ema ema),
               rx_packet_pool_occupancy_ema = ema_update env (ema_rx_context c)
                 (snd (cfg_rx_packet r) - rx_network_requests (rx_packet_credits g))
                 (rx_packet_pool_occupancy_ema ema),
               tx_packet_pool_occupancy_ema = ema_update env (ema_tx_context c)
                 (snd (snd (cfg_tx_packet r)) - tx_network_requests (tx_packet_credits g))
                 (tx_packet_pool_occupancy_ema ema)\<rparr>\<rparr>))"

definition ema_after ::
    "rm_config \<Rightarrow> rm_env \<Rightarrow> FalconResourceCredits \<Rightarrow> ResourceManager \<Rightarrow> ResourceManager" where
  "ema_after c env credits s =
     (if IsInitialized credits \<and> enable_rx_buffer_occupancy_reflection c
      then UpdateNetworkRegionEmaOccupancy c env s else s)"

section \<open>Counters of a connection and XOFF\<close>

definition counters_move ::
    "(u32 \<Rightarrow> u32 \<Rightarrow> u32) \<Rightarrow> FalconResourceCredits \<Rightarrow> ResourceCounters \<Rightarrow> ResourceCounters" where
  "counters_move f credit k =
     (let tp = tx_packet_credits credit; tb = tx_buffer_credits credit;
          rp = rx_packet_credits credit; rb = rx_buffer_credits credit; w = word_of_int
      in \<lparr>tx_pkt_credits_ulp_requests = f (tx_pkt_credits_ulp_requests k) (w (tx_ulp_requests tp)),
          tx_pkt_credits_ulp_data = f (tx_pkt_credits_ulp_data k) (w (tx_ulp_data tp)),
          tx_pkt_credits_network_requests =
            f (tx_pkt_credits_network_requests k) (w (tx_network_requests tp)),
          tx_buf_credits_ulp_requests = f (tx_buf_credits_ulp_requests k) (w (tx_ulp_requests tb)),
          tx_buf_credits_ulp_data = f (tx_buf_credits_ulp_data k) (w (tx_ulp_data tb)),
          tx_buf_credits_network_requests =
            f (tx_buf_credits_network_requests k) (w (tx_network_requests tb)),
          rx_pkt_credits_ulp_requests = f (rx_pkt_credits_ulp_requests k) (w (rx_ulp_requests rp)),
          rx_pkt_credits_network_requests =
            f (rx_pkt_credits_network_requests k) (w (rx_network_requests rp)),
          rx_buf_credits_ulp_requests = f (rx_buf_credits_ulp_requests k) (w (rx_ulp_requests rb)),
          rx_buf_credits_network_requests =
            f (rx_buf_credits_network_requests k) (w (rx_network_requests rb))\<rparr>)"

definition UpdateResourceCounters ::
    "u32 \<Rightarrow> FalconResourceCredits \<Rightarrow> bool \<Rightarrow> ResourceManager \<Rightarrow> ResourceManager" where
  "UpdateResourceCounters cid credit is_release s =
     s\<lparr>connection_counters := (connection_counters s)
         (cid := counters_move (if is_release then (-) else (+)) credit
            (connection_counters s cid))\<rparr>"

definition CheckUlpRequestXoff :: "rm_config \<Rightarrow> ResourceManager \<Rightarrow> ResourceManager" where
  "CheckUlpRequestXoff c s =
     (let r = \<not> credits_le (request_xoff_limit c) (global_credits s);
          g = \<not> credits_le (global_xoff_limit c) (global_credits s)
      in if r \<noteq> request_xoff s \<or> g \<noteq> global_xoff s
         then s\<lparr>request_xoff := r, global_xoff := g, rm_calls := rm_calls s @ [SetXoff r g]\<rparr>
         else s)"

section \<open>The profile of a connection\<close>

record RmConnection = ConnectionTransactions +
  resource_profile :: ResourceProfile
  xoff_qp_id :: u32

text \<open>
  One pool of the loop: the sums are \<open>uint32_t\<close>, the rest of the arithmetic is 64-bit and does not
  wrap.
\<close>

definition pool_admits ::
    "bool \<Rightarrow> int \<Rightarrow> u32 \<Rightarrow> int \<Rightarrow> u32 \<Rightarrow> Thresholds \<Rightarrow> bool" where
  "pool_admits hol ulp_usage ulp_counter network_usage network_counter t =
     (let new_ulp = uint (word_of_int ulp_usage + ulp_counter);
          new_network = uint (word_of_int network_usage + network_counter);
          ulp_shared_usage = max 0 (new_ulp - uint (guarantee_ulp t));
          shared = (if hol then 2 ^ 32 - 1 else uint (shared_hol t));
          remaining_shared = max 0 (shared - ulp_shared_usage)
      in \<not> new_network > remaining_shared + uint (guarantee_network t))"

definition PerConnectionResourceAvailable ::
    "rm_env \<Rightarrow> ResourceManager \<Rightarrow> u32 \<Rightarrow> ResourceProfile \<Rightarrow> Packet \<Rightarrow> PacketDirection \<Rightarrow>
     FalconResourceCredits \<Rightarrow> bool" where
  "PerConnectionResourceAvailable env s scid prof packet dir usage =
     (if dir = kOutgoing \<or>
         packet_type packet \<noteq> kPullRequest \<and> packet_type packet \<noteq> kPushRequest \<and>
         packet_type packet \<noteq> kPushUnsolicitedData
      then True
      else
        let k = connection_counters s scid; hol = is_hol env scid (falcon_rsn packet)
        in pool_admits hol
             (tx_ulp_requests (tx_packet_credits usage)) (tx_pkt_credits_ulp_requests k)
             (tx_network_requests (tx_packet_credits usage)) (tx_pkt_credits_network_requests k)
             (prof_tx_packet prof)
         \<and> pool_admits hol
             (tx_ulp_requests (tx_buffer_credits usage)) (tx_buf_credits_ulp_requests k)
             (tx_network_requests (tx_buffer_credits usage)) (tx_buf_credits_network_requests k)
             (prof_tx_buffer prof)
         \<and> pool_admits hol
             (rx_ulp_requests (rx_packet_credits usage)) (rx_pkt_credits_ulp_requests k)
             (rx_network_requests (rx_packet_credits usage)) (rx_pkt_credits_network_requests k)
             (prof_rx_packet prof)
         \<and> pool_admits hol
             (rx_ulp_requests (rx_buffer_credits usage)) (rx_buf_credits_ulp_requests k)
             (rx_network_requests (rx_buffer_credits usage)) (rx_buf_credits_network_requests k)
             (prof_rx_buffer prof))"


section \<open>Reservation\<close>

text \<open>
  The transaction a packet stands for: a packet of the ULP has no packet type yet, and Falcon itself
  starts only push grants and solicited data.
\<close>

definition packet_to_reserve_for :: "rm_config \<Rightarrow> Packet \<Rightarrow> PacketDirection \<Rightarrow> PacketType option" where
  "packet_to_reserve_for c packet dir =
     (case dir of
        kOutgoing \<Rightarrow>
          if packet_type packet = kInvalid then RdmaOpcodeToPacketType packet (threshold_solicit c)
          else do {
            check (packet_type packet = kPushGrant \<or> packet_type packet = kPushSolicitedData);
            Some (packet_type packet)
          }
      | kIncoming \<Rightarrow> Some (packet_type packet))"

text \<open>The big \<open>switch\<close> either returns a status or leaves the credits to reserve.\<close>

datatype demand = Reply status | Demand FalconResourceCredits

definition earlier_reservation ::
    "'a ConnectionTransactions_scheme \<Rightarrow> u32 \<Rightarrow> TransactionLocation \<Rightarrow> demand" where
  "earlier_reservation cs rsn loc =
     (case GetTransaction cs (mk_key rsn loc) of
        Inl e \<Rightarrow> Reply e
      | Inr t \<Rightarrow> Reply (tm_resources_reserved t))"

definition admitted_request ::
    "rm_config \<Rightarrow> rm_env \<Rightarrow> ResourceManager \<Rightarrow> Packet \<Rightarrow> PacketType \<Rightarrow> FalconResourceCredits \<Rightarrow> demand"
  where
  "admitted_request c env s packet type credits =
     (if \<not> MeetsNetworkRequestAdmissionCriteria c env s (falcon_dest_cid packet)
           (falcon_rsn packet) type
      then Reply ResourceExhaustedError else Demand credits)"

fun resource_demand ::
    "rm_config \<Rightarrow> rm_env \<Rightarrow> ResourceManager \<Rightarrow> 'a ConnectionTransactions_scheme \<Rightarrow> Packet \<Rightarrow>
     PacketType \<Rightarrow> PacketDirection \<Rightarrow> demand option" where
  "resource_demand c env s cs packet kPullRequest kOutgoing =
     Some (Demand (credits_add
       (ComputeOutgoingPullRequestResources c (rdma_data_length packet) (metadata_sgl_length packet))
       (ComputeIncomingPullDataResources c (rdma_request_length packet))))"
| "resource_demand c env s cs packet kPullRequest kIncoming =
     Some (admitted_request c env s packet kPullRequest
       (ComputeIncomingPullRequestResources c (ucast (falcon_payload_length packet))))"
| "resource_demand c env s cs packet kPullData kOutgoing =
     Some (Demand (ComputeOutgoingPullDataResources c (rdma_data_length packet)
       (metadata_sgl_length packet)))"
| "resource_demand c env s cs packet kPullData kIncoming =
     Some (earlier_reservation cs (rdma_rsn packet) kInitiator)"
| "resource_demand c env s cs packet kPushRequest kOutgoing =
     Some (Demand (credits_add (credits_add
       (ComputeOutgoingPushRequestResources c (rdma_data_length packet) (metadata_sgl_length packet))
       ComputeIncomingPushGrantResources)
       (ComputeOutgoingPushSolicitedDataResources c (rdma_data_length packet)
         (metadata_sgl_length packet))))"
| "resource_demand c env s cs packet kPushRequest kIncoming =
     Some (admitted_request c env s packet kPushRequest (credits_add (credits_add
       ComputeIncomingPushRequestResources
       ComputeOutgoingPushGrantResources)
       (ComputeIncomingPushSolicitedDataResources c (ucast (falcon_request_length packet)))))"
| "resource_demand c env s cs packet kPushGrant kOutgoing =
     Some (earlier_reservation cs (falcon_rsn packet) kTarget)"
| "resource_demand c env s cs packet kPushGrant kIncoming =
     Some (earlier_reservation cs (falcon_rsn packet) kInitiator)"
| "resource_demand c env s cs packet kPushSolicitedData kOutgoing =
     Some (earlier_reservation cs (falcon_rsn packet) kInitiator)"
| "resource_demand c env s cs packet kPushSolicitedData kIncoming =
     Some (earlier_reservation cs (falcon_rsn packet) kTarget)"
| "resource_demand c env s cs packet kPushUnsolicitedData kOutgoing =
     Some (Demand (credits_add
       (ComputeOutgoingPushUnsolicitedDataResources c (rdma_data_length packet)
         (metadata_sgl_length packet))
       ComputeIncomingPushUnsolicitedCompletionResources))"
| "resource_demand c env s cs packet kPushUnsolicitedData kIncoming =
     Some (admitted_request c env s packet kPushUnsolicitedData
       (ComputeIncomingPushUnsolicitedDataResources c (ucast (falcon_payload_length packet))))"
| "resource_demand c env s cs packet _ _ = None"

definition reserve ::
    "rm_config \<Rightarrow> rm_env \<Rightarrow> u32 \<Rightarrow> FalconResourceCredits \<Rightarrow> ResourceManager \<Rightarrow> ResourceManager" where
  "reserve c env scid credits s =
     CheckUlpRequestXoff c (UpdateResourceCounters scid credits False
       (ema_after c env credits (s\<lparr>global_credits := credits_sub (global_credits s) credits\<rparr>)))"

definition VerifyResourceAvailabilityOrReserveResources ::
    "rm_config \<Rightarrow> rm_env \<Rightarrow> (u32 \<rightharpoonup> RmConnection) \<Rightarrow> u32 \<Rightarrow> Packet \<Rightarrow> PacketDirection \<Rightarrow> bool \<Rightarrow>
     ResourceManager \<Rightarrow> (ResourceManager \<times> status) option" where
  "VerifyResourceAvailabilityOrReserveResources c env conns scid packet dir reserve_resources s =
     (if resource_reservation_mode c = BYPASS_RESERVATION then Some (s, OkStatus)
      else case conns scid of
        None \<Rightarrow> Some (s, NotFoundError)
      | Some cs \<Rightarrow> do {
          type \<leftarrow> packet_to_reserve_for c packet dir;
          d \<leftarrow> resource_demand c env s cs packet type dir;
          Some (case d of
            Reply e \<Rightarrow> (s, e)
          | Demand credits \<Rightarrow>
              if credits_le credits (global_credits s) \<and>
                 PerConnectionResourceAvailable env s scid (resource_profile cs) packet dir credits
              then (if reserve_resources then reserve c env scid credits s else s, OkStatus)
              else (s, ResourceExhaustedError))
        })"

section \<open>Release\<close>

text \<open>
  What \<open>ReleaseResources\<close> gives back to the pools and, second, what it returns to RDMA. A status
  stands for the failed lookup of the pull request.
\<close>

fun released ::
    "rm_config \<Rightarrow> TransactionMetadata \<Rightarrow> PacketMetadata \<Rightarrow> PacketType \<Rightarrow> PacketDirection \<Rightarrow>
     (status + FalconResourceCredits \<times> FalconResourceCredits) option" where
  "released c t p kPullRequest kOutgoing =
     Some (Inr (ComputeOutgoingPullRequestResources c (data_length p) (sgl_length p), zero_credits))"
| "released c t p kPullRequest kIncoming =
     Some (Inr (ComputeIncomingPullRequestResources c (payload_length p), zero_credits))"
| "released c t p kPullData kOutgoing =
     (let r = ComputeOutgoingPullDataResources c (data_length p) (sgl_length p)
      in Some (Inr (r, r)))"
| "released c t p kPullData kIncoming =
     (let r = ComputeIncomingPullDataResources c (payload_length p)
      in case GetPacketMetadata t kPullRequest of
           Inl e \<Rightarrow> Some (Inl e)
         | Inr q \<Rightarrow> Some (Inr (r, credits_add
             (ComputeOutgoingPullRequestResources c (data_length q) (sgl_length q)) r)))"
| "released c t p kPushRequest dir = Some (Inr (zero_credits, zero_credits))"
| "released c t p kPushGrant kOutgoing = Some (Inr (ComputeOutgoingPushGrantResources, zero_credits))"
| "released c t p kPushGrant kIncoming = Some (Inr (zero_credits, zero_credits))"
| "released c t p kPushSolicitedData kOutgoing =
     (let r = credits_add (credits_add
            (ComputeOutgoingPushSolicitedDataResources c (data_length p) (sgl_length p))
            ComputeIncomingPushGrantResources)
            (ComputeOutgoingPushRequestResources c (data_length p) (sgl_length p))
      in Some (Inr (r, r)))"
| "released c t p kPushSolicitedData kIncoming =
     Some (Inr (credits_add (ComputeIncomingPushSolicitedDataResources c (payload_length p))
       ComputeIncomingPushRequestResources, zero_credits))"
| "released c t p kPushUnsolicitedData kOutgoing =
     (let r = credits_add
            (ComputeOutgoingPushUnsolicitedDataResources c (data_length p) (sgl_length p))
            ComputeIncomingPushUnsolicitedCompletionResources
      in Some (Inr (r, r)))"
| "released c t p kPushUnsolicitedData kIncoming =
     Some (Inr (ComputeIncomingPushUnsolicitedDataResources c (payload_length p), zero_credits))"
| "released c t p _ _ = None"

definition ReturnRdmaManagedFalconResourceCredits ::
    "u32 \<Rightarrow> FalconResourceCredits \<Rightarrow> ResourceManager \<Rightarrow> ResourceManager" where
  "ReturnRdmaManagedFalconResourceCredits qp_id credits s =
     (if IsInitialized credits then s\<lparr>rm_calls := rm_calls s @ [ReturnFalconCredit qp_id credits]\<rparr>
      else s)"

definition give_back ::
    "rm_config \<Rightarrow> rm_env \<Rightarrow> u32 \<Rightarrow> u32 \<Rightarrow> FalconResourceCredits \<Rightarrow> FalconResourceCredits \<Rightarrow>
     ResourceManager \<Rightarrow> ResourceManager" where
  "give_back c env scid qp_id r rdma s =
     CheckUlpRequestXoff c (ReturnRdmaManagedFalconResourceCredits qp_id rdma
       (ema_after c env r (UpdateResourceCounters scid r True
         (s\<lparr>global_credits := credits_add (global_credits s) r\<rparr>))))"

text \<open>The packet no longer holds credits: a second release returns the status written here.\<close>

definition mark_released ::
    "TransactionKey \<Rightarrow> PacketType \<Rightarrow> TransactionMetadata \<Rightarrow> PacketMetadata \<Rightarrow> RmConnection \<Rightarrow>
     RmConnection" where
  "mark_released key type t p cs =
     cs\<lparr>transactions := (transactions cs)(key \<mapsto> t\<lparr>packets := (packets t)(type \<mapsto>
          p\<lparr>pm_resources_reserved := ResourceExhaustedError\<rparr>)\<rparr>)\<rparr>"

definition ReleaseResources ::
    "rm_config \<Rightarrow> rm_env \<Rightarrow> u32 \<Rightarrow> TransactionKey \<Rightarrow> PacketType \<Rightarrow> (u32 \<rightharpoonup> RmConnection) \<Rightarrow>
     ResourceManager \<Rightarrow> ((u32 \<rightharpoonup> RmConnection) \<times> ResourceManager \<times> status) option" where
  "ReleaseResources c env scid key type conns s =
     (if resource_reservation_mode c = BYPASS_RESERVATION then Some (conns, s, OkStatus)
      else case conns scid of
        None \<Rightarrow> Some (conns, s, NotFoundError)
      | Some cs \<Rightarrow>
        (case GetTransaction cs key of
          Inl e \<Rightarrow> Some (conns, s, e)
        | Inr t \<Rightarrow>
          (case GetPacketMetadata t type of
            Inl e \<Rightarrow> Some (conns, s, e)
          | Inr p \<Rightarrow>
            if pm_resources_reserved p \<noteq> OkStatus then Some (conns, s, pm_resources_reserved p)
            else (case released c t p type (direction p) of
                None \<Rightarrow> None
              | Some (Inl e) \<Rightarrow> Some (conns, s, e)
              | Some (Inr (r, rdma)) \<Rightarrow>
                  Some (conns(scid \<mapsto> mark_released key type t p cs),
                        give_back c env scid (xoff_qp_id cs) r rdma s, OkStatus)))))"


section \<open>Histories\<close>

text \<open>
  What a reservation asks for and what a release returns, as pool totals; the packets a transaction
  releases, in order.
\<close>

definition no_credits :: "int list" where
  "no_credits = [0, 0, 0, 0, 0, 0, 0, 0]"

definition asked ::
    "rm_config \<Rightarrow> rm_env \<Rightarrow> (u32 \<rightharpoonup> RmConnection) \<Rightarrow> u32 \<Rightarrow> Packet \<Rightarrow> PacketDirection \<Rightarrow>
     ResourceManager \<Rightarrow> int list" where
  "asked c env conns scid packet dir s =
     (case conns scid of None \<Rightarrow> no_credits | Some cs \<Rightarrow>
        (case packet_to_reserve_for c packet dir of None \<Rightarrow> no_credits | Some type \<Rightarrow>
           (case resource_demand c env s cs packet type dir of
              Some (Demand d) \<Rightarrow> credits_total d
            | _ \<Rightarrow> no_credits)))"

definition returned ::
    "rm_config \<Rightarrow> (u32 \<rightharpoonup> RmConnection) \<Rightarrow> u32 \<Rightarrow> TransactionKey \<Rightarrow> PacketType \<Rightarrow> int list" where
  "returned c conns scid key type =
     (case conns scid of None \<Rightarrow> no_credits | Some cs \<Rightarrow>
        (case transactions cs key of None \<Rightarrow> no_credits | Some t \<Rightarrow>
           (case packets t type of None \<Rightarrow> no_credits | Some p \<Rightarrow>
              (case released c t p type (direction p) of
                 Some (Inr (r, _)) \<Rightarrow> credits_total r
               | _ \<Rightarrow> no_credits))))"

fun released_by ::
    "rm_config \<Rightarrow> TransactionMetadata \<Rightarrow> (PacketType \<times> PacketMetadata) list \<Rightarrow>
     FalconResourceCredits option" where
  "released_by c t [] = Some zero_credits"
| "released_by c t ((type, p) # ps) =
     (case released c t p type (direction p) of
        Some (Inr (r, _)) \<Rightarrow> map_option (\<lambda>rs. credits_add rs r) (released_by c t ps)
      | _ \<Rightarrow> None)"

text \<open>
  The calls of the other components, in any order and with any connections in between, and the
  credits taken and not yet given back.
\<close>

inductive rm_reach :: "rm_config \<Rightarrow> ResourceManager \<Rightarrow> int list \<Rightarrow> bool" for c where
  start: "rm_reach c (new_ResourceManager c) no_credits"
| verify: "rm_reach c s h \<Longrightarrow>
    VerifyResourceAvailabilityOrReserveResources c env conns scid packet dir res s = Some (s', st) \<Longrightarrow>
    h' = (if res \<and> st = OkStatus then map2 (+) h (asked c env conns scid packet dir s) else h) \<Longrightarrow>
    rm_reach c s' h'"
| release: "rm_reach c s h \<Longrightarrow>
    ReleaseResources c env scid key type conns s = Some (conns', s', st) \<Longrightarrow>
    h' = (if st = OkStatus then map2 (-) h (returned c conns scid key type) else h) \<Longrightarrow>
    rm_reach c s' h'"

fun xoff_signals :: "rm_call list \<Rightarrow> (bool \<times> bool) list" where
  "xoff_signals [] = []"
| "xoff_signals (SetXoff r g # l) = (r, g) # xoff_signals l"
| "xoff_signals (ReturnFalconCredit q d # l) = xoff_signals l"

definition xoff_due :: "rm_config \<Rightarrow> FalconResourceCredits \<Rightarrow> bool \<times> bool" where
  "xoff_due c g = (\<not> credits_le (request_xoff_limit c) g, \<not> credits_le (global_xoff_limit c) g)"

definition xoff_sync :: "ResourceManager \<Rightarrow> bool" where
  "xoff_sync s \<longleftrightarrow>
     last ((False, False) # xoff_signals (rm_calls s)) = (request_xoff s, global_xoff s) \<and>
     distinct_adj ((False, False) # xoff_signals (rm_calls s))"

section \<open>Lemmas\<close>

lemma credits_total_sub [simp]:
  "credits_total (credits_sub c r) = map2 (-) (credits_total c) (credits_total r)"
  by (simp add: credits_total_def credits_sub_def rx_sub_def)

lemma credits_total_add [simp]:
  "credits_total (credits_add c r) = map2 (+) (credits_total c) (credits_total r)"
  by (simp add: credits_total_def credits_add_def rx_add_def)

lemma length_credits_total [simp]: "length (credits_total c) = 8"
  by (simp add: credits_total_def)

lemma xoff_signals_append [simp]: "xoff_signals (a @ b) = xoff_signals a @ xoff_signals b"
  by (induction a rule: xoff_signals.induct) simp_all

lemmas frame_defs = UpdateNetworkRegionEmaOccupancy_def UpdateQuantizedNetworkRegionOccupancy_def
  ema_after_def UpdateResourceCounters_def ReturnRdmaManagedFalconResourceCredits_def Let_def

lemma ema_after_frame [simp]:
  "global_credits (ema_after c env d s) = global_credits s"
  "request_xoff (ema_after c env d s) = request_xoff s"
  "global_xoff (ema_after c env d s) = global_xoff s"
  "rm_calls (ema_after c env d s) = rm_calls s"
  "connection_counters (ema_after c env d s) = connection_counters s"
  by (simp_all add: frame_defs)

lemma UpdateResourceCounters_frame [simp]:
  "global_credits (UpdateResourceCounters i d b s) = global_credits s"
  "request_xoff (UpdateResourceCounters i d b s) = request_xoff s"
  "global_xoff (UpdateResourceCounters i d b s) = global_xoff s"
  "rm_calls (UpdateResourceCounters i d b s) = rm_calls s"
  by (simp_all add: frame_defs)

lemma return_frame [simp]:
  "global_credits (ReturnRdmaManagedFalconResourceCredits q d s) = global_credits s"
  "request_xoff (ReturnRdmaManagedFalconResourceCredits q d s) = request_xoff s"
  "global_xoff (ReturnRdmaManagedFalconResourceCredits q d s) = global_xoff s"
  "xoff_signals (rm_calls (ReturnRdmaManagedFalconResourceCredits q d s)) = xoff_signals (rm_calls s)"
  by (simp_all add: frame_defs)

lemma check_xoff_frame [simp]: "global_credits (CheckUlpRequestXoff c s) = global_credits s"
  by (simp add: CheckUlpRequestXoff_def Let_def)

lemma check_xoff_flags [simp]:
  "(request_xoff (CheckUlpRequestXoff c s), global_xoff (CheckUlpRequestXoff c s))
     = xoff_due c (global_credits s)"
  by (simp add: CheckUlpRequestXoff_def xoff_due_def Let_def)

lemma distinct_adj_snoc: "distinct_adj (xs @ [x]) \<longleftrightarrow> distinct_adj xs \<and> (xs \<noteq> [] \<longrightarrow> last xs \<noteq> x)"
  by (induction xs rule: induct_list012) (auto simp: distinct_adj_Cons)

lemma check_xoff_sync:
  assumes "xoff_sync s"
  shows "xoff_sync (CheckUlpRequestXoff c s)"
  using assms distinct_adj_snoc [of "(False, False) # xoff_signals (rm_calls s)"]
  by (auto simp: xoff_sync_def CheckUlpRequestXoff_def Let_def split: if_splits)

lemma xoff_sync_cong:
  "request_xoff s = request_xoff t \<Longrightarrow> global_xoff s = global_xoff t \<Longrightarrow>
   xoff_signals (rm_calls s) = xoff_signals (rm_calls t) \<Longrightarrow> xoff_sync s = xoff_sync t"
  by (simp add: xoff_sync_def)

lemma reserve_facts:
  "global_credits (reserve c env i d s) = credits_sub (global_credits s) d"
  "(request_xoff (reserve c env i d s), global_xoff (reserve c env i d s))
     = xoff_due c (global_credits (reserve c env i d s))"
  "xoff_sync s \<Longrightarrow> xoff_sync (reserve c env i d s)"
  unfolding reserve_def by (simp_all add: check_xoff_sync cong: xoff_sync_cong)


lemma give_back_facts:
  "global_credits (give_back c env i q r d s) = credits_add (global_credits s) r"
  "(request_xoff (give_back c env i q r d s), global_xoff (give_back c env i q r d s))
     = xoff_due c (global_credits (give_back c env i q r d s))"
  "xoff_sync s \<Longrightarrow> xoff_sync (give_back c env i q r d s)"
  unfolding give_back_def by (simp_all add: check_xoff_sync cong: xoff_sync_cong)

lemma Verify_cases:
  assumes "VerifyResourceAvailabilityOrReserveResources c env conns scid packet dir res s
      = Some (s', st)"
    and "resource_reservation_mode c = FIRST_PHASE_RESERVATION"
  obtains (same) "s' = s" "res \<and> st = OkStatus \<Longrightarrow> asked c env conns scid packet dir s = no_credits"
  | (taken) d where "s' = reserve c env scid d s" "res" "st = OkStatus"
      "asked c env conns scid packet dir s = credits_total d" "credits_le d (global_credits s)"
  using assms unfolding VerifyResourceAvailabilityOrReserveResources_def
  by (auto simp: asked_def split: if_splits option.splits demand.splits bind_splits)

lemma released_status: "released c t p type dir = Some (Inl e) \<Longrightarrow> e = NotFoundError"
  by (induction c t p type dir rule: released.induct)
    (auto simp: Let_def GetPacketMetadata_def split: sum.splits option.splits)

lemma Release_cases:
  assumes "ReleaseResources c env scid key type conns s = Some (conns', s', st)"
    and "resource_reservation_mode c = FIRST_PHASE_RESERVATION"
  obtains (same) "s' = s" "st \<noteq> OkStatus"
  | (given) q r d where "s' = give_back c env scid q r d s" "st = OkStatus"
      "returned c conns scid key type = credits_total r"
  using assms unfolding ReleaseResources_def
  by (auto simp: returned_def GetTransaction_def GetPacketMetadata_def dest!: released_status
      split: if_splits option.splits sum.splits)


lemma length_no_credits [simp]: "length no_credits = 8"
  by (simp add: no_credits_def)

lemma ledger_algebra:
  fixes a b h :: "int list"
  assumes "length a = 8" "length b = 8" "length h = 8"
  shows "map2 (+) h no_credits = h" "map2 (+) (map2 (-) a b) (map2 (+) h b) = map2 (+) a h"
    "map2 (+) (map2 (+) a b) (map2 (-) h b) = map2 (+) a h"
  using assms by (simp_all add: no_credits_def list_eq_iff_nth_eq nth_Cons')

definition conserved :: "rm_config \<Rightarrow> ResourceManager \<Rightarrow> int list \<Rightarrow> bool" where
  "conserved c s h \<longleftrightarrow> length h = 8 \<and>
     map2 (+) (credits_total (global_credits s)) h = credits_total (Create (resource_credits c))"

lemma rm_reach_conserved:
  assumes "rm_reach c s h" "resource_reservation_mode c = FIRST_PHASE_RESERVATION"
  shows "conserved c s h"
  using assms
proof (induction rule: rm_reach.induct)
  case start
  then show ?case
    by (simp add: conserved_def new_ResourceManager_def no_credits_def credits_total_def)
next
  case (verify s h env conns scid packet dir res s' st h')
  have inv: "conserved c s h" by (rule verify.IH [OF verify.prems])
  from verify.hyps(2) verify.prems show ?case
  proof (cases rule: Verify_cases)
    case same
    with inv show ?thesis
      by (auto simp: verify.hyps(3) conserved_def ledger_algebra)
  next
    case (taken d)
    with inv show ?thesis
      by (simp add: verify.hyps(3) conserved_def reserve_facts ledger_algebra)
  qed
next
  case (release s h env scid key type conns conns' s' st h')
  have inv: "conserved c s h" by (rule release.IH [OF release.prems])
  from release.hyps(2) release.prems show ?case
  proof (cases rule: Release_cases)
    case same
    with inv show ?thesis by (simp add: release.hyps(3))
  next
    case (given q r d)
    with inv show ?thesis
      by (simp add: release.hyps(3) conserved_def give_back_facts ledger_algebra)
  qed
qed

definition xoff_exact :: "rm_config \<Rightarrow> ResourceManager \<Rightarrow> bool" where
  "xoff_exact c s \<longleftrightarrow> xoff_sync s \<and>
     (s = new_ResourceManager c \<or> (request_xoff s, global_xoff s) = xoff_due c (global_credits s))"

lemma rm_reach_xoff:
  assumes "rm_reach c s h" "resource_reservation_mode c = FIRST_PHASE_RESERVATION"
  shows "xoff_exact c s"
  using assms
proof (induction rule: rm_reach.induct)
  case start
  then show ?case by (simp add: xoff_exact_def xoff_sync_def new_ResourceManager_def)
next
  case (verify s h env conns scid packet dir res s' st h')
  then show ?case
    by (auto simp: xoff_exact_def reserve_facts elim!: Verify_cases)
next
  case (release s h env scid key type conns conns' s' st h')
  then show ?case
    by (auto simp: xoff_exact_def give_back_facts elim!: Release_cases)
qed

lemma pool_admits_hol:
  assumes "uint (word_of_int u + k) + uint (word_of_int n + m) \<le> 2 ^ 32 - 1"
  shows "pool_admits True u k n m t"
proof -
  have *: "\<not> n > max 0 (M - max 0 (u - gu)) + gn"
    if "u + n \<le> M" "0 \<le> u" "0 \<le> n" "0 \<le> gu" "0 \<le> gn" for u n M gu gn :: int
    using that by (auto simp: max_def)
  show ?thesis
    unfolding pool_admits_def Let_def if_True by (rule * [OF assms]) simp_all
qed

text \<open>The network usage with which a connection stays clear of the 32-bit profile arithmetic.\<close>

definition counters_fit :: "ResourceCounters \<Rightarrow> FalconResourceCredits \<Rightarrow> bool" where
  "counters_fit k d \<longleftrightarrow>
     uint (word_of_int (tx_ulp_requests (tx_packet_credits d)) + tx_pkt_credits_ulp_requests k)
       + uint (word_of_int (tx_network_requests (tx_packet_credits d))
           + tx_pkt_credits_network_requests k) \<le> 2 ^ 32 - 1 \<and>
     uint (word_of_int (tx_ulp_requests (tx_buffer_credits d)) + tx_buf_credits_ulp_requests k)
       + uint (word_of_int (tx_network_requests (tx_buffer_credits d))
           + tx_buf_credits_network_requests k) \<le> 2 ^ 32 - 1 \<and>
     uint (word_of_int (rx_ulp_requests (rx_packet_credits d)) + rx_pkt_credits_ulp_requests k)
       + uint (word_of_int (rx_network_requests (rx_packet_credits d))
           + rx_pkt_credits_network_requests k) \<le> 2 ^ 32 - 1 \<and>
     uint (word_of_int (rx_ulp_requests (rx_buffer_credits d)) + rx_buf_credits_ulp_requests k)
       + uint (word_of_int (rx_network_requests (rx_buffer_credits d))
           + rx_buf_credits_network_requests k) \<le> 2 ^ 32 - 1"

lemma profile_admits_hol:
  assumes "counters_fit (connection_counters s scid) d" "is_hol env scid (falcon_rsn packet)"
  shows "PerConnectionResourceAvailable env s scid prof packet dir d"
  using assms
  by (simp add: counters_fit_def PerConnectionResourceAvailable_def Let_def pool_admits_hol)

definition is_network_request :: "PacketType \<Rightarrow> bool" where
  "is_network_request t \<longleftrightarrow> t = kPullRequest \<or> t = kPushRequest \<or> t = kPushUnsolicitedData"

fun network_request_credits :: "rm_config \<Rightarrow> Packet \<Rightarrow> PacketType \<Rightarrow> FalconResourceCredits" where
  "network_request_credits c packet kPullRequest =
     ComputeIncomingPullRequestResources c (ucast (falcon_payload_length packet))"
| "network_request_credits c packet kPushUnsolicitedData =
     ComputeIncomingPushUnsolicitedDataResources c (ucast (falcon_payload_length packet))"
| "network_request_credits c packet _ = zero_credits"


section \<open>An example\<close>

definition rm_example :: rm_config where
  "rm_example = \<lparr>resource_reservation_mode = FIRST_PHASE_RESERVATION, threshold_solicit = 1000,
     resource_credits = \<lparr>cfg_tx_packet = (5, 5, 5), cfg_tx_buffer = (50, 50, 50),
       cfg_rx_packet = (5, 5), cfg_rx_buffer = (50, 50), cfg_enable_ulp_pool_oversubscription = None\<rparr>,
     tx_buffer_minimum_allocation_unit = 64, rx_buffer_minimum_allocation_unit = 64,
     xoff_tx_packet_request = 5, xoff_tx_buffer_request = 0, xoff_tx_packet_data = 0,
     xoff_tx_buffer_data = 0, xoff_rx_packet_request = 0, xoff_rx_buffer_request = 0,
     rx_buffer_zone = (10, 20), rx_packet_zone = (0, 4), tx_packet_zone = (3, 4),
     ema_rx_buffer = 1, ema_rx_context = 1, ema_tx_context = 1, table_rx_buffer = [],
     table_rx_context = [], table_tx_context = [], enable_rx_buffer_occupancy_reflection = False,
     connection_resource_profile_set = None\<rparr>"

definition rm_env_example :: rm_env where
  "rm_env_example = \<lparr>is_hol = (\<lambda>_ rsn. rsn = 0), ema_step = (\<lambda>_ _ e. e)\<rparr>"

definition rm_connections_example :: "u32 \<rightharpoonup> RmConnection" where
  "rm_connections_example = [7 \<mapsto> \<lparr>cs_scid = 7, tx_transaction_metadata =
       \<lparr>base_request_sequence_number = 0, next_request_sequence_number = 0,
        current_solicitation_sequence_number = 0\<rparr>,
     transactions = Map.empty, resource_profile = default_ResourceProfile, xoff_qp_id = 3\<rparr>]"

definition pull_packet_example :: Packet where
  "pull_packet_example = new_Packet\<lparr>rdma_opcode := kReadRequest, rdma_request_length := 640\<rparr>"

definition network_packet_example :: "PacketType \<Rightarrow> u32 \<Rightarrow> Packet" where
  "network_packet_example type rsn = new_Packet\<lparr>packet_type := type, falcon_dest_cid := 7,
     falcon_rsn := rsn, falcon_payload_length := 640\<rparr>"

lemma example_reservation:
  "case VerifyResourceAvailabilityOrReserveResources rm_example rm_env_example rm_connections_example 7
      pull_packet_example kOutgoing True (new_ResourceManager rm_example) of
     Some (s, st) \<Rightarrow> st = OkStatus \<and> request_xoff s \<and> rm_calls s = [SetXoff True False]
       \<and> asked rm_example rm_env_example rm_connections_example 7 pull_packet_example kOutgoing
           (new_ResourceManager rm_example) = [1, 0, 0, 0, 1, 0, 10, 0]
   | None \<Rightarrow> False"
  by code_simp

lemma example_reached:
  obtains s where "rm_reach rm_example s [1, 0, 0, 0, 1, 0, 10, 0]" "request_xoff s"
    "rm_calls s = [SetXoff True False]"
proof -
  obtain s where v: "VerifyResourceAvailabilityOrReserveResources rm_example rm_env_example
      rm_connections_example 7 pull_packet_example kOutgoing True (new_ResourceManager rm_example)
        = Some (s, OkStatus)"
    and s: "request_xoff s" "rm_calls s = [SetXoff True False]"
    and a: "asked rm_example rm_env_example rm_connections_example 7 pull_packet_example kOutgoing
        (new_ResourceManager rm_example) = [1, 0, 0, 0, 1, 0, 10, 0]"
    using example_reservation by (auto split: option.splits)
  have "rm_reach rm_example s (map2 (+) no_credits [1, 0, 0, 0, 1, 0, 10, 0])"
    by (rule rm_reach.verify [OF rm_reach.start v]) (simp add: a)
  then show thesis using s that by (simp add: no_credits_def)
qed

lemma example_mode: "resource_reservation_mode rm_example = FIRST_PHASE_RESERVATION"
  by (simp add: rm_example_def)

section \<open>Properties\<close>

text \<open>
  C19 Credits are conserved. Over any history of reservations and releases, on any connections, with
  any answers of the reorder engine, every pool's credits and the credits taken and not given back
  add up to what the configuration set, whatever moves between the request and data sides of an
  oversubscribed pool; a refused reservation and a repeated release change nothing.
\<close>

theorem credits_conserved_over_history:
  assumes "rm_reach c s h" "resource_reservation_mode c = FIRST_PHASE_RESERVATION"
  shows "map2 (+) (credits_total (global_credits s)) h = credits_total (Create (resource_credits c))"
  using rm_reach_conserved [OF assms] by (simp add: conserved_def)

lemma credits_conserved_over_history_witness:
  "\<exists>s :: ResourceManager. map2 (+) (credits_total (global_credits s)) [1, 0, 0, 0, 1, 0, 10, 0]
     = credits_total (Create (resource_credits rm_example)) \<and> request_xoff s"
proof -
  obtain s where s: "rm_reach rm_example s [1, 0, 0, 0, 1, 0, 10, 0]" "request_xoff s"
    "rm_calls s = [SetXoff True False]"
    by (rule example_reached)
  show ?thesis
    by (rule exI [of _ s]) (use credits_conserved_over_history [OF s(1) example_mode] s(2) in blast)
qed


text \<open>
  The XOFF flags follow the credits. After any history in which something was reserved or
  released, the request and global flags say exactly whether the credits are below the configured
  limits, the RDMA model was told the same values last, and it was never told twice in a row the
  values it already had.
\<close>

theorem xoff_follows_credits:
  assumes "rm_reach c s h" "resource_reservation_mode c = FIRST_PHASE_RESERVATION"
  shows "(s = new_ResourceManager c
      \<or> request_xoff s = (\<not> credits_le (request_xoff_limit c) (global_credits s))
        \<and> global_xoff s = (\<not> credits_le (global_xoff_limit c) (global_credits s)))
    \<and> last ((False, False) # xoff_signals (rm_calls s)) = (request_xoff s, global_xoff s)
    \<and> distinct_adj ((False, False) # xoff_signals (rm_calls s))"
  using rm_reach_xoff [OF assms] by (auto simp: xoff_exact_def xoff_sync_def xoff_due_def)

lemma xoff_follows_credits_witness:
  "\<exists>s :: ResourceManager. \<not> credits_le (request_xoff_limit rm_example) (global_credits s)
     \<and> rm_calls s = [SetXoff True False]"
proof -
  obtain s where s: "rm_reach rm_example s [1, 0, 0, 0, 1, 0, 10, 0]" "request_xoff s"
    "rm_calls s = [SetXoff True False]"
    by (rule example_reached)
  have "s \<noteq> new_ResourceManager rm_example"
    using s(2) by (auto simp: new_ResourceManager_def)
  then show ?thesis
    using xoff_follows_credits [OF s(1) example_mode] s(2,3) by blast
qed


text \<open>
  A transaction gives back what it took. For each kind of transaction at each end, the credits
  its first packet reserves are the sum of what its packets release, when the packets carry the
  lengths the reservation was computed from: a pull request with its response, a push request with
  its grant and solicited data at either end, unsolicited data with its completion.
\<close>

theorem transaction_returns_reservation:
  assumes "data_length p = rdma_data_length pkt" "sgl_length p = metadata_sgl_length pkt"
    and "direction p = kOutgoing" "direction q = kIncoming"
    and "GetPacketMetadata t kPullRequest = Inr p0"
  shows "(payload_length q = rdma_request_length pkt \<longrightarrow>
      map_option Demand (released_by c t [(kPullRequest, p), (kPullData, q)])
        = resource_demand c env s cs pkt kPullRequest kOutgoing)
    \<and> map_option Demand (released_by c t [(kPushRequest, p), (kPushGrant, q), (kPushSolicitedData, p)])
        = resource_demand c env s cs pkt kPushRequest kOutgoing
    \<and> map_option Demand (released_by c t [(kPushUnsolicitedData, p)])
        = resource_demand c env s cs pkt kPushUnsolicitedData kOutgoing
    \<and> map_option Demand (released_by c t [(kPullData, p)])
        = resource_demand c env s cs pkt kPullData kOutgoing
    \<and> (payload_length q = ucast (falcon_request_length pkt) \<longrightarrow>
       MeetsNetworkRequestAdmissionCriteria c env s (falcon_dest_cid pkt) (falcon_rsn pkt) kPushRequest \<longrightarrow>
      map_option Demand (released_by c t [(kPushRequest, q), (kPushGrant, p), (kPushSolicitedData, q)])
        = resource_demand c env s cs pkt kPushRequest kIncoming)
    \<and> (payload_length q = ucast (falcon_payload_length pkt) \<longrightarrow>
       MeetsNetworkRequestAdmissionCriteria c env s (falcon_dest_cid pkt) (falcon_rsn pkt) kPullRequest \<longrightarrow>
      map_option Demand (released_by c t [(kPullRequest, q)])
        = resource_demand c env s cs pkt kPullRequest kIncoming)
    \<and> (payload_length q = ucast (falcon_payload_length pkt) \<longrightarrow>
       MeetsNetworkRequestAdmissionCriteria c env s (falcon_dest_cid pkt) (falcon_rsn pkt) kPushUnsolicitedData \<longrightarrow>
      map_option Demand (released_by c t [(kPushUnsolicitedData, q)])
        = resource_demand c env s cs pkt kPushUnsolicitedData kIncoming)"
  using assms
  by (simp add: compute_defs admitted_request_def credits_add_def credits_sub_def zero_credits_def
      zero_tx_def zero_rx_def tx_add_def tx_sub_def rx_add_def rx_sub_def Let_def)

lemma transaction_returns_reservation_witness:
  "let p = (new_PacketMetadata kPullRequest kOutgoing None True);
       q = (new_PacketMetadata kPullData kIncoming None True)\<lparr>payload_length := 640\<rparr>;
       t = (new_TransactionMetadata 0 kPull kInitiator)\<lparr>packets := [kPullRequest \<mapsto> p]\<rparr>
   in map_option Demand (released_by rm_example t [(kPullRequest, p), (kPullData, q)])
        = resource_demand rm_example rm_env_example (new_ResourceManager rm_example)
            (the (rm_connections_example 7)) pull_packet_example kPullRequest kOutgoing"
  unfolding Let_def
  by (rule transaction_returns_reservation [THEN conjunct1, THEN mp])
    (simp_all add: new_PacketMetadata_def pull_packet_example_def new_Packet_def GetPacketMetadata_def)


text \<open>
  C20 The zones keep the head of line moving. A network request that is not head of line is refused
  outside the green zone; a push request is refused in the red zone; and a head-of-line pull request
  or unsolicited push is accepted in every zone and under every profile exactly when the global
  credits suffice, as long as the credits its connection holds stay below the 32-bit range.
\<close>

theorem zones_keep_head_of_line_moving:
  assumes "resource_reservation_mode c = FIRST_PHASE_RESERVATION" "conns scid = Some cs"
    and "falcon_dest_cid pkt = scid" "is_network_request (packet_type pkt)"
  shows "(\<not> is_hol env scid (falcon_rsn pkt) \<and> occupancy_zone c s \<noteq> kGreen \<longrightarrow>
      VerifyResourceAvailabilityOrReserveResources c env conns scid pkt kIncoming res s
        = Some (s, ResourceExhaustedError))
    \<and> (packet_type pkt = kPushRequest \<and> occupancy_zone c s = kRed \<longrightarrow>
      VerifyResourceAvailabilityOrReserveResources c env conns scid pkt kIncoming res s
        = Some (s, ResourceExhaustedError))
    \<and> (is_hol env scid (falcon_rsn pkt) \<and> packet_type pkt \<noteq> kPushRequest \<and>
       counters_fit (connection_counters s scid) (network_request_credits c pkt (packet_type pkt)) \<longrightarrow>
      map_option snd (VerifyResourceAvailabilityOrReserveResources c env conns scid pkt kIncoming res s)
        = Some (if credits_le (network_request_credits c pkt (packet_type pkt)) (global_credits s)
                then OkStatus else ResourceExhaustedError))"
  using assms
  by (auto simp: VerifyResourceAvailabilityOrReserveResources_def packet_to_reserve_for_def
      is_network_request_def admitted_request_def MeetsNetworkRequestAdmissionCriteria_def
      profile_admits_hol split: RxNetworkRequestZone.splits)

lemma zones_keep_head_of_line_moving_witness:
  "VerifyResourceAvailabilityOrReserveResources rm_example rm_env_example rm_connections_example 7
     (network_packet_example kPullRequest 1) kIncoming True (new_ResourceManager rm_example)
       = Some (new_ResourceManager rm_example, ResourceExhaustedError)
   \<and> map_option snd (VerifyResourceAvailabilityOrReserveResources rm_example rm_env_example
       rm_connections_example 7 (network_packet_example kPullRequest 0) kIncoming True
       (new_ResourceManager rm_example)) = Some OkStatus"
proof
  have zone: "occupancy_zone rm_example (new_ResourceManager rm_example) \<noteq> kGreen" by code_simp
  have hol: "\<not> is_hol rm_env_example 7 1" "is_hol rm_env_example 7 0" by code_simp+
  have conn: "rm_connections_example 7 = Some (the (rm_connections_example 7))"
    by (simp add: rm_connections_example_def)
  have pkt [simp]: "falcon_dest_cid (network_packet_example t n) = 7"
    "falcon_rsn (network_packet_example t n) = n" "packet_type (network_packet_example t n) = t" for t n
    by (simp_all add: network_packet_example_def new_Packet_def)
  have fit: "counters_fit (connection_counters (new_ResourceManager rm_example) 7)
      (network_request_credits rm_example (network_packet_example kPullRequest 0) kPullRequest)"
    and le: "credits_le (network_request_credits rm_example (network_packet_example kPullRequest 0)
      kPullRequest) (global_credits (new_ResourceManager rm_example))"
    by code_simp+
  show "VerifyResourceAvailabilityOrReserveResources rm_example rm_env_example rm_connections_example 7
     (network_packet_example kPullRequest 1) kIncoming True (new_ResourceManager rm_example)
       = Some (new_ResourceManager rm_example, ResourceExhaustedError)"
    using zones_keep_head_of_line_moving [where pkt = "network_packet_example kPullRequest 1"
        and conns = rm_connections_example and scid = 7,
        OF example_mode conn]
      hol(1) zone by (simp add: is_network_request_def)
  show "map_option snd (VerifyResourceAvailabilityOrReserveResources rm_example rm_env_example
       rm_connections_example 7 (network_packet_example kPullRequest 0) kIncoming True
       (new_ResourceManager rm_example)) = Some OkStatus"
    using zones_keep_head_of_line_moving [where pkt = "network_packet_example kPullRequest 0"
        and conns = rm_connections_example and scid = 7 and env = rm_env_example
        and s = "new_ResourceManager rm_example" and res = True, OF example_mode conn,
        unfolded pkt, OF refl, THEN conjunct2, THEN conjunct2]
      hol(2) fit le by (simp only: is_network_request_def simp_thms PacketType.distinct if_True)
qed


end
