(* ===== verification/Admission_Control.thy ===== *)
theory Admission_Control
  imports Transactions
begin

text \<open>
  \<open>common/token_bucket.{h,cc}\<close> and
  \<open>host/falcon/falcon_protocol_admission_control_manager.{h,cc}\<close>: the solicitation window and the
  receive and transmit rate limiters that decide whether a pull request, push grant or push request
  may go out.

  Token counts are 64-bit words and wrap. The number of elapsed refill intervals is a floor of a
  quotient of durations, an integer here; a conversion outside \<open>int\<close> is undefined in C++. The tokens
  of one interval, a rounded floating-point product, are a parameter of the constructors. The
  solicitation counters of the statistics are left out: no component reads them back.

  The lemmas bound what a token bucket grants, and show that the solicitation window is never
  overcommitted when every reservation follows a successful test.
\<close>

section \<open>Token bucket\<close>

record TokenBucket =
  tokens_per_refill_interval :: u64
  bucket_refill_interval :: int
  bucket_size :: u64
  available_tokens :: u64
  last_refill_timestamp :: int

definition new_TokenBucket :: "u64 \<Rightarrow> int \<Rightarrow> u64 \<Rightarrow> TokenBucket option" where
  "new_TokenBucket tokens interval max_burst_size = do {
     check (tokens > 0);
     Some \<lparr>tokens_per_refill_interval = tokens, bucket_refill_interval = interval,
       bucket_size = max_burst_size, available_tokens = max_burst_size, last_refill_timestamp = 0\<rparr>
   }"

definition AreTokensAvailable :: "u64 \<Rightarrow> int \<Rightarrow> TokenBucket \<Rightarrow> (TokenBucket \<times> bool) option" where
  "AreTokensAvailable requested_tokens current_time b = do {
     check (bucket_refill_interval b \<noteq> 0);
     let elapsed = (current_time - last_refill_timestamp b) div bucket_refill_interval b;
     let b1 = (if elapsed > 0 then
            b\<lparr>available_tokens := min (available_tokens b +
                (word_of_int elapsed * tokens_per_refill_interval b)) (bucket_size b),
              last_refill_timestamp := last_refill_timestamp b + elapsed * bucket_refill_interval b\<rparr>
          else b);
     Some (b1, requested_tokens \<le> available_tokens b1)
   }"

definition RequestTokens :: "u64 \<Rightarrow> TokenBucket \<Rightarrow> TokenBucket option" where
  "RequestTokens required_tokens b = do {
     check (available_tokens b \<ge> required_tokens);
     Some (b\<lparr>available_tokens := available_tokens b - required_tokens\<rparr>)
   }"

definition LastRefillTime :: "TokenBucket \<Rightarrow> int" where
  "LastRefillTime b = last_refill_timestamp b"

definition NextRefillTime :: "TokenBucket \<Rightarrow> int" where
  "NextRefillTime b = last_refill_timestamp b + bucket_refill_interval b"

section \<open>Admission control manager\<close>

datatype AdmissionControlPolicy =
    RX_WINDOW_BASED | RX_RATE_BASED | TX_RATE_BASED | RX_TX_RATE_BASED | RX_TX_RATE_RX_WINDOW_BASED

record WindowBasedAdmissionControlState =
  admission_window_bytes :: u64
  solicited_data_bytes :: u64

definition new_WindowBasedAdmissionControlState :: "u64 \<Rightarrow> WindowBasedAdmissionControlState" where
  "new_WindowBasedAdmissionControlState bytes =
     \<lparr>admission_window_bytes = bytes, solicited_data_bytes = 0\<rparr>"

record rate_limiter_config =
  limiter_tokens :: u64
  limiter_interval :: int
  limiter_burst :: u64

record admission_config =
  admission_control_policy :: AdmissionControlPolicy
  cfg_admission_window_bytes :: int
  rx_rate_limiter_metadata :: rate_limiter_config
  tx_rate_limiter_metadata :: rate_limiter_config

text \<open>The three states are created as the policy needs them; a null pointer is \<open>None\<close>.\<close>

record AdmissionControlManager =
  window_admission_control_state :: "WindowBasedAdmissionControlState option"
  rx_token_bucket :: "TokenBucket option"
  tx_token_bucket :: "TokenBucket option"

definition InitRxWindowAdmissionControl ::
    "admission_config \<Rightarrow> AdmissionControlManager \<Rightarrow> AdmissionControlManager option" where
  "InitRxWindowAdmissionControl c m = Some (m\<lparr>window_admission_control_state :=
     Some (new_WindowBasedAdmissionControlState (word_of_int (cfg_admission_window_bytes c)))\<rparr>)"

definition make_limiter :: "rate_limiter_config \<Rightarrow> TokenBucket option" where
  "make_limiter r = new_TokenBucket (limiter_tokens r) (limiter_interval r) (limiter_burst r)"

definition InitRxRateLimiter ::
    "admission_config \<Rightarrow> AdmissionControlManager \<Rightarrow> AdmissionControlManager option" where
  "InitRxRateLimiter c m = do {
     b \<leftarrow> make_limiter (rx_rate_limiter_metadata c);
     Some (m\<lparr>rx_token_bucket := Some b\<rparr>)
   }"

definition InitTxRateLimiter ::
    "admission_config \<Rightarrow> AdmissionControlManager \<Rightarrow> AdmissionControlManager option" where
  "InitTxRateLimiter c m = do {
     b \<leftarrow> make_limiter (tx_rate_limiter_metadata c);
     Some (m\<lparr>tx_token_bucket := Some b\<rparr>)
   }"

definition new_AdmissionControlManager :: "admission_config \<Rightarrow> AdmissionControlManager option" where
  "new_AdmissionControlManager c =
     (let m = \<lparr>window_admission_control_state = None, rx_token_bucket = None, tx_token_bucket = None\<rparr>
      in case admission_control_policy c of
        RX_WINDOW_BASED \<Rightarrow> InitRxWindowAdmissionControl c m
      | RX_RATE_BASED \<Rightarrow> InitRxRateLimiter c m
      | TX_RATE_BASED \<Rightarrow> InitTxRateLimiter c m
      | RX_TX_RATE_BASED \<Rightarrow> do {
          m1 \<leftarrow> InitRxRateLimiter c m;
          InitTxRateLimiter c m1
        }
      | RX_TX_RATE_RX_WINDOW_BASED \<Rightarrow> do {
          m1 \<leftarrow> InitRxRateLimiter c m;
          m2 \<leftarrow> InitTxRateLimiter c m1;
          InitRxWindowAdmissionControl c m2
        })"

definition solicits :: "PacketType \<Rightarrow> bool" where
  "solicits type \<longleftrightarrow> type = kPullRequest \<or> type = kPushGrant"

definition MeetsRxWindowBasedAdmissionCriteria ::
    "u64 \<Rightarrow> PacketType \<Rightarrow> AdmissionControlManager \<Rightarrow> (AdmissionControlManager \<times> bool) option" where
  "MeetsRxWindowBasedAdmissionCriteria request_len type m =
     (if solicits type then do {
        w \<leftarrow> window_admission_control_state m;
        Some (m, admission_window_bytes w - solicited_data_bytes w \<ge> request_len)
      } else Some (m, True))"

definition MeetsRxRateBasedAdmissionCriteria ::
    "int \<Rightarrow> u64 \<Rightarrow> PacketType \<Rightarrow> AdmissionControlManager \<Rightarrow> (AdmissionControlManager \<times> bool) option" where
  "MeetsRxRateBasedAdmissionCriteria elapsed request_len type m =
     (if solicits type then do {
        b \<leftarrow> rx_token_bucket m;
        (b1, ok) \<leftarrow> AreTokensAvailable request_len elapsed b;
        Some (m\<lparr>rx_token_bucket := Some b1\<rparr>, ok)
      } else Some (m, True))"

definition MeetsTxRateBasedAdmissionCriteria ::
    "int \<Rightarrow> u64 \<Rightarrow> PacketType \<Rightarrow> AdmissionControlManager \<Rightarrow> (AdmissionControlManager \<times> bool) option" where
  "MeetsTxRateBasedAdmissionCriteria elapsed request_len type m =
     (if type = kPushRequest then do {
        b \<leftarrow> tx_token_bucket m;
        (b1, ok) \<leftarrow> AreTokensAvailable request_len elapsed b;
        Some (m\<lparr>tx_token_bucket := Some b1\<rparr>, ok)
      } else Some (m, True))"

definition MeetsAdmissionControlCriteria_length ::
    "admission_config \<Rightarrow> int \<Rightarrow> u64 \<Rightarrow> PacketType \<Rightarrow> AdmissionControlManager \<Rightarrow>
     (AdmissionControlManager \<times> bool) option" where
  "MeetsAdmissionControlCriteria_length c elapsed request_len type m =
     (case admission_control_policy c of
        RX_WINDOW_BASED \<Rightarrow> MeetsRxWindowBasedAdmissionCriteria request_len type m
      | RX_RATE_BASED \<Rightarrow> MeetsRxRateBasedAdmissionCriteria elapsed request_len type m
      | TX_RATE_BASED \<Rightarrow> MeetsTxRateBasedAdmissionCriteria elapsed request_len type m
      | RX_TX_RATE_BASED \<Rightarrow> do {
          (m1, rx_ok) \<leftarrow> MeetsRxRateBasedAdmissionCriteria elapsed request_len type m;
          (m2, tx_ok) \<leftarrow> MeetsTxRateBasedAdmissionCriteria elapsed request_len type m1;
          Some (m2, tx_ok \<and> rx_ok)
        }
      | RX_TX_RATE_RX_WINDOW_BASED \<Rightarrow> do {
          (m1, rx_ok) \<leftarrow> MeetsRxRateBasedAdmissionCriteria elapsed request_len type m;
          (m2, tx_ok) \<leftarrow> MeetsTxRateBasedAdmissionCriteria elapsed request_len type m1;
          (m3, window_ok) \<leftarrow> MeetsRxWindowBasedAdmissionCriteria request_len type m2;
          Some (m3, tx_ok \<and> rx_ok \<and> window_ok)
        })"

text \<open>The transaction a packet belongs to; its request length may never have been written.\<close>

definition MeetsAdmissionControlCriteria ::
    "admission_config \<Rightarrow> int \<Rightarrow> (u32 \<rightharpoonup> 'a ConnectionTransactions_scheme) \<Rightarrow> u32 \<Rightarrow> u32 \<Rightarrow> PacketType \<Rightarrow>
     AdmissionControlManager \<Rightarrow> (AdmissionControlManager \<times> bool) option" where
  "MeetsAdmissionControlCriteria c elapsed conns scid rsn type m = do {
     cs \<leftarrow> conns scid;
     loc \<leftarrow> GetTransactionLocation type False;
     t \<leftarrow> transactions cs (mk_key rsn loc);
     len \<leftarrow> request_length t;
     MeetsAdmissionControlCriteria_length c elapsed (ucast len) type m
   }"

definition ReserveRxWindowBasedAdmissionResources ::
    "duration \<Rightarrow> u64 \<Rightarrow> PacketType \<Rightarrow> TransactionMetadata \<Rightarrow> AdmissionControlManager \<Rightarrow>
     (AdmissionControlManager \<times> TransactionMetadata) option" where
  "ReserveRxWindowBasedAdmissionResources now request_len type t m =
     (if solicits type then do {
        w \<leftarrow> window_admission_control_state m;
        Some (m\<lparr>window_admission_control_state := Some (w\<lparr>solicited_data_bytes :=
                solicited_data_bytes w + request_len\<rparr>)\<rparr>,
              t\<lparr>solicitation_window_reservation_timestamp := now\<rparr>)
      } else Some (m, t))"

definition ReserveRxRateBasedAdmissionResources ::
    "u64 \<Rightarrow> PacketType \<Rightarrow> AdmissionControlManager \<Rightarrow> AdmissionControlManager option" where
  "ReserveRxRateBasedAdmissionResources request_len type m =
     (if solicits type then do {
        b \<leftarrow> rx_token_bucket m;
        b1 \<leftarrow> RequestTokens request_len b;
        Some (m\<lparr>rx_token_bucket := Some b1\<rparr>)
      } else Some m)"

definition ReserveTxRateBasedAdmissionResources ::
    "u64 \<Rightarrow> PacketType \<Rightarrow> AdmissionControlManager \<Rightarrow> AdmissionControlManager option" where
  "ReserveTxRateBasedAdmissionResources request_len type m =
     (if type = kPushRequest then do {
        b \<leftarrow> tx_token_bucket m;
        b1 \<leftarrow> RequestTokens request_len b;
        Some (m\<lparr>tx_token_bucket := Some b1\<rparr>)
      } else Some m)"

definition reserve_by_policy ::
    "admission_config \<Rightarrow> duration \<Rightarrow> u64 \<Rightarrow> PacketType \<Rightarrow> TransactionMetadata \<Rightarrow>
     AdmissionControlManager \<Rightarrow> (AdmissionControlManager \<times> TransactionMetadata) option" where
  "reserve_by_policy c now len type t m =
     (case admission_control_policy c of
        RX_WINDOW_BASED \<Rightarrow> ReserveRxWindowBasedAdmissionResources now len type t m
      | RX_RATE_BASED \<Rightarrow> do {
          m1 \<leftarrow> ReserveRxRateBasedAdmissionResources len type m;
          Some (m1, t)
        }
      | TX_RATE_BASED \<Rightarrow> do {
          m1 \<leftarrow> ReserveTxRateBasedAdmissionResources len type m;
          Some (m1, t)
        }
      | RX_TX_RATE_BASED \<Rightarrow> do {
          m1 \<leftarrow> ReserveRxRateBasedAdmissionResources len type m;
          m2 \<leftarrow> ReserveTxRateBasedAdmissionResources len type m1;
          Some (m2, t)
        }
      | RX_TX_RATE_RX_WINDOW_BASED \<Rightarrow> do {
          m1 \<leftarrow> ReserveRxRateBasedAdmissionResources len type m;
          m2 \<leftarrow> ReserveTxRateBasedAdmissionResources len type m1;
          ReserveRxWindowBasedAdmissionResources now len type t m2
        })"

text \<open>\<open>GetTransactionLocation\<close> is evaluated before the lookup; a failed lookup returns its status.\<close>

definition ReserveAdmissionControlResource ::
    "admission_config \<Rightarrow> duration \<Rightarrow> (u32 \<rightharpoonup> 'a ConnectionTransactions_scheme) \<Rightarrow> u32 \<Rightarrow> u32 \<Rightarrow>
     PacketType \<Rightarrow> AdmissionControlManager \<Rightarrow>
     (AdmissionControlManager \<times> (u32 \<rightharpoonup> 'a ConnectionTransactions_scheme) \<times> status) option" where
  "ReserveAdmissionControlResource c now conns scid rsn type m =
     (case conns scid of
        None \<Rightarrow> Some (m, conns, NotFoundError)
      | Some cs \<Rightarrow> do {
          loc \<leftarrow> GetTransactionLocation type False;
          (case GetTransaction cs (mk_key rsn loc) of
             Inl e \<Rightarrow> Some (m, conns, e)
           | Inr t \<Rightarrow> do {
               len \<leftarrow> request_length t;
               (m1, t1) \<leftarrow> reserve_by_policy c now (ucast len) type t m;
               Some (m1, conns(scid \<mapsto> cs\<lparr>transactions := (transactions cs)
                 (mk_key rsn loc \<mapsto> t1)\<rparr>), OkStatus)
             })
        })"

definition window_policy :: "AdmissionControlPolicy \<Rightarrow> bool" where
  "window_policy p \<longleftrightarrow> p = RX_WINDOW_BASED \<or> p = RX_TX_RATE_RX_WINDOW_BASED"

definition window_latency_sample ::
    "TransactionMetadata \<Rightarrow> duration \<Rightarrow> sample option" where
  "window_latency_sample t now =
     (let latency = now - solicitation_window_reservation_timestamp t
      in case tm_type t of
           kPull \<Rightarrow> Some (PullSample PL_kTxNetworkRequestToTxUlpData latency)
         | kPushSolicited \<Rightarrow> Some (PushSolicitedSample PS_kTxNetworkGrantToTxUlpData latency)
         | kPushUnsolicited \<Rightarrow> None)"

definition RefundAdmissionControlResource ::
    "admission_config \<Rightarrow> duration \<Rightarrow> (u32 \<rightharpoonup> 'a ConnectionTransactions_scheme) \<Rightarrow> u32 \<Rightarrow> TransactionKey \<Rightarrow>
     AdmissionControlManager \<Rightarrow> (AdmissionControlManager \<times> sample list \<times> status) option" where
  "RefundAdmissionControlResource c now conns scid key m =
     (if window_policy (admission_control_policy c) then
        (case conns scid of
           None \<Rightarrow> Some (m, [], NotFoundError)
         | Some cs \<Rightarrow>
           (case GetTransaction cs key of
              Inl e \<Rightarrow> Some (m, [], e)
            | Inr t \<Rightarrow> do {
                len \<leftarrow> request_length t;
                w \<leftarrow> window_admission_control_state m;
                smp \<leftarrow> window_latency_sample t now;
                Some (m\<lparr>window_admission_control_state := Some (w\<lparr>solicited_data_bytes :=
                        solicited_data_bytes w - ucast len\<rparr>)\<rparr>, [smp], OkStatus)
              }))
      else Some (m, [], OkStatus))"


section \<open>Histories\<close>

text \<open>
  Requests as the schedulers make them: the tokens are taken when the test succeeds. The second
  result counts what was granted.
\<close>

fun tb_run :: "(int \<times> u64) list \<Rightarrow> TokenBucket \<Rightarrow> (TokenBucket \<times> nat) option" where
  "tb_run [] b = Some (b, 0)"
| "tb_run ((t, n) # rs) b = do {
     (b1, ok) \<leftarrow> AreTokensAvailable n t b;
     (if ok then do {
        b2 \<leftarrow> RequestTokens n b1;
        (b3, granted) \<leftarrow> tb_run rs b2;
        Some (b3, unat n + granted)
      } else tb_run rs b1)
   }"

text \<open>
  Tests, reservations and refunds in any order, on any connections, where a reservation follows a
  successful test of a length that is not smaller, and a refund belongs to a reservation that is
  still outstanding. The list holds the outstanding solicited lengths.
\<close>

inductive window_reach ::
    "admission_config \<Rightarrow> AdmissionControlManager \<Rightarrow> u32 list \<Rightarrow> bool" for c where
  start: "new_AdmissionControlManager c = Some m \<Longrightarrow> window_reach c m []"
| test: "window_reach c m out \<Longrightarrow>
    MeetsAdmissionControlCriteria_length c elapsed L type m = Some (m', ok) \<Longrightarrow>
    window_reach c m' out"
| reserve: "window_reach c m out \<Longrightarrow>
    MeetsAdmissionControlCriteria_length c elapsed L type m = Some (m1, True) \<Longrightarrow>
    (conns :: u32 \<rightharpoonup> ConnectionTransactions) scid = Some cs \<Longrightarrow> GetTransactionLocation type False = Some loc \<Longrightarrow>
    transactions cs (mk_key rsn loc) = Some t \<Longrightarrow> request_length t = Some len \<Longrightarrow>
    ucast len \<le> L \<Longrightarrow>
    ReserveAdmissionControlResource c now conns scid rsn type m1 = Some (m2, conns', st) \<Longrightarrow>
    out' = (if solicits type then len # out else out) \<Longrightarrow>
    window_reach c m2 out'"
| refund: "window_reach c m out \<Longrightarrow>
    (conns :: u32 \<rightharpoonup> ConnectionTransactions) scid = Some cs \<Longrightarrow> transactions cs key = Some t \<Longrightarrow> request_length t = Some len \<Longrightarrow>
    len \<in> set out \<Longrightarrow>
    RefundAdmissionControlResource c now conns scid key m = Some (m', smp, st) \<Longrightarrow>
    window_reach c m' (remove1 len out)"

section \<open>Lemmas on the token bucket\<close>

text \<open>The tokens granted and left never exceed the burst and what the passed intervals brought.\<close>

definition bucket_inv :: "TokenBucket \<Rightarrow> TokenBucket \<Rightarrow> int \<Rightarrow> nat \<Rightarrow> bool" where
  "bucket_inv b0 b T granted \<longleftrightarrow>
     tokens_per_refill_interval b = tokens_per_refill_interval b0 \<and>
     bucket_refill_interval b = bucket_refill_interval b0 \<and> bucket_size b = bucket_size b0 \<and>
     (\<exists>k. last_refill_timestamp b = int k * bucket_refill_interval b0 \<and>
        last_refill_timestamp b \<le> T \<and>
        granted + unat (available_tokens b)
          \<le> unat (bucket_size b0) + k * unat (tokens_per_refill_interval b0))"

lemma unat_min: "unat (min a b) = min (unat a) (unat (b :: 'a :: len word))"
  by (simp add: min_def word_le_nat_alt)

lemma unat_plus_le: "unat (a + b) \<le> unat a + unat (b :: 'a :: len word)"
  by (simp only: unat_word_ariths mod_less_eq_dividend)

lemma unat_mult_le: "unat (a * b) \<le> unat a * unat (b :: 'a :: len word)"
  by (simp only: unat_word_ariths mod_less_eq_dividend)

lemma unat_word_of_int_le: "0 < e \<Longrightarrow> unat (word_of_int e :: u64) \<le> nat e"
  by (simp only: unat_eq_nat_uint uint_word_of_int) (simp add: nat_mono zmod_le_nonneg_dividend)

lemma refill_bound:
  fixes a r s :: u64
  assumes "0 < e"
  shows "unat (min (a + word_of_int e * r) s) \<le> unat a + nat e * unat r"
proof -
  have "unat (word_of_int e * r) \<le> unat (word_of_int e :: u64) * unat r"
    by (rule unat_mult_le)
  also have "\<dots> \<le> nat e * unat r"
    by (rule mult_right_mono [OF unat_word_of_int_le [OF assms]]) simp
  finally have "unat (a + word_of_int e * r) \<le> unat a + nat e * unat r"
    using unat_plus_le [of a "word_of_int e * r"] by linarith
  moreover have "unat (min x s) \<le> unat x" for x :: u64
    by (simp add: unat_min)
  ultimately show ?thesis by (rule le_trans [rotated])
qed

lemma bucket_inv_test:
  assumes "bucket_inv b0 b T g" "t \<le> T" "0 < bucket_refill_interval b0"
  obtains b1 where "AreTokensAvailable n t b = Some (b1, n \<le> available_tokens b1)"
    "bucket_inv b0 b1 T g"
proof -
  let ?I = "bucket_refill_interval b0"
  let ?e = "(t - last_refill_timestamp b) div ?I"
  obtain k where k: "last_refill_timestamp b = int k * ?I" "last_refill_timestamp b \<le> T"
    "g + unat (available_tokens b) \<le> unat (bucket_size b0) + k * unat (tokens_per_refill_interval b0)"
    and same: "tokens_per_refill_interval b = tokens_per_refill_interval b0"
      "bucket_refill_interval b = ?I" "bucket_size b = bucket_size b0"
    using assms(1) unfolding bucket_inv_def by blast
  show thesis
  proof (cases "?e > 0")
    case False
    then show thesis
      using that [of b] assms same by (simp add: AreTokensAvailable_def)
  next
    case True
    let ?b1 = "b\<lparr>available_tokens := min (available_tokens b
                + (word_of_int ?e * tokens_per_refill_interval b0)) (bucket_size b0),
              last_refill_timestamp := last_refill_timestamp b + ?e * ?I\<rparr>"
    have le: "last_refill_timestamp b + ?e * ?I \<le> T"
      using assms(2,3) by (smt (verit) div_mult_mod_eq mult.commute pos_mod_sign)
    have eq: "last_refill_timestamp b + ?e * ?I = int (k + nat ?e) * ?I"
      using True k(1) by (simp add: distrib_right)
    have "g + unat (available_tokens ?b1)
        \<le> unat (bucket_size b0) + (k + nat ?e) * unat (tokens_per_refill_interval b0)"
      using refill_bound [OF True, of "available_tokens b" "tokens_per_refill_interval b0"
          "bucket_size b0"] k(3) by (simp add: distrib_right)
    with le eq same have "bucket_inv b0 ?b1 T g"
      unfolding bucket_inv_def by (intro conjI exI [of _ "k + nat ?e"]) simp_all
    with True same assms(3) show thesis
      using that [of ?b1] by (simp add: AreTokensAvailable_def Let_def)
  qed
qed

lemma bucket_inv_run:
  assumes "bucket_inv b0 b T g" "\<forall>(t, n) \<in> set rs. t \<le> T" "0 < bucket_refill_interval b0"
  shows "\<exists>b' g'. tb_run rs b = Some (b', g') \<and> bucket_inv b0 b' T (g + g')"
  using assms
proof (induction rs arbitrary: b g)
  case Nil
  then show ?case by simp
next
  case (Cons r rs)
  obtain t n where r: "r = (t, n)" by force
  with Cons.prems have "t \<le> T" by simp
  from bucket_inv_test [OF Cons.prems(1) this Cons.prems(3)]
  obtain b1 where b1: "AreTokensAvailable n t b = Some (b1, n \<le> available_tokens b1)"
    "bucket_inv b0 b1 T g" by blast
  show ?case
  proof (cases "n \<le> available_tokens b1")
    case False
    with b1 Cons r show ?thesis by auto
  next
    case True
    let ?b2 = "b1\<lparr>available_tokens := available_tokens b1 - n\<rparr>"
    from True have "unat (available_tokens b1 - n) + unat n = unat (available_tokens b1)"
      by (simp add: unat_sub word_le_nat_alt)
    with b1(2) have "bucket_inv b0 ?b2 T (g + unat n)"
      by (auto simp: bucket_inv_def)
    from Cons.IH [OF this] Cons.prems obtain b' g' where
      "tb_run rs ?b2 = Some (b', g')" "bucket_inv b0 b' T (g + unat n + g')" by auto
    with True b1(1) r show ?thesis by (auto simp: RequestTokens_def add.assoc)
  qed
qed


section \<open>Lemmas on the window\<close>

definition window_inv :: "admission_config \<Rightarrow> AdmissionControlManager \<Rightarrow> u32 list \<Rightarrow> bool" where
  "window_inv c m out \<longleftrightarrow> (\<exists>w. window_admission_control_state m = Some w \<and>
     admission_window_bytes w = word_of_int (cfg_admission_window_bytes c) \<and>
     unat (solicited_data_bytes w) = sum_list (map unat out) \<and>
     solicited_data_bytes w \<le> admission_window_bytes w)"

lemmas init_defs = new_AdmissionControlManager_def InitRxWindowAdmissionControl_def
  InitRxRateLimiter_def InitTxRateLimiter_def make_limiter_def new_TokenBucket_def
  new_WindowBasedAdmissionControlState_def

lemmas meets_defs = MeetsAdmissionControlCriteria_length_def MeetsRxWindowBasedAdmissionCriteria_def
  MeetsRxRateBasedAdmissionCriteria_def MeetsTxRateBasedAdmissionCriteria_def

lemma new_window_inv:
  "new_AdmissionControlManager c = Some m \<Longrightarrow> window_policy (admission_control_policy c) \<Longrightarrow>
   window_inv c m []"
  by (auto simp: window_inv_def init_defs window_policy_def Let_def split: bind_splits
      AdmissionControlPolicy.splits if_splits)

lemma rate_tests_frame:
  "MeetsRxRateBasedAdmissionCriteria e L type m = Some (m', ok) \<Longrightarrow>
     window_admission_control_state m' = window_admission_control_state m"
  "MeetsTxRateBasedAdmissionCriteria e L type m = Some (m', ok) \<Longrightarrow>
     window_admission_control_state m' = window_admission_control_state m"
  by (auto simp: meets_defs split: if_splits bind_splits)

lemma window_test:
  "MeetsRxWindowBasedAdmissionCriteria L type m = Some (m', ok) \<Longrightarrow>
     m' = m \<and> (solicits type \<longrightarrow> (\<exists>w. window_admission_control_state m = Some w \<and>
       ok = (L \<le> admission_window_bytes w - solicited_data_bytes w)))"
  by (auto simp: meets_defs split: if_splits bind_splits)

lemma meets_frame:
  assumes "MeetsAdmissionControlCriteria_length c e L type m = Some (m', ok)"
  shows "window_admission_control_state m' = window_admission_control_state m"
  using assms unfolding MeetsAdmissionControlCriteria_length_def
  by (auto split: AdmissionControlPolicy.splits bind_splits dest!: rate_tests_frame window_test)

lemma meets_window:
  assumes "MeetsAdmissionControlCriteria_length c e L type m = Some (m', True)"
    and "window_policy (admission_control_policy c)" "solicits type"
    and "window_admission_control_state m = Some w"
  shows "L \<le> admission_window_bytes w - solicited_data_bytes w"
  using assms unfolding MeetsAdmissionControlCriteria_length_def window_policy_def
  by (auto split: bind_splits dest!: rate_tests_frame window_test)

lemma rate_reserve_frame:
  "ReserveRxRateBasedAdmissionResources L type m = Some m' \<Longrightarrow>
     window_admission_control_state m' = window_admission_control_state m"
  "ReserveTxRateBasedAdmissionResources L type m = Some m' \<Longrightarrow>
     window_admission_control_state m' = window_admission_control_state m"
  by (auto simp: ReserveRxRateBasedAdmissionResources_def ReserveTxRateBasedAdmissionResources_def
      split: if_splits bind_splits)

lemma reserve_window:
  assumes "reserve_by_policy c now len type t m = Some (m', t')"
    and "window_policy (admission_control_policy c)"
    and "window_admission_control_state m = Some w"
  shows "window_admission_control_state m' = Some (if solicits type
    then w\<lparr>solicited_data_bytes := solicited_data_bytes w + len\<rparr> else w)"
  using assms unfolding reserve_by_policy_def window_policy_def
  by (auto simp: ReserveRxWindowBasedAdmissionResources_def split: bind_splits if_splits
      dest!: rate_reserve_frame)

lemma Reserve_cases:
  assumes "ReserveAdmissionControlResource c now conns scid rsn type m = Some (m', conns', st)"
    and "conns scid = Some cs" "GetTransactionLocation type False = Some loc"
    and "transactions cs (mk_key rsn loc) = Some t" "request_length t = Some len"
  obtains t' where "reserve_by_policy c now (ucast len) type t m = Some (m', t')"
  using assms by (auto simp: ReserveAdmissionControlResource_def GetTransaction_def split: bind_splits)

lemma sum_remove1: "x \<in> set xs \<Longrightarrow> sum_list (map f (remove1 x xs)) = sum_list (map f xs) - (f x :: nat)"
  using sum_list_map_remove1 [of x xs f] by simp

lemma sum_member: "x \<in> set xs \<Longrightarrow> f x \<le> (sum_list (map f xs) :: nat)"
  by (simp add: member_le_sum_list)

lemma unat_bound: "unat (l :: 'a :: len word) < 2 ^ LENGTH('a)"
  by (rule unsigned_less)

lemma unat_ucast_u64: "unat (ucast l :: u64) = unat (l :: u32)"
  using unat_bound [of l] by (simp add: unsigned_ucast_eq take_bit_nat_eq_self)

lemma window_room:
  fixes a s :: u64 and l :: u32
  assumes "s \<le> a" "ucast l \<le> L" "L \<le> a - s"
  shows "unat (s + ucast l) = unat s + unat l" "s + ucast l \<le> a"
proof -
  have "unat (ucast l :: u64) = unat l" by (rule unat_ucast_u64)
  moreover have "ucast l \<le> a - s" using assms(2,3) by (rule order_trans)
  moreover have "unat (a - s) = unat a - unat s" by (rule unat_sub [OF assms(1)])
  ultimately have room: "unat s + unat l \<le> unat a"
    using assms(1) by (simp add: word_le_nat_alt)
  then have "unat s + unat l < 2 ^ 64" using unat_bound [of a] by simp
  then show "unat (s + ucast l) = unat s + unat l"
    by (simp add: unat_word_ariths \<open>unat (ucast l :: u64) = unat l\<close>)
  with room show "s + ucast l \<le> a" by (simp add: word_le_nat_alt)
qed

lemma window_reach_inv:
  assumes "window_reach c m out" "window_policy (admission_control_policy c)"
  shows "window_inv c m out"
  using assms
proof (induction rule: window_reach.induct)
  case (start m)
  then show ?case by (rule new_window_inv)
next
  case (test m out elapsed L type m' ok)
  then show ?case using meets_frame [OF test.hyps(2)] by (simp add: window_inv_def)
next
  case (reserve m out elapsed L type m1 conns scid cs loc rsn t len now m2 conns' st out')
  obtain w where w: "window_admission_control_state m = Some w"
    "admission_window_bytes w = word_of_int (cfg_admission_window_bytes c)"
    "unat (solicited_data_bytes w) = sum_list (map unat out)"
    "solicited_data_bytes w \<le> admission_window_bytes w"
    using reserve.IH [OF reserve.prems] by (auto simp: window_inv_def)
  from meets_frame [OF reserve.hyps(2)] w have m1: "window_admission_control_state m1 = Some w" by simp
  obtain t' where "reserve_by_policy c now (ucast len) type t m1 = Some (m2, t')"
    using Reserve_cases reserve.hyps by metis
  from reserve_window [OF this reserve.prems m1]
  show ?case
    using w reserve.hyps(9) window_room [OF w(4) reserve.hyps(7)]
      meets_window [OF reserve.hyps(2) reserve.prems _ w(1)]
    by (auto simp: window_inv_def)
next
  case (refund m out conns scid cs key t len now m' smp st)
  obtain w where w: "window_admission_control_state m = Some w"
    "admission_window_bytes w = word_of_int (cfg_admission_window_bytes c)"
    "unat (solicited_data_bytes w) = sum_list (map unat out)"
    "solicited_data_bytes w \<le> admission_window_bytes w"
    using refund.IH [OF refund.prems] by (auto simp: window_inv_def)
  have m': "window_admission_control_state m' = Some (w\<lparr>solicited_data_bytes :=
      solicited_data_bytes w - ucast len\<rparr>)"
    using refund.hyps refund.prems w(1)
    by (auto simp: RefundAdmissionControlResource_def GetTransaction_def split: bind_splits)
  have len: "unat (ucast len :: u64) = unat len" by (rule unat_ucast_u64)
  have le: "ucast len \<le> solicited_data_bytes w"
    using sum_member [OF refund.hyps(5), of unat] w(3) len by (simp add: word_le_nat_alt)
  have diff: "unat (solicited_data_bytes w - ucast len) = sum_list (map unat (remove1 len out))"
    using unat_sub [OF le] sum_remove1 [OF refund.hyps(5), of unat] w(3) len by simp
  have "solicited_data_bytes w - ucast len \<le> admission_window_bytes w"
    using unat_sub [OF le] w(4) by (simp add: word_le_nat_alt)
  with m' w(2) diff show ?case by (simp add: window_inv_def)
qed


section \<open>Properties\<close>

text \<open>
  C21 The rate limiter limits the rate. Whatever requests are made, at any times up to \<open>T\<close>, in any
  order, no test or deduction fails and the tokens granted are at most the burst plus the tokens of
  the refill intervals that fit into \<open>T\<close>. This holds in spite of the 64-bit wrap-around of the
  refill, which can only lose tokens.
\<close>

theorem token_bucket_bounds_rate:
  assumes "new_TokenBucket rate interval burst = Some b" "0 < interval" "0 \<le> T"
    and "\<forall>(t, n) \<in> set requests. t \<le> T"
  shows "\<exists>b' granted. tb_run requests b = Some (b', granted) \<and>
    granted \<le> unat burst + nat (T div interval) * unat rate"
proof -
  have b: "b = \<lparr>tokens_per_refill_interval = rate, bucket_refill_interval = interval,
      bucket_size = burst, available_tokens = burst, last_refill_timestamp = 0\<rparr>"
    using assms(1) by (auto simp: new_TokenBucket_def split: if_splits)
  have "bucket_inv b b T 0"
    unfolding bucket_inv_def using assms(3) b by (intro conjI exI [of _ 0]) simp_all
  from bucket_inv_run [OF this assms(4)] obtain b' g k where
    run: "tb_run requests b = Some (b', g)" and "int k * interval \<le> T"
    and g: "g + unat (available_tokens b') \<le> unat burst + k * unat rate"
    using assms(2) by (auto simp: bucket_inv_def b)
  then have "int k \<le> T div interval"
    using assms(2) zdiv_mono1 [of "int k * interval" T interval] by simp
  then have "k * unat rate \<le> nat (T div interval) * unat rate"
    by (intro mult_right_mono) linarith+
  with g have "g \<le> unat burst + nat (T div interval) * unat rate" by linarith
  with run show ?thesis by blast
qed

lemma token_bucket_bounds_rate_witness:
  "\<exists>b' granted. tb_run [(0, 8), (5, 4), (15, 4), (40, 8)]
      \<lparr>tokens_per_refill_interval = 4, bucket_refill_interval = 10, bucket_size = 8,
       available_tokens = 8, last_refill_timestamp = 0\<rparr> = Some (b', granted) \<and> granted \<le> 24"
proof -
  have "new_TokenBucket 4 10 8 = Some \<lparr>tokens_per_refill_interval = 4, bucket_refill_interval = 10,
      bucket_size = 8, available_tokens = 8, last_refill_timestamp = 0\<rparr>"
    by (simp add: new_TokenBucket_def)
  from token_bucket_bounds_rate [OF this, of 40 "[(0, 8), (5, 4), (15, 4), (40, 8)]"]
  show ?thesis by simp
qed

text \<open>
  An idle bucket fills up. Once enough intervals have passed to bring a whole burst, any request of
  at most the burst is granted, as long as the refill stays within 64 bits.
\<close>

theorem idle_bucket_grants_burst:
  assumes "0 < bucket_refill_interval b"
    and "k = nat ((t - last_refill_timestamp b) div bucket_refill_interval b)"
    and "unat (bucket_size b) \<le> k * unat (tokens_per_refill_interval b)"
    and "unat (available_tokens b) + k * unat (tokens_per_refill_interval b) < 2 ^ 64"
    and "n \<le> bucket_size b" "n \<noteq> 0"
  shows "\<exists>b'. AreTokensAvailable n t b = Some (b', True) \<and> available_tokens b' = bucket_size b"
proof -
  let ?e = "(t - last_refill_timestamp b) div bucket_refill_interval b"
  let ?r = "tokens_per_refill_interval b"
  have "bucket_size b \<noteq> 0" using assms(5,6) by auto
  then have "0 < k" using assms(3) by (cases k) (auto simp: unat_eq_0)
  then have e: "0 < ?e" "?e = int k" using assms(2) by simp_all
  have r: "unat ?r \<noteq> 0" using assms(3) \<open>bucket_size b \<noteq> 0\<close> by (auto simp: unat_eq_0)
  then have "k \<le> k * unat ?r" by simp
  then have k: "k < 2 ^ 64" using assms(4) by linarith
  have "unat (word_of_int ?e :: u64) = k"
    using k by (simp add: e(2) unsigned_of_nat take_bit_nat_eq_self)
  moreover have prod: "k * unat ?r < 2 ^ 64" using assms(4) by linarith
  ultimately have p: "unat (word_of_int ?e * ?r) = k * unat ?r"
    by (simp add: unat_word_ariths)
  have "unat (available_tokens b + word_of_int ?e * ?r) = unat (available_tokens b) + k * unat ?r"
    using assms(4) p by (simp add: unat_word_ariths)
  then have full: "bucket_size b \<le> available_tokens b + word_of_int ?e * ?r"
    using assms(3) by (simp add: word_le_nat_alt)
  show ?thesis
    using e(1) assms(1,5) full by (simp add: AreTokensAvailable_def Let_def min_absorb2)
qed

lemma idle_bucket_grants_burst_witness:
  "\<exists>b'. AreTokensAvailable 8 25 \<lparr>tokens_per_refill_interval = 4, bucket_refill_interval = 10,
      bucket_size = 8, available_tokens = 1, last_refill_timestamp = 0\<rparr> = Some (b', True)"
  using idle_bucket_grants_burst [of "\<lparr>tokens_per_refill_interval = 4, bucket_refill_interval = 10,
      bucket_size = 8, available_tokens = 1, last_refill_timestamp = 0\<rparr>" 2 25 8] by auto

text \<open>
  The solicitation window is never overcommitted. When reservations follow successful tests of a
  length that is not smaller (the fast scheduler tests a maximum), the counter is the sum of the
  outstanding solicited lengths, never above the window, so that the difference the test takes does
  not wrap and the test is exact.
\<close>

theorem window_never_overcommitted:
  assumes "window_reach c m out" "window_policy (admission_control_policy c)"
  shows "\<exists>w. window_admission_control_state m = Some w
    \<and> unat (solicited_data_bytes w) = sum_list (map unat out)
    \<and> sum_list (map unat out) \<le> unat (word_of_int (cfg_admission_window_bytes c) :: u64)
    \<and> MeetsRxWindowBasedAdmissionCriteria L kPullRequest m = Some (m, sum_list (map unat out) + unat L
        \<le> unat (word_of_int (cfg_admission_window_bytes c) :: u64))"
proof -
  obtain w where w: "window_admission_control_state m = Some w"
    "admission_window_bytes w = word_of_int (cfg_admission_window_bytes c)"
    "unat (solicited_data_bytes w) = sum_list (map unat out)"
    "solicited_data_bytes w \<le> admission_window_bytes w"
    using window_reach_inv [OF assms] by (auto simp: window_inv_def)
  have "(L \<le> admission_window_bytes w - solicited_data_bytes w)
      = (sum_list (map unat out) + unat L \<le> unat (admission_window_bytes w))"
    using w(3,4) unat_sub [OF w(4)] by (auto simp: word_le_nat_alt)
  with w show ?thesis
    by (simp add: MeetsRxWindowBasedAdmissionCriteria_def solicits_def word_le_nat_alt)
qed

definition window_example :: admission_config where
  "window_example = \<lparr>admission_control_policy = RX_WINDOW_BASED, cfg_admission_window_bytes = 100,
     rx_rate_limiter_metadata = \<lparr>limiter_tokens = 1, limiter_interval = 1, limiter_burst = 1\<rparr>,
     tx_rate_limiter_metadata = \<lparr>limiter_tokens = 1, limiter_interval = 1, limiter_burst = 1\<rparr>\<rparr>"

definition solicited_example :: TransactionMetadata where
  "solicited_example = (new_TransactionMetadata 0 kPull kInitiator)\<lparr>request_length := Some 60\<rparr>"

definition solicited_connection :: ConnectionTransactions where
  "solicited_connection = \<lparr>cs_scid = 1, tx_transaction_metadata =
       \<lparr>base_request_sequence_number = 0, next_request_sequence_number = 1,
        current_solicitation_sequence_number = 0\<rparr>,
     transactions = [mk_key 0 kInitiator \<mapsto> solicited_example]\<rparr>"

lemma window_example_reached: "\<exists>m. window_reach window_example m [60]"
proof -
  obtain m where m: "new_AdmissionControlManager window_example = Some m"
    and w: "window_admission_control_state m = Some \<lparr>admission_window_bytes = 100,
      solicited_data_bytes = 0\<rparr>"
    by (simp add: init_defs window_example_def)
  have t: "MeetsAdmissionControlCriteria_length window_example 0 80 kPullRequest m = Some (m, True)"
    using w by (simp add: meets_defs window_example_def solicits_def)
  let ?conns = "[1 \<mapsto> solicited_connection] :: u32 \<rightharpoonup> ConnectionTransactions"
  have len: "request_length solicited_example = Some 60"
    by (simp add: solicited_example_def)
  have lookup: "transactions solicited_connection (mk_key 0 kInitiator) = Some solicited_example"
    by (simp add: solicited_connection_def)
  have "\<exists>m2 conns'. ReserveAdmissionControlResource window_example ZeroDuration ?conns 1 0 kPullRequest m
      = Some (m2, conns', OkStatus)"
    using w len lookup
    by (simp add: ReserveAdmissionControlResource_def GetTransaction_def reserve_by_policy_def
        ReserveRxWindowBasedAdmissionResources_def solicits_def window_example_def)
  then obtain m2 conns' where r: "ReserveAdmissionControlResource window_example ZeroDuration ?conns 1 0
      kPullRequest m = Some (m2, conns', OkStatus)" by blast
  have "window_reach window_example m2 (if solicits kPullRequest then 60 # [] else [])"
    by (rule window_reach.reserve [OF window_reach.start [OF m] t _ _ lookup len _ r refl]) simp_all
  then show ?thesis by (auto simp: solicits_def)
qed

lemma window_never_overcommitted_witness:
  "\<exists>m. MeetsRxWindowBasedAdmissionCriteria 40 kPullRequest m = Some (m, True)
     \<and> MeetsRxWindowBasedAdmissionCriteria 41 kPullRequest m = Some (m, False)"
proof -
  obtain m where m: "window_reach window_example m [60]" using window_example_reached by blast
  have p: "window_policy (admission_control_policy window_example)"
    by (simp add: window_policy_def window_example_def)
  show ?thesis
    using window_never_overcommitted [OF m p, of 40] window_never_overcommitted [OF m p, of 41]
    by (auto simp: window_example_def)
qed

end
