(* ===== verification/Weighted_Round_Robin.thy ===== *)
theory Weighted_Round_Robin
  imports Round_Robin
begin

text \<open>
  \<open>host/falcon/weighted_round_robin_policy.h\<close>: deficit-based weighted round robin. A round gives
  every entity its weight in credits and is made of sub-rounds in which each active entity with
  credits is served once.

  The four \<open>btree_set\<close>s are sorted lists without duplicates; the hash map of metadata is a list
  sorted by entity, which fixes an order for loops that do not depend on it. The weight fetcher is an
  argument of the operations that call it, \<open>None\<close> for the null function. A missing entry of the
  metadata and a failed \<open>CHECK\<close> are \<open>None\<close>.

  The lemmas reduce every operation to its effect on the metadata, of which the four sets are a
  function; from this follow the consistency of the sets, the absence of crashes, that no active work
  is lost, and the weighted shares.
\<close>

section \<open>State\<close>

datatype EntityState = kIdle | kEligible | kWaiting | kWaitingGoingIdle

record EntityMetadata =
  em_state :: EntityState
  em_weight :: int
  remaining_credits :: int
  round_number :: int

record 'e Wrr =
  wrr_idle :: "'e list"
  wrr_eligible :: "'e list"
  wrr_waiting :: "'e list"
  wrr_waiting_going_idle :: "'e list"
  wrr_metadata :: "('e \<times> EntityMetadata) list"
  global_round_number :: int
  global_credits_remaining :: int
  wrr_batched :: bool
  wrr_enforce_order :: bool
  last_serviced_entity :: "'e option"

definition new_Wrr :: "bool \<Rightarrow> bool \<Rightarrow> 'e Wrr" where
  "new_Wrr batched enforce_order = \<lparr>wrr_idle = [], wrr_eligible = [], wrr_waiting = [],
     wrr_waiting_going_idle = [], wrr_metadata = [], global_round_number = 0,
     global_credits_remaining = 0, wrr_batched = batched, wrr_enforce_order = enforce_order,
     last_serviced_entity = None\<rparr>"

abbreviation wrr_md :: "'e Wrr \<Rightarrow> 'e \<Rightarrow> EntityMetadata option" where
  "wrr_md s e \<equiv> map_of (wrr_metadata s) e"

definition put_md :: "'e::linorder \<Rightarrow> EntityMetadata \<Rightarrow> 'e Wrr \<Rightarrow> 'e Wrr" where
  "put_md e md s = s\<lparr>wrr_metadata := bt_set e md (wrr_metadata s)\<rparr>"

section \<open>Operations\<close>

definition wrr_InitializeEntity ::
    "('e \<Rightarrow> int) option \<Rightarrow> 'e::linorder \<Rightarrow> 'e Wrr \<Rightarrow> 'e Wrr \<times> status" where
  "wrr_InitializeEntity fetch e s =
     (if wrr_md s e \<noteq> None then (s, InvalidArgumentError)
      else ((put_md e \<lparr>em_state = kIdle, em_weight = (case fetch of Some f \<Rightarrow> f e | None \<Rightarrow> 1),
                       remaining_credits = 0, round_number = - 1\<rparr> s)
              \<lparr>wrr_idle := insort_insert e (wrr_idle s), last_serviced_entity := Some e\<rparr>, OkStatus))"

definition wrr_DeleteEntity :: "'e::linorder \<Rightarrow> 'e Wrr \<Rightarrow> 'e Wrr \<times> status" where
  "wrr_DeleteEntity e s =
     (case wrr_md s e of
        None \<Rightarrow> (s, InvalidArgumentError)
      | Some md \<Rightarrow>
          ((case em_state md of
              kIdle \<Rightarrow> s\<lparr>wrr_idle := removeAll e (wrr_idle s)\<rparr>
            | kEligible \<Rightarrow> s\<lparr>wrr_eligible := removeAll e (wrr_eligible s)\<rparr>
            | kWaiting \<Rightarrow> s\<lparr>wrr_waiting := removeAll e (wrr_waiting s)\<rparr>
            | kWaitingGoingIdle \<Rightarrow>
                s\<lparr>wrr_waiting_going_idle := removeAll e (wrr_waiting_going_idle s)\<rparr>)
             \<lparr>wrr_metadata := bt_erase e (wrr_metadata s)\<rparr>, OkStatus))"

definition IsActive :: "'e Wrr \<Rightarrow> 'e \<Rightarrow> bool" where
  "IsActive s e \<longleftrightarrow> e \<in> set (wrr_eligible s) \<or> e \<in> set (wrr_waiting s)"

definition MarkEntityActive :: "'e::linorder \<Rightarrow> 'e Wrr \<Rightarrow> ('e Wrr \<times> bool) option" where
  "MarkEntityActive e s = do {
     md \<leftarrow> wrr_md s e;
     Some (case em_state md of
       kEligible \<Rightarrow> (s, False)
     | kWaiting \<Rightarrow> (s, False)
     | kIdle \<Rightarrow>
         (let md1 = (if round_number md < global_round_number s
                then md\<lparr>remaining_credits := em_weight md, round_number := global_round_number s\<rparr>
                else md)
          in if remaining_credits md1 = 0
             then ((put_md e (md1\<lparr>em_state := kWaiting\<rparr>) s)
                     \<lparr>wrr_waiting := insort_insert e (wrr_waiting s),
                      wrr_idle := removeAll e (wrr_idle s)\<rparr>, True)
             else ((put_md e (md1\<lparr>em_state := kEligible\<rparr>) s)
                     \<lparr>wrr_eligible := insort_insert e (wrr_eligible s),
                      wrr_idle := removeAll e (wrr_idle s)\<rparr>, True))
     | kWaitingGoingIdle \<Rightarrow>
         ((put_md e (md\<lparr>em_state := kWaiting\<rparr>) s)
            \<lparr>wrr_waiting := insort_insert e (wrr_waiting s),
             wrr_waiting_going_idle := removeAll e (wrr_waiting_going_idle s)\<rparr>, True))
   }"

definition MarkEntityInactive :: "'e::linorder \<Rightarrow> 'e Wrr \<Rightarrow> ('e Wrr \<times> bool) option" where
  "MarkEntityInactive e s = do {
     md \<leftarrow> wrr_md s e;
     Some (case em_state md of
       kIdle \<Rightarrow> (s, False)
     | kWaitingGoingIdle \<Rightarrow> (s, False)
     | kEligible \<Rightarrow>
         ((put_md e (md\<lparr>em_state := kIdle\<rparr>) s)
            \<lparr>wrr_idle := insort_insert e (wrr_idle s),
             wrr_eligible := removeAll e (wrr_eligible s)\<rparr>, True)
     | kWaiting \<Rightarrow>
         ((put_md e (md\<lparr>em_state := kWaitingGoingIdle\<rparr>) s)
            \<lparr>wrr_waiting_going_idle := insort_insert e (wrr_waiting_going_idle s),
             wrr_waiting := removeAll e (wrr_waiting s)\<rparr>, True))
   }"

text \<open>The loops over a set run over its elements at the start, of which they erase the current one.\<close>

fun each :: "('e \<Rightarrow> 's \<Rightarrow> 's option) \<Rightarrow> 'e list \<Rightarrow> 's \<Rightarrow> 's option" where
  "each f [] s = Some s"
| "each f (e # es) s = do { s1 \<leftarrow> f e s; each f es s1 }"

definition wake :: "'e::linorder \<Rightarrow> 'e Wrr \<Rightarrow> 'e Wrr option" where
  "wake e s = do {
     md \<leftarrow> wrr_md s e;
     Some (if remaining_credits md > 0
           then (put_md e (md\<lparr>em_state := kEligible\<rparr>) s)
                  \<lparr>wrr_eligible := insort_insert e (wrr_eligible s),
                   wrr_waiting := removeAll e (wrr_waiting s)\<rparr>
           else s)
   }"

definition settle :: "'e::linorder \<Rightarrow> 'e Wrr \<Rightarrow> 'e Wrr option" where
  "settle e s = do {
     md \<leftarrow> wrr_md s e;
     Some ((put_md e (md\<lparr>em_state := kIdle\<rparr>) s)\<lparr>wrr_idle := insort_insert e (wrr_idle s)\<rparr>)
   }"

definition settle_all :: "'e::linorder Wrr \<Rightarrow> 'e Wrr option" where
  "settle_all s = do {
     s1 \<leftarrow> each settle (wrr_waiting_going_idle s) s;
     Some (s1\<lparr>wrr_waiting_going_idle := []\<rparr>)
   }"

definition StartSubRound :: "'e::linorder Wrr \<Rightarrow> 'e Wrr option" where
  "StartSubRound s = do {
     s1 \<leftarrow> each wake (wrr_waiting s) s;
     settle_all s1
   }"

definition IsRoundOver :: "'e::linorder Wrr \<Rightarrow> ('e Wrr \<times> bool) option" where
  "IsRoundOver s =
     (if global_credits_remaining s = 0 then Some (s, True)
      else if wrr_eligible s \<noteq> [] then Some (s, False)
      else if wrr_waiting s = [] then Some (s, True)
      else do {
        s1 \<leftarrow> StartSubRound s;
        Some (s1, wrr_eligible s1 = [])
      })"

definition renew_eligible :: "'e::linorder \<Rightarrow> 'e Wrr \<Rightarrow> 'e Wrr option" where
  "renew_eligible e s = do {
     md \<leftarrow> wrr_md s e;
     let md1 = md\<lparr>remaining_credits := em_weight md, round_number := global_round_number s\<rparr>;
     Some (if em_weight md \<le> 0
           then (put_md e (md1\<lparr>em_state := kWaiting\<rparr>) s)
                  \<lparr>wrr_waiting := insort_insert e (wrr_waiting s),
                   wrr_eligible := removeAll e (wrr_eligible s)\<rparr>
           else put_md e md1 s)
   }"

definition renew_waiting :: "'e::linorder \<Rightarrow> 'e Wrr \<Rightarrow> 'e Wrr option" where
  "renew_waiting e s = do {
     md \<leftarrow> wrr_md s e;
     let md1 = md\<lparr>remaining_credits := em_weight md, round_number := global_round_number s\<rparr>;
     Some (if em_weight md > 0
           then (put_md e (md1\<lparr>em_state := kEligible\<rparr>) s)
                  \<lparr>wrr_eligible := insort_insert e (wrr_eligible s),
                   wrr_waiting := removeAll e (wrr_waiting s)\<rparr>
           else put_md e md1 s)
   }"

definition fetch_weights :: "('e \<Rightarrow> int) option \<Rightarrow> 'e Wrr \<Rightarrow> 'e Wrr" where
  "fetch_weights fetch s =
     (case fetch of
        Some f \<Rightarrow> s\<lparr>wrr_metadata := map (\<lambda>(e, md). (e, md\<lparr>em_weight := f e\<rparr>)) (wrr_metadata s),
                   global_credits_remaining := sum_list (map (\<lambda>(e, md). f e) (wrr_metadata s))\<rparr>
      | None \<Rightarrow> s\<lparr>global_credits_remaining := int (length (wrr_metadata s))\<rparr>)"

definition ResetAndRestartRound :: "('e \<Rightarrow> int) option \<Rightarrow> 'e::linorder Wrr \<Rightarrow> 'e Wrr option" where
  "ResetAndRestartRound fetch s = do {
     let s1 = fetch_weights fetch s;
     let s2 = s1\<lparr>global_round_number := global_round_number s1 + 1\<rparr>;
     s3 \<leftarrow> each renew_eligible (wrr_eligible s2) s2;
     s4 \<leftarrow> each renew_waiting (wrr_waiting s3) s3;
     settle_all s4
   }"

definition wrr_HasWork :: "('e \<Rightarrow> int) option \<Rightarrow> 'e::linorder Wrr \<Rightarrow> ('e Wrr \<times> bool) option" where
  "wrr_HasWork fetch s = do {
     (s1, over) \<leftarrow> IsRoundOver s;
     (if over then do {
        s2 \<leftarrow> ResetAndRestartRound fetch s1;
        Some (s2, wrr_eligible s2 \<noteq> [])
      } else Some (s1, True))
   }"

text \<open>The entity after the one served last, in the order of the set, when the order is enforced.\<close>

definition next_eligible :: "'e::linorder Wrr \<Rightarrow> 'e option" where
  "next_eligible s =
     (if wrr_enforce_order s then do {
        l \<leftarrow> last_serviced_entity s;
        Some (case filter (\<lambda>e. l < e) (wrr_eligible s) of
            [] \<Rightarrow> hd (wrr_eligible s)
          | e # _ \<Rightarrow> e)
      } else Some (hd (wrr_eligible s)))"

definition take_credit :: "'e::linorder \<Rightarrow> 'e Wrr \<Rightarrow> 'e Wrr option" where
  "take_credit e s = do {
     md \<leftarrow> wrr_md s e;
     check (remaining_credits md > 0);
     check (global_credits_remaining s > 0);
     let md1 = md\<lparr>remaining_credits := remaining_credits md - 1\<rparr>;
     let s1 = (if wrr_enforce_order s then s\<lparr>last_serviced_entity := Some e\<rparr> else s)
                \<lparr>global_credits_remaining := global_credits_remaining s - 1\<rparr>;
     Some (if \<not> wrr_batched s \<or> remaining_credits md1 = 0
           then (put_md e (md1\<lparr>em_state := kWaiting\<rparr>) s1)
                  \<lparr>wrr_eligible := removeAll e (wrr_eligible s),
                   wrr_waiting := insort_insert e (wrr_waiting s)\<rparr>
           else put_md e md1 s1)
   }"

definition GetNextEntity ::
    "('e \<Rightarrow> int) option \<Rightarrow> 'e::linorder Wrr \<Rightarrow> ('e Wrr \<times> (status + 'e)) option" where
  "GetNextEntity fetch s =
     (if wrr_eligible s = [] \<and> wrr_waiting s = [] then Some (s, Inl UnavailableError)
      else do {
        (s1, over) \<leftarrow> IsRoundOver s;
        s2 \<leftarrow> (if over then ResetAndRestartRound fetch s1 else Some s1);
        (if wrr_eligible s2 = [] then Some (s2, Inl UnavailableError)
         else do {
           e \<leftarrow> next_eligible s2;
           s3 \<leftarrow> take_credit e s2;
           Some (s3, Inr e)
         })
      })"

definition SanityCheck :: "'e Wrr \<Rightarrow> bool" where
  "SanityCheck s \<longleftrightarrow> (\<forall>(e, md) \<in> set (wrr_metadata s).
     (e \<in> set (wrr_idle s) \<longleftrightarrow> em_state md = kIdle) \<and>
     (e \<in> set (wrr_eligible s) \<longleftrightarrow> em_state md = kEligible) \<and>
     (e \<in> set (wrr_waiting s) \<longleftrightarrow> em_state md = kWaiting) \<and>
     (e \<in> set (wrr_waiting_going_idle s) \<longleftrightarrow> em_state md = kWaitingGoingIdle))"


section \<open>The sets are a function of the metadata\<close>

definition in_state :: "EntityState \<Rightarrow> ('e \<times> EntityMetadata) list \<Rightarrow> 'e list" where
  "in_state st m = map fst (filter (\<lambda>(e, md). em_state md = st) m)"

definition mapmd ::
    "('e \<Rightarrow> EntityMetadata \<Rightarrow> EntityMetadata) \<Rightarrow> ('e \<times> EntityMetadata) list \<Rightarrow>
     ('e \<times> EntityMetadata) list" where
  "mapmd f m = map (\<lambda>(e, md). (e, f e md)) m"

definition remeta :: "('e \<times> EntityMetadata) list \<Rightarrow> 'e Wrr \<Rightarrow> 'e Wrr" where
  "remeta m s = s\<lparr>wrr_idle := in_state kIdle m, wrr_eligible := in_state kEligible m,
     wrr_waiting := in_state kWaiting m, wrr_waiting_going_idle := in_state kWaitingGoingIdle m,
     wrr_metadata := m\<rparr>"

definition matched :: "'e::linorder Wrr \<Rightarrow> bool" where
  "matched s \<longleftrightarrow> bt_wf (wrr_metadata s) \<and> remeta (wrr_metadata s) s = s"

lemma remeta_sel [simp]:
  "wrr_idle (remeta m s) = in_state kIdle m" "wrr_eligible (remeta m s) = in_state kEligible m"
  "wrr_waiting (remeta m s) = in_state kWaiting m"
  "wrr_waiting_going_idle (remeta m s) = in_state kWaitingGoingIdle m"
  "wrr_metadata (remeta m s) = m" "global_round_number (remeta m s) = global_round_number s"
  "global_credits_remaining (remeta m s) = global_credits_remaining s"
  "wrr_batched (remeta m s) = wrr_batched s" "wrr_enforce_order (remeta m s) = wrr_enforce_order s"
  "last_serviced_entity (remeta m s) = last_serviced_entity s"
  "remeta m' (remeta m s) = remeta m' s"
  by (simp_all add: remeta_def)

lemma matched_remeta [simp]: "matched (remeta m s) \<longleftrightarrow> bt_wf m"
  by (simp add: matched_def)

lemma matched_sets:
  assumes "matched s"
  shows "wrr_idle s = in_state kIdle (wrr_metadata s)"
    "wrr_eligible s = in_state kEligible (wrr_metadata s)"
    "wrr_waiting s = in_state kWaiting (wrr_metadata s)"
    "wrr_waiting_going_idle s = in_state kWaitingGoingIdle (wrr_metadata s)"
  using assms unfolding matched_def by (metis remeta_sel)+

lemma map_of_mapmd [simp]: "map_of (mapmd f m) e = map_option (f e) (map_of m e)"
  by (induction m) (auto simp: mapmd_def)

lemma fst_mapmd [simp]: "map fst (mapmd f m) = map fst m"
  by (simp add: mapmd_def case_prod_unfold comp_def)

lemma bt_wf_mapmd [simp]: "bt_wf (mapmd f m) = bt_wf m"
  by (simp add: bt_wf_def)

lemma mapmd_Nil_iff [simp]: "mapmd f m = [] \<longleftrightarrow> m = []"
  by (simp add: mapmd_def)

lemma mapmd_mapmd [simp]: "mapmd f (mapmd g m) = mapmd (\<lambda>e md. f e (g e md)) m"
  by (simp add: mapmd_def case_prod_unfold comp_def)

lemma mapmd_cong:
  "(\<And>e md. map_of m e = Some md \<Longrightarrow> f e md = g e md) \<Longrightarrow> bt_wf m \<Longrightarrow> mapmd f m = mapmd g m"
  by (auto simp: mapmd_def dest!: bt_wf_distinct)

lemma set_in_state:
  "bt_wf m \<Longrightarrow> set (in_state st m) = {e. \<exists>md. map_of m e = Some md \<and> em_state md = st}"
  by (force simp: in_state_def dest!: bt_wf_distinct dest: map_of_SomeD)

lemma strict_in_state: "bt_wf m \<Longrightarrow> sorted_wrt (<) (in_state st m)"
  by (induction m) (force simp: in_state_def)+

lemma in_state_bt_set:
  assumes "bt_wf m"
  shows "in_state st (bt_set e md m)
    = (if em_state md = st then insort_insert e (in_state st m) else removeAll e (in_state st m))"
proof -
  have l: "sorted_wrt (<) (in_state st (bt_set e md m))"
    using assms by (intro strict_in_state) simp
  have r: "sorted_wrt (<) (insort_insert e (in_state st m))"
    using strict_in_state [OF assms, of st]
    by (simp add: strict_sorted_iff sorted_insort_insert distinct_insort_insert)
  have d: "sorted_wrt (<) (removeAll e (in_state st m))"
    using strict_in_state [OF assms, of st]
    by (simp add: removeAll_filter_not_eq sorted_wrt_filter)
  show ?thesis
    using assms l r d
    by (auto simp: set_in_state set_insort_insert split: if_splits intro!: strict_sorted_equal)
qed

lemma bt_set_mapmd:
  "bt_wf m \<Longrightarrow> map_of m e = Some md \<Longrightarrow>
     bt_set e (g md) m = mapmd (\<lambda>e' md'. if e' = e then g md' else md') m"
proof (induction m)
  case (Cons x m)
  obtain k v where x: "x = (k, v)" by force
  have "mapmd (\<lambda>e' md'. if e' = k then g md' else md') m = m"
    using Cons.prems x by (auto simp: mapmd_def intro!: map_idI)
  moreover have "\<not> e < k" if "e \<noteq> k"
    using that Cons.prems bt_find_head_min [of k v m e md] by (simp add: x)
  ultimately show ?case
    using Cons x by (auto simp: mapmd_def)
qed simp

text \<open>A loop whose body changes the metadata of the current entity.\<close>

lemma each_metadata:
  assumes step: "\<And>m e md. bt_wf m \<Longrightarrow> map_of m e = Some md \<Longrightarrow> P md \<Longrightarrow>
      f e (v m) = Some (v (bt_set e (g md) m))"
  shows "bt_wf m \<Longrightarrow> distinct es \<Longrightarrow> \<forall>e \<in> set es. \<exists>md. map_of m e = Some md \<and> P md \<Longrightarrow>
    each f es (v m) = Some (v (mapmd (\<lambda>e md. if e \<in> set es then g md else md) m))"
proof (induction es arbitrary: m)
  case Nil
  have "mapmd (\<lambda>e md. md) m = m" by (simp add: mapmd_def)
  then show ?case by simp
next
  case (Cons e es)
  obtain md where md: "map_of m e = Some md" "P md" using Cons.prems(3) by auto
  let ?m = "mapmd (\<lambda>e' md'. if e' = e then g md' else md') m"
  have "f e (v m) = Some (v ?m)"
    using step [OF Cons.prems(1) md] bt_set_mapmd [OF Cons.prems(1) md(1)] by metis
  moreover have "each f es (v ?m) = Some (v (mapmd (\<lambda>e md. if e \<in> set es then g md else md) ?m))"
  proof (intro Cons.IH)
    have "map_of ?m e' = map_of m e'" if "e' \<in> set es" for e'
      using that Cons.prems(2) by (cases "map_of m e'") auto
    then show "\<forall>e \<in> set es. \<exists>md. map_of ?m e = Some md \<and> P md"
      using Cons.prems(3) by simp
  qed (use Cons.prems in auto)
  moreover have "mapmd (\<lambda>e md. if e \<in> set es then g md else md) ?m
      = mapmd (\<lambda>e' md. if e' \<in> set (e # es) then g md else md) m"
    using Cons.prems by (auto intro!: mapmd_cong)
  ultimately show ?case by simp
qed

lemma each_state:
  assumes step: "\<And>m e md. bt_wf m \<Longrightarrow> map_of m e = Some md \<Longrightarrow> em_state md = st \<Longrightarrow>
      f e (v m) = Some (v (bt_set e (g md) m))" and "bt_wf m"
  shows "each f (in_state st m) (v m) = Some (v (mapmd (\<lambda>e md. if em_state md = st then g md else md) m))"
proof -
  have "distinct (in_state st m)" using strict_in_state [OF assms(2)] by (simp add: strict_sorted_iff)
  moreover have "\<forall>e \<in> set (in_state st m). \<exists>md. map_of m e = Some md \<and> em_state md = st"
    using set_in_state [OF assms(2)] by auto
  ultimately have "each f (in_state st m) (v m)
      = Some (v (mapmd (\<lambda>e md. if e \<in> set (in_state st m) then g md else md) m))"
    by (intro each_metadata [where P = "\<lambda>md. em_state md = st"] step assms(2))
  also have "mapmd (\<lambda>e md. if e \<in> set (in_state st m) then g md else md) m
      = mapmd (\<lambda>e md. if em_state md = st then g md else md) m"
    using assms(2) by (intro mapmd_cong) (auto simp: set_in_state)
  finally show ?thesis .
qed


lemma in_state_move:
  assumes "bt_wf m" "map_of m e = Some md"
  shows "in_state st (bt_set e md' m) =
    (if em_state md' = st then (if em_state md = st then in_state st m else insort_insert e (in_state st m))
     else if em_state md = st then removeAll e (in_state st m) else in_state st m)"
proof -
  have "e \<in> set (in_state st m) \<longleftrightarrow> em_state md = st"
    using assms by (simp add: set_in_state)
  then show ?thesis
    using assms by (auto simp: in_state_bt_set insort_insert_triv removeAll_id)
qed

lemma bt_set_same:
  "bt_wf m \<Longrightarrow> map_of m e = Some md \<Longrightarrow> bt_set e md m = (m :: ('e::linorder \<times> EntityMetadata) list)"
  using bt_set_mapmd [of m e md "\<lambda>x. x"] by (simp add: mapmd_def)

section \<open>The operations on the metadata\<close>

fun activated :: "int \<Rightarrow> EntityMetadata \<Rightarrow> EntityMetadata" where
  "activated r md = (case em_state md of
       kIdle \<Rightarrow> (let md1 = (if round_number md < r
                  then md\<lparr>remaining_credits := em_weight md, round_number := r\<rparr> else md)
                in md1\<lparr>em_state := if remaining_credits md1 = 0 then kWaiting else kEligible\<rparr>)
     | kWaitingGoingIdle \<Rightarrow> md\<lparr>em_state := kWaiting\<rparr>
     | _ \<Rightarrow> md)"

fun deactivated :: "EntityMetadata \<Rightarrow> EntityMetadata" where
  "deactivated md = (case em_state md of
       kEligible \<Rightarrow> md\<lparr>em_state := kIdle\<rparr>
     | kWaiting \<Rightarrow> md\<lparr>em_state := kWaitingGoingIdle\<rparr>
     | _ \<Rightarrow> md)"

definition settled_md :: "EntityMetadata \<Rightarrow> EntityMetadata" where
  "settled_md md = (if em_state md = kWaitingGoingIdle then md\<lparr>em_state := kIdle\<rparr> else md)"

definition woken :: "EntityMetadata \<Rightarrow> EntityMetadata" where
  "woken md = (if em_state md = kWaiting \<and> remaining_credits md > 0 then md\<lparr>em_state := kEligible\<rparr>
     else md)"

definition renewed :: "int \<Rightarrow> EntityMetadata \<Rightarrow> EntityMetadata" where
  "renewed r md = (if em_state md = kEligible \<or> em_state md = kWaiting
     then md\<lparr>remaining_credits := em_weight md, round_number := r,
             em_state := if em_weight md > 0 then kEligible else kWaiting\<rparr>
     else md)"

lemmas mark_simps = in_state_move put_md_def remeta_def matched_def

lemma MarkEntityActive_remeta:
  assumes "matched s" "wrr_md s e = Some md"
  shows "MarkEntityActive e s = Some (remeta (bt_set e (activated (global_round_number s) md)
      (wrr_metadata s)) s, em_state md = kIdle \<or> em_state md = kWaitingGoingIdle)"
  using assms
  by (cases s) (auto simp: MarkEntityActive_def mark_simps bt_set_same Let_def split: EntityState.splits)

lemma MarkEntityInactive_remeta:
  assumes "matched s" "wrr_md s e = Some md"
  shows "MarkEntityInactive e s = Some (remeta (bt_set e (deactivated md) (wrr_metadata s)) s,
      em_state md = kEligible \<or> em_state md = kWaiting)"
  using assms
  by (cases s) (auto simp: MarkEntityInactive_def mark_simps bt_set_same split: EntityState.splits)

lemma settled_eq:
  "(\<lambda>e md. if em_state md = kWaitingGoingIdle then md\<lparr>em_state := kIdle\<rparr> else md) = (\<lambda>_. settled_md)"
  by (simp add: fun_eq_iff settled_md_def)

lemma no_going_idle:
  assumes "bt_wf m"
  shows "in_state kWaitingGoingIdle (mapmd (\<lambda>_. settled_md) m) = []"
proof -
  have "set (in_state kWaitingGoingIdle (mapmd (\<lambda>_. settled_md) m)) = {}"
    using assms by (auto simp: set_in_state settled_md_def split: if_splits)
  then show ?thesis by simp
qed

lemma settle_all_remeta:
  assumes "bt_wf m"
  shows "settle_all (remeta m s) = Some (remeta (mapmd (\<lambda>_. settled_md) m) s)"
proof -
  let ?w = "in_state kWaitingGoingIdle m"
  let ?v = "\<lambda>m. (remeta m s)\<lparr>wrr_waiting_going_idle := ?w\<rparr>"
  let ?m = "mapmd (\<lambda>_. settled_md) m"
  have "each settle ?w (?v m)
      = Some (?v (mapmd (\<lambda>e md. if em_state md = kWaitingGoingIdle then md\<lparr>em_state := kIdle\<rparr> else md) m))"
    by (rule each_state [OF _ assms])
      (auto simp: settle_def put_md_def remeta_def in_state_move)
  then have loop: "each settle ?w (?v m) = Some (?v ?m)"
    unfolding settled_eq .
  have v: "?v m = remeta m s" by (simp add: remeta_def)
  have w: "(?v ?m)\<lparr>wrr_waiting_going_idle := []\<rparr> = remeta ?m s"
    unfolding remeta_def using no_going_idle [OF assms] by simp
  show ?thesis
    unfolding settle_all_def remeta_sel loop [unfolded v] bind.bind_lunit w ..
qed

lemma StartSubRound_remeta:
  assumes "bt_wf m"
  shows "StartSubRound (remeta m s) = Some (remeta (mapmd (\<lambda>_ md. settled_md (woken md)) m) s)"
proof -
  have "each wake (in_state kWaiting m) (remeta m s)
      = Some (remeta (mapmd (\<lambda>e md. if em_state md = kWaiting
          then (if remaining_credits md > 0 then md\<lparr>em_state := kEligible\<rparr> else md) else md) m) s)"
    by (rule each_state [OF _ assms])
      (auto simp: wake_def put_md_def remeta_def in_state_move bt_set_same)
  moreover have "mapmd (\<lambda>e md. if em_state md = kWaiting
          then (if remaining_credits md > 0 then md\<lparr>em_state := kEligible\<rparr> else md) else md) m
      = mapmd (\<lambda>_. woken) m"
    by (rule mapmd_cong [OF _ assms]) (simp add: woken_def)
  ultimately show ?thesis
    by (simp add: StartSubRound_def settle_all_remeta assms)
qed

definition fetched :: "('e \<Rightarrow> int) option \<Rightarrow> 'e \<Rightarrow> EntityMetadata \<Rightarrow> EntityMetadata" where
  "fetched fetch e md = (case fetch of Some f \<Rightarrow> md\<lparr>em_weight := f e\<rparr> | None \<Rightarrow> md)"

definition round_credits :: "('e \<Rightarrow> int) option \<Rightarrow> ('e \<times> EntityMetadata) list \<Rightarrow> int" where
  "round_credits fetch m = (case fetch of
     Some f \<Rightarrow> sum_list (map (\<lambda>(e, md). f e) m) | None \<Rightarrow> int (length m))"

lemma in_state_mapmd:
  assumes "\<And>e md. em_state (f e md) = em_state md"
  shows "in_state st (mapmd f m) = in_state st m"
  unfolding in_state_def mapmd_def by (simp add: filter_map comp_def case_prod_unfold assms)

lemma fetched_sel [simp]:
  "em_state (fetched fetch e md) = em_state md"
  "remaining_credits (fetched fetch e md) = remaining_credits md"
  "round_number (fetched fetch e md) = round_number md"
  by (cases fetch; simp add: fetched_def)+

lemma in_state_fetched [simp]: "in_state st (mapmd (fetched fetch) m) = in_state st m"
  by (simp add: in_state_mapmd)

lemma fetched_None: "mapmd (fetched None) m = m"
  by (simp add: mapmd_def fetched_def)

lemma fetched_Some: "map (\<lambda>(e, md). (e, md\<lparr>em_weight := f e\<rparr>)) m = mapmd (fetched (Some f)) m"
  by (simp add: mapmd_def fetched_def)

lemma remeta_fetched:
  "(remeta m s)\<lparr>wrr_metadata := mapmd (fetched fetch) m, global_credits_remaining := n\<rparr>
     = (remeta (mapmd (fetched fetch) m) s)\<lparr>global_credits_remaining := n\<rparr>"
  by (simp add: remeta_def)

lemma fetch_weights_remeta:
  "fetch_weights fetch (remeta m s) = (remeta (mapmd (fetched fetch) m) s)
     \<lparr>global_credits_remaining := round_credits fetch m\<rparr>"
proof (cases fetch)
  case None
  show ?thesis
    unfolding None fetch_weights_def option.case round_credits_def fetched_None remeta_sel ..
next
  case (Some f)
  show ?thesis
    unfolding Some fetch_weights_def option.case round_credits_def remeta_sel fetched_Some
    by (rule remeta_fetched)
qed

lemma ResetAndRestartRound_remeta:
  assumes "bt_wf m"
  shows "ResetAndRestartRound fetch (remeta m s) = Some (remeta
      (mapmd (\<lambda>e md. settled_md (renewed (global_round_number s + 1) (fetched fetch e md))) m)
      (s\<lparr>global_round_number := global_round_number s + 1,
         global_credits_remaining := round_credits fetch m\<rparr>))"
proof -
  let ?r = "global_round_number s + 1"
  let ?s = "s\<lparr>global_round_number := ?r, global_credits_remaining := round_credits fetch m\<rparr>"
  let ?m1 = "mapmd (fetched fetch) m"
  let ?g = "\<lambda>md. md\<lparr>remaining_credits := em_weight md, round_number := ?r\<rparr>"
  let ?e = "\<lambda>md. if em_weight md \<le> 0 then (?g md)\<lparr>em_state := kWaiting\<rparr> else ?g md"
  let ?w = "\<lambda>md. if em_weight md > 0 then (?g md)\<lparr>em_state := kEligible\<rparr> else ?g md"
  let ?m2 = "mapmd (\<lambda>e md. if em_state md = kEligible then ?e md else md) ?m1"
  let ?m3 = "mapmd (\<lambda>e md. if em_state md = kWaiting then ?w md else md) ?m2"
  have wf: "bt_wf ?m1" "bt_wf ?m2" using assms by simp_all
  have start: "(remeta ?m1 s)\<lparr>global_credits_remaining := round_credits fetch m,
      global_round_number := global_round_number ((remeta ?m1 s)
        \<lparr>global_credits_remaining := round_credits fetch m\<rparr>) + 1\<rparr> = remeta ?m1 ?s"
    by (simp add: remeta_def)
  have eligible: "each renew_eligible (in_state kEligible ?m1) (remeta ?m1 ?s) = Some (remeta ?m2 ?s)"
    by (rule each_state [OF _ wf(1)])
      (auto simp: renew_eligible_def put_md_def remeta_def in_state_move Let_def)
  have waiting: "each renew_waiting (in_state kWaiting ?m2) (remeta ?m2 ?s) = Some (remeta ?m3 ?s)"
    by (rule each_state [OF _ wf(2)])
      (auto simp: renew_waiting_def put_md_def remeta_def in_state_move Let_def)
  have m3: "?m3 = mapmd (\<lambda>e md. renewed ?r (fetched fetch e md)) m"
    unfolding mapmd_mapmd by (rule mapmd_cong [OF _ assms]) (auto simp: renewed_def)
  have "ResetAndRestartRound fetch (remeta m s) = settle_all (remeta ?m3 ?s)"
    unfolding ResetAndRestartRound_def fetch_weights_remeta Let_def
    by (simp only: start remeta_sel eligible waiting bind.bind_lunit)
  also have "\<dots> = settle_all (remeta (mapmd (\<lambda>e md. renewed ?r (fetched fetch e md)) m) ?s)"
    by (simp only: m3)
  finally show ?thesis using assms by (simp add: settle_all_remeta)
qed


section \<open>Invariant\<close>

text \<open>\<open>u\<close> says that there is no weight fetcher, so that all weights are one.\<close>

definition md_ok :: "bool \<Rightarrow> EntityMetadata \<Rightarrow> bool" where
  "md_ok u md \<longleftrightarrow> 0 \<le> em_weight md \<and> 0 \<le> remaining_credits md \<and>
     (em_state md = kEligible \<longrightarrow> 0 < remaining_credits md) \<and> (u \<longrightarrow> em_weight md = 1)"

definition wrr_inv :: "bool \<Rightarrow> 'e::linorder Wrr \<Rightarrow> bool" where
  "wrr_inv u s \<longleftrightarrow> matched s \<and> 0 \<le> global_credits_remaining s \<and>
     (\<forall>e md. wrr_md s e = Some md \<longrightarrow> md_ok u md) \<and>
     (wrr_enforce_order s \<and> wrr_metadata s \<noteq> [] \<longrightarrow> last_serviced_entity s \<noteq> None)"

definition fetch_ok :: "bool \<Rightarrow> ('e \<Rightarrow> int) option \<Rightarrow> bool" where
  "fetch_ok u fetch \<longleftrightarrow> (u \<longleftrightarrow> fetch = None) \<and> (\<forall>f. fetch = Some f \<longrightarrow> (\<forall>e. 0 \<le> f e))"

definition active_md :: "EntityMetadata \<Rightarrow> bool" where
  "active_md md \<longleftrightarrow> em_state md = kEligible \<or> em_state md = kWaiting"

definition weight_now :: "('e \<Rightarrow> int) option \<Rightarrow> 'e Wrr \<Rightarrow> 'e \<Rightarrow> int" where
  "weight_now fetch s e = (case fetch of Some f \<Rightarrow> f e
     | None \<Rightarrow> (case wrr_md s e of Some md \<Rightarrow> em_weight md | None \<Rightarrow> 0))"

lemma wrr_inv_matched: "wrr_inv u s \<Longrightarrow> matched s" by (simp add: wrr_inv_def)

lemma matched_wf: "matched s \<Longrightarrow> bt_wf (wrr_metadata s)" by (simp add: matched_def)

lemma matched_self: "matched s \<Longrightarrow> remeta (wrr_metadata s) s = s" by (simp add: matched_def)

lemma mem_sets:
  assumes "matched s"
  shows "e \<in> set (wrr_idle s) \<longleftrightarrow> (\<exists>md. wrr_md s e = Some md \<and> em_state md = kIdle)"
    "e \<in> set (wrr_eligible s) \<longleftrightarrow> (\<exists>md. wrr_md s e = Some md \<and> em_state md = kEligible)"
    "e \<in> set (wrr_waiting s) \<longleftrightarrow> (\<exists>md. wrr_md s e = Some md \<and> em_state md = kWaiting)"
    "e \<in> set (wrr_waiting_going_idle s)
       \<longleftrightarrow> (\<exists>md. wrr_md s e = Some md \<and> em_state md = kWaitingGoingIdle)"
  using set_in_state [OF matched_wf [OF assms]] by (simp_all add: matched_sets [OF assms])

lemma IsActive_md:
  "matched s \<Longrightarrow> IsActive s e \<longleftrightarrow> (\<exists>md. wrr_md s e = Some md \<and> active_md md)"
  by (auto simp: IsActive_def mem_sets active_md_def)

lemma wrr_inv_put:
  assumes "wrr_inv u s" "wrr_md s e = Some md" "md_ok u md'"
  shows "wrr_inv u (remeta (bt_set e md' (wrr_metadata s)) s)"
proof -
  have "wrr_metadata s \<noteq> []" using assms(2) by auto
  moreover have "bt_wf (wrr_metadata s)" using assms(1) by (simp add: wrr_inv_def matched_wf)
  ultimately show ?thesis
    using assms by (auto simp: wrr_inv_def)
qed

lemma md_ok_marks:
  "md_ok u md \<Longrightarrow> md_ok u (activated r md)" "md_ok u md \<Longrightarrow> md_ok u (deactivated md)"
  by (auto simp: md_ok_def Let_def split: EntityState.splits)

lemma wrr_inv_marks:
  assumes "wrr_inv u s" "wrr_md s e = Some md"
  shows "\<exists>s' b. MarkEntityActive e s = Some (s', b) \<and> wrr_inv u s'"
    "\<exists>s' b. MarkEntityInactive e s = Some (s', b) \<and> wrr_inv u s'"
  using assms wrr_inv_put [OF assms] md_ok_marks
    MarkEntityActive_remeta [OF wrr_inv_matched [OF assms(1)] assms(2)]
    MarkEntityInactive_remeta [OF wrr_inv_matched [OF assms(1)] assms(2)]
  by (metis wrr_inv_def)+

lemma md_ok_settled_woken: "md_ok u md \<Longrightarrow> md_ok u (settled_md (woken md))"
  by (cases md) (auto simp: md_ok_def settled_md_def woken_def)

lemma md_ok_fetched: "md_ok u md \<Longrightarrow> fetch_ok u fetch \<Longrightarrow> md_ok u (fetched fetch e md)"
  by (cases fetch) (auto simp: md_ok_def fetched_def fetch_ok_def)

lemma md_ok_renewed: "md_ok u md \<Longrightarrow> md_ok u (settled_md (renewed r md))"
  by (cases md) (auto simp: md_ok_def settled_md_def renewed_def)

lemma subround_spec:
  assumes "wrr_inv u s"
  shows "\<exists>s'. StartSubRound s = Some s' \<and> wrr_inv u s' \<and>
    global_credits_remaining s' = global_credits_remaining s \<and>
    wrr_enforce_order s' = wrr_enforce_order s \<and> wrr_batched s' = wrr_batched s \<and>
    wrr_metadata s' = mapmd (\<lambda>_ md. settled_md (woken md)) (wrr_metadata s)"
proof -
  let ?m = "mapmd (\<lambda>_ md. settled_md (woken md)) (wrr_metadata s)"
  have m: "matched s" using assms by (rule wrr_inv_matched)
  have "StartSubRound s = Some (remeta ?m s)"
    using StartSubRound_remeta [OF matched_wf [OF m], of s] by (simp add: matched_self [OF m])
  moreover have "wrr_inv u (remeta ?m s)"
    using assms matched_wf [OF m] by (auto simp: wrr_inv_def md_ok_settled_woken)
  ultimately show ?thesis by auto
qed

lemma active_settled_woken: "active_md (settled_md (woken md)) = active_md md"
  by (auto simp: active_md_def settled_md_def woken_def)

lemma IsActive_mapmd:
  assumes "matched s" "matched s'" "wrr_metadata s' = mapmd f (wrr_metadata s)"
    and "\<And>e md. active_md (f e md) = active_md md"
  shows "IsActive s' e = IsActive s e"
  using assms by (auto simp: IsActive_md)

lemma IsRoundOver_spec:
  assumes "wrr_inv u s"
  obtains s' over where "IsRoundOver s = Some (s', over)" "wrr_inv u s'"
    "\<not> over \<Longrightarrow> wrr_eligible s' \<noteq> [] \<and> 0 < global_credits_remaining s'"
    "\<And>e. IsActive s' e = IsActive s e" "\<And>e. weight_now fetch s' e = weight_now fetch s e"
proof (cases "global_credits_remaining s = 0 \<or> wrr_eligible s \<noteq> [] \<or> wrr_waiting s = []")
  case True
  then have "IsRoundOver s = Some (s, global_credits_remaining s = 0 \<or> wrr_eligible s = [])"
    by (auto simp: IsRoundOver_def)
  moreover have "0 \<le> global_credits_remaining s" using assms by (simp add: wrr_inv_def)
  ultimately show thesis using assms by (intro that [of s]) auto
next
  case False
  obtain s' where s': "StartSubRound s = Some s'" "wrr_inv u s'"
    "global_credits_remaining s' = global_credits_remaining s"
    "wrr_metadata s' = mapmd (\<lambda>_ md. settled_md (woken md)) (wrr_metadata s)"
    using subround_spec [OF assms] by auto
  have w: "weight_now fetch s' e = weight_now fetch s e" for e
    by (auto simp: weight_now_def s'(4) settled_md_def woken_def split: option.splits)
  have a: "IsActive s' e = IsActive s e" for e
    by (rule IsActive_mapmd [OF wrr_inv_matched [OF assms] wrr_inv_matched [OF s'(2)] s'(4)])
      (rule active_settled_woken)
  have "IsRoundOver s = Some (s', wrr_eligible s' = [])"
    using False s'(1) by (simp add: IsRoundOver_def)
  moreover have "0 < global_credits_remaining s'" using False s'(3) assms by (auto simp: wrr_inv_def)
  ultimately show thesis using s'(2) w a by (intro that [of s']) auto
qed

lemma sum_positive:
  "(\<And>e. 0 \<le> f e) \<Longrightarrow> map_of m e = Some md \<Longrightarrow> 0 < f e \<Longrightarrow> 0 < sum_list (map (\<lambda>(e, md). f e) m)" for f :: "'e \<Rightarrow> int"
proof (induction m)
  case (Cons x m)
  have "0 \<le> sum_list (map (\<lambda>(e, md). f e) m)"
    using Cons.prems(1) by (intro sum_list_nonneg) auto
  then show ?case
    using Cons by (cases x) (auto split: if_splits intro: add_pos_nonneg add_nonneg_pos)
qed simp

lemma round_credits_nonneg: "fetch_ok u fetch \<Longrightarrow> 0 \<le> round_credits fetch m"
  by (auto simp: round_credits_def fetch_ok_def split: option.splits intro!: sum_list_nonneg)

lemma round_credits_pos:
  assumes "fetch_ok u fetch" "map_of m e = Some md" "0 < em_weight (fetched fetch e md)"
  shows "0 < round_credits fetch m"
proof (cases fetch)
  case None
  have "m \<noteq> []" using assms(2) by auto
  with None show ?thesis by (simp add: round_credits_def)
next
  case (Some f)
  with assms sum_positive [of f m e md] show ?thesis
    by (simp add: round_credits_def fetched_def fetch_ok_def)
qed

lemma renewed_eligible:
  "em_state (settled_md (renewed r md)) = kEligible \<longleftrightarrow> active_md md \<and> 0 < em_weight md"
  "active_md (settled_md (renewed r md)) = active_md md"
  by (cases md; auto simp: settled_md_def renewed_def active_md_def)+

lemma weight_now_fetched:
  "wrr_md s e = Some md \<Longrightarrow> weight_now fetch s e = em_weight (fetched fetch e md)"
  by (cases fetch) (simp_all add: weight_now_def fetched_def)

lemma active_fetched [simp]: "active_md (fetched fetch e md) = active_md md"
  by (simp add: active_md_def)

lemma reset_spec:
  assumes "wrr_inv u s" "fetch_ok u fetch"
  obtains s' where "ResetAndRestartRound fetch s = Some s'" "wrr_inv u s'"
    "\<And>e. e \<in> set (wrr_eligible s') \<longleftrightarrow> IsActive s e \<and> 0 < weight_now fetch s e"
    "\<And>e. IsActive s' e = IsActive s e" "wrr_eligible s' \<noteq> [] \<Longrightarrow> 0 < global_credits_remaining s'"
proof -
  let ?r = "global_round_number s + 1"
  let ?f = "\<lambda>e md. settled_md (renewed ?r (fetched fetch e md))"
  let ?s = "remeta (mapmd ?f (wrr_metadata s))
      (s\<lparr>global_round_number := ?r, global_credits_remaining := round_credits fetch (wrr_metadata s)\<rparr>)"
  have m: "matched s" using assms(1) by (rule wrr_inv_matched)
  have r: "ResetAndRestartRound fetch s = Some ?s"
    using ResetAndRestartRound_remeta [OF matched_wf [OF m], of fetch s] by (simp add: matched_self [OF m])
  have i: "wrr_inv u ?s"
    using assms round_credits_nonneg [OF assms(2), of "wrr_metadata s"] matched_wf [OF m]
    by (auto simp: wrr_inv_def md_ok_fetched md_ok_renewed)
  have el: "e \<in> set (wrr_eligible ?s) \<longleftrightarrow> IsActive s e \<and> 0 < weight_now fetch s e" for e
    unfolding mem_sets [OF wrr_inv_matched [OF i]] IsActive_md [OF m]
    by (auto simp: renewed_eligible weight_now_fetched)
  have ac: "IsActive ?s e = IsActive s e" for e
    by (rule IsActive_mapmd [OF m wrr_inv_matched [OF i]])
      (simp, simp add: renewed_eligible)
  have "0 < global_credits_remaining ?s" if "wrr_eligible ?s \<noteq> []"
  proof -
    have "hd (wrr_eligible ?s) \<in> set (wrr_eligible ?s)" using that by (rule hd_in_set)
    then obtain e md where "wrr_md s e = Some md" "0 < em_weight (fetched fetch e md)"
      unfolding el IsActive_md [OF m] by (auto simp: weight_now_fetched)
    then show ?thesis using round_credits_pos [OF assms(2)] by simp
  qed
  with r i el ac show thesis by (rule that)
qed


definition taken :: "bool \<Rightarrow> EntityMetadata \<Rightarrow> EntityMetadata" where
  "taken batched md = (let md1 = md\<lparr>remaining_credits := remaining_credits md - 1\<rparr>
     in if \<not> batched \<or> remaining_credits md1 = 0 then md1\<lparr>em_state := kWaiting\<rparr> else md1)"

lemma taken_facts:
  "remaining_credits (taken b md) = remaining_credits md - 1" "em_weight (taken b md) = em_weight md"
  "em_state md = kEligible \<Longrightarrow> active_md (taken b md)"
  "md_ok u md \<Longrightarrow> em_state md = kEligible \<Longrightarrow> md_ok u (taken b md)"
  by (auto simp: taken_def Let_def active_md_def md_ok_def)

lemma take_credit_remeta:
  assumes "matched s" "wrr_md s e = Some md" "em_state md = kEligible" "0 < remaining_credits md"
    and "0 < global_credits_remaining s"
  shows "take_credit e s = Some (remeta (bt_set e (taken (wrr_batched s) md) (wrr_metadata s))
    (s\<lparr>global_credits_remaining := global_credits_remaining s - 1,
       last_serviced_entity := if wrr_enforce_order s then Some e else last_serviced_entity s\<rparr>))"
  using assms
  by (cases s) (auto simp: take_credit_def mark_simps taken_def Let_def)

lemma next_eligible_spec:
  assumes "wrr_inv u s" "wrr_eligible s \<noteq> []"
  obtains e where "next_eligible s = Some e" "e \<in> set (wrr_eligible s)"
proof (cases "wrr_enforce_order s")
  case False
  then show thesis using that assms(2) by (simp add: next_eligible_def)
next
  case True
  have "wrr_metadata s \<noteq> []"
    using assms matched_sets(2) [OF wrr_inv_matched [OF assms(1)]] by (auto simp: in_state_def)
  then obtain l where l: "last_serviced_entity s = Some l"
    using assms(1) True by (auto simp: wrr_inv_def)
  show thesis
  proof (cases "filter (\<lambda>e. l < e) (wrr_eligible s)")
    case Nil
    then show thesis using that True l assms(2) by (simp add: next_eligible_def)
  next
    case (Cons e es)
    then have "e \<in> set (filter (\<lambda>e. l < e) (wrr_eligible s))" by simp
    then have "e \<in> set (wrr_eligible s)" by simp
    then show thesis using that True l Cons by (simp add: next_eligible_def)
  qed
qed

lemma serve_eligible:
  assumes "wrr_inv u s" "wrr_eligible s \<noteq> []" "0 < global_credits_remaining s"
  obtains e md s' where "next_eligible s = Some e" "wrr_md s e = Some md" "em_state md = kEligible"
    "take_credit e s = Some s'" "wrr_inv u s'"
    "wrr_metadata s' = bt_set e (taken (wrr_batched s) md) (wrr_metadata s)"
    "global_credits_remaining s' = global_credits_remaining s - 1" "wrr_batched s' = wrr_batched s"
proof -
  have m: "matched s" using assms(1) by (rule wrr_inv_matched)
  obtain e where e: "next_eligible s = Some e" "e \<in> set (wrr_eligible s)"
    using next_eligible_spec [OF assms(1,2)] by blast
  then obtain md where md: "wrr_md s e = Some md" "em_state md = kEligible"
    using mem_sets(2) [OF m] by auto
  then have ok: "md_ok u md" "0 < remaining_credits md"
    using assms(1) by (auto simp: wrr_inv_def md_ok_def)
  let ?s = "s\<lparr>global_credits_remaining := global_credits_remaining s - 1,
       last_serviced_entity := if wrr_enforce_order s then Some e else last_serviced_entity s\<rparr>"
  let ?m = "bt_set e (taken (wrr_batched s) md) (wrr_metadata s)"
  have "wrr_inv u (remeta ?m ?s)"
    using assms(1,3) md ok matched_wf [OF m] by (auto simp: wrr_inv_def taken_facts)
  then show thesis
    using that [OF e(1) md] take_credit_remeta [OF m md ok(2) assms(3)] by simp
qed

lemma HasWork_spec:
  assumes "wrr_inv u s" "fetch_ok u fetch"
  obtains s' b where "wrr_HasWork fetch s = Some (s', b)" "wrr_inv u s'"
    "b \<longleftrightarrow> wrr_eligible s' \<noteq> []" "\<And>e. IsActive s' e = IsActive s e"
    "\<not> b \<Longrightarrow> (\<forall>e. IsActive s e \<longrightarrow> weight_now fetch s e \<le> 0)"
proof -
  obtain s1 over where s1: "IsRoundOver s = Some (s1, over)" "wrr_inv u s1"
    "\<not> over \<Longrightarrow> wrr_eligible s1 \<noteq> [] \<and> 0 < global_credits_remaining s1"
    "\<And>e. IsActive s1 e = IsActive s e" "\<And>e. weight_now fetch s1 e = weight_now fetch s e"
    by (rule IsRoundOver_spec [OF assms(1), where fetch = fetch]) (rule that; assumption)
  show thesis
  proof (cases over)
    case False
    then show thesis using that [of s1 True] s1 by (simp add: wrr_HasWork_def)
  next
    case True
    obtain s2 where s2: "ResetAndRestartRound fetch s1 = Some s2" "wrr_inv u s2"
      "\<And>e. e \<in> set (wrr_eligible s2) \<longleftrightarrow> IsActive s1 e \<and> 0 < weight_now fetch s1 e"
      "\<And>e. IsActive s2 e = IsActive s1 e" "wrr_eligible s2 \<noteq> [] \<Longrightarrow> 0 < global_credits_remaining s2"
      by (rule reset_spec [OF s1(2) assms(2)]) (rule that; assumption)
    have "weight_now fetch s e \<le> 0" if "wrr_eligible s2 = []" "IsActive s e" for e
      using s2(3) [of e] that s1(4,5) [of e] by auto
    then show thesis
      using that [of s2 "wrr_eligible s2 \<noteq> []"] s1 s2 True by (simp add: wrr_HasWork_def)
  qed
qed

lemma GetNextEntity_spec:
  assumes "wrr_inv u s" "fetch_ok u fetch"
  obtains s' r where "GetNextEntity fetch s = Some (s', r)" "wrr_inv u s'"
    "case r of Inr e \<Rightarrow> IsActive s e | Inl st \<Rightarrow> (\<forall>e. IsActive s e \<longrightarrow> weight_now fetch s e \<le> 0)"
proof (cases "wrr_eligible s = [] \<and> wrr_waiting s = []")
  case True
  then show thesis
    using that [of s "Inl UnavailableError"] assms(1) by (simp add: GetNextEntity_def IsActive_def)
next
  case False
  obtain s1 over where s1: "IsRoundOver s = Some (s1, over)" "wrr_inv u s1"
    "\<not> over \<Longrightarrow> wrr_eligible s1 \<noteq> [] \<and> 0 < global_credits_remaining s1"
    "\<And>e. IsActive s1 e = IsActive s e" "\<And>e. weight_now fetch s1 e = weight_now fetch s e"
    by (rule IsRoundOver_spec [OF assms(1), where fetch = fetch]) (rule that; assumption)
  obtain s2 where s2: "(if over then ResetAndRestartRound fetch s1 else Some s1) = Some s2" "wrr_inv u s2"
    "\<And>e. IsActive s2 e = IsActive s e" "wrr_eligible s2 \<noteq> [] \<Longrightarrow> 0 < global_credits_remaining s2"
    "wrr_eligible s2 = [] \<Longrightarrow> (\<forall>e. IsActive s e \<longrightarrow> weight_now fetch s e \<le> 0)"
  proof (cases over)
    case True
    obtain s2 where s2: "ResetAndRestartRound fetch s1 = Some s2" "wrr_inv u s2"
      "\<And>e. e \<in> set (wrr_eligible s2) \<longleftrightarrow> IsActive s1 e \<and> 0 < weight_now fetch s1 e"
      "\<And>e. IsActive s2 e = IsActive s1 e" "wrr_eligible s2 \<noteq> [] \<Longrightarrow> 0 < global_credits_remaining s2"
      by (rule reset_spec [OF s1(2) assms(2)]) (rule that; assumption)
    have "weight_now fetch s e \<le> 0" if "wrr_eligible s2 = []" "IsActive s e" for e
      using s2(3) [of e] that s1(4,5) [of e] by auto
    then show thesis using that [of s2] s1 s2 True by simp
  qed (use that [of s1] s1 in auto)
  show thesis
  proof (cases "wrr_eligible s2 = []")
    case True
    then show thesis
      using that [of s2 "Inl UnavailableError"] False s1(1) s2 by (simp add: GetNextEntity_def)
  next
    case ne: False
    obtain e md s3 where s3: "next_eligible s2 = Some e" "wrr_md s2 e = Some md"
      "em_state md = kEligible" "take_credit e s2 = Some s3" "wrr_inv u s3"
      by (rule serve_eligible [OF s2(2) ne s2(4) [OF ne]]) (rule that; assumption)
    have "IsActive s2 e"
      unfolding IsActive_md [OF wrr_inv_matched [OF s2(2)]] using s3 by (auto simp: active_md_def)
    then show thesis
      using that [of s3 "Inr e"] False ne s1(1) s2(1,3) s3 by (simp add: GetNextEntity_def)
  qed
qed


section \<open>Shares of a round\<close>

definition credit :: "'e Wrr \<Rightarrow> 'e \<Rightarrow> int" where
  "credit s e = (case wrr_md s e of
     Some md \<Rightarrow> if active_md md then remaining_credits md else 0 | None \<Rightarrow> 0)"

definition backlog :: "'e Wrr \<Rightarrow> int" where
  "backlog s = sum (credit s) (fst ` set (wrr_metadata s))"

lemma credit_nonneg: "wrr_inv u s \<Longrightarrow> 0 \<le> credit s e"
  by (auto simp: credit_def wrr_inv_def md_ok_def split: option.splits)

lemma keys_mapmd [simp]: "fst ` set (mapmd f m) = fst ` set m"
  by (metis fst_mapmd set_map)

lemma keys_known: "wrr_md s e = Some md \<Longrightarrow> e \<in> fst ` set (wrr_metadata s)"
  by (metis map_of_SomeD fst_conv image_eqI)

lemma credit_settled_woken:
  assumes "wrr_metadata s' = mapmd (\<lambda>_ md. settled_md (woken md)) (wrr_metadata s)"
  shows "credit s' = credit s"
proof
  have "remaining_credits (settled_md (woken md)) = remaining_credits md" for md
    by (simp add: settled_md_def woken_def)
  then show "credit s' e = credit s e" for e
    by (cases "wrr_md s e") (simp_all add: credit_def assms active_settled_woken)
qed

lemma backlog_step:
  assumes "wrr_inv u s" "\<not> wrr_batched s" "0 < backlog s" "backlog s \<le> global_credits_remaining s"
  obtains s' e where "GetNextEntity fetch s = Some (s', Inr e)" "wrr_inv u s'" "\<not> wrr_batched s'"
    "credit s' = (credit s)(e := credit s e - 1)" "0 < credit s e" "backlog s' = backlog s - 1"
    "backlog s' \<le> global_credits_remaining s'"
proof -
  have m: "matched s" using assms(1) by (rule wrr_inv_matched)
  obtain x where x: "0 < credit s x"
    using assms(3) unfolding backlog_def by (meson not_le sum_nonpos)
  then obtain md where md: "wrr_md s x = Some md" "active_md md" "0 < remaining_credits md"
    by (auto simp: credit_def split: option.splits if_splits)
  obtain s1 where s1: "IsRoundOver s = Some (s1, False)" "wrr_inv u s1" "wrr_eligible s1 \<noteq> []"
    "credit s1 = credit s" "global_credits_remaining s1 = global_credits_remaining s"
    "wrr_batched s1 = wrr_batched s" "fst ` set (wrr_metadata s1) = fst ` set (wrr_metadata s)"
  proof (cases "wrr_eligible s = []")
    case False
    then show thesis using that [of s] assms by (simp add: IsRoundOver_def)
  next
    case True
    then have wait: "em_state md = kWaiting"
      using md mem_sets(2) [OF m, of x] by (auto simp: active_md_def)
    then have "wrr_waiting s \<noteq> []" using md mem_sets(3) [OF m, of x] by auto
    moreover obtain s' where s': "StartSubRound s = Some s'" "wrr_inv u s'"
      "global_credits_remaining s' = global_credits_remaining s" "wrr_batched s' = wrr_batched s"
      "wrr_metadata s' = mapmd (\<lambda>_ md. settled_md (woken md)) (wrr_metadata s)"
      using subround_spec [OF assms(1)] by auto
    moreover have "x \<in> set (wrr_eligible s')"
      using md wait by (simp add: mem_sets [OF wrr_inv_matched [OF s'(2)]] s'(5) settled_md_def woken_def)
    then have "wrr_eligible s' \<noteq> []" by auto
    ultimately show thesis
      using that [of s'] True assms(3,4) credit_settled_woken [OF s'(5)]
      by (simp add: IsRoundOver_def)
  qed
  have "0 < global_credits_remaining s1" using assms(3,4) s1(5) by linarith
  then obtain e md' s2 where s2: "next_eligible s1 = Some e" "wrr_md s1 e = Some md'"
    "em_state md' = kEligible" "take_credit e s1 = Some s2" "wrr_inv u s2"
    "wrr_metadata s2 = bt_set e (taken (wrr_batched s1) md') (wrr_metadata s1)"
    "global_credits_remaining s2 = global_credits_remaining s1 - 1" "wrr_batched s2 = wrr_batched s1"
    by (rule serve_eligible [OF s1(2,3)]) (rule that; assumption)
  have wf: "bt_wf (wrr_metadata s1)" using s1(2) by (simp add: wrr_inv_def matched_wf)
  have pos: "0 < credit s e"
    using s2(2,3) s1(2) unfolding s1(4) [symmetric]
    by (auto simp: credit_def active_md_def wrr_inv_def md_ok_def)
  have credit: "credit s2 = (credit s)(e := credit s e - 1)"
  proof
    show "credit s2 x = ((credit s)(e := credit s e - 1)) x" for x
      using s2(2,3) wf unfolding s1(4) [symmetric]
      using taken_facts(1,3) [where md = md' and b = "wrr_batched s1"] by (auto simp: credit_def s2(6) active_md_def)
  qed
  have keys: "fst ` set (wrr_metadata s2) = fst ` set (wrr_metadata s)"
    using keys_known [OF s2(2)] by (simp add: s2(6) set_bt_set_fst s1(7) insert_absorb)
  have "e \<in> fst ` set (wrr_metadata s)" using keys_known [OF s2(2)] s1(7) by simp
  then have "backlog s2 = backlog s - 1"
    unfolding backlog_def keys credit by (simp add: sum.remove [where x = e] algebra_simps)
  moreover have "GetNextEntity fetch s = Some (s2, Inr e)"
  proof -
    have "wrr_eligible s \<noteq> [] \<or> wrr_waiting s \<noteq> []"
      using md mem_sets(2,3) [OF m, of x] by (force simp: active_md_def)
    then show ?thesis using s1(1,3) s2(1,4) by (simp add: GetNextEntity_def)
  qed
  ultimately show thesis
    using that [of s2 e] s2(5,7,8) s1(5,6) assms(2,4) credit pos by simp
qed

lemma serve_backlog:
  assumes "wrr_inv u s" "\<not> wrr_batched s" "backlog s \<le> global_credits_remaining s"
  shows "\<exists>s' es. serve (GetNextEntity fetch) (nat (backlog s)) s = Some (s', es) \<and>
    (\<forall>e. int (count_list es e) = credit s e)"
  using assms
proof (induction "nat (backlog s)" arbitrary: s)
  case 0
  have "0 \<le> backlog s" unfolding backlog_def by (intro sum_nonneg credit_nonneg [OF 0(2)])
  with 0(1) have z: "sum (credit s) (fst ` set (wrr_metadata s)) = 0" by (simp add: backlog_def)
  have "credit s e = 0" for e
  proof (cases "wrr_md s e")
    case (Some md)
    then show ?thesis
      using z keys_known [OF Some] credit_nonneg [OF 0(2)] by (auto simp: sum_nonneg_eq_0_iff)
  qed (simp add: credit_def)
  with 0(1) show ?case by (simp flip: 0(1))
next
  case (Suc n)
  then have "0 < backlog s" by linarith
  then obtain s1 e where s1: "GetNextEntity fetch s = Some (s1, Inr e)" "wrr_inv u s1"
    "\<not> wrr_batched s1" "credit s1 = (credit s)(e := credit s e - 1)" "0 < credit s e"
    "backlog s1 = backlog s - 1" "backlog s1 \<le> global_credits_remaining s1"
    using backlog_step [OF Suc(3,4) _ Suc(5), of fetch] by metis
  have n: "n = nat (backlog s1)" using s1(6) Suc(2) by linarith
  obtain s2 es where s2: "serve (GetNextEntity fetch) n s1 = Some (s2, es)"
    "\<forall>x. int (count_list es x) = credit s1 x"
    using Suc(1) [OF n s1(2,3,7)] n by auto
  have "int (count_list (e # es) x) = credit s x" for x
    using s2(2) s1(4) by auto
  then show ?case using s1(1) s2(1) by (simp flip: Suc(2)) 
qed


section \<open>Histories\<close>

text \<open>
  Any sequence of operations on a new policy, with any fetched weights, always or never with a
  fetcher.
\<close>

inductive wrr_reach :: "bool \<Rightarrow> 'e::linorder Wrr \<Rightarrow> bool" for u where
  wrr_start: "wrr_reach u (new_Wrr batched order)"
| wrr_initialize: "wrr_reach u s \<Longrightarrow> fetch_ok u fetch \<Longrightarrow>
    wrr_reach u (fst (wrr_InitializeEntity fetch e s))"
| wrr_delete: "wrr_reach u s \<Longrightarrow> wrr_reach u (fst (wrr_DeleteEntity e s))"
| wrr_activate: "wrr_reach u s \<Longrightarrow> MarkEntityActive e s = Some (s', b) \<Longrightarrow> wrr_reach u s'"
| wrr_deactivate: "wrr_reach u s \<Longrightarrow> MarkEntityInactive e s = Some (s', b) \<Longrightarrow> wrr_reach u s'"
| wrr_has_work: "wrr_reach u s \<Longrightarrow> fetch_ok u fetch \<Longrightarrow> wrr_HasWork fetch s = Some (s', b) \<Longrightarrow>
    wrr_reach u s'"
| wrr_next: "wrr_reach u s \<Longrightarrow> fetch_ok u fetch \<Longrightarrow> GetNextEntity fetch s = Some (s', r) \<Longrightarrow>
    wrr_reach u s'"

lemma new_wrr_inv: "wrr_inv u (new_Wrr batched order)"
  by (simp add: wrr_inv_def matched_def new_Wrr_def remeta_def in_state_def)

lemma in_state_new:
  "bt_wf m \<Longrightarrow> map_of m e = None \<Longrightarrow> in_state st (bt_set e md m)
     = (if em_state md = st then insort_insert e (in_state st m) else in_state st m)"
  by (auto simp: in_state_bt_set set_in_state intro!: removeAll_id)

lemma in_state_erase: "in_state st (bt_erase e m) = removeAll e (in_state st m)"
  by (induction m) (auto simp: in_state_def bt_erase_def)

lemma in_state_gone:
  "bt_wf m \<Longrightarrow> map_of m e = Some md \<Longrightarrow> in_state st (bt_erase e m)
     = (if em_state md = st then removeAll e (in_state st m) else in_state st m)"
  by (auto simp: in_state_erase set_in_state intro!: removeAll_id)

lemma initialize_inv:
  assumes "wrr_inv u s" "fetch_ok u fetch"
  shows "wrr_inv u (fst (wrr_InitializeEntity fetch e s))"
proof (cases "wrr_md s e")
  case None
  let ?md = "\<lparr>em_state = kIdle, em_weight = (case fetch of Some f \<Rightarrow> f e | None \<Rightarrow> 1),
     remaining_credits = 0, round_number = - 1\<rparr>"
  have m: "matched s" using assms(1) by (rule wrr_inv_matched)
  have eq: "fst (wrr_InitializeEntity fetch e s)
      = remeta (bt_set e ?md (wrr_metadata s)) (s\<lparr>last_serviced_entity := Some e\<rparr>)"
    using None m
    by (cases s) (simp add: wrr_InitializeEntity_def put_md_def remeta_def in_state_new matched_def)
  have "md_ok u ?md"
    using assms(2) by (auto simp: md_ok_def fetch_ok_def split: option.splits)
  then show ?thesis
    unfolding eq using assms(1) matched_wf [OF m] by (auto simp: wrr_inv_def)
qed (use assms(1) in \<open>simp add: wrr_InitializeEntity_def\<close>)

lemma delete_inv:
  assumes "wrr_inv u s"
  shows "wrr_inv u (fst (wrr_DeleteEntity e s))"
proof (cases "wrr_md s e")
  case (Some md)
  have m: "matched s" using assms by (rule wrr_inv_matched)
  have "fst (wrr_DeleteEntity e s) = remeta (bt_erase e (wrr_metadata s)) s"
    using Some m
    by (cases s) (cases "em_state md"; simp add: wrr_DeleteEntity_def remeta_def in_state_gone matched_def)
  moreover have "wrr_metadata s \<noteq> []" using Some by auto
  ultimately show ?thesis
    using assms matched_wf [OF m] by (auto simp: wrr_inv_def split: if_splits)
qed (use assms in \<open>simp add: wrr_DeleteEntity_def\<close>)

lemma marks_known:
  "MarkEntityActive e s = Some r \<Longrightarrow> \<exists>md. wrr_md s e = Some md"
  "MarkEntityInactive e s = Some r \<Longrightarrow> \<exists>md. wrr_md s e = Some md"
  by (auto simp: MarkEntityActive_def MarkEntityInactive_def split: bind_splits)

lemma wrr_reach_inv: "wrr_reach u s \<Longrightarrow> wrr_inv u s"
proof (induction rule: wrr_reach.induct)
  case (wrr_activate s e s' b)
  then show ?case using marks_known(1) wrr_inv_marks(1) by (metis fst_conv option.inject)
next
  case (wrr_deactivate s e s' b)
  then show ?case using marks_known(2) wrr_inv_marks(2) by (metis fst_conv option.inject)
next
  case (wrr_has_work s fetch s' b)
  then show ?case using HasWork_spec [of u s fetch] by (metis fst_conv option.inject)
next
  case (wrr_next s fetch s' r)
  then show ?case using GetNextEntity_spec [of u s fetch] by (metis fst_conv option.inject)
qed (simp_all add: new_wrr_inv initialize_inv delete_inv)


lemma round_credits_sum:
  assumes "wrr_inv u s" "fetch_ok u fetch"
  shows "round_credits fetch (wrr_metadata s) = sum (weight_now fetch s) (fst ` set (wrr_metadata s))"
proof -
  have d: "distinct (map fst (wrr_metadata s))"
    using assms(1) by (intro bt_wf_distinct) (simp add: wrr_inv_def matched_wf)
  show ?thesis
  proof (cases fetch)
    case (Some f)
    have "sum f (fst ` set (wrr_metadata s)) = sum_list (map f (map fst (wrr_metadata s)))"
      using d sum.distinct_set_conv_list by fastforce
    then show ?thesis
      by (simp add: round_credits_def weight_now_def [abs_def] Some comp_def case_prod_unfold)
  next
    case None
    have "weight_now fetch s e = 1" if k: "e \<in> fst ` set (wrr_metadata s)" for e
    proof -
      obtain md where "(e, md) \<in> set (wrr_metadata s)" using k by force
      then have "wrr_md s e = Some md" using d by simp
      then show ?thesis
        using assms None by (auto simp: weight_now_def wrr_inv_def md_ok_def fetch_ok_def)
    qed
    then have "sum (weight_now fetch s) (fst ` set (wrr_metadata s)) = int (card (fst ` set (wrr_metadata s)))"
      by simp
    also have "\<dots> = int (length (wrr_metadata s))"
      using distinct_card [OF d] by simp
    finally show ?thesis by (simp add: round_credits_def None)
  qed
qed

lemma weight_now_nonneg: "wrr_inv u s \<Longrightarrow> fetch_ok u fetch \<Longrightarrow> 0 \<le> weight_now fetch s e"
  by (auto simp: weight_now_def fetch_ok_def wrr_inv_def md_ok_def split: option.splits)

lemma reset_credit:
  assumes "wrr_inv u s" "fetch_ok u fetch" "ResetAndRestartRound fetch s = Some s1"
  shows "credit s1 e = (if IsActive s e then weight_now fetch s e else 0)"
    "backlog s1 = sum (weight_now fetch s) {e. IsActive s e}"
    "backlog s1 \<le> global_credits_remaining s1" "wrr_batched s1 = wrr_batched s"
proof -
  let ?r = "global_round_number s + 1"
  let ?f = "\<lambda>e md. settled_md (renewed ?r (fetched fetch e md))"
  have m: "matched s" using assms(1) by (rule wrr_inv_matched)
  have s1: "s1 = remeta (mapmd ?f (wrr_metadata s)) (s\<lparr>global_round_number := ?r,
      global_credits_remaining := round_credits fetch (wrr_metadata s)\<rparr>)"
    using ResetAndRestartRound_remeta [OF matched_wf [OF m], of fetch s] assms(3)
    by (simp add: matched_self [OF m])
  have rem: "active_md md \<Longrightarrow> remaining_credits (settled_md (renewed r md)) = em_weight md" for r md
    by (auto simp: settled_md_def renewed_def active_md_def)
  show c: "credit s1 e = (if IsActive s e then weight_now fetch s e else 0)" for e
    unfolding IsActive_md [OF m]
    by (cases "wrr_md s e") (auto simp: s1 credit_def renewed_eligible rem weight_now_fetched)
  have keys: "fst ` set (wrr_metadata s1) = fst ` set (wrr_metadata s)" by (simp add: s1)
  have "{e. IsActive s e} \<subseteq> fst ` set (wrr_metadata s)"
    unfolding IsActive_md [OF m] by (auto dest: keys_known)
  then show b: "backlog s1 = sum (weight_now fetch s) {e. IsActive s e}"
    unfolding backlog_def keys c [abs_def]
    by (subst sum.mono_neutral_right [where S = "{e. IsActive s e}"]) auto
  have "backlog s1 \<le> sum (weight_now fetch s) (fst ` set (wrr_metadata s))"
    unfolding backlog_def keys by (rule sum_mono) (simp add: c weight_now_nonneg [OF assms(1,2)])
  then show "backlog s1 \<le> global_credits_remaining s1"
    using round_credits_sum [OF assms(1,2)] by (simp add: s1)
  show "wrr_batched s1 = wrr_batched s" by (simp add: s1)
qed

section \<open>An example\<close>

definition wrr_example :: "u32 Wrr" where
  "wrr_example = fst (wrr_InitializeEntity (Some uint) 2
     (fst (wrr_InitializeEntity (Some uint) 3 (new_Wrr False True))))"

definition wrr_active_example :: "u32 Wrr option" where
  "wrr_active_example = do {
     (s1, _) \<leftarrow> MarkEntityActive 2 wrr_example;
     (s2, _) \<leftarrow> MarkEntityActive 3 s1;
     Some s2
   }"

lemma example_fetch: "fetch_ok False (Some (uint :: u32 \<Rightarrow> int))"
  by (simp add: fetch_ok_def)

lemma wrr_example_reached: "\<exists>s. wrr_active_example = Some s \<and> wrr_reach False s"
proof -
  have r: "wrr_reach False wrr_example"
    unfolding wrr_example_def by (intro wrr_reach.intros example_fetch)
  have k: "wrr_md wrr_example 2 \<noteq> None" by code_simp
  then obtain md where "wrr_md wrr_example 2 = Some md" by blast
  from wrr_inv_marks(1) [OF wrr_reach_inv [OF r] this]
  obtain s1 b1 where s1: "MarkEntityActive 2 wrr_example = Some (s1, b1)" by blast
  have r1: "wrr_reach False s1" by (rule wrr_reach.wrr_activate [OF r s1])
  have "case MarkEntityActive 2 wrr_example of Some (s1, b) \<Rightarrow> wrr_md s1 3 \<noteq> None | None \<Rightarrow> False"
    by code_simp
  then obtain md1 where "wrr_md s1 3 = Some md1" using s1 by auto
  from wrr_inv_marks(1) [OF wrr_reach_inv [OF r1] this]
  obtain s2 b2 where s2: "MarkEntityActive 3 s1 = Some (s2, b2)" by blast
  have "wrr_reach False s2" by (rule wrr_reach.wrr_activate [OF r1 s2])
  then show ?thesis using s1 s2 by (simp add: wrr_active_example_def)
qed

section \<open>Properties\<close>

text \<open>
  The weighted round robin never crashes and never loses work. After any operations, the four sets
  agree with the state of every entity; neither \<open>HasWork\<close> nor \<open>GetNextEntity\<close> fails a check; the
  entity returned is one that is marked active; and they report no work only when no active entity has
  a positive weight.
\<close>

theorem wrr_safe_and_work_conserving:
  assumes "wrr_reach u s" "fetch_ok u fetch"
  shows "SanityCheck s
    \<and> (\<exists>s' b. wrr_HasWork fetch s = Some (s', b)
        \<and> (\<not> b \<longrightarrow> (\<forall>e. IsActive s e \<longrightarrow> weight_now fetch s e \<le> 0)) \<and> (b \<longrightarrow> (\<exists>e. IsActive s e)))
    \<and> (\<exists>s' r. GetNextEntity fetch s = Some (s', r)
        \<and> (case r of Inr e \<Rightarrow> IsActive s e
           | Inl st \<Rightarrow> (\<forall>e. IsActive s e \<longrightarrow> weight_now fetch s e \<le> 0)))"
proof (intro conjI)
  have inv: "wrr_inv u s" by (rule wrr_reach_inv [OF assms(1)])
  have m: "matched s" by (rule wrr_inv_matched [OF inv])
  show "SanityCheck s"
    using bt_wf_distinct [OF matched_wf [OF m]]
    by (auto simp: SanityCheck_def mem_sets [OF m] dest: eq_key_imp_eq_value)
  obtain s' b where h: "wrr_HasWork fetch s = Some (s', b)" "wrr_inv u s'"
    "b \<longleftrightarrow> wrr_eligible s' \<noteq> []" "\<And>e. IsActive s' e = IsActive s e"
    "\<not> b \<Longrightarrow> (\<forall>e. IsActive s e \<longrightarrow> weight_now fetch s e \<le> 0)"
    by (rule HasWork_spec [OF inv assms(2)]) (rule that; assumption)
  have "\<exists>e. IsActive s e" if b
  proof -
    have "hd (wrr_eligible s') \<in> set (wrr_eligible s')" using h(3) that by simp
    then show ?thesis using h(4) by (auto simp: IsActive_def)
  qed
  with h show "\<exists>s' b. wrr_HasWork fetch s = Some (s', b)
      \<and> (\<not> b \<longrightarrow> (\<forall>e. IsActive s e \<longrightarrow> weight_now fetch s e \<le> 0)) \<and> (b \<longrightarrow> (\<exists>e. IsActive s e))"
    by blast
  show "\<exists>s' r. GetNextEntity fetch s = Some (s', r)
      \<and> (case r of Inr e \<Rightarrow> IsActive s e
         | Inl st \<Rightarrow> (\<forall>e. IsActive s e \<longrightarrow> weight_now fetch s e \<le> 0))"
    by (rule GetNextEntity_spec [OF inv assms(2)]) blast
qed

lemma wrr_safe_and_work_conserving_witness:
  "\<exists>s s'. wrr_active_example = Some s \<and> wrr_HasWork (Some uint) s = Some (s', True) \<and> SanityCheck s"
proof -
  obtain s where s: "wrr_active_example = Some s" "wrr_reach False s"
    using wrr_example_reached by blast
  have "case wrr_active_example of Some s \<Rightarrow>
      (case wrr_HasWork (Some uint) s of Some (_, b) \<Rightarrow> b | None \<Rightarrow> False) | None \<Rightarrow> False"
    by code_simp
  then have "\<exists>s'. wrr_HasWork (Some uint) s = Some (s', True)"
    unfolding s(1) by (auto split: option.splits)
  then show ?thesis
    using s wrr_safe_and_work_conserving [OF s(2) example_fetch] by blast
qed

text \<open>
  C22 Weighted shares. In a round of a policy without batching, the first selections, as many as the
  weights of the active entities add up to, all succeed and serve every active entity exactly as often
  as its weight says and no other entity.
\<close>

theorem wrr_round_shares:
  assumes "wrr_reach u s" "fetch_ok u fetch" "\<not> wrr_batched s"
    and "ResetAndRestartRound fetch s = Some s1"
  shows "\<exists>s2 es. serve (GetNextEntity fetch') (nat (sum (weight_now fetch s) {e. IsActive s e})) s1
      = Some (s2, es)
    \<and> (\<forall>e. int (count_list es e) = (if IsActive s e then weight_now fetch s e else 0))"
proof -
  have inv: "wrr_inv u s" by (rule wrr_reach_inv [OF assms(1)])
  have inv1: "wrr_inv u s1"
    by (rule reset_spec [OF inv assms(2)]) (simp add: assms(4))
  note r = reset_credit [OF inv assms(2,4)]
  from serve_backlog [OF inv1 _ r(3), of fetch'] assms(3)
  show ?thesis by (simp add: r)
qed

lemma wrr_round_shares_witness:
  "\<exists>s1 s2 es. serve (GetNextEntity (Some uint)) 5 s1 = Some (s2, es)
     \<and> count_list es (2 :: u32) = 2 \<and> count_list es 3 = 3"
proof -
  obtain s where s: "wrr_active_example = Some s" "wrr_reach False s"
    using wrr_example_reached by blast
  have "case wrr_active_example of Some s \<Rightarrow> \<not> wrr_batched s \<and> IsActive s 2 \<and> IsActive s 3
      \<and> map fst (wrr_metadata s) = [2, 3] | None \<Rightarrow> False"
    by code_simp
  then have a: "\<not> wrr_batched s" "IsActive s 2" "IsActive s 3" "map fst (wrr_metadata s) = [2, 3]"
    unfolding s(1) by auto
  have inv: "wrr_inv False s" by (rule wrr_reach_inv [OF s(2)])
  have "e = 2 \<or> e = 3" if "IsActive s e" for e
  proof -
    have "e \<in> set (map fst (wrr_metadata s))"
      using that keys_known [of s e] by (auto simp: IsActive_md [OF wrr_inv_matched [OF inv]])
    with a(4) show ?thesis by simp
  qed
  with a have act: "{e. IsActive s e} = {2, 3}" by auto
  obtain s1 where "ResetAndRestartRound (Some uint) s = Some s1"
    by (rule reset_spec [OF inv example_fetch]) (rule that; assumption)
  from wrr_round_shares [OF s(2) example_fetch a(1) this, of "Some uint"]
  obtain s2 es where "serve (GetNextEntity (Some uint)) 5 s1 = Some (s2, es)"
    "\<forall>e. int (count_list es e) = (if IsActive s e then weight_now (Some uint) s e else 0)"
    by (auto simp: act weight_now_def)
  moreover have "count_list es 2 = 2" "count_list es 3 = 3"
    using calculation(2) a(2,3) by (auto simp: weight_now_def dest: spec [of _ 2] spec [of _ 3])
  ultimately show ?thesis by blast
qed

end
