(* ===== verification/Fast_Schedulers.thy ===== *)
theory Fast_Schedulers
  imports Weighted_Round_Robin Transactions
begin

text \<open>
  The event-based schedulers: \<open>host/falcon/falcon_protocol_fast_connection_scheduler.{h,cc}\<close> for
  first transmissions and \<open>host/falcon/falcon_protocol_fast_retransmission_scheduler.{h,cc}\<close> for
  retransmissions, with the queues of \<open>falcon_protocol_connection_scheduler_types.cc\<close> and the gating
  variables of \<open>gating_variable.h\<close>, through which a change of a connection makes both schedulers
  recompute its eligibility.

  What the schedulers read of the reliability manager, the admission control and the host interface is
  a \<open>sched_view\<close>, part of the state. An operation of another component that changes a gating variable
  is a new view followed by the recomputation; \<open>TransmitPacket\<close>, which a scheduler calls, is the list
  of such changes it makes, a parameter. Calls on other components are logged. The queueing-delay
  statistics are left out.

  The lemmas show what a recomputation establishes, that the retransmission scheduler picks only
  packets that may go out, and how the connection scheduler can run into its own check.
\<close>

section \<open>Queues\<close>

fun queue_rank :: "PacketTypeQueue \<Rightarrow> nat" where
  "queue_rank kPullAndOrderedPushRequest = 0" | "queue_rank kUnorderedPushRequest = 1"
| "queue_rank kPushData = 2" | "queue_rank Q_kPushGrant = 3" | "queue_rank Q_kPullData = 4"

instantiation PacketTypeQueue :: linorder
begin

definition less_eq_PacketTypeQueue :: "PacketTypeQueue \<Rightarrow> PacketTypeQueue \<Rightarrow> bool" where
  "less_eq_PacketTypeQueue a b \<longleftrightarrow> queue_rank a \<le> queue_rank b"

definition less_PacketTypeQueue :: "PacketTypeQueue \<Rightarrow> PacketTypeQueue \<Rightarrow> bool" where
  "less_PacketTypeQueue a b \<longleftrightarrow> queue_rank a < queue_rank b"

instance
proof
  fix a b c :: PacketTypeQueue
  show "(a < b) = (a \<le> b \<and> \<not> b \<le> a)"
    by (auto simp: less_PacketTypeQueue_def less_eq_PacketTypeQueue_def)
  show "a \<le> a" by (simp add: less_eq_PacketTypeQueue_def)
  show "a \<le> b \<Longrightarrow> b \<le> c \<Longrightarrow> a \<le> c" by (simp add: less_eq_PacketTypeQueue_def)
  show "a \<le> b \<Longrightarrow> b \<le> a \<Longrightarrow> a = b"
    by (cases a; cases b) (simp_all add: less_eq_PacketTypeQueue_def)
  show "a \<le> b \<or> b \<le> a" by (auto simp: less_eq_PacketTypeQueue_def)
qed

end

type_synonym ConnectionSchedulerQueues = "PacketTypeQueue \<Rightarrow> WorkId list"

definition new_ConnectionSchedulerQueues :: ConnectionSchedulerQueues where
  "new_ConnectionSchedulerQueues = (\<lambda>_. [])"

definition csq_Enqueue ::
    "PacketTypeQueue \<Rightarrow> WorkId \<Rightarrow> ConnectionSchedulerQueues \<Rightarrow> ConnectionSchedulerQueues" where
  "csq_Enqueue q w m = m(q := m q @ [w])"

definition csq_Peek :: "PacketTypeQueue \<Rightarrow> ConnectionSchedulerQueues \<Rightarrow> WorkId option" where
  "csq_Peek q m = (case m q of [] \<Rightarrow> None | w # _ \<Rightarrow> Some w)"

definition csq_Pop ::
    "PacketTypeQueue \<Rightarrow> ConnectionSchedulerQueues \<Rightarrow> ConnectionSchedulerQueues option" where
  "csq_Pop q m = (case m q of [] \<Rightarrow> None | _ # ws \<Rightarrow> Some (m(q := ws)))"

definition csq_IsEmpty :: "PacketTypeQueue \<Rightarrow> ConnectionSchedulerQueues \<Rightarrow> bool" where
  "csq_IsEmpty q m \<longleftrightarrow> m q = []"

definition csq_GetSize :: "PacketTypeQueue \<Rightarrow> ConnectionSchedulerQueues \<Rightarrow> u32" where
  "csq_GetSize q m = of_nat (length (m q))"

type_synonym RetransmissionSchedulerQueues = "WindowTypeQueue \<Rightarrow> RetransmissionWorkId list"

definition new_RetransmissionSchedulerQueues :: RetransmissionSchedulerQueues where
  "new_RetransmissionSchedulerQueues = (\<lambda>_. [])"

definition rsq_Enqueue ::
    "WindowTypeQueue \<Rightarrow> RetransmissionWorkId \<Rightarrow> RetransmissionSchedulerQueues \<Rightarrow>
     RetransmissionSchedulerQueues \<times> bool" where
  "rsq_Enqueue q w m = (case bs_insert work_less w (m q) of (new, ws) \<Rightarrow> (m(q := ws), new))"

definition rsq_Peek :: "WindowTypeQueue \<Rightarrow> RetransmissionSchedulerQueues \<Rightarrow> RetransmissionWorkId option"
  where
  "rsq_Peek q m = (case m q of [] \<Rightarrow> None | w # _ \<Rightarrow> Some w)"

definition rsq_Dequeue ::
    "WindowTypeQueue \<Rightarrow> RetransmissionWorkId \<Rightarrow> RetransmissionSchedulerQueues \<Rightarrow>
     RetransmissionSchedulerQueues \<times> bool" where
  "rsq_Dequeue q w m = (case bs_erase work_less w (m q) of (found, ws) \<Rightarrow> (m(q := ws), found))"

definition rsq_IsEmpty :: "WindowTypeQueue \<Rightarrow> RetransmissionSchedulerQueues \<Rightarrow> bool" where
  "rsq_IsEmpty q m \<longleftrightarrow> m q = []"

section \<open>State\<close>

record sched_view =
  meets_initial_cc :: "u32 \<Rightarrow> PacketType \<Rightarrow> bool"
  meets_initial_oow :: "u32 \<Rightarrow> PacketType \<Rightarrow> bool"
  meets_retx_cc :: "u32 \<Rightarrow> u32 \<Rightarrow> PacketType \<Rightarrow> bool"
  admits :: "u64 \<Rightarrow> PacketType \<Rightarrow> bool"
  CanSendPacket :: bool

record SchedConnection = ConnectionTransactions +
  ordered_mode :: OrderingMode
  is_op_rate_limited :: int
  last_packet_send_time :: duration

datatype sched_call =
    ScheduleSchedulerArbiter
  | ReserveAdmission u32 u32 PacketType
  | TransmitPacket_call u32 u32 PacketType
  | ScheduleOpRateEvent u32

record FastSchedulers =
  packet_type_policy :: "PacketTypeQueue Wrr"
  connection_policy :: "PacketTypeQueue \<Rightarrow> u32 Wrr"
  phantom_connection_policy :: "u32 Wrr"
  ordered_push_req_connection_policy :: "u32 Wrr"
  connection_queues :: "u32 \<rightharpoonup> ConnectionSchedulerQueues"
  packet_queue_wise_pkt_count :: "PacketTypeQueue \<Rightarrow> u64"
  retx_queues :: "u32 \<rightharpoonup> RetransmissionSchedulerQueues"
  retx_policy :: "u32 Wrr"
  next_window_type :: "u32 \<Rightarrow> WindowTypeQueue"
  contexts :: "u32 \<rightharpoonup> SchedConnection"
  view :: sched_view
  sched_calls :: "sched_call list"

text \<open>
  What the two calls that leave the schedulers do to what they read: the reservation changes the view,
  the transmission makes a list of changes, each of which calls the gating function.
\<close>

record sched_env =
  elapsed_time :: duration
  after_reserve :: "u32 \<Rightarrow> u32 \<Rightarrow> PacketType \<Rightarrow> sched_view \<Rightarrow> sched_view"
  after_transmit :: "u32 \<Rightarrow> u32 \<Rightarrow> PacketType \<Rightarrow> FastSchedulers \<Rightarrow>
     (sched_view \<times> (u32 \<rightharpoonup> SchedConnection)) list"

definition kMaxRequestLength :: u64 where "kMaxRequestLength = 4200"

definition kPacketTypeWeightNormalizer :: nat where "kPacketTypeWeightNormalizer = 64"

text \<open>The rounded-up quotient of a 64-bit count by 64.\<close>

definition ComputePacketTypeWeight :: "FastSchedulers \<Rightarrow> PacketTypeQueue \<Rightarrow> int" where
  "ComputePacketTypeWeight s q =
     int ((unat (packet_queue_wise_pkt_count s q) + kPacketTypeWeightNormalizer - 1)
            div kPacketTypeWeightNormalizer)"

definition log_sched :: "sched_call \<Rightarrow> FastSchedulers \<Rightarrow> FastSchedulers" where
  "log_sched c s = s\<lparr>sched_calls := sched_calls s @ [c]\<rparr>"

definition new_FastSchedulers :: "(u32 \<rightharpoonup> SchedConnection) \<Rightarrow> sched_view \<Rightarrow> FastSchedulers" where
  "new_FastSchedulers cs v =
     \<lparr>packet_type_policy = fold (\<lambda>q p. fst (wrr_InitializeEntity (Some (\<lambda>_. 0)) q p))
        packet_type_queues (new_Wrr False True),
      connection_policy = (\<lambda>_. new_Wrr False True),
      phantom_connection_policy = new_Wrr False False,
      ordered_push_req_connection_policy = new_Wrr False False,
      connection_queues = Map.empty, packet_queue_wise_pkt_count = (\<lambda>_. 0),
      retx_queues = Map.empty, retx_policy = new_Wrr False True,
      next_window_type = (\<lambda>_. W_kRequest),
      contexts = cs, view = v, sched_calls = []\<rparr>"

text \<open>\<open>connection_queues_[scid]\<close> creates the queues when they are missing.\<close>

definition queues_of :: "FastSchedulers \<Rightarrow> u32 \<Rightarrow> ConnectionSchedulerQueues" where
  "queues_of s scid = (case connection_queues s scid of
     Some m \<Rightarrow> m | None \<Rightarrow> new_ConnectionSchedulerQueues)"

definition put_queues :: "u32 \<Rightarrow> ConnectionSchedulerQueues \<Rightarrow> FastSchedulers \<Rightarrow> FastSchedulers" where
  "put_queues scid m s = s\<lparr>connection_queues := (connection_queues s)(scid \<mapsto> m)\<rparr>"

definition retx_queues_of :: "FastSchedulers \<Rightarrow> u32 \<Rightarrow> RetransmissionSchedulerQueues" where
  "retx_queues_of s scid = (case retx_queues s scid of
     Some m \<Rightarrow> m | None \<Rightarrow> new_RetransmissionSchedulerQueues)"

definition InitConnectionSchedulerQueues ::
    "u32 \<Rightarrow> FastSchedulers \<Rightarrow> (FastSchedulers \<times> status) option" where
  "InitConnectionSchedulerQueues scid s =
     (if connection_queues s scid \<noteq> None then Some (s, AlreadyExistsError)
      else
        let s1 = put_queues scid new_ConnectionSchedulerQueues s;
            (s2, st) = fold (\<lambda>q (s, st).
              if st \<noteq> OkStatus then (s, st)
              else case wrr_InitializeEntity None scid (connection_policy s q) of
                (p, st') \<Rightarrow> (s\<lparr>connection_policy := (connection_policy s)(q := p)\<rparr>, st'))
              packet_type_queues (s1, OkStatus)
        in if st \<noteq> OkStatus then Some (s2, st)
           else case wrr_InitializeEntity None scid (ordered_push_req_connection_policy s2) of
             (p, st1) \<Rightarrow>
               (case wrr_InitializeEntity None scid (phantom_connection_policy s2) of
                 (h, st2) \<Rightarrow> do {
                   check_ok st1;
                   check_ok st2;
                   Some (s2\<lparr>ordered_push_req_connection_policy := p,
                            phantom_connection_policy := h\<rparr>, OkStatus)
                 }))"

definition GetConnectionQueueLength :: "u32 \<Rightarrow> FastSchedulers \<Rightarrow> u32" where
  "GetConnectionQueueLength scid s =
     csq_GetSize kPullAndOrderedPushRequest (queues_of s scid) +
     csq_GetSize kUnorderedPushRequest (queues_of s scid) + csq_GetSize kPushData (queues_of s scid) +
     csq_GetSize Q_kPushGrant (queues_of s scid) + csq_GetSize Q_kPullData (queues_of s scid)"

definition UpdateOutstandingPacketCount ::
    "PacketTypeQueue \<Rightarrow> bool \<Rightarrow> FastSchedulers \<Rightarrow> FastSchedulers" where
  "UpdateOutstandingPacketCount q is_dequed s =
     s\<lparr>packet_queue_wise_pkt_count := (packet_queue_wise_pkt_count s)
        (q := if is_dequed then packet_queue_wise_pkt_count s q - 1
              else packet_queue_wise_pkt_count s q + 1)\<rparr>"


section \<open>Eligibility\<close>

definition mark_connection :: "bool \<Rightarrow> PacketTypeQueue \<Rightarrow> u32 \<Rightarrow> FastSchedulers \<Rightarrow> FastSchedulers option" where
  "mark_connection active q scid s = do {
     (p, _) \<leftarrow> (if active then MarkEntityActive scid (connection_policy s q)
               else MarkEntityInactive scid (connection_policy s q));
     Some (s\<lparr>connection_policy := (connection_policy s)(q := p)\<rparr>)
   }"

definition mark_phantom :: "bool \<Rightarrow> u32 \<Rightarrow> FastSchedulers \<Rightarrow> FastSchedulers option" where
  "mark_phantom active scid s = do {
     (p, _) \<leftarrow> (if active then MarkEntityActive scid (phantom_connection_policy s)
               else MarkEntityInactive scid (phantom_connection_policy s));
     Some (s\<lparr>phantom_connection_policy := p\<rparr>)
   }"

definition mark_ordered_push :: "bool \<Rightarrow> u32 \<Rightarrow> FastSchedulers \<Rightarrow> FastSchedulers option" where
  "mark_ordered_push active scid s = do {
     (p, _) \<leftarrow> (if active then MarkEntityActive scid (ordered_push_req_connection_policy s)
               else MarkEntityInactive scid (ordered_push_req_connection_policy s));
     Some (s\<lparr>ordered_push_req_connection_policy := p\<rparr>)
   }"

definition mark_packet_type :: "bool \<Rightarrow> PacketTypeQueue \<Rightarrow> FastSchedulers \<Rightarrow> FastSchedulers option" where
  "mark_packet_type active q s = do {
     (p, _) \<leftarrow> (if active then MarkEntityActive q (packet_type_policy s)
               else MarkEntityInactive q (packet_type_policy s));
     Some (s\<lparr>packet_type_policy := p\<rparr>)
   }"

text \<open>Lookups under \<open>CHECK_OK_THEN_ASSIGN\<close>.\<close>

definition find_packet ::
    "SchedConnection \<Rightarrow> u32 \<Rightarrow> PacketType \<Rightarrow> (TransactionKey \<times> TransactionMetadata \<times> PacketMetadata) option"
  where
  "find_packet cs rsn type = do {
     loc \<leftarrow> GetTransactionLocation type False;
     t \<leftarrow> transactions cs (mk_key rsn loc);
     p \<leftarrow> packets t type;
     Some (mk_key rsn loc, t, p)
   }"

text \<open>One iteration of the loop over the queue types of a connection.\<close>

definition recompute_queue ::
    "SchedConnection \<Rightarrow> u32 \<Rightarrow> PacketTypeQueue \<Rightarrow> FastSchedulers \<Rightarrow> FastSchedulers option" where
  "recompute_queue cs scid q s =
     (case csq_Peek q (queues_of s scid) of
        None \<Rightarrow> do {
          s1 \<leftarrow> mark_connection False q scid s;
          (if q = kPullAndOrderedPushRequest then do {
             s2 \<leftarrow> mark_phantom False scid s1;
             mark_ordered_push False scid s2
           } else Some s1)
        }
      | Some w \<Rightarrow>
        if q = kPullAndOrderedPushRequest \<and> work_type w = kInvalid then do {
          s1 \<leftarrow> mark_connection True q scid s;
          mark_phantom True scid s1
        } else do {
          s1 \<leftarrow> (if q = kPullAndOrderedPushRequest then mark_phantom False scid s else Some s);
          (if is_op_rate_limited cs \<noteq> 0 then mark_connection False q scid s1
           else do {
             is_packet_eligible \<leftarrow> (if q = kPushData then do {
                 (_, _, p) \<leftarrow> find_packet cs (work_rsn w) (work_type w);
                 Some (is_transmission_eligible p)
               } else Some True);
             let meets_cc = meets_initial_cc (view s1) scid (work_type w);
             let meets_oow = meets_initial_oow (view s1) scid (work_type w);
             s2 \<leftarrow> mark_connection (is_packet_eligible \<and> meets_cc \<and> meets_oow) q scid s1;
             (if q = kPullAndOrderedPushRequest
              then mark_ordered_push (work_type w = kPushRequest \<and> meets_cc \<and> meets_oow) scid s2
              else Some s2)
           })
        })"

definition admission_for :: "PacketTypeQueue \<Rightarrow> FastSchedulers \<Rightarrow> (FastSchedulers \<times> bool) option" where
  "admission_for q s =
     (case q of
        Q_kPushGrant \<Rightarrow> Some (s, admits (view s) kMaxRequestLength kPushGrant)
      | kPullAndOrderedPushRequest \<Rightarrow> do {
          (p, ordered) \<leftarrow> wrr_HasWork None (ordered_push_req_connection_policy s);
          let s1 = s\<lparr>ordered_push_req_connection_policy := p\<rparr>;
          (if ordered then Some (s1, True)
           else do {
             (h, phantom) \<leftarrow> wrr_HasWork None (phantom_connection_policy s1);
             let s2 = s1\<lparr>phantom_connection_policy := h\<rparr>;
             Some (s2, phantom \<or> admits (view s) kMaxRequestLength kPullRequest)
           })
        }
      | _ \<Rightarrow> Some (s, True))"

definition recompute_global :: "PacketTypeQueue \<Rightarrow> FastSchedulers \<Rightarrow> FastSchedulers option" where
  "recompute_global q s = do {
     (s1, meets_admission_control_criteria) \<leftarrow> admission_for q s;
     (if meets_admission_control_criteria then do {
        (p, work) \<leftarrow> wrr_HasWork None (connection_policy s1 q);
        let s2 = s1\<lparr>connection_policy := (connection_policy s1)(q := p)\<rparr>;
        mark_packet_type work q s2
      } else mark_packet_type False q s1)
   }"

definition fast_HasWork :: "FastSchedulers \<Rightarrow> (FastSchedulers \<times> bool) option" where
  "fast_HasWork s = do {
     (h, phantom) \<leftarrow> wrr_HasWork None (phantom_connection_policy s);
     let s1 = s\<lparr>phantom_connection_policy := h\<rparr>;
     (if phantom then Some (s1, True)
      else if \<not> CanSendPacket (view s1) then Some (s1, False)
      else do {
        (p, work) \<leftarrow> wrr_HasWork (Some (ComputePacketTypeWeight s1)) (packet_type_policy s1);
        Some (s1\<lparr>packet_type_policy := p\<rparr>, work)
      })
   }"

definition RecomputeEligibility :: "u32 \<Rightarrow> FastSchedulers \<Rightarrow> FastSchedulers option" where
  "RecomputeEligibility scid s = do {
     s1 \<leftarrow> (if connection_queues s scid = None then Some s
            else do {
              cs \<leftarrow> contexts s scid;
              each (recompute_queue cs scid) packet_type_queues s
            });
     s2 \<leftarrow> each recompute_global packet_type_queues s1;
     (s3, work) \<leftarrow> fast_HasWork s2;
     Some (if work then log_sched ScheduleSchedulerArbiter s3 else s3)
   }"

text \<open>The retransmission scheduler.\<close>

definition mark_retx :: "bool \<Rightarrow> u32 \<Rightarrow> FastSchedulers \<Rightarrow> FastSchedulers option" where
  "mark_retx active scid s = do {
     (p, _) \<leftarrow> (if active then MarkEntityActive scid (retx_policy s)
               else MarkEntityInactive scid (retx_policy s));
     Some (s\<lparr>retx_policy := p\<rparr>)
   }"

definition retx_work :: "WindowTypeQueue \<Rightarrow> u32 \<Rightarrow> FastSchedulers \<Rightarrow> bool" where
  "retx_work q scid s =
     (case rsq_Peek q (retx_queues_of s scid) of
        None \<Rightarrow> False
      | Some w \<Rightarrow> meets_retx_cc (view s) scid (rwd_psn w) (rwd_type w))"

definition choose_window :: "bool \<Rightarrow> bool \<Rightarrow> WindowTypeQueue \<Rightarrow> WindowTypeQueue" where
  "choose_window has_request has_data nxt =
     (let n1 = (if nxt = W_kRequest \<and> \<not> has_request then W_kData else nxt)
      in if n1 = W_kData \<and> \<not> has_data then W_kRequest else n1)"

definition retx_RecomputeEligibility :: "u32 \<Rightarrow> FastSchedulers \<Rightarrow> FastSchedulers option" where
  "retx_RecomputeEligibility scid s =
     (if retx_queues s scid = None then Some s
      else do {
        cs \<leftarrow> contexts s scid;
        (if is_op_rate_limited cs \<noteq> 0 then mark_retx False scid s
         else do {
           let has_request = retx_work W_kRequest scid s;
           let has_data = retx_work W_kData scid s;
           s1 \<leftarrow> (if has_request \<or> has_data then do {
                s0 \<leftarrow> mark_retx True scid s;
                Some (s0\<lparr>next_window_type := (next_window_type s0)
                  (scid := choose_window has_request has_data (next_window_type s0 scid))\<rparr>)
              } else mark_retx False scid s);
           (p, work) \<leftarrow> wrr_HasWork None (retx_policy s1);
           let s2 = s1\<lparr>retx_policy := p\<rparr>;
           Some (if work then log_sched ScheduleSchedulerArbiter s2 else s2)
         })
      })"

definition retx_HasWork :: "FastSchedulers \<Rightarrow> (FastSchedulers \<times> bool) option" where
  "retx_HasWork s =
     (if \<not> CanSendPacket (view s) then Some (s, False)
      else do {
        (p, work) \<leftarrow> wrr_HasWork None (retx_policy s);
        Some (s\<lparr>retx_policy := p\<rparr>, work)
      })"

section \<open>Gating variables\<close>

text \<open>The gating function of a connection runs both recomputations.\<close>

definition gating_function :: "u32 \<Rightarrow> FastSchedulers \<Rightarrow> FastSchedulers option" where
  "gating_function scid s = do {
     s1 \<leftarrow> RecomputeEligibility scid s;
     retx_RecomputeEligibility scid s1
   }"

text \<open>An assignment calls the function only when the value changes; the other operators always do.\<close>

definition assign_op_rate :: "u32 \<Rightarrow> int \<Rightarrow> FastSchedulers \<Rightarrow> FastSchedulers option" where
  "assign_op_rate scid v s = do {
     cs \<leftarrow> contexts s scid;
     (if is_op_rate_limited cs \<noteq> v
      then gating_function scid (s\<lparr>contexts := (contexts s)(scid \<mapsto> cs\<lparr>is_op_rate_limited := v\<rparr>)\<rparr>)
      else Some s)
   }"

definition gating_change ::
    "u32 \<Rightarrow> sched_view \<times> (u32 \<rightharpoonup> SchedConnection) \<Rightarrow> FastSchedulers \<Rightarrow> FastSchedulers option" where
  "gating_change scid change s =
     gating_function scid (s\<lparr>view := fst change, contexts := snd change\<rparr>)"

text \<open>The event scheduled after a transmission.\<close>

definition op_rate_event :: "u32 \<Rightarrow> FastSchedulers \<Rightarrow> FastSchedulers option" where
  "op_rate_event scid s = assign_op_rate scid 0 s"


section \<open>Connection scheduler\<close>

definition enqueue_work :: "u32 \<Rightarrow> PacketTypeQueue \<Rightarrow> WorkId \<Rightarrow> FastSchedulers \<Rightarrow> FastSchedulers" where
  "enqueue_work scid q w s = put_queues scid (csq_Enqueue q w (queues_of s scid)) s"

definition update_packet ::
    "u32 \<Rightarrow> TransactionKey \<Rightarrow> PacketType \<Rightarrow> (PacketMetadata \<Rightarrow> PacketMetadata) \<Rightarrow> FastSchedulers \<Rightarrow>
     FastSchedulers option" where
  "update_packet scid key type f s = do {
     cs \<leftarrow> contexts s scid;
     t \<leftarrow> transactions cs key;
     p \<leftarrow> packets t type;
     Some (s\<lparr>contexts := (contexts s)(scid \<mapsto> cs\<lparr>transactions := (transactions cs)
       (key \<mapsto> t\<lparr>packets := (packets t)(type \<mapsto> f p)\<rparr>)\<rparr>)\<rparr>)
   }"

fun queue_for :: "PacketType \<Rightarrow> bool \<Rightarrow> PacketTypeQueue option" where
  "queue_for kPullRequest is_ordered = Some kPullAndOrderedPushRequest"
| "queue_for kPushRequest is_ordered =
     Some (if is_ordered then kPullAndOrderedPushRequest else kUnorderedPushRequest)"
| "queue_for kPullData is_ordered = Some Q_kPullData"
| "queue_for kPushGrant is_ordered = Some Q_kPushGrant"
| "queue_for kPushSolicitedData is_ordered = Some kPushData"
| "queue_for kPushUnsolicitedData is_ordered = Some kPushData"
| "queue_for _ is_ordered = None"

definition AddPacketToQueue :: "u32 \<Rightarrow> u32 \<Rightarrow> PacketType \<Rightarrow> FastSchedulers \<Rightarrow> FastSchedulers option" where
  "AddPacketToQueue scid rsn type s = do {
     cs \<leftarrow> contexts s scid;
     (key, t, _) \<leftarrow> find_packet cs rsn type;
     let is_ordered = (ordered_mode cs = kOrdered);
     q \<leftarrow> queue_for type is_ordered;
     s1 \<leftarrow> (if type = kPushSolicitedData \<and> is_ordered then do {
              s0 \<leftarrow> update_packet scid key type (\<lambda>p. p\<lparr>is_transmission_eligible := True\<rparr>) s;
              Some (UpdateOutstandingPacketCount q False s0)
            } else Some s);
     let s2 = (if \<not> is_ordered \<or> type \<noteq> kPushSolicitedData
            then UpdateOutstandingPacketCount q False
              (enqueue_work scid q \<lparr>work_rsn = rsn, work_type = type\<rparr> s1) else s1);
     s3 \<leftarrow> (if is_ordered \<and> type = kPushUnsolicitedData then do {
              check (packets t kInvalid \<noteq> None);
              Some (enqueue_work scid kPullAndOrderedPushRequest
                \<lparr>work_rsn = rsn, work_type = kInvalid\<rparr>
                (UpdateOutstandingPacketCount kPullAndOrderedPushRequest False s2))
            } else Some s2);
     (if is_ordered \<and> type = kPushRequest then do {
        check (packets t kPushSolicitedData \<noteq> None);
        Some (enqueue_work scid kPushData \<lparr>work_rsn = rsn, work_type = kPushSolicitedData\<rparr> s3)
      } else Some s3)
   }"

definition EnqueuePacket :: "u32 \<Rightarrow> u32 \<Rightarrow> PacketType \<Rightarrow> FastSchedulers \<Rightarrow> FastSchedulers option" where
  "EnqueuePacket scid rsn type s = do {
     s1 \<leftarrow> AddPacketToQueue scid rsn type s;
     s2 \<leftarrow> RecomputeEligibility scid s1;
     Some (log_sched ScheduleSchedulerArbiter s2)
   }"

definition DequeuePacket :: "u32 \<Rightarrow> u32 \<Rightarrow> PacketType \<Rightarrow> FastSchedulers \<Rightarrow> FastSchedulers \<times> status" where
  "DequeuePacket scid rsn type s = (s, OkStatus)"

definition CanSend :: "u32 \<Rightarrow> u32 \<Rightarrow> PacketType \<Rightarrow> FastSchedulers \<Rightarrow> bool option" where
  "CanSend scid rsn type s = do {
     cs \<leftarrow> contexts s scid;
     (_, t, p) \<leftarrow> find_packet cs rsn type;
     len \<leftarrow> request_length t;
     Some (is_transmission_eligible p \<and> is_op_rate_limited cs = 0 \<and>
           meets_initial_cc (view s) scid type \<and> admits (view s) (ucast len) type \<and>
           meets_initial_oow (view s) scid type)
   }"

definition transmit :: "sched_env \<Rightarrow> u32 \<Rightarrow> u32 \<Rightarrow> PacketType \<Rightarrow> FastSchedulers \<Rightarrow> FastSchedulers option" where
  "transmit env scid rsn type s =
     each (gating_change scid) (after_transmit env scid rsn type s)
       (log_sched (TransmitPacket_call scid rsn type) s)"

definition start_op_gap :: "sched_env \<Rightarrow> u32 \<Rightarrow> FastSchedulers \<Rightarrow> FastSchedulers option" where
  "start_op_gap env scid s = do {
     cs \<leftarrow> contexts s scid;
     let s1 = s\<lparr>contexts := (contexts s)(scid \<mapsto> cs\<lparr>last_packet_send_time := elapsed_time env\<rparr>)\<rparr>;
     s2 \<leftarrow> assign_op_rate scid 1 s1;
     Some (log_sched (ScheduleOpRateEvent scid) s2)
   }"

definition pop_work :: "u32 \<Rightarrow> PacketTypeQueue \<Rightarrow> FastSchedulers \<Rightarrow> FastSchedulers option" where
  "pop_work scid q s = do {
     m \<leftarrow> csq_Pop q (queues_of s scid);
     Some (put_queues scid m s)
   }"

definition SchedulePacket ::
    "sched_env \<Rightarrow> u32 \<Rightarrow> PacketTypeQueue \<Rightarrow> WorkId \<Rightarrow> FastSchedulers \<Rightarrow> FastSchedulers option" where
  "SchedulePacket env scid q w s = do {
     let s1 = log_sched (ReserveAdmission scid (work_rsn w) (work_type w)) s
                \<lparr>view := after_reserve env scid (work_rsn w) (work_type w) (view s)\<rparr>;
     let s2 = UpdateOutstandingPacketCount q True s1;
     cs \<leftarrow> contexts s2 scid;
     (key, _, _) \<leftarrow> find_packet cs (work_rsn w) (work_type w);
     s3 \<leftarrow> start_op_gap env scid s2;
     s4 \<leftarrow> update_packet scid key (work_type w) (\<lambda>p. p\<lparr>schedule_status := OkStatus\<rparr>) s3;
     s5 \<leftarrow> transmit env scid (work_rsn w) (work_type w) s4;
     s6 \<leftarrow> pop_work scid q s5;
     RecomputeEligibility scid s6
   }"

definition HandlePhantomRequest ::
    "u32 \<Rightarrow> WorkId \<Rightarrow> PacketTypeQueue \<Rightarrow> FastSchedulers \<Rightarrow> FastSchedulers option" where
  "HandlePhantomRequest scid w q s = do {
     let key = mk_key (work_rsn w) kInitiator;
     s1 \<leftarrow> update_packet scid key kPushUnsolicitedData (\<lambda>p. p\<lparr>is_transmission_eligible := True\<rparr>) s;
     s2 \<leftarrow> update_packet scid key (work_type w) (\<lambda>p. p\<lparr>schedule_status := OkStatus\<rparr>) s1;
     s3 \<leftarrow> pop_work scid q s2;
     RecomputeEligibility scid (UpdateOutstandingPacketCount q True s3)
   }"

text \<open>The packet type, the connection and the work item the arbiter's turn goes to.\<close>

definition pick_work :: "FastSchedulers \<Rightarrow> (FastSchedulers \<times> PacketTypeQueue \<times> u32 \<times> WorkId) option" where
  "pick_work s = do {
     (tp, r) \<leftarrow> GetNextEntity (Some (ComputePacketTypeWeight s)) (packet_type_policy s);
     q \<leftarrow> check_ok_then_assign r;
     let s1 = s\<lparr>packet_type_policy := tp\<rparr>;
     (cp, r') \<leftarrow> GetNextEntity None (connection_policy s1 q);
     scid \<leftarrow> check_ok_then_assign r';
     let s2 = s1\<lparr>connection_policy := (connection_policy s1)(q := cp)\<rparr>;
     w \<leftarrow> csq_Peek q (queues_of s2 scid);
     Some (s2, q, scid, w)
   }"

definition ScheduleWork :: "sched_env \<Rightarrow> FastSchedulers \<Rightarrow> (FastSchedulers \<times> bool) option" where
  "ScheduleWork env s = do {
     (s1, q, scid, w) \<leftarrow> pick_work s;
     (if work_type w = kInvalid then do {
        s2 \<leftarrow> HandlePhantomRequest scid w q s1;
        Some (s2, True)
      } else do {
        ok \<leftarrow> CanSend scid (work_rsn w) (work_type w) s1;
        check ok;
        s2 \<leftarrow> SchedulePacket env scid q w s1;
        Some (s2, True)
      })
   }"

section \<open>Retransmission scheduler\<close>

definition retx_InitConnectionSchedulerQueues :: "u32 \<Rightarrow> FastSchedulers \<Rightarrow> (FastSchedulers \<times> status) option"
  where
  "retx_InitConnectionSchedulerQueues scid s =
     (if retx_queues s scid \<noteq> None then Some (s, AlreadyExistsError)
      else case wrr_InitializeEntity None scid (retx_policy s) of (p, st) \<Rightarrow> do {
        check_ok st;
        Some (s\<lparr>retx_queues := (retx_queues s)(scid \<mapsto> new_RetransmissionSchedulerQueues),
               retx_policy := p, next_window_type := (next_window_type s)(scid := W_kRequest)\<rparr>, OkStatus)
      })"

fun retx_queue_for :: "PacketType \<Rightarrow> WindowTypeQueue option" where
  "retx_queue_for kPullRequest = Some W_kRequest"
| "retx_queue_for kPushRequest = Some W_kRequest"
| "retx_queue_for kPullData = Some W_kData"
| "retx_queue_for kPushGrant = Some W_kData"
| "retx_queue_for kPushSolicitedData = Some W_kData"
| "retx_queue_for kPushUnsolicitedData = Some W_kData"
| "retx_queue_for _ = None"

text \<open>The lookups under \<open>ASSIGN_OR_RETURN\<close>; the PSN of a packet that was never sent is undefined.\<close>

definition retx_work_id ::
    "u32 \<Rightarrow> u32 \<Rightarrow> PacketType \<Rightarrow> FastSchedulers \<Rightarrow> (status + WindowTypeQueue \<times> RetransmissionWorkId) option"
  where
  "retx_work_id scid rsn type s =
     (case contexts s scid of
        None \<Rightarrow> Some (Inl NotFoundError)
      | Some cs \<Rightarrow> do {
          loc \<leftarrow> GetTransactionLocation type False;
          (case GetTransaction cs (mk_key rsn loc) of
             Inl e \<Rightarrow> Some (Inl e)
           | Inr t \<Rightarrow>
             (case GetPacketMetadata t type of
                Inl e \<Rightarrow> Some (Inl e)
              | Inr p \<Rightarrow> do {
                  q \<leftarrow> retx_queue_for type;
                  psn \<leftarrow> pm_psn p;
                  Some (Inr (q, \<lparr>rwd_rsn = rsn, rwd_psn = psn, rwd_type = type\<rparr>))
                }))
        })"

definition retx_EnqueuePacket ::
    "u32 \<Rightarrow> u32 \<Rightarrow> PacketType \<Rightarrow> FastSchedulers \<Rightarrow> (FastSchedulers \<times> status) option" where
  "retx_EnqueuePacket scid rsn type s = do {
     r \<leftarrow> retx_work_id scid rsn type s;
     (case r of
        Inl e \<Rightarrow> Some (s, e)
      | Inr (q, w) \<Rightarrow>
        (case rsq_Enqueue q w (retx_queues_of s scid) of (m, inserted) \<Rightarrow>
           let s1 = s\<lparr>retx_queues := (retx_queues s)(scid \<mapsto> m)\<rparr>
           in if \<not> inserted then Some (s1, AlreadyExistsError)
              else do {
                s2 \<leftarrow> retx_RecomputeEligibility scid s1;
                Some (log_sched ScheduleSchedulerArbiter s2, OkStatus)
              }))
   }"

definition retx_DequeuePacket ::
    "u32 \<Rightarrow> u32 \<Rightarrow> PacketType \<Rightarrow> FastSchedulers \<Rightarrow> (FastSchedulers \<times> status) option" where
  "retx_DequeuePacket scid rsn type s = do {
     r \<leftarrow> retx_work_id scid rsn type s;
     (case r of
        Inl e \<Rightarrow> Some (s, e)
      | Inr (q, w) \<Rightarrow> do {
          let m = fst (rsq_Dequeue q w (retx_queues_of s scid));
          s2 \<leftarrow> retx_RecomputeEligibility scid (s\<lparr>retx_queues := (retx_queues s)(scid \<mapsto> m)\<rparr>);
          Some (s2, OkStatus)
        })
   }"

definition retx_CanSend :: "u32 \<Rightarrow> u32 \<Rightarrow> PacketType \<Rightarrow> FastSchedulers \<Rightarrow> bool option" where
  "retx_CanSend scid psn type s = do {
     cs \<leftarrow> contexts s scid;
     Some (is_op_rate_limited cs = 0 \<and> meets_retx_cc (view s) scid psn type)
   }"

definition retx_SchedulePacket ::
    "sched_env \<Rightarrow> u32 \<Rightarrow> WindowTypeQueue \<Rightarrow> RetransmissionWorkId \<Rightarrow> FastSchedulers \<Rightarrow> FastSchedulers option"
  where
  "retx_SchedulePacket env scid q w s = do {
     cs \<leftarrow> contexts s scid;
     (key, _, _) \<leftarrow> find_packet cs (rwd_rsn w) (rwd_type w);
     s1 \<leftarrow> update_packet scid key (rwd_type w) (\<lambda>p. p\<lparr>schedule_status := OkStatus\<rparr>) s;
     s2 \<leftarrow> start_op_gap env scid s1;
     s3 \<leftarrow> transmit env scid (rwd_rsn w) (rwd_type w) s2;
     let m = fst (rsq_Dequeue q w (retx_queues_of s3 scid));
     retx_RecomputeEligibility scid (s3\<lparr>retx_queues := (retx_queues s3)(scid \<mapsto> m)\<rparr>)
   }"

definition retx_pick ::
    "FastSchedulers \<Rightarrow> (FastSchedulers \<times> WindowTypeQueue \<times> u32 \<times> RetransmissionWorkId) option" where
  "retx_pick s = do {
     (p, r) \<leftarrow> GetNextEntity None (retx_policy s);
     scid \<leftarrow> check_ok_then_assign r;
     let s1 = s\<lparr>retx_policy := p\<rparr>;
     let q = next_window_type s1 scid;
     w \<leftarrow> rsq_Peek q (retx_queues_of s1 scid);
     Some (s1, q, scid, w)
   }"

definition retx_ScheduleWork :: "sched_env \<Rightarrow> FastSchedulers \<Rightarrow> (FastSchedulers \<times> bool) option" where
  "retx_ScheduleWork env s = do {
     (s1, q, scid, w) \<leftarrow> retx_pick s;
     ok \<leftarrow> retx_CanSend scid (rwd_psn w) (rwd_type w) s1;
     check ok;
     let s2 = s1\<lparr>next_window_type := (next_window_type s1)
                (scid := if q = W_kRequest then W_kData else W_kRequest)\<rparr>;
     s3 \<leftarrow> retx_SchedulePacket env scid q w s2;
     Some (s3, True)
   }"

end
