(* ===== verification/Fast_Scheduler_Facts.thy ===== *)
theory Fast_Scheduler_Facts
  imports Fast_Schedulers
begin

text \<open>
  What the event-based schedulers of \<open>Fast_Schedulers\<close> guarantee: the specifications of the policy
  operations they use, the effect of a recomputation, the invariant of all operations, and the
  properties.
\<close>

section \<open>The policies\<close>

definition known :: "'e Wrr \<Rightarrow> 'e \<Rightarrow> bool" where
  "known p e \<longleftrightarrow> wrr_md p e \<noteq> None"

lemma known_keys: "known p e \<longleftrightarrow> e \<in> fst ` set (wrr_metadata p)"
  by (simp add: known_def map_of_eq_None_iff)

lemma IsActive_known: "wrr_inv u p \<Longrightarrow> IsActive p e \<Longrightarrow> known p e"
  by (auto simp: known_def IsActive_md wrr_inv_matched)

lemma active_marked:
  "active_md (activated r md)" "\<not> active_md (deactivated md)"
  by (auto simp: active_md_def Let_def split: EntityState.splits)

lemma remeta_marked:
  assumes "matched p" "active_md md' = b" "wrr_md p e = Some md"
  shows "IsActive (remeta (bt_set e md' (wrr_metadata p)) p) = (IsActive p)(e := b)"
    "known (remeta (bt_set e md' (wrr_metadata p)) p) = known p"
  using assms matched_wf [OF assms(1)] by (auto simp: fun_eq_iff IsActive_md known_def)

text \<open>A marking that does not fail sets the activity of its entity.\<close>

lemma mark_spec:
  assumes "wrr_inv u p" "wrr_md p e = Some md"
  shows "\<exists>p' c. (if b then MarkEntityActive e p else MarkEntityInactive e p) = Some (p', c)
    \<and> wrr_inv u p' \<and> IsActive p' = (IsActive p)(e := b) \<and> known p' = known p"
proof (cases b)
  case True
  then show ?thesis
    using MarkEntityActive_remeta [OF wrr_inv_matched [OF assms(1)] assms(2)] wrr_inv_marks(1) [OF assms]
      remeta_marked [OF wrr_inv_matched [OF assms(1)] _ assms(2)] active_marked by simp
next
  case False
  then show ?thesis
    using MarkEntityInactive_remeta [OF wrr_inv_matched [OF assms(1)] assms(2)] wrr_inv_marks(2) [OF assms]
      remeta_marked [OF wrr_inv_matched [OF assms(1)] _ assms(2)] active_marked by simp
qed

lemma mark_result:
  assumes "wrr_inv u p"
    and "(if b then MarkEntityActive e p else MarkEntityInactive e p) = Some (p', c)"
  shows "wrr_inv u p'" "IsActive p' = (IsActive p)(e := b)" "known p' = known p" "known p e"
proof -
  obtain md where md: "wrr_md p e = Some md"
    using assms(2) marks_known by (metis (full_types))
  with mark_spec [OF assms(1) md, of b] assms(2)
  show "wrr_inv u p'" "IsActive p' = (IsActive p)(e := b)" "known p' = known p" "known p e"
    by (auto simp: known_def)
qed

lemma IsRoundOver_keys:
  assumes "matched p" "IsRoundOver p = Some (p', b)"
  shows "fst ` set (wrr_metadata p') = fst ` set (wrr_metadata p)"
proof -
  have "StartSubRound p = Some (remeta (mapmd (\<lambda>_ md. settled_md (woken md)) (wrr_metadata p)) p)"
    using StartSubRound_remeta [OF matched_wf [OF assms(1)], of p] by (simp add: matched_self [OF assms(1)])
  then show ?thesis
    using assms(2) by (simp add: IsRoundOver_def split: if_splits) (elim conjE; hypsubst; simp)+
qed

lemma Reset_keys:
  assumes "matched p" "ResetAndRestartRound fetch p = Some p'"
  shows "fst ` set (wrr_metadata p') = fst ` set (wrr_metadata p)"
  using assms(2) ResetAndRestartRound_remeta [OF matched_wf [OF assms(1)], of fetch p]
  by (simp add: matched_self [OF assms(1)])

lemma HasWork_result:
  assumes "wrr_inv u p" "fetch_ok u fetch" "wrr_HasWork fetch p = Some (p', b)"
  shows "wrr_inv u p'" "IsActive p' = IsActive p" "known p' = known p"
    "b \<Longrightarrow> \<exists>e. IsActive p e" "\<not> b \<Longrightarrow> IsActive p e \<Longrightarrow> weight_now fetch p e \<le> 0"
proof -
  obtain p1 b1 where h: "wrr_HasWork fetch p = Some (p1, b1)" "wrr_inv u p1"
    "b1 \<longleftrightarrow> wrr_eligible p1 \<noteq> []" "\<And>e. IsActive p1 e = IsActive p e"
    "\<not> b1 \<Longrightarrow> (\<forall>e. IsActive p e \<longrightarrow> weight_now fetch p e \<le> 0)"
    by (rule HasWork_spec [OF assms(1,2)]) (rule that; assumption)
  have eq: "p1 = p'" "b1 = b" using h(1) assms(3) by auto
  show "wrr_inv u p'" "IsActive p' = IsActive p" using h eq by auto
  show "b \<Longrightarrow> \<exists>e. IsActive p e"
    using h(3) h(4) [of "hd (wrr_eligible p1)"] eq by (auto simp: IsActive_def)
  show "\<not> b \<Longrightarrow> IsActive p e \<Longrightarrow> weight_now fetch p e \<le> 0" using h(5) eq by blast
  obtain p2 over where r: "IsRoundOver p = Some (p2, over)" "wrr_inv u p2"
    by (rule IsRoundOver_spec [OF assms(1), where fetch = fetch]) (rule that; assumption)
  have k2: "fst ` set (wrr_metadata p2) = fst ` set (wrr_metadata p)"
    by (rule IsRoundOver_keys [OF wrr_inv_matched [OF assms(1)] r(1)])
  have "fst ` set (wrr_metadata p') = fst ` set (wrr_metadata p2)"
    using assms(3) r(1) Reset_keys [OF wrr_inv_matched [OF r(2)]]
    by (auto simp: wrr_HasWork_def split: if_splits bind_splits)
  with k2 show "known p' = known p" by (simp add: fun_eq_iff known_keys)
qed

text \<open>A policy whose weights are all one has work exactly when some entity is active.\<close>

lemma unit_fetch: "fetch_ok True None"
  by (simp add: fetch_ok_def)

lemma unit_HasWork:
  assumes "wrr_inv True p"
  shows "\<exists>p'. wrr_HasWork None p = Some (p', \<exists>e. IsActive p e) \<and> wrr_inv True p'
    \<and> IsActive p' = IsActive p \<and> known p' = known p"
proof -
  obtain p' b where h: "wrr_HasWork None p = Some (p', b)"
    by (rule HasWork_spec [OF assms unit_fetch]) (rule that; assumption)
  note r = HasWork_result [OF assms unit_fetch h]
  have "weight_now None p e = 1" if "IsActive p e" for e
    using assms that by (auto simp: weight_now_def IsActive_md wrr_inv_matched wrr_inv_def md_ok_def)
  then have "b \<longleftrightarrow> (\<exists>e. IsActive p e)" using r(4,5) by force
  with h r show ?thesis by auto
qed

lemma GetNextEntity_result:
  assumes "wrr_inv u p" "fetch_ok u fetch" "GetNextEntity fetch p = Some (p', r)"
  shows "wrr_inv u p'" "IsActive p' = IsActive p" "known p' = known p" "r = Inr e \<Longrightarrow> IsActive p e"
proof -
  obtain p1 r1 where g: "GetNextEntity fetch p = Some (p1, r1)" "wrr_inv u p1"
    "case r1 of Inr e \<Rightarrow> IsActive p e | Inl st \<Rightarrow> (\<forall>e. IsActive p e \<longrightarrow> weight_now fetch p e \<le> 0)"
    by (rule GetNextEntity_spec [OF assms(1,2)]) (rule that; assumption)
  have eq: "p1 = p'" "r1 = r" using g(1) assms(3) by auto
  show "wrr_inv u p'" "r = Inr e \<Longrightarrow> IsActive p e" using g eq by auto
  have "IsActive p' = IsActive p \<and> known p' = known p"
  proof (cases "wrr_eligible p = [] \<and> wrr_waiting p = []")
    case True
    then show ?thesis using assms(3) by (simp add: GetNextEntity_def)
  next
    case False
    obtain p2 over where r: "IsRoundOver p = Some (p2, over)" "wrr_inv u p2"
      "\<not> over \<Longrightarrow> wrr_eligible p2 \<noteq> [] \<and> 0 < global_credits_remaining p2"
      "\<And>e. IsActive p2 e = IsActive p e" "\<And>e. weight_now fetch p2 e = weight_now fetch p e"
      by (rule IsRoundOver_spec [OF assms(1), where fetch = fetch]) (rule that; assumption)
    have k2: "fst ` set (wrr_metadata p2) = fst ` set (wrr_metadata p)"
      by (rule IsRoundOver_keys [OF wrr_inv_matched [OF assms(1)] r(1)])
    obtain p3 where s3: "(if over then ResetAndRestartRound fetch p2 else Some p2) = Some p3"
      "wrr_inv u p3" "\<And>e. IsActive p3 e = IsActive p2 e"
      "wrr_eligible p3 \<noteq> [] \<Longrightarrow> 0 < global_credits_remaining p3"
      "fst ` set (wrr_metadata p3) = fst ` set (wrr_metadata p2)"
    proof (cases over)
      case True
      obtain p3 where p3: "ResetAndRestartRound fetch p2 = Some p3" "wrr_inv u p3"
        "\<And>e. e \<in> set (wrr_eligible p3) \<longleftrightarrow> IsActive p2 e \<and> 0 < weight_now fetch p2 e"
        "\<And>e. IsActive p3 e = IsActive p2 e" "wrr_eligible p3 \<noteq> [] \<Longrightarrow> 0 < global_credits_remaining p3"
        by (rule reset_spec [OF r(2) assms(2)]) (rule that; assumption)
      then show thesis
        using that True Reset_keys [OF wrr_inv_matched [OF r(2)] p3(1)] by simp
    qed (use that [of p2] r in auto)
    show ?thesis
    proof (cases "wrr_eligible p3 = []")
      case True
      then have "p' = p3" using assms(3) False r(1) s3(1) by (simp add: GetNextEntity_def)
      then show ?thesis using s3 k2 r(4) by (simp add: fun_eq_iff known_keys)
    next
      case ne: False
      obtain e md p4 where s4: "next_eligible p3 = Some e" "wrr_md p3 e = Some md"
        "em_state md = kEligible" "take_credit e p3 = Some p4" "wrr_inv u p4"
        "wrr_metadata p4 = bt_set e (taken (wrr_batched p3) md) (wrr_metadata p3)"
        by (rule serve_eligible [OF s3(2) ne s3(4) [OF ne]]) (rule that; assumption)
      have p4: "p' = p4" using assms(3) False ne r(1) s3(1) s4(1,4) by (simp add: GetNextEntity_def)
      have ek: "e \<in> fst ` set (wrr_metadata p3)" using s4(2) by (rule keys_known)
      have "IsActive p4 d = IsActive p3 d" for d
        using s4(2,3) matched_wf [OF wrr_inv_matched [OF s3(2)]] taken_facts(3) [OF s4(3)]
        by (auto simp: IsActive_md [OF wrr_inv_matched [OF s4(5)]]
            IsActive_md [OF wrr_inv_matched [OF s3(2)]] s4(6) active_md_def)
      moreover have "fst ` set (wrr_metadata p4) = fst ` set (wrr_metadata p3)"
        using ek by (simp add: s4(6) set_bt_set_fst insert_absorb)
      ultimately show ?thesis using s3 k2 r(4) by (simp add: p4 fun_eq_iff known_keys)
    qed
  qed
  then show "IsActive p' = IsActive p" "known p' = known p" by simp_all
qed

lemma initialize_result:
  assumes "wrr_inv u p" "fetch_ok u fetch"
  shows "wrr_inv u (fst (wrr_InitializeEntity fetch e p))"
    "IsActive (fst (wrr_InitializeEntity fetch e p)) = IsActive p"
    "known (fst (wrr_InitializeEntity fetch e p)) d \<longleftrightarrow> d = e \<or> known p d"
proof -
  show "wrr_inv u (fst (wrr_InitializeEntity fetch e p))" by (rule initialize_inv [OF assms])
  show "IsActive (fst (wrr_InitializeEntity fetch e p)) = IsActive p"
    by (auto simp: fun_eq_iff IsActive_def wrr_InitializeEntity_def put_md_def)
  show "known (fst (wrr_InitializeEntity fetch e p)) d \<longleftrightarrow> d = e \<or> known p d"
    by (auto simp: known_keys wrr_InitializeEntity_def put_md_def set_bt_set_fst map_of_eq_None_iff)
qed


section \<open>Recomputing the eligibility of a connection\<close>

definition policies_ok :: "FastSchedulers \<Rightarrow> bool" where
  "policies_ok s \<longleftrightarrow> wrr_inv False (packet_type_policy s) \<and> (\<forall>q. wrr_inv True (connection_policy s q)) \<and>
     wrr_inv True (phantom_connection_policy s) \<and> wrr_inv True (ordered_push_req_connection_policy s)"

text \<open>What a recomputation reads, and the whole state of the retransmission scheduler.\<close>

definition recompute_frame :: "FastSchedulers \<Rightarrow> _" where
  "recompute_frame s = (connection_queues s, packet_queue_wise_pkt_count s, contexts s, view s,
     retx_queues s, retx_policy s, next_window_type s)"

definition packet_eligible :: "SchedConnection \<Rightarrow> WorkId \<Rightarrow> bool" where
  "packet_eligible cs w = (case find_packet cs (work_rsn w) (work_type w) of
     Some (_, _, p) \<Rightarrow> is_transmission_eligible p | None \<Rightarrow> False)"

text \<open>The head of a queue may be sent, as far as the connection is concerned.\<close>

definition is_phantom :: "PacketTypeQueue \<Rightarrow> WorkId \<Rightarrow> bool" where
  "is_phantom q w \<longleftrightarrow> q = kPullAndOrderedPushRequest \<and> work_type w = kInvalid"

definition gates_open :: "FastSchedulers \<Rightarrow> u32 \<Rightarrow> SchedConnection \<Rightarrow> PacketTypeQueue \<Rightarrow> WorkId \<Rightarrow> bool" where
  "gates_open s c cs q w \<longleftrightarrow> is_op_rate_limited cs = 0 \<and> (q = kPushData \<longrightarrow> packet_eligible cs w) \<and>
     meets_initial_cc (view s) c (work_type w) \<and> meets_initial_oow (view s) c (work_type w)"

definition head_ready :: "FastSchedulers \<Rightarrow> u32 \<Rightarrow> PacketTypeQueue \<Rightarrow> bool" where
  "head_ready s c q \<longleftrightarrow> (\<exists>w cs. csq_Peek q (queues_of s c) = Some w \<and> contexts s c = Some cs \<and>
     (is_phantom q w \<or> gates_open s c cs q w))"

lemma mark_connectionD:
  assumes "mark_connection b q c s = Some s'" "policies_ok s"
  obtains p where "s' = s\<lparr>connection_policy := (connection_policy s)(q := p)\<rparr>" "wrr_inv True p"
    "IsActive p = (IsActive (connection_policy s q))(c := b)" "known p = known (connection_policy s q)"
    "known (connection_policy s q) c"
proof -
  obtain p x where p: "(if b then MarkEntityActive c (connection_policy s q)
      else MarkEntityInactive c (connection_policy s q)) = Some (p, x)"
    "s' = s\<lparr>connection_policy := (connection_policy s)(q := p)\<rparr>"
    using assms(1) by (auto simp: mark_connection_def simp del: if_splits split: bind_splits)
  show thesis
    using that [OF p(2)] mark_result [where u = True, OF _ p(1)] assms(2) by (simp add: policies_ok_def)
qed

lemma mark_phantomD:
  assumes "mark_phantom b c s = Some s'" "policies_ok s"
  obtains p where "s' = s\<lparr>phantom_connection_policy := p\<rparr>" "wrr_inv True p"
    "IsActive p = (IsActive (phantom_connection_policy s))(c := b)"
proof -
  obtain p x where p: "(if b then MarkEntityActive c (phantom_connection_policy s)
      else MarkEntityInactive c (phantom_connection_policy s)) = Some (p, x)"
    "s' = s\<lparr>phantom_connection_policy := p\<rparr>"
    using assms(1) by (auto simp: mark_phantom_def simp del: if_splits split: bind_splits)
  show thesis
    using that [OF p(2)] mark_result [where u = True, OF _ p(1)] assms(2) by (simp add: policies_ok_def)
qed

lemma mark_ordered_pushD:
  assumes "mark_ordered_push b c s = Some s'" "policies_ok s"
  obtains p where "s' = s\<lparr>ordered_push_req_connection_policy := p\<rparr>" "wrr_inv True p"
    "IsActive p = (IsActive (ordered_push_req_connection_policy s))(c := b)"
proof -
  obtain p x where p: "(if b then MarkEntityActive c (ordered_push_req_connection_policy s)
      else MarkEntityInactive c (ordered_push_req_connection_policy s)) = Some (p, x)"
    "s' = s\<lparr>ordered_push_req_connection_policy := p\<rparr>"
    using assms(1) by (auto simp: mark_ordered_push_def simp del: if_splits split: bind_splits)
  show thesis
    using that [OF p(2)] mark_result [where u = True, OF _ p(1)] assms(2) by (simp add: policies_ok_def)
qed

lemma mark_packet_typeD:
  assumes "mark_packet_type b q s = Some s'" "policies_ok s"
  obtains p where "s' = s\<lparr>packet_type_policy := p\<rparr>" "wrr_inv False p"
    "IsActive p = (IsActive (packet_type_policy s))(q := b)"
proof -
  obtain p x where p: "(if b then MarkEntityActive q (packet_type_policy s)
      else MarkEntityInactive q (packet_type_policy s)) = Some (p, x)"
    "s' = s\<lparr>packet_type_policy := p\<rparr>"
    using assms(1) by (auto simp: mark_packet_type_def simp del: if_splits split: bind_splits)
  show thesis
    using that [OF p(2)] mark_result [where u = False, OF _ p(1)] assms(2) by (simp add: policies_ok_def)
qed


definition phantom_head :: "FastSchedulers \<Rightarrow> u32 \<Rightarrow> bool" where
  "phantom_head s c \<longleftrightarrow> (\<exists>w. csq_Peek kPullAndOrderedPushRequest (queues_of s c) = Some w \<and>
     work_type w = kInvalid)"

text \<open>One queue: the connection is active for it exactly when its head is ready.\<close>

definition queue_recomputed :: "u32 \<Rightarrow> PacketTypeQueue set \<Rightarrow> FastSchedulers \<Rightarrow> FastSchedulers \<Rightarrow> bool" where
  "queue_recomputed c Q s s' \<longleftrightarrow> policies_ok s' \<and> recompute_frame s' = recompute_frame s \<and>
     packet_type_policy s' = packet_type_policy s \<and>
     (\<forall>q. IsActive (connection_policy s' q)
        = (if q \<in> Q then (IsActive (connection_policy s q))(c := head_ready s c q)
           else IsActive (connection_policy s q))) \<and>
     IsActive (phantom_connection_policy s')
       = (if kPullAndOrderedPushRequest \<in> Q then (IsActive (phantom_connection_policy s))(c := phantom_head s c)
          else IsActive (phantom_connection_policy s))"

lemma frame_sel:
  assumes "recompute_frame s' = recompute_frame s"
  shows "connection_queues s' = connection_queues s" "contexts s' = contexts s" "view s' = view s"
    "packet_queue_wise_pkt_count s' = packet_queue_wise_pkt_count s"
    "retx_queues s' = retx_queues s" "retx_policy s' = retx_policy s"
    "next_window_type s' = next_window_type s" "queues_of s' = queues_of s"
    "retx_queues_of s' = retx_queues_of s"
    "head_ready s' = head_ready s" "phantom_head s' = phantom_head s"
  using assms
  by (simp_all add: recompute_frame_def fun_eq_iff queues_of_def retx_queues_of_def head_ready_def
      phantom_head_def gates_open_def)

lemma recompute_queue_spec:
  assumes "policies_ok s" "contexts s c = Some cs" "recompute_queue cs c q s = Some s'"
  shows "queue_recomputed c {q} s s'"
proof (cases "csq_Peek q (queues_of s c)")
  case None
  then have h: "\<not> head_ready s c q" "q = kPullAndOrderedPushRequest \<Longrightarrow> \<not> phantom_head s c"
    by (auto simp: head_ready_def phantom_head_def)
  from None assms(3) obtain s1 where s1: "mark_connection False q c s = Some s1"
    "(if q = kPullAndOrderedPushRequest then do {
             s2 \<leftarrow> mark_phantom False c s1;
             mark_ordered_push False c s2
           } else Some s1) = Some s'"
    by (auto simp: recompute_queue_def simp del: if_splits split: bind_splits)
  from mark_connectionD [OF s1(1) assms(1)] obtain p where p:
    "s1 = s\<lparr>connection_policy := (connection_policy s)(q := p)\<rparr>" "wrr_inv True p"
    "IsActive p = (IsActive (connection_policy s q))(c := False)" by metis
  have ok1: "policies_ok s1" using assms(1) p by (simp add: policies_ok_def)
  show ?thesis
  proof (cases "q = kPullAndOrderedPushRequest")
    case True
    with s1(2) obtain s2 where s2: "mark_phantom False c s1 = Some s2" "mark_ordered_push False c s2 = Some s'"
      by (auto split: bind_splits)
    from mark_phantomD [OF s2(1) ok1] obtain p2 where p2: "s2 = s1\<lparr>phantom_connection_policy := p2\<rparr>"
      "wrr_inv True p2" "IsActive p2 = (IsActive (phantom_connection_policy s1))(c := False)" by metis
    have ok2: "policies_ok s2" using ok1 p2 by (simp add: policies_ok_def)
    from mark_ordered_pushD [OF s2(2) ok2] obtain p3 where
      p3: "s' = s2\<lparr>ordered_push_req_connection_policy := p3\<rparr>" "wrr_inv True p3" by metis
    show ?thesis
      using ok2 h True p p2 p3 by (simp add: queue_recomputed_def recompute_frame_def policies_ok_def)
  next
    case False
    with p(1) s1(2) have "s' = s\<lparr>connection_policy := (connection_policy s)(q := p)\<rparr>" by simp
    then show ?thesis
      using False ok1 h p by (simp add: queue_recomputed_def recompute_frame_def)
  qed
next
  case (Some w)
  show ?thesis
  proof (cases "is_phantom q w")
    case True
    with Some assms(3) obtain s1 where s1: "mark_connection True q c s = Some s1"
      "mark_phantom True c s1 = Some s'"
      by (auto simp: recompute_queue_def is_phantom_def split: bind_splits)
    from mark_connectionD [OF s1(1) assms(1)] obtain p where p:
      "s1 = s\<lparr>connection_policy := (connection_policy s)(q := p)\<rparr>" "wrr_inv True p"
      "IsActive p = (IsActive (connection_policy s q))(c := True)" by metis
    have ok1: "policies_ok s1" using assms(1) p by (simp add: policies_ok_def)
    from mark_phantomD [OF s1(2) ok1] obtain p2 where p2: "s' = s1\<lparr>phantom_connection_policy := p2\<rparr>"
      "wrr_inv True p2" "IsActive p2 = (IsActive (phantom_connection_policy s1))(c := True)" by metis
    have "head_ready s c q" "phantom_head s c"
      using Some True assms(2) by (auto simp: head_ready_def phantom_head_def is_phantom_def)
    then show ?thesis
      using ok1 True p p2
      by (simp add: is_phantom_def queue_recomputed_def recompute_frame_def policies_ok_def)
  next
    case False
    let ?P = "if q = kPullAndOrderedPushRequest then mark_phantom False c s else Some s"
    let ?K = "\<lambda>s1. (if is_op_rate_limited cs \<noteq> 0 then mark_connection False q c s1
             else do {
               is_packet_eligible \<leftarrow> (if q = kPushData then do {
                   (_, _, p) \<leftarrow> find_packet cs (work_rsn w) (work_type w);
                   Some (is_transmission_eligible p)
                 } else Some True);
               let meets_cc = meets_initial_cc (view s1) c (work_type w);
               let meets_oow = meets_initial_oow (view s1) c (work_type w);
               s2 \<leftarrow> mark_connection (is_packet_eligible \<and> meets_cc \<and> meets_oow) q c s1;
               (if q = kPullAndOrderedPushRequest
                then mark_ordered_push (work_type w = kPushRequest \<and> meets_cc \<and> meets_oow) c s2
                else Some s2)
             })"
    have np: "(q = kPullAndOrderedPushRequest \<and> work_type w = kInvalid) = False"
      using False by (simp add: is_phantom_def)
    have "Option.bind ?P ?K = Some s'"
      using assms(3) by (simp only: recompute_queue_def Some option.case np if_False)
    then obtain s1 where s1: "?P = Some s1" "?K s1 = Some s'" unfolding bind_eq_Some_conv by blast
    have nh: "q = kPullAndOrderedPushRequest \<Longrightarrow> \<not> phantom_head s c"
      using Some False by (simp add: phantom_head_def is_phantom_def)
    have hr: "head_ready s c q \<longleftrightarrow> gates_open s c cs q w"
      using Some False assms(2) by (simp add: head_ready_def)
    obtain p1 where p1: "s1 = s\<lparr>phantom_connection_policy := p1\<rparr>" "wrr_inv True p1"
      "IsActive p1 = (if q = kPullAndOrderedPushRequest
         then (IsActive (phantom_connection_policy s))(c := False) else IsActive (phantom_connection_policy s))"
    proof (cases "q = kPullAndOrderedPushRequest")
      case True
      with s1(1) have "mark_phantom False c s = Some s1" by simp
      from mark_phantomD [OF this assms(1)] True that show thesis by metis
    next
      case False
      then show thesis
        using that [of "phantom_connection_policy s"] s1(1) assms(1) by (simp add: policies_ok_def)
    qed
    have ok1: "policies_ok s1" using assms(1) p1 by (simp add: policies_ok_def)
    obtain s2 where s2: "mark_connection (head_ready s c q) q c s1 = Some s2"
      "s' = s2 \<or> (\<exists>b. mark_ordered_push b c s2 = Some s')"
    proof (cases "is_op_rate_limited cs = 0")
      case False
      then show thesis using that [of s'] s1(2) hr by (simp add: gates_open_def)
    next
      case True
      let ?E = "if q = kPushData then do {
                 (_, _, p) \<leftarrow> find_packet cs (work_rsn w) (work_type w);
                 Some (is_transmission_eligible p)
               } else Some True"
      let ?M = "\<lambda>s2. if q = kPullAndOrderedPushRequest
              then mark_ordered_push (work_type w = kPushRequest \<and>
                meets_initial_cc (view s1) c (work_type w) \<and> meets_initial_oow (view s1) c (work_type w)) c s2
              else Some s2"
      have op: "(is_op_rate_limited cs \<noteq> 0) = False" using True by simp
      have "Option.bind ?E (\<lambda>e. Option.bind (mark_connection (e \<and> meets_initial_cc (view s1) c (work_type w) \<and>
            meets_initial_oow (view s1) c (work_type w)) q c s1) ?M) = Some s'"
        using s1(2) by (simp only: op if_False Let_def)
      then obtain e s2 where e: "?E = Some e"
        "mark_connection (e \<and> meets_initial_cc (view s1) c (work_type w) \<and>
            meets_initial_oow (view s1) c (work_type w)) q c s1 = Some s2" "?M s2 = Some s'"
        unfolding bind_eq_Some_conv by blast
      have m: "s' = s2 \<or> (\<exists>b. mark_ordered_push b c s2 = Some s')"
        using e(3) by (cases "q = kPullAndOrderedPushRequest") auto
      have "e \<longleftrightarrow> (q = kPushData \<longrightarrow> packet_eligible cs w)"
        using e(1) by (auto simp: packet_eligible_def split: if_splits bind_splits)
      then have "(e \<and> meets_initial_cc (view s1) c (work_type w) \<and> meets_initial_oow (view s1) c (work_type w))
          \<longleftrightarrow> head_ready s c q"
        using True hr p1(1) by (simp add: gates_open_def)
      then show thesis using that e(2) m by simp
    qed
    from mark_connectionD [OF s2(1) ok1] obtain p where p:
      "s2 = s1\<lparr>connection_policy := (connection_policy s1)(q := p)\<rparr>" "wrr_inv True p"
      "IsActive p = (IsActive (connection_policy s1 q))(c := head_ready s c q)" by metis
    have ok2: "policies_ok s2" using ok1 p by (simp add: policies_ok_def)
    obtain p3 where p3: "s' = s2\<lparr>ordered_push_req_connection_policy := p3\<rparr>" "wrr_inv True p3"
    proof (cases "s' = s2")
      case True
      then show thesis using that [of "ordered_push_req_connection_policy s2"] ok2
        by (simp add: policies_ok_def)
    next
      case False
      with s2(2) obtain b where "mark_ordered_push b c s2 = Some s'" by blast
      from mark_ordered_pushD [OF this ok2] that show thesis by metis
    qed
    show ?thesis
      using ok2 p1 p p3 nh
      by (simp add: queue_recomputed_def recompute_frame_def policies_ok_def fun_eq_iff)
  qed
qed


lemma queue_recomputed_trans:
  assumes "queue_recomputed c Q s s1" "queue_recomputed c Q' s1 s2"
  shows "queue_recomputed c (Q \<union> Q') s s2"
proof -
  have f: "recompute_frame s1 = recompute_frame s" using assms(1) by (simp add: queue_recomputed_def)
  have h: "head_ready s1 = head_ready s" "phantom_head s1 = phantom_head s" by (rule frame_sel [OF f])+
  have "IsActive (connection_policy s2 q) = (if q \<in> Q \<union> Q'
      then (IsActive (connection_policy s q))(c := head_ready s c q) else IsActive (connection_policy s q))" for q
    using assms unfolding queue_recomputed_def h by (cases "q \<in> Q"; cases "q \<in> Q'") simp_all
  moreover have "IsActive (phantom_connection_policy s2) = (if kPullAndOrderedPushRequest \<in> Q \<union> Q'
      then (IsActive (phantom_connection_policy s))(c := phantom_head s c)
      else IsActive (phantom_connection_policy s))"
    using assms unfolding queue_recomputed_def h by (simp split: if_splits)
  ultimately show ?thesis
    using assms f by (simp add: queue_recomputed_def)
qed

lemma each_recompute_queue:
  "policies_ok s \<Longrightarrow> contexts s c = Some cs \<Longrightarrow> each (recompute_queue cs c) qs s = Some s' \<Longrightarrow>
     queue_recomputed c (set qs) s s'"
proof (induction qs arbitrary: s)
  case Nil
  then show ?case by (simp add: queue_recomputed_def)
next
  case (Cons q qs)
  from Cons.prems(3) obtain s1 where s1: "recompute_queue cs c q s = Some s1"
    "each (recompute_queue cs c) qs s1 = Some s'" by (auto split: bind_splits)
  note r = recompute_queue_spec [OF Cons.prems(1,2) s1(1)]
  then have f: "recompute_frame s1 = recompute_frame s" and ok: "policies_ok s1"
    by (simp_all add: queue_recomputed_def)
  have "contexts s1 c = Some cs" using Cons.prems(2) by (simp add: frame_sel [OF f])
  from queue_recomputed_trans [OF r Cons.IH [OF ok this s1(2)]] show ?case by simp
qed

lemma packet_type_queues_UNIV [simp]: "set packet_type_queues = UNIV"
proof -
  have "q \<in> set packet_type_queues" for q by (cases q) (simp_all add: packet_type_queues_def)
  then show ?thesis by auto
qed

section \<open>The global criteria\<close>

definition same_activity :: "FastSchedulers \<Rightarrow> FastSchedulers \<Rightarrow> bool" where
  "same_activity s s' \<longleftrightarrow> policies_ok s' \<and> recompute_frame s' = recompute_frame s \<and>
     (\<forall>q. IsActive (connection_policy s' q) = IsActive (connection_policy s q)) \<and>
     IsActive (phantom_connection_policy s') = IsActive (phantom_connection_policy s) \<and>
     IsActive (ordered_push_req_connection_policy s') = IsActive (ordered_push_req_connection_policy s)"

definition admission_met :: "FastSchedulers \<Rightarrow> PacketTypeQueue \<Rightarrow> bool" where
  "admission_met s q \<longleftrightarrow> (q = Q_kPushGrant \<longrightarrow> admits (view s) kMaxRequestLength kPushGrant) \<and>
     (q = kPullAndOrderedPushRequest \<longrightarrow>
        (\<exists>c. IsActive (ordered_push_req_connection_policy s) c) \<or>
        (\<exists>c. IsActive (phantom_connection_policy s) c) \<or> admits (view s) kMaxRequestLength kPullRequest)"

definition type_ready :: "FastSchedulers \<Rightarrow> PacketTypeQueue \<Rightarrow> bool" where
  "type_ready s q \<longleftrightarrow> admission_met s q \<and> (\<exists>c. IsActive (connection_policy s q) c)"

lemma same_activity_facts:
  assumes "same_activity s s'"
  shows "policies_ok s'" "recompute_frame s' = recompute_frame s"
    "admission_met s' = admission_met s" "type_ready s' = type_ready s"
proof -
  show "policies_ok s'" and f: "recompute_frame s' = recompute_frame s"
    using assms by (simp_all add: same_activity_def)
  show "admission_met s' = admission_met s" "type_ready s' = type_ready s"
    using assms by (simp_all add: fun_eq_iff admission_met_def type_ready_def same_activity_def frame_sel [OF f])
qed

lemma same_activity_refl: "policies_ok s \<Longrightarrow> same_activity s s"
  by (simp add: same_activity_def)

lemma same_activity_trans: "same_activity s s1 \<Longrightarrow> same_activity s1 s2 \<Longrightarrow> same_activity s s2"
  by (simp add: same_activity_def)

lemma admission_for_spec:
  assumes "policies_ok s"
  shows "\<exists>s'. admission_for q s = Some (s', admission_met s q) \<and> same_activity s s' \<and>
    packet_type_policy s' = packet_type_policy s"
proof (cases "q = kPullAndOrderedPushRequest")
  case False
  then show ?thesis
    using same_activity_refl [OF assms]
    by (cases q) (simp_all add: admission_for_def admission_met_def)
next
  case True
  have o: "wrr_inv True (ordered_push_req_connection_policy s)"
    and h: "wrr_inv True (phantom_connection_policy s)" using assms by (simp_all add: policies_ok_def)
  obtain po where po: "wrr_HasWork None (ordered_push_req_connection_policy s)
      = Some (po, \<exists>c. IsActive (ordered_push_req_connection_policy s) c)" "wrr_inv True po"
    "IsActive po = IsActive (ordered_push_req_connection_policy s)"
    using unit_HasWork [OF o] by blast
  obtain ph where ph: "wrr_HasWork None (phantom_connection_policy s)
      = Some (ph, \<exists>c. IsActive (phantom_connection_policy s) c)" "wrr_inv True ph"
    "IsActive ph = IsActive (phantom_connection_policy s)"
    using unit_HasWork [OF h] by blast
  show ?thesis
  proof (cases "\<exists>c. IsActive (ordered_push_req_connection_policy s) c")
    case ordered: True
    then show ?thesis
      using True assms po
      by (simp add: admission_for_def admission_met_def same_activity_def recompute_frame_def policies_ok_def)
  next
    case False
    then show ?thesis
      using True assms po ph
      by (simp add: admission_for_def admission_met_def same_activity_def recompute_frame_def policies_ok_def)
  qed
qed

lemma recompute_global_spec:
  assumes "policies_ok s" "recompute_global q s = Some s'"
  shows "same_activity s s'"
    "IsActive (packet_type_policy s') = (IsActive (packet_type_policy s))(q := type_ready s q)"
proof -
  obtain s1 where s1: "admission_for q s = Some (s1, admission_met s q)" "same_activity s s1"
    "packet_type_policy s1 = packet_type_policy s" using admission_for_spec [OF assms(1)] by blast
  have ok1: "policies_ok s1" using s1(2) by (rule same_activity_facts)
  obtain s2 where s2: "mark_packet_type (type_ready s q) q s2 = Some s'" "same_activity s1 s2"
    "packet_type_policy s2 = packet_type_policy s1"
  proof (cases "admission_met s q")
    case False
    then show thesis
      using that [of s1] assms(2) s1(1) same_activity_refl [OF ok1]
      by (simp add: recompute_global_def type_ready_def)
  next
    case True
    have c: "wrr_inv True (connection_policy s1 q)" using ok1 by (simp add: policies_ok_def)
    obtain p where p: "wrr_HasWork None (connection_policy s1 q)
        = Some (p, \<exists>c. IsActive (connection_policy s1 q) c)" "wrr_inv True p"
      "IsActive p = IsActive (connection_policy s1 q)"
      using unit_HasWork [OF c] by blast
    let ?s2 = "s1\<lparr>connection_policy := (connection_policy s1)(q := p)\<rparr>"
    have "same_activity s1 ?s2"
      using ok1 p by (simp add: same_activity_def policies_ok_def recompute_frame_def)
    moreover have "(\<exists>c. IsActive (connection_policy s1 q) c) \<longleftrightarrow> type_ready s q"
      using True s1(2) by (simp add: type_ready_def same_activity_def)
    ultimately show thesis
      using that [of ?s2] assms(2) True s1(1) p(1) by (simp add: recompute_global_def)
  qed
  have ok2: "policies_ok s2" using s2(2) by (rule same_activity_facts)
  from mark_packet_typeD [OF s2(1) ok2] obtain p where p: "s' = s2\<lparr>packet_type_policy := p\<rparr>"
    "wrr_inv False p" "IsActive p = (IsActive (packet_type_policy s2))(q := type_ready s q)" by metis
  have "same_activity s2 s'"
    using ok2 p by (simp add: same_activity_def policies_ok_def recompute_frame_def)
  with s1(2) s2(2) show "same_activity s s'" by (blast intro: same_activity_trans)
  show "IsActive (packet_type_policy s') = (IsActive (packet_type_policy s))(q := type_ready s q)"
    using p s1(3) s2(3) by simp
qed

lemma each_recompute_global:
  "policies_ok s \<Longrightarrow> each recompute_global qs s = Some s' \<Longrightarrow>
     same_activity s s' \<and> (\<forall>q. IsActive (packet_type_policy s') q
       = (if q \<in> set qs then type_ready s q else IsActive (packet_type_policy s) q))"
proof (induction qs arbitrary: s)
  case Nil
  then show ?case by (simp add: same_activity_refl)
next
  case (Cons q qs)
  from Cons.prems(2) obtain s1 where s1: "recompute_global q s = Some s1"
    "each recompute_global qs s1 = Some s'" by (auto split: bind_splits)
  note r = recompute_global_spec [OF Cons.prems(1) s1(1)]
  from Cons.IH [OF same_activity_facts(1) [OF r(1)] s1(2)] r
  show ?case by (auto intro: same_activity_trans simp: same_activity_facts [OF r(1)])
qed

lemma fast_HasWork_spec:
  assumes "policies_ok s" "fast_HasWork s = Some (s', b)"
  shows "same_activity s s'" "IsActive (packet_type_policy s') = IsActive (packet_type_policy s)"
    "b \<Longrightarrow> (\<exists>c. IsActive (phantom_connection_policy s) c) \<or>
       CanSendPacket (view s) \<and> (\<exists>q. IsActive (packet_type_policy s) q)"
proof -
  have h: "wrr_inv True (phantom_connection_policy s)" using assms(1) by (simp add: policies_ok_def)
  obtain ph where ph: "wrr_HasWork None (phantom_connection_policy s)
      = Some (ph, \<exists>c. IsActive (phantom_connection_policy s) c)" "wrr_inv True ph"
    "IsActive ph = IsActive (phantom_connection_policy s)"
    using unit_HasWork [OF h] by blast
  let ?s1 = "s\<lparr>phantom_connection_policy := ph\<rparr>"
  have a1: "same_activity s ?s1"
    using assms(1) ph by (simp add: same_activity_def policies_ok_def recompute_frame_def)
  have f: "fetch_ok False (Some (ComputePacketTypeWeight x))" for x
    by (simp add: fetch_ok_def ComputePacketTypeWeight_def)
  have "same_activity s s' \<and> IsActive (packet_type_policy s') = IsActive (packet_type_policy s) \<and>
    (b \<longrightarrow> (\<exists>c. IsActive (phantom_connection_policy s) c) \<or>
       CanSendPacket (view s) \<and> (\<exists>q. IsActive (packet_type_policy s) q))"
  proof (cases "(\<exists>c. IsActive (phantom_connection_policy s) c) \<or> \<not> CanSendPacket (view s)")
    case True
    then show ?thesis
      using assms(2) ph(1) a1 by (auto simp: fast_HasWork_def Let_def split: if_splits)
  next
    case False
    then obtain p where p: "wrr_HasWork (Some (ComputePacketTypeWeight ?s1)) (packet_type_policy s) = Some (p, b)"
      "s' = ?s1\<lparr>packet_type_policy := p\<rparr>"
      using assms(2) ph(1) by (auto simp: fast_HasWork_def Let_def split: bind_splits)
    have "wrr_inv False (packet_type_policy s)" using assms(1) by (simp add: policies_ok_def)
    note r = HasWork_result [OF this f p(1)]
    have "same_activity ?s1 s'"
      using assms(1) ph(2) p(2) r(1) by (simp add: same_activity_def policies_ok_def recompute_frame_def)
    with a1 have "same_activity s s'" by (rule same_activity_trans)
    then show ?thesis using False p(2) r(2,4) by auto
  qed
  then show "same_activity s s'" "IsActive (packet_type_policy s') = IsActive (packet_type_policy s)"
    "b \<Longrightarrow> (\<exists>c. IsActive (phantom_connection_policy s) c) \<or>
       CanSendPacket (view s) \<and> (\<exists>q. IsActive (packet_type_policy s) q)" by blast+
qed

text \<open>The whole recomputation.\<close>

lemma log_sched_activity: "policies_ok s \<Longrightarrow> same_activity s (log_sched a s)"
  by (simp add: same_activity_def log_sched_def policies_ok_def recompute_frame_def)

lemma RecomputeEligibility_spec:
  assumes "policies_ok s" "RecomputeEligibility c s = Some s'"
  shows "policies_ok s'" "recompute_frame s' = recompute_frame s"
    "connection_queues s c \<noteq> None \<Longrightarrow> IsActive (connection_policy s' q)
       = (IsActive (connection_policy s q))(c := head_ready s c q)"
    "connection_queues s c = None \<Longrightarrow> IsActive (connection_policy s' q) = IsActive (connection_policy s q)"
    "connection_queues s c \<noteq> None \<Longrightarrow> IsActive (phantom_connection_policy s')
       = (IsActive (phantom_connection_policy s))(c := phantom_head s c)"
    "connection_queues s c = None \<Longrightarrow>
       IsActive (phantom_connection_policy s') = IsActive (phantom_connection_policy s)"
    "IsActive (packet_type_policy s') = type_ready s'"
proof -
  from assms(2) obtain s1 s2 s3 work where s:
    "(if connection_queues s c = None then Some s
      else do { cs \<leftarrow> contexts s c; each (recompute_queue cs c) packet_type_queues s }) = Some s1"
    "each recompute_global packet_type_queues s1 = Some s2" "fast_HasWork s2 = Some (s3, work)"
    "s' = (if work then log_sched ScheduleSchedulerArbiter s3 else s3)"
    by (auto simp: RecomputeEligibility_def simp del: if_splits split: bind_splits)
  have q: "queue_recomputed c (if connection_queues s c = None then {} else UNIV) s s1"
  proof (cases "connection_queues s c")
    case None
    then show ?thesis using s(1) assms(1) by (simp add: queue_recomputed_def)
  next
    case (Some m)
    with s(1) obtain cs where "contexts s c = Some cs"
      "each (recompute_queue cs c) packet_type_queues s = Some s1" by (auto split: bind_splits)
    from each_recompute_queue [OF assms(1) this] Some show ?thesis by simp
  qed
  then have ok1: "policies_ok s1" and f1: "recompute_frame s1 = recompute_frame s"
    by (simp_all add: queue_recomputed_def)
  note g = each_recompute_global [OF ok1 s(2)]
  then have ok2: "policies_ok s2" using same_activity_facts(1) by blast
  note h = fast_HasWork_spec [OF ok2 s(3)]
  have ok3: "policies_ok s3" by (rule same_activity_facts(1) [OF h(1)])
  have a3: "same_activity s3 s'" "packet_type_policy s' = packet_type_policy s3"
    using s(4) same_activity_refl [OF ok3] log_sched_activity [OF ok3] by (simp_all add: log_sched_def)
  have a: "same_activity s1 s'" using g h(1) a3 by (blast intro: same_activity_trans)
  show "policies_ok s'" "recompute_frame s' = recompute_frame s"
    using same_activity_facts [OF a] f1 by simp_all
  show "connection_queues s c \<noteq> None \<Longrightarrow> IsActive (connection_policy s' q)
       = (IsActive (connection_policy s q))(c := head_ready s c q)"
    "connection_queues s c = None \<Longrightarrow> IsActive (connection_policy s' q) = IsActive (connection_policy s q)"
    "connection_queues s c \<noteq> None \<Longrightarrow> IsActive (phantom_connection_policy s')
       = (IsActive (phantom_connection_policy s))(c := phantom_head s c)"
    "connection_queues s c = None \<Longrightarrow>
       IsActive (phantom_connection_policy s') = IsActive (phantom_connection_policy s)"
    using q a by (cases "connection_queues s c"; simp add: queue_recomputed_def same_activity_def)+
  have "IsActive (packet_type_policy s') q = type_ready s' q" for q
    using g h(2) a3(2) same_activity_facts(4) [OF a] by simp
  then show "IsActive (packet_type_policy s') = type_ready s'" by blast
qed


section \<open>The recomputation does not fail\<close>

text \<open>
  \<open>result t m P\<close>: the result of the computation satisfies \<open>P\<close> and, when \<open>t\<close> holds, there is one.
\<close>

definition result :: "bool \<Rightarrow> 'a option \<Rightarrow> ('a \<Rightarrow> bool) \<Rightarrow> bool" where
  "result t m P \<longleftrightarrow> (case m of Some x \<Rightarrow> P x | None \<Rightarrow> \<not> t)"

lemma result_Some [simp]: "result t (Some x) P \<longleftrightarrow> P x"
  by (simp add: result_def)

lemma result_weaken: "result True m P \<Longrightarrow> result t m P"
  by (auto simp: result_def split: option.splits)

lemma result_D: "result t m P \<Longrightarrow> m = Some x \<Longrightarrow> P x" "result True m P \<Longrightarrow> \<exists>x. m = Some x \<and> P x"
  by (auto simp: result_def split: option.splits)

lemma result_bind: "result t m P \<Longrightarrow> (\<And>x. P x \<Longrightarrow> result t (f x) Q) \<Longrightarrow> result t (Option.bind m f) Q"
  by (cases m) (auto simp: result_def)

lemma result_each:
  "P s \<Longrightarrow> (\<And>e s. e \<in> set es \<Longrightarrow> P s \<Longrightarrow> result t (f e s) P) \<Longrightarrow> result t (each f es s) P"
proof (induction es arbitrary: s)
  case (Cons e es)
  have "result t (f e s) P" using Cons.prems by simp
  then show ?case
    unfolding each.simps by (rule result_bind) (rule Cons.IH; use Cons.prems in simp)
qed simp

definition registered :: "FastSchedulers \<Rightarrow> u32 \<Rightarrow> bool" where
  "registered s c \<longleftrightarrow> (\<forall>q. known (connection_policy s q) c) \<and> known (phantom_connection_policy s) c \<and>
     known (ordered_push_req_connection_policy s) c \<and> (\<forall>q. known (packet_type_policy s) q)"

definition known_same :: "FastSchedulers \<Rightarrow> FastSchedulers \<Rightarrow> bool" where
  "known_same s s' \<longleftrightarrow> (\<forall>q. known (connection_policy s' q) = known (connection_policy s q)) \<and>
     known (phantom_connection_policy s') = known (phantom_connection_policy s) \<and>
     known (ordered_push_req_connection_policy s') = known (ordered_push_req_connection_policy s) \<and>
     known (packet_type_policy s') = known (packet_type_policy s)"

definition stable :: "bool \<Rightarrow> u32 \<Rightarrow> FastSchedulers \<Rightarrow> FastSchedulers \<Rightarrow> bool" where
  "stable t c s0 s \<longleftrightarrow> policies_ok s \<and> (t \<longrightarrow> registered s c) \<and> known_same s0 s \<and>
     recompute_frame s = recompute_frame s0"

lemmas stable_simps = stable_def policies_ok_def registered_def known_same_def recompute_frame_def

lemma mark_total:
  assumes "wrr_inv u p" "t \<longrightarrow> known p e"
  shows "result t (if b then MarkEntityActive e p else MarkEntityInactive e p)
    (\<lambda>(p', c). wrr_inv u p' \<and> known p' = known p)"
proof (cases "if b then MarkEntityActive e p else MarkEntityInactive e p")
  case None
  have "\<not> known p e"
  proof
    assume "known p e"
    then obtain md where "wrr_md p e = Some md" by (auto simp: known_def)
    from mark_spec [OF assms(1) this, of b] None show False by simp
  qed
  with None assms(2) show ?thesis by (simp add: result_def)
next
  case (Some x)
  obtain p' c where x: "x = (p', c)" by (cases x)
  from mark_result [OF assms(1) Some [unfolded x]] Some x show ?thesis by (simp add: result_def)
qed

lemma marks_total:
  assumes "stable t c s0 s"
  shows "result t (mark_connection b q c s) (stable t c s0)" "result t (mark_phantom b c s) (stable t c s0)"
    "result t (mark_ordered_push b c s) (stable t c s0)" "result t (mark_packet_type b q s) (stable t c s0)"
proof -
  note ok = assms [unfolded stable_def policies_ok_def registered_def known_same_def]
  have m: "result t (if b then MarkEntityActive c (connection_policy s q)
      else MarkEntityInactive c (connection_policy s q))
      (\<lambda>(p', x). wrr_inv True p' \<and> known p' = known (connection_policy s q))"
    by (rule mark_total) (use ok in auto)
  show "result t (mark_connection b q c s) (stable t c s0)"
    unfolding mark_connection_def using ok
    by (intro result_bind [OF m])
      (auto simp: stable_simps)
  have m: "result t (if b then MarkEntityActive c (phantom_connection_policy s)
      else MarkEntityInactive c (phantom_connection_policy s))
      (\<lambda>(p', x). wrr_inv True p' \<and> known p' = known (phantom_connection_policy s))"
    by (rule mark_total) (use ok in auto)
  show "result t (mark_phantom b c s) (stable t c s0)"
    unfolding mark_phantom_def using ok
    by (intro result_bind [OF m])
      (auto simp: stable_simps)
  have m: "result t (if b then MarkEntityActive c (ordered_push_req_connection_policy s)
      else MarkEntityInactive c (ordered_push_req_connection_policy s))
      (\<lambda>(p', x). wrr_inv True p' \<and> known p' = known (ordered_push_req_connection_policy s))"
    by (rule mark_total) (use ok in auto)
  show "result t (mark_ordered_push b c s) (stable t c s0)"
    unfolding mark_ordered_push_def using ok
    by (intro result_bind [OF m])
      (auto simp: stable_simps)
  have m: "result t (if b then MarkEntityActive q (packet_type_policy s)
      else MarkEntityInactive q (packet_type_policy s))
      (\<lambda>(p', x). wrr_inv False p' \<and> known p' = known (packet_type_policy s))"
    by (rule mark_total) (use ok in auto)
  show "result t (mark_packet_type b q s) (stable t c s0)"
    unfolding mark_packet_type_def using ok
    by (intro result_bind [OF m])
      (auto simp: stable_simps)
qed

text \<open>The push data at the head of the queue is a packet of the connection.\<close>

definition head_found :: "FastSchedulers \<Rightarrow> u32 \<Rightarrow> SchedConnection \<Rightarrow> bool" where
  "head_found s c cs \<longleftrightarrow> (\<forall>w. csq_Peek kPushData (queues_of s c) = Some w \<longrightarrow>
     find_packet cs (work_rsn w) (work_type w) \<noteq> None)"

lemma recompute_queue_total:
  assumes "stable t c s0 s" "t \<longrightarrow> head_found s0 c cs"
  shows "result t (recompute_queue cs c q s) (stable t c s0)"
proof -
  have f: "recompute_frame s = recompute_frame s0" using assms(1) by (simp add: stable_def)
  show ?thesis
  proof (cases "csq_Peek q (queues_of s c)")
    case None
    show ?thesis
      unfolding recompute_queue_def None option.case
      by (rule result_bind [OF marks_total(1) [OF assms(1)]])
        (auto intro!: result_bind [OF marks_total(2)] marks_total(3))
  next
    case (Some w)
    have e: "result t (if q = kPushData then do {
                 (_, _, p) \<leftarrow> find_packet cs (work_rsn w) (work_type w);
                 Some (is_transmission_eligible p)
               } else Some True) (\<lambda>_. True)"
      using assms(2) Some by (auto simp: head_found_def frame_sel [OF f] result_def split: bind_splits)
    have p: "result t (if q = kPullAndOrderedPushRequest then mark_phantom False c s else Some s) (stable t c s0)"
      using marks_total(2) [OF assms(1)] assms(1) by simp
    have o: "result t (if q = kPullAndOrderedPushRequest then mark_ordered_push b c s2 else Some s2)
        (stable t c s0)" if "stable t c s0 s2" for b s2
      using marks_total(3) [OF that] that by simp
    show ?thesis
    proof (cases "q = kPullAndOrderedPushRequest \<and> work_type w = kInvalid")
      case True
      then show ?thesis
        unfolding recompute_queue_def Some option.case if_P [OF True]
        by (intro result_bind [OF marks_total(1) [OF assms(1)]] marks_total(2))
    next
      case False
      show ?thesis
        unfolding recompute_queue_def Some option.case if_not_P [OF False]
      proof (rule result_bind [OF p])
        fix s1 assume s1: "stable t c s0 s1"
        show "result t (if is_op_rate_limited cs \<noteq> 0 then mark_connection False q c s1
           else do {
             is_packet_eligible \<leftarrow> (if q = kPushData then do {
                 (_, _, p) \<leftarrow> find_packet cs (work_rsn w) (work_type w);
                 Some (is_transmission_eligible p)
               } else Some True);
             let meets_cc = meets_initial_cc (view s1) c (work_type w);
             let meets_oow = meets_initial_oow (view s1) c (work_type w);
             s2 \<leftarrow> mark_connection (is_packet_eligible \<and> meets_cc \<and> meets_oow) q c s1;
             (if q = kPullAndOrderedPushRequest
              then mark_ordered_push (work_type w = kPushRequest \<and> meets_cc \<and> meets_oow) c s2
              else Some s2)
           }) (stable t c s0)"
        proof (cases "is_op_rate_limited cs \<noteq> 0")
          case True
          then show ?thesis using marks_total(1) [OF s1] by simp
        next
          case False
          show ?thesis
            unfolding if_not_P [OF False] Let_def
            by (intro result_bind [OF e] result_bind [OF marks_total(1) [OF s1]] o)
        qed
      qed
    qed
  qed
qed

lemma HasWork_total:
  assumes "wrr_inv u p" "fetch_ok u fetch"
  shows "result t (wrr_HasWork fetch p) (\<lambda>(p', b). wrr_inv u p' \<and> known p' = known p)"
proof -
  obtain p' b where h: "wrr_HasWork fetch p = Some (p', b)"
    by (rule HasWork_spec [OF assms]) (rule that; assumption)
  then show ?thesis using HasWork_result [OF assms h] by (simp add: result_def)
qed

lemma admission_for_total:
  assumes "stable t c s0 s"
  shows "result t (admission_for q s) (\<lambda>(s', _). stable t c s0 s')"
proof (cases "q = kPullAndOrderedPushRequest")
  case False
  then show ?thesis using assms by (cases q) (simp_all add: admission_for_def)
next
  case True
  note ok = assms [unfolded stable_def policies_ok_def registered_def known_same_def]
  have o: "result t (wrr_HasWork None (ordered_push_req_connection_policy s))
      (\<lambda>(p', b). wrr_inv True p' \<and> known p' = known (ordered_push_req_connection_policy s))"
    and h: "result t (wrr_HasWork None (phantom_connection_policy s))
      (\<lambda>(p', b). wrr_inv True p' \<and> known p' = known (phantom_connection_policy s))"
    by (rule HasWork_total [OF _ unit_fetch]; simp add: ok)+
  show ?thesis
    unfolding True admission_for_def PacketTypeQueue.case
  proof (rule result_bind [OF o])
    fix x :: "u32 Wrr \<times> bool"
    assume "case x of (p', b) \<Rightarrow> wrr_inv True p' \<and> known p' = known (ordered_push_req_connection_policy s)"
    then show "result t (case x of (p, ordered) \<Rightarrow>
        let s1 = s\<lparr>ordered_push_req_connection_policy := p\<rparr>
        in if ordered then Some (s1, True)
           else do {
             (h, phantom) \<leftarrow> wrr_HasWork None (phantom_connection_policy s1);
             let s2 = s1\<lparr>phantom_connection_policy := h\<rparr>;
             Some (s2, phantom \<or> admits (view s) kMaxRequestLength kPullRequest)
           }) (\<lambda>(s', _). stable t c s0 s')"
      using ok by (cases x)
        (auto simp: stable_simps Let_def
          intro!: result_bind [OF h])
  qed
qed

lemma recompute_global_total:
  assumes "stable t c s0 s"
  shows "result t (recompute_global q s) (stable t c s0)"
  unfolding recompute_global_def
proof (rule result_bind [OF admission_for_total [OF assms]])
  fix x :: "FastSchedulers \<times> bool"
  assume x: "case x of (s', _) \<Rightarrow> stable t c s0 s'"
  obtain s1 b where s1: "x = (s1, b)" "stable t c s0 s1" using x by (cases x) simp
  note ok = s1(2) [unfolded stable_def policies_ok_def registered_def known_same_def]
  have h: "result t (wrr_HasWork None (connection_policy s1 q))
      (\<lambda>(p', b). wrr_inv True p' \<and> known p' = known (connection_policy s1 q))"
    by (rule HasWork_total [OF _ unit_fetch]) (simp add: ok)
  have "result t (do {
        (p, work) \<leftarrow> wrr_HasWork None (connection_policy s1 q);
        let s2 = s1\<lparr>connection_policy := (connection_policy s1)(q := p)\<rparr>;
        mark_packet_type work q s2
      }) (stable t c s0)"
  proof (rule result_bind [OF h])
    fix y :: "u32 Wrr \<times> bool"
    assume "case y of (p', b) \<Rightarrow> wrr_inv True p' \<and> known p' = known (connection_policy s1 q)"
    then have "stable t c s0 (s1\<lparr>connection_policy := (connection_policy s1)(q := fst y)\<rparr>)"
      using ok by (cases y) (auto simp: stable_simps)
    then show "result t (case y of (p, work) \<Rightarrow>
        let s2 = s1\<lparr>connection_policy := (connection_policy s1)(q := p)\<rparr> in mark_packet_type work q s2)
        (stable t c s0)"
      using marks_total(4) by (cases y) simp
  qed
  then show "result t (case x of (s1, m) \<Rightarrow> if m then do {
        (p, work) \<leftarrow> wrr_HasWork None (connection_policy s1 q);
        let s2 = s1\<lparr>connection_policy := (connection_policy s1)(q := p)\<rparr>;
        mark_packet_type work q s2
      } else mark_packet_type False q s1) (stable t c s0)"
    using marks_total(4) [OF s1(2)] by (simp add: s1(1))
qed

lemma fast_HasWork_total:
  assumes "policies_ok s"
  shows "result t (fast_HasWork s) (\<lambda>(s', _). known_same s s')"
proof -
  have h: "result t (wrr_HasWork None (phantom_connection_policy s))
      (\<lambda>(p', b). wrr_inv True p' \<and> known p' = known (phantom_connection_policy s))"
    using assms by (intro HasWork_total [OF _ unit_fetch]) (simp add: policies_ok_def)
  have p: "result t (wrr_HasWork (Some (ComputePacketTypeWeight x)) (packet_type_policy s))
      (\<lambda>(p', b). wrr_inv False p' \<and> known p' = known (packet_type_policy s))" for x
    using assms by (intro HasWork_total) (simp_all add: policies_ok_def fetch_ok_def ComputePacketTypeWeight_def)
  show ?thesis
    unfolding fast_HasWork_def Let_def
    by (rule result_bind [OF h]) (auto intro!: result_bind [OF p] simp: known_same_def)
qed

lemma known_same_trans: "known_same s s1 \<Longrightarrow> known_same s1 s2 \<Longrightarrow> known_same s s2"
  by (simp add: known_same_def)

lemma RecomputeEligibility_total:
  assumes "policies_ok s" "t \<longrightarrow> registered s c \<and> (\<exists>cs. contexts s c = Some cs \<and> head_found s c cs)"
  shows "result t (RecomputeEligibility c s) (known_same s)"
proof -
  have s: "stable t c s s" using assms by (simp add: stable_def known_same_def)
  have q: "result t (if connection_queues s c = None then Some s
      else do { cs \<leftarrow> contexts s c; each (recompute_queue cs c) packet_type_queues s }) (stable t c s)"
  proof (cases "contexts s c")
    case None
    then show ?thesis using s assms(2) by (auto simp: result_def)
  next
    case (Some cs)
    have "result t (each (recompute_queue cs c) packet_type_queues s) (stable t c s)"
      by (rule result_each [of "stable t c s", OF s]) (rule recompute_queue_total; use assms(2) Some in simp)
    with s Some show ?thesis by simp
  qed
  show ?thesis
    unfolding RecomputeEligibility_def
  proof (rule result_bind [OF q])
    fix s1 assume s1: "stable t c s s1"
    show "result t (do { s2 \<leftarrow> each recompute_global packet_type_queues s1; (s3, work) \<leftarrow> fast_HasWork s2;
        Some (if work then log_sched ScheduleSchedulerArbiter s3 else s3) }) (known_same s)"
    proof (rule result_bind [OF result_each [of "stable t c s"]])
      fix s2 assume "stable t c s s2"
      then have s2: "policies_ok s2" "known_same s s2" by (simp_all add: stable_def)
      show "result t (do { (s3, work) \<leftarrow> fast_HasWork s2;
          Some (if work then log_sched ScheduleSchedulerArbiter s3 else s3) }) (known_same s)"
        by (rule result_bind [OF fast_HasWork_total [OF s2(1)]])
          (use s2(2) in \<open>auto simp: log_sched_def known_same_def\<close>)
    qed (use s1 recompute_global_total in auto)
  qed
qed

lemma RecomputeEligibility_known:
  "policies_ok s \<Longrightarrow> RecomputeEligibility c s = Some s' \<Longrightarrow> known_same s s'"
  by (rule result_D(1) [OF RecomputeEligibility_total [where t = False]]) simp_all

lemma RecomputeEligibility_returns:
  assumes "policies_ok s" "registered s c" "contexts s c = Some cs" "head_found s c cs"
  shows "\<exists>s'. RecomputeEligibility c s = Some s'"
  using result_D(2) [OF RecomputeEligibility_total [where t = True, OF assms(1), of c]] assms(2-4) by auto

end
