(* ===== verification/Fast_Scheduler_History.thy ===== *)
theory Fast_Scheduler_History
  imports Fast_Scheduler_Facts
begin

text \<open>
  The event-based schedulers over all operations: the invariant that an active connection has a packet
  that passes the connection's gates, kept because every change of what the gates read runs the gating
  function of that connection, and the properties that rest on it.
\<close>

section \<open>Invariants\<close>

text \<open>\<open>E\<close> are the connections whose eligibility is still to be recomputed.\<close>

definition conn_inv :: "u32 set \<Rightarrow> FastSchedulers \<Rightarrow> bool" where
  "conn_inv E s \<longleftrightarrow> policies_ok s \<and> (\<forall>q. known (packet_type_policy s) q) \<and>
     (\<forall>c. connection_queues s c \<noteq> None \<longrightarrow> registered s c) \<and>
     (\<forall>q c. known (connection_policy s q) c \<longrightarrow> connection_queues s c \<noteq> None) \<and>
     (\<forall>q c. IsActive (connection_policy s q) c \<longrightarrow> c \<notin> E \<longrightarrow> head_ready s c q) \<and>
     (\<forall>q. IsActive (packet_type_policy s) q \<longrightarrow> (\<exists>c. IsActive (connection_policy s q) c))"

definition retx_ready :: "FastSchedulers \<Rightarrow> u32 \<Rightarrow> bool" where
  "retx_ready s c \<longleftrightarrow> (\<exists>cs w. contexts s c = Some cs \<and> is_op_rate_limited cs = 0 \<and>
     rsq_Peek (next_window_type s c) (retx_queues_of s c) = Some w \<and>
     meets_retx_cc (view s) c (rwd_psn w) (rwd_type w))"

definition retx_inv :: "u32 set \<Rightarrow> FastSchedulers \<Rightarrow> bool" where
  "retx_inv E s \<longleftrightarrow> wrr_inv True (retx_policy s) \<and>
     (\<forall>c. known (retx_policy s) c \<longrightarrow> retx_queues s c \<noteq> None) \<and>
     (\<forall>c. IsActive (retx_policy s) c \<longrightarrow> c \<notin> E \<longrightarrow> retx_ready s c)"

text \<open>Steps that change no activity, and the readiness of the connections in \<open>X\<close> only.\<close>

definition conn_agree :: "u32 set \<Rightarrow> FastSchedulers \<Rightarrow> FastSchedulers \<Rightarrow> bool" where
  "conn_agree X s s' \<longleftrightarrow> (policies_ok s \<longrightarrow> policies_ok s') \<and> known_same s s' \<and>
     (\<forall>q. IsActive (connection_policy s' q) = IsActive (connection_policy s q)) \<and>
     IsActive (packet_type_policy s') = IsActive (packet_type_policy s) \<and>
     (\<forall>c. connection_queues s' c = None \<longleftrightarrow> connection_queues s c = None) \<and>
     (\<forall>c. c \<notin> X \<longrightarrow> head_ready s' c = head_ready s c)"

definition retx_agree :: "u32 set \<Rightarrow> FastSchedulers \<Rightarrow> FastSchedulers \<Rightarrow> bool" where
  "retx_agree X s s' \<longleftrightarrow> (wrr_inv True (retx_policy s) \<longrightarrow> wrr_inv True (retx_policy s')) \<and>
     known (retx_policy s') = known (retx_policy s) \<and> IsActive (retx_policy s') = IsActive (retx_policy s) \<and>
     (\<forall>c. retx_queues s' c = None \<longleftrightarrow> retx_queues s c = None) \<and>
     (\<forall>c. c \<notin> X \<longrightarrow> retx_ready s' c = retx_ready s c)"

lemma registered_same: "known_same s s' \<Longrightarrow> registered s' c = registered s c"
  by (simp add: known_same_def registered_def)

lemma conn_agree_inv: "conn_inv E s \<Longrightarrow> conn_agree X s s' \<Longrightarrow> conn_inv (E \<union> X) s'"
  using registered_same [of s s'] by (simp add: conn_inv_def conn_agree_def known_same_def)

lemma retx_agree_inv: "retx_inv E s \<Longrightarrow> retx_agree X s s' \<Longrightarrow> retx_inv (E \<union> X) s'"
  by (simp add: retx_inv_def retx_agree_def)

lemma inv_mono: "conn_inv E s \<Longrightarrow> E \<subseteq> E' \<Longrightarrow> conn_inv E' s" "retx_inv E s \<Longrightarrow> E \<subseteq> E' \<Longrightarrow> retx_inv E' s"
  unfolding conn_inv_def retx_inv_def by blast+

text \<open>What the readiness of a connection depends on.\<close>

lemma head_ready_cong:
  assumes "queues_of s' c = queues_of s c" "contexts s' c = contexts s c"
    "meets_initial_cc (view s') c = meets_initial_cc (view s) c"
    "meets_initial_oow (view s') c = meets_initial_oow (view s) c"
  shows "head_ready s' c = head_ready s c"
  by (rule ext) (simp only: head_ready_def gates_open_def assms)

lemma retx_ready_cong:
  assumes "retx_queues s' c = retx_queues s c" "contexts s' c = contexts s c"
    "next_window_type s' c = next_window_type s c" "meets_retx_cc (view s') c = meets_retx_cc (view s) c"
  shows "retx_ready s' c = retx_ready s c"
  using assms by (simp add: retx_ready_def retx_queues_of_def)

section \<open>The recomputations restore the invariants\<close>

lemma conn_recompute:
  assumes "conn_inv {c} s" "RecomputeEligibility c s = Some s'"
  shows "conn_inv {} s'" "recompute_frame s' = recompute_frame s"
proof -
  have ok: "policies_ok s" using assms(1) by (simp add: conn_inv_def)
  note r = RecomputeEligibility_spec [OF ok assms(2)]
  have f: "recompute_frame s' = recompute_frame s" by (rule r(2))
  show "recompute_frame s' = recompute_frame s" by (rule f)
  have k: "known_same s s'" by (rule RecomputeEligibility_known [OF ok assms(2)])
  have "head_ready s' d q" if "IsActive (connection_policy s' q) d" for d q
  proof (cases "connection_queues s c")
    case None
    have "wrr_inv True (connection_policy s q)" using ok by (simp add: policies_ok_def)
    then have "known (connection_policy s q) d"
      using that r(4) [OF None, of q] by (intro IsActive_known) simp_all
    then have "connection_queues s d \<noteq> None" using assms(1) unfolding conn_inv_def by blast
    with None have "d \<noteq> c" by blast
    then show ?thesis
      using that None r(4) [OF None, of q] assms(1) by (simp add: conn_inv_def frame_sel(10) [OF f])
  next
    case (Some m)
    then show ?thesis
      using that r(3) [of q] assms(1)
      by (auto simp: conn_inv_def frame_sel(10) [OF f] split: if_splits)
  qed
  moreover have "\<exists>d. IsActive (connection_policy s' q) d" if "IsActive (packet_type_policy s') q" for q
    using that r(7) by (simp add: type_ready_def)
  ultimately show "conn_inv {} s'"
    using r(1) assms(1) registered_same [OF k] k
    by (simp add: conn_inv_def frame_sel(1) [OF f] known_same_def)
qed

lemma frame_retx:
  assumes "recompute_frame s' = recompute_frame s"
  shows "retx_inv E s' = retx_inv E s" "retx_ready s' = retx_ready s"
  using assms by (simp_all add: retx_inv_def retx_ready_def retx_queues_of_def recompute_frame_def fun_eq_iff)

definition retx_frame :: "FastSchedulers \<Rightarrow> _" where
  "retx_frame s = (packet_type_policy s, connection_policy s, phantom_connection_policy s,
     ordered_push_req_connection_policy s, connection_queues s, packet_queue_wise_pkt_count s,
     contexts s, view s, retx_queues s)"

lemma frame_conn:
  assumes "retx_frame s' = retx_frame s"
  shows "conn_inv E s' = conn_inv E s"
  using assms
  by (simp add: conn_inv_def policies_ok_def registered_def retx_frame_def head_ready_def gates_open_def
      queues_of_def)

lemma mark_retxD:
  assumes "mark_retx b c s = Some s'" "wrr_inv True (retx_policy s)"
  obtains p where "s' = s\<lparr>retx_policy := p\<rparr>" "wrr_inv True p"
    "IsActive p = (IsActive (retx_policy s))(c := b)" "known p = known (retx_policy s)"
proof -
  obtain p x where p: "(if b then MarkEntityActive c (retx_policy s)
      else MarkEntityInactive c (retx_policy s)) = Some (p, x)" "s' = s\<lparr>retx_policy := p\<rparr>"
    using assms(1) by (auto simp: mark_retx_def simp del: if_splits split: bind_splits)
  show thesis
    using that [OF p(2)] mark_result [where u = True, OF assms(2) p(1)] by simp
qed

text \<open>A connection has retransmission work when the operation rate and one of its windows allow it.\<close>

lemma chosen_window:
  assumes "a \<or> b"
  shows "(choose_window a b n = W_kRequest \<and> a) \<or> (choose_window a b n = W_kData \<and> b)"
  using assms by (cases n; cases a; cases b) (simp_all add: choose_window_def Let_def)

lemma retx_recompute:
  assumes "retx_inv {c} s" "retx_RecomputeEligibility c s = Some s'"
  shows "retx_inv {} s'" "retx_frame s' = retx_frame s"
    "retx_queues s c \<noteq> None \<Longrightarrow> \<exists>cs. contexts s c = Some cs \<and> (IsActive (retx_policy s') c \<longleftrightarrow>
       is_op_rate_limited cs = 0 \<and> (retx_work W_kRequest c s \<or> retx_work W_kData c s))"
    "\<And>d. d \<noteq> c \<Longrightarrow> IsActive (retx_policy s') d = IsActive (retx_policy s) d"
proof -
  have ok: "wrr_inv True (retx_policy s)" using assms(1) by (simp add: retx_inv_def)
  have "retx_inv {} s' \<and> retx_frame s' = retx_frame s \<and>
    (retx_queues s c \<noteq> None \<longrightarrow> (\<exists>cs. contexts s c = Some cs \<and> (IsActive (retx_policy s') c \<longleftrightarrow>
       is_op_rate_limited cs = 0 \<and> (retx_work W_kRequest c s \<or> retx_work W_kData c s)))) \<and>
    (\<forall>d. d \<noteq> c \<longrightarrow> IsActive (retx_policy s') d = IsActive (retx_policy s) d)"
  proof (cases "retx_queues s c")
    case None
    then have "\<not> IsActive (retx_policy s) c"
      using IsActive_known [OF ok, of c] assms(1) unfolding retx_inv_def by blast
    then show ?thesis
      using None assms by (auto simp: retx_RecomputeEligibility_def retx_inv_def)
  next
    case (Some m)
    with assms(2) obtain cs where cs: "contexts s c = Some cs"
      by (auto simp: retx_RecomputeEligibility_def split: bind_splits)
    show ?thesis
    proof (cases "is_op_rate_limited cs = 0")
      case False
      then have "mark_retx False c s = Some s'"
        using assms(2) Some cs by (simp add: retx_RecomputeEligibility_def)
      from mark_retxD [OF this ok] obtain p where p: "s' = s\<lparr>retx_policy := p\<rparr>" "wrr_inv True p"
        "IsActive p = (IsActive (retx_policy s))(c := False)" "known p = known (retx_policy s)" by metis
      then show ?thesis
        using assms(1) cs False
        by (auto simp: retx_inv_def retx_ready_def retx_queues_of_def retx_frame_def)
    next
      case True
      let ?r = "retx_work W_kRequest c s" and ?d = "retx_work W_kData c s"
      let ?n = "(next_window_type s)(c := choose_window ?r ?d (next_window_type s c))"
      let ?S = "if ?r \<or> ?d then do {
                s0 \<leftarrow> mark_retx True c s;
                Some (s0\<lparr>next_window_type := (next_window_type s0)
                  (c := choose_window ?r ?d (next_window_type s0 c))\<rparr>)
              } else mark_retx False c s"
      have nl: "(is_op_rate_limited cs \<noteq> 0) = False" using True by simp
      have "Option.bind ?S (\<lambda>s1. do {
           (p, work) \<leftarrow> wrr_HasWork None (retx_policy s1);
           let s2 = s1\<lparr>retx_policy := p\<rparr>;
           Some (if work then log_sched ScheduleSchedulerArbiter s2 else s2)
         }) = Some s'"
        using assms(2) Some cs nl by (simp add: retx_RecomputeEligibility_def Let_def)
      then obtain s1 where s1: "?S = Some s1" "do {
           (p, work) \<leftarrow> wrr_HasWork None (retx_policy s1);
           let s2 = s1\<lparr>retx_policy := p\<rparr>;
           Some (if work then log_sched ScheduleSchedulerArbiter s2 else s2)
         } = Some s'"
        unfolding bind_eq_Some_conv by blast
      obtain p where p: "s1 = s\<lparr>retx_policy := p,
          next_window_type := (if ?r \<or> ?d then ?n else next_window_type s)\<rparr>" "wrr_inv True p"
        "IsActive p = (IsActive (retx_policy s))(c := ?r \<or> ?d)" "known p = known (retx_policy s)"
      proof (cases "?r \<or> ?d")
        case True
        with s1(1) obtain s0 where s0: "mark_retx True c s = Some s0"
          "s1 = s0\<lparr>next_window_type := (next_window_type s0)
             (c := choose_window ?r ?d (next_window_type s0 c))\<rparr>" by (auto split: bind_splits)
        from mark_retxD [OF s0(1) ok] obtain p where p: "s0 = s\<lparr>retx_policy := p\<rparr>" "wrr_inv True p"
          "IsActive p = (IsActive (retx_policy s))(c := True)" "known p = known (retx_policy s)" by metis
        show thesis using that [of p] s0(2) p True by simp
      next
        case False
        with s1(1) have "mark_retx False c s = Some s1" by simp
        from mark_retxD [OF this ok] obtain p where p: "s1 = s\<lparr>retx_policy := p\<rparr>" "wrr_inv True p"
          "IsActive p = (IsActive (retx_policy s))(c := False)" "known p = known (retx_policy s)" by metis
        show thesis using that [of p] p False by simp
      qed
      have "wrr_inv True (retx_policy s1)" using p by simp
      from unit_HasWork [OF this] obtain p2 where h: "wrr_HasWork None (retx_policy s1)
          = Some (p2, \<exists>e. IsActive (retx_policy s1) e)" "wrr_inv True p2"
        "IsActive p2 = IsActive (retx_policy s1)" "known p2 = known (retx_policy s1)" by blast
      have p2: "wrr_inv True p2" "IsActive p2 = IsActive p" "known p2 = known p" using h p(1) by simp_all
      have s': "s' = (if \<exists>e. IsActive (retx_policy s1) e
          then log_sched ScheduleSchedulerArbiter (s1\<lparr>retx_policy := p2\<rparr>) else s1\<lparr>retx_policy := p2\<rparr>)"
        using s1(2) by (simp only: h(1) bind.bind_lunit prod.case Let_def option.inject)
      have sel: "retx_policy s' = p2" "next_window_type s' = (if ?r \<or> ?d then ?n else next_window_type s)"
        "retx_frame s' = retx_frame s" "contexts s' = contexts s" "view s' = view s"
        "retx_queues s' = retx_queues s"
        unfolding s' p(1) by (simp_all add: retx_frame_def log_sched_def)
      have "retx_ready s' c" if "?r \<or> ?d"
        using chosen_window [OF that, of "next_window_type s c"] that cs True
        by (auto simp: retx_ready_def sel retx_queues_of_def retx_work_def split: option.splits)
      moreover have "retx_ready s' d = retx_ready s d" if "d \<noteq> c" for d
        using that by (intro retx_ready_cong) (simp_all add: sel)
      ultimately have "retx_inv {} s'"
        using assms(1) p p2 by (auto simp: retx_inv_def sel split: if_splits)
      then show ?thesis
        using sel(3) cs True p(3) p2(2) by (simp add: sel(1))
    qed
  qed
  then show "retx_inv {} s'" "retx_frame s' = retx_frame s"
    "retx_queues s c \<noteq> None \<Longrightarrow> \<exists>cs. contexts s c = Some cs \<and> (IsActive (retx_policy s') c \<longleftrightarrow>
       is_op_rate_limited cs = 0 \<and> (retx_work W_kRequest c s \<or> retx_work W_kData c s))"
    "\<And>d. d \<noteq> c \<Longrightarrow> IsActive (retx_policy s') d = IsActive (retx_policy s) d" by blast+
qed

section \<open>The steps of the schedulers\<close>

lemma update_agree:
  assumes "policies_ok s' = policies_ok s" "known_same s s'" "connection_policy s' = connection_policy s"
    "packet_type_policy s' = packet_type_policy s"
    "\<And>d. connection_queues s' d = None \<longleftrightarrow> connection_queues s d = None"
    "\<And>d. d \<notin> X \<Longrightarrow> queues_of s' d = queues_of s d" "\<And>d. d \<notin> X \<Longrightarrow> contexts s' d = contexts s d"
    "\<And>d. d \<notin> X \<Longrightarrow> meets_initial_cc (view s') d = meets_initial_cc (view s) d"
    "\<And>d. d \<notin> X \<Longrightarrow> meets_initial_oow (view s') d = meets_initial_oow (view s) d"
  shows "conn_agree X s s'"
  using assms head_ready_cong [of s' _ s] by (simp add: conn_agree_def)

lemma same_policies:
  assumes "packet_type_policy s' = packet_type_policy s" "connection_policy s' = connection_policy s"
    "phantom_connection_policy s' = phantom_connection_policy s"
    "ordered_push_req_connection_policy s' = ordered_push_req_connection_policy s"
  shows "policies_ok s' = policies_ok s" "known_same s s'"
  using assms by (simp_all add: policies_ok_def known_same_def)

lemma update_retx_agree:
  assumes "retx_policy s' = retx_policy s"
    "\<And>d. retx_queues s' d = None \<longleftrightarrow> retx_queues s d = None"
    "\<And>d. d \<notin> X \<Longrightarrow> retx_ready s' d = retx_ready s d"
  shows "retx_agree X s s'"
  using assms by (simp add: retx_agree_def)

text \<open>Changes of what the gates of one connection read.\<close>

definition local_view :: "u32 \<Rightarrow> sched_view \<Rightarrow> sched_view \<Rightarrow> bool" where
  "local_view c v v' \<longleftrightarrow> (\<forall>d. d \<noteq> c \<longrightarrow> meets_initial_cc v' d = meets_initial_cc v d \<and>
     meets_initial_oow v' d = meets_initial_oow v d \<and> meets_retx_cc v' d = meets_retx_cc v d)"

definition local_change :: "u32 \<Rightarrow> FastSchedulers \<Rightarrow> sched_view \<times> (u32 \<rightharpoonup> SchedConnection) \<Rightarrow> bool" where
  "local_change c s ch \<longleftrightarrow> local_view c (view s) (fst ch) \<and> (\<forall>d. d \<noteq> c \<longrightarrow> snd ch d = contexts s d)"

text \<open>
  What the model asks of the other components: reserving admission resources changes only what is
  admitted, and a transmission changes only what the gates of its own connection read.
\<close>

definition env_ok :: "sched_env \<Rightarrow> bool" where
  "env_ok env \<longleftrightarrow> (\<forall>c rsn type v. \<exists>a. after_reserve env c rsn type v = v\<lparr>admits := a\<rparr>) \<and>
     (\<forall>c rsn type s. \<forall>ch \<in> set (after_transmit env c rsn type s). local_change c s ch)"

abbreviation sched_inv :: "u32 set \<Rightarrow> u32 set \<Rightarrow> FastSchedulers \<Rightarrow> bool" where
  "sched_inv E F s \<equiv> conn_inv E s \<and> retx_inv F s"

lemma context_change:
  assumes "sched_inv {} {} s" "local_change c s (v, ctx)"
  shows "sched_inv {c} {c} (s\<lparr>view := v, contexts := ctx\<rparr>)"
proof -
  let ?s = "s\<lparr>view := v, contexts := ctx\<rparr>"
  have "conn_agree {c} s ?s"
    by (rule update_agree)
      (use assms(2) in \<open>auto simp: policies_ok_def known_same_def queues_of_def local_change_def local_view_def\<close>)
  moreover have "retx_ready ?s d = retx_ready s d" if "d \<noteq> c" for d
    by (rule retx_ready_cong) (use that assms(2) in \<open>auto simp: local_change_def local_view_def\<close>)
  then have "retx_agree {c} s ?s" by (intro update_retx_agree) auto
  ultimately show ?thesis using conn_agree_inv [of "{}" s "{c}"] retx_agree_inv [of "{}" s "{c}"] assms(1) by simp
qed

lemma gating_inv:
  assumes "sched_inv {c} {c} s" "gating_function c s = Some s'"
  shows "sched_inv {} {} s'" "contexts s' = contexts s" "view s' = view s"
    "connection_queues s' = connection_queues s" "retx_queues s' = retx_queues s"
proof -
  from assms(2) obtain s1 where s1: "RecomputeEligibility c s = Some s1"
    "retx_RecomputeEligibility c s1 = Some s'" by (auto simp: gating_function_def split: bind_splits)
  note r = conn_recompute [OF conjunct1 [OF assms(1)] s1(1)]
  have "retx_inv {c} s1" using assms(1) frame_retx(1) [OF r(2)] by simp
  note q = retx_recompute [OF this s1(2)]
  show "sched_inv {} {} s'" using r(1) q(1) frame_conn [OF q(2)] by simp
  show "contexts s' = contexts s" "view s' = view s" "connection_queues s' = connection_queues s"
    "retx_queues s' = retx_queues s"
    using q(2) frame_sel [OF r(2)] by (simp_all add: retx_frame_def)
qed

lemma gating_change_inv:
  assumes "sched_inv {} {} s" "local_change c s ch" "gating_change c ch s = Some s'"
  shows "sched_inv {} {} s'" "contexts s' = snd ch" "view s' = fst ch"
    "connection_queues s' = connection_queues s" "retx_queues s' = retx_queues s"
proof -
  have i: "sched_inv {c} {c} (s\<lparr>view := fst ch, contexts := snd ch\<rparr>)"
    using context_change [OF assms(1), of c "fst ch" "snd ch"] assms(2) by simp
  note g = gating_inv [OF i assms(3) [unfolded gating_change_def]]
  then show "sched_inv {} {} s'" "contexts s' = snd ch" "view s' = fst ch"
    "connection_queues s' = connection_queues s" "retx_queues s' = retx_queues s" by simp_all
qed

text \<open>Changes of a connection's context that keep the gates.\<close>

definition same_gates :: "FastSchedulers \<Rightarrow> u32 \<Rightarrow> SchedConnection \<Rightarrow> SchedConnection \<Rightarrow> bool" where
  "same_gates s c cs cs' \<longleftrightarrow> is_op_rate_limited cs' = is_op_rate_limited cs \<and>
     (\<forall>w \<in> set (queues_of s c kPushData). packet_eligible cs' w = packet_eligible cs w)"

lemma csq_Peek_mem: "csq_Peek q m = Some w \<Longrightarrow> w \<in> set (m q)"
  by (auto simp: csq_Peek_def split: list.splits)

lemma same_gates_inv:
  assumes "sched_inv {} {} s" "contexts s c = Some cs" "same_gates s c cs cs'"
  shows "sched_inv {} {} (s\<lparr>contexts := (contexts s)(c \<mapsto> cs')\<rparr>)"
proof -
  let ?s = "s\<lparr>contexts := (contexts s)(c \<mapsto> cs')\<rparr>"
  have q: "queues_of ?s = queues_of s" by (simp add: fun_eq_iff queues_of_def)
  have "head_ready ?s d q = head_ready s d q" for d q
  proof (cases "d = c")
    case True
    have "gates_open ?s c cs' q w \<longleftrightarrow> gates_open s c cs q w" if "csq_Peek q (queues_of s c) = Some w" for w
      using assms(3) csq_Peek_mem [OF that] by (auto simp: gates_open_def same_gates_def)
    then show ?thesis using True assms(2) by (auto simp: head_ready_def q)
  next
    case False
    then show ?thesis by (simp add: head_ready_def q gates_open_def)
  qed
  then have "conn_agree {} s ?s"
    by (simp add: conn_agree_def fun_eq_iff policies_ok_def known_same_def)
  moreover have "retx_agree {} s ?s"
    by (rule update_retx_agree)
      (use assms(2,3) in \<open>auto simp: retx_ready_def retx_queues_of_def same_gates_def\<close>)
  ultimately show ?thesis using conn_agree_inv [of "{}" s "{}"] retx_agree_inv [of "{}" s "{}"] assms(1) by simp
qed

lemma assign_op_rate_inv:
  assumes "sched_inv {} {} s" "assign_op_rate c v s = Some s'"
  shows "sched_inv {} {} s'" "view s' = view s" "connection_queues s' = connection_queues s"
    "retx_queues s' = retx_queues s"
    "\<And>cs. contexts s c = Some cs \<Longrightarrow> contexts s' = (contexts s)(c \<mapsto> cs\<lparr>is_op_rate_limited := v\<rparr>)"
proof -
  from assms(2) obtain cs where cs: "contexts s c = Some cs"
    by (auto simp: assign_op_rate_def split: bind_splits)
  have "sched_inv {} {} s' \<and> view s' = view s \<and> connection_queues s' = connection_queues s \<and>
    retx_queues s' = retx_queues s \<and> contexts s' = (contexts s)(c \<mapsto> cs\<lparr>is_op_rate_limited := v\<rparr>)"
  proof (cases "is_op_rate_limited cs = v")
    case True
    then have "cs\<lparr>is_op_rate_limited := v\<rparr> = cs" by (cases cs) simp
    then show ?thesis
      using assms cs True by (auto simp: assign_op_rate_def fun_upd_idem_iff)
  next
    case False
    let ?s = "s\<lparr>contexts := (contexts s)(c \<mapsto> cs\<lparr>is_op_rate_limited := v\<rparr>)\<rparr>"
    have g: "gating_function c ?s = Some s'" using assms(2) cs False by (simp add: assign_op_rate_def)
    have "local_change c s (view s, contexts ?s)"
      by (simp add: local_change_def local_view_def)
    from context_change [OF assms(1) this] have "sched_inv {c} {c} ?s" by simp
    from gating_inv [OF this g] show ?thesis by simp
  qed
  then show "sched_inv {} {} s'" "view s' = view s" "connection_queues s' = connection_queues s"
    "retx_queues s' = retx_queues s"
    "\<And>cs. contexts s c = Some cs \<Longrightarrow> contexts s' = (contexts s)(c \<mapsto> cs\<lparr>is_op_rate_limited := v\<rparr>)"
    using cs by simp_all
qed


text \<open>Steps that touch the queues and packets of one connection, not what the retransmissions read.\<close>

definition conn_step :: "u32 \<Rightarrow> FastSchedulers \<Rightarrow> FastSchedulers \<Rightarrow> bool" where
  "conn_step c s s' \<longleftrightarrow> conn_agree {c} s s' \<and> retx_agree {} s s'"

lemma conn_step_inv: "sched_inv {c} {} s \<Longrightarrow> conn_step c s s' \<Longrightarrow> sched_inv {c} {} s'"
  using conn_agree_inv [of "{c}" s "{c}"] retx_agree_inv [of "{}" s "{}"] by (simp add: conn_step_def)

lemma conn_step_refl: "conn_step c s s"
  by (simp add: conn_step_def conn_agree_def retx_agree_def known_same_def)

lemma conn_step_trans: "conn_step c s s1 \<Longrightarrow> conn_step c s1 s2 \<Longrightarrow> conn_step c s s2"
  by (simp add: conn_step_def conn_agree_def retx_agree_def known_same_def)

lemma conn_stepI:
  assumes "packet_type_policy s' = packet_type_policy s" "connection_policy s' = connection_policy s"
    "phantom_connection_policy s' = phantom_connection_policy s"
    "ordered_push_req_connection_policy s' = ordered_push_req_connection_policy s"
    "retx_policy s' = retx_policy s" "retx_queues s' = retx_queues s"
    "next_window_type s' = next_window_type s"
    "\<And>d. connection_queues s' d = None \<longleftrightarrow> connection_queues s d = None"
    "\<And>d. d \<noteq> c \<Longrightarrow> connection_queues s' d = connection_queues s d"
    "\<And>d. d \<noteq> c \<Longrightarrow> contexts s' d = contexts s d"
    "map_option is_op_rate_limited (contexts s' c) = map_option is_op_rate_limited (contexts s c)"
    "\<exists>a b. view s' = (view s)\<lparr>admits := a, CanSendPacket := b\<rparr>"
  shows "conn_step c s s'"
proof -
  obtain a b where v: "view s' = (view s)\<lparr>admits := a, CanSendPacket := b\<rparr>" using assms(12) by blast
  have "conn_agree {c} s s'"
    using assms(8-10) v
    by (intro update_agree same_policies assms(1-4)) (simp_all add: queues_of_def)
  moreover have "retx_ready s' d = retx_ready s d" for d
  proof -
    have "map_option is_op_rate_limited (contexts s' d) = map_option is_op_rate_limited (contexts s d)"
      using assms(10,11) by (cases "d = c") simp_all
    then show ?thesis
      using assms(6,7) v
      by (cases "contexts s d"; cases "contexts s' d") (auto simp: retx_ready_def retx_queues_of_def)
  qed
  ultimately show ?thesis
    using assms(5,6) by (simp add: conn_step_def retx_agree_def)
qed

lemma same_view: "\<exists>a b. v = v\<lparr>admits := a, CanSendPacket := b\<rparr>" for v :: sched_view
  by (rule exI [of _ "admits v"], rule exI [of _ "CanSendPacket v"]) simp

lemma log_step: "conn_step c s (log_sched a s)"
  by (rule conn_stepI) (simp_all add: log_sched_def same_view)

lemma count_step: "conn_step c s (UpdateOutstandingPacketCount q d s)"
  by (rule conn_stepI) (simp_all add: UpdateOutstandingPacketCount_def same_view)

lemma put_step: "connection_queues s c \<noteq> None \<Longrightarrow> conn_step c s (put_queues c m s)"
  by (rule conn_stepI) (auto simp: put_queues_def same_view)

lemma update_packet_step:
  assumes "update_packet c key type f s = Some s'"
  shows "conn_step c s s'"
proof -
  from assms obtain cs t p where u: "contexts s c = Some cs"
    "s' = s\<lparr>contexts := (contexts s)(c \<mapsto> cs\<lparr>transactions := (transactions cs)
       (key \<mapsto> t\<lparr>packets := (packets t)(type \<mapsto> f p)\<rparr>)\<rparr>)\<rparr>"
    by (auto simp: update_packet_def split: bind_splits)
  show ?thesis
    unfolding u(2) by (rule conn_stepI) (use u(1) in \<open>auto simp: same_view\<close>)
qed

lemma update_packet_queues:
  "update_packet c key type f s = Some s' \<Longrightarrow> connection_queues s' = connection_queues s"
  by (auto simp: update_packet_def split: bind_splits)

text \<open>Updates that keep the eligibility flag keep every gate.\<close>

lemma update_packet_gates:
  assumes "update_packet c key type f s = Some s'"
    and "\<And>p. is_transmission_eligible (f p) = is_transmission_eligible p"
    and "sched_inv {} {} s"
  shows "sched_inv {} {} s'"
proof -
  from assms(1) obtain cs t p where u: "contexts s c = Some cs" "transactions cs key = Some t"
    "packets t type = Some p"
    "s' = s\<lparr>contexts := (contexts s)(c \<mapsto> cs\<lparr>transactions := (transactions cs)
       (key \<mapsto> t\<lparr>packets := (packets t)(type \<mapsto> f p)\<rparr>)\<rparr>)\<rparr>"
    by (auto simp: update_packet_def split: bind_splits)
  have "packet_eligible (cs\<lparr>transactions := (transactions cs)
       (key \<mapsto> t\<lparr>packets := (packets t)(type \<mapsto> f p)\<rparr>)\<rparr>) w = packet_eligible cs w" for w
    using u(2,3) assms(2)
    by (cases "GetTransactionLocation (work_type w) False")
      (auto simp: packet_eligible_def find_packet_def split: option.splits bind_splits)
  then show ?thesis
    unfolding u(4) by (intro same_gates_inv [OF assms(3) u(1)]) (simp add: same_gates_def)
qed

lemma policy_frame_inv:
  assumes "sched_inv {} {} s" "connection_queues s' = connection_queues s" "contexts s' = contexts s"
    "packet_type_policy s' = packet_type_policy s" "connection_policy s' = connection_policy s"
    "phantom_connection_policy s' = phantom_connection_policy s"
    "ordered_push_req_connection_policy s' = ordered_push_req_connection_policy s"
    "retx_policy s' = retx_policy s" "retx_queues s' = retx_queues s"
    "next_window_type s' = next_window_type s"
    "\<exists>a b. view s' = (view s)\<lparr>admits := a, CanSendPacket := b\<rparr>"
  shows "sched_inv {} {} s'"
proof -
  obtain a b where v: "view s' = (view s)\<lparr>admits := a, CanSendPacket := b\<rparr>" using assms(11) by blast
  have "conn_agree {} s s'"
    using assms(2,3) v
    by (intro update_agree same_policies assms(4-7)) (simp_all add: queues_of_def)
  moreover have "retx_agree {} s s'"
    using assms(3,8,9,10) v by (intro update_retx_agree) (simp_all add: retx_ready_def retx_queues_of_def)
  ultimately show ?thesis
    using assms(1) conn_agree_inv [of "{}" s "{}"] retx_agree_inv [of "{}" s "{}"] by simp
qed

lemma start_op_gap_inv:
  assumes "sched_inv {} {} s" "start_op_gap env c s = Some s'"
  shows "sched_inv {} {} s'" "connection_queues s' = connection_queues s" "retx_queues s' = retx_queues s"
    "view s' = view s"
proof -
  from assms(2) obtain cs s2 where s2: "contexts s c = Some cs"
    "assign_op_rate c 1 (s\<lparr>contexts := (contexts s)(c \<mapsto> cs\<lparr>last_packet_send_time := elapsed_time env\<rparr>)\<rparr>) = Some s2"
    "s' = log_sched (ScheduleOpRateEvent c) s2"
    by (auto simp: start_op_gap_def Let_def split: bind_splits)
  have "sched_inv {} {} (s\<lparr>contexts := (contexts s)(c \<mapsto> cs\<lparr>last_packet_send_time := elapsed_time env\<rparr>)\<rparr>)"
    by (rule same_gates_inv [OF assms(1) s2(1)]) (simp add: same_gates_def packet_eligible_def find_packet_def)
  note a = assign_op_rate_inv [OF this s2(2)]
  show "sched_inv {} {} s'"
    by (rule policy_frame_inv [OF a(1)]) (simp_all add: s2(3) log_sched_def same_view)
  show "connection_queues s' = connection_queues s" "retx_queues s' = retx_queues s" "view s' = view s"
    using a by (simp_all add: s2(3) log_sched_def)
qed

lemma transmit_inv:
  assumes "sched_inv {} {} s" "env_ok env" "transmit env c rsn type s = Some s'"
  shows "sched_inv {} {} s'" "connection_queues s' = connection_queues s" "retx_queues s' = retx_queues s"
proof -
  let ?P = "\<lambda>s'. sched_inv {} {} s' \<and> connection_queues s' = connection_queues s \<and>
    retx_queues s' = retx_queues s \<and> local_change c s (view s', contexts s')"
  have loop: "each (gating_change c) chs s1 = Some s' \<Longrightarrow> ?P s1 \<Longrightarrow> \<forall>ch \<in> set chs. local_change c s ch \<Longrightarrow> ?P s'"
    for chs s1
  proof (induction chs arbitrary: s1)
    case (Cons ch chs)
    from Cons.prems(1) obtain s2 where s2: "gating_change c ch s1 = Some s2" "each (gating_change c) chs s2 = Some s'"
      by (auto split: bind_splits)
    have "local_change c s1 ch"
      using Cons.prems(2,3) by (auto simp: local_change_def local_view_def)
    note g = gating_change_inv [OF conjunct1 [OF Cons.prems(2)] this s2(1)]
    show ?case
      by (rule Cons.IH [OF s2(2)]) (use g Cons.prems in auto)
  qed simp
  have "sched_inv {} {} (log_sched (TransmitPacket_call c rsn type) s)"
    by (rule policy_frame_inv [OF assms(1)]) (simp_all add: log_sched_def same_view)
  moreover have "\<forall>ch \<in> set (after_transmit env c rsn type s). local_change c s ch"
    using assms(2) by (simp add: env_ok_def)
  ultimately have "?P s'"
    using assms(3) by (intro loop) (auto simp: transmit_def local_change_def local_view_def log_sched_def)
  then show "sched_inv {} {} s'" "connection_queues s' = connection_queues s" "retx_queues s' = retx_queues s"
    by simp_all
qed


lemma step_queues: "conn_step c s s' \<Longrightarrow> connection_queues s c \<noteq> None \<Longrightarrow> connection_queues s' c \<noteq> None"
  by (simp add: conn_step_def conn_agree_def)

lemma enqueue_step: "connection_queues s c \<noteq> None \<Longrightarrow> conn_step c s (enqueue_work c q w s)"
  unfolding enqueue_work_def by (rule put_step)

lemma AddPacketToQueue_step:
  assumes "connection_queues s c \<noteq> None" "AddPacketToQueue c rsn type s = Some s'"
  shows "conn_step c s s'"
proof -
  from assms(2) obtain cs :: SchedConnection and key and t :: TransactionMetadata and q s1 s3 where a:
    "(if type = kPushSolicitedData \<and> (ordered_mode cs = kOrdered) then do {
        s0 \<leftarrow> update_packet c key type (\<lambda>p. p\<lparr>is_transmission_eligible := True\<rparr>) s;
        Some (UpdateOutstandingPacketCount q False s0)
      } else Some s) = Some s1"
    "(if ordered_mode cs = kOrdered \<and> type = kPushUnsolicitedData then do {
              check (packets t kInvalid \<noteq> None);
              Some (enqueue_work c kPullAndOrderedPushRequest
                \<lparr>work_rsn = rsn, work_type = kInvalid\<rparr>
                (UpdateOutstandingPacketCount kPullAndOrderedPushRequest False
                  (if ordered_mode cs \<noteq> kOrdered \<or> type \<noteq> kPushSolicitedData
                   then UpdateOutstandingPacketCount q False
                     (enqueue_work c q \<lparr>work_rsn = rsn, work_type = type\<rparr> s1) else s1)))
            } else Some (if ordered_mode cs \<noteq> kOrdered \<or> type \<noteq> kPushSolicitedData
                   then UpdateOutstandingPacketCount q False
                     (enqueue_work c q \<lparr>work_rsn = rsn, work_type = type\<rparr> s1) else s1)) = Some s3"
    "(if ordered_mode cs = kOrdered \<and> type = kPushRequest then do {
        check (packets t kPushSolicitedData \<noteq> None);
        Some (enqueue_work c kPushData \<lparr>work_rsn = rsn, work_type = kPushSolicitedData\<rparr> s3)
      } else Some s3) = Some s'"
    by (simp only: AddPacketToQueue_def Let_def bind_eq_Some_conv split_paired_Ex prod.case)
      (elim exE conjE, rule that; assumption)
  have 1: "conn_step c s s1"
    using a(1) conn_step_trans [OF update_packet_step count_step] conn_step_refl
    by (auto split: if_splits bind_splits)
  note n1 = step_queues [OF 1 assms(1)]
  let ?s2 = "if ordered_mode cs \<noteq> kOrdered \<or> type \<noteq> kPushSolicitedData
       then UpdateOutstandingPacketCount q False
         (enqueue_work c q \<lparr>work_rsn = rsn, work_type = type\<rparr> s1) else s1"
  have 2: "conn_step c s1 ?s2"
    using conn_step_trans [OF enqueue_step [OF n1] count_step] conn_step_refl by simp
  note n2 = step_queues [OF 2 n1]
  have 3: "conn_step c ?s2 s3"
    using a(2) conn_step_trans [OF count_step enqueue_step [OF step_queues [OF count_step n2]]] conn_step_refl
    by (auto split: if_splits)
  note n3 = step_queues [OF 3 n2]
  have "conn_step c s3 s'"
    using a(3) enqueue_step [OF n3] conn_step_refl by (auto split: if_splits)
  with 1 2 3 show ?thesis by (blast intro: conn_step_trans)
qed

lemma recompute_inv:
  assumes "sched_inv {c} {} s" "RecomputeEligibility c s = Some s'"
  shows "sched_inv {} {} s'"
proof -
  note r = conn_recompute [OF conjunct1 [OF assms(1)] assms(2)]
  show ?thesis using r(1) assms(1) frame_retx(1) [OF r(2)] by simp
qed

lemma log_inv: "sched_inv {} {} s \<Longrightarrow> sched_inv {} {} (log_sched a s)"
  by (rule policy_frame_inv [of s]) (simp_all add: log_sched_def same_view)

lemma weaken_inv: "sched_inv {} {} s \<Longrightarrow> sched_inv {c} {} s"
  using inv_mono(1) [of "{}" s "{c}"] by simp

lemma EnqueuePacket_inv:
  assumes "sched_inv {} {} s" "connection_queues s c \<noteq> None" "EnqueuePacket c rsn type s = Some s'"
  shows "sched_inv {} {} s'"
proof -
  from assms(3) obtain s1 s2 where s: "AddPacketToQueue c rsn type s = Some s1"
    "RecomputeEligibility c s1 = Some s2" "s' = log_sched ScheduleSchedulerArbiter s2"
    by (auto simp: EnqueuePacket_def split: bind_splits)
  have "sched_inv {c} {} s1"
    by (rule conn_step_inv [OF weaken_inv [OF assms(1)] AddPacketToQueue_step [OF assms(2) s(1)]])
  from recompute_inv [OF this s(2)] show ?thesis unfolding s(3) by (rule log_inv)
qed

lemma pop_step:
  assumes "pop_work c q s = Some s'" "connection_queues s c \<noteq> None"
  shows "conn_step c s s'"
  using assms put_step by (auto simp: pop_work_def split: bind_splits)

lemma SchedulePacket_inv:
  assumes "sched_inv {} {} s" "env_ok env" "connection_queues s c \<noteq> None"
    and "SchedulePacket env c q w s = Some s'"
  shows "sched_inv {} {} s'"
proof -
  let ?s1 = "log_sched (ReserveAdmission c (work_rsn w) (work_type w)) s
                \<lparr>view := after_reserve env c (work_rsn w) (work_type w) (view s)\<rparr>"
  let ?s2 = "UpdateOutstandingPacketCount q True ?s1"
  from assms(4) obtain key s3 s4 s5 s6 where s:
    "start_op_gap env c ?s2 = Some s3"
    "update_packet c key (work_type w) (\<lambda>p. p\<lparr>schedule_status := OkStatus\<rparr>) s3 = Some s4"
    "transmit env c (work_rsn w) (work_type w) s4 = Some s5"
    "pop_work c q s5 = Some s6" "RecomputeEligibility c s6 = Some s'"
    by (simp only: SchedulePacket_def Let_def bind_eq_Some_conv split_paired_Ex prod.case) blast
  obtain a where "after_reserve env c (work_rsn w) (work_type w) (view s) = (view s)\<lparr>admits := a\<rparr>"
    using assms(2) unfolding env_ok_def by blast
  then have v: "\<exists>a b. after_reserve env c (work_rsn w) (work_type w) (view s)
      = (view s)\<lparr>admits := a, CanSendPacket := b\<rparr>"
    by (intro exI [of _ a] exI [of _ "CanSendPacket (view s)"]) simp
  have 2: "sched_inv {} {} ?s2"
    by (rule policy_frame_inv [OF assms(1)])
      (simp_all add: log_sched_def UpdateOutstandingPacketCount_def v)
  note 3 = start_op_gap_inv [OF 2 s(1)]
  have 4: "sched_inv {} {} s4" by (rule update_packet_gates [OF s(2) _ 3(1)]) simp
  note 5 = transmit_inv [OF 4 assms(2) s(3)]
  have q: "connection_queues s5 c \<noteq> None"
    using assms(3) 3(2) 5(2) update_packet_queues [OF s(2)]
    by (simp add: log_sched_def UpdateOutstandingPacketCount_def)
  have "sched_inv {c} {} s6"
    by (rule conn_step_inv [OF weaken_inv [OF 5(1)] pop_step [OF s(4) q]])
  then show ?thesis by (rule recompute_inv [OF _ s(5)])
qed

lemma HandlePhantomRequest_inv:
  assumes "sched_inv {} {} s" "connection_queues s c \<noteq> None" "HandlePhantomRequest c w q s = Some s'"
  shows "sched_inv {} {} s'"
proof -
  from assms(3) obtain key s1 s2 s3 where s:
    "update_packet c key kPushUnsolicitedData (\<lambda>p. p\<lparr>is_transmission_eligible := True\<rparr>) s = Some s1"
    "update_packet c key (work_type w) (\<lambda>p. p\<lparr>schedule_status := OkStatus\<rparr>) s1 = Some s2"
    "pop_work c q s2 = Some s3" "RecomputeEligibility c (UpdateOutstandingPacketCount q True s3) = Some s'"
    unfolding HandlePhantomRequest_def Let_def bind_eq_Some_conv by blast
  have q: "connection_queues s2 c \<noteq> None"
    using assms(2) update_packet_queues [OF s(1)] update_packet_queues [OF s(2)] by simp
  have "conn_step c s (UpdateOutstandingPacketCount q True s3)"
    using update_packet_step [OF s(1)] update_packet_step [OF s(2)] pop_step [OF s(3) q] count_step
    by (blast intro: conn_step_trans)
  from recompute_inv [OF conn_step_inv [OF weaken_inv [OF assms(1)] this] s(4)] show ?thesis .
qed

text \<open>The choice serves an active connection of an active packet type.\<close>

lemma pick_work_inv:
  assumes "sched_inv {} {} s" "pick_work s = Some (s', q, c, w)"
  shows "sched_inv {} {} s'" "head_ready s' c q" "csq_Peek q (queues_of s' c) = Some w"
    "contexts s' = contexts s" "view s' = view s" "connection_queues s' = connection_queues s"
    "connection_queues s' c \<noteq> None"
proof -
  have ok: "policies_ok s" using assms(1) by (simp add: conn_inv_def)
  from assms(2) obtain tp cp where g: "GetNextEntity (Some (ComputePacketTypeWeight s)) (packet_type_policy s)
      = Some (tp, Inr q)" "GetNextEntity None (connection_policy s q) = Some (cp, Inr c)"
    "s' = s\<lparr>packet_type_policy := tp, connection_policy := (connection_policy s)(q := cp)\<rparr>"
    "csq_Peek q (queues_of s' c) = Some w"
    by (auto simp: pick_work_def Let_def check_ok_then_assign_def split: bind_splits sum.splits)
  have f: "fetch_ok False (Some (ComputePacketTypeWeight s))"
    by (simp add: fetch_ok_def ComputePacketTypeWeight_def)
  have p: "wrr_inv False (packet_type_policy s)" "wrr_inv True (connection_policy s q)"
    using ok by (simp_all add: policies_ok_def)
  note t = GetNextEntity_result [OF p(1) f g(1)]
  note k = GetNextEntity_result [OF p(2) unit_fetch g(2)]
  have agree: "conn_agree {} s s'"
    unfolding g(3) conn_agree_def using t k
    by (auto simp: policies_ok_def known_same_def intro!: head_ready_cong) (simp_all add: queues_of_def)
  have "retx_agree {} s s'"
    by (rule update_retx_agree) (simp_all add: g(3) retx_ready_def retx_queues_of_def)
  with agree show inv: "sched_inv {} {} s'"
    using assms(1) conn_agree_inv [of "{}" s "{}"] retx_agree_inv [of "{}" s "{}"] by simp
  have a: "IsActive (connection_policy s' q) c" using k(2,4) by (simp add: g(3))
  with inv show "head_ready s' c q" by (simp add: conn_inv_def)
  show "csq_Peek q (queues_of s' c) = Some w" by (rule g(4))
  show "contexts s' = contexts s" "view s' = view s" "connection_queues s' = connection_queues s"
    by (simp_all add: g(3))
  have "wrr_inv True (connection_policy s' q)" using inv by (simp add: conn_inv_def policies_ok_def)
  from IsActive_known [OF this a] inv show "connection_queues s' c \<noteq> None" unfolding conn_inv_def by blast
qed

lemma ScheduleWork_inv:
  assumes "sched_inv {} {} s" "env_ok env" "ScheduleWork env s = Some (s', b)"
  shows "sched_inv {} {} s'"
proof -
  from assms(3) obtain s1 q c w where p: "pick_work s = Some (s1, q, c, w)"
    "HandlePhantomRequest c w q s1 = Some s' \<or> SchedulePacket env c q w s1 = Some s'"
    by (auto simp: ScheduleWork_def split: bind_splits if_splits)
  note k = pick_work_inv [OF assms(1) p(1)]
  show ?thesis
    using p(2) HandlePhantomRequest_inv [OF k(1,7)] SchedulePacket_inv [OF k(1) assms(2) k(7)] by blast
qed


section \<open>The steps of the retransmission scheduler\<close>

definition retx_step :: "u32 \<Rightarrow> FastSchedulers \<Rightarrow> FastSchedulers \<Rightarrow> bool" where
  "retx_step c s s' \<longleftrightarrow> conn_agree {} s s' \<and> retx_agree {c} s s'"

lemma retx_step_inv: "sched_inv {} {} s \<Longrightarrow> retx_step c s s' \<Longrightarrow> sched_inv {} {c} s'"
  using conn_agree_inv [of "{}" s "{}"] retx_agree_inv [of "{}" s "{c}"] by (simp add: retx_step_def)

lemma retx_stepI:
  assumes "packet_type_policy s' = packet_type_policy s" "connection_policy s' = connection_policy s"
    "phantom_connection_policy s' = phantom_connection_policy s"
    "ordered_push_req_connection_policy s' = ordered_push_req_connection_policy s"
    "connection_queues s' = connection_queues s" "contexts s' = contexts s" "view s' = view s"
    "retx_policy s' = retx_policy s" "\<And>d. retx_queues s' d = None \<longleftrightarrow> retx_queues s d = None"
    "\<And>d. d \<noteq> c \<Longrightarrow> retx_queues s' d = retx_queues s d"
    "\<And>d. d \<noteq> c \<Longrightarrow> next_window_type s' d = next_window_type s d"
  shows "retx_step c s s'"
proof -
  have "conn_agree {} s s'"
    using assms(5-7) by (intro update_agree same_policies assms(1-4)) (simp_all add: queues_of_def)
  moreover have "retx_ready s' d = retx_ready s d" if "d \<noteq> c" for d
    by (rule retx_ready_cong) (simp_all add: that assms(6,7,10,11))
  then have "retx_agree {c} s s'"
    by (intro update_retx_agree) (simp_all add: assms(8,9))
  ultimately show ?thesis by (simp add: retx_step_def)
qed

lemma retx_recompute_inv:
  assumes "sched_inv {} {c} s" "retx_RecomputeEligibility c s = Some s'"
  shows "sched_inv {} {} s'"
proof -
  note r = retx_recompute [OF conjunct2 [OF assms(1)] assms(2)]
  show ?thesis using r(1) assms(1) frame_conn [OF r(2)] by simp
qed

lemma put_retx_step:
  "retx_queues s c \<noteq> None \<Longrightarrow> retx_step c s (s\<lparr>retx_queues := (retx_queues s)(c \<mapsto> m)\<rparr>)"
  by (rule retx_stepI) auto

text \<open>
  The conditions on the queue of the packet hold for every known connection: both queues are created
  by the initialization of the connection.
\<close>

lemma bs_insert_same: "bs_insert lt x ys = (False, zs) \<Longrightarrow> zs = ys"
  by (induction ys arbitrary: zs) (auto split: if_splits prod.splits)

lemma retx_EnqueuePacket_inv:
  assumes "sched_inv {} {} s" "retx_queues s c \<noteq> None" "retx_EnqueuePacket c rsn type s = Some (s', st)"
  shows "sched_inv {} {} s'"
proof -
  from assms(3) obtain r where r: "retx_work_id c rsn type s = Some r"
    by (auto simp: retx_EnqueuePacket_def split: bind_splits)
  show ?thesis
  proof (cases r)
    case (Inl e)
    then show ?thesis using assms r by (simp add: retx_EnqueuePacket_def)
  next
    case (Inr qw)
    obtain q w where qw: "qw = (q, w)" by (cases qw)
    obtain m ins where m: "rsq_Enqueue q w (retx_queues_of s c) = (m, ins)" by fastforce
    let ?s1 = "s\<lparr>retx_queues := (retx_queues s)(c \<mapsto> m)\<rparr>"
    have 1: "sched_inv {} {c} ?s1" by (rule retx_step_inv [OF assms(1) put_retx_step [OF assms(2)]])
    show ?thesis
    proof (cases ins)
      case False
      have "m = retx_queues_of s c"
        using m False by (auto simp: rsq_Enqueue_def bs_insert_same split: prod.splits)
      moreover have "retx_queues s c = Some (retx_queues_of s c)"
        using assms(2) by (auto simp: retx_queues_of_def)
      ultimately have "?s1 = s" by (simp add: fun_upd_idem)
      moreover have "s' = ?s1"
        using assms(3) r Inr qw m False by (simp add: retx_EnqueuePacket_def)
      ultimately show ?thesis using assms(1) by simp
    next
      case True
      with assms(3) r Inr qw m obtain s2 where "retx_RecomputeEligibility c ?s1 = Some s2"
        "s' = log_sched ScheduleSchedulerArbiter s2"
        by (auto simp: retx_EnqueuePacket_def Let_def split: bind_splits)
      then show ?thesis using log_inv [OF retx_recompute_inv [OF 1]] by simp
    qed
  qed
qed

lemma retx_DequeuePacket_inv:
  assumes "sched_inv {} {} s" "retx_queues s c \<noteq> None" "retx_DequeuePacket c rsn type s = Some (s', st)"
  shows "sched_inv {} {} s'"
proof -
  from assms(3) obtain r where r: "retx_work_id c rsn type s = Some r"
    by (auto simp: retx_DequeuePacket_def split: bind_splits)
  show ?thesis
  proof (cases r)
    case (Inl e)
    then show ?thesis using assms r by (simp add: retx_DequeuePacket_def)
  next
    case (Inr qw)
    with assms(3) r obtain q w where "retx_RecomputeEligibility c
        (s\<lparr>retx_queues := (retx_queues s)(c \<mapsto> fst (rsq_Dequeue q w (retx_queues_of s c)))\<rparr>) = Some s'"
      by (cases qw) (auto simp: retx_DequeuePacket_def Let_def split: bind_splits)
    then show ?thesis
      using retx_recompute_inv [OF retx_step_inv [OF assms(1) put_retx_step [OF assms(2)]]] by blast
  qed
qed

lemma retx_ready_queues: "retx_ready s c \<Longrightarrow> retx_queues s c \<noteq> None"
  by (cases "retx_queues s c")
    (auto simp: retx_ready_def retx_queues_of_def rsq_Peek_def new_RetransmissionSchedulerQueues_def)

text \<open>The choice serves a connection whose next packet may be sent.\<close>

lemma retx_pick_inv:
  assumes "sched_inv {} {} s" "GetNextEntity None (retx_policy s) = Some (p, Inr c)"
  shows "\<exists>w. retx_pick s = Some (s\<lparr>retx_policy := p\<rparr>, next_window_type s c, c, w) \<and>
      rsq_Peek (next_window_type s c) (retx_queues_of s c) = Some w \<and>
      retx_CanSend c (rwd_psn w) (rwd_type w) (s\<lparr>retx_policy := p\<rparr>) = Some True"
    "sched_inv {} {} (s\<lparr>retx_policy := p\<rparr>)" "retx_queues s c \<noteq> None"
proof -
  have ok: "wrr_inv True (retx_policy s)" using assms(1) by (simp add: retx_inv_def)
  note k = GetNextEntity_result [OF ok unit_fetch assms(2)]
  have "retx_ready s c" using assms(1) k(4) by (simp add: retx_inv_def)
  then show "retx_queues s c \<noteq> None" by (rule retx_ready_queues)
  show "\<exists>w. retx_pick s = Some (s\<lparr>retx_policy := p\<rparr>, next_window_type s c, c, w) \<and>
      rsq_Peek (next_window_type s c) (retx_queues_of s c) = Some w \<and>
      retx_CanSend c (rwd_psn w) (rwd_type w) (s\<lparr>retx_policy := p\<rparr>) = Some True"
    using \<open>retx_ready s c\<close> assms(2)
    by (auto simp: retx_ready_def retx_pick_def retx_CanSend_def Let_def retx_queues_of_def)
  have "conn_agree {} s (s\<lparr>retx_policy := p\<rparr>)"
    by (rule update_agree) (simp_all add: policies_ok_def known_same_def queues_of_def)
  moreover have "retx_agree {} s (s\<lparr>retx_policy := p\<rparr>)"
    using k by (simp add: retx_agree_def retx_ready_def retx_queues_of_def)
  ultimately show "sched_inv {} {} (s\<lparr>retx_policy := p\<rparr>)"
    using assms(1) conn_agree_inv [of "{}" s "{}"] retx_agree_inv [of "{}" s "{}"] by simp
qed


lemma update_packet_form:
  assumes "update_packet c key type f s = Some s'" "contexts s c = Some cs"
  obtains cs' where "s' = s\<lparr>contexts := (contexts s)(c \<mapsto> cs')\<rparr>"
    "is_op_rate_limited cs' = is_op_rate_limited cs"
  using assms by (auto simp: update_packet_def split: bind_splits)

lemma open_gap_form:
  assumes "start_op_gap env c s = Some s'" "contexts s c = Some cs" "is_op_rate_limited cs = 0"
  obtains cs' s1 where "gating_function c (s\<lparr>contexts := (contexts s)(c \<mapsto> cs')\<rparr>) = Some s1"
    "s' = log_sched (ScheduleOpRateEvent c) s1"
  using assms by (auto simp: start_op_gap_def assign_op_rate_def Let_def split: bind_splits)

lemma retx_SchedulePacket_inv:
  assumes "sched_inv {} {} s0" "env_ok env" "retx_queues s0 c \<noteq> None"
    and "contexts s0 c = Some cs" "is_op_rate_limited cs = 0"
    and "retx_SchedulePacket env c q w (s0\<lparr>next_window_type := (next_window_type s0)(c := n)\<rparr>) = Some s'"
  shows "sched_inv {} {} s'"
proof -
  let ?s = "s0\<lparr>next_window_type := (next_window_type s0)(c := n)\<rparr>"
  from assms(6) obtain key s1 s2 s3 where s:
    "update_packet c key (rwd_type w) (\<lambda>p. p\<lparr>schedule_status := OkStatus\<rparr>) ?s = Some s1"
    "start_op_gap env c s1 = Some s2" "transmit env c (rwd_rsn w) (rwd_type w) s2 = Some s3"
    "retx_RecomputeEligibility c (s3\<lparr>retx_queues := (retx_queues s3)
       (c \<mapsto> fst (rsq_Dequeue q w (retx_queues_of s3 c)))\<rparr>) = Some s'"
    by (simp only: retx_SchedulePacket_def Let_def bind_eq_Some_conv split_paired_Ex prod.case) blast
  from update_packet_form [OF s(1), of cs] assms(4) obtain cs1 where
    s1: "s1 = ?s\<lparr>contexts := (contexts s0)(c \<mapsto> cs1)\<rparr>" "is_op_rate_limited cs1 = 0"
    using assms(5) by auto
  have "contexts s1 c = Some cs1" by (simp add: s1)
  from open_gap_form [OF s(2) this s1(2)] obtain cs2 s2' where
    g: "gating_function c (s1\<lparr>contexts := (contexts s1)(c \<mapsto> cs2)\<rparr>) = Some s2'"
    "s2 = log_sched (ScheduleOpRateEvent c) s2'" by blast
  let ?y = "s1\<lparr>contexts := (contexts s1)(c \<mapsto> cs2)\<rparr>"
  have "conn_agree {c} s0 ?y"
    by (rule update_agree) (simp_all add: s1 policies_ok_def known_same_def queues_of_def)
  moreover have "retx_ready ?y d = retx_ready s0 d" if "d \<noteq> c" for d
    by (rule retx_ready_cong) (simp_all add: s1 that)
  then have "retx_agree {c} s0 ?y" by (intro update_retx_agree) (simp_all add: s1)
  ultimately have "sched_inv {c} {c} ?y"
    using assms(1) conn_agree_inv [of "{}" s0 "{c}"] retx_agree_inv [of "{}" s0 "{c}"] by simp
  note gi = gating_inv [OF this g(1)]
  have 2: "sched_inv {} {} s2" unfolding g(2) by (rule log_inv [OF gi(1)])
  note t = transmit_inv [OF 2 assms(2) s(3)]
  have "retx_queues s3 c \<noteq> None" using assms(3) t(3) gi(5) by (simp add: g(2) log_sched_def s1)
  from retx_recompute_inv [OF retx_step_inv [OF t(1) put_retx_step [OF this]] s(4)] show ?thesis .
qed

lemma retx_ScheduleWork_inv:
  assumes "sched_inv {} {} s" "env_ok env" "retx_ScheduleWork env s = Some (s', b)"
  shows "sched_inv {} {} s'"
proof -
  from assms(3) obtain p c where g: "GetNextEntity None (retx_policy s) = Some (p, Inr c)"
    by (auto simp: retx_ScheduleWork_def retx_pick_def check_ok_then_assign_def split: bind_splits sum.splits)
  let ?s = "s\<lparr>retx_policy := p\<rparr>"
  note k = retx_pick_inv [OF assms(1) g]
  from k(1) obtain w where w: "retx_pick s = Some (?s, next_window_type s c, c, w)"
    "retx_CanSend c (rwd_psn w) (rwd_type w) ?s = Some True" by blast
  from w(2) obtain cs where cs: "contexts ?s c = Some cs" "is_op_rate_limited cs = 0"
    by (auto simp: retx_CanSend_def split: bind_splits)
  have "retx_queues ?s c \<noteq> None" using k(3) by simp
  from retx_SchedulePacket_inv [OF k(2) assms(2) this cs] assms(3) w show ?thesis
    by (auto simp: retx_ScheduleWork_def Let_def split: bind_splits)
qed

section \<open>Creation and the enquiries\<close>

lemma IsActive_new: "IsActive (new_Wrr b e) = (\<lambda>_. False)"
  by (simp add: fun_eq_iff IsActive_def new_Wrr_def)

lemma known_new: "known (new_Wrr b e) = (\<lambda>_. False)"
  by (simp add: fun_eq_iff known_def new_Wrr_def)

lemma fold_initialize:
  "wrr_inv False p \<Longrightarrow>
     wrr_inv False (fold (\<lambda>q p. fst (wrr_InitializeEntity (Some (\<lambda>_. 0)) q p)) qs p) \<and>
     IsActive (fold (\<lambda>q p. fst (wrr_InitializeEntity (Some (\<lambda>_. 0)) q p)) qs p) = IsActive p \<and>
     (\<forall>q. known (fold (\<lambda>q p. fst (wrr_InitializeEntity (Some (\<lambda>_. 0)) q p)) qs p) q
        \<longleftrightarrow> q \<in> set qs \<or> known p q)"
  for qs :: "PacketTypeQueue list"
proof (induction qs arbitrary: p)
  case (Cons q qs)
  have f: "fetch_ok False (Some (\<lambda>_. 0) :: (PacketTypeQueue \<Rightarrow> int) option)" by (simp add: fetch_ok_def)
  note i = initialize_result [OF Cons.prems f, of q]
  show ?case using Cons.IH [OF i(1)] i(2,3) by auto
qed simp

lemma new_inv: "sched_inv {} {} (new_FastSchedulers cs v)"
  using fold_initialize [OF new_wrr_inv, of packet_type_queues False True]
  by (simp add: conn_inv_def retx_inv_def policies_ok_def new_FastSchedulers_def new_wrr_inv
      IsActive_new known_new)

lemma fold_init_queues:
  "distinct qs \<Longrightarrow> \<forall>q \<in> set qs. \<not> known (connection_policy s q) c \<Longrightarrow>
     fold (\<lambda>q (s, st). if st \<noteq> OkStatus then (s, st)
        else case wrr_InitializeEntity None c (connection_policy s q) of
          (p, st') \<Rightarrow> (s\<lparr>connection_policy := (connection_policy s)(q := p)\<rparr>, st')) qs (s, OkStatus)
     = (s\<lparr>connection_policy := (\<lambda>q. if q \<in> set qs then fst (wrr_InitializeEntity None c (connection_policy s q))
          else connection_policy s q)\<rparr>, OkStatus)"
proof (induction qs arbitrary: s)
  case (Cons q qs)
  let ?s = "s\<lparr>connection_policy := (connection_policy s)
     (q := fst (wrr_InitializeEntity None c (connection_policy s q)))\<rparr>"
  have "snd (wrr_InitializeEntity None c (connection_policy s q)) = OkStatus"
    using Cons.prems(2) by (simp add: wrr_InitializeEntity_def known_def)
  moreover have "\<forall>q' \<in> set qs. \<not> known (connection_policy ?s q') c" using Cons.prems by auto
  moreover have "distinct qs" using Cons.prems by simp
  ultimately have "fold (\<lambda>q (s, st). if st \<noteq> OkStatus then (s, st)
        else case wrr_InitializeEntity None c (connection_policy s q) of
          (p, st') \<Rightarrow> (s\<lparr>connection_policy := (connection_policy s)(q := p)\<rparr>, st')) (q # qs) (s, OkStatus)
     = (?s\<lparr>connection_policy := (\<lambda>q. if q \<in> set qs
          then fst (wrr_InitializeEntity None c (connection_policy ?s q)) else connection_policy ?s q)\<rparr>, OkStatus)"
    using Cons.IH [of ?s] by (simp add: case_prod_unfold)
  then show ?case using Cons.prems(1) by (auto simp: fun_eq_iff intro!: arg_cong2 [of _ _ _ _ "\<lambda>s f. s\<lparr>connection_policy := f\<rparr>"])
qed simp

lemma Init_inv:
  assumes "sched_inv {} {} s" "InitConnectionSchedulerQueues c s = Some (s', st)"
  shows "sched_inv {} {} s'"
proof (cases "connection_queues s c")
  case (Some m)
  then show ?thesis using assms by (simp add: InitConnectionSchedulerQueues_def)
next
  case None
  then have nk: "\<not> known (connection_policy s q) c" for q using assms(1) unfolding conn_inv_def by blast
  let ?s1 = "put_queues c new_ConnectionSchedulerQueues s"
  let ?i = "\<lambda>p. fst (wrr_InitializeEntity None c p)"
  have "fold (\<lambda>q (s, st). if st \<noteq> OkStatus then (s, st)
        else case wrr_InitializeEntity None c (connection_policy s q) of
          (p, st') \<Rightarrow> (s\<lparr>connection_policy := (connection_policy s)(q := p)\<rparr>, st'))
        packet_type_queues (?s1, OkStatus)
      = (?s1\<lparr>connection_policy := (\<lambda>q. ?i (connection_policy s q))\<rparr>, OkStatus)"
    using fold_init_queues [where qs = packet_type_queues and s = ?s1 and c = c] nk
    by (simp add: put_queues_def) (simp add: packet_type_queues_def)
  then have s': "s' = ?s1\<lparr>connection_policy := (\<lambda>q. ?i (connection_policy s q)),
      ordered_push_req_connection_policy := ?i (ordered_push_req_connection_policy s),
      phantom_connection_policy := ?i (phantom_connection_policy s)\<rparr>"
    using assms(2) None
    by (auto simp: InitConnectionSchedulerQueues_def put_queues_def case_prod_unfold Let_def split: if_splits)
  have ok: "policies_ok s" using assms(1) by (simp add: conn_inv_def)
  then have p: "wrr_inv True (connection_policy s q)" "wrr_inv True (ordered_push_req_connection_policy s)"
    "wrr_inv True (phantom_connection_policy s)" for q by (simp_all add: policies_ok_def)
  note i = initialize_result [OF p(1) unit_fetch, where e = c]
    initialize_result [OF p(2) unit_fetch, where e = c] initialize_result [OF p(3) unit_fetch, where e = c]
  have "head_ready s' d q" if "head_ready s d q" "d \<noteq> c" for d q
    using that by (simp add: s' put_queues_def head_ready_def queues_of_def gates_open_def)
  moreover have "\<not> IsActive (connection_policy s q) c" for q
    using nk IsActive_known [OF p(1)] by blast
  moreover have a: "IsActive (connection_policy s' q) = IsActive (connection_policy s q)"
    "packet_type_policy s' = packet_type_policy s" for q using i by (simp_all add: s' put_queues_def)
  ultimately have h: "head_ready s' d q" if "IsActive (connection_policy s' q) d" for d q
    using that assms(1) unfolding conn_inv_def by (metis empty_iff)
  have "policies_ok s'" using ok i by (simp add: policies_ok_def s' put_queues_def)
  moreover have "registered s' d" if "connection_queues s' d \<noteq> None" for d
    using that assms(1) i by (auto simp: registered_def conn_inv_def s' put_queues_def split: if_splits)
  moreover have "connection_queues s' d \<noteq> None" if "known (connection_policy s' q) d" for d q
    using that assms(1) i by (auto simp: conn_inv_def s' put_queues_def)
  ultimately have "conn_inv {} s'"
    using assms(1) h by (simp add: conn_inv_def a)
  moreover have "retx_inv {} s'"
    using assms(1) by (simp add: s' put_queues_def retx_inv_def retx_ready_def retx_queues_of_def)
  ultimately show ?thesis by simp
qed

lemma retx_Init_inv:
  assumes "sched_inv {} {} s" "retx_InitConnectionSchedulerQueues c s = Some (s', st)"
  shows "sched_inv {} {} s'"
proof (cases "retx_queues s c")
  case (Some m)
  then show ?thesis using assms by (simp add: retx_InitConnectionSchedulerQueues_def)
next
  case None
  let ?p = "fst (wrr_InitializeEntity None c (retx_policy s))"
  have s': "s' = s\<lparr>retx_queues := (retx_queues s)(c \<mapsto> new_RetransmissionSchedulerQueues),
      retx_policy := ?p, next_window_type := (next_window_type s)(c := W_kRequest)\<rparr>"
    using assms(2) None
    by (auto simp: retx_InitConnectionSchedulerQueues_def case_prod_unfold split: if_splits)
  have ok: "wrr_inv True (retx_policy s)" using assms(1) by (simp add: retx_inv_def)
  note i = initialize_result [OF ok unit_fetch, of c]
  have na: "\<not> IsActive (retx_policy s) c"
    using None IsActive_known [OF ok, of c] assms(1) unfolding retx_inv_def by blast
  have "retx_ready s' d = retx_ready s d" if "d \<noteq> c" for d
    using that by (intro retx_ready_cong) (simp_all add: s')
  moreover have "IsActive (retx_policy s') = IsActive (retx_policy s)" "wrr_inv True (retx_policy s')"
    "known (retx_policy s') d \<longleftrightarrow> d = c \<or> known (retx_policy s) d" for d using i by (simp_all add: s')
  moreover have "retx_queues s' d = None \<longleftrightarrow> d \<noteq> c \<and> retx_queues s d = None" for d by (simp add: s')
  ultimately have "retx_inv {} s'"
    using assms(1) na unfolding retx_inv_def by metis
  moreover have "conn_agree {} s s'"
    by (rule update_agree) (simp_all add: s' policies_ok_def known_same_def queues_of_def)
  ultimately show ?thesis using assms(1) conn_agree_inv [of "{}" s "{}"] by simp
qed

lemma fast_HasWork_inv:
  assumes "sched_inv {} {} s" "fast_HasWork s = Some (s', b)"
  shows "sched_inv {} {} s'"
proof -
  have ok: "policies_ok s" using assms(1) by (simp add: conn_inv_def)
  note h = fast_HasWork_spec [OF ok assms(2)]
  have k: "known_same s s'"
    using result_D(1) [OF fast_HasWork_total [OF ok, of False] assms(2)] by simp
  have f: "recompute_frame s' = recompute_frame s" by (rule same_activity_facts(2) [OF h(1)])
  have "conn_agree {} s s'"
    using h(1,2) k by (simp add: conn_agree_def same_activity_def frame_sel(1,10) [OF f])
  then show ?thesis
    using assms(1) conn_agree_inv [of "{}" s "{}"] frame_retx(1) [OF f] by simp
qed

lemma retx_HasWork_inv:
  assumes "sched_inv {} {} s" "retx_HasWork s = Some (s', b)"
  shows "sched_inv {} {} s'" "b \<Longrightarrow> \<exists>c. IsActive (retx_policy s') c" "contexts s' = contexts s" "view s' = view s"
proof -
  have ok: "wrr_inv True (retx_policy s)" using assms(1) by (simp add: retx_inv_def)
  obtain p where p: "wrr_HasWork None (retx_policy s) = Some (p, \<exists>e. IsActive (retx_policy s) e)"
    "wrr_inv True p" "IsActive p = IsActive (retx_policy s)" "known p = known (retx_policy s)"
    using unit_HasWork [OF ok] by blast
  have s': "s' = s \<and> \<not> b \<or> s' = s\<lparr>retx_policy := p\<rparr> \<and> b = (\<exists>e. IsActive (retx_policy s) e)"
    using assms(2) p(1) by (auto simp: retx_HasWork_def split: if_splits)
  have "conn_agree {} s (s\<lparr>retx_policy := p\<rparr>)"
    by (rule update_agree) (simp_all add: policies_ok_def known_same_def queues_of_def)
  moreover have "retx_agree {} s (s\<lparr>retx_policy := p\<rparr>)"
    using p by (simp add: retx_agree_def retx_ready_def retx_queues_of_def)
  ultimately have "sched_inv {} {} (s\<lparr>retx_policy := p\<rparr>)"
    using assms(1) conn_agree_inv [of "{}" s "{}"] retx_agree_inv [of "{}" s "{}"] by simp
  with s' assms(1) show "sched_inv {} {} s'" by auto
  show "b \<Longrightarrow> \<exists>c. IsActive (retx_policy s') c" "contexts s' = contexts s" "view s' = view s"
    using s' p(3) by auto
qed


section \<open>Histories\<close>

text \<open>
  The states the two schedulers reach. Packets are enqueued on connections whose queues exist. A gating
  variable changes what the gates of its connection read and runs the gating function
  (\<open>fs_gating\<close>); the other changes of the connection states keep the flags of queued packets
  (\<open>fs_context\<close>), and the admission control and the back-pressure change without a
  recomputation (\<open>fs_admission\<close>).
\<close>

inductive fs_reach :: "FastSchedulers \<Rightarrow> bool" where
  fs_new: "fs_reach (new_FastSchedulers Map.empty v)"
| fs_connect: "fs_reach s \<Longrightarrow> contexts s c = None \<Longrightarrow>
    fs_reach (s\<lparr>contexts := (contexts s)(c \<mapsto> cs)\<rparr>)"
| fs_init: "fs_reach s \<Longrightarrow> InitConnectionSchedulerQueues c s = Some (s', st) \<Longrightarrow> fs_reach s'"
| fs_retx_init: "fs_reach s \<Longrightarrow> retx_InitConnectionSchedulerQueues c s = Some (s', st) \<Longrightarrow> fs_reach s'"
| fs_enqueue: "fs_reach s \<Longrightarrow> connection_queues s c \<noteq> None \<Longrightarrow>
    EnqueuePacket c rsn type s = Some s' \<Longrightarrow> fs_reach s'"
| fs_retx_enqueue: "fs_reach s \<Longrightarrow> retx_queues s c \<noteq> None \<Longrightarrow>
    retx_EnqueuePacket c rsn type s = Some (s', st) \<Longrightarrow> fs_reach s'"
| fs_retx_dequeue: "fs_reach s \<Longrightarrow> retx_queues s c \<noteq> None \<Longrightarrow>
    retx_DequeuePacket c rsn type s = Some (s', st) \<Longrightarrow> fs_reach s'"
| fs_gating: "fs_reach s \<Longrightarrow> local_change c s ch \<Longrightarrow> gating_change c ch s = Some s' \<Longrightarrow> fs_reach s'"
| fs_op_rate: "fs_reach s \<Longrightarrow> op_rate_event c s = Some s' \<Longrightarrow> fs_reach s'"
| fs_context: "fs_reach s \<Longrightarrow> contexts s c = Some cs \<Longrightarrow> same_gates s c cs cs' \<Longrightarrow>
    fs_reach (s\<lparr>contexts := (contexts s)(c \<mapsto> cs')\<rparr>)"
| fs_admission: "fs_reach s \<Longrightarrow> fs_reach (s\<lparr>view := (view s)\<lparr>admits := a, CanSendPacket := b\<rparr>\<rparr>)"
| fs_has_work: "fs_reach s \<Longrightarrow> fast_HasWork s = Some (s', b) \<Longrightarrow> fs_reach s'"
| fs_retx_has_work: "fs_reach s \<Longrightarrow> retx_HasWork s = Some (s', b) \<Longrightarrow> fs_reach s'"
| fs_schedule: "fs_reach s \<Longrightarrow> env_ok env \<Longrightarrow> ScheduleWork env s = Some (s', b) \<Longrightarrow> fs_reach s'"
| fs_retx_schedule: "fs_reach s \<Longrightarrow> env_ok env \<Longrightarrow> retx_ScheduleWork env s = Some (s', b) \<Longrightarrow> fs_reach s'"

lemma connect_inv:
  assumes "sched_inv {} {} s" "contexts s c = None"
  shows "sched_inv {} {} (s\<lparr>contexts := (contexts s)(c \<mapsto> cs)\<rparr>)"
proof -
  let ?s = "s\<lparr>contexts := (contexts s)(c \<mapsto> cs)\<rparr>"
  have "head_ready ?s d q" if "head_ready s d q" for d q
  proof -
    have "d \<noteq> c" using that assms(2) by (auto simp: head_ready_def)
    with that show ?thesis by (simp add: head_ready_def gates_open_def queues_of_def)
  qed
  then have "conn_inv {} ?s"
    using assms(1) by (simp add: conn_inv_def policies_ok_def registered_def)
  moreover have "retx_ready ?s d" if "retx_ready s d" for d
  proof -
    have "d \<noteq> c" using that assms(2) by (auto simp: retx_ready_def)
    with that show ?thesis by (simp add: retx_ready_def retx_queues_of_def)
  qed
  then have "retx_inv {} ?s" using assms(1) by (simp add: retx_inv_def)
  ultimately show ?thesis by simp
qed

lemma fs_reach_inv: "fs_reach s \<Longrightarrow> sched_inv {} {} s"
proof (induction rule: fs_reach.induct)
  case (fs_new v)
  show ?case by (rule new_inv)
next
  case (fs_admission s a b)
  show ?case by (rule policy_frame_inv [OF fs_admission.IH]) auto
next
  case (fs_connect s c cs)
  show ?case by (rule connect_inv [OF fs_connect.IH fs_connect.hyps(2)])
next
  case (fs_init s c s' st)
  show ?case by (rule Init_inv [OF fs_init.IH fs_init.hyps(2)])
next
  case (fs_retx_init s c s' st)
  show ?case by (rule retx_Init_inv [OF fs_retx_init.IH fs_retx_init.hyps(2)])
next
  case (fs_enqueue s c rsn type s')
  show ?case by (rule EnqueuePacket_inv [OF fs_enqueue.IH fs_enqueue.hyps(2,3)])
next
  case (fs_retx_enqueue s c rsn type s' st)
  show ?case by (rule retx_EnqueuePacket_inv [OF fs_retx_enqueue.IH fs_retx_enqueue.hyps(2,3)])
next
  case (fs_retx_dequeue s c rsn type s' st)
  show ?case by (rule retx_DequeuePacket_inv [OF fs_retx_dequeue.IH fs_retx_dequeue.hyps(2,3)])
next
  case (fs_gating s c ch s')
  show ?case by (rule gating_change_inv(1) [OF fs_gating.IH fs_gating.hyps(2,3)])
next
  case (fs_op_rate s c s')
  show ?case by (rule assign_op_rate_inv(1) [OF fs_op_rate.IH fs_op_rate.hyps(2) [unfolded op_rate_event_def]])
next
  case (fs_context s c cs cs')
  show ?case by (rule same_gates_inv [OF fs_context.IH fs_context.hyps(2,3)])
next
  case (fs_has_work s s' b)
  show ?case by (rule fast_HasWork_inv [OF fs_has_work.IH fs_has_work.hyps(2)])
next
  case (fs_retx_has_work s s' b)
  show ?case by (rule retx_HasWork_inv(1) [OF fs_retx_has_work.IH fs_retx_has_work.hyps(2)])
next
  case (fs_schedule s env s' b)
  show ?case by (rule ScheduleWork_inv [OF fs_schedule.IH fs_schedule.hyps(2,3)])
next
  case (fs_retx_schedule s env s' b)
  show ?case by (rule retx_ScheduleWork_inv [OF fs_retx_schedule.IH fs_retx_schedule.hyps(2,3)])
qed

section \<open>An example\<close>

text \<open>
  Two connections: a pull request that the admission control does not let through on connection 1, which
  is also to be retransmitted, and unsolicited data of an ordered connection 2, hence a phantom request.
\<close>

definition example_view :: sched_view where
  "example_view = \<lparr>meets_initial_cc = (\<lambda>_ _. True), meets_initial_oow = (\<lambda>_ _. True),
     meets_retx_cc = (\<lambda>_ _ _. True), admits = (\<lambda>_ t. t \<noteq> kPullRequest), CanSendPacket = True\<rparr>"

definition example_connection :: "u32 \<Rightarrow> OrderingMode \<Rightarrow> TransactionMetadata \<Rightarrow> SchedConnection" where
  "example_connection c ord t =
     \<lparr>cs_scid = c, tx_transaction_metadata =
        \<lparr>base_request_sequence_number = 0, next_request_sequence_number = 0,
         current_solicitation_sequence_number = 0\<rparr>,
      transactions = Map.empty(mk_key (tm_rsn t) kInitiator \<mapsto> t),
      ordered_mode = ord, is_op_rate_limited = 0, last_packet_send_time = ZeroDuration\<rparr>"

definition example_pull :: TransactionMetadata where
  "example_pull = (new_TransactionMetadata 10 kPull kInitiator)
     \<lparr>request_length := Some 1024,
      packets := Map.empty(kPullRequest \<mapsto> (new_PacketMetadata kPullRequest kOutgoing None True)\<lparr>pm_psn := Some 5\<rparr>)\<rparr>"

definition example_push :: TransactionMetadata where
  "example_push = (new_TransactionMetadata 20 kPushUnsolicited kInitiator)
     \<lparr>request_length := Some 512,
      packets := Map.empty(kPushUnsolicitedData \<mapsto> new_PacketMetadata kPushUnsolicitedData kOutgoing None False,
        kInvalid \<mapsto> new_PacketMetadata kInvalid kOutgoing None True)\<rparr>"

definition fast_start :: FastSchedulers where
  "fast_start = new_FastSchedulers (Map.empty(1 \<mapsto> example_connection 1 kUnordered example_pull,
     2 \<mapsto> example_connection 2 kOrdered example_push)) example_view"

definition fast_example :: "FastSchedulers option" where
  "fast_example = do {
     (s1, _) \<leftarrow> InitConnectionSchedulerQueues 1 fast_start;
     (s2, _) \<leftarrow> InitConnectionSchedulerQueues 2 s1;
     (s3, _) \<leftarrow> retx_InitConnectionSchedulerQueues 1 s2;
     check (\<not> Option.is_none (connection_queues s3 1));
     s4 \<leftarrow> EnqueuePacket 1 10 kPullRequest s3;
     check (\<not> Option.is_none (retx_queues s4 1));
     (s5, _) \<leftarrow> retx_EnqueuePacket 1 10 kPullRequest s4;
     check (\<not> Option.is_none (connection_queues s5 2));
     EnqueuePacket 2 20 kPushUnsolicitedData s5
   }"

lemma fast_start_reach: "fs_reach fast_start"
proof -
  let ?c1 = "example_connection 1 kUnordered example_pull"
  let ?c2 = "example_connection 2 kOrdered example_push"
  let ?s0 = "new_FastSchedulers Map.empty example_view"
  let ?s1 = "?s0\<lparr>contexts := (contexts ?s0)(1 \<mapsto> ?c1)\<rparr>"
  have "fs_reach ?s1"
    by (rule fs_connect [OF fs_new]) (simp add: new_FastSchedulers_def)
  then have "fs_reach (?s1\<lparr>contexts := (contexts ?s1)(2 \<mapsto> ?c2)\<rparr>)"
    by (rule fs_connect) (simp add: new_FastSchedulers_def)
  then show ?thesis by (simp add: fast_start_def new_FastSchedulers_def)
qed

lemma fast_example_reach:
  assumes "fast_example = Some s"
  shows "fs_reach s"
proof -
  from assms obtain s1 x1 s2 x2 s3 x3 s4 s5 x5 where e:
    "InitConnectionSchedulerQueues 1 fast_start = Some (s1, x1)"
    "InitConnectionSchedulerQueues 2 s1 = Some (s2, x2)"
    "retx_InitConnectionSchedulerQueues 1 s2 = Some (s3, x3)"
    "connection_queues s3 1 \<noteq> None" "EnqueuePacket 1 10 kPullRequest s3 = Some s4"
    "retx_queues s4 1 \<noteq> None" "retx_EnqueuePacket 1 10 kPullRequest s4 = Some (s5, x5)"
    "connection_queues s5 2 \<noteq> None" "EnqueuePacket 2 20 kPushUnsolicitedData s5 = Some s"
    by (auto simp: fast_example_def Option.is_none_def split: bind_splits if_splits)
  note r = fs_init [OF fs_init [OF fast_start_reach e(1)] e(2)]
  note r = fs_retx_enqueue [OF fs_enqueue [OF fs_retx_init [OF r e(3)] e(4,5)] e(6,7)]
  show ?thesis by (rule fs_enqueue [OF r e(8,9)])
qed

lemma fast_example_facts:
  "case fast_example of None \<Rightarrow> False | Some s \<Rightarrow>
     (case fast_HasWork s of None \<Rightarrow> False | Some (s1, b) \<Rightarrow> b \<and>
       (case pick_work s1 of None \<Rightarrow> False | Some (s2, q, c, w) \<Rightarrow>
          q = kPullAndOrderedPushRequest \<and> c = 1 \<and> work_rsn w = 10 \<and> work_type w = kPullRequest \<and>
          CanSend c 10 kPullRequest s2 = Some False)) \<and>
     (case retx_HasWork s of None \<Rightarrow> False | Some (_, b) \<Rightarrow> b)"
  by code_simp

lemma fast_example_found:
  "case fast_example of None \<Rightarrow> False | Some s \<Rightarrow> \<not> Option.is_none (connection_queues s 1) \<and>
     (case contexts s 1 of None \<Rightarrow> False | Some cs \<Rightarrow> is_op_rate_limited cs = 0) \<and>
     queues_of s 1 kPushData = [] \<and> queues_of s 1 kPullAndOrderedPushRequest = [\<lparr>work_rsn = 10, work_type = kPullRequest\<rparr>] \<and>
     meets_initial_cc (view s) 1 kPullRequest \<and> meets_initial_oow (view s) 1 kPullRequest"
  by code_simp

lemma fast_example_obtain:
  obtains s s1 s2 w s3 where "fast_example = Some s" "fs_reach s" "fast_HasWork s = Some (s1, True)" "fs_reach s1"
    "pick_work s1 = Some (s2, kPullAndOrderedPushRequest, 1, w)" "work_rsn w = 10" "work_type w = kPullRequest"
    "CanSend 1 10 kPullRequest s2 = Some False" "retx_HasWork s = Some (s3, True)"
proof -
  from fast_example_facts obtain s s1 s2 w s3 where s: "fast_example = Some s"
    "fast_HasWork s = Some (s1, True)"
    "pick_work s1 = Some (s2, kPullAndOrderedPushRequest, 1, w)" "work_rsn w = 10" "work_type w = kPullRequest"
    "CanSend 1 10 kPullRequest s2 = Some False" "retx_HasWork s = Some (s3, True)"
    by (auto split: option.splits prod.splits)
  have "fs_reach s" by (rule fast_example_reach [OF s(1)])
  then show thesis using that s fs_has_work [OF _ s(2)] by blast
qed

section \<open>Properties\<close>

text \<open>
  C23 A recomputation is exact. In any reachable state it succeeds for a connection that has a context
  (and whose first push data is one of its packets), and afterwards the connection is active for a
  packet type exactly when the head of that queue is a phantom request or passes the operation rate, the
  eligibility, the congestion and the window gates; no other connection's activity changes; and a packet
  type is active exactly when the admission control lets it and some connection is active for it.
\<close>

theorem recomputation_exact:
  assumes "fs_reach s" "connection_queues s c \<noteq> None" "contexts s c = Some cs" "head_found s c cs"
  shows "\<exists>s'. RecomputeEligibility c s = Some s' \<and>
    (\<forall>q. IsActive (connection_policy s' q) c \<longleftrightarrow> (\<exists>w. csq_Peek q (queues_of s c) = Some w \<and>
       (is_phantom q w \<or> gates_open s c cs q w))) \<and>
    (\<forall>q d. d \<noteq> c \<longrightarrow> IsActive (connection_policy s' q) d = IsActive (connection_policy s q) d) \<and>
    (\<forall>q. IsActive (packet_type_policy s') q \<longleftrightarrow>
       admission_met s' q \<and> (\<exists>d. IsActive (connection_policy s' q) d)) \<and>
    connection_queues s' = connection_queues s \<and> contexts s' = contexts s \<and> view s' = view s"
proof -
  have inv: "conn_inv {} s" using fs_reach_inv [OF assms(1)] by simp
  then have ok: "policies_ok s" and "registered s c" using assms(2) by (simp_all add: conn_inv_def)
  then obtain s' where s': "RecomputeEligibility c s = Some s'"
    using RecomputeEligibility_returns assms(3,4) by blast
  note r = RecomputeEligibility_spec [OF ok s']
  have "IsActive (packet_type_policy s') q \<longleftrightarrow>
      admission_met s' q \<and> (\<exists>d. IsActive (connection_policy s' q) d)" for q
    unfolding r(7) type_ready_def ..
  moreover have "IsActive (connection_policy s' q) c \<longleftrightarrow> (\<exists>w. csq_Peek q (queues_of s c) = Some w \<and>
      (is_phantom q w \<or> gates_open s c cs q w))" for q
    using r(3) [OF assms(2), of q] assms(3) by (simp add: head_ready_def)
  moreover have "IsActive (connection_policy s' q) d = IsActive (connection_policy s q) d" if "d \<noteq> c" for d q
    using r(3) [OF assms(2), of q] that by simp
  ultimately show ?thesis
    using s' frame_sel(1-3) [OF r(2)] by blast
qed

lemma recomputation_exact_witness:
  "\<exists>s s'. fast_example = Some s \<and> RecomputeEligibility 1 s = Some s' \<and>
     IsActive (connection_policy s' kPullAndOrderedPushRequest) 1"
proof -
  obtain s where s: "fast_example = Some s" using fast_example_obtain by metis
  from fast_example_found [unfolded s option.case] obtain cs where f: "connection_queues s 1 \<noteq> None" "contexts s 1 = Some cs"
    "is_op_rate_limited cs = 0" "queues_of s 1 kPushData = []"
    "queues_of s 1 kPullAndOrderedPushRequest = [\<lparr>work_rsn = 10, work_type = kPullRequest\<rparr>]"
    "meets_initial_cc (view s) 1 kPullRequest" "meets_initial_oow (view s) 1 kPullRequest"
    by (auto simp: Option.is_none_def split: option.splits)
  have "head_found s 1 cs" using f(4) by (simp add: head_found_def csq_Peek_def)
  from recomputation_exact [OF fast_example_reach [OF s] f(1,2) this] s f(3,5-7) show ?thesis
    by (auto simp: csq_Peek_def gates_open_def)
qed

text \<open>
  C24 The retransmission scheduler never runs into its own check. In any reachable state, when it
  reports work, it finds a connection and a packet, which is the first one, in sequence order, of the
  window whose turn it is, and that packet may be sent.
\<close>

theorem retransmission_check_holds:
  assumes "fs_reach s" "retx_HasWork s = Some (s1, True)"
  shows "\<exists>s2 q c w. retx_pick s1 = Some (s2, q, c, w) \<and>
    rsq_Peek q (retx_queues_of s1 c) = Some w \<and> q = next_window_type s1 c \<and>
    retx_CanSend c (rwd_psn w) (rwd_type w) s2 = Some True"
proof -
  note h = retx_HasWork_inv [OF fs_reach_inv [OF assms(1)] assms(2)]
  have ok: "wrr_inv True (retx_policy s1)" using h(1) by (simp add: retx_inv_def)
  obtain p r where g: "GetNextEntity None (retx_policy s1) = Some (p, r)"
    "case r of Inr e \<Rightarrow> IsActive (retx_policy s1) e
       | Inl st \<Rightarrow> (\<forall>e. IsActive (retx_policy s1) e \<longrightarrow> weight_now None (retx_policy s1) e \<le> 0)"
    by (rule GetNextEntity_spec [OF ok unit_fetch]) (rule that; assumption)
  obtain c where "r = Inr c"
  proof (cases r)
    case (Inl st)
    obtain e where e: "IsActive (retx_policy s1) e" using h(2) by blast
    then have "weight_now None (retx_policy s1) e = 1"
      using ok by (auto simp: weight_now_def IsActive_md wrr_inv_matched wrr_inv_def md_ok_def)
    with e g(2) Inl show thesis by force
  qed (use that in blast)
  with retx_pick_inv(1) [OF h(1)] g(1) show ?thesis by blast
qed

lemma retransmission_check_holds_witness:
  "\<exists>s s1 s2 q c w. fast_example = Some s \<and> retx_HasWork s = Some (s1, True) \<and>
     retx_pick s1 = Some (s2, q, c, w) \<and> retx_CanSend c (rwd_psn w) (rwd_type w) s2 = Some True"
proof -
  obtain s s3 where s: "fast_example = Some s" "fs_reach s" "retx_HasWork s = Some (s3, True)"
    using fast_example_obtain by metis
  from retransmission_check_holds [OF s(2,3)] s(1,3) show ?thesis by blast
qed

text \<open>
  C25 The connection scheduler's check depends on the admission control only. In any reachable state,
  the packet picked is the head of the chosen queue, its connection is not held back by the operation
  rate, and it passes the congestion and window gates; so \<open>CanSend\<close> can only fail for a request that
  is not admitted or a packet, other than push data, that was never marked eligible.
\<close>

theorem pick_passes_connection_gates:
  assumes "fs_reach s" "pick_work s = Some (s1, q, c, w)" "work_type w \<noteq> kInvalid"
    and "CanSend c (work_rsn w) (work_type w) s1 = Some ok"
  shows "\<exists>cs key t p len. contexts s c = Some cs \<and> gates_open s c cs q w \<and>
    csq_Peek q (queues_of s c) = Some w \<and>
    find_packet cs (work_rsn w) (work_type w) = Some (key, t, p) \<and> request_length t = Some len \<and>
    (ok \<longleftrightarrow> admits (view s) (ucast len) (work_type w) \<and> is_transmission_eligible p) \<and>
    (q = kPushData \<longrightarrow> is_transmission_eligible p)"
proof -
  note k = pick_work_inv [OF fs_reach_inv [OF assms(1)] assms(2)]
  have q: "queues_of s1 = queues_of s" using k(6) by (simp add: fun_eq_iff queues_of_def)
  from k(2,3) assms(3) obtain cs where cs: "contexts s c = Some cs" "gates_open s c cs q w"
    by (auto simp: head_ready_def is_phantom_def gates_open_def k(4,5))
  from assms(4) cs(1) k(4) obtain key t p len where "find_packet cs (work_rsn w) (work_type w) = Some (key, t, p)"
    "request_length t = Some len" "ok \<longleftrightarrow> is_transmission_eligible p \<and> is_op_rate_limited cs = 0 \<and>
       meets_initial_cc (view s1) c (work_type w) \<and> admits (view s1) (ucast len) (work_type w) \<and>
       meets_initial_oow (view s1) c (work_type w)"
    by (auto simp: CanSend_def split: bind_splits)
  then show ?thesis
    using cs k(3,5) q by (intro exI [of _ cs] exI [of _ key] exI [of _ t] exI [of _ p] exI [of _ len])
      (auto simp: gates_open_def packet_eligible_def)
qed

lemma pick_passes_connection_gates_witness:
  "\<exists>s c q w cs. fs_reach s \<and> gates_open s c cs q w \<and> work_type w = kPullRequest"
proof -
  obtain s1 s2 w where s: "fs_reach s1" "pick_work s1 = Some (s2, kPullAndOrderedPushRequest, 1, w)"
    "work_rsn w = 10" "work_type w = kPullRequest" "CanSend 1 10 kPullRequest s2 = Some False"
    using fast_example_obtain by metis
  have "work_type w \<noteq> kInvalid" "CanSend 1 (work_rsn w) (work_type w) s2 = Some False" using s by simp_all
  from pick_passes_connection_gates [OF s(1,2) this] s(1,4) show ?thesis by blast
qed

text \<open>
  The connection scheduler can run into its own check. There is a reachable state in which
  it reports work and \<open>ScheduleWork\<close> aborts: a phantom request of one connection keeps the packet type
  of pull requests active while the admission control is closed, and the round robin picks the pull
  request of another connection.
\<close>

theorem connection_check_can_fail:
  "\<exists>s s1. fs_reach s \<and> fast_HasWork s = Some (s1, True) \<and> (\<forall>env. ScheduleWork env s1 = None)"
proof -
  obtain s s1 s2 w where s: "fs_reach s" "fast_HasWork s = Some (s1, True)"
    "pick_work s1 = Some (s2, kPullAndOrderedPushRequest, 1, w)" "work_rsn w = 10" "work_type w = kPullRequest"
    "CanSend 1 10 kPullRequest s2 = Some False"
    using fast_example_obtain by metis
  have "ScheduleWork env s1 = None" for env using s(3-6) by (simp add: ScheduleWork_def)
  with s(1,2) show ?thesis by blast
qed

end
