(* ===== verification/Arbiter.thy ===== *)
theory Arbiter
  imports Fast_Scheduler_History
begin

text \<open>
  The arbiter between the connection, retransmission and ACK/NACK schedulers
  (\<open>host/falcon/falcon_protocol_round_robin_arbiter.{h,cc}\<close>) and the ACK/NACK scheduler
  (\<open>falcon_protocol_ack_nack_scheduler.{h,cc}\<close>).

  The arbiter is written over any three schedulers: \<open>has_work\<close> and \<open>schedule_work\<close> are the two virtual
  functions it calls, with the state of the schedulers as an argument. The locale \<open>schedulers\<close> is what it
  relies on: asking for work does not change the answer, and a scheduler that has work and is told to
  work does it. It is interpreted on the event-based schedulers with the ACK/NACK queue. While an
  arbitration runs, \<open>scheduled_\<close> is set, so the calls of \<open>ScheduleSchedulerArbiter\<close> the schedulers make
  in it return at once.
\<close>

section \<open>The arbiter\<close>

datatype SchedulerType = S_kConnection | S_kRetransmission | S_kAckNack

definition scheduler_types :: "SchedulerType list" where
  "scheduler_types = [S_kConnection, S_kRetransmission, S_kAckNack]"

record 's RoundRobinArbiter =
  scheduler_ordering :: "SchedulerType list"
  candidate_scheduler_index :: nat
  arb_tick_time :: duration
  arb_scheduled :: bool
  last_run_time :: duration
  arb_events :: "duration list"
  served :: "SchedulerType list"
  handlers :: 's

text \<open>\<open>weight\<close> is \<open>GetSchedulerWeight\<close>, which reads the configuration.\<close>

definition new_RoundRobinArbiter :: "(SchedulerType \<Rightarrow> u32) \<Rightarrow> duration \<Rightarrow> 's \<Rightarrow> 's RoundRobinArbiter option"
  where
  "new_RoundRobinArbiter weight tick h = do {
     let order = concat (map (\<lambda>t. replicate (unat (weight t)) t) scheduler_types);
     check (order \<noteq> []);
     Some \<lparr>scheduler_ordering = order, candidate_scheduler_index = 0, arb_tick_time = tick,
       arb_scheduled = False, last_run_time = NegInfiniteDuration, arb_events = [], served = [],
       handlers = h\<rparr>
   }"

type_synonym 's ask = "SchedulerType \<Rightarrow> 's \<Rightarrow> ('s \<times> bool) option"

definition any_work :: "'s ask \<Rightarrow> 's \<Rightarrow> ('s \<times> bool) option" where
  "any_work has_work h = do {
     (h1, a) \<leftarrow> has_work S_kConnection h;
     (if a then Some (h1, True)
      else do {
        (h2, b) \<leftarrow> has_work S_kRetransmission h1;
        (if b then Some (h2, True) else has_work S_kAckNack h2)
      })
   }"

definition arb_HasWork :: "'s ask \<Rightarrow> 's RoundRobinArbiter \<Rightarrow> ('s RoundRobinArbiter \<times> bool) option" where
  "arb_HasWork has_work s = do {
     (h, work) \<leftarrow> any_work has_work (handlers s);
     Some (s\<lparr>handlers := h\<rparr>, work)
   }"

definition ScheduleSchedulerArbiter ::
    "'s ask \<Rightarrow> duration \<Rightarrow> 's RoundRobinArbiter \<Rightarrow> 's RoundRobinArbiter option" where
  "ScheduleSchedulerArbiter has_work now s =
     (if arb_scheduled s then Some s
      else do {
        (s1, work) \<leftarrow> arb_HasWork has_work s;
        (if \<not> work then Some s1
         else
           let next_run_time = last_run_time s1 + arb_tick_time s1;
               at = (if now \<ge> next_run_time then now else next_run_time)
           in Some (s1\<lparr>arb_scheduled := True, arb_events := arb_events s1 @ [at - now]\<rparr>))
      })"

text \<open>
  The \<open>while (true)\<close> loop, from the current index; the result is the index of the scheduler that did
  work, if one did.
\<close>

partial_function (option) arbitrate ::
    "'s ask \<Rightarrow> 's ask \<Rightarrow> SchedulerType list \<Rightarrow> nat \<Rightarrow> nat \<Rightarrow> 's \<Rightarrow> ('s \<times> nat option) option" where
  "arbitrate has_work schedule_work order candidate current h = do {
     check (current < length order);
     (h1, work) \<leftarrow> has_work (order ! current) h;
     (h2, done) \<leftarrow> (if work then schedule_work (order ! current) h1 else Some (h1, False));
     (if done then Some (h2, Some current)
      else if Suc current mod length order = candidate then Some (h2, None)
      else arbitrate has_work schedule_work order candidate (Suc current mod length order) h2)
   }"

definition DoArbitration ::
    "'s ask \<Rightarrow> 's ask \<Rightarrow> duration \<Rightarrow> 's RoundRobinArbiter \<Rightarrow> 's RoundRobinArbiter option" where
  "DoArbitration has_work schedule_work now s = do {
     (s1, work) \<leftarrow> arb_HasWork has_work s;
     (if \<not> work then Some (s1\<lparr>arb_scheduled := False\<rparr>)
      else do {
        let s2 = s1\<lparr>last_run_time := now\<rparr>;
        (h, r) \<leftarrow> arbitrate has_work schedule_work (scheduler_ordering s2)
          (candidate_scheduler_index s2) (candidate_scheduler_index s2) (handlers s2);
        let s3 = (case r of
            Some i \<Rightarrow> s2\<lparr>handlers := h,
              candidate_scheduler_index := Suc i mod length (scheduler_ordering s2),
              served := served s2 @ [scheduler_ordering s2 ! i]\<rparr>
          | None \<Rightarrow> s2\<lparr>handlers := h\<rparr>);
        (s4, more) \<leftarrow> arb_HasWork has_work s3;
        Some (if more then s4\<lparr>arb_events := arb_events s4 @ [arb_tick_time s4]\<rparr>
              else s4\<lparr>arb_scheduled := False\<rparr>)
      })
   }"

section \<open>The ACK/NACK scheduler\<close>

record HostSchedulers =
  fast :: FastSchedulers
  ack_nack_queue :: "Packet list"
  transferred :: "(u32 \<times> Packet) list"

definition ack_nack_InitConnectionSchedulerQueues :: "u32 \<Rightarrow> HostSchedulers \<Rightarrow> HostSchedulers \<times> status" where
  "ack_nack_InitConnectionSchedulerQueues scid s = (s, OkStatus)"

definition ack_nack_EnqueueWork :: "u32 \<Rightarrow> u32 \<Rightarrow> PacketType \<Rightarrow> HostSchedulers \<Rightarrow> HostSchedulers \<times> status" where
  "ack_nack_EnqueueWork scid rsn type s = (s, OkStatus)"

definition ack_nack_DequeuePacket :: "u32 \<Rightarrow> u32 \<Rightarrow> PacketType \<Rightarrow> HostSchedulers \<Rightarrow> HostSchedulers \<times> status" where
  "ack_nack_DequeuePacket scid rsn type s = (s, OkStatus)"

text \<open>\<open>EnqueuePacket\<close> of a packet; the call of the arbiter follows it.\<close>

definition ack_nack_EnqueuePacket :: "Packet \<Rightarrow> HostSchedulers \<Rightarrow> HostSchedulers option" where
  "ack_nack_EnqueuePacket p s = do {
     check (packet_type p = kAck \<or> packet_type p = kNack);
     Some (s\<lparr>ack_nack_queue := ack_nack_queue s @ [p]\<rparr>)
   }"

definition ack_nack_HasWork :: "HostSchedulers \<Rightarrow> bool" where
  "ack_nack_HasWork s \<longleftrightarrow> CanSendPacket (view (fast s)) \<and> ack_nack_queue s \<noteq> []"

definition ack_nack_ScheduleWork :: "HostSchedulers \<Rightarrow> (HostSchedulers \<times> bool) option" where
  "ack_nack_ScheduleWork s =
     (case ack_nack_queue s of
        [] \<Rightarrow> None
      | p # ps \<Rightarrow> Some (s\<lparr>ack_nack_queue := ps, transferred := transferred s @ [(metadata_scid p, p)]\<rparr>, True))"

text \<open>The table of handlers.\<close>

fun host_has_work :: "HostSchedulers ask" where
  "host_has_work S_kConnection s = do {
     (f, b) \<leftarrow> fast_HasWork (fast s);
     Some (s\<lparr>fast := f\<rparr>, b)
   }"
| "host_has_work S_kRetransmission s = do {
     (f, b) \<leftarrow> retx_HasWork (fast s);
     Some (s\<lparr>fast := f\<rparr>, b)
   }"
| "host_has_work S_kAckNack s = Some (s, ack_nack_HasWork s)"

fun host_schedule_work :: "sched_env \<Rightarrow> HostSchedulers ask" where
  "host_schedule_work env S_kConnection s = do {
     (f, b) \<leftarrow> ScheduleWork env (fast s);
     Some (s\<lparr>fast := f\<rparr>, b)
   }"
| "host_schedule_work env S_kRetransmission s = do {
     (f, b) \<leftarrow> retx_ScheduleWork env (fast s);
     Some (s\<lparr>fast := f\<rparr>, b)
   }"
| "host_schedule_work env S_kAckNack s = ack_nack_ScheduleWork s"

section \<open>What the arbiter relies on\<close>

lemma cyclic_ne:
  assumes "a < n" "0 < k" "k < (n :: nat)"
  shows "(a + k) mod n \<noteq> a"
proof (cases "a + k < n")
  case False
  then have "(a + k) mod n = a + k - n" using assms by (simp add: le_mod_geq)
  then show ?thesis using assms False by linarith
qed (use assms in simp)

lemma cyclic_offset:
  assumes "c < n" "i < (n :: nat)"
  shows "\<exists>d < n. (c + d) mod n = i"
proof (cases "c \<le> i")
  case True
  then have "(c + (i - c)) mod n = i" "i - c < n" using assms by simp_all
  then show ?thesis by blast
next
  case False
  then have "(c + (n - c + i)) mod n = i" "n - c + i < n" using assms by simp_all
  then show ?thesis by blast
qed

locale schedulers =
  fixes wf :: "'s \<Rightarrow> bool"
    and works :: "'s \<Rightarrow> SchedulerType \<Rightarrow> bool"
    and has_work :: "'s ask"
    and schedule_work :: "'s ask"
  assumes asking: "wf s \<Longrightarrow> \<exists>s'. has_work t s = Some (s', works s t) \<and> wf s' \<and> works s' = works s"
    and working: "wf s \<Longrightarrow> works s t \<Longrightarrow> schedule_work t s = Some (s', b) \<Longrightarrow> wf s' \<and> b"
begin

lemma any_work_spec:
  assumes "wf h"
  shows "\<exists>h'. any_work has_work h = Some (h', \<exists>t. works h t) \<and> wf h' \<and> works h' = works h"
proof -
  have ex: "(\<exists>t. works h t) \<longleftrightarrow> works h S_kConnection \<or> works h S_kRetransmission \<or> works h S_kAckNack"
    by (metis (full_types) SchedulerType.exhaust)
  obtain h1 where h1: "has_work S_kConnection h = Some (h1, works h S_kConnection)" "wf h1" "works h1 = works h"
    using asking [OF assms] by blast
  obtain h2 where h2: "has_work S_kRetransmission h1 = Some (h2, works h S_kRetransmission)" "wf h2"
    "works h2 = works h" using asking [OF h1(2)] h1(3) by metis
  obtain h3 where h3: "has_work S_kAckNack h2 = Some (h3, works h S_kAckNack)" "wf h3" "works h3 = works h"
    using asking [OF h2(2)] h2(3) by metis
  show ?thesis using h1 h2 h3 unfolding ex by (simp add: any_work_def)
qed

lemma arb_HasWork_spec:
  assumes "wf (handlers s)"
  shows "\<exists>h. arb_HasWork has_work s = Some (s\<lparr>handlers := h\<rparr>, \<exists>t. works (handlers s) t) \<and> wf h \<and>
    works h = works (handlers s)"
  using any_work_spec [OF assms] by (auto simp: arb_HasWork_def)

text \<open>
  The loop returns: it serves the first scheduler that has work, from the candidate on in the cyclic
  order, if there is one.
\<close>

lemma arbitrate_idle:
  assumes "wf h" "candidate < length order" "k < length order"
    and "\<forall>j. k \<le> j \<and> j < length order \<longrightarrow> \<not> works h (order ! ((candidate + j) mod length order))"
  shows "\<exists>h'. arbitrate has_work schedule_work order candidate ((candidate + k) mod length order) h
    = Some (h', None) \<and> wf h' \<and> works h' = works h"
  using assms
proof (induction "length order - k" arbitrary: k h)
  case (Suc n)
  let ?c = "(candidate + k) mod length order"
  have c: "?c < length order" using Suc.prems(3) by (intro mod_less_divisor) linarith
  obtain h1 where h1: "has_work (order ! ?c) h = Some (h1, works h (order ! ?c))" "wf h1" "works h1 = works h"
    using asking [OF Suc.prems(1)] by blast
  have nw: "\<not> works h (order ! ?c)" using Suc.prems(3,4) by auto
  have nx: "Suc ?c mod length order = (candidate + Suc k) mod length order" by (simp add: mod_Suc_eq)
  show ?case
  proof (cases "Suc k < length order")
    case False
    then have "Suc k = length order" using Suc.prems(3) by simp
    then have "(candidate + Suc k) mod length order = candidate" using Suc.prems(2) by simp
    then show ?thesis
      using h1 nw c by (subst arbitrate.simps) (simp add: nx)
  next
    case True
    have "(candidate + Suc k) mod length order \<noteq> candidate"
      using cyclic_ne [OF Suc.prems(2) _ True] by simp
    moreover have "\<exists>h'. arbitrate has_work schedule_work order candidate ((candidate + Suc k) mod length order) h1
        = Some (h', None) \<and> wf h' \<and> works h' = works h1"
      using Suc.hyps(1) [of "Suc k" h1] Suc.hyps(2) Suc.prems(2,4) True h1(2,3) by simp
    ultimately show ?thesis
      using h1 nw c by (subst arbitrate.simps) (simp add: nx)
  qed
qed simp

lemma arbitrate_serves:
  assumes "wf h" "candidate < length order" "j < length order" "k \<le> j"
    and "works h (order ! ((candidate + j) mod length order))"
    and "\<forall>i. k \<le> i \<and> i < j \<longrightarrow> \<not> works h (order ! ((candidate + i) mod length order))"
  shows "\<exists>h1. wf h1 \<and> works h1 = works h \<and>
    arbitrate has_work schedule_work order candidate ((candidate + k) mod length order) h
    = do { (h2, _) \<leftarrow> schedule_work (order ! ((candidate + j) mod length order)) h1;
           Some (h2, Some ((candidate + j) mod length order)) }"
  using assms
proof (induction "j - k" arbitrary: k h)
  case 0
  then have k: "k = j" by simp
  let ?c = "(candidate + j) mod length order"
  have c: "?c < length order" using "0.prems"(3) by (intro mod_less_divisor) linarith
  obtain h1 where h1: "has_work (order ! ?c) h = Some (h1, True)" "wf h1" "works h1 = works h"
    using asking [OF "0.prems"(1), of "order ! ?c"] "0.prems"(5) by auto
  have "arbitrate has_work schedule_work order candidate ?c h
    = do { (h2, _) \<leftarrow> schedule_work (order ! ?c) h1; Some (h2, Some ?c) }"
  proof (cases "schedule_work (order ! ?c) h1")
    case None
    then show ?thesis using h1 c by (subst arbitrate.simps) simp
  next
    case (Some r)
    obtain h2 b where r: "r = (h2, b)" by (cases r)
    have "works h1 (order ! ?c)" using "0.prems"(5) h1(3) by simp
    then have b using working [OF h1(2)] Some r by blast
    then show ?thesis using h1 c Some r by (subst arbitrate.simps) simp
  qed
  with h1 show ?case unfolding k by blast
next
  case (Suc n)
  let ?c = "(candidate + k) mod length order"
  have kj: "Suc k \<le> j" using Suc.hyps(2) by simp
  have c: "?c < length order" using Suc.prems(3) by (intro mod_less_divisor) linarith
  obtain h1 where h1: "has_work (order ! ?c) h = Some (h1, works h (order ! ?c))" "wf h1" "works h1 = works h"
    using asking [OF Suc.prems(1)] by blast
  have nw: "\<not> works h (order ! ?c)" using Suc.prems(6) kj by auto
  have nx: "Suc ?c mod length order = (candidate + Suc k) mod length order" by (simp add: mod_Suc_eq)
  have ne: "(candidate + Suc k) mod length order \<noteq> candidate"
    using cyclic_ne [OF Suc.prems(2), of "Suc k"] kj Suc.prems(3) by simp
  have "\<exists>h2. wf h2 \<and> works h2 = works h1 \<and>
    arbitrate has_work schedule_work order candidate ((candidate + Suc k) mod length order) h1
    = do { (h3, _) \<leftarrow> schedule_work (order ! ((candidate + j) mod length order)) h2;
           Some (h3, Some ((candidate + j) mod length order)) }"
    using Suc.hyps(1) [of "Suc k" h1] Suc.hyps(2) Suc.prems kj h1(2,3) by simp
  moreover have "arbitrate has_work schedule_work order candidate ?c h
    = arbitrate has_work schedule_work order candidate ((candidate + Suc k) mod length order) h1"
    using h1 nw c ne by (subst arbitrate.simps) (simp add: nx)
  ultimately show ?case using h1(3) by simp
qed

text \<open>
  One arbitration. When some scheduler of the order has work, the first one from the candidate on works
  once and the candidate moves past it; the arbiter stays scheduled exactly when work is left.
\<close>

definition first_working :: "'s \<Rightarrow> SchedulerType list \<Rightarrow> nat \<Rightarrow> nat \<Rightarrow> bool" where
  "first_working h order candidate j \<longleftrightarrow> j < length order \<and>
     works h (order ! ((candidate + j) mod length order)) \<and>
     (\<forall>i < j. \<not> works h (order ! ((candidate + i) mod length order)))"

definition arb_wf :: "'s RoundRobinArbiter \<Rightarrow> bool" where
  "arb_wf s \<longleftrightarrow> wf (handlers s) \<and> candidate_scheduler_index s < length (scheduler_ordering s)"

lemma DoArbitration_serves:
  assumes "arb_wf s" "first_working (handlers s) (scheduler_ordering s) (candidate_scheduler_index s) j"
    and "DoArbitration has_work schedule_work now s = Some s'"
  shows "arb_wf s'" "scheduler_ordering s' = scheduler_ordering s"
    "candidate_scheduler_index s' = Suc (candidate_scheduler_index s + j) mod length (scheduler_ordering s)"
    "served s' = served s @ [scheduler_ordering s !
       ((candidate_scheduler_index s + j) mod length (scheduler_ordering s))]"
    "arb_scheduled s' \<longleftrightarrow> arb_scheduled s \<and> (\<exists>t. works (handlers s') t)"
    "\<exists>t. works (handlers s') t \<Longrightarrow> arb_events s' = arb_events s @ [arb_tick_time s]"
    "\<not> (\<exists>t. works (handlers s') t) \<Longrightarrow> arb_events s' = arb_events s"
proof -
  let ?o = "scheduler_ordering s" and ?c = "candidate_scheduler_index s"
  let ?i = "(?c + j) mod length ?o"
  have wfh: "wf (handlers s)" and c: "?c < length ?o" using assms(1) by (simp_all add: arb_wf_def)
  have j: "j < length ?o" "works (handlers s) (?o ! ?i)"
    "\<forall>i < j. \<not> works (handlers s) (?o ! ((?c + i) mod length ?o))"
    using assms(2) by (simp_all add: first_working_def)
  obtain h where h: "arb_HasWork has_work s = Some (s\<lparr>handlers := h\<rparr>, True)" "wf h" "works h = works (handlers s)"
    using arb_HasWork_spec [OF wfh] j(2) by force
  obtain h1 where h1: "wf h1" "works h1 = works h" "arbitrate has_work schedule_work ?o ?c ?c h
    = do { (h2, _) \<leftarrow> schedule_work (?o ! ?i) h1; Some (h2, Some ?i) }"
    using arbitrate_serves [OF h(2) c j(1), of 0] j(2,3) h(3) c by auto
  let ?s2 = "s\<lparr>handlers := h, last_run_time := now\<rparr>"
  from assms(3) h(1) h1(3) obtain h2 b s4 more where s4: "schedule_work (?o ! ?i) h1 = Some (h2, b)"
    "arb_HasWork has_work (?s2\<lparr>handlers := h2, candidate_scheduler_index := Suc ?i mod length ?o,
       served := served s @ [?o ! ?i]\<rparr>) = Some (s4, more)"
    "s' = (if more then s4\<lparr>arb_events := arb_events s4 @ [arb_tick_time s4]\<rparr> else s4\<lparr>arb_scheduled := False\<rparr>)"
    by (auto simp: DoArbitration_def Let_def split: bind_splits)
  have "works h1 (?o ! ?i)" using j(2) h1(2) h(3) by simp
  then have wf2: "wf h2" using working [OF h1(1)] s4(1) by blast
  let ?s3 = "?s2\<lparr>handlers := h2, candidate_scheduler_index := Suc ?i mod length ?o,
       served := served s @ [?o ! ?i]\<rparr>"
  obtain h3 where h3: "arb_HasWork has_work ?s3 = Some (?s3\<lparr>handlers := h3\<rparr>, \<exists>t. works h2 t)" "wf h3"
    "works h3 = works h2" using arb_HasWork_spec [of ?s3] wf2 by auto
  have s4': "s4 = ?s3\<lparr>handlers := h3\<rparr>" "more = (\<exists>t. works h2 t)" using s4(2) h3(1) by simp_all
  have l: "0 < length ?o" using c by linarith
  have "arb_wf s' \<and> scheduler_ordering s' = ?o \<and>
    candidate_scheduler_index s' = Suc (?c + j) mod length ?o \<and> served s' = served s @ [?o ! ?i] \<and>
    (arb_scheduled s' \<longleftrightarrow> arb_scheduled s \<and> (\<exists>t. works (handlers s') t)) \<and>
    arb_events s' = (if \<exists>t. works (handlers s') t then arb_events s @ [arb_tick_time s] else arb_events s)"
  proof (cases "\<exists>t. works h2 t")
    case True
    then have "s' = ?s3\<lparr>handlers := h3, arb_events := arb_events s @ [arb_tick_time s]\<rparr>"
      using s4(3) s4' by simp
    then show ?thesis using True h3(2,3) l by (simp add: arb_wf_def mod_Suc_eq)
  next
    case False
    then have "s' = ?s3\<lparr>handlers := h3, arb_scheduled := False\<rparr>" using s4(3) s4' by simp
    then show ?thesis using False h3(2,3) l by (simp add: arb_wf_def mod_Suc_eq)
  qed
  then show "arb_wf s'" "scheduler_ordering s' = ?o"
    "candidate_scheduler_index s' = Suc (?c + j) mod length ?o"
    "served s' = served s @ [?o ! ?i]"
    "arb_scheduled s' \<longleftrightarrow> arb_scheduled s \<and> (\<exists>t. works (handlers s') t)"
    "\<exists>t. works (handlers s') t \<Longrightarrow> arb_events s' = arb_events s @ [arb_tick_time s]"
    "\<not> (\<exists>t. works (handlers s') t) \<Longrightarrow> arb_events s' = arb_events s" by simp_all
qed


lemma first_working_exists:
  assumes "works h (order ! ((candidate + d) mod length order))" "d < length order"
  obtains j where "j \<le> d" "first_working h order candidate j"
proof -
  let ?P = "\<lambda>j. works h (order ! ((candidate + j) mod length order))"
  let ?j = "LEAST j. ?P j"
  have "?P ?j" "?j \<le> d" using assms(1) by (rule LeastI, rule Least_le)
  moreover have "\<not> ?P i" if "i < ?j" for i using that by (rule not_less_Least)
  ultimately have "first_working h order candidate ?j"
    using assms(2) by (simp add: first_working_def)
  with \<open>?j \<le> d\<close> show thesis by (rule that)
qed

text \<open>When no scheduler of the order has work, nothing is served and the candidate stays.\<close>

lemma DoArbitration_idle:
  assumes "arb_wf s" "\<forall>t \<in> set (scheduler_ordering s). \<not> works (handlers s) t"
    and "DoArbitration has_work schedule_work now s = Some s'"
  shows "arb_wf s'" "works (handlers s') = works (handlers s)" "scheduler_ordering s' = scheduler_ordering s"
    "candidate_scheduler_index s' = candidate_scheduler_index s" "served s' = served s"
    "arb_tick_time s' = arb_tick_time s"
    "arb_scheduled s' \<longleftrightarrow> arb_scheduled s \<and> (\<exists>t. works (handlers s) t)"
    "arb_events s' = arb_events s @ (if \<exists>t. works (handlers s) t then [arb_tick_time s] else [])"
proof -
  let ?o = "scheduler_ordering s" and ?c = "candidate_scheduler_index s"
  have wfh: "wf (handlers s)" and c: "?c < length ?o" using assms(1) by (simp_all add: arb_wf_def)
  obtain h where h: "arb_HasWork has_work s = Some (s\<lparr>handlers := h\<rparr>, \<exists>t. works (handlers s) t)"
    "wf h" "works h = works (handlers s)" using arb_HasWork_spec [OF wfh] by blast
  have "arb_wf s' \<and> works (handlers s') = works (handlers s) \<and> scheduler_ordering s' = ?o \<and>
    candidate_scheduler_index s' = ?c \<and> served s' = served s \<and> arb_tick_time s' = arb_tick_time s \<and>
    (arb_scheduled s' \<longleftrightarrow> arb_scheduled s \<and> (\<exists>t. works (handlers s) t)) \<and>
    arb_events s' = arb_events s @ (if \<exists>t. works (handlers s) t then [arb_tick_time s] else [])"
  proof (cases "\<exists>t. works (handlers s) t")
    case False
    then have "s' = s\<lparr>handlers := h, arb_scheduled := False\<rparr>"
      using assms(3) h(1) by (simp add: DoArbitration_def)
    then show ?thesis using False h c by (simp add: arb_wf_def)
  next
    case True
    have nw: "\<forall>j. 0 \<le> j \<and> j < length ?o \<longrightarrow> \<not> works h (?o ! ((?c + j) mod length ?o))"
      using assms(2) h(3) c by (metis gr_implies_not_zero mod_less_divisor neq0_conv nth_mem)
    have "0 < length ?o" using c by linarith
    from arbitrate_idle [OF h(2) c this nw] obtain h1 where
      h1: "arbitrate has_work schedule_work ?o ?c ?c h = Some (h1, None)" "wf h1" "works h1 = works h"
      using c by auto
    let ?s3 = "s\<lparr>last_run_time := now, handlers := h1\<rparr>"
    obtain h3 where h3: "arb_HasWork has_work ?s3 = Some (?s3\<lparr>handlers := h3\<rparr>, \<exists>t. works h1 t)" "wf h3"
      "works h3 = works h1" using arb_HasWork_spec [of ?s3] h1(2) by auto
    have "\<exists>t. works h1 t" using True h1(3) h(3) by simp
    then have "s' = ?s3\<lparr>handlers := h3, arb_events := arb_events s @ [arb_tick_time s]\<rparr>"
      using assms(3) h(1) h1(1) h3(1) True by (simp add: DoArbitration_def Let_def)
    then show ?thesis using True h3(2,3) h1(3) h(3) c by (simp add: arb_wf_def)
  qed
  then show "arb_wf s'" "works (handlers s') = works (handlers s)" "scheduler_ordering s' = ?o"
    "candidate_scheduler_index s' = ?c" "served s' = served s" "arb_tick_time s' = arb_tick_time s"
    "arb_scheduled s' \<longleftrightarrow> arb_scheduled s \<and> (\<exists>t. works (handlers s) t)"
    "arb_events s' = arb_events s @ (if \<exists>t. works (handlers s) t then [arb_tick_time s] else [])"
    by simp_all
qed

text \<open>An arbitration returns when the scheduler it picks does.\<close>

lemma DoArbitration_returns:
  assumes "arb_wf s" "first_working (handlers s) (scheduler_ordering s) (candidate_scheduler_index s) j"
    and "\<And>h. wf h \<Longrightarrow> works h = works (handlers s) \<Longrightarrow>
      schedule_work (scheduler_ordering s ! ((candidate_scheduler_index s + j) mod length (scheduler_ordering s))) h
        \<noteq> None"
  shows "\<exists>s'. DoArbitration has_work schedule_work now s = Some s'"
proof -
  let ?o = "scheduler_ordering s" and ?c = "candidate_scheduler_index s"
  let ?i = "(?c + j) mod length ?o"
  have wfh: "wf (handlers s)" and c: "?c < length ?o" using assms(1) by (simp_all add: arb_wf_def)
  have j: "j < length ?o" "works (handlers s) (?o ! ?i)"
    "\<forall>i < j. \<not> works (handlers s) (?o ! ((?c + i) mod length ?o))"
    using assms(2) by (simp_all add: first_working_def)
  obtain h where h: "arb_HasWork has_work s = Some (s\<lparr>handlers := h\<rparr>, True)" "wf h" "works h = works (handlers s)"
    using arb_HasWork_spec [OF wfh] j(2) by force
  obtain h1 where h1: "wf h1" "works h1 = works h" "arbitrate has_work schedule_work ?o ?c ?c h
    = do { (h2, _) \<leftarrow> schedule_work (?o ! ?i) h1; Some (h2, Some ?i) }"
    using arbitrate_serves [OF h(2) c j(1), of 0] j(2,3) h(3) c by auto
  have "works h1 = works (handlers s)" using h1(2) h(3) by simp
  then obtain h2 b where h2: "schedule_work (?o ! ?i) h1 = Some (h2, b)" using assms(3) [OF h1(1)] by auto
  have "works h1 (?o ! ?i)" using j(2) h1(2) h(3) by simp
  from working [OF h1(1) this h2] have "wf h2" by simp
  let ?s3 = "s\<lparr>last_run_time := now, handlers := h2,
      candidate_scheduler_index := Suc ?i mod length ?o, served := served s @ [?o ! ?i]\<rparr>"
  from \<open>wf h2\<close> obtain h3 where "arb_HasWork has_work ?s3 = Some (?s3\<lparr>handlers := h3\<rparr>, \<exists>t. works h2 t)"
    using arb_HasWork_spec [of ?s3] by auto
  then show ?thesis using h(1) h1(3) h2 by (simp add: DoArbitration_def Let_def)
qed

text \<open>A scheduler that has work throughout is served within one cycle of arbitrations.\<close>

lemma fair:
  assumes wf0: "arb_wf (S 0)" and i: "i < length (scheduler_ordering (S 0))" "scheduler_ordering (S 0) ! i = t"
    and step: "\<And>k. k < length (scheduler_ordering (S 0)) \<Longrightarrow>
      works (handlers (S k)) t \<and> (\<exists>s' h. DoArbitration has_work schedule_work (now k) (S k) = Some s' \<and>
        S (Suc k) = s'\<lparr>handlers := h\<rparr> \<and> wf h)"
  shows "\<exists>es. served (S (length (scheduler_ordering (S 0)))) = served (S 0) @ es \<and> t \<in> set es"
proof -
  let ?n = "length (scheduler_ordering (S 0))"
  have main: "k \<le> ?n \<Longrightarrow> arb_wf (S k) \<and> scheduler_ordering (S k) = scheduler_ordering (S 0) \<and>
    (\<exists>es. served (S k) = served (S 0) @ es \<and>
      (t \<in> set es \<or> (\<exists>d < ?n - k. (candidate_scheduler_index (S k) + d) mod ?n = i)))" for k
  proof (induction k)
    case 0
    let ?c = "candidate_scheduler_index (S 0)"
    have c: "?c < ?n" using wf0 by (simp add: arb_wf_def)
    from cyclic_offset [OF c i(1)] show ?case using wf0 by simp
  next
    case (Suc k)
    then have IH: "arb_wf (S k)" "scheduler_ordering (S k) = scheduler_ordering (S 0)" by simp_all
    from Suc obtain es where es: "served (S k) = served (S 0) @ es"
      "t \<in> set es \<or> (\<exists>d < ?n - k. (candidate_scheduler_index (S k) + d) mod ?n = i)" by auto
    have k: "k < ?n" using Suc.prems by simp
    obtain s' h where s': "DoArbitration has_work schedule_work (now k) (S k) = Some s'"
      "S (Suc k) = s'\<lparr>handlers := h\<rparr>" "wf h" and w: "works (handlers (S k)) t" using step [OF k] by blast
    let ?c = "candidate_scheduler_index (S k)"
    have c: "?c < ?n" using IH by (simp add: arb_wf_def)
    obtain d where d: "d < ?n" "(?c + d) mod ?n = i" "t \<in> set es \<or> d < ?n - k"
    proof (cases "t \<in> set es")
      case True
      with cyclic_offset [OF c i(1)] that show thesis by blast
    next
      case False
      then obtain d where "d < ?n - k" "(?c + d) mod ?n = i" using es(2) by blast
      then show thesis using that [of d] by simp
    qed
    have "works (handlers (S k)) (scheduler_ordering (S k) ! ((?c + d) mod length (scheduler_ordering (S k))))"
      using w i(2) d(2) IH(2) by simp
    from first_working_exists [OF this] d(1) IH(2) obtain j where
      j: "j \<le> d" "first_working (handlers (S k)) (scheduler_ordering (S k)) ?c j" by auto
    note r = DoArbitration_serves [OF IH(1) j(2) s'(1)]
    have "arb_wf (S (Suc k))" using r(1) s'(2,3) by (simp add: arb_wf_def)
    moreover have "served (S (Suc k)) = served (S 0) @ (es @ [scheduler_ordering (S 0) ! ((?c + j) mod ?n)])"
      using r(4) s'(2) es(1) IH(2) by simp
    moreover have "t \<in> set (es @ [scheduler_ordering (S 0) ! ((?c + j) mod ?n)]) \<or>
      (\<exists>d < ?n - Suc k. (candidate_scheduler_index (S (Suc k)) + d) mod ?n = i)"
    proof (cases "j = d \<or> t \<in> set es")
      case True
      then show ?thesis using d(2) i(2) by auto
    next
      case False
      then have "j < d" "d < ?n - k" using j(1) d(3) by auto
      moreover have "candidate_scheduler_index (S (Suc k)) = Suc (?c + j) mod ?n"
        using r(3) s'(2) IH(2) by simp
      moreover have "(Suc (?c + j) mod ?n + (d - Suc j)) mod ?n = (Suc (?c + j) + (d - Suc j)) mod ?n"
        by (rule mod_add_left_eq)
      moreover have "Suc (?c + j) + (d - Suc j) = ?c + d" using \<open>j < d\<close> by simp
      ultimately have "d - Suc j < ?n - Suc k"
        "(candidate_scheduler_index (S (Suc k)) + (d - Suc j)) mod ?n = i" using d(2) by simp_all
      then show ?thesis by blast
    qed
    ultimately show ?case using r(2) s'(2) IH(2) by auto
  qed
  from main [of ?n] show ?thesis by auto
qed

end


section \<open>The schedulers of a host\<close>

text \<open>Asking a weighted round robin twice gives the same answer.\<close>

lemma waiting_after_reset:
  assumes "wrr_inv u p" "fetch_ok u fetch" "ResetAndRestartRound fetch p = Some p'"
    and "wrr_md p' e = Some md" "em_state md = kWaiting"
  shows "remaining_credits md \<le> 0"
proof -
  have m: "matched p" using assms(1) by (rule wrr_inv_matched)
  have "wrr_metadata p' = mapmd (\<lambda>e md. settled_md (renewed (global_round_number p + 1) (fetched fetch e md)))
      (wrr_metadata p)"
    using assms(3) ResetAndRestartRound_remeta [OF matched_wf [OF m], of fetch p]
    by (auto simp: matched_self [OF m])
  with assms(4) obtain md0 where
    "md = settled_md (renewed (global_round_number p + 1) (fetched fetch e md0))" by auto
  then show ?thesis using assms(5) by (auto simp: settled_md_def renewed_def split: if_splits)
qed

lemma unit_weight:
  "wrr_inv True p \<Longrightarrow> IsActive p e \<Longrightarrow> weight_now None p e = 1"
  by (auto simp: weight_now_def IsActive_md wrr_inv_matched wrr_inv_def md_ok_def)

lemma HasWork_again:
  assumes "wrr_inv u p" "fetch_ok u fetch" "wrr_HasWork fetch p = Some (p', b)"
  shows "\<exists>p''. wrr_HasWork fetch p' = Some (p'', b)"
proof -
  obtain p1 over where p1: "IsRoundOver p = Some (p1, over)" "wrr_inv u p1"
    "\<not> over \<Longrightarrow> wrr_eligible p1 \<noteq> [] \<and> 0 < global_credits_remaining p1"
    "\<And>e. IsActive p1 e = IsActive p e" "\<And>e. weight_now fetch p1 e = weight_now fetch p e"
    by (rule IsRoundOver_spec [OF assms(1), where fetch = fetch]) (rule that; assumption)
  have again: "\<exists>p''. wrr_HasWork fetch q = Some (p'', True)"
    if "wrr_eligible q \<noteq> []" "0 < global_credits_remaining q" for q
    using that by (simp add: wrr_HasWork_def IsRoundOver_def)
  show ?thesis
  proof (cases over)
    case False
    then show ?thesis using assms(3) p1(1,3) again [of p1] by (simp add: wrr_HasWork_def)
  next
    case True
    obtain p2 where p2: "ResetAndRestartRound fetch p1 = Some p2" "wrr_inv u p2"
      "\<And>e. e \<in> set (wrr_eligible p2) \<longleftrightarrow> IsActive p1 e \<and> 0 < weight_now fetch p1 e"
      "\<And>e. IsActive p2 e = IsActive p1 e" "wrr_eligible p2 \<noteq> [] \<Longrightarrow> 0 < global_credits_remaining p2"
      by (rule reset_spec [OF p1(2) assms(2)]) (rule that; assumption)
    have p': "p' = p2" "b \<longleftrightarrow> wrr_eligible p2 \<noteq> []" using assms(3) p1(1) p2(1) True by (auto simp: wrr_HasWork_def)
    show ?thesis
    proof (cases "wrr_eligible p2 = []")
      case False
      then show ?thesis using p' p2(5) again [of p2] by simp
    next
      case empty: True
      obtain p3 b3 where h: "wrr_HasWork fetch p2 = Some (p3, b3)" "wrr_inv u p3" "b3 \<longleftrightarrow> wrr_eligible p3 \<noteq> []"
        by (rule HasWork_spec [OF p2(2) assms(2)]) (rule that; assumption)
      have nw: "\<not> (IsActive p2 e \<and> 0 < weight_now fetch p2 e)" for e
      proof
        assume e: "IsActive p2 e \<and> 0 < weight_now fetch p2 e"
        have "0 < weight_now fetch p1 e"
        proof (cases fetch)
          case None
          then have "u" using assms(2) by (simp add: fetch_ok_def)
          then show ?thesis using unit_weight [of p1 e] p1(2) p2(4) e None by simp
        qed (use e in \<open>simp add: weight_now_def\<close>)
        with p2(3,4) e empty show False by auto
      qed
      obtain p4 over4 where p4: "IsRoundOver p2 = Some (p4, over4)" "wrr_inv u p4"
        "\<not> over4 \<Longrightarrow> wrr_eligible p4 \<noteq> [] \<and> 0 < global_credits_remaining p4"
        "\<And>e. IsActive p4 e = IsActive p2 e" "\<And>e. weight_now fetch p4 e = weight_now fetch p2 e"
        by (rule IsRoundOver_spec [OF p2(2), where fetch = fetch]) (rule that; assumption)
      have over4
      proof (rule ccontr)
        assume n: "\<not> over4"
        obtain e where e: "e \<in> set (wrr_eligible p4)" using p4(3) [OF n] by (meson hd_in_set)
        have "StartSubRound p2 = Some p4"
          using p4(1) n empty by (auto simp: IsRoundOver_def split: if_splits bind_splits)
        then have md: "wrr_metadata p4 = mapmd (\<lambda>_ md. settled_md (woken md)) (wrr_metadata p2)"
          using subround_spec [OF p2(2)] by auto
        from e obtain md2 where m2: "wrr_md p2 e = Some md2" "em_state (settled_md (woken md2)) = kEligible"
          unfolding mem_sets [OF wrr_inv_matched [OF p4(2)]] by (auto simp: md)
        have "em_state md2 \<noteq> kEligible"
          using m2(1) empty mem_sets(2) [OF wrr_inv_matched [OF p2(2)], of e] by auto
        then have "em_state md2 = kWaiting" "0 < remaining_credits md2"
          using m2(2) by (auto simp: settled_md_def woken_def split: if_splits)
        with waiting_after_reset [OF p1(2) assms(2) p2(1) m2(1)] show False by simp
      qed
      then have "ResetAndRestartRound fetch p4 = Some p3" "b3 \<longleftrightarrow> wrr_eligible p3 \<noteq> []"
        using h(1) p4(1) by (auto simp: wrr_HasWork_def split: bind_splits)
      moreover have "e \<in> set (wrr_eligible p3) \<longleftrightarrow> IsActive p4 e \<and> 0 < weight_now fetch p4 e" for e
        by (rule reset_spec [OF p4(2) assms(2)]) (use calculation(1) in auto)
      ultimately have "\<not> b3" using nw p4(4,5) by (metis hd_in_set)
      then show ?thesis using h(1) p' empty by simp
    qed
  qed
qed


definition schedulers_wf :: "sched_env \<Rightarrow> HostSchedulers \<Rightarrow> bool" where
  "schedulers_wf env s \<longleftrightarrow> env_ok env \<and> sched_inv {} {} (fast s)"

text \<open>The answer a scheduler would give.\<close>

definition host_works :: "HostSchedulers \<Rightarrow> SchedulerType \<Rightarrow> bool" where
  "host_works s t = (case host_has_work t s of Some (_, b) \<Rightarrow> b | None \<Rightarrow> False)"

lemma weight_frame:
  "packet_queue_wise_pkt_count s' = packet_queue_wise_pkt_count s \<Longrightarrow>
     ComputePacketTypeWeight s' = ComputePacketTypeWeight s"
  by (simp add: fun_eq_iff ComputePacketTypeWeight_def)

lemma fast_HasWork_again:
  assumes "policies_ok s" "fast_HasWork s = Some (s', b)"
  shows "\<exists>s''. fast_HasWork s' = Some (s'', b)"
proof -
  have h: "wrr_inv True (phantom_connection_policy s)" using assms(1) by (simp add: policies_ok_def)
  obtain ph a where ph: "wrr_HasWork None (phantom_connection_policy s) = Some (ph, a)"
    using unit_HasWork [OF h] by blast
  obtain ph2 where ph2: "wrr_HasWork None ph = Some (ph2, a)"
    using HasWork_again [OF h unit_fetch ph] by blast
  let ?s1 = "s\<lparr>phantom_connection_policy := ph\<rparr>"
  show ?thesis
  proof (cases "a \<or> \<not> CanSendPacket (view s)")
    case True
    then show ?thesis
      using assms(2) ph ph2 by (auto simp: fast_HasWork_def Let_def split: if_splits)
  next
    case False
    then obtain p where p: "wrr_HasWork (Some (ComputePacketTypeWeight ?s1)) (packet_type_policy s) = Some (p, b)"
      "s' = ?s1\<lparr>packet_type_policy := p\<rparr>"
      using assms(2) ph by (auto simp: fast_HasWork_def Let_def split: bind_splits)
    have "wrr_inv False (packet_type_policy s)" using assms(1) by (simp add: policies_ok_def)
    from HasWork_again [OF this _ p(1)] obtain p2 where
      "wrr_HasWork (Some (ComputePacketTypeWeight ?s1)) p = Some (p2, b)"
      by (auto simp: fetch_ok_def ComputePacketTypeWeight_def)
    moreover have "ComputePacketTypeWeight (s'\<lparr>phantom_connection_policy := ph2\<rparr>) = ComputePacketTypeWeight ?s1"
      by (rule weight_frame) (simp add: p(2))
    ultimately show ?thesis
      using False ph2 p(2) by (simp add: fast_HasWork_def Let_def)
  qed
qed

lemma fast_HasWork_retx_update:
  "fast_HasWork (s\<lparr>retx_policy := p\<rparr>) = map_option (\<lambda>(s', b). (s'\<lparr>retx_policy := p\<rparr>, b)) (fast_HasWork s)"
proof -
  have "ComputePacketTypeWeight (s\<lparr>retx_policy := p, phantom_connection_policy := h\<rparr>)
    = ComputePacketTypeWeight (s\<lparr>phantom_connection_policy := h\<rparr>)" for h
    by (rule weight_frame) simp
  then show ?thesis
    by (cases s) (auto simp: fast_HasWork_def Let_def split: bind_splits prod.splits)
qed

lemma retx_HasWork_frame:
  assumes "recompute_frame s' = recompute_frame s"
  shows "map_option snd (retx_HasWork s') = map_option snd (retx_HasWork s)"
  using frame_sel(3,6) [OF assms] by (cases "wrr_HasWork None (retx_policy s)") (auto simp: retx_HasWork_def)

lemma retx_HasWork_cases:
  assumes "retx_inv E s"
  shows "\<exists>p. wrr_HasWork None (retx_policy s) = Some (p, \<exists>e. IsActive (retx_policy s) e) \<and>
    retx_HasWork s = (if CanSendPacket (view s)
      then Some (s\<lparr>retx_policy := p\<rparr>, \<exists>e. IsActive (retx_policy s) e) else Some (s, False)) \<and>
    IsActive p = IsActive (retx_policy s) \<and> wrr_inv True p"
  using unit_HasWork [of "retx_policy s"] assms by (auto simp: retx_inv_def retx_HasWork_def)


lemma fast_HasWork_returns: "policies_ok s \<Longrightarrow> \<exists>s' b. fast_HasWork s = Some (s', b)"
  using result_D(2) [OF fast_HasWork_total [of s True]] by auto

lemma host_works_retx:
  assumes "sched_inv {} {} (fast s)"
  shows "host_works s S_kRetransmission \<longleftrightarrow>
    CanSendPacket (view (fast s)) \<and> (\<exists>e. IsActive (retx_policy (fast s)) e)"
proof -
  obtain p where "retx_HasWork (fast s) = (if CanSendPacket (view (fast s))
      then Some ((fast s)\<lparr>retx_policy := p\<rparr>, \<exists>e. IsActive (retx_policy (fast s)) e) else Some (fast s, False))"
    using retx_HasWork_cases [OF conjunct2 [OF assms]] by blast
  then show ?thesis by (simp add: host_works_def)
qed

lemma host_asking:
  assumes "schedulers_wf env s"
  shows "\<exists>s'. host_has_work t s = Some (s', host_works s t) \<and> schedulers_wf env s' \<and> host_works s' = host_works s"
proof -
  have inv: "sched_inv {} {} (fast s)" and env: "env_ok env" using assms by (simp_all add: schedulers_wf_def)
  then have ok: "policies_ok (fast s)" by (simp add: conn_inv_def)
  show ?thesis
  proof (cases t)
    case S_kConnection
    obtain f b where f: "fast_HasWork (fast s) = Some (f, b)" using fast_HasWork_returns [OF ok] by blast
    have fi: "sched_inv {} {} f" by (rule fast_HasWork_inv [OF inv f])
    have fr: "recompute_frame f = recompute_frame (fast s)"
      by (rule same_activity_facts(2) [OF fast_HasWork_spec(1) [OF ok f]])
    let ?s = "s\<lparr>fast := f\<rparr>"
    obtain f2 where f2: "fast_HasWork f = Some (f2, b)" using fast_HasWork_again [OF ok f] by blast
    have "host_works ?s u = host_works s u" for u
    proof (cases u)
      case S_kConnection
      then show ?thesis using f f2 by (simp add: host_works_def)
    next
      case S_kRetransmission
      then show ?thesis
        using host_works_retx [OF inv] host_works_retx [of ?s] fi frame_sel(3,6) [OF fr] by simp
    next
      case S_kAckNack
      then show ?thesis using frame_sel(3) [OF fr] by (simp add: host_works_def ack_nack_HasWork_def)
    qed
    then show ?thesis
      using S_kConnection f fi env by (auto simp: host_works_def [of s] schedulers_wf_def fun_eq_iff)
  next
    case S_kRetransmission
    obtain p where p: "retx_HasWork (fast s) = (if CanSendPacket (view (fast s))
        then Some ((fast s)\<lparr>retx_policy := p\<rparr>, \<exists>e. IsActive (retx_policy (fast s)) e) else Some (fast s, False))"
      "IsActive p = IsActive (retx_policy (fast s))"
      using retx_HasWork_cases [OF conjunct2 [OF inv]] by blast
    obtain f b where f: "retx_HasWork (fast s) = Some (f, b)" "f = fast s \<or> f = (fast s)\<lparr>retx_policy := p\<rparr>"
      using p by (auto split: if_splits)
    have fi: "sched_inv {} {} f" by (rule retx_HasWork_inv(1) [OF inv f(1)])
    let ?s = "s\<lparr>fast := f\<rparr>"
    have "host_works ?s u = host_works s u" for u
    proof (cases u)
      case S_kConnection
      then show ?thesis
        using f(2) fast_HasWork_retx_update [where s = "fast s" and p = p]
        by (cases "fast_HasWork (fast s)") (auto simp: host_works_def)
    next
      case S_kRetransmission
      then show ?thesis
        using host_works_retx [OF inv] host_works_retx [of ?s] fi f(2) p(2) by auto
    next
      case S_kAckNack
      then show ?thesis using f(2) by (auto simp: host_works_def ack_nack_HasWork_def)
    qed
    then show ?thesis
      using S_kRetransmission f(1) fi env by (auto simp: host_works_def [of s] schedulers_wf_def fun_eq_iff)
  next
    case S_kAckNack
    then show ?thesis using assms by (simp add: host_works_def)
  qed
qed

lemma host_working:
  assumes "schedulers_wf env s" "host_works s t" "host_schedule_work env t s = Some (s', b)"
  shows "schedulers_wf env s' \<and> b"
proof -
  have inv: "sched_inv {} {} (fast s)" and env: "env_ok env" using assms(1) by (simp_all add: schedulers_wf_def)
  show ?thesis
  proof (cases t)
    case S_kConnection
    obtain f where f: "ScheduleWork env (fast s) = Some (f, b)" "s' = s\<lparr>fast := f\<rparr>"
      using assms(3) S_kConnection by (auto split: bind_splits)
    have b using f(1) by (auto simp: ScheduleWork_def split: bind_splits if_splits)
    moreover have "sched_inv {} {} f" by (rule ScheduleWork_inv [OF inv env f(1)])
    ultimately show ?thesis using f(2) env by (simp add: schedulers_wf_def)
  next
    case S_kRetransmission
    obtain f where f: "retx_ScheduleWork env (fast s) = Some (f, b)" "s' = s\<lparr>fast := f\<rparr>"
      using assms(3) S_kRetransmission by (auto split: bind_splits)
    have b using f(1) by (auto simp: retx_ScheduleWork_def Let_def split: bind_splits if_splits)
    moreover have "sched_inv {} {} f" by (rule retx_ScheduleWork_inv [OF inv env f(1)])
    ultimately show ?thesis using f(2) env by (simp add: schedulers_wf_def)
  next
    case S_kAckNack
    then show ?thesis
      using assms by (auto simp: schedulers_wf_def ack_nack_ScheduleWork_def split: list.splits)
  qed
qed

interpretation host: schedulers "schedulers_wf env" host_works host_has_work "host_schedule_work env" for env
  by unfold_locales (rule host_asking, assumption, rule host_working, assumption+)

section \<open>The arbiter of a host\<close>

text \<open>
  A host without connections whose ACK/NACK queue holds packets: the last scheduler of the order is the
  only one that has work.
\<close>

definition ack_host :: "Packet list \<Rightarrow> HostSchedulers" where
  "ack_host ps = \<lparr>fast = new_FastSchedulers Map.empty example_view, ack_nack_queue = ps, transferred = []\<rparr>"

definition example_ack :: Packet where
  "example_ack = new_Packet\<lparr>packet_type := kAck, metadata_scid := 7\<rparr>"

definition ack_arbiter :: "HostSchedulers RoundRobinArbiter" where
  "ack_arbiter = \<lparr>scheduler_ordering = [S_kConnection, S_kAckNack], candidate_scheduler_index = 0,
     arb_tick_time = Ticks 5, arb_scheduled = True, last_run_time = ZeroDuration, arb_events = [], served = [],
     handlers = ack_host [example_ack]\<rparr>"

definition quiet_env :: sched_env where
  "quiet_env = \<lparr>elapsed_time = ZeroDuration, after_reserve = \<lambda>c rsn type v. v, after_transmit = \<lambda>c rsn type s. []\<rparr>"

lemma ack_host_wf: "schedulers_wf quiet_env (ack_host ps)"
proof -
  have "\<exists>a. v = v\<lparr>admits := a\<rparr>" for v :: sched_view by (rule exI [of _ "admits v"]) simp
  then have "env_ok quiet_env" by (simp add: env_ok_def quiet_env_def)
  then show ?thesis using fs_reach_inv [OF fs_new] by (simp add: schedulers_wf_def ack_host_def)
qed

lemma ack_host_works: "host_works (ack_host ps) t \<longleftrightarrow> t = S_kAckNack \<and> ps \<noteq> []"
proof (cases t)
  case S_kConnection
  have "(case fast_HasWork (new_FastSchedulers Map.empty example_view) of Some (f, b) \<Rightarrow> \<not> b | None \<Rightarrow> False)"
    by code_simp
  then show ?thesis using S_kConnection
    by (auto simp: host_works_def ack_host_def split: option.splits bind_splits)
next
  case S_kRetransmission
  have "(case retx_HasWork (new_FastSchedulers Map.empty example_view) of Some (f, b) \<Rightarrow> \<not> b | None \<Rightarrow> False)"
    by code_simp
  then show ?thesis using S_kRetransmission
    by (auto simp: host_works_def ack_host_def split: option.splits bind_splits)
next
  case S_kAckNack
  have "CanSendPacket (view (new_FastSchedulers Map.empty example_view))" by code_simp
  then show ?thesis using S_kAckNack by (simp add: host_works_def ack_nack_HasWork_def ack_host_def)
qed


definition ack_arbiters :: "nat \<Rightarrow> HostSchedulers RoundRobinArbiter" where
  "ack_arbiters = rec_nat ack_arbiter (\<lambda>_ s.
     (the (DoArbitration host_has_work (host_schedule_work quiet_env) ZeroDuration s))
       \<lparr>handlers := ack_host [example_ack]\<rparr>)"

lemma ack_arbitration_step:
  assumes "handlers s = ack_host [example_ack]" "scheduler_ordering s = [S_kConnection, S_kAckNack]"
    "candidate_scheduler_index s < 2"
  obtains s' where "DoArbitration host_has_work (host_schedule_work quiet_env) ZeroDuration s = Some s'"
    "scheduler_ordering s' = [S_kConnection, S_kAckNack]" "candidate_scheduler_index s' < 2"
proof -
  have wf: "host.arb_wf quiet_env s" using assms ack_host_wf by (simp add: host.arb_wf_def)
  define j where "j = 1 - candidate_scheduler_index s"
  have c: "candidate_scheduler_index s = 0 \<or> candidate_scheduler_index s = 1" using assms(3) by auto
  have f: "host.first_working (handlers s) (scheduler_ordering s) (candidate_scheduler_index s) j"
    using c assms(1,2) by (auto simp: host.first_working_def ack_host_works j_def)
  have e: "scheduler_ordering s ! ((candidate_scheduler_index s + j) mod length (scheduler_ordering s)) = S_kAckNack"
    using c assms(2) by (auto simp: j_def)
  have ne: "host_schedule_work quiet_env S_kAckNack h \<noteq> None"
    if "host_works h = host_works (handlers s)" for h
  proof -
    have "host_works h S_kAckNack" using that assms(1) ack_host_works by simp
    then have "ack_nack_queue h \<noteq> []" by (simp add: host_works_def ack_nack_HasWork_def)
    then show ?thesis by (cases "ack_nack_queue h") (simp_all add: ack_nack_ScheduleWork_def)
  qed
  obtain s' where s': "DoArbitration host_has_work (host_schedule_work quiet_env) ZeroDuration s = Some s'"
    using host.DoArbitration_returns [OF wf f] ne unfolding e by blast
  note r = host.DoArbitration_serves [OF wf f s']
  show thesis using that [OF s'] r(1,2) assms(2) by (simp add: host.arb_wf_def)
qed

lemma ack_arbiters_inv:
  "handlers (ack_arbiters k) = ack_host [example_ack] \<and>
   scheduler_ordering (ack_arbiters k) = [S_kConnection, S_kAckNack] \<and> candidate_scheduler_index (ack_arbiters k) < 2"
proof (induction k)
  case (Suc k)
  then obtain s' where "DoArbitration host_has_work (host_schedule_work quiet_env) ZeroDuration (ack_arbiters k) = Some s'"
    "scheduler_ordering s' = [S_kConnection, S_kAckNack]" "candidate_scheduler_index s' < 2"
    using ack_arbitration_step by metis
  then show ?case by (simp add: ack_arbiters_def)
qed (simp add: ack_arbiters_def ack_arbiter_def)

lemma ack_arbiters_step:
  "\<exists>s' h. DoArbitration host_has_work (host_schedule_work quiet_env) ZeroDuration (ack_arbiters k) = Some s' \<and>
     ack_arbiters (Suc k) = s'\<lparr>handlers := h\<rparr> \<and> schedulers_wf quiet_env h"
proof -
  obtain s' where "DoArbitration host_has_work (host_schedule_work quiet_env) ZeroDuration (ack_arbiters k) = Some s'"
    using ack_arbitration_step ack_arbiters_inv by metis
  then show ?thesis using ack_host_wf by (auto simp: ack_arbiters_def)
qed

text \<open>
  C26. No scheduler starves. Over as many arbitrations as the order has entries, between which the
  schedulers may change in any way that keeps their invariant, a scheduler that is in the order and has
  work each time does a unit of work.
\<close>

theorem no_scheduler_starves:
  assumes "schedulers_wf env (handlers (S 0))" "candidate_scheduler_index (S 0) < length (scheduler_ordering (S 0))"
    and "t \<in> set (scheduler_ordering (S 0))"
    and "\<And>k. k < length (scheduler_ordering (S 0)) \<Longrightarrow> host_works (handlers (S k)) t \<and>
      (\<exists>s' h. DoArbitration host_has_work (host_schedule_work env) (now k) (S k) = Some s' \<and>
        S (Suc k) = s'\<lparr>handlers := h\<rparr> \<and> schedulers_wf env h)"
  shows "\<exists>es. served (S (length (scheduler_ordering (S 0)))) = served (S 0) @ es \<and> t \<in> set es"
proof -
  have wf: "host.arb_wf env (S 0)" using assms(1,2) by (simp add: host.arb_wf_def)
  obtain i where i: "i < length (scheduler_ordering (S 0))" "scheduler_ordering (S 0) ! i = t"
    using assms(3) by (auto simp: in_set_conv_nth)
  show ?thesis by (rule host.fair [OF wf i assms(4)])
qed

lemma no_scheduler_starves_witness:
  "\<exists>es. served (ack_arbiters 2) = es \<and> S_kAckNack \<in> set es"
  using no_scheduler_starves [of quiet_env ack_arbiters S_kAckNack "\<lambda>_. ZeroDuration"]
    ack_arbiters_inv ack_arbiters_step ack_host_wf ack_host_works
  by (simp add: ack_arbiters_def ack_arbiter_def)

text \<open>
  An arbitration serves at most one unit of work, from a scheduler of the order that has work, and
  serves one whenever there is one. The arbiter stays scheduled exactly when some scheduler has work
  left, with one event a tick later, so no work is left behind an idle arbiter.
\<close>

theorem arbitration_step:
  assumes "schedulers_wf env (handlers s)" "candidate_scheduler_index s < length (scheduler_ordering s)"
    "arb_scheduled s" "DoArbitration host_has_work (host_schedule_work env) now s = Some s'"
  shows "schedulers_wf env (handlers s') \<and> (arb_scheduled s' \<longleftrightarrow> (\<exists>t. host_works (handlers s') t)) \<and>
    arb_events s' = arb_events s @ (if arb_scheduled s' then [arb_tick_time s] else []) \<and>
    (if \<forall>t \<in> set (scheduler_ordering s). \<not> host_works (handlers s) t then served s' = served s
     else \<exists>t \<in> set (scheduler_ordering s). host_works (handlers s) t \<and> served s' = served s @ [t])"
proof (cases "\<forall>t \<in> set (scheduler_ordering s). \<not> host_works (handlers s) t")
  case True
  have wf: "host.arb_wf env s" using assms(1,2) by (simp add: host.arb_wf_def)
  note r = host.DoArbitration_idle [OF wf True assms(4)]
  show ?thesis using r True assms(3) by (simp add: host.arb_wf_def)
next
  case False
  let ?o = "scheduler_ordering s" and ?c = "candidate_scheduler_index s"
  have wf: "host.arb_wf env s" using assms(1,2) by (simp add: host.arb_wf_def)
  from False obtain i where i: "i < length ?o" "host_works (handlers s) (?o ! i)" by (auto simp: in_set_conv_nth)
  obtain d where "d < length ?o" "(?c + d) mod length ?o = i" using cyclic_offset [OF assms(2) i(1)] by blast
  with i(2) obtain j where j: "host.first_working (handlers s) ?o ?c j"
    using host.first_working_exists [of "handlers s" ?o ?c d] by auto
  note r = host.DoArbitration_serves [OF wf j assms(4)]
  have "?o ! ((?c + j) mod length ?o) \<in> set ?o" using i(1) by (intro nth_mem mod_less_divisor) linarith
  moreover have "host_works (handlers s) (?o ! ((?c + j) mod length ?o))" using j by (simp add: host.first_working_def)
  ultimately show ?thesis using r assms(3) False by (auto simp: host.arb_wf_def)
qed

lemma arbitration_step_witness:
  "arb_scheduled ack_arbiter \<and> (\<exists>s'. DoArbitration host_has_work (host_schedule_work quiet_env) ZeroDuration ack_arbiter
     = Some s' \<and> served s' = [S_kAckNack])"
proof -
  obtain s' where s': "DoArbitration host_has_work (host_schedule_work quiet_env) ZeroDuration ack_arbiter = Some s'"
    using ack_arbitration_step ack_arbiters_inv [of 0] by (auto simp: ack_arbiters_def)
  from arbitration_step [OF _ _ _ this] ack_host_wf ack_host_works have "served s' = [S_kAckNack]"
    by (auto simp: ack_arbiter_def split: if_splits)
  with s' show ?thesis by (simp add: ack_arbiter_def)
qed

text \<open>
  A scheduler of weight 0 is not in the order, but \<open>HasWork\<close> asks it too: when it alone has work, every
  arbitration serves nothing and schedules the next one.
\<close>

lemma zero_weight_spins:
  assumes "schedulers_wf env (handlers s)" "candidate_scheduler_index s < length (scheduler_ordering s)"
    "arb_scheduled s" "\<forall>t \<in> set (scheduler_ordering s). \<not> host_works (handlers s) t" "host_works (handlers s) u"
    "DoArbitration host_has_work (host_schedule_work env) now s = Some s'"
  shows "arb_scheduled s'" "served s' = served s" "arb_events s' = arb_events s @ [arb_tick_time s]"
    "host_works (handlers s') = host_works (handlers s)"
proof -
  have wf: "host.arb_wf env s" using assms(1,2) by (simp add: host.arb_wf_def)
  note r = host.DoArbitration_idle [OF wf assms(4,6)]
  show "arb_scheduled s'" "served s' = served s" "arb_events s' = arb_events s @ [arb_tick_time s]"
    "host_works (handlers s') = host_works (handlers s)" using r assms(3,5) by auto
qed

end
