(* ===== verification/Event_Queue.thy ===== *)
theory Event_Queue
  imports Prelude "HOL-Library.Multiset"
begin

text \<open>
  The simulation environment (\<open>common/simple_environment.{h,cc}\<close>): a priority queue of events, the
  simulated clock and the loop that runs the callbacks.

  A callback is a value; \<open>behaviour\<close> says what it does to the state \<open>app\<close> of the program at the current
  time, and which calls of \<open>ScheduleEvent\<close> and \<open>Stop\<close> it makes, in order. The priority queue is the list
  of its events in the order in which \<open>top\<close> and \<open>pop\<close> take them. \<open>trace\<close> records the executed events.
\<close>

section \<open>The environment\<close>

datatype 'c callback = Stop_at_deadline | Callback 'c

record 'c Event =
  event_id :: u64
  scheduled_time :: duration
  event_callback :: "'c callback"

text \<open>\<open>operator<\<close>, read from the top of the queue: \<open>a\<close> is taken before \<open>b\<close>.\<close>

definition event_before :: "'c Event \<Rightarrow> 'c Event \<Rightarrow> bool" where
  "event_before a b \<longleftrightarrow>
     (if scheduled_time a = scheduled_time b then event_id a < event_id b
      else scheduled_time a < scheduled_time b)"

fun push_event :: "'c Event \<Rightarrow> 'c Event list \<Rightarrow> 'c Event list" where
  "push_event e [] = [e]"
| "push_event e (x # xs) = (if event_before e x then e # x # xs else x # push_event e xs)"

record ('c, 'a) SimpleEnvironment =
  scheduled_events :: u64
  executed_events :: u64
  env_elapsed_time :: duration
  event_queue :: "'c Event list"
  env_stopped :: bool
  app :: 'a
  trace :: "'c Event list"

definition new_SimpleEnvironment :: "'a \<Rightarrow> ('c, 'a) SimpleEnvironment" where
  "new_SimpleEnvironment a = \<lparr>scheduled_events = 0, executed_events = 0, env_elapsed_time = ZeroDuration,
     event_queue = [], env_stopped = False, app = a, trace = []\<rparr>"

definition env_Stop :: "('c, 'a) SimpleEnvironment \<Rightarrow> ('c, 'a) SimpleEnvironment" where
  "env_Stop s = s\<lparr>env_stopped := True\<rparr>"

definition ScheduleEvent ::
    "duration \<Rightarrow> 'c callback \<Rightarrow> ('c, 'a) SimpleEnvironment \<Rightarrow> ('c, 'a) SimpleEnvironment option" where
  "ScheduleEvent delay cb s = do {
     check (\<not> delay < ZeroDuration);
     let i = scheduled_events s + 1;
     Some (s\<lparr>scheduled_events := i,
             event_queue := push_event \<lparr>event_id = i, scheduled_time = env_elapsed_time s + delay,
                              event_callback = cb\<rparr> (event_queue s)\<rparr>)
   }"

text \<open>What a callback does to the environment.\<close>

datatype 'c call = Schedule duration 'c | Stop_now

type_synonym ('c, 'a) behaviour = "'c \<Rightarrow> duration \<Rightarrow> 'a \<Rightarrow> 'a \<times> 'c call list"

fun perform :: "'c call list \<Rightarrow> ('c, 'a) SimpleEnvironment \<Rightarrow> ('c, 'a) SimpleEnvironment option" where
  "perform [] s = Some s"
| "perform (Schedule d c # cs) s = do {
     s1 \<leftarrow> ScheduleEvent d (Callback c) s;
     perform cs s1
   }"
| "perform (Stop_now # cs) s = perform cs (env_Stop s)"

fun execute ::
    "('c, 'a) behaviour \<Rightarrow> 'c callback \<Rightarrow> ('c, 'a) SimpleEnvironment \<Rightarrow> ('c, 'a) SimpleEnvironment option"
  where
  "execute beh Stop_at_deadline s = Some (env_Stop s)"
| "execute beh (Callback c) s =
     (case beh c (env_elapsed_time s) (app s) of (a, calls) \<Rightarrow> perform calls (s\<lparr>app := a\<rparr>))"

partial_function (option) Run ::
    "('c, 'a) behaviour \<Rightarrow> ('c, 'a) SimpleEnvironment \<Rightarrow> ('c, 'a) SimpleEnvironment option" where
  "Run beh s =
     (if env_stopped s then Some s
      else (case event_queue s of
          [] \<Rightarrow> Some s
        | e # es \<Rightarrow> do {
            s1 \<leftarrow> execute beh (event_callback e)
              (s\<lparr>env_elapsed_time := scheduled_time e, event_queue := es, trace := trace s @ [e]\<rparr>);
            Run beh (s1\<lparr>executed_events := executed_events s1 + 1\<rparr>)
          }))"

definition stop_event :: "duration \<Rightarrow> 'c Event" where
  "stop_event d = \<lparr>event_id = - 1, scheduled_time = d, event_callback = Stop_at_deadline\<rparr>"

definition RunUntil ::
    "('c, 'a) behaviour \<Rightarrow> duration \<Rightarrow> ('c, 'a) SimpleEnvironment \<Rightarrow> ('c, 'a) SimpleEnvironment option" where
  "RunUntil beh deadline s = do {
     check (env_elapsed_time s < deadline);
     Run beh (s\<lparr>event_queue := push_event (stop_event deadline) (event_queue s), env_stopped := False\<rparr>)
   }"

definition RunFor ::
    "('c, 'a) behaviour \<Rightarrow> duration \<Rightarrow> ('c, 'a) SimpleEnvironment \<Rightarrow> ('c, 'a) SimpleEnvironment option" where
  "RunFor beh delay s = do {
     check (ZeroDuration \<le> delay);
     Run beh (s\<lparr>event_queue := push_event (stop_event (env_elapsed_time s + delay)) (event_queue s),
                env_stopped := False\<rparr>)
   }"

section \<open>The queue\<close>

lemma mset_push [simp]: "mset (push_event e es) = add_mset e (mset es)"
  by (induction es) auto

lemma set_push [simp]: "set (push_event e es) = insert e (set es)"
  by (metis mset_push set_mset_add_mset_insert set_mset_mset)

lemma before_trans: "event_before a b \<Longrightarrow> \<not> event_before c b \<Longrightarrow> event_before a c"
  by (auto simp: event_before_def split: if_splits)

lemma not_before_trans: "\<not> event_before b a \<Longrightarrow> \<not> event_before c b \<Longrightarrow> \<not> event_before c a"
  by (auto simp: event_before_def split: if_splits)

lemma before_asym: "event_before a b \<Longrightarrow> \<not> event_before b a"
  by (auto simp: event_before_def split: if_splits)

lemma before_le: "\<not> event_before b a \<Longrightarrow> scheduled_time a \<le> scheduled_time b"
  by (auto simp: event_before_def split: if_splits)

abbreviation in_order :: "'c Event list \<Rightarrow> bool" where
  "in_order \<equiv> sorted_wrt (\<lambda>a b. \<not> event_before b a)"

lemma in_order_push: "in_order es \<Longrightarrow> in_order (push_event e es)"
proof (induction es)
  case (Cons x xs)
  show ?case
  proof (cases "event_before e x")
    case True
    then have "\<not> event_before y e" if "y \<in> set xs" for y
      using Cons.prems that before_trans [OF True] before_asym by auto
    then show ?thesis using True Cons.prems before_asym [OF True] by simp
  qed (use Cons in auto)
qed simp

text \<open>All times are finite and none lies in the past.\<close>

definition env_wf :: "('c, 'a) SimpleEnvironment \<Rightarrow> bool" where
  "env_wf s \<longleftrightarrow> in_order (event_queue s) \<and> (\<exists>n. env_elapsed_time s = Ticks n \<and>
     (\<forall>e \<in> set (event_queue s). \<exists>t \<ge> n. scheduled_time e = Ticks t))"

text \<open>A callback that neither stops the run nor schedules anything for the current instant.\<close>

definition patient :: "('c, 'a) behaviour \<Rightarrow> bool" where
  "patient beh \<longleftrightarrow> (\<forall>c t a. \<forall>call \<in> set (snd (beh c t a)). \<exists>d c'. call = Schedule (Ticks d) c' \<and> 0 < d)"

lemma perform_patient:
  assumes "env_wf s" "env_elapsed_time s = Ticks n" "\<forall>call \<in> set cs. \<exists>d c. call = Schedule (Ticks d) c \<and> 0 < d"
  shows "\<exists>s' new. perform cs s = Some s' \<and> env_wf s' \<and> env_elapsed_time s' = Ticks n \<and>
    env_stopped s' = env_stopped s \<and> trace s' = trace s \<and>
    mset (event_queue s') = mset (event_queue s) + mset new \<and>
    (\<forall>e \<in> set new. (\<exists>t > n. scheduled_time e = Ticks t) \<and> event_callback e \<noteq> Stop_at_deadline)"
  using assms
proof (induction cs arbitrary: s)
  case Nil
  then show ?case by (auto intro!: exI [of _ "[] :: 'a Event list"])
next
  case (Cons call cs)
  obtain d c where c: "call = Schedule (Ticks d) c" "0 < d" using Cons.prems(3) by auto
  let ?e = "\<lparr>event_id = scheduled_events s + 1, scheduled_time = Ticks (n + d), event_callback = Callback c\<rparr>"
  let ?s = "s\<lparr>scheduled_events := scheduled_events s + 1, event_queue := push_event ?e (event_queue s)\<rparr>"
  have s1: "ScheduleEvent (Ticks d) (Callback c) s = Some ?s"
    using Cons.prems(2) c(2) by (simp add: ScheduleEvent_def Let_def)
  have "env_wf ?s" using Cons.prems(1,2) c(2) by (auto simp: env_wf_def in_order_push)
  from Cons.IH [OF this] Cons.prems(2,3) obtain s' new where s': "perform cs ?s = Some s'" "env_wf s'"
    "env_elapsed_time s' = Ticks n" "env_stopped s' = env_stopped s" "trace s' = trace s"
    "mset (event_queue s') = mset (event_queue ?s) + mset new"
    "\<forall>e \<in> set new. (\<exists>t > n. scheduled_time e = Ticks t) \<and> event_callback e \<noteq> Stop_at_deadline"
    by auto
  show ?case
    using s' s1 c by (intro exI [of _ s'] exI [of _ "?e # new"]) auto
qed

section \<open>Running up to a deadline\<close>

text \<open>The distances of the events due by the deadline: what the loop still has to run.\<close>

definition due :: "int \<Rightarrow> 'c Event list \<Rightarrow> nat multiset" where
  "due d es = image_mset (\<lambda>e. case scheduled_time e of Ticks t \<Rightarrow> nat (d - t) | _ \<Rightarrow> 0)
     (filter_mset (\<lambda>e. scheduled_time e \<le> Ticks d) (mset es))"

lemma due_decreases:
  assumes "mset es' = mset es + mset new" "scheduled_time e = Ticks t" "t \<le> d"
    and "\<forall>x \<in> set new. \<exists>u > t. scheduled_time x = Ticks u"
  shows "(due d es', due d (e # es)) \<in> mult less_than"
proof -
  have "due d es' = due d es + due d new" using assms(1) by (simp add: due_def)
  moreover have "due d (e # es) = due d es + {#nat (d - t)#}" using assms(2,3) by (simp add: due_def)
  moreover have "(due d es + due d new, due d es + {#nat (d - t)#}) \<in> mult less_than"
  proof (rule one_step_implies_mult)
    show "\<forall>k \<in> set_mset (due d new). \<exists>j \<in> set_mset {#nat (d - t)#}. (k, j) \<in> less_than"
    proof
      fix k assume "k \<in># due d new"
      then obtain x where x: "x \<in> set new" "scheduled_time x \<le> Ticks d"
        "k = (case scheduled_time x of Ticks t \<Rightarrow> nat (d - t) | _ \<Rightarrow> 0)" by (auto simp: due_def)
      obtain u where "u > t" "scheduled_time x = Ticks u" using assms(4) x(1) by blast
      then have "k < nat (d - t)" using x(2,3) by simp
      then show "\<exists>j \<in> set_mset {#nat (d - t)#}. (k, j) \<in> less_than" by simp
    qed
  qed simp
  ultimately show ?thesis by simp
qed

text \<open>What a run up to a deadline leaves.\<close>

definition ran_to :: "int \<Rightarrow> ('c, 'a) SimpleEnvironment \<Rightarrow> ('c, 'a) SimpleEnvironment \<Rightarrow> 'c Event list \<Rightarrow> bool" where
  "ran_to d s s' tr \<longleftrightarrow> env_stopped s' \<and> env_elapsed_time s' = Ticks d \<and> trace s' = trace s @ tr \<and>
     sorted (map scheduled_time tr) \<and> (\<forall>e \<in> set tr. env_elapsed_time s \<le> scheduled_time e) \<and>
     (\<forall>e \<in> set (event_queue s). event_before e (stop_event (Ticks d)) \<longrightarrow> e \<in> set tr) \<and>
     (\<forall>e \<in> set (event_queue s'). \<not> event_before e (stop_event (Ticks d)))"

lemma ran_to_step:
  assumes "ran_to d s1 s' tr" "env_elapsed_time s1 = scheduled_time e" "trace s1 = trace s @ [e]"
    "set (event_queue s) \<subseteq> insert e (set (event_queue s1))" "env_elapsed_time s \<le> scheduled_time e"
  shows "ran_to d s s' (e # tr)"
  using assms by (auto simp: ran_to_def)

text \<open>One turn of the loop with a patient callback.\<close>

lemma Run_turn:
  assumes "patient beh" "env_wf s" "\<not> env_stopped s" "event_queue s = e # es" "event_callback e = Callback c"
    and "scheduled_time e = Ticks t"
  obtains s1 new where "Run beh s = Run beh s1" "env_wf s1" "\<not> env_stopped s1" "env_elapsed_time s1 = Ticks t"
    "trace s1 = trace s @ [e]" "mset (event_queue s1) = mset es + mset new"
    "\<forall>x \<in> set new. (\<exists>u > t. scheduled_time x = Ticks u) \<and> event_callback x \<noteq> Stop_at_deadline"
proof -
  let ?s0 = "s\<lparr>env_elapsed_time := scheduled_time e, event_queue := es, trace := trace s @ [e]\<rparr>"
  obtain a calls where b: "beh c (scheduled_time e) (app s) = (a, calls)" by fastforce
  have sorted: "in_order es" "\<forall>x \<in> set es. \<not> event_before x e"
    using assms(2,4) by (auto simp: env_wf_def)
  have "\<exists>u \<ge> t. scheduled_time x = Ticks u" if x: "x \<in> set es" for x
  proof -
    obtain u where "scheduled_time x = Ticks u" using x assms(2) unfolding env_wf_def assms(4) by auto
    moreover have "scheduled_time e \<le> scheduled_time x" using before_le sorted(2) x by blast
    ultimately show ?thesis using assms(6) by simp
  qed
  then have wf0: "env_wf (?s0\<lparr>app := a\<rparr>)" using sorted(1) assms(6) by (simp add: env_wf_def)
  have calls: "\<forall>call \<in> set calls. \<exists>d c. call = Schedule (Ticks d) c \<and> 0 < d"
    using assms(1) b unfolding patient_def by (metis snd_conv)
  have el: "env_elapsed_time (?s0\<lparr>app := a\<rparr>) = Ticks t" using assms(6) by simp
  from perform_patient [OF wf0 el calls] obtain s1 new where
    s1: "perform calls (?s0\<lparr>app := a\<rparr>) = Some s1" "env_wf s1" "env_elapsed_time s1 = Ticks t"
    "env_stopped s1 = env_stopped s" "trace s1 = trace s @ [e]" "mset (event_queue s1) = mset es + mset new"
    "\<forall>x \<in> set new. (\<exists>u > t. scheduled_time x = Ticks u) \<and> event_callback x \<noteq> Stop_at_deadline"
    by auto
  let ?s1 = "s1\<lparr>executed_events := executed_events s1 + 1\<rparr>"
  have "Run beh s = Run beh ?s1"
    using assms(3-5) b s1(1) by (subst Run.simps) simp
  moreover have "env_wf ?s1" using s1(2) by (simp add: env_wf_def)
  ultimately show thesis using s1 assms(3) by (intro that [of ?s1 new]) simp_all
qed

lemma Run_to_deadline:
  assumes "patient beh" "env_wf s" "\<not> env_stopped s" "stop_event (Ticks d) \<in> set (event_queue s)"
    and "\<forall>e \<in> set (event_queue s). event_callback e = Stop_at_deadline \<longrightarrow> e = stop_event (Ticks d)"
  shows "\<exists>s' tr. Run beh s = Some s' \<and> ran_to d s s' tr"
  using wf_mult [OF wf_less_than] assms(2-5)
proof (induction "due d (event_queue s)" arbitrary: s rule: wf_induct_rule)
  case (less s)
  let ?stop = "stop_event (Ticks d) :: 'a Event"
  obtain e es where q: "event_queue s = e # es" using less.prems(3) by (cases "event_queue s") auto
  have sorted: "in_order es" "\<forall>x \<in> set es. \<not> event_before x e"
    using less.prems(1) q by (auto simp: env_wf_def)
  have le: "\<not> event_before ?stop e"
    using less.prems(3) sorted(2) q before_asym by auto
  obtain n t where n: "env_elapsed_time s = Ticks n" "n \<le> t" "scheduled_time e = Ticks t"
    using less.prems(1) q by (auto simp: env_wf_def)
  have td: "t \<le> d" using before_le [OF le] n(3) by (simp add: stop_event_def)
  show ?case
  proof (cases "event_callback e")
    case Stop_at_deadline
    then have e: "e = ?stop" using less.prems(4) q by simp
    let ?s' = "s\<lparr>env_elapsed_time := scheduled_time e, event_queue := es, trace := trace s @ [e],
      env_stopped := True, executed_events := executed_events s + 1\<rparr>"
    have "Run beh s = Some ?s'"
      using less.prems(2) q Stop_at_deadline by (subst Run.simps, simp add: env_Stop_def, subst Run.simps, simp)
    moreover have "t = d" using e n(3) by (simp add: stop_event_def)
    moreover have "\<not> event_before x ?stop" if "x \<in> set (event_queue s)" for x
      using that sorted(2) before_asym [of ?stop ?stop] unfolding q e by auto
    ultimately show ?thesis
      using n q by (intro exI [of _ ?s'] exI [of _ "[e]"]) (simp add: ran_to_def)
  next
    case (Callback c)
    obtain s1 new where s1: "Run beh s = Run beh s1" "env_wf s1" "\<not> env_stopped s1" "env_elapsed_time s1 = Ticks t"
      "trace s1 = trace s @ [e]" "mset (event_queue s1) = mset es + mset new"
      "\<forall>x \<in> set new. (\<exists>u > t. scheduled_time x = Ticks u) \<and> event_callback x \<noteq> Stop_at_deadline"
      by (rule Run_turn [OF assms(1) less.prems(1,2) q Callback n(3)])
    have set1: "set (event_queue s1) = set es \<union> set new"
      using s1(6) by (metis mset_append set_append set_mset_mset)
    have "(due d (event_queue s1), due d (event_queue s)) \<in> mult less_than"
      unfolding q using due_decreases [OF s1(6) n(3) td] s1(7) by blast
    moreover have "e \<noteq> ?stop" using Callback by (auto simp: stop_event_def)
    then have "?stop \<in> set (event_queue s1)" using less.prems(3) q set1 by auto
    moreover have "\<forall>x \<in> set (event_queue s1). event_callback x = Stop_at_deadline \<longrightarrow> x = ?stop"
      using less.prems(4) q set1 s1(7) by auto
    ultimately obtain s' tr where s': "Run beh s1 = Some s'" "ran_to d s1 s' tr"
      using less.hyps [OF _ s1(2,3)] by blast
    have "ran_to d s s' (e # tr)"
      using ran_to_step [OF s'(2), of e s] s1(4,5) n set1 q by auto
    then show ?thesis using s'(1) s1(1) by auto
  qed
qed

text \<open>
  C27. Running up to a deadline returns. When every callback schedules only for later instants and none
  stops the run, \<open>RunUntil\<close> runs the events in the order of their times, each one that was due, leaves
  exactly events after the deadline and sets the clock to it.
\<close>

theorem RunUntil_returns:
  fixes beh :: "('c, 'a) behaviour"
  assumes "patient beh" "env_wf s" "env_elapsed_time s < Ticks d"
    and "\<forall>e \<in> set (event_queue s). event_callback e \<noteq> Stop_at_deadline"
  shows "\<exists>s' tr. RunUntil beh (Ticks d) s = Some s' \<and> env_elapsed_time s' = Ticks d \<and> trace s' = trace s @ tr \<and>
    sorted (map scheduled_time tr) \<and>
    (\<forall>e \<in> set (event_queue s). event_before e (stop_event (Ticks d)) \<longrightarrow> e \<in> set tr) \<and>
    (\<forall>e \<in> set (event_queue s'). \<not> event_before e (stop_event (Ticks d)))"
proof -
  let ?s = "s\<lparr>event_queue := push_event (stop_event (Ticks d)) (event_queue s), env_stopped := False\<rparr>"
  obtain n where n: "env_elapsed_time s = Ticks n" using assms(2) by (auto simp: env_wf_def)
  have "env_wf ?s" using assms(2,3) n by (auto simp: env_wf_def in_order_push stop_event_def)
  moreover have "\<forall>e \<in> set (event_queue ?s). event_callback e = Stop_at_deadline \<longrightarrow> e = stop_event (Ticks d)"
    using assms(4) by auto
  ultimately obtain s' tr where s': "Run beh ?s = Some s'" "ran_to d ?s s' tr"
    using Run_to_deadline [OF assms(1), of ?s d] by auto
  have "RunUntil beh (Ticks d) s = Some s'" using s'(1) assms(3) by (simp add: RunUntil_def)
  then show ?thesis using s'(2) by (auto simp: ran_to_def)
qed

text \<open>A clock that ticks every three units and records the times.\<close>

definition ticker :: "(unit, duration list) behaviour" where
  "ticker c t ts = (ts @ [t], [Schedule (Ticks 3) ()])"

definition ticking :: "(unit, duration list) SimpleEnvironment" where
  "ticking = (new_SimpleEnvironment [])\<lparr>event_queue :=
     [\<lparr>event_id = 1, scheduled_time = ZeroDuration, event_callback = Callback ()\<rparr>]\<rparr>"

lemma RunUntil_returns_witness:
  "\<exists>s'. RunUntil ticker (Ticks 10) ticking = Some s' \<and> env_elapsed_time s' = Ticks 10"
proof -
  have "patient ticker" by (simp add: patient_def ticker_def)
  moreover have "env_wf ticking" by (simp add: ticking_def env_wf_def new_SimpleEnvironment_def)
  ultimately show ?thesis
    using RunUntil_returns [of ticker ticking 10] by (auto simp: ticking_def new_SimpleEnvironment_def)
qed

text \<open>\<open>RunFor\<close> is \<open>RunUntil\<close> at the current time plus the delay, and \<open>Run\<close> after either does nothing.\<close>

lemma RunFor_RunUntil:
  "env_elapsed_time s = Ticks n \<Longrightarrow> 0 < d \<Longrightarrow> RunFor beh (Ticks d) s = RunUntil beh (Ticks (n + d)) s"
  by (simp add: RunFor_def RunUntil_def)

lemma Run_after_stop: "env_stopped s \<Longrightarrow> Run beh s = Some s"
  by (subst Run.simps) simp

end
