(* ===== verification/Ip_Trie.thy ===== *)
theory Ip_Trie
  imports Prelude
begin

text \<open>
  The routing trie (\<open>common/ipv6_trie.h\<close>): insertion of an address range and the search for the longest
  prefix of an address. A null pointer is \<open>Null\<close>; the nodes are owned by their parents, so an update in
  place is the rebuilt tree. The two 64-bit halves of an address are walked with a one-bit mask \<open>bit\<close>, as
  in the code; \<open>key\<close> and \<open>lookup\<close> are the abstract view as a map from bit strings to data.
\<close>

unbundle bit_operations_syntax

type_synonym u128 = "128 word"

record IPRange =
  address :: u128
  mask :: u128

datatype 'a trie = Null | TrieNode "'a trie" "'a trie" "'a option"

record 'a IPTable =
  head :: "'a trie"
  trie_size :: u32

definition new_IPTable :: "'a IPTable" where
  "new_IPTable = \<lparr>head = TrieNode Null Null None, trie_size = 0\<rparr>"

definition ip_empty :: "'a IPTable \<Rightarrow> bool" where
  "ip_empty t \<longleftrightarrow> trie_size t = 0"

section \<open>Walking the bits\<close>

definition Uint128High64 :: "u128 \<Rightarrow> u64" where
  "Uint128High64 a = ucast (drop_bit 64 a)"

definition Uint128Low64 :: "u128 \<Rightarrow> u64" where
  "Uint128Low64 a = ucast a"

definition high_bit :: u64 where
  "high_bit = 0x8000000000000000"

record cursor =
  c_bit :: u64
  c_count :: nat
  c_addr :: u64
  c_mask :: u64

definition start_cursor :: "IPRange \<Rightarrow> cursor" where
  "start_cursor r = \<lparr>c_bit = high_bit, c_count = 0, c_addr = Uint128High64 (address r), c_mask = Uint128High64 (mask r)\<rparr>"

text \<open>\<open>None\<close>: both halves have been walked (\<open>++count == 2\<close>; the count starts at 0 and grows by one).\<close>

definition advance_cursor :: "IPRange \<Rightarrow> cursor \<Rightarrow> cursor option" where
  "advance_cursor r c =
     (let b = drop_bit 1 (c_bit c) in
      if b = 0 then
        if 2 \<le> Suc (c_count c) then None
        else Some \<lparr>c_bit = high_bit, c_count = Suc (c_count c), c_addr = Uint128Low64 (address r),
                c_mask = Uint128Low64 (mask r)\<rparr>
      else Some (c\<lparr>c_bit := b\<rparr>))"

definition right_turn :: "cursor \<Rightarrow> bool" where
  "right_turn c \<longleftrightarrow> c_bit c AND c_addr c \<noteq> 0"

definition masked :: "cursor \<Rightarrow> bool" where
  "masked c \<longleftrightarrow> c_bit c AND c_mask c \<noteq> 0"

section \<open>Insertion\<close>

text \<open>The second loop: the nodes below the last existing one.\<close>

function create_path :: "IPRange \<Rightarrow> 'a \<Rightarrow> cursor \<Rightarrow> 'a trie" where
  "create_path r d c =
     (if masked c then
        let child = (case advance_cursor r c of None \<Rightarrow> TrieNode Null Null (Some d) | Some c' \<Rightarrow> create_path r d c')
        in if right_turn c then TrieNode Null child None else TrieNode child Null None
      else TrieNode Null Null (Some d))"
  by pat_completeness auto

termination
proof (relation "measure (\<lambda>(r, d, c). (2 - c_count c) * 2 ^ 64 + unat (c_bit c))", goal_cases)
  case (2 r d c c')
  have b: "c_bit c \<noteq> 0" using 2(1) by (auto simp: masked_def)
  have lt: "unat (drop_bit 1 (c_bit c)) < unat (c_bit c)"
    using b unfolding unat_drop_bit_eq by (simp add: drop_bit_Suc unat_gt_0)
  show ?case
  proof (cases "drop_bit 1 (c_bit c) = 0")
    case True
    then have "Suc (c_count c) < 2" "c' = \<lparr>c_bit = high_bit, c_count = Suc (c_count c),
        c_addr = Uint128Low64 (address r), c_mask = Uint128Low64 (mask r)\<rparr>"
      using 2 by (auto simp: advance_cursor_def Let_def split: if_splits)
    moreover have "unat high_bit < 2 ^ 64" by (simp add: high_bit_def)
    ultimately show ?thesis by auto
  next
    case False
    then have "c' = c\<lparr>c_bit := drop_bit 1 (c_bit c)\<rparr>" using 2 by (simp add: advance_cursor_def Let_def)
    then show ?thesis using lt by simp
  qed
qed simp

declare create_path.simps [simp del]

fun put_data :: "'a \<Rightarrow> 'a trie \<Rightarrow> (status \<times> 'a trie) option" where
  "put_data d Null = None"
| "put_data d (TrieNode l r (Some x)) = Some (InternalError, TrieNode l r (Some x))"
| "put_data d (TrieNode l r None) = Some (OkStatus, TrieNode l r (Some d))"

text \<open>The first loop, which follows the existing nodes.\<close>

fun insert_from :: "IPRange \<Rightarrow> 'a \<Rightarrow> cursor \<Rightarrow> 'a trie \<Rightarrow> (status \<times> 'a trie) option" where
  "insert_from rg d c Null = None"
| "insert_from rg d c (TrieNode l r dat) =
     (if \<not> masked c then put_data d (TrieNode l r dat)
      else if right_turn c then
        (if r = Null then Some (OkStatus, TrieNode l
             (case advance_cursor rg c of None \<Rightarrow> TrieNode Null Null (Some d) | Some c' \<Rightarrow> create_path rg d c') dat)
         else do {
           (st, r') \<leftarrow> (case advance_cursor rg c of None \<Rightarrow> put_data d r | Some c' \<Rightarrow> insert_from rg d c' r);
           Some (st, TrieNode l r' dat)
         })
      else
        (if l = Null then Some (OkStatus, TrieNode
             (case advance_cursor rg c of None \<Rightarrow> TrieNode Null Null (Some d) | Some c' \<Rightarrow> create_path rg d c') r dat)
         else do {
           (st, l') \<leftarrow> (case advance_cursor rg c of None \<Rightarrow> put_data d l | Some c' \<Rightarrow> insert_from rg d c' l);
           Some (st, TrieNode l' r dat)
         }))"

definition ip_insert :: "IPRange \<Rightarrow> 'a \<Rightarrow> bool \<Rightarrow> 'a IPTable \<Rightarrow> (status \<times> 'a IPTable) option" where
  "ip_insert r d overwrite t = do {
     (st, h) \<leftarrow> insert_from r d (start_cursor r) (head t);
     Some (st, if st = OkStatus then t\<lparr>head := h, trie_size := trie_size t + 1\<rparr> else t\<lparr>head := h\<rparr>)
   }"

section \<open>Search\<close>

fun find_loop :: "u128 \<Rightarrow> u64 \<Rightarrow> u64 \<Rightarrow> 'a trie \<Rightarrow> 'a option \<Rightarrow> 'a option" where
  "find_loop a bt addr Null ptr = ptr"
| "find_loop a bt addr (TrieNode l r dat) ptr =
     (let ptr1 = (case dat of Some x \<Rightarrow> Some x | None \<Rightarrow> ptr);
          b = drop_bit 1 bt;
          bt1 = (if b = 0 then high_bit else b);
          addr1 = (if b = 0 then Uint128Low64 a else addr)
      in if addr AND bt \<noteq> 0 then find_loop a bt1 addr1 r ptr1 else find_loop a bt1 addr1 l ptr1)"

definition find_longest :: "u128 \<Rightarrow> 'a IPTable \<Rightarrow> status + 'a" where
  "find_longest a t =
     (case find_loop a high_bit (Uint128High64 a) (head t) None of
        Some x \<Rightarrow> Inr x
      | None \<Rightarrow> Inl InternalError)"

section \<open>The abstract view\<close>

definition path :: "u128 \<Rightarrow> bool list" where
  "path a = map (\<lambda>i. bit a (127 - i)) [0..<128]"

lemma length_path [simp]: "length (path a) = 128"
  by (simp add: path_def)

lemma path_nth: "i < 128 \<Longrightarrow> path a ! i = bit a (127 - i)"
  by (simp add: path_def)

text \<open>The key of a range: the bits of its address under the leading ones of its mask.\<close>

definition key_from :: "IPRange \<Rightarrow> nat \<Rightarrow> bool list" where
  "key_from r n = map fst (takeWhile snd (drop n (zip (path (address r)) (path (mask r)))))"

abbreviation key :: "IPRange \<Rightarrow> bool list" where
  "key r \<equiv> key_from r 0"

lemma key_from_step:
  "n < 128 \<Longrightarrow> key_from r n = (if path (mask r) ! n then path (address r) ! n # key_from r (Suc n) else [])"
  by (simp add: key_from_def Cons_nth_drop_Suc [symmetric])

lemma key_from_end [simp]: "key_from r 128 = []"
  by (simp add: key_from_def)

fun lookup :: "'a trie \<Rightarrow> bool list \<Rightarrow> 'a option" where
  "lookup Null ks = None"
| "lookup (TrieNode l r d) [] = d"
| "lookup (TrieNode l r d) (k # ks) = lookup (if k then r else l) ks"

fun depth :: "'a trie \<Rightarrow> nat" where
  "depth Null = 0"
| "depth (TrieNode l r d) = Suc (max (depth l) (depth r))"

text \<open>The cursor after \<open>n\<close> bits.\<close>

definition half :: "nat \<Rightarrow> u128 \<Rightarrow> u64" where
  "half n a = (if n < 64 then Uint128High64 a else Uint128Low64 a)"

definition bit_at :: "nat \<Rightarrow> u64" where
  "bit_at n = 2 ^ (63 - n mod 64)"

definition cursor_at :: "IPRange \<Rightarrow> nat \<Rightarrow> cursor" where
  "cursor_at r n = \<lparr>c_bit = bit_at n, c_count = n div 64, c_addr = half n (address r), c_mask = half n (mask r)\<rparr>"

lemma bit_bit_at: "bit (bit_at n) i \<longleftrightarrow> i = 63 - n mod 64"
proof -
  have "63 - n mod 64 < 64" by simp
  then show ?thesis unfolding bit_at_def bit_exp_iff by (auto simp: possible_bit_def)
qed

lemma bit_at_and:
  assumes "n < 128"
  shows "bit_at n AND half n a \<noteq> 0 \<longleftrightarrow> path a ! n"
proof -
  have m: "63 - n mod 64 < 64" by simp
  have "bit_at n AND half n a = (if bit (half n a) (63 - n mod 64) then bit_at n else 0)"
    by (rule bit_word_eqI) (auto simp: bit_bit_at bit_and_iff)
  moreover have "bit_at n \<noteq> 0"
  proof
    assume "bit_at n = 0"
    then have "\<not> bit (bit_at n) (63 - n mod 64)" by simp
    then show False by (simp add: bit_bit_at)
  qed
  moreover have "bit (half n a) (63 - n mod 64) \<longleftrightarrow> bit a (127 - n)"
  proof (cases "n < 64")
    case True
    then show ?thesis using m by (simp add: half_def Uint128High64_def bit_simps)
  next
    case False
    then have "n mod 64 = n - 64" "127 - n < 64" using assms by (auto simp: le_mod_geq)
    then show ?thesis using False assms by (simp add: half_def Uint128Low64_def bit_simps)
  qed
  ultimately show ?thesis using assms by (simp add: path_nth)
qed

lemma bit_at_0: "bit_at 0 = high_bit"
  by (simp add: bit_at_def high_bit_def)

lemma bit_at_next:
  assumes "n < 128"
  shows "drop_bit 1 (bit_at n) = (if Suc n mod 64 = 0 then 0 else bit_at (Suc n))"
proof (rule bit_word_eqI)
  fix i assume "i < LENGTH(64)"
  have "bit (drop_bit 1 (bit_at n)) i \<longleftrightarrow> Suc i = 63 - n mod 64"
    unfolding bit_drop_bit_eq by (simp add: bit_bit_at)
  moreover have "Suc i = 63 - n mod 64 \<longleftrightarrow> Suc n mod 64 \<noteq> 0 \<and> i = 63 - Suc n mod 64"
    by (auto simp: mod_Suc)
  ultimately show "bit (drop_bit 1 (bit_at n)) i \<longleftrightarrow> bit (if Suc n mod 64 = 0 then 0 else bit_at (Suc n)) i"
    by (simp add: bit_bit_at)
qed

lemma bit_at_nz: "bit_at n \<noteq> 0"
proof
  assume "bit_at n = 0"
  then have "\<not> bit (bit_at n) (63 - n mod 64)" by simp
  then show False by (simp add: bit_bit_at)
qed

lemma cursor_at_0: "cursor_at r 0 = start_cursor r"
  by (simp add: cursor_at_def start_cursor_def half_def bit_at_0)

lemma masked_at: "n < 128 \<Longrightarrow> masked (cursor_at r n) \<longleftrightarrow> path (mask r) ! n"
  by (simp add: masked_def cursor_at_def bit_at_and)

lemma right_turn_at: "n < 128 \<Longrightarrow> right_turn (cursor_at r n) \<longleftrightarrow> path (address r) ! n"
  by (simp add: right_turn_def cursor_at_def bit_at_and)

lemma advance_cursor_at:
  assumes "n < 128"
  shows "advance_cursor r (cursor_at r n) = (if n = 127 then None else Some (cursor_at r (Suc n)))"
proof (cases "Suc n mod 64 = 0")
  case True
  then obtain k where k: "Suc n = 64 * k" by (auto simp: mod_eq_0_iff_dvd dvd_def)
  then have "k = 1 \<or> k = 2" using assms by linarith
  then have "n = 63 \<or> n = 127" using k by auto
  then show ?thesis
  proof
    assume n: "n = 63"
    have "bit_at 64 = high_bit" using bit_at_0 by (simp add: bit_at_def)
    moreover have "drop_bit 1 (bit_at 63) = 0" using bit_at_next [of 63] by simp
    ultimately show ?thesis unfolding n by (simp add: advance_cursor_def cursor_at_def half_def Let_def)
  next
    assume n: "n = 127"
    have "drop_bit 1 (bit_at 127) = 0" using bit_at_next [of 127] by simp
    then show ?thesis unfolding n by (simp add: advance_cursor_def cursor_at_def Let_def)
  qed
next
  case False
  then have ne: "n \<noteq> 127" "n \<noteq> 63" by auto
  moreover have "Suc n div 64 = n div 64" using False by (simp add: div_Suc)
  moreover have "n < 64 \<longleftrightarrow> Suc n < 64" using ne by auto
  moreover have "drop_bit 1 (bit_at n) = bit_at (Suc n)" using bit_at_next [OF assms] False by simp
  ultimately show ?thesis
    using bit_at_nz [of "Suc n"] by (simp add: advance_cursor_def cursor_at_def half_def Let_def)
qed

lemma lookup_leaf: "lookup (TrieNode Null Null d) ks = (if ks = [] then d else None)"
  by (cases ks) auto

lemma lookup_node:
  "lookup (TrieNode l r d) ks = (case ks of [] \<Rightarrow> d | k # ks' \<Rightarrow> lookup (if k then r else l) ks')"
  by (cases ks) auto

text \<open>A new branch holds the datum at the rest of the key.\<close>

definition branch :: "IPRange \<Rightarrow> 'a \<Rightarrow> nat \<Rightarrow> 'a trie" where
  "branch r d n = (if n = 128 then TrieNode Null Null (Some d) else create_path r d (cursor_at r n))"

lemma branch_step:
  assumes "n < 128"
  shows "(case advance_cursor r (cursor_at r n) of None \<Rightarrow> TrieNode Null Null (Some d) | Some c \<Rightarrow> create_path r d c)
    = branch r d (Suc n)"
  using assms by (auto simp: advance_cursor_at branch_def)

lemma branch_lookup:
  "n \<le> 128 \<Longrightarrow> branch r d n \<noteq> Null \<and> depth (branch r d n) \<le> 129 - n \<and>
     lookup (branch r d n) ks = (if ks = key_from r n then Some d else None)"
proof (induction "128 - n" arbitrary: n ks)
  case 0
  then show ?case by (simp add: branch_def lookup_leaf)
next
  case (Suc m)
  then have n: "n < 128" by simp
  have c: "branch r d n = (if masked (cursor_at r n) then
      if right_turn (cursor_at r n) then TrieNode Null (branch r d (Suc n)) None
      else TrieNode (branch r d (Suc n)) Null None
    else TrieNode Null Null (Some d))"
    using n by (simp add: branch_def [of r d n] create_path.simps [of r d "cursor_at r n"] branch_step Let_def)
  have IH: "depth (branch r d (Suc n)) \<le> 129 - Suc n"
    "lookup (branch r d (Suc n)) ks' = (if ks' = key_from r (Suc n) then Some d else None)" for ks'
    using Suc.hyps(1) [of "Suc n"] Suc.hyps(2) by auto
  show ?case
    using IH n unfolding c
    by (cases ks) (auto simp: masked_at right_turn_at key_from_step lookup_leaf)
qed

text \<open>What an insertion below a node of depth \<open>n\<close> does.\<close>

definition inserted :: "'a \<Rightarrow> bool list \<Rightarrow> nat \<Rightarrow> 'a trie \<Rightarrow> (status \<times> 'a trie) option \<Rightarrow> bool" where
  "inserted d k n t res \<longleftrightarrow> (\<exists>st t'. res = Some (st, t') \<and> t' \<noteq> Null \<and> depth t' \<le> 129 - n \<and>
     (if lookup t k = None then st = OkStatus \<and> lookup t' = (lookup t)(k \<mapsto> d) else st = InternalError \<and> t' = t))"

lemma put_inserted: "t \<noteq> Null \<Longrightarrow> depth t \<le> 129 - n \<Longrightarrow> inserted d [] n t (put_data d t)"
  by (cases "(d, t)" rule: put_data.cases) (auto simp: inserted_def lookup_node fun_eq_iff split: list.splits)

definition insert_at :: "IPRange \<Rightarrow> 'a \<Rightarrow> nat \<Rightarrow> 'a trie \<Rightarrow> (status \<times> 'a trie) option" where
  "insert_at r d n t = (if n = 128 then put_data d t else insert_from r d (cursor_at r n) t)"

lemma insert_at_step:
  "n < 128 \<Longrightarrow> (case advance_cursor r (cursor_at r n) of None \<Rightarrow> put_data d t | Some c \<Rightarrow> insert_from r d c t)
    = insert_at r d (Suc n) t"
  by (auto simp: advance_cursor_at insert_at_def)

lemma inserted_child:
  assumes "inserted d k (Suc n) (if b then r else l) res" "depth (TrieNode l r dat) \<le> 129 - n" "n < 128"
  shows "inserted d (b # k) n (TrieNode l r dat)
    (do { (st, t') \<leftarrow> res; Some (st, if b then TrieNode l t' dat else TrieNode t' r dat) })"
proof -
  obtain st t' where res: "res = Some (st, t')" "t' \<noteq> Null" "depth t' \<le> 129 - Suc n"
    "if lookup (if b then r else l) k = None then st = OkStatus \<and> lookup t' = (lookup (if b then r else l))(k \<mapsto> d)
     else st = InternalError \<and> t' = (if b then r else l)"
    using assms(1) by (auto simp: inserted_def)
  show ?thesis
  proof (cases "lookup (if b then r else l) k")
    case None
    then show ?thesis
      using res assms(2,3)
      by (cases b) (auto simp: inserted_def lookup_node fun_eq_iff split: list.splits)
  next
    case (Some x)
    then show ?thesis
      using res assms(2,3) by (cases b) (auto simp: inserted_def)
  qed
qed

lemma branch_inserted: "n \<le> 128 \<Longrightarrow> inserted d (key_from r n) n Null (Some (OkStatus, branch r d n))"
  using branch_lookup [of n r d] by (auto simp: inserted_def fun_eq_iff)

lemma insert_at_spec:
  "n \<le> 128 \<Longrightarrow> t \<noteq> Null \<Longrightarrow> depth t \<le> 129 - n \<Longrightarrow> inserted d (key_from r n) n t (insert_at r d n t)"
proof (induction t arbitrary: n)
  case (TrieNode l rt dat)
  show ?case
  proof (cases "n < 128 \<and> path (mask r) ! n")
    case False
    then have "key_from r n = []" using TrieNode.prems(1) key_from_step [of n r] by (cases "n = 128") auto
    moreover have "insert_at r d n (TrieNode l rt dat) = put_data d (TrieNode l rt dat)"
      using False TrieNode.prems(1) by (auto simp: insert_at_def masked_at)
    ultimately show ?thesis using put_inserted TrieNode.prems by metis
  next
    case True
    define b where "b = path (address r) ! n"
    define child where "child = (if b then rt else l)"
    have k: "key_from r n = b # key_from r (Suc n)" using True key_from_step [of n r] by (simp add: b_def)
    define res where "res = (if child = Null then Some (OkStatus, branch r d (Suc n)) else insert_at r d (Suc n) child)"
    have "depth child \<le> 129 - Suc n" using TrieNode.prems(3) by (cases b) (auto simp: child_def)
    then have "inserted d (key_from r (Suc n)) (Suc n) child res"
      using TrieNode.IH [of "Suc n"] True branch_inserted [of "Suc n" d r] by (auto simp: res_def child_def)
    from inserted_child [OF this [unfolded child_def] TrieNode.prems(3)] True
    have "inserted d (b # key_from r (Suc n)) n (TrieNode l rt dat)
      (do { (st, t') \<leftarrow> res; Some (st, if b then TrieNode l t' dat else TrieNode t' rt dat) })" by simp
    moreover have "insert_at r d n (TrieNode l rt dat)
      = do { (st, t') \<leftarrow> res; Some (st, if b then TrieNode l t' dat else TrieNode t' rt dat) }"
      using True
      by (simp add: insert_at_def [of r d n] masked_at right_turn_at branch_step insert_at_step res_def child_def b_def)
    ultimately show ?thesis unfolding k by simp
  qed
qed simp

text \<open>The search, over bit strings.\<close>

fun walk :: "'a trie \<Rightarrow> bool list \<Rightarrow> 'a option \<Rightarrow> 'a option" where
  "walk Null ks ptr = ptr"
| "walk (TrieNode l r d) [] ptr = (case d of Some x \<Rightarrow> Some x | None \<Rightarrow> ptr)"
| "walk (TrieNode l r d) (k # ks) ptr =
     walk (if k then r else l) ks (case d of Some x \<Rightarrow> Some x | None \<Rightarrow> ptr)"

lemma half_next: "n < 128 \<Longrightarrow> (if Suc n mod 64 = 0 then Uint128Low64 a else half n a) = half (Suc n) a"
proof (cases "Suc n mod 64 = 0")
  case True
  assume n: "n < 128"
  obtain k where "Suc n = 64 * k" using True by (auto simp: mod_eq_0_iff_dvd dvd_def)
  then have "64 \<le> Suc n" by (cases k) auto
  then show ?thesis using True by (simp add: half_def)
next
  case False
  then have "n \<noteq> 63" by auto
  then show ?thesis using False by (auto simp: half_def)
qed

lemma next_bit: "n < 128 \<Longrightarrow> (if drop_bit 1 (bit_at n) = 0 then high_bit else drop_bit 1 (bit_at n)) = bit_at (Suc n)"
proof (cases "Suc n mod 64 = 0")
  case True
  assume "n < 128"
  moreover have "bit_at (Suc n) = high_bit" using True by (simp add: bit_at_def high_bit_def)
  ultimately show ?thesis using True bit_at_next by simp
next
  case False
  assume "n < 128"
  then show ?thesis using False bit_at_next bit_at_nz by simp
qed

lemma find_loop_walk:
  "n \<le> 128 \<Longrightarrow> depth t \<le> 129 - n \<Longrightarrow>
     find_loop a (bit_at n) (half n a) t ptr = walk t (drop n (path a)) ptr"
proof (induction t arbitrary: n ptr)
  case (TrieNode l r d)
  let ?p = "case d of Some x \<Rightarrow> Some x | None \<Rightarrow> ptr"
  show ?case
  proof (cases "n < 128")
    case False
    then have "l = Null" "r = Null" "n = 128"
      using TrieNode.prems by (cases l; cases r; simp)+
    then show ?thesis by simp
  next
    case True
    have "drop_bit 1 (bit_at n) = 0 \<longleftrightarrow> Suc n mod 64 = 0"
      using bit_at_next [OF True] bit_at_nz [of "Suc n"] by (simp split: if_splits)
    then have hn: "(if drop_bit 1 (bit_at n) = 0 then Uint128Low64 a else half n a) = half (Suc n) a"
      using half_next [OF True, of a] by simp
    have bn: "half n a AND bit_at n \<noteq> 0 \<longleftrightarrow> path a ! n" using bit_at_and [OF True, of a] by (simp add: and.commute)
    have "find_loop a (bit_at n) (half n a) (TrieNode l r d) ptr =
        (if path a ! n then find_loop a (bit_at (Suc n)) (half (Suc n) a) r ?p
         else find_loop a (bit_at (Suc n)) (half (Suc n) a) l ?p)"
      by (simp only: find_loop.simps Let_def next_bit [OF True] hn bn)
    also have "\<dots> = find_loop a (bit_at (Suc n)) (half (Suc n) a) (if path a ! n then r else l) ?p" by simp
    also have "\<dots> = walk (if path a ! n then r else l) (drop (Suc n) (path a)) ?p"
      using TrieNode.IH [of "Suc n" ?p] TrieNode.prems True by auto
    also have "\<dots> = walk (TrieNode l r d) (drop n (path a)) ptr"
      using True by (simp add: Cons_nth_drop_Suc [symmetric])
    finally show ?thesis .
  qed
qed simp

text \<open>The last datum on the way down is the one of the longest prefix.\<close>

lemma walk_none: "\<forall>i \<le> length ks. lookup t (take i ks) = None \<Longrightarrow> walk t ks ptr = ptr"
proof (induction t ks ptr rule: walk.induct)
  case (3 l r d k ks ptr)
  have "lookup (if k then r else l) (take i ks) = None" if "i \<le> length ks" for i
    using 3(2) [rule_format, of "Suc i"] that by simp
  moreover have "d = None" using 3(2) [rule_format, of 0] by simp
  ultimately show ?case using 3(1) by simp
qed (auto split: option.splits)

lemma walk_some:
  "i \<le> length ks \<Longrightarrow> lookup t (take i ks) = Some x \<Longrightarrow>
     \<forall>j \<le> length ks. i < j \<longrightarrow> lookup t (take j ks) = None \<Longrightarrow> walk t ks ptr = Some x"
proof (induction t ks ptr arbitrary: i rule: walk.induct)
  case (3 l r d k ks ptr)
  have nx: "lookup (if k then r else l) (take j ks) = None" if "j \<le> length ks" "i < Suc j" for j
    using 3(4) [rule_format, of "Suc j"] that by simp
  show ?case
  proof (cases i)
    case 0
    then have "\<forall>j \<le> length ks. lookup (if k then r else l) (take j ks) = None" using nx by simp
    from walk_none [OF this] show ?thesis using 3(3) 0 by simp
  next
    case (Suc i')
    have "\<forall>j \<le> length ks. i' < j \<longrightarrow> lookup (if k then r else l) (take j ks) = None" using nx Suc by simp
    then show ?thesis using 3(1) [of i'] 3(2,3) Suc by simp
  qed
qed auto

section \<open>The table\<close>

definition table_wf :: "'a IPTable \<Rightarrow> bool" where
  "table_wf t \<longleftrightarrow> head t \<noteq> Null \<and> depth (head t) \<le> 129"

definition entry :: "'a IPTable \<Rightarrow> bool list \<Rightarrow> 'a option" where
  "entry t ks = lookup (head t) ks"

lemma new_table: "table_wf new_IPTable" "entry new_IPTable ks = None"
  by (simp_all add: new_IPTable_def table_wf_def entry_def lookup_leaf)

lemma ip_insert_spec:
  assumes "table_wf t"
  shows "\<exists>st t'. ip_insert r d ov t = Some (st, t') \<and> table_wf t' \<and>
    (if entry t (key r) = None then st = OkStatus \<and> entry t' = (entry t)(key r \<mapsto> d)
     else st = InternalError \<and> t' = t)"
proof -
  have "inserted d (key r) 0 (head t) (insert_at r d 0 (head t))"
    using insert_at_spec [of 0 "head t" d r] assms by (simp add: table_wf_def)
  then obtain st h where h: "insert_from r d (start_cursor r) (head t) = Some (st, h)" "h \<noteq> Null" "depth h \<le> 129"
    "if lookup (head t) (key r) = None then st = OkStatus \<and> lookup h = (lookup (head t))(key r \<mapsto> d)
     else st = InternalError \<and> h = head t"
    by (auto simp: inserted_def insert_at_def cursor_at_0)
  show ?thesis
  proof (cases "lookup (head t) (key r)")
    case None
    then show ?thesis using h by (simp add: ip_insert_def table_wf_def entry_def fun_eq_iff)
  next
    case (Some x)
    then show ?thesis using h assms by (simp add: ip_insert_def table_wf_def entry_def)
  qed
qed

lemma find_longest_walk: "table_wf t \<Longrightarrow>
    find_longest a t = (case walk (head t) (path a) None of Some x \<Rightarrow> Inr x | None \<Rightarrow> Inl InternalError)"
  using find_loop_walk [of 0 "head t" a None] by (simp add: find_longest_def table_wf_def half_def bit_at_0)

text \<open>Tables are filled by insertions whose status is ignored.\<close>

fun populate :: "(IPRange \<times> 'a) list \<Rightarrow> 'a IPTable \<Rightarrow> 'a IPTable option" where
  "populate [] t = Some t"
| "populate ((r, d) # rs) t = do {
     (_, t1) \<leftarrow> ip_insert r d True t;
     populate rs t1
   }"

text \<open>The first route of a key stays.\<close>

definition routes :: "(IPRange \<times> 'a) list \<Rightarrow> bool list \<Rightarrow> 'a option" where
  "routes rs = map_of (map (\<lambda>(r, d). (key r, d)) rs)"

lemma populate_spec:
  "table_wf t \<Longrightarrow> \<exists>t'. populate rs t = Some t' \<and> table_wf t' \<and> entry t' = routes rs ++ entry t"
proof (induction rs arbitrary: t)
  case Nil
  then show ?case by (simp add: routes_def)
next
  case (Cons rd rs)
  obtain r d where rd: "rd = (r, d)" by (cases rd)
  obtain st t1 where t1: "ip_insert r d True t = Some (st, t1)" "table_wf t1"
    "entry t1 = (if entry t (key r) = None then (entry t)(key r \<mapsto> d) else entry t)"
    using ip_insert_spec [OF Cons.prems, of r d True] by (auto split: if_splits)
  obtain t' where t': "populate rs t1 = Some t'" "table_wf t'" "entry t' = routes rs ++ entry t1"
    using Cons.IH [OF t1(2)] by blast
  have "entry t' = routes ((r, d) # rs) ++ entry t"
    unfolding t'(3) t1(3) by (auto simp: fun_eq_iff routes_def map_add_def split: option.splits)
  then show ?case using t1(1) t'(1,2) by (simp add: rd)
qed

text \<open>An address lies in a range when it agrees with it on the leading ones of the mask.\<close>

definition covers :: "IPRange \<Rightarrow> u128 \<Rightarrow> bool" where
  "covers r a \<longleftrightarrow> (\<forall>i < 128. (\<forall>j \<le> i. bit (mask r) (127 - j)) \<longrightarrow> bit a (127 - i) = bit (address r) (127 - i))"

definition mask_length :: "IPRange \<Rightarrow> nat" where
  "mask_length r = length (takeWhile id (path (mask r)))"

lemma takeWhile_snd_zip:
  "length xs = length ys \<Longrightarrow> map fst (takeWhile snd (zip xs ys)) = take (length (takeWhile id ys)) xs"
  by (induction xs ys rule: list_induct2) auto

lemma key_take: "key r = take (mask_length r) (path (address r))"
  by (simp add: key_from_def mask_length_def takeWhile_snd_zip)

lemma mask_length_le: "mask_length r \<le> 128"
  using length_takeWhile_le [of id "path (mask r)"] by (simp add: mask_length_def)

lemma length_key: "length (key r) = mask_length r"
  using mask_length_le by (simp add: key_take)

lemma less_takeWhile_id: "i < length xs \<Longrightarrow> i < length (takeWhile id xs) \<longleftrightarrow> (\<forall>j \<le> i. xs ! j)"
proof (induction xs arbitrary: i)
  case (Cons x xs)
  show ?case
  proof (cases i)
    case (Suc i')
    have "(\<forall>j \<le> Suc i'. (x # xs) ! j) \<longleftrightarrow> x \<and> (\<forall>j \<le> i'. xs ! j)" by (simp add: All_less_Suc2 less_Suc_eq_le [symmetric])
    then show ?thesis using Cons Suc by auto
  qed simp
qed simp

lemma covers_key: "covers r a \<longleftrightarrow> key r = take (mask_length r) (path a)"
proof -
  have in_mask: "i < mask_length r \<longleftrightarrow> (\<forall>j \<le> i. bit (mask r) (127 - j))" if "i < 128" for i
    using less_takeWhile_id [of i "path (mask r)"] that by (simp add: mask_length_def path_nth)
  have "key r = take (mask_length r) (path a) \<longleftrightarrow>
      (\<forall>i < mask_length r. path (address r) ! i = path a ! i)"
    using mask_length_le [of r] by (auto simp: key_take list_eq_iff_nth_eq)
  also have "\<dots> \<longleftrightarrow> (\<forall>i < 128. i < mask_length r \<longrightarrow> bit (address r) (127 - i) = bit a (127 - i))"
    using mask_length_le [of r] by (auto simp: path_nth)
  finally show ?thesis using in_mask by (auto simp: covers_def)
qed

text \<open>For the masks of address prefixes this is the usual test.\<close>

lemma covers_masked:
  assumes "\<forall>i j. i < j \<and> j < 128 \<and> bit (mask r) i \<longrightarrow> bit (mask r) j"
  shows "covers r a \<longleftrightarrow> a AND mask r = address r AND mask r"
proof -
  have lead: "(\<forall>j \<le> i. bit (mask r) (127 - j)) \<longleftrightarrow> bit (mask r) (127 - i)" if "i < 128" for i
  proof
    assume b: "bit (mask r) (127 - i)"
    show "\<forall>j \<le> i. bit (mask r) (127 - j)"
    proof (intro allI impI)
      fix j assume "j \<le> i"
      then have "j = i \<or> 127 - i < 127 - j" using that by linarith
      then show "bit (mask r) (127 - j)"
        using assms [rule_format, of "127 - i" "127 - j"] b by auto
    qed
  qed simp
  have "a AND mask r = address r AND mask r \<longleftrightarrow>
      (\<forall>n < 128. bit (mask r) n \<longrightarrow> bit a n = bit (address r) n)"
    by (auto simp: bit_eq_iff bit_and_iff possible_bit_def dest: bit_imp_le_length)
  also have "\<dots> \<longleftrightarrow> (\<forall>i < 128. bit (mask r) (127 - i) \<longrightarrow> bit a (127 - i) = bit (address r) (127 - i))"
  proof
    assume h: "\<forall>i < 128. bit (mask r) (127 - i) \<longrightarrow> bit a (127 - i) = bit (address r) (127 - i)"
    show "\<forall>n < 128. bit (mask r) n \<longrightarrow> bit a n = bit (address r) n"
    proof (intro allI impI)
      fix n :: nat assume "n < 128" "bit (mask r) n"
      then show "bit a n = bit (address r) n" using h [rule_format, of "127 - n"] by simp
    qed
  qed auto
  finally show ?thesis using lead by (auto simp: covers_def)
qed

lemma find_longest_longest:
  "\<exists>t. populate rs new_IPTable = Some t \<and>
     (case find_longest a t of
        Inr d \<Rightarrow> \<exists>r. (r, d) \<in> set rs \<and> covers r a \<and> routes rs (key r) = Some d \<and>
          (\<forall>(r', d') \<in> set rs. covers r' a \<longrightarrow> mask_length r' \<le> mask_length r)
      | Inl e \<Rightarrow> e = InternalError \<and> (\<forall>(r, d) \<in> set rs. \<not> covers r a))"
proof -
  have e: "entry new_IPTable = Map.empty" by (rule ext) (rule new_table(2))
  obtain t where t: "populate rs new_IPTable = Some t" "table_wf t" "entry t = routes rs"
    using populate_spec [OF new_table(1), of rs] unfolding e by auto
  let ?look = "\<lambda>i. lookup (head t) (take i (path a))"
  have look: "?look i = routes rs (take i (path a))" for i using t(3) by (simp add: entry_def fun_eq_iff)
  have hit: "?look (mask_length r) \<noteq> None" if "(r, d) \<in> set rs" "covers r a" for r d
  proof -
    have "routes rs (key r) \<noteq> None" using that(1) by (auto simp: routes_def map_of_eq_None_iff image_iff intro!: bexI [of _ "(r, d)"])
    then show ?thesis using look covers_key [of r a] that(2) by simp
  qed
  show ?thesis
  proof (cases "\<exists>i \<le> 128. ?look i \<noteq> None")
    case False
    then have "walk (head t) (path a) None = None" by (intro walk_none) auto
    moreover have "\<forall>(r, d) \<in> set rs. \<not> covers r a" using hit False mask_length_le by fastforce
    ultimately show ?thesis using t(1) find_longest_walk [OF t(2), of a] by simp
  next
    case True
    define i where "i = (GREATEST i. i \<le> 128 \<and> ?look i \<noteq> None)"
    have i: "i \<le> 128 \<and> ?look i \<noteq> None" unfolding i_def
      by (rule GreatestI_ex_nat [where b = 128]) (use True in auto)
    have max: "j \<le> i" if "j \<le> 128" "?look j \<noteq> None" for j unfolding i_def
      by (rule Greatest_le_nat [where b = 128]) (use that in auto)
    obtain d where d: "?look i = Some d" using i by blast
    have "walk (head t) (path a) None = Some d"
    proof (rule walk_some [where i = i])
      show "\<forall>j \<le> length (path a). i < j \<longrightarrow> ?look j = None" using max by (metis leD length_path)
    qed (use i d in auto)
    moreover obtain r where r: "(r, d) \<in> set rs" "key r = take i (path a)"
      using d look [of i] by (auto simp: routes_def dest!: map_of_SomeD)
    have ml: "mask_length r = i" using length_key [of r] r(2) i by simp
    then have "covers r a" using r(2) covers_key by simp
    moreover have "routes rs (key r) = Some d" using d look r(2) by simp
    moreover have "\<forall>(r', d') \<in> set rs. covers r' a \<longrightarrow> mask_length r' \<le> mask_length r"
      using hit max ml mask_length_le by fastforce
    ultimately show ?thesis using t(1) r(1) find_longest_walk [OF t(2), of a] by auto
  qed
qed

text \<open>
  C28. Longest prefix match. However the table was filled, a search finds the datum of the first route
  inserted for the longest of the ranges that contain the address, and fails exactly when no range does.
\<close>

theorem find_longest_is_longest_prefix:
  "\<exists>t. populate rs new_IPTable = Some t \<and>
     (case find_longest a t of
        Inr d \<Rightarrow> \<exists>r. (r, d) \<in> set rs \<and> covers r a \<and> routes rs (key r) = Some d \<and>
          (\<forall>(r', d') \<in> set rs. covers r' a \<longrightarrow> mask_length r' \<le> mask_length r)
      | Inl e \<Rightarrow> e = InternalError \<and> (\<forall>(r, d) \<in> set rs. \<not> covers r a))"
  by (rule find_longest_longest)

text \<open>Two nested ranges, \<open>::/0\<close> and \<open>8000::/1\<close>.\<close>

definition example_routes :: "(IPRange \<times> nat) list" where
  "example_routes = [(\<lparr>address = 0, mask = 0\<rparr>, 0),
     (\<lparr>address = 2 ^ 127, mask = 2 ^ 127\<rparr>, 1)]"

lemma example_lengths:
  "map (\<lambda>(r, d). mask_length r) example_routes = [0, 1]"
  "\<forall>(r, d) \<in> set example_routes. covers r (2 ^ 127 + 5)"
proof -
  show "map (\<lambda>(r, d). mask_length r) example_routes = [0, 1]" by code_simp
  have "bit (2 ^ 127 + 5 :: u128) 127" by (simp add: bit_iff_odd)
  moreover have "\<not> bit (2 ^ 127 :: u128) 126" by (simp add: bit_exp_iff)
  ultimately show "\<forall>(r, d) \<in> set example_routes. covers r (2 ^ 127 + 5)"
    by (auto simp: example_routes_def covers_def bit_exp_iff not_less_eq_eq dest: spec [of _ 1])
qed

lemma find_longest_is_longest_prefix_witness:
  "\<exists>t. populate example_routes new_IPTable = Some t \<and> find_longest (2 ^ 127 + 5) t = Inr 1"
proof -
  let ?a = "(2 ^ 127 + 5) :: u128"
  obtain t where t: "populate example_routes new_IPTable = Some t"
    "case find_longest ?a t of
        Inr d \<Rightarrow> \<exists>r. (r, d) \<in> set example_routes \<and> covers r ?a \<and> routes example_routes (key r) = Some d \<and>
          (\<forall>(r', d') \<in> set example_routes. covers r' ?a \<longrightarrow> mask_length r' \<le> mask_length r)
      | Inl e \<Rightarrow> e = InternalError \<and> (\<forall>(r, d) \<in> set example_routes. \<not> covers r ?a)"
    using find_longest_is_longest_prefix [of example_routes ?a] by blast
  have c: "covers r ?a" if "(r, d) \<in> set example_routes" for r d using example_lengths(2) that by blast
  have l: "(r, d) \<in> set example_routes \<Longrightarrow> mask_length r = d" for r d
    using example_lengths(1) by (auto simp: example_routes_def)
  have two: "(\<lparr>address = 2 ^ 127, mask = 2 ^ 127\<rparr>, 1) \<in> set example_routes"
    by (simp add: example_routes_def)
  obtain d where d: "find_longest ?a t = Inr d" using t(2) c [OF two] two by (cases "find_longest ?a t") auto
  then obtain r where r: "(r, d) \<in> set example_routes"
    "\<forall>(r', d') \<in> set example_routes. covers r' ?a \<longrightarrow> mask_length r' \<le> mask_length r" using t(2) by auto
  have "1 \<le> d" using r(2) c [OF two] two l [OF two] l [OF r(1)] by fastforce
  then have "d = 1" using r(1) by (auto simp: example_routes_def)
  then show ?thesis using t(1) d by blast
qed

end
