(* ===== verification/Routing.thy ===== *)
theory Routing
  imports Complex_Main Ip_Trie "HOL-Library.AList" "HOL-Library.Multiset"
begin

text \<open>
  Routing in the fabric: the packets a router sees (\<open>fabric/packet_util.cc\<close>), the routing table built from
  its configuration (\<open>fabric/network_routing_table.{h,cc}\<close>), the weighted choice of an output port
  (\<open>fabric/port_selection.cc\<close>) and the decision of the routing pipeline (\<open>fabric/network_routing.cc\<close>).

  \<open>crc32c\<close> is the hash of the third-party library of that name, applied to the fields that the code joins to a
  string. Byte strings of the configuration are lists of bytes; reading past their end is \<open>None\<close>. The
  iteration order of the hash map that collects the NDv6 flows is the argument \<open>iter\<close>.
\<close>

unbundle bit_operations_syntax

section \<open>Packets\<close>

type_synonym mac = u64

definition MacAddress :: "u8 \<Rightarrow> u8 \<Rightarrow> u8 \<Rightarrow> u8 \<Rightarrow> u8 \<Rightarrow> u8 \<Rightarrow> mac" where
  "MacAddress b6 b5 b4 b3 b2 b1 =
     push_bit 40 (ucast b6) + push_bit 32 (ucast b5) + push_bit 24 (ucast b4) + push_bit 16 (ucast b3) +
     push_bit 8 (ucast b2) + push_bit 0 (ucast b1)"

definition kFlowSrcMacVrfUp :: mac where
  "kFlowSrcMacVrfUp = MacAddress 2 0 0 0 0 1"

definition kDefaultNdv6FlowSourceMacAddress :: mac where
  "kDefaultNdv6FlowSourceMacAddress = MacAddress 2 0 0 0 0 16"

datatype EcnCode = kNonEct | kEcnCapableTransport0 | kEcnCapableTransport1 | kCongestionEncountered

record IngressTag =
  tag_port :: nat
  tag_priority :: nat
  tag_minimal_guarantee :: u64
  tag_shared_pool :: u64
  tag_headroom :: u64

record FabricPacket =
  bit_length :: nat
  src_ip :: u128
  dst_ip :: u128
  ip_protocol :: string
  udp_src_port :: u32
  udp_dst_port :: u32
  falcon_flow_label :: u32
  src_mac :: mac
  req_src_mac :: "mac option"
  hop_limit :: int
  port_list :: "u32 list option"
  current_port_index :: u32
  ecn :: EcnCode
  ingress_tag :: "IngressTag option"

definition kRoceDstPort :: u32 where
  "kRoceDstPort = 4791"

definition GetPacketFlowLabel :: "FabricPacket \<Rightarrow> u32" where
  "GetPacketFlowLabel p = (if udp_dst_port p = kRoceDstPort then 0 else falcon_flow_label p)"

type_synonym hash = "u128 \<times> u128 \<times> string \<times> u32 \<times> u32 \<times> u32 \<Rightarrow> u32"

definition GenerateHashValueForPacket :: "hash \<Rightarrow> FabricPacket \<Rightarrow> u32" where
  "GenerateHashValueForPacket crc32c p =
     crc32c (src_ip p, dst_ip p, ip_protocol p, udp_src_port p, udp_dst_port p, GetPacketFlowLabel p)"

definition DecrementPacketTtl :: "FabricPacket \<Rightarrow> FabricPacket \<times> status" where
  "DecrementPacketTtl p =
     (if hop_limit p = 0 then (p, InternalError)
      else (p\<lparr>hop_limit := hop_limit p - 1\<rparr>, OkStatus))"

definition SetPacketSourceMac :: "mac \<Rightarrow> FabricPacket \<Rightarrow> FabricPacket" where
  "SetPacketSourceMac m p = p\<lparr>req_src_mac := Some m\<rparr>"

text \<open>The outer option is the fatal check, the sum the \<open>StatusOr\<close>.\<close>

definition GetPacketStaticRoutingPort :: "FabricPacket \<Rightarrow> (status + u32) option" where
  "GetPacketStaticRoutingPort p =
     (if udp_dst_port p = kRoceDstPort then Some (Inl UnimplementedError)
      else (case port_list p of
          None \<Rightarrow> Some (Inl NotFoundError)
        | Some ps \<Rightarrow> do {
            check (unat (current_port_index p) < length ps);
            Some (Inr (ps ! unat (current_port_index p)))
          }))"

definition IncrementPacketStaticRoutingIndex :: "FabricPacket \<Rightarrow> FabricPacket" where
  "IncrementPacketStaticRoutingIndex p = p\<lparr>current_port_index := current_port_index p + 1\<rparr>"

section \<open>The routing table\<close>

record OutputInfo =
  weight :: u32
  port_index :: u32

record GroupInfo =
  set_src_mac :: mac
  output_options :: "OutputInfo list"

record Flow =
  ip_address :: "u8 list"
  ip_mask :: "u8 list"
  flow_id :: u32

record RoutingConfig =
  src_mac_to_vrf_entries :: "(u8 list \<times> u32) list"
  config_vrfs :: "(u32 \<times> Flow list) list"
  config_groups :: "(u32 \<times> u8 list \<times> OutputInfo list) list"
  ip_to_port_index :: "Flow list"

definition kDefaultWeightForNdv6OutputPort :: u32 where "kDefaultWeightForNdv6OutputPort = 1"

definition kDefaultVrfId :: u32 where "kDefaultVrfId = 1"

fun mac_of_bytes :: "u8 list \<Rightarrow> mac option" where
  "mac_of_bytes (a # b # c # d # e # f # _) = Some (MacAddress a b c d e f)"
| "mac_of_bytes _ = None"

text \<open>\<open>ntohl\<close> of four bytes in memory order.\<close>

definition ntohl :: "u8 list \<Rightarrow> u32" where
  "ntohl bs = push_bit 24 (ucast (bs ! 0)) OR push_bit 16 (ucast (bs ! 1)) OR push_bit 8 (ucast (bs ! 2)) OR
     ucast (bs ! 3)"

definition MakeUint128 :: "u64 \<Rightarrow> u64 \<Rightarrow> u128" where
  "MakeUint128 h l = push_bit 64 (ucast h) OR ucast l"

definition HexIPv6AddressToBinaryFormat :: "u8 list \<Rightarrow> u128 option" where
  "HexIPv6AddressToBinaryFormat bs = do {
     check (16 \<le> length bs);
     let s6_addr32 = (\<lambda>i. ucast (ntohl (drop (4 * i) bs)) :: u64);
     Some (MakeUint128 (push_bit 32 (s6_addr32 0) OR s6_addr32 1) (push_bit 32 (s6_addr32 2) OR s6_addr32 3))
   }"

definition IPRangeFromHexIPv6Address :: "u8 list \<Rightarrow> u8 list \<Rightarrow> IPRange option" where
  "IPRangeFromHexIPv6Address a m = do {
     a1 \<leftarrow> HexIPv6AddressToBinaryFormat a;
     m1 \<leftarrow> HexIPv6AddressToBinaryFormat m;
     Some \<lparr>address = a1, mask = m1\<rparr>
   }"

record NetworkRoutingTable =
  src_mac_to_vrf_map :: "(mac \<times> u32) list"
  vrfs :: "u32 \<rightharpoonup> u32 IPTable"
  ndv6_ip_table :: "OutputInfo list IPTable"
  groups :: "u32 \<rightharpoonup> GroupInfo"

fun populate_macs :: "(u8 list \<times> u32) list \<Rightarrow> (mac \<times> u32) list \<Rightarrow> (mac \<times> u32) list option" where
  "populate_macs [] m = Some m"
| "populate_macs ((bs, v) # es) m = do {
     a \<leftarrow> mac_of_bytes bs;
     populate_macs es (AList.update a v m)
   }"

text \<open>The flows of one range collect their ports in the order of the configuration.\<close>

fun collect_ndv6 :: "Flow list \<Rightarrow> (IPRange \<times> OutputInfo list) list \<Rightarrow> (IPRange \<times> OutputInfo list) list option" where
  "collect_ndv6 [] m = Some m"
| "collect_ndv6 (f # fs) m = do {
     r \<leftarrow> IPRangeFromHexIPv6Address (ip_address f) (ip_mask f);
     let old = (case map_of m r of Some os \<Rightarrow> os | None \<Rightarrow> []);
     collect_ndv6 fs (AList.update r (old @ [\<lparr>weight = kDefaultWeightForNdv6OutputPort, port_index = flow_id f\<rparr>]) m)
   }"

fun populate_vrf :: "u32 \<Rightarrow> Flow list \<Rightarrow> (u32 \<rightharpoonup> u32 IPTable) \<Rightarrow> (u32 \<rightharpoonup> u32 IPTable) option" where
  "populate_vrf v [] vs = Some vs"
| "populate_vrf v (f # fs) vs = do {
     r \<leftarrow> IPRangeFromHexIPv6Address (ip_address f) (ip_mask f);
     (_, t) \<leftarrow> ip_insert r (flow_id f) True (case vs v of Some t \<Rightarrow> t | None \<Rightarrow> new_IPTable);
     populate_vrf v fs (vs(v \<mapsto> t))
   }"

fun populate_vrfs :: "(u32 \<times> Flow list) list \<Rightarrow> (u32 \<rightharpoonup> u32 IPTable) \<Rightarrow> (u32 \<rightharpoonup> u32 IPTable) option" where
  "populate_vrfs [] vs = Some vs"
| "populate_vrfs ((v, fs) # es) vs = do {
     vs1 \<leftarrow> populate_vrf v fs vs;
     populate_vrfs es vs1
   }"

fun populate_groups :: "(u32 \<times> u8 list \<times> OutputInfo list) list \<Rightarrow> (u32 \<rightharpoonup> GroupInfo) \<Rightarrow> (u32 \<rightharpoonup> GroupInfo) option"
  where
  "populate_groups [] gs = Some gs"
| "populate_groups ((g, bs, os) # es) gs = do {
     a \<leftarrow> mac_of_bytes bs;
     populate_groups es (gs(g \<mapsto> \<lparr>set_src_mac = a, output_options = os\<rparr>))
   }"

definition new_NetworkRoutingTable ::
    "((IPRange \<times> OutputInfo list) list \<Rightarrow> (IPRange \<times> OutputInfo list) list) \<Rightarrow> RoutingConfig \<Rightarrow>
     NetworkRoutingTable option" where
  "new_NetworkRoutingTable iter c = do {
     macs \<leftarrow> populate_macs (src_mac_to_vrf_entries c) [];
     ndv6 \<leftarrow> collect_ndv6 (ip_to_port_index c) [];
     t \<leftarrow> populate (iter ndv6) new_IPTable;
     vs \<leftarrow> populate_vrfs (config_vrfs c) Map.empty;
     gs \<leftarrow> populate_groups (config_groups c) Map.empty;
     Some \<lparr>src_mac_to_vrf_map = macs, vrfs = vs, ndv6_ip_table = t, groups = gs\<rparr>
   }"

definition vrf_route :: "NetworkRoutingTable \<Rightarrow> FabricPacket \<Rightarrow> status + GroupInfo" where
  "vrf_route t p =
     (case (if src_mac_to_vrf_map t = [] then Some kDefaultVrfId else map_of (src_mac_to_vrf_map t) (src_mac p)) of
        None \<Rightarrow> Inl InternalError
      | Some vrf_id \<Rightarrow> (case vrfs t vrf_id of
            None \<Rightarrow> Inl InternalError
          | Some ip_table \<Rightarrow> (case find_longest (dst_ip p) ip_table of
                Inl _ \<Rightarrow> Inl InternalError
              | Inr group_id \<Rightarrow> (case groups t group_id of
                    None \<Rightarrow> Inl InternalError
                  | Some g \<Rightarrow> Inr g))))"

definition GetOutputOptionsAndModifyPacket ::
    "NetworkRoutingTable \<Rightarrow> FabricPacket \<Rightarrow> FabricPacket \<times> (status + OutputInfo list)" where
  "GetOutputOptionsAndModifyPacket t p =
     (case (if ip_empty (ndv6_ip_table t) then Inl OkStatus else find_longest (dst_ip p) (ndv6_ip_table t)) of
        Inr os \<Rightarrow> (SetPacketSourceMac kDefaultNdv6FlowSourceMacAddress p, Inr os)
      | Inl _ \<Rightarrow> (case vrf_route t p of
            Inl e \<Rightarrow> (p, Inl e)
          | Inr g \<Rightarrow> (SetPacketSourceMac (set_src_mac g) p, Inr (output_options g))))"

section \<open>Port selection\<close>

definition RotateLeftBits :: "u32 \<Rightarrow> nat \<Rightarrow> u32" where
  "RotateLeftBits v n = push_bit (n mod 32) v OR drop_bit ((32 - n mod 32) mod 32) v"

definition HashValueRotation :: "u32 \<Rightarrow> int \<Rightarrow> bool \<Rightarrow> u32 option" where
  "HashValueRotation h stage uplink =
     (if stage = 1 then Some h
      else if stage = 2 then Some (if uplink then RotateLeftBits h 4 else RotateLeftBits h 16)
      else if stage = 3 then Some (if uplink then RotateLeftBits h 8 else RotateLeftBits h 12)
      else None)"

fun select_port :: "u32 \<Rightarrow> OutputInfo list \<Rightarrow> u32" where
  "select_port h [] = 0"
| "select_port h (x # xs) = (if h < weight x then port_index x else select_port (h - weight x) xs)"

definition SelectOutputPort :: "hash \<Rightarrow> OutputInfo list \<Rightarrow> FabricPacket \<Rightarrow> int \<Rightarrow> u32 option" where
  "SelectOutputPort crc32c options p stage = do {
     let weight_sum = foldl (\<lambda>s x. s + weight x) 0 options;
     h \<leftarrow> HashValueRotation (GenerateHashValueForPacket crc32c p) stage (src_mac p = kFlowSrcMacVrfUp);
     check (weight_sum \<noteq> 0);
     Some (select_port (h mod weight_sum) options)
   }"

section \<open>The routing pipeline\<close>

definition GetOutputPort ::
    "hash \<Rightarrow> int \<Rightarrow> NetworkRoutingTable \<Rightarrow> FabricPacket \<Rightarrow> (FabricPacket \<times> (status + u32)) option" where
  "GetOutputPort crc32c stage t p =
     (case GetOutputOptionsAndModifyPacket t p of
        (p1, Inl e) \<Rightarrow> Some (p1, Inl e)
      | (p1, Inr options) \<Rightarrow> do {
          static \<leftarrow> GetPacketStaticRoutingPort p1;
          (case static of
             Inr port \<Rightarrow> Some (IncrementPacketStaticRoutingIndex p1, Inr port)
           | Inl _ \<Rightarrow> do {
               port \<leftarrow> SelectOutputPort crc32c options p1 stage;
               Some (p1, Inr port)
             })
        })"

datatype discard = Ttl_limit | No_route

text \<open>The decision of \<open>RoutePacket\<close>: the packet is dropped or goes to an output port.\<close>

definition route_decision ::
    "hash \<Rightarrow> int \<Rightarrow> NetworkRoutingTable \<Rightarrow> FabricPacket \<Rightarrow> (FabricPacket \<times> (discard + u32)) option" where
  "route_decision crc32c stage t p =
     (case DecrementPacketTtl p of (p1, st) \<Rightarrow>
        if st \<noteq> OkStatus then Some (p1, Inl Ttl_limit)
        else do {
          (p2, r) \<leftarrow> GetOutputPort crc32c stage t p1;
          (case r of Inl _ \<Rightarrow> Some (p2, Inl No_route) | Inr port \<Rightarrow> Some (p2, Inr port))
        })"

section \<open>The weighted choice\<close>

definition total_weight :: "OutputInfo list \<Rightarrow> nat" where
  "total_weight os = (\<Sum>x \<leftarrow> os. unat (weight x))"

lemma total_weight_simps [simp]:
  "total_weight [] = 0" "total_weight (x # xs) = unat (weight x) + total_weight xs"
  "total_weight (xs @ ys) = total_weight xs + total_weight ys"
  by (simp_all add: total_weight_def)

lemma select_port_index:
  "k < length os \<Longrightarrow> total_weight (take k os) \<le> unat h \<Longrightarrow> unat h < total_weight (take (Suc k) os) \<Longrightarrow>
     select_port h os = port_index (os ! k)"
proof (induction os arbitrary: k h)
  case (Cons x xs)
  show ?case
  proof (cases k)
    case 0
    then show ?thesis using Cons.prems by (simp add: word_less_nat_alt)
  next
    case (Suc k')
    then have le: "unat (weight x) \<le> unat h" using Cons.prems(2) by simp
    then have "unat (h - weight x) = unat h - unat (weight x)" by (simp add: unat_sub word_le_nat_alt)
    then have "select_port (h - weight x) xs = port_index (xs ! k')"
      using Cons.IH [of k' "h - weight x"] Cons.prems Suc by simp
    then show ?thesis using le Suc by (simp add: word_less_nat_alt)
  qed
qed simp

lemma interval_exists:
  "r < total_weight os \<Longrightarrow> \<exists>k < length os. total_weight (take k os) \<le> r \<and> r < total_weight (take (Suc k) os)"
proof (induction os arbitrary: r)
  case (Cons x xs)
  show ?case
  proof (cases "r < unat (weight x)")
    case True
    then show ?thesis by (intro exI [of _ 0]) simp
  next
    case False
    then have "r - unat (weight x) < total_weight xs" using Cons.prems by auto
    from Cons.IH [OF this] obtain k where "k < length xs" "total_weight (take k xs) \<le> r - unat (weight x)"
      "r - unat (weight x) < total_weight (take (Suc k) xs)"
      by blast
    then show ?thesis using False by (intro exI [of _ "Suc k"]) auto
  qed
qed simp

lemma total_weight_take_mono: "k \<le> l \<Longrightarrow> total_weight (take k os) \<le> total_weight (take l os)"
proof -
  assume "k \<le> l"
  then have "take l os = take k os @ take (l - k) (drop k os)" by (metis le_add_diff_inverse take_add)
  then show ?thesis by simp
qed

lemma foldl_weight:
  "total_weight os < 2 ^ 32 \<Longrightarrow> unat (foldl (\<lambda>s x. s + weight x) 0 os) = total_weight os"
proof (induction os rule: rev_induct)
  case (snoc x xs)
  then have "unat (foldl (\<lambda>s x. s + weight x) 0 xs) = total_weight xs" by simp
  moreover have "total_weight xs + unat (weight x) < 2 ^ LENGTH(32)" using snoc.prems by simp
  ultimately show ?case by (simp add: unat_word_ariths)
qed simp

text \<open>The selection by a discrete distribution function that a comment of the code gives as the original scheme.\<close>

definition discrete_cdf :: "OutputInfo list \<Rightarrow> nat \<Rightarrow> real" where
  "discrete_cdf os k = of_nat (total_weight (take k os)) / of_nat (total_weight os)"

definition cdf_position_of :: "OutputInfo list \<Rightarrow> u32 \<Rightarrow> real" where
  "cdf_position_of os r = of_nat (unat r) / of_nat (total_weight os)"

lemma cdf_position:
  assumes "0 < total_weight os"
  shows "discrete_cdf os k \<le> cdf_position_of os r \<longleftrightarrow> total_weight (take k os) \<le> unat r"
    "cdf_position_of os r < discrete_cdf os k \<longleftrightarrow> unat r < total_weight (take k os)"
proof -
  have "real a / real (total_weight os) \<le> real b / real (total_weight os) \<longleftrightarrow> a \<le> b"
    "real b / real (total_weight os) < real a / real (total_weight os) \<longleftrightarrow> b < a" for a b
    using assms by (simp_all add: divide_le_cancel divide_less_cancel)
  then show "discrete_cdf os k \<le> cdf_position_of os r \<longleftrightarrow> total_weight (take k os) \<le> unat r"
    "cdf_position_of os r < discrete_cdf os k \<longleftrightarrow> unat r < total_weight (take k os)"
    unfolding discrete_cdf_def cdf_position_of_def by blast+
qed

text \<open>
  C29. The port chosen is the one of the original scheme. When the weights do not all vanish and their sum
  fits 32 bits, the interval of the distribution function that contains the position of the rotated hash
  exists, is unique, and its port is the one the subtraction loop returns.
\<close>

theorem select_is_discrete_distribution:
  assumes "0 < total_weight options" "total_weight options < 2 ^ 32"
    and "HashValueRotation (GenerateHashValueForPacket crc32c p) stage (src_mac p = kFlowSrcMacVrfUp) = Some h"
  shows "\<exists>r. r = h mod foldl (\<lambda>s x. s + weight x) 0 options \<and>
    (\<exists>!k. k < length options \<and> discrete_cdf options k \<le> cdf_position_of options r \<and>
      cdf_position_of options r < discrete_cdf options (Suc k)) \<and>
    (\<forall>k < length options. discrete_cdf options k \<le> cdf_position_of options r \<and>
      cdf_position_of options r < discrete_cdf options (Suc k) \<longrightarrow>
      SelectOutputPort crc32c options p stage = Some (port_index (options ! k)))"
proof -
  let ?W = "foldl (\<lambda>s x. s + weight x) 0 options" and ?T = "total_weight"
  let ?r = "h mod ?W"
  have W: "unat ?W = ?T options" using foldl_weight [OF assms(2)] .
  then have W0: "?W \<noteq> 0" using assms(1) by auto
  have r: "unat ?r < ?T options" using W assms(1) by (simp add: unat_mod)
  obtain k where k: "k < length options" "?T (take k options) \<le> unat ?r" "unat ?r < ?T (take (Suc k) options)"
    using interval_exists [OF r] by blast
  have uniq: "l = k" if "?T (take l options) \<le> unat ?r" "unat ?r < ?T (take (Suc l) options)" for l
    using k(2,3) that total_weight_take_mono [of "Suc l" k options] total_weight_take_mono [of "Suc k" l options]
    by (cases l k rule: linorder_cases) auto
  have "SelectOutputPort crc32c options p stage = Some (port_index (options ! l))"
    if "l < length options" "?T (take l options) \<le> unat ?r" "unat ?r < ?T (take (Suc l) options)" for l
    using select_port_index [OF that] assms(3) W0 by (simp add: SelectOutputPort_def Let_def)
  moreover have "\<exists>!k. k < length options \<and> ?T (take k options) \<le> unat ?r \<and> unat ?r < ?T (take (Suc k) options)"
    using k uniq by blast
  ultimately show ?thesis
    unfolding cdf_position [OF assms(1)] by blast
qed

definition example_packet :: FabricPacket where
  "example_packet = \<lparr>bit_length = 8000, src_ip = 1, dst_ip = 2 ^ 127 + 5, ip_protocol = ''udp'', udp_src_port = 1000,
     udp_dst_port = 4791, falcon_flow_label = 0, src_mac = kFlowSrcMacVrfUp, req_src_mac = None, hop_limit = 8,
     port_list = None, current_port_index = 0, ecn = kNonEct, ingress_tag = None\<rparr>"

lemma select_is_discrete_distribution_witness:
  "SelectOutputPort (\<lambda>_. 4) [\<lparr>weight = 2, port_index = 1\<rparr>, \<lparr>weight = 1, port_index = 2\<rparr>,
     \<lparr>weight = 4, port_index = 3\<rparr>, \<lparr>weight = 3, port_index = 4\<rparr>] example_packet 1 = Some 3"
proof -
  let ?os = "[\<lparr>weight = 2, port_index = 1\<rparr>, \<lparr>weight = 1, port_index = 2\<rparr>,
     \<lparr>weight = 4, port_index = 3\<rparr>, \<lparr>weight = 3, port_index = 4\<rparr>]"
  have h: "HashValueRotation (GenerateHashValueForPacket (\<lambda>_. 4) example_packet) 1
    (src_mac example_packet = kFlowSrcMacVrfUp) = Some 4"
    by (simp add: HashValueRotation_def GenerateHashValueForPacket_def)
  from select_is_discrete_distribution [OF _ _ h, of ?os]
  have "\<forall>k < length ?os. discrete_cdf ?os k \<le> cdf_position_of ?os 4 \<and> cdf_position_of ?os 4 < discrete_cdf ?os (Suc k) \<longrightarrow>
      SelectOutputPort (\<lambda>_. 4) ?os example_packet 1 = Some (port_index (?os ! k))" by simp
  from this [rule_format, of 2] show ?thesis by (simp add: discrete_cdf_def cdf_position_of_def)
qed

section \<open>The NDv6 table\<close>

lemma populate_size:
  "populate rs t = Some t' \<Longrightarrow> \<exists>k \<le> length rs. trie_size t' = trie_size t + of_nat k"
proof (induction rs arbitrary: t)
  case Nil
  then show ?case by simp
next
  case (Cons rd rs)
  obtain r d where rd: "rd = (r, d)" by (cases rd)
  obtain st t1 where t1: "ip_insert r d True t = Some (st, t1)" "populate rs t1 = Some t'"
    using Cons.prems by (auto simp: rd split: bind_splits)
  obtain k where k: "k \<le> length rs" "trie_size t' = trie_size t1 + of_nat k" using Cons.IH [OF t1(2)] by blast
  have "trie_size t1 = trie_size t \<or> trie_size t1 = trie_size t + of_nat 1"
    using t1(1) by (auto simp: ip_insert_def split: bind_splits if_splits)
  then show ?case
  proof
    assume "trie_size t1 = trie_size t + of_nat 1"
    then have "trie_size t' = trie_size t + of_nat (Suc k)" using k(2) by simp
    then show ?thesis using k(1) by (intro exI [of _ "Suc k"]) simp
  qed (use k in \<open>auto intro!: exI [of _ k]\<close>)
qed

lemma populate_not_empty:
  assumes "populate (rd # rs) new_IPTable = Some t" "length rs < 2 ^ 32 - 1"
  shows "\<not> ip_empty t"
proof -
  obtain r d where rd: "rd = (r, d)" by (cases rd)
  obtain st t1 where t1: "ip_insert r d True new_IPTable = Some (st, t1)" "populate rs t1 = Some t"
    using assms(1) by (auto simp: rd split: bind_splits)
  have "entry (new_IPTable :: 'a IPTable) (key r) = None" by (rule new_table(2))
  with ip_insert_spec [OF new_table(1), of r d True] t1(1) have "st = OkStatus" by (auto split: if_splits)
  then have "trie_size t1 = 1" using t1(1) by (auto simp: ip_insert_def new_IPTable_def split: bind_splits)
  moreover obtain k where k: "k \<le> length rs" "trie_size t = trie_size t1 + of_nat k"
    using populate_size [OF t1(2)] by blast
  ultimately have t: "trie_size t = of_nat (Suc k)" by simp
  have "Suc k < 2 ^ LENGTH(32)" using k(1) assms(2) by simp
  then have "unat (trie_size t) = Suc k" unfolding t unat_of_nat by (rule mod_less)
  then show ?thesis by (auto simp: ip_empty_def)
qed

text \<open>What the collection of the NDv6 flows holds.\<close>

definition flow_range :: "Flow \<Rightarrow> IPRange option" where
  "flow_range f = IPRangeFromHexIPv6Address (ip_address f) (ip_mask f)"

definition collected :: "Flow list \<Rightarrow> (IPRange \<times> OutputInfo list) list \<Rightarrow> bool" where
  "collected fs m \<longleftrightarrow> distinct (map fst m) \<and> length m \<le> length fs \<and>
     (\<forall>f \<in> set fs. \<exists>r os. flow_range f = Some r \<and> (r, os) \<in> set m) \<and>
     (\<forall>(r, os) \<in> set m. os \<noteq> [] \<and> length os \<le> length fs \<and> (\<forall>out \<in> set os. weight out = 1 \<and>
        (\<exists>f \<in> set fs. flow_range f = Some r \<and> flow_id f = port_index out)))"

lemma collected_step:
  assumes "collected fs m" "flow_range f = Some r"
  shows "collected (fs @ [f]) (AList.update r ((case map_of m r of Some os \<Rightarrow> os | None \<Rightarrow> []) @
    [\<lparr>weight = kDefaultWeightForNdv6OutputPort, port_index = flow_id f\<rparr>]) m)"
proof -
  define old where "old = (case map_of m r of Some os \<Rightarrow> os | None \<Rightarrow> [])"
  define out where "out = \<lparr>weight = kDefaultWeightForNdv6OutputPort, port_index = flow_id f\<rparr>"
  let ?m = "AList.update r (old @ [out]) m"
  have d: "distinct (map fst m)" using assms(1) by (simp add: collected_def)
  have dm: "distinct (map fst ?m)" using d by (simp add: distinct_update)
  have mem: "(r', os) \<in> set ?m \<longleftrightarrow> (if r' = r then os = old @ [out] else (r', os) \<in> set m)" for r' os
    using map_of_eq_Some_iff [OF dm, of r' os] map_of_eq_Some_iff [OF d, of r' os] by (auto simp: update_conv')
  have old: "length old \<le> length fs \<and> (\<forall>x \<in> set old. weight x = 1 \<and>
      (\<exists>f \<in> set fs. flow_range f = Some r \<and> flow_id f = port_index x))"
  proof (cases "map_of m r")
    case (Some os)
    then have "(r, os) \<in> set m" by (rule map_of_SomeD)
    then show ?thesis using assms(1) Some by (auto simp: collected_def old_def)
  qed (simp add: old_def)
  have len: "length ?m \<le> Suc (length m)" by (induction m) auto
  show ?thesis
    unfolding old_def [symmetric] out_def [symmetric] collected_def
  proof (intro conjI)
    show "distinct (map fst ?m)" by (rule dm)
    show "length ?m \<le> length (fs @ [f])" using len assms(1) by (simp add: collected_def)
    show "\<forall>g \<in> set (fs @ [f]). \<exists>r os. flow_range g = Some r \<and> (r, os) \<in> set ?m"
    proof
      fix g assume g: "g \<in> set (fs @ [f])"
      obtain s os where s: "flow_range g = Some s" "s = r \<or> (s, os) \<in> set m"
      proof (cases "g = f")
        case False
        then have "\<exists>r os. flow_range g = Some r \<and> (r, os) \<in> set m" using g assms(1) by (simp add: collected_def)
        then show thesis using that by blast
      qed (use that assms(2) in blast)
      then have "s = r \<and> (s, old @ [out]) \<in> set ?m \<or> (s, os) \<in> set ?m" using mem by auto
      then show "\<exists>r os. flow_range g = Some r \<and> (r, os) \<in> set ?m" using s(1) by blast
    qed
    show "\<forall>(r', os) \<in> set ?m. os \<noteq> [] \<and> length os \<le> length (fs @ [f]) \<and> (\<forall>out \<in> set os. weight out = 1 \<and>
        (\<exists>g \<in> set (fs @ [f]). flow_range g = Some r' \<and> flow_id g = port_index out))"
    proof (intro ballI, clarify)
      fix r' os assume "(r', os) \<in> set ?m"
      then show "os \<noteq> [] \<and> length os \<le> length (fs @ [f]) \<and> (\<forall>out \<in> set os. weight out = 1 \<and>
        (\<exists>g \<in> set (fs @ [f]). flow_range g = Some r' \<and> flow_id g = port_index out))"
        using old assms unfolding mem
        by (cases "r' = r") (auto simp: collected_def out_def kDefaultWeightForNdv6OutputPort_def)
    qed
  qed
qed

lemma collect_ndv6_collected:
  "collected fs0 m \<Longrightarrow> collect_ndv6 fs m = Some m' \<Longrightarrow> collected (fs0 @ fs) m'"
proof (induction fs arbitrary: fs0 m)
  case (Cons f fs)
  obtain r where r: "IPRangeFromHexIPv6Address (ip_address f) (ip_mask f) = Some r"
    using Cons.prems(2) by (auto split: bind_splits)
  then have "flow_range f = Some r" by (simp add: flow_range_def)
  from Cons.IH [OF collected_step [OF Cons.prems(1) this]] show ?case
    using Cons.prems(2) r by simp
qed simp

text \<open>
  A destination of the NDv6 flows is routed by the longest of them. If some NDv6 flow of the
  configuration contains the destination of a packet without a static route, the table built from the
  configuration sends the packet to the port of a flow that contains the destination with the longest
  mask, in whatever order the hash map was iterated, and marks it with the NDv6 source address.
\<close>

theorem ndv6_flow_routes:
  assumes "new_NetworkRoutingTable iter c = Some t" "\<And>m. mset (iter m) = mset m"
    and "length (ip_to_port_index c) < 2 ^ 32" "stage \<in> {1, 2, 3}" "port_list p = None"
    and "f \<in> set (ip_to_port_index c)" "flow_range f = Some r" "covers r (dst_ip p)"
  shows "\<exists>g s. g \<in> set (ip_to_port_index c) \<and> flow_range g = Some s \<and> covers s (dst_ip p) \<and>
    (\<forall>g' \<in> set (ip_to_port_index c). \<forall>s'. flow_range g' = Some s' \<and> covers s' (dst_ip p) \<longrightarrow>
       mask_length s' \<le> mask_length s) \<and>
    GetOutputPort crc32c stage t p = Some (SetPacketSourceMac kDefaultNdv6FlowSourceMacAddress p, Inr (flow_id g))"
proof -
  let ?fs = "ip_to_port_index c" and ?a = "dst_ip p"
  obtain m tb where m: "collect_ndv6 ?fs [] = Some m" "populate (iter m) new_IPTable = Some tb" "ndv6_ip_table t = tb"
    using assms(1) by (auto simp: new_NetworkRoutingTable_def split: bind_splits)
  have col: "collected ?fs m"
    using collect_ndv6_collected [of "[]" "[]" ?fs m] m(1) by (simp add: collected_def)
  have si: "set (iter m) = set m" "length (iter m) = length m"
    using assms(2) [of m] by (metis set_mset_mset, metis size_mset)
  obtain os where os: "(r, os) \<in> set m" using col assms(6,7) by (fastforce simp: collected_def)
  then obtain x xs where xs: "iter m = x # xs" using si(1) by (cases "iter m") auto
  have "length xs < 2 ^ 32 - 1" using si(2) xs col assms(3) by (simp add: collected_def)
  then have ne: "\<not> ip_empty tb" using populate_not_empty [of x xs tb] m(2) xs by simp
  obtain os' where os': "find_longest ?a tb = Inr os'" "\<exists>s. (s, os') \<in> set m \<and> covers s ?a \<and>
      (\<forall>(s', os'') \<in> set m. covers s' ?a \<longrightarrow> mask_length s' \<le> mask_length s)"
  proof (cases "find_longest ?a tb")
    case (Inl e)
    then show thesis
      using find_longest_longest [of "iter m" ?a] m(2) os assms(8) si(1) by auto
  next
    case (Inr os')
    then show thesis
      using that find_longest_longest [of "iter m" ?a] m(2) si(1) by auto
  qed
  then obtain s where s: "(s, os') \<in> set m" "covers s ?a"
    "\<forall>(s', os'') \<in> set m. covers s' ?a \<longrightarrow> mask_length s' \<le> mask_length s" by blast
  have outs: "os' \<noteq> []" "length os' \<le> length ?fs" "\<forall>x \<in> set os'. weight x = 1 \<and>
      (\<exists>f \<in> set ?fs. flow_range f = Some s \<and> flow_id f = port_index x)"
    using s(1) col by (auto simp: collected_def)
  have tw: "total_weight os' = length os'"
    using outs(3) unfolding total_weight_def by (induction os') auto
  let ?p = "SetPacketSourceMac kDefaultNdv6FlowSourceMacAddress p"
  obtain h where h: "HashValueRotation (GenerateHashValueForPacket crc32c ?p) stage (src_mac ?p = kFlowSrcMacVrfUp) = Some h"
    using assms(4) by (auto simp: HashValueRotation_def)
  let ?W = "foldl (\<lambda>s x. s + weight x) 0 os'"
  have W: "unat ?W = length os'" using foldl_weight [of os'] tw outs(2) assms(3) by simp
  then have "unat (h mod ?W) < total_weight os'" using outs(1) tw by (simp add: unat_mod)
  from interval_exists [OF this] obtain k where k: "k < length os'"
    "total_weight (take k os') \<le> unat (h mod ?W)" "unat (h mod ?W) < total_weight (take (Suc k) os')" by blast
  have W0: "?W \<noteq> 0" using W outs(1) by auto
  have sel: "SelectOutputPort crc32c os' ?p stage = Some (port_index (os' ! k))"
    using h W0 select_port_index [OF k] by (simp add: SelectOutputPort_def Let_def)
  obtain g where g: "g \<in> set ?fs" "flow_range g = Some s" "flow_id g = port_index (os' ! k)"
    using outs(3) k(1) by (meson nth_mem)
  have "GetOutputOptionsAndModifyPacket t p = (?p, Inr os')"
    using ne os'(1) m(3) by (simp add: GetOutputOptionsAndModifyPacket_def)
  moreover have "\<exists>e. GetPacketStaticRoutingPort ?p = Some (Inl e)"
    using assms(5) by (simp add: GetPacketStaticRoutingPort_def SetPacketSourceMac_def)
  ultimately have "GetOutputPort crc32c stage t p = Some (?p, Inr (flow_id g))"
    using sel g(3) by (auto simp: GetOutputPort_def)
  moreover have "mask_length s' \<le> mask_length s"
    if "g' \<in> set ?fs" "flow_range g' = Some s'" "covers s' ?a" for g' s'
    using that s(3) col by (fastforce simp: collected_def)
  ultimately show ?thesis using g(1,2) s(2) by blast
qed

definition example_flow :: Flow where
  "example_flow = \<lparr>ip_address = 0x80 # replicate 15 0, ip_mask = 0x80 # replicate 15 0, flow_id = 3\<rparr>"

definition example_config :: RoutingConfig where
  "example_config = \<lparr>src_mac_to_vrf_entries = [], config_vrfs = [], config_groups = [],
     ip_to_port_index = [example_flow]\<rparr>"

lemma ndv6_flow_routes_witness:
  "\<exists>t. new_NetworkRoutingTable id example_config = Some t \<and>
     GetOutputPort (\<lambda>_. 7) 1 t example_packet =
       Some (SetPacketSourceMac kDefaultNdv6FlowSourceMacAddress example_packet, Inr 3)"
proof -
  let ?r = "\<lparr>address = 0x80000000000000000000000000000000, mask = 0x80000000000000000000000000000000\<rparr>"
  have "\<not> Option.is_none (new_NetworkRoutingTable id example_config)" by code_simp
  then obtain t where t: "new_NetworkRoutingTable id example_config = Some t" by (auto simp: Option.is_none_def)
  have r: "flow_range example_flow = Some ?r" by code_simp
  have "bit (2 ^ 127 + 5 :: u128) 127" by (simp add: bit_iff_odd)
  moreover have "\<not> bit (0x80000000000000000000000000000000 :: u128) 126" "bit (0x80000000000000000000000000000000 :: u128) 127"
    by (simp_all add: bit_iff_odd)
  ultimately have c: "covers ?r (dst_ip example_packet)"
    by (auto simp: covers_def example_packet_def not_less_eq_eq dest: spec [of _ 1])
  have "\<exists>g s. g \<in> set (ip_to_port_index example_config) \<and> flow_range g = Some s \<and> covers s (dst_ip example_packet) \<and>
    (\<forall>g' \<in> set (ip_to_port_index example_config). \<forall>s'. flow_range g' = Some s' \<and> covers s' (dst_ip example_packet) \<longrightarrow>
       mask_length s' \<le> mask_length s) \<and>
    GetOutputPort (\<lambda>_. 7) 1 t example_packet =
      Some (SetPacketSourceMac kDefaultNdv6FlowSourceMacAddress example_packet, Inr (flow_id g))"
    by (rule ndv6_flow_routes [OF t _ _ _ _ _ r c]) (simp_all add: example_config_def example_packet_def)
  then show ?thesis using t by (auto simp: example_config_def example_flow_def)
qed

text \<open>A group whose weights are all 0 divides by zero.\<close>

lemma zero_weights_abort:
  "\<forall>x \<in> set options. weight x = 0 \<Longrightarrow> SelectOutputPort crc32c options p stage = None"
proof -
  assume "\<forall>x \<in> set options. weight x = 0"
  then have "foldl (\<lambda>s x. s + weight x) 0 options = 0" by (induction options rule: rev_induct) auto
  then show ?thesis by (cases "HashValueRotation (GenerateHashValueForPacket crc32c p) stage (src_mac p = kFlowSrcMacVrfUp)")
    (simp_all add: SelectOutputPort_def Let_def)
qed

end
