(* ===== verification/Mmu.thy ===== *)
theory Mmu
  imports Routing
begin

text \<open>
  The memory management unit of a router (\<open>fabric/memory_management_unit.{h,cc}\<close>): its configuration, the
  early detection (\<open>fabric/weighted_random_early_detection.{h,cc}\<close>), the counters of ingress and egress
  memory and the priority flow control.

  The state is one record for the router: the unit, its ports and their pending self-messages call each
  other. A vector of vectors indexed by port and queue is a function of the pair; the operations are called
  with the indices of existing queues. Times are integers; a pending self-message is the time it is due,
  and scheduling one that is pending, or one for the past, is the error OMNeT++ raises for it (\<open>None\<close>).
  Double-precision arithmetic is the record \<open>fops\<close>, and what the channel of a port decides (transmission
  times, conversion of pause units) is in \<open>router_env\<close>. Statistics are left out: nothing reads them back.
\<close>

section \<open>Configuration\<close>

record wred_config =
  wred_weight :: real
  min_avg_queue_size :: int
  max_avg_queue_size :: int
  max_mark_prob :: real
  wred_rate :: real

datatype EcnMarkingStage = kEnqueueMark | kDequeueMark

record CosProfile =
  cos_profile_name :: string
  ingress_alpha :: real
  egress_alpha :: real
  ecn_marking_stage :: "EcnMarkingStage option"
  cos_wred_config :: "wred_config option"
  pfc_headroom :: "int option"
  ingress_minimal_guarantee :: "int option"

datatype queue_config = Cos_profile_name string | Cos_config CosProfile | Queue_config_not_set

record QosProfile =
  qos_profile_name :: string
  qos_egress_alpha :: real
  queue_configs :: "(nat \<times> queue_config) list"

datatype port_config = Qos_profile_name string | Qos_config QosProfile | Port_config_not_set

record BufferCarving =
  cos_configs :: "CosProfile list"
  qos_configs :: "QosProfile list"
  ingress_service_pool_size :: u64
  egress_service_pool_size :: u64
  port_configs :: "(nat \<times> port_config) list"

record pfc_config =
  cfg_pfc_xon :: bool
  cfg_rx_pfc_delay :: int
  cfg_pause_duration :: int

record MemoryManagementUnitConfig =
  pfc :: "pfc_config option"
  buffer_carving :: "BufferCarving option"

fun GetQosProfile :: "string \<Rightarrow> QosProfile list \<Rightarrow> QosProfile option" where
  "GetQosProfile n [] = None"
| "GetQosProfile n (p # ps) = (if qos_profile_name p = n then Some p else GetQosProfile n ps)"

fun GetCosProfile :: "string \<Rightarrow> CosProfile list \<Rightarrow> CosProfile option" where
  "GetCosProfile n [] = None"
| "GetCosProfile n (p # ps) = (if cos_profile_name p = n then Some p else GetCosProfile n ps)"

fun port_config_in :: "nat \<Rightarrow> BufferCarving \<Rightarrow> (nat \<times> port_config) list \<Rightarrow> QosProfile option" where
  "port_config_in i b [] = None"
| "port_config_in i b ((j, c) # cs) =
     (if j = i then (case c of
          Qos_config q \<Rightarrow> Some q
        | Qos_profile_name n \<Rightarrow> GetQosProfile n (qos_configs b)
        | Port_config_not_set \<Rightarrow> None)
      else port_config_in i b cs)"

definition GetPortConfig :: "nat \<Rightarrow> BufferCarving \<Rightarrow> QosProfile option" where
  "GetPortConfig i b = port_config_in i b (port_configs b)"

fun queue_config_in :: "nat \<Rightarrow> BufferCarving \<Rightarrow> (nat \<times> queue_config) list \<Rightarrow> CosProfile option" where
  "queue_config_in i b [] = None"
| "queue_config_in i b ((j, c) # cs) =
     (if j = i then (case c of
          Cos_config q \<Rightarrow> Some q
        | Cos_profile_name n \<Rightarrow> GetCosProfile n (cos_configs b)
        | Queue_config_not_set \<Rightarrow> None)
      else queue_config_in i b cs)"

definition GetQueueConfig :: "nat \<Rightarrow> QosProfile \<Rightarrow> BufferCarving \<Rightarrow> CosProfile option" where
  "GetQueueConfig i q b = queue_config_in i b (queue_configs q)"

section \<open>Early detection\<close>

record fops =
  fl_of :: "u64 \<Rightarrow> real"
  fl_add :: "real \<Rightarrow> real \<Rightarrow> real"
  fl_sub :: "real \<Rightarrow> real \<Rightarrow> real"
  fl_mul :: "real \<Rightarrow> real \<Rightarrow> real"
  fl_div :: "real \<Rightarrow> real \<Rightarrow> real"
  fl_pow :: "real \<Rightarrow> real \<Rightarrow> real"
  fl_seconds :: "int \<Rightarrow> real"

text \<open>\<open>uniform\<close> is the sequence of the draws of the random number generator, \<open>draws\<close> how many were taken.\<close>

record Wred =
  avg_queue_size :: real
  wred_count :: real
  queue_idle_time :: int
  wred_cfg :: wred_config
  uniform :: "nat \<Rightarrow> real"
  draws :: nat

definition new_Wred :: "wred_config \<Rightarrow> (nat \<Rightarrow> real) \<Rightarrow> Wred" where
  "new_Wred c u = \<lparr>avg_queue_size = 0, wred_count = - 1, queue_idle_time = 0, wred_cfg = c, uniform = u, draws = 0\<rparr>"

definition PerformWred :: "fops \<Rightarrow> int \<Rightarrow> u64 \<Rightarrow> Wred \<Rightarrow> Wred \<times> bool" where
  "PerformWred f now egress_occupancy w =
     (let c = wred_cfg w;
          keep = fl_sub f 1 (wred_weight c);
          avg = (if egress_occupancy > 0
                 then fl_add f (fl_mul f keep (avg_queue_size w)) (fl_mul f (wred_weight c) (fl_of f egress_occupancy))
                 else fl_mul f (fl_pow f keep (fl_mul f (fl_seconds f (now - queue_idle_time w)) (wred_rate c)))
                        (avg_queue_size w));
          lo = fl_of f (ucast (word_of_int (min_avg_queue_size c) :: u32));
          hi = fl_of f (ucast (word_of_int (max_avg_queue_size c) :: u32));
          w1 = w\<lparr>avg_queue_size := avg\<rparr>
      in if avg \<ge> lo \<and> avg \<le> hi then
           let n = fl_add f (wred_count w1) 1;
               pb = fl_div f (fl_mul f (max_mark_prob c) (fl_sub f avg lo)) (fl_sub f hi avg);
               pa = fl_div f pb (fl_sub f 1 (fl_mul f n pb));
               w2 = w1\<lparr>draws := Suc (draws w1)\<rparr>
           in if uniform w (draws w) < pa then (w2\<lparr>wred_count := 0\<rparr>, True) else (w2\<lparr>wred_count := n\<rparr>, False)
         else if avg > hi then (w1\<lparr>wred_count := 0\<rparr>, True)
         else (w1\<lparr>wred_count := - 1\<rparr>, False))"

section \<open>The state of a router\<close>

datatype PortState = P_kIdle | P_kActive

record PfcFrame =
  class_enable :: u16
  time_class :: "int list"

datatype Frame = Pfc PfcFrame | Data FabricPacket

type_synonym qid = "nat \<times> nat"

record Router =
  ports_num :: nat
  queues_num :: nat
  support_pfc :: bool
  pfc_xon :: bool
  rx_pfc_delay :: int
  pfc_pause_duration :: int
  pfc_sending_triggered :: "qid \<Rightarrow> bool"
  send_pause_at :: "qid \<Rightarrow> int option"
  set_paused_at :: "qid \<Rightarrow> (int \<times> int) option"
  refresh_at :: "qid \<Rightarrow> int option"
  unpause_time :: "qid \<Rightarrow> int"
  policies :: "qid \<Rightarrow> Wred option"
  ecn_stage :: "qid \<Rightarrow> EcnMarkingStage"
  ingress_pool_free_cells :: u64
  egress_pool_free_cells :: u64
  port_egress_occupancy :: "nat \<Rightarrow> u64"
  port_egress_alpha :: "nat \<Rightarrow> real"
  queue_egress_occupancy :: "qid \<Rightarrow> u64"
  queue_egress_alpha :: "qid \<Rightarrow> real"
  queue_ingress_occupancy :: "qid \<Rightarrow> u64"
  queue_ingress_alpha :: "qid \<Rightarrow> real"
  guarantee :: "qid \<Rightarrow> u64"
  guarantee_occupancy :: "qid \<Rightarrow> u64"
  headroom :: "qid \<Rightarrow> u64"
  headroom_occupancy :: "qid \<Rightarrow> u64"
  packet_queues :: "qid \<Rightarrow> FabricPacket list"
  pfc_queue :: "nat \<Rightarrow> PfcFrame list"
  port_state :: "nat \<Rightarrow> PortState"
  output_at :: "nat \<Rightarrow> int option"
  tx_finish :: "nat \<Rightarrow> int"
  pipeline :: "(int \<times> FabricPacket) list"
  discarded :: "FabricPacket list"
  sent :: "(nat \<times> Frame) list"

record router_env =
  fp :: fops
  max_frame_transmission_time :: "nat \<Rightarrow> int"
  ConvertToPauseDuration :: "nat \<Rightarrow> int \<Rightarrow> int"
  ConvertToPauseQuanta :: "nat \<Rightarrow> int \<Rightarrow> int"
  transmission_time :: "nat \<Rightarrow> Frame \<Rightarrow> int"
  ifg_delay :: "nat \<Rightarrow> int"
  connected :: "nat \<Rightarrow> bool"
  mtu_size :: nat
  router_delay :: int
  crc :: hash
  router_stage :: int
  routing_table :: NetworkRoutingTable

section \<open>Construction\<close>

definition empty_Router :: "nat \<Rightarrow> nat \<Rightarrow> Router" where
  "empty_Router ports queues =
     \<lparr>ports_num = ports, queues_num = queues, support_pfc = False, pfc_xon = False, rx_pfc_delay = 0,
      pfc_pause_duration = 0, pfc_sending_triggered = (\<lambda>_. False), send_pause_at = (\<lambda>_. None),
      set_paused_at = (\<lambda>_. None), refresh_at = (\<lambda>_. None), unpause_time = (\<lambda>_. 0), policies = (\<lambda>_. None),
      ecn_stage = (\<lambda>_. kDequeueMark), ingress_pool_free_cells = 0, egress_pool_free_cells = 0,
      port_egress_occupancy = (\<lambda>_. 0), port_egress_alpha = (\<lambda>_. 0), queue_egress_occupancy = (\<lambda>_. 0),
      queue_egress_alpha = (\<lambda>_. 0), queue_ingress_occupancy = (\<lambda>_. 0), queue_ingress_alpha = (\<lambda>_. 0),
      guarantee = (\<lambda>_. 0), guarantee_occupancy = (\<lambda>_. 0), headroom = (\<lambda>_. 0), headroom_occupancy = (\<lambda>_. 0),
      packet_queues = (\<lambda>_. []), pfc_queue = (\<lambda>_. []), port_state = (\<lambda>_. P_kIdle), output_at = (\<lambda>_. None),
      tx_finish = (\<lambda>_. 0), pipeline = [], discarded = [], sent = []\<rparr>"

definition InitializeCosConfig :: "(qid \<Rightarrow> nat \<Rightarrow> real) \<Rightarrow> qid \<Rightarrow> CosProfile \<Rightarrow> Router \<Rightarrow> Router option" where
  "InitializeCosConfig rng k c s = do {
     let s1 = s\<lparr>queue_egress_alpha := (queue_egress_alpha s)(k := egress_alpha c)\<rparr>;
     let s2 = (if support_pfc s1 then s1\<lparr>queue_ingress_alpha := (queue_ingress_alpha s1)(k := ingress_alpha c)\<rparr> else s1);
     let s3 = s2\<lparr>policies := (policies s2)(k := map_option (\<lambda>w. new_Wred w (rng k)) (cos_wred_config c))\<rparr>;
     let s4 = (case ecn_marking_stage c of Some e \<Rightarrow> s3\<lparr>ecn_stage := (ecn_stage s3)(k := e)\<rparr> | None \<Rightarrow> s3);
     let s5 = (case ingress_minimal_guarantee c of
          Some g \<Rightarrow> s4\<lparr>guarantee := (guarantee s4)(k := word_of_int g)\<rparr> | None \<Rightarrow> s4);
     (if support_pfc s5 then do {
        h \<leftarrow> pfc_headroom c;
        Some (s5\<lparr>headroom := (headroom s5)(k := word_of_int h)\<rparr>)
      } else Some s5)
   }"

fun init_queues :: "(qid \<Rightarrow> nat \<Rightarrow> real) \<Rightarrow> BufferCarving \<Rightarrow> QosProfile \<Rightarrow> nat \<Rightarrow> nat list \<Rightarrow> Router \<Rightarrow> Router option" where
  "init_queues rng b q p [] s = Some s"
| "init_queues rng b q p (i # is) s = do {
     c \<leftarrow> GetQueueConfig i q b;
     s1 \<leftarrow> InitializeCosConfig rng (p, i) c s;
     init_queues rng b q p is s1
   }"

fun init_ports :: "(qid \<Rightarrow> nat \<Rightarrow> real) \<Rightarrow> (nat \<Rightarrow> bool) \<Rightarrow> BufferCarving \<Rightarrow> nat list \<Rightarrow> Router \<Rightarrow> Router option" where
  "init_ports rng conn b [] s = Some s"
| "init_ports rng conn b (p # ps) s = do {
     q \<leftarrow> GetPortConfig p b;
     let s1 = s\<lparr>port_egress_alpha := (port_egress_alpha s)(p := qos_egress_alpha q)\<rparr>;
     (if \<not> conn p then init_ports rng conn b ps s1
      else do {
        check (queues_num s1 \<le> length (queue_configs q));
        s2 \<leftarrow> init_queues rng b q p [0..<queues_num s1] s1;
        init_ports rng conn b ps s2
      })
   }"

definition kMaxPoolSize :: u64 where "kMaxPoolSize = - 1"

definition new_Router ::
    "(qid \<Rightarrow> nat \<Rightarrow> real) \<Rightarrow> (nat \<Rightarrow> bool) \<Rightarrow> nat \<Rightarrow> nat \<Rightarrow> MemoryManagementUnitConfig \<Rightarrow> Router option" where
  "new_Router rng conn ports queues c = do {
     let s = empty_Router ports queues;
     let s1 = (case pfc c of
         Some p \<Rightarrow> s\<lparr>support_pfc := True, pfc_xon := cfg_pfc_xon p, rx_pfc_delay := cfg_rx_pfc_delay p,
                     pfc_pause_duration := cfg_pause_duration p\<rparr>
       | None \<Rightarrow> s\<lparr>support_pfc := False\<rparr>);
     b \<leftarrow> buffer_carving c;
     let s2 = s1\<lparr>ingress_pool_free_cells := (if support_pfc s1 then ingress_service_pool_size b else kMaxPoolSize),
                 egress_pool_free_cells := egress_service_pool_size b\<rparr>;
     check (ports \<le> length (port_configs b));
     init_ports rng conn b [0..<ports] s2
   }"

section \<open>Self-messages and control frames\<close>

definition kEnqueueDelay :: int where "kEnqueueDelay = 10"

definition kClassesOfService :: nat where "kClassesOfService = 8"

text \<open>\<open>NetworkRouter::ScheduleOutput\<close>.\<close>

definition router_ScheduleOutput :: "int \<Rightarrow> nat \<Rightarrow> int \<Rightarrow> Router \<Rightarrow> Router option" where
  "router_ScheduleOutput now p delay s = do {
     check (output_at s p = None);
     check (0 \<le> delay);
     Some (s\<lparr>output_at := (output_at s)(p \<mapsto> now + delay)\<rparr>)
   }"

definition CreatePfcPacket :: "nat \<Rightarrow> int \<Rightarrow> PfcFrame option" where
  "CreatePfcPacket prio units = do {
     check (prio < kClassesOfService);
     Some \<lparr>class_enable = push_bit prio 1, time_class = (replicate kClassesOfService 0)[prio := units]\<rparr>
   }"

definition PfcFrameUpdate :: "nat \<Rightarrow> int \<Rightarrow> PfcFrame \<Rightarrow> PfcFrame" where
  "PfcFrameUpdate prio units f =
     \<lparr>class_enable = class_enable f OR push_bit prio 1, time_class = (time_class f)[prio := units]\<rparr>"

definition GeneratePfc :: "int \<Rightarrow> nat \<Rightarrow> nat \<Rightarrow> int \<Rightarrow> Router \<Rightarrow> Router option" where
  "GeneratePfc now p prio units s = do {
     s1 \<leftarrow> (case pfc_queue s p of
         [] \<Rightarrow> do {
           f \<leftarrow> CreatePfcPacket prio units;
           Some (s\<lparr>pfc_queue := (pfc_queue s)(p := [f])\<rparr>)
         }
       | f # fs \<Rightarrow> do {
           check (length (f # fs) = 1);
           Some (s\<lparr>pfc_queue := (pfc_queue s)(p := PfcFrameUpdate prio units f # fs)\<rparr>)
         });
     (if port_state s1 p = P_kIdle
      then router_ScheduleOutput now p kEnqueueDelay (s1\<lparr>port_state := (port_state s1)(p := P_kActive)\<rparr>)
      else Some s1)
   }"

section \<open>Sending pause frames\<close>

definition SendPfc :: "router_env \<Rightarrow> int \<Rightarrow> nat \<Rightarrow> nat \<Rightarrow> Router \<Rightarrow> Router option" where
  "SendPfc env now p q s =
     (if \<not> pfc_sending_triggered s (p, q) then Some s
      else do {
        let due = now + (pfc_pause_duration s - max_frame_transmission_time env p);
        let due' = (if tx_finish s p > now then due + (tx_finish s p - now) else due);
        s1 \<leftarrow> GeneratePfc now p q (ConvertToPauseQuanta env p (pfc_pause_duration s)) s;
        check (now \<le> due');
        Some (s1\<lparr>send_pause_at := (send_pause_at s1)((p, q) \<mapsto> due')\<rparr>)
      })"

definition EnablePfcSending :: "router_env \<Rightarrow> int \<Rightarrow> nat \<Rightarrow> nat \<Rightarrow> Router \<Rightarrow> Router option" where
  "EnablePfcSending env now p q s =
     SendPfc env now p q (s\<lparr>pfc_sending_triggered := (pfc_sending_triggered s)((p, q) := True)\<rparr>)"

definition DisablePfcSending :: "int \<Rightarrow> nat \<Rightarrow> nat \<Rightarrow> Router \<Rightarrow> Router option" where
  "DisablePfcSending now p q s =
     (let s1 = s\<lparr>pfc_sending_triggered := (pfc_sending_triggered s)((p, q) := False)\<rparr>
      in if pfc_xon s1 then GeneratePfc now p q 0 s1 else Some s1)"

section \<open>Ingress\<close>

record IngressMemoryOccupancy =
  drop_it :: bool
  minimal_guarantee_occupancy :: u64
  shared_pool_occupancy :: u64
  headroom_part :: u64

text \<open>The limits are computed in double precision.\<close>

definition pfc_trigger_limit :: "router_env \<Rightarrow> qid \<Rightarrow> Router \<Rightarrow> real" where
  "pfc_trigger_limit env k s =
     fl_add (fp env) (fl_mul (fp env) (fl_of (fp env) (ingress_pool_free_cells s)) (queue_ingress_alpha s k))
       (fl_of (fp env) (guarantee s k))"

text \<open>The placement of a packet while no pause is sent: in the guaranteed part, the shared pool, or both.\<close>

definition place_ingress :: "qid \<Rightarrow> u64 \<Rightarrow> Router \<Rightarrow> (Router \<times> IngressMemoryOccupancy) option" where
  "place_ingress k cells s =
     (let none = \<lparr>drop_it = True, minimal_guarantee_occupancy = 0, shared_pool_occupancy = 0, headroom_part = 0\<rparr> in
      if queue_ingress_occupancy s k \<ge> guarantee s k then do {
        check (\<not> ingress_pool_free_cells s < cells);
        Some (s\<lparr>ingress_pool_free_cells := ingress_pool_free_cells s - cells\<rparr>, none\<lparr>shared_pool_occupancy := cells\<rparr>)
      }
      else if guarantee_occupancy s k + cells \<le> guarantee s k then
        Some (s\<lparr>guarantee_occupancy := (guarantee_occupancy s)(k := guarantee_occupancy s k + cells)\<rparr>,
              none\<lparr>minimal_guarantee_occupancy := cells\<rparr>)
      else do {
        let pool = guarantee_occupancy s k + cells - guarantee s k;
        let s1 = s\<lparr>guarantee_occupancy := (guarantee_occupancy s)(k := guarantee s k)\<rparr>;
        let m = none\<lparr>shared_pool_occupancy := pool,
                     minimal_guarantee_occupancy := guarantee s1 k - guarantee_occupancy s1 k\<rparr>;
        check (ingress_pool_free_cells s1 \<ge> pool);
        Some (s1\<lparr>ingress_pool_free_cells := ingress_pool_free_cells s1 - pool\<rparr>, m)
      })"

definition ReceivedData ::
    "router_env \<Rightarrow> int \<Rightarrow> nat \<Rightarrow> u64 \<Rightarrow> nat \<Rightarrow> Router \<Rightarrow> (Router \<times> IngressMemoryOccupancy) option" where
  "ReceivedData env now p cells q s =
     (let k = (p, q);
          none = \<lparr>drop_it = True, minimal_guarantee_occupancy = 0, shared_pool_occupancy = 0, headroom_part = 0\<rparr> in
      if \<not> support_pfc s then Some (s, none\<lparr>drop_it := False\<rparr>)
      else do {
        s1 \<leftarrow> (if \<not> pfc_sending_triggered s k \<and>
                (fl_of (fp env) (queue_ingress_occupancy s k) \<ge> pfc_trigger_limit env k s \<or>
                 ingress_pool_free_cells s < cells)
              then EnablePfcSending env now p q s else Some s);
        r \<leftarrow> (if \<not> pfc_sending_triggered s1 k then map_option Some (place_ingress k cells s1)
             else if headroom s1 k < headroom_occupancy s1 k + cells then Some None
             else Some (Some (s1\<lparr>headroom_occupancy := (headroom_occupancy s1)(k := headroom_occupancy s1 k + cells)\<rparr>,
                           none\<lparr>headroom_part := cells\<rparr>)));
        (case r of
           None \<Rightarrow> Some (s1, none)
         | Some (s2, m) \<Rightarrow>
             Some (s2\<lparr>queue_ingress_occupancy := (queue_ingress_occupancy s2)(k := queue_ingress_occupancy s2 k + cells)\<rparr>,
                   m\<lparr>drop_it := False\<rparr>))
      })"

definition GetPacketOccupancy :: "FabricPacket \<Rightarrow> u64" where
  "GetPacketOccupancy p = of_nat ((bit_length p + 2047) div 2048)"

definition IngressAccountingRelease :: "FabricPacket \<Rightarrow> Router \<Rightarrow> (FabricPacket \<times> Router) option" where
  "IngressAccountingRelease pkt s = do {
     t \<leftarrow> ingress_tag pkt;
     let k = (tag_port t, tag_priority t);
     let occ = GetPacketOccupancy pkt;
     check (occ = tag_minimal_guarantee t + tag_shared_pool t + tag_headroom t);
     check (guarantee_occupancy s k \<ge> tag_minimal_guarantee t);
     check (headroom_occupancy s k \<ge> tag_headroom t);
     check (queue_ingress_occupancy s k \<ge> occ);
     Some (pkt\<lparr>ingress_tag := None\<rparr>,
       s\<lparr>guarantee_occupancy := (guarantee_occupancy s)(k := guarantee_occupancy s k - tag_minimal_guarantee t),
         headroom_occupancy := (headroom_occupancy s)(k := headroom_occupancy s k - tag_headroom t),
         ingress_pool_free_cells := ingress_pool_free_cells s + tag_shared_pool t,
         queue_ingress_occupancy := (queue_ingress_occupancy s)(k := queue_ingress_occupancy s k - occ)\<rparr>)
   }"

section \<open>Egress\<close>

definition PerformEcnMarking :: "router_env \<Rightarrow> int \<Rightarrow> qid \<Rightarrow> FabricPacket \<Rightarrow> Router \<Rightarrow> FabricPacket \<times> Router" where
  "PerformEcnMarking env now k pkt s =
     (case policies s k of
        None \<Rightarrow> (pkt, s)
      | Some w \<Rightarrow>
          if ecn pkt \<noteq> kNonEct \<and> ecn pkt \<noteq> kCongestionEncountered then
            (case PerformWred (fp env) now (queue_egress_occupancy s k) w of (w', mark) \<Rightarrow>
               (if mark then pkt\<lparr>ecn := kCongestionEncountered\<rparr> else pkt, s\<lparr>policies := (policies s)(k \<mapsto> w')\<rparr>))
          else (pkt, s))"

definition egress_full :: "router_env \<Rightarrow> u64 \<Rightarrow> real \<Rightarrow> Router \<Rightarrow> bool" where
  "egress_full env occ alpha s \<longleftrightarrow>
     fl_of (fp env) occ \<ge> fl_mul (fp env) (fl_of (fp env) (egress_pool_free_cells s)) alpha"

definition RequestEnqueue ::
    "router_env \<Rightarrow> int \<Rightarrow> qid \<Rightarrow> FabricPacket \<Rightarrow> Router \<Rightarrow> (FabricPacket \<times> Router \<times> bool) option" where
  "RequestEnqueue env now k pkt s =
     (let occ = GetPacketOccupancy pkt; p = fst k in
      if egress_full env (port_egress_occupancy s p + occ) (port_egress_alpha s p) s \<or>
         egress_full env (queue_egress_occupancy s k + occ) (queue_egress_alpha s k) s then do {
        check (\<not> support_pfc s);
        Some (pkt, s, False)
      }
      else do {
        let (pkt1, s1) = (if ecn_stage s k = kEnqueueMark then PerformEcnMarking env now k pkt s else (pkt, s));
        check (egress_pool_free_cells s1 \<ge> occ);
        Some (pkt1, s1\<lparr>egress_pool_free_cells := egress_pool_free_cells s1 - occ,
           port_egress_occupancy := (port_egress_occupancy s1)(p := port_egress_occupancy s1 p + occ),
           queue_egress_occupancy := (queue_egress_occupancy s1)(k := queue_egress_occupancy s1 k + occ)\<rparr>, True)
      })"

definition IsPaused :: "int \<Rightarrow> qid \<Rightarrow> Router \<Rightarrow> bool" where
  "IsPaused now k s \<longleftrightarrow> unpause_time s k > now"

definition CanTransmit :: "int \<Rightarrow> qid \<Rightarrow> Router \<Rightarrow> bool" where
  "CanTransmit now k s \<longleftrightarrow> packet_queues s k \<noteq> [] \<and> (\<not> support_pfc s \<or> \<not> IsPaused now k s)"

text \<open>Sending pause frames for the ingress queue of a packet stops when its memory is below the limit.\<close>

definition release_ingress :: "router_env \<Rightarrow> int \<Rightarrow> FabricPacket \<Rightarrow> Router \<Rightarrow> (FabricPacket \<times> Router) option" where
  "release_ingress env now pkt s =
     (if \<not> support_pfc s then Some (pkt, s)
      else do {
        t \<leftarrow> ingress_tag pkt;
        let k = (tag_port t, tag_priority t);
        (pkt1, s1) \<leftarrow> IngressAccountingRelease pkt s;
        s2 \<leftarrow> (if pfc_sending_triggered s1 k \<and>
                fl_of (fp env) (queue_ingress_occupancy s1 k) < pfc_trigger_limit env k s1
              then DisablePfcSending now (tag_port t) (tag_priority t) s1 else Some s1);
        Some (pkt1, s2)
      })"

definition release_egress :: "int \<Rightarrow> qid \<Rightarrow> u64 \<Rightarrow> Router \<Rightarrow> Router option" where
  "release_egress now k occ s = do {
     let p = fst k;
     check (port_egress_occupancy s p \<ge> occ);
     check (queue_egress_occupancy s k \<ge> occ);
     let s1 = s\<lparr>egress_pool_free_cells := egress_pool_free_cells s + occ,
               port_egress_occupancy := (port_egress_occupancy s)(p := port_egress_occupancy s p - occ),
               queue_egress_occupancy := (queue_egress_occupancy s)(k := queue_egress_occupancy s k - occ)\<rparr>;
     (case policies s1 k of
        Some w \<Rightarrow> if queue_egress_occupancy s1 k = 0
          then Some (s1\<lparr>policies := (policies s1)(k \<mapsto> w\<lparr>queue_idle_time := now\<rparr>)\<rparr>) else Some s1
      | None \<Rightarrow> Some s1)
   }"

definition DequeuedPacket ::
    "router_env \<Rightarrow> int \<Rightarrow> qid \<Rightarrow> FabricPacket \<Rightarrow> Router \<Rightarrow> (FabricPacket \<times> Router) option" where
  "DequeuedPacket env now k pkt s = do {
     let (pkt1, s1) = (if ecn_stage s k = kDequeueMark then PerformEcnMarking env now k pkt s else (pkt, s));
     (pkt2, s2) \<leftarrow> release_ingress env now pkt1 s1;
     s3 \<leftarrow> release_egress now k (GetPacketOccupancy pkt1) s2;
     Some (pkt2, s3)
   }"

section \<open>Being paused\<close>

fun receive_classes :: "router_env \<Rightarrow> int \<Rightarrow> nat \<Rightarrow> PfcFrame \<Rightarrow> nat list \<Rightarrow> Router \<Rightarrow> Router option" where
  "receive_classes env now p f [] s = Some s"
| "receive_classes env now p f (i # is) s =
     (if bit (class_enable f) i then do {
        check (i < queues_num s \<and> i < length (time_class f));
        check (set_paused_at s (p, i) = None);
        check (0 \<le> rx_pfc_delay s);
        receive_classes env now p f is (s\<lparr>set_paused_at := (set_paused_at s)((p, i) \<mapsto>
          (now + rx_pfc_delay s, ConvertToPauseDuration env p (time_class f ! i)))\<rparr>)
      } else receive_classes env now p f is s)"

text \<open>\<open>ReceivedPfc\<close> with the events that \<open>NetworkRouter::SetPfcPaused\<close> schedules.\<close>

definition ReceivedPfc :: "router_env \<Rightarrow> int \<Rightarrow> nat \<Rightarrow> PfcFrame \<Rightarrow> Router \<Rightarrow> Router option" where
  "ReceivedPfc env now p f s = do {
     check (support_pfc s);
     receive_classes env now p f [0..<kClassesOfService] s
   }"

definition SetPfcPaused :: "int \<Rightarrow> qid \<Rightarrow> int \<Rightarrow> Router \<Rightarrow> Router option" where
  "SetPfcPaused now k until s = do {
     let s1 = s\<lparr>refresh_at := (refresh_at s)(k := None), unpause_time := (unpause_time s)(k := until)\<rparr>;
     (if until \<noteq> now then do {
        check (now \<le> until);
        Some (s1\<lparr>refresh_at := (refresh_at s1)(k \<mapsto> until)\<rparr>)
      } else Some s1)
   }"

end
