(* ===== verification/Router.thy ===== *)
theory Router
  imports Mmu
begin

text \<open>
  The ports of a router (\<open>fabric/network_port.{h,cc}\<close>) with their packet queues
  (\<open>fabric/network_packet_queue.{h,cc}\<close>) and the arbiter (\<open>fabric/arbiter.cc\<close>), the routing pipeline
  (\<open>RoutePacket\<close> of \<open>fabric/network_routing.cc\<close>) and the events of the router
  (\<open>handleMessage\<close> of \<open>fabric/network_router.cc\<close>), over the state of \<open>Mmu\<close>.
\<close>

section \<open>Queues\<close>

text \<open>\<open>NetworkPacketQueue\<close>.\<close>

definition queue_Enqueue :: "router_env \<Rightarrow> int \<Rightarrow> qid \<Rightarrow> FabricPacket \<Rightarrow> Router \<Rightarrow> (Router \<times> bool) option" where
  "queue_Enqueue env now k pkt s = do {
     (pkt1, s1, ok) \<leftarrow> RequestEnqueue env now k pkt s;
     Some (if ok then s1\<lparr>packet_queues := (packet_queues s1)(k := packet_queues s1 k @ [pkt1])\<rparr> else s1, ok)
   }"

definition queue_Peek :: "int \<Rightarrow> qid \<Rightarrow> Router \<Rightarrow> FabricPacket option" where
  "queue_Peek now k s = (if CanTransmit now k s then Some (hd (packet_queues s k)) else None)"

definition queue_Dequeue :: "router_env \<Rightarrow> int \<Rightarrow> qid \<Rightarrow> Router \<Rightarrow> (Router \<times> FabricPacket option) option" where
  "queue_Dequeue env now k s =
     (case queue_Peek now k s of
        None \<Rightarrow> Some (s, None)
      | Some pkt \<Rightarrow> do {
          (pkt1, s1) \<leftarrow> DequeuedPacket env now k pkt (s\<lparr>packet_queues := (packet_queues s)(k := tl (packet_queues s k))\<rparr>);
          Some (s1, Some pkt1)
        })"

text \<open>\<open>FixedPriorityArbiter::Arbitrate\<close>; \<open>None\<close> is \<open>-1\<close>.\<close>

fun Arbitrate_from :: "nat \<Rightarrow> 'a option list \<Rightarrow> nat option" where
  "Arbitrate_from i [] = None"
| "Arbitrate_from i (x # xs) = (if x \<noteq> None then Some i else Arbitrate_from (Suc i) xs)"

definition Arbitrate :: "'a option list \<Rightarrow> nat option" where
  "Arbitrate xs = Arbitrate_from 0 xs"

section \<open>Ports\<close>

definition GetPacketPriority :: "FabricPacket \<Rightarrow> nat" where
  "GetPacketPriority p = 0"

text \<open>\<open>SendPacket\<close>: a channel that is still transmitting is an error.\<close>

definition port_SendPacket :: "router_env \<Rightarrow> int \<Rightarrow> nat \<Rightarrow> Frame \<Rightarrow> Router \<Rightarrow> Router option" where
  "port_SendPacket env now p f s = do {
     check (tx_finish s p \<le> now);
     let s1 = s\<lparr>sent := sent s @ [(p, f)], tx_finish := (tx_finish s)(p := now + transmission_time env p f)\<rparr>;
     router_ScheduleOutput now p ((tx_finish s1 p - now) + ifg_delay env p) s1
   }"

definition port_ScheduleOutput :: "router_env \<Rightarrow> int \<Rightarrow> nat \<Rightarrow> Router \<Rightarrow> Router option" where
  "port_ScheduleOutput env now p s = do {
     check (port_state s p = P_kActive);
     (case pfc_queue s p of
        f # fs \<Rightarrow> port_SendPacket env now p (Pfc f) (s\<lparr>pfc_queue := (pfc_queue s)(p := fs)\<rparr>)
      | [] \<Rightarrow> (case Arbitrate (map (\<lambda>q. queue_Peek now (p, q) s) [0..<queues_num s]) of
            None \<Rightarrow> Some (s\<lparr>port_state := (port_state s)(p := P_kIdle)\<rparr>)
          | Some winner \<Rightarrow> do {
              (s1, r) \<leftarrow> queue_Dequeue env now (p, winner) s;
              pkt \<leftarrow> r;
              port_SendPacket env now p (Data pkt) s1
            }))
   }"

definition port_EnqueuePacket :: "router_env \<Rightarrow> int \<Rightarrow> nat \<Rightarrow> FabricPacket \<Rightarrow> Router \<Rightarrow> Router option" where
  "port_EnqueuePacket env now p pkt s = do {
     let q = GetPacketPriority pkt;
     check (q < queues_num s);
     (s1, ok) \<leftarrow> queue_Enqueue env now (p, q) pkt s;
     (if ok \<and> port_state s1 p = P_kIdle
      then router_ScheduleOutput now p kEnqueueDelay (s1\<lparr>port_state := (port_state s1)(p := P_kActive)\<rparr>)
      else Some s1)
   }"

definition port_ResumeOutput :: "router_env \<Rightarrow> int \<Rightarrow> nat \<Rightarrow> Router \<Rightarrow> Router option" where
  "port_ResumeOutput env now p s =
     (if port_state s p = P_kIdle
      then port_ScheduleOutput env now p (s\<lparr>port_state := (port_state s)(p := P_kActive)\<rparr>)
      else Some s)"

text \<open>\<open>ReceivePacket\<close> of a frame of the given length in bytes, headers included.\<close>

definition port_ReceivePacket :: "router_env \<Rightarrow> int \<Rightarrow> nat \<Rightarrow> nat \<Rightarrow> Frame \<Rightarrow> Router \<Rightarrow> Router option" where
  "port_ReceivePacket env now p len f s =
     (if len > mtu_size env then Some s
      else (case f of
          Pfc pf \<Rightarrow> ReceivedPfc env now p pf s
        | Data pkt \<Rightarrow> do {
            let q = GetPacketPriority pkt;
            check (q < queues_num s);
            (s1, m) \<leftarrow> ReceivedData env now p (GetPacketOccupancy pkt) q s;
            (if drop_it m then Some s1
             else Some (s1\<lparr>pipeline := pipeline s1 @ [(now + router_delay env,
               pkt\<lparr>ingress_tag := Some \<lparr>tag_port = p, tag_priority = q,
                 tag_minimal_guarantee = minimal_guarantee_occupancy m,
                 tag_shared_pool = shared_pool_occupancy m, tag_headroom = headroom_part m\<rparr>\<rparr>)]\<rparr>))
          }))"

section \<open>The routing pipeline\<close>

definition RoutePacket :: "router_env \<Rightarrow> int \<Rightarrow> FabricPacket \<Rightarrow> Router \<Rightarrow> Router option" where
  "RoutePacket env now pkt s = do {
     (pkt1, r) \<leftarrow> route_decision (crc env) (router_stage env) (routing_table env) pkt;
     (case r of
        Inl _ \<Rightarrow> Some (s\<lparr>discarded := discarded s @ [pkt1]\<rparr>)
      | Inr port \<Rightarrow> do {
          check (unat port < ports_num s \<and> connected env (unat port));
          port_EnqueuePacket env now (unat port) pkt1 s
        })
   }"

section \<open>Events\<close>

text \<open>\<open>handleMessage\<close>. A frame arrives from outside; every other event is a self-message that is due.\<close>

datatype RouterEvent =
    kReceivePacket nat nat Frame
  | kRouterDelay
  | kOutputScheduling nat
  | kSetPfcPaused nat nat
  | kPfcRefreshment nat nat
  | kPfcPauseSend nat nat

fun handleMessage :: "router_env \<Rightarrow> int \<Rightarrow> RouterEvent \<Rightarrow> Router \<Rightarrow> Router option" where
  "handleMessage env now (kReceivePacket p len f) s = port_ReceivePacket env now p len f s"
| "handleMessage env now kRouterDelay s =
     (case pipeline s of
        [] \<Rightarrow> None
      | (t, pkt) # rest \<Rightarrow> RoutePacket env now pkt (s\<lparr>pipeline := rest\<rparr>))"
| "handleMessage env now (kOutputScheduling p) s =
     port_ScheduleOutput env now p (s\<lparr>output_at := (output_at s)(p := None)\<rparr>)"
| "handleMessage env now (kSetPfcPaused p q) s =
     (case set_paused_at s (p, q) of
        None \<Rightarrow> None
      | Some (_, d) \<Rightarrow> SetPfcPaused now (p, q) (now + d) (s\<lparr>set_paused_at := (set_paused_at s)((p, q) := None)\<rparr>))"
| "handleMessage env now (kPfcRefreshment p q) s =
     port_ResumeOutput env now p (s\<lparr>refresh_at := (refresh_at s)((p, q) := None)\<rparr>)"
| "handleMessage env now (kPfcPauseSend p q) s =
     SendPfc env now p q (s\<lparr>send_pause_at := (send_pause_at s)((p, q) := None)\<rparr>)"

text \<open>When an event can happen: a frame at a connected port, a self-message at its time.\<close>

fun event_due :: "router_env \<Rightarrow> int \<Rightarrow> RouterEvent \<Rightarrow> Router \<Rightarrow> bool" where
  "event_due env now (kReceivePacket p len f) s \<longleftrightarrow> p < ports_num s \<and> connected env p \<and>
     (case f of Data pkt \<Rightarrow> ingress_tag pkt = None | Pfc _ \<Rightarrow> True)"
| "event_due env now kRouterDelay s \<longleftrightarrow> (\<exists>pkt rest. pipeline s = (now, pkt) # rest)"
| "event_due env now (kOutputScheduling p) s \<longleftrightarrow> output_at s p = Some now"
| "event_due env now (kSetPfcPaused p q) s \<longleftrightarrow> (\<exists>d. set_paused_at s (p, q) = Some (now, d))"
| "event_due env now (kPfcRefreshment p q) s \<longleftrightarrow> refresh_at s (p, q) = Some now"
| "event_due env now (kPfcPauseSend p q) s \<longleftrightarrow> send_pause_at s (p, q) = Some now"

end
