(* ===== verification/Router_Memory.thy ===== *)
theory Router_Memory
  imports Router
begin

text \<open>
  Conservation of memory in a router. \<open>mem\<close> is the part of the state the accounting is about; the
  operations on pause frames and ports leave it alone. \<open>memory_inv\<close> ties the counters to the packets the
  router holds and is an invariant of every history of events.
\<close>

section \<open>The packets a router holds\<close>

definition tot :: "('a \<Rightarrow> nat) \<Rightarrow> 'a list \<Rightarrow> nat" where
  "tot w xs = sum_list (map w xs)"

lemma tot_simps [simp]: "tot w [] = 0" "tot w (x # xs) = w x + tot w xs" "tot w (xs @ ys) = tot w xs + tot w ys"
  by (simp_all add: tot_def)

lemma tot_member: "x \<in> set xs \<Longrightarrow> w x \<le> tot w xs"
  by (induction xs) auto

definition qids :: "Router \<Rightarrow> qid set" where
  "qids s = {..<ports_num s} \<times> {..<queues_num s}"

lemma finite_qids [simp]: "finite (qids s)"
  by (simp add: qids_def)

definition queued :: "(FabricPacket \<Rightarrow> nat) \<Rightarrow> (qid \<Rightarrow> FabricPacket list) \<Rightarrow> qid set \<Rightarrow> nat" where
  "queued w qs K = (\<Sum>k \<in> K. tot w (qs k))"

lemma queued_update:
  "finite K \<Longrightarrow> k \<in> K \<Longrightarrow> queued w (qs(k := xs)) K + tot w (qs k) = queued w qs K + tot w xs"
  by (simp add: queued_def sum.remove [of K k])

lemma queued_other: "k \<notin> K \<Longrightarrow> queued w (qs(k := xs)) K = queued w qs K"
  unfolding queued_def by (intro sum.cong) auto

lemma queued_member: "finite K \<Longrightarrow> k \<in> K \<Longrightarrow> x \<in> set (qs k) \<Longrightarrow> w x \<le> queued w qs K"
  unfolding queued_def using tot_member [of x "qs k" w] member_le_sum [of k K "\<lambda>k. tot w (qs k)"] by simp

definition held :: "(FabricPacket \<Rightarrow> nat) \<Rightarrow> Router \<Rightarrow> nat" where
  "held w s = tot (w \<circ> snd) (pipeline s) + tot w (discarded s) + queued w (packet_queues s) (qids s)"

definition holds :: "Router \<Rightarrow> FabricPacket set" where
  "holds s = snd ` set (pipeline s) \<union> set (discarded s) \<union> (\<Union>k \<in> qids s. set (packet_queues s k))"

abbreviation occ :: "FabricPacket \<Rightarrow> nat" where
  "occ p \<equiv> unat (GetPacketOccupancy p)"

definition tag_key :: "FabricPacket \<Rightarrow> qid option" where
  "tag_key p = map_option (\<lambda>t. (tag_port t, tag_priority t)) (ingress_tag p)"

text \<open>What a packet holds of the ingress memory of a queue, as its tag says.\<close>

definition at_key :: "qid \<Rightarrow> (FabricPacket \<Rightarrow> nat) \<Rightarrow> FabricPacket \<Rightarrow> nat" where
  "at_key k w p = (if tag_key p = Some k then w p else 0)"

definition w_min :: "FabricPacket \<Rightarrow> nat" where
  "w_min p = (case ingress_tag p of Some t \<Rightarrow> unat (tag_minimal_guarantee t) | None \<Rightarrow> 0)"

definition w_pool :: "FabricPacket \<Rightarrow> nat" where
  "w_pool p = (case ingress_tag p of Some t \<Rightarrow> unat (tag_shared_pool t) | None \<Rightarrow> 0)"

definition w_head :: "FabricPacket \<Rightarrow> nat" where
  "w_head p = (case ingress_tag p of Some t \<Rightarrow> unat (tag_headroom t) | None \<Rightarrow> 0)"

text \<open>
  A packet can take more of the guarantee than its tag says: what it took is what the pool and the headroom did not
  give. No tag says more than the packet took.
\<close>

definition w_took :: "FabricPacket \<Rightarrow> nat" where
  "w_took p = occ p - (w_pool p + w_head p)"

definition tag_fits :: "FabricPacket \<Rightarrow> bool" where
  "tag_fits p \<longleftrightarrow> w_min p + (w_pool p + w_head p) \<le> occ p"

section \<open>The accounted part of the state\<close>

definition mem where
  "mem s = (ports_num s, queues_num s, support_pfc s, ingress_pool_free_cells s, egress_pool_free_cells s,
     port_egress_occupancy s, queue_egress_occupancy s, queue_ingress_occupancy s, guarantee s,
     guarantee_occupancy s, headroom s, headroom_occupancy s, packet_queues s, pipeline s, discarded s)"

definition egress_inv :: "nat \<Rightarrow> Router \<Rightarrow> bool" where
  "egress_inv C s \<longleftrightarrow> C < 2 ^ 64 \<and>
     unat (egress_pool_free_cells s) + queued occ (packet_queues s) (qids s) = C \<and>
     (\<forall>p < ports_num s. unat (port_egress_occupancy s p) = queued occ (packet_queues s) ({p} \<times> {..<queues_num s})) \<and>
     (\<forall>k \<in> qids s. unat (queue_egress_occupancy s k) = tot occ (packet_queues s k))"

definition ingress_inv :: "nat \<Rightarrow> Router \<Rightarrow> bool" where
  "ingress_inv P s \<longleftrightarrow> P < 2 ^ 64 \<and>
     (\<forall>p \<in> holds s. tag_fits p \<and> (\<exists>k \<in> qids s. tag_key p = Some k)) \<and>
     unat (ingress_pool_free_cells s) + held w_pool s = P \<and>
     (\<forall>k \<in> qids s. unat (headroom_occupancy s k) = held (at_key k w_head) s \<and>
        headroom_occupancy s k \<le> headroom s k \<and>
        unat (guarantee_occupancy s k) = held (at_key k w_took) s \<and> guarantee_occupancy s k \<le> guarantee s k \<and>
        queue_ingress_occupancy s k = of_nat (held (at_key k occ) s))"

text \<open>Sizes far below the bounds of 64 bits.\<close>

definition small :: "u64 \<Rightarrow> bool" where
  "small w \<longleftrightarrow> unat w < 2 ^ 60"

definition small_config :: "Router \<Rightarrow> bool" where
  "small_config s \<longleftrightarrow> (\<forall>k. small (guarantee s k) \<and> small (headroom s k))"

definition memory_inv :: "nat \<Rightarrow> nat \<Rightarrow> Router \<Rightarrow> bool" where
  "memory_inv C P s \<longleftrightarrow> small_config s \<and> egress_inv C s \<and> (support_pfc s \<longrightarrow> ingress_inv P s)"

lemma memory_inv_mem: "mem s' = mem s \<Longrightarrow> memory_inv C P s' = memory_inv C P s"
  by (simp add: mem_def memory_inv_def small_config_def egress_inv_def ingress_inv_def qids_def holds_def held_def)

section \<open>Operations that leave the memory alone\<close>

lemma mem_updates [simp]:
  "mem (s\<lparr>pfc_sending_triggered := a1\<rparr>) = mem s" "mem (s\<lparr>send_pause_at := a2\<rparr>) = mem s"
  "mem (s\<lparr>set_paused_at := a3\<rparr>) = mem s" "mem (s\<lparr>refresh_at := a4\<rparr>) = mem s"
  "mem (s\<lparr>unpause_time := a5\<rparr>) = mem s" "mem (s\<lparr>policies := a6\<rparr>) = mem s"
  "mem (s\<lparr>pfc_queue := a7\<rparr>) = mem s" "mem (s\<lparr>port_state := a8\<rparr>) = mem s"
  "mem (s\<lparr>output_at := a9\<rparr>) = mem s" "mem (s\<lparr>tx_finish := a10\<rparr>) = mem s" "mem (s\<lparr>sent := a11\<rparr>) = mem s"
  by (simp_all add: mem_def)

lemma router_ScheduleOutput_mem: "router_ScheduleOutput now p d s = Some s' \<Longrightarrow> mem s' = mem s"
  by (auto simp: router_ScheduleOutput_def split: if_splits)

lemma GeneratePfc_mem: "GeneratePfc now p q u s = Some s' \<Longrightarrow> mem s' = mem s"
  by (auto simp: GeneratePfc_def split: list.splits if_splits bind_splits dest!: router_ScheduleOutput_mem)

lemma SendPfc_mem: "SendPfc env now p q s = Some s' \<Longrightarrow> mem s' = mem s"
  by (auto simp: SendPfc_def Let_def split: if_splits bind_splits dest!: GeneratePfc_mem)

lemma EnablePfcSending_mem: "EnablePfcSending env now p q s = Some s' \<Longrightarrow> mem s' = mem s"
  by (auto simp: EnablePfcSending_def dest!: SendPfc_mem)

lemma DisablePfcSending_mem: "DisablePfcSending now p q s = Some s' \<Longrightarrow> mem s' = mem s"
  by (auto simp: DisablePfcSending_def Let_def split: if_splits dest!: GeneratePfc_mem)

lemma port_SendPacket_mem: "port_SendPacket env now p f s = Some s' \<Longrightarrow> mem s' = mem s"
  by (auto simp: port_SendPacket_def Let_def split: if_splits dest!: router_ScheduleOutput_mem)

lemma receive_classes_mem: "receive_classes env now p f is s = Some s' \<Longrightarrow> mem s' = mem s"
  by (induction "is" arbitrary: s) (auto split: if_splits)

lemma SetPfcPaused_mem: "SetPfcPaused now k t s = Some s' \<Longrightarrow> mem s' = mem s"
  by (auto simp: SetPfcPaused_def Let_def split: if_splits)

lemma ecn_same:
  assumes "PerformEcnMarking env now k pkt s = (pkt', s')"
  shows "mem s' = mem s" "bit_length pkt' = bit_length pkt" "ingress_tag pkt' = ingress_tag pkt"
  using assms by (auto simp: PerformEcnMarking_def split: option.splits if_splits prod.splits)

section \<open>Admission\<close>

lemma small_add: "small a \<Longrightarrow> small b \<Longrightarrow> unat (a + b) = unat a + unat b"
  unfolding small_def by (subst unat_add_lem [THEN iffD1]) simp_all

text \<open>The accounting of an admitted packet: what it takes from each part.\<close>

definition took_guarantee :: "u64 \<Rightarrow> u64 \<Rightarrow> u64 \<Rightarrow> IngressMemoryOccupancy \<Rightarrow> bool" where
  "took_guarantee old new cells m \<longleftrightarrow>
     unat new + (unat (shared_pool_occupancy m) + unat (headroom_part m)) = unat old + unat cells \<and>
     unat (minimal_guarantee_occupancy m) + (unat (shared_pool_occupancy m) + unat (headroom_part m)) \<le> unat cells"

definition placed :: "qid \<Rightarrow> u64 \<Rightarrow> Router \<Rightarrow> Router \<Rightarrow> IngressMemoryOccupancy \<Rightarrow> bool" where
  "placed k cells s s' m \<longleftrightarrow> (\<exists>g h. unat (ingress_pool_free_cells s') + unat (shared_pool_occupancy m)
       = unat (ingress_pool_free_cells s) \<and>
     took_guarantee (guarantee_occupancy s k) g cells m \<and> g \<le> guarantee s k \<and>
     unat h = unat (headroom_occupancy s k) + unat (headroom_part m) \<and> h \<le> headroom s k \<and>
     mem s' = mem (s\<lparr>ingress_pool_free_cells := ingress_pool_free_cells s',
       guarantee_occupancy := (guarantee_occupancy s)(k := g),
       headroom_occupancy := (headroom_occupancy s)(k := h),
       queue_ingress_occupancy := (queue_ingress_occupancy s)(k := queue_ingress_occupancy s k + cells)\<rparr>))"

lemma sub_unat: "b \<le> a \<Longrightarrow> unat (a - b) + unat b = unat a" for a b :: u64
  by (simp add: unat_sub word_le_nat_alt)

lemma place_ingress_facts:
  assumes "place_ingress k cells s = Some (s', m)" "small cells" "small_config s"
    and "guarantee_occupancy s k \<le> guarantee s k"
  shows "unat (ingress_pool_free_cells s') + unat (shared_pool_occupancy m) = unat (ingress_pool_free_cells s)"
    "headroom_part m = 0"
    "\<exists>g. took_guarantee (guarantee_occupancy s k) g cells m \<and> g \<le> guarantee s k \<and>
       mem s' = mem (s\<lparr>ingress_pool_free_cells := ingress_pool_free_cells s',
         guarantee_occupancy := (guarantee_occupancy s)(k := g)\<rparr>)"
proof -
  have sg: "small (guarantee s k)" using assms(3) unfolding small_config_def by blast
  then have so: "small (guarantee_occupancy s k)" using assms(4) by (simp add: small_def word_le_nat_alt)
  note add = small_add [OF so assms(2)]
  consider (pool) "queue_ingress_occupancy s k \<ge> guarantee s k"
    | (fits) "\<not> queue_ingress_occupancy s k \<ge> guarantee s k" "guarantee_occupancy s k + cells \<le> guarantee s k"
    | (split) "\<not> queue_ingress_occupancy s k \<ge> guarantee s k" "\<not> guarantee_occupancy s k + cells \<le> guarantee s k"
    by blast
  then have "unat (ingress_pool_free_cells s') + unat (shared_pool_occupancy m) = unat (ingress_pool_free_cells s) \<and>
    headroom_part m = 0 \<and>
    (\<exists>g. took_guarantee (guarantee_occupancy s k) g cells m \<and> g \<le> guarantee s k \<and>
       mem s' = mem (s\<lparr>ingress_pool_free_cells := ingress_pool_free_cells s',
         guarantee_occupancy := (guarantee_occupancy s)(k := g)\<rparr>))"
  proof cases
    case pool
    then show ?thesis
      using assms(1,4) by (auto simp: place_ingress_def Let_def mem_def sub_unat took_guarantee_def split: if_splits
          intro!: exI [of _ "guarantee_occupancy s k"])
  next
    case fits
    then show ?thesis
      using assms(1,4) add by (auto simp: place_ingress_def Let_def mem_def took_guarantee_def
          intro!: exI [of _ "guarantee_occupancy s k + cells"])
  next
    case split
    have "guarantee s k \<le> guarantee_occupancy s k + cells" using split(2) by simp
    then have part: "unat (guarantee s k) + unat (guarantee_occupancy s k + cells - guarantee s k) =
        unat (guarantee_occupancy s k) + unat cells"
      "unat (guarantee_occupancy s k + cells - guarantee s k) \<le> unat cells"
      using sub_unat [of "guarantee s k" "guarantee_occupancy s k + cells"] add assms(4) by (simp_all add: word_le_nat_alt)
    from split show ?thesis
      using assms(1,4) part by (auto simp: place_ingress_def Let_def mem_def sub_unat took_guarantee_def split: if_splits
          intro!: exI [of _ "guarantee s k"])
  qed
  then show "unat (ingress_pool_free_cells s') + unat (shared_pool_occupancy m) = unat (ingress_pool_free_cells s)"
    "headroom_part m = 0"
    "\<exists>g. took_guarantee (guarantee_occupancy s k) g cells m \<and> g \<le> guarantee s k \<and>
       mem s' = mem (s\<lparr>ingress_pool_free_cells := ingress_pool_free_cells s',
         guarantee_occupancy := (guarantee_occupancy s)(k := g)\<rparr>)" by blast+
qed

lemma mem_fields:
  assumes "mem s' = mem s"
  shows "ports_num s' = ports_num s" "queues_num s' = queues_num s" "support_pfc s' = support_pfc s"
    "ingress_pool_free_cells s' = ingress_pool_free_cells s" "egress_pool_free_cells s' = egress_pool_free_cells s"
    "port_egress_occupancy s' = port_egress_occupancy s" "queue_egress_occupancy s' = queue_egress_occupancy s"
    "queue_ingress_occupancy s' = queue_ingress_occupancy s" "guarantee s' = guarantee s"
    "guarantee_occupancy s' = guarantee_occupancy s" "headroom s' = headroom s"
    "headroom_occupancy s' = headroom_occupancy s" "packet_queues s' = packet_queues s"
    "pipeline s' = pipeline s" "discarded s' = discarded s"
  using assms by (simp_all add: mem_def)

lemma ReceivedData_placed:
  assumes "ReceivedData env now p cells q s = Some (s', m)" "small cells" "small_config s" "support_pfc s"
    and "guarantee_occupancy s (p, q) \<le> guarantee s (p, q)" "headroom_occupancy s (p, q) \<le> headroom s (p, q)"
  shows "if drop_it m then mem s' = mem s else placed (p, q) cells s s' m"
proof -
  let ?k = "(p, q)"
  obtain s1 where s1: "mem s1 = mem s" "(if \<not> pfc_sending_triggered s1 ?k then map_option Some (place_ingress ?k cells s1)
      else if headroom s1 ?k < headroom_occupancy s1 ?k + cells then Some None
      else Some (Some (s1\<lparr>headroom_occupancy := (headroom_occupancy s1)(?k := headroom_occupancy s1 ?k + cells)\<rparr>,
        \<lparr>drop_it = True, minimal_guarantee_occupancy = 0, shared_pool_occupancy = 0, headroom_part = cells\<rparr>)))
     \<bind> (\<lambda>r. case r of None \<Rightarrow> Some (s1, \<lparr>drop_it = True, minimal_guarantee_occupancy = 0, shared_pool_occupancy = 0,
          headroom_part = 0\<rparr>)
        | Some (s2, m) \<Rightarrow> Some (s2\<lparr>queue_ingress_occupancy := (queue_ingress_occupancy s2)
            (?k := queue_ingress_occupancy s2 ?k + cells)\<rparr>, m\<lparr>drop_it := False\<rparr>)) = Some (s', m)"
    using assms(1,4) by (fastforce simp: ReceivedData_def Let_def split: bind_splits if_splits dest: EnablePfcSending_mem)
  note f = mem_fields [OF s1(1)]
  have cfg1: "small_config s1" using assms(3) f by (simp add: small_config_def)
  have so: "small (headroom_occupancy s ?k)"
    using assms(3,6) unfolding small_config_def small_def word_le_nat_alt by (meson order.strict_trans1)
  show ?thesis
  proof (cases "pfc_sending_triggered s1 ?k")
    case False
    then obtain s2 m2 where pl: "place_ingress ?k cells s1 = Some (s2, m2)"
      "s' = s2\<lparr>queue_ingress_occupancy := (queue_ingress_occupancy s2)(?k := queue_ingress_occupancy s2 ?k + cells)\<rparr>"
      "m = m2\<lparr>drop_it := False\<rparr>" using s1(2) by (auto split: bind_splits)
    note r = place_ingress_facts [OF pl(1) assms(2) cfg1]
    have le: "guarantee_occupancy s1 ?k \<le> guarantee s1 ?k" using assms(5) f by simp
    obtain g where g: "took_guarantee (guarantee_occupancy s1 ?k) g cells m2"
      "g \<le> guarantee s1 ?k" "mem s2 = mem (s1\<lparr>ingress_pool_free_cells := ingress_pool_free_cells s2,
         guarantee_occupancy := (guarantee_occupancy s1)(?k := g)\<rparr>)" using r(3) [OF le] by blast
    have "mem s' = mem (s\<lparr>ingress_pool_free_cells := ingress_pool_free_cells s',
       guarantee_occupancy := (guarantee_occupancy s)(?k := g),
       headroom_occupancy := (headroom_occupancy s)(?k := headroom_occupancy s ?k),
       queue_ingress_occupancy := (queue_ingress_occupancy s)(?k := queue_ingress_occupancy s ?k + cells)\<rparr>)"
      using g(3) f unfolding pl(2) by (simp add: mem_def)
    moreover have "unat (ingress_pool_free_cells s') + unat (shared_pool_occupancy m) = unat (ingress_pool_free_cells s)"
      "headroom_part m = 0" using r(1,2) [OF le] f unfolding pl(2,3) by simp_all
    moreover have "took_guarantee (guarantee_occupancy s ?k) g cells m"
      "g \<le> guarantee s ?k" using g(1,2) f unfolding pl(3) took_guarantee_def by simp_all
    ultimately have "placed ?k cells s s' m"
      using assms(6) unfolding placed_def
      by (intro exI [of _ g] exI [of _ "headroom_occupancy s ?k"] conjI) simp_all
    then show ?thesis using pl(3) by simp
  next
    case True
    show ?thesis
    proof (cases "headroom s1 ?k < headroom_occupancy s1 ?k + cells")
      case True
      then show ?thesis using s1 \<open>pfc_sending_triggered s1 ?k\<close> by auto
    next
      case False
      let ?h = "headroom_occupancy s ?k + cells"
      have r: "s' = s1\<lparr>headroom_occupancy := (headroom_occupancy s1)(?k := headroom_occupancy s1 ?k + cells),
          queue_ingress_occupancy := (queue_ingress_occupancy s1)(?k := queue_ingress_occupancy s1 ?k + cells)\<rparr>"
        "m = \<lparr>drop_it = False, minimal_guarantee_occupancy = 0, shared_pool_occupancy = 0, headroom_part = cells\<rparr>"
        using s1(2) \<open>pfc_sending_triggered s1 ?k\<close> False by simp_all
      have "mem s' = mem (s\<lparr>ingress_pool_free_cells := ingress_pool_free_cells s',
         guarantee_occupancy := (guarantee_occupancy s)(?k := guarantee_occupancy s ?k),
         headroom_occupancy := (headroom_occupancy s)(?k := ?h),
         queue_ingress_occupancy := (queue_ingress_occupancy s)(?k := queue_ingress_occupancy s ?k + cells)\<rparr>)"
        using f s1(1) unfolding r(1) by (simp add: mem_def)
      moreover have "?h \<le> headroom s ?k" using False f by simp
      moreover have "unat ?h = unat (headroom_occupancy s ?k) + unat cells" by (rule small_add [OF so assms(2)])
      moreover have "ingress_pool_free_cells s' = ingress_pool_free_cells s" using f r(1) by simp
      ultimately have "placed ?k cells s s' m"
        using assms(5) unfolding placed_def r(2) took_guarantee_def
        by (intro exI [of _ "guarantee_occupancy s ?k"] exI [of _ ?h] conjI) simp_all
      then show ?thesis using r(2) by simp
    qed
  qed
qed

end
