(* ===== verification/Router_Conservation.thy ===== *)
theory Router_Conservation
  imports Router_Memory
begin

text \<open>
  Every operation that moves a packet keeps \<open>memory_inv\<close>: admission at a port, forwarding and dropping in
  the routing pipeline, joining and leaving a queue.
\<close>

section \<open>The invariant, operation by operation\<close>

definition same_packet :: "FabricPacket \<Rightarrow> FabricPacket \<Rightarrow> bool" where
  "same_packet x y \<longleftrightarrow> bit_length x = bit_length y \<and> ingress_tag x = ingress_tag y"

lemma same_weights:
  assumes "same_packet x y"
  shows "occ x = occ y" "w_pool x = w_pool y" "tag_key x = tag_key y" "at_key k w_took x = at_key k w_took y"
    "at_key k w_head x = at_key k w_head y" "at_key k occ x = at_key k occ y"
    "GetPacketOccupancy x = GetPacketOccupancy y" "tag_fits x = tag_fits y"
proof -
  show o: "GetPacketOccupancy x = GetPacketOccupancy y" and p: "w_pool x = w_pool y" and t: "tag_key x = tag_key y"
    using assms by (simp_all add: same_packet_def GetPacketOccupancy_def w_pool_def tag_key_def)
  have w: "w_min x = w_min y" "w_head x = w_head y" using assms by (simp_all add: same_packet_def w_min_def w_head_def)
  show "occ x = occ y" "at_key k w_took x = at_key k w_took y" "at_key k w_head x = at_key k w_head y"
    "at_key k occ x = at_key k occ y" "tag_fits x = tag_fits y"
    unfolding at_key_def w_took_def tag_fits_def t w o p by (rule refl)+
qed

text \<open>A step that keeps what is held, packet by packet.\<close>

lemma ingress_inv_cong:
  assumes "ingress_inv P s" "\<And>w. w \<in> {w_pool} \<union> (\<Union>k. {at_key k w_took, at_key k w_head, at_key k occ}) \<Longrightarrow> held w s' = held w s"
    and "(\<lambda>p. (tag_key p, tag_fits p)) ` holds s' \<subseteq> (\<lambda>p. (tag_key p, tag_fits p)) ` holds s" "qids s' = qids s"
    and "ingress_pool_free_cells s' = ingress_pool_free_cells s" "headroom_occupancy s' = headroom_occupancy s"
    "headroom s' = headroom s" "guarantee s' = guarantee s" "guarantee_occupancy s' = guarantee_occupancy s"
    "queue_ingress_occupancy s' = queue_ingress_occupancy s"
  shows "ingress_inv P s'"
proof -
  have "held w_pool s' = held w_pool s" "held (at_key k w_took) s' = held (at_key k w_took) s"
    "held (at_key k w_head) s' = held (at_key k w_head) s" "held (at_key k occ) s' = held (at_key k occ) s" for k
    by (rule assms(2); blast)+
  moreover have "tag_fits p \<and> (\<exists>k \<in> qids s. tag_key p = Some k)" if p: "p \<in> holds s'" for p
  proof -
    obtain x where "x \<in> holds s" "tag_key p = tag_key x" "tag_fits p = tag_fits x" using assms(3) p by blast
    then show ?thesis using assms(1) by (simp add: ingress_inv_def)
  qed
  ultimately show ?thesis using assms(1,4-) by (simp add: ingress_inv_def)
qed

lemma egress_inv_cong:
  "egress_inv C s \<Longrightarrow> packet_queues s' = packet_queues s \<Longrightarrow> ports_num s' = ports_num s \<Longrightarrow> queues_num s' = queues_num s \<Longrightarrow>
     egress_pool_free_cells s' = egress_pool_free_cells s \<Longrightarrow> port_egress_occupancy s' = port_egress_occupancy s \<Longrightarrow>
     queue_egress_occupancy s' = queue_egress_occupancy s \<Longrightarrow> egress_inv C s'"
  by (simp add: egress_inv_def qids_def)

lemma route_inv:
  assumes "memory_inv C P s" "pipeline s = (t, pkt) # rest" "same_packet pkt1 pkt"
  shows "memory_inv C P (s\<lparr>pipeline := rest, discarded := discarded s @ [pkt1]\<rparr>)"
proof -
  let ?s = "s\<lparr>pipeline := rest, discarded := discarded s @ [pkt1]\<rparr>"
  have held: "held w ?s = held w s" if "w pkt1 = w pkt" for w
    using assms(2) that by (simp add: held_def qids_def)
  have "holds ?s \<subseteq> insert pkt1 (holds s)" "pkt \<in> holds s" using assms(2) by (auto simp: holds_def qids_def)
  then have keys: "(\<lambda>p. (tag_key p, tag_fits p)) ` holds ?s \<subseteq> (\<lambda>p. (tag_key p, tag_fits p)) ` holds s"
    using same_weights(3,8) [OF assms(3)] by blast
  have "ingress_inv P ?s" if "support_pfc s"
  proof -
    have I: "ingress_inv P s" using that assms(1) by (simp add: memory_inv_def)
    have h: "held w ?s = held w s" if "w \<in> {w_pool} \<union> (\<Union>k. {at_key k w_took, at_key k w_head, at_key k occ})" for w
      using that same_weights [OF assms(3)] by (intro held) auto
    show ?thesis by (rule ingress_inv_cong [OF I h keys]) (simp_all add: qids_def)
  qed
  moreover have "egress_inv C s" using assms(1) by (simp add: memory_inv_def)
  then have "egress_inv C ?s" by (rule egress_inv_cong) simp_all
  ultimately show ?thesis using assms(1) by (simp add: memory_inv_def small_config_def)
qed

lemma admit_inv:
  assumes "memory_inv C P s" "support_pfc s" "k \<in> qids s" "placed k cells s s1 m"
    and "pkt = pkt0\<lparr>ingress_tag := Some \<lparr>tag_port = fst k, tag_priority = snd k,
      tag_minimal_guarantee = minimal_guarantee_occupancy m, tag_shared_pool = shared_pool_occupancy m,
      tag_headroom = headroom_part m\<rparr>\<rparr>" "GetPacketOccupancy pkt0 = cells"
  shows "memory_inv C P (s1\<lparr>pipeline := pipeline s1 @ [(t, pkt)]\<rparr>)"
proof -
  let ?s = "s1\<lparr>pipeline := pipeline s1 @ [(t, pkt)]\<rparr>"
  obtain g h where gh: "unat (ingress_pool_free_cells s1) + unat (shared_pool_occupancy m) = unat (ingress_pool_free_cells s)"
    "took_guarantee (guarantee_occupancy s k) g cells m" "g \<le> guarantee s k"
    "unat h = unat (headroom_occupancy s k) + unat (headroom_part m)" "h \<le> headroom s k"
    "mem s1 = mem (s\<lparr>ingress_pool_free_cells := ingress_pool_free_cells s1,
       guarantee_occupancy := (guarantee_occupancy s)(k := g), headroom_occupancy := (headroom_occupancy s)(k := h),
       queue_ingress_occupancy := (queue_ingress_occupancy s)(k := queue_ingress_occupancy s k + cells)\<rparr>)"
    using assms(4) unfolding placed_def by blast
  note f = mem_fields [OF gh(6), simplified]
  have q: "qids s1 = qids s" using f by (simp add: qids_def)
  have key: "tag_key pkt = Some k" and occ: "GetPacketOccupancy pkt = cells"
    using assms(5,6) by (simp_all add: tag_key_def GetPacketOccupancy_def)
  have w: "w_pool pkt = unat (shared_pool_occupancy m)" "w_min pkt = unat (minimal_guarantee_occupancy m)"
    "w_head pkt = unat (headroom_part m)" using assms(5) by (simp_all add: w_pool_def w_min_def w_head_def)
  have took: "unat g = unat (guarantee_occupancy s k) + w_took pkt" "tag_fits pkt"
  proof -
    have "unat g + (w_pool pkt + w_head pkt) = unat (guarantee_occupancy s k) + occ pkt"
      and fits: "w_min pkt + (w_pool pkt + w_head pkt) \<le> occ pkt"
      using gh(2) unfolding took_guarantee_def w occ by blast+
    then show "unat g = unat (guarantee_occupancy s k) + w_took pkt" unfolding w_took_def by linarith
    show "tag_fits pkt" unfolding tag_fits_def by (rule fits)
  qed
  have held: "held w ?s = held w s + w pkt" for w
    using f by (simp add: held_def qids_def)
  have I: "ingress_inv P s" using assms(1,2) by (simp add: memory_inv_def)
  have "ingress_inv P ?s"
  proof -
    have hs: "holds ?s = insert pkt (holds s)" "qids ?s = qids s" using f by (auto simp: holds_def qids_def)
    have "tag_fits p \<and> (\<exists>k \<in> qids ?s. tag_key p = Some k)" if "p \<in> holds ?s" for p
      using that I key took(2) assms(3) unfolding hs ingress_inv_def by blast
    moreover have "P < 2 ^ 64 \<and> unat (ingress_pool_free_cells ?s) + held w_pool ?s = P"
      using I gh(1) held [of w_pool] w(1) by (simp add: ingress_inv_def)
    moreover have "unat (headroom_occupancy ?s j) = held (at_key j w_head) ?s \<and> headroom_occupancy ?s j \<le> headroom ?s j \<and>
        unat (guarantee_occupancy ?s j) = held (at_key j w_took) ?s \<and> guarantee_occupancy ?s j \<le> guarantee ?s j \<and>
        queue_ingress_occupancy ?s j = of_nat (held (at_key j occ) ?s)" if "j \<in> qids ?s" for j
    proof -
      have j: "j \<in> qids s" using that q by (simp add: qids_def)
      note Ij = conjunct2 [OF conjunct2 [OF conjunct2 [OF I [unfolded ingress_inv_def]]], rule_format, OF j]
      have at: "at_key j v pkt = (if j = k then v pkt else 0)" for v using key by (auto simp: at_key_def)
      have hs: "headroom_occupancy ?s j = (if j = k then h else headroom_occupancy s j)" "headroom ?s j = headroom s j"
        "guarantee_occupancy ?s j = (if j = k then g else guarantee_occupancy s j)" "guarantee ?s j = guarantee s j"
        "queue_ingress_occupancy ?s j = (if j = k then queue_ingress_occupancy s k + cells else queue_ingress_occupancy s j)"
        using f by simp_all
      show ?thesis
        unfolding held at hs using Ij gh(3-5) took(1) w occ by (cases "j = k") simp_all
    qed
    ultimately show ?thesis unfolding ingress_inv_def by blast
  qed
  moreover have "egress_inv C s" using assms(1) by (simp add: memory_inv_def)
  then have "egress_inv C ?s" by (rule egress_inv_cong) (simp_all add: f)
  ultimately show ?thesis using assms(1) f by (simp add: memory_inv_def small_config_def)
qed

lemma forward_inv:
  assumes "memory_inv C P s" "\<not> support_pfc s"
  shows "memory_inv C P (s\<lparr>pipeline := pl, discarded := ds\<rparr>)"
proof -
  have "egress_inv C s" using assms(1) by (simp add: memory_inv_def)
  then have "egress_inv C (s\<lparr>pipeline := pl, discarded := ds\<rparr>)" by (rule egress_inv_cong) simp_all
  then show ?thesis using assms by (simp add: memory_inv_def small_config_def)
qed

text \<open>Egress: a queue grows or shrinks by a packet together with its counters.\<close>

lemma egress_change:
  assumes "egress_inv C s" "k \<in> qids s" "packet_queues s' = (packet_queues s)(k := xs)"
    and "ports_num s' = ports_num s" "queues_num s' = queues_num s"
    and "unat (egress_pool_free_cells s') + tot occ xs = unat (egress_pool_free_cells s) + tot occ (packet_queues s k)"
    and "port_egress_occupancy s' = (port_egress_occupancy s)(fst k := a)"
    and "unat a + tot occ (packet_queues s k) = unat (port_egress_occupancy s (fst k)) + tot occ xs"
    and "queue_egress_occupancy s' = (queue_egress_occupancy s)(k := b)" "unat b = tot occ xs"
  shows "egress_inv C s'"
proof -
  have q: "qids s' = qids s" using assms(4,5) by (simp add: qids_def)
  have E: "C < 2 ^ 64 \<and> unat (egress_pool_free_cells s) + queued occ (packet_queues s) (qids s) = C"
    "\<And>p. p < ports_num s \<Longrightarrow> unat (port_egress_occupancy s p) = queued occ (packet_queues s) ({p} \<times> {..<queues_num s})"
    "\<And>j. j \<in> qids s \<Longrightarrow> unat (queue_egress_occupancy s j) = tot occ (packet_queues s j)"
    using assms(1) unfolding egress_inv_def by blast+
  have all: "queued occ (packet_queues s') (qids s') + tot occ (packet_queues s k)
      = queued occ (packet_queues s) (qids s) + tot occ xs"
    unfolding q assms(3) by (rule queued_update [OF finite_qids assms(2)])
  have port: "unat (port_egress_occupancy s' p) = queued occ (packet_queues s') ({p} \<times> {..<queues_num s'})"
    if p: "p < ports_num s'" for p
  proof (cases "p = fst k")
    case True
    then have k: "k \<in> {p} \<times> {..<queues_num s}" using assms(2) by (cases k) (auto simp: qids_def)
    have "queued occ (packet_queues s') ({p} \<times> {..<queues_num s}) + tot occ (packet_queues s k)
      = queued occ (packet_queues s) ({p} \<times> {..<queues_num s}) + tot occ xs"
      unfolding assms(3) by (rule queued_update [OF _ k]) simp
    then show ?thesis using True assms(4,5,7,8) E(2) [of p] p by simp
  next
    case False
    then have "k \<notin> {p} \<times> {..<queues_num s}" by auto
    then show ?thesis using False assms(3-5,7) E(2) [of p] p by (simp add: queued_other)
  qed
  have "unat (queue_egress_occupancy s' j) = tot occ (packet_queues s' j)" if "j \<in> qids s'" for j
    using that E(3) [of j] q unfolding assms(3,9) by (cases "j = k") (simp_all add: assms(10))
  then show ?thesis
    unfolding egress_inv_def using all E(1) assms(6) port by simp
qed

lemma unat_add_small: "unat a + unat b < 2 ^ 64 \<Longrightarrow> unat (a + b) = unat a + unat b" for a b :: u64
  by (simp add: unat_word_ariths)

text \<open>What \<open>RequestEnqueue\<close> does to the accounted state.\<close>

lemma RequestEnqueue_facts:
  assumes "RequestEnqueue env now k pkt s = Some (pkt', s', ok)"
  shows "same_packet pkt' pkt" "\<not> ok \<Longrightarrow> s' = s \<and> \<not> support_pfc s"
    "ok \<Longrightarrow> GetPacketOccupancy pkt \<le> egress_pool_free_cells s \<and>
       mem s' = mem (s\<lparr>egress_pool_free_cells := egress_pool_free_cells s - GetPacketOccupancy pkt,
         port_egress_occupancy := (port_egress_occupancy s)(fst k := port_egress_occupancy s (fst k) + GetPacketOccupancy pkt),
         queue_egress_occupancy := (queue_egress_occupancy s)(k := queue_egress_occupancy s k + GetPacketOccupancy pkt)\<rparr>)"
proof -
  have "same_packet pkt' pkt \<and> (\<not> ok \<longrightarrow> s' = s \<and> \<not> support_pfc s) \<and>
    (ok \<longrightarrow> GetPacketOccupancy pkt \<le> egress_pool_free_cells s \<and>
       mem s' = mem (s\<lparr>egress_pool_free_cells := egress_pool_free_cells s - GetPacketOccupancy pkt,
         port_egress_occupancy := (port_egress_occupancy s)(fst k := port_egress_occupancy s (fst k) + GetPacketOccupancy pkt),
         queue_egress_occupancy := (queue_egress_occupancy s)(k := queue_egress_occupancy s k + GetPacketOccupancy pkt)\<rparr>))"
  proof (cases "egress_full env (port_egress_occupancy s (fst k) + GetPacketOccupancy pkt) (port_egress_alpha s (fst k)) s \<or>
         egress_full env (queue_egress_occupancy s k + GetPacketOccupancy pkt) (queue_egress_alpha s k) s")
    case True
    then show ?thesis
      using assms by (auto simp: RequestEnqueue_def Let_def same_packet_def split: if_splits)
  next
    case False
    obtain pkt1 s1 where e: "(if ecn_stage s k = kEnqueueMark then PerformEcnMarking env now k pkt s else (pkt, s)) = (pkt1, s1)"
      by fastforce
    have m: "mem s1 = mem s" "same_packet pkt1 pkt"
      using e ecn_same [of env now k pkt s pkt1 s1] by (auto simp: same_packet_def split: if_splits)
    have r: "GetPacketOccupancy pkt \<le> egress_pool_free_cells s1" "ok" "pkt' = pkt1"
      "s' = s1\<lparr>egress_pool_free_cells := egress_pool_free_cells s1 - GetPacketOccupancy pkt,
         port_egress_occupancy := (port_egress_occupancy s1)(fst k := port_egress_occupancy s1 (fst k) + GetPacketOccupancy pkt),
         queue_egress_occupancy := (queue_egress_occupancy s1)(k := queue_egress_occupancy s1 k + GetPacketOccupancy pkt)\<rparr>"
      using assms False e by (auto simp: RequestEnqueue_def Let_def split: if_splits)
    then show ?thesis using m mem_fields [OF m(1)] by (simp add: mem_def)
  qed
  then show "same_packet pkt' pkt" "\<not> ok \<Longrightarrow> s' = s \<and> \<not> support_pfc s"
    "ok \<Longrightarrow> GetPacketOccupancy pkt \<le> egress_pool_free_cells s \<and>
       mem s' = mem (s\<lparr>egress_pool_free_cells := egress_pool_free_cells s - GetPacketOccupancy pkt,
         port_egress_occupancy := (port_egress_occupancy s)(fst k := port_egress_occupancy s (fst k) + GetPacketOccupancy pkt),
         queue_egress_occupancy := (queue_egress_occupancy s)(k := queue_egress_occupancy s k + GetPacketOccupancy pkt)\<rparr>)"
    by blast+
qed

lemma queued_mono: "finite K \<Longrightarrow> J \<subseteq> K \<Longrightarrow> queued w qs J \<le> queued w qs K"
  unfolding queued_def by (rule sum_mono2) auto

lemma holds_queue:
  assumes "packet_queues s' = (packet_queues s)(k := xs)" "pipeline s' = pipeline s" "qids s' = qids s"
  shows "holds s' \<subseteq> snd ` set (pipeline s) \<union> set (discarded s') \<union> set xs \<union>
    (\<Union>j \<in> qids s - {k}. set (packet_queues s j))"
  using assms by (auto simp: holds_def split: if_splits)

lemma enqueue_inv:
  assumes "memory_inv C P (s\<lparr>discarded := discarded s @ [pkt]\<rparr>)" "k \<in> qids s"
    and "RequestEnqueue env now k pkt s = Some (pkt', s1, ok)"
  shows "memory_inv C P (if ok then s1\<lparr>packet_queues := (packet_queues s1)(k := packet_queues s1 k @ [pkt'])\<rparr> else s1)"
proof (cases ok)
  case False
  let ?s = "s\<lparr>discarded := discarded s @ [pkt]\<rparr>"
  have "s1 = s" "\<not> support_pfc s" using RequestEnqueue_facts(2) [OF assms(3) False] by simp_all
  moreover have "?s\<lparr>pipeline := pipeline s, discarded := discarded s\<rparr> = s" by simp
  ultimately show ?thesis using forward_inv [OF assms(1), where pl = "pipeline s" and ds = "discarded s"] False by simp
next
  case True
  let ?h = "s\<lparr>discarded := discarded s @ [pkt]\<rparr>"
  let ?s = "s1\<lparr>packet_queues := (packet_queues s1)(k := packet_queues s1 k @ [pkt'])\<rparr>"
  let ?o = "GetPacketOccupancy pkt"
  have sp: "same_packet pkt' pkt" by (rule RequestEnqueue_facts(1) [OF assms(3)])
  have r: "?o \<le> egress_pool_free_cells s"
    "mem s1 = mem (s\<lparr>egress_pool_free_cells := egress_pool_free_cells s - ?o,
         port_egress_occupancy := (port_egress_occupancy s)(fst k := port_egress_occupancy s (fst k) + ?o),
         queue_egress_occupancy := (queue_egress_occupancy s)(k := queue_egress_occupancy s k + ?o)\<rparr>)"
    using RequestEnqueue_facts(3) [OF assms(3) True] by blast+
  note f = mem_fields [OF r(2), simplified]
  have q: "qids s1 = qids s" "qids ?s = qids s" "qids ?h = qids s" using f by (simp_all add: qids_def)
  have "egress_inv C ?h" using assms(1) by (simp add: memory_inv_def)
  then have E0: "egress_inv C s" by (rule egress_inv_cong) simp_all
  have E: "C < 2 ^ 64" "unat (egress_pool_free_cells s) + queued occ (packet_queues s) (qids s) = C"
    "\<And>p. p < ports_num s \<Longrightarrow> unat (port_egress_occupancy s p) = queued occ (packet_queues s) ({p} \<times> {..<queues_num s})"
    "unat (queue_egress_occupancy s k) = tot occ (packet_queues s k)"
    using E0 assms(2) unfolding egress_inv_def by blast+
  have p: "fst k < ports_num s" "{fst k} \<times> {..<queues_num s} \<subseteq> qids s" using assms(2) by (auto simp: qids_def)
  have op: "occ pkt \<le> unat (egress_pool_free_cells s)" using r(1) by (simp add: word_le_nat_alt)
  have pq: "queued occ (packet_queues s) ({fst k} \<times> {..<queues_num s}) \<le> queued occ (packet_queues s) (qids s)"
    "tot occ (packet_queues s k) \<le> queued occ (packet_queues s) (qids s)"
    using queued_mono [OF finite_qids p(2)] queued_mono [OF finite_qids, of "{k}" s occ "packet_queues s"] assms(2)
    by (simp_all add: queued_def)
  have "unat (port_egress_occupancy s (fst k) + ?o) = unat (port_egress_occupancy s (fst k)) + occ pkt"
    by (rule unat_add_small) (use E(1,2) E(3) [OF p(1)] op pq in linarith)
  moreover have "unat (queue_egress_occupancy s k + ?o) = unat (queue_egress_occupancy s k) + occ pkt"
    by (rule unat_add_small) (use E(1,2,4) op pq in linarith)
  moreover have "unat (egress_pool_free_cells s - ?o) + occ pkt = unat (egress_pool_free_cells s)"
    by (rule sub_unat [OF r(1)])
  moreover have "occ pkt' = occ pkt" using same_weights(1) [OF sp] .
  ultimately have "egress_inv C ?s"
    using f E(4) by (intro egress_change [OF E0 assms(2), of _ "packet_queues s k @ [pkt']"
      "port_egress_occupancy s (fst k) + ?o" "queue_egress_occupancy s k + ?o"]) simp_all
  moreover have "ingress_inv P ?s" if "support_pfc s"
  proof -
    have I: "ingress_inv P ?h" using that assms(1) by (simp add: memory_inv_def)
    have h: "held w ?s = held w ?h" if "w pkt' = w pkt" for w
    proof -
      have "queued w (packet_queues ?s) (qids s) = queued w (packet_queues s) (qids s) + w pkt'"
        using queued_update [OF finite_qids assms(2), of w "packet_queues s" "packet_queues s k @ [pkt']"] f by simp
      then show ?thesis using f q that by (simp add: held_def)
    qed
    have h': "held w ?s = held w ?h" if "w \<in> {w_pool} \<union> (\<Union>k. {at_key k w_took, at_key k w_head, at_key k occ})" for w
      using that same_weights [OF sp] by (intro h) auto
    have "holds ?s \<subseteq> insert pkt' (holds s)" "holds ?h = insert pkt (holds s)"
      using f by (auto simp: holds_def qids_def split: if_splits)
    then have keys: "(\<lambda>p. (tag_key p, tag_fits p)) ` holds ?s \<subseteq> (\<lambda>p. (tag_key p, tag_fits p)) ` holds ?h"
      using same_weights(3,8) [OF sp] by blast
    show ?thesis by (rule ingress_inv_cong [OF I h' keys]) (use f in \<open>simp_all add: qids_def\<close>)
  qed
  ultimately have "memory_inv C P ?s" using assms(1) f by (simp add: memory_inv_def small_config_def)
  then show ?thesis using True by simp
qed

lemma release_egress_mem:
  "release_egress now k cells s = Some s' \<Longrightarrow>
     cells \<le> port_egress_occupancy s (fst k) \<and> cells \<le> queue_egress_occupancy s k \<and>
     mem s' = mem (s\<lparr>egress_pool_free_cells := egress_pool_free_cells s + cells,
       port_egress_occupancy := (port_egress_occupancy s)(fst k := port_egress_occupancy s (fst k) - cells),
       queue_egress_occupancy := (queue_egress_occupancy s)(k := queue_egress_occupancy s k - cells)\<rparr>)"
  by (auto simp: release_egress_def Let_def split: if_splits option.splits)

definition ingress_released :: "FabricPacket \<Rightarrow> Router \<Rightarrow> Router \<Rightarrow> bool" where
  "ingress_released pkt s s' \<longleftrightarrow> (\<exists>t. ingress_tag pkt = Some t \<and>
     (let k = (tag_port t, tag_priority t); cells = GetPacketOccupancy pkt in
      cells = tag_minimal_guarantee t + tag_shared_pool t + tag_headroom t \<and>
      tag_minimal_guarantee t \<le> guarantee_occupancy s k \<and> tag_headroom t \<le> headroom_occupancy s k \<and>
      cells \<le> queue_ingress_occupancy s k \<and>
      mem s' = mem (s\<lparr>guarantee_occupancy := (guarantee_occupancy s)(k := guarantee_occupancy s k - tag_minimal_guarantee t),
         headroom_occupancy := (headroom_occupancy s)(k := headroom_occupancy s k - tag_headroom t),
         ingress_pool_free_cells := ingress_pool_free_cells s + tag_shared_pool t,
         queue_ingress_occupancy := (queue_ingress_occupancy s)(k := queue_ingress_occupancy s k - cells)\<rparr>)))"

lemma release_ingress_mem:
  assumes "release_ingress env now pkt s = Some (pkt', s')"
  shows "if support_pfc s then ingress_released pkt s s' else mem s' = mem s"
proof (cases "support_pfc s")
  case True
  then obtain t s1 where t: "ingress_tag pkt = Some t" "IngressAccountingRelease pkt s = Some (pkt', s1)" "mem s' = mem s1"
    using assms by (fastforce simp: release_ingress_def Let_def split: bind_splits if_splits dest: DisablePfcSending_mem)
  then show ?thesis
    using True by (auto simp: ingress_released_def IngressAccountingRelease_def Let_def split: if_splits)
qed (use assms in \<open>simp add: release_ingress_def\<close>)

lemma released_inv:
  assumes "ingress_inv P s" "k \<in> qids s" "packet_queues s k = pkt # rest" "same_packet pkt1 pkt"
    and "mem s1 = mem (s\<lparr>packet_queues := (packet_queues s)(k := rest)\<rparr>)" "ingress_released pkt1 s1 s'"
  shows "ingress_inv P s'"
proof -
  obtain t where t: "ingress_tag pkt = Some t" "ingress_tag pkt1 = Some t"
    using assms(4,6) by (auto simp: ingress_released_def same_packet_def)
  define c where "c = (tag_port t, tag_priority t)"
  let ?o = "GetPacketOccupancy pkt"
  have o: "GetPacketOccupancy pkt1 = ?o" using same_weights(7) [OF assms(4)] .
  note f = mem_fields [OF assms(5), simplified]
  have R: "tag_minimal_guarantee t \<le> guarantee_occupancy s c" "tag_headroom t \<le> headroom_occupancy s c"
    "mem s' = mem (s1\<lparr>guarantee_occupancy := (guarantee_occupancy s)(c := guarantee_occupancy s c - tag_minimal_guarantee t),
         headroom_occupancy := (headroom_occupancy s)(c := headroom_occupancy s c - tag_headroom t),
         ingress_pool_free_cells := ingress_pool_free_cells s + tag_shared_pool t,
         queue_ingress_occupancy := (queue_ingress_occupancy s)(c := queue_ingress_occupancy s c - ?o)\<rparr>)"
    using assms(6) t o f by (simp_all add: ingress_released_def c_def Let_def)
  note g = mem_fields [OF R(3), simplified, unfolded f]
  have q: "qids s' = qids s" using g by (simp add: qids_def)
  have took: "w_took pkt = unat (tag_minimal_guarantee t)"
  proof -
    have "pkt \<in> set (packet_queues s k)" using assms(3) by simp
    then have "pkt \<in> holds s" unfolding holds_def using assms(2) by blast
    then have "tag_fits pkt" using assms(1) by (simp add: ingress_inv_def)
    then have le: "unat (tag_minimal_guarantee t) + (unat (tag_shared_pool t) + unat (tag_headroom t)) \<le> occ pkt"
      using t(1) by (simp add: tag_fits_def w_min_def w_pool_def w_head_def)
    have "?o = tag_minimal_guarantee t + (tag_shared_pool t + tag_headroom t)"
      using assms(6) t o by (simp add: ingress_released_def Let_def add.assoc)
    moreover have b: "occ pkt < 2 ^ 64" using unsigned_less [of ?o, where 'a = nat] by simp
    ultimately have "occ pkt = unat (tag_minimal_guarantee t) + (unat (tag_shared_pool t) + unat (tag_headroom t))"
      using le unat_add_small [of "tag_shared_pool t" "tag_headroom t"]
        unat_add_small [of "tag_minimal_guarantee t" "tag_shared_pool t + tag_headroom t"] by simp
    then show ?thesis using t(1) by (simp add: w_took_def w_pool_def w_head_def)
  qed
  have held: "held w s = held w s' + w pkt" for w
  proof -
    have "queued w ((packet_queues s)(k := rest)) (qids s) + tot w (packet_queues s k) = queued w (packet_queues s) (qids s) + tot w rest"
      by (rule queued_update [OF finite_qids assms(2)])
    then show ?thesis using g q assms(3) by (simp add: held_def)
  qed
  have w: "w_pool pkt = unat (tag_shared_pool t)" "at_key j w_took pkt = (if j = c then unat (tag_minimal_guarantee t) else 0)"
    "at_key j w_head pkt = (if j = c then unat (tag_headroom t) else 0)"
    "at_key j occ pkt = (if j = c then unat ?o else 0)" for j
    using t(1) took by (auto simp: w_pool_def at_key_def tag_key_def w_head_def c_def)
  have I: "P < 2 ^ 64" "\<And>p. p \<in> holds s \<Longrightarrow> tag_fits p \<and> (\<exists>k \<in> qids s. tag_key p = Some k)"
    "unat (ingress_pool_free_cells s) + held w_pool s = P"
    "\<And>j. j \<in> qids s \<Longrightarrow> unat (headroom_occupancy s j) = held (at_key j w_head) s \<and>
        headroom_occupancy s j \<le> headroom s j \<and>
        unat (guarantee_occupancy s j) = held (at_key j w_took) s \<and> guarantee_occupancy s j \<le> guarantee s j \<and>
        queue_ingress_occupancy s j = of_nat (held (at_key j occ) s)"
    using assms(1) unfolding ingress_inv_def by blast+
  have "holds s' \<subseteq> holds s" using g assms(3) q by (auto simp: holds_def split: if_splits)
  then have "tag_fits p \<and> (\<exists>k \<in> qids s'. tag_key p = Some k)" if "p \<in> holds s'" for p using that I(2) q by blast
  moreover have "unat (ingress_pool_free_cells s + tag_shared_pool t) = unat (ingress_pool_free_cells s) + unat (tag_shared_pool t)"
    by (rule unat_add_small) (use I(1,3) held [of w_pool] w(1) in linarith)
  then have "unat (ingress_pool_free_cells s') + held w_pool s' = P"
    using I(3) held [of w_pool] w(1) g by simp
  moreover have "unat (headroom_occupancy s' j) = held (at_key j w_head) s' \<and>
        headroom_occupancy s' j \<le> headroom s' j \<and>
        unat (guarantee_occupancy s' j) = held (at_key j w_took) s' \<and> guarantee_occupancy s' j \<le> guarantee s' j \<and>
        queue_ingress_occupancy s' j = of_nat (held (at_key j occ) s')" if "j \<in> qids s'" for j
  proof -
    have j: "j \<in> qids s" using that q by simp
    note Ij = I(4) [OF j]
    show ?thesis
    proof (cases "j = c")
      case False
      then show ?thesis
        using Ij held [of "at_key j w_head"] held [of "at_key j w_took"] held [of "at_key j occ"] w g by simp
    next
      case True
      have h: "unat (headroom_occupancy s c - tag_headroom t) + unat (tag_headroom t) = unat (headroom_occupancy s c)"
        "unat (guarantee_occupancy s c - tag_minimal_guarantee t) + unat (tag_minimal_guarantee t) = unat (guarantee_occupancy s c)"
        by (rule sub_unat [OF R(2)], rule sub_unat [OF R(1)])
      have "queue_ingress_occupancy s c - ?o = of_nat (held (at_key c occ) s')"
        using Ij held [of "at_key c occ"] w(4) [of c] True by simp
      moreover have "headroom_occupancy s c - tag_headroom t \<le> headroom s c"
        "guarantee_occupancy s c - tag_minimal_guarantee t \<le> guarantee s c"
        using Ij h True by (simp_all add: word_le_nat_alt)
      ultimately show ?thesis
        using Ij held [of "at_key c w_head"] held [of "at_key c w_took"] w(2,3) [of c] g True h by simp
    qed
  qed
  ultimately show ?thesis using I(1) unfolding ingress_inv_def by blast
qed

lemma released_fields:
  "ingress_released pkt s s' \<or> mem s' = mem s \<Longrightarrow>
     ports_num s' = ports_num s \<and> queues_num s' = queues_num s \<and> support_pfc s' = support_pfc s \<and>
     packet_queues s' = packet_queues s \<and> egress_pool_free_cells s' = egress_pool_free_cells s \<and>
     port_egress_occupancy s' = port_egress_occupancy s \<and> queue_egress_occupancy s' = queue_egress_occupancy s \<and>
     guarantee s' = guarantee s \<and> headroom s' = headroom s"
  by (auto simp: ingress_released_def Let_def mem_def)

lemma dequeue_inv:
  assumes "memory_inv C P s" "k \<in> qids s" "packet_queues s k = pkt # rest"
    and "DequeuedPacket env now k pkt (s\<lparr>packet_queues := (packet_queues s)(k := rest)\<rparr>) = Some (pkt', s')"
  shows "memory_inv C P s'"
proof -
  let ?s0 = "s\<lparr>packet_queues := (packet_queues s)(k := rest)\<rparr>"
  let ?o = "GetPacketOccupancy pkt"
  obtain pkt1 s1 where e: "(if ecn_stage ?s0 k = kDequeueMark then PerformEcnMarking env now k pkt ?s0 else (pkt, ?s0)) = (pkt1, s1)"
    by fastforce
  have m1: "mem s1 = mem ?s0" "same_packet pkt1 pkt"
    using e ecn_same [of env now k pkt ?s0 pkt1 s1] by (auto simp: same_packet_def split: if_splits)
  obtain pkt2 s2 where r: "release_ingress env now pkt1 s1 = Some (pkt2, s2)"
    "release_egress now k (GetPacketOccupancy pkt1) s2 = Some s'"
    using assms(4) e by (auto simp: DequeuedPacket_def split: bind_splits)
  have o: "GetPacketOccupancy pkt1 = ?o" using same_weights(7) [OF m1(2)] .
  note f1 = mem_fields [OF m1(1), simplified]
  have s2: "ports_num s2 = ports_num s" "queues_num s2 = queues_num s" "support_pfc s2 = support_pfc s"
    "packet_queues s2 = (packet_queues s)(k := rest)" "egress_pool_free_cells s2 = egress_pool_free_cells s"
    "port_egress_occupancy s2 = port_egress_occupancy s" "queue_egress_occupancy s2 = queue_egress_occupancy s"
    "guarantee s2 = guarantee s" "headroom s2 = headroom s"
    using released_fields [of pkt1 s1 s2] release_ingress_mem [OF r(1)] f1 by (simp_all split: if_splits)
  have r2: "?o \<le> port_egress_occupancy s (fst k)" "?o \<le> queue_egress_occupancy s k"
    "mem s' = mem (s2\<lparr>egress_pool_free_cells := egress_pool_free_cells s + ?o,
       port_egress_occupancy := (port_egress_occupancy s)(fst k := port_egress_occupancy s (fst k) - ?o),
       queue_egress_occupancy := (queue_egress_occupancy s)(k := queue_egress_occupancy s k - ?o)\<rparr>)"
    using release_egress_mem [OF r(2)] s2 o by simp_all
  note f2 = mem_fields [OF r2(3), simplified, unfolded s2]
  have E0: "egress_inv C s" using assms(1) by (simp add: memory_inv_def)
  have E: "C < 2 ^ 64" "unat (egress_pool_free_cells s) + queued occ (packet_queues s) (qids s) = C"
    "unat (queue_egress_occupancy s k) = tot occ (packet_queues s k)"
    using E0 assms(2) unfolding egress_inv_def by blast+
  have "occ pkt \<le> queued occ (packet_queues s) (qids s)"
    using queued_member [OF finite_qids assms(2), of pkt "packet_queues s" occ] assms(3) by simp
  then have "unat (egress_pool_free_cells s + ?o) = unat (egress_pool_free_cells s) + occ pkt"
    by (intro unat_add_small) (use E(1,2) in linarith)
  moreover have "unat (port_egress_occupancy s (fst k) - ?o) + occ pkt = unat (port_egress_occupancy s (fst k))"
    "unat (queue_egress_occupancy s k - ?o) + occ pkt = unat (queue_egress_occupancy s k)"
    by (rule sub_unat [OF r2(1)], rule sub_unat [OF r2(2)])
  ultimately have "egress_inv C s'"
    using f2 E(3) assms(3) by (intro egress_change [OF E0 assms(2), of s' rest
      "port_egress_occupancy s (fst k) - ?o" "queue_egress_occupancy s k - ?o"]) simp_all
  moreover have "ingress_inv P s'" if "support_pfc s"
  proof -
    have "ingress_inv P s" using that assms(1) by (simp add: memory_inv_def)
    moreover have "ingress_released pkt1 s1 s2" using release_ingress_mem [OF r(1)] that f1 by simp
    ultimately have I: "ingress_inv P s2" by (rule released_inv [OF _ assms(2,3) m1(2,1)])
    have q: "qids s' = qids s2" "holds s' = holds s2" "\<And>w. held w s' = held w s2"
      using f2 s2 by (simp_all add: qids_def holds_def held_def)
    show ?thesis by (rule ingress_inv_cong [OF I q(3)]) (use q f2 s2 in simp_all)
  qed
  ultimately show ?thesis using assms(1) f2 by (simp add: memory_inv_def small_config_def)
qed

end
