(* ===== verification/Router_Control.thy ===== *)
theory Router_Control
  imports Router_Conservation
begin

text \<open>
  The control state of a router: the states of its ports, their pending events, pausing and the messages
  that end a pause. \<open>port_inv\<close> says that an active port has exactly one output event pending, that the
  channel is free when it comes, and, while no frame ended a pause early (\<open>live\<close>), that an idle port has
  nothing it could send or is woken at the end of the pause. A port in \<open>X\<close> is handling its output event.
\<close>

definition ctl where
  "ctl s = (ports_num s, queues_num s, support_pfc s, pfc_sending_triggered s, send_pause_at s, set_paused_at s,
     refresh_at s, unpause_time s, packet_queues s, pfc_queue s, port_state s, output_at s, tx_finish s, pfc_xon s)"

definition messages_ok :: "int \<Rightarrow> Router \<Rightarrow> bool" where
  "messages_ok now s \<longleftrightarrow>
     (\<forall>k. refresh_at s k \<noteq> None \<longrightarrow> k \<in> qids s) \<and> (\<forall>k. set_paused_at s k \<noteq> None \<longrightarrow> k \<in> qids s) \<and>
     (\<forall>k. send_pause_at s k \<noteq> None \<longrightarrow> k \<in> qids s) \<and> (\<forall>k. pfc_sending_triggered s k \<longrightarrow> k \<in> qids s) \<and>
     (\<forall>p. output_at s p \<noteq> None \<longrightarrow> p < ports_num s) \<and>
     (\<forall>k t. refresh_at s k = Some t \<longrightarrow> t = unpause_time s k) \<and>
     (\<forall>k. now < unpause_time s k \<longrightarrow> refresh_at s k \<noteq> None)"

definition waits :: "Router \<Rightarrow> nat \<Rightarrow> bool" where
  "waits s p \<longleftrightarrow> pfc_queue s p = [] \<and> (\<forall>q < queues_num s. packet_queues s (p, q) \<noteq> [] \<longrightarrow>
     support_pfc s \<and> refresh_at s (p, q) = Some (unpause_time s (p, q)))"

definition port_ok :: "bool \<Rightarrow> nat set \<Rightarrow> int \<Rightarrow> Router \<Rightarrow> nat \<Rightarrow> bool" where
  "port_ok live X now s p \<longleftrightarrow>
     (port_state s p = P_kActive \<longleftrightarrow> output_at s p \<noteq> None \<or> p \<in> X) \<and> (p \<in> X \<longrightarrow> output_at s p = None) \<and>
     length (pfc_queue s p) \<le> 1 \<and>
     (case output_at s p of Some t \<Rightarrow> tx_finish s p \<le> t | None \<Rightarrow> tx_finish s p \<le> now) \<and>
     (live \<and> port_state s p = P_kIdle \<longrightarrow> waits s p)"

definition port_inv :: "bool \<Rightarrow> nat set \<Rightarrow> int \<Rightarrow> Router \<Rightarrow> bool" where
  "port_inv live X now s \<longleftrightarrow> messages_ok now s \<and> (\<forall>p < ports_num s. port_ok live X now s p)"

lemma ctl_fields:
  assumes "ctl s' = ctl s"
  shows "ports_num s' = ports_num s" "queues_num s' = queues_num s" "support_pfc s' = support_pfc s"
    "pfc_sending_triggered s' = pfc_sending_triggered s" "send_pause_at s' = send_pause_at s"
    "set_paused_at s' = set_paused_at s" "refresh_at s' = refresh_at s" "unpause_time s' = unpause_time s"
    "packet_queues s' = packet_queues s" "pfc_queue s' = pfc_queue s" "port_state s' = port_state s"
    "output_at s' = output_at s" "tx_finish s' = tx_finish s" "pfc_xon s' = pfc_xon s"
  using assms by (simp_all add: ctl_def)

lemma port_inv_ctl:
  assumes "ctl s' = ctl s"
  shows "port_inv live X now s' = port_inv live X now s"
  by (simp only: port_inv_def messages_ok_def port_ok_def waits_def qids_def ctl_fields [OF assms])

lemma port_ok_cong:
  assumes "port_state s' p = port_state s p" "output_at s' p = output_at s p" "pfc_queue s' p = pfc_queue s p"
    and "tx_finish s' p = tx_finish s p" "queues_num s' = queues_num s" "support_pfc s' = support_pfc s"
    and "\<And>q. packet_queues s' (p, q) = packet_queues s (p, q)" "\<And>q. refresh_at s' (p, q) = refresh_at s (p, q)"
    and "\<And>q. unpause_time s' (p, q) = unpause_time s (p, q)"
  shows "port_ok live X now s' p = port_ok live X now s p"
  by (simp only: port_ok_def waits_def assms)

lemma port_inv_later: "port_inv live X now s \<Longrightarrow> now \<le> now' \<Longrightarrow> port_inv live X now' s"
proof -
  assume a: "port_inv live X now s" "now \<le> now'"
  have "messages_ok now' s" using a by (fastforce simp: port_inv_def messages_ok_def)
  moreover have "port_ok live X now' s p" if "p < ports_num s" for p
    using a that by (auto simp: port_inv_def port_ok_def split: option.splits)
  ultimately show ?thesis by (simp add: port_inv_def)
qed

lemma port_state_cases: "port_state s p = P_kIdle \<longleftrightarrow> port_state s p \<noteq> P_kActive"
  by (cases "port_state s p") auto

section \<open>Pause frames\<close>

text \<open>A control frame queued at a port: the port is active afterwards.\<close>

lemma GeneratePfc_facts:
  assumes "port_inv live X now s" "p < ports_num s" "GeneratePfc now p q u s = Some s'"
  shows "port_inv live X now s'" "qids s' = qids s" "ports_num s' = ports_num s" "send_pause_at s' = send_pause_at s"
    "pfc_sending_triggered s' = pfc_sending_triggered s" "packet_queues s' = packet_queues s"
proof -
  obtain f where f: "s' = (let s1 = s\<lparr>pfc_queue := (pfc_queue s)(p := [f])\<rparr> in
      if port_state s p = P_kIdle
      then s1\<lparr>port_state := (port_state s)(p := P_kActive), output_at := (output_at s)(p \<mapsto> now + kEnqueueDelay)\<rparr>
      else s1)"
    using assms(3) unfolding GeneratePfc_def
    by (fastforce simp: Let_def router_ScheduleOutput_def split: list.splits if_splits bind_splits)
  show fr: "qids s' = qids s" "ports_num s' = ports_num s" "send_pause_at s' = send_pause_at s"
    "pfc_sending_triggered s' = pfc_sending_triggered s" "packet_queues s' = packet_queues s"
    by (simp_all add: f Let_def qids_def)
  have "messages_ok now s'"
    using assms(1,2) unfolding f by (simp add: port_inv_def messages_ok_def qids_def Let_def)
  moreover have "port_ok live X now s' r" if r: "r < ports_num s" for r
  proof (cases "r = p")
    case False
    then have "port_ok live X now s' r = port_ok live X now s r"
      unfolding f Let_def by (intro port_ok_cong) simp_all
    then show ?thesis using assms(1) r by (simp add: port_inv_def)
  next
    case True
    have ok: "port_ok live X now s p" using assms(1,2) by (simp add: port_inv_def)
    show ?thesis
    proof (cases "port_state s p")
      case P_kIdle
      then have "output_at s p = None" "tx_finish s p \<le> now" "p \<notin> X" using ok by (auto simp: port_ok_def)
      then show ?thesis using True P_kIdle unfolding f by (simp add: port_ok_def Let_def kEnqueueDelay_def)
    next
      case P_kActive
      then show ?thesis using True ok unfolding f by (cases "output_at s p") (simp_all add: port_ok_def Let_def)
    qed
  qed
  ultimately show "port_inv live X now s'" using fr by (simp add: port_inv_def)
qed

lemma send_pause_inv:
  assumes "port_inv live X now s" "k \<in> qids s"
  shows "port_inv live X now (s\<lparr>send_pause_at := (send_pause_at s)(k := t)\<rparr>)"
proof -
  have "messages_ok now (s\<lparr>send_pause_at := (send_pause_at s)(k := t)\<rparr>)"
    using assms by (cases k) (simp add: port_inv_def messages_ok_def qids_def)
  moreover have "port_ok live X now (s\<lparr>send_pause_at := (send_pause_at s)(k := t)\<rparr>) p = port_ok live X now s p" for p
    by (intro port_ok_cong) simp_all
  ultimately show ?thesis using assms(1) by (simp add: port_inv_def)
qed

lemma triggered_inv:
  assumes "port_inv live X now s" "k \<in> qids s"
  shows "port_inv live X now (s\<lparr>pfc_sending_triggered := (pfc_sending_triggered s)(k := b)\<rparr>)"
proof -
  have "messages_ok now (s\<lparr>pfc_sending_triggered := (pfc_sending_triggered s)(k := b)\<rparr>)"
    using assms by (cases k) (simp add: port_inv_def messages_ok_def qids_def)
  moreover have "port_ok live X now (s\<lparr>pfc_sending_triggered := (pfc_sending_triggered s)(k := b)\<rparr>) p =
      port_ok live X now s p" for p
    by (intro port_ok_cong) simp_all
  ultimately show ?thesis using assms(1) by (simp add: port_inv_def)
qed

lemma SendPfc_inv:
  assumes "port_inv live X now s" "(p, q) \<in> qids s" "SendPfc env now p q s = Some s'"
  shows "port_inv live X now s'" "qids s' = qids s"
proof -
  have p: "p < ports_num s" using assms(2) by (simp add: qids_def)
  consider "s' = s" | s1 u t where "GeneratePfc now p q u s = Some s1"
    "s' = s1\<lparr>send_pause_at := (send_pause_at s1)((p, q) \<mapsto> t)\<rparr>"
    using assms(3) by (auto simp: SendPfc_def Let_def split: if_splits bind_splits)
  then have "port_inv live X now s' \<and> qids s' = qids s"
  proof cases
    case (2 s1 u t)
    note g = GeneratePfc_facts [OF assms(1) p 2(1)]
    have "(p, q) \<in> qids s1" using g(2) assms(2) by simp
    then show ?thesis using send_pause_inv [OF g(1), of "(p, q)" "Some t"] g(2) 2(2) by (simp add: qids_def)
  qed (use assms(1) in simp)
  then show "port_inv live X now s'" "qids s' = qids s" by blast+
qed

lemma EnablePfcSending_inv:
  assumes "port_inv live X now s" "(p, q) \<in> qids s" "EnablePfcSending env now p q s = Some s'"
  shows "port_inv live X now s'" "qids s' = qids s"
proof -
  let ?s = "s\<lparr>pfc_sending_triggered := (pfc_sending_triggered s)((p, q) := True)\<rparr>"
  have "(p, q) \<in> qids ?s" "qids ?s = qids s" using assms(2) by (simp_all add: qids_def)
  then show "port_inv live X now s'" "qids s' = qids s"
    using SendPfc_inv [OF triggered_inv [OF assms(1,2), of True], of p q env s'] assms(3)
    unfolding EnablePfcSending_def by simp_all
qed

lemma DisablePfcSending_inv:
  assumes "port_inv live X now s" "(p, q) \<in> qids s" "DisablePfcSending now p q s = Some s'"
  shows "port_inv live X now s'" "qids s' = qids s"
proof -
  let ?s = "s\<lparr>pfc_sending_triggered := (pfc_sending_triggered s)((p, q) := False)\<rparr>"
  have t: "port_inv live X now ?s" by (rule triggered_inv [OF assms(1,2)])
  have p: "p < ports_num ?s" using assms(2) by (simp add: qids_def)
  have q: "qids ?s = qids s" by (simp add: qids_def)
  have "s' = ?s \<or> GeneratePfc now p q 0 ?s = Some s'"
    using assms(3) unfolding DisablePfcSending_def Let_def by (metis option.inject)
  then have "port_inv live X now s' \<and> qids s' = qids ?s"
    using t GeneratePfc_facts(1,2) [OF t p] by metis
  then show "port_inv live X now s'" "qids s' = qids s" using q by simp_all
qed

section \<open>Memory operations\<close>

lemma ctl_updates [simp]:
  "ctl (s\<lparr>ingress_pool_free_cells := a1\<rparr>) = ctl s" "ctl (s\<lparr>egress_pool_free_cells := a2\<rparr>) = ctl s"
  "ctl (s\<lparr>port_egress_occupancy := a3\<rparr>) = ctl s" "ctl (s\<lparr>queue_egress_occupancy := a4\<rparr>) = ctl s"
  "ctl (s\<lparr>queue_ingress_occupancy := a5\<rparr>) = ctl s" "ctl (s\<lparr>guarantee_occupancy := a6\<rparr>) = ctl s"
  "ctl (s\<lparr>headroom_occupancy := a7\<rparr>) = ctl s" "ctl (s\<lparr>policies := a8\<rparr>) = ctl s"
  "ctl (s\<lparr>pipeline := a9\<rparr>) = ctl s" "ctl (s\<lparr>discarded := a10\<rparr>) = ctl s" "ctl (s\<lparr>sent := a11\<rparr>) = ctl s"
  by (simp_all add: ctl_def)

lemma place_ingress_ctl: "place_ingress k c s = Some (s', m) \<Longrightarrow> ctl s' = ctl s"
  by (auto simp: place_ingress_def Let_def split: if_splits)

lemma ecn_ctl: "PerformEcnMarking env now k pkt s = (pkt', s') \<Longrightarrow> ctl s' = ctl s"
  by (auto simp: PerformEcnMarking_def split: option.splits if_splits prod.splits)

lemma RequestEnqueue_ctl: "RequestEnqueue env now k pkt s = Some (pkt', s', ok) \<Longrightarrow> ctl s' = ctl s"
  by (auto simp: RequestEnqueue_def Let_def split: if_splits prod.splits dest: ecn_ctl)

lemma release_egress_ctl: "release_egress now k c s = Some s' \<Longrightarrow> ctl s' = ctl s"
  by (auto simp: release_egress_def Let_def split: if_splits option.splits)

lemma IngressAccountingRelease_ctl: "IngressAccountingRelease pkt s = Some (pkt', s') \<Longrightarrow> ctl s' = ctl s"
  by (auto simp: IngressAccountingRelease_def Let_def split: bind_splits if_splits)

lemma ctl_qids: "ctl s' = ctl s \<Longrightarrow> qids s' = qids s"
  by (simp add: ctl_def qids_def)

lemma run_if_Some: "(if b then r else Some s) = Some s1 \<Longrightarrow> s1 = s \<or> r = Some s1"
  by (simp split: if_splits)

lemma ReceivedData_ctl:
  assumes "ReceivedData env now p c q s = Some (s', m)"
  obtains s1 where "s1 = s \<or> EnablePfcSending env now p q s = Some s1" "ctl s' = ctl s1"
proof (cases "support_pfc s")
  case False
  then have "s' = s" using assms by (simp add: ReceivedData_def Let_def)
  then show ?thesis using that by blast
next
  case True
  show ?thesis
    using assms True
    apply (simp only: ReceivedData_def Let_def not_True_eq_False if_False bind_eq_Some_conv)
    apply (elim exE conjE)
    apply (rule that, erule run_if_Some)
    apply (auto split: if_splits option.splits prod.splits dest: place_ingress_ctl)
    done
qed

lemma ReceivedData_inv:
  assumes "port_inv live X now s" "(p, q) \<in> qids s" "ReceivedData env now p c q s = Some (s', m)"
  shows "port_inv live X now s'" "qids s' = qids s"
proof -
  obtain s1 where s1: "s1 = s \<or> EnablePfcSending env now p q s = Some s1" "ctl s' = ctl s1"
    using assms(3) by (rule ReceivedData_ctl)
  then have "port_inv live X now s1 \<and> qids s1 = qids s"
    using assms(1) EnablePfcSending_inv [OF assms(1,2), of env s1] by blast
  then show "port_inv live X now s'" "qids s' = qids s"
    using port_inv_ctl [OF s1(2)] ctl_qids [OF s1(2)] by simp_all
qed

lemma release_ingress_inv:
  assumes "port_inv live X now s" "support_pfc s \<Longrightarrow> \<exists>k \<in> qids s. tag_key pkt = Some k"
    and "release_ingress env now pkt s = Some (pkt', s')"
  shows "port_inv live X now s'" "qids s' = qids s"
proof -
  have "port_inv live X now s' \<and> qids s' = qids s"
  proof (cases "support_pfc s")
    case True
    then obtain t s1 where t: "ingress_tag pkt = Some t" "IngressAccountingRelease pkt s = Some (pkt', s1)"
      "s' = s1 \<or> DisablePfcSending now (tag_port t) (tag_priority t) s1 = Some s'"
      using assms(3) by (auto simp: release_ingress_def Let_def split: bind_splits if_splits)
    note c = IngressAccountingRelease_ctl [OF t(2)]
    have i: "port_inv live X now s1" using assms(1) port_inv_ctl [OF c] by simp
    have k: "(tag_port t, tag_priority t) \<in> qids s1"
      using assms(2) [OF True] t(1) ctl_qids [OF c] by (auto simp: tag_key_def)
    show ?thesis using t(3) i DisablePfcSending_inv [OF i k, of s'] ctl_qids [OF c] by auto
  qed (use assms in \<open>simp add: release_ingress_def\<close>)
  then show "port_inv live X now s'" "qids s' = qids s" by blast+
qed

lemma DequeuedPacket_inv:
  assumes "port_inv live X now s" "support_pfc s \<Longrightarrow> \<exists>k \<in> qids s. tag_key pkt = Some k"
    and "DequeuedPacket env now k pkt s = Some (pkt', s')"
  shows "port_inv live X now s'" "qids s' = qids s"
proof -
  obtain pkt1 s1 where e: "(if ecn_stage s k = kDequeueMark then PerformEcnMarking env now k pkt s else (pkt, s)) = (pkt1, s1)"
    by fastforce
  have c1: "ctl s1 = ctl s" using e ecn_ctl [of env now k pkt s pkt1 s1] by (auto split: if_splits)
  have t: "tag_key pkt1 = tag_key pkt"
    using e ecn_same(3) [of env now k pkt s pkt1 s1] by (auto simp: tag_key_def split: if_splits)
  have i1: "port_inv live X now s1" using assms(1) port_inv_ctl [OF c1] by simp
  have k1: "support_pfc s1 \<Longrightarrow> \<exists>k \<in> qids s1. tag_key pkt1 = Some k"
    using assms(2) c1 t ctl_qids [OF c1] by (simp add: ctl_def)
  obtain pkt2 s2 where r: "release_ingress env now pkt1 s1 = Some (pkt2, s2)"
    "release_egress now k (GetPacketOccupancy pkt1) s2 = Some s'"
    using assms(3) e by (auto simp: DequeuedPacket_def split: bind_splits)
  note i2 = release_ingress_inv [OF i1 k1 r(1)]
  show "port_inv live X now s'" "qids s' = qids s"
    using i2 port_inv_ctl [OF release_egress_ctl [OF r(2)]] ctl_qids [OF release_egress_ctl [OF r(2)]] ctl_qids [OF c1]
    by simp_all
qed

end
