(* ===== verification/Router_Ports.thy ===== *)
theory Router_Ports
  imports Router_Control
begin

text \<open>
  The operations of the ports keep \<open>port_inv\<close> and \<open>memory_inv\<close>. The channel of a port takes a time that is
  not negative for a frame and for the gap after it (\<open>env_ok\<close>).
\<close>

definition env_ok :: "router_env \<Rightarrow> bool" where
  "env_ok env \<longleftrightarrow> (\<forall>p f. 0 \<le> transmission_time env p f) \<and> (\<forall>p. 0 \<le> ifg_delay env p)"

text \<open>A change at one port.\<close>

lemma port_inv_one:
  assumes "port_inv live X now s" "messages_ok now s'" "ports_num s' = ports_num s"
    and "\<And>r. r \<noteq> p \<Longrightarrow> port_ok live X' now s' r = port_ok live X now s r"
    and "p < ports_num s \<Longrightarrow> port_ok live X' now s' p"
  shows "port_inv live X' now s'"
  using assms unfolding port_inv_def by metis

lemma port_ok_other: "r \<noteq> p \<Longrightarrow> port_ok live {p} now s r = port_ok live {} now s r"
  by (simp add: port_ok_def)

lemma port_inv_D: "port_inv live X now s \<Longrightarrow> p < ports_num s \<Longrightarrow> port_ok live X now s p"
  by (simp add: port_inv_def)

text \<open>The port that handles its output event.\<close>

lemma port_ok_busy [simp]:
  "port_ok live {p} now s p \<longleftrightarrow> port_state s p = P_kActive \<and> output_at s p = None \<and> length (pfc_queue s p) \<le> 1 \<and>
     tx_finish s p \<le> now"
  by (cases "output_at s p") (auto simp: port_ok_def)

section \<open>Sending\<close>

lemma send_total:
  assumes "port_inv live {p} now s" "p < ports_num s" "env_ok env"
  obtains s' where "port_SendPacket env now p f s = Some s'" "port_inv live {} now s'" "mem s' = mem s"
proof -
  have ok: "port_ok live {p} now s p" using port_inv_D [OF assms(1,2)] .
  then have o: "output_at s p = None" "tx_finish s p \<le> now" by simp_all
  let ?t = "transmission_time env p f"
  let ?s = "s\<lparr>sent := sent s @ [(p, f)], tx_finish := (tx_finish s)(p := now + ?t),
              output_at := (output_at s)(p \<mapsto> now + (?t + ifg_delay env p))\<rparr>"
  have d: "0 \<le> ?t" "0 \<le> ifg_delay env p" using assms(3) by (simp_all add: env_ok_def)
  have "port_SendPacket env now p f s = Some ?s"
    using o d by (simp add: port_SendPacket_def router_ScheduleOutput_def Let_def algebra_simps)
  moreover have "port_inv live {} now ?s"
  proof (rule port_inv_one [OF assms(1), where p = p])
    show "messages_ok now ?s" using assms(1,2) by (simp add: port_inv_def messages_ok_def qids_def)
    show "port_ok live {} now ?s r = port_ok live {p} now s r" if "r \<noteq> p" for r
    proof -
      have "port_ok live {} now ?s r = port_ok live {} now s r" using that by (intro port_ok_cong) simp_all
      then show ?thesis using port_ok_other [OF that] by simp
    qed
    show "port_ok live {} now ?s p" using ok d by (simp add: port_ok_def)
  qed simp
  ultimately show ?thesis using that by (simp add: mem_def)
qed

section \<open>Dequeueing\<close>

lemma Arbitrate_from_None: "Arbitrate_from i xs = None \<longleftrightarrow> (\<forall>x \<in> set xs. x = None)"
  by (induction i xs rule: Arbitrate_from.induct) auto

lemma Arbitrate_from_Some:
  "Arbitrate_from i xs = Some w \<Longrightarrow> i \<le> w \<and> w - i < length xs \<and> xs ! (w - i) \<noteq> None"
proof (induction i xs rule: Arbitrate_from.induct)
  case (2 i x xs)
  show ?case
  proof (cases "x = None")
    case True
    then have "Suc i \<le> w" "w - Suc i < length xs" "xs ! (w - Suc i) \<noteq> None" using 2 by simp_all
    moreover have "w - i = Suc (w - Suc i)" using \<open>Suc i \<le> w\<close> by simp
    ultimately show ?thesis by simp
  qed (use 2 in simp)
qed simp

lemma Arbitrate_queues:
  "Arbitrate (map f [0..<n]) = None \<Longrightarrow> q < n \<Longrightarrow> f q = None"
  "Arbitrate (map f [0..<n]) = Some w \<Longrightarrow> w < n \<and> f w \<noteq> None"
  using Arbitrate_from_Some [of 0 "map f [0..<n]" w] by (auto simp: Arbitrate_def Arbitrate_from_None)

lemma queue_change_inv:
  assumes "port_inv live {p} now s" "p < ports_num s"
  shows "port_inv live {p} now (s\<lparr>packet_queues := (packet_queues s)((p, q) := xs)\<rparr>)"
proof (rule port_inv_one [OF assms(1), where p = p])
  let ?s = "s\<lparr>packet_queues := (packet_queues s)((p, q) := xs)\<rparr>"
  show "messages_ok now ?s" using assms(1) by (simp add: port_inv_def messages_ok_def qids_def)
  show "port_ok live {p} now ?s r = port_ok live {p} now s r" if "r \<noteq> p" for r
    using that by (intro port_ok_cong) simp_all
  show "port_ok live {p} now ?s p" using port_inv_D [OF assms] by simp
qed simp

lemma tag_in_range:
  assumes "memory_inv C P s" "x \<in> holds s" "support_pfc s"
  shows "\<exists>k \<in> qids s. tag_key x = Some k"
  using assms by (simp add: memory_inv_def ingress_inv_def)

lemma queue_head_held:
  "k \<in> qids s \<Longrightarrow> packet_queues s k = x # xs \<Longrightarrow> x \<in> holds s"
  unfolding holds_def by fastforce

lemma queue_Dequeue_inv:
  assumes "port_inv live {p} now s" "memory_inv C P s" "(p, q) \<in> qids s"
    and "queue_Dequeue env now (p, q) s = Some (s', r)"
  shows "port_inv live {p} now s' \<and> memory_inv C P s' \<and> qids s' = qids s"
proof (cases "queue_Peek now (p, q) s")
  case None
  then show ?thesis using assms by (simp add: queue_Dequeue_def)
next
  case (Some x)
  then obtain xs where x: "packet_queues s (p, q) = x # xs"
    by (cases "packet_queues s (p, q)") (auto simp: queue_Peek_def CanTransmit_def split: if_splits)
  let ?s = "s\<lparr>packet_queues := (packet_queues s)((p, q) := xs)\<rparr>"
  obtain y where d: "DequeuedPacket env now (p, q) x ?s = Some (y, s')"
    using assms(4) Some x by (auto simp: queue_Dequeue_def split: bind_splits)
  have p: "p < ports_num s" using assms(3) by (simp add: qids_def)
  have q: "qids ?s = qids s" by (simp add: qids_def)
  have t: "\<exists>k \<in> qids ?s. tag_key x = Some k" if "support_pfc ?s"
    using tag_in_range [OF assms(2) queue_head_held [OF assms(3) x]] that q by simp
  show ?thesis
    using DequeuedPacket_inv [OF queue_change_inv [OF assms(1) p] t d] dequeue_inv [OF assms(2,3) x d] q by simp
qed

section \<open>Output\<close>

lemma ScheduleOutput_inv:
  assumes "port_inv live {p} now s" "memory_inv C P s" "p < ports_num s" "env_ok env"
    and "port_ScheduleOutput env now p s = Some s'"
  shows "port_inv live {} now s' \<and> memory_inv C P s' \<and> qids s' = qids s"
proof -
  have ok: "port_ok live {p} now s p" using port_inv_D [OF assms(1,3)] .
  have m: "messages_ok now s" using assms(1) by (simp add: port_inv_def)
  have mq: "qids s2 = qids s1" if "mem s2 = mem s1" for s1 s2 :: Router
    using mem_fields [OF that] by (simp add: qids_def)
  show ?thesis
  proof (cases "pfc_queue s p")
    case (Cons f fs)
    let ?s = "s\<lparr>pfc_queue := (pfc_queue s)(p := fs)\<rparr>"
    have i: "port_inv live {p} now ?s"
    proof (rule port_inv_one [OF assms(1), where p = p])
      show "messages_ok now ?s" using m by (simp add: messages_ok_def qids_def)
      show "port_ok live {p} now ?s r = port_ok live {p} now s r" if "r \<noteq> p" for r
        using that by (intro port_ok_cong) simp_all
      show "port_ok live {p} now ?s p" using ok Cons by simp
    qed simp
    have p: "p < ports_num ?s" using assms(3) by simp
    obtain s1 where s1: "port_SendPacket env now p (Pfc f) ?s = Some s1" "port_inv live {} now s1" "mem s1 = mem ?s"
      using send_total [OF i p assms(4)] by blast
    have e: "s' = s1" using assms(5) s1(1) Cons ok by (simp add: port_ScheduleOutput_def)
    have "mem s1 = mem s" using s1(3) by simp
    then show ?thesis
      using e s1(2) assms(2) memory_inv_mem [of s1 s] mq [of s1 s] by simp
  next
    case Nil
    let ?peek = "map (\<lambda>q. queue_Peek now (p, q) s) [0..<queues_num s]"
    show ?thesis
    proof (cases "Arbitrate ?peek")
      case None
      let ?s = "s\<lparr>port_state := (port_state s)(p := P_kIdle)\<rparr>"
      have e: "s' = ?s" using assms(5) Nil None ok by (simp add: port_ScheduleOutput_def)
      have "support_pfc s \<and> refresh_at s (p, q) = Some (unpause_time s (p, q))"
        if "q < queues_num s" "packet_queues s (p, q) \<noteq> []" for q
      proof -
        have "queue_Peek now (p, q) s = None" using Arbitrate_queues(1) [OF None that(1)] .
        then have "support_pfc s" "now < unpause_time s (p, q)"
          using that(2) by (auto simp: queue_Peek_def CanTransmit_def IsPaused_def split: if_splits)
        then show ?thesis using m by (fastforce simp: messages_ok_def)
      qed
      then have w: "waits s p" using Nil by (simp add: waits_def)
      have "port_inv live {} now ?s"
      proof (rule port_inv_one [OF assms(1), where p = p])
        show "messages_ok now ?s" using m by (simp add: messages_ok_def qids_def)
        show "port_ok live {} now ?s r = port_ok live {p} now s r" if "r \<noteq> p" for r
        proof -
          have "port_ok live {} now ?s r = port_ok live {} now s r" using that by (intro port_ok_cong) simp_all
          then show ?thesis using port_ok_other [OF that] by simp
        qed
        have "port_state s p = P_kActive" "output_at s p = None" "pfc_queue s p = []" "tx_finish s p \<le> now"
          using ok Nil by simp_all
        then show "port_ok live {} now ?s p" using w by (simp add: port_ok_def waits_def)
      qed simp
      moreover have "mem ?s = mem s" by simp
      ultimately show ?thesis using e assms(2) memory_inv_mem [of ?s s] mq [of ?s s] by simp
    next
      case (Some w)
      obtain s1 pkt where d: "queue_Dequeue env now (p, w) s = Some (s1, Some pkt)"
        "port_SendPacket env now p (Data pkt) s1 = Some s'"
        using assms(5) Nil Some ok by (auto simp: port_ScheduleOutput_def split: bind_splits)
      have "(p, w) \<in> qids s" using Arbitrate_queues(2) [OF Some] assms(3) by (simp add: qids_def)
      note i = queue_Dequeue_inv [OF assms(1,2) this d(1)]
      have p: "p < ports_num s1"
        using \<open>(p, w) \<in> qids s\<close> i by (auto simp: qids_def)
      obtain s2 where s2: "port_SendPacket env now p (Data pkt) s1 = Some s2" "port_inv live {} now s2" "mem s2 = mem s1"
        using send_total [OF conjunct1 [OF i] p assms(4)] by blast
      then have "s' = s2" using d(2) by simp
      then show ?thesis using s2 i memory_inv_mem [OF s2(3)] mq [OF s2(3)] by simp
    qed
  qed
qed

lemma port_idle:
  "port_ok live {} now s p \<Longrightarrow> port_state s p = P_kIdle \<Longrightarrow> output_at s p = None \<and> tx_finish s p \<le> now"
  by (cases "output_at s p") (simp_all add: port_ok_def)

text \<open>A packet joins a queue.\<close>

lemma wake_inv:
  assumes "port_inv live {} now s" "p < ports_num s" "port_state s p = P_kIdle"
  shows "port_inv live {} now (s\<lparr>packet_queues := (packet_queues s)((p, q) := xs),
     port_state := (port_state s)(p := P_kActive), output_at := (output_at s)(p \<mapsto> now + kEnqueueDelay)\<rparr>)"
    (is "port_inv live {} now ?s")
proof (rule port_inv_one [OF assms(1), where p = p])
  have ok: "port_ok live {} now s p" using port_inv_D [OF assms(1,2)] .
  show "messages_ok now ?s" using assms(1,2) by (simp add: port_inv_def messages_ok_def qids_def)
  show "port_ok live {} now ?s r = port_ok live {} now s r" if "r \<noteq> p" for r
    using that by (intro port_ok_cong) simp_all
  show "port_ok live {} now ?s p" using port_idle [OF ok assms(3)] ok by (simp add: port_ok_def kEnqueueDelay_def)
qed simp

lemma join_inv:
  assumes "port_inv live {} now s" "p < ports_num s" "port_state s p = P_kActive"
  shows "port_inv live {} now (s\<lparr>packet_queues := (packet_queues s)((p, q) := xs)\<rparr>)" (is "port_inv live {} now ?s")
proof (rule port_inv_one [OF assms(1), where p = p])
  have ok: "port_ok live {} now s p" using port_inv_D [OF assms(1,2)] .
  show "messages_ok now ?s" using assms(1) by (simp add: port_inv_def messages_ok_def qids_def)
  show "port_ok live {} now ?s r = port_ok live {} now s r" if "r \<noteq> p" for r
    using that by (intro port_ok_cong) simp_all
  show "port_ok live {} now ?s p" using ok assms(3) by (cases "output_at s p") (simp_all add: port_ok_def)
qed simp

lemma port_EnqueuePacket_inv:
  assumes "port_inv live {} now s" "memory_inv C P (s\<lparr>discarded := discarded s @ [pkt]\<rparr>)" "p < ports_num s"
    and "port_EnqueuePacket env now p pkt s = Some s'"
  shows "port_inv live {} now s' \<and> memory_inv C P s' \<and> qids s' = qids s"
proof -
  let ?q = "GetPacketPriority pkt"
  have q: "?q < queues_num s" using assms(4) by (cases "?q < queues_num s") (simp_all add: port_EnqueuePacket_def Let_def)
  then obtain x s1 ok where r: "RequestEnqueue env now (p, ?q) pkt s = Some (x, s1, ok)"
    using assms(4) by (cases "RequestEnqueue env now (p, ?q) pkt s") (auto simp: port_EnqueuePacket_def queue_Enqueue_def Let_def)
  let ?s = "if ok then s1\<lparr>packet_queues := (packet_queues s1)((p, ?q) := packet_queues s1 (p, ?q) @ [x])\<rparr> else s1"
  have e: "(if ok \<and> port_state ?s p = P_kIdle
      then router_ScheduleOutput now p kEnqueueDelay (?s\<lparr>port_state := (port_state ?s)(p := P_kActive)\<rparr>)
      else Some ?s) = Some s'"
    using assms(4) by (simp only: port_EnqueuePacket_def queue_Enqueue_def Let_def check_bind q r if_True bind.bind_lunit prod.case)
  have k: "(p, ?q) \<in> qids s" using q assms(3) by (simp add: qids_def)
  have m: "memory_inv C P ?s" by (rule enqueue_inv [OF assms(2) k r])
  have c: "ctl s1 = ctl s" by (rule RequestEnqueue_ctl [OF r])
  have i: "port_inv live {} now s1" using assms(1) port_inv_ctl [OF c] by simp
  have p: "p < ports_num s1" using assms(3) ctl_fields(1) [OF c] by simp
  consider (drop) "\<not> ok" | (wake) "ok" "port_state s1 p = P_kIdle" | (join) "ok" "port_state s1 p = P_kActive"
    by (cases "port_state s1 p") auto
  then show ?thesis
  proof cases
    case drop
    then show ?thesis using e m i ctl_qids [OF c] by simp
  next
    case join
    then have "s' = ?s" using e by simp
    then show ?thesis using join(1) m join_inv [OF i p join(2)] ctl_qids [OF c] by (simp add: qids_def)
  next
    case wake
    then have "mem s' = mem ?s" using e router_ScheduleOutput_mem by (fastforce simp: mem_def)
    moreover have "output_at s1 p = None" using port_idle [OF port_inv_D [OF i p] wake(2)] by simp
    then have "s' = s1\<lparr>packet_queues := (packet_queues s1)((p, ?q) := packet_queues s1 (p, ?q) @ [x]),
        port_state := (port_state s1)(p := P_kActive), output_at := (output_at s1)(p \<mapsto> now + kEnqueueDelay)\<rparr>"
      using e wake by (simp add: router_ScheduleOutput_def kEnqueueDelay_def)
    ultimately show ?thesis
      using wake_inv [OF i p wake(2)] m memory_inv_mem [of s' ?s] ctl_qids [OF c] by (simp add: qids_def)
  qed
qed

section \<open>Being paused\<close>

lemma set_paused_inv:
  assumes "port_inv live X now s" "\<And>u. t = Some u \<Longrightarrow> k \<in> qids s"
  shows "port_inv live X now (s\<lparr>set_paused_at := (set_paused_at s)(k := t)\<rparr>)"
proof -
  have "messages_ok now (s\<lparr>set_paused_at := (set_paused_at s)(k := t)\<rparr>)"
    using assms by (cases k) (auto simp: port_inv_def messages_ok_def qids_def)
  moreover have "port_ok live X now (s\<lparr>set_paused_at := (set_paused_at s)(k := t)\<rparr>) p = port_ok live X now s p" for p
    by (intro port_ok_cong) simp_all
  ultimately show ?thesis using assms(1) by (simp add: port_inv_def)
qed

lemma receive_classes_inv:
  "receive_classes env now p f is s = Some s' \<Longrightarrow> port_inv live X now s \<Longrightarrow> p < ports_num s \<Longrightarrow>
     port_inv live X now s' \<and> qids s' = qids s"
proof (induction "is" arbitrary: s)
  case (Cons i "is")
  show ?case
  proof (cases "bit (class_enable f) i")
    case True
    let ?s = "s\<lparr>set_paused_at := (set_paused_at s)((p, i) \<mapsto>
        (now + rx_pfc_delay s, ConvertToPauseDuration env p (time_class f ! i)))\<rparr>"
    have r: "i < queues_num s" "receive_classes env now p f is ?s = Some s'"
      using Cons.prems(1) True by (simp_all split: if_split_asm)
    have "port_inv live X now ?s" using Cons.prems(2,3) r(1) by (intro set_paused_inv) (simp_all add: qids_def)
    then show ?thesis using Cons.IH [OF r(2)] Cons.prems(3) by (simp add: qids_def)
  qed (use Cons in simp)
qed simp

text \<open>A pause that ends at once would leave a port with packets and nobody to wake it.\<close>

lemma SetPfcPaused_inv:
  assumes "port_inv live {} now s" "(p, q) \<in> qids s" "SetPfcPaused now (p, q) u s = Some s'" "live \<Longrightarrow> u \<noteq> now"
  shows "port_inv live {} now s'" "qids s' = qids s"
proof -
  let ?s = "s\<lparr>unpause_time := (unpause_time s)((p, q) := u),
              refresh_at := (refresh_at s)((p, q) := if u = now then None else Some u)\<rparr>"
  have e: "s' = ?s" "now \<le> u" using assms(3) by (auto simp: SetPfcPaused_def Let_def split: if_split_asm)
  show "qids s' = qids s" by (simp add: e(1) qids_def)
  have "port_inv live {} now ?s"
  proof (rule port_inv_one [OF assms(1), where p = p])
    show "messages_ok now ?s" using assms(1,2) by (simp add: port_inv_def messages_ok_def qids_def)
    show "port_ok live {} now ?s r = port_ok live {} now s r" if "r \<noteq> p" for r
      using that by (intro port_ok_cong) simp_all
    have ok: "port_ok live {} now s p" using port_inv_D [OF assms(1)] assms(2) by (simp add: qids_def)
    show "port_ok live {} now ?s p"
      using ok assms(4) by (cases "output_at s p") (auto simp: port_ok_def waits_def)
  qed simp
  then show "port_inv live {} now s'" by (simp only: e(1))
qed

end
