(* ===== verification/Router_History.thy ===== *)
theory Router_History
  imports Router_Ports
begin

text \<open>
  The histories of a router: any sequence of its events in the order of their times, from the state the
  constructor makes. Every event keeps \<open>port_inv\<close> and \<open>memory_inv\<close> (\<open>handleMessage_inv\<close>); what follows from
  them is in \<open>Router_Properties\<close>.
\<close>

section \<open>Histories\<close>

text \<open>The router is built.\<close>

definition static where
  "static s = (ports_num s, queues_num s, ingress_pool_free_cells s, egress_pool_free_cells s, support_pfc s,
     port_egress_occupancy s, queue_egress_occupancy s, queue_ingress_occupancy s, guarantee_occupancy s,
     headroom_occupancy s, pipeline s, discarded s, sent s, ctl s)"

lemma static_updates:
  "static (s\<lparr>queue_egress_alpha := a\<rparr>) = static s" "static (s\<lparr>queue_ingress_alpha := a\<rparr>) = static s"
  "static (s\<lparr>policies := b\<rparr>) = static s" "static (s\<lparr>ecn_stage := c\<rparr>) = static s"
  "static (s\<lparr>guarantee := g\<rparr>) = static s" "static (s\<lparr>headroom := g\<rparr>) = static s"
  "static (s\<lparr>port_egress_alpha := d\<rparr>) = static s"
  by (simp_all add: static_def ctl_def)

lemma InitializeCosConfig_static: "InitializeCosConfig rng k c s = Some s' \<Longrightarrow> static s' = static s"
  by (auto simp: InitializeCosConfig_def Let_def static_updates split: option.splits if_splits bind_splits)

lemma init_queues_static: "init_queues rng b q p is s = Some s' \<Longrightarrow> static s' = static s"
  by (induction rng b q p "is" s rule: init_queues.induct)
    (auto split: bind_splits dest: InitializeCosConfig_static)

lemma init_ports_static: "init_ports rng conn b ps s = Some s' \<Longrightarrow> static s' = static s"
proof (induction ps arbitrary: s)
  case (Cons p ps)
  obtain q where q: "GetPortConfig p b = Some q" using Cons.prems by (cases "GetPortConfig p b") simp_all
  let ?s = "s\<lparr>port_egress_alpha := (port_egress_alpha s)(p := qos_egress_alpha q)\<rparr>"
  have "\<exists>s1. static s1 = static s \<and> init_ports rng conn b ps s1 = Some s'"
  proof (cases "conn p")
    case False
    then show ?thesis using Cons.prems q static_updates(7) by (simp add: Let_def) blast
  next
    case True
    then obtain s1 where "init_queues rng b q p [0..<queues_num ?s] ?s = Some s1" "init_ports rng conn b ps s1 = Some s'"
      using Cons.prems q
      by (cases "queues_num s \<le> length (queue_configs q)"; cases "init_queues rng b q p [0..<queues_num ?s] ?s")
        (simp_all add: Let_def)
    then show ?thesis using init_queues_static static_updates(7) by metis
  qed
  then show ?case using Cons.IH by metis
qed simp

definition fresh :: "Router \<Rightarrow> bool" where
  "fresh s \<longleftrightarrow> packet_queues s = (\<lambda>_. []) \<and> pipeline s = [] \<and> discarded s = [] \<and> queue_egress_occupancy s = (\<lambda>_. 0) \<and>
     port_egress_occupancy s = (\<lambda>_. 0) \<and> headroom_occupancy s = (\<lambda>_. 0) \<and> guarantee_occupancy s = (\<lambda>_. 0) \<and>
     queue_ingress_occupancy s = (\<lambda>_. 0) \<and> refresh_at s = (\<lambda>_. None) \<and> set_paused_at s = (\<lambda>_. None) \<and>
     send_pause_at s = (\<lambda>_. None) \<and> pfc_sending_triggered s = (\<lambda>_. False) \<and> output_at s = (\<lambda>_. None) \<and>
     unpause_time s = (\<lambda>_. 0) \<and> pfc_queue s = (\<lambda>_. []) \<and> port_state s = (\<lambda>_. P_kIdle) \<and> tx_finish s = (\<lambda>_. 0)"

lemma fresh_static: "static s' = static s \<Longrightarrow> fresh s \<Longrightarrow> fresh s'"
  by (simp add: static_def ctl_def fresh_def)

lemma new_Router_fresh:
  assumes "new_Router rng conn ports queues c = Some s"
  shows "fresh s"
proof -
  obtain b where b: "buffer_carving c = Some b" using assms by (cases "buffer_carving c") (simp_all add: new_Router_def Let_def)
  let ?s1 = "case pfc c of
      Some p \<Rightarrow> (empty_Router ports queues)\<lparr>support_pfc := True, pfc_xon := cfg_pfc_xon p, rx_pfc_delay := cfg_rx_pfc_delay p,
                  pfc_pause_duration := cfg_pause_duration p\<rparr>
    | None \<Rightarrow> (empty_Router ports queues)\<lparr>support_pfc := False\<rparr>"
  let ?s2 = "?s1\<lparr>ingress_pool_free_cells := (if support_pfc ?s1 then ingress_service_pool_size b else kMaxPoolSize),
                 egress_pool_free_cells := egress_service_pool_size b\<rparr>"
  have f: "fresh ?s2" by (cases "pfc c") (simp_all add: fresh_def empty_Router_def)
  have "init_ports rng conn b [0..<ports] ?s2 = Some s"
    using assms b by (simp only: new_Router_def Let_def b bind.bind_lunit check_bind split: if_split_asm) simp
  then show ?thesis using fresh_static [OF init_ports_static f] by simp
qed

lemma new_Router_inv:
  assumes "new_Router rng conn ports queues c = Some s" "small_config s"
  shows "memory_inv (unat (egress_pool_free_cells s)) (unat (ingress_pool_free_cells s)) s" "port_inv True {} 0 s"
proof -
  note f = new_Router_fresh [OF assms(1), unfolded fresh_def]
  have h: "held w s = 0" for w by (simp add: held_def queued_def f)
  have b: "unat w < 2 ^ 64" for w :: u64 using unsigned_less [of w] by simp
  have "egress_inv (unat (egress_pool_free_cells s)) s" using b by (simp add: egress_inv_def f queued_def)
  moreover have "ingress_inv (unat (ingress_pool_free_cells s)) s" using b
    by (simp add: ingress_inv_def h f holds_def)
  ultimately show "memory_inv (unat (egress_pool_free_cells s)) (unat (ingress_pool_free_cells s)) s"
    using assms(2) by (simp add: memory_inv_def)
  show "port_inv True {} 0 s" by (simp add: f port_inv_def messages_ok_def port_ok_def waits_def)
qed

text \<open>No message is overdue at \<open>t\<close>: events come in the order of their times.\<close>

definition all_later :: "int \<Rightarrow> Router \<Rightarrow> bool" where
  "all_later t s \<longleftrightarrow> (\<forall>p u. output_at s p = Some u \<longrightarrow> t \<le> u) \<and> (\<forall>k u d. set_paused_at s k = Some (u, d) \<longrightarrow> t \<le> u) \<and>
     (\<forall>k u. refresh_at s k = Some u \<longrightarrow> t \<le> u) \<and> (\<forall>k u. send_pause_at s k = Some u \<longrightarrow> t \<le> u) \<and>
     (\<forall>(u, _) \<in> set (pipeline s). t \<le> u)"

text \<open>A frame is not shorter than its content, and frames are at most 4 GB long.\<close>

fun frame_ok :: "router_env \<Rightarrow> RouterEvent \<Rightarrow> bool" where
  "frame_ok env (kReceivePacket p len (Data pkt)) \<longleftrightarrow> bit_length pkt \<le> 8 * len \<and> mtu_size env < 2 ^ 32"
| "frame_ok env _ \<longleftrightarrow> True"

text \<open>The end of a pause that is over when it is set: an X-on frame.\<close>

fun ends_pause :: "RouterEvent \<Rightarrow> Router \<Rightarrow> bool" where
  "ends_pause (kSetPfcPaused p q) s \<longleftrightarrow> (\<exists>t. set_paused_at s (p, q) = Some (t, 0))"
| "ends_pause _ s \<longleftrightarrow> False"

inductive router_reach :: "router_env \<Rightarrow> Router \<Rightarrow> bool \<Rightarrow> int \<Rightarrow> Router \<Rightarrow> bool" for env s0 where
  start: "router_reach env s0 True 0 s0"
| event: "router_reach env s0 live now s \<Longrightarrow> now \<le> t \<Longrightarrow> all_later t s \<Longrightarrow> event_due env t e s \<Longrightarrow> frame_ok env e \<Longrightarrow>
    handleMessage env t e s = Some s' \<Longrightarrow> router_reach env s0 (live \<and> \<not> ends_pause e s) t s'"

section \<open>Every event keeps the invariants\<close>

lemma port_inv_frame:
  assumes "port_inv live X now s"
  shows "port_inv live X now (s\<lparr>pipeline := a\<rparr>)" "port_inv live X now (s\<lparr>discarded := b\<rparr>)"
  using assms port_inv_ctl by (metis ctl_updates(9), metis ctl_updates(10))

lemma port_inv_weaken: "port_inv live X now s \<Longrightarrow> port_inv (live \<and> b) X now s"
  by (simp add: port_inv_def port_ok_def)

lemma route_decision_same:
  assumes "route_decision h st t pkt = Some (pkt1, r)"
  shows "same_packet pkt1 pkt"
  using assms
  by (auto simp: route_decision_def DecrementPacketTtl_def GetOutputPort_def GetOutputOptionsAndModifyPacket_def
      SetPacketSourceMac_def IncrementPacketStaticRoutingIndex_def same_packet_def
      split: prod.splits if_splits bind_splits sum.splits option.splits)

lemma small_frame:
  assumes "frame_ok env (kReceivePacket p len (Data pkt))" "len \<le> mtu_size env"
  shows "small (GetPacketOccupancy pkt)"
proof -
  have "bit_length pkt + 2047 < 2 ^ 60" using assms by simp
  then have "(bit_length pkt + 2047) div 2048 < 2 ^ 60" using div_le_dividend order_le_less_trans by blast
  then show ?thesis by (simp add: small_def GetPacketOccupancy_def unat_of_nat)
qed

lemma ReceivePacket_inv:
  assumes "port_inv live {} now s" "memory_inv C P s" "p < ports_num s" "frame_ok env (kReceivePacket p len f)"
    and "port_ReceivePacket env now p len f s = Some s'"
  shows "port_inv live {} now s' \<and> memory_inv C P s' \<and> qids s' = qids s"
proof (cases "len > mtu_size env")
  case True
  then show ?thesis using assms by (simp add: port_ReceivePacket_def)
next
  case len: False
  show ?thesis
  proof (cases f)
    case (Pfc pf)
    then have r: "receive_classes env now p pf [0..<kClassesOfService] s = Some s'"
      using assms(5) len by (simp add: port_ReceivePacket_def ReceivedPfc_def split: if_split_asm)
    have "mem s' = mem s" by (rule receive_classes_mem [OF r])
    then show ?thesis
      using receive_classes_inv [OF r assms(1,3)] assms(2) memory_inv_mem [of s' s] by simp
  next
    case (Data pkt)
    let ?q = "GetPacketPriority pkt"
    let ?tag = "\<lambda>m. \<lparr>tag_port = p, tag_priority = ?q, tag_minimal_guarantee = minimal_guarantee_occupancy m,
       tag_shared_pool = shared_pool_occupancy m, tag_headroom = headroom_part m\<rparr>"
    have q: "?q < queues_num s"
      using assms(5) len Data by (cases "?q < queues_num s") (simp_all add: port_ReceivePacket_def Let_def)
    obtain s1 m where r: "ReceivedData env now p (GetPacketOccupancy pkt) ?q s = Some (s1, m)"
      using assms(5) len Data q by (cases "ReceivedData env now p (GetPacketOccupancy pkt) ?q s")
        (auto simp: port_ReceivePacket_def Let_def)
    have e: "s' = (if drop_it m then s1
        else s1\<lparr>pipeline := pipeline s1 @ [(now + router_delay env, pkt\<lparr>ingress_tag := Some (?tag m)\<rparr>)]\<rparr>)"
      using assms(5) len Data q r by (simp add: port_ReceivePacket_def Let_def split: if_split_asm)
    have k: "(p, ?q) \<in> qids s" using assms(3) q by (simp add: qids_def)
    note i = ReceivedData_inv [OF assms(1) k r]
    have i': "port_inv live {} now s'" "qids s' = qids s"
      using i port_inv_frame(1) [OF i(1)] unfolding e by (simp_all add: qids_def)
    have "memory_inv C P s'"
    proof (cases "support_pfc s")
      case True
      have a: "guarantee_occupancy s (p, ?q) \<le> guarantee s (p, ?q)" "headroom_occupancy s (p, ?q) \<le> headroom s (p, ?q)"
        "small_config s"
        using assms(2) True k by (simp_all add: memory_inv_def ingress_inv_def)
      have sm: "small (GetPacketOccupancy pkt)" using small_frame assms(4) len Data by simp
      note pl = ReceivedData_placed [OF r sm a(3) True a(1,2)]
      show ?thesis
      proof (cases "drop_it m")
        case True
        then have "mem s1 = mem s" using pl by simp
        then show ?thesis using assms(2) memory_inv_mem [of s1 s] True e by simp
      next
        case False
        then have pl: "placed (p, ?q) (GetPacketOccupancy pkt) s s1 m" using pl by simp
        show ?thesis
          using admit_inv [OF assms(2) True k pl, of "pkt\<lparr>ingress_tag := Some (?tag m)\<rparr>" pkt] False e by simp
      qed
    next
      case False
      then have "s1 = s" using r by (simp add: ReceivedData_def Let_def)
      moreover have "s\<lparr>pipeline := pipeline s, discarded := discarded s\<rparr> = s" by simp
      ultimately show ?thesis
        using forward_inv [OF assms(2) False, of "discarded s" "pipeline s @ [(now + router_delay env, pkt\<lparr>ingress_tag := Some (?tag m)\<rparr>)]"] assms(2) unfolding e by simp
    qed
    then show ?thesis using i' by simp
  qed
qed

lemma RoutePacket_inv:
  assumes "port_inv live {} now s" "memory_inv C P s" "pipeline s = (t, pkt) # rest"
    and "RoutePacket env now pkt (s\<lparr>pipeline := rest\<rparr>) = Some s'"
  shows "port_inv live {} now s' \<and> memory_inv C P s' \<and> qids s' = qids s"
proof -
  let ?s = "s\<lparr>pipeline := rest\<rparr>"
  obtain pkt1 r where d: "route_decision (crc env) (router_stage env) (routing_table env) pkt = Some (pkt1, r)"
    using assms(4) by (cases "route_decision (crc env) (router_stage env) (routing_table env) pkt") (auto simp: RoutePacket_def)
  have m: "memory_inv C P (?s\<lparr>discarded := discarded ?s @ [pkt1]\<rparr>)"
    using route_inv [OF assms(2,3) route_decision_same [OF d]] by simp
  have i: "port_inv live {} now ?s" by (rule port_inv_frame(1) [OF assms(1)])
  show ?thesis
  proof (cases r)
    case (Inl x)
    then have "s' = ?s\<lparr>discarded := discarded ?s @ [pkt1]\<rparr>" using assms(4) d by (simp add: RoutePacket_def)
    then show ?thesis using m port_inv_frame(2) [OF i, of "discarded ?s @ [pkt1]"] by (simp add: qids_def)
  next
    case (Inr port)
    then have e: "unat port < ports_num ?s" "port_EnqueuePacket env now (unat port) pkt1 ?s = Some s'"
      using assms(4) d by (simp_all add: RoutePacket_def split: if_split_asm)
    show ?thesis using port_EnqueuePacket_inv [OF i m e] by (simp add: qids_def)
  qed
qed

text \<open>A pending message that is handled leaves its slot.\<close>

lemma slot_inv:
  assumes "port_inv live X now s"
  shows "port_inv live X now (s\<lparr>send_pause_at := (send_pause_at s)(k := None)\<rparr>)"
proof -
  have "messages_ok now (s\<lparr>send_pause_at := (send_pause_at s)(k := None)\<rparr>)"
    using assms by (simp add: port_inv_def messages_ok_def qids_def)
  moreover have "port_ok live X now (s\<lparr>send_pause_at := (send_pause_at s)(k := None)\<rparr>) p = port_ok live X now s p" for p
    by (intro port_ok_cong) simp_all
  ultimately show ?thesis using assms by (simp add: port_inv_def)
qed

lemma output_slot_inv:
  assumes "port_inv live {} now s" "output_at s p = Some now"
  shows "p < ports_num s" "port_inv live {p} now (s\<lparr>output_at := (output_at s)(p := None)\<rparr>)"
proof -
  let ?s = "s\<lparr>output_at := (output_at s)(p := None)\<rparr>"
  show p: "p < ports_num s" using assms by (simp add: port_inv_def messages_ok_def)
  have ok: "port_ok live {} now s p" by (rule port_inv_D [OF assms(1) p])
  show "port_inv live {p} now ?s"
  proof (rule port_inv_one [OF assms(1), where p = p])
    show "messages_ok now ?s" using assms(1) by (simp add: port_inv_def messages_ok_def qids_def)
    show "port_ok live {p} now ?s r = port_ok live {} now s r" if "r \<noteq> p" for r
    proof -
      have "port_ok live {} now ?s r = port_ok live {} now s r" using that by (intro port_ok_cong) simp_all
      then show ?thesis using port_ok_other [OF that] by simp
    qed
    show "port_ok live {p} now ?s p" using ok assms(2) by (simp add: port_ok_def)
  qed simp
qed

text \<open>The end of a pause: an idle port starts, so its other queues need no word that a message is pending.\<close>

lemma Refreshment_inv:
  assumes "port_inv live {} now s" "memory_inv C P s" "p < ports_num s" "env_ok env"
    and "refresh_at s (p, q) = Some now" "port_ResumeOutput env now p (s\<lparr>refresh_at := (refresh_at s)((p, q) := None)\<rparr>) = Some s'"
  shows "port_inv live {} now s' \<and> memory_inv C P s' \<and> qids s' = qids s"
proof -
  let ?s = "s\<lparr>refresh_at := (refresh_at s)((p, q) := None)\<rparr>"
  have ok: "port_ok live {} now s p" by (rule port_inv_D [OF assms(1,3)])
  have "unpause_time s (p, q) = now" using assms(1,5) by (fastforce simp: port_inv_def messages_ok_def)
  then have m: "messages_ok now ?s" using assms(1) by (simp add: port_inv_def messages_ok_def qids_def)
  have other: "port_ok live {} now ?s r = port_ok live {} now s r" if "r \<noteq> p" for r
    using that by (intro port_ok_cong) simp_all
  have mem: "memory_inv C P ?s" using assms(2) memory_inv_mem [of ?s s] by simp
  show ?thesis
  proof (cases "port_state s p = P_kIdle")
    case False
    then have "port_state s p = P_kActive" using port_state_cases by (cases "port_state s p") simp_all
    then have "port_ok live {} now ?s p" using ok by (cases "output_at s p") (simp_all add: port_ok_def)
    then have "port_inv live {} now ?s" using port_inv_one [OF assms(1) m, of p] other by simp
    moreover have "s' = ?s" using assms(6) False by (simp add: port_ResumeOutput_def)
    moreover have "qids ?s = qids s" by (simp add: qids_def)
    ultimately show ?thesis using mem by simp
  next
    case True
    let ?a = "?s\<lparr>port_state := (port_state ?s)(p := P_kActive)\<rparr>"
    have "port_inv live {p} now ?a"
    proof (rule port_inv_one [OF assms(1), where p = p])
      show "messages_ok now ?a" using m by (simp add: messages_ok_def qids_def)
      show "port_ok live {p} now ?a r = port_ok live {} now s r" if "r \<noteq> p" for r
      proof -
        have "port_ok live {} now ?a r = port_ok live {} now s r" using that by (intro port_ok_cong) simp_all
        then show ?thesis using port_ok_other [OF that] by simp
      qed
      show "port_ok live {p} now ?a p" using port_idle [OF ok True] ok by (simp add: port_ok_def)
    qed simp
    moreover have "memory_inv C P ?a" using mem memory_inv_mem [of ?a ?s] by simp
    ultimately show ?thesis
      using ScheduleOutput_inv [of live p now ?a C P env s'] assms(3,4,6) True
      by (simp add: port_ResumeOutput_def qids_def)
  qed
qed

lemma slots_in_range:
  assumes "port_inv live X now s"
  shows "set_paused_at s k = Some x \<Longrightarrow> k \<in> qids s" "refresh_at s k = Some y \<Longrightarrow> k \<in> qids s"
    "send_pause_at s k = Some z \<Longrightarrow> k \<in> qids s"
  using assms unfolding port_inv_def messages_ok_def by blast+

theorem handleMessage_inv:
  assumes "port_inv live {} now s" "memory_inv C P s" "env_ok env"
    and "event_due env now e s" "frame_ok env e" "handleMessage env now e s = Some s'"
  shows "port_inv (live \<and> \<not> ends_pause e s) {} now s' \<and> memory_inv C P s' \<and> qids s' = qids s"
proof (cases e)
  case (kReceivePacket p len f)
  then have r: "p < ports_num s" "frame_ok env (kReceivePacket p len f)" "port_ReceivePacket env now p len f s = Some s'"
    using assms(4-6) by simp_all
  then show ?thesis using ReceivePacket_inv [OF assms(1,2) r] kReceivePacket by simp
next
  case kRouterDelay
  then obtain pkt rest where p: "pipeline s = (now, pkt) # rest" using assms(4) by auto
  then show ?thesis using RoutePacket_inv [OF assms(1,2) p] assms(6) kRouterDelay by simp
next
  case (kOutputScheduling p)
  let ?s = "s\<lparr>output_at := (output_at s)(p := None)\<rparr>"
  have o: "output_at s p = Some now" "port_ScheduleOutput env now p ?s = Some s'"
    using assms(4,6) kOutputScheduling by simp_all
  note i = output_slot_inv [OF assms(1) o(1)]
  have "memory_inv C P ?s" using assms(2) memory_inv_mem [of ?s s] by simp
  then show ?thesis using ScheduleOutput_inv [OF i(2) _ _ assms(3) o(2)] i(1) kOutputScheduling by (simp add: qids_def)
next
  case (kSetPfcPaused p q)
  then obtain t where t: "set_paused_at s (p, q) = Some (now, t)" using assms(4) by auto
  let ?s = "s\<lparr>set_paused_at := (set_paused_at s)((p, q) := None)\<rparr>"
  have i: "port_inv (live \<and> t \<noteq> 0) {} now ?s"
    using set_paused_inv [OF port_inv_weaken [OF assms(1)], of None "(p, q)" "t \<noteq> 0"] by simp
  have k: "(p, q) \<in> qids ?s" using slots_in_range(1) [OF assms(1) t] by (simp add: qids_def)
  have r: "SetPfcPaused now (p, q) (now + t) ?s = Some s'" using assms(6) t kSetPfcPaused by simp
  have "mem s' = mem s" using SetPfcPaused_mem [OF r] by simp
  moreover have "live \<and> \<not> ends_pause e s \<longleftrightarrow> live \<and> t \<noteq> 0" using t kSetPfcPaused by simp
  ultimately show ?thesis
    using SetPfcPaused_inv [OF i k r] assms(2) memory_inv_mem [of s' s] by (simp add: qids_def)
next
  case (kPfcRefreshment p q)
  let ?s = "s\<lparr>refresh_at := (refresh_at s)((p, q) := None)\<rparr>"
  have r: "refresh_at s (p, q) = Some now" "port_ResumeOutput env now p ?s = Some s'"
    using assms(4,6) kPfcRefreshment by simp_all
  have p: "p < ports_num s" using slots_in_range(2) [OF assms(1) r(1)] by (simp add: qids_def)
  show ?thesis using Refreshment_inv [OF assms(1,2) p assms(3) r] kPfcRefreshment by simp
next
  case (kPfcPauseSend p q)
  let ?s = "s\<lparr>send_pause_at := (send_pause_at s)((p, q) := None)\<rparr>"
  have r: "send_pause_at s (p, q) = Some now" "SendPfc env now p q ?s = Some s'"
    using assms(4,6) kPfcPauseSend by simp_all
  have k: "(p, q) \<in> qids ?s" using slots_in_range(3) [OF assms(1) r(1)] by (simp add: qids_def)
  have "mem s' = mem s" using SendPfc_mem [OF r(2)] by simp
  then show ?thesis
    using SendPfc_inv [OF slot_inv [OF assms(1)] k r(2)] assms(2) memory_inv_mem [of s' s] kPfcPauseSend
    by (simp add: qids_def)
qed

end
