(* ===== verification/Router_Properties.thy ===== *)
theory Router_Properties
  imports Router_History
begin

text \<open>
  What holds in every state of a history of a router, and the operations that go wrong: memory is conserved,
  an output event never aborts while the tags of the packets add up, and a port with packets has a wakeup
  pending while no pause ends at once. A packet placed half in the guarantee of its queue and half in the
  pool aborts the router when it leaves, and a pause that ends at once leaves its port asleep.
\<close>

section \<open>The invariants over histories\<close>

lemma reach_inv:
  assumes "router_reach env s0 live now s" "new_Router rng conn ports queues c = Some s0" "small_config s0" "env_ok env"
  shows "port_inv live {} now s \<and>
    memory_inv (unat (egress_pool_free_cells s0)) (unat (ingress_pool_free_cells s0)) s \<and> qids s = qids s0"
  using assms(1)
proof induction
  case start
  then show ?case using new_Router_inv [OF assms(2,3)] by simp
next
  case (event live now s t e s')
  have "port_inv live {} t s" using port_inv_later [OF conjunct1 [OF event.IH] event.hyps(2)] .
  from handleMessage_inv [OF this _ assms(4) event.hyps(4,5,6)] show ?case using event.IH by metis
qed

section \<open>Dequeueing does not abort\<close>

definition tag_adds_up :: "FabricPacket \<Rightarrow> bool" where
  "tag_adds_up x \<longleftrightarrow> occ x = w_min x + w_pool x + w_head x"

lemma held_add: "held (\<lambda>x. f x + g x) s = held f s + held g s"
proof -
  have t: "tot (\<lambda>x. f x + g x) xs = tot f xs + tot g xs" for f g :: "'a \<Rightarrow> nat" and xs
    by (induction xs) simp_all
  have q: "queued (\<lambda>x. f x + g x) qs K = queued f qs K + queued g qs K" for qs and K :: "qid set"
    by (simp add: queued_def t sum.distrib)
  have "tot ((\<lambda>x. f x + g x) \<circ> snd) xs = tot (f \<circ> snd) xs + tot (g \<circ> snd) xs" for xs :: "(int \<times> FabricPacket) list"
    by (induction xs) simp_all
  then show ?thesis by (simp add: held_def t q)
qed

lemma tot_mono: "(\<And>x. x \<in> set xs \<Longrightarrow> f x \<le> g x) \<Longrightarrow> tot f xs \<le> tot g xs"
  by (induction xs) (simp_all add: add_mono)

lemma held_mono: "(\<And>x. x \<in> holds s \<Longrightarrow> f x \<le> g x) \<Longrightarrow> held f s \<le> held g s"
  unfolding held_def queued_def holds_def
  by (intro add_mono sum_mono tot_mono) auto

lemma held_queue_member:
  "k \<in> qids s \<Longrightarrow> x \<in> set (packet_queues s k) \<Longrightarrow> w x \<le> held w s"
  unfolding held_def using queued_member [of "qids s" k x "packet_queues s" w] by simp

lemma at_key_occ_bound:
  assumes "memory_inv C P s" "support_pfc s" "P < 2 ^ 62" "k \<in> qids s"
  shows "held (at_key k occ) s < 2 ^ 64" "queue_ingress_occupancy s k = of_nat (held (at_key k occ) s)"
proof -
  have i: "ingress_inv P s" "small_config s" using assms(1,2) by (simp_all add: memory_inv_def)
  then show "queue_ingress_occupancy s k = of_nat (held (at_key k occ) s)" using assms(4) by (simp add: ingress_inv_def)
  have "occ x \<le> (w_took x + w_head x) + w_pool x" for x unfolding w_took_def by linarith
  then have "held (at_key k occ) s \<le> held (\<lambda>x. (at_key k w_took x + at_key k w_head x) + w_pool x) s"
    by (intro held_mono) (simp add: at_key_def)
  also have "\<dots> = held (at_key k w_took) s + held (at_key k w_head) s + held w_pool s"
    by (simp only: held_add)
  also have "\<dots> < 2 ^ 64"
  proof -
    have "held (at_key k w_took) s \<le> unat (guarantee s k)" "held (at_key k w_head) s \<le> unat (headroom s k)"
      using i(1) assms(4) by (fastforce simp: ingress_inv_def word_le_nat_alt)+
    moreover have "unat (guarantee s k) < 2 ^ 60" "unat (headroom s k) < 2 ^ 60"
      using i(2) unfolding small_config_def small_def by blast+
    moreover have "held w_pool s \<le> P" using i(1) by (simp add: ingress_inv_def)
    ultimately show ?thesis using assms(3) by simp
  qed
  finally show "held (at_key k occ) s < 2 ^ 64" .
qed

lemma release_ingress_total:
  assumes "port_inv live X now s1" "ctl s1 = ctl (s\<lparr>packet_queues := qs\<rparr>)" "mem s1 = mem (s\<lparr>packet_queues := qs\<rparr>)"
    and "memory_inv C P s" "P < 2 ^ 62" "\<forall>x \<in> holds s. tag_adds_up x" "queues_num s \<le> 8"
    and "k \<in> qids s" "x \<in> set (packet_queues s k)" "same_packet y x"
  shows "\<exists>r. release_ingress env now y s1 = Some r"
proof (cases "support_pfc s1")
  case False
  then show ?thesis by (simp add: release_ingress_def)
next
  case True
  have sp: "support_pfc s" using True ctl_fields(3) [OF assms(2)] by simp
  have xh: "x \<in> holds s" unfolding holds_def using assms(8,9) by blast
  obtain k' where k': "k' \<in> qids s" "tag_key x = Some k'" using tag_in_range [OF assms(4) xh sp] by blast
  obtain t where t: "ingress_tag x = Some t" "k' = (tag_port t, tag_priority t)"
    using k'(2) by (auto simp: tag_key_def)
  have ty: "ingress_tag y = Some t" "GetPacketOccupancy y = GetPacketOccupancy x"
    using assms(10) t(1) same_weights [OF assms(10)] by (simp_all add: same_packet_def)
  have i: "ingress_inv P s" using assms(4) sp by (simp add: memory_inv_def)
  have add: "occ x = unat (tag_minimal_guarantee t) + unat (tag_shared_pool t) + unat (tag_headroom t)"
    using assms(6) xh t(1) by (simp add: tag_adds_up_def w_min_def w_pool_def w_head_def)
  have c1: "GetPacketOccupancy x = tag_minimal_guarantee t + tag_shared_pool t + tag_headroom t"
    using arg_cong [OF add, of "of_nat :: nat \<Rightarrow> u64"] by simp
  have le: "at_key k' w x \<le> held (at_key k' w) s" for w by (rule held_queue_member [OF assms(8,9)])
  have "w_took x = unat (tag_minimal_guarantee t)"
    using add t(1) by (simp add: w_took_def w_pool_def w_head_def)
  then have c2: "tag_minimal_guarantee t \<le> guarantee_occupancy s k'"
    using i k' le [of w_took] by (fastforce simp: ingress_inv_def at_key_def word_le_nat_alt)
  have c3: "tag_headroom t \<le> headroom_occupancy s k'"
    using i k' le [of w_head] t(1) by (fastforce simp: ingress_inv_def at_key_def w_head_def word_le_nat_alt)
  note b = at_key_occ_bound [OF assms(4) sp assms(5) k'(1)]
  have c4: "GetPacketOccupancy x \<le> queue_ingress_occupancy s k'"
    using b le [of occ] k'(2) by (simp add: word_le_nat_alt unat_of_nat at_key_def)
  obtain z s2 where r: "IngressAccountingRelease y s1 = Some (z, s2)"
    using ty c1 c2 c3 c4 t(2) mem_fields [OF assms(3)] by (simp add: IngressAccountingRelease_def Let_def)
  note c = IngressAccountingRelease_ctl [OF r]
  have pi: "port_inv live X now s2" using assms(1) port_inv_ctl [OF c] by simp
  have p: "tag_port t < ports_num s2" "tag_priority t < 8"
    using k'(1) t(2) assms(7) ctl_fields(1) [OF c] ctl_fields(1) [OF assms(2)] by (simp_all add: qids_def)
  have "\<exists>s3. DisablePfcSending now (tag_port t) (tag_priority t) s2 = Some s3"
  proof -
    have ok: "port_ok live X now s2 (tag_port t)" by (rule port_inv_D [OF pi p(1)])
    then have "length (pfc_queue s2 (tag_port t)) \<le> 1"
      "port_state s2 (tag_port t) = P_kIdle \<Longrightarrow> output_at s2 (tag_port t) = None"
      by (auto simp: port_ok_def)
    then show ?thesis using p(2)
      by (cases "pfc_queue s2 (tag_port t)")
        (auto simp: DisablePfcSending_def GeneratePfc_def Let_def CreatePfcPacket_def kClassesOfService_def
          router_ScheduleOutput_def kEnqueueDelay_def)
  qed
  then obtain s3 where "DisablePfcSending now (tag_port t) (tag_priority t) s2 = Some s3" by blast
  then show ?thesis using True ty(1) r by (simp add: release_ingress_def Let_def)
qed

lemma release_egress_total:
  assumes "memory_inv C P s" "k \<in> qids s" "x \<in> set (packet_queues s k)" "c = GetPacketOccupancy x"
    and "port_egress_occupancy s1 = port_egress_occupancy s" "queue_egress_occupancy s1 = queue_egress_occupancy s"
  shows "\<exists>r. release_egress now k c s1 = Some r"
proof -
  have e: "egress_inv C s" using assms(1) by (simp add: memory_inv_def)
  have "occ x \<le> tot occ (packet_queues s k)" by (rule tot_member [OF assms(3)])
  then have q: "c \<le> queue_egress_occupancy s1 k"
    using e assms(2,4,6) by (simp add: egress_inv_def word_le_nat_alt)
  have "occ x \<le> queued occ (packet_queues s) ({fst k} \<times> {..<queues_num s})"
    using assms(2,3) by (intro queued_member [of _ k]) (auto simp: qids_def)
  then have p: "c \<le> port_egress_occupancy s1 (fst k)"
    using e assms(2,4,5) by (cases k) (simp add: egress_inv_def word_le_nat_alt qids_def)
  show ?thesis using p q by (simp add: release_egress_def Let_def split: option.split)
qed

lemma DequeuedPacket_total:
  assumes "port_inv live X now (s\<lparr>packet_queues := qs\<rparr>)" "memory_inv C P s" "P < 2 ^ 62"
    and "\<forall>x \<in> holds s. tag_adds_up x" "queues_num s \<le> 8" "k \<in> qids s" "x \<in> set (packet_queues s k)"
  shows "\<exists>r. DequeuedPacket env now k x (s\<lparr>packet_queues := qs\<rparr>) = Some r"
proof -
  let ?s = "s\<lparr>packet_queues := qs\<rparr>"
  obtain y s1 where e: "(if ecn_stage ?s k = kDequeueMark then PerformEcnMarking env now k x ?s else (x, ?s)) = (y, s1)"
    by fastforce
  have f: "ctl s1 = ctl ?s" "mem s1 = mem ?s" "same_packet y x"
    using e ecn_ctl [of env now k x ?s y s1] ecn_same [of env now k x ?s y s1]
    by (auto simp: same_packet_def split: if_splits)
  have i: "port_inv live X now s1" using assms(1) port_inv_ctl [OF f(1)] by simp
  obtain z s2 where r: "release_ingress env now y s1 = Some (z, s2)"
    using release_ingress_total [OF i f(1,2) assms(2-7) f(3)] by fastforce
  have "port_egress_occupancy s2 = port_egress_occupancy s1 \<and> queue_egress_occupancy s2 = queue_egress_occupancy s1"
    using release_ingress_mem [OF r] released_fields [of y s1 s2] by (simp split: if_splits)
  then obtain s3 where "release_egress now k (GetPacketOccupancy y) s2 = Some s3"
    using release_egress_total [OF assms(2,6,7), of "GetPacketOccupancy y" s2] mem_fields [OF f(2)]
      same_weights(7) [OF f(3)] by fastforce
  then show ?thesis using e r by (simp add: DequeuedPacket_def)
qed

lemma ScheduleOutput_total:
  assumes "port_inv live {p} now s" "memory_inv C P s" "p < ports_num s" "env_ok env" "P < 2 ^ 62"
    and "\<forall>x \<in> holds s. tag_adds_up x" "queues_num s \<le> 8"
  shows "\<exists>s'. port_ScheduleOutput env now p s = Some s'"
proof -
  have ok: "port_ok live {p} now s p" using port_inv_D [OF assms(1,3)] .
  show ?thesis
  proof (cases "pfc_queue s p")
    case (Cons f fs)
    let ?s = "s\<lparr>pfc_queue := (pfc_queue s)(p := fs)\<rparr>"
    have "tx_finish ?s p \<le> now" "output_at ?s p = None" using ok by simp_all
    then show ?thesis using assms(4) ok Cons
      by (simp add: port_ScheduleOutput_def port_SendPacket_def router_ScheduleOutput_def Let_def env_ok_def)
  next
    case Nil
    let ?peek = "map (\<lambda>q. queue_Peek now (p, q) s) [0..<queues_num s]"
    show ?thesis
    proof (cases "Arbitrate ?peek")
      case None
      then show ?thesis using Nil ok by (simp add: port_ScheduleOutput_def)
    next
      case (Some w)
      note w = Arbitrate_queues(2) [OF Some]
      have k: "(p, w) \<in> qids s" using w assms(3) by (simp add: qids_def)
      obtain x xs where x: "packet_queues s (p, w) = x # xs" "queue_Peek now (p, w) s = Some x"
        using w by (cases "packet_queues s (p, w)") (auto simp: queue_Peek_def CanTransmit_def split: if_splits)
      have i: "port_inv live {p} now (s\<lparr>packet_queues := (packet_queues s)((p, w) := xs)\<rparr>)"
        by (rule queue_change_inv [OF assms(1,3)])
      obtain y s1 where "DequeuedPacket env now (p, w) x (s\<lparr>packet_queues := (packet_queues s)((p, w) := xs)\<rparr>) = Some (y, s1)"
        using DequeuedPacket_total [OF i assms(2,5-7) k, of x env] x(1) by fastforce
      then have d: "queue_Dequeue env now (p, w) s = Some (s1, Some y)" using x by (simp add: queue_Dequeue_def)
      note j = queue_Dequeue_inv [OF assms(1,2) k d]
      have "p < ports_num s1" using k j by (auto simp: qids_def)
      then obtain s2 where "port_SendPacket env now p (Data y) s1 = Some s2"
        using send_total [OF conjunct1 [OF j] _ assms(4)] by blast
      then show ?thesis using Nil Some ok d by (simp add: port_ScheduleOutput_def)
    qed
  qed
qed

section \<open>What an output event sends\<close>

lemma GeneratePfc_sent: "GeneratePfc now p q u s = Some s' \<Longrightarrow> sent s' = sent s"
  by (auto simp: GeneratePfc_def router_ScheduleOutput_def Let_def split: list.splits if_splits bind_splits)

lemma DequeuedPacket_sent: "DequeuedPacket env now k x s = Some (y, s') \<Longrightarrow> sent s' = sent s"
proof -
  have ecn: "PerformEcnMarking env now k x s = (y, s') \<Longrightarrow> sent s' = sent s" for x y s s'
    by (auto simp: PerformEcnMarking_def split: option.splits if_splits prod.splits)
  have dis: "DisablePfcSending now p q s = Some s' \<Longrightarrow> sent s' = sent s" for p q s s'
    by (auto simp: DisablePfcSending_def Let_def split: if_splits dest: GeneratePfc_sent)
  have acc: "IngressAccountingRelease x s = Some (y, s') \<Longrightarrow> sent s' = sent s" for x y s s'
    by (auto simp: IngressAccountingRelease_def Let_def split: bind_splits if_splits)
  have ing: "sent s' = sent s" if r: "release_ingress env now x s = Some (y, s')" for x y s s'
  proof (cases "support_pfc s")
    case True
    then obtain t s1 where "ingress_tag x = Some t" "IngressAccountingRelease x s = Some (y, s1)"
      "s' = s1 \<or> DisablePfcSending now (tag_port t) (tag_priority t) s1 = Some s'"
      using r by (auto simp: release_ingress_def Let_def split: bind_splits if_splits)
    then show ?thesis using acc dis by metis
  qed (use r in \<open>simp add: release_ingress_def\<close>)
  have eg: "release_egress now k c s = Some s' \<Longrightarrow> sent s' = sent s" for c s s'
    by (auto simp: release_egress_def Let_def split: if_splits option.splits)
  assume d: "DequeuedPacket env now k x s = Some (y, s')"
  obtain y1 s1 where e: "(if ecn_stage s k = kDequeueMark then PerformEcnMarking env now k x s else (x, s)) = (y1, s1)"
    by fastforce
  then obtain s2 where "release_ingress env now y1 s1 = Some (y, s2)" "release_egress now k (GetPacketOccupancy y1) s2 = Some s'"
    using d by (auto simp: DequeuedPacket_def split: bind_splits)
  moreover have "sent s1 = sent s" using e ecn by (simp split: if_splits)
  ultimately show ?thesis using ing eg by metis
qed

lemma ScheduleOutput_sends:
  assumes "port_ScheduleOutput env now p s = Some s'" "q < queues_num s" "CanTransmit now (p, q) s"
  shows "\<exists>f. sent s' = sent s @ [(p, f)]"
proof -
  have snd: "port_SendPacket env now p f s1 = Some s2 \<Longrightarrow> sent s2 = sent s1 @ [(p, f)]" for f s1 s2
    by (auto simp: port_SendPacket_def router_ScheduleOutput_def Let_def split: if_splits)
  have a: "port_state s p = P_kActive"
    using assms(1) by (cases "port_state s p") (simp_all add: port_ScheduleOutput_def)
  show ?thesis
  proof (cases "pfc_queue s p")
    case (Cons f fs)
    then have "port_SendPacket env now p (Pfc f) (s\<lparr>pfc_queue := (pfc_queue s)(p := fs)\<rparr>) = Some s'"
      using assms(1) a by (simp add: port_ScheduleOutput_def)
    then show ?thesis using snd by fastforce
  next
    case Nil
    let ?peek = "map (\<lambda>q. queue_Peek now (p, q) s) [0..<queues_num s]"
    have "queue_Peek now (p, q) s \<noteq> None" using assms(3) by (simp add: queue_Peek_def)
    then obtain w where w: "Arbitrate ?peek = Some w"
      using Arbitrate_queues(1) [OF _ assms(2), of "\<lambda>q. queue_Peek now (p, q) s"] by (cases "Arbitrate ?peek") simp_all
    obtain x where x: "queue_Peek now (p, w) s = Some x" using Arbitrate_queues(2) [OF w] by (cases "queue_Peek now (p, w) s") simp_all
    obtain y s1 where d: "DequeuedPacket env now (p, w) x (s\<lparr>packet_queues := (packet_queues s)((p, w) := tl (packet_queues s (p, w)))\<rparr>) = Some (y, s1)"
      "port_SendPacket env now p (Data y) s1 = Some s'"
      using assms(1) Nil w x a by (auto simp: port_ScheduleOutput_def queue_Dequeue_def split: bind_splits)
    show ?thesis using DequeuedPacket_sent [OF d(1)] snd [OF d(2)] by simp
  qed
qed

section \<open>An example router\<close>

text \<open>One port with one queue; exact arithmetic; every destination goes to port 0. With \<open>g = 0\<close> the ingress
  limit is 0, so the first packet triggers pause frames; without flow control it is routed.\<close>

definition demo_fops :: fops where
  "demo_fops = \<lparr>fl_of = (\<lambda>w. of_nat (unat w)), fl_add = (+), fl_sub = (-), fl_mul = (*), fl_div = (/),
     fl_pow = (\<lambda>x y. x), fl_seconds = (\<lambda>t. of_int t)\<rparr>"

definition demo_table :: NetworkRoutingTable where
  "demo_table = \<lparr>src_mac_to_vrf_map = [], vrfs = [kDefaultVrfId \<mapsto> \<lparr>head = TrieNode Null Null (Some 0), trie_size = 1\<rparr>],
     ndv6_ip_table = new_IPTable, groups = [0 \<mapsto> \<lparr>set_src_mac = 0, output_options = [\<lparr>weight = 1, port_index = 0\<rparr>]\<rparr>]\<rparr>"

definition demo_env :: router_env where
  "demo_env = \<lparr>fp = demo_fops, max_frame_transmission_time = (\<lambda>_. 10), ConvertToPauseDuration = (\<lambda>_ u. u),
     ConvertToPauseQuanta = (\<lambda>_ d. d), transmission_time = (\<lambda>_ _. 100), ifg_delay = (\<lambda>_. 1), connected = (\<lambda>_. True),
     mtu_size = 4096, router_delay = 50, crc = (\<lambda>_. 7), router_stage = 1, routing_table = demo_table\<rparr>"

definition demo_cos :: "int \<Rightarrow> CosProfile" where
  "demo_cos g = \<lparr>cos_profile_name = ''c'', ingress_alpha = 0, egress_alpha = 1, ecn_marking_stage = None,
     cos_wred_config = None, pfc_headroom = Some 20, ingress_minimal_guarantee = Some g\<rparr>"

definition demo_carving :: "int \<Rightarrow> BufferCarving" where
  "demo_carving g = \<lparr>cos_configs = [], qos_configs = [], ingress_service_pool_size = 100, egress_service_pool_size = 200,
     port_configs = [(0, Qos_config \<lparr>qos_profile_name = ''q'', qos_egress_alpha = 1,
       queue_configs = [(0, Cos_config (demo_cos g))]\<rparr>)]\<rparr>"

definition demo_config :: "bool \<Rightarrow> int \<Rightarrow> MemoryManagementUnitConfig" where
  "demo_config p g = \<lparr>pfc = (if p then Some \<lparr>cfg_pfc_xon = True, cfg_rx_pfc_delay = 0, cfg_pause_duration = 500\<rparr> else None),
     buffer_carving = Some (demo_carving g)\<rparr>"

definition demo_router :: "bool \<Rightarrow> int \<Rightarrow> Router" where
  "demo_router p g = the (new_Router (\<lambda>_ _. 0) (\<lambda>_. True) 1 1 (demo_config p g))"

lemma demo_built: "new_Router (\<lambda>_ _. 0) (\<lambda>_. True) 1 1 (demo_config p g) = Some (demo_router p g)"
  unfolding demo_router_def
  by (cases p) (simp_all add: new_Router_def demo_config_def demo_carving_def GetPortConfig_def GetQueueConfig_def
    InitializeCosConfig_def demo_cos_def empty_Router_def Let_def)

lemma demo_fields:
  "small_config (demo_router True 0)" "small_config (demo_router False 0)" "env_ok demo_env"
  "ports_num (demo_router p g) = 1" "queues_num (demo_router p g) = 1" "support_pfc (demo_router p g) = p"
  "guarantee (demo_router p g) = (\<lambda>_. 0)((0, 0) := word_of_int g)"
  "ingress_pool_free_cells (demo_router True g) = 100"
  by (cases p; simp add: demo_router_def new_Router_def demo_config_def demo_carving_def GetPortConfig_def GetQueueConfig_def
    InitializeCosConfig_def demo_cos_def empty_Router_def Let_def small_config_def small_def env_ok_def demo_env_def)+

text \<open>The first packet arrives.\<close>

definition demo_arrival :: RouterEvent where
  "demo_arrival = kReceivePacket 0 1000 (Data example_packet)"

lemma demo_start: "router_reach demo_env (demo_router p g) True 0 (demo_router p g)"
  by (rule router_reach.start)

lemma demo_arrives:
  assumes "handleMessage demo_env 0 demo_arrival (demo_router p g) = Some s"
  shows "router_reach demo_env (demo_router p g) True 0 s"
proof -
  have "fresh (demo_router p g)" by (rule new_Router_fresh [OF demo_built])
  then have l: "all_later 0 (demo_router p g)" by (simp add: all_later_def fresh_def)
  have d: "event_due demo_env 0 demo_arrival (demo_router p g)" "frame_ok demo_env demo_arrival"
    by (simp_all add: demo_arrival_def demo_fields demo_env_def example_packet_def)
  show ?thesis using router_reach.event [OF demo_start order_refl l d assms] by (simp add: demo_arrival_def)
qed

lemmas demo_defs = demo_router_def new_Router_def demo_config_def demo_carving_def GetPortConfig_def GetQueueConfig_def
  InitializeCosConfig_def demo_cos_def empty_Router_def demo_env_def demo_fops_def demo_arrival_def port_ReceivePacket_def
  GetPacketPriority_def GetPacketOccupancy_def example_packet_def ReceivedData_def pfc_trigger_limit_def Let_def

lemma demo_pauses:
  obtains s where "handleMessage demo_env 0 demo_arrival (demo_router True 0) = Some s" "output_at s 0 = Some 10"
    "\<forall>x \<in> holds s. tag_adds_up x" "holds s \<noteq> {}" "support_pfc s"
proof -
  have "\<exists>s. handleMessage demo_env 0 demo_arrival (demo_router True 0) = Some s \<and> output_at s 0 = Some 10 \<and>
    (\<forall>x \<in> holds s. tag_adds_up x) \<and> holds s \<noteq> {} \<and> support_pfc s"
    by (simp add: demo_defs EnablePfcSending_def SendPfc_def GeneratePfc_def CreatePfcPacket_def kClassesOfService_def
        router_ScheduleOutput_def kEnqueueDelay_def holds_def qids_def tag_adds_up_def w_min_def w_pool_def w_head_def)
  then show ?thesis using that by blast
qed

lemma demo_splits:
  obtains s where "handleMessage demo_env 0 demo_arrival (demo_router True 5) = Some s" "support_pfc s" "queues_num s = 1"
    "\<not> pfc_sending_triggered s (0, 0)" "queue_ingress_occupancy s (0, 0) = 4" "guarantee s (0, 0) = 5"
    "guarantee_occupancy s (0, 0) = 4" "ingress_pool_free_cells s = 100" "queue_ingress_alpha s (0, 0) = 0"
proof -
  have "\<exists>s. handleMessage demo_env 0 demo_arrival (demo_router True 5) = Some s \<and> support_pfc s \<and> queues_num s = 1 \<and>
    \<not> pfc_sending_triggered s (0, 0) \<and> queue_ingress_occupancy s (0, 0) = 4 \<and> guarantee s (0, 0) = 5 \<and>
    guarantee_occupancy s (0, 0) = 4 \<and> ingress_pool_free_cells s = 100 \<and> queue_ingress_alpha s (0, 0) = 0"
    by (simp add: demo_defs place_ingress_def)
  then show ?thesis using that by blast
qed

lemma demo_routes:
  obtains s s' where "handleMessage demo_env 0 demo_arrival (demo_router False 0) = Some s" "all_later 50 s"
    "event_due demo_env 50 kRouterDelay s" "handleMessage demo_env 50 kRouterDelay s = Some s'"
    "packet_queues s' (0, 0) \<noteq> []" "ports_num s' = 1" "queues_num s' = 1"
proof -
  have h: "find_longest a \<lparr>head = TrieNode Null Null (Some x), trie_size = 1\<rparr> = Inr x" for a and x :: u32
    by (simp add: find_longest_def high_bit_def)
  have r: "GetOutputPort (\<lambda>_. 7) 1 demo_table (example_packet\<lparr>hop_limit := 7, ingress_tag := t\<rparr>) =
      Some (example_packet\<lparr>hop_limit := 7, req_src_mac := Some 0, ingress_tag := t\<rparr>, Inr 0)" for t
    by (simp add: GetOutputPort_def GetOutputOptionsAndModifyPacket_def demo_table_def ip_empty_def new_IPTable_def
        vrf_route_def h example_packet_def SetPacketSourceMac_def GetPacketStaticRoutingPort_def SelectOutputPort_def
        HashValueRotation_def Let_def)
  have "\<exists>s s'. handleMessage demo_env 0 demo_arrival (demo_router False 0) = Some s \<and> all_later 50 s \<and>
    event_due demo_env 50 kRouterDelay s \<and> handleMessage demo_env 50 kRouterDelay s = Some s' \<and>
    packet_queues s' (0, 0) \<noteq> [] \<and> ports_num s' = 1 \<and> queues_num s' = 1"
    by (simp add: demo_defs all_later_def RoutePacket_def route_decision_def DecrementPacketTtl_def
        r [unfolded example_packet_def, simplified] port_EnqueuePacket_def queue_Enqueue_def RequestEnqueue_def
        egress_full_def router_ScheduleOutput_def kEnqueueDelay_def PerformEcnMarking_def)
  then show ?thesis using that by blast
qed

section \<open>Properties\<close>

lemma new_Router_queues: "new_Router rng conn ports queues c = Some s \<Longrightarrow> qids s = {..<ports} \<times> {..<queues}"
proof -
  assume n: "new_Router rng conn ports queues c = Some s"
  obtain b where b: "buffer_carving c = Some b" using n by (cases "buffer_carving c") (simp_all add: new_Router_def Let_def)
  then obtain s2 where "init_ports rng conn b [0..<ports] s2 = Some s" "ports_num s2 = ports" "queues_num s2 = queues"
    using n by (cases "ports \<le> length (port_configs b)"; cases "pfc c") (auto simp: new_Router_def Let_def empty_Router_def)
  then show ?thesis using init_ports_static [of rng conn b "[0..<ports]" s2 s] by (simp add: static_def qids_def)
qed

lemma queues_of_qids:
  assumes "qids s = {..<a} \<times> {..<b}" "p < ports_num s"
  shows "queues_num s \<le> b"
proof (rule ccontr)
  assume "\<not> queues_num s \<le> b"
  then have "(p, b) \<in> qids s" using assms(2) by (simp add: qids_def)
  then show False using assms(1) by simp
qed

text \<open>The packets in the router, and those its pipeline dropped.\<close>

definition inside :: "(FabricPacket \<Rightarrow> nat) \<Rightarrow> Router \<Rightarrow> nat" where
  "inside w s = tot (w \<circ> snd) (pipeline s) + queued w (packet_queues s) (qids s)"

definition lost :: "(FabricPacket \<Rightarrow> nat) \<Rightarrow> Router \<Rightarrow> nat" where
  "lost w s = tot w (discarded s)"

lemma held_split: "held w s = inside w s + lost w s"
  by (simp add: held_def inside_def lost_def)

text \<open>C10. Memory is conserved. In every state a router reaches, the free cells of the egress pool and the cells
  of the packets in its queues are the pool it was built with, and the egress counter of every port and every
  queue is the cells of the packets queued there. With flow control (without it the code counts nothing at
  ingress) the ingress counters are exact too, over the packets inside the router (in the routing pipeline or in a
  queue) and the packets the pipeline dropped (\<open>lost\<close>): the free cells of the ingress pool and the shared cells of
  these packets are the configured pool; the guarantee counter of every port and priority is what these packets
  took of the guarantee (\<open>w_took\<close>, the cells that neither the pool nor the headroom gave), its headroom counter what
  they took of the headroom, and its occupancy counter their cells, without wrap-around when the pool is
  below 2^62. A dropped packet stays in the counts: the comment in the header says that the counting is
  restored when a packet is dropped, but no drop calls the release.\<close>

theorem fabric_memory_conserved:
  assumes "new_Router rng conn ports queues c = Some s0" "small_config s0" "env_ok env"
    and "router_reach env s0 live now s"
  shows "unat (egress_pool_free_cells s) + queued occ (packet_queues s) (qids s) = unat (egress_pool_free_cells s0) \<and>
    (\<forall>p < ports_num s. unat (port_egress_occupancy s p) = queued occ (packet_queues s) ({p} \<times> {..<queues_num s})) \<and>
    (\<forall>k \<in> qids s. unat (queue_egress_occupancy s k) = tot occ (packet_queues s k)) \<and>
    (support_pfc s \<longrightarrow>
      unat (ingress_pool_free_cells s) + inside w_pool s + lost w_pool s = unat (ingress_pool_free_cells s0) \<and>
      (\<forall>k \<in> qids s.
        unat (guarantee_occupancy s k) = inside (at_key k w_took) s + lost (at_key k w_took) s \<and>
        guarantee_occupancy s k \<le> guarantee s k \<and>
        unat (headroom_occupancy s k) = inside (at_key k w_head) s + lost (at_key k w_head) s \<and>
        headroom_occupancy s k \<le> headroom s k \<and>
        queue_ingress_occupancy s k = of_nat (inside (at_key k occ) s + lost (at_key k occ) s) \<and>
        (unat (ingress_pool_free_cells s0) < 2 ^ 62 \<longrightarrow>
          unat (queue_ingress_occupancy s k) = inside (at_key k occ) s + lost (at_key k occ) s))) \<and>
    memory_inv (unat (egress_pool_free_cells s0)) (unat (ingress_pool_free_cells s0)) s"
proof -
  let ?P = "unat (ingress_pool_free_cells s0)"
  have m: "memory_inv (unat (egress_pool_free_cells s0)) ?P s"
    using reach_inv [OF assms(4,1-3)] by simp
  then have e: "egress_inv (unat (egress_pool_free_cells s0)) s" and i: "support_pfc s \<Longrightarrow> ingress_inv ?P s"
    by (simp_all add: memory_inv_def)
  have q: "unat (queue_ingress_occupancy s k) = held (at_key k occ) s" if "support_pfc s" "?P < 2 ^ 62" "k \<in> qids s" for k
    using at_key_occ_bound [OF m that] by (simp add: unat_of_nat)
  show ?thesis
    using m e i q unfolding egress_inv_def ingress_inv_def held_split by (simp add: add.assoc)
qed

lemma fabric_memory_conserved_witness:
  "\<exists>s. router_reach demo_env (demo_router True 0) True 0 s \<and> holds s \<noteq> {} \<and> support_pfc s \<and>
     unat (ingress_pool_free_cells s) + inside w_pool s + lost w_pool s = 100 \<and>
     unat (headroom_occupancy s (0, 0)) = inside (at_key (0, 0) w_head) s + lost (at_key (0, 0) w_head) s \<and>
     unat (queue_ingress_occupancy s (0, 0)) = inside (at_key (0, 0) occ) s + lost (at_key (0, 0) occ) s"
proof -
  obtain s where s: "handleMessage demo_env 0 demo_arrival (demo_router True 0) = Some s" "holds s \<noteq> {}" "support_pfc s"
    using demo_pauses by metis
  note r = demo_arrives [OF s(1)]
  note c = fabric_memory_conserved [OF demo_built demo_fields(1,3) r, unfolded demo_fields(8)]
  note ingress = mp [OF conjunct1 [OF conjunct2 [OF conjunct2 [OF conjunct2 [OF c]]]] s(3)]
  have "qids s = qids (demo_router True 0)" using reach_inv [OF r demo_built demo_fields(1,3)] by blast
  then have k: "(0, 0) \<in> qids s" by (simp add: qids_def demo_fields)
  have small: "unat (100 :: u64) < 2 ^ 62" by simp
  note key = bspec [OF conjunct2 [OF ingress] k]
  have "unat (queue_ingress_occupancy s (0, 0)) = inside (at_key (0, 0) occ) s + lost (at_key (0, 0) occ) s"
    using key small by blast
  moreover have "unat (headroom_occupancy s (0, 0)) = inside (at_key (0, 0) w_head) s + lost (at_key (0, 0) w_head) s"
    using key by blast
  moreover have "unat (ingress_pool_free_cells s) + inside w_pool s + lost w_pool s = 100"
    using conjunct1 [OF ingress] by simp
  ultimately show ?thesis using r s(2,3) by blast
qed

text \<open>C30. An output event never aborts: in every state a router of at most eight queues a port reaches, while
  the tag of every packet it holds adds up to the cells of the packet, the output event of a port finds the
  channel free, passes every check of the memory accounting and schedules its next event.\<close>

theorem output_event_never_aborts:
  assumes "new_Router rng conn ports queues c = Some s0" "small_config s0" "env_ok env"
    and "router_reach env s0 live now s" "now \<le> t" "event_due env t (kOutputScheduling p) s"
    and "\<forall>x \<in> holds s. tag_adds_up x" "queues \<le> 8" "unat (ingress_pool_free_cells s0) < 2 ^ 62"
  shows "\<exists>s'. handleMessage env t (kOutputScheduling p) s = Some s'"
proof -
  note i = reach_inv [OF assms(4,1-3)]
  have pi: "port_inv live {} t s" using port_inv_later [OF conjunct1 [OF i] assms(5)] .
  have o: "output_at s p = Some t" using assms(6) by simp
  let ?s = "s\<lparr>output_at := (output_at s)(p := None)\<rparr>"
  note u = output_slot_inv [OF pi o]
  have m: "memory_inv (unat (egress_pool_free_cells s0)) (unat (ingress_pool_free_cells s0)) ?s"
    using i memory_inv_mem [of ?s s] by simp
  have h: "\<forall>x \<in> holds ?s. tag_adds_up x" using assms(7) by (simp add: holds_def qids_def)
  have q: "queues_num ?s \<le> 8" using queues_of_qids [OF _ u(1)] i new_Router_queues [OF assms(1)] assms(8) by fastforce
  have p: "p < ports_num ?s" using u(1) by simp
  show ?thesis using ScheduleOutput_total [OF u(2) m p assms(3,9) h q] by simp
qed

lemma output_event_never_aborts_witness:
  "\<exists>s. router_reach demo_env (demo_router True 0) True 0 s \<and> event_due demo_env 10 (kOutputScheduling 0) s \<and>
     (\<exists>s'. handleMessage demo_env 10 (kOutputScheduling 0) s = Some s')"
proof -
  obtain s where s: "handleMessage demo_env 0 demo_arrival (demo_router True 0) = Some s" "output_at s 0 = Some 10"
    "\<forall>x \<in> holds s. tag_adds_up x" by (rule demo_pauses)
  have d: "event_due demo_env 10 (kOutputScheduling 0) s" using s(2) by simp
  note r = demo_arrives [OF s(1)]
  have "\<exists>s'. handleMessage demo_env 10 (kOutputScheduling 0) s = Some s'"
    by (rule output_event_never_aborts [OF demo_built demo_fields(1,3) r _ d s(3)]) (simp_all add: demo_fields)
  then show ?thesis using r d by blast
qed

text \<open>C31. No wakeup is lost: while no frame ended a pause at once, a port with a packet in a queue has an output
  event pending, or the queue is paused and the message at the end of its pause is pending; and when that
  message comes while the port is still idle, the port sends a frame.\<close>

theorem port_wakeup_pending:
  assumes "new_Router rng conn ports queues c = Some s0" "small_config s0" "env_ok env"
    and "router_reach env s0 True now s" "p < ports_num s" "q < queues_num s" "packet_queues s (p, q) \<noteq> []"
  shows "(\<exists>t. output_at s p = Some t) \<or>
    support_pfc s \<and> refresh_at s (p, q) = Some (unpause_time s (p, q)) \<and>
    (\<forall>s'. handleMessage env (unpause_time s (p, q)) (kPfcRefreshment p q) s = Some s' \<longrightarrow>
       (\<exists>f. sent s' = sent s @ [(p, f)]))"
proof (cases "output_at s p")
  case None
  have ok: "port_ok True {} now s p" using reach_inv [OF assms(4,1-3)] port_inv_D assms(5) by blast
  then have idle: "port_state s p = P_kIdle" using None by (cases "port_state s p") (simp_all add: port_ok_def)
  then have w: "support_pfc s" "refresh_at s (p, q) = Some (unpause_time s (p, q))"
    using ok assms(6,7) by (auto simp: port_ok_def waits_def)
  let ?u = "unpause_time s (p, q)"
  let ?s = "s\<lparr>refresh_at := (refresh_at s)((p, q) := None), port_state := (port_state s)(p := P_kActive)\<rparr>"
  have "\<exists>f. sent s' = sent s @ [(p, f)]" if "handleMessage env ?u (kPfcRefreshment p q) s = Some s'" for s'
  proof -
    have "port_ScheduleOutput env ?u p ?s = Some s'" using that idle by (simp add: port_ResumeOutput_def)
    moreover have "CanTransmit ?u (p, q) ?s" using assms(7) by (simp add: CanTransmit_def IsPaused_def)
    ultimately show ?thesis using ScheduleOutput_sends [of env ?u p ?s s' q] assms(6) by simp
  qed
  then show ?thesis using w by blast
qed blast

lemma port_wakeup_pending_witness:
  "\<exists>s. router_reach demo_env (demo_router False 0) True 50 s \<and> packet_queues s (0, 0) \<noteq> [] \<and>
     ((\<exists>t. output_at s 0 = Some t) \<or> support_pfc s \<and> refresh_at s (0, 0) = Some (unpause_time s (0, 0)))"
proof -
  obtain s s' where s: "handleMessage demo_env 0 demo_arrival (demo_router False 0) = Some s" "all_later 50 s"
    "event_due demo_env 50 kRouterDelay s" "handleMessage demo_env 50 kRouterDelay s = Some s'"
    "packet_queues s' (0, 0) \<noteq> []" "ports_num s' = 1" "queues_num s' = 1" by (rule demo_routes)
  have r: "router_reach demo_env (demo_router False 0) True 50 s'"
    using router_reach.event [OF demo_arrives [OF s(1)] _ s(2,3) _ s(4)] by simp
  show ?thesis
    using port_wakeup_pending [OF demo_built demo_fields(2,3) r, of 0 0] s(5,6,7) r by (intro exI [of _ s']) auto
qed

text \<open>C32. A packet that fills the guarantee of its ingress queue and takes the rest from the shared pool is
  admitted with a tag that says it holds nothing of the guarantee, so the tag is short of the packet, and the
  router aborts whenever the packet leaves a queue.\<close>

theorem split_packet_aborts:
  assumes "support_pfc s" "\<not> pfc_sending_triggered s (p, 0)" "0 < queues_num s" "len \<le> mtu_size env"
    and "fl_of (fp env) (queue_ingress_occupancy s (p, 0)) < pfc_trigger_limit env (p, 0) s"
    and "GetPacketOccupancy pkt \<le> ingress_pool_free_cells s"
    and "queue_ingress_occupancy s (p, 0) < guarantee s (p, 0)" "guarantee_occupancy s (p, 0) < guarantee s (p, 0)"
    and "unat (guarantee s (p, 0)) < unat (guarantee_occupancy s (p, 0)) + occ pkt"
    and "unat (guarantee_occupancy s (p, 0)) + occ pkt < 2 ^ 64"
  shows "\<exists>s1 pkt1. port_ReceivePacket env now p len (Data pkt) s = Some s1 \<and>
    pipeline s1 = pipeline s @ [(now + router_delay env, pkt1)] \<and> \<not> tag_adds_up pkt1 \<and>
    (\<forall>now' k s2. support_pfc s2 \<longrightarrow> DequeuedPacket env now' k pkt1 s2 = None)"
proof -
  let ?o = "GetPacketOccupancy pkt" and ?g = "guarantee s (p, 0)" and ?u = "guarantee_occupancy s (p, 0)"
  let ?m = "\<lparr>drop_it = True, minimal_guarantee_occupancy = 0, shared_pool_occupancy = ?u + ?o - ?g, headroom_part = 0\<rparr>"
  let ?s2 = "s\<lparr>guarantee_occupancy := (guarantee_occupancy s)((p, 0) := ?g),
     ingress_pool_free_cells := ingress_pool_free_cells s - (?u + ?o - ?g)\<rparr>"
  have sum: "unat (?u + ?o) = unat ?u + occ pkt" using assms(10) by (simp add: unat_add_small)
  then have gt: "\<not> ?u + ?o \<le> ?g" using assms(9) by (simp add: word_le_nat_alt)
  have pool: "unat (?u + ?o - ?g) = unat ?u + occ pkt - unat ?g"
    using sum gt by (simp add: unat_sub)
  then have lt: "unat (?u + ?o - ?g) < occ pkt" using assms(8,9) by (simp add: word_less_nat_alt)
  then have "(?u + ?o - ?g \<le> ingress_pool_free_cells s) = True" "(?u + ?o \<le> ?g) = False"
    "(?g \<le> queue_ingress_occupancy s (p, 0)) = False"
    using assms(6,7) gt by (simp_all add: word_le_nat_alt word_less_nat_alt)
  then have "place_ingress (p, 0) ?o s = Some (?s2, ?m)"
    by (simp add: place_ingress_def Let_def)
  moreover have "\<not> (fl_of (fp env) (queue_ingress_occupancy s (p, 0)) \<ge> pfc_trigger_limit env (p, 0) s \<or>
      ingress_pool_free_cells s < ?o)" using assms(5,6) by simp
  ultimately obtain s3 where r: "ReceivedData env now p ?o 0 s = Some (s3, ?m\<lparr>drop_it := False\<rparr>)" "pipeline s3 = pipeline s"
    using assms(1,2) by (simp add: ReceivedData_def Let_def)
  let ?p = "pkt\<lparr>ingress_tag := Some \<lparr>tag_port = p, tag_priority = 0, tag_minimal_guarantee = 0,
     tag_shared_pool = ?u + ?o - ?g, tag_headroom = 0\<rparr>\<rparr>"
  have "port_ReceivePacket env now p len (Data pkt) s = Some (s3\<lparr>pipeline := pipeline s @ [(now + router_delay env, ?p)]\<rparr>)"
    using assms(3,4) r by (simp add: port_ReceivePacket_def GetPacketPriority_def Let_def)
  moreover have o: "GetPacketOccupancy ?p = ?o" by (simp add: GetPacketOccupancy_def)
  then have "\<not> tag_adds_up ?p" using lt by (simp add: tag_adds_up_def w_min_def w_pool_def w_head_def)
  moreover have "DequeuedPacket env now' k ?p s2 = None" if "support_pfc s2" for now' k s2
  proof -
    obtain y s3 where e: "(if ecn_stage s2 k = kDequeueMark then PerformEcnMarking env now' k ?p s2 else (?p, s2)) = (y, s3)"
      by fastforce
    then have y: "ctl s3 = ctl s2" "same_packet y ?p"
      using ecn_ctl [of env now' k ?p s2 y s3] ecn_same [of env now' k ?p s2 y s3]
      by (auto simp: same_packet_def split: if_splits)
    have "GetPacketOccupancy y \<noteq> ?u + ?o - ?g"
      using same_weights(7) [OF y(2)] o lt by auto
    then have "release_ingress env now' y s3 = None"
      using y(2) ctl_fields(3) [OF y(1)] that
      by (simp add: release_ingress_def IngressAccountingRelease_def same_packet_def Let_def)
    then show ?thesis using e by (simp add: DequeuedPacket_def)
  qed
  ultimately show ?thesis by (intro exI conjI) auto
qed

lemma split_packet_aborts_witness:
  "\<exists>s s1 pkt1. router_reach demo_env (demo_router True 5) True 0 s \<and>
     port_ReceivePacket demo_env 0 0 1000 (Data example_packet) s = Some s1 \<and>
     pipeline s1 = pipeline s @ [(50, pkt1)] \<and> (\<forall>now k s2. support_pfc s2 \<longrightarrow> DequeuedPacket demo_env now k pkt1 s2 = None)"
proof -
  obtain s where s: "handleMessage demo_env 0 demo_arrival (demo_router True 5) = Some s" "support_pfc s" "queues_num s = 1"
    "\<not> pfc_sending_triggered s (0, 0)" "queue_ingress_occupancy s (0, 0) = 4" "guarantee s (0, 0) = 5"
    "guarantee_occupancy s (0, 0) = 4" "ingress_pool_free_cells s = 100" "queue_ingress_alpha s (0, 0) = 0"
    by (rule demo_splits)
  have o: "GetPacketOccupancy example_packet = 4" by (simp add: GetPacketOccupancy_def example_packet_def)
  have "\<exists>s1 pkt1. port_ReceivePacket demo_env 0 0 1000 (Data example_packet) s = Some s1 \<and>
    pipeline s1 = pipeline s @ [(0 + router_delay demo_env, pkt1)] \<and> \<not> tag_adds_up pkt1 \<and>
    (\<forall>now' k s2. support_pfc s2 \<longrightarrow> DequeuedPacket demo_env now' k pkt1 s2 = None)"
    by (rule split_packet_aborts [OF s(2,4)])
      (simp_all add: s o pfc_trigger_limit_def demo_env_def demo_fops_def)
  then show ?thesis using demo_arrives [OF s(1)] by (auto simp: demo_env_def)
qed

text \<open>A pause that ends at once leaves its port asleep: when the message of an X-on frame comes for a queue
  of an idle port, the message that would have woken the port is cancelled, and afterwards the queue may
  transmit, the port is idle and no event of it is pending for this queue.\<close>

theorem xon_loses_wakeup:
  assumes "set_paused_at s (p, q) = Some (now, 0)" "port_state s p = P_kIdle" "output_at s p = None"
    and "packet_queues s (p, q) \<noteq> []"
  shows "\<exists>s'. handleMessage env now (kSetPfcPaused p q) s = Some s' \<and> CanTransmit now (p, q) s' \<and>
    port_state s' p = P_kIdle \<and> output_at s' p = None \<and> refresh_at s' (p, q) = None \<and> sent s' = sent s"
  using assms by (simp add: SetPfcPaused_def Let_def CanTransmit_def IsPaused_def)

lemma xon_loses_wakeup_witness:
  "\<exists>s s'. handleMessage demo_env 7 (kSetPfcPaused 0 0) s = Some s' \<and> CanTransmit 7 (0, 0) s' \<and>
     port_state s' 0 = P_kIdle \<and> output_at s' 0 = None \<and> refresh_at s (0, 0) = Some 90 \<and> refresh_at s' (0, 0) = None"
proof -
  let ?s = "(empty_Router 1 1)\<lparr>support_pfc := True, set_paused_at := (\<lambda>_. None)((0, 0) \<mapsto> (7, 0)),
     refresh_at := (\<lambda>_. None)((0, 0) \<mapsto> 90), unpause_time := (\<lambda>_. 0)((0, 0) := 90),
     packet_queues := (\<lambda>_. [])((0, 0) := [example_packet])\<rparr>"
  have h: "set_paused_at ?s (0, 0) = Some (7, 0)" "port_state ?s 0 = P_kIdle" "output_at ?s 0 = None"
    "packet_queues ?s (0, 0) \<noteq> []" "refresh_at ?s (0, 0) = Some 90"
    by (simp_all add: empty_Router_def)
  show ?thesis using xon_loses_wakeup [OF h(1-4), of demo_env] h(5) by blast
qed

end
