(* ===== verification/Host_Rx_Buffers.thy ===== *)
theory Host_Rx_Buffers
  imports Prelude
begin

text \<open>
  The way of received data from RDMA to host memory: the write queue of the memory interface
  (\<open>host/rnic/memory_interface.{h,cc}\<close>) and the receive buffer RDMA keeps for a host in front of it
  (\<open>host/rdma/rdma_per_host_rx_buffers.{h,cc}\<close>). The queue transmits one item at a time; a full queue makes
  RDMA buffer, a full buffer pauses Falcon, and the completion of a transmission wakes the buffer.

  A callback is a value: \<open>'c\<close> those the interface calls, \<open>'r\<close> those that report a transfer. The record is one
  host; the read queue of the interface is the same class without a waker and is not used here. The
  transmission time of a size is a parameter, as it is computed in double precision; the draws of the random
  delays are a sequence.
\<close>

section \<open>The delay distribution\<close>

definition is_space :: "char \<Rightarrow> bool" where
  "is_space c \<longleftrightarrow> of_char c \<in> {32, 9, 10, 11, 12, 13 :: nat}"

definition is_digit :: "char \<Rightarrow> bool" where
  "is_digit c \<longleftrightarrow> 48 \<le> (of_char c :: nat) \<and> (of_char c :: nat) \<le> 57"

definition digits_value :: "string \<Rightarrow> nat" where
  "digits_value ds = foldl (\<lambda>n c. 10 * n + (of_char c - 48)) 0 ds"

text \<open>\<open>std::stoi\<close>: an exception when there is no number or it is out of range.\<close>

definition stoi :: "string \<Rightarrow> int option" where
  "stoi s =
     (let t = dropWhile is_space s;
          (neg, u) = (case t of [] \<Rightarrow> (False, []) | c # cs \<Rightarrow> if c = CHR ''-'' then (True, cs)
             else if c = CHR ''+'' then (False, cs) else (False, c # cs));
          ds = takeWhile is_digit u;
          v = (if neg then - int (digits_value ds) else int (digits_value ds))
      in if ds = [] then None else if - (2 ^ 31) \<le> v \<and> v < 2 ^ 31 then Some v else None)"

fun split_at_char :: "char \<Rightarrow> string \<Rightarrow> string list" where
  "split_at_char d [] = [[]]"
| "split_at_char d (c # cs) =
     (if c = d then [] # split_at_char d cs
      else (case split_at_char d cs of [] \<Rightarrow> [[c]] | w # ws \<Rightarrow> (c # w) # ws))"

text \<open>One pair. Without a colon the position is \<open>npos\<close>, so both numbers are the whole string.\<close>

definition parse_pair :: "string \<Rightarrow> (int \<times> int) option" where
  "parse_pair s = do {
     d \<leftarrow> stoi (takeWhile (\<lambda>c. c \<noteq> CHR '':'') s);
     p \<leftarrow> stoi (if CHR '':'' \<in> set s then tl (dropWhile (\<lambda>c. c \<noteq> CHR '':'') s) else s);
     Some (d, p)
   }"

fun parse_pairs :: "string list \<Rightarrow> (int \<times> int) list option" where
  "parse_pairs [] = Some []"
| "parse_pairs (w # ws) = do {
     x \<leftarrow> parse_pair w;
     xs \<leftarrow> parse_pairs ws;
     Some (x # xs)
   }"

definition ParseDiscreteRandomDistribution :: "string \<Rightarrow> (u64 list \<times> int list) option" where
  "ParseDiscreteRandomDistribution s = do {
     xs \<leftarrow> parse_pairs (split_at_char (CHR '','') s);
     Some (map (word_of_int \<circ> fst) xs, map snd xs)
   }"

datatype MemoryDelayDistribution = D_CONST | D_UNIFORM | D_EXPONENTIAL | D_DISCRETE

record mem_env =
  transmit_time :: "u64 \<Rightarrow> int"
  delay_distribution :: MemoryDelayDistribution
  memory_delay_const_ns :: u64
  random_draw :: "nat \<Rightarrow> u64"
  discrete_delay_ns :: "u64 list"

section \<open>State\<close>

datatype 'c mem_event = Transmit_complete | Memory_callback 'c

record 'c MemoryTxMetadata =
  tx_callback :: "'c option"
  tx_size_bytes :: u64

record ('c, 'r) HostBufferItem =
  pcie_callback :: "'c option"
  rdma_pcie_transfer_callback :: "'r option"
  item_payload_length :: u64

record ('c, 'r) HostPath =
  tx_busy :: bool
  tx_queue :: "'c MemoryTxMetadata list"
  max_queue_size_packets :: u64
  rx_items :: "('c, 'r) HostBufferItem list"
  max_size_bytes :: u32
  current_size_bytes :: u32
  mem_events :: "(int \<times> 'c mem_event) list"
  delays_drawn :: nat
  transmitted :: "('c option \<times> u64) list"
  transfers :: "'r list"
  falcon_xoff :: bool

definition new_HostPath :: "u64 \<Rightarrow> u32 \<Rightarrow> ('c, 'r) HostPath" where
  "new_HostPath slots bytes =
     \<lparr>tx_busy = False, tx_queue = [], max_queue_size_packets = slots, rx_items = [], max_size_bytes = bytes,
      current_size_bytes = 0, mem_events = [], delays_drawn = 0, transmitted = [], transfers = [], falcon_xoff = False\<rparr>"

section \<open>The write queue\<close>

definition GetRandomPCIeDelay :: "mem_env \<Rightarrow> ('c, 'r) HostPath \<Rightarrow> (('c, 'r) HostPath \<times> int) option" where
  "GetRandomPCIeDelay env s =
     (let s1 = s\<lparr>delays_drawn := Suc (delays_drawn s)\<rparr>; x = random_draw env (delays_drawn s) in
      case delay_distribution env of
        D_CONST \<Rightarrow> Some (s, int (unat (memory_delay_const_ns env)))
      | D_UNIFORM \<Rightarrow> Some (s1, int (unat x))
      | D_EXPONENTIAL \<Rightarrow> Some (s1, int (unat x))
      | D_DISCRETE \<Rightarrow> if unat x < length (discrete_delay_ns env)
          then Some (s1, int (unat (discrete_delay_ns env ! unat x))) else None)"

text \<open>\<open>TransmitStart\<close> takes the interface and schedules what follows; the log \<open>transmitted\<close> of what it was given is
  for the statements.\<close>

definition TransmitStart :: "mem_env \<Rightarrow> int \<Rightarrow> 'c MemoryTxMetadata \<Rightarrow> ('c, 'r) HostPath \<Rightarrow> ('c, 'r) HostPath option" where
  "TransmitStart env now tx s = do {
     check (\<not> tx_busy s);
     let t = transmit_time env (tx_size_bytes tx);
     check (0 \<le> t);
     let s1 = s\<lparr>tx_busy := True, mem_events := mem_events s @ [(now + t, Transmit_complete)],
                transmitted := transmitted s @ [(tx_callback tx, tx_size_bytes tx)]\<rparr>;
     (case tx_callback tx of
        None \<Rightarrow> Some s1
      | Some c \<Rightarrow> do {
          (s2, d) \<leftarrow> GetRandomPCIeDelay env s1;
          Some (s2\<lparr>mem_events := mem_events s2 @ [(now + t + d, Memory_callback c)]\<rparr>)
        })
   }"

definition queue_is_full :: "('c, 'r) HostPath \<Rightarrow> bool" where
  "queue_is_full s \<longleftrightarrow> length (tx_queue s) = unat (max_queue_size_packets s)"

definition CanWriteToMemory :: "('c, 'r) HostPath \<Rightarrow> status" where
  "CanWriteToMemory s = (if queue_is_full s then ResourceExhaustedError else OkStatus)"

definition WriteToMemory :: "mem_env \<Rightarrow> int \<Rightarrow> u64 \<Rightarrow> 'c option \<Rightarrow> ('c, 'r) HostPath \<Rightarrow> ('c, 'r) HostPath option" where
  "WriteToMemory env now bytes c s =
     (let s1 = s\<lparr>tx_queue := tx_queue s @ [\<lparr>tx_callback = c, tx_size_bytes = bytes\<rparr>]\<rparr> in
      if \<not> tx_busy s1 then TransmitStart env now (hd (tx_queue s1)) (s1\<lparr>tx_queue := tl (tx_queue s1)\<rparr>)
      else Some s1)"

section \<open>The receive buffer\<close>

definition kRdmaHeader :: nat where "kRdmaHeader = 28"

text \<open>
  The size written for a buffered item. The subtraction is unsigned, so the test that it is not negative
  holds always, and the result becomes an \<open>int\<close> and again 64 bits wide.
\<close>

definition buffered_size :: "u64 \<Rightarrow> u64" where
  "buffered_size n = scast (ucast (n - of_nat kRdmaHeader) :: u32)"

definition direct_size :: "u32 \<Rightarrow> u64" where
  "direct_size n = (if of_nat kRdmaHeader \<le> n then ucast (n - of_nat kRdmaHeader) else 0)"

definition transfer_done :: "'r option \<Rightarrow> ('c, 'r) HostPath \<Rightarrow> ('c, 'r) HostPath" where
  "transfer_done r s = (case r of None \<Rightarrow> s | Some x \<Rightarrow> s\<lparr>transfers := transfers s @ [x]\<rparr>)"

fun wakeup_loop :: "mem_env \<Rightarrow> int \<Rightarrow> ('c, 'r) HostBufferItem list \<Rightarrow> ('c, 'r) HostPath \<Rightarrow> ('c, 'r) HostPath option" where
  "wakeup_loop env now [] s = Some s"
| "wakeup_loop env now (i # is) s =
     (if CanWriteToMemory s = ResourceExhaustedError then Some s
      else do {
        s1 \<leftarrow> WriteToMemory env now (buffered_size (item_payload_length i)) (pcie_callback i) s;
        let s2 = transfer_done (rdma_pcie_transfer_callback i) s1;
        wakeup_loop env now is (s2\<lparr>current_size_bytes := current_size_bytes s2 - ucast (item_payload_length i),
          rx_items := tl (rx_items s2)\<rparr>)
      })"

text \<open>The waker RDMA registers with the interface.\<close>

definition wakeup :: "mem_env \<Rightarrow> int \<Rightarrow> ('c, 'r) HostPath \<Rightarrow> ('c, 'r) HostPath option" where
  "wakeup env now s = do {
     s1 \<leftarrow> wakeup_loop env now (rx_items s) s;
     Some (if current_size_bytes s1 < max_size_bytes s1 then s1\<lparr>falcon_xoff := False\<rparr> else s1)
   }"

definition TransmitComplete :: "mem_env \<Rightarrow> int \<Rightarrow> ('c, 'r) HostPath \<Rightarrow> ('c, 'r) HostPath option" where
  "TransmitComplete env now s = do {
     check (tx_busy s);
     let s1 = s\<lparr>tx_busy := False\<rparr>;
     (case tx_queue s1 of
        [] \<Rightarrow> wakeup env now s1
      | tx # txs \<Rightarrow> do {
          s2 \<leftarrow> TransmitStart env now tx s1;
          let s3 = s2\<lparr>tx_queue := tl (tx_queue s2)\<rparr>;
          (if queue_is_full s1 then wakeup env now s3 else Some s3)
        })
   }"

text \<open>\<open>Push\<close> for one host; the payload is \<open>None\<close> for a completion without data.\<close>

definition path_Push :: "mem_env \<Rightarrow> int \<Rightarrow> 'c option \<Rightarrow> u32 option \<Rightarrow> 'r option \<Rightarrow> ('c, 'r) HostPath \<Rightarrow> ('c, 'r) HostPath option" where
  "path_Push env now c payload r s =
     (let n = (case payload of Some n \<Rightarrow> n | None \<Rightarrow> 0) in
      if CanWriteToMemory s = OkStatus then do {
        s1 \<leftarrow> WriteToMemory env now (direct_size n) c s;
        Some (transfer_done r s1)
      }
      else do {
        let s1 = s\<lparr>rx_items := rx_items s @ [\<lparr>pcie_callback = c, rdma_pcie_transfer_callback = r, item_payload_length = ucast n\<rparr>],
                  current_size_bytes := current_size_bytes s + n\<rparr>;
        Some (if current_size_bytes s1 \<ge> max_size_bytes s1 then s1\<lparr>falcon_xoff := True\<rparr> else s1)
      })"

definition rx_Push :: "mem_env \<Rightarrow> int \<Rightarrow> nat \<Rightarrow> 'c option \<Rightarrow> u32 option \<Rightarrow> 'r option \<Rightarrow>
    ('c, 'r) HostPath list \<Rightarrow> ('c, 'r) HostPath list option" where
  "rx_Push env now host c payload r ps = do {
     check (host < length ps);
     p \<leftarrow> path_Push env now c payload r (ps ! host);
     Some (ps[host := p])
   }"

text \<open>An event of the memory interface comes at its time.\<close>

definition memory_event :: "mem_env \<Rightarrow> int \<Rightarrow> 'c mem_event \<Rightarrow> ('c, 'r) HostPath \<Rightarrow> ('c, 'r) HostPath option" where
  "memory_event env now e s =
     (let s1 = s\<lparr>mem_events := remove1 (now, e) (mem_events s)\<rparr> in
      case e of Transmit_complete \<Rightarrow> TransmitComplete env now s1 | Memory_callback c \<Rightarrow> Some s1)"

section \<open>The invariant\<close>

definition items_bytes :: "('c, 'r) HostBufferItem list \<Rightarrow> nat" where
  "items_bytes is = (\<Sum>i \<leftarrow> is. unat (item_payload_length i))"

lemma items_bytes_simps [simp]:
  "items_bytes [] = 0" "items_bytes (i # is) = unat (item_payload_length i) + items_bytes is"
  "items_bytes (xs @ ys) = items_bytes xs + items_bytes ys"
  by (simp_all add: items_bytes_def)

definition completions :: "('c, 'r) HostPath \<Rightarrow> nat" where
  "completions s = length (filter (\<lambda>e. snd e = Transmit_complete) (mem_events s))"

text \<open>While the queue is being refilled (\<open>True\<close>) it may have room although items wait.\<close>

definition path_inv :: "bool \<Rightarrow> ('c, 'r) HostPath \<Rightarrow> bool" where
  "path_inv refill s \<longleftrightarrow> 0 < unat (max_queue_size_packets s) \<and> length (tx_queue s) \<le> unat (max_queue_size_packets s) \<and>
     (tx_queue s \<noteq> [] \<longrightarrow> tx_busy s) \<and> completions s = (if tx_busy s then 1 else 0) \<and>
     (\<not> refill \<and> rx_items s \<noteq> [] \<longrightarrow> queue_is_full s) \<and> (rx_items s \<noteq> [] \<longrightarrow> tx_busy s) \<and>
     unat (current_size_bytes s) = items_bytes (rx_items s)"

definition xoff_inv :: "('c, 'r) HostPath \<Rightarrow> bool" where
  "xoff_inv s \<longleftrightarrow> (falcon_xoff s \<longleftrightarrow> max_size_bytes s \<le> current_size_bytes s)"

definition env_total :: "mem_env \<Rightarrow> bool" where
  "env_total env \<longleftrightarrow> (\<forall>n. 0 \<le> transmit_time env n) \<and>
     (delay_distribution env = D_DISCRETE \<longrightarrow> (\<forall>k. unat (random_draw env k) < length (discrete_delay_ns env)))"

text \<open>
  What the memory interface took, in the order it transmits: what it transmitted, then its queue. What the way will
  have written, in order, and the transfers it will have reported.
\<close>

abbreviation tx_item :: "'c MemoryTxMetadata \<Rightarrow> 'c option \<times> u64" where
  "tx_item m \<equiv> (tx_callback m, tx_size_bytes m)"

definition written :: "('c, 'r) HostPath \<Rightarrow> ('c option \<times> u64) list" where
  "written s = transmitted s @ map tx_item (tx_queue s)"

definition view :: "('c, 'r) HostPath \<Rightarrow> ('c option \<times> u64) list" where
  "view s = written s @ map (\<lambda>i. (pcie_callback i, buffered_size (item_payload_length i))) (rx_items s)"

definition reports :: "('c, 'r) HostPath \<Rightarrow> 'r list" where
  "reports s = transfers s @ List.map_filter rdma_pcie_transfer_callback (rx_items s)"

text \<open>What the parts of the queue leave alone.\<close>

definition rx_part where
  "rx_part s = (rx_items s, max_size_bytes s, current_size_bytes s, transfers s, falcon_xoff s)"

lemma GetRandomPCIeDelay_total:
  assumes "env_total env"
  obtains k d where "GetRandomPCIeDelay env s = Some (s\<lparr>delays_drawn := k\<rparr>, d)"
proof (cases "delay_distribution env")
  case D_CONST
  then show ?thesis using that [of "delays_drawn s"] by (simp add: GetRandomPCIeDelay_def Let_def)
qed (use that assms in \<open>simp_all add: GetRandomPCIeDelay_def Let_def env_total_def\<close>)

lemma TransmitStart_total:
  assumes "env_total env" "\<not> tx_busy s" "completions s = 0"
  obtains s' where "TransmitStart env now tx s = Some s'" "tx_busy s'" "tx_queue s' = tx_queue s" "completions s' = 1"
    "rx_part s' = rx_part s" "transmitted s' = transmitted s @ [tx_item tx]" "max_queue_size_packets s' = max_queue_size_packets s"
proof (cases "tx_callback tx")
  case None
  then show ?thesis
    using assms that by (simp add: TransmitStart_def Let_def env_total_def completions_def rx_part_def)
next
  case (Some c)
  let ?t = "transmit_time env (tx_size_bytes tx)"
  let ?s = "s\<lparr>tx_busy := True, mem_events := mem_events s @ [(now + ?t, Transmit_complete)],
    transmitted := transmitted s @ [tx_item tx]\<rparr>"
  obtain k d where d: "GetRandomPCIeDelay env ?s = Some (?s\<lparr>delays_drawn := k\<rparr>, d)"
    by (rule GetRandomPCIeDelay_total [OF assms(1)])
  have "0 \<le> ?t" using assms(1) by (simp add: env_total_def)
  then have "TransmitStart env now tx s =
      Some (?s\<lparr>delays_drawn := k, mem_events := mem_events ?s @ [(now + ?t + d, Memory_callback c)]\<rparr>)"
    using assms(2) Some d by (simp add: TransmitStart_def Let_def)
  then show ?thesis by (rule that) (use assms(3) Some in \<open>simp_all add: completions_def rx_part_def\<close>)
qed

lemma rx_part_fields:
  assumes "rx_part s' = rx_part s"
  shows "rx_items s' = rx_items s" "max_size_bytes s' = max_size_bytes s" "current_size_bytes s' = current_size_bytes s"
    "transfers s' = transfers s" "falcon_xoff s' = falcon_xoff s"
  using assms by (simp_all add: rx_part_def)

lemma WriteToMemory_total:
  assumes "env_total env" "path_inv b s" "\<not> queue_is_full s"
  obtains s' where "WriteToMemory env now n c s = Some s'" "path_inv True s'" "rx_part s' = rx_part s"
    "written s' = written s @ [(c, n)]" "max_queue_size_packets s' = max_queue_size_packets s" "tx_busy s'"
    "\<not> tx_busy s \<Longrightarrow> tx_queue s' = []" "tx_busy s \<Longrightarrow> length (tx_queue s') = Suc (length (tx_queue s))"
proof (cases "tx_busy s")
  case True
  then show ?thesis
    using that assms(2,3) by (simp add: WriteToMemory_def path_inv_def rx_part_def completions_def queue_is_full_def written_def)
next
  case False
  then have q: "tx_queue s = []" "completions s = 0" "rx_items s = []" using assms(2) by (auto simp: path_inv_def)
  let ?s = "s\<lparr>tx_queue := []\<rparr>"
  have "completions ?s = 0" "\<not> tx_busy ?s" using q False by (simp_all add: completions_def)
  from TransmitStart_total [OF assms(1) this(2,1), of now "\<lparr>tx_callback = c, tx_size_bytes = n\<rparr>"]
  obtain s' where s': "TransmitStart env now \<lparr>tx_callback = c, tx_size_bytes = n\<rparr> ?s = Some s'" "tx_busy s'"
    "tx_queue s' = []" "completions s' = 1" "rx_part s' = rx_part s" "transmitted s' = transmitted s @ [(c, n)]"
    "max_queue_size_packets s' = max_queue_size_packets s"
    by (auto simp: rx_part_def)
  have w: "written s' = written s @ [(c, n)]" using q(1) s'(3,6) by (simp add: written_def)
  have "WriteToMemory env now n c s = Some s'" using False q(1) s'(1) by (simp add: WriteToMemory_def Let_def)
  moreover have "path_inv True s'"
    using assms(2) s' rx_part_fields [OF s'(5)] by (simp add: path_inv_def)
  ultimately show ?thesis using that s' w False by simp
qed

section \<open>Waking and pushing\<close>

lemma transfer_done_simps [simp]:
  "rx_items (transfer_done r s) = rx_items s" "written (transfer_done r s) = written s"
  "current_size_bytes (transfer_done r s) = current_size_bytes s" "max_size_bytes (transfer_done r s) = max_size_bytes s"
  "falcon_xoff (transfer_done r s) = falcon_xoff s" "tx_queue (transfer_done r s) = tx_queue s"
  "tx_busy (transfer_done r s) = tx_busy s" "max_queue_size_packets (transfer_done r s) = max_queue_size_packets s"
  "completions (transfer_done r s) = completions s" "queue_is_full (transfer_done r s) = queue_is_full s"
  "transfers (transfer_done r s) = transfers s @ (case r of None \<Rightarrow> [] | Some x \<Rightarrow> [x])"
  by (simp_all add: transfer_done_def completions_def queue_is_full_def written_def split: option.split)

lemma written_fields [simp]:
  "written (s\<lparr>current_size_bytes := c\<rparr>) = written s" "written (s\<lparr>rx_items := is\<rparr>) = written s"
  "written (s\<lparr>falcon_xoff := b\<rparr>) = written s" "written (s\<lparr>mem_events := es\<rparr>) = written s"
  "written (s\<lparr>tx_busy := b\<rparr>) = written s"
  by (simp_all add: written_def)

lemma can_write [simp]:
  "CanWriteToMemory s = ResourceExhaustedError \<longleftrightarrow> queue_is_full s" "CanWriteToMemory s = OkStatus \<longleftrightarrow> \<not> queue_is_full s"
  by (simp_all add: CanWriteToMemory_def)

lemma unat_minus_item:
  fixes c :: u32 and n :: u64
  assumes "unat c = unat n + k"
  shows "unat (c - ucast n) = k"
proof -
  have "unat c < 2 ^ 32" using unsigned_less [of c, where 'a = nat] by simp
  then have lt: "unat n < 2 ^ 32" using assms by simp
  have "unat (ucast n :: u32) = unat n" using lt by (simp add: unsigned_ucast_eq take_bit_nat_eq_self)
  then show ?thesis using assms by (simp add: unat_sub word_le_nat_alt)
qed

lemma wakeup_loop_total:
  assumes "env_total env" "path_inv True s" "is = rx_items s"
  shows "\<exists>s'. wakeup_loop env now is s = Some s' \<and> path_inv False s' \<and> view s' = view s \<and> reports s' = reports s \<and>
    max_size_bytes s' = max_size_bytes s \<and> falcon_xoff s' = falcon_xoff s \<and>
    max_queue_size_packets s' = max_queue_size_packets s \<and> current_size_bytes s' \<le> current_size_bytes s \<and>
    (is \<noteq> [] \<and> \<not> queue_is_full s \<longrightarrow> length (written s) < length (written s')) \<and> length (written s) \<le> length (written s')"
  using assms(2,3)
proof (induction "is" arbitrary: s)
  case Nil
  then show ?case by (simp add: path_inv_def)
next
  case (Cons i "is")
  show ?case
  proof (cases "queue_is_full s")
    case True
    then have "wakeup_loop env now (i # is) s = Some s" by simp
    moreover have "path_inv False s" using Cons.prems(1) True by (simp add: path_inv_def)
    ultimately show ?thesis using True by blast
  next
    case False
    let ?n = "buffered_size (item_payload_length i)"
    from WriteToMemory_total [OF assms(1) Cons.prems(1) False, of now ?n "pcie_callback i"]
    obtain s1 where s1: "WriteToMemory env now ?n (pcie_callback i) s = Some s1" "path_inv True s1"
      "rx_part s1 = rx_part s" "written s1 = written s @ [(pcie_callback i, ?n)]"
      "max_queue_size_packets s1 = max_queue_size_packets s" "tx_busy s1" by blast
    note f = rx_part_fields [OF s1(3)]
    define s2 where "s2 = (transfer_done (rdma_pcie_transfer_callback i) s1)
      \<lparr>current_size_bytes := current_size_bytes s1 - ucast (item_payload_length i), rx_items := tl (rx_items s1)\<rparr>"
    have r: "rx_items s1 = i # is" using f(1) Cons.prems(2) by simp
    have "unat (current_size_bytes s1) = unat (item_payload_length i) + items_bytes is"
      using s1(2) r by (simp add: path_inv_def)
    then have c: "unat (current_size_bytes s1 - ucast (item_payload_length i)) = items_bytes is"
      by (rule unat_minus_item)
    have i: "path_inv True s2"
      using s1(2,6) r c unfolding s2_def path_inv_def by (simp add: completions_def transfer_done_def split: option.split)
    have le: "current_size_bytes s2 \<le> current_size_bytes s"
      using c s1(2) r f(3) by (simp add: s2_def word_le_nat_alt path_inv_def)
    have e: "wakeup_loop env now (i # is) s = wakeup_loop env now is s2"
      using False s1(1) by (simp add: s2_def Let_def)
    have v: "view s2 = view s" "reports s2 = reports s"
      using s1(4) f(4) r Cons.prems(2) [symmetric] unfolding s2_def view_def reports_def
      by (simp_all add: List.map_filter_simps split: option.split)
    have m: "max_size_bytes s2 = max_size_bytes s" "falcon_xoff s2 = falcon_xoff s"
      "max_queue_size_packets s2 = max_queue_size_packets s" "length (written s2) = Suc (length (written s))"
      using f s1(4,5) by (simp_all add: s2_def)
    have "is = rx_items s2" using r by (simp add: s2_def)
    from Cons.IH [OF i this] show ?thesis unfolding e v m using le by fastforce
  qed
qed

lemma wakeup_total:
  assumes "env_total env" "path_inv True s" "xoff_inv s"
  shows "\<exists>s'. wakeup env now s = Some s' \<and> path_inv False s' \<and> xoff_inv s' \<and> view s' = view s \<and> reports s' = reports s \<and>
    (rx_items s \<noteq> [] \<and> \<not> queue_is_full s \<longrightarrow> length (written s) < length (written s')) \<and>
    length (written s) \<le> length (written s')"
proof -
  obtain s1 where s1: "wakeup_loop env now (rx_items s) s = Some s1" "path_inv False s1" "view s1 = view s"
    "current_size_bytes s1 \<le> current_size_bytes s" "reports s1 = reports s" "max_size_bytes s1 = max_size_bytes s" "falcon_xoff s1 = falcon_xoff s"
    "rx_items s \<noteq> [] \<and> \<not> queue_is_full s \<longrightarrow> length (written s) < length (written s1)"
    "length (written s) \<le> length (written s1)"
    using wakeup_loop_total [OF assms(1,2) refl] by blast
  show ?thesis
  proof (cases "current_size_bytes s1 < max_size_bytes s1")
    case True
    then have "wakeup env now s = Some (s1\<lparr>falcon_xoff := False\<rparr>)" using s1(1) by (simp add: wakeup_def)
    then show ?thesis
      using s1 True by (simp add: path_inv_def xoff_inv_def view_def reports_def completions_def queue_is_full_def not_le)
  next
    case False
    have "falcon_xoff s1"
      using assms(3) False s1(4,6,7) by (simp add: xoff_inv_def)
    then show ?thesis using s1 False by (simp add: wakeup_def xoff_inv_def)
  qed
qed

lemma length_filter_remove1:
  "x \<in> set xs \<Longrightarrow> P x \<Longrightarrow> length (filter P (remove1 x xs)) = length (filter P xs) - 1"
proof (induction xs)
  case (Cons y ys)
  show ?case
  proof (cases "x = y")
    case False
    then have "x \<in> set ys" using Cons.prems(1) by simp
    then have "0 < length (filter P ys)" using Cons.prems(2) by (auto simp: filter_empty_conv)
    then show ?thesis using Cons False by auto
  qed (use Cons.prems in simp)
qed simp

lemma completions_removed:
  assumes "(t, Transmit_complete) \<in> set (mem_events s)"
  shows "completions (s\<lparr>mem_events := remove1 (t, Transmit_complete) (mem_events s)\<rparr>) = completions s - 1" "0 < completions s"
proof -
  let ?P = "\<lambda>e. snd e = Transmit_complete"
  show "completions (s\<lparr>mem_events := remove1 (t, Transmit_complete) (mem_events s)\<rparr>) = completions s - 1"
    using assms by (simp add: completions_def length_filter_remove1)
  have "(t, Transmit_complete) \<in> set (filter ?P (mem_events s))" using assms by simp
  then show "0 < completions s" unfolding completions_def by (metis length_pos_if_in_set)
qed

lemma TransmitComplete_total:
  assumes "env_total env" "path_inv False s" "xoff_inv s" "(t, Transmit_complete) \<in> set (mem_events s)"
  shows "\<exists>s'. memory_event env t Transmit_complete s = Some s' \<and> path_inv False s' \<and> xoff_inv s' \<and> view s' = view s \<and>
    reports s' = reports s \<and> (rx_items s \<noteq> [] \<longrightarrow> length (written s) < length (written s'))"
proof -
  define s0 where "s0 = s\<lparr>mem_events := remove1 (t, Transmit_complete) (mem_events s), tx_busy := False\<rparr>"
  have s0: "s\<lparr>mem_events := remove1 (t, Transmit_complete) (mem_events s), tx_busy := False\<rparr> = s0" "tx_queue s = tx_queue s0"
    by (simp_all add: s0_def)
  note q0 = s0(2)
  have c: "completions s0 = 0" "tx_busy s"
    using completions_removed [OF assms(4)] assms(2) by (simp_all add: s0_def path_inv_def completions_def split: if_splits)
  have e: "memory_event env t Transmit_complete s = (case tx_queue s0 of
        [] \<Rightarrow> wakeup env t s0
      | tx # txs \<Rightarrow> do {
          s2 \<leftarrow> TransmitStart env t tx s0;
          let s3 = s2\<lparr>tx_queue := tl (tx_queue s2)\<rparr>;
          (if queue_is_full s0 then wakeup env t s3 else Some s3)
        })"
    using c(2) by (cases "tx_queue s0") (simp_all add: memory_event_def TransmitComplete_def Let_def s0 q0)
  have x: "xoff_inv s0" using assms(3) by (simp add: xoff_inv_def s0_def)
  have v: "view s0 = view s" "reports s0 = reports s" "written s0 = written s" "rx_items s0 = rx_items s"
    by (simp_all add: view_def reports_def s0_def)
  show ?thesis
  proof (cases "tx_queue s0")
    case Nil
    have "\<not> queue_is_full s" using assms(2) Nil by (simp add: path_inv_def queue_is_full_def s0_def)
    then have "rx_items s = []" using assms(2) by (auto simp: path_inv_def)
    moreover from this have "path_inv True s0" using assms(2) Nil c(1) by (simp add: path_inv_def s0_def)
    ultimately show ?thesis using wakeup_total [OF assms(1) _ x, of t] e Nil v by fastforce
  next
    case (Cons tx txs)
    have "\<not> tx_busy s0" by (simp add: s0_def)
    from TransmitStart_total [OF assms(1) this c(1), of t tx] obtain s2 where s2:
      "TransmitStart env t tx s0 = Some s2" "tx_busy s2" "tx_queue s2 = tx_queue s0" "completions s2 = 1"
      "rx_part s2 = rx_part s0" "transmitted s2 = transmitted s0 @ [tx_item tx]" "max_queue_size_packets s2 = max_queue_size_packets s0" by blast
    note f = rx_part_fields [OF s2(5)]
    define s3 where "s3 = s2\<lparr>tx_queue := tl (tx_queue s2)\<rparr>"
    have q: "tx_queue s3 = txs" "length txs < unat (max_queue_size_packets s)"
      using s2(3) Cons assms(2) q0 by (simp_all add: s3_def path_inv_def)
    have l: "length (tx_queue s3) < unat (max_queue_size_packets s3)"
      using s2(7) q by (simp add: s3_def s0_def)
    have g: "current_size_bytes s3 = current_size_bytes s" "rx_items s3 = rx_items s" "tx_busy s3" "completions s3 = 1"
      using s2(2,4) f(1,3) by (simp_all add: s3_def s0_def completions_def)
    have i: "path_inv True s3"
      using assms(2) g l unfolding path_inv_def by simp
    have x3: "xoff_inv s3" using x f by (simp add: s3_def xoff_inv_def)
    have v3: "view s3 = view s" "reports s3 = reports s" "written s3 = written s" "rx_items s3 = rx_items s"
    proof -
      show w: "written s3 = written s" using v(3) s2(3,6) Cons by (simp add: s3_def written_def)
      show "view s3 = view s" "reports s3 = reports s" "rx_items s3 = rx_items s"
        using v w f by (simp_all add: s3_def view_def reports_def)
    qed
    have r: "memory_event env t Transmit_complete s = (if queue_is_full s0 then wakeup env t s3 else Some s3)"
      using e Cons s2(1) by (simp add: s3_def Let_def)
    have full: "queue_is_full s0 = queue_is_full s" by (simp add: queue_is_full_def s0_def)
    show ?thesis
    proof (cases "queue_is_full s")
      case True
      have "\<not> queue_is_full s3" using l(1) by (simp add: queue_is_full_def)
      then show ?thesis using wakeup_total [OF assms(1) i x3, of t] r True full v3 by auto
    next
      case False
      then have "rx_items s = []" using assms(2) by (auto simp: path_inv_def)
      moreover from this have "path_inv False s3" using i v3(4) by (simp add: path_inv_def)
      ultimately show ?thesis using r False full x3 v3 by simp
    qed
  qed
qed

lemma Memory_callback_keeps:
  assumes "path_inv False s" "xoff_inv s" "memory_event env t (Memory_callback c) s = Some s'"
  shows "path_inv False s'" "xoff_inv s'" "view s' = view s" "reports s' = reports s"
proof -
  have e: "s' = s\<lparr>mem_events := remove1 (t, Memory_callback c) (mem_events s)\<rparr>"
    using assms(3) by (simp add: memory_event_def Let_def)
  have "filter (\<lambda>e. snd e = Transmit_complete) (remove1 (t, Memory_callback c) xs) =
      filter (\<lambda>e. snd e = Transmit_complete) xs" for xs :: "(int \<times> 'a mem_event) list"
    by (induction xs) auto
  then have "completions s' = completions s" by (simp add: e completions_def)
  then show "path_inv False s'" "xoff_inv s'" "view s' = view s" "reports s' = reports s"
    using assms(1,2) unfolding e by (simp_all add: path_inv_def xoff_inv_def view_def reports_def queue_is_full_def)
qed

text \<open>The sizes written without and after buffering agree for data packets.\<close>

lemma sizes_agree:
  fixes n :: u32
  assumes "28 \<le> n" "n < 2 ^ 31"
  shows "direct_size n = ucast (n - 28)" "buffered_size (ucast n) = ucast (n - 28)"
proof -
  show "direct_size n = ucast (n - 28)" using assms by (simp add: direct_size_def kRdmaHeader_def)
  have up: "unat (ucast m :: u64) = unat m" for m :: u32
    using unsigned_less [of m, where 'a = nat] by (simp add: unsigned_ucast_eq take_bit_nat_eq_self)
  have un: "unat (n - 28) = unat n - 28" using assms(1) by (simp add: unat_sub)
  have "(28 :: u64) \<le> ucast n" using assms(1) up [of n] by (simp add: word_le_nat_alt)
  then have "unat ((ucast n :: u64) - 28) = unat (ucast (n - 28) :: u64)"
    using up un by (simp add: unat_sub)
  then have "(ucast n :: u64) - 28 = ucast (n - 28)" by (rule unsigned_word_eqI)
  moreover have "(ucast (ucast m :: u64) :: u32) = m" for m by (rule bit_word_eqI) (simp add: bit_simps)
  ultimately have "(ucast ((ucast n :: u64) - 28) :: u32) = n - 28" by simp
  moreover have "(scast (n - 28) :: u64) = ucast (n - 28)"
  proof (rule bit_word_eqI)
    have "unat (n - 28) < 2 ^ 31" using un assms(2) by (simp add: word_less_nat_alt)
    then have "\<not> bit (unat (n - 28)) 31" by (simp add: bit_iff_odd)
    then have "\<not> bit (n - 28) 31" by (simp add: bit_unsigned_iff)
    then show "bit (scast (n - 28) :: u64) k = bit (ucast (n - 28) :: u64) k" for k
      by (auto simp: bit_word_scast_iff bit_unsigned_iff bit_simps dest: bit_imp_le_length)
  qed
  ultimately show "buffered_size (ucast n) = ucast (n - 28)" by (simp add: buffered_size_def kRdmaHeader_def)
qed

lemma path_Push_total:
  assumes "env_total env" "path_inv False s" "xoff_inv s"
    and "items_bytes (rx_items s) + unat (case n of Some m \<Rightarrow> m | None \<Rightarrow> 0) < 2 ^ 32"
  shows "\<exists>s'. path_Push env now c n r s = Some s' \<and> path_inv False s' \<and> xoff_inv s' \<and>
    reports s' = reports s @ (case r of None \<Rightarrow> [] | Some x \<Rightarrow> [x]) \<and>
    view s' = view s @ [(c, if queue_is_full s then buffered_size (ucast (case n of Some m \<Rightarrow> m | None \<Rightarrow> 0))
      else direct_size (case n of Some m \<Rightarrow> m | None \<Rightarrow> 0))]"
proof -
  let ?n = "case n of Some m \<Rightarrow> m | None \<Rightarrow> 0"
  show ?thesis
  proof (cases "queue_is_full s")
    case False
    from WriteToMemory_total [OF assms(1,2) False, of now "direct_size ?n" c] obtain s1 where s1:
      "WriteToMemory env now (direct_size ?n) c s = Some s1" "path_inv True s1" "rx_part s1 = rx_part s"
      "written s1 = written s @ [(c, direct_size ?n)]" by blast
    note f = rx_part_fields [OF s1(3)]
    have b: "rx_items s = []" using assms(2) False by (auto simp: path_inv_def)
    have "path_Push env now c n r s = Some (transfer_done r s1)" using False s1(1) by (simp add: path_Push_def Let_def)
    moreover have "path_inv False (transfer_done r s1)" using s1(2) f(1) b by (simp add: path_inv_def)
    moreover have "xoff_inv (transfer_done r s1)" using assms(3) f by (simp add: xoff_inv_def)
    ultimately show ?thesis using s1(4) f b False by (simp add: view_def reports_def List.map_filter_simps)
  next
    case True
    let ?s = "s\<lparr>rx_items := rx_items s @ [\<lparr>pcie_callback = c, rdma_pcie_transfer_callback = r, item_payload_length = ucast ?n\<rparr>],
                  current_size_bytes := current_size_bytes s + ?n\<rparr>"
    let ?s' = "if current_size_bytes ?s \<ge> max_size_bytes ?s then ?s\<lparr>falcon_xoff := True\<rparr> else ?s"
    have e: "path_Push env now c n r s = Some ?s'" using True by (simp add: path_Push_def Let_def)
    have up: "unat (ucast m :: u64) = unat m" for m :: u32
      using unsigned_less [of m, where 'a = nat] by (simp add: unsigned_ucast_eq take_bit_nat_eq_self)
    have u: "unat (current_size_bytes s) = items_bytes (rx_items s)" using assms(2) by (simp add: path_inv_def)
    have sum: "unat (current_size_bytes s + ?n) = items_bytes (rx_items s) + unat ?n"
      using u assms(4) by (simp add: unat_word_ariths)
    have busy: "tx_busy s"
      using assms(2) True by (auto simp: path_inv_def queue_is_full_def)
    have p: "path_inv False ?s" using assms(2) True sum busy up [of ?n]
      by (simp add: path_inv_def queue_is_full_def completions_def)
    have pi: "path_inv False ?s'" using p by (simp add: path_inv_def queue_is_full_def completions_def)
    have "current_size_bytes s \<le> current_size_bytes ?s" using u sum by (simp add: word_le_nat_alt)
    then have x: "xoff_inv ?s'" using assms(3) by (auto simp: xoff_inv_def dest: order_trans)
    have "view ?s' = view s @ [(c, buffered_size (ucast ?n))]" by (simp add: view_def)
    moreover have "reports ?s' = reports s @ (case r of None \<Rightarrow> [] | Some x \<Rightarrow> [x])"
      by (simp add: reports_def List.map_filter_def split: option.split)
    ultimately show ?thesis using e pi x True by (intro exI [of _ ?s']) simp
  qed
qed

section \<open>Histories\<close>

inductive path_reach :: "mem_env \<Rightarrow> ('c, 'r) HostPath \<Rightarrow> ('c option \<times> u32 option \<times> 'r option) list \<Rightarrow> int \<Rightarrow>
    ('c, 'r) HostPath \<Rightarrow> bool" for env s0 where
  start: "path_reach env s0 [] 0 s0"
| push: "path_reach env s0 ps now s \<Longrightarrow> now \<le> t \<Longrightarrow>
    items_bytes (rx_items s) + unat (case n of Some m \<Rightarrow> m | None \<Rightarrow> 0) < 2 ^ 32 \<Longrightarrow>
    path_Push env t c n r s = Some s' \<Longrightarrow> path_reach env s0 (ps @ [(c, n, r)]) t s'"
| event: "path_reach env s0 ps now s \<Longrightarrow> now \<le> t \<Longrightarrow> (t, e) \<in> set (mem_events s) \<Longrightarrow>
    memory_event env t e s = Some s' \<Longrightarrow> path_reach env s0 ps t s'"

definition data_push :: "'c option \<times> u32 option \<times> 'r option \<Rightarrow> bool" where
  "data_push x \<longleftrightarrow> (case x of (c, n, r) \<Rightarrow> \<exists>m. n = Some m \<and> 28 \<le> m \<and> m < 2 ^ 31)"

definition pushed :: "'c option \<times> u32 option \<times> 'r option \<Rightarrow> 'c option \<times> u64" where
  "pushed x = (case x of (c, n, r) \<Rightarrow> (c, ucast (the n - 28)))"

lemma path_reach_inv:
  assumes "path_reach env s0 ps now s" "env_total env" "path_inv False s0" "xoff_inv s0"
  shows "path_inv False s \<and> xoff_inv s \<and> reports s = reports s0 @ List.map_filter (snd \<circ> snd) ps \<and>
    (list_all data_push ps \<longrightarrow> view s = view s0 @ map pushed ps)"
  using assms(1)
proof induction
  case start
  then show ?case using assms(3,4) by (simp add: List.map_filter_simps)
next
  case (push ps now s t n c r s')
  then have i: "path_inv False s" "xoff_inv s" by simp_all
  note p = path_Push_total [OF assms(2) i push.hyps(3), of t c r]
  have "view s' = view s @ [pushed (c, n, r)]" if "data_push (c, n, r)"
    using p push.hyps(4) that sizes_agree by (auto simp: data_push_def pushed_def split: if_splits)
  then show ?case using p push.hyps(4) push.IH
    by (auto simp: List.map_filter_def split: option.split)
next
  case (event ps now s t e s')
  then have i: "path_inv False s" "xoff_inv s" by simp_all
  show ?case
  proof (cases e)
    case Transmit_complete
    then show ?thesis using TransmitComplete_total [OF assms(2) i, of t] event by simp
  next
    case (Memory_callback c)
    then show ?thesis using Memory_callback_keeps [OF i] event by simp
  qed
qed

lemma new_HostPath_inv:
  "0 < slots \<Longrightarrow> 0 < bytes \<Longrightarrow> path_inv False (new_HostPath slots bytes) \<and> xoff_inv (new_HostPath slots bytes) \<and>
     view (new_HostPath slots bytes) = [] \<and> reports (new_HostPath slots bytes) = []"
  by (simp add: path_inv_def xoff_inv_def new_HostPath_def completions_def view_def written_def reports_def List.map_filter_simps
    unat_gt_0 word_neq_0_conv)

section \<open>A run\<close>

definition demo_env :: mem_env where
  "demo_env = \<lparr>transmit_time = (\<lambda>n. int (unat n)), delay_distribution = D_CONST, memory_delay_const_ns = 5,
     random_draw = (\<lambda>_. 0), discrete_delay_ns = []\<rparr>"

lemma demo_env_total: "env_total demo_env"
  by (simp add: env_total_def demo_env_def)

text \<open>Three packets of 100, 200 and 300 bytes at a queue of one slot: the third waits.\<close>

abbreviation demo_path :: "(nat, nat) HostPath" where
  "demo_path \<equiv> new_HostPath 1 250"

abbreviation demo_pushes :: "(nat option \<times> u32 option \<times> nat option) list" where
  "demo_pushes \<equiv> [(Some 21, Some 100, Some 11), (Some 22, Some 200, Some 12), (Some 23, Some 300, Some 13)]"

definition demo_state1 :: "(nat, nat) HostPath" where
  "demo_state1 = the (path_Push demo_env 0 (Some 21) (Some 100) (Some 11) demo_path)"

definition demo_state2 :: "(nat, nat) HostPath" where
  "demo_state2 = the (path_Push demo_env 0 (Some 22) (Some 200) (Some 12) demo_state1)"

definition demo_state3 :: "(nat, nat) HostPath" where
  "demo_state3 = the (path_Push demo_env 0 (Some 23) (Some 300) (Some 13) demo_state2)"

lemmas rx_demo_defs = demo_env_def demo_state1_def demo_state2_def demo_state3_def new_HostPath_def path_Push_def WriteToMemory_def TransmitStart_def
  GetRandomPCIeDelay_def queue_is_full_def direct_size_def transfer_done_def kRdmaHeader_def memory_event_def
  TransmitComplete_def wakeup_def buffered_size_def

lemma demo_pushes_run:
  "path_Push demo_env 0 (Some 21) (Some 100) (Some 11) demo_path = Some demo_state1"
  "path_Push demo_env 0 (Some 22) (Some 200) (Some 12) demo_state1 = Some demo_state2"
  "path_Push demo_env 0 (Some 23) (Some 300) (Some 13) demo_state2 = Some demo_state3"
  "rx_items demo_state1 = []" "rx_items demo_state2 = []" "items_bytes (rx_items demo_state3) = 300"
  by (simp_all add: rx_demo_defs Let_def)

lemma demo_reach: "path_reach demo_env demo_path demo_pushes 0 demo_state3"
proof -
  have 1: "path_reach demo_env demo_path [(Some 21, Some 100, Some 11)] 0 demo_state1"
    using path_reach.push [OF path_reach.start order_refl _ demo_pushes_run(1)] by (simp add: new_HostPath_def)
  have 2: "path_reach demo_env demo_path [(Some 21, Some 100, Some 11), (Some 22, Some 200, Some 12)] 0 demo_state2"
    using path_reach.push [OF 1 order_refl _ demo_pushes_run(2)] by (simp add: demo_pushes_run)
  show ?thesis
    using path_reach.push [OF 2 order_refl _ demo_pushes_run(3)] by (simp add: demo_pushes_run)
qed

section \<open>Properties\<close>

text \<open>C33. The way to host memory is a queue: whatever data packets were pushed and however the memory interface
  took them, the packets the interface has transmitted (handed to \<open>TransmitStart\<close>, which schedules their callbacks),
  then those in its own queue, then those in the receive buffer, are the packets in the order they were
  pushed, each with its callback and its size without the header; and the transfers reported, then those the buffered packets will
  report, are in that order too.\<close>

theorem rx_path_is_fifo:
  fixes s :: "('c, 'r) HostPath"
  assumes "path_reach env (new_HostPath slots bytes) ps now s" "env_total env" "0 < slots" "0 < bytes"
    and "list_all data_push ps"
  shows "map pushed ps = transmitted s @ map (\<lambda>m. (tx_callback m, tx_size_bytes m)) (tx_queue s) @
      map (\<lambda>i. (pcie_callback i, buffered_size (item_payload_length i))) (rx_items s) \<and>
    List.map_filter (snd \<circ> snd) ps = transfers s @ List.map_filter rdma_pcie_transfer_callback (rx_items s)"
proof -
  let ?s0 = "new_HostPath slots bytes :: ('c, 'r) HostPath"
  have "path_inv False ?s0 \<and> xoff_inv ?s0 \<and> view ?s0 = [] \<and> reports ?s0 = []"
    by (rule new_HostPath_inv [OF assms(3,4)])
  then have "view s = map pushed ps \<and> reports s = List.map_filter (snd \<circ> snd) ps"
    using path_reach_inv [OF assms(1,2)] assms(5) by simp
  then show ?thesis by (simp add: view_def reports_def written_def)
qed

theorem rx_path_is_fifo_witness:
  "path_reach demo_env demo_path demo_pushes 0 demo_state3 \<and> transmitted demo_state3 = [(Some 21, 72)] \<and>
    map tx_item (tx_queue demo_state3) = [(Some 22, 172)] \<and>
    [(Some 21, 72), (Some 22, 172), (Some 23, 272)] = transmitted demo_state3 @ map tx_item (tx_queue demo_state3) @
      map (\<lambda>i. (pcie_callback i, buffered_size (item_payload_length i))) (rx_items demo_state3)"
proof -
  have "list_all data_push demo_pushes" by (simp add: data_push_def)
  then have "map pushed demo_pushes = transmitted demo_state3 @ map tx_item (tx_queue demo_state3) @
      map (\<lambda>i. (pcie_callback i, buffered_size (item_payload_length i))) (rx_items demo_state3)"
    using rx_path_is_fifo [OF demo_reach demo_env_total] by simp
  then show ?thesis using demo_reach by (simp add: pushed_def rx_demo_defs Let_def)
qed

text \<open>C34. A waiting packet is never stranded: in every reachable state a buffer that is not empty has a
  transmission that will complete, its completion never fails and writes at least one of the waiting
  packets, and Falcon is paused exactly while the buffer is full.\<close>

theorem rx_buffer_drains:
  assumes "path_reach env (new_HostPath slots bytes) ps now s" "env_total env" "0 < slots" "0 < bytes"
  shows "(rx_items s \<noteq> [] \<longrightarrow> (\<exists>t. (t, Transmit_complete) \<in> set (mem_events s)) \<and>
     (\<forall>t. (t, Transmit_complete) \<in> set (mem_events s) \<longrightarrow>
        (\<exists>s'. memory_event env t Transmit_complete s = Some s' \<and> length (written s) < length (written s')))) \<and>
    (falcon_xoff s \<longleftrightarrow> max_size_bytes s \<le> current_size_bytes s) \<and>
    unat (current_size_bytes s) = items_bytes (rx_items s)"
proof -
  have p: "path_inv False s" "xoff_inv s"
    using path_reach_inv [OF assms(1,2)] new_HostPath_inv [OF assms(3,4)] by blast+
  have "\<exists>t. (t, Transmit_complete) \<in> set (mem_events s)" if "rx_items s \<noteq> []"
  proof -
    have "completions s = 1" using p(1) that by (simp add: path_inv_def)
    then have "filter (\<lambda>e. snd e = Transmit_complete) (mem_events s) \<noteq> []" by (auto simp: completions_def)
    then show ?thesis by (auto simp: filter_empty_conv)
  qed
  then show ?thesis
    using TransmitComplete_total [OF assms(2) p] p by (fastforce simp: path_inv_def xoff_inv_def)
qed

theorem rx_buffer_drains_witness:
  "rx_items demo_state3 \<noteq> [] \<and> falcon_xoff demo_state3 \<and> (\<exists>t. (t, Transmit_complete) \<in> set (mem_events demo_state3) \<and>
     (\<exists>s'. memory_event demo_env t Transmit_complete demo_state3 = Some s' \<and> length (written demo_state3) < length (written s')))"
proof -
  have n: "rx_items demo_state3 \<noteq> []" using demo_pushes_run(6) by auto
  moreover have "falcon_xoff demo_state3" by (simp add: rx_demo_defs Let_def)
  ultimately show ?thesis using rx_buffer_drains [OF demo_reach demo_env_total] by auto
qed

text \<open>A completion without data that has to wait is written with a size that wrapped around: when it is
  pushed while the queue of the interface is full and the buffer is empty, the transmission that completes
  next makes the interface write \<open>2 ^ 64 - 28\<close> bytes for it.\<close>

theorem waiting_completion_wraps:
  assumes "env_total env" "path_inv False s" "xoff_inv s" "queue_is_full s" "rx_items s = []"
    and "(t, Transmit_complete) \<in> set (mem_events s)"
  shows "\<exists>s1 s2. path_Push env now c None r s = Some s1 \<and> memory_event env t Transmit_complete s1 = Some s2 \<and>
    written s2 = written s @ [(c, 2 ^ 64 - 28)]"
proof -
  obtain s1 where s1: "path_Push env now c None r s = Some s1" "path_inv False s1" "xoff_inv s1"
    "view s1 = view s @ [(c, buffered_size 0)]"
    using path_Push_total [OF assms(1-3), of None now c r] assms(4,5) by auto
  have f: "written s1 = written s" "mem_events s1 = mem_events s" "length (rx_items s1) = 1"
    using s1(1) assms(4,5) by (auto simp: path_Push_def Let_def split: if_splits)
  obtain s2 where s2: "memory_event env t Transmit_complete s1 = Some s2" "view s2 = view s1"
    "length (written s1) < length (written s2)"
    using TransmitComplete_total [OF assms(1) s1(2,3), of t] assms(6) f(2,3) by (metis length_0_conv one_neq_zero)
  have "buffered_size 0 = 2 ^ 64 - 28" by code_simp
  then have "view s2 = written s @ [(c, 2 ^ 64 - 28)]" using s1(4) s2(2) assms(5) by (simp add: view_def)
  moreover have "length (written s) < length (written s2)" using s2(3) f(1) by simp
  ultimately have "written s2 = written s @ [(c, 2 ^ 64 - 28)]"
    by (auto simp: view_def append_eq_append_conv2 append_eq_Cons_conv dest: arg_cong [of _ _ length])
  then show ?thesis using s1(1) s2(1) by blast
qed

theorem waiting_completion_wraps_witness:
  "\<exists>s1 s2. path_Push demo_env 0 (Some 23) None (Some 13) demo_state2 = Some s1 \<and>
     memory_event demo_env 72 Transmit_complete s1 = Some s2 \<and> written s2 = [(Some 21, 72), (Some 22, 172), (Some 23, 2 ^ 64 - 28)]"
proof -
  have "path_inv False demo_state2 \<and> xoff_inv demo_state2 \<and> queue_is_full demo_state2 \<and> rx_items demo_state2 = [] \<and>
      (72, Transmit_complete) \<in> set (mem_events demo_state2) \<and> written demo_state2 = [(Some 21, 72), (Some 22, 172)]"
    by (simp add: rx_demo_defs Let_def path_inv_def xoff_inv_def completions_def written_def)
  then show ?thesis
    using waiting_completion_wraps [OF demo_env_total, of demo_state2 72 0 "Some 23" "Some 13"] by auto
qed

end
