(* ===== verification/Rdma_Types.thy ===== *)
theory Rdma_Types
  imports Falcon_Types Admission_Control
begin

text \<open>
  The data of RDMA over Falcon (\<open>host/rdma/rdma_component_interfaces.h\<close>, \<open>common/model_interfaces.h\<close>): credits,
  operations, queue pairs; the free list (\<open>rdma_free_list_manager.cc\<close>), and the functions of the work
  scheduler on one queue pair (\<open>rdma_falcon_work_scheduler.cc\<close>): cutting packets off a scatter-gather list,
  the credits of an operation, the packets of requests and responses.

  An operation lives at an address in its queue pair, as both the completion queue and the map from
  sequence numbers point to it; reading an address that was freed is \<open>None\<close>. Statistics are left out.
\<close>

section \<open>Credits\<close>

datatype FalconCredit = FalconCredit (request_tx_packet: u32) (request_tx_buffer: u32) (request_rx_packet: u32)
  (request_rx_buffer: u32) (response_tx_packet: u32) (response_tx_buffer: u32)

instantiation FalconCredit :: ab_group_add
begin

definition zero_FalconCredit :: FalconCredit where
  "0 = FalconCredit 0 0 0 0 0 0"

definition plus_FalconCredit :: "FalconCredit \<Rightarrow> FalconCredit \<Rightarrow> FalconCredit" where
  "a + b = FalconCredit (request_tx_packet a + request_tx_packet b) (request_tx_buffer a + request_tx_buffer b)
     (request_rx_packet a + request_rx_packet b) (request_rx_buffer a + request_rx_buffer b)
     (response_tx_packet a + response_tx_packet b) (response_tx_buffer a + response_tx_buffer b)"

definition minus_FalconCredit :: "FalconCredit \<Rightarrow> FalconCredit \<Rightarrow> FalconCredit" where
  "a - b = FalconCredit (request_tx_packet a - request_tx_packet b) (request_tx_buffer a - request_tx_buffer b)
     (request_rx_packet a - request_rx_packet b) (request_rx_buffer a - request_rx_buffer b)
     (response_tx_packet a - response_tx_packet b) (response_tx_buffer a - response_tx_buffer b)"

definition uminus_FalconCredit :: "FalconCredit \<Rightarrow> FalconCredit" where
  "- a = 0 - (a :: FalconCredit)"

instance
  by standard (simp_all add: zero_FalconCredit_def plus_FalconCredit_def minus_FalconCredit_def uminus_FalconCredit_def
    algebra_simps)

end

text \<open>The comparisons hold in every component; so \<open><\<close> is not the strict part of \<open>\<le>\<close>.\<close>

instantiation FalconCredit :: ord
begin

definition less_eq_FalconCredit :: "FalconCredit \<Rightarrow> FalconCredit \<Rightarrow> bool" where
  "a \<le> b \<longleftrightarrow> request_tx_packet a \<le> request_tx_packet b \<and> request_tx_buffer a \<le> request_tx_buffer b \<and>
     request_rx_packet a \<le> request_rx_packet b \<and> request_rx_buffer a \<le> request_rx_buffer b \<and>
     response_tx_packet a \<le> response_tx_packet b \<and> response_tx_buffer a \<le> response_tx_buffer b"

definition less_FalconCredit :: "FalconCredit \<Rightarrow> FalconCredit \<Rightarrow> bool" where
  "a < b \<longleftrightarrow> request_tx_packet a < request_tx_packet b \<and> request_tx_buffer a < request_tx_buffer b \<and>
     request_rx_packet a < request_rx_packet b \<and> request_rx_buffer a < request_rx_buffer b \<and>
     response_tx_packet a < response_tx_packet b \<and> response_tx_buffer a < response_tx_buffer b"

instance ..

end

definition FalconCredit_IsInitialized :: "FalconCredit \<Rightarrow> bool" where
  "FalconCredit_IsInitialized c \<longleftrightarrow> request_tx_packet c \<noteq> 0 \<or> request_tx_buffer c \<noteq> 0 \<or> request_rx_packet c \<noteq> 0 \<or>
     request_rx_buffer c \<noteq> 0 \<or> response_tx_packet c \<noteq> 0 \<or> response_tx_buffer c \<noteq> 0"

lemma FalconCredit_IsInitialized_iff: "FalconCredit_IsInitialized c \<longleftrightarrow> c \<noteq> 0"
  by (cases c) (auto simp: FalconCredit_IsInitialized_def zero_FalconCredit_def)

section \<open>Operations and queue pairs\<close>

type_synonym QpId = u32

definition kInvalidQpId :: QpId where "kInvalidQpId = 0"

datatype RdmaVerb = V_kSend | V_kRecv | V_kRead | V_kWrite

datatype RdmaConnectedMode = kOrderedRc | kUnorderedRc

datatype WorkType = WT_kRequest | WT_kResponse

record 'c RdmaOp =
  op_opcode :: RdmaVerb
  op_sgl :: "u32 list"
  op_inline_payload_length :: u32
  op_dest_qp_id :: QpId
  completion_callback :: 'c
  op_psn :: u32
  end_psn :: u32
  op_length :: u32
  n_pkts :: u32
  n_pkt_finished :: u32
  is_scheduled :: bool

definition sgl_RdmaOp :: "RdmaVerb \<Rightarrow> u32 list \<Rightarrow> 'c \<Rightarrow> QpId \<Rightarrow> 'c RdmaOp" where
  "sgl_RdmaOp opcode sgl c dest = \<lparr>op_opcode = opcode, op_sgl = sgl, op_inline_payload_length = 0, op_dest_qp_id = dest,
     completion_callback = c, op_psn = 0, end_psn = 0, op_length = sum_list sgl, n_pkts = 0, n_pkt_finished = 0,
     is_scheduled = False\<rparr>"

definition inline_RdmaOp :: "RdmaVerb \<Rightarrow> u32 \<Rightarrow> 'c \<Rightarrow> QpId \<Rightarrow> 'c RdmaOp" where
  "inline_RdmaOp opcode len c dest = \<lparr>op_opcode = opcode, op_sgl = [], op_inline_payload_length = len, op_dest_qp_id = dest,
     completion_callback = c, op_psn = 0, end_psn = 0, op_length = len, n_pkts = 0, n_pkt_finished = 0,
     is_scheduled = False\<rparr>"

record InboundReadRequest =
  irr_rsn :: u32
  irr_sgl :: "u32 list"

record 'c FalconQpContext =
  ctx_qp_id :: QpId
  ctx_dest_qp_id :: QpId
  rc_mode :: RdmaConnectedMode
  ops :: "nat \<Rightarrow> 'c RdmaOp option"
  next_address :: nat
  send_queue :: "nat list"
  receive_queue :: "'c RdmaOp list"
  inbound_read_request_queue :: "InboundReadRequest list"
  completion_queue :: "u32 \<Rightarrow> nat option"
  rsn_to_op :: "u32 \<Rightarrow> nat option"
  total_ops_completed :: u32
  ctx_scid :: u32
  credit_limit :: FalconCredit
  credit_usage :: FalconCredit
  next_rsn :: u32
  outbound_read_requests :: u32
  in_rnr :: bool
  next_rx_rsn :: u32
  rnr_timeout :: int
  next_schedule_time :: int

text \<open>\<open>is_connected\<close>.\<close>

definition is_connected :: "('c, 'z) FalconQpContext_scheme \<Rightarrow> bool" where
  "is_connected ctx \<longleftrightarrow> ctx_dest_qp_id ctx \<noteq> kInvalidQpId"

text \<open>\<open>emplace\<close> keeps the value of a key that is there.\<close>

definition emplace :: "('k \<Rightarrow> 'v option) \<Rightarrow> 'k \<Rightarrow> 'v \<Rightarrow> 'k \<Rightarrow> 'v option" where
  "emplace m k v = (case m k of None \<Rightarrow> m(k \<mapsto> v) | Some _ \<Rightarrow> m)"

section \<open>Packets\<close>

record rdma_packet =
  pkt_opcode :: RdmaOpcode
  pkt_inline_payload_length :: u32
  pkt_sgl :: "u32 list"
  pkt_dest_qp_id :: QpId
  pkt_rsn :: u32
  pkt_data_length :: u32
  pkt_request_length :: u32
  pkt_sgl_length :: u32
  pkt_src_qp_id :: QpId
  pkt_scid :: u32
  pkt_is_last_packet :: bool
  pkt_destination_bifurcation_id :: nat
  pkt_falcon_payload_length :: u16

definition empty_rdma_packet :: rdma_packet where
  "empty_rdma_packet = \<lparr>pkt_opcode = Op_kInvalid, pkt_inline_payload_length = 0, pkt_sgl = [], pkt_dest_qp_id = 0,
     pkt_rsn = 0, pkt_data_length = 0, pkt_request_length = 0, pkt_sgl_length = 0, pkt_src_qp_id = 0, pkt_scid = 0,
     pkt_is_last_packet = False, pkt_destination_bifurcation_id = 0, pkt_falcon_payload_length = 0\<rparr>"

definition kCbthSize :: u32 where "kCbthSize = 12"
definition kRethSize :: u32 where "kRethSize = 16"
definition kSethSize :: u32 where "kSethSize = 4"
definition kOethSize :: u32 where "kOethSize = 4"
definition kStethSize :: u32 where "kStethSize = 12"
definition kReadHeaderSize :: u32 where "kReadHeaderSize = kCbthSize + kRethSize + kSethSize + kStethSize"
definition kWriteHeaderSize :: u32 where "kWriteHeaderSize = kCbthSize + kRethSize"
definition kResponseHeaderSize :: u32 where "kResponseHeaderSize = kCbthSize + kStethSize"
definition kSendHeaderSize :: u32 where "kSendHeaderSize = kCbthSize + kSethSize + kOethSize"
definition kSglHeaderSize :: u32 where "kSglHeaderSize = 8"
definition kSglFragmentHeaderSize :: u32 where "kSglFragmentHeaderSize = 16"

text \<open>Falcon, operation, UDP, IPv6 and Ethernet headers.\<close>

definition kOuterRdmaHeaderSize :: u32 where "kOuterRdmaHeaderSize = 24 + 12 + 8 + 40 + 14"

definition kMaxOpsPerQuanta :: int where "kMaxOpsPerQuanta = 8"

lemmas header_sizes = kCbthSize_def kRethSize_def kSethSize_def kOethSize_def kStethSize_def kReadHeaderSize_def
  kWriteHeaderSize_def kResponseHeaderSize_def kSendHeaderSize_def kSglHeaderSize_def kSglFragmentHeaderSize_def

text \<open>The MTU of RDMA: the network MTU without all headers (and checked not to have wrapped).\<close>

definition falcon_rdma_mtu :: "u32 \<Rightarrow> u32 option" where
  "falcon_rdma_mtu network_mtu =
     (let m = network_mtu - (14 + 40 + 8 + 24 + 24 + 12 + 28 + 16 + 12)
      in if m < network_mtu then Some m else None)"

section \<open>Cutting a packet off a scatter-gather list\<close>

fun cut_from :: "u32 \<Rightarrow> u32 \<Rightarrow> u32 list \<Rightarrow> u32 list \<times> u32 list" where
  "cut_from mtu acc [] = ([], [])"
| "cut_from mtu acc (x # xs) =
     (if acc < mtu then
        if acc + x \<le> mtu then (case cut_from mtu (acc + x) xs of (out, rest) \<Rightarrow> (x # out, rest))
        else ([mtu - acc], (x - (mtu - acc)) # xs)
      else ([], x # xs))"

definition CutPacketFromSgl :: "u32 list \<Rightarrow> u32 \<Rightarrow> u32 list \<times> u32 list" where
  "CutPacketFromSgl input mtu = cut_from mtu 0 input"

definition GetSglLength :: "u32 list \<Rightarrow> u32 option" where
  "GetSglLength sgl =
     (let n = length sgl in
      if n \<le> 1 then Some (kSglHeaderSize + 1 * kSglFragmentHeaderSize)
      else if n \<le> 4 then Some (kSglHeaderSize + 4 * kSglFragmentHeaderSize)
      else if n \<le> 8 then Some (kSglHeaderSize + 8 * kSglFragmentHeaderSize)
      else if n \<le> 16 then Some (kSglHeaderSize + 16 * kSglFragmentHeaderSize)
      else if n \<le> 32 then Some (kSglHeaderSize + 32 * kSglFragmentHeaderSize)
      else None)"

section \<open>The credits of an operation\<close>

record credit_params =
  rdma_mtu :: u32
  falcon_tx_unit :: u32
  falcon_rx_unit :: u32

definition sgl_credit_size :: "u32 list \<Rightarrow> u32" where
  "sgl_credit_size sgl = of_nat (length sgl) * kSglFragmentHeaderSize"

definition ComputeRequestCredit :: "credit_params \<Rightarrow> 'c RdmaOp \<Rightarrow> FalconCredit option" where
  "ComputeRequestCredit cp op =
     (case op_opcode op of
        V_kSend \<Rightarrow> Some (FalconCredit 1 (CalculateFalconTxBufferCredits (kSendHeaderSize + op_inline_payload_length op)
          (sgl_credit_size (op_sgl op)) (falcon_tx_unit cp)) 1 0 0 0)
      | V_kWrite \<Rightarrow> Some (FalconCredit 1 (CalculateFalconTxBufferCredits (kWriteHeaderSize + op_inline_payload_length op)
          (sgl_credit_size (op_sgl op)) (falcon_tx_unit cp)) 1 0 0 0)
      | V_kRead \<Rightarrow> Some (FalconCredit 1 (CalculateFalconTxBufferCredits kReadHeaderSize
          (sgl_credit_size (op_sgl op)) (falcon_tx_unit cp)) 1
          (CalculateFalconRxBufferCredits (kResponseHeaderSize + min (rdma_mtu cp) (sum_list (op_sgl op))) (falcon_rx_unit cp)) 0 0)
      | V_kRecv \<Rightarrow> None)"

definition ComputeResponseCredit :: "credit_params \<Rightarrow> InboundReadRequest \<Rightarrow> FalconCredit" where
  "ComputeResponseCredit cp req = FalconCredit 0 0 0 0 1
     (CalculateFalconTxBufferCredits kResponseHeaderSize (sgl_credit_size (irr_sgl req)) (falcon_tx_unit cp))"

text \<open>\<open>HasCredits\<close>. A pointer in the send queue that is not valid would be read.\<close>

definition HasCredits :: "credit_params \<Rightarrow> 'c FalconQpContext \<Rightarrow> WorkType \<Rightarrow> bool option" where
  "HasCredits cp ctx wt =
     (case wt of
        WT_kRequest \<Rightarrow> (case send_queue ctx of [] \<Rightarrow> Some False
          | a # _ \<Rightarrow> do {
              op \<leftarrow> ops ctx a;
              credit \<leftarrow> ComputeRequestCredit cp op;
              Some (credit_usage ctx + credit \<le> credit_limit ctx)
            })
      | WT_kResponse \<Rightarrow> (case inbound_read_request_queue ctx of [] \<Rightarrow> Some False
          | r # _ \<Rightarrow> Some (credit_usage ctx + ComputeResponseCredit cp r \<le> credit_limit ctx)))"

section \<open>Building packets\<close>

definition request_headers :: "'c RdmaOp \<Rightarrow> (RdmaOpcode \<times> u32 \<times> u32) option" where
  "request_headers op =
     (case op_opcode op of
        V_kRecv \<Rightarrow> None
      | V_kRead \<Rightarrow> Some (kReadRequest, kReadHeaderSize, kResponseHeaderSize)
      | V_kSend \<Rightarrow> let n = kSendHeaderSize + op_inline_payload_length op in Some (kSendOnly, n, n)
      | V_kWrite \<Rightarrow> let n = kWriteHeaderSize + op_inline_payload_length op in Some (kWriteOnly, n, n))"

text \<open>The headers and the payload: the packet, what is left of the operation, and whether this is its last packet.\<close>

definition load_packet :: "credit_params \<Rightarrow> 'c RdmaOp \<Rightarrow> (rdma_packet \<times> 'c RdmaOp \<times> bool) option" where
  "load_packet cp op = do {
     (opcode, data_length, request_length) \<leftarrow> request_headers op;
     let p = empty_rdma_packet\<lparr>pkt_opcode := opcode, pkt_data_length := data_length, pkt_request_length := request_length\<rparr>;
     (if op_inline_payload_length op \<noteq> 0 then do {
        check (op_sgl op = []);
        Some (p\<lparr>pkt_inline_payload_length := op_inline_payload_length op\<rparr>, op, True)
      } else do {
        let (out, rest) = CutPacketFromSgl (op_sgl op) (rdma_mtu cp);
        n \<leftarrow> GetSglLength out;
        Some (p\<lparr>pkt_sgl := out, pkt_request_length := request_length + sum_list out, pkt_sgl_length := n\<rparr>,
          op\<lparr>op_sgl := rest\<rparr>, rest = [])
      })
   }"

text \<open>The sequence number, and the operation moved to the completion queue with its last packet.\<close>

definition place_packet :: "'c FalconQpContext \<Rightarrow> nat \<Rightarrow> rdma_packet \<Rightarrow> 'c RdmaOp \<Rightarrow> bool \<Rightarrow> 'c FalconQpContext \<times> rdma_packet" where
  "place_packet ctx a p op is_end =
     (let rsn = next_rsn ctx;
          p1 = p\<lparr>pkt_src_qp_id := ctx_qp_id ctx, pkt_scid := ctx_scid ctx, pkt_dest_qp_id := op_dest_qp_id op, pkt_rsn := rsn\<rparr>;
          op1 = (if is_scheduled op then op else op\<lparr>is_scheduled := True, op_psn := rsn\<rparr>);
          ctx1 = ctx\<lparr>next_rsn := rsn + 1, rsn_to_op := emplace (rsn_to_op ctx) rsn a\<rparr> in
      if is_end then
        let op2 = op1\<lparr>end_psn := rsn, n_pkts := rsn - op_psn op1 + 1\<rparr>;
            o' = (case completion_queue ctx rsn of None \<Rightarrow> (ops ctx)(a \<mapsto> op2) | Some _ \<Rightarrow> (ops ctx)(a := None))
        in (ctx1\<lparr>ops := o', completion_queue := emplace (completion_queue ctx) rsn a, send_queue := tl (send_queue ctx)\<rparr>,
            p1\<lparr>pkt_is_last_packet := True\<rparr>)
      else (ctx1\<lparr>ops := (ops ctx)(a \<mapsto> op1)\<rparr>, p1))"

definition CreateRequestPacket :: "credit_params \<Rightarrow> 'c FalconQpContext \<Rightarrow> ('c FalconQpContext \<times> rdma_packet) option" where
  "CreateRequestPacket cp ctx = do {
     check (send_queue ctx \<noteq> []);
     let a = hd (send_queue ctx);
     op \<leftarrow> ops ctx a;
     (p, op1, is_end) \<leftarrow> load_packet cp op;
     Some (place_packet ctx a p op1 is_end)
   }"

definition CreateResponsePacket :: "'c FalconQpContext \<Rightarrow> ('c FalconQpContext \<times> rdma_packet) option" where
  "CreateResponsePacket ctx =
     (case inbound_read_request_queue ctx of
        [] \<Rightarrow> None
      | r # rs \<Rightarrow> do {
          n \<leftarrow> GetSglLength (irr_sgl r);
          Some (ctx\<lparr>inbound_read_request_queue := rs\<rparr>,
            empty_rdma_packet\<lparr>pkt_src_qp_id := ctx_qp_id ctx, pkt_opcode := kReadResponseOnly, pkt_sgl := irr_sgl r,
              pkt_rsn := irr_rsn r, pkt_scid := ctx_scid ctx, pkt_dest_qp_id := ctx_dest_qp_id ctx,
              pkt_data_length := kResponseHeaderSize, pkt_request_length := kResponseHeaderSize + sum_list (irr_sgl r),
              pkt_sgl_length := n\<rparr>)
        })"

definition GetRequestQuantaSize :: "rdma_packet \<Rightarrow> u32 option" where
  "GetRequestQuantaSize p =
     (case pkt_opcode p of
        kReadRequest \<Rightarrow> Some (pkt_data_length p + kOuterRdmaHeaderSize)
      | kSendOnly \<Rightarrow> Some (pkt_request_length p + kOuterRdmaHeaderSize)
      | kWriteOnly \<Rightarrow> Some (pkt_request_length p + kOuterRdmaHeaderSize)
      | _ \<Rightarrow> None)"

definition GetResponseQuantaSize :: "rdma_packet \<Rightarrow> u32" where
  "GetResponseQuantaSize p = pkt_request_length p + kOuterRdmaHeaderSize"

section \<open>The free list\<close>

record FreeList =
  qp_entries :: "QpId \<Rightarrow> int option"
  total_remaining_entries :: u32

definition new_FreeList :: "u32 \<Rightarrow> FreeList" where
  "new_FreeList n = \<lparr>qp_entries = Map.empty, total_remaining_entries = n\<rparr>"

text \<open>The comparison with the limit of a queue pair converts the signed count to 32 bits.\<close>

definition AllocateResource :: "u32 \<Rightarrow> QpId \<Rightarrow> FreeList \<Rightarrow> FreeList \<times> status" where
  "AllocateResource max_per_qp qp f =
     (if total_remaining_entries f = 0 then (f, ResourceExhaustedError)
      else case qp_entries f qp of
        Some n \<Rightarrow> if word_of_int n \<ge> max_per_qp then (f, ResourceExhaustedError)
          else (f\<lparr>qp_entries := (qp_entries f)(qp \<mapsto> n + 1), total_remaining_entries := total_remaining_entries f - 1\<rparr>, OkStatus)
      | None \<Rightarrow> (f\<lparr>qp_entries := (qp_entries f)(qp \<mapsto> 1), total_remaining_entries := total_remaining_entries f - 1\<rparr>, OkStatus))"

definition FreeResource :: "QpId \<Rightarrow> FreeList \<Rightarrow> (FreeList \<times> status) option" where
  "FreeResource qp f = do {
     n \<leftarrow> qp_entries f qp;
     check (n > 0);
     Some (f\<lparr>qp_entries := (qp_entries f)(qp \<mapsto> n - 1), total_remaining_entries := total_remaining_entries f + 1\<rparr>, OkStatus)
   }"

end
