(* ===== verification/Rdma_Scheduler.thy ===== *)
theory Rdma_Scheduler
  imports Rdma_Types Host_Rx_Buffers
begin

text \<open>
  The state of RDMA over Falcon and the operations of its work scheduler
  (\<open>host/rdma/rdma_falcon_work_scheduler.cc\<close>). One record holds the queue pairs, the scheduler, the pipeline and the
  receive buffers, so that the operations of \<open>rdma_falcon_model.cc\<close> act on it too. What the environment will run
  is a list of times and events, one constructor for each function scheduled; the calls to Falcon are a
  log. Durations are integers in one unit.
\<close>

section \<open>State\<close>

datatype 'c pcie_done = Op_done 'c Syndrome

datatype 'c rx_done = Rx_done int u32 u32 "'c option"

datatype 'c rdma_event =
    Add_qp QpId WorkType
  | Readd_qp QpId
  | Run_scheduler
  | Qp_found QpId
  | Initiate rdma_packet
  | Post QpId "'c RdmaOp"
  | Rx_found QpId rdma_packet
  | Completion_found QpId u32 Syndrome nat
  | Pipeline_dequeue
  | Ack_rnr QpId u32 u32
  | Ack_done u32 u32 "'c option"
  | Ack_read QpId rdma_packet
  | Enqueue_response QpId rdma_packet

datatype falcon_call =
    SetupNewQp u32 QpId OrderingMode
  | InitiateTransaction rdma_packet
  | AckTransaction u32 u32 Syndrome int

datatype pipeline_work =
    Work_completion QpId u32 Syndrome nat
  | Work_packet QpId rdma_packet

record rdma_env =
  credit_cfg :: credit_params
  chip_cycle :: int
  scheduler_pipeline_delay_time :: int
  per_qp_inter_op_gap :: int
  work_scheduler_quanta :: u32
  outbound_read_queue_depth :: u32
  inbound_read_queue_depth :: u32
  ack_nack_latency :: int
  response_latency :: int
  max_segment_length :: u32
  max_inline_payload_length :: u32
  enable_pcie_delay_for_completion :: bool
  write_rnr_draw :: "nat \<Rightarrow> bool"
  read_rnr_draw :: "nat \<Rightarrow> bool"
  per_qp_credits :: FalconCredit
  cfg_rnr_timeout :: int
  memory_env :: mem_env

record 'c rdma =
  contexts :: "QpId \<Rightarrow> 'c FalconQpContext option"
  request_wqs :: "QpId list"
  response_wqs :: "QpId list"
  request_qp_set :: "QpId set"
  response_qp_set :: "QpId set"
  request_xoff :: bool
  global_xoff :: bool
  is_idle :: bool
  remaining_quanta_bytes :: "WorkType \<Rightarrow> int"
  remaining_quanta_ops :: "WorkType \<Rightarrow> int"
  current_work_type :: WorkType
  last_scheduler_run_time :: int
  remaining_global_credits :: FalconCredit
  rdma_token_bucket :: TokenBucket
  rdma_events :: "(int \<times> 'c rdma_event) list"
  falcon_calls :: "falcon_call list"
  pipeline :: "pipeline_work list"
  pipeline_active :: bool
  pipeline_last_run_time :: duration
  hosts :: "('c pcie_done, 'c rx_done) HostPath list"
  called :: "('c \<times> Syndrome) list"
  rnr_draws :: nat

definition new_rdma :: "FalconCredit \<Rightarrow> TokenBucket \<Rightarrow> ('c pcie_done, 'c rx_done) HostPath list \<Rightarrow> 'c rdma" where
  "new_rdma global_credits b hs =
     \<lparr>contexts = Map.empty, request_wqs = [], response_wqs = [], request_qp_set = {}, response_qp_set = {},
      request_xoff = False, global_xoff = False, is_idle = True, remaining_quanta_bytes = (\<lambda>_. 0),
      remaining_quanta_ops = (\<lambda>_. 0), current_work_type = WT_kRequest, last_scheduler_run_time = 0,
      remaining_global_credits = global_credits, rdma_token_bucket = b, rdma_events = [], falcon_calls = [],
      pipeline = [], pipeline_active = False, pipeline_last_run_time = NegInfiniteDuration, hosts = hs, called = [],
      rnr_draws = 0\<rparr>"

text \<open>\<open>CHECK_OK(env_->ScheduleEvent(delay, event))\<close>: the environment refuses a negative delay.\<close>

definition schedule :: "int \<Rightarrow> int \<Rightarrow> 'c rdma_event \<Rightarrow> 'c rdma \<Rightarrow> 'c rdma option" where
  "schedule now delay e s = do {
     check (0 \<le> delay);
     Some (s\<lparr>rdma_events := rdma_events s @ [(now + delay, e)]\<rparr>)
   }"

section \<open>The work scheduler\<close>

text \<open>\<open>ConnectFalconInterface\<close>: what must be left before a request or a response is sent.\<close>

definition minimum_request_credit :: "credit_params \<Rightarrow> FalconCredit" where
  "minimum_request_credit cp = FalconCredit 1 (CalculateFalconTxBufferCredits 256 650 (falcon_tx_unit cp)) 1
     (CalculateFalconRxBufferCredits (rdma_mtu cp) (falcon_rx_unit cp)) 0 0"

definition minimum_response_credit :: "credit_params \<Rightarrow> FalconCredit" where
  "minimum_response_credit cp = FalconCredit 0 0 0 0 1 (CalculateFalconTxBufferCredits 256 650 (falcon_tx_unit cp))"

definition CanSendRequest :: "rdma_env \<Rightarrow> 'c rdma \<Rightarrow> bool" where
  "CanSendRequest env s \<longleftrightarrow> \<not> (request_xoff s \<or> global_xoff s \<or> request_wqs s = []) \<and>
     minimum_request_credit (credit_cfg env) \<le> remaining_global_credits s"

definition CanSendResponse :: "rdma_env \<Rightarrow> 'c rdma \<Rightarrow> bool" where
  "CanSendResponse env s \<longleftrightarrow> \<not> (global_xoff s \<or> response_wqs s = []) \<and>
     minimum_response_credit (credit_cfg env) \<le> remaining_global_credits s"

text \<open>Choosing the work queue, once the scheduler may run and has tokens; the lookup of the queue pair is an event.\<close>

definition choose_work :: "rdma_env \<Rightarrow> int \<Rightarrow> 'c rdma \<Rightarrow> 'c rdma option" where
  "choose_work env now s =
     (let can_send_request = CanSendRequest env s; can_send_response = CanSendResponse env s in
      if \<not> can_send_request \<and> \<not> can_send_response then Some (s\<lparr>is_idle := True\<rparr>)
      else do {
        let wt = (if current_work_type s = WT_kResponse \<and> \<not> can_send_response then WT_kRequest
          else if current_work_type s = WT_kRequest \<and> \<not> can_send_request then WT_kResponse
          else current_work_type s);
        let s1 = s\<lparr>current_work_type := wt\<rparr>;
        let s2 = (if remaining_quanta_bytes s1 wt = 0 \<and> remaining_quanta_ops s1 wt = 0 then
            s1\<lparr>remaining_quanta_bytes := (remaining_quanta_bytes s1)(wt := sint (work_scheduler_quanta env)),
               remaining_quanta_ops := (remaining_quanta_ops s1)(wt := kMaxOpsPerQuanta)\<rparr>
          else s1);
        let wqs = (if wt = WT_kRequest then request_wqs s2 else response_wqs s2);
        check (wqs \<noteq> []);
        schedule now 0 (Qp_found (hd wqs)) s2
      })"

definition RunWorkScheduler :: "rdma_env \<Rightarrow> int \<Rightarrow> 'c rdma \<Rightarrow> 'c rdma option" where
  "RunWorkScheduler env now s =
     (let s1 = s\<lparr>is_idle := False\<rparr>;
          next_run_time = max now (last_scheduler_run_time s1 + chip_cycle env) in
      if next_run_time > now then schedule now (next_run_time - now) Run_scheduler s1
      else do {
        (b, sufficient_tokens) \<leftarrow> AreTokensAvailable (ucast (rdma_mtu (credit_cfg env) + of_nat kRdmaHeader)) now
          (rdma_token_bucket s1);
        let s2 = s1\<lparr>rdma_token_bucket := b\<rparr>;
        (if \<not> sufficient_tokens then schedule now (NextRefillTime b - now) Run_scheduler s2
         else choose_work env now s2)
      })"

definition AddQpToScheduleSet :: "rdma_env \<Rightarrow> int \<Rightarrow> QpId \<Rightarrow> WorkType \<Rightarrow> 'c rdma \<Rightarrow> 'c rdma option" where
  "AddQpToScheduleSet env now qp wt s = do {
     ctx \<leftarrow> contexts s qp;
     (if next_schedule_time ctx > now then schedule now (next_schedule_time ctx - now) (Add_qp qp wt) s
      else do {
        has_credits \<leftarrow> HasCredits (credit_cfg env) ctx wt;
        (if \<not> has_credits then Some s
         else if qp \<in> (if wt = WT_kRequest then request_qp_set s else response_qp_set s) then Some s
         else
           let s1 = (if wt = WT_kRequest
               then s\<lparr>request_wqs := request_wqs s @ [qp], request_qp_set := insert qp (request_qp_set s)\<rparr>
               else s\<lparr>response_wqs := response_wqs s @ [qp], response_qp_set := insert qp (response_qp_set s)\<rparr>)
           in if is_idle s1 then RunWorkScheduler env now s1 else Some s1)
      })
   }"

definition sched_SetXoff :: "rdma_env \<Rightarrow> int \<Rightarrow> bool \<Rightarrow> bool \<Rightarrow> 'c rdma \<Rightarrow> 'c rdma option" where
  "sched_SetXoff env now request global s =
     (let s1 = s\<lparr>request_xoff := request, global_xoff := global\<rparr> in
      if is_idle s1 then RunWorkScheduler env now s1 else Some s1)"

definition ReturnFalconCredits :: "rdma_env \<Rightarrow> int \<Rightarrow> FalconCredit \<Rightarrow> 'c rdma \<Rightarrow> 'c rdma option" where
  "ReturnFalconCredits env now credit s =
     (let s1 = s\<lparr>remaining_global_credits := remaining_global_credits s + credit\<rparr> in
      if is_idle s1 then RunWorkScheduler env now s1 else Some s1)"

definition UpdateWorkType :: "rdma_env \<Rightarrow> 'c rdma \<Rightarrow> 'c rdma" where
  "UpdateWorkType env s =
     (case current_work_type s of
        WT_kRequest \<Rightarrow> if CanSendResponse env s then s\<lparr>current_work_type := WT_kResponse\<rparr> else s
      | WT_kResponse \<Rightarrow> if CanSendRequest env s then s\<lparr>current_work_type := WT_kRequest\<rparr> else s)"

section \<open>Sending a transaction\<close>

text \<open>The packet of the current work type, its credits and its quanta.\<close>

definition create_packet :: "rdma_env \<Rightarrow> WorkType \<Rightarrow> 'c FalconQpContext \<Rightarrow>
    ('c FalconQpContext \<times> rdma_packet \<times> FalconCredit \<times> u32) option" where
  "create_packet env wt ctx =
     (case wt of
        WT_kRequest \<Rightarrow> do {
          check (send_queue ctx \<noteq> []);
          op \<leftarrow> ops ctx (hd (send_queue ctx));
          credit \<leftarrow> ComputeRequestCredit (credit_cfg env) op;
          (ctx1, p) \<leftarrow> CreateRequestPacket (credit_cfg env) ctx;
          q \<leftarrow> GetRequestQuantaSize p;
          Some (ctx1, p, credit, q)
        }
      | WT_kResponse \<Rightarrow> do {
          check (is_connected ctx);
          check (inbound_read_request_queue ctx \<noteq> []);
          let credit = ComputeResponseCredit (credit_cfg env) (hd (inbound_read_request_queue ctx));
          (ctx1, p) \<leftarrow> CreateResponsePacket ctx;
          Some (ctx1, p, credit, GetResponseQuantaSize p)
        })"

text \<open>Credits, quanta, tokens and the rate of the queue pair; then the packet is on its way to Falcon.\<close>

definition account_packet :: "rdma_env \<Rightarrow> int \<Rightarrow> QpId \<Rightarrow> 'c FalconQpContext \<Rightarrow> rdma_packet \<Rightarrow> FalconCredit \<Rightarrow> u32 \<Rightarrow>
    'c rdma \<Rightarrow> 'c rdma option" where
  "account_packet env now qp ctx p credit quanta_size s = do {
     let wt = current_work_type s;
     let bytes = remaining_quanta_bytes s wt;
     let tokens_consumed_bytes = (if pkt_opcode p = kReadRequest then pkt_data_length p else pkt_request_length p);
     b \<leftarrow> RequestTokens (ucast tokens_consumed_bytes) (rdma_token_bucket s);
     let ctx1 = ctx\<lparr>credit_usage := credit_usage ctx + credit,
         outbound_read_requests := (if pkt_opcode p = kReadRequest then outbound_read_requests ctx + 1
           else outbound_read_requests ctx),
         next_schedule_time := (if next_schedule_time ctx \<le> now then now + per_qp_inter_op_gap env
           else next_schedule_time ctx + per_qp_inter_op_gap env)\<rparr>;
     schedule now (scheduler_pipeline_delay_time env) (Initiate p)
       (s\<lparr>contexts := (contexts s)(qp \<mapsto> ctx1), remaining_global_credits := remaining_global_credits s - credit,
          remaining_quanta_bytes := (remaining_quanta_bytes s)(wt :=
            (if word_of_int bytes \<ge> quanta_size then bytes - int (unat quanta_size) else 0)),
          remaining_quanta_ops := (remaining_quanta_ops s)(wt := remaining_quanta_ops s wt - 1),
          rdma_token_bucket := b, last_scheduler_run_time := now\<rparr>)
   }"

definition reset_quanta :: "'c rdma \<Rightarrow> 'c rdma" where
  "reset_quanta s = s\<lparr>remaining_quanta_bytes := (remaining_quanta_bytes s)(current_work_type s := 0),
     remaining_quanta_ops := (remaining_quanta_ops s)(current_work_type s := 0)\<rparr>"

text \<open>The limit on outstanding reads. The queue taken off is the one at the head of the requests.\<close>

definition over_ord_limit :: "rdma_env \<Rightarrow> 'c FalconQpContext \<Rightarrow> bool option" where
  "over_ord_limit env ctx =
     (if outbound_read_requests ctx \<ge> outbound_read_queue_depth env \<and> send_queue ctx \<noteq> []
      then map_option (\<lambda>op. op_opcode op = V_kRead) (ops ctx (hd (send_queue ctx)))
      else Some False)"

definition remove_over_ord :: "rdma_env \<Rightarrow> int \<Rightarrow> QpId \<Rightarrow> 'c rdma \<Rightarrow> 'c rdma option" where
  "remove_over_ord env now qp s = do {
     check (request_wqs s \<noteq> []);
     s1 \<leftarrow> schedule now (chip_cycle env) Run_scheduler
       (s\<lparr>request_qp_set := request_qp_set s - {qp}, request_wqs := tl (request_wqs s)\<rparr>);
     Some (UpdateWorkType env (reset_quanta s1))
   }"

text \<open>What comes next: the same queue again, or the next one.\<close>

definition next_work :: "rdma_env \<Rightarrow> int \<Rightarrow> QpId \<Rightarrow> 'c FalconQpContext \<Rightarrow> 'c rdma \<Rightarrow> 'c rdma option" where
  "next_work env now qp ctx s = do {
     let wt = current_work_type s;
     has_credits \<leftarrow> HasCredits (credit_cfg env) ctx wt;
     let has_quanta = (remaining_quanta_bytes s wt > 0 \<and> remaining_quanta_ops s wt > 0);
     (if has_quanta \<and> has_credits then schedule now (chip_cycle env) Run_scheduler s
      else do {
        check ((if wt = WT_kRequest then request_wqs s else response_wqs s) \<noteq> []);
        let s1 = (if wt = WT_kRequest
            then s\<lparr>request_wqs := tl (request_wqs s), request_qp_set := request_qp_set s - {qp}\<rparr>
            else s\<lparr>response_wqs := tl (response_wqs s), response_qp_set := response_qp_set s - {qp}\<rparr>);
        s2 \<leftarrow> (if has_credits then schedule now (next_schedule_time ctx - now) (Readd_qp qp) s1 else Some s1);
        schedule now (chip_cycle env) Run_scheduler (UpdateWorkType env (reset_quanta s2))
      })
   }"

definition SendTransaction :: "rdma_env \<Rightarrow> int \<Rightarrow> QpId \<Rightarrow> 'c rdma \<Rightarrow> 'c rdma option" where
  "SendTransaction env now qp s = do {
     ctx \<leftarrow> contexts s qp;
     (ctx1, p, credit, quanta_size) \<leftarrow> create_packet env (current_work_type s) ctx;
     s1 \<leftarrow> account_packet env now qp ctx1 p credit quanta_size s;
     ctx2 \<leftarrow> contexts s1 qp;
     over \<leftarrow> over_ord_limit env ctx2;
     (if over then remove_over_ord env now qp s1 else next_work env now qp ctx2 s1)
   }"

end
