(* ===== verification/Rdma_Falcon.thy ===== *)
theory Rdma_Falcon
  imports Rdma_Scheduler
begin

text \<open>
  The operations of RDMA over Falcon (\<open>host/rdma/rdma_falcon_model.cc\<close>, \<open>rdma_base_model.cc\<close>,
  \<open>rdma_qp_manager.cc\<close>): posting operations, the pipeline for received transactions and completions, the
  RNR state of an ordered queue pair, credits coming back, and the dispatch of the scheduled events.

  The received data goes to the receive buffers of \<open>Host_Rx_Buffers\<close>; the transfers the buffers report while they
  run are carried out right after. A completion callback is called by appending it to the log \<open>called\<close>.
  Opaque cookies and the statistics of operations are left out.
\<close>

section \<open>Queue pairs\<close>

definition InitializeQpContext :: "rdma_env \<Rightarrow> QpId \<Rightarrow> u32 \<Rightarrow> FalconCredit \<Rightarrow> 'c FalconQpContext" where
  "InitializeQpContext env local_qp scid initial_credit =
     \<lparr>ctx_qp_id = local_qp, ctx_dest_qp_id = kInvalidQpId, rc_mode = kUnorderedRc, ops = Map.empty, next_address = 0,
      send_queue = [], receive_queue = [], inbound_read_request_queue = [], completion_queue = Map.empty,
      rsn_to_op = Map.empty, total_ops_completed = 0, ctx_scid = scid,
      credit_limit = (if FalconCredit_IsInitialized initial_credit then initial_credit else per_qp_credits env),
      credit_usage = (if FalconCredit_IsInitialized initial_credit then initial_credit else 0),
      next_rsn = 0, outbound_read_requests = 0, in_rnr = False, next_rx_rsn = 0,
      rnr_timeout = cfg_rnr_timeout env, next_schedule_time = 0\<rparr>"

definition CreateQp :: "'c FalconQpContext \<Rightarrow> 'c rdma \<Rightarrow> 'c rdma option" where
  "CreateQp ctx s = do {
     check (ctx_qp_id ctx \<noteq> kInvalidQpId);
     check (contexts s (ctx_qp_id ctx) = None);
     Some (s\<lparr>contexts := (contexts s)(ctx_qp_id ctx \<mapsto> ctx)\<rparr>)
   }"

definition ConnectQp :: "QpId \<Rightarrow> QpId \<Rightarrow> RdmaConnectedMode \<Rightarrow> 'c rdma \<Rightarrow> 'c rdma option" where
  "ConnectQp local_qp remote_qp mode s = do {
     ctx \<leftarrow> contexts s local_qp;
     check (remote_qp \<noteq> kInvalidQpId);
     Some (s\<lparr>contexts := (contexts s)(local_qp \<mapsto> ctx\<lparr>rc_mode := mode, ctx_dest_qp_id := remote_qp\<rparr>)\<rparr>)
   }"

definition CreateRcQp :: "rdma_env \<Rightarrow> QpId \<Rightarrow> QpId \<Rightarrow> u32 \<Rightarrow> FalconCredit \<Rightarrow> RdmaConnectedMode \<Rightarrow> 'c rdma \<Rightarrow> 'c rdma option" where
  "CreateRcQp env local_qp remote_qp scid initial_credit mode s = do {
     s1 \<leftarrow> CreateQp (InitializeQpContext env local_qp scid initial_credit) s;
     s2 \<leftarrow> ConnectQp local_qp remote_qp mode s1;
     Some (s2\<lparr>falcon_calls := falcon_calls s2 @ [SetupNewQp scid local_qp (if mode = kOrderedRc then kOrdered else kUnordered)]\<rparr>)
   }"

definition put_context :: "QpId \<Rightarrow> 'c FalconQpContext \<Rightarrow> 'c rdma \<Rightarrow> 'c rdma" where
  "put_context qp ctx s = s\<lparr>contexts := (contexts s)(qp \<mapsto> ctx)\<rparr>"

section \<open>Posting operations\<close>

definition PerformOp :: "rdma_env \<Rightarrow> int \<Rightarrow> QpId \<Rightarrow> RdmaVerb \<Rightarrow> u32 list \<Rightarrow> bool \<Rightarrow> 'c \<Rightarrow> QpId \<Rightarrow> 'c rdma \<Rightarrow> 'c rdma option" where
  "PerformOp env now qp opcode sgl is_inline c dest s = do {
     check (list_all (\<lambda>n. n \<le> max_segment_length env \<and> n > 0) sgl);
     op \<leftarrow> (if \<not> is_inline \<or> opcode = V_kRead \<or> opcode = V_kRecv then do {
          check (\<not> is_inline);
          Some (sgl_RdmaOp opcode sgl c dest)
        } else do {
          check (sum_list sgl \<le> max_inline_payload_length env);
          Some (inline_RdmaOp opcode (sum_list sgl) c dest)
        });
     schedule now 0 (Post qp op) s
   }"

text \<open>\<open>RdmaBaseModel::PostOp\<close>.\<close>

definition base_PostOp :: "'c RdmaOp \<Rightarrow> 'c FalconQpContext \<Rightarrow> 'c FalconQpContext option" where
  "base_PostOp op ctx = do {
     check (is_connected ctx \<or> op_opcode op = V_kSend \<or> op_opcode op = V_kRecv);
     let op1 = (if is_connected ctx then op\<lparr>op_dest_qp_id := ctx_dest_qp_id ctx\<rparr> else op);
     Some (if op_opcode op1 = V_kRecv then ctx\<lparr>receive_queue := receive_queue ctx @ [op1]\<rparr>
       else ctx\<lparr>ops := (ops ctx)(next_address ctx \<mapsto> op1), send_queue := send_queue ctx @ [next_address ctx],
              next_address := Suc (next_address ctx)\<rparr>)
   }"

definition PostOp :: "rdma_env \<Rightarrow> int \<Rightarrow> QpId \<Rightarrow> 'c RdmaOp \<Rightarrow> 'c rdma \<Rightarrow> 'c rdma option" where
  "PostOp env now qp op s = do {
     ctx \<leftarrow> contexts s qp;
     ctx1 \<leftarrow> base_PostOp op ctx;
     let s1 = put_context qp ctx1 s;
     (if length (send_queue ctx1) = 1 then do {
        ok \<leftarrow> HasCredits (credit_cfg env) ctx1 WT_kRequest;
        (if ok then AddQpToScheduleSet env now qp WT_kRequest s1 else Some s1)
      } else Some s1)
   }"

section \<open>Handing data to the host\<close>

definition ack_done :: "u32 \<Rightarrow> u32 \<Rightarrow> 'c option \<Rightarrow> 'c rdma \<Rightarrow> 'c rdma" where
  "ack_done scid rsn c s = s\<lparr>falcon_calls := falcon_calls s @ [AckTransaction scid rsn Syn_kAck 0],
     called := called s @ (case c of None \<Rightarrow> [] | Some x \<Rightarrow> [(x, Syn_kAck)])\<rparr>"

text \<open>The callback that runs when the packet is handed to the memory interface.\<close>

fun run_transfer :: "int \<Rightarrow> 'c rx_done \<Rightarrow> 'c rdma \<Rightarrow> 'c rdma option" where
  "run_transfer now (Rx_done ack_time scid rsn c) s =
     (if now < ack_time then schedule now (ack_time - now) (Ack_done scid rsn c) s else Some (ack_done scid rsn c s))"

fun run_transfer_list :: "int \<Rightarrow> 'c rx_done list \<Rightarrow> 'c rdma \<Rightarrow> 'c rdma option" where
  "run_transfer_list now [] s = Some s"
| "run_transfer_list now (r # rs) s = do {
     s1 \<leftarrow> run_transfer now r s;
     run_transfer_list now rs s1
   }"

definition run_transfers :: "int \<Rightarrow> nat \<Rightarrow> 'c rdma \<Rightarrow> 'c rdma option" where
  "run_transfers now h s =
     run_transfer_list now (transfers (hosts s ! h)) (s\<lparr>hosts := (hosts s)[h := (hosts s ! h)\<lparr>transfers := []\<rparr>]\<rparr>)"

definition push_to_host :: "rdma_env \<Rightarrow> int \<Rightarrow> nat \<Rightarrow> 'c pcie_done option \<Rightarrow> u32 option \<Rightarrow> 'c rx_done option \<Rightarrow>
    'c rdma \<Rightarrow> 'c rdma option" where
  "push_to_host env now h c payload r s = do {
     hs \<leftarrow> rx_Push (memory_env env) now h c payload r (hosts s);
     run_transfers now h (s\<lparr>hosts := hs\<rparr>)
   }"

definition host_event :: "rdma_env \<Rightarrow> int \<Rightarrow> nat \<Rightarrow> 'c pcie_done mem_event \<Rightarrow> 'c rdma \<Rightarrow> 'c rdma option" where
  "host_event env now h e s = do {
     check (h < length (hosts s));
     p \<leftarrow> memory_event (memory_env env) now e (hosts s ! h);
     s1 \<leftarrow> run_transfers now h (s\<lparr>hosts := (hosts s)[h := p]\<rparr>);
     Some (case e of Transmit_complete \<Rightarrow> s1
       | Memory_callback d \<Rightarrow> (case d of Op_done c syndrome \<Rightarrow> s1\<lparr>called := called s1 @ [(c, syndrome)]\<rparr>))
   }"

section \<open>The RNR state\<close>

definition IsRsnAcceptable :: "'c FalconQpContext \<Rightarrow> u32 \<Rightarrow> bool option" where
  "IsRsnAcceptable ctx rsn =
     (if rc_mode ctx = kOrderedRc \<and> rsn \<noteq> next_rx_rsn ctx then (if in_rnr ctx then Some False else None)
      else Some True)"

definition UpdateNextRsnToReceive :: "'c FalconQpContext \<Rightarrow> 'c FalconQpContext" where
  "UpdateNextRsnToReceive ctx = (if rc_mode ctx = kOrderedRc then ctx\<lparr>next_rx_rsn := next_rx_rsn ctx + 1\<rparr> else ctx)"

definition EnterRnrState :: "'c FalconQpContext \<Rightarrow> 'c FalconQpContext" where
  "EnterRnrState ctx = (if rc_mode ctx = kOrderedRc then ctx\<lparr>in_rnr := True\<rparr> else ctx)"

definition LeaveRnrState :: "'c FalconQpContext \<Rightarrow> 'c FalconQpContext" where
  "LeaveRnrState ctx = (if rc_mode ctx = kOrderedRc then ctx\<lparr>in_rnr := False\<rparr> else ctx)"

definition draw_rnr :: "(nat \<Rightarrow> bool) \<Rightarrow> 'c rdma \<Rightarrow> 'c rdma \<times> bool" where
  "draw_rnr draw s = (s\<lparr>rnr_draws := Suc (rnr_draws s)\<rparr>, draw (rnr_draws s))"

definition rnr_nack :: "rdma_env \<Rightarrow> int \<Rightarrow> QpId \<Rightarrow> u32 \<Rightarrow> 'c FalconQpContext \<Rightarrow> 'c rdma \<Rightarrow> 'c rdma option" where
  "rnr_nack env now qp rsn ctx s =
     schedule now (ack_nack_latency env) (Ack_rnr qp (ctx_scid ctx) rsn) (put_context qp (EnterRnrState ctx) s)"

definition accept_rsn :: "'c FalconQpContext \<Rightarrow> 'c FalconQpContext" where
  "accept_rsn ctx = LeaveRnrState (UpdateNextRsnToReceive ctx)"

section \<open>Received transactions\<close>

text \<open>Does the posted receive match the packet: the queue pair, whether it matches and whether the operation ends.\<close>

definition match_receive :: "rdma_env \<Rightarrow> rdma_packet \<Rightarrow> 'c FalconQpContext \<Rightarrow> ('c FalconQpContext \<times> bool \<times> bool) option" where
  "match_receive env p ctx =
     (case receive_queue ctx of
        [] \<Rightarrow> Some (ctx, False, False)
      | r # rs \<Rightarrow> do {
          ok \<leftarrow> IsRsnAcceptable ctx (pkt_rsn p);
          Some (if \<not> ok then (ctx, False, False)
            else if pkt_inline_payload_length p \<noteq> 0 then
              (let eq = (sum_list (op_sgl r) = pkt_inline_payload_length p) in (ctx, eq, eq))
            else (case CutPacketFromSgl (op_sgl r) (rdma_mtu (credit_cfg env)) of
              (expected, rest) \<Rightarrow> if pkt_sgl p = expected
                then (ctx\<lparr>receive_queue := r\<lparr>op_sgl := rest\<rparr> # rs\<rparr>, True, rest = [])
                else (ctx, False, False)))
        })"

definition ProcessIncomingSend :: "rdma_env \<Rightarrow> int \<Rightarrow> QpId \<Rightarrow> rdma_packet \<Rightarrow> 'c rdma \<Rightarrow> 'c rdma option" where
  "ProcessIncomingSend env now qp p s = do {
     ctx \<leftarrow> contexts s qp;
     check (\<not> is_connected ctx \<or> rc_mode ctx = kOrderedRc);
     (ctx1, matches, is_end) \<leftarrow> match_receive env p ctx;
     (if \<not> matches then rnr_nack env now qp (pkt_rsn p) ctx1 s
      else
        let ctx2 = accept_rsn ctx1;
            callback = (if is_end then Some (completion_callback (hd (receive_queue ctx2))) else None);
            ctx3 = (if is_end then ctx2\<lparr>receive_queue := tl (receive_queue ctx2)\<rparr> else ctx2)
        in push_to_host env now (pkt_destination_bifurcation_id p) None (Some (ucast (pkt_falcon_payload_length p)))
             (Some (Rx_done (now + ack_nack_latency env) (ctx_scid ctx) (pkt_rsn p) callback)) (put_context qp ctx3 s))
   }"

definition ProcessIncomingWrite :: "rdma_env \<Rightarrow> int \<Rightarrow> QpId \<Rightarrow> rdma_packet \<Rightarrow> 'c rdma \<Rightarrow> 'c rdma option" where
  "ProcessIncomingWrite env now qp p s = do {
     ctx \<leftarrow> contexts s qp;
     ok \<leftarrow> IsRsnAcceptable ctx (pkt_rsn p);
     let (s1, nack) = (if ok then draw_rnr (write_rnr_draw env) s else (s, True));
     (if nack then rnr_nack env now qp (pkt_rsn p) ctx s1
      else push_to_host env now (pkt_destination_bifurcation_id p) None (Some (ucast (pkt_falcon_payload_length p)))
             (Some (Rx_done (now + ack_nack_latency env) (ctx_scid ctx) (pkt_rsn p) None))
             (put_context qp (accept_rsn ctx) s1))
   }"

definition ProcessIncomingReadRequest :: "rdma_env \<Rightarrow> int \<Rightarrow> QpId \<Rightarrow> rdma_packet \<Rightarrow> 'c rdma \<Rightarrow> 'c rdma option" where
  "ProcessIncomingReadRequest env now qp p s = do {
     ctx \<leftarrow> contexts s qp;
     ok \<leftarrow> IsRsnAcceptable ctx (pkt_rsn p);
     let (s1, nack) = (if ok then draw_rnr (read_rnr_draw env) s else (s, True));
     (if nack \<or> length (inbound_read_request_queue ctx) \<ge> unat (inbound_read_queue_depth env)
      then rnr_nack env now qp (pkt_rsn p) ctx s1
      else schedule now (ack_nack_latency env) (Ack_read qp p) (put_context qp (accept_rsn ctx) s1))
   }"

text \<open>
  The operation a sequence number belongs to has one more packet finished; when all are, the operation is
  taken off the completion queue and its memory is freed. The result is the callback then.
\<close>

definition finish_packet :: "u32 \<Rightarrow> 'c FalconQpContext \<Rightarrow> ('c FalconQpContext \<times> 'c option) option" where
  "finish_packet rsn ctx = do {
     a \<leftarrow> rsn_to_op ctx rsn;
     op \<leftarrow> ops ctx a;
     let op1 = op\<lparr>n_pkt_finished := n_pkt_finished op + 1\<rparr>;
     let ctx1 = ctx\<lparr>ops := (ops ctx)(a \<mapsto> op1)\<rparr>;
     (if n_pkts op1 > 0 \<and> n_pkt_finished op1 = n_pkts op1 then do {
        b \<leftarrow> completion_queue ctx1 (end_psn op1);
        Some (ctx1\<lparr>total_ops_completed := total_ops_completed ctx1 + 1,
            completion_queue := (completion_queue ctx1)(end_psn op1 := None), ops := (ops ctx1)(b := None)\<rparr>,
          Some (completion_callback op1))
      } else Some (ctx1, None))
   }"

definition erase_rsn :: "QpId \<Rightarrow> u32 \<Rightarrow> 'c rdma \<Rightarrow> 'c rdma option" where
  "erase_rsn qp rsn s = do {
     ctx \<leftarrow> contexts s qp;
     Some (put_context qp (ctx\<lparr>rsn_to_op := (rsn_to_op ctx)(rsn := None)\<rparr>) s)
   }"

definition below_ord_limit :: "rdma_env \<Rightarrow> 'c FalconQpContext \<Rightarrow> bool option" where
  "below_ord_limit env ctx =
     (if outbound_read_requests ctx < outbound_read_queue_depth env \<and> send_queue ctx \<noteq> []
      then map_option (\<lambda>op. op_opcode op = V_kRead) (ops ctx (hd (send_queue ctx)))
      else Some False)"

definition ProcessIncomingReadResponse :: "rdma_env \<Rightarrow> int \<Rightarrow> QpId \<Rightarrow> rdma_packet \<Rightarrow> 'c rdma \<Rightarrow> 'c rdma option" where
  "ProcessIncomingReadResponse env now qp p s = do {
     ctx \<leftarrow> contexts s qp;
     (ctx1, done) \<leftarrow> finish_packet (pkt_rsn p) ctx;
     s3 \<leftarrow> (case done of
        Some c \<Rightarrow> do {
          let ctx2 = ctx1\<lparr>outbound_read_requests := outbound_read_requests ctx1 - 1\<rparr>;
          below \<leftarrow> below_ord_limit env ctx2;
          let s1 = put_context qp ctx2 s;
          s2 \<leftarrow> (if below then AddQpToScheduleSet env now qp WT_kRequest s1 else Some s1);
          push_to_host env now (pkt_destination_bifurcation_id p) (Some (Op_done c Syn_kAck))
            (Some (ucast (pkt_falcon_payload_length p))) None s2
        }
      | None \<Rightarrow> push_to_host env now (pkt_destination_bifurcation_id p) None (Some (ucast (pkt_falcon_payload_length p))) None
          (put_context qp ctx1 s));
     erase_rsn qp (pkt_rsn p) s3
   }"

definition ProcessRxTransaction :: "rdma_env \<Rightarrow> int \<Rightarrow> QpId \<Rightarrow> rdma_packet \<Rightarrow> 'c rdma \<Rightarrow> 'c rdma option" where
  "ProcessRxTransaction env now qp p s =
     (case pkt_opcode p of
        Op_kInvalid \<Rightarrow> None
      | Op_kAck \<Rightarrow> None
      | kSendOnly \<Rightarrow> ProcessIncomingSend env now qp p s
      | kWriteOnly \<Rightarrow> ProcessIncomingWrite env now qp p s
      | kReadRequest \<Rightarrow> ProcessIncomingReadRequest env now qp p s
      | kReadResponseOnly \<Rightarrow> ProcessIncomingReadResponse env now qp p s)"

definition ProcessCompletion :: "rdma_env \<Rightarrow> int \<Rightarrow> QpId \<Rightarrow> u32 \<Rightarrow> Syndrome \<Rightarrow> nat \<Rightarrow> 'c rdma \<Rightarrow> 'c rdma option" where
  "ProcessCompletion env now qp rsn syndrome h s = do {
     ctx \<leftarrow> contexts s qp;
     (ctx1, done) \<leftarrow> finish_packet rsn ctx;
     let s1 = put_context qp ctx1 s;
     s2 \<leftarrow> (case done of
        Some c \<Rightarrow> (if enable_pcie_delay_for_completion env then push_to_host env now h (Some (Op_done c syndrome)) None None s1
          else Some (s1\<lparr>called := called s1 @ [(c, syndrome)]\<rparr>))
      | None \<Rightarrow> Some s1);
     erase_rsn qp rsn s2
   }"

section \<open>The pipeline\<close>

definition process_work :: "rdma_env \<Rightarrow> int \<Rightarrow> pipeline_work \<Rightarrow> 'c rdma \<Rightarrow> 'c rdma option" where
  "process_work env now w s =
     (case w of
        Work_completion qp rsn syndrome h \<Rightarrow> ProcessCompletion env now qp rsn syndrome h s
      | Work_packet qp p \<Rightarrow> ProcessRxTransaction env now qp p s)"

definition PipelineDequeue :: "rdma_env \<Rightarrow> int \<Rightarrow> 'c rdma \<Rightarrow> 'c rdma option" where
  "PipelineDequeue env now s =
     (case pipeline s of
        [] \<Rightarrow> Some (s\<lparr>pipeline_active := False\<rparr>)
      | w # _ \<Rightarrow>
        (let next_run_time = pipeline_last_run_time s + Ticks (chip_cycle env) in
         if Ticks now < next_run_time then
           (case next_run_time of Ticks t \<Rightarrow> schedule now (t - now) Pipeline_dequeue s | _ \<Rightarrow> None)
         else do {
           s1 \<leftarrow> process_work env now w (s\<lparr>pipeline_last_run_time := Ticks now\<rparr>);
           schedule now (chip_cycle env) Pipeline_dequeue (s1\<lparr>pipeline := tl (pipeline s1)\<rparr>)
         }))"

definition rdma_enqueue_work :: "rdma_env \<Rightarrow> int \<Rightarrow> pipeline_work \<Rightarrow> 'c rdma \<Rightarrow> 'c rdma option" where
  "rdma_enqueue_work env now w s =
     (let s1 = s\<lparr>pipeline := pipeline s @ [w]\<rparr> in
      if \<not> pipeline_active s1 then PipelineDequeue env now (s1\<lparr>pipeline_active := True\<rparr>) else Some s1)"

definition HandleRxTransaction :: "int \<Rightarrow> rdma_packet \<Rightarrow> 'c rdma \<Rightarrow> 'c rdma option" where
  "HandleRxTransaction now p s = schedule now 0 (Rx_found (pkt_dest_qp_id p) p) s"

definition HandleCompletion :: "int \<Rightarrow> QpId \<Rightarrow> u32 \<Rightarrow> Syndrome \<Rightarrow> nat \<Rightarrow> 'c rdma \<Rightarrow> 'c rdma option" where
  "HandleCompletion now qp rsn syndrome h s = schedule now 0 (Completion_found qp rsn syndrome h) s"

section \<open>Credits and events\<close>

text \<open>A queue pair with work and credits is made active.\<close>

definition wake_qp :: "rdma_env \<Rightarrow> int \<Rightarrow> QpId \<Rightarrow> WorkType \<Rightarrow> 'c rdma \<Rightarrow> 'c rdma option" where
  "wake_qp env now qp wt s = do {
     ctx \<leftarrow> contexts s qp;
     ok \<leftarrow> HasCredits (credit_cfg env) ctx wt;
     (if ok then AddQpToScheduleSet env now qp wt s else Some s)
   }"

definition ReturnFalconCredit :: "rdma_env \<Rightarrow> int \<Rightarrow> QpId \<Rightarrow> FalconCredit \<Rightarrow> 'c rdma \<Rightarrow> 'c rdma option" where
  "ReturnFalconCredit env now qp credit s = do {
     ctx \<leftarrow> contexts s qp;
     check (credit \<le> credit_usage ctx);
     s1 \<leftarrow> wake_qp env now qp WT_kRequest (put_context qp (ctx\<lparr>credit_usage := credit_usage ctx - credit\<rparr>) s);
     s2 \<leftarrow> wake_qp env now qp WT_kResponse s1;
     ReturnFalconCredits env now credit s2
   }"

definition enqueue_response :: "rdma_env \<Rightarrow> int \<Rightarrow> QpId \<Rightarrow> rdma_packet \<Rightarrow> 'c rdma \<Rightarrow> 'c rdma option" where
  "enqueue_response env now qp p s = do {
     ctx \<leftarrow> contexts s qp;
     let ctx1 = ctx\<lparr>inbound_read_request_queue := inbound_read_request_queue ctx @ [\<lparr>irr_rsn = pkt_rsn p, irr_sgl = pkt_sgl p\<rparr>]\<rparr>;
     let s1 = put_context qp ctx1 s;
     (if length (inbound_read_request_queue ctx1) = 1 then do {
        ok \<leftarrow> HasCredits (credit_cfg env) ctx1 WT_kResponse;
        (if ok then AddQpToScheduleSet env now qp WT_kResponse s1 else Some s1)
      } else Some s1)
   }"

fun run_event :: "rdma_env \<Rightarrow> int \<Rightarrow> 'c rdma_event \<Rightarrow> 'c rdma \<Rightarrow> 'c rdma option" where
  "run_event env now (Add_qp qp wt) s = AddQpToScheduleSet env now qp wt s"
| "run_event env now (Readd_qp qp) s = AddQpToScheduleSet env now qp (current_work_type s) s"
| "run_event env now Run_scheduler s = RunWorkScheduler env now s"
| "run_event env now (Qp_found qp) s = SendTransaction env now qp s"
| "run_event env now (Initiate p) s = Some (s\<lparr>falcon_calls := falcon_calls s @ [InitiateTransaction p]\<rparr>)"
| "run_event env now (Post qp op) s = PostOp env now qp op s"
| "run_event env now (Rx_found qp p) s =
     (if contexts s qp = None then None else rdma_enqueue_work env now (Work_packet qp p) s)"
| "run_event env now (Completion_found qp rsn syndrome h) s =
     (if contexts s qp = None then None else rdma_enqueue_work env now (Work_completion qp rsn syndrome h) s)"
| "run_event env now Pipeline_dequeue s = PipelineDequeue env now s"
| "run_event env now (Ack_rnr qp scid rsn) s = do {
     ctx \<leftarrow> contexts s qp;
     Some (s\<lparr>falcon_calls := falcon_calls s @ [AckTransaction scid rsn kRnrNak (rnr_timeout ctx)]\<rparr>)
   }"
| "run_event env now (Ack_done scid rsn c) s = Some (ack_done scid rsn c s)"
| "run_event env now (Ack_read qp p) s = do {
     ctx \<leftarrow> contexts s qp;
     schedule now (response_latency env) (Enqueue_response qp p)
       (s\<lparr>falcon_calls := falcon_calls s @ [AckTransaction (ctx_scid ctx) (pkt_rsn p) Syn_kAck 0]\<rparr>)
   }"
| "run_event env now (Enqueue_response qp p) s = enqueue_response env now qp p s"

section \<open>Histories\<close>

text \<open>What can happen to RDMA: calls of the host and of Falcon, and the events of the environment and of the memory interfaces.\<close>

datatype 'c rdma_action =
    Create_rc_qp QpId QpId u32 FalconCredit RdmaConnectedMode
  | Perform_op QpId RdmaVerb "u32 list" bool 'c QpId
  | Rx_transaction rdma_packet
  | Falcon_completion QpId u32 Syndrome nat
  | Return_credit QpId FalconCredit
  | Set_xoff bool bool
  | Rdma_event "'c rdma_event"
  | Host_event nat "'c pcie_done mem_event"

fun rdma_step :: "rdma_env \<Rightarrow> int \<Rightarrow> 'c rdma_action \<Rightarrow> 'c rdma \<Rightarrow> 'c rdma option" where
  "rdma_step env now (Create_rc_qp l r scid c mode) s = CreateRcQp env l r scid c mode s"
| "rdma_step env now (Perform_op qp opcode sgl is_inline c dest) s = PerformOp env now qp opcode sgl is_inline c dest s"
| "rdma_step env now (Rx_transaction p) s = HandleRxTransaction now p s"
| "rdma_step env now (Falcon_completion qp rsn syndrome h) s = HandleCompletion now qp rsn syndrome h s"
| "rdma_step env now (Return_credit qp c) s = ReturnFalconCredit env now qp c s"
| "rdma_step env now (Set_xoff r g) s = sched_SetXoff env now r g s"
| "rdma_step env now (Rdma_event e) s =
     (if (now, e) \<in> set (rdma_events s) then run_event env now e (s\<lparr>rdma_events := remove1 (now, e) (rdma_events s)\<rparr>) else None)"
| "rdma_step env now (Host_event h e) s =
     (if h < length (hosts s) \<and> (now, e) \<in> set (mem_events (hosts s ! h)) then host_event env now h e s else None)"

text \<open>Time goes on, and never past an event.\<close>

definition may_happen_at :: "'c rdma \<Rightarrow> int \<Rightarrow> bool" where
  "may_happen_at s t \<longleftrightarrow> list_all (\<lambda>(u, e). t \<le> u) (rdma_events s) \<and> list_all (\<lambda>p. list_all (\<lambda>(u, e). t \<le> u) (mem_events p)) (hosts s)"

inductive rdma_reach :: "rdma_env \<Rightarrow> 'c rdma \<Rightarrow> 'c rdma_action list \<Rightarrow> int \<Rightarrow> 'c rdma \<Rightarrow> bool" for env s0 where
  start: "rdma_reach env s0 [] 0 s0"
| act: "rdma_reach env s0 acts now s \<Longrightarrow> now \<le> t \<Longrightarrow> may_happen_at s t \<Longrightarrow> rdma_step env t a s = Some s' \<Longrightarrow>
    rdma_reach env s0 (acts @ [a]) t s'"

text \<open>A schedule run as a function.\<close>

fun rdma_run :: "rdma_env \<Rightarrow> int \<Rightarrow> (int \<times> 'c rdma_action) list \<Rightarrow> 'c rdma \<Rightarrow> (int \<times> 'c rdma) option" where
  "rdma_run env now [] s = Some (now, s)"
| "rdma_run env now ((t, a) # as) s = do {
     check (now \<le> t \<and> may_happen_at s t);
     s1 \<leftarrow> rdma_step env t a s;
     rdma_run env t as s1
   }"

lemma rdma_run_reach:
  assumes "rdma_reach env s0 acts now s" "rdma_run env now as s = Some (now', s')"
  shows "rdma_reach env s0 (acts @ map snd as) now' s'"
  using assms
proof (induction as arbitrary: acts now s)
  case (Cons a as)
  obtain t b where a: "a = (t, b)" by (cases a)
  obtain s1 where "now \<le> t" "may_happen_at s t" "rdma_step env t b s = Some s1" "rdma_run env t as s1 = Some (now', s')"
    using Cons.prems(2) by (auto simp: a split: bind_splits if_splits)
  then have "rdma_reach env s0 ((acts @ [b]) @ map snd as) now' s'"
    using Cons.IH rdma_reach.act [OF Cons.prems(1)] by blast
  then show ?case by (simp add: a)
qed simp

end
