(* ===== verification/Rdma_Frames.thy ===== *)
theory Rdma_Frames
  imports Rdma_Falcon
begin

text \<open>
  What the operations of RDMA leave alone. The fields are grouped: \<open>sched_part\<close> those of the work scheduler,
  \<open>io_part\<close> those of the pipeline, the receive buffers and the logs. Every operation only appends events, and the
  lemmas say of which kind.
\<close>

definition sched_part where
  "sched_part s = (request_wqs s, response_wqs s, request_qp_set s, response_qp_set s, request_xoff s, global_xoff s,
     is_idle s, remaining_quanta_bytes s, remaining_quanta_ops s, current_work_type s, last_scheduler_run_time s,
     remaining_global_credits s, rdma_token_bucket s)"

definition io_part where
  "io_part s = (pipeline s, pipeline_active s, pipeline_last_run_time s, hosts s, called s, rnr_draws s, falcon_calls s)"

fun run_kind :: "'c rdma_event \<Rightarrow> bool" where
  "run_kind Run_scheduler = True"
| "run_kind (Qp_found _) = True"
| "run_kind _ = False"

fun sched_kind :: "'c rdma_event \<Rightarrow> bool" where
  "sched_kind Run_scheduler = True"
| "sched_kind (Qp_found _) = True"
| "sched_kind (Add_qp _ _) = True"
| "sched_kind (Readd_qp _) = True"
| "sched_kind (Initiate _) = True"
| "sched_kind _ = False"

lemma run_sched_kind: "run_kind e \<Longrightarrow> sched_kind e"
  by (cases e) auto

text \<open>\<open>s'\<close> has the events of \<open>s\<close> and then some that satisfy \<open>P\<close>, none of them overdue.\<close>

definition events_grow :: "int \<Rightarrow> ('c rdma_event \<Rightarrow> bool) \<Rightarrow> 'c rdma \<Rightarrow> 'c rdma \<Rightarrow> bool" where
  "events_grow now P s s' \<longleftrightarrow> (\<exists>es. rdma_events s' = rdma_events s @ es \<and> (\<forall>(t, e) \<in> set es. P e \<and> now \<le> t))"

lemma events_grow_refl [simp]: "rdma_events s' = rdma_events s \<Longrightarrow> events_grow now P s s'"
  by (simp add: events_grow_def)

lemma events_grow_trans:
  "events_grow now P s s1 \<Longrightarrow> events_grow now P s1 s2 \<Longrightarrow> events_grow now P s s2"
  unfolding events_grow_def by (auto 4 3)

lemma events_grow_mono:
  "events_grow now P s s' \<Longrightarrow> (\<And>e. P e \<Longrightarrow> Q e) \<Longrightarrow> events_grow now Q s s'"
  unfolding events_grow_def by blast

lemma schedule_Some_iff:
  "schedule now d e s = Some s' \<longleftrightarrow> 0 \<le> d \<and> s' = s\<lparr>rdma_events := rdma_events s @ [(now + d, e)]\<rparr>"
  by (auto simp: schedule_def)

lemma schedule_grow:
  "schedule now d e s = Some s' \<Longrightarrow> P e \<Longrightarrow> events_grow now P s s'"
  by (auto simp: schedule_Some_iff events_grow_def)

lemma schedule_frame:
  assumes "schedule now d e s = Some s'"
  shows "contexts s' = contexts s" "sched_part s' = sched_part s" "io_part s' = io_part s"
  using assms by (simp_all add: schedule_Some_iff sched_part_def io_part_def)

section \<open>The scheduler\<close>

lemma choose_work_frame:
  assumes "choose_work env now s = Some s'"
  shows "contexts s' = contexts s" "io_part s' = io_part s" "remaining_global_credits s' = remaining_global_credits s"
    "request_wqs s' = request_wqs s" "response_wqs s' = response_wqs s" "request_qp_set s' = request_qp_set s"
    "response_qp_set s' = response_qp_set s" "events_grow now run_kind s s'"
    "request_xoff s' = request_xoff s" "global_xoff s' = global_xoff s" "last_scheduler_run_time s' = last_scheduler_run_time s"
  using assms unfolding choose_work_def Let_def io_part_def events_grow_def
  by (auto simp: schedule_Some_iff split: if_splits)

lemma RunWorkScheduler_frame:
  assumes "RunWorkScheduler env now s = Some s'"
  shows "contexts s' = contexts s" "io_part s' = io_part s" "remaining_global_credits s' = remaining_global_credits s"
    "request_wqs s' = request_wqs s" "response_wqs s' = response_wqs s" "request_qp_set s' = request_qp_set s"
    "response_qp_set s' = response_qp_set s" "events_grow now run_kind s s'"
    "request_xoff s' = request_xoff s" "global_xoff s' = global_xoff s" "last_scheduler_run_time s' = last_scheduler_run_time s"
proof -
  let ?s1 = "s\<lparr>is_idle := False\<rparr>"
  consider d where "schedule now d Run_scheduler ?s1 = Some s'"
    | b d where "schedule now d Run_scheduler (?s1\<lparr>rdma_token_bucket := b\<rparr>) = Some s'"
    | b where "choose_work env now (?s1\<lparr>rdma_token_bucket := b\<rparr>) = Some s'"
    using assms unfolding RunWorkScheduler_def Let_def
    by (auto split: if_splits bind_splits prod.splits)
  then have "contexts s' = contexts s \<and> io_part s' = io_part s \<and> remaining_global_credits s' = remaining_global_credits s \<and>
    request_wqs s' = request_wqs s \<and> response_wqs s' = response_wqs s \<and> request_qp_set s' = request_qp_set s \<and>
    response_qp_set s' = response_qp_set s \<and> events_grow now run_kind s s' \<and>
    request_xoff s' = request_xoff s \<and> global_xoff s' = global_xoff s \<and> last_scheduler_run_time s' = last_scheduler_run_time s"
  proof cases
    case 1
    then show ?thesis by (simp add: schedule_Some_iff io_part_def events_grow_def)
  next
    case (2 b d)
    then show ?thesis by (simp add: schedule_Some_iff io_part_def events_grow_def)
  next
    case (3 b)
    show ?thesis using choose_work_frame [OF 3] by (simp add: io_part_def events_grow_def)
  qed
  then show "contexts s' = contexts s" "io_part s' = io_part s" "remaining_global_credits s' = remaining_global_credits s"
    "request_wqs s' = request_wqs s" "response_wqs s' = response_wqs s" "request_qp_set s' = request_qp_set s"
    "response_qp_set s' = response_qp_set s" "events_grow now run_kind s s'"
    "request_xoff s' = request_xoff s" "global_xoff s' = global_xoff s" "last_scheduler_run_time s' = last_scheduler_run_time s"
    by simp_all
qed

lemma AddQpToScheduleSet_cases:
  assumes "AddQpToScheduleSet env now qp wt s = Some s'"
  obtains
    (later) d where "schedule now d (Add_qp qp wt) s = Some s'"
  | (same) "s' = s"
  | (added) s1 where "s1 = (if wt = WT_kRequest
               then s\<lparr>request_wqs := request_wqs s @ [qp], request_qp_set := insert qp (request_qp_set s)\<rparr>
               else s\<lparr>response_wqs := response_wqs s @ [qp], response_qp_set := insert qp (response_qp_set s)\<rparr>)"
      "(if is_idle s then RunWorkScheduler env now s1 else Some s1) = Some s'"
      "\<exists>ctx. contexts s qp = Some ctx \<and> HasCredits (credit_cfg env) ctx wt = Some True"
      "qp \<notin> (if wt = WT_kRequest then request_qp_set s else response_qp_set s)"
proof -
  let ?s1 = "if wt = WT_kRequest
               then s\<lparr>request_wqs := request_wqs s @ [qp], request_qp_set := insert qp (request_qp_set s)\<rparr>
               else s\<lparr>response_wqs := response_wqs s @ [qp], response_qp_set := insert qp (response_qp_set s)\<rparr>"
  obtain ctx where ctx: "contexts s qp = Some ctx" using assms by (auto simp: AddQpToScheduleSet_def split: bind_splits)
  show ?thesis
  proof (cases "next_schedule_time ctx > now")
    case True
    then show ?thesis using assms ctx later by (auto simp: AddQpToScheduleSet_def)
  next
    case False
    then obtain h where h: "HasCredits (credit_cfg env) ctx wt = Some h"
      using assms ctx by (auto simp: AddQpToScheduleSet_def split: bind_splits)
    show ?thesis
    proof (cases "\<not> h \<or> qp \<in> (if wt = WT_kRequest then request_qp_set s else response_qp_set s)")
      case True
      then show ?thesis using assms ctx h False same by (auto simp: AddQpToScheduleSet_def split: if_splits)
    next
      case new: False
      then have "(if is_idle ?s1 then RunWorkScheduler env now ?s1 else Some ?s1) = Some s'"
        using assms ctx h False by (simp add: AddQpToScheduleSet_def Let_def)
      moreover have "is_idle ?s1 = is_idle s" by simp
      ultimately show ?thesis using added [of ?s1] ctx h new by simp
    qed
  qed
qed

lemma AddQpToScheduleSet_frame:
  assumes "AddQpToScheduleSet env now qp wt s = Some s'"
  shows "contexts s' = contexts s" "io_part s' = io_part s" "remaining_global_credits s' = remaining_global_credits s"
    "request_xoff s' = request_xoff s" "global_xoff s' = global_xoff s" "events_grow now sched_kind s s'"
proof -
  from assms have "contexts s' = contexts s \<and> io_part s' = io_part s \<and> remaining_global_credits s' = remaining_global_credits s \<and>
    request_xoff s' = request_xoff s \<and> global_xoff s' = global_xoff s \<and> events_grow now sched_kind s s'"
  proof (cases rule: AddQpToScheduleSet_cases)
    case (later d)
    then show ?thesis by (simp add: schedule_Some_iff io_part_def events_grow_def)
  next
    case (added s1)
    have e: "contexts s1 = contexts s" "io_part s1 = io_part s" "remaining_global_credits s1 = remaining_global_credits s"
      "request_xoff s1 = request_xoff s" "global_xoff s1 = global_xoff s" "rdma_events s1 = rdma_events s"
      by (simp_all add: added(1) io_part_def)
    show ?thesis
    proof (cases "is_idle s")
      case True
      then have r: "RunWorkScheduler env now s1 = Some s'" using added(2) by simp
      show ?thesis using RunWorkScheduler_frame [OF r] e events_grow_mono [OF RunWorkScheduler_frame(8) [OF r] run_sched_kind]
        by (simp add: events_grow_def)
    next
      case False
      then show ?thesis using added(2) e by simp
    qed
  qed simp
  then show "contexts s' = contexts s" "io_part s' = io_part s" "remaining_global_credits s' = remaining_global_credits s"
    "request_xoff s' = request_xoff s" "global_xoff s' = global_xoff s" "events_grow now sched_kind s s'" by simp_all
qed

section \<open>Operations that leave credits and the scheduler alone\<close>

text \<open>The credits in use of every queue pair.\<close>

definition usage_of :: "'c rdma \<Rightarrow> QpId \<Rightarrow> FalconCredit option" where
  "usage_of s = (\<lambda>q. map_option credit_usage (contexts s q))"

definition neutral :: "int \<Rightarrow> 'c rdma \<Rightarrow> 'c rdma \<Rightarrow> bool" where
  "neutral now s s' \<longleftrightarrow> sched_part s' = sched_part s \<and> usage_of s' = usage_of s \<and> events_grow now (\<lambda>e. \<not> sched_kind e) s s'"

text \<open>Neutral changes and queue pairs made active, in any order.\<close>

inductive quiet :: "rdma_env \<Rightarrow> int \<Rightarrow> 'c rdma \<Rightarrow> 'c rdma \<Rightarrow> bool" for env now where
  quiet_refl [intro, simp]: "quiet env now s s"
| quiet_neutral: "quiet env now s s1 \<Longrightarrow> neutral now s1 s2 \<Longrightarrow> quiet env now s s2"
| quiet_add: "quiet env now s s1 \<Longrightarrow> AddQpToScheduleSet env now qp wt s1 = Some s2 \<Longrightarrow> quiet env now s s2"

lemma quiet_trans: "quiet env now s1 s2 \<Longrightarrow> quiet env now s s1 \<Longrightarrow> quiet env now s s2"
  by (induction rule: quiet.induct) (auto intro: quiet_neutral quiet_add)

lemma neutral_quiet: "neutral now s s' \<Longrightarrow> quiet env now s s'"
  by (rule quiet_neutral [OF quiet_refl])

lemma add_quiet: "AddQpToScheduleSet env now qp wt s = Some s' \<Longrightarrow> quiet env now s s'"
  by (rule quiet_add [OF quiet_refl])

lemma neutral_trans: "neutral now s s1 \<Longrightarrow> neutral now s1 s2 \<Longrightarrow> neutral now s s2"
  unfolding neutral_def using events_grow_trans by auto

lemma neutral_schedule:
  assumes "schedule now d e s = Some s'" "\<not> sched_kind e"
  shows "neutral now s s'"
  using schedule_frame [OF assms(1)] schedule_grow [OF assms(1), of "\<lambda>e. \<not> sched_kind e"] assms(2)
  by (simp add: neutral_def usage_of_def)

lemma neutral_put_context:
  assumes "contexts s qp = Some ctx" "credit_usage ctx' = credit_usage ctx"
  shows "neutral now s (put_context qp ctx' s)"
  using assms by (auto simp: neutral_def usage_of_def put_context_def sched_part_def fun_eq_iff)

lemma put_context_simps [simp]:
  "contexts (put_context qp ctx s) = (contexts s)(qp \<mapsto> ctx)" "rdma_events (put_context qp ctx s) = rdma_events s"
  "hosts (put_context qp ctx s) = hosts s" "falcon_calls (put_context qp ctx s) = falcon_calls s"
  "called (put_context qp ctx s) = called s" "pipeline (put_context qp ctx s) = pipeline s"
  by (simp_all add: put_context_def)

lemma neutral_run_transfer:
  assumes "run_transfer now r s = Some s'"
  shows "neutral now s s'" "contexts s' = contexts s" "hosts s' = hosts s" "pipeline s' = pipeline s"
proof -
  obtain ack_time scid rsn c where r: "r = Rx_done ack_time scid rsn c" by (cases r)
  have "neutral now s s' \<and> contexts s' = contexts s \<and> hosts s' = hosts s \<and> pipeline s' = pipeline s"
  proof (cases "now < ack_time")
    case True
    then have e: "schedule now (ack_time - now) (Ack_done scid rsn c) s = Some s'" using assms by (simp add: r)
    show ?thesis using neutral_schedule [OF e] schedule_frame [OF e] by (simp add: io_part_def)
  next
    case False
    then show ?thesis using assms by (auto simp: r ack_done_def neutral_def usage_of_def sched_part_def)
  qed
  then show "neutral now s s'" "contexts s' = contexts s" "hosts s' = hosts s" "pipeline s' = pipeline s" by simp_all
qed

lemma neutral_run_transfer_list:
  "run_transfer_list now rs s = Some s' \<Longrightarrow>
    neutral now s s' \<and> contexts s' = contexts s \<and> hosts s' = hosts s \<and> pipeline s' = pipeline s"
proof (induction rs arbitrary: s)
  case Nil
  then show ?case by (simp add: neutral_def)
next
  case (Cons r rs)
  then obtain s1 where "run_transfer now r s = Some s1" "run_transfer_list now rs s1 = Some s'"
    by (auto split: bind_splits)
  then show ?case using Cons.IH neutral_run_transfer neutral_trans by metis
qed

lemma neutral_hosts [simp]: "neutral now s (s\<lparr>hosts := hs\<rparr>)"
  by (simp add: neutral_def usage_of_def sched_part_def)

lemma neutral_run_transfers:
  assumes "run_transfers now h s = Some s'"
  shows "neutral now s s'" "contexts s' = contexts s" "pipeline s' = pipeline s"
proof -
  let ?s = "s\<lparr>hosts := (hosts s)[h := (hosts s ! h)\<lparr>transfers := []\<rparr>]\<rparr>"
  have "run_transfer_list now (transfers (hosts s ! h)) ?s = Some s'" using assms by (simp add: run_transfers_def)
  from neutral_run_transfer_list [OF this]
  show "neutral now s s'" "contexts s' = contexts s" "pipeline s' = pipeline s"
    using neutral_trans [OF neutral_hosts] by auto
qed

lemma neutral_push_to_host:
  assumes "push_to_host env now h c payload r s = Some s'"
  shows "neutral now s s'" "contexts s' = contexts s" "pipeline s' = pipeline s"
proof -
  obtain hs where "run_transfers now h (s\<lparr>hosts := hs\<rparr>) = Some s'"
    using assms by (auto simp: push_to_host_def split: bind_splits)
  from neutral_run_transfers [OF this]
  show "neutral now s s'" "contexts s' = contexts s" "pipeline s' = pipeline s"
    using neutral_trans [OF neutral_hosts] by auto
qed

lemma neutral_host_event:
  assumes "host_event env now h e s = Some s'"
  shows "neutral now s s'" "contexts s' = contexts s" "pipeline s' = pipeline s"
proof -
  obtain p s1 where s1: "run_transfers now h (s\<lparr>hosts := (hosts s)[h := p]\<rparr>) = Some s1"
    "s' = (case e of Transmit_complete \<Rightarrow> s1
       | Memory_callback d \<Rightarrow> (case d of Op_done c syndrome \<Rightarrow> s1\<lparr>called := called s1 @ [(c, syndrome)]\<rparr>))"
    using assms by (auto simp: host_event_def split: bind_splits if_splits)
  have c: "neutral now s1 s' \<and> contexts s' = contexts s1 \<and> pipeline s' = pipeline s1"
    using s1(2) by (auto simp: neutral_def usage_of_def sched_part_def split: mem_event.splits pcie_done.splits)
  show "neutral now s s'" "contexts s' = contexts s" "pipeline s' = pipeline s"
    using neutral_run_transfers [OF s1(1)] c
      neutral_trans [OF neutral_trans [OF neutral_hosts neutral_run_transfers(1) [OF s1(1)]]] by auto
qed

text \<open>The parts of the queue pair a step may change without touching its credits.\<close>

lemma credit_usage_steps [simp]:
  "credit_usage (EnterRnrState ctx) = credit_usage ctx"
  "credit_usage (accept_rsn ctx) = credit_usage ctx"
  "ctx_scid (accept_rsn ctx) = ctx_scid ctx" "ctx_scid (EnterRnrState ctx) = ctx_scid ctx"
  "receive_queue (accept_rsn ctx) = receive_queue ctx"
  by (simp_all add: EnterRnrState_def accept_rsn_def LeaveRnrState_def UpdateNextRsnToReceive_def)

lemma match_receive_usage:
  "match_receive env p ctx = Some (ctx', m, e) \<Longrightarrow> credit_usage ctx' = credit_usage ctx"
  by (auto simp: match_receive_def Let_def split: list.splits bind_splits if_splits prod.splits)

lemma finish_packet_usage:
  "finish_packet rsn ctx = Some (ctx', d) \<Longrightarrow> credit_usage ctx' = credit_usage ctx"
  by (auto simp: finish_packet_def Let_def split: bind_splits if_splits)

lemma base_PostOp_usage:
  "base_PostOp op ctx = Some ctx' \<Longrightarrow> credit_usage ctx' = credit_usage ctx"
  by (auto simp: base_PostOp_def Let_def split: bind_splits if_splits)

lemma quiet_add_if:
  assumes "quiet env now s s1" "(if b then AddQpToScheduleSet env now qp wt s1 else Some s1) = Some s2"
  shows "quiet env now s s2"
  using assms quiet_add by (cases b) auto

lemma quiet_PostOp:
  assumes "PostOp env now qp op s = Some s'"
  shows "quiet env now s s'"
proof -
  obtain ctx ctx1 where c: "contexts s qp = Some ctx" "base_PostOp op ctx = Some ctx1"
    using assms by (auto simp: PostOp_def split: bind_splits)
  have q: "quiet env now s (put_context qp ctx1 s)"
    by (rule neutral_quiet [OF neutral_put_context [OF c(1) base_PostOp_usage [OF c(2)]]])
  have "\<exists>b. (if b then AddQpToScheduleSet env now qp WT_kRequest (put_context qp ctx1 s) else Some (put_context qp ctx1 s)) = Some s'"
    using assms c by (auto simp: PostOp_def Let_def split: bind_splits if_splits intro: exI [of _ True] exI [of _ False])
  then show ?thesis using quiet_add_if [OF q] by blast
qed

lemma quiet_rnr_nack:
  assumes "rnr_nack env now qp rsn ctx s = Some s'" "contexts s qp = Some ctx0" "credit_usage ctx = credit_usage ctx0"
  shows "neutral now s s'"
proof -
  have e: "schedule now (ack_nack_latency env) (Ack_rnr qp (ctx_scid ctx) rsn) (put_context qp (EnterRnrState ctx) s) = Some s'"
    using assms(1) by (simp add: rnr_nack_def)
  show ?thesis
    using neutral_trans [OF neutral_put_context [OF assms(2)] neutral_schedule [OF e]] assms(3) by simp
qed

lemma neutral_draw [simp]: "neutral now s (s\<lparr>rnr_draws := n\<rparr>)"
  by (simp add: neutral_def usage_of_def sched_part_def)

lemma quiet_ProcessIncomingSend:
  assumes "ProcessIncomingSend env now qp p s = Some s'"
  shows "quiet env now s s'"
proof -
  obtain ctx ctx1 m e where c: "contexts s qp = Some ctx" "match_receive env p ctx = Some (ctx1, m, e)"
    using assms by (auto simp: ProcessIncomingSend_def split: bind_splits if_splits)
  note u = match_receive_usage [OF c(2)]
  show ?thesis
  proof (cases m)
    case False
    then have "rnr_nack env now qp (pkt_rsn p) ctx1 s = Some s'"
      using assms c by (simp add: ProcessIncomingSend_def split: if_splits)
    then show ?thesis using quiet_rnr_nack [OF _ c(1)] u neutral_quiet by blast
  next
    case True
    then obtain ctx3 c' pl r where p: "push_to_host env now (pkt_destination_bifurcation_id p) c' pl r (put_context qp ctx3 s) = Some s'"
      "credit_usage ctx3 = credit_usage ctx"
      using assms c u by (cases e) (auto simp: ProcessIncomingSend_def Let_def split: if_splits)
    show ?thesis
      by (rule neutral_quiet [OF neutral_trans [OF neutral_put_context [OF c(1) p(2)] neutral_push_to_host(1) [OF p(1)]]])
  qed
qed

lemma quiet_ProcessIncomingWrite:
  assumes "ProcessIncomingWrite env now qp p s = Some s'"
  shows "quiet env now s s'"
proof -
  obtain ctx ok where c: "contexts s qp = Some ctx" "IsRsnAcceptable ctx (pkt_rsn p) = Some ok"
    using assms by (auto simp: ProcessIncomingWrite_def split: bind_splits)
  obtain s1 nack where n: "(if ok then draw_rnr (write_rnr_draw env) s else (s, True)) = (s1, nack)"
    by (meson surj_pair)
  then have s1: "neutral now s s1" "contexts s1 = contexts s"
    by (auto simp: draw_rnr_def neutral_def split: if_splits) (simp_all add: usage_of_def sched_part_def)
  show ?thesis
  proof (cases nack)
    case True
    then have "rnr_nack env now qp (pkt_rsn p) ctx s1 = Some s'"
      using assms c n by (simp add: ProcessIncomingWrite_def)
    then have "neutral now s1 s'" using quiet_rnr_nack c(1) s1(2) by metis
    then show ?thesis using neutral_quiet neutral_trans [OF s1(1)] by blast
  next
    case False
    then obtain c' pl r where p: "push_to_host env now (pkt_destination_bifurcation_id p) c' pl r (put_context qp (accept_rsn ctx) s1) = Some s'"
      using assms c n by (auto simp: ProcessIncomingWrite_def)
    have "contexts s1 qp = Some ctx" using c(1) s1(2) by simp
    then show ?thesis
      using neutral_quiet neutral_trans [OF s1(1) neutral_trans [OF neutral_put_context neutral_push_to_host(1) [OF p]]] by simp
  qed
qed

lemma quiet_ProcessIncomingReadRequest:
  assumes "ProcessIncomingReadRequest env now qp p s = Some s'"
  shows "quiet env now s s'"
proof -
  obtain ctx ok where c: "contexts s qp = Some ctx" "IsRsnAcceptable ctx (pkt_rsn p) = Some ok"
    using assms by (auto simp: ProcessIncomingReadRequest_def split: bind_splits)
  obtain s1 nack where n: "(if ok then draw_rnr (read_rnr_draw env) s else (s, True)) = (s1, nack)"
    by (meson surj_pair)
  then have s1: "neutral now s s1" "contexts s1 = contexts s"
    by (auto simp: draw_rnr_def neutral_def split: if_splits) (simp_all add: usage_of_def sched_part_def)
  have c1: "contexts s1 qp = Some ctx" using c(1) s1(2) by simp
  show ?thesis
  proof (cases "nack \<or> length (inbound_read_request_queue ctx) \<ge> unat (inbound_read_queue_depth env)")
    case True
    then have "rnr_nack env now qp (pkt_rsn p) ctx s1 = Some s'"
      using assms c n by (simp add: ProcessIncomingReadRequest_def)
    then have "neutral now s1 s'" using quiet_rnr_nack c1 by metis
    then show ?thesis using neutral_quiet neutral_trans [OF s1(1)] by blast
  next
    case False
    then have e: "schedule now (ack_nack_latency env) (Ack_read qp p) (put_context qp (accept_rsn ctx) s1) = Some s'"
      using assms c n by (auto simp: ProcessIncomingReadRequest_def)
    show ?thesis
      using neutral_quiet neutral_trans [OF s1(1) neutral_trans [OF neutral_put_context [OF c1] neutral_schedule [OF e]]] by simp
  qed
qed

lemma quiet_erase_rsn:
  assumes "erase_rsn qp rsn s = Some s'"
  shows "quiet env now s s'"
  using assms neutral_put_context [of s qp] by (auto simp: erase_rsn_def intro!: neutral_quiet split: bind_splits)

lemma quiet_ProcessIncomingReadResponse:
  assumes "ProcessIncomingReadResponse env now qp p s = Some s'"
  shows "quiet env now s s'"
proof -
  obtain ctx ctx1 fin s3 where c: "contexts s qp = Some ctx" "finish_packet (pkt_rsn p) ctx = Some (ctx1, fin)"
    and s3: "erase_rsn qp (pkt_rsn p) s3 = Some s'"
      "(case fin of
        Some c \<Rightarrow> do {
          let ctx2 = ctx1\<lparr>outbound_read_requests := outbound_read_requests ctx1 - 1\<rparr>;
          below \<leftarrow> below_ord_limit env ctx2;
          let s1 = put_context qp ctx2 s;
          s2 \<leftarrow> (if below then AddQpToScheduleSet env now qp WT_kRequest s1 else Some s1);
          push_to_host env now (pkt_destination_bifurcation_id p) (Some (Op_done c Syn_kAck))
            (Some (ucast (pkt_falcon_payload_length p))) None s2
        }
      | None \<Rightarrow> push_to_host env now (pkt_destination_bifurcation_id p) None (Some (ucast (pkt_falcon_payload_length p))) None
          (put_context qp ctx1 s)) = Some s3"
    using assms unfolding ProcessIncomingReadResponse_def by (auto split: bind_splits)
  note u = finish_packet_usage [OF c(2)]
  have "quiet env now s s3"
  proof (cases fin)
    case None
    then have "push_to_host env now (pkt_destination_bifurcation_id p) None (Some (ucast (pkt_falcon_payload_length p))) None
          (put_context qp ctx1 s) = Some s3" using s3(2) by simp
    then show ?thesis using neutral_quiet neutral_trans [OF neutral_put_context [OF c(1) u]] neutral_push_to_host(1) by blast
  next
    case (Some c')
    let ?s1 = "put_context qp (ctx1\<lparr>outbound_read_requests := outbound_read_requests ctx1 - 1\<rparr>) s"
    have q: "quiet env now s ?s1" by (rule neutral_quiet [OF neutral_put_context [OF c(1)]]) (simp add: u)
    from Some s3(2) obtain b s2 where "(if b then AddQpToScheduleSet env now qp WT_kRequest ?s1 else Some ?s1) = Some s2"
      "push_to_host env now (pkt_destination_bifurcation_id p) (Some (Op_done c' Syn_kAck))
         (Some (ucast (pkt_falcon_payload_length p))) None s2 = Some s3"
      by (auto simp: Let_def split: bind_splits)
    then show ?thesis using quiet_neutral [OF quiet_add_if [OF q]] neutral_push_to_host(1) by blast
  qed
  then show ?thesis using quiet_trans [OF quiet_erase_rsn [OF s3(1)]] by blast
qed

lemma quiet_ProcessCompletion:
  assumes "ProcessCompletion env now qp rsn syndrome h s = Some s'"
  shows "quiet env now s s'"
proof -
  obtain ctx ctx1 fin s2 where c: "contexts s qp = Some ctx" "finish_packet rsn ctx = Some (ctx1, fin)"
    and s2: "erase_rsn qp rsn s2 = Some s'"
      "(case fin of
        Some c \<Rightarrow> (if enable_pcie_delay_for_completion env
          then push_to_host env now h (Some (Op_done c syndrome)) None None (put_context qp ctx1 s)
          else Some ((put_context qp ctx1 s)\<lparr>called := called (put_context qp ctx1 s) @ [(c, syndrome)]\<rparr>))
      | None \<Rightarrow> Some (put_context qp ctx1 s)) = Some s2"
    using assms unfolding ProcessCompletion_def Let_def by (auto split: bind_splits)
  have n: "neutral now s (put_context qp ctx1 s)"
    by (rule neutral_put_context [OF c(1) finish_packet_usage [OF c(2)]])
  have "neutral now s1 (s1\<lparr>called := x\<rparr>)" for s1 :: "'a rdma" and x
    by (simp add: neutral_def usage_of_def sched_part_def)
  then have "neutral now (put_context qp ctx1 s) s2 \<or> s2 = put_context qp ctx1 s"
    using s2(2) neutral_push_to_host(1) by (cases fin) (auto split: if_splits)
  then have "quiet env now s s2" using n neutral_trans [OF n] neutral_quiet by blast
  then show ?thesis using quiet_trans [OF quiet_erase_rsn [OF s2(1)]] by blast
qed

lemma quiet_process_work:
  assumes "process_work env now w s = Some s'"
  shows "quiet env now s s'"
proof (cases w)
  case (Work_packet qp p)
  then show ?thesis
    using assms quiet_ProcessIncomingSend quiet_ProcessIncomingWrite quiet_ProcessIncomingReadRequest
      quiet_ProcessIncomingReadResponse
    by (cases "pkt_opcode p") (auto simp: process_work_def ProcessRxTransaction_def)
qed (use assms quiet_ProcessCompletion in \<open>auto simp: process_work_def\<close>)

lemma neutral_pipeline [simp]:
  "neutral now s (s\<lparr>pipeline := w\<rparr>)" "neutral now s (s\<lparr>pipeline_active := b\<rparr>)"
  "neutral now s (s\<lparr>pipeline_last_run_time := d\<rparr>)" "neutral now s (s\<lparr>pipeline := w, pipeline_active := b\<rparr>)"
  "neutral now s (s\<lparr>falcon_calls := l\<rparr>)" "neutral now s (s\<lparr>falcon_calls := l, called := k\<rparr>)"
  by (simp_all add: neutral_def usage_of_def sched_part_def)

lemma quiet_PipelineDequeue:
  assumes "PipelineDequeue env now s = Some s'"
  shows "quiet env now s s'"
proof (cases "pipeline s")
  case Nil
  then show ?thesis using assms by (auto simp: PipelineDequeue_def intro: neutral_quiet)
next
  case (Cons w ws)
  let ?next = "pipeline_last_run_time s + Ticks (chip_cycle env)"
  show ?thesis
  proof (cases "Ticks now < ?next")
    case True
    then obtain t where e: "schedule now (t - now) Pipeline_dequeue s = Some s'"
      using assms Cons by (auto simp: PipelineDequeue_def Let_def split: duration.splits)
    show ?thesis by (rule neutral_quiet [OF neutral_schedule [OF e]]) simp
  next
    case False
    then obtain s1 where s1: "process_work env now w (s\<lparr>pipeline_last_run_time := Ticks now\<rparr>) = Some s1"
      "schedule now (chip_cycle env) Pipeline_dequeue (s1\<lparr>pipeline := tl (pipeline s1)\<rparr>) = Some s'"
      using assms Cons by (auto simp: PipelineDequeue_def Let_def split: bind_splits)
    have "quiet env now s s1"
      by (rule quiet_trans [OF quiet_process_work [OF s1(1)] neutral_quiet]) simp
    moreover have "neutral now s1 s'"
      by (rule neutral_trans [OF neutral_pipeline(1) neutral_schedule [OF s1(2)]]) simp
    ultimately show ?thesis by (rule quiet_neutral)
  qed
qed

lemma quiet_enqueue_work:
  assumes "rdma_enqueue_work env now w s = Some s'"
  shows "quiet env now s s'"
  using assms quiet_trans [OF quiet_PipelineDequeue neutral_quiet [OF neutral_pipeline(4)]]
  by (auto simp: rdma_enqueue_work_def Let_def intro: neutral_quiet split: if_splits)

lemma quiet_enqueue_response:
  assumes "enqueue_response env now qp p s = Some s'"
  shows "quiet env now s s'"
proof -
  obtain ctx where c: "contexts s qp = Some ctx" using assms by (auto simp: enqueue_response_def split: bind_splits)
  let ?s1 = "put_context qp (ctx\<lparr>inbound_read_request_queue := inbound_read_request_queue ctx @ [\<lparr>irr_rsn = pkt_rsn p, irr_sgl = pkt_sgl p\<rparr>]\<rparr>) s"
  have q: "quiet env now s ?s1" by (rule neutral_quiet [OF neutral_put_context [OF c]]) simp
  have "\<exists>b. (if b then AddQpToScheduleSet env now qp WT_kResponse ?s1 else Some ?s1) = Some s'"
    using assms c by (auto simp: enqueue_response_def Let_def split: bind_splits if_splits intro: exI [of _ True] exI [of _ False])
  then show ?thesis using quiet_add_if [OF q] by blast
qed

lemma quiet_wake_qp:
  assumes "wake_qp env now qp wt s = Some s'"
  shows "quiet env now s s'"
  using assms add_quiet by (auto simp: wake_qp_def split: bind_splits if_splits)

lemma quiet_run_event:
  assumes "run_event env now e s = Some s'" "\<not> run_kind e"
  shows "quiet env now s s'"
proof (cases e)
  case (Add_qp qp wt)
  then show ?thesis using assms(1) by (auto intro: add_quiet)
next
  case (Readd_qp qp)
  then show ?thesis using assms(1) by (auto intro: add_quiet)
next
  case (Initiate p)
  then show ?thesis using assms(1) by (auto intro: neutral_quiet)
next
  case (Post qp op)
  then show ?thesis using assms(1) by (auto intro: quiet_PostOp)
next
  case (Rx_found qp p)
  then show ?thesis using assms(1) by (auto intro: quiet_enqueue_work split: if_splits)
next
  case (Completion_found qp rsn syndrome h)
  then show ?thesis using assms(1) by (auto intro: quiet_enqueue_work split: if_splits)
next
  case Pipeline_dequeue
  then show ?thesis using assms(1) by (auto intro: quiet_PipelineDequeue)
next
  case (Ack_rnr qp scid rsn)
  then show ?thesis using assms(1) by (auto intro: neutral_quiet split: bind_splits)
next
  case (Ack_done scid rsn c)
  then show ?thesis using assms(1) by (auto simp: ack_done_def intro: neutral_quiet)
next
  case (Ack_read qp p)
  then obtain l where "schedule now (response_latency env) (Enqueue_response qp p) (s\<lparr>falcon_calls := l\<rparr>) = Some s'"
    using assms(1) by (auto split: bind_splits)
  from neutral_schedule [OF this] show ?thesis using neutral_quiet [OF neutral_trans [OF neutral_pipeline(5)]] by simp
next
  case (Enqueue_response qp p)
  then show ?thesis using assms(1) by (auto intro: quiet_enqueue_response)
qed (use assms in auto)

section \<open>The kinds of steps\<close>

text \<open>
  Apart from creating a queue pair, a step is quiet, or it is one of the scheduler: running it, sending a
  transaction, credits coming back and the change of a pause.
\<close>

lemma rdma_step_cases:
  assumes "rdma_step env now a s = Some s'"
  obtains
    (create) l r scid c mode where "a = Create_rc_qp l r scid c mode" "CreateRcQp env l r scid c mode s = Some s'"
  | (calm) "quiet env now s s'"
  | (calm_event) e where "a = Rdma_event e" "\<not> run_kind e" "(now, e) \<in> set (rdma_events s)"
      "quiet env now (s\<lparr>rdma_events := remove1 (now, e) (rdma_events s)\<rparr>) s'"
  | (run) "(now, Run_scheduler) \<in> set (rdma_events s)"
      "RunWorkScheduler env now (s\<lparr>rdma_events := remove1 (now, Run_scheduler) (rdma_events s)\<rparr>) = Some s'"
  | (send) qp where "a = Rdma_event (Qp_found qp)" "(now, Qp_found qp) \<in> set (rdma_events s)"
      "SendTransaction env now qp (s\<lparr>rdma_events := remove1 (now, Qp_found qp) (rdma_events s)\<rparr>) = Some s'"
  | (return_credit) qp c where "a = Return_credit qp c" "ReturnFalconCredit env now qp c s = Some s'"
  | (xoff) r g where "a = Set_xoff r g" "sched_SetXoff env now r g s = Some s'"
proof (cases a)
  case (Rdma_event e)
  let ?s = "s\<lparr>rdma_events := remove1 (now, e) (rdma_events s)\<rparr>"
  have e: "(now, e) \<in> set (rdma_events s)" "run_event env now e ?s = Some s'"
    using assms by (auto simp: Rdma_event split: if_splits)
  show ?thesis
  proof (cases "run_kind e")
    case True
    then show ?thesis using e run send Rdma_event by (cases e) auto
  next
    case False
    then show ?thesis using calm_event [OF Rdma_event False e(1) quiet_run_event [OF e(2) False]] by blast
  qed
next
  case (Perform_op qp opcode sgl is_inline c dest)
  then obtain op where "schedule now 0 (Post qp op) s = Some s'"
    using assms by (auto simp: PerformOp_def split: bind_splits if_splits)
  from calm [OF neutral_quiet [OF neutral_schedule [OF this]]] show ?thesis by simp
next
  case (Rx_transaction p)
  then obtain e where "schedule now 0 e s = Some s'" "\<not> sched_kind e" using assms by (auto simp: HandleRxTransaction_def)
  from calm [OF neutral_quiet [OF neutral_schedule [OF this]]] show ?thesis .
next
  case (Falcon_completion qp rsn syndrome h)
  then obtain e where "schedule now 0 e s = Some s'" "\<not> sched_kind e" using assms by (auto simp: HandleCompletion_def)
  from calm [OF neutral_quiet [OF neutral_schedule [OF this]]] show ?thesis .
next
  case (Host_event h e)
  then have "host_event env now h e s = Some s'" using assms by (auto split: if_splits)
  from calm [OF neutral_quiet [OF neutral_host_event(1) [OF this]]] show ?thesis .
qed (use assms create return_credit xoff in auto)

end
