(* ===== verification/Rdma_Credits.thy ===== *)
theory Rdma_Credits
  imports Rdma_Frames
begin

text \<open>
  Invariants of RDMA over Falcon that the scheduler keeps: the credits of Falcon are conserved, and the scheduler
  is idle only when there is nothing it may send and otherwise has exactly one continuation pending.
\<close>

section \<open>The effect of the scheduler's own steps\<close>

lemma quiet_usage:
  assumes "quiet env now s s'"
  shows "usage_of s' = usage_of s" "remaining_global_credits s' = remaining_global_credits s"
    "request_xoff s' = request_xoff s" "global_xoff s' = global_xoff s"
proof -
  from assms have "usage_of s' = usage_of s \<and> remaining_global_credits s' = remaining_global_credits s \<and>
    request_xoff s' = request_xoff s \<and> global_xoff s' = global_xoff s"
  proof induction
    case (quiet_neutral s s1 s2)
    then show ?case by (simp add: neutral_def sched_part_def)
  next
    case (quiet_add s s1 qp wt s2)
    then show ?case using AddQpToScheduleSet_frame [OF quiet_add.hyps(2)] by (simp add: usage_of_def)
  qed simp
  then show "usage_of s' = usage_of s" "remaining_global_credits s' = remaining_global_credits s"
    "request_xoff s' = request_xoff s" "global_xoff s' = global_xoff s" by auto
qed

lemma io_part_updates [simp]:
  "io_part (s\<lparr>request_qp_set := x, request_wqs := l\<rparr>) = io_part s" "io_part (s\<lparr>request_wqs := l, request_qp_set := x\<rparr>) = io_part s"
  "io_part (s\<lparr>response_wqs := l, response_qp_set := x\<rparr>) = io_part s"
  by (simp_all add: io_part_def)

lemma UpdateWorkType_frame [simp]:
  "contexts (UpdateWorkType env s) = contexts s" "rdma_events (UpdateWorkType env s) = rdma_events s"
  "remaining_global_credits (UpdateWorkType env s) = remaining_global_credits s" "is_idle (UpdateWorkType env s) = is_idle s"
  "request_wqs (UpdateWorkType env s) = request_wqs s" "response_wqs (UpdateWorkType env s) = response_wqs s"
  "request_qp_set (UpdateWorkType env s) = request_qp_set s" "response_qp_set (UpdateWorkType env s) = response_qp_set s"
  "io_part (UpdateWorkType env s) = io_part s" "remaining_quanta_bytes (UpdateWorkType env s) = remaining_quanta_bytes s"
  "remaining_quanta_ops (UpdateWorkType env s) = remaining_quanta_ops s"
  "last_scheduler_run_time (UpdateWorkType env s) = last_scheduler_run_time s"
  "rdma_token_bucket (UpdateWorkType env s) = rdma_token_bucket s"
  by (simp_all add: UpdateWorkType_def io_part_def split: WorkType.split)

lemma reset_quanta_frame [simp]:
  "contexts (reset_quanta s) = contexts s" "rdma_events (reset_quanta s) = rdma_events s"
  "remaining_global_credits (reset_quanta s) = remaining_global_credits s" "is_idle (reset_quanta s) = is_idle s"
  "request_wqs (reset_quanta s) = request_wqs s" "response_wqs (reset_quanta s) = response_wqs s"
  "request_qp_set (reset_quanta s) = request_qp_set s" "response_qp_set (reset_quanta s) = response_qp_set s"
  "io_part (reset_quanta s) = io_part s" "current_work_type (reset_quanta s) = current_work_type s"
  "last_scheduler_run_time (reset_quanta s) = last_scheduler_run_time s"
  by (simp_all add: reset_quanta_def io_part_def)

lemma schedule_simps:
  assumes "schedule now d e s = Some s'"
  shows "contexts s' = contexts s" "rdma_events s' = rdma_events s @ [(now + d, e)]" "0 \<le> d" "io_part s' = io_part s"
    "remaining_global_credits s' = remaining_global_credits s" "is_idle s' = is_idle s" "request_wqs s' = request_wqs s"
    "response_wqs s' = response_wqs s" "request_qp_set s' = request_qp_set s" "response_qp_set s' = response_qp_set s"
    "current_work_type s' = current_work_type s" "last_scheduler_run_time s' = last_scheduler_run_time s"
    "remaining_quanta_bytes s' = remaining_quanta_bytes s" "remaining_quanta_ops s' = remaining_quanta_ops s"
  using assms by (simp_all add: schedule_Some_iff io_part_def)

lemma remove_over_ord_frame:
  assumes "remove_over_ord env now qp s = Some s'"
  shows "contexts s' = contexts s" "remaining_global_credits s' = remaining_global_credits s" "is_idle s' = is_idle s"
    "io_part s' = io_part s" "rdma_events s' = rdma_events s @ [(now + chip_cycle env, Run_scheduler)]" "0 \<le> chip_cycle env"
proof -
  obtain s1 where s1: "schedule now (chip_cycle env) Run_scheduler
       (s\<lparr>request_qp_set := request_qp_set s - {qp}, request_wqs := tl (request_wqs s)\<rparr>) = Some s1"
    "s' = UpdateWorkType env (reset_quanta s1)"
    using assms by (auto simp: remove_over_ord_def split: bind_splits if_splits)
  show "contexts s' = contexts s" "remaining_global_credits s' = remaining_global_credits s" "is_idle s' = is_idle s"
    "io_part s' = io_part s" "rdma_events s' = rdma_events s @ [(now + chip_cycle env, Run_scheduler)]" "0 \<le> chip_cycle env"
    using schedule_simps [OF s1(1)] by (simp_all add: s1(2))
qed

lemma next_work_frame:
  assumes "next_work env now qp ctx s = Some s'"
  shows "contexts s' = contexts s" "remaining_global_credits s' = remaining_global_credits s" "is_idle s' = is_idle s"
    "io_part s' = io_part s" "0 \<le> chip_cycle env"
    "\<exists>es. rdma_events s' = rdma_events s @ es @ [(now + chip_cycle env, Run_scheduler)] \<and>
       (\<forall>(t, e) \<in> set es. e = Readd_qp qp \<and> now \<le> t)"
proof -
  let ?P = "\<lambda>s'. contexts s' = contexts s \<and> remaining_global_credits s' = remaining_global_credits s \<and> is_idle s' = is_idle s \<and>
    io_part s' = io_part s \<and> 0 \<le> chip_cycle env \<and>
    (\<exists>es. rdma_events s' = rdma_events s @ es @ [(now + chip_cycle env, Run_scheduler)] \<and>
       (\<forall>(t, e) \<in> set es. e = Readd_qp qp \<and> now \<le> t))"
  let ?wt = "current_work_type s"
  obtain h where h: "HasCredits (credit_cfg env) ctx ?wt = Some h"
    using assms by (auto simp: next_work_def Let_def split: bind_splits)
  have "?P s'"
  proof (cases "(remaining_quanta_bytes s ?wt > 0 \<and> remaining_quanta_ops s ?wt > 0) \<and> h")
    case True
    then have "schedule now (chip_cycle env) Run_scheduler s = Some s'" using assms h by (simp add: next_work_def Let_def)
    from schedule_simps [OF this] show ?thesis by auto
  next
    case False
    let ?s1 = "if ?wt = WT_kRequest
            then s\<lparr>request_wqs := tl (request_wqs s), request_qp_set := request_qp_set s - {qp}\<rparr>
            else s\<lparr>response_wqs := tl (response_wqs s), response_qp_set := response_qp_set s - {qp}\<rparr>"
    obtain s2 where s2: "(if h then schedule now (next_schedule_time ctx - now) (Readd_qp qp) ?s1 else Some ?s1) = Some s2"
      "schedule now (chip_cycle env) Run_scheduler (UpdateWorkType env (reset_quanta s2)) = Some s'"
      using assms h False by (auto simp: next_work_def Let_def split: bind_splits if_splits)
    have s1: "contexts ?s1 = contexts s" "remaining_global_credits ?s1 = remaining_global_credits s" "is_idle ?s1 = is_idle s"
      "io_part ?s1 = io_part s" "rdma_events ?s1 = rdma_events s" by (simp_all add: io_part_def)
    show ?thesis
    proof (cases h)
      case True
      then have r: "schedule now (next_schedule_time ctx - now) (Readd_qp qp) ?s1 = Some s2" using s2(1) by simp
      show ?thesis using schedule_simps [OF r] schedule_simps [OF s2(2)] s1
        by (auto intro!: exI [of _ "[(next_schedule_time ctx, Readd_qp qp)]"])
    next
      case False
      then show ?thesis using schedule_simps [OF s2(2)] s1 s2(1) by auto
    qed
  qed
  then show "contexts s' = contexts s" "remaining_global_credits s' = remaining_global_credits s" "is_idle s' = is_idle s"
    "io_part s' = io_part s" "0 \<le> chip_cycle env"
    "\<exists>es. rdma_events s' = rdma_events s @ es @ [(now + chip_cycle env, Run_scheduler)] \<and>
       (\<forall>(t, e) \<in> set es. e = Readd_qp qp \<and> now \<le> t)" by blast+
qed

lemma create_packet_usage:
  assumes "create_packet env wt ctx = Some (ctx1, p, credit, q)"
  shows "credit_usage ctx1 = credit_usage ctx"
  using assms
  by (cases wt) (auto simp: create_packet_def CreateRequestPacket_def place_packet_def CreateResponsePacket_def Let_def
      split: bind_splits if_splits list.splits prod.splits option.splits)

lemma account_packet_frame:
  assumes "account_packet env now qp ctx p credit q s = Some s'"
  obtains ctx1 where "contexts s' = (contexts s)(qp \<mapsto> ctx1)" "credit_usage ctx1 = credit_usage ctx + credit"
    "remaining_global_credits s' = remaining_global_credits s - credit" "is_idle s' = is_idle s" "io_part s' = io_part s"
    "current_work_type s' = current_work_type s" "request_wqs s' = request_wqs s" "response_wqs s' = response_wqs s"
    "request_qp_set s' = request_qp_set s" "response_qp_set s' = response_qp_set s"
    "rdma_events s' = rdma_events s @ [(now + scheduler_pipeline_delay_time env, Initiate p)]"
    "0 \<le> scheduler_pipeline_delay_time env" "last_scheduler_run_time s' = now"
    "ctx1 = ctx\<lparr>credit_usage := credit_usage ctx1, outbound_read_requests := outbound_read_requests ctx1,
       next_schedule_time := next_schedule_time ctx1\<rparr>"
    "outbound_read_requests ctx1 = (if pkt_opcode p = kReadRequest then outbound_read_requests ctx + 1
           else outbound_read_requests ctx)"
proof -
  obtain b where b: "RequestTokens (ucast (if pkt_opcode p = kReadRequest then pkt_data_length p else pkt_request_length p))
      (rdma_token_bucket s) = Some b"
    using assms by (auto simp: account_packet_def Let_def split: bind_splits)
  show ?thesis
    using assms b by (intro that [of "ctx\<lparr>credit_usage := credit_usage ctx + credit,
         outbound_read_requests := (if pkt_opcode p = kReadRequest then outbound_read_requests ctx + 1
           else outbound_read_requests ctx),
         next_schedule_time := (if next_schedule_time ctx \<le> now then now + per_qp_inter_op_gap env
           else next_schedule_time ctx + per_qp_inter_op_gap env)\<rparr>"])
      (auto simp: account_packet_def Let_def schedule_Some_iff io_part_def)
qed

lemma SendTransaction_frame:
  assumes "SendTransaction env now qp s = Some s'"
  obtains ctx ctx1 p credit q ctx2 where "contexts s qp = Some ctx"
    "create_packet env (current_work_type s) ctx = Some (ctx1, p, credit, q)"
    "contexts s' = (contexts s)(qp \<mapsto> ctx2)" "credit_usage ctx2 = credit_usage ctx + credit"
    "ctx2 = ctx1\<lparr>credit_usage := credit_usage ctx2, outbound_read_requests := outbound_read_requests ctx2,
       next_schedule_time := next_schedule_time ctx2\<rparr>"
    "outbound_read_requests ctx2 = (if pkt_opcode p = kReadRequest then outbound_read_requests ctx1 + 1
           else outbound_read_requests ctx1)"
    "remaining_global_credits s' = remaining_global_credits s - credit" "is_idle s' = is_idle s" "io_part s' = io_part s"
    "\<exists>es. rdma_events s' = rdma_events s @ (now + scheduler_pipeline_delay_time env, Initiate p) # es @ [(now + chip_cycle env, Run_scheduler)] \<and>
       (\<forall>(t, e) \<in> set es. e = Readd_qp qp \<and> now \<le> t)"
    "0 \<le> chip_cycle env" "0 \<le> scheduler_pipeline_delay_time env"
proof -
  obtain ctx where c: "contexts s qp = Some ctx" using assms by (auto simp: SendTransaction_def split: bind_splits)
  then obtain ctx1 p credit q s1 where p: "create_packet env (current_work_type s) ctx = Some (ctx1, p, credit, q)"
    "account_packet env now qp ctx1 p credit q s = Some s1"
    using assms by (auto simp: SendTransaction_def split: bind_splits)
  from account_packet_frame [OF p(2)] obtain ctx2 where a: "contexts s1 = (contexts s)(qp \<mapsto> ctx2)"
    "credit_usage ctx2 = credit_usage ctx1 + credit" "remaining_global_credits s1 = remaining_global_credits s - credit"
    "is_idle s1 = is_idle s" "io_part s1 = io_part s"
    "rdma_events s1 = rdma_events s @ [(now + scheduler_pipeline_delay_time env, Initiate p)]"
    "0 \<le> scheduler_pipeline_delay_time env"
    "ctx2 = ctx1\<lparr>credit_usage := credit_usage ctx2, outbound_read_requests := outbound_read_requests ctx2,
       next_schedule_time := next_schedule_time ctx2\<rparr>"
    "outbound_read_requests ctx2 = (if pkt_opcode p = kReadRequest then outbound_read_requests ctx1 + 1
           else outbound_read_requests ctx1)" by metis
  obtain over where o: "(if over then remove_over_ord env now qp s1 else next_work env now qp ctx2 s1) = Some s'"
    using assms c p a(1) by (auto simp: SendTransaction_def split: bind_splits)
  have u: "credit_usage ctx2 = credit_usage ctx + credit" using a(2) create_packet_usage [OF p(1)] by simp
  show ?thesis
  proof (cases over)
    case True
    then have "remove_over_ord env now qp s1 = Some s'" using o by simp
    note r = remove_over_ord_frame [OF this]
    show ?thesis by (rule that [OF c p(1) _ u a(8,9)]) (use r a in auto)
  next
    case False
    then have "next_work env now qp ctx2 s1 = Some s'" using o by simp
    note r = next_work_frame [OF this]
    show ?thesis by (rule that [OF c p(1) _ u a(8,9)]) (use r a in auto)
  qed
qed

section \<open>Credits are conserved\<close>

definition credits_held :: "'c rdma \<Rightarrow> FalconCredit" where
  "credits_held s = (\<Sum>q \<in> dom (usage_of s). the (usage_of s q))"

lemma dom_usage_of: "dom (usage_of s) = dom (contexts s)"
  by (auto simp: usage_of_def dom_def)

lemma sum_the_update:
  fixes u :: "'q \<Rightarrow> 'a :: ab_group_add option"
  assumes "finite (dom u)"
  shows "(\<Sum>q \<in> dom (u(k \<mapsto> x)). the ((u(k \<mapsto> x)) q)) =
    (\<Sum>q \<in> dom u. the (u q)) + (x - (case u k of None \<Rightarrow> 0 | Some y \<Rightarrow> y))"
proof -
  have "(\<Sum>q \<in> dom (u(k \<mapsto> x)). the ((u(k \<mapsto> x)) q)) = x + (\<Sum>q \<in> dom u - {k}. the ((u(k \<mapsto> x)) q))"
    using sum.insert_remove [OF assms, of "\<lambda>q. the ((u(k \<mapsto> x)) q)" k] by simp
  also have "(\<Sum>q \<in> dom u - {k}. the ((u(k \<mapsto> x)) q)) = (\<Sum>q \<in> dom u - {k}. the (u q))"
    by (rule sum.cong) auto
  also have "\<dots> = (\<Sum>q \<in> dom u. the (u q)) - (case u k of None \<Rightarrow> 0 | Some y \<Rightarrow> y)"
  proof (cases "u k")
    case None
    then have "k \<notin> dom u" by (simp add: domIff)
    then show ?thesis using None by simp
  next
    case (Some y)
    then have "k \<in> dom u" by auto
    then show ?thesis using Some assms by (simp add: sum.remove)
  qed
  finally show ?thesis by (simp only: algebra_simps)
qed

lemma usage_of_upd: "contexts s' = (contexts s)(qp \<mapsto> ctx) \<Longrightarrow> usage_of s' = (usage_of s)(qp \<mapsto> credit_usage ctx)"
  by (auto simp: usage_of_def fun_eq_iff)

definition balance :: "'c rdma \<Rightarrow> FalconCredit" where
  "balance s = remaining_global_credits s + credits_held s"

text \<open>The credits a queue pair is created with, for those given explicitly.\<close>

fun initial_of :: "'c rdma_action \<Rightarrow> FalconCredit" where
  "initial_of (Create_rc_qp _ _ _ c _) = c"
| "initial_of _ = 0"

lemma ReturnFalconCredits_frame:
  assumes "ReturnFalconCredits env now c s = Some s'"
  shows "contexts s' = contexts s" "io_part s' = io_part s" "remaining_global_credits s' = remaining_global_credits s + c"
    "request_xoff s' = request_xoff s" "global_xoff s' = global_xoff s" "events_grow now run_kind s s'"
proof -
  let ?s1 = "s\<lparr>remaining_global_credits := remaining_global_credits s + c\<rparr>"
  have "RunWorkScheduler env now ?s1 = Some s' \<or> s' = ?s1"
    using assms by (auto simp: ReturnFalconCredits_def Let_def split: if_splits)
  then have "contexts s' = contexts s \<and> io_part s' = io_part s \<and> remaining_global_credits s' = remaining_global_credits s + c \<and>
    request_xoff s' = request_xoff s \<and> global_xoff s' = global_xoff s \<and> events_grow now run_kind s s'"
  proof
    assume r: "RunWorkScheduler env now ?s1 = Some s'"
    show ?thesis using RunWorkScheduler_frame [OF r] by (simp add: io_part_def events_grow_def)
  qed (simp add: io_part_def)
  then show "contexts s' = contexts s" "io_part s' = io_part s" "remaining_global_credits s' = remaining_global_credits s + c"
    "request_xoff s' = request_xoff s" "global_xoff s' = global_xoff s" "events_grow now run_kind s s'" by blast+
qed

lemma sched_SetXoff_frame:
  assumes "sched_SetXoff env now r g s = Some s'"
  shows "contexts s' = contexts s" "io_part s' = io_part s" "remaining_global_credits s' = remaining_global_credits s"
    "events_grow now run_kind s s'"
proof -
  let ?s1 = "s\<lparr>request_xoff := r, global_xoff := g\<rparr>"
  have "RunWorkScheduler env now ?s1 = Some s' \<or> s' = ?s1"
    using assms by (auto simp: sched_SetXoff_def Let_def split: if_splits)
  then have "contexts s' = contexts s \<and> io_part s' = io_part s \<and> remaining_global_credits s' = remaining_global_credits s \<and>
    events_grow now run_kind s s'"
  proof
    assume r: "RunWorkScheduler env now ?s1 = Some s'"
    show ?thesis using RunWorkScheduler_frame [OF r] by (simp add: io_part_def events_grow_def)
  qed (simp add: io_part_def)
  then show "contexts s' = contexts s" "io_part s' = io_part s" "remaining_global_credits s' = remaining_global_credits s"
    "events_grow now run_kind s s'" by blast+
qed

lemma ReturnFalconCredit_cases:
  assumes "ReturnFalconCredit env now qp c s = Some s'"
  obtains ctx s1 s2 where "contexts s qp = Some ctx" "c \<le> credit_usage ctx"
    "s1 = put_context qp (ctx\<lparr>credit_usage := credit_usage ctx - c\<rparr>) s" "quiet env now s1 s2"
    "ReturnFalconCredits env now c s2 = Some s'"
proof -
  obtain ctx where ctx: "contexts s qp = Some ctx" "c \<le> credit_usage ctx"
    using assms by (auto simp: ReturnFalconCredit_def split: bind_splits if_splits)
  let ?s1 = "put_context qp (ctx\<lparr>credit_usage := credit_usage ctx - c\<rparr>) s"
  obtain s2 s3 where s: "wake_qp env now qp WT_kRequest ?s1 = Some s2" "wake_qp env now qp WT_kResponse s2 = Some s3"
    "ReturnFalconCredits env now c s3 = Some s'"
    using assms ctx by (auto simp: ReturnFalconCredit_def split: bind_splits)
  have "quiet env now ?s1 s3" by (rule quiet_trans [OF quiet_wake_qp [OF s(2)] quiet_wake_qp [OF s(1)]])
  then show ?thesis using that ctx s(3) by blast
qed

lemma CreateRcQp_cases:
  assumes "CreateRcQp env l r scid c mode s = Some s'"
  obtains ctx where "l \<noteq> kInvalidQpId" "r \<noteq> kInvalidQpId" "contexts s l = None"
    "ctx = (InitializeQpContext env l scid c)\<lparr>rc_mode := mode, ctx_dest_qp_id := r\<rparr>"
    "s' = s\<lparr>contexts := (contexts s)(l \<mapsto> ctx), falcon_calls := falcon_calls s @
       [SetupNewQp scid l (if mode = kOrderedRc then kOrdered else kUnordered)]\<rparr>"
proof -
  have n: "l \<noteq> kInvalidQpId" "r \<noteq> kInvalidQpId" "contexts s l = None"
    using assms by (auto simp: CreateRcQp_def CreateQp_def ConnectQp_def InitializeQpContext_def split: bind_splits if_splits)
  then show ?thesis
    using assms by (intro that) (auto simp: CreateRcQp_def CreateQp_def ConnectQp_def InitializeQpContext_def)
qed

lemma balance_update:
  assumes "usage_of s' = (usage_of s)(qp \<mapsto> u + c)" "remaining_global_credits s' = remaining_global_credits s + g"
    "(case usage_of s qp of None \<Rightarrow> 0 | Some y \<Rightarrow> y) = u" "finite (dom (contexts s))"
  shows "balance s' = balance s + (c + g) \<and> finite (dom (contexts s'))"
proof -
  have "finite (dom (usage_of s))" using assms(4) by (simp add: dom_usage_of)
  note sum_the_update [OF this, of qp "u + c"]
  then have "credits_held s' = credits_held s + c" using assms(1,3) by (simp add: credits_held_def)
  moreover have "finite (dom (contexts s'))" using assms(1,4) by (simp add: dom_usage_of [symmetric])
  ultimately show ?thesis using assms(2) by (simp add: balance_def algebra_simps)
qed

lemma send_balance:
  assumes "SendTransaction env now qp s = Some s'" "finite (dom (contexts s))"
  shows "balance s' = balance s \<and> finite (dom (contexts s'))"
proof (rule SendTransaction_frame [OF assms(1)])
  fix ctx ctx1 p credit q ctx2
  assume c: "contexts s qp = Some ctx" "contexts s' = (contexts s)(qp \<mapsto> ctx2)" "credit_usage ctx2 = credit_usage ctx + credit"
    "remaining_global_credits s' = remaining_global_credits s - credit"
  have "balance s' = balance s + (credit + (- credit)) \<and> finite (dom (contexts s'))"
    by (rule balance_update [of s' s qp "credit_usage ctx"])
      (use c usage_of_upd [OF c(2)] assms(2) in \<open>simp_all add: usage_of_def\<close>)
  then show ?thesis by simp
qed

lemma return_balance:
  assumes "ReturnFalconCredit env now qp c s = Some s'" "finite (dom (contexts s))"
  shows "balance s' = balance s \<and> finite (dom (contexts s'))"
proof (rule ReturnFalconCredit_cases [OF assms(1)])
  fix ctx s1 s2
  assume r: "contexts s qp = Some ctx" "s1 = put_context qp (ctx\<lparr>credit_usage := credit_usage ctx - c\<rparr>) s"
    "quiet env now s1 s2" "ReturnFalconCredits env now c s2 = Some s'"
  have "contexts s1 = (contexts s)(qp \<mapsto> ctx\<lparr>credit_usage := credit_usage ctx - c\<rparr>)" using r(2) by simp
  from usage_of_upd [OF this] have u: "usage_of s' = (usage_of s)(qp \<mapsto> credit_usage ctx + (- c))"
    using quiet_usage(1) [OF r(3)] ReturnFalconCredits_frame(1) [OF r(4)] by (simp add: usage_of_def)
  have g: "remaining_global_credits s' = remaining_global_credits s + c"
    using quiet_usage(2) [OF r(3)] ReturnFalconCredits_frame(3) [OF r(4)] r(2) by (simp add: put_context_def)
  have "balance s' = balance s + ((- c) + c) \<and> finite (dom (contexts s'))"
    by (rule balance_update [OF u g _ assms(2)]) (simp add: usage_of_def r(1))
  then show ?thesis by simp
qed

lemma create_balance:
  assumes "CreateRcQp env l r scid c mode s = Some s'" "finite (dom (contexts s))"
  shows "balance s' = balance s + c \<and> finite (dom (contexts s'))"
proof (rule CreateRcQp_cases [OF assms(1)])
  fix ctx
  assume x: "contexts s l = None" "ctx = (InitializeQpContext env l scid c)\<lparr>rc_mode := mode, ctx_dest_qp_id := r\<rparr>"
    "s' = s\<lparr>contexts := (contexts s)(l \<mapsto> ctx), falcon_calls := falcon_calls s @
       [SetupNewQp scid l (if mode = kOrderedRc then kOrdered else kUnordered)]\<rparr>"
  have "credit_usage ctx = c" by (auto simp: x(2) InitializeQpContext_def FalconCredit_IsInitialized_iff)
  moreover have "contexts s' = (contexts s)(l \<mapsto> ctx)" by (simp add: x(3))
  then have "usage_of s' = (usage_of s)(l \<mapsto> credit_usage ctx)" by (rule usage_of_upd)
  ultimately have u: "usage_of s' = (usage_of s)(l \<mapsto> 0 + c)" by simp
  have "balance s' = balance s + (c + 0) \<and> finite (dom (contexts s'))"
    by (rule balance_update [OF u _ _ assms(2)]) (simp_all add: usage_of_def x(1,3))
  then show ?thesis by simp
qed

lemma balance_cong:
  "usage_of s' = usage_of s \<Longrightarrow> remaining_global_credits s' = remaining_global_credits s \<Longrightarrow>
    balance s' = balance s \<and> dom (contexts s') = dom (contexts s)"
  by (simp add: balance_def credits_held_def dom_usage_of [symmetric])

lemma balance_events [simp]: "balance (s\<lparr>rdma_events := es\<rparr>) = balance s"
  by (simp add: balance_def credits_held_def usage_of_def)

lemma step_balance:
  assumes "rdma_step env now a s = Some s'" "finite (dom (contexts s))"
  shows "balance s' = balance s + initial_of a \<and> finite (dom (contexts s'))"
proof -
  have "balance s' = balance s \<and> finite (dom (contexts s'))" if r: "\<forall>l r scid c m. a \<noteq> Create_rc_qp l r scid c m"
    using assms(1)
  proof (cases rule: rdma_step_cases)
    case calm
    show ?thesis using balance_cong [OF quiet_usage(1,2) [OF calm]] assms(2) by simp
  next
    case (calm_event e)
    show ?thesis using balance_cong [OF quiet_usage(1,2) [OF calm_event(4)]] assms(2) by simp
  next
    case run
    have "usage_of s' = usage_of s" using RunWorkScheduler_frame(1) [OF run(2)] by (simp add: usage_of_def)
    from balance_cong [OF this] show ?thesis using RunWorkScheduler_frame(3) [OF run(2)] assms(2) by simp
  next
    case (xoff r g)
    have "usage_of s' = usage_of s" using sched_SetXoff_frame(1) [OF xoff(2)] by (simp add: usage_of_def)
    from balance_cong [OF this sched_SetXoff_frame(3) [OF xoff(2)]] show ?thesis using assms(2) by simp
  next
    case (send qp)
    show ?thesis using send_balance [OF send(3)] assms(2) by simp
  next
    case (return_credit qp c)
    show ?thesis using return_balance [OF return_credit(2) assms(2)] .
  qed (use r in auto)
  moreover have "balance s' = balance s + initial_of a \<and> finite (dom (contexts s'))"
    if "a = Create_rc_qp l r scid c m" for l r scid c m
    using create_balance [of env l r scid c m s s'] assms by (simp add: that)
  ultimately show ?thesis by (cases a) simp_all
qed

lemma reach_balance:
  assumes "rdma_reach env s0 acts now s" "finite (dom (contexts s0))"
  shows "balance s = balance s0 + (\<Sum>a \<leftarrow> acts. initial_of a) \<and> finite (dom (contexts s))"
  using assms(1)
proof induction
  case start
  then show ?case using assms(2) by simp
next
  case (act acts now s t a s')
  then show ?case using step_balance [OF act.hyps(4)] by (simp add: add.assoc)
qed

end
