(* ===== verification/Rdma_Wakeup.thy ===== *)
theory Rdma_Wakeup
  imports Rdma_Credits
begin

text \<open>
  The work scheduler of RDMA never sleeps through work: it is idle only when the pauses, the lists and the credits
  of Falcon leave it nothing to send, and otherwise exactly one of its continuations is pending.
\<close>

definition run_events :: "'c rdma \<Rightarrow> (int \<times> 'c rdma_event) list" where
  "run_events s = filter (\<lambda>x. run_kind (snd x)) (rdma_events s)"

definition wake_inv :: "rdma_env \<Rightarrow> 'c rdma \<Rightarrow> bool" where
  "wake_inv env s \<longleftrightarrow> (if is_idle s then run_events s = [] \<and> \<not> CanSendRequest env s \<and> \<not> CanSendResponse env s
     else length (run_events s) = 1)"

text \<open>What the two tests read.\<close>

lemma CanSend_cong:
  assumes "request_xoff s' = request_xoff s" "global_xoff s' = global_xoff s" "request_wqs s' = request_wqs s"
    "response_wqs s' = response_wqs s" "remaining_global_credits s' = remaining_global_credits s"
  shows "CanSendRequest env s' = CanSendRequest env s" "CanSendResponse env s' = CanSendResponse env s"
  using assms by (simp_all add: CanSendRequest_def CanSendResponse_def)

lemma wake_inv_cong:
  assumes "wake_inv env s" "is_idle s' = is_idle s" "run_events s' = run_events s"
    "request_xoff s' = request_xoff s" "global_xoff s' = global_xoff s" "request_wqs s' = request_wqs s"
    "response_wqs s' = response_wqs s" "remaining_global_credits s' = remaining_global_credits s"
  shows "wake_inv env s'"
  using assms CanSend_cong [of s' s env] by (simp add: wake_inv_def)

lemma run_events_schedule:
  "schedule now d e s = Some s' \<Longrightarrow> run_events s' = run_events s @ (if run_kind e then [(now + d, e)] else [])"
  by (auto simp: schedule_Some_iff run_events_def)

lemma choose_work_wakes:
  assumes "choose_work env now s = Some s'" "\<not> is_idle s" "run_events s = []"
  shows "wake_inv env s'"
proof (cases "CanSendRequest env s \<or> CanSendResponse env s")
  case False
  then have "s' = s\<lparr>is_idle := True\<rparr>" using assms(1) by (simp add: choose_work_def Let_def)
  then show ?thesis using False assms(3)
    by (simp add: wake_inv_def run_events_def CanSendRequest_def CanSendResponse_def)
next
  case True
  then obtain q s1 where e: "schedule now 0 (Qp_found q) s1 = Some s'" "rdma_events s1 = rdma_events s" "is_idle s1 = is_idle s"
    using assms(1) unfolding choose_work_def Let_def by (auto split: if_splits)
  have "run_events s1 = []" using e(2) assms(3) by (simp add: run_events_def)
  then show ?thesis using run_events_schedule [OF e(1)] schedule_simps(6) [OF e(1)] e(3) assms(2) by (simp add: wake_inv_def)
qed

lemma RunWorkScheduler_wakes:
  assumes "RunWorkScheduler env now s = Some s'" "run_events s = []"
  shows "wake_inv env s'"
proof -
  let ?s1 = "s\<lparr>is_idle := False\<rparr>"
  have n: "run_events (?s1\<lparr>rdma_token_bucket := b\<rparr>) = []" "run_events ?s1 = []" for b
    using assms(2) by (simp_all add: run_events_def)
  consider d where "schedule now d Run_scheduler ?s1 = Some s'"
    | b d where "schedule now d Run_scheduler (?s1\<lparr>rdma_token_bucket := b\<rparr>) = Some s'"
    | b where "choose_work env now (?s1\<lparr>rdma_token_bucket := b\<rparr>) = Some s'"
    using assms(1) unfolding RunWorkScheduler_def Let_def
    by (auto split: if_splits bind_splits prod.splits)
  then show ?thesis
  proof cases
    case (1 d)
    show ?thesis using run_events_schedule [OF 1] schedule_simps(6) [OF 1] n by (simp add: wake_inv_def)
  next
    case (2 b d)
    show ?thesis using run_events_schedule [OF 2] schedule_simps(6) [OF 2] n by (simp add: wake_inv_def)
  next
    case (3 b)
    show ?thesis by (rule choose_work_wakes [OF 3]) (simp_all add: n)
  qed
qed

lemma run_if_idle_wakes:
  assumes "(if is_idle s then RunWorkScheduler env now s1 else Some s1) = Some s'" "wake_inv env s"
    "is_idle s1 = is_idle s" "rdma_events s1 = rdma_events s"
  shows "wake_inv env s'"
proof (cases "is_idle s")
  case True
  then have "run_events s1 = []" using assms(2,4) by (simp add: wake_inv_def run_events_def)
  moreover have "RunWorkScheduler env now s1 = Some s'" using assms(1) True by simp
  ultimately show ?thesis by (rule RunWorkScheduler_wakes [rotated])
next
  case False
  then show ?thesis using assms by (auto simp: wake_inv_def run_events_def)
qed

lemma AddQp_wakes:
  assumes "AddQpToScheduleSet env now qp wt s = Some s'" "wake_inv env s"
  shows "wake_inv env s'"
  using assms(1)
proof (cases rule: AddQpToScheduleSet_cases)
  case (later d)
  have "CanSendRequest env s' = CanSendRequest env s" "CanSendResponse env s' = CanSendResponse env s"
    using later by (auto simp: schedule_Some_iff CanSendRequest_def CanSendResponse_def)
  then show ?thesis using run_events_schedule [OF later] schedule_simps(6) [OF later] assms(2) by (simp add: wake_inv_def)
next
  case (added s1)
  show ?thesis by (rule run_if_idle_wakes [OF added(2) assms(2)]) (simp_all add: added(1))
qed (use assms(2) in simp)

lemma neutral_wakes:
  assumes "neutral now s s'" "wake_inv env s"
  shows "wake_inv env s'"
proof -
  have p: "sched_part s' = sched_part s" using assms(1) by (simp add: neutral_def)
  obtain es where es: "rdma_events s' = rdma_events s @ es" "\<forall>(t, e) \<in> set es. \<not> sched_kind e"
    using assms(1) unfolding neutral_def events_grow_def by auto
  have "filter (\<lambda>x. run_kind (snd x)) es = []" using es(2) run_sched_kind by (fastforce simp: filter_empty_conv)
  then have "run_events s' = run_events s" by (simp add: run_events_def es(1))
  moreover have "is_idle s' = is_idle s" "CanSendRequest env s' = CanSendRequest env s" "CanSendResponse env s' = CanSendResponse env s"
    using p by (simp_all add: sched_part_def CanSendRequest_def CanSendResponse_def)
  ultimately show ?thesis using assms(2) by (simp add: wake_inv_def)
qed

lemma quiet_wakes: "quiet env now s s' \<Longrightarrow> wake_inv env s \<Longrightarrow> wake_inv env s'"
  by (induction rule: quiet.induct) (auto intro: neutral_wakes AddQp_wakes)

lemma filter_remove1_notP: "\<not> P x \<Longrightarrow> filter P (remove1 x xs) = filter P xs"
  by (induction xs) auto

lemma run_events_remove:
  assumes "wake_inv env s" "(now, e) \<in> set (rdma_events s)" "run_kind e"
  shows "\<not> is_idle s" "run_events (s\<lparr>rdma_events := remove1 (now, e) (rdma_events s)\<rparr>) = []"
proof -
  have m: "(now, e) \<in> set (run_events s)" using assms(2,3) by (simp add: run_events_def)
  then show "\<not> is_idle s" using assms(1) by (auto simp: wake_inv_def split: if_splits)
  then have "length (run_events s) = 1" using assms(1) by (simp add: wake_inv_def)
  then have "run_events s = [(now, e)]" using m by (cases "run_events s") auto
  then show "run_events (s\<lparr>rdma_events := remove1 (now, e) (rdma_events s)\<rparr>) = []"
    by (simp add: run_events_def filter_remove1)
qed

lemma send_wakes:
  assumes "SendTransaction env now qp s = Some s'" "\<not> is_idle s" "run_events s = []"
  shows "wake_inv env s'"
proof (rule SendTransaction_frame [OF assms(1)])
  fix p
  assume i: "is_idle s' = is_idle s"
    and "\<exists>es. rdma_events s' = rdma_events s @ (now + scheduler_pipeline_delay_time env, Initiate p) # es @ [(now + chip_cycle env, Run_scheduler)] \<and>
       (\<forall>(t, e) \<in> set es. e = Readd_qp qp \<and> now \<le> t)"
  then obtain es where es: "rdma_events s' = rdma_events s @ (now + scheduler_pipeline_delay_time env, Initiate p) # es @ [(now + chip_cycle env, Run_scheduler)]"
    "\<forall>(t, e) \<in> set es. e = Readd_qp qp \<and> now \<le> t" by blast
  have "filter (\<lambda>x. run_kind (snd x)) es = []" using es(2) by (fastforce simp: filter_empty_conv)
  then have "run_events s' = [(now + chip_cycle env, Run_scheduler)]"
    using es(1) assms(3) by (simp add: run_events_def)
  then show ?thesis using i assms(2) by (simp add: wake_inv_def)
qed

lemma step_wakes:
  assumes "rdma_step env now a s = Some s'" "wake_inv env s"
  shows "wake_inv env s'"
  using assms(1)
proof (cases rule: rdma_step_cases)
  case (create l r scid c mode)
  from CreateRcQp_cases [OF create(2)] obtain ctx l' where
    "s' = s\<lparr>contexts := (contexts s)(l \<mapsto> ctx), falcon_calls := l'\<rparr>" by metis
  then show ?thesis by (intro wake_inv_cong [OF assms(2)]) (simp_all add: run_events_def)
next
  case calm
  then show ?thesis using quiet_wakes assms(2) by blast
next
  case (calm_event e)
  have "wake_inv env (s\<lparr>rdma_events := remove1 (now, e) (rdma_events s)\<rparr>)"
    by (rule wake_inv_cong [OF assms(2)]) (simp_all add: run_events_def filter_remove1_notP calm_event(2))
  then show ?thesis using quiet_wakes calm_event(4) by blast
next
  case run
  show ?thesis by (rule RunWorkScheduler_wakes [OF run(2)]) (use run_events_remove [OF assms(2) run(1)] in simp)
next
  case (send qp)
  show ?thesis by (rule send_wakes [OF send(3)]) (use run_events_remove [OF assms(2) send(2)] in simp_all)
next
  case (return_credit qp c)
  show ?thesis
  proof (rule ReturnFalconCredit_cases [OF return_credit(2)])
    fix ctx s1 s2
    assume r: "s1 = put_context qp (ctx\<lparr>credit_usage := credit_usage ctx - c\<rparr>) s"
      "quiet env now s1 s2" "ReturnFalconCredits env now c s2 = Some s'"
    have "wake_inv env s1" by (rule wake_inv_cong [OF assms(2)]) (simp_all add: r(1) run_events_def put_context_def)
    then have w: "wake_inv env s2" using quiet_wakes r(2) by blast
    let ?s3 = "s2\<lparr>remaining_global_credits := remaining_global_credits s2 + c\<rparr>"
    show ?thesis by (rule run_if_idle_wakes [of s2 env now ?s3])
      (use r(3) w in \<open>simp_all add: ReturnFalconCredits_def Let_def\<close>)
  qed
next
  case (xoff r g)
  let ?s1 = "s\<lparr>request_xoff := r, global_xoff := g\<rparr>"
  show ?thesis by (rule run_if_idle_wakes [of s env now ?s1])
    (use xoff(2) assms(2) in \<open>simp_all add: sched_SetXoff_def Let_def\<close>)
qed

section \<open>No event is overdue\<close>

definition not_overdue :: "int \<Rightarrow> 'c rdma \<Rightarrow> bool" where
  "not_overdue now s \<longleftrightarrow> (\<forall>(t, e) \<in> set (rdma_events s). now \<le> t)"

lemma grow_not_overdue: "events_grow now P s s' \<Longrightarrow> not_overdue now s \<Longrightarrow> not_overdue now s'"
  by (auto simp: events_grow_def not_overdue_def)

lemma quiet_not_overdue: "quiet env now s s' \<Longrightarrow> not_overdue now s \<Longrightarrow> not_overdue now s'"
proof (induction rule: quiet.induct)
  case (quiet_neutral s s1 s2)
  then show ?case using grow_not_overdue by (auto simp: neutral_def)
next
  case (quiet_add s s1 qp wt s2)
  then show ?case using grow_not_overdue [OF AddQpToScheduleSet_frame(6) [OF quiet_add.hyps(2)]] by blast
qed simp

lemma remove_not_overdue [simp]:
  "not_overdue now s \<Longrightarrow> not_overdue now (s\<lparr>rdma_events := remove1 x (rdma_events s)\<rparr>)"
  by (auto simp: not_overdue_def dest!: notin_set_remove1 [THEN contrapos_nn, rotated] set_remove1_subset [THEN subsetD])

lemma step_not_overdue:
  assumes "rdma_step env now a s = Some s'" "not_overdue now s"
  shows "not_overdue now s'"
  using assms(1)
proof (cases rule: rdma_step_cases)
  case (create l r scid c mode)
  then show ?thesis using assms(2) by (elim CreateRcQp_cases) (simp add: not_overdue_def)
next
  case calm
  then show ?thesis using quiet_not_overdue assms(2) by blast
next
  case (calm_event e)
  then show ?thesis using quiet_not_overdue assms(2) remove_not_overdue by blast
next
  case run
  then show ?thesis using grow_not_overdue [OF RunWorkScheduler_frame(8)] assms(2) remove_not_overdue by blast
next
  case (send qp)
  show ?thesis
  proof (rule SendTransaction_frame [OF send(3)])
    fix p
    assume "\<exists>es. rdma_events s' = rdma_events (s\<lparr>rdma_events := remove1 (now, Qp_found qp) (rdma_events s)\<rparr>) @
        (now + scheduler_pipeline_delay_time env, Initiate p) # es @ [(now + chip_cycle env, Run_scheduler)] \<and>
       (\<forall>(t, e) \<in> set es. e = Readd_qp qp \<and> now \<le> t)" "0 \<le> chip_cycle env" "0 \<le> scheduler_pipeline_delay_time env"
    then show ?thesis using remove_not_overdue [OF assms(2), of "(now, Qp_found qp)"] by (auto simp: not_overdue_def)
  qed
next
  case (return_credit qp c)
  show ?thesis
  proof (rule ReturnFalconCredit_cases [OF return_credit(2)])
    fix ctx s1 s2
    assume r: "s1 = put_context qp (ctx\<lparr>credit_usage := credit_usage ctx - c\<rparr>) s"
      "quiet env now s1 s2" "ReturnFalconCredits env now c s2 = Some s'"
    have "not_overdue now s1" using assms(2) by (simp add: r(1) not_overdue_def)
    then show ?thesis using quiet_not_overdue [OF r(2)] grow_not_overdue [OF ReturnFalconCredits_frame(6) [OF r(3)]] by blast
  qed
next
  case (xoff r g)
  then show ?thesis using grow_not_overdue [OF sched_SetXoff_frame(4)] assms(2) by blast
qed

lemma reach_wakes:
  assumes "rdma_reach env s0 acts now s" "wake_inv env s0" "rdma_events s0 = []"
  shows "wake_inv env s \<and> not_overdue now s"
  using assms(1)
proof induction
  case start
  then show ?case using assms(2,3) by (simp add: not_overdue_def)
next
  case (act acts now s t a s')
  have "not_overdue t s" using act.hyps(3) by (auto simp: may_happen_at_def not_overdue_def list_all_iff)
  then show ?case using step_wakes [OF act.hyps(4)] step_not_overdue [OF act.hyps(4)] act.IH by blast
qed

lemma new_rdma_wakes: "wake_inv env (new_rdma g b hs)" "rdma_events (new_rdma g b hs) = []"
  by (simp_all add: wake_inv_def run_events_def new_rdma_def CanSendRequest_def CanSendResponse_def)

end
