(* ===== verification/Rdma_Stranded.thy ===== *)
theory Rdma_Stranded
  imports Rdma_Wakeup
begin

text \<open>
  Queue pairs that are stranded: in the set of those scheduled for requests and not in the queue of requests. Being in the set
  keeps \<open>AddQpToScheduleSet\<close> from adding them, so no step but sending a transaction of the queue pair itself, which
  may take it off the set, changes that.
\<close>

definition stranded :: "QpId \<Rightarrow> 'c rdma \<Rightarrow> bool" where
  "stranded q s \<longleftrightarrow> q \<in> request_qp_set s \<and> q \<notin> set (request_wqs s)"

lemma stranded_cong:
  "request_wqs s' = request_wqs s \<Longrightarrow> request_qp_set s' = request_qp_set s \<Longrightarrow> stranded q s' = stranded q s"
  by (simp add: stranded_def)

lemma stranded_run_if:
  assumes "(if b then RunWorkScheduler env now s1 else Some s1) = Some s'"
  shows "stranded q s' = stranded q s1"
  using assms RunWorkScheduler_frame(4,6) [of env now s1 s'] by (cases b) (simp_all add: stranded_def)

lemma AddQp_stranded:
  assumes "AddQpToScheduleSet env now qp wt s = Some s'" "stranded q s"
  shows "stranded q s'"
  using assms(1)
proof (cases rule: AddQpToScheduleSet_cases)
  case (later d)
  then show ?thesis using assms(2) by (auto simp: schedule_Some_iff stranded_def)
next
  case (added s1)
  have "stranded q s1" using added(1,4) assms(2) by (auto simp: stranded_def)
  then show ?thesis using stranded_run_if [OF added(2)] by simp
qed (use assms(2) in simp)

lemma neutral_stranded: "neutral now s s' \<Longrightarrow> stranded q s \<Longrightarrow> stranded q s'"
  by (simp add: neutral_def sched_part_def stranded_def)

lemma quiet_stranded: "quiet env now s s' \<Longrightarrow> stranded q s \<Longrightarrow> stranded q s'"
  by (induction rule: quiet.induct) (auto intro: neutral_stranded AddQp_stranded)

lemma UpdateWorkType_requests [simp]:
  "request_wqs (UpdateWorkType env s) = request_wqs s" "request_qp_set (UpdateWorkType env s) = request_qp_set s"
  by (simp_all add: UpdateWorkType_def split: WorkType.split)

lemma reset_quanta_requests [simp]:
  "request_wqs (reset_quanta s) = request_wqs s" "request_qp_set (reset_quanta s) = request_qp_set s"
  by (simp_all add: reset_quanta_def)

lemma account_packet_requests:
  "account_packet env now qp ctx p credit n s = Some s' \<Longrightarrow> request_wqs s' = request_wqs s \<and> request_qp_set s' = request_qp_set s"
  by (auto simp: account_packet_def schedule_Some_iff Let_def split: bind_splits if_splits)

lemma next_step_requests:
  assumes "(if over then remove_over_ord env now qp s else next_work env now qp ctx s) = Some s'"
  shows "(request_wqs s' = request_wqs s \<or> request_wqs s' = tl (request_wqs s)) \<and>
    (request_qp_set s' = request_qp_set s \<or> request_qp_set s' = request_qp_set s - {qp})"
proof (cases over)
  case True
  then show ?thesis using assms by (auto simp: remove_over_ord_def schedule_Some_iff split: bind_splits if_splits)
next
  case False
  then show ?thesis
    using assms by (auto simp: next_work_def schedule_Some_iff Let_def split: bind_splits if_splits)
qed

lemma Send_stranded:
  assumes "SendTransaction env now qp s = Some s'" "stranded q s" "q \<noteq> qp"
  shows "stranded q s'"
proof -
  obtain ctx1 p credit n s1 over ctx2 where a: "account_packet env now qp ctx1 p credit n s = Some s1"
    and r: "(if over then remove_over_ord env now qp s1 else next_work env now qp ctx2 s1) = Some s'"
    using assms(1) by (auto simp: SendTransaction_def split: bind_splits prod.splits)
  have tl: "set (tl xs) \<subseteq> set xs" for xs :: "QpId list" by (cases xs) auto
  have "set (request_wqs s') \<subseteq> set (request_wqs s)"
    using account_packet_requests [OF a] conjunct1 [OF next_step_requests [OF r]] tl [of "request_wqs s"] by auto
  moreover have "q \<in> request_qp_set s'"
    using account_packet_requests [OF a] conjunct2 [OF next_step_requests [OF r]] assms(2,3) by (auto simp: stranded_def)
  ultimately show ?thesis using assms(2) by (auto simp: stranded_def)
qed

lemma step_stranded:
  assumes "rdma_step env now a s = Some s'" "stranded q s" "a \<noteq> Rdma_event (Qp_found q)"
  shows "stranded q s'"
  using assms(1)
proof (cases rule: rdma_step_cases)
  case (create l r scid c mode)
  from CreateRcQp_cases [OF create(2)] obtain ctx l' where
    "s' = s\<lparr>contexts := (contexts s)(l \<mapsto> ctx), falcon_calls := l'\<rparr>" by metis
  then show ?thesis using assms(2) by (simp add: stranded_def)
next
  case calm
  then show ?thesis using quiet_stranded assms(2) by blast
next
  case (calm_event e)
  then show ?thesis using quiet_stranded [OF calm_event(4)] assms(2) by (simp add: stranded_def)
next
  case run
  then show ?thesis using RunWorkScheduler_frame(4,6) [OF run(2)] assms(2) by (simp add: stranded_def)
next
  case (send qp)
  then show ?thesis using Send_stranded [OF send(3)] assms(2,3) by (simp add: stranded_def)
next
  case (return_credit qp c)
  show ?thesis
  proof (rule ReturnFalconCredit_cases [OF return_credit(2)])
    fix ctx s1 s2
    assume r: "s1 = put_context qp (ctx\<lparr>credit_usage := credit_usage ctx - c\<rparr>) s"
      "quiet env now s1 s2" "ReturnFalconCredits env now c s2 = Some s'"
    have "stranded q s1" using assms(2) by (simp add: r(1) stranded_def put_context_def)
    then have "stranded q s2" using quiet_stranded r(2) by blast
    then have "stranded q (s2\<lparr>remaining_global_credits := remaining_global_credits s2 + c\<rparr>)" by (simp add: stranded_def)
    then show ?thesis
      using r(3) stranded_run_if [of "is_idle s2" env now "s2\<lparr>remaining_global_credits := remaining_global_credits s2 + c\<rparr>" s' q]
      by (simp add: ReturnFalconCredits_def Let_def)
  qed
next
  case (xoff r g)
  have "stranded q (s\<lparr>request_xoff := r, global_xoff := g\<rparr>)" using assms(2) by (simp add: stranded_def)
  then show ?thesis
    using xoff(2) stranded_run_if [of "is_idle s" env now "s\<lparr>request_xoff := r, global_xoff := g\<rparr>" s' q]
    by (simp add: sched_SetXoff_def Let_def)
qed

lemma reach_stranded:
  assumes "rdma_reach env s0 acts t s" "stranded q s0" "Rdma_event (Qp_found q) \<notin> set acts"
  shows "stranded q s"
  using assms(1,3)
proof induction
  case (act acts now s t a s')
  then show ?case using step_stranded [of env t a s s' q] by auto
qed (rule assms(2))

end
