(* ===== verification/Host_Rx_Callbacks.thy ===== *)
theory Host_Rx_Callbacks
  imports Host_Rx_Buffers "HOL-Library.Multiset"
begin

text \<open>
  The way to host memory loses and doubles no callback. Every callback weighs a multiset of the reader's choice
  (\<open>pc\<close> for those of the memory interface, \<open>rx\<close> for those that report a transfer); the weight of a host is that
  of the callbacks it holds, and every operation changes it by what it takes in or hands out.
\<close>

definition opt_w :: "('a \<Rightarrow> 'm multiset) \<Rightarrow> 'a option \<Rightarrow> 'm multiset" where
  "opt_w f x = (case x of None \<Rightarrow> {#} | Some y \<Rightarrow> f y)"

lemma opt_w_simps [simp]: "opt_w f None = {#}" "opt_w f (Some y) = f y"
  by (simp_all add: opt_w_def)

fun mem_event_w :: "('c \<Rightarrow> 'm multiset) \<Rightarrow> 'c mem_event \<Rightarrow> 'm multiset" where
  "mem_event_w pc Transmit_complete = {#}"
| "mem_event_w pc (Memory_callback c) = pc c"

definition item_w :: "('c \<Rightarrow> 'm multiset) \<Rightarrow> ('r \<Rightarrow> 'm multiset) \<Rightarrow> ('c, 'r) HostBufferItem \<Rightarrow> 'm multiset" where
  "item_w pc rx i = opt_w pc (pcie_callback i) + opt_w rx (rdma_pcie_transfer_callback i)"

definition path_w :: "('c \<Rightarrow> 'm multiset) \<Rightarrow> ('r \<Rightarrow> 'm multiset) \<Rightarrow> ('c, 'r) HostPath \<Rightarrow> 'm multiset" where
  "path_w pc rx p = (\<Sum>m \<leftarrow> tx_queue p. opt_w pc (tx_callback m)) + (\<Sum>e \<leftarrow> mem_events p. mem_event_w pc (snd e)) +
     (\<Sum>i \<leftarrow> rx_items p. item_w pc rx i) + (\<Sum>r \<leftarrow> transfers p. rx r)"

lemma sum_list_remove1:
  fixes f :: "'a \<Rightarrow> 'm multiset"
  shows "x \<in> set xs \<Longrightarrow> f x + (\<Sum>y \<leftarrow> remove1 x xs. f y) = (\<Sum>y \<leftarrow> xs. f y)"
  by (induction xs) (auto simp: ac_simps)

lemma TransmitStart_w:
  assumes "TransmitStart env now tx s = Some s'"
  shows "path_w pc rx s' = path_w pc rx s + opt_w pc (tx_callback tx)" "tx_queue s' = tx_queue s"
    "rx_items s' = rx_items s" "transfers s' = transfers s"
proof -
  let ?t = "transmit_time env (tx_size_bytes tx)"
  have d: "GetRandomPCIeDelay env s1 = Some (s2, d) \<Longrightarrow> \<exists>k. s2 = s1\<lparr>delays_drawn := k\<rparr>" for s1 s2 d
    by (cases "delay_distribution env") (auto simp: GetRandomPCIeDelay_def Let_def split: if_splits
        intro: exI [of _ "delays_drawn s1"])
  have "path_w pc rx s' = path_w pc rx s + opt_w pc (tx_callback tx) \<and> tx_queue s' = tx_queue s \<and>
    rx_items s' = rx_items s \<and> transfers s' = transfers s"
  proof (cases "tx_callback tx")
    case None
    then show ?thesis using assms by (auto simp: TransmitStart_def Let_def path_w_def split: if_splits)
  next
    case (Some c)
    then obtain s2 d where s2: "GetRandomPCIeDelay env (s\<lparr>tx_busy := True, mem_events := mem_events s @ [(now + ?t, Transmit_complete)],
      transmitted := transmitted s @ [tx_item tx]\<rparr>) = Some (s2, d)"
      "s' = s2\<lparr>mem_events := mem_events s2 @ [(now + ?t + d, Memory_callback c)]\<rparr>"
      using assms by (auto simp: TransmitStart_def Let_def split: if_splits bind_splits)
    from d [OF s2(1)] show ?thesis using Some by (auto simp: s2(2) path_w_def ac_simps)
  qed
  then show "path_w pc rx s' = path_w pc rx s + opt_w pc (tx_callback tx)" "tx_queue s' = tx_queue s"
    "rx_items s' = rx_items s" "transfers s' = transfers s" by simp_all
qed

lemma WriteToMemory_w:
  assumes "WriteToMemory env now bytes c s = Some s'"
  shows "path_w pc rx s' = path_w pc rx s + opt_w pc c" "rx_items s' = rx_items s" "transfers s' = transfers s"
proof -
  let ?s1 = "s\<lparr>tx_queue := tx_queue s @ [\<lparr>tx_callback = c, tx_size_bytes = bytes\<rparr>]\<rparr>"
  have w1: "path_w pc rx ?s1 = path_w pc rx s + opt_w pc c" by (simp add: path_w_def ac_simps)
  have "path_w pc rx s' = path_w pc rx s + opt_w pc c \<and> rx_items s' = rx_items s \<and> transfers s' = transfers s"
  proof (cases "tx_busy s")
    case True
    then show ?thesis using assms w1 by (auto simp: WriteToMemory_def Let_def)
  next
    case False
    then have t: "TransmitStart env now (hd (tx_queue ?s1)) (?s1\<lparr>tx_queue := tl (tx_queue ?s1)\<rparr>) = Some s'"
      using assms by (simp add: WriteToMemory_def Let_def)
    have "path_w pc rx ?s1 = path_w pc rx (?s1\<lparr>tx_queue := tl (tx_queue ?s1)\<rparr>) + opt_w pc (tx_callback (hd (tx_queue ?s1)))"
      by (cases "tx_queue s") (simp_all add: path_w_def ac_simps)
    then show ?thesis using TransmitStart_w(1) [OF t, of pc rx] TransmitStart_w(3,4) [OF t] w1 by simp
  qed
  then show "path_w pc rx s' = path_w pc rx s + opt_w pc c" "rx_items s' = rx_items s" "transfers s' = transfers s" by simp_all
qed

lemma transfer_done_w:
  "path_w pc rx (transfer_done r s) = path_w pc rx s + opt_w rx r" "rx_items (transfer_done r s) = rx_items s"
  by (simp_all add: transfer_done_def path_w_def ac_simps split: option.split)

lemma wakeup_loop_w:
  "wakeup_loop env now is s = Some s' \<Longrightarrow> is = rx_items s \<Longrightarrow> path_w pc rx s' = path_w pc rx s"
proof (induction env now "is" s rule: wakeup_loop.induct)
  case (2 env now i "is" s)
  show ?case
  proof (cases "CanWriteToMemory s = ResourceExhaustedError")
    case True
    then show ?thesis using "2.prems"(1) by simp
  next
    case False
    then obtain s1 where s1: "WriteToMemory env now (buffered_size (item_payload_length i)) (pcie_callback i) s = Some s1"
      "wakeup_loop env now is ((transfer_done (rdma_pcie_transfer_callback i) s1)\<lparr>current_size_bytes :=
          current_size_bytes (transfer_done (rdma_pcie_transfer_callback i) s1) - ucast (item_payload_length i),
          rx_items := tl (rx_items (transfer_done (rdma_pcie_transfer_callback i) s1))\<rparr>) = Some s'"
      using "2.prems"(1) by (auto simp: Let_def split: bind_splits)
    let ?s2 = "transfer_done (rdma_pcie_transfer_callback i) s1"
    let ?s3 = "?s2\<lparr>current_size_bytes := current_size_bytes ?s2 - ucast (item_payload_length i), rx_items := tl (rx_items ?s2)\<rparr>"
    have r: "rx_items ?s2 = i # is" using WriteToMemory_w(2) [OF s1(1)] "2.prems"(2) by (simp add: transfer_done_w)
    have "path_w pc rx ?s2 = path_w pc rx s + item_w pc rx i"
      using WriteToMemory_w(1) [OF s1(1), of pc rx] by (simp add: transfer_done_w item_w_def ac_simps)
    moreover have "path_w pc rx ?s2 = path_w pc rx ?s3 + item_w pc rx i" using r by (simp add: path_w_def ac_simps)
    moreover have "path_w pc rx s' = path_w pc rx ?s3" using "2.IH" [OF False s1(1) refl s1(2)] r by simp
    ultimately show ?thesis by simp
  qed
qed simp

lemma wakeup_w:
  assumes "wakeup env now s = Some s'"
  shows "path_w pc rx s' = path_w pc rx s"
proof -
  obtain s1 where "wakeup_loop env now (rx_items s) s = Some s1" "s' = s1 \<or> s' = s1\<lparr>falcon_xoff := False\<rparr>"
    using assms by (auto simp: wakeup_def split: bind_splits if_splits)
  then show ?thesis using wakeup_loop_w [of env now "rx_items s" s s1 pc rx] by (auto simp: path_w_def)
qed

lemma TransmitComplete_w:
  assumes "TransmitComplete env now s = Some s'"
  shows "path_w pc rx s' = path_w pc rx s"
proof -
  let ?s1 = "s\<lparr>tx_busy := False\<rparr>"
  have w1: "path_w pc rx ?s1 = path_w pc rx s" by (simp add: path_w_def)
  show ?thesis
  proof (cases "tx_queue s")
    case Nil
    then have "wakeup env now ?s1 = Some s'" using assms by (auto simp: TransmitComplete_def split: if_splits)
    then show ?thesis using wakeup_w w1 by metis
  next
    case (Cons tx txs)
    then obtain s2 where s2: "TransmitStart env now tx ?s1 = Some s2"
      "(if queue_is_full ?s1 then wakeup env now (s2\<lparr>tx_queue := tl (tx_queue s2)\<rparr>)
        else Some (s2\<lparr>tx_queue := tl (tx_queue s2)\<rparr>)) = Some s'"
      using assms by (auto simp: TransmitComplete_def Let_def split: if_splits bind_splits)
    have "path_w pc rx (s2\<lparr>tx_queue := tl (tx_queue s2)\<rparr>) + opt_w pc (tx_callback tx) = path_w pc rx s2"
      using TransmitStart_w(2) [OF s2(1)] Cons by (simp add: path_w_def ac_simps)
    then have "path_w pc rx (s2\<lparr>tx_queue := tl (tx_queue s2)\<rparr>) = path_w pc rx s"
      using TransmitStart_w(1) [OF s2(1), of pc rx] w1 by simp
    then show ?thesis using s2(2) wakeup_w by (metis option.inject)
  qed
qed

lemma path_Push_w:
  assumes "path_Push env now c n r s = Some s'"
  shows "path_w pc rx s' = path_w pc rx s + (opt_w pc c + opt_w rx r)"
proof (cases "CanWriteToMemory s = OkStatus")
  case True
  then obtain s1 where "WriteToMemory env now (direct_size (case n of Some n \<Rightarrow> n | None \<Rightarrow> 0)) c s = Some s1"
    "s' = transfer_done r s1"
    using assms by (auto simp: path_Push_def Let_def split: bind_splits)
  then show ?thesis using WriteToMemory_w(1) [of env now _ c s s1 pc rx] by (simp add: transfer_done_w ac_simps)
next
  case False
  then show ?thesis using assms by (auto simp: path_Push_def Let_def path_w_def item_w_def ac_simps)
qed

lemma memory_event_w:
  assumes "memory_event env now e s = Some s'" "(now, e) \<in> set (mem_events s)"
  shows "path_w pc rx s' + mem_event_w pc e = path_w pc rx s"
proof -
  let ?s1 = "s\<lparr>mem_events := remove1 (now, e) (mem_events s)\<rparr>"
  have w: "path_w pc rx ?s1 + mem_event_w pc e = path_w pc rx s"
    using sum_list_remove1 [OF assms(2), of "\<lambda>e. mem_event_w pc (snd e)"] by (simp add: path_w_def ac_simps)
  show ?thesis
  proof (cases e)
    case Transmit_complete
    then have "TransmitComplete env now ?s1 = Some s'" using assms(1) by (simp add: memory_event_def Let_def)
    then show ?thesis using TransmitComplete_w w by metis
  next
    case (Memory_callback c)
    then show ?thesis using assms(1) w by (simp add: memory_event_def Let_def)
  qed
qed

end
