(* ===== verification/Rdma_Weights.thy ===== *)
theory Rdma_Weights
  imports Rdma_Credits Host_Rx_Callbacks
begin

text \<open>
  Counting what RDMA holds. A law of delivery weighs every place something can wait: the scheduled events, the
  pipeline, the hosts, the calls to Falcon and the callbacks called. Under the law, moving a thing from one place to
  the next keeps the weight; the locale proves it once for all operations, and its interpretations are the law of
  completions and the law of answers.
\<close>

definition weight where
  "weight ev pl pc rx fc cd s = (\<Sum>x \<leftarrow> rdma_events s. ev (snd x)) + (\<Sum>w \<leftarrow> pipeline s. pl w) +
     (\<Sum>p \<leftarrow> hosts s. path_w pc rx p) + (\<Sum>c \<leftarrow> falcon_calls s. fc c) + (\<Sum>x \<leftarrow> called s. cd x :: 'm multiset)"

locale delivery_law =
  fixes ev :: "'c rdma_event \<Rightarrow> 'm multiset"
    and pl :: "pipeline_work \<Rightarrow> 'm multiset"
    and pc :: "'c pcie_done \<Rightarrow> 'm multiset"
    and rx :: "'c rx_done \<Rightarrow> 'm multiset"
    and fc :: "falcon_call \<Rightarrow> 'm multiset"
    and cd :: "'c \<times> Syndrome \<Rightarrow> 'm multiset"
  assumes sched_law: "sched_kind e \<Longrightarrow> ev e = {#}"
    and tick_law: "ev Pipeline_dequeue = {#}"
    and late_law: "ev (Ack_done scid rsn c) = rx (Rx_done t scid rsn c)"
    and ack_law: "rx (Rx_done t scid rsn c) = fc (AckTransaction scid rsn Syn_kAck 0) + opt_w (\<lambda>x. cd (x, Syn_kAck)) c"
    and pcie_law: "pc (Op_done x syndrome) = cd (x, syndrome)"
    and found_law: "ev (Rx_found qp p) = pl (Work_packet qp p)"
      "ev (Completion_found qp rsn syndrome h) = pl (Work_completion qp rsn syndrome h)"
    and rnr_law: "ev (Ack_rnr qp scid rsn) = fc (AckTransaction scid rsn kRnrNak timeout)"
    and response_law: "ev (Enqueue_response qp p) = {#}"
    and call_law: "fc (InitiateTransaction p) = {#}" "fc (SetupNewQp scid qp om) = {#}"
begin

abbreviation W :: "'c rdma \<Rightarrow> 'm multiset" where
  "W \<equiv> weight ev pl pc rx fc cd"

lemma W_schedule: "schedule now d e s = Some s' \<Longrightarrow> W s' = W s + ev e"
  by (auto simp: schedule_Some_iff weight_def ac_simps)

lemma W_put [simp]: "W (put_context qp ctx s) = W s"
  by (simp add: put_context_def weight_def)

lemma W_io: "io_part s' = io_part s \<Longrightarrow> rdma_events s' = rdma_events s \<Longrightarrow> W s' = W s"
  by (simp add: weight_def io_part_def)

lemma W_grow:
  assumes "io_part s' = io_part s" "events_grow now P s s'" "\<And>e. P e \<Longrightarrow> ev e = {#}"
  shows "W s' = W s"
proof -
  obtain es where es: "rdma_events s' = rdma_events s @ es" "\<forall>(t, e) \<in> set es. P e \<and> now \<le> t"
    using assms(2) by (auto simp: events_grow_def)
  have "(\<Sum>x \<leftarrow> es. ev (snd x)) = {#}" using es(2) assms(3) by (induction es) auto
  then show ?thesis using assms(1) es(1) by (simp add: weight_def io_part_def)
qed

lemma W_remove:
  "(t, e) \<in> set (rdma_events s) \<Longrightarrow> W (s\<lparr>rdma_events := remove1 (t, e) (rdma_events s)\<rparr>) + ev e = W s"
  using sum_list_remove1 [of "(t, e)" "rdma_events s" "\<lambda>x. ev (snd x)"] by (simp add: weight_def ac_simps)

lemma W_AddQp: "AddQpToScheduleSet env now qp wt s = Some s' \<Longrightarrow> W s' = W s"
  using W_grow [OF AddQpToScheduleSet_frame(2,6)] sched_law by blast

lemma W_Run: "RunWorkScheduler env now s = Some s' \<Longrightarrow> W s' = W s"
  using W_grow [OF RunWorkScheduler_frame(2,8)] sched_law run_sched_kind by blast

lemma W_ReturnCredits: "ReturnFalconCredits env now c s = Some s' \<Longrightarrow> W s' = W s"
  using W_grow [OF ReturnFalconCredits_frame(2,6)] sched_law run_sched_kind by blast

lemma W_SetXoff: "sched_SetXoff env now r g s = Some s' \<Longrightarrow> W s' = W s"
  using W_grow [OF sched_SetXoff_frame(2,4)] sched_law run_sched_kind by blast

lemma W_wake_qp:
  "wake_qp env now qp wt s = Some s' \<Longrightarrow> W s' = W s \<and> contexts s' = contexts s"
  by (auto simp: wake_qp_def dest: W_AddQp AddQpToScheduleSet_frame(1) split: bind_splits if_splits)

lemma W_Send:
  assumes "SendTransaction env now qp s = Some s'"
  shows "W s' = W s"
proof (rule SendTransaction_frame [OF assms])
  fix p
  assume i: "io_part s' = io_part s"
    and "\<exists>es. rdma_events s' = rdma_events s @ (now + scheduler_pipeline_delay_time env, Initiate p) # es @ [(now + chip_cycle env, Run_scheduler)] \<and>
       (\<forall>(t, e) \<in> set es. e = Readd_qp qp \<and> now \<le> t)" "0 \<le> chip_cycle env" "0 \<le> scheduler_pipeline_delay_time env"
  then obtain es where es: "rdma_events s' = rdma_events s @ (now + scheduler_pipeline_delay_time env, Initiate p) # es @ [(now + chip_cycle env, Run_scheduler)]"
    "\<And>t e. (t, e) \<in> set es \<Longrightarrow> e = Readd_qp qp \<and> now \<le> t" "0 \<le> chip_cycle env" "0 \<le> scheduler_pipeline_delay_time env" by blast
  have "sched_kind e \<and> now \<le> t"
    if "(t, e) \<in> set ((now + scheduler_pipeline_delay_time env, Initiate p) # es @ [(now + chip_cycle env, Run_scheduler)])" for t e
    using that es(2) [of t e] es(3,4) by auto
  then have "events_grow now sched_kind s s'" unfolding events_grow_def es(1) by blast
  then show ?thesis using W_grow [OF i] sched_law by blast
qed

section \<open>The hosts\<close>

lemma W_run_transfer: "run_transfer now r s = Some s' \<Longrightarrow> W s' = W s + rx r"
proof (cases r)
  case (Rx_done ack_time scid rsn c)
  assume "run_transfer now r s = Some s'"
  then have "schedule now (ack_time - now) (Ack_done scid rsn c) s = Some s' \<or> s' = ack_done scid rsn c s"
    by (auto simp: Rx_done split: if_splits)
  then show ?thesis
  proof
    assume "schedule now (ack_time - now) (Ack_done scid rsn c) s = Some s'"
    from W_schedule [OF this] show ?thesis using late_law [of scid rsn c ack_time] by (simp add: Rx_done)
  next
    assume "s' = ack_done scid rsn c s"
    then show ?thesis by (simp add: Rx_done ack_law weight_def ack_done_def ac_simps split: option.split)
  qed
qed

lemma W_run_transfer_list:
  "run_transfer_list now rs s = Some s' \<Longrightarrow> W s' = W s + (\<Sum>r \<leftarrow> rs. rx r)"
proof (induction rs arbitrary: s)
  case (Cons r rs)
  then obtain s1 where "run_transfer now r s = Some s1" "run_transfer_list now rs s1 = Some s'"
    by (auto split: bind_splits)
  then show ?case using Cons.IH W_run_transfer by (fastforce simp: ac_simps)
qed simp

lemma sum_list_update_split:
  fixes f :: "'a \<Rightarrow> 'm multiset"
  shows "h < length xs \<Longrightarrow> (\<Sum>x \<leftarrow> xs[h := y]. f x) + f (xs ! h) = (\<Sum>x \<leftarrow> xs. f x) + f y"
proof (induction xs arbitrary: h)
  case (Cons x xs)
  then show ?case by (cases h) (auto simp: ac_simps)
qed simp

lemma W_host:
  assumes "h < length (hosts s)"
  shows "W (s\<lparr>hosts := (hosts s)[h := p]\<rparr>) + path_w pc rx (hosts s ! h) = W s + path_w pc rx p"
  using sum_list_update_split [OF assms, of "path_w pc rx" p] by (simp add: weight_def ac_simps)

lemma W_run_transfers:
  assumes "run_transfers now h s = Some s'" "h < length (hosts s)"
  shows "W s' = W s"
proof -
  let ?p = "hosts s ! h"
  let ?s = "s\<lparr>hosts := (hosts s)[h := ?p\<lparr>transfers := []\<rparr>]\<rparr>"
  have "run_transfer_list now (transfers ?p) ?s = Some s'" using assms(1) by (simp add: run_transfers_def)
  then have "W s' = W ?s + (\<Sum>r \<leftarrow> transfers ?p. rx r)" by (rule W_run_transfer_list)
  moreover have "path_w pc rx ?p = path_w pc rx (?p\<lparr>transfers := []\<rparr>) + (\<Sum>r \<leftarrow> transfers ?p. rx r)"
    by (simp add: path_w_def)
  ultimately show ?thesis using W_host [OF assms(2), of "?p\<lparr>transfers := []\<rparr>"] by (simp add: ac_simps)
qed

lemma W_push_to_host:
  assumes "push_to_host env now h c n r s = Some s'"
  shows "W s' = W s + (opt_w pc c + opt_w rx r)"
proof -
  obtain p where p: "h < length (hosts s)" "path_Push (memory_env env) now c n r (hosts s ! h) = Some p"
    "run_transfers now h (s\<lparr>hosts := (hosts s)[h := p]\<rparr>) = Some s'"
    using assms by (auto simp: push_to_host_def rx_Push_def split: bind_splits if_splits)
  have "W s' = W (s\<lparr>hosts := (hosts s)[h := p]\<rparr>)" using W_run_transfers [OF p(3)] p(1) by simp
  then show ?thesis using W_host [OF p(1), of p] path_Push_w [OF p(2), of pc rx] by (simp add: ac_simps)
qed

lemma W_host_event:
  assumes "host_event env now h e s = Some s'" "(now, e) \<in> set (mem_events (hosts s ! h))"
  shows "W s' = W s"
proof -
  obtain p s1 where p: "h < length (hosts s)" "memory_event (memory_env env) now e (hosts s ! h) = Some p"
    "run_transfers now h (s\<lparr>hosts := (hosts s)[h := p]\<rparr>) = Some s1"
    "s' = (case e of Transmit_complete \<Rightarrow> s1
       | Memory_callback d \<Rightarrow> (case d of Op_done c syndrome \<Rightarrow> s1\<lparr>called := called s1 @ [(c, syndrome)]\<rparr>))"
    using assms(1) by (auto simp: host_event_def split: bind_splits if_splits)
  have "W s1 = W (s\<lparr>hosts := (hosts s)[h := p]\<rparr>)" using W_run_transfers [OF p(3)] p(1) by simp
  then have "W s1 + (path_w pc rx p + mem_event_w pc e) = W s + path_w pc rx p"
    using W_host [OF p(1), of p] memory_event_w [OF p(2) assms(2), of pc rx] by simp
  then have "W s1 + mem_event_w pc e = W s" by (simp add: add.left_commute [of _ "path_w pc rx p"])
  moreover have "W s' = W s1 + mem_event_w pc e"
    by (auto simp: p(4) weight_def pcie_law ac_simps split: mem_event.split pcie_done.split)
  ultimately show ?thesis by simp
qed

end

end
