(* ===== verification/Rdma_Effects.thy ===== *)
theory Rdma_Effects
  imports Rdma_Weights
begin

text \<open>
  What each step of RDMA does to the queue pairs and to the weight of a law of delivery, case by case. The invariants
  of completions and answers are checked against these cases.
\<close>

definition is_request :: "rdma_packet \<Rightarrow> bool" where
  "is_request p \<longleftrightarrow> pkt_opcode p \<in> {kSendOnly, kWriteOnly, kReadRequest}"

lemma io_part_pipeline: "io_part s' = io_part s \<Longrightarrow> pipeline s' = pipeline s"
  by (simp add: io_part_def)

lemma accept_rsn_simps [simp]:
  "ctx_scid (accept_rsn ctx) = ctx_scid ctx" "send_queue (accept_rsn ctx) = send_queue ctx" "ops (accept_rsn ctx) = ops ctx"
  "completion_queue (accept_rsn ctx) = completion_queue ctx" "rsn_to_op (accept_rsn ctx) = rsn_to_op ctx"
  "next_rsn (accept_rsn ctx) = next_rsn ctx" "next_address (accept_rsn ctx) = next_address ctx"
  "rc_mode (accept_rsn ctx) = rc_mode ctx" "outbound_read_requests (accept_rsn ctx) = outbound_read_requests ctx"
  by (simp_all add: accept_rsn_def LeaveRnrState_def UpdateNextRsnToReceive_def)

lemma EnterRnrState_simps [simp]:
  "send_queue (EnterRnrState ctx) = send_queue ctx" "ops (EnterRnrState ctx) = ops ctx"
  "completion_queue (EnterRnrState ctx) = completion_queue ctx" "rsn_to_op (EnterRnrState ctx) = rsn_to_op ctx"
  "next_rsn (EnterRnrState ctx) = next_rsn ctx" "next_address (EnterRnrState ctx) = next_address ctx"
  "receive_queue (EnterRnrState ctx) = receive_queue ctx" "rc_mode (EnterRnrState ctx) = rc_mode ctx"
  "next_rx_rsn (EnterRnrState ctx) = next_rx_rsn ctx" "outbound_read_requests (EnterRnrState ctx) = outbound_read_requests ctx"
  by (simp_all add: EnterRnrState_def)

lemma receive_queue_accept: "receive_queue ctx = q \<Longrightarrow> (accept_rsn ctx)\<lparr>receive_queue := q\<rparr> = accept_rsn ctx"
  by (auto simp: accept_rsn_def LeaveRnrState_def UpdateNextRsnToReceive_def)

lemma accept_rsn_receive_queue: "accept_rsn (ctx\<lparr>receive_queue := q\<rparr>) = (accept_rsn ctx)\<lparr>receive_queue := q\<rparr>"
  by (simp add: accept_rsn_def LeaveRnrState_def UpdateNextRsnToReceive_def)

text \<open>The receives a matching send leaves.\<close>

lemma match_receive_cases:
  assumes "match_receive env p ctx = Some (ctx1, m, is_end)"
  obtains (mismatch) "\<not> m" "ctx1 = ctx" "\<not> is_end"
  | (matches) r rs sgl where "m" "receive_queue ctx = r # rs" "IsRsnAcceptable ctx (pkt_rsn p) = Some True"
      "ctx1 = ctx\<lparr>receive_queue := r\<lparr>op_sgl := sgl\<rparr> # rs\<rparr>"
proof (cases "receive_queue ctx")
  case Nil
  then show ?thesis using assms mismatch by (simp add: match_receive_def)
next
  case (Cons r rs)
  then obtain ok where ok: "IsRsnAcceptable ctx (pkt_rsn p) = Some ok"
    using assms by (auto simp: match_receive_def split: bind_splits)
  show ?thesis
  proof (cases m)
    case False
    then show ?thesis using assms ok mismatch Cons
      by (auto simp: match_receive_def Let_def split: if_splits prod.splits)
  next
    case True
    then have ok': ok using assms ok Cons by (auto simp: match_receive_def split: if_splits)
    show ?thesis
    proof (cases "pkt_inline_payload_length p \<noteq> 0")
      case in_line: True
      then have "ctx1 = ctx" using assms ok ok' Cons by (simp add: match_receive_def Let_def)
      also have "\<dots> = ctx\<lparr>receive_queue := r\<lparr>op_sgl := op_sgl r\<rparr> # rs\<rparr>" using Cons by simp
      finally show ?thesis using matches [OF True Cons, of "op_sgl r"] ok ok' by simp
    next
      case False
      then have "\<exists>sgl. ctx1 = ctx\<lparr>receive_queue := r\<lparr>op_sgl := sgl\<rparr> # rs\<rparr>"
        using assms ok ok' Cons True by (auto simp: match_receive_def split: prod.splits if_splits)
      then obtain sgl where "ctx1 = ctx\<lparr>receive_queue := r\<lparr>op_sgl := sgl\<rparr> # rs\<rparr>" ..
      then show ?thesis using matches [OF True Cons] ok ok' by simp
    qed
  qed
qed

context delivery_law
begin

lemma rnr_nack_effect:
  assumes "rnr_nack env now qp rsn ctx s = Some s'"
  shows "contexts s' = (contexts s)(qp \<mapsto> EnterRnrState ctx)" "W s' = W s + ev (Ack_rnr qp (ctx_scid ctx) rsn)"
    "pipeline s' = pipeline s"
proof -
  have e: "schedule now (ack_nack_latency env) (Ack_rnr qp (ctx_scid ctx) rsn) (put_context qp (EnterRnrState ctx) s) = Some s'"
    using assms by (simp add: rnr_nack_def)
  show "contexts s' = (contexts s)(qp \<mapsto> EnterRnrState ctx)" "W s' = W s + ev (Ack_rnr qp (ctx_scid ctx) rsn)"
    "pipeline s' = pipeline s"
    using schedule_frame [OF e] W_schedule [OF e] by (simp_all add: io_part_def put_context_def weight_def)
qed

lemma push_effect:
  assumes "push_to_host env now h c n r (put_context qp ctx s) = Some s'"
  shows "contexts s' = (contexts s)(qp \<mapsto> ctx)" "W s' = W s + (opt_w pc c + opt_w rx r)" "pipeline s' = pipeline s"
  using neutral_push_to_host [OF assms] W_push_to_host [OF assms] by simp_all

lemma W_draws [simp]: "W (s\<lparr>rnr_draws := n\<rparr>) = W s"
  by (simp add: weight_def)

text \<open>A received request is refused, or accepted and on its way to the host.\<close>

lemma Send_effect:
  assumes "ProcessIncomingSend env now qp p s = Some s'"
  obtains ctx where "contexts s qp = Some ctx" "contexts s' = (contexts s)(qp \<mapsto> EnterRnrState ctx)"
      "W s' = W s + ev (Ack_rnr qp (ctx_scid ctx) (pkt_rsn p))" "pipeline s' = pipeline s"
  | ctx r rs q t c where "contexts s qp = Some ctx" "IsRsnAcceptable ctx (pkt_rsn p) = Some True" "receive_queue ctx = r # rs"
      "contexts s' = (contexts s)(qp \<mapsto> (accept_rsn ctx)\<lparr>receive_queue := q\<rparr>)"
      "W s' = W s + rx (Rx_done t (ctx_scid ctx) (pkt_rsn p) c)" "pipeline s' = pipeline s"
      "q = rs \<and> c = Some (completion_callback r) \<or> (\<exists>sgl. q = r\<lparr>op_sgl := sgl\<rparr> # rs) \<and> c = None"
proof -
  obtain ctx ctx1 m e where c: "contexts s qp = Some ctx" "match_receive env p ctx = Some (ctx1, m, e)"
    using assms by (auto simp: ProcessIncomingSend_def split: bind_splits if_splits)
  from c(2) show ?thesis
  proof (cases rule: match_receive_cases)
    case mismatch
    then have "rnr_nack env now qp (pkt_rsn p) ctx s = Some s'"
      using assms c by (simp add: ProcessIncomingSend_def split: if_splits)
    from that(1) [OF c(1) rnr_nack_effect [OF this]] show ?thesis .
  next
    case (matches r rs sgl)
    let ?c = "if e then Some (completion_callback r) else None"
    let ?q = "if e then rs else r\<lparr>op_sgl := sgl\<rparr> # rs"
    have "push_to_host env now (pkt_destination_bifurcation_id p) None (Some (ucast (pkt_falcon_payload_length p)))
        (Some (Rx_done (now + ack_nack_latency env) (ctx_scid ctx) (pkt_rsn p) ?c))
        (put_context qp ((accept_rsn ctx)\<lparr>receive_queue := ?q\<rparr>) s) = Some s'"
      using assms c matches
      by (auto simp: ProcessIncomingSend_def Let_def accept_rsn_receive_queue split: if_splits)
    note e = push_effect [OF this]
    have "?q = rs \<and> ?c = Some (completion_callback r) \<or> (\<exists>sgl. ?q = r\<lparr>op_sgl := sgl\<rparr> # rs) \<and> ?c = None" by auto
    from that(2) [OF c(1) matches(3,2) e(1) _ e(3) this] e(2) show ?thesis by simp
  qed
qed

lemma Write_effect:
  assumes "ProcessIncomingWrite env now qp p s = Some s'"
  obtains ctx where "contexts s qp = Some ctx" "contexts s' = (contexts s)(qp \<mapsto> EnterRnrState ctx)"
      "W s' = W s + ev (Ack_rnr qp (ctx_scid ctx) (pkt_rsn p))" "pipeline s' = pipeline s"
  | ctx t where "contexts s qp = Some ctx" "IsRsnAcceptable ctx (pkt_rsn p) = Some True"
      "contexts s' = (contexts s)(qp \<mapsto> accept_rsn ctx)" "W s' = W s + rx (Rx_done t (ctx_scid ctx) (pkt_rsn p) None)"
      "pipeline s' = pipeline s"
proof -
  obtain ctx ok where c: "contexts s qp = Some ctx" "IsRsnAcceptable ctx (pkt_rsn p) = Some ok"
    using assms by (auto simp: ProcessIncomingWrite_def split: bind_splits)
  obtain s1 nack where n: "(if ok then draw_rnr (write_rnr_draw env) s else (s, True)) = (s1, nack)" by (meson surj_pair)
  then have s1: "contexts s1 = contexts s" "W s1 = W s" "pipeline s1 = pipeline s" "\<not> nack \<longrightarrow> ok"
    by (auto simp: draw_rnr_def split: if_splits)
  show ?thesis
  proof (cases nack)
    case True
    then have "rnr_nack env now qp (pkt_rsn p) ctx s1 = Some s'" using assms c n by (simp add: ProcessIncomingWrite_def)
    from rnr_nack_effect [OF this] show ?thesis using that(1) [OF c(1)] s1 by simp
  next
    case False
    then have "push_to_host env now (pkt_destination_bifurcation_id p) None (Some (ucast (pkt_falcon_payload_length p)))
        (Some (Rx_done (now + ack_nack_latency env) (ctx_scid ctx) (pkt_rsn p) None)) (put_context qp (accept_rsn ctx) s1) = Some s'"
      using assms c n by (simp add: ProcessIncomingWrite_def)
    from push_effect [OF this] show ?thesis using that(2) [OF c(1)] c(2) s1 False by simp
  qed
qed

lemma Read_effect:
  assumes "ProcessIncomingReadRequest env now qp p s = Some s'"
  obtains ctx where "contexts s qp = Some ctx" "contexts s' = (contexts s)(qp \<mapsto> EnterRnrState ctx)"
      "W s' = W s + ev (Ack_rnr qp (ctx_scid ctx) (pkt_rsn p))" "pipeline s' = pipeline s"
  | ctx where "contexts s qp = Some ctx" "IsRsnAcceptable ctx (pkt_rsn p) = Some True"
      "contexts s' = (contexts s)(qp \<mapsto> accept_rsn ctx)" "W s' = W s + ev (Ack_read qp p)" "pipeline s' = pipeline s"
proof -
  obtain ctx ok where c: "contexts s qp = Some ctx" "IsRsnAcceptable ctx (pkt_rsn p) = Some ok"
    using assms by (auto simp: ProcessIncomingReadRequest_def split: bind_splits)
  obtain s1 nack where n: "(if ok then draw_rnr (read_rnr_draw env) s else (s, True)) = (s1, nack)" by (meson surj_pair)
  then have s1: "contexts s1 = contexts s" "W s1 = W s" "pipeline s1 = pipeline s" "\<not> nack \<longrightarrow> ok"
    by (auto simp: draw_rnr_def split: if_splits)
  show ?thesis
  proof (cases "nack \<or> length (inbound_read_request_queue ctx) \<ge> unat (inbound_read_queue_depth env)")
    case True
    then have "rnr_nack env now qp (pkt_rsn p) ctx s1 = Some s'" using assms c n by (simp add: ProcessIncomingReadRequest_def)
    from rnr_nack_effect [OF this] show ?thesis using that(1) [OF c(1)] s1 by simp
  next
    case False
    then have e: "schedule now (ack_nack_latency env) (Ack_read qp p) (put_context qp (accept_rsn ctx) s1) = Some s'"
      using assms c n by (auto simp: ProcessIncomingReadRequest_def)
    have "contexts s' = (contexts s)(qp \<mapsto> accept_rsn ctx)" using schedule_frame(1) [OF e] s1(1) by simp
    moreover have "W s' = W s + ev (Ack_read qp p)" using W_schedule [OF e] s1(2) by simp
    moreover have "pipeline s' = pipeline s" using io_part_pipeline [OF schedule_frame(3) [OF e]] s1(3) by simp
    moreover have "IsRsnAcceptable ctx (pkt_rsn p) = Some True" using c(2) s1(4) False by simp
    ultimately show ?thesis using that(2) [OF c(1)] by blast
  qed
qed

text \<open>A packet of an operation of this side is finished.\<close>

lemma erase_rsn_effect:
  assumes "erase_rsn qp rsn s = Some s'" "contexts s qp = Some ctx"
  shows "contexts s' = (contexts s)(qp \<mapsto> ctx\<lparr>rsn_to_op := (rsn_to_op ctx)(rsn := None)\<rparr>)" "W s' = W s"
    "pipeline s' = pipeline s"
  using assms by (auto simp: erase_rsn_def)

lemma Response_effect:
  assumes "ProcessIncomingReadResponse env now qp p s = Some s'"
  obtains ctx ctx1 d where "contexts s qp = Some ctx" "finish_packet (pkt_rsn p) ctx = Some (ctx1, d)"
    "contexts s' = (contexts s)(qp \<mapsto> ctx1\<lparr>outbound_read_requests :=
        (if d = None then outbound_read_requests ctx1 else outbound_read_requests ctx1 - 1),
      rsn_to_op := (rsn_to_op ctx1)(pkt_rsn p := None)\<rparr>)"
    "W s' = W s + opt_w (\<lambda>c. pc (Op_done c Syn_kAck)) d" "pipeline s' = pipeline s"
proof -
  let ?h = "pkt_destination_bifurcation_id p"
  let ?n = "Some (ucast (pkt_falcon_payload_length p))"
  obtain ctx where ctx: "contexts s qp = Some ctx"
    using assms by (cases "contexts s qp") (simp_all add: ProcessIncomingReadResponse_def)
  obtain ctx1 d where fin: "finish_packet (pkt_rsn p) ctx = Some (ctx1, d)"
    using assms by (cases "finish_packet (pkt_rsn p) ctx") (auto simp: ProcessIncomingReadResponse_def ctx)
  note c = ctx fin
  let ?P = "case d of
        Some c \<Rightarrow> do {
          let ctx2 = ctx1\<lparr>outbound_read_requests := outbound_read_requests ctx1 - 1\<rparr>;
          below \<leftarrow> below_ord_limit env ctx2;
          let s1 = put_context qp ctx2 s;
          s2 \<leftarrow> (if below then AddQpToScheduleSet env now qp WT_kRequest s1 else Some s1);
          push_to_host env now ?h (Some (Op_done c Syn_kAck)) ?n None s2
        }
      | None \<Rightarrow> push_to_host env now ?h None ?n None (put_context qp ctx1 s)"
  have "Option.bind ?P (erase_rsn qp (pkt_rsn p)) = Some s'"
    using assms unfolding ProcessIncomingReadResponse_def ctx fin bind.simps prod.case .
  then obtain s3 where s3: "erase_rsn qp (pkt_rsn p) s3 = Some s'" "?P = Some s3"
    by (cases ?P) simp_all
  let ?ctx2 = "ctx1\<lparr>outbound_read_requests := (if d = None then outbound_read_requests ctx1 else outbound_read_requests ctx1 - 1)\<rparr>"
  have "contexts s3 = (contexts s)(qp \<mapsto> ?ctx2) \<and> W s3 = W s + opt_w (\<lambda>c. pc (Op_done c Syn_kAck)) d \<and> pipeline s3 = pipeline s"
  proof (cases d)
    case None
    then have "push_to_host env now ?h None ?n None (put_context qp ctx1 s) = Some s3" using s3(2) by simp
    from push_effect [OF this] show ?thesis using None by simp
  next
    case (Some c')
    let ?s1 = "put_context qp (ctx1\<lparr>outbound_read_requests := outbound_read_requests ctx1 - 1\<rparr>) s"
    let ?push = "push_to_host env now ?h (Some (Op_done c' Syn_kAck)) ?n None"
    have "Option.bind (below_ord_limit env (ctx1\<lparr>outbound_read_requests := outbound_read_requests ctx1 - 1\<rparr>))
        (\<lambda>b. Option.bind (if b then AddQpToScheduleSet env now qp WT_kRequest ?s1 else Some ?s1) ?push) = Some s3"
      using s3(2) unfolding Some option.case Let_def .
    then obtain b s2 where b: "(if b then AddQpToScheduleSet env now qp WT_kRequest ?s1 else Some ?s1) = Some s2" "?push s2 = Some s3"
      unfolding bind_eq_Some_conv by (elim exE conjE) (rule that)
    have "contexts s2 = contexts ?s1 \<and> W s2 = W ?s1 \<and> pipeline s2 = pipeline ?s1"
    proof (cases b)
      case True
      then have a: "AddQpToScheduleSet env now qp WT_kRequest ?s1 = Some s2" using b(1) by simp
      show ?thesis using AddQpToScheduleSet_frame(1) [OF a] W_AddQp [OF a] io_part_pipeline [OF AddQpToScheduleSet_frame(2) [OF a]] by simp
    qed (use b(1) in simp)
    moreover have "contexts s3 = contexts s2" "pipeline s3 = pipeline s2" "W s3 = W s2 + pc (Op_done c' Syn_kAck)"
      using neutral_push_to_host(2,3) [OF b(2)] W_push_to_host [OF b(2)] by simp_all
    ultimately show ?thesis by (simp add: Some)
  qed
  then have e: "contexts s3 qp = Some ?ctx2" "contexts s3 = (contexts s)(qp \<mapsto> ?ctx2)" "W s3 = W s + opt_w (\<lambda>c. pc (Op_done c Syn_kAck)) d"
    "pipeline s3 = pipeline s" by simp_all
  note r = erase_rsn_effect [OF s3(1) e(1)]
  show ?thesis
  proof (rule that [OF c])
    show "contexts s' = (contexts s)(qp \<mapsto> ctx1\<lparr>outbound_read_requests :=
        (if d = None then outbound_read_requests ctx1 else outbound_read_requests ctx1 - 1),
      rsn_to_op := (rsn_to_op ctx1)(pkt_rsn p := None)\<rparr>)" unfolding r(1) e(2) by simp
  qed (simp_all only: r(2,3) e(3,4))
qed

lemma Completion_effect:
  assumes "ProcessCompletion env now qp rsn syndrome h s = Some s'"
  obtains ctx ctx1 d where "contexts s qp = Some ctx" "finish_packet rsn ctx = Some (ctx1, d)"
    "contexts s' = (contexts s)(qp \<mapsto> ctx1\<lparr>rsn_to_op := (rsn_to_op ctx1)(rsn := None)\<rparr>)"
    "W s' = W s + opt_w (\<lambda>c. pc (Op_done c syndrome)) d" "pipeline s' = pipeline s"
proof -
  obtain ctx ctx1 d s2 where c: "contexts s qp = Some ctx" "finish_packet rsn ctx = Some (ctx1, d)"
    and s2: "erase_rsn qp rsn s2 = Some s'"
      "(case d of
        Some c \<Rightarrow> (if enable_pcie_delay_for_completion env
          then push_to_host env now h (Some (Op_done c syndrome)) None None (put_context qp ctx1 s)
          else Some ((put_context qp ctx1 s)\<lparr>called := called (put_context qp ctx1 s) @ [(c, syndrome)]\<rparr>))
      | None \<Rightarrow> Some (put_context qp ctx1 s)) = Some s2"
    using assms unfolding ProcessCompletion_def Let_def by (auto split: bind_splits)
  have "contexts s2 = (contexts s)(qp \<mapsto> ctx1) \<and> W s2 = W s + opt_w (\<lambda>c. pc (Op_done c syndrome)) d \<and> pipeline s2 = pipeline s"
  proof (cases "d \<noteq> None \<and> enable_pcie_delay_for_completion env")
    case True
    then obtain c' where "d = Some c'" "push_to_host env now h (Some (Op_done c' syndrome)) None None (put_context qp ctx1 s) = Some s2"
      using s2(2) by auto
    then show ?thesis using push_effect by fastforce
  next
    case False
    then show ?thesis using s2(2) by (cases d) (auto simp: put_context_def weight_def pcie_law ac_simps)
  qed
  then have e: "contexts s2 qp = Some ctx1" "contexts s2 = (contexts s)(qp \<mapsto> ctx1)" "W s2 = W s + opt_w (\<lambda>c. pc (Op_done c syndrome)) d"
    "pipeline s2 = pipeline s" by simp_all
  show ?thesis using erase_rsn_effect [OF s2(1) e(1)] e(2-4) by (intro that [OF c]) simp_all
qed

section \<open>The pipeline\<close>

lemma process_work_effect:
  assumes "process_work env now w s = Some s'"
  obtains (nack) qp p ctx where "w = Work_packet qp p" "is_request p" "contexts s qp = Some ctx"
      "contexts s' = (contexts s)(qp \<mapsto> EnterRnrState ctx)" "W s' = W s + ev (Ack_rnr qp (ctx_scid ctx) (pkt_rsn p))"
      "pipeline s' = pipeline s"
  | (send_ok) qp p ctx r rs q t c where "w = Work_packet qp p" "is_request p" "contexts s qp = Some ctx"
      "IsRsnAcceptable ctx (pkt_rsn p) = Some True" "receive_queue ctx = r # rs"
      "contexts s' = (contexts s)(qp \<mapsto> (accept_rsn ctx)\<lparr>receive_queue := q\<rparr>)"
      "W s' = W s + rx (Rx_done t (ctx_scid ctx) (pkt_rsn p) c)" "pipeline s' = pipeline s"
      "q = rs \<and> c = Some (completion_callback r) \<or> (\<exists>sgl. q = r\<lparr>op_sgl := sgl\<rparr> # rs) \<and> c = None"
  | (write_ok) qp p ctx t where "w = Work_packet qp p" "is_request p" "contexts s qp = Some ctx"
      "IsRsnAcceptable ctx (pkt_rsn p) = Some True" "contexts s' = (contexts s)(qp \<mapsto> accept_rsn ctx)"
      "W s' = W s + rx (Rx_done t (ctx_scid ctx) (pkt_rsn p) None)" "pipeline s' = pipeline s"
  | (read_ok) qp p ctx where "w = Work_packet qp p" "is_request p" "contexts s qp = Some ctx"
      "IsRsnAcceptable ctx (pkt_rsn p) = Some True" "contexts s' = (contexts s)(qp \<mapsto> accept_rsn ctx)"
      "W s' = W s + ev (Ack_read qp p)" "pipeline s' = pipeline s"
  | (finished) qp rsn ctx ctx1 d out syndrome where
      "(\<exists>p. w = Work_packet qp p \<and> \<not> is_request p) \<or> (\<exists>h. w = Work_completion qp rsn syndrome h)" "contexts s qp = Some ctx"
      "finish_packet rsn ctx = Some (ctx1, d)"
      "contexts s' = (contexts s)(qp \<mapsto> ctx1\<lparr>outbound_read_requests := out, rsn_to_op := (rsn_to_op ctx1)(rsn := None)\<rparr>)"
      "W s' = W s + opt_w (\<lambda>c. pc (Op_done c syndrome)) d" "pipeline s' = pipeline s"
proof (cases w)
  case (Work_completion qp rsn syndrome h)
  then have "ProcessCompletion env now qp rsn syndrome h s = Some s'" using assms by (simp add: process_work_def)
  then show ?thesis
  proof (cases rule: Completion_effect)
    case (1 ctx ctx1 d)
    show ?thesis by (rule finished [of qp rsn syndrome ctx ctx1 d "outbound_read_requests ctx1"]) (use Work_completion 1 in auto)
  qed
next
  case (Work_packet qp p)
  then have r: "ProcessRxTransaction env now qp p s = Some s'" using assms by (simp add: process_work_def)
  show ?thesis
  proof (cases "pkt_opcode p")
    case kSendOnly
    then have e: "ProcessIncomingSend env now qp p s = Some s'" and q: "is_request p"
      using r by (simp_all add: ProcessRxTransaction_def is_request_def)
    from e show ?thesis
    proof (cases rule: Send_effect)
      case 1
      show ?thesis by (rule nack [OF Work_packet q 1])
    next
      case 2
      show ?thesis by (rule send_ok [OF Work_packet q 2])
    qed
  next
    case kWriteOnly
    then have e: "ProcessIncomingWrite env now qp p s = Some s'" and q: "is_request p"
      using r by (simp_all add: ProcessRxTransaction_def is_request_def)
    from e show ?thesis
    proof (cases rule: Write_effect)
      case 1
      show ?thesis by (rule nack [OF Work_packet q 1])
    next
      case 2
      show ?thesis by (rule write_ok [OF Work_packet q 2])
    qed
  next
    case kReadRequest
    then have e: "ProcessIncomingReadRequest env now qp p s = Some s'" and q: "is_request p"
      using r by (simp_all add: ProcessRxTransaction_def is_request_def)
    from e show ?thesis
    proof (cases rule: Read_effect)
      case 1
      show ?thesis by (rule nack [OF Work_packet q 1])
    next
      case 2
      show ?thesis by (rule read_ok [OF Work_packet q 2])
    qed
  next
    case kReadResponseOnly
    then have "ProcessIncomingReadResponse env now qp p s = Some s'" "\<not> is_request p"
      using r by (simp_all add: ProcessRxTransaction_def is_request_def)
    then show ?thesis
    proof (cases rule: Response_effect)
      case (1 ctx ctx1 d)
      show ?thesis by (rule finished [OF _ 1]) (use Work_packet \<open>\<not> is_request p\<close> in auto)
    qed
  qed (use r in \<open>simp_all add: ProcessRxTransaction_def\<close>)
qed

lemma PipelineDequeue_effect:
  assumes "PipelineDequeue env now s = Some s'"
  obtains (nothing) "contexts s' = contexts s" "W s' = W s"
  | (work) w s1 s2 where "process_work env now w s1 = Some s2" "contexts s1 = contexts s" "W s1 = W s"
      "contexts s' = contexts s2" "W s' + pl w = W s2"
proof (cases "pipeline s")
  case Nil
  then have "contexts s' = contexts s" "W s' = W s" using assms by (auto simp: PipelineDequeue_def weight_def)
  then show ?thesis by (rule nothing)
next
  case (Cons w ws)
  let ?next = "pipeline_last_run_time s + Ticks (chip_cycle env)"
  let ?s1 = "s\<lparr>pipeline_last_run_time := Ticks now\<rparr>"
  show ?thesis
  proof (cases "Ticks now < ?next")
    case True
    then obtain t where e: "schedule now (t - now) Pipeline_dequeue s = Some s'"
      using assms Cons by (auto simp: PipelineDequeue_def Let_def split: duration.splits)
    show ?thesis by (rule nothing) (use schedule_frame(1) [OF e] W_schedule [OF e] in \<open>simp_all add: tick_law\<close>)
  next
    case False
    then obtain s2 where s2: "process_work env now w ?s1 = Some s2"
      "schedule now (chip_cycle env) Pipeline_dequeue (s2\<lparr>pipeline := tl (pipeline s2)\<rparr>) = Some s'"
      using assms Cons by (auto simp: PipelineDequeue_def Let_def split: bind_splits)
    have "pipeline s2 = pipeline ?s1" using s2(1) by (cases rule: process_work_effect) simp_all
    then have p: "pipeline s2 = w # ws" using Cons by simp
    have "W s' = W (s2\<lparr>pipeline := tl (pipeline s2)\<rparr>)" using W_schedule [OF s2(2)] by (simp add: tick_law)
    then have "W s' + pl w = W s2" using p by (simp add: weight_def ac_simps)
    moreover have "contexts s' = contexts s2" using schedule_frame(1) [OF s2(2)] by simp
    moreover have "W ?s1 = W s" by (simp add: weight_def)
    ultimately show ?thesis using work [OF s2(1)] by simp
  qed
qed

lemma enqueue_work_effect:
  assumes "rdma_enqueue_work env now w s = Some s'"
  obtains (nothing) "contexts s' = contexts s" "W s' = W s + pl w"
  | (work) v s1 s2 where "process_work env now v s1 = Some s2" "contexts s1 = contexts s" "W s1 = W s + pl w"
      "contexts s' = contexts s2" "W s' + pl v = W s2"
proof (cases "pipeline_active s")
  case True
  then have "contexts s' = contexts s" "W s' = W s + pl w"
    using assms by (auto simp: rdma_enqueue_work_def Let_def weight_def ac_simps)
  then show ?thesis by (rule nothing)
next
  case False
  let ?s1 = "s\<lparr>pipeline := pipeline s @ [w], pipeline_active := True\<rparr>"
  have W1: "W ?s1 = W s + pl w" by (simp add: weight_def ac_simps)
  have "PipelineDequeue env now ?s1 = Some s'" using assms False by (simp add: rdma_enqueue_work_def Let_def)
  then show ?thesis
  proof (cases rule: PipelineDequeue_effect)
    case nothing
    then show ?thesis using that(1) W1 by simp
  next
    case (work v s1 s2)
    then show ?thesis using that(2) W1 by simp
  qed
qed

section \<open>Steps\<close>

text \<open>What the calls bring in.\<close>

fun gain :: "'c rdma_action \<Rightarrow> 'm multiset" where
  "gain (Rx_transaction p) = pl (Work_packet (pkt_dest_qp_id p) p)"
| "gain (Falcon_completion qp rsn syndrome h) = pl (Work_completion qp rsn syndrome h)"
| "gain _ = {#}"

lemma wake_added_effect:
  assumes "(if b then AddQpToScheduleSet env now qp wt s else Some s) = Some s'"
  shows "contexts s' = contexts s" "W s' = W s"
proof -
  have "contexts s' = contexts s \<and> W s' = W s"
  proof (cases b)
    case True
    then have a: "AddQpToScheduleSet env now qp wt s = Some s'" using assms by simp
    show ?thesis using AddQpToScheduleSet_frame(1) [OF a] W_AddQp [OF a] by simp
  qed (use assms in simp)
  then show "contexts s' = contexts s" "W s' = W s" by simp_all
qed

lemma PostOp_effect:
  assumes "PostOp env now qp op s = Some s'"
  obtains ctx ctx1 where "contexts s qp = Some ctx" "base_PostOp op ctx = Some ctx1" "contexts s' = (contexts s)(qp \<mapsto> ctx1)"
    "W s' = W s"
proof -
  obtain ctx ctx1 where c: "contexts s qp = Some ctx" "base_PostOp op ctx = Some ctx1"
    using assms by (auto simp: PostOp_def split: bind_splits)
  have "\<exists>b. (if b then AddQpToScheduleSet env now qp WT_kRequest (put_context qp ctx1 s) else Some (put_context qp ctx1 s)) = Some s'"
    using assms c by (auto simp: PostOp_def Let_def split: bind_splits if_splits intro: exI [of _ True] exI [of _ False])
  then obtain b where "(if b then AddQpToScheduleSet env now qp WT_kRequest (put_context qp ctx1 s) else Some (put_context qp ctx1 s)) = Some s'" ..
  from wake_added_effect [OF this] show ?thesis by (intro that [OF c]) simp_all
qed

lemma enqueue_response_effect:
  assumes "enqueue_response env now qp p s = Some s'"
  obtains ctx q where "contexts s qp = Some ctx" "contexts s' = (contexts s)(qp \<mapsto> ctx\<lparr>inbound_read_request_queue := q\<rparr>)" "W s' = W s"
proof -
  obtain ctx where c: "contexts s qp = Some ctx" using assms by (auto simp: enqueue_response_def split: bind_splits)
  let ?q = "inbound_read_request_queue ctx @ [\<lparr>irr_rsn = pkt_rsn p, irr_sgl = pkt_sgl p\<rparr>]"
  let ?s1 = "put_context qp (ctx\<lparr>inbound_read_request_queue := ?q\<rparr>) s"
  have "\<exists>b. (if b then AddQpToScheduleSet env now qp WT_kResponse ?s1 else Some ?s1) = Some s'"
    using assms c by (auto simp: enqueue_response_def Let_def split: bind_splits if_splits intro: exI [of _ True] exI [of _ False])
  then obtain b where "(if b then AddQpToScheduleSet env now qp WT_kResponse ?s1 else Some ?s1) = Some s'" ..
  from wake_added_effect [OF this] show ?thesis by (intro that [OF c, of ?q]) simp_all
qed

lemma ReturnFalconCredit_effect:
  assumes "ReturnFalconCredit env now qp c s = Some s'"
  obtains ctx u where "contexts s qp = Some ctx" "contexts s' = (contexts s)(qp \<mapsto> ctx\<lparr>credit_usage := u\<rparr>)" "W s' = W s"
proof -
  obtain ctx where c: "contexts s qp = Some ctx" "c \<le> credit_usage ctx"
    using assms by (auto simp: ReturnFalconCredit_def split: bind_splits if_splits)
  let ?s1 = "put_context qp (ctx\<lparr>credit_usage := credit_usage ctx - c\<rparr>) s"
  obtain s2 s3 where s: "wake_qp env now qp WT_kRequest ?s1 = Some s2" "wake_qp env now qp WT_kResponse s2 = Some s3"
    "ReturnFalconCredits env now c s3 = Some s'"
    using assms c by (auto simp: ReturnFalconCredit_def split: bind_splits)
  show ?thesis
    using W_wake_qp [OF s(1)] W_wake_qp [OF s(2)] W_ReturnCredits [OF s(3)] ReturnFalconCredits_frame(1) [OF s(3)]
    by (intro that [OF c(1), of "credit_usage ctx - c"]) simp_all
qed

lemma CreateRcQp_effect:
  assumes "CreateRcQp env l r scid c mode s = Some s'"
  shows "contexts s l = None" "contexts s' = (contexts s)(l \<mapsto> (InitializeQpContext env l scid c)\<lparr>rc_mode := mode, ctx_dest_qp_id := r\<rparr>)"
    "W s' = W s"
proof -
  from CreateRcQp_cases [OF assms] obtain ctx where c: "contexts s l = None"
    "ctx = (InitializeQpContext env l scid c)\<lparr>rc_mode := mode, ctx_dest_qp_id := r\<rparr>"
    "s' = s\<lparr>contexts := (contexts s)(l \<mapsto> ctx), falcon_calls := falcon_calls s @
       [SetupNewQp scid l (if mode = kOrderedRc then kOrdered else kUnordered)]\<rparr>" by blast
  show "contexts s l = None" by (rule c(1))
  show "contexts s' = (contexts s)(l \<mapsto> (InitializeQpContext env l scid c)\<lparr>rc_mode := mode, ctx_dest_qp_id := r\<rparr>)"
    by (simp add: c(2,3))
  show "W s' = W s" by (simp add: c(3) weight_def call_law)
qed

lemma event_effect:
  assumes "run_event env now e s = Some s'"
  obtains (same) "contexts s' = contexts s" "W s' = W s + ev e"
  | (processed) v s1 s2 where "process_work env now v s1 = Some s2" "contexts s1 = contexts s" "W s1 = W s + ev e"
      "contexts s' = contexts s2" "W s' + pl v = W s2"
  | (post) qp op ctx ctx1 where "e = Post qp op" "contexts s qp = Some ctx" "base_PostOp op ctx = Some ctx1"
      "contexts s' = (contexts s)(qp \<mapsto> ctx1)" "W s' = W s"
  | (sent) qp where "e = Qp_found qp" "SendTransaction env now qp s = Some s'" "W s' = W s"
  | (ack_read) qp p ctx where "e = Ack_read qp p" "contexts s' = contexts s" "contexts s qp = Some ctx"
      "W s' = W s + fc (AckTransaction (ctx_scid ctx) (pkt_rsn p) Syn_kAck 0)"
  | (queued) qp p ctx q where "e = Enqueue_response qp p" "contexts s qp = Some ctx"
      "contexts s' = (contexts s)(qp \<mapsto> ctx\<lparr>inbound_read_request_queue := q\<rparr>)" "W s' = W s"
proof (cases e)
  case (Add_qp qp wt)
  then have a: "AddQpToScheduleSet env now qp wt s = Some s'" using assms by simp
  show ?thesis
    by (rule same) (use AddQpToScheduleSet_frame(1) [OF a] W_AddQp [OF a] sched_law [of e] Add_qp in simp_all)
next
  case (Readd_qp qp)
  then have a: "AddQpToScheduleSet env now qp (current_work_type s) s = Some s'" using assms by simp
  show ?thesis
    by (rule same) (use AddQpToScheduleSet_frame(1) [OF a] W_AddQp [OF a] sched_law [of e] Readd_qp in simp_all)
next
  case Run_scheduler
  then have a: "RunWorkScheduler env now s = Some s'" using assms by simp
  show ?thesis
    by (rule same) (use RunWorkScheduler_frame(1) [OF a] W_Run [OF a] sched_law [of e] Run_scheduler in simp_all)
next
  case (Qp_found qp)
  then have a: "SendTransaction env now qp s = Some s'" using assms by simp
  show ?thesis by (rule sent [OF Qp_found a W_Send [OF a]])
next
  case (Initiate p)
  then have "s' = s\<lparr>falcon_calls := falcon_calls s @ [InitiateTransaction p]\<rparr>" using assms by simp
  then show ?thesis by (intro same) (use sched_law [of e] Initiate in \<open>simp_all add: weight_def call_law\<close>)
next
  case (Post qp op)
  then have "PostOp env now qp op s = Some s'" using assms by simp
  then show ?thesis by (cases rule: PostOp_effect) (rule post [OF Post])
next
  case (Rx_found qp p)
  then have "rdma_enqueue_work env now (Work_packet qp p) s = Some s'" using assms by (auto split: if_splits)
  then show ?thesis
  proof (cases rule: enqueue_work_effect)
    case nothing
    then show ?thesis by (intro same) (simp_all add: Rx_found found_law)
  next
    case (work v s1 s2)
    then show ?thesis by (intro processed [of v s1 s2]) (simp_all add: Rx_found found_law)
  qed
next
  case (Completion_found qp rsn syndrome h)
  then have "rdma_enqueue_work env now (Work_completion qp rsn syndrome h) s = Some s'" using assms by (auto split: if_splits)
  then show ?thesis
  proof (cases rule: enqueue_work_effect)
    case nothing
    then show ?thesis by (intro same) (simp_all add: Completion_found found_law)
  next
    case (work v s1 s2)
    then show ?thesis by (intro processed [of v s1 s2]) (simp_all add: Completion_found found_law)
  qed
next
  case Pipeline_dequeue
  then have "PipelineDequeue env now s = Some s'" using assms by simp
  then show ?thesis
  proof (cases rule: PipelineDequeue_effect)
    case nothing
    then show ?thesis by (intro same) (simp_all add: Pipeline_dequeue tick_law)
  next
    case (work v s1 s2)
    then show ?thesis by (intro processed [of v s1 s2]) (simp_all add: Pipeline_dequeue tick_law)
  qed
next
  case (Ack_rnr qp scid rsn)
  then have "\<exists>t. s' = s\<lparr>falcon_calls := falcon_calls s @ [AckTransaction scid rsn kRnrNak t]\<rparr>"
    using assms by (auto split: bind_splits)
  then obtain t where t: "s' = s\<lparr>falcon_calls := falcon_calls s @ [AckTransaction scid rsn kRnrNak t]\<rparr>" ..
  show ?thesis by (rule same) (use rnr_law [of qp scid rsn t] Ack_rnr t in \<open>simp_all add: weight_def ac_simps\<close>)
next
  case (Ack_done scid rsn c)
  then have "s' = ack_done scid rsn c s" using assms by simp
  moreover have "ev e = fc (AckTransaction scid rsn Syn_kAck 0) + opt_w (\<lambda>x. cd (x, Syn_kAck)) c"
    using late_law [of scid rsn c 0] ack_law [of 0 scid rsn c] Ack_done by simp
  ultimately show ?thesis by (intro same) (simp_all add: ack_done_def weight_def ac_simps split: option.split)
next
  case (Ack_read qp p)
  then obtain ctx where c: "contexts s qp = Some ctx"
    "schedule now (response_latency env) (Enqueue_response qp p)
       (s\<lparr>falcon_calls := falcon_calls s @ [AckTransaction (ctx_scid ctx) (pkt_rsn p) Syn_kAck 0]\<rparr>) = Some s'"
    using assms by (auto split: bind_splits)
  show ?thesis by (rule ack_read [OF Ack_read _ c(1)])
    (use schedule_frame(1) [OF c(2)] W_schedule [OF c(2)] in \<open>simp_all add: weight_def response_law ac_simps\<close>)
next
  case (Enqueue_response qp p)
  then have "enqueue_response env now qp p s = Some s'" using assms by simp
  then show ?thesis by (cases rule: enqueue_response_effect) (rule queued [OF Enqueue_response])
qed

text \<open>A step: the operation it posts, the work it processes, or what it brings in.\<close>

lemma step_effect:
  assumes "rdma_step env now a s = Some s'"
  obtains (same) "contexts s' = contexts s" "W s' = W s + gain a" "\<forall>qp v sgl i c d. a \<noteq> Perform_op qp v sgl i c d"
  | (perform) qp v sgl i c d op where "a = Perform_op qp v sgl i c d" "contexts s' = contexts s" "completion_callback op = c"
      "W s' = W s + ev (Post qp op)" "n_pkts op = 0" "n_pkt_finished op = 0" "\<not> is_scheduled op"
  | (created) l r scid c m where "a = Create_rc_qp l r scid c m" "contexts s l = None" "W s' = W s"
      "contexts s' = (contexts s)(l \<mapsto> (InitializeQpContext env l scid c)\<lparr>rc_mode := m, ctx_dest_qp_id := r\<rparr>)"
  | (returned) qp c ctx u where "a = Return_credit qp c" "contexts s qp = Some ctx"
      "contexts s' = (contexts s)(qp \<mapsto> ctx\<lparr>credit_usage := u\<rparr>)" "W s' = W s"
  | (event) e s0 where "a = Rdma_event e" "run_event env now e s0 = Some s'" "contexts s0 = contexts s" "W s0 + ev e = W s"
      "current_work_type s0 = current_work_type s"
proof (cases a)
  case (Create_rc_qp l r scid c m)
  then have "CreateRcQp env l r scid c m s = Some s'" using assms by simp
  from CreateRcQp_effect [OF this] show ?thesis by (intro created [OF Create_rc_qp])
next
  case (Perform_op qp v sgl i c d)
  then obtain op where op: "schedule now 0 (Post qp op) s = Some s'"
    "op = sgl_RdmaOp v sgl c d \<or> op = inline_RdmaOp v (sum_list sgl) c d"
    using assms by (auto simp: PerformOp_def split: bind_splits if_splits)
  have f: "completion_callback op = c" "n_pkts op = 0" "n_pkt_finished op = 0" "\<not> is_scheduled op"
    using op(2) by (auto simp: sgl_RdmaOp_def inline_RdmaOp_def)
  show ?thesis by (rule perform [OF Perform_op schedule_frame(1) [OF op(1)] f(1) W_schedule [OF op(1)] f(2-4)])
next
  case (Rx_transaction p)
  then have e: "schedule now 0 (Rx_found (pkt_dest_qp_id p) p) s = Some s'" using assms by (simp add: HandleRxTransaction_def)
  show ?thesis by (rule same) (use schedule_frame(1) [OF e] W_schedule [OF e] Rx_transaction in \<open>simp_all add: found_law\<close>)
next
  case (Falcon_completion qp rsn syndrome h)
  then have e: "schedule now 0 (Completion_found qp rsn syndrome h) s = Some s'" using assms by (simp add: HandleCompletion_def)
  show ?thesis by (rule same) (use schedule_frame(1) [OF e] W_schedule [OF e] Falcon_completion in \<open>simp_all add: found_law\<close>)
next
  case (Return_credit qp c)
  then have "ReturnFalconCredit env now qp c s = Some s'" using assms by simp
  then show ?thesis by (cases rule: ReturnFalconCredit_effect) (rule returned [OF Return_credit])
next
  case (Set_xoff r g)
  then have e: "sched_SetXoff env now r g s = Some s'" using assms by simp
  show ?thesis by (rule same) (use sched_SetXoff_frame(1) [OF e] W_SetXoff [OF e] Set_xoff in simp_all)
next
  case (Rdma_event e)
  let ?s0 = "s\<lparr>rdma_events := remove1 (now, e) (rdma_events s)\<rparr>"
  have e: "(now, e) \<in> set (rdma_events s)" "run_event env now e ?s0 = Some s'"
    using assms by (auto simp: Rdma_event split: if_splits)
  show ?thesis by (rule event [OF Rdma_event e(2) _ W_remove [OF e(1)]]) simp_all
next
  case (Host_event h e)
  then have e: "host_event env now h e s = Some s'" "(now, e) \<in> set (mem_events (hosts s ! h))"
    using assms by (auto split: if_splits)
  show ?thesis by (rule same) (use neutral_host_event(2) [OF e(1)] W_host_event [OF e] Host_event in simp_all)
qed

end

end
