(* ===== verification/Rdma_Queue_Pairs.thy ===== *)
theory Rdma_Queue_Pairs
  imports Rdma_Effects
begin

text \<open>
  The operations of one queue pair. An operation waits in the send queue until its last packet is created, then in
  the completion queue until all its packets are finished; the packets outstanding and those finished together are
  always those it was cut into. So the pointers of the completion queue and of the map from sequence numbers are
  valid, and an operation leaves exactly when its last outstanding packet is finished.
\<close>

definition outstanding :: "'c FalconQpContext \<Rightarrow> nat \<Rightarrow> u32 set" where
  "outstanding ctx a = {r. rsn_to_op ctx r = Some a}"

text \<open>An operation that is all sent, under the key \<open>r\<close>; and one that is not.\<close>

definition sent_inv :: "'c FalconQpContext \<Rightarrow> nat \<Rightarrow> u32 \<Rightarrow> bool" where
  "sent_inv ctx a r \<longleftrightarrow> (\<exists>op. ops ctx a = Some op \<and> r < next_rsn ctx \<and> end_psn op = r \<and> 0 < n_pkts op \<and>
     outstanding ctx a \<noteq> {} \<and> unat (n_pkts op) = unat (n_pkt_finished op) + card (outstanding ctx a))"

definition wait_inv :: "'c FalconQpContext \<Rightarrow> nat \<Rightarrow> bool" where
  "wait_inv ctx a \<longleftrightarrow> (\<exists>op. ops ctx a = Some op \<and> n_pkts op = 0 \<and>
     (if is_scheduled op then a = hd (send_queue ctx) \<and> op_psn op \<le> next_rsn ctx \<and>
         unat (next_rsn ctx) - unat (op_psn op) = unat (n_pkt_finished op) + card (outstanding ctx a)
      else n_pkt_finished op = 0 \<and> outstanding ctx a = {}))"

definition ctx_inv :: "'c FalconQpContext \<Rightarrow> bool" where
  "ctx_inv ctx \<longleftrightarrow> finite (dom (ops ctx)) \<and> (\<forall>a \<in> dom (ops ctx). a < next_address ctx) \<and> distinct (send_queue ctx) \<and>
     dom (ops ctx) = set (send_queue ctx) \<union> ran (completion_queue ctx) \<and>
     set (send_queue ctx) \<inter> ran (completion_queue ctx) = {} \<and>
     (\<forall>r a. rsn_to_op ctx r = Some a \<longrightarrow> r < next_rsn ctx \<and> a \<in> dom (ops ctx)) \<and>
     (\<forall>r a. completion_queue ctx r = Some a \<longrightarrow> sent_inv ctx a r) \<and> (\<forall>a \<in> set (send_queue ctx). wait_inv ctx a)"

lemma ctx_invD:
  assumes "ctx_inv ctx"
  shows "finite (dom (ops ctx))" "a \<in> dom (ops ctx) \<Longrightarrow> a < next_address ctx" "distinct (send_queue ctx)"
    "dom (ops ctx) = set (send_queue ctx) \<union> ran (completion_queue ctx)"
    "set (send_queue ctx) \<inter> ran (completion_queue ctx) = {}"
    "rsn_to_op ctx r = Some a \<Longrightarrow> r < next_rsn ctx \<and> a \<in> dom (ops ctx)"
    "completion_queue ctx r = Some a \<Longrightarrow> sent_inv ctx a r" "a \<in> set (send_queue ctx) \<Longrightarrow> wait_inv ctx a"
  using assms unfolding ctx_inv_def by blast+

text \<open>What the invariant reads.\<close>

definition core where
  "core ctx = (ops ctx, next_address ctx, send_queue ctx, completion_queue ctx, rsn_to_op ctx, next_rsn ctx)"

lemma ctx_inv_cong: "core ctx' = core ctx \<Longrightarrow> ctx_inv ctx' = ctx_inv ctx"
  by (simp add: core_def ctx_inv_def sent_inv_def wait_inv_def outstanding_def)

lemma finite_outstanding [simp]: "finite (outstanding ctx a)"
  by simp

section \<open>Posting\<close>

definition fresh_op :: "'c RdmaOp \<Rightarrow> bool" where
  "fresh_op op \<longleftrightarrow> n_pkts op = 0 \<and> n_pkt_finished op = 0 \<and> \<not> is_scheduled op"

lemma base_PostOp_cases:
  assumes "base_PostOp op ctx = Some ctx'"
  obtains op1 where "op1 = op\<lparr>op_dest_qp_id := op_dest_qp_id op1\<rparr>"
    "op_opcode op = V_kRecv" "ctx' = ctx\<lparr>receive_queue := receive_queue ctx @ [op1]\<rparr>"
  | op1 where "op1 = op\<lparr>op_dest_qp_id := op_dest_qp_id op1\<rparr>" "op_opcode op \<noteq> V_kRecv"
    "ctx' = ctx\<lparr>ops := (ops ctx)(next_address ctx \<mapsto> op1), send_queue := send_queue ctx @ [next_address ctx],
              next_address := Suc (next_address ctx)\<rparr>"
proof -
  let ?op1 = "if is_connected ctx then op\<lparr>op_dest_qp_id := ctx_dest_qp_id ctx\<rparr> else op"
  have e: "?op1 = op\<lparr>op_dest_qp_id := op_dest_qp_id ?op1\<rparr>" "op_opcode ?op1 = op_opcode op" by simp_all
  have "ctx' = (if op_opcode ?op1 = V_kRecv then ctx\<lparr>receive_queue := receive_queue ctx @ [?op1]\<rparr>
       else ctx\<lparr>ops := (ops ctx)(next_address ctx \<mapsto> ?op1), send_queue := send_queue ctx @ [next_address ctx],
              next_address := Suc (next_address ctx)\<rparr>)"
    using assms by (simp add: base_PostOp_def Let_def split: if_splits)
  then show ?thesis using that(1) [OF e(1)] that(2) [OF e(1)] e(2) by (cases "op_opcode op = V_kRecv") simp_all
qed

lemma post_inv:
  assumes "ctx_inv ctx" "fresh_op op"
  shows "ctx_inv (ctx\<lparr>ops := (ops ctx)(next_address ctx \<mapsto> op), send_queue := send_queue ctx @ [next_address ctx],
              next_address := Suc (next_address ctx)\<rparr>)" (is "ctx_inv ?c")
proof -
  note i = ctx_invD [OF assms(1)]
  let ?n = "next_address ctx"
  have n: "?n \<notin> dom (ops ctx)" using i(2) by blast
  then have nq: "?n \<notin> set (send_queue ctx)" "?n \<notin> ran (completion_queue ctx)" using i(4) by blast+
  have o: "outstanding ?c a = outstanding ctx a" for a by (simp add: outstanding_def)
  have on: "outstanding ctx ?n = {}" using i(6) n by (auto simp: outstanding_def)
  have s: "sent_inv ?c a r" if "completion_queue ctx r = Some a" for a r
  proof -
    have "a \<noteq> ?n" using nq that by (auto simp: ran_def)
    then show ?thesis using i(7) [OF that] by (simp add: sent_inv_def o)
  qed
  have w: "wait_inv ?c a" if "a \<in> set (send_queue ?c)" for a
  proof (cases "a = ?n")
    case True
    then show ?thesis using assms(2) on by (auto simp: wait_inv_def o fresh_op_def)
  next
    case False
    then have a: "a \<in> set (send_queue ctx)" using that by simp
    then have "send_queue ctx \<noteq> []" by auto
    moreover obtain op' where "ops ctx a = Some op'" "n_pkts op' = 0"
      "if is_scheduled op' then a = hd (send_queue ctx) \<and> op_psn op' \<le> next_rsn ctx \<and>
         unat (next_rsn ctx) - unat (op_psn op') = unat (n_pkt_finished op') + card (outstanding ctx a)
       else n_pkt_finished op' = 0 \<and> outstanding ctx a = {}"
      using i(8) [OF a] unfolding wait_inv_def by blast
    ultimately show ?thesis using False unfolding wait_inv_def o by (intro exI [of _ op']) simp
  qed
  show ?thesis unfolding ctx_inv_def
    using i(1-6) nq s w by (auto simp: less_Suc_eq)
qed

section \<open>Creating a packet\<close>

lemma load_packet_op:
  assumes "load_packet cp op = Some (p, op1, is_end)"
  obtains sgl where "op1 = op\<lparr>op_sgl := sgl\<rparr>" "pkt_is_last_packet p = False"
proof -
  have "\<exists>sgl. op1 = op\<lparr>op_sgl := sgl\<rparr>"
    using assms by (auto simp: load_packet_def Let_def split: bind_splits if_splits prod.splits intro: exI [of _ "op_sgl op"])
  moreover have "pkt_is_last_packet p = False"
    using assms by (auto simp: load_packet_def Let_def empty_rdma_packet_def split: bind_splits if_splits prod.splits)
  ultimately show ?thesis using that by blast
qed

lemma CreateRequestPacket_cases:
  assumes "CreateRequestPacket cp ctx = Some (ctx', p)"
  obtains a op p0 op1 is_end where "send_queue ctx = a # tl (send_queue ctx)" "ops ctx a = Some op"
    "load_packet cp op = Some (p0, op1, is_end)" "place_packet ctx a p0 op1 is_end = (ctx', p)"
  using assms by (cases "send_queue ctx") (auto simp: CreateRequestPacket_def Let_def split: bind_splits if_splits)

lemma not_le_mono_card:
  fixes r :: u32
  assumes "unat r + 1 < 2 ^ 32"
  shows "unat (r + 1) = unat r + 1"
  using assms by (simp add: unat_word_ariths)

lemma place_inv:
  assumes i: "ctx_inv ctx" and sq: "send_queue ctx = a # q" and op: "ops ctx a = Some op"
    and op1: "op1 = op\<lparr>op_sgl := sgl\<rparr>" and ctx': "place_packet ctx a p op1 is_end = (ctx', p')"
    and wrap: "unat (next_rsn ctx) + 1 < 2 ^ 32"
  shows "ctx_inv ctx'" "next_rsn ctx' = next_rsn ctx + 1"
    "\<exists>op'. ops ctx' = (ops ctx)(a \<mapsto> op') \<and> completion_callback op' = completion_callback op" "receive_queue ctx' = receive_queue ctx"
proof -
  note d = ctx_invD [OF i]
  let ?n = "next_rsn ctx"
  have n: "unat (?n + 1) = unat ?n + 1" using wrap by (rule not_le_mono_card)
  have lt: "r < ?n \<Longrightarrow> r < ?n + 1" for r using n by (simp add: word_less_nat_alt)
  have less: "?n < ?n + 1" using n by (simp add: word_less_nat_alt)
  have new: "rsn_to_op ctx ?n = None" "completion_queue ctx ?n = None"
    using d(6) [of ?n] d(7) [of ?n] by (auto simp: sent_inv_def dest: not_None_eq [THEN iffD1])
  define op2 where "op2 = (if is_scheduled op1 then op1 else op1\<lparr>is_scheduled := True, op_psn := ?n\<rparr>)"
  obtain w where w: "ops ctx a = Some w" "n_pkts w = 0" "if is_scheduled w then a = hd (send_queue ctx) \<and> op_psn w \<le> ?n \<and>
         unat ?n - unat (op_psn w) = unat (n_pkt_finished w) + card (outstanding ctx a)
      else n_pkt_finished w = 0 \<and> outstanding ctx a = {}"
    using d(8) [of a] sq unfolding wait_inv_def by auto
  then have w': "w = op" using op by simp
  have c2: "is_scheduled op2" "n_pkts op2 = 0" "n_pkt_finished op2 = n_pkt_finished op" "completion_callback op2 = completion_callback op"
    "op_psn op2 \<le> ?n" "unat ?n - unat (op_psn op2) = unat (n_pkt_finished op) + card (outstanding ctx a)"
    using w(2,3) unfolding w' op2_def op1 by (auto split: if_splits)
  define final where "final = (if is_end then op2\<lparr>end_psn := ?n, n_pkts := ?n - op_psn op2 + 1\<rparr> else op2)"
  have e: "ops ctx' = (ops ctx)(a \<mapsto> final)" "rsn_to_op ctx' = (rsn_to_op ctx)(?n \<mapsto> a)" "next_rsn ctx' = ?n + 1"
    "next_address ctx' = next_address ctx" "receive_queue ctx' = receive_queue ctx"
    "send_queue ctx' = (if is_end then q else a # q)"
    "completion_queue ctx' = (if is_end then (completion_queue ctx)(?n \<mapsto> a) else completion_queue ctx)"
    using ctx' new sq unfolding place_packet_def Let_def op2_def [symmetric]
    by (auto simp: emplace_def final_def split: if_splits)
  have out: "outstanding ctx' b = (if b = a then insert ?n (outstanding ctx a) else outstanding ctx b)" for b
    using new(1) by (auto simp: outstanding_def e(2))
  have notin: "?n \<notin> outstanding ctx b" for b using new(1) by (simp add: outstanding_def)
  have ad: "a \<in> dom (ops ctx)" "a \<notin> ran (completion_queue ctx)" "a \<notin> set q" "distinct q"
    using op d(3,5) sq by auto
  have sub: "unat (?n - op_psn op2 + 1) = unat ?n - unat (op_psn op2) + 1"
  proof -
    have "unat (?n - op_psn op2) = unat ?n - unat (op_psn op2)" using c2(5) by (simp add: unat_sub)
    then show ?thesis using not_le_mono_card [of "?n - op_psn op2"] wrap by simp
  qed
  have s_new: "sent_inv ctx' a ?n" if is_end
    unfolding sent_inv_def e(1,3) out
    using that sub c2(3,6) notin [of a] less by (intro exI [of _ final]) (simp add: final_def word_gt_0 unat_gt_0 [symmetric])
  have s_old: "sent_inv ctx' b r" if "completion_queue ctx r = Some b" for b r
  proof -
    have "b \<noteq> a" using that ad(2) by (auto simp: ran_def)
    then show ?thesis using d(7) [OF that] lt unfolding sent_inv_def e(1,3) out by auto
  qed
  have w_a: "wait_inv ctx' a" if "\<not> is_end"
  proof -
    have le: "op_psn op2 \<le> ?n + 1" "unat (?n + 1) - unat (op_psn op2) = Suc (unat ?n - unat (op_psn op2))"
      using c2(5) n by (simp_all add: word_le_nat_alt)
    show ?thesis unfolding wait_inv_def e(1,3,6) out
      using that c2(1-3,6) notin [of a] le by (intro exI [of _ op2]) (simp add: final_def)
  qed
  have w_q: "wait_inv ctx' b" if "b \<in> set q" for b
  proof -
    have b: "b \<noteq> a" "b \<in> set (send_queue ctx)" using that ad(3) sq by auto
    obtain v where v: "ops ctx b = Some v" "n_pkts v = 0" "\<not> is_scheduled v" "n_pkt_finished v = 0" "outstanding ctx b = {}"
      using d(8) [OF b(2)] b(1) sq unfolding wait_inv_def by (auto split: if_splits)
    then show ?thesis unfolding wait_inv_def e(1) out using b(1) by (intro exI [of _ v]) simp
  qed
  have "dom (ops ctx') = dom (ops ctx)" using ad(1) by (auto simp: e(1))
  moreover have "ran (completion_queue ctx') = (if is_end then insert a (ran (completion_queue ctx)) else ran (completion_queue ctx))"
    using new(2) by (simp add: e(7))
  moreover have "rsn_to_op ctx' r = Some b \<Longrightarrow> r < ?n + 1 \<and> b \<in> dom (ops ctx)" for r b
    using d(6) [of r b] lt less ad(1) by (auto simp: e(2) split: if_splits)
  ultimately show "ctx_inv ctx'" unfolding ctx_inv_def
    using d(1-5) sq ad s_new s_old w_a w_q e by (auto split: if_splits)
  show "next_rsn ctx' = ?n + 1" "receive_queue ctx' = receive_queue ctx" using e by simp_all
  show "\<exists>op'. ops ctx' = (ops ctx)(a \<mapsto> op') \<and> completion_callback op' = completion_callback op"
    using e(1) c2(4) by (auto simp: final_def)
qed

section \<open>Finishing a packet\<close>

text \<open>A step of the count, with the packet taken off the map.\<close>

lemma finish_count:
  assumes "rsn_to_op ctx rsn = Some a"
  shows "card (outstanding ctx a) = Suc (card (outstanding ctx a - {rsn}))" "rsn \<in> outstanding ctx a"
proof -
  show m: "rsn \<in> outstanding ctx a" using assms by (simp add: outstanding_def)
  show "card (outstanding ctx a) = Suc (card (outstanding ctx a - {rsn}))"
    using card.remove [of "outstanding ctx a" rsn] m by simp
qed

lemma finish_unsent:
  assumes i: "ctx_inv ctx" and a: "rsn_to_op ctx rsn = Some a" "a \<in> set (send_queue ctx)" and op: "ops ctx a = Some op"
    and c: "core ctx' = core (ctx\<lparr>ops := (ops ctx)(a \<mapsto> op\<lparr>n_pkt_finished := n_pkt_finished op + 1\<rparr>),
      rsn_to_op := (rsn_to_op ctx)(rsn := None)\<rparr>)"
  shows "n_pkts op = 0" "ctx_inv ctx'"
proof -
  note d = ctx_invD [OF i]
  let ?op1 = "op\<lparr>n_pkt_finished := n_pkt_finished op + 1\<rparr>"
  have e: "ops ctx' = (ops ctx)(a \<mapsto> ?op1)" "rsn_to_op ctx' = (rsn_to_op ctx)(rsn := None)" "next_rsn ctx' = next_rsn ctx"
    "next_address ctx' = next_address ctx" "send_queue ctx' = send_queue ctx" "completion_queue ctx' = completion_queue ctx"
    using c by (simp_all add: core_def)
  have out: "outstanding ctx' b = (if b = a then outstanding ctx a - {rsn} else outstanding ctx b)" for b
    using a(1) by (auto simp: outstanding_def e(2))
  note cnt = finish_count [OF a(1)]
  have w: "n_pkts op = 0" "is_scheduled op" "a = hd (send_queue ctx)" "op_psn op \<le> next_rsn ctx"
    "unat (next_rsn ctx) - unat (op_psn op) = unat (n_pkt_finished op) + card (outstanding ctx a)"
    using d(8) [OF a(2)] op cnt(2) unfolding wait_inv_def by (auto split: if_splits)
  show "n_pkts op = 0" by (rule w(1))
  have "unat (n_pkt_finished op) + 1 < 2 ^ 32"
  proof -
    have "unat (n_pkt_finished op) + 1 \<le> unat (next_rsn ctx)" using w(5) cnt(1) by linarith
    then show ?thesis using unsigned_less [of "next_rsn ctx", where 'a = nat] by simp
  qed
  then have f: "unat (n_pkt_finished op + 1) = unat (n_pkt_finished op) + 1" by (rule not_le_mono_card)
  have wa: "wait_inv ctx' a" unfolding wait_inv_def e(1,3,5) out using w f cnt(1) by (intro exI [of _ ?op1]) simp
  have wb: "wait_inv ctx' b" if "b \<in> set (send_queue ctx)" "b \<noteq> a" for b
    using d(8) [OF that(1)] that(2) unfolding wait_inv_def e(1,3,5) out by simp
  have s: "sent_inv ctx' b r" if "completion_queue ctx r = Some b" for b r
  proof -
    have "b \<noteq> a" using a(2) d(5) that by (auto simp: ran_def)
    then show ?thesis using d(7) [OF that] unfolding sent_inv_def e(1,3) out by simp
  qed
  have "dom (ops ctx') = dom (ops ctx)" using op by (auto simp: e(1))
  moreover have "rsn_to_op ctx' r = Some b \<Longrightarrow> r < next_rsn ctx \<and> b \<in> dom (ops ctx)" for r b
    using d(6) [of r b] by (auto simp: e(2) split: if_splits)
  moreover have "\<forall>b \<in> set (send_queue ctx). wait_inv ctx' b" using wa wb by blast
  ultimately show "ctx_inv ctx'" unfolding ctx_inv_def e(3-6) using d(1-5) s by simp
qed

lemma finish_sent:
  assumes i: "ctx_inv ctx" and a: "rsn_to_op ctx rsn = Some a" "completion_queue ctx r0 = Some a" and op: "ops ctx a = Some op"
    and last: "outstanding ctx a - {rsn} = {} \<longleftrightarrow> gone"
    and c: "core ctx' = core (ctx\<lparr>ops := (if gone then (ops ctx)(a := None)
        else (ops ctx)(a \<mapsto> op\<lparr>n_pkt_finished := n_pkt_finished op + 1\<rparr>)),
      completion_queue := (if gone then (completion_queue ctx)(r0 := None) else completion_queue ctx),
      rsn_to_op := (rsn_to_op ctx)(rsn := None)\<rparr>)"
  shows "end_psn op = r0" "0 < n_pkts op" "(n_pkt_finished op + 1 = n_pkts op) = gone" "ctx_inv ctx'"
proof -
  note d = ctx_invD [OF i]
  let ?op1 = "op\<lparr>n_pkt_finished := n_pkt_finished op + 1\<rparr>"
  have e: "ops ctx' = (if gone then (ops ctx)(a := None) else (ops ctx)(a \<mapsto> ?op1))" "rsn_to_op ctx' = (rsn_to_op ctx)(rsn := None)"
    "next_rsn ctx' = next_rsn ctx" "next_address ctx' = next_address ctx" "send_queue ctx' = send_queue ctx"
    "completion_queue ctx' = (if gone then (completion_queue ctx)(r0 := None) else completion_queue ctx)"
    using c by (simp_all add: core_def)
  have out: "outstanding ctx' b = (if b = a then outstanding ctx a - {rsn} else outstanding ctx b)" for b
    using a(1) by (auto simp: outstanding_def e(2))
  note cnt = finish_count [OF a(1)]
  have s: "r0 < next_rsn ctx" "end_psn op = r0" "0 < n_pkts op"
    "unat (n_pkts op) = unat (n_pkt_finished op) + card (outstanding ctx a)"
    using d(7) [OF a(2)] op unfolding sent_inv_def by auto
  show "end_psn op = r0" "0 < n_pkts op" by (rule s)+
  have "unat (n_pkt_finished op) + 1 < 2 ^ 32 \<or> unat (n_pkt_finished op) + 1 = unat (n_pkts op)"
    using s(4) cnt(1) unsigned_less [of "n_pkts op", where 'a = nat] by auto
  moreover have "unat (n_pkts op) < 2 ^ 32" using unsigned_less [of "n_pkts op", where 'a = nat] by simp
  ultimately have "unat (n_pkt_finished op) + 1 < 2 ^ 32" by linarith
  then have f: "unat (n_pkt_finished op + 1) = unat (n_pkt_finished op) + 1" by (rule not_le_mono_card)
  have z: "card (outstanding ctx a - {rsn}) = 0 \<longleftrightarrow> gone" using last by simp
  show "(n_pkt_finished op + 1 = n_pkts op) = gone"
    unfolding word_unat_eq_iff f s(4) cnt(1) z [symmetric] by simp
  have inj: "r = r0" if "completion_queue ctx r = Some a" for r
    using d(7) [OF that] s(2) op unfolding sent_inv_def by auto
  have sb: "sent_inv ctx' b r" if "completion_queue ctx' r = Some b" for b r
  proof (cases "b = a")
    case True
    then have g: "\<not> gone" "r = r0" using that inj by (auto simp: e(6) split: if_splits)
    then have ne: "outstanding ctx a - {rsn} \<noteq> {}" using last by simp
    show ?thesis unfolding sent_inv_def e(1,3) out using g s f cnt(1) ne True by (intro exI [of _ ?op1]) simp
  next
    case False
    have "completion_queue ctx r = Some b" using that by (auto simp: e(6) split: if_splits)
    from d(7) [OF this] False show ?thesis unfolding sent_inv_def e(1,3) out by auto
  qed
  have nq: "a \<notin> set (send_queue ctx)" using d(5) a(2) by (auto simp: ran_def)
  have wb: "wait_inv ctx' b" if "b \<in> set (send_queue ctx)" for b
  proof -
    have "b \<noteq> a" using that nq by auto
    then show ?thesis using d(8) [OF that] unfolding wait_inv_def e(1,3,5) out by simp
  qed
  have dom: "dom (ops ctx') = (if gone then dom (ops ctx) - {a} else dom (ops ctx))" using op by (auto simp: e(1))
  have ran: "ran (completion_queue ctx') = (if gone then ran (completion_queue ctx) - {a} else ran (completion_queue ctx))"
  proof (cases gone)
    case True
    have "b \<in> ran ((completion_queue ctx)(r0 := None)) \<longleftrightarrow> b \<in> ran (completion_queue ctx) \<and> b \<noteq> a" for b
    proof
      assume "b \<in> ran ((completion_queue ctx)(r0 := None))"
      then obtain r where "r \<noteq> r0" "completion_queue ctx r = Some b" by (auto simp: ran_def split: if_splits)
      then show "b \<in> ran (completion_queue ctx) \<and> b \<noteq> a" using inj by (auto simp: ran_def)
    next
      assume "b \<in> ran (completion_queue ctx) \<and> b \<noteq> a"
      then obtain r where r: "completion_queue ctx r = Some b" and "b \<noteq> a" by (auto simp: ran_def)
      then have "r \<noteq> r0" using a(2) by auto
      with r show "b \<in> ran ((completion_queue ctx)(r0 := None))" by (auto simp: ran_def intro: exI [of _ r])
    qed
    then show ?thesis using True e(6) by auto
  qed (simp add: e(6))
  have "rsn_to_op ctx' r = Some b \<Longrightarrow> r < next_rsn ctx \<and> b \<in> dom (ops ctx')" for r b
  proof -
    assume r: "rsn_to_op ctx' r = Some b"
    then have "rsn_to_op ctx r = Some b" "r \<noteq> rsn" by (auto simp: e(2) split: if_splits)
    moreover from this have "gone \<longrightarrow> b \<noteq> a" using last by (auto simp: outstanding_def)
    ultimately show "r < next_rsn ctx \<and> b \<in> dom (ops ctx')" using d(6) dom by auto
  qed
  moreover have "finite (dom (ops ctx'))" "\<forall>b \<in> dom (ops ctx'). b < next_address ctx" using dom d(1,2) by (auto split: if_splits)
  moreover have "dom (ops ctx') = set (send_queue ctx) \<union> ran (completion_queue ctx')" unfolding dom ran using d(4) nq by auto
  moreover have "set (send_queue ctx) \<inter> ran (completion_queue ctx') = {}" unfolding ran using d(5) by auto
  ultimately show "ctx_inv ctx'" unfolding ctx_inv_def e(3-5) using d(3) sb wb by blast
qed

lemma finish_inv:
  assumes i: "ctx_inv ctx" and f: "finish_packet rsn ctx = Some (ctx1, d)"
    and ctx': "ctx' = ctx1\<lparr>outbound_read_requests := out, rsn_to_op := (rsn_to_op ctx1)(rsn := None)\<rparr>"
  obtains a op where "rsn_to_op ctx rsn = Some a" "ops ctx a = Some op" "ctx_inv ctx'" "next_rsn ctx' = next_rsn ctx"
    "receive_queue ctx' = receive_queue ctx"
    "d = None \<and> ops ctx' = (ops ctx)(a \<mapsto> op\<lparr>n_pkt_finished := n_pkt_finished op + 1\<rparr>) \<or>
     d = Some (completion_callback op) \<and> ops ctx' = (ops ctx)(a := None) \<and> outstanding ctx a = {rsn} \<and> a \<notin> set (send_queue ctx)"
proof -
  obtain a op where a: "rsn_to_op ctx rsn = Some a" "ops ctx a = Some op"
    using f by (auto simp: finish_packet_def split: bind_splits)
  let ?op1 = "op\<lparr>n_pkt_finished := n_pkt_finished op + 1\<rparr>"
  have "a \<in> dom (ops ctx)" using a(2) by auto
  then consider (unsent) "a \<in> set (send_queue ctx)" | (sent) r0 where "completion_queue ctx r0 = Some a"
    using ctx_invD(4) [OF i] by (auto simp: ran_def)
  then show ?thesis
  proof cases
    case unsent
    have z: "n_pkts op = 0" by (rule finish_unsent(1) [OF i a(1) unsent a(2) refl])
    then have e: "ctx1 = ctx\<lparr>ops := (ops ctx)(a \<mapsto> ?op1)\<rparr>" "d = None"
      using f a by (simp_all add: finish_packet_def Let_def)
    have "ctx_inv ctx'" by (rule finish_unsent(2) [OF i a(1) unsent a(2)]) (simp add: ctx' e(1) core_def)
    then show ?thesis using that [OF a] by (simp add: ctx' e)
  next
    case (sent r0)
    define gone where "gone \<longleftrightarrow> outstanding ctx a - {rsn} = {}"
    note s = finish_sent(1-3) [OF i a(1) sent a(2) gone_def [symmetric] refl]
    have b: "completion_queue ctx (end_psn op) = Some a" using s(1) sent by simp
    have e: "ctx1 = (if gone then ctx\<lparr>total_ops_completed := total_ops_completed ctx + 1,
            completion_queue := (completion_queue ctx)(r0 := None), ops := (ops ctx)(a := None)\<rparr>
          else ctx\<lparr>ops := (ops ctx)(a \<mapsto> ?op1)\<rparr>)" "d = (if gone then Some (completion_callback op) else None)"
      using f a s b sent by (auto simp: finish_packet_def Let_def split: if_splits)
    have "ctx_inv ctx'" by (rule finish_sent(4) [OF i a(1) sent a(2) gone_def [symmetric]]) (simp add: ctx' e(1) core_def)
    moreover have "a \<notin> set (send_queue ctx)" using ctx_invD(5) [OF i] sent by (auto simp: ran_def)
    moreover have "gone \<longrightarrow> outstanding ctx a = {rsn}" using finish_count(2) [OF a(1)] by (auto simp: gone_def)
    ultimately show ?thesis using that [OF a] by (cases gone) (simp_all add: ctx' e)
  qed
qed

end
