(* ===== verification/Rdma_Completions.thy ===== *)
theory Rdma_Completions
  imports Rdma_Queue_Pairs
begin

text \<open>
  The law of completions: the callback of every operation that was posted is in exactly one place, with the
  operation, on its way to the host, or called.
\<close>

fun done_ev :: "'c rdma_event \<Rightarrow> 'c multiset" where
  "done_ev (Post qp op) = {#completion_callback op#}"
| "done_ev (Ack_done scid rsn c) = opt_w (\<lambda>x. {#x#}) c"
| "done_ev _ = {#}"

fun done_pc :: "'c pcie_done \<Rightarrow> 'c multiset" where
  "done_pc (Op_done c syndrome) = {#c#}"

fun done_rx :: "'c rx_done \<Rightarrow> 'c multiset" where
  "done_rx (Rx_done t scid rsn c) = opt_w (\<lambda>x. {#x#}) c"

definition done_W :: "'c rdma \<Rightarrow> 'c multiset" where
  "done_W = weight done_ev (\<lambda>_. {#}) done_pc done_rx (\<lambda>_. {#}) (\<lambda>x. {#fst x#})"

interpretation completions: delivery_law done_ev "\<lambda>_. {#}" done_pc done_rx "\<lambda>_. {#}" "\<lambda>x. {#fst x#}"
proof
  show "sched_kind e \<Longrightarrow> done_ev e = {#}" for e :: "'c rdma_event" by (cases e) auto
qed auto

text \<open>Operations posted were never sent before: a law that weighs those that were.\<close>

fun stale_ev :: "'c rdma_event \<Rightarrow> unit multiset" where
  "stale_ev (Post qp op) = (if fresh_op op then {#} else {#()#})"
| "stale_ev _ = {#}"

definition stale_W :: "'c rdma \<Rightarrow> unit multiset" where
  "stale_W = weight stale_ev (\<lambda>_. {#}) (\<lambda>_. {#}) (\<lambda>_. {#}) (\<lambda>_. {#}) (\<lambda>_. {#})"

interpretation stale: delivery_law stale_ev "\<lambda>_. {#}" "\<lambda>_. {#}" "\<lambda>_. {#}" "\<lambda>_. {#}" "\<lambda>_. {#}"
proof
  show "sched_kind e \<Longrightarrow> stale_ev e = {#}" for e :: "'c rdma_event" by (cases e) auto
qed (auto simp: opt_w_def split: option.split)

lemma stale_process:
  assumes "process_work env now w s = Some s'"
  shows "stale_W s' = stale_W s"
  using assms by (cases rule: stale.process_work_effect) (auto simp: stale_W_def opt_w_def split: option.split)

lemma step_stale:
  assumes "rdma_step env now a s = Some s'" "stale_W s = {#}"
  shows "stale_W s' = {#}"
  using assms(1)
proof (cases rule: stale.step_effect)
  case same
  have "stale.gain a = {#}" by (cases a) auto
  then show ?thesis using same assms(2) by (simp add: stale_W_def)
next
  case (perform qp v sgl i c d op)
  then show ?thesis using assms(2) by (simp add: stale_W_def fresh_op_def)
next
  case (event e s0)
  then have z: "stale_W s0 = {#}" "stale_ev e = {#}" using assms(2) by (simp_all add: stale_W_def)
  from event(2) show ?thesis
  proof (cases rule: stale.event_effect)
    case (processed v s1 s2)
    then show ?thesis using z stale_process [OF processed(1)] by (simp add: stale_W_def)
  qed (use z in \<open>simp_all add: stale_W_def\<close>)
qed (use assms(2) in \<open>simp_all add: stale_W_def\<close>)

section \<open>The callbacks of the queue pairs\<close>

definition ctx_w :: "'c FalconQpContext \<Rightarrow> 'c multiset" where
  "ctx_w ctx = image_mset (\<lambda>a. completion_callback (the (ops ctx a))) (mset_set (dom (ops ctx))) +
     mset (map completion_callback (receive_queue ctx))"

definition held :: "'c rdma \<Rightarrow> 'c multiset" where
  "held s = (\<Sum>q \<in> dom (contexts s). ctx_w (the (contexts s q)))"

lemma ctx_w_cong: "ops ctx' = ops ctx \<Longrightarrow> receive_queue ctx' = receive_queue ctx \<Longrightarrow> ctx_w ctx' = ctx_w ctx"
  by (simp add: ctx_w_def)

lemma ctx_w_same:
  assumes "ops ctx' = (ops ctx)(a \<mapsto> op')" "ops ctx a = Some op" "completion_callback op' = completion_callback op"
    "receive_queue ctx' = receive_queue ctx"
  shows "ctx_w ctx' = ctx_w ctx"
proof -
  have "dom (ops ctx') = dom (ops ctx)" using assms(1,2) by auto
  moreover have "completion_callback (the (ops ctx' b)) = completion_callback (the (ops ctx b))" for b
    using assms(1-3) by simp
  ultimately show ?thesis using assms(4) by (simp add: ctx_w_def)
qed

lemma ctx_w_remove:
  assumes "ops ctx' = (ops ctx)(a := None)" "ops ctx a = Some op" "finite (dom (ops ctx))" "receive_queue ctx' = receive_queue ctx"
  shows "ctx_w ctx' + {#completion_callback op#} = ctx_w ctx"
proof -
  let ?f = "\<lambda>c b. completion_callback (the (ops c b))"
  have d: "dom (ops ctx') = dom (ops ctx) - {a}" "a \<in> dom (ops ctx)" using assms(1,2) by auto
  have "image_mset (?f ctx') (mset_set (dom (ops ctx) - {a})) = image_mset (?f ctx) (mset_set (dom (ops ctx) - {a}))"
    using assms(1,3) by (intro image_mset_cong) auto
  moreover have "mset_set (dom (ops ctx)) = add_mset a (mset_set (dom (ops ctx) - {a}))"
    using d(2) assms(3) by (simp add: mset_set.remove)
  ultimately show ?thesis using assms(2,4) by (simp add: ctx_w_def d(1))
qed

lemma ctx_w_add:
  assumes "ops ctx' = (ops ctx)(a \<mapsto> op)" "a \<notin> dom (ops ctx)" "finite (dom (ops ctx))" "receive_queue ctx' = receive_queue ctx"
  shows "ctx_w ctx' = ctx_w ctx + {#completion_callback op#}"
proof -
  let ?f = "\<lambda>c b. completion_callback (the (ops c b))"
  have d: "dom (ops ctx') = insert a (dom (ops ctx))" using assms(1) by auto
  have "image_mset (?f ctx') (mset_set (dom (ops ctx))) = image_mset (?f ctx) (mset_set (dom (ops ctx)))"
    using assms(1-3) by (intro image_mset_cong) auto
  then show ?thesis using assms by (simp add: ctx_w_def d)
qed

lemma held_update:
  assumes "finite (dom (contexts s))" "contexts s' = (contexts s)(qp \<mapsto> ctx')"
  shows "held s' + (case contexts s qp of None \<Rightarrow> {#} | Some ctx \<Rightarrow> ctx_w ctx) = held s + ctx_w ctx'"
proof -
  have d: "dom (contexts s') = insert qp (dom (contexts s) - {qp})" using assms(2) by auto
  have "(\<Sum>q \<in> dom (contexts s) - {qp}. ctx_w (the (contexts s' q))) = (\<Sum>q \<in> dom (contexts s) - {qp}. ctx_w (the (contexts s q)))"
    using assms(2) by (intro sum.cong) auto
  then have h: "held s' = ctx_w ctx' + (\<Sum>q \<in> dom (contexts s) - {qp}. ctx_w (the (contexts s q)))"
    unfolding held_def d by (subst sum.insert) (use assms in simp_all)
  show ?thesis
  proof (cases "contexts s qp")
    case None
    then have "dom (contexts s) - {qp} = dom (contexts s)" by auto
    then show ?thesis using h None by (simp add: held_def ac_simps)
  next
    case (Some ctx)
    then have "held s = ctx_w ctx + (\<Sum>q \<in> dom (contexts s) - {qp}. ctx_w (the (contexts s q)))"
      using assms(1) by (simp add: held_def sum.remove [of _ qp] domI)
    then show ?thesis using h Some by (simp add: ac_simps)
  qed
qed

section \<open>The invariant\<close>

definition rinv :: "nat \<Rightarrow> 'c multiset \<Rightarrow> 'c rdma \<Rightarrow> bool" where
  "rinv k T s \<longleftrightarrow> finite (dom (contexts s)) \<and> (\<forall>q ctx. contexts s q = Some ctx \<longrightarrow> ctx_inv ctx \<and> unat (next_rsn ctx) \<le> k) \<and>
     done_W s + held s = T"

lemma rinv_mono: "rinv k T s \<Longrightarrow> k \<le> k' \<Longrightarrow> rinv k' T s"
  unfolding rinv_def by (meson order_trans)

lemma rinv_cong: "rinv k T s \<Longrightarrow> contexts s' = contexts s \<Longrightarrow> done_W s' = done_W s + d \<Longrightarrow> rinv k (T + d) s'"
  by (auto simp: rinv_def held_def ac_simps)

lemma rinv_update:
  assumes "rinv k T s" "contexts s qp = Some ctx" "contexts s' = (contexts s)(qp \<mapsto> ctx')" "ctx_inv ctx'"
    "unat (next_rsn ctx') \<le> k" "done_W s' + ctx_w ctx' = done_W s + (ctx_w ctx + d)"
  shows "rinv k (T + d) s'"
proof -
  have f: "finite (dom (contexts s))" using assms(1) by (simp add: rinv_def)
  have "(done_W s' + held s') + (ctx_w ctx + ctx_w ctx') = (done_W s' + ctx_w ctx') + (held s' + ctx_w ctx)" by (simp add: ac_simps)
  also have "\<dots> = (done_W s + (ctx_w ctx + d)) + (held s + ctx_w ctx')"
    using held_update [OF f assms(3)] assms(2,6) by simp
  also have "\<dots> = (done_W s + held s + d) + (ctx_w ctx + ctx_w ctx')" by (simp add: ac_simps)
  finally have "done_W s' + held s' = T + d" using assms(1) unfolding rinv_def add_right_cancel by simp
  moreover have "finite (dom (contexts s'))" using f assms(3) by simp
  ultimately show ?thesis using assms(1,3-5) by (simp add: rinv_def)
qed

lemma rinv_keep:
  assumes "rinv k T s" "contexts s qp = Some ctx" "contexts s' = (contexts s)(qp \<mapsto> ctx')" "core ctx' = core ctx"
    "done_W s' + ctx_w ctx' = done_W s + (ctx_w ctx + d)"
  shows "rinv k (T + d) s'"
proof (rule rinv_update [OF assms(1-3) _ _ assms(5)])
  have "ctx_inv ctx" "unat (next_rsn ctx) \<le> k" using assms(1,2) by (auto simp: rinv_def)
  then show "ctx_inv ctx'" "unat (next_rsn ctx') \<le> k" using ctx_inv_cong [OF assms(4)] assms(4) by (simp_all add: core_def)
qed

lemma core_steps [simp]:
  "core (EnterRnrState ctx) = core ctx" "core (accept_rsn ctx) = core ctx" "core (ctx\<lparr>receive_queue := q\<rparr>) = core ctx"
  "core (ctx\<lparr>credit_usage := u\<rparr>) = core ctx" "core (ctx\<lparr>inbound_read_request_queue := r\<rparr>) = core ctx"
  by (simp_all add: core_def)

lemma rinv_process:
  assumes "process_work env now w s = Some s'" "rinv k T s"
  shows "rinv k T s'"
  using assms(1)
proof (cases rule: completions.process_work_effect)
  case (nack qp p ctx)
  have "rinv k (T + {#}) s'"
    by (rule rinv_keep [OF assms(2) nack(3,4)]) (use nack(5) in \<open>simp_all add: done_W_def ctx_w_def\<close>)
  then show ?thesis by simp
next
  case (send_ok qp p ctx r rs q t c)
  have w: "ctx_w ((accept_rsn ctx)\<lparr>receive_queue := q\<rparr>) + opt_w (\<lambda>x. {#x#}) c = ctx_w ctx"
    using send_ok(5,9) by (auto simp: ctx_w_def)
  have "rinv k (T + {#}) s'"
    by (rule rinv_keep [OF assms(2) send_ok(3,6)]) (use send_ok(7) w in \<open>simp_all add: done_W_def add.assoc add.commute [of _ "ctx_w _"]\<close>)
  then show ?thesis by simp
next
  case (write_ok qp p ctx t)
  have "rinv k (T + {#}) s'"
    by (rule rinv_keep [OF assms(2) write_ok(3,5)]) (use write_ok(6) in \<open>simp_all add: done_W_def ctx_w_def\<close>)
  then show ?thesis by simp
next
  case (read_ok qp p ctx)
  have "rinv k (T + {#}) s'"
    by (rule rinv_keep [OF assms(2) read_ok(3,5)]) (use read_ok(6) in \<open>simp_all add: done_W_def ctx_w_def\<close>)
  then show ?thesis by simp
next
  case (finished qp rsn ctx ctx1 d out syndrome)
  let ?ctx' = "ctx1\<lparr>outbound_read_requests := out, rsn_to_op := (rsn_to_op ctx1)(rsn := None)\<rparr>"
  have i: "ctx_inv ctx" "unat (next_rsn ctx) \<le> k" using assms(2) finished(2) by (auto simp: rinv_def)
  from finish_inv [OF i(1) finished(3) refl, of out] obtain a op where a: "ops ctx a = Some op" "ctx_inv ?ctx'"
    "next_rsn ?ctx' = next_rsn ctx" "receive_queue ?ctx' = receive_queue ctx"
    "d = None \<and> ops ?ctx' = (ops ctx)(a \<mapsto> op\<lparr>n_pkt_finished := n_pkt_finished op + 1\<rparr>) \<or>
     d = Some (completion_callback op) \<and> ops ?ctx' = (ops ctx)(a := None)" by blast
  have w: "ctx_w ?ctx' + opt_w (\<lambda>x. {#x#}) d = ctx_w ctx"
    using a(5)
  proof
    assume "d = None \<and> ops ?ctx' = (ops ctx)(a \<mapsto> op\<lparr>n_pkt_finished := n_pkt_finished op + 1\<rparr>)"
    then show ?thesis using ctx_w_same [OF _ a(1) _ a(4)] by simp
  next
    assume "d = Some (completion_callback op) \<and> ops ?ctx' = (ops ctx)(a := None)"
    then show ?thesis using ctx_w_remove [OF _ a(1) ctx_invD(1) [OF i(1)] a(4)] by simp
  qed
  have "opt_w (\<lambda>c. done_pc (Op_done c syndrome)) d = opt_w (\<lambda>x. {#x#}) d" by (cases d) simp_all
  then have "done_W s' = done_W s + opt_w (\<lambda>x. {#x#}) d" using finished(5) by (simp add: done_W_def)
  then have "rinv k (T + {#}) s'"
    by (intro rinv_update [OF assms(2) finished(2,4) a(2)])
      (use a(3) i(2) w in \<open>simp_all add: add.assoc add.commute [of _ "ctx_w _"]\<close>)
  then show ?thesis by simp
qed

section \<open>Steps\<close>

lemma rinv_post:
  assumes "rinv k T s" "contexts s qp = Some ctx" "base_PostOp op ctx = Some ctx'" "fresh_op op"
    "contexts s' = (contexts s)(qp \<mapsto> ctx')" "done_W s' = done_W s"
  shows "rinv k (T + {#completion_callback op#}) s'"
proof -
  have i: "ctx_inv ctx" "unat (next_rsn ctx) \<le> k" using assms(1,2) by (auto simp: rinv_def)
  from assms(3) show ?thesis
  proof (cases rule: base_PostOp_cases)
    case (1 op1)
    have "completion_callback op1 = completion_callback op" by (subst 1(1)) simp
    then have "ctx_w ctx' = ctx_w ctx + {#completion_callback op#}" by (simp add: 1(3) ctx_w_def)
    then show ?thesis by (intro rinv_keep [OF assms(1,2,5)]) (use 1(3) assms(6) in \<open>simp_all add: core_def\<close>)
  next
    case (2 op1)
    have f: "completion_callback op1 = completion_callback op" "fresh_op op1"
      using assms(4) by (subst 2(1); simp add: fresh_op_def)+
    have "next_address ctx \<notin> dom (ops ctx)" using ctx_invD(2) [OF i(1)] by blast
    then have "ctx_w ctx' = ctx_w ctx + {#completion_callback op#}"
      using ctx_w_add [of ctx' ctx "next_address ctx" op1] ctx_invD(1) [OF i(1)] f(1) by (simp add: 2(3))
    moreover have "ctx_inv ctx'" unfolding 2(3) by (rule post_inv [OF i(1) f(2)])
    ultimately show ?thesis
      by (intro rinv_update [OF assms(1,2,5)]) (use 2(3) i(2) assms(6) in simp_all)
  qed
qed

lemma rinv_send:
  assumes "rinv k T s" "SendTransaction env now qp s = Some s'" "done_W s' = done_W s" "Suc k < 2 ^ 32"
  shows "rinv (Suc k) T s'"
proof (rule SendTransaction_frame [OF assms(2)])
  fix ctx ctx1 p credit q ctx2
  assume c: "contexts s qp = Some ctx" "create_packet env (current_work_type s) ctx = Some (ctx1, p, credit, q)"
    "contexts s' = (contexts s)(qp \<mapsto> ctx2)"
    "ctx2 = ctx1\<lparr>credit_usage := credit_usage ctx2, outbound_read_requests := outbound_read_requests ctx2,
       next_schedule_time := next_schedule_time ctx2\<rparr>"
  have i: "ctx_inv ctx" "unat (next_rsn ctx) \<le> k" using assms(1) c(1) by (auto simp: rinv_def)
  have k: "rinv (Suc k) T s" using rinv_mono [OF assms(1)] by simp
  have core2: "core ctx2 = core ctx1" "ops ctx2 = ops ctx1" "receive_queue ctx2 = receive_queue ctx1" "next_rsn ctx2 = next_rsn ctx1"
    by (subst c(4); simp add: core_def)+
  have "rinv (Suc k) (T + {#}) s'"
  proof (cases "current_work_type s")
    case WT_kResponse
    then obtain r where "ctx1 = ctx\<lparr>inbound_read_request_queue := r\<rparr>"
      using c(2) by (auto simp: create_packet_def CreateResponsePacket_def Let_def split: bind_splits if_splits list.splits)
    then have "core ctx2 = core ctx" "ctx_w ctx2 = ctx_w ctx" using core2 by (simp_all add: ctx_w_def)
    then show ?thesis by (intro rinv_keep [OF k c(1,3)]) (simp_all add: assms(3))
  next
    case WT_kRequest
    then have "CreateRequestPacket (credit_cfg env) ctx = Some (ctx1, p)"
      using c(2) by (auto simp: create_packet_def split: bind_splits if_splits)
    then show ?thesis
    proof (cases rule: CreateRequestPacket_cases)
      case (1 a op p0 op1 is_end)
      obtain sgl where sgl: "op1 = op\<lparr>op_sgl := sgl\<rparr>" using load_packet_op [OF 1(3)] by blast
      have wrap: "unat (next_rsn ctx) + 1 < 2 ^ 32" using i(2) assms(4) by simp
      note p = place_inv [OF i(1) 1(1,2) sgl 1(4) wrap]
      have "ctx_w ctx2 = ctx_w ctx" using p(3,4) ctx_w_same [OF _ 1(2)] core2 by (auto simp: ctx_w_def)
      moreover have "unat (next_rsn ctx2) \<le> Suc k" using p(2) core2(4) not_le_mono_card [OF wrap] i(2) by simp
      moreover have "ctx_inv ctx2" using ctx_inv_cong [OF core2(1)] p(1) by simp
      ultimately show ?thesis by (intro rinv_update [OF k c(1,3)]) (simp_all add: assms(3))
    qed
  qed
  then show ?thesis by simp
qed

text \<open>The callbacks a call brings in.\<close>

fun posted :: "'c rdma_action \<Rightarrow> 'c multiset" where
  "posted (Perform_op qp v sgl i c d) = {#c#}"
| "posted _ = {#}"

lemma new_context_inv:
  "ctx_inv ((InitializeQpContext env l scid c)\<lparr>rc_mode := m, ctx_dest_qp_id := r\<rparr>)"
  "ctx_w ((InitializeQpContext env l scid c)\<lparr>rc_mode := m, ctx_dest_qp_id := r\<rparr>) = {#}"
  "next_rsn (InitializeQpContext env l scid c) = 0"
  by (simp_all add: ctx_inv_def ctx_w_def InitializeQpContext_def)

lemma rinv_event:
  assumes "run_event env now e s0 = Some s'" "finite (dom (contexts s0))"
    "\<forall>q ctx. contexts s0 q = Some ctx \<longrightarrow> ctx_inv ctx \<and> unat (next_rsn ctx) \<le> k" "done_W s0 + done_ev e + held s0 = T"
    "stale_ev e = {#}" "Suc k < 2 ^ 32"
  shows "rinv (Suc k) T s'"
proof -
  have r0: "rinv k (done_W s0 + held s0) s0" using assms(2,3) by (simp add: rinv_def)
  have k: "rinv k T' s' \<Longrightarrow> T' = T \<Longrightarrow> rinv (Suc k) T s'" for T' using rinv_mono [of k T s' "Suc k"] by simp
  note T = assms(4) [unfolded add.assoc add.commute [of "done_ev e"]]
  from assms(1) show ?thesis
  proof (cases rule: completions.event_effect)
    case same
    have "rinv k (done_W s0 + held s0 + done_ev e) s'" using rinv_cong [OF r0 same(1)] same(2) by (simp add: done_W_def)
    then show ?thesis by (rule k) (simp add: T [symmetric] add.assoc)
  next
    case (processed v s1 s2)
    have "rinv k (done_W s0 + held s0 + done_ev e) s1" using rinv_cong [OF r0 processed(2)] processed(3) by (simp add: done_W_def)
    from rinv_process [OF processed(1) this] have "rinv k (done_W s0 + held s0 + done_ev e + {#}) s'"
      using rinv_cong [of k _ s2 s' "{#}"] processed(4,5) by (simp add: done_W_def)
    then show ?thesis by (rule k) (simp add: T [symmetric] add.assoc)
  next
    case (post qp op ctx ctx1)
    have "fresh_op op" using assms(5) post(1) by (simp split: if_splits)
    from rinv_post [OF r0 post(2,3) this post(4)] have "rinv k (done_W s0 + held s0 + {#completion_callback op#}) s'"
      using post(5) by (simp add: done_W_def)
    then show ?thesis by (rule k) (simp add: T [symmetric] add.assoc post(1))
  next
    case (sent qp)
    have "rinv (Suc k) (done_W s0 + held s0) s'"
      by (rule rinv_send [OF r0 sent(2) _ assms(6)]) (use sent(3) in \<open>simp add: done_W_def\<close>)
    then show ?thesis using T sent(1) by simp
  next
    case (ack_read qp p ctx)
    have "rinv k (done_W s0 + held s0 + {#}) s'" using rinv_cong [OF r0 ack_read(2), of "{#}"] ack_read(4) by (simp add: done_W_def)
    then show ?thesis by (rule k) (use T ack_read(1) in simp)
  next
    case (queued qp p ctx q)
    have "rinv k (done_W s0 + held s0 + {#}) s'"
      by (rule rinv_keep [OF r0 queued(2,3)]) (use queued(4) in \<open>simp_all add: done_W_def ctx_w_def\<close>)
    then show ?thesis by (rule k) (use T queued(1) in simp)
  qed
qed

lemma rinv_step:
  assumes "rdma_step env now a s = Some s'" "rinv k T s" "stale_W s = {#}" "Suc k < 2 ^ 32"
  shows "rinv (Suc k) (T + posted a) s'"
proof -
  have k: "rinv k (T + posted a) s' \<Longrightarrow> rinv (Suc k) (T + posted a) s'" using rinv_mono by fastforce
  from assms(1) show ?thesis
  proof (cases rule: completions.step_effect)
    case same
    have z: "completions.gain a = {#}" "posted a = {#}" using same(3) by (cases a; simp)+
    have "rinv k (T + {#}) s'" by (rule rinv_cong [OF assms(2) same(1)]) (use same(2) z in \<open>simp add: done_W_def\<close>)
    then show ?thesis using k z by simp
  next
    case (perform qp v sgl i c d op)
    have "rinv k (T + {#c#}) s'" by (rule rinv_cong [OF assms(2) perform(2)]) (use perform(3,4) in \<open>simp add: done_W_def\<close>)
    then show ?thesis using k perform(1) by simp
  next
    case (created l r scid c m)
    let ?ctx = "(InitializeQpContext env l scid c)\<lparr>rc_mode := m, ctx_dest_qp_id := r\<rparr>"
    have f: "finite (dom (contexts s))" using assms(2) by (simp add: rinv_def)
    have "held s' = held s" using held_update [OF f created(4)] created(2) new_context_inv(2) by simp
    then have "rinv k T s'"
      using assms(2) created(3,4) by (auto simp: rinv_def done_W_def new_context_inv)
    then show ?thesis using k created(1) by simp
  next
    case (returned qp c ctx u)
    have "rinv k (T + {#}) s'"
      by (rule rinv_keep [OF assms(2) returned(2,3)]) (use returned(4) in \<open>simp_all add: done_W_def ctx_w_def\<close>)
    then show ?thesis using k returned(1) by simp
  next
    case (event e s0)
    have st: "stale_ev e = {#}"
    proof -
      from assms(1) event(1) have m: "(now, e) \<in> set (rdma_events s)" by (auto split: if_splits)
      show ?thesis using stale.W_remove [OF m] assms(3) by (simp add: stale_W_def)
    qed
    have "rinv (Suc k) T s'"
      by (rule rinv_event [OF event(2) _ _ _ st assms(4)])
        (use assms(2) event(3,4) in \<open>auto simp: rinv_def done_W_def held_def\<close>)
    then show ?thesis using event(1) by simp
  qed
qed

lemma reach_rinv:
  assumes "rdma_reach env s0 acts now s" "length acts < 2 ^ 32" "rinv 0 T s0" "stale_W s0 = {#}"
  shows "rinv (length acts) (T + (\<Sum>a \<leftarrow> acts. posted a)) s \<and> stale_W s = {#}"
  using assms(1,2)
proof induction
  case start
  then show ?case using assms(3,4) by simp
next
  case (act acts now s t a s')
  then have IH: "rinv (length acts) (T + (\<Sum>a \<leftarrow> acts. posted a)) s" "stale_W s = {#}" by simp_all
  from rinv_step [OF act.hyps(4) IH] act.prems step_stale [OF act.hyps(4) IH(2)]
  show ?case by (simp add: add.assoc)
qed

end
