(* ===== verification/Rdma_Answers.thy ===== *)
theory Rdma_Answers
  imports Rdma_Effects
begin

text \<open>
  The law of answers: every request received is answered once, positively or with RNR; and the law of acceptance:
  an ordered queue pair accepts the requests \<open>0, 1, 2, \<dots>\<close>, each once. A request is known by the connection of
  its queue pair, which \<open>f\<close> gives, and its sequence number.
\<close>

fun request_of :: "(QpId \<Rightarrow> u32) \<Rightarrow> QpId \<Rightarrow> rdma_packet \<Rightarrow> (u32 \<times> u32) multiset" where
  "request_of f qp p = (if is_request p then {#(f qp, pkt_rsn p)#} else {#})"

fun answer_ev :: "(QpId \<Rightarrow> u32) \<Rightarrow> 'c rdma_event \<Rightarrow> (u32 \<times> u32) multiset" where
  "answer_ev f (Rx_found qp p) = request_of f qp p"
| "answer_ev f (Ack_rnr qp scid rsn) = {#(scid, rsn)#}"
| "answer_ev f (Ack_done scid rsn c) = {#(scid, rsn)#}"
| "answer_ev f (Ack_read qp p) = {#(f qp, pkt_rsn p)#}"
| "answer_ev f _ = {#}"

fun answer_pl :: "(QpId \<Rightarrow> u32) \<Rightarrow> pipeline_work \<Rightarrow> (u32 \<times> u32) multiset" where
  "answer_pl f (Work_packet qp p) = request_of f qp p"
| "answer_pl f _ = {#}"

fun answer_rx :: "'c rx_done \<Rightarrow> (u32 \<times> u32) multiset" where
  "answer_rx (Rx_done t scid rsn c) = {#(scid, rsn)#}"

fun answer_fc :: "falcon_call \<Rightarrow> (u32 \<times> u32) multiset" where
  "answer_fc (AckTransaction scid rsn syndrome t) = {#(scid, rsn)#}"
| "answer_fc _ = {#}"

text \<open>Positive answers only.\<close>

fun accept_ev :: "(QpId \<Rightarrow> u32) \<Rightarrow> 'c rdma_event \<Rightarrow> (u32 \<times> u32) multiset" where
  "accept_ev f (Ack_done scid rsn c) = {#(scid, rsn)#}"
| "accept_ev f (Ack_read qp p) = {#(f qp, pkt_rsn p)#}"
| "accept_ev f _ = {#}"

fun accept_fc :: "falcon_call \<Rightarrow> (u32 \<times> u32) multiset" where
  "accept_fc (AckTransaction scid rsn syndrome t) = (if syndrome = Syn_kAck then {#(scid, rsn)#} else {#})"
| "accept_fc _ = {#}"

lemma opt_w_empty [simp]: "opt_w (\<lambda>x. {#}) c = {#}"
  by (cases c) simp_all

interpretation answers: delivery_law "answer_ev f" "answer_pl f" "\<lambda>_. {#}" answer_rx answer_fc "\<lambda>_. {#}" for f
proof
  show "sched_kind e \<Longrightarrow> answer_ev f e = {#}" for e :: "'c rdma_event" by (cases e) auto
qed auto

interpretation accepts: delivery_law "accept_ev f" "\<lambda>_. {#}" "\<lambda>_. {#}" answer_rx accept_fc "\<lambda>_. {#}" for f
proof
  show "sched_kind e \<Longrightarrow> accept_ev f e = {#}" for e :: "'c rdma_event" by (cases e) auto
qed auto

definition answers_W :: "(QpId \<Rightarrow> u32) \<Rightarrow> 'c rdma \<Rightarrow> (u32 \<times> u32) multiset" where
  "answers_W f = weight (answer_ev f) (answer_pl f) (\<lambda>_. {#}) answer_rx answer_fc (\<lambda>_. {#})"

definition accepts_W :: "(QpId \<Rightarrow> u32) \<Rightarrow> 'c rdma \<Rightarrow> (u32 \<times> u32) multiset" where
  "accepts_W f = weight (accept_ev f) (\<lambda>_. {#}) (\<lambda>_. {#}) answer_rx accept_fc (\<lambda>_. {#})"

section \<open>Connections of the queue pairs\<close>

definition scids_ok :: "(QpId \<Rightarrow> u32) \<Rightarrow> 'c rdma \<Rightarrow> bool" where
  "scids_ok f s \<longleftrightarrow> (\<forall>q ctx. contexts s q = Some ctx \<longrightarrow> ctx_scid ctx = f q)"

text \<open>What stays of a queue pair while it sends and its own operations finish.\<close>

definition target_part where
  "target_part ctx = (ctx_scid ctx, rc_mode ctx, next_rx_rsn ctx)"

lemma place_packet_target: "place_packet ctx a p op e = (ctx', p') \<Longrightarrow> target_part ctx' = target_part ctx"
  by (auto simp: place_packet_def target_part_def Let_def split: if_splits)

lemma finish_packet_target: "finish_packet rsn ctx = Some (ctx', d) \<Longrightarrow> target_part ctx' = target_part ctx"
  by (auto simp: finish_packet_def target_part_def Let_def split: bind_splits if_splits)

lemma base_PostOp_target: "base_PostOp op ctx = Some ctx' \<Longrightarrow> target_part ctx' = target_part ctx"
  by (auto simp: base_PostOp_def target_part_def Let_def split: bind_splits if_splits)

lemma create_packet_target:
  assumes "create_packet env wt ctx = Some (ctx', p, credit, q)"
  shows "target_part ctx' = target_part ctx"
proof (cases wt)
  case WT_kRequest
  then obtain a op p0 op1 e where "place_packet ctx a p0 op1 e = (ctx', p)"
    using assms by (auto simp: create_packet_def CreateRequestPacket_def Let_def split: bind_splits if_splits)
  then show ?thesis by (rule place_packet_target)
next
  case WT_kResponse
  then show ?thesis
    using assms by (auto simp: create_packet_def CreateResponsePacket_def target_part_def Let_def
        split: bind_splits if_splits list.splits)
qed

lemma target_part_simps [simp]:
  "target_part (ctx\<lparr>receive_queue := q\<rparr>) = target_part ctx" "target_part (ctx\<lparr>credit_usage := u\<rparr>) = target_part ctx"
  "target_part (ctx\<lparr>inbound_read_request_queue := r\<rparr>) = target_part ctx"
  "target_part (ctx\<lparr>outbound_read_requests := n, rsn_to_op := m\<rparr>) = target_part ctx"
  "target_part (EnterRnrState ctx) = target_part ctx"
  by (simp_all add: target_part_def EnterRnrState_def)

lemma accept_rsn_target:
  "target_part (accept_rsn ctx) = (ctx_scid ctx, rc_mode ctx,
     if rc_mode ctx = kOrderedRc then next_rx_rsn ctx + 1 else next_rx_rsn ctx)"
  by (simp add: accept_rsn_def LeaveRnrState_def UpdateNextRsnToReceive_def target_part_def)

lemma Send_target:
  assumes "SendTransaction env now qp s = Some s'"
  obtains ctx ctx' where "contexts s qp = Some ctx" "contexts s' = (contexts s)(qp \<mapsto> ctx')" "target_part ctx' = target_part ctx"
proof (rule SendTransaction_frame [OF assms])
  fix ctx ctx1 p credit q ctx2
  assume c: "contexts s qp = Some ctx" "create_packet env (current_work_type s) ctx = Some (ctx1, p, credit, q)"
    "contexts s' = (contexts s)(qp \<mapsto> ctx2)"
    "ctx2 = ctx1\<lparr>credit_usage := credit_usage ctx2, outbound_read_requests := outbound_read_requests ctx2,
       next_schedule_time := next_schedule_time ctx2\<rparr>"
  have "target_part ctx2 = target_part ctx1" by (subst c(4)) (simp add: target_part_def)
  then show ?thesis using that [OF c(1,3)] create_packet_target [OF c(2)] by simp
qed

lemma scids_update:
  assumes "scids_ok f s" "contexts s qp = Some ctx" "contexts s' = (contexts s)(qp \<mapsto> ctx')" "ctx_scid ctx' = ctx_scid ctx"
  shows "scids_ok f s'"
  using assms by (auto simp: scids_ok_def)

lemma target_scid: "target_part ctx' = target_part ctx \<Longrightarrow> ctx_scid ctx' = ctx_scid ctx"
  by (simp add: target_part_def)

section \<open>Every request is answered once\<close>

lemma answer_process:
  assumes "process_work env now w s = Some s'" "scids_ok f s"
  shows "scids_ok f s'" "answers_W f s' = answers_W f s + answer_pl f w"
proof -
  have "scids_ok f s' \<and> answers_W f s' = answers_W f s + answer_pl f w"
    using assms(1)
  proof (cases rule: answers.process_work_effect [where f = f])
    case (nack qp p ctx)
    have "ctx_scid ctx = f qp" using assms(2) nack(3) by (simp add: scids_ok_def)
    then show ?thesis using nack scids_update [OF assms(2) nack(3,4)] by (simp add: answers_W_def)
  next
    case (send_ok qp p ctx r rs q t c)
    have "ctx_scid ctx = f qp" using assms(2) send_ok(3) by (simp add: scids_ok_def)
    then show ?thesis using send_ok scids_update [OF assms(2) send_ok(3,6)] by (simp add: answers_W_def)
  next
    case (write_ok qp p ctx t)
    have "ctx_scid ctx = f qp" using assms(2) write_ok(3) by (simp add: scids_ok_def)
    then show ?thesis using write_ok scids_update [OF assms(2) write_ok(3,5)] by (simp add: answers_W_def)
  next
    case (read_ok qp p ctx)
    then show ?thesis using scids_update [OF assms(2) read_ok(3,5)] by (simp add: answers_W_def)
  next
    case (finished qp rsn ctx ctx1 d out syndrome)
    then show ?thesis
      using scids_update [OF assms(2) finished(2,4)] target_scid [OF finish_packet_target [OF finished(3)]]
      by (auto simp: answers_W_def)
  qed
  then show "scids_ok f s'" "answers_W f s' = answers_W f s + answer_pl f w" by simp_all
qed

text \<open>The requests a call brings in, and that a queue pair is created on its connection.\<close>

fun received :: "(QpId \<Rightarrow> u32) \<Rightarrow> 'c rdma_action \<Rightarrow> (u32 \<times> u32) multiset" where
  "received f (Rx_transaction p) = request_of f (pkt_dest_qp_id p) p"
| "received f _ = {#}"

fun on_connection :: "(QpId \<Rightarrow> u32) \<Rightarrow> 'c rdma_action \<Rightarrow> bool" where
  "on_connection f (Create_rc_qp l r scid c m) \<longleftrightarrow> scid = f l"
| "on_connection f _ \<longleftrightarrow> True"

lemma answer_event:
  assumes "run_event env now e s0 = Some s'" "scids_ok f s0"
  shows "scids_ok f s' \<and> answers_W f s' = answers_W f s0 + answer_ev f e"
  using assms(1)
proof (cases rule: answers.event_effect [where f = f])
  case same
  then show ?thesis using assms(2) by (simp add: scids_ok_def answers_W_def)
next
  case (processed v s1 s2)
  have "scids_ok f s1" using assms(2) processed(2) by (simp add: scids_ok_def)
  from answer_process [OF processed(1) this] processed(3-5) show ?thesis
    by (simp add: scids_ok_def answers_W_def)
next
  case (post qp op ctx ctx1)
  then show ?thesis
    using scids_update [OF assms(2) post(2,4)] target_scid [OF base_PostOp_target [OF post(3)]] by (simp add: answers_W_def)
next
  case (sent qp)
  from sent(2) show ?thesis
  proof (cases rule: Send_target)
    case (1 ctx ctx')
    then show ?thesis using scids_update [OF assms(2) 1(1,2)] target_scid [OF 1(3)] sent(1,3) by (simp add: answers_W_def)
  qed
next
  case (ack_read qp p ctx)
  have "ctx_scid ctx = f qp" using assms(2) ack_read(3) by (simp add: scids_ok_def)
  then show ?thesis using ack_read assms(2) by (simp add: scids_ok_def answers_W_def)
next
  case (queued qp p ctx q)
  then show ?thesis using scids_update [OF assms(2) queued(2,3)] by (simp add: answers_W_def)
qed

lemma answer_step:
  assumes "rdma_step env now a s = Some s'" "scids_ok f s" "on_connection f a"
  shows "scids_ok f s' \<and> answers_W f s' = answers_W f s + received f a"
  using assms(1)
proof (cases rule: answers.step_effect [where f = f])
  case same
  have "answers.gain f a = received f a" using same(3) by (cases a) auto
  then show ?thesis using same assms(2) by (simp add: scids_ok_def answers_W_def)
next
  case (perform qp v sgl i c d op)
  then show ?thesis using assms(2) by (simp add: scids_ok_def answers_W_def)
next
  case (created l r scid c m)
  then show ?thesis using assms(2,3) by (auto simp: scids_ok_def answers_W_def InitializeQpContext_def)
next
  case (returned qp c ctx u)
  then show ?thesis using scids_update [OF assms(2) returned(2,3)] by (simp add: answers_W_def)
next
  case (event e s0)
  have "scids_ok f s0" using assms(2) event(3) by (simp add: scids_ok_def)
  from answer_event [OF event(2) this] event show ?thesis by (simp add: answers_W_def)
qed

lemma reach_answers:
  assumes "rdma_reach env s0 acts now s" "list_all (on_connection f) acts" "scids_ok f s0"
  shows "scids_ok f s \<and> answers_W f s = answers_W f s0 + (\<Sum>a \<leftarrow> acts. received f a)"
  using assms(1,2)
proof induction
  case start
  then show ?case using assms(3) by simp
next
  case (act acts now s t a s')
  then show ?case using answer_step [OF act.hyps(4)] by (simp add: add.assoc)
qed

section \<open>Ordered queue pairs accept in order\<close>

text \<open>
  The requests accepted on a connection are numbered from 0 on, modulo the width of the sequence numbers, and the
  queue pair expects the next one.
\<close>

definition in_order :: "(QpId \<Rightarrow> u32) \<Rightarrow> (u32 \<times> u32) multiset \<Rightarrow> QpId \<Rightarrow> 'c FalconQpContext \<Rightarrow> bool" where
  "in_order f M q ctx \<longleftrightarrow> ctx_scid ctx = f q \<and> (rc_mode ctx = kOrderedRc \<longrightarrow>
     (\<exists>n. next_rx_rsn ctx = of_nat n \<and>
       filter_mset (\<lambda>x. fst x = f q) M = image_mset (\<lambda>i. (f q, of_nat i)) (mset_set {..<n})))"

definition acc_inv :: "(QpId \<Rightarrow> u32) \<Rightarrow> (u32 \<times> u32) multiset \<Rightarrow> (QpId \<Rightarrow> 'c FalconQpContext option) \<Rightarrow> bool" where
  "acc_inv f M cs \<longleftrightarrow> (\<forall>x \<in># M. \<exists>q \<in> dom cs. fst x = f q) \<and> (\<forall>q ctx. cs q = Some ctx \<longrightarrow> in_order f M q ctx)"

lemma in_order_target: "target_part ctx' = target_part ctx \<Longrightarrow> in_order f M q ctx' = in_order f M q ctx"
  by (simp add: in_order_def target_part_def)

lemma acc_keep:
  assumes "acc_inv f M cs" "cs qp = Some ctx" "target_part ctx' = target_part ctx"
  shows "acc_inv f M (cs(qp \<mapsto> ctx'))"
  using assms in_order_target [OF assms(3)] by (auto simp: acc_inv_def)

lemma acc_accept:
  assumes "acc_inv f M cs" "inj f" "cs qp = Some ctx" "IsRsnAcceptable ctx rsn = Some True"
    "target_part ctx' = target_part (accept_rsn ctx)"
  shows "acc_inv f (M + {#(f qp, rsn)#}) (cs(qp \<mapsto> ctx'))"
proof -
  have io: "in_order f M qp ctx" using assms(1,3) by (simp add: acc_inv_def)
  have "in_order f (M + {#(f qp, rsn)#}) qp ctx'"
  proof (cases "rc_mode ctx = kOrderedRc")
    case True
    then obtain n where n: "next_rx_rsn ctx = of_nat n"
      "filter_mset (\<lambda>x. fst x = f qp) M = image_mset (\<lambda>i. (f qp, of_nat i)) (mset_set {..<n})"
      using io by (auto simp: in_order_def)
    have "rsn = of_nat n" using assms(4) True n(1) by (auto simp: IsRsnAcceptable_def split: if_splits)
    then have "filter_mset (\<lambda>x. fst x = f qp) (M + {#(f qp, rsn)#}) = image_mset (\<lambda>i. (f qp, of_nat i)) (mset_set {..<Suc n})"
      using n(2) by (simp add: lessThan_Suc)
    moreover have "next_rx_rsn ctx' = of_nat (Suc n)" "ctx_scid ctx' = f qp"
      using assms(5) [unfolded accept_rsn_target] True n(1) io by (simp_all add: target_part_def in_order_def)
    ultimately show ?thesis unfolding in_order_def by blast
  next
    case False
    then show ?thesis using io assms(5) [unfolded accept_rsn_target] by (simp add: in_order_def target_part_def)
  qed
  moreover have "in_order f (M + {#(f qp, rsn)#}) q c = in_order f M q c" if "q \<noteq> qp" for q c
    using that injD [OF assms(2), of qp q] by (auto simp: in_order_def)
  moreover have "in_order f M q c" if "cs q = Some c" for q c using assms(1) that by (simp add: acc_inv_def)
  moreover have "\<exists>q \<in> dom (cs(qp \<mapsto> ctx')). fst x = f q" if "x \<in># M + {#(f qp, rsn)#}" for x
    using assms(1) that by (auto simp: acc_inv_def)
  ultimately show ?thesis unfolding acc_inv_def by (metis fun_upd_apply option.inject)
qed

lemma acc_process:
  assumes "process_work env now w s = Some s'" "acc_inv f (accepts_W f s) (contexts s)" "inj f"
  shows "acc_inv f (accepts_W f s') (contexts s')"
  using assms(1)
proof (cases rule: accepts.process_work_effect [where f = f])
  case (nack qp p ctx)
  then show ?thesis using acc_keep [OF assms(2) nack(3), of "EnterRnrState ctx"] by (simp add: accepts_W_def)
next
  case (send_ok qp p ctx r rs q t c)
  have "ctx_scid ctx = f qp" using assms(2) send_ok(3) by (simp add: acc_inv_def in_order_def)
  then show ?thesis using acc_accept [OF assms(2,3) send_ok(3,4), of "(accept_rsn ctx)\<lparr>receive_queue := q\<rparr>"] send_ok(6,7)
    by (simp add: accepts_W_def)
next
  case (write_ok qp p ctx t)
  have "ctx_scid ctx = f qp" using assms(2) write_ok(3) by (simp add: acc_inv_def in_order_def)
  then show ?thesis using acc_accept [OF assms(2,3) write_ok(3,4) refl] write_ok(5,6) by (simp add: accepts_W_def)
next
  case (read_ok qp p ctx)
  then show ?thesis using acc_accept [OF assms(2,3) read_ok(3,4) refl] by (simp add: accepts_W_def)
next
  case (finished qp rsn ctx ctx1 d out syndrome)
  have "opt_w (\<lambda>c. {#}) d = ({#} :: (u32 \<times> u32) multiset)" by simp
  then show ?thesis
    using acc_keep [OF assms(2) finished(2), of "ctx1\<lparr>outbound_read_requests := out, rsn_to_op := (rsn_to_op ctx1)(rsn := None)\<rparr>"]
      finish_packet_target [OF finished(3)] finished(4,5)
    by (simp add: accepts_W_def)
qed

lemma acc_event:
  assumes "run_event env now e s = Some s'" "acc_inv f (accepts_W f s + accept_ev f e) (contexts s)" "inj f"
  shows "acc_inv f (accepts_W f s') (contexts s')"
  using assms(1)
proof (cases rule: accepts.event_effect [where f = f])
  case same
  then show ?thesis using assms(2) by (simp add: accepts_W_def)
next
  case (processed v s1 s2)
  have "acc_inv f (accepts_W f s1) (contexts s1)" using assms(2) processed(2,3) by (simp add: accepts_W_def)
  from acc_process [OF processed(1) this assms(3)] show ?thesis using processed(4,5) by (simp add: accepts_W_def)
next
  case (post qp op ctx ctx1)
  then show ?thesis using acc_keep [OF assms(2) post(2) base_PostOp_target [OF post(3)]] by (simp add: accepts_W_def)
next
  case (sent qp)
  from sent(2) show ?thesis
  proof (cases rule: Send_target)
    case (1 ctx ctx')
    then show ?thesis using acc_keep [OF assms(2) 1(1,3)] sent(1,3) by (simp add: accepts_W_def)
  qed
next
  case (ack_read qp p ctx)
  have "ctx_scid ctx = f qp" using assms(2) ack_read(3) by (simp add: acc_inv_def in_order_def)
  then show ?thesis using ack_read assms(2) by (simp add: accepts_W_def)
next
  case (queued qp p ctx q)
  then show ?thesis using acc_keep [OF assms(2) queued(2), of "ctx\<lparr>inbound_read_request_queue := q\<rparr>"] by (simp add: accepts_W_def)
qed

lemma acc_step:
  assumes "rdma_step env now a s = Some s'" "acc_inv f (accepts_W f s) (contexts s)" "inj f" "on_connection f a"
  shows "acc_inv f (accepts_W f s') (contexts s')"
  using assms(1)
proof (cases rule: accepts.step_effect [where f = f])
  case same
  have "accepts.gain a = {#}" using same(3) by (cases a) auto
  then show ?thesis using same assms(2) by (simp add: accepts_W_def)
next
  case (perform qp v sgl i c d op)
  then show ?thesis using assms(2) by (simp add: accepts_W_def)
next
  case (created l r scid c m)
  have "filter_mset (\<lambda>x. fst x = f l) (accepts_W f s) = {#}"
    using assms(2,3) created(2) unfolding acc_inv_def filter_mset_eq_mempty_iff by (metis domIff injD)
  then show ?thesis using assms(2,4) created
    by (auto simp: acc_inv_def in_order_def accepts_W_def InitializeQpContext_def intro!: exI [of _ 0])
next
  case (returned qp c ctx u)
  then show ?thesis using acc_keep [OF assms(2) returned(2), of "ctx\<lparr>credit_usage := u\<rparr>"] by (simp add: accepts_W_def)
next
  case (event e s0)
  then have "acc_inv f (accepts_W f s0 + accept_ev f e) (contexts s0)" using assms(2) by (simp add: accepts_W_def)
  from acc_event [OF event(2) this assms(3)] show ?thesis .
qed

lemma reach_accepts:
  assumes "rdma_reach env s0 acts now s" "list_all (on_connection f) acts" "inj f" "acc_inv f (accepts_W f s0) (contexts s0)"
  shows "acc_inv f (accepts_W f s) (contexts s)"
  using assms(1,2)
proof induction
  case start
  then show ?case using assms(4) by simp
next
  case (act acts now s t a s')
  then show ?case using acc_step [OF act.hyps(4) _ assms(3)] by simp
qed

end
