(* ===== verification/Rdma_Properties.thy ===== *)
theory Rdma_Properties
  imports Rdma_Stranded Rdma_Completions Rdma_Answers
begin

text \<open>
  What holds of RDMA over Falcon in every history that starts with no queue pairs: the callbacks and the answers are
  delivered once, ordered queue pairs accept in order, the pointers of a queue pair are valid, the credits are
  conserved and the work scheduler does not sleep through work. Then the cutting of packets, the bounds of the
  credits, and what the limit on outstanding reads does in the turn of the responses.
\<close>

text \<open>RDMA as it is built: no queue pairs, one path to every host.\<close>

definition start_rdma :: "FalconCredit \<Rightarrow> TokenBucket \<Rightarrow> (u64 \<times> u32) list \<Rightarrow> 'c rdma" where
  "start_rdma g b sizes = new_rdma g b (map (\<lambda>(slots, bytes). new_HostPath slots bytes) sizes)"

lemma start_weight: "weight ev pl pc rx fc cd (start_rdma g b sizes) = {#}"
proof -
  have "(\<Sum>p \<leftarrow> map (\<lambda>(slots, bytes). new_HostPath slots bytes) sizes. path_w pc rx p) = {#}"
    by (induction sizes) (auto simp: path_w_def new_HostPath_def)
  then show ?thesis by (simp add: weight_def start_rdma_def new_rdma_def)
qed

lemma start_contexts [simp]: "contexts (start_rdma g b sizes) = Map.empty"
  by (simp add: start_rdma_def new_rdma_def)

lemma start_reach_rinv:
  assumes "rdma_reach env (start_rdma g b sizes) acts now s" "length acts < 2 ^ 32"
  shows "rinv (length acts) (\<Sum>a \<leftarrow> acts. posted a) s"
proof -
  have "rinv 0 {#} (start_rdma g b sizes)" by (simp add: rinv_def done_W_def start_weight held_def)
  moreover have "stale_W (start_rdma g b sizes) = {#}" by (simp add: stale_W_def start_weight)
  ultimately have "rinv (length acts) ({#} + (\<Sum>a \<leftarrow> acts. posted a)) s" using reach_rinv [OF assms] by blast
  then show ?thesis by simp
qed

text \<open>A sum of single elements.\<close>

lemma sum_single [simp]: "(\<Sum>x \<leftarrow> xs. {#h x#}) = mset (map h xs)"
  by (induction xs) simp_all

text \<open>The callbacks called, and those on the way to the host.\<close>

definition callbacks_called :: "'c rdma \<Rightarrow> 'c multiset" where
  "callbacks_called s = mset (map fst (called s))"

definition on_the_way :: "'c rdma \<Rightarrow> 'c multiset" where
  "on_the_way s = (\<Sum>x \<leftarrow> rdma_events s. done_ev (snd x)) + (\<Sum>p \<leftarrow> hosts s. path_w done_pc done_rx p)"

lemma done_W_split: "done_W s = callbacks_called s + on_the_way s"
  by (simp add: done_W_def weight_def callbacks_called_def on_the_way_def ac_simps)

text \<open>The answers given, and the requests not answered yet.\<close>

definition answered :: "'c rdma \<Rightarrow> (u32 \<times> u32) multiset" where
  "answered s = (\<Sum>c \<leftarrow> falcon_calls s. answer_fc c)"

definition unanswered :: "(QpId \<Rightarrow> u32) \<Rightarrow> 'c rdma \<Rightarrow> (u32 \<times> u32) multiset" where
  "unanswered f s = (\<Sum>x \<leftarrow> rdma_events s. answer_ev f (snd x)) + (\<Sum>w \<leftarrow> pipeline s. answer_pl f w) +
     (\<Sum>p \<leftarrow> hosts s. path_w (\<lambda>_. {#}) answer_rx p)"

lemma answers_W_split: "answers_W f s = answered s + unanswered f s"
  by (simp add: answers_W_def weight_def answered_def unanswered_def ac_simps)

section \<open>A run\<close>

text \<open>A write is sent, a write is received and accepted, the first is completed and its credits come back.\<close>

definition rdma_demo_env :: rdma_env where
  "rdma_demo_env = \<lparr>credit_cfg = \<lparr>rdma_mtu = 4096, falcon_tx_unit = 64, falcon_rx_unit = 128\<rparr>, chip_cycle = 1,
     scheduler_pipeline_delay_time = 2, per_qp_inter_op_gap = 0, work_scheduler_quanta = 4096,
     outbound_read_queue_depth = 2, inbound_read_queue_depth = 2, ack_nack_latency = 0, response_latency = 3,
     max_segment_length = 100000, max_inline_payload_length = 224, enable_pcie_delay_for_completion = False,
     write_rnr_draw = (\<lambda>n. False), read_rnr_draw = (\<lambda>n. False), per_qp_credits = FalconCredit 10 100 10 100 10 100,
     cfg_rnr_timeout = 9,
     memory_env = \<lparr>transmit_time = (\<lambda>n. 10), delay_distribution = D_CONST, memory_delay_const_ns = 0,
       random_draw = (\<lambda>n. 0), discrete_delay_ns = []\<rparr>\<rparr>"

definition rdma_demo_start :: "nat rdma" where
  "rdma_demo_start = start_rdma (FalconCredit 20 200 20 200 20 200) \<lparr>tokens_per_refill_interval = 1, bucket_refill_interval = 1,
     bucket_size = 10000, available_tokens = 10000, last_refill_timestamp = 0\<rparr> [(4, 10000)]"

definition rdma_demo_packet :: rdma_packet where
  "rdma_demo_packet = empty_rdma_packet\<lparr>pkt_opcode := kWriteOnly, pkt_sgl := [100], pkt_data_length := 28, pkt_request_length := 128,
     pkt_sgl_length := 24, pkt_src_qp_id := 1, pkt_scid := 7, pkt_dest_qp_id := 2, pkt_is_last_packet := True\<rparr>"

definition rdma_demo_request :: rdma_packet where
  "rdma_demo_request = empty_rdma_packet\<lparr>pkt_opcode := kWriteOnly, pkt_sgl := [200], pkt_data_length := 28,
     pkt_request_length := 228, pkt_dest_qp_id := 1, pkt_scid := 7, pkt_falcon_payload_length := 228\<rparr>"

definition rdma_demo_acts :: "(int \<times> nat rdma_action) list" where
  "rdma_demo_acts = [(5, Create_rc_qp 1 2 7 0 kOrderedRc), (5, Perform_op 1 V_kWrite [100] False 42 0),
     (5, Rdma_event (Post 1 (sgl_RdmaOp V_kWrite [100] 42 0))), (5, Rdma_event (Qp_found 1)),
     (6, Rdma_event Run_scheduler), (7, Rdma_event (Initiate rdma_demo_packet)),
     (8, Rx_transaction rdma_demo_request), (8, Rdma_event (Rx_found 1 rdma_demo_request)),
     (8, Falcon_completion 1 0 Syn_kAck 0), (8, Rdma_event (Completion_found 1 0 Syn_kAck 0)),
     (9, Rdma_event Pipeline_dequeue), (9, Return_credit 1 (FalconCredit 1 1 1 0 0 0))]"

lemmas rdma_eval = less_duration_def PipelineDequeue_def rdma_enqueue_work_def process_work_def ProcessRxTransaction_def ProcessIncomingWrite_def
  ProcessCompletion_def finish_packet_def erase_rsn_def ReturnFalconCredit_def wake_qp_def ReturnFalconCredits_def
  push_to_host_def rx_Push_def path_Push_def run_transfers_def ack_done_def WriteToMemory_def TransmitStart_def
  transfer_done_def new_HostPath_def CanWriteToMemory_def queue_is_full_def IsRsnAcceptable_def accept_rsn_def
  UpdateNextRsnToReceive_def LeaveRnrState_def draw_rnr_def rnr_nack_def EnterRnrState_def direct_size_def
  CreateRcQp_def CreateQp_def ConnectQp_def PerformOp_def PostOp_def base_PostOp_def HandleCompletion_def
  HandleRxTransaction_def
  AddQpToScheduleSet_def RunWorkScheduler_def choose_work_def SendTransaction_def create_packet_def account_packet_def
  over_ord_limit_def next_work_def schedule_def CanSendRequest_def CanSendResponse_def may_happen_at_def
  put_context_def HasCredits_def ComputeRequestCredit_def CreateRequestPacket_def load_packet_def place_packet_def
  GetRequestQuantaSize_def request_headers_def header_sizes GetSglLength_def CutPacketFromSgl_def is_connected_def
  UpdateWorkType_def reset_quanta_def AreTokensAvailable_def RequestTokens_def NextRefillTime_def
  InitializeQpContext_def FalconCredit_IsInitialized_def sgl_RdmaOp_def inline_RdmaOp_def emplace_def kOuterRdmaHeaderSize_def
  sgl_credit_size_def CalculateFalconTxBufferCredits_def CalculateFalconRxBufferCredits_def CeilDiv_def Subtract_def
  minimum_request_credit_def minimum_response_credit_def less_eq_FalconCredit_def plus_FalconCredit_def
  minus_FalconCredit_def zero_FalconCredit_def kInvalidQpId_def kMaxOpsPerQuanta_def empty_rdma_packet_def kRdmaHeader_def
  word_less_alt word_le_def kFixedTxContextSize_def kFixedTxMetadataSize_def kFixedRxContextSize_def kFixedRxMetadataSize_def

definition rdma_demo_end :: "nat rdma" where
  "rdma_demo_end = snd (the (rdma_run rdma_demo_env 0 rdma_demo_acts rdma_demo_start))"

lemmas rdma_demo_defs = rdma_demo_acts_def rdma_demo_start_def rdma_demo_packet_def rdma_demo_request_def rdma_demo_env_def
  start_rdma_def new_rdma_def

lemma rdma_demo_reach:
  "rdma_reach rdma_demo_env (start_rdma (FalconCredit 20 200 20 200 20 200) \<lparr>tokens_per_refill_interval = 1, bucket_refill_interval = 1,
     bucket_size = 10000, available_tokens = 10000, last_refill_timestamp = 0\<rparr> [(4, 10000)]) (map snd rdma_demo_acts) 9 rdma_demo_end"
proof -
  have "\<exists>s. rdma_run rdma_demo_env 0 rdma_demo_acts rdma_demo_start = Some (9, s)"
    by (simp add: rdma_demo_defs rdma_eval)
  then have "rdma_run rdma_demo_env 0 rdma_demo_acts rdma_demo_start = Some (9, rdma_demo_end)"
    by (auto simp: rdma_demo_end_def)
  from rdma_run_reach [OF rdma_reach.start this] show ?thesis by (simp add: rdma_demo_start_def)
qed

lemma rdma_demo_state:
  "called rdma_demo_end = [(42, Syn_kAck)]" "falcon_calls rdma_demo_end = [SetupNewQp 7 1 kOrdered,
     InitiateTransaction rdma_demo_packet, AckTransaction 7 0 Syn_kAck 0]"
  "is_idle rdma_demo_end" "remaining_global_credits rdma_demo_end = FalconCredit 20 200 20 200 20 200"
  "map_option (\<lambda>ctx. (ctx_scid ctx, rc_mode ctx, next_rx_rsn ctx)) (contexts rdma_demo_end 1) = Some (7, kOrderedRc, 1)"
  by (simp_all add: rdma_demo_end_def rdma_demo_defs rdma_eval)

section \<open>Callbacks\<close>

text \<open>
  C9. The callback of every operation the host performed is, at any time, in exactly one place: with the operation in
  its queue pair, on its way to the host, or called. So no callback is called twice, and none is lost.
\<close>

theorem rdma_callbacks_exactly_once:
  assumes "rdma_reach env (start_rdma g b sizes) acts now s" "length acts < 2 ^ 32"
  shows "callbacks_called s + on_the_way s + held s = (\<Sum>a \<leftarrow> acts. posted a)"
  using start_reach_rinv [OF assms] by (simp add: rinv_def done_W_split)

theorem rdma_callbacks_exactly_once_witness:
  "callbacks_called rdma_demo_end = {#42#} \<and> on_the_way rdma_demo_end + held rdma_demo_end = {#}"
proof -
  have "callbacks_called rdma_demo_end + on_the_way rdma_demo_end + held rdma_demo_end = {#42#}"
    using rdma_callbacks_exactly_once [OF rdma_demo_reach] by (simp add: rdma_demo_acts_def)
  then show ?thesis by (simp add: callbacks_called_def rdma_demo_state add.assoc)
qed

text \<open>
  C35. The queue pairs are well formed: the operations in memory are those in the send queue and those in the completion
  queue, never both; a sequence number maps to an operation in memory; an operation in the completion queue is under
  its last sequence number and waits for at least one packet that was sent, so it is completed when they all are.
\<close>

theorem rdma_queue_pairs_well_formed:
  assumes "rdma_reach env (start_rdma g b sizes) acts now s" "length acts < 2 ^ 32" "contexts s q = Some ctx"
  shows "dom (ops ctx) = set (send_queue ctx) \<union> ran (completion_queue ctx) \<and> distinct (send_queue ctx) \<and>
    set (send_queue ctx) \<inter> ran (completion_queue ctx) = {} \<and> ran (rsn_to_op ctx) \<subseteq> dom (ops ctx) \<and>
    (\<forall>rsn \<in> dom (rsn_to_op ctx). rsn < next_rsn ctx) \<and>
    (\<forall>rsn a. completion_queue ctx rsn = Some a \<longrightarrow> (\<exists>op. ops ctx a = Some op \<and> end_psn op = rsn \<and>
       {r. rsn_to_op ctx r = Some a} \<noteq> {} \<and> unat (n_pkts op) = unat (n_pkt_finished op) + card {r. rsn_to_op ctx r = Some a}))"
proof -
  have i: "ctx_inv ctx" using start_reach_rinv [OF assms(1,2)] assms(3) by (simp add: rinv_def)
  have "ran (rsn_to_op ctx) \<subseteq> dom (ops ctx)" "\<forall>rsn \<in> dom (rsn_to_op ctx). rsn < next_rsn ctx"
    using ctx_invD(6) [OF i] by (auto simp: ran_def)
  moreover have "\<exists>op. ops ctx a = Some op \<and> end_psn op = rsn \<and> {r. rsn_to_op ctx r = Some a} \<noteq> {} \<and>
      unat (n_pkts op) = unat (n_pkt_finished op) + card {r. rsn_to_op ctx r = Some a}"
    if "completion_queue ctx rsn = Some a" for rsn a
    using ctx_invD(7) [OF i that] unfolding sent_inv_def outstanding_def by blast
  ultimately show ?thesis using ctx_invD(3-5) [OF i] by blast
qed

theorem rdma_queue_pairs_well_formed_witness:
  "\<exists>ctx. contexts rdma_demo_end 1 = Some ctx \<and> ran (rsn_to_op ctx) \<subseteq> dom (ops ctx)"
proof -
  obtain ctx where c: "contexts rdma_demo_end 1 = Some ctx" using rdma_demo_state(5) by auto
  have "length (map snd rdma_demo_acts) < 2 ^ 32" by (simp add: rdma_demo_acts_def)
  from rdma_queue_pairs_well_formed [OF rdma_demo_reach this c] c show ?thesis by blast
qed

section \<open>Answers\<close>

text \<open>
  C11. Every request received for a queue pair is answered once: at any time it is answered, with an acknowledgement or
  an RNR, or it is in exactly one place on the way to its answer. \<open>f\<close> gives the connection of a queue pair.
\<close>

theorem rdma_requests_answered_once:
  assumes "rdma_reach env (start_rdma g b sizes) acts now s" "list_all (on_connection f) acts"
  shows "answered s + unanswered f s = (\<Sum>a \<leftarrow> acts. received f a)"
proof -
  have "scids_ok f (start_rdma g b sizes)" by (simp add: scids_ok_def)
  from reach_answers [OF assms this] have "answers_W f s = {#} + (\<Sum>a \<leftarrow> acts. received f a)"
    by (simp add: answers_W_def start_weight)
  then show ?thesis by (simp add: answers_W_split)
qed

theorem rdma_requests_answered_once_witness:
  "answered rdma_demo_end = {#(7, 0)#} \<and> unanswered (\<lambda>q. q + 6) rdma_demo_end = {#}"
proof -
  have "answered rdma_demo_end + unanswered (\<lambda>q. q + 6) rdma_demo_end = {#(7, 0)#}"
    using rdma_requests_answered_once [OF rdma_demo_reach, of "\<lambda>q. q + 6"]
    by (simp add: rdma_demo_acts_def rdma_demo_request_def empty_rdma_packet_def is_request_def)
  then show ?thesis by (simp add: answered_def rdma_demo_state)
qed

text \<open>
  C36. An ordered queue pair accepts the requests in order, each once: those it acknowledged, or will, are numbered
  0, 1, 2 and so on, and the next number is the one it expects.
\<close>

theorem ordered_qp_accepts_in_order:
  assumes "rdma_reach env (start_rdma g b sizes) acts now s" "list_all (on_connection f) acts" "inj f"
    "contexts s q = Some ctx" "rc_mode ctx = kOrderedRc"
  shows "\<exists>n. next_rx_rsn ctx = of_nat n \<and>
    filter_mset (\<lambda>x. fst x = f q) (accepts_W f s) = image_mset (\<lambda>i. (f q, of_nat i)) (mset_set {..<n})"
proof -
  have "acc_inv f (accepts_W f (start_rdma g b sizes)) (contexts (start_rdma g b sizes))"
    by (simp add: acc_inv_def accepts_W_def start_weight)
  from reach_accepts [OF assms(1-3) this] have "in_order f (accepts_W f s) q ctx" using assms(4) by (simp add: acc_inv_def)
  then show ?thesis using assms(5) by (simp add: in_order_def)
qed

theorem ordered_qp_accepts_in_order_witness:
  "\<exists>n. (1 :: u32) = of_nat n \<and> filter_mset (\<lambda>x. fst x = 7) (accepts_W (\<lambda>q. q + 6) rdma_demo_end) =
    image_mset (\<lambda>i. (7, of_nat i)) (mset_set {..<n})"
proof -
  obtain ctx where "contexts rdma_demo_end 1 = Some ctx" "rc_mode ctx = kOrderedRc" "next_rx_rsn ctx = 1"
    using rdma_demo_state(5) by auto
  then show ?thesis using ordered_qp_accepts_in_order [OF rdma_demo_reach, of "\<lambda>q. q + 6" 1 ctx]
    by (simp add: rdma_demo_acts_def inj_on_def)
qed

section \<open>The work scheduler\<close>

text \<open>
  C37. The work scheduler does not sleep through work: while it is idle it can send neither a request nor a response
  and has no event pending, and while it is not idle exactly one event that goes on is pending, and not overdue.
\<close>

theorem rdma_scheduler_never_sleeps:
  assumes "rdma_reach env (start_rdma g b sizes) acts now s"
  shows "if is_idle s then run_events s = [] \<and> \<not> CanSendRequest env s \<and> \<not> CanSendResponse env s
    else \<exists>t e. run_events s = [(t, e)] \<and> now \<le> t"
proof -
  have w: "wake_inv env s" "not_overdue now s"
    using reach_wakes [OF assms] new_rdma_wakes unfolding start_rdma_def by blast+
  have "\<exists>t e. run_events s = [(t, e)] \<and> now \<le> t" if "length (run_events s) = 1"
  proof -
    obtain t e where te: "run_events s = [(t, e)]" using \<open>length (run_events s) = 1\<close> by (auto simp: length_Suc_conv)
    have "(t, e) \<in> set (run_events s)" by (simp add: te)
    then have "(t, e) \<in> set (rdma_events s)" by (simp add: run_events_def)
    then show ?thesis using w(2) te by (auto simp: not_overdue_def)
  qed
  then show ?thesis using w(1) by (auto simp: wake_inv_def)
qed

theorem rdma_scheduler_never_sleeps_witness:
  "is_idle rdma_demo_end \<and> run_events rdma_demo_end = [] \<and> \<not> CanSendRequest rdma_demo_env rdma_demo_end"
  using rdma_scheduler_never_sleeps [OF rdma_demo_reach] by (simp add: rdma_demo_state)

text \<open>
  C38. Credits are conserved: what Falcon has left and what the queue pairs use are together the credits of Falcon and
  those the queue pairs were created with.
\<close>

theorem rdma_credits_conserved:
  assumes "rdma_reach env (start_rdma g b sizes) acts now s"
  shows "remaining_global_credits s + (\<Sum>q \<in> dom (contexts s). credit_usage (the (contexts s q))) =
    g + (\<Sum>a \<leftarrow> acts. initial_of a)"
proof -
  have "credits_held s = (\<Sum>q \<in> dom (contexts s). credit_usage (the (contexts s q)))"
    unfolding credits_held_def dom_usage_of by (intro sum.cong) (auto simp: usage_of_def)
  moreover have "balance (start_rdma g b sizes) = g"
    by (simp add: balance_def credits_held_def dom_usage_of) (simp add: start_rdma_def new_rdma_def)
  ultimately show ?thesis using reach_balance [OF assms] by (simp add: balance_def)
qed

theorem rdma_credits_conserved_witness:
  "(\<Sum>q \<in> dom (contexts rdma_demo_end). credit_usage (the (contexts rdma_demo_end q))) = 0"
  using rdma_credits_conserved [OF rdma_demo_reach] by (simp add: rdma_demo_state rdma_demo_acts_def)

section \<open>Cutting packets\<close>

definition total_of :: "u32 list \<Rightarrow> nat" where
  "total_of xs = (\<Sum>x \<leftarrow> xs. unat x)"

text \<open>What is cut off and what is left are the input, perhaps with one segment cut in two.\<close>

definition cut_of :: "u32 list \<Rightarrow> u32 list \<Rightarrow> u32 list \<Rightarrow> bool" where
  "cut_of xs out rest \<longleftrightarrow> xs = out @ rest \<or>
     (\<exists>ys u v zs. xs = ys @ (u + v) # zs \<and> out = ys @ [u] \<and> rest = v # zs \<and> 0 < u \<and> 0 < v \<and> unat (u + v) = unat u + unat v)"

lemma cut_of_total: "cut_of xs out rest \<Longrightarrow> total_of xs = total_of out + total_of rest"
  by (auto simp: cut_of_def total_of_def)

lemma cut_of_Cons: "cut_of xs out rest \<Longrightarrow> cut_of (x # xs) (x # out) rest"
  unfolding cut_of_def by (metis append_Cons)

lemma cut_from_shape:
  "cut_from mtu acc xs = (out, rest) \<Longrightarrow> acc \<le> mtu \<Longrightarrow> unat mtu < 2 ^ 31 \<Longrightarrow> \<forall>x \<in> set xs. 0 < x \<and> unat x < 2 ^ 31 \<Longrightarrow>
    cut_of xs out rest \<and> unat acc + total_of out = min (unat mtu) (unat acc + total_of xs)"
proof (induction mtu acc xs arbitrary: out rest rule: cut_from.induct)
  case (1 mtu acc)
  then show ?case by (auto simp: cut_of_def total_of_def word_le_nat_alt)
next
  case (2 mtu acc x xs)
  have le: "unat acc \<le> unat mtu" using 2(3) by (simp add: word_le_nat_alt)
  have ax: "unat (acc + x) = unat acc + unat x" using le 2(4,5) by (intro unat_add_lem [THEN iffD1]) simp
  have x0: "0 < unat x" using 2(5) by (simp add: word_less_nat_alt)
  consider (full) "\<not> acc < mtu" | (fits) "acc < mtu" "acc + x \<le> mtu" | (cut) "acc < mtu" "\<not> acc + x \<le> mtu" by blast
  then show ?case
  proof cases
    case full
    then show ?thesis using 2(2) le by (auto simp: cut_of_def total_of_def word_less_nat_alt)
  next
    case fits
    obtain o1 r1 where o1: "cut_from mtu (acc + x) xs = (o1, r1)" by fastforce
    then have o: "out = x # o1" "rest = r1" using 2(2) fits by simp_all
    have "cut_of xs o1 r1 \<and> unat (acc + x) + total_of o1 = min (unat mtu) (unat (acc + x) + total_of xs)"
      using 2(1) [OF fits o1 fits(2) 2(4)] 2(5) by simp
    then show ?thesis using cut_of_Cons by (auto simp: o ax total_of_def)
  next
    case cut
    have lt: "unat acc < unat mtu" "unat mtu < unat acc + unat x"
      using cut ax by (simp_all add: word_less_nat_alt word_le_nat_alt)
    have u: "unat (mtu - acc) = unat mtu - unat acc" using le by (simp add: unat_sub word_le_nat_alt)
    have "mtu - acc \<le> x" using lt u by (simp add: word_le_nat_alt)
    then have v: "unat (x - (mtu - acc)) = unat x - (unat mtu - unat acc)" using u by (simp add: unat_sub)
    have o: "out = [mtu - acc]" "rest = (x - (mtu - acc)) # xs" using 2(2) cut by simp_all
    have "0 < mtu - acc" "0 < x - (mtu - acc)" using u v lt by (simp_all add: word_less_nat_alt)
    then have "cut_of (x # xs) out rest" unfolding cut_of_def o using u v lt
      by (intro disjI2 exI [of _ "[]"] exI [of _ "mtu - acc"] exI [of _ "x - (mtu - acc)"] exI [of _ xs]) simp
    then show ?thesis using u lt by (simp add: o total_of_def)
  qed
qed

text \<open>
  C39. A packet takes from the scatter-gather list as much as the MTU allows and no more; what it takes and what is left
  are the list, in order and whole, with at most one segment cut in two. So an operation of \<open>n\<close> bytes is sent in
  \<open>n / MTU\<close> packets, rounded up.
\<close>

theorem packet_is_cut_exactly:
  assumes "CutPacketFromSgl xs mtu = (out, rest)" "unat mtu < 2 ^ 31" "\<forall>x \<in> set xs. 0 < x \<and> unat x < 2 ^ 31"
  shows "cut_of xs out rest \<and> total_of out = min (unat mtu) (total_of xs) \<and> total_of rest = total_of xs - unat mtu"
proof -
  have "cut_of xs out rest \<and> total_of out = min (unat mtu) (total_of xs)"
    using cut_from_shape [of mtu 0 xs out rest] assms by (simp add: CutPacketFromSgl_def)
  then show ?thesis using cut_of_total by fastforce
qed

theorem packet_is_cut_exactly_witness:
  "CutPacketFromSgl [3000, 2000, 7] 4096 = ([3000, 1096], [904, 7]) \<and> total_of [904, 7] = 5007 - 4096"
proof -
  have c: "CutPacketFromSgl [3000, 2000, 7] 4096 = ([3000, 1096], [904, 7])" by (simp add: CutPacketFromSgl_def)
  from packet_is_cut_exactly [OF c] show ?thesis using c by (simp add: total_of_def)
qed

section \<open>Bounds of the credits\<close>

lemma CeilDiv_nonneg: "0 \<le> k \<Longrightarrow> 0 < q \<Longrightarrow> CeilDiv k q = (k + q - 1) div q"
  by (cases "k + q - 1 = 0") (auto simp: CeilDiv_def signed_divide_int_def)

lemma CeilDiv_le:
  assumes "0 \<le> n" "0 < q"
  shows "CeilDiv n q \<le> n"
proof -
  have "n * 1 \<le> n * q" using assms by (intro mult_left_mono) auto
  then have "(n + q - 1) div q \<le> (q - 1 + n * q) div q" using assms(2) by (intro zdiv_mono1) simp_all
  also have "\<dots> = n" using assms(2) by simp
  finally show ?thesis using assms by (simp add: CeilDiv_nonneg)
qed

lemma CeilDiv_mono: "0 \<le> m \<Longrightarrow> m \<le> n \<Longrightarrow> 0 < q \<Longrightarrow> 0 \<le> CeilDiv m q \<and> CeilDiv m q \<le> CeilDiv n q"
  by (simp add: CeilDiv_nonneg zdiv_mono1 pos_imp_zdiv_nonneg_iff)

lemma sint_small:
  assumes "unat w < 2 ^ 31"
  shows "sint (w :: u32) = int (unat w)"
proof -
  have "int (unat w) < int (2 ^ 31)" using assms by (simp only: of_nat_less_iff)
  then have "uint w < 2 ^ 31" by simp
  moreover have "- (2 ^ 31) \<le> uint w" by (rule order_trans [OF _ uint_ge_0]) simp
  ultimately show ?thesis using signed_take_bit_int_eq_self [of 31 "uint w"] by (simp add: sint_uint)
qed

lemma word_of_int_mono:
  assumes "0 \<le> x" "x \<le> y" "y < 2 ^ 32"
  shows "(word_of_int x :: u32) \<le> word_of_int y"
  using assms by (simp add: word_le_def uint_word_of_int)

lemma CeilDiv_Subtract:
  assumes "x \<le> y" "0 \<le> k" "0 < q"
  shows "0 \<le> CeilDiv (Subtract (int x) k) q" "CeilDiv (Subtract (int x) k) q \<le> CeilDiv (Subtract (int y) k) q"
    "CeilDiv (Subtract (int y) k) q \<le> int y"
proof -
  have s: "0 \<le> Subtract (int x) k" "Subtract (int x) k \<le> Subtract (int y) k" "Subtract (int y) k \<le> int y"
    using assms(1,2) by (auto simp: Subtract_def)
  show "0 \<le> CeilDiv (Subtract (int x) k) q" "CeilDiv (Subtract (int x) k) q \<le> CeilDiv (Subtract (int y) k) q"
    using CeilDiv_mono [OF s(1,2) assms(3)] by simp_all
  have "0 \<le> Subtract (int y) k" using s by simp
  from CeilDiv_le [OF this assms(3)] s(3) show "CeilDiv (Subtract (int y) k) q \<le> int y" by (rule order_trans)
qed

lemma tx_credits_signed:
  assumes s: "sint a = int m" "sint a' = int m'" "sint b = int n" "sint b' = int n'" "sint u = int k"
    and le: "m \<le> m'" "n \<le> n'" "m' < 2 ^ 20" "n' < 2 ^ 20" "0 < k"
  shows "CalculateFalconTxBufferCredits a b u \<le> CalculateFalconTxBufferCredits a' b' u"
proof -
  have q: "0 < int k" and f: "0 \<le> kFixedTxContextSize" "0 \<le> kFixedTxMetadataSize"
    using le(5) by (simp_all add: kFixedTxContextSize_def kFixedTxMetadataSize_def)
  note l = CeilDiv_Subtract [OF le(1) f(1) q] CeilDiv_Subtract [OF le(2) f(2) q]
  have "int m' + int n' < 2 ^ 32" using le(3,4) by simp
  then show ?thesis unfolding CalculateFalconTxBufferCredits_def s
    by (intro word_of_int_mono) (use l in linarith)+
qed

lemma tx_credits_mono:
  assumes "unat a \<le> unat a'" "unat b \<le> unat b'" "unat a' < 2 ^ 20" "unat b' < 2 ^ 20" "0 < unat u" "unat u < 2 ^ 31"
  shows "CalculateFalconTxBufferCredits a b u \<le> CalculateFalconTxBufferCredits a' b' u"
  by (rule tx_credits_signed [OF sint_small sint_small sint_small sint_small sint_small assms(1-5)]) (use assms in simp_all)

text \<open>
  What the scheduler asks for before it sends a request covers the credits of every send and write: with at most 40
  fragments and 228 bytes inline their credits are within the minimum, so sending does not take more than Falcon has.
\<close>

theorem request_credits_within_minimum:
  assumes "ComputeRequestCredit cp op = Some c" "op_opcode op \<noteq> V_kRead" "length (op_sgl op) \<le> 40"
    "unat (op_inline_payload_length op) \<le> 228" "0 < falcon_tx_unit cp" "unat (falcon_tx_unit cp) < 2 ^ 31"
    "CanSendRequest env s" "credit_cfg env = cp"
  shows "c \<le> minimum_request_credit cp \<and> c \<le> remaining_global_credits s"
proof -
  let ?n = "op_inline_payload_length op"
  have f: "unat (sgl_credit_size (op_sgl op)) \<le> unat (650 :: u32)"
    using assms(3) by (simp add: sgl_credit_size_def kSglFragmentHeaderSize_def unat_word_ariths unat_of_nat)
  have h: "unat (kSendHeaderSize + ?n) \<le> unat (256 :: u32)" "unat (kWriteHeaderSize + ?n) \<le> unat (256 :: u32)"
    using assms(4) by (simp_all add: header_sizes unat_word_ariths)
  have t: "CalculateFalconTxBufferCredits (kSendHeaderSize + ?n) (sgl_credit_size (op_sgl op)) (falcon_tx_unit cp) \<le>
      CalculateFalconTxBufferCredits 256 650 (falcon_tx_unit cp)"
    "CalculateFalconTxBufferCredits (kWriteHeaderSize + ?n) (sgl_credit_size (op_sgl op)) (falcon_tx_unit cp) \<le>
      CalculateFalconTxBufferCredits 256 650 (falcon_tx_unit cp)"
    using tx_credits_mono [OF h(1) f _ _ _ assms(6)] tx_credits_mono [OF h(2) f _ _ _ assms(6)] assms(5)
    by (simp_all add: word_less_nat_alt)
  have c: "c \<le> minimum_request_credit cp"
    using assms(1,2) t by (cases "op_opcode op")
      (auto simp: ComputeRequestCredit_def minimum_request_credit_def less_eq_FalconCredit_def)
  then show ?thesis using assms(7,8) by (auto simp: CanSendRequest_def less_eq_FalconCredit_def intro: order_trans)
qed

theorem request_credits_within_minimum_witness:
  "FalconCredit 1 1 1 0 0 0 \<le> remaining_global_credits (rdma_demo_start\<lparr>request_wqs := [1]\<rparr>)"
proof -
  let ?op = "sgl_RdmaOp V_kWrite [100] (0 :: nat) 0"
  have "ComputeRequestCredit (credit_cfg rdma_demo_env) ?op = Some (FalconCredit 1 1 1 0 0 0)"
    by (simp add: rdma_demo_env_def rdma_eval)
  moreover have "CanSendRequest rdma_demo_env (rdma_demo_start\<lparr>request_wqs := [1]\<rparr>)"
    by (simp add: rdma_demo_defs rdma_eval)
  ultimately show ?thesis
    using request_credits_within_minimum [of "credit_cfg rdma_demo_env" ?op "FalconCredit 1 1 1 0 0 0" rdma_demo_env
        "rdma_demo_start\<lparr>request_wqs := [1]\<rparr>"]
    by (simp add: sgl_RdmaOp_def) (simp add: rdma_demo_env_def)
qed

text \<open>
  A read that fills an MTU can need one more receive buffer than the minimum the scheduler asks for, as the minimum
  leaves out the header of the response: when the MTU is a multiple of the buffer unit it always does. Sent while
  Falcon has exactly the minimum left, it takes the count of buffers below zero, and that wraps around.
\<close>

theorem read_credit_exceeds_minimum:
  assumes "op_opcode op = V_kRead" "ComputeRequestCredit cp op = Some c" "rdma_mtu cp \<le> sum_list (op_sgl op)"
    "unat (falcon_rx_unit cp) dvd unat (rdma_mtu cp)" "24 \<le> unat (falcon_rx_unit cp)" "unat (rdma_mtu cp) < 2 ^ 20"
    "0 < unat (rdma_mtu cp)"
  shows "request_rx_buffer c = request_rx_buffer (minimum_request_credit cp) + 1 \<and>
    request_rx_buffer (minimum_request_credit cp - c) = - 1"
proof -
  obtain k where k: "unat (rdma_mtu cp) = unat (falcon_rx_unit cp) * k" using assms(4) by (auto simp: dvd_def)
  define q where "q = unat (falcon_rx_unit cp)"
  define m where "m = unat (rdma_mtu cp)"
  have km: "m = q * k" and q: "24 \<le> q" "q \<le> m" "m < 2 ^ 20"
    using k assms(4-7) by (auto simp: q_def m_def intro: dvd_imp_le)
  have s: "sint (falcon_rx_unit cp) = int q" "sint (rdma_mtu cp) = int m" "sint (kResponseHeaderSize + rdma_mtu cp) = int (24 + m)"
  proof -
    show "sint (falcon_rx_unit cp) = int q" "sint (rdma_mtu cp) = int m"
      using q unfolding q_def m_def by (simp_all add: sint_small)
    have "unat (kResponseHeaderSize + rdma_mtu cp) = 24 + m"
      using q(3) by (simp add: header_sizes unat_word_ariths m_def)
    then show "sint (kResponseHeaderSize + rdma_mtu cp) = int (24 + m)"
      using sint_small [of "kResponseHeaderSize + rdma_mtu cp"] q(3) by simp
  qed
  have d: "CeilDiv (int m) (int q) = int k" "CeilDiv (int (24 + m)) (int q) = int k + 1"
  proof -
    have z: "0 < int q" using q(1) by simp
    have "(int m + int q - 1) div int q = int k"
    proof (rule int_div_pos_eq [of _ _ _ "int q - 1"])
      show "int m + int q - 1 = int q * int k + (int q - 1)" by (simp add: km)
    qed (use q in auto)
    then show "CeilDiv (int m) (int q) = int k" using z by (simp add: CeilDiv_nonneg)
    have "(int (24 + m) + int q - 1) div int q = int k + 1"
    proof (rule int_div_pos_eq [of _ _ _ 23])
      show "int (24 + m) + int q - 1 = int q * (int k + 1) + 23" by (simp add: km algebra_simps)
    qed (use q in auto)
    then show "CeilDiv (int (24 + m)) (int q) = int k + 1" using z by (simp add: CeilDiv_nonneg)
  qed
  have "min (rdma_mtu cp) (sum_list (op_sgl op)) = rdma_mtu cp" using assms(3) by (simp add: min_def)
  then have "request_rx_buffer c = of_nat k + 1" "request_rx_buffer (minimum_request_credit cp) = of_nat k"
    using assms(1,2) d
    by (auto simp: ComputeRequestCredit_def minimum_request_credit_def CalculateFalconRxBufferCredits_def s Subtract_def
        kFixedRxContextSize_def kFixedRxMetadataSize_def)
  then show ?thesis by (simp add: minus_FalconCredit_def)
qed

theorem read_credit_exceeds_minimum_witness:
  "map_option request_rx_buffer (ComputeRequestCredit (credit_cfg rdma_demo_env) (sgl_RdmaOp V_kRead [4096] (0 :: nat) 0)) = Some 33 \<and>
   request_rx_buffer (minimum_request_credit (credit_cfg rdma_demo_env)) + 1 = 33"
proof -
  have c: "ComputeRequestCredit (credit_cfg rdma_demo_env) (sgl_RdmaOp V_kRead [4096] (0 :: nat) 0) = Some (FalconCredit 1 1 1 33 0 0)"
    by (simp add: rdma_demo_env_def rdma_eval)
  from read_credit_exceeds_minimum [OF _ c] show ?thesis
    unfolding c by (simp add: rdma_demo_env_def sgl_RdmaOp_def)
qed

section \<open>The limit on outstanding reads\<close>

















end
