(* ===== verification/Spec2Isabelle.thy ===== *)
theory Spec2Isabelle
  imports Prelude Falcon_Types Bitmap Credits Transactions Round_Robin Host_Rx_Scheduler Reorder
    Rx_Window Reliability_State Ack_Coalescing Tx_Window Loss_Recovery Loss_Recovery_Facts Receive Exactly_Once
    Resource_Manager Admission_Control Weighted_Round_Robin Fast_Schedulers Fast_Scheduler_Facts
    Fast_Scheduler_History Arbiter Event_Queue Ip_Trie Routing
    Mmu Router Router_Memory Router_Conservation Router_Control Router_Ports Router_History Router_Properties
    Host_Rx_Buffers Rdma_Types Rdma_Scheduler Rdma_Falcon Rdma_Frames Rdma_Credits Rdma_Wakeup Rdma_Stranded
    Host_Rx_Callbacks Rdma_Weights Rdma_Effects Rdma_Queue_Pairs Rdma_Completions Rdma_Answers Rdma_Properties
begin

text \<open>
  A model of Isekai, a discrete-event simulator of the Falcon transport and of the fabric it runs over
  (\<open>src/isekai\<close>), with the theorems that make its parts correct.

  \<^bold>\<open>The program.\<close> A host performs RDMA operations (\<open>host/rdma\<close>): the work scheduler cuts them into packets
  within the credits of Falcon, received data passes buffers to the memory of the host, and completions come
  back by callbacks. A Falcon NIC (\<open>host/falcon\<close>) carries transactions between two hosts. A request of the
  upper layer passes the resource manager, which charges credits, and becomes a transaction of its
  connection. The connection scheduler picks a packet; the admission control manager and the windows of
  the packet reliability manager gate it; the reliability manager gives it a sequence number, keeps it until
  it is acknowledged and sends it again when it is lost. At the receiver the reliability manager filters
  duplicates with its windows, the buffer reorder engine restores the order of requests and completions, and
  the ACK coalescing engine decides when to acknowledge. The fabric (\<open>fabric\<close>) is made of routers: a port
  receives a frame, the memory management unit accounts for it and pauses the sender when memory is short,
  the routing pipeline chooses the output port, and the port sends. All parts run on events of one clock
  (\<open>common/simple_environment\<close>, or OMNeT++).

  \<^bold>\<open>How the code is modelled.\<close> A class is a record, an operation a function of the record that returns the new
  one. A failed \<open>CHECK\<close>, a \<open>LOG(FATAL)\<close>, undefined behaviour and an exception are the value \<open>None\<close>; a status is
  a value of \<open>status\<close>, a \<open>StatusOr\<close> a sum. Integers have their width where it can matter (\<open>u8\<close> to \<open>u128\<close>);
  an ordered container is a sorted association list, a hash map a partial map or, where its iteration
  matters, a list whose order is a parameter. Calls on another component are logged in the state or, where
  their result matters, are parameters (an \<open>env\<close> record). Floating point is a record of operations (\<open>fops\<close>)
  or reals as parameters: no theorem depends on rounding. Pointers held by several owners are identifiers
  into one map. Counters that only feed statistics are left out.

  \<^bold>\<open>Theories.\<close> Each opens with the files it models.
  \<^item> \<open>Prelude\<close>, \<open>Falcon_Types\<close>: status values, fatal checks, durations, ordered containers; the enumerations.
  \<^item> \<open>Bitmap\<close>, \<open>Credits\<close>: the window bitmaps (every operation against a list of bits; a locale of the
    interface the window code uses) and the vectors of credits (comparison, reserve and release, wrap-around).
  \<^item> \<open>Transactions\<close>, \<open>Resource_Manager\<close>: packets and transactions of a connection with their state machine;
    admission of packets against the credits. Credits are conserved over every history, a transaction
    gives back what it reserved, and the zones keep the head of line moving.
  \<^item> \<open>Admission_Control\<close>, \<open>Weighted_Round_Robin\<close>, \<open>Round_Robin\<close>, \<open>Host_Rx_Scheduler\<close>: the token bucket and the
    solicitation window; the deficit and ring policies (one locale, one interpretation for each policy); the
    scheduler of the hosts of a bifurcated NIC.
  \<^item> \<open>Fast_Schedulers\<close>, \<open>Fast_Scheduler_Facts\<close>, \<open>Fast_Scheduler_History\<close>, \<open>Arbiter\<close>: the event-based connection
    and retransmission schedulers, the invariant that the incremental gating equals recomputing it, and the
    arbiter that shares the link between schedulers.
  \<^item> \<open>Rx_Window\<close>, \<open>Reliability_State\<close>, \<open>Tx_Window\<close>, \<open>Loss_Recovery\<close>, \<open>Loss_Recovery_Facts\<close>, \<open>Receive\<close>, \<open>Exactly_Once\<close>,
    \<open>Ack_Coalescing\<close>: the packet reliability manager of generation 1 and the ACK coalescing engine.
    Delivery is exactly once over every history of the receiver; the sender's windows, cumulative and
    selective ACKs, timeouts, RACK and NACK handling.
  \<^item> \<open>Reorder\<close>: the buffer reorder engine, in-order delivery and completion, and how it stops at the wrap-around.
  \<^item> \<open>Event_Queue\<close>: the simulation environment.
  \<^item> \<open>Ip_Trie\<close>, \<open>Routing\<close>: the routing trie against longest-prefix match; routing tables, port selection.
  \<^item> \<open>Mmu\<close>, \<open>Router\<close>: memory management, flow control, queues, ports and events of a router;
    \<open>Router_Memory\<close>, \<open>Router_Conservation\<close>, \<open>Router_Control\<close>, \<open>Router_Ports\<close>, \<open>Router_History\<close>: the two invariants
    over its histories (\<open>router_reach\<close>), of the memory, where every counter is what the packets took, those dropped by
    the routing pipeline included, and of the events of the ports; \<open>Router_Properties\<close>: what they give.
  \<^item> \<open>Host_Rx_Buffers\<close>: the write queue of the memory interface and the buffer in front of it
    (\<open>host/rnic/memory_interface\<close>, \<open>host/rdma/rdma_per_host_rx_buffers\<close>), one FIFO queue up to the transmission, that drains.
  \<^item> \<open>Rdma_Types\<close>, \<open>Rdma_Scheduler\<close>, \<open>Rdma_Falcon\<close>: RDMA over Falcon (\<open>host/rdma/rdma_falcon_model.cc\<close>,
    \<open>rdma_falcon_work_scheduler.cc\<close>, \<open>rdma_base_model.cc\<close>): its data, the work scheduler, its operations and the
    histories \<open>rdma_reach\<close> of calls and events.
  \<^item> \<open>Rdma_Frames\<close>, \<open>Rdma_Effects\<close>: what each operation leaves alone and what it does; \<open>Rdma_Weights\<close>,
    \<open>Host_Rx_Callbacks\<close>: the locale \<open>delivery_law\<close>, that whatever waits moves from one place to the next, interpreted for
    completions, answers and acceptance; \<open>Rdma_Credits\<close>, \<open>Rdma_Wakeup\<close>, \<open>Rdma_Stranded\<close>, \<open>Rdma_Queue_Pairs\<close>,
    \<open>Rdma_Completions\<close>, \<open>Rdma_Answers\<close>: the invariants over the histories; \<open>Rdma_Properties\<close>: what they give.

  \<^bold>\<open>Loops.\<close> A loop over a container that the body shrinks recurses over the elements the container had when the
  loop began (\<open>each\<close>), so it needs no fuel; the loops that may not end are \<open>partial_function (option)\<close>
  (the arbiter, the event loop, the scan for NACKs), and that they return, or when they do not, is proved.

  \<^bold>\<open>Assumptions.\<close> Third-party code is a parameter: OMNeT++ delivers events in the order of their times and
  refuses to schedule a message that is pending or in the past; the channel of a port takes a time that is not
  negative; a hash map iterates over its entries in some order; protocol buffers are given as records. The bounds on histories of RDMA (fewer than \<open>2 ^ 32\<close> calls and events) keep
  sequence numbers from being used twice; \<open>f\<close> in its theorems is the connection each queue pair is created on.

  \<^bold>\<open>Not modelled.\<close> The congestion control algorithms (\<open>rue/algorithm\<close>, \<open>dcqcn\<close>) are floating-point arithmetic
  whose behaviour is rounding. Generations 2 and 3 of Falcon override the windows for 256 bits and several
  paths; the RoCE transport, the traffic generator (random workloads), the RNIC glue between OMNeT++
  messages and packets, statistics and configuration files are left out, and of RDMA the opaque cookies and
  latency histograms; the polling schedulers
  are the predecessors of the modelled event-based ones.
\<close>

end
